(* ===== verification/Prelude.thy ===== *)
theory Prelude
  imports Main "HOL-Library.Word" "HOL-Library.AList"
begin

text \<open>
  Shared vocabulary of the development: the JavaScript values the browser runtime
  validates, its strings, errors and insertion-ordered \<^verbatim>\<open>Map\<close>s, the result type every
  fallible operation returns, and the generic lemmas the component theories use.
\<close>

named_theorems js_simps \<open>evaluation of the JavaScript primitives\<close>
named_theorems map_simps \<open>insertion-ordered maps\<close>

section \<open>Bytes, strings and numbers\<close>

type_synonym byte = "8 word"

text \<open>A JavaScript string is its list of UTF-16 code units; \<open>js\<close> writes an ASCII literal.\<close>

type_synonym jstr = "nat list"

definition js :: "string \<Rightarrow> jstr" where
  "js s = map of_char s"

text \<open>A natural number in a template string.\<close>

fun decimal :: "nat \<Rightarrow> jstr" where
  "decimal n = (if n < 10 then [48 + n] else decimal (n div 10) @ [48 + n mod 10])"

declare decimal.simps [simp del]

text \<open>
  A field of a message another realm sent, as the validating code sees it: missing
  (\<^verbatim>\<open>undefined\<close>), a number with an integral value, or anything else (a fraction, a
  non-finite number, a value of another type).
\<close>

datatype jnum = Undef | IntV int | Other

definition max_safe :: int where
  "max_safe = 9007199254740991"

fun isInteger :: "jnum \<Rightarrow> bool" where
  "isInteger (IntV i) = True"
| "isInteger _ = False"

fun isSafeInteger :: "jnum \<Rightarrow> bool" where
  "isSafeInteger (IntV i) \<longleftrightarrow> - max_safe \<le> i \<and> i \<le> max_safe"
| "isSafeInteger _ \<longleftrightarrow> False"

fun the_int :: "jnum \<Rightarrow> int" where
  "the_int (IntV i) = i"
| "the_int _ = 0"

lemma unat_byte: "unat (b :: byte) < 256"
  using unsigned_less [of b, where 'a = nat] by simp

section \<open>Errors and results\<close>

datatype jserror = Error jstr | TypeError jstr | RangeError jstr

type_synonym 'a result = "jserror + 'a"

abbreviation throw :: "string \<Rightarrow> 'a result" where
  "throw s \<equiv> Inl (Error (js s))"

fun bind :: "'a result \<Rightarrow> ('a \<Rightarrow> 'b result) \<Rightarrow> 'b result" where
  "bind (Inl e) f = Inl e"
| "bind (Inr x) f = f x"

fun message :: "jserror \<Rightarrow> jstr" where
  "message (Error m) = m"
| "message (TypeError m) = m"
| "message (RangeError m) = m"

fun is_ok :: "'a result \<Rightarrow> bool" where
  "is_ok (Inl e) = False"
| "is_ok (Inr x) = True"

lemma bind_eq_Inr [simp]: "bind r f = Inr y \<longleftrightarrow> (\<exists>x. r = Inr x \<and> f x = Inr y)"
  by (cases r) auto

lemma bind_eq_Inl: "bind r f = Inl e \<longleftrightarrow> r = Inl e \<or> (\<exists>x. r = Inr x \<and> f x = Inl e)"
  by (cases r) auto

lemma is_ok_iff: "is_ok r \<longleftrightarrow> (\<exists>x. r = Inr x)"
  by (cases r) auto

lemma not_Inl_iff: "(\<forall>e. r \<noteq> Inl e) \<longleftrightarrow> (\<exists>x. r = Inr x)"
  by (cases r) auto

lemma isInteger_iff [js_simps]: "isInteger n \<longleftrightarrow> (\<exists>i. n = IntV i)"
  by (cases n) auto

lemma isSafeInteger_iff [js_simps]:
  "isSafeInteger n \<longleftrightarrow> (\<exists>i. n = IntV i \<and> - max_safe \<le> i \<and> i \<le> max_safe)"
  by (cases n) auto

section \<open>Insertion-ordered maps\<close>

text \<open>
  A \<^verbatim>\<open>Map\<close> is an association list in insertion order: \<^verbatim>\<open>set\<close> on a present key keeps its
  place and on a new key appends, \<^verbatim>\<open>delete\<close> removes it, and iteration follows the list.
  These are exactly the library's \<^const>\<open>AList.update\<close> and \<^const>\<open>AList.delete\<close>.
\<close>

type_synonym ('k, 'v) jmap = "('k \<times> 'v) list"

definition mget :: "('k, 'v) jmap \<Rightarrow> 'k \<Rightarrow> 'v option" where
  "mget m k = map_of m k"

definition mset :: "('k, 'v) jmap \<Rightarrow> 'k \<Rightarrow> 'v \<Rightarrow> ('k, 'v) jmap" where
  "mset m k v = AList.update k v m"

definition mdelete :: "('k, 'v) jmap \<Rightarrow> 'k \<Rightarrow> ('k, 'v) jmap" where
  "mdelete m k = AList.delete k m"

definition mhas :: "('k, 'v) jmap \<Rightarrow> 'k \<Rightarrow> bool" where
  "mhas m k \<longleftrightarrow> mget m k \<noteq> None"

definition mkeys :: "('k, 'v) jmap \<Rightarrow> 'k list" where
  "mkeys m = map fst m"

definition mvalues :: "('k, 'v) jmap \<Rightarrow> 'v list" where
  "mvalues m = map snd m"

definition wf_map :: "('k, 'v) jmap \<Rightarrow> bool" where
  "wf_map m \<longleftrightarrow> distinct (map fst m)"

text \<open>The contract every component relies on when it keeps a table in a \<^verbatim>\<open>Map\<close>.\<close>

locale ordered_map =
  fixes get :: "'m \<Rightarrow> 'k \<Rightarrow> 'v option"
    and put :: "'m \<Rightarrow> 'k \<Rightarrow> 'v \<Rightarrow> 'm"
    and del :: "'m \<Rightarrow> 'k \<Rightarrow> 'm"
    and entries :: "'m \<Rightarrow> ('k \<times> 'v) list"
    and wf :: "'m \<Rightarrow> bool"
  assumes get_put: "get (put m k v) j = (if j = k then Some v else get m j)"
    and get_del: "get (del m k) j = (if j = k then None else get m j)"
    and wf_put: "wf m \<Longrightarrow> wf (put m k v)"
    and wf_del: "wf m \<Longrightarrow> wf (del m k)"
    and entries_distinct: "wf m \<Longrightarrow> distinct (map fst (entries m))"
    and entries_get: "wf m \<Longrightarrow> (k, v) \<in> set (entries m) \<longleftrightarrow> get m k = Some v"
    and entries_fresh: "get m k = None \<Longrightarrow> entries (put m k v) = entries m @ [(k, v)]"
    and entries_del: "entries (del m k) = filter (\<lambda>e. fst e \<noteq> k) (entries m)"
begin

lemma put_del_fresh: "get m k = None \<Longrightarrow> get (del (put m k v) k) j = get m j"
  by (simp add: get_put get_del)

lemma size_put_fresh: "get m k = None \<Longrightarrow> length (entries (put m k v)) = Suc (length (entries m))"
  by (simp add: entries_fresh)

lemma key_in_entries: "wf m \<Longrightarrow> k \<in> fst ` set (entries m) \<longleftrightarrow> get m k \<noteq> None"
proof -
  assume "wf m"
  then have "(\<exists>v. (k, v) \<in> set (entries m)) \<longleftrightarrow> get m k \<noteq> None" by (simp add: entries_get)
  then show ?thesis by force
qed

end

interpretation jm: ordered_map mget mset mdelete "\<lambda>m. m" wf_map
proof (unfold_locales, goal_cases)
  case (1 m k v j) then show ?case by (simp add: mget_def mset_def update_conv')
next
  case (2 m k j) then show ?case by (simp add: mget_def mdelete_def delete_conv')
next
  case (3 m k v) then show ?case by (simp add: wf_map_def mset_def distinct_update)
next
  case (4 m k) then show ?case by (simp add: wf_map_def mdelete_def distinct_delete)
next
  case (5 m) then show ?case by (simp add: wf_map_def)
next
  case (6 m k v) then show ?case by (simp add: wf_map_def mget_def)
next
  case (7 m k v) then show ?case
    by (induction m) (auto simp: mget_def mset_def split: if_splits)
next
  case (8 m k) then show ?case by (induction m) (auto simp: mdelete_def)
qed

lemmas map_laws [map_simps, simp] = jm.get_put jm.get_del jm.wf_put jm.wf_del

lemma mget_Nil [simp]: "mget [] k = None"
  by (simp add: mget_def)

lemma mget_Cons: "mget ((k', v) # m) k = (if k = k' then Some v else mget m k)"
  by (simp add: mget_def)

lemma wf_map_Nil [simp]: "wf_map []"
  by (simp add: wf_map_def)

lemma wf_map_Cons: "wf_map ((k, v) # m) \<longleftrightarrow> mget m k = None \<and> wf_map m"
  by (auto simp: wf_map_def mget_def map_of_eq_None_iff)

lemma mset_fresh: "mget m k = None \<Longrightarrow> mset m k v = m @ [(k, v)]"
  by (rule jm.entries_fresh)

lemma mdelete_fresh [simp]: "mget m k = None \<Longrightarrow> mdelete m k = m"
  by (induction m) (auto simp: mget_def mdelete_def split: if_splits)

lemma mget_Some_set: "mget m k = Some v \<Longrightarrow> (k, v) \<in> set m"
  by (simp add: mget_def map_of_SomeD)

lemma mdelete_append: "mdelete (m @ m') k = mdelete m k @ mdelete m' k"
  unfolding mdelete_def by (simp add: AList.delete_eq)

lemma mdelete_mset: "mdelete (mset m k v) k = mdelete m k"
  unfolding mset_def mdelete_def by (induction m) auto

lemma mdelete_commute: "mdelete (mdelete m j) k = mdelete (mdelete m k) j"
  unfolding mdelete_def by (rule AList.delete_twist)

lemma mset_mset [simp]: "mset (mset m k v) k w = mset m k w"
  unfolding mset_def by (induction m) auto

lemma mset_same: "mget m k = Some v \<Longrightarrow> mset m k v = m"
  unfolding mset_def mget_def by (induction m) (auto split: if_splits)

lemma set_mdelete_subset: "set (mdelete m k) \<subseteq> set m"
  by (auto simp: mdelete_def AList.delete_eq)

lemma mvalues_mset_subset: "set (mvalues (mset m k v)) \<subseteq> insert v (set (mvalues m))"
  by (induction m) (auto simp: mvalues_def mset_def)

lemma mvalues_mdelete_subset: "set (mvalues (mdelete m k)) \<subseteq> set (mvalues m)"
  by (auto simp: mvalues_def mdelete_def AList.delete_eq)

lemma mvalues_mset_fresh: "mget m k = None \<Longrightarrow> mvalues (mset m k v) = mvalues m @ [v]"
  by (simp add: mset_fresh mvalues_def)

lemma mkeys_mset_fresh: "mget m k = None \<Longrightarrow> mkeys (mset m k v) = mkeys m @ [k]"
  by (simp add: mset_fresh mkeys_def)

lemma mkeys_mset_present: "mget m k \<noteq> None \<Longrightarrow> mkeys (mset m k v) = mkeys m"
  by (induction m) (auto simp: mget_def mset_def mkeys_def split: if_splits)

lemma set_mkeys: "k \<in> set (mkeys m) \<longleftrightarrow> mget m k \<noteq> None"
  by (simp add: mkeys_def mget_def map_of_eq_None_iff)

lemma mget_map_snd: "mget (map (\<lambda>(k, v). (k, f v)) m) k = map_option f (mget m k)"
  by (induction m) (auto simp: mget_def)

text \<open>Weighted sums over a table, for the byte accounting the components keep.\<close>

definition msum :: "('v \<Rightarrow> nat) \<Rightarrow> ('k, 'v) jmap \<Rightarrow> nat" where
  "msum f m = sum_list (map f (mvalues m))"

lemma msum_Nil [simp]: "msum f [] = 0"
  by (simp add: msum_def mvalues_def)

lemma msum_Cons [simp]: "msum f ((k, v) # m) = f v + msum f m"
  by (simp add: msum_def mvalues_def)

lemma msum_mset_fresh: "mget m k = None \<Longrightarrow> msum f (mset m k v) = msum f m + f v"
  by (simp add: msum_def mvalues_mset_fresh)

lemma msum_mdelete:
  "wf_map m \<Longrightarrow> mget m k = Some v \<Longrightarrow> msum f (mdelete m k) + f v = msum f m"
proof (induction m)
  case Nil
  then show ?case by simp
next
  case (Cons e m)
  obtain k' v' where e: "e = (k', v')" by fastforce
  have eq: "mdelete (e # m) k = (if k = k' then mdelete m k else e # mdelete m k)"
    by (simp add: e mdelete_def)
  from Cons e eq show ?case
    by (auto simp: wf_map_Cons mget_Cons split: if_splits)
qed

lemma msum_mset_present:
  "wf_map m \<Longrightarrow> mget m k = Some v \<Longrightarrow> msum f (mset m k w) + f v = msum f m + f w"
  by (induction m) (auto simp: mset_def mget_Cons wf_map_Cons split: if_splits)

section \<open>Lists\<close>

lemma take_drop_append_mid: "length xs = n \<Longrightarrow> length ys = k \<Longrightarrow> take k (drop n (xs @ ys @ zs)) = ys"
  by simp

lemma length_concat_map: "length (concat (map f xs)) = sum_list (map (length \<circ> f) xs)"
  by (induction xs) auto

lemma sum_list_filter_le: "sum_list (map f (filter P xs)) \<le> sum_list (map (f :: 'a \<Rightarrow> nat) xs)"
  by (induction xs) auto

text \<open>\<^verbatim>\<open>Uint8Array.prototype.set\<close>: overwrite from an offset, refused when it does not fit.\<close>

definition blit :: "'a list \<Rightarrow> nat \<Rightarrow> 'a list \<Rightarrow> 'a list" where
  "blit dst at src = take at dst @ src @ drop (at + length src) dst"

lemma length_blit [simp]: "at + length src \<le> length dst \<Longrightarrow> length (blit dst at src) = length dst"
  by (simp add: blit_def)

lemma blit_read: "at + length src \<le> length dst \<Longrightarrow> take (length src) (drop at (blit dst at src)) = src"
  by (simp add: blit_def)

lemma blit_before: "at + length src \<le> length dst \<Longrightarrow> n \<le> at \<Longrightarrow> take n (blit dst at src) = take n dst"
  by (simp add: blit_def)

lemma blit_extends:
  "at + length src \<le> length dst \<Longrightarrow> take (at + length src) (blit dst at src) = take at dst @ src"
  by (simp add: blit_def)

text \<open>
  The loop that copies chunks one after another into a fresh buffer, which the transfer
  table, the HTTP bridge and the asset loader all use.
\<close>

fun join_at :: "byte list \<Rightarrow> nat \<Rightarrow> byte list list \<Rightarrow> byte list" where
  "join_at buf at [] = buf"
| "join_at buf at (c # cs) = join_at (blit buf at c) (at + length c) cs"

definition assemble :: "nat \<Rightarrow> byte list list \<Rightarrow> byte list" where
  "assemble n chunks = join_at (replicate n 0) 0 chunks"

lemma join_at_concat:
  "at + length (concat cs) = length buf \<Longrightarrow> join_at buf at cs = take at buf @ concat cs"
proof (induction cs arbitrary: buf at)
  case Nil
  then show ?case by simp
next
  case (Cons c cs)
  then have "join_at (blit buf at c) (at + length c) cs
      = take (at + length c) (blit buf at c) @ concat cs"
    by (intro Cons.IH) simp
  also have "take (at + length c) (blit buf at c) = take at buf @ c"
    using Cons.prems by (intro blit_extends) simp
  finally show ?case by simp
qed

lemma assemble_concat [simp]: "n = length (concat cs) \<Longrightarrow> assemble n cs = concat cs"
  by (simp add: assemble_def join_at_concat)

end
