(* ===== verification/Transfers.thy ===== *)
theory Transfers
  imports Prelude
begin

text \<open>
  The per-frame transfer table of \<^verbatim>\<open>src/runtime/luajit/transfers.mjs\<close>: a guest frame
  carries descriptors and one payload, the table lends a view of each described range,
  every lease must be released before the frame is answered, and the answer returns the
  bytes of the writable leases. Views of different leases never overlap, so each entry
  holds its own bytes.
\<close>

section \<open>The table\<close>

record descriptor =
  d_id :: jnum
  d_offset :: jnum
  d_bytes :: jnum
  d_writable :: "bool option"  \<comment> \<open>\<open>None\<close>: not a boolean\<close>

record lease_entry =
  le_id :: int
  le_bytes :: nat
  le_writable :: bool
  le_view :: "byte list"
  le_released :: bool

type_synonym transfers = "(int, lease_entry) jmap"

record returned_lease =
  rt_id :: int
  rt_extent :: "(nat \<times> nat) option"

definition descriptor_ok :: "transfers \<Rightarrow> nat \<Rightarrow> nat \<Rightarrow> descriptor \<Rightarrow> bool" where
  "descriptor_ok leases extent at d \<longleftrightarrow>
     isSafeInteger (d_id d) \<and> \<not> the_int (d_id d) \<le> 0 \<and> \<not> mhas leases (the_int (d_id d)) \<and>
     isSafeInteger (d_offset d) \<and> the_int (d_offset d) = int at \<and>
     isSafeInteger (d_bytes d) \<and> \<not> the_int (d_bytes d) < 0 \<and>
     \<not> the_int (d_bytes d) > int extent - int at \<and> d_writable d \<noteq> None"

fun claim_leases ::
  "byte list \<Rightarrow> descriptor list \<Rightarrow> nat \<Rightarrow> transfers \<Rightarrow> (nat \<times> transfers) result" where
  "claim_leases payload [] at leases = Inr (at, leases)"
| "claim_leases payload (d # ds) at leases =
     (if \<not> descriptor_ok leases (length payload) at d
      then throw ''Invalid guest transfer descriptor''
      else let n = nat (the_int (d_bytes d)) in
        claim_leases payload ds (at + n)
          (mset leases (the_int (d_id d))
            \<lparr>le_id = the_int (d_id d), le_bytes = n, le_writable = the (d_writable d),
             le_view = take n (drop at payload), le_released = False\<rparr>))"

text \<open>\<open>None\<close> for a descriptor list that is not an array.\<close>

definition createTransfers :: "descriptor list option \<Rightarrow> byte list \<Rightarrow> transfers result" where
  "createTransfers descriptors payload =
     (case descriptors of
        None \<Rightarrow> throw ''Invalid guest transfer batch''
      | Some ds \<Rightarrow>
          if length ds > 256 \<or> length payload > 2 * 1024 * 1024
          then throw ''Invalid guest transfer batch''
          else bind (claim_leases payload ds 0 []) (\<lambda>(at, leases).
            if at \<noteq> length payload then throw ''Unclaimed guest transfer bytes''
            else Inr leases))"

fun lookup_lease :: "transfers \<Rightarrow> jnum \<Rightarrow> lease_entry option" where
  "lookup_lease t (IntV i) = mget t i"
| "lookup_lease t _ = None"

definition lease :: "transfers \<Rightarrow> jnum \<Rightarrow> jnum \<Rightarrow> bool \<Rightarrow> lease_entry result" where
  "lease t i expectedBytes writable =
     (case lookup_lease t i of
        None \<Rightarrow> throw ''Guest transfer lease is stale or has the wrong extent or access''
      | Some entry \<Rightarrow>
          if le_released entry
             \<or> expectedBytes \<noteq> Undef \<and> IntV (int (le_bytes entry)) \<noteq> expectedBytes
             \<or> writable \<and> \<not> le_writable entry
          then throw ''Guest transfer lease is stale or has the wrong extent or access''
          else Inr entry)"

fun release :: "transfers \<Rightarrow> jnum \<Rightarrow> transfers" where
  "release t (IntV i) =
     (case mget t i of None \<Rightarrow> t | Some entry \<Rightarrow> mset t i (entry\<lparr>le_released := True\<rparr>))"
| "release t _ = t"

fun return_leases ::
  "lease_entry list \<Rightarrow> nat \<Rightarrow> (nat \<times> returned_lease list \<times> byte list list) result" where
  "return_leases [] offset = Inr (offset, [], [])"
| "return_leases (e # es) offset =
     (if \<not> le_released e then throw ''Browser operation retained a guest transfer lease''
      else if le_writable e
      then bind (return_leases es (offset + le_bytes e)) (\<lambda>(n, rs, ps).
             Inr (n, \<lparr>rt_id = le_id e, rt_extent = Some (offset, le_bytes e)\<rparr> # rs,
                  le_view e # ps))
      else bind (return_leases es offset) (\<lambda>(n, rs, ps).
             Inr (n, \<lparr>rt_id = le_id e, rt_extent = None\<rparr> # rs, ps)))"

definition response :: "transfers \<Rightarrow> (returned_lease list \<times> byte list) result" where
  "response t = bind (return_leases (mvalues t) 0)
     (\<lambda>(offset, returned, pieces). Inr (returned, assemble offset pieces))"

text \<open>Writing through a lease's view: \<^verbatim>\<open>view.set(bytes, at)\<close>.\<close>

definition write_view :: "transfers \<Rightarrow> int \<Rightarrow> nat \<Rightarrow> byte list \<Rightarrow> transfers" where
  "write_view t i at bs =
     (case mget t i of None \<Rightarrow> t
      | Some e \<Rightarrow> mset t i (e\<lparr>le_view := blit (le_view e) at bs\<rparr>))"

section \<open>Well-formedness\<close>

definition entry_ok :: "int \<times> lease_entry \<Rightarrow> bool" where
  "entry_ok p \<longleftrightarrow> le_id (snd p) = fst p \<and> 0 < fst p \<and> le_bytes (snd p) = length (le_view (snd p))"

definition wf_transfers :: "transfers \<Rightarrow> bool" where
  "wf_transfers t \<longleftrightarrow> wf_map t \<and> (\<forall>p \<in> set t. entry_ok p)"

definition outstanding :: "transfers \<Rightarrow> int set" where
  "outstanding t = {i. \<exists>e. mget t i = Some e \<and> \<not> le_released e}"

lemma wf_transfers_mget: "wf_transfers t \<Longrightarrow> mget t i = Some e \<Longrightarrow> entry_ok (i, e)"
  by (auto simp: wf_transfers_def dest: mget_Some_set)

lemma set_mset_subset: "set (mset m k v) \<subseteq> insert (k, v) (set m)"
  by (induction m) (auto simp: mset_def)

lemma wf_transfers_mset: "wf_transfers t \<Longrightarrow> entry_ok (i, e) \<Longrightarrow> wf_transfers (mset t i e)"
  using set_mset_subset [of t i e] by (auto simp: wf_transfers_def)

lemma wf_release: "wf_transfers t \<Longrightarrow> wf_transfers (release t i)"
  by (cases i) (auto simp: entry_ok_def split: option.splits
      intro!: wf_transfers_mset dest: wf_transfers_mget)

lemma wf_write_view:
  assumes "wf_transfers t" and "mget t i = Some e" and "at + length bs \<le> length (le_view e)"
  shows "wf_transfers (write_view t i at bs)"
  using assms wf_transfers_mget [of t i e]
  by (auto simp: write_view_def entry_ok_def intro!: wf_transfers_mset)

lemma claim_leases_invariant:
  assumes "claim_leases payload ds at leases = Inr (n, t)"
    and "wf_transfers leases" and "at \<le> length payload"
    and "concat (map le_view (mvalues leases)) = take at payload"
    and "\<forall>e \<in> set (mvalues leases). \<not> le_released e"
  shows "wf_transfers t \<and> n \<le> length payload \<and> concat (map le_view (mvalues t)) = take n payload
    \<and> (\<forall>e \<in> set (mvalues t). \<not> le_released e)
    \<and> mkeys t = mkeys leases @ map (the_int \<circ> d_id) ds"
  using assms
proof (induction payload ds at leases rule: claim_leases.induct)
  case (1 payload at leases)
  then show ?case by simp
next
  case (2 payload d ds at leases)
  let ?i = "the_int (d_id d)" and ?n = "nat (the_int (d_bytes d))"
  let ?e = "\<lparr>le_id = ?i, le_bytes = ?n, le_writable = the (d_writable d),
             le_view = take ?n (drop at payload), le_released = False\<rparr>"
  have ok: "descriptor_ok leases (length payload) at d"
    using "2.prems"(1) by (auto split: if_splits)
  then have fresh: "mget leases ?i = None" and fits: "at + ?n \<le> length payload" and pos: "0 < ?i"
    by (auto simp: descriptor_ok_def mhas_def)
  have tail: "claim_leases payload ds (at + ?n) (mset leases ?i ?e) = Inr (n, t)"
    using "2.prems"(1) ok by (simp add: Let_def)
  have wf: "wf_transfers (mset leases ?i ?e)"
    using "2.prems"(2) pos fits by (auto simp: entry_ok_def intro!: wf_transfers_mset)
  have "wf_transfers t \<and> n \<le> length payload \<and> concat (map le_view (mvalues t)) = take n payload
    \<and> (\<forall>e \<in> set (mvalues t). \<not> le_released e)
    \<and> mkeys t = mkeys (mset leases ?i ?e) @ map (the_int \<circ> d_id) ds"
    using "2.prems"(4,5) fits ok wf fresh tail
    by (intro "2.IH") (auto simp: mvalues_mset_fresh take_add)
  then show ?case by (simp add: mkeys_mset_fresh fresh)
qed

lemma outstanding_all:
  assumes "\<forall>e \<in> set (mvalues t). \<not> le_released e"
  shows "outstanding t = set (mkeys t)"
proof -
  have "\<not> le_released e" if "mget t i = Some e" for i e
    using assms mget_Some_set [OF that] by (force simp: mvalues_def)
  then show ?thesis by (auto simp: outstanding_def set_mkeys)
qed

section \<open>The contract its users rely on\<close>

locale lease_table =
  fixes acquire :: "'t \<Rightarrow> jnum \<Rightarrow> jnum \<Rightarrow> bool \<Rightarrow> 'e result"
    and free :: "'t \<Rightarrow> jnum \<Rightarrow> 't"
    and answer :: "'t \<Rightarrow> 'r result"
    and live :: "'t \<Rightarrow> int set"
    and ok :: "'t \<Rightarrow> bool"
  assumes acquire_live: "acquire t i n w = Inr e \<Longrightarrow> \<exists>k. i = IntV k \<and> k \<in> live t"
    and live_free: "live (free t i) = live t - {k. i = IntV k}"
    and answer_iff: "ok t \<Longrightarrow> is_ok (answer t) \<longleftrightarrow> live t = {}"
    and ok_free: "ok t \<Longrightarrow> ok (free t i)"
begin

lemma ok_free_all: "ok t \<Longrightarrow> ok (foldl free t is)"
  by (induction "is" arbitrary: t) (auto simp: ok_free)

lemma acquire_after_free: "acquire (free t i) i n w \<noteq> Inr e"
  using acquire_live [of "free t i" i n w e] live_free by auto

lemma live_free_all: "live (foldl free t is) = live t - {k. IntV k \<in> set is}"
  by (induction "is" arbitrary: t) (auto simp: live_free)

lemma answer_after_free_all:
  "ok t \<Longrightarrow> live t \<subseteq> {k. IntV k \<in> set is} \<Longrightarrow> is_ok (answer (foldl free t is))"
  by (auto simp: answer_iff live_free_all ok_free_all)

lemma answer_needs_every_lease:
  "ok t \<Longrightarrow> k \<in> live t \<Longrightarrow> IntV k \<notin> set is \<Longrightarrow> \<not> is_ok (answer (foldl free t is))"
  by (auto simp: answer_iff live_free_all ok_free_all)

end

lemma outstanding_release: "outstanding (release t i) = outstanding t - {k. i = IntV k}"
  by (cases i) (auto simp: outstanding_def split: option.splits if_splits)

lemma return_leases_ok: "is_ok (return_leases es n) \<longleftrightarrow> (\<forall>e \<in> set es. le_released e)"
proof (induction es arbitrary: n)
  case (Cons e es)
  show ?case
  proof (cases "return_leases es (if le_writable e then n + le_bytes e else n)")
    case (Inl x)
    then show ?thesis using Cons.IH [of "if le_writable e then n + le_bytes e else n"] by auto
  next
    case (Inr y)
    then show ?thesis using Cons.IH [of "if le_writable e then n + le_bytes e else n"]
      by (cases y) auto
  qed
qed simp

lemma values_outstanding: "wf_map t \<Longrightarrow> (\<forall>e \<in> set (mvalues t). le_released e) \<longleftrightarrow> outstanding t = {}"
  by (fastforce simp: outstanding_def mvalues_def jm.entries_get [symmetric])

interpretation tt: lease_table lease release response outstanding wf_transfers
proof (unfold_locales, goal_cases)
  case (1 t i n w e)
  then show ?case
    by (cases i) (auto simp: lease_def outstanding_def split: option.splits if_splits)
next
  case (2 t i)
  show ?case by (rule outstanding_release)
next
  case (3 t)
  have "is_ok (response t) \<longleftrightarrow> is_ok (return_leases (mvalues t) 0)"
    by (cases "return_leases (mvalues t) 0") (auto simp: response_def)
  with 3 show ?case by (simp add: return_leases_ok values_outstanding wf_transfers_def)
next
  case (4 t i)
  then show ?case by (rule wf_release)
qed

lemma return_leases_extents:
  assumes "return_leases es n = Inr (m, rs, ps)"
    and "\<forall>e \<in> set es. le_bytes e = length (le_view e)"
  shows "m = n + length (concat ps) \<and> map rt_id rs = map le_id es
    \<and> ps = map le_view (filter le_writable es)
    \<and> (\<forall>j < length es. case rt_extent (rs ! j) of
          None \<Rightarrow> \<not> le_writable (es ! j)
        | Some (off, k) \<Rightarrow> le_writable (es ! j) \<and> n \<le> off \<and> k = le_bytes (es ! j)
            \<and> take k (drop (off - n) (concat ps)) = le_view (es ! j))"
  using assms
proof (induction es arbitrary: n m rs ps)
  case Nil
  then show ?case by simp
next
  case (Cons e es)
  let ?n = "if le_writable e then n + le_bytes e else n"
  from Cons.prems(1) obtain rs' ps' where tail: "return_leases es ?n = Inr (m, rs', ps')"
    and rs: "rs = \<lparr>rt_id = le_id e, rt_extent = (if le_writable e then Some (n, le_bytes e) else None)\<rparr> # rs'"
    and ps: "ps = (if le_writable e then le_view e # ps' else ps')"
    by (auto split: if_splits)
  note IH = Cons.IH [OF tail]
  have len: "le_bytes e = length (le_view e)" using Cons.prems(2) by simp
  have ext: "case rt_extent (rs ! j) of
          None \<Rightarrow> \<not> le_writable ((e # es) ! j)
        | Some (off, k) \<Rightarrow> le_writable ((e # es) ! j) \<and> n \<le> off \<and> k = le_bytes ((e # es) ! j)
            \<and> take k (drop (off - n) (concat ps)) = le_view ((e # es) ! j)"
    if "j < length (e # es)" for j
  proof (cases j)
    case 0
    then show ?thesis by (simp add: rs ps len)
  next
    case (Suc i)
    have past: "drop (off - n) (le_view e @ xs) = drop (off - (n + length (le_view e))) xs"
      if "n + length (le_view e) \<le> off" for off and xs :: "byte list"
      using that by simp
    from that Suc have "i < length es" by simp
    with IH Cons.prems(2) have "case rt_extent (rs' ! i) of
          None \<Rightarrow> \<not> le_writable (es ! i)
        | Some (off, k) \<Rightarrow> le_writable (es ! i) \<and> ?n \<le> off \<and> k = le_bytes (es ! i)
            \<and> take k (drop (off - ?n) (concat ps')) = le_view (es ! i)"
      by auto
    then show ?thesis
      by (cases "le_writable e")
        (auto simp: Suc rs ps len past simp del: drop_append split: option.splits)
  qed
  from IH Cons.prems(2) ext show ?case by (auto simp: rs ps len)
qed

section \<open>Properties\<close>

text \<open>C34. A frame's descriptors are accepted only when they tile its payload: in order, the
  views of the leases concatenate to exactly the bytes the guest sent, every lease has the
  length it declared and a distinct positive id, and none is released yet.
\<close>

theorem createTransfers_tiles:
  assumes "createTransfers (Some ds) payload = Inr t"
  shows "wf_transfers t \<and> mkeys t = map (the_int \<circ> d_id) ds
    \<and> concat (map le_view (mvalues t)) = payload
    \<and> outstanding t = set (mkeys t) \<and> length ds \<le> 256 \<and> length payload \<le> 2097152"
proof -
  from assms obtain n where "claim_leases payload ds 0 [] = Inr (n, t)" and n: "n = length payload"
    and "length ds \<le> 256" "length payload \<le> 2097152"
    by (auto simp: createTransfers_def split: if_splits)
  moreover have "wf_transfers t \<and> concat (map le_view (mvalues t)) = take n payload
    \<and> (\<forall>e \<in> set (mvalues t). \<not> le_released e) \<and> mkeys t = map (the_int \<circ> d_id) ds"
    using claim_leases_invariant [OF \<open>claim_leases payload ds 0 [] = Inr (n, t)\<close>]
    by (simp add: wf_transfers_def mvalues_def mkeys_def)
  moreover from this have "outstanding t = set (mkeys t)"
    by (simp add: outstanding_all)
  ultimately show ?thesis by simp
qed

definition sample_descriptors :: "descriptor list" where
  "sample_descriptors =
     [\<lparr>d_id = IntV 7, d_offset = IntV 0, d_bytes = IntV 2, d_writable = Some True\<rparr>,
      \<lparr>d_id = IntV 9, d_offset = IntV 2, d_bytes = IntV 1, d_writable = Some False\<rparr>]"

definition sample_transfers :: transfers where
  "sample_transfers =
     [(7, \<lparr>le_id = 7, le_bytes = 2, le_writable = True, le_view = [1, 2], le_released = False\<rparr>),
      (9, \<lparr>le_id = 9, le_bytes = 1, le_writable = False, le_view = [3], le_released = False\<rparr>)]"

lemma sample_transfers_created: "createTransfers (Some sample_descriptors) [1, 2, 3] = Inr sample_transfers"
  by (simp add: createTransfers_def sample_descriptors_def sample_transfers_def descriptor_ok_def
      max_safe_def mhas_def mset_def mget_Cons Let_def numeral_2_eq_2)

theorem createTransfers_tiles_witness:
  "createTransfers (Some sample_descriptors) [1, 2, 3] = Inr sample_transfers
   \<and> mkeys sample_transfers = [7, 9] \<and> outstanding sample_transfers = {7, 9}
   \<and> concat (map le_view (mvalues sample_transfers)) = [1, 2, 3]"
  using createTransfers_tiles [OF sample_transfers_created] sample_transfers_created
  by (simp add: sample_descriptors_def)

text \<open>A lease is granted exactly when the id names an unreleased entry of the table whose
  extent is the expected one (when one is given) and which is writable when a writable
  view is asked for.
\<close>

theorem lease_granted_iff:
  "is_ok (lease t i expected w) \<longleftrightarrow>
     (\<exists>k e. i = IntV k \<and> mget t k = Some e \<and> \<not> le_released e
       \<and> (expected = Undef \<or> expected = IntV (int (le_bytes e))) \<and> (w \<longrightarrow> le_writable e))"
  by (cases i) (auto simp: lease_def split: option.splits)

theorem lease_granted_iff_witness:
  "is_ok (lease sample_transfers (IntV 7) (IntV 2) True)
   \<and> \<not> is_ok (lease sample_transfers (IntV 9) Undef True) \<and> \<not> is_ok (lease sample_transfers (IntV 7) (IntV 3) True)"
  by (simp add: lease_granted_iff sample_transfers_def mget_Cons)

text \<open>Once every outstanding lease has been released the frame can be answered, and no
  sooner; the answer names every lease in order, and the extent it gives for a writable
  lease selects exactly that lease's view from the returned payload.
\<close>

theorem response_returns_views:
  assumes "wf_transfers t"
  shows "(is_ok (response t) \<longleftrightarrow> outstanding t = {})
    \<and> (\<forall>rs payload. response t = Inr (rs, payload) \<longrightarrow>
         map rt_id rs = mkeys t
         \<and> payload = concat (map le_view (filter le_writable (mvalues t)))
         \<and> (\<forall>j < length t. case rt_extent (rs ! j) of
               None \<Rightarrow> \<not> le_writable (mvalues t ! j)
             | Some (off, k) \<Rightarrow> take k (drop off payload) = le_view (mvalues t ! j)))"
proof (intro conjI allI impI)
  show "is_ok (response t) \<longleftrightarrow> outstanding t = {}" using assms by (rule tt.answer_iff)
next
  fix rs payload
  assume "response t = Inr (rs, payload)"
  then obtain n ps where rl: "return_leases (mvalues t) 0 = Inr (n, rs, ps)"
    and p: "payload = assemble n ps"
    by (auto simp: response_def)
  have lens: "\<forall>e \<in> set (mvalues t). le_bytes e = length (le_view e)"
    and ids: "map le_id (mvalues t) = mkeys t"
    using assms by (auto simp: wf_transfers_def mvalues_def mkeys_def entry_ok_def)
  note facts = return_leases_extents [OF rl lens]
  have payload: "payload = concat ps" using facts by (simp add: p)
  show "map rt_id rs = mkeys t" using facts ids by simp
  show "payload = concat (map le_view (filter le_writable (mvalues t)))"
    using facts payload by simp
  show "case rt_extent (rs ! j) of
               None \<Rightarrow> \<not> le_writable (mvalues t ! j)
             | Some (off, k) \<Rightarrow> take k (drop off payload) = le_view (mvalues t ! j)"
    if "j < length t" for j
    using facts that payload by (fastforce simp: mvalues_def split: option.splits)
qed

theorem response_returns_views_witness:
  "\<not> is_ok (response sample_transfers)
   \<and> is_ok (response (release (release sample_transfers (IntV 7)) (IntV 9)))
   \<and> response (release (release sample_transfers (IntV 7)) (IntV 9))
       = Inr ([\<lparr>rt_id = 7, rt_extent = Some (0, 2)\<rparr>, \<lparr>rt_id = 9, rt_extent = None\<rparr>], [1, 2])"
proof -
  have wf: "wf_transfers sample_transfers"
    by (simp add: sample_transfers_def wf_transfers_def wf_map_def entry_ok_def)
  let ?t = "release (release sample_transfers (IntV 7)) (IntV 9)"
  have out: "outstanding sample_transfers = {7, 9}"
    by (auto simp: outstanding_def sample_transfers_def mget_Cons split: if_splits)
  have "outstanding ?t = {}" by (simp only: outstanding_release out) auto
  then have "is_ok (response ?t)"
    using response_returns_views [OF wf_release [OF wf_release [OF wf]], of "IntV 7" "IntV 9"] by blast
  moreover have "\<not> is_ok (response sample_transfers)"
    using response_returns_views [OF wf] out by simp
  moreover have "response ?t
       = Inr ([\<lparr>rt_id = 7, rt_extent = Some (0, 2)\<rparr>, \<lparr>rt_id = 9, rt_extent = None\<rparr>], [1, 2])"
    by (simp add: response_def sample_transfers_def mset_def mget_Cons mvalues_def assemble_def blit_def)
  ultimately show ?thesis by blast
qed

end
