(* ===== verification/Channel.thy ===== *)
theory Channel
  imports Prelude
begin

text \<open>
  The single-producer single-consumer transport of \<^verbatim>\<open>src/runtime/wasm/channel.mjs\<close>: one
  endpoint per side of a \<^verbatim>\<open>MessagePort\<close> pair, with credits for messages and bytes that
  cover a packet from its acceptance until its consumption. The operations are functions
  on the endpoint that return the port traffic and callbacks they cause as events; the two
  endpoints and the packets between them form a step relation.
\<close>

section \<open>Packets, endpoints, snapshots\<close>

text \<open>
  \<open>Owned\<close> is a \<^verbatim>\<open>Uint8Array\<close> over the whole of its own \<^verbatim>\<open>ArrayBuffer\<close>, \<open>Window\<close> one over a part
  of it, \<open>Foreign\<close> any other value.
\<close>

datatype payload = Owned "byte list" | Window "byte list" | Foreign

datatype packet =
    Value payload
  | Credit jnum jnum  \<comment> \<open>messages, bytes\<close>
  | EndPacket
  | StopPacket
  | UnknownPacket

datatype direction = Sender | Receiver | BadDirection

record endpoint =
  ep_port :: nat
  ep_direction :: direction
  ep_messages :: nat
  ep_bytes :: nat
  ep_live :: bool
  ep_closed :: bool
  ep_slots :: nat
  ep_room :: nat
  ep_retained :: nat
  ep_queue :: "payload list"
  ep_waiters :: "nat list"
  ep_observers :: "nat list"

text \<open>The page's record of a port it has wrapped, the values of the weak map \<^verbatim>\<open>identities\<close>.\<close>

record identity =
  id_generation :: jnum
  id_claimed :: bool

type_synonym identities = "(nat, identity) jmap"

record saved =
  sv_generation :: jnum
  sv_queue :: "payload list"
  sv_slots :: jnum
  sv_room :: jnum
  sv_retained :: jnum
  sv_closed :: bool

record snapshot =
  sn_port :: "nat option"  \<comment> \<open>\<open>None\<close>: not a \<^verbatim>\<open>MessagePort\<close>\<close>
  sn_direction :: direction
  sn_messages :: jnum
  sn_bytes :: jnum
  sn_closed :: "bool option"
  sn_slots :: jnum
  sn_room :: jnum
  sn_retained :: jnum
  sn_queue :: "payload list option"
  sn_generation :: jnum

text \<open>What an operation does beyond the endpoint's own fields, in order.\<close>

datatype event =
    Posted packet
  | Unlisten
  | PortClosed
  | Resumed nat
  | Observed nat

fun byteLength :: "payload \<Rightarrow> nat" where
  "byteLength (Owned bs) = length bs"
| "byteLength (Window bs) = length bs"
| "byteLength Foreign = 0"

fun isOwned :: "payload \<Rightarrow> bool" where
  "isOwned (Owned bs) = True"
| "isOwned _ = False"

fun contents :: "payload \<Rightarrow> byte list" where
  "contents (Owned bs) = bs"
| "contents (Window bs) = bs"
| "contents Foreign = []"

definition queued_bytes :: "payload list \<Rightarrow> nat" where
  "queued_bytes q = sum_list (map byteLength q)"

text \<open>\<^verbatim>\<open>Set.prototype.add\<close> on an insertion-ordered set.\<close>

definition set_add :: "'a \<Rightarrow> 'a list \<Rightarrow> 'a list" where
  "set_add x xs = (if x \<in> set xs then xs else xs @ [x])"

section \<open>Creating an endpoint\<close>

definition limits :: "jnum \<Rightarrow> jnum \<Rightarrow> unit result" where
  "limits messages bytes =
     (if \<not> isSafeInteger messages \<or> the_int messages \<le> 0 \<or> \<not> isSafeInteger bytes \<or> the_int bytes \<le> 0
      then Inl (RangeError (js ''channel limits must be positive safe integers''))
      else Inr ())"

fun default :: "jnum \<Rightarrow> jnum \<Rightarrow> jnum" where
  "default Undef d = d"
| "default n d = n"

definition accounted :: "jnum \<Rightarrow> int \<Rightarrow> bool" where
  "accounted n most \<longleftrightarrow> isSafeInteger n \<and> \<not> the_int n < 0 \<and> \<not> the_int n > most"

definition endpoint ::
  "identities \<Rightarrow> nat option \<Rightarrow> direction \<Rightarrow> jnum \<Rightarrow> jnum \<Rightarrow> saved \<Rightarrow> identities \<times> endpoint result" where
  "endpoint ids port direction messages bytes saved =
    (case limits messages bytes of Inl e \<Rightarrow> (ids, Inl e) | Inr _ \<Rightarrow>
    (case port of None \<Rightarrow> (ids, Inl (TypeError (js ''a channel endpoint needs a MessagePort''))) | Some p \<Rightarrow>
     if direction \<noteq> Sender \<and> direction \<noteq> Receiver
     then (ids, Inl (TypeError (js ''invalid channel endpoint direction'')))
     else if (case mget ids p of None \<Rightarrow> False
              | Some i \<Rightarrow> id_claimed i \<or> sv_generation saved \<noteq> id_generation i)
     then (ids, throw ''invalid or stale channel endpoint transfer'')
     else
       let queued = sv_queue saved;
           savedSlots = default (sv_slots saved) messages;
           savedRoom = default (sv_room saved) bytes;
           savedRetained = default (sv_retained saved) (IntV 0)
       in if int (length queued) > the_int messages \<or> \<not> accounted savedSlots (the_int messages)
             \<or> \<not> accounted savedRoom (the_int bytes) \<or> \<not> accounted savedRetained (the_int bytes)
          then (ids, Inl (TypeError (js ''invalid channel endpoint accounting'')))
          else if \<not> list_all isOwned queued
          then (ids, Inl (TypeError (js ''invalid queued channel payload'')))
          else if int (queued_bytes queued) \<noteq> the_int savedRetained \<or> direction = Sender \<and> length queued \<noteq> 0
          then (ids, Inl (TypeError (js ''invalid retained channel byte count'')))
          else
            let identity = (case mget ids p of Some i \<Rightarrow> i
                  | None \<Rightarrow> \<lparr>id_generation = default (sv_generation saved) (IntV 1), id_claimed = False\<rparr>);
                ids' = mset ids p identity
            in if \<not> isSafeInteger (id_generation identity) \<or> the_int (id_generation identity) < 1
               then (ids', throw ''invalid channel endpoint generation'')
               else (mset ids' p (identity\<lparr>id_claimed := True\<rparr>),
                     Inr \<lparr>ep_port = p, ep_direction = direction,
                          ep_messages = nat (the_int messages), ep_bytes = nat (the_int bytes),
                          ep_live = True, ep_closed = sv_closed saved,
                          ep_slots = nat (the_int savedSlots), ep_room = nat (the_int savedRoom),
                          ep_retained = nat (the_int savedRetained), ep_queue = queued,
                          ep_waiters = [], ep_observers = []\<rparr>)))"

definition fresh_saved :: saved where
  "fresh_saved = \<lparr>sv_generation = Undef, sv_queue = [], sv_slots = Undef, sv_room = Undef,
     sv_retained = Undef, sv_closed = False\<rparr>"

text \<open>\<open>p1\<close> and \<open>p2\<close> are the two ports of the \<^verbatim>\<open>MessageChannel\<close> the call makes.\<close>

definition createPortChannel ::
  "identities \<Rightarrow> nat \<Rightarrow> nat \<Rightarrow> jnum \<Rightarrow> jnum \<Rightarrow> identities \<times> (endpoint \<times> endpoint) result" where
  "createPortChannel ids p1 p2 messages bytes =
    (case limits messages bytes of Inl e \<Rightarrow> (ids, Inl e) | Inr _ \<Rightarrow>
    (case endpoint ids (Some p1) Sender messages bytes fresh_saved of
       (ids1, Inl e) \<Rightarrow> (ids1, Inl e)
     | (ids1, Inr s) \<Rightarrow>
        (case endpoint ids1 (Some p2) Receiver messages bytes fresh_saved of
           (ids2, Inl e) \<Rightarrow> (ids2, Inl e)
         | (ids2, Inr r) \<Rightarrow> (ids2, Inr (s, r)))))"

definition adoptPortEndpoint :: "identities \<Rightarrow> snapshot \<Rightarrow> identities \<times> endpoint result" where
  "adoptPortEndpoint ids sn =
    (case (sn_closed sn, sn_queue sn) of
       (Some c, Some q) \<Rightarrow>
         endpoint ids (sn_port sn) (sn_direction sn) (sn_messages sn) (sn_bytes sn)
           \<lparr>sv_generation = sn_generation sn, sv_queue = q, sv_slots = sn_slots sn,
            sv_room = sn_room sn, sv_retained = sn_retained sn, sv_closed = c\<rparr>
     | _ \<Rightarrow> (ids, Inl (TypeError (js ''invalid channel endpoint transfer''))))"

section \<open>Operations\<close>

definition wake :: "endpoint \<Rightarrow> endpoint \<times> event list" where
  "wake e = (e\<lparr>ep_waiters := []\<rparr>, map Resumed (ep_waiters e) @ map Observed (ep_observers e))"

definition close :: "endpoint \<Rightarrow> endpoint \<times> event list" where
  "close e =
    (if \<not> ep_live e then (e, [])
     else let (e', ws) = wake (e\<lparr>ep_live := False, ep_closed := True, ep_queue := [], ep_retained := 0\<rparr>)
          in (e', [Posted (if ep_direction e = Sender then EndPacket else StopPacket),
                   Unlisten, PortClosed] @ ws))"

definition arrived_sender :: "endpoint \<Rightarrow> packet \<Rightarrow> endpoint \<times> event list" where
  "arrived_sender e packet =
    (case packet of
       StopPacket \<Rightarrow> wake (e\<lparr>ep_closed := True\<rparr>)
     | Credit m b \<Rightarrow>
         if ep_closed e then (e, [])
         else if m \<noteq> IntV 1 \<or> \<not> isSafeInteger b \<or> the_int b < 0 \<or> ep_slots e + 1 > ep_messages e
              \<or> int (ep_room e) + the_int b > int (ep_bytes e)
         then close e
         else wake (e\<lparr>ep_slots := ep_slots e + 1, ep_room := ep_room e + nat (the_int b)\<rparr>)
     | _ \<Rightarrow> if ep_closed e then (e, []) else close e)"

definition arrived_receiver :: "endpoint \<Rightarrow> packet \<Rightarrow> endpoint \<times> event list" where
  "arrived_receiver e packet =
    (case packet of
       EndPacket \<Rightarrow> wake (e\<lparr>ep_closed := True\<rparr>)
     | Value payload \<Rightarrow>
         if ep_closed e \<or> \<not> isOwned payload \<or> length (ep_queue e) \<ge> ep_messages e
            \<or> ep_retained e + byteLength payload > ep_bytes e
         then close e
         else wake (e\<lparr>ep_queue := ep_queue e @ [payload],
                      ep_retained := ep_retained e + byteLength payload\<rparr>)
     | _ \<Rightarrow> close e)"

definition arrived :: "endpoint \<Rightarrow> packet \<Rightarrow> endpoint \<times> event list" where
  "arrived e packet =
    (if \<not> ep_live e then (e, [])
     else if ep_direction e = Sender then arrived_sender e packet
     else arrived_receiver e packet)"

definition ready :: "endpoint \<Rightarrow> bool" where
  "ready e \<longleftrightarrow> \<not> ep_live e \<or> ep_closed e
     \<or> (if ep_direction e = Sender then ep_slots e > 0 else length (ep_queue e) > 0)"

datatype send_status = Sent | SendClosed payload | Full payload

text \<open>\<open>posts\<close> says whether the browser's \<^verbatim>\<open>postMessage\<close> accepts the packet; it throws \<open>refusal\<close> otherwise.\<close>

definition trySend ::
  "bool \<Rightarrow> jserror \<Rightarrow> endpoint \<Rightarrow> payload \<Rightarrow> endpoint \<times> event list \<times> send_status result" where
  "trySend posts refusal e payload =
    (if ep_direction e \<noteq> Sender \<or> \<not> ep_live e then (e, [], throw ''invalid or moved sender'')
     else if payload = Foreign
     then (e, [], Inl (TypeError (js ''channel payloads must be owned bytes'')))
     else if byteLength payload > ep_bytes e
     then (e, [], Inl (RangeError (js ''channel payload exceeds its byte limit'')))
     else if ep_closed e then (e, [], Inr (SendClosed payload))
     else if ep_slots e = 0 \<or> ep_room e < byteLength payload then (e, [], Inr (Full payload))
     else if posts
     then (e\<lparr>ep_slots := ep_slots e - 1, ep_room := ep_room e - byteLength payload\<rparr>,
           [Posted (Value (Owned (contents payload)))], Inr Sent)
     else let (e', evs) = close e in (e', evs, Inl refusal))"

datatype receive_status = Received payload | ReceiveClosed | Empty

definition tryReceive :: "endpoint \<Rightarrow> endpoint \<times> event list \<times> receive_status result" where
  "tryReceive e =
    (if ep_direction e \<noteq> Receiver \<or> \<not> ep_live e then (e, [], throw ''invalid or moved receiver'')
     else case ep_queue e of
       value # rest \<Rightarrow>
         (e\<lparr>ep_queue := rest, ep_retained := ep_retained e - byteLength value\<rparr>,
          (if ep_closed e then [] else [Posted (Credit (IntV 1) (IntV (int (byteLength value))))]),
          Inr (Received value))
     | [] \<Rightarrow> (e, [], Inr (if ep_closed e then ReceiveClosed else Empty)))"

definition peek :: "endpoint \<Rightarrow> receive_status result" where
  "peek e =
    (if ep_direction e \<noteq> Receiver \<or> \<not> ep_live e then throw ''invalid or moved receiver''
     else case ep_queue e of
       value # rest \<Rightarrow> Inr (Received value)
     | [] \<Rightarrow> Inr (if ep_closed e then ReceiveClosed else Empty))"

text \<open>\<open>callback\<close> names the function passed in, \<open>None\<close> a value that is not one.\<close>

definition subscribe ::
  "endpoint \<Rightarrow> nat option \<Rightarrow> jnum \<Rightarrow> endpoint \<times> event list \<times> unit result" where
  "subscribe e callback requiredBytes =
    (case callback of
       None \<Rightarrow> (e, [], Inl (TypeError (js ''channel readiness needs a callback'')))
     | Some resume \<Rightarrow>
        let required = default requiredBytes (IntV 0) in
        if \<not> isSafeInteger required \<or> the_int required < 0 \<or> the_int required > int (ep_bytes e)
        then (e, [], Inl (RangeError (js ''invalid channel wait size'')))
        else if \<not> ep_live e \<or> ep_closed e
             \<or> (if ep_direction e = Sender
                then ep_slots e > 0 \<and> int (ep_room e) \<ge> the_int required
                else length (ep_queue e) > 0)
        then (e, [Resumed resume], Inr ())
        else (e\<lparr>ep_waiters := set_add resume (ep_waiters e)\<rparr>, [], Inr ()))"

definition unsubscribe :: "endpoint \<Rightarrow> nat \<Rightarrow> endpoint" where
  "unsubscribe e resume = e\<lparr>ep_waiters := removeAll resume (ep_waiters e)\<rparr>"

definition observe :: "endpoint \<Rightarrow> nat option \<Rightarrow> endpoint result" where
  "observe e callback =
    (case callback of
       None \<Rightarrow> Inl (TypeError (js ''channel observation needs a callback''))
     | Some c \<Rightarrow> Inr (e\<lparr>ep_observers := set_add c (ep_observers e)\<rparr>))"

definition unobserve :: "endpoint \<Rightarrow> nat \<Rightarrow> endpoint" where
  "unobserve e c = e\<lparr>ep_observers := removeAll c (ep_observers e)\<rparr>"

definition remoteClose :: "endpoint \<Rightarrow> endpoint \<times> event list" where
  "remoteClose e = (if \<not> ep_live e then (e, []) else wake (e\<lparr>ep_closed := True\<rparr>))"

definition move ::
  "identities \<Rightarrow> endpoint \<Rightarrow> identities \<times> endpoint \<times> event list \<times> snapshot result" where
  "move ids e =
    (if \<not> ep_live e \<or> ep_waiters e \<noteq> [] \<or> ep_observers e \<noteq> []
     then (ids, e, [], throw ''invalid or waiting channel endpoint'')
     else case mget ids (ep_port e) of
       None \<Rightarrow> (ids, e, [], throw ''invalid or waiting channel endpoint'')
     | Some i \<Rightarrow>
        if id_generation i = IntV max_safe
        then let (e', evs) = close e in (ids, e', evs, throw ''channel endpoint generation exhausted'')
        else let g = IntV (the_int (id_generation i) + 1) in
          (mset ids (ep_port e) \<lparr>id_generation = g, id_claimed = False\<rparr>,
           e\<lparr>ep_live := False, ep_queue := [], ep_retained := 0\<rparr>, [Unlisten],
           Inr \<lparr>sn_port = Some (ep_port e), sn_direction = ep_direction e,
                sn_messages = IntV (int (ep_messages e)), sn_bytes = IntV (int (ep_bytes e)),
                sn_closed = Some (ep_closed e), sn_slots = IntV (int (ep_slots e)),
                sn_room = IntV (int (ep_room e)), sn_retained = IntV (int (ep_retained e)),
                sn_queue = Some (ep_queue e), sn_generation = g\<rparr>))"

record inspection =
  in_live :: bool
  in_closed :: bool
  in_queued :: nat
  in_retainedBytes :: nat
  in_availableMessages :: nat
  in_availableBytes :: nat
  in_waits :: nat
  in_observations :: nat
  in_ready :: bool

definition inspect :: "endpoint \<Rightarrow> inspection" where
  "inspect e = \<lparr>in_live = ep_live e, in_closed = ep_closed e, in_queued = length (ep_queue e),
     in_retainedBytes = ep_retained e, in_availableMessages = ep_slots e,
     in_availableBytes = ep_room e, in_waits = length (ep_waiters e),
     in_observations = length (ep_observers e), in_ready = ready e\<rparr>"

end
