(* ===== verification/Channel_Protocol.thy ===== *)
theory Channel_Protocol
  imports Channel
begin

text \<open>
  The two endpoints of a channel and the packets in flight between them, as a step
  relation: sends, receives, deliveries in either direction, closes from either side or by
  the supervisor, and the move of an endpoint into another realm in its three parts: the
  move takes the listener off a port that stays started, the snapshot is transferred later,
  and the other realm adopts it. A packet dispatched between the first two has no listener
  and is lost; ghosts count such packets. The credit invariant holds in every reachable
  state and gives flow control, ordered delivery and the absence of spurious protocol
  failures.
\<close>

section \<open>The system\<close>

text \<open>
  \<open>c_sent\<close> and \<open>c_got\<close> record the values accepted and consumed, \<open>c_lostValues\<close> and
  \<open>c_lostCredits\<close> the contents and the byte counts of packets dispatched without a listener.
\<close>

record link =
  c_snd :: endpoint
  c_rcv :: endpoint
  c_fwd :: "packet list"
  c_bwd :: "packet list"
  c_sent :: "byte list list"
  c_got :: "byte list list"
  c_lostValues :: "byte list list"
  c_lostCredits :: "nat list"

text \<open>Where an endpoint is: wrapped in a realm; taken by a move, its port still started there; in a transfer.\<close>

datatype place = Attached | Detached snapshot | Transferred snapshot

record chan = link +
  c_snd_at :: place
  c_rcv_at :: place

fun posted :: "event list \<Rightarrow> packet list" where
  "posted [] = []"
| "posted (Posted p # evs) = p # posted evs"
| "posted (_ # evs) = posted evs"

fun consumed :: "receive_status result \<Rightarrow> byte list list" where
  "consumed (Inr (Received v)) = [contents v]"
| "consumed _ = []"

definition accepted :: "send_status result \<Rightarrow> payload \<Rightarrow> byte list list" where
  "accepted res p = (if res = Inr Sent then [contents p] else [])"

fun lost_values :: "packet \<Rightarrow> byte list list" where
  "lost_values (Value p) = [contents p]"
| "lost_values _ = []"

fun lost_credits :: "packet \<Rightarrow> nat list" where
  "lost_credits (Credit m b) = [nat (the_int b)]"
| "lost_credits _ = []"

inductive chan_step :: "chan \<Rightarrow> chan \<Rightarrow> bool" where
  send: "trySend posts refusal (c_snd c) p = (s', evs, res) \<Longrightarrow>
    chan_step c (c\<lparr>c_snd := s', c_fwd := c_fwd c @ posted evs, c_sent := c_sent c @ accepted res p\<rparr>)"
| receive: "tryReceive (c_rcv c) = (r', evs, res) \<Longrightarrow>
    chan_step c (c\<lparr>c_rcv := r', c_bwd := c_bwd c @ posted evs, c_got := c_got c @ consumed res\<rparr>)"
| deliver_fwd: "c_rcv_at c = Attached \<Longrightarrow> c_fwd c = p # ps \<Longrightarrow> arrived (c_rcv c) p = (r', evs) \<Longrightarrow>
    chan_step c (c\<lparr>c_rcv := r', c_fwd := ps, c_bwd := c_bwd c @ posted evs\<rparr>)"
| deliver_bwd: "c_snd_at c = Attached \<Longrightarrow> c_bwd c = p # ps \<Longrightarrow> arrived (c_snd c) p = (s', evs) \<Longrightarrow>
    chan_step c (c\<lparr>c_snd := s', c_bwd := ps, c_fwd := c_fwd c @ posted evs\<rparr>)"
| close_snd: "close (c_snd c) = (s', evs) \<Longrightarrow>
    chan_step c (c\<lparr>c_snd := s', c_fwd := c_fwd c @ posted evs\<rparr>)"
| close_rcv: "close (c_rcv c) = (r', evs) \<Longrightarrow>
    chan_step c (c\<lparr>c_rcv := r', c_bwd := c_bwd c @ posted evs\<rparr>)"
| revoke_snd: "remoteClose (c_snd c) = (s', evs) \<Longrightarrow> chan_step c (c\<lparr>c_snd := s'\<rparr>)"
| revoke_rcv: "remoteClose (c_rcv c) = (r', evs) \<Longrightarrow> chan_step c (c\<lparr>c_rcv := r'\<rparr>)"
| wait_snd: "subscribe (c_snd c) k n = (s', evs, res) \<Longrightarrow> chan_step c (c\<lparr>c_snd := s'\<rparr>)"
| wait_rcv: "subscribe (c_rcv c) k n = (r', evs, res) \<Longrightarrow> chan_step c (c\<lparr>c_rcv := r'\<rparr>)"
| move_snd: "move ids (c_snd c) = (ids1, s0, evs, Inr sn) \<Longrightarrow> chan_step c (c\<lparr>c_snd := s0, c_snd_at := Detached sn\<rparr>)"
| move_rcv: "move ids (c_rcv c) = (ids1, r0, evs, Inr sn) \<Longrightarrow> chan_step c (c\<lparr>c_rcv := r0, c_rcv_at := Detached sn\<rparr>)"
| lose_fwd: "c_rcv_at c = Detached sn \<Longrightarrow> c_fwd c = p # ps \<Longrightarrow>
    chan_step c (c\<lparr>c_fwd := ps, c_lostValues := c_lostValues c @ lost_values p\<rparr>)"
| lose_bwd: "c_snd_at c = Detached sn \<Longrightarrow> c_bwd c = p # ps \<Longrightarrow>
    chan_step c (c\<lparr>c_bwd := ps, c_lostCredits := c_lostCredits c @ lost_credits p\<rparr>)"
| transfer_snd: "c_snd_at c = Detached sn \<Longrightarrow> chan_step c (c\<lparr>c_snd_at := Transferred sn\<rparr>)"
| transfer_rcv: "c_rcv_at c = Detached sn \<Longrightarrow> chan_step c (c\<lparr>c_rcv_at := Transferred sn\<rparr>)"
| adopt_snd: "c_snd_at c = Detached sn \<or> c_snd_at c = Transferred sn \<Longrightarrow> adoptPortEndpoint ids sn = (ids', Inr s') \<Longrightarrow>
    chan_step c (c\<lparr>c_snd := s', c_snd_at := Attached\<rparr>)"
| adopt_rcv: "c_rcv_at c = Detached sn \<or> c_rcv_at c = Transferred sn \<Longrightarrow> adoptPortEndpoint ids sn = (ids', Inr r') \<Longrightarrow>
    chan_step c (c\<lparr>c_rcv := r', c_rcv_at := Attached\<rparr>)"

text \<open>A channel as \<^verbatim>\<open>createPortChannel\<close> hands it out.\<close>

definition initial :: "endpoint \<Rightarrow> endpoint \<Rightarrow> chan" where
  "initial s r = \<lparr>c_snd = s, c_rcv = r, c_fwd = [], c_bwd = [], c_sent = [], c_got = [], c_lostValues = [], c_lostCredits = [],
     c_snd_at = Attached, c_rcv_at = Attached\<rparr>"

inductive reachable :: "chan \<Rightarrow> bool" where
  start: "createPortChannel ids p1 p2 m b = (ids', Inr (s, r)) \<Longrightarrow> reachable (initial s r)"
| step: "reachable c \<Longrightarrow> chan_step c c' \<Longrightarrow> reachable c'"

section \<open>The credit invariant\<close>

definition val :: "byte list \<Rightarrow> packet" where
  "val bs = Value (Owned bs)"

definition credit :: "nat \<Rightarrow> packet" where
  "credit n = Credit (IntV 1) (IntV (int n))"

definition lengths :: "byte list list \<Rightarrow> nat" where
  "lengths vs = sum_list (map length vs)"

text \<open>
  \<open>vs\<close> are the values in flight, \<open>cs\<close> the byte counts of the credits in flight; \<open>fe\<close> and
  \<open>be\<close> say whether the sender's end or the receiver's stop follows them.
\<close>

definition in_flight :: "link \<Rightarrow> byte list list \<Rightarrow> nat list \<Rightarrow> bool \<Rightarrow> bool \<Rightarrow> bool" where
  "in_flight c vs cs fe be \<longleftrightarrow>
     c_fwd c = map val vs @ (if fe then [EndPacket] else []) \<and>
     c_bwd c = map credit cs @ (if be then [StopPacket] else []) \<and>
     (fe \<longrightarrow> \<not> ep_live (c_snd c)) \<and> (be \<longrightarrow> \<not> ep_live (c_rcv c))"

definition shaped :: "link \<Rightarrow> bool" where
  "shaped c \<longleftrightarrow>
     ep_direction (c_snd c) = Sender \<and> ep_direction (c_rcv c) = Receiver \<and>
     ep_messages (c_snd c) = ep_messages (c_rcv c) \<and> ep_bytes (c_snd c) = ep_bytes (c_rcv c) \<and>
     0 < ep_messages (c_rcv c) \<and> 0 < ep_bytes (c_rcv c) \<and> int (ep_bytes (c_rcv c)) \<le> max_safe \<and>
     list_all isOwned (ep_queue (c_rcv c)) \<and> ep_retained (c_rcv c) = queued_bytes (ep_queue (c_rcv c)) \<and>
     ep_queue (c_snd c) = [] \<and>
     (\<not> ep_live (c_snd c) \<longrightarrow> ep_closed (c_snd c)) \<and> (\<not> ep_live (c_rcv c) \<longrightarrow> ep_closed (c_rcv c))"

definition slots_in_use :: "link \<Rightarrow> byte list list \<Rightarrow> nat list \<Rightarrow> nat" where
  "slots_in_use c vs cs = ep_slots (c_snd c) + length vs + length (ep_queue (c_rcv c)) + length cs +
     length (c_lostValues c) + length (c_lostCredits c)"

definition bytes_in_use :: "link \<Rightarrow> byte list list \<Rightarrow> nat list \<Rightarrow> nat" where
  "bytes_in_use c vs cs = ep_room (c_snd c) + lengths vs + ep_retained (c_rcv c) + sum_list cs + lengths (c_lostValues c) + sum_list (c_lostCredits c)"

definition balanced :: "link \<Rightarrow> byte list list \<Rightarrow> nat list \<Rightarrow> bool" where
  "balanced c vs cs \<longleftrightarrow>
     slots_in_use c vs cs \<le> ep_messages (c_rcv c) \<and> bytes_in_use c vs cs \<le> ep_bytes (c_rcv c) \<and>
     (\<not> ep_closed (c_snd c) \<and> \<not> ep_closed (c_rcv c) \<longrightarrow>
        slots_in_use c vs cs = ep_messages (c_rcv c) \<and> bytes_in_use c vs cs = ep_bytes (c_rcv c))"

text \<open>
  The accepted values are first those that left the port of the receiver, the consumed, queued and lost ones in some interleaving, then the ones in flight. Once the receiver is
  dead the queue it had is gone.
\<close>

definition passed :: "byte list list \<Rightarrow> byte list list \<Rightarrow> byte list list \<Rightarrow> byte list list \<Rightarrow> byte list list \<Rightarrow> bool" where
  "passed sent got qs lost rest \<longleftrightarrow> (\<exists>dn. sent = dn @ rest \<and> dn \<in> shuffles (got @ qs) lost)"

definition ordered :: "link \<Rightarrow> byte list list \<Rightarrow> bool" where
  "ordered c vs \<longleftrightarrow> (\<exists>qs rest. passed (c_sent c) (c_got c) qs (c_lostValues c) rest \<and>
     (ep_live (c_rcv c) \<longrightarrow> qs = map contents (ep_queue (c_rcv c)) \<and> rest = vs))"

lemma shuffles_snoc: "zs \<in> shuffles xs ys \<Longrightarrow> zs @ [v] \<in> shuffles (xs @ [v]) ys" "zs \<in> shuffles xs ys \<Longrightarrow> zs @ [v] \<in> shuffles xs (ys @ [v])"
proof -
  show left: "zs \<in> shuffles xs ys \<Longrightarrow> zs @ [v] \<in> shuffles (xs @ [v]) ys" for xs ys :: "'a list" and zs
  proof (induction xs ys arbitrary: zs rule: shuffles.induct)
    case (1 ys)
    then show ?case by (induction ys arbitrary: zs) (auto intro: Cons_in_shuffles_rightI)
  qed (auto intro: Cons_in_shuffles_leftI Cons_in_shuffles_rightI)
  show "zs \<in> shuffles xs ys \<Longrightarrow> zs @ [v] \<in> shuffles xs (ys @ [v])" using left by (metis shuffles_commutes)
qed

lemma passed_send: "passed sent got qs lost rest \<Longrightarrow> passed (sent @ [v]) got qs lost (rest @ [v])"
  by (auto simp: passed_def)

lemma passed_receive: "passed sent got (v # qs) lost rest \<longleftrightarrow> passed sent (got @ [v]) qs lost rest"
  by (simp add: passed_def)

lemma passed_deliver: "passed sent got qs lost (v # rest) \<Longrightarrow> passed sent got (qs @ [v]) lost rest"
  unfolding passed_def using shuffles_snoc(1) by (metis append.assoc append_Cons append_Nil)

lemma passed_lose: "passed sent got qs lost (v # rest) \<Longrightarrow> passed sent got qs (lost @ [v]) rest"
  unfolding passed_def using shuffles_snoc(2) by (metis append.assoc append_Cons append_Nil)

lemma ordered_send: "ordered c vs \<Longrightarrow> ordered (c\<lparr>c_snd := s', c_fwd := f, c_sent := c_sent c @ [v]\<rparr>) (vs @ [v])"
  unfolding ordered_def by (auto intro: passed_send)

lemma ordered_receive:
  "ordered c vs \<Longrightarrow> ep_live (c_rcv c) \<Longrightarrow> ep_queue (c_rcv c) = v # q \<Longrightarrow> ep_queue r' = q \<Longrightarrow> ep_live r' \<Longrightarrow>
    ordered (c\<lparr>c_rcv := r', c_bwd := b, c_got := c_got c @ [contents v]\<rparr>) vs"
  unfolding ordered_def by (auto simp: passed_receive)

lemma ordered_deliver:
  "ordered c (v # ws) \<Longrightarrow> ep_live (c_rcv c) \<Longrightarrow> ep_queue r' = ep_queue (c_rcv c) @ [Owned v] \<Longrightarrow> ep_live r' \<Longrightarrow>
    ordered (c\<lparr>c_rcv := r', c_fwd := f, c_bwd := b\<rparr>) ws"
  unfolding ordered_def by (auto dest: passed_deliver)

lemma ordered_lose:
  "ordered c (v # ws) \<Longrightarrow> ep_live (c_rcv c) \<Longrightarrow> ordered (c\<lparr>c_fwd := f, c_lostValues := c_lostValues c @ [v]\<rparr>) ws"
  unfolding ordered_def by (auto dest: passed_lose)

lemma ordered_same:
  assumes "ordered c vs" "c_sent c' = c_sent c" "c_got c' = c_got c" "c_lostValues c' = c_lostValues c"
    and "ep_live (c_rcv c') \<Longrightarrow> ep_live (c_rcv c) \<and> ep_queue (c_rcv c') = ep_queue (c_rcv c) \<and> ws = vs"
  shows "ordered c' ws"
  using assms unfolding ordered_def by (cases "ep_live (c_rcv c')") auto

definition chan_inv :: "link \<Rightarrow> bool" where
  "chan_inv c \<longleftrightarrow> shaped c \<and> (\<exists>vs cs fe be. in_flight c vs cs fe be \<and> balanced c vs cs \<and> ordered c vs)"

lemmas chan_defs = shaped_def in_flight_def balanced_def slots_in_use_def bytes_in_use_def

lemma chan_invI:
  "shaped c \<Longrightarrow> in_flight c vs cs fe be \<Longrightarrow> balanced c vs cs \<Longrightarrow> ordered c vs \<Longrightarrow> chan_inv c"
  by (auto simp: chan_inv_def)

lemma chan_invE:
  assumes "chan_inv c"
  obtains vs cs fe be where "shaped c" "in_flight c vs cs fe be" "balanced c vs cs" "ordered c vs"
  using assms by (auto simp: chan_inv_def)

lemma posted_append [simp]: "posted (xs @ ys) = posted xs @ posted ys"
  by (induction xs rule: posted.induct) auto

lemma posted_wake [simp]: "posted (snd (wake e)) = []"
proof -
  have "posted (map Resumed xs) = []" "posted (map Observed xs) = []" for xs
    by (induction xs) auto
  then show ?thesis by (simp add: wake_def)
qed

lemma fst_wake: "fst (wake e) = e\<lparr>ep_waiters := []\<rparr>"
  by (simp add: wake_def)

lemma lengths_simps [simp]: "lengths [] = 0" "lengths (v # vs) = length v + lengths vs"
  "lengths (vs @ ws) = lengths vs + lengths ws"
  by (auto simp: lengths_def)

lemma queued_bytes_simps [simp]: "queued_bytes [] = 0" "queued_bytes (v # vs) = byteLength v + queued_bytes vs"
  "queued_bytes (vs @ ws) = queued_bytes vs + queued_bytes ws"
  by (auto simp: queued_bytes_def)

lemma length_contents: "p \<noteq> Foreign \<Longrightarrow> length (contents p) = byteLength p"
  by (cases p) auto

lemma isOwned_iff: "isOwned p \<longleftrightarrow> (\<exists>bs. p = Owned bs)"
  by (cases p) auto

lemma close_live:
  "ep_live e \<Longrightarrow> fst (close e) = e\<lparr>ep_live := False, ep_closed := True, ep_queue := [], ep_retained := 0, ep_waiters := []\<rparr>
    \<and> posted (snd (close e)) = [if ep_direction e = Sender then EndPacket else StopPacket]"
  using posted_wake [of "e\<lparr>ep_live := False, ep_closed := True, ep_queue := [], ep_retained := 0\<rparr>"]
  by (simp add: close_def split_beta fst_wake)

lemma close_dead: "\<not> ep_live e \<Longrightarrow> close e = (e, [])"
  by (simp add: close_def)

lemma trySend_cases:
  assumes "trySend posts refusal e p = (e', evs, res)"
  obtains (none) "e' = e" "evs = []" "res \<noteq> Inr Sent"
    | (sent) "ep_live e" "\<not> ep_closed e" "p \<noteq> Foreign" "0 < ep_slots e" "byteLength p \<le> ep_room e"
        "e' = e\<lparr>ep_slots := ep_slots e - 1, ep_room := ep_room e - byteLength p\<rparr>"
        "evs = [Posted (val (contents p))]" "res = Inr Sent"
    | (failed) "close e = (e', evs)" "res = Inl refusal"
proof (cases "ep_direction e \<noteq> Sender \<or> \<not> ep_live e \<or> p = Foreign \<or> byteLength p > ep_bytes e
    \<or> ep_closed e \<or> ep_slots e = 0 \<or> ep_room e < byteLength p")
  case True
  then have "e' = e \<and> evs = [] \<and> res \<noteq> Inr Sent"
    using assms unfolding trySend_def by (elim disjE) (auto split: if_splits)
  then show ?thesis using none by blast
next
  case False
  show ?thesis
  proof (cases posts)
    case True
    with False assms have "e' = e\<lparr>ep_slots := ep_slots e - 1, ep_room := ep_room e - byteLength p\<rparr>"
      "evs = [Posted (val (contents p))]" "res = Inr Sent"
      by (simp_all add: trySend_def val_def)
    with False show ?thesis by (intro sent) auto
  next
    case False': False
    with False assms have "close e = (e', evs)" "res = Inl refusal"
      by (auto simp: trySend_def split: prod.splits)
    then show ?thesis by (rule failed)
  qed
qed

lemma tryReceive_cases:
  assumes "tryReceive e = (e', evs, res)"
  obtains (none) "e' = e" "evs = []" "consumed res = []"
    | (got) v q where "ep_live e" "ep_queue e = v # q"
        "e' = e\<lparr>ep_queue := q, ep_retained := ep_retained e - byteLength v\<rparr>"
        "posted evs = (if ep_closed e then [] else [credit (byteLength v)])" "res = Inr (Received v)"
proof (cases "ep_direction e \<noteq> Receiver \<or> \<not> ep_live e \<or> ep_queue e = []")
  case True
  then have "e' = e \<and> evs = [] \<and> consumed res = []"
    using assms unfolding tryReceive_def by (elim disjE) (auto split: if_splits list.splits)
  then show ?thesis using none by blast
next
  case False
  then obtain v q where q: "ep_queue e = v # q" by (cases "ep_queue e") auto
  with False assms have "e' = e\<lparr>ep_queue := q, ep_retained := ep_retained e - byteLength v\<rparr>"
      "posted evs = (if ep_closed e then [] else [credit (byteLength v)])" "res = Inr (Received v)"
    by (auto simp: tryReceive_def credit_def)
  with False q show ?thesis by (intro got) auto
qed

section \<open>Each step keeps it\<close>

lemma inv_close_snd:
  assumes "chan_inv c" and "close (c_snd c) = (s', evs)"
  shows "chan_inv (c\<lparr>c_snd := s', c_fwd := c_fwd c @ posted evs\<rparr>)"
proof (cases "ep_live (c_snd c)")
  case False
  with assms(2) have "s' = c_snd c" "evs = []" by (simp_all add: close_dead)
  with assms(1) show ?thesis by simp
next
  case True
  from assms(1) obtain vs cs fe be where I: "shaped c" "in_flight c vs cs fe be" "balanced c vs cs" "ordered c vs"
    by (rule chan_invE)
  have s': "s' = (c_snd c)\<lparr>ep_live := False, ep_closed := True, ep_queue := [], ep_retained := 0, ep_waiters := []\<rparr>"
    and p: "posted evs = [EndPacket]"
    using close_live [OF True] assms(2) I(1) by (auto simp: shaped_def)
  show ?thesis
    by (rule chan_invI [where vs = vs and cs = cs and fe = True and be = be, OF _ _ _ ordered_same [OF I(4)]])
      (use I True in \<open>auto simp: chan_defs s' p\<close>)
qed

lemma inv_close_rcv:
  assumes "chan_inv c" and "close (c_rcv c) = (r', evs)"
  shows "chan_inv (c\<lparr>c_rcv := r', c_bwd := c_bwd c @ posted evs\<rparr>)"
proof (cases "ep_live (c_rcv c)")
  case False
  with assms(2) have "r' = c_rcv c" "evs = []" by (simp_all add: close_dead)
  with assms(1) show ?thesis by simp
next
  case True
  from assms(1) obtain vs cs fe be where I: "shaped c" "in_flight c vs cs fe be" "balanced c vs cs" "ordered c vs"
    by (rule chan_invE)
  have r': "r' = (c_rcv c)\<lparr>ep_live := False, ep_closed := True, ep_queue := [], ep_retained := 0, ep_waiters := []\<rparr>"
    and p: "posted evs = [StopPacket]"
    using close_live [OF True] assms(2) I(1) by (auto simp: shaped_def)
  show ?thesis
    by (rule chan_invI [where vs = vs and cs = cs and fe = fe and be = True, OF _ _ _ ordered_same [OF I(4)]])
      (use I True in \<open>auto simp: chan_defs r' p\<close>)
qed

lemma inv_send:
  assumes "chan_inv c" and "trySend posts refusal (c_snd c) p = (s', evs, res)"
  shows "chan_inv (c\<lparr>c_snd := s', c_fwd := c_fwd c @ posted evs, c_sent := c_sent c @ accepted res p\<rparr>)"
proof -
  from assms(1) obtain vs cs fe be where I: "shaped c" "in_flight c vs cs fe be" "balanced c vs cs" "ordered c vs"
    by (rule chan_invE)
  from assms(2) show ?thesis
  proof (cases rule: trySend_cases)
    case none
    with assms(1) show ?thesis by (simp add: accepted_def)
  next
    case sent
    then have taken: "accepted res p = [contents p]" by (simp add: accepted_def)
    show ?thesis unfolding taken
      by (rule chan_invI [where vs = "vs @ [contents p]" and cs = cs and fe = fe and be = be, OF _ _ _ ordered_send [OF I(4)]])
        (use I sent in \<open>auto simp: chan_defs accepted_def length_contents\<close>)
  next
    case failed
    with inv_close_snd [OF assms(1) failed(1)] show ?thesis by (simp add: accepted_def)
  qed
qed

lemma inv_receive:
  assumes "chan_inv c" and "tryReceive (c_rcv c) = (r', evs, res)"
  shows "chan_inv (c\<lparr>c_rcv := r', c_bwd := c_bwd c @ posted evs, c_got := c_got c @ consumed res\<rparr>)"
proof -
  from assms(1) obtain vs cs fe be where I: "shaped c" "in_flight c vs cs fe be" "balanced c vs cs" "ordered c vs"
    by (rule chan_invE)
  from assms(2) show ?thesis
  proof (cases rule: tryReceive_cases)
    case none
    with assms(1) show ?thesis by simp
  next
    case (got v q)
    then have taken: "consumed res = [contents v]" by simp
    show ?thesis unfolding taken
      by (rule chan_invI [where vs = vs and fe = fe and be = be and
            cs = "cs @ (if ep_closed (c_rcv c) then [] else [byteLength v])", OF _ _ _ ordered_receive [OF I(4)]])
        (use I got in \<open>auto simp: chan_defs\<close>)
  qed
qed

text \<open>Delivering the next packet while the invariant holds never takes a failure branch.\<close>

lemma deliver_value:
  assumes "shaped c" "in_flight c (v # vs) cs fe be" "balanced c (v # vs) cs"
    and "ep_live (c_rcv c)" "\<not> ep_closed (c_rcv c)"
  shows "arrived (c_rcv c) (val v) =
    wake ((c_rcv c)\<lparr>ep_queue := ep_queue (c_rcv c) @ [Owned v], ep_retained := ep_retained (c_rcv c) + length v\<rparr>)"
  using assms by (auto simp: arrived_def arrived_receiver_def val_def chan_defs)

lemma deliver_credit:
  assumes "shaped c" "in_flight c vs (n # cs) fe be" "balanced c vs (n # cs)"
    and "ep_live (c_snd c)" "\<not> ep_closed (c_snd c)"
  shows "arrived (c_snd c) (credit n) =
    wake ((c_snd c)\<lparr>ep_slots := ep_slots (c_snd c) + 1, ep_room := ep_room (c_snd c) + n\<rparr>)"
proof -
  have "int n \<le> max_safe" "0 \<le> max_safe" "ep_slots (c_snd c) + 1 \<le> ep_messages (c_snd c)"
    "ep_room (c_snd c) + n \<le> ep_bytes (c_snd c)"
    using assms by (auto simp: chan_defs)
  with assms(4,5) assms(1) show ?thesis
    by (auto simp: arrived_def arrived_sender_def credit_def shaped_def)
qed

lemma inv_deliver_fwd:
  assumes "chan_inv c" and "c_fwd c = p # ps" and "arrived (c_rcv c) p = (r', evs)"
  shows "chan_inv (c\<lparr>c_rcv := r', c_fwd := ps, c_bwd := c_bwd c @ posted evs\<rparr>)"
proof -
  from assms(1) obtain vs cs fe be where I: "shaped c" "in_flight c vs cs fe be" "balanced c vs cs" "ordered c vs"
    by (rule chan_invE)
  consider (dead) "\<not> ep_live (c_rcv c)" | (ended) "ep_live (c_rcv c)" "vs = []"
    | (late) v ws where "ep_live (c_rcv c)" "vs = v # ws" "ep_closed (c_rcv c)"
    | (queue) v ws where "ep_live (c_rcv c)" "vs = v # ws" "\<not> ep_closed (c_rcv c)"
    by (cases vs) auto
  then show ?thesis
  proof cases
    case dead
    with assms(3) have "r' = c_rcv c" "evs = []" by (simp_all add: arrived_def)
    then show ?thesis
      by (intro chan_invI [where vs = "tl vs" and cs = cs and be = be and fe = "fe \<and> vs \<noteq> []", OF _ _ _ ordered_same [OF I(4)]])
        (use I dead assms(2) in \<open>cases vs; auto simp: chan_defs split: if_splits\<close>)+
  next
    case ended
    with I(2) assms(2) have p: "p = EndPacket" "ps = []" "fe" by (auto simp: in_flight_def split: if_splits)
    with ended assms(3) I(1) have "(r', evs) = wake ((c_rcv c)\<lparr>ep_closed := True\<rparr>)"
      by (simp add: arrived_def arrived_receiver_def shaped_def)
    then have r': "r' = (c_rcv c)\<lparr>ep_closed := True, ep_waiters := []\<rparr>" and "posted evs = []"
      by (metis fst_conv fst_wake, metis snd_conv posted_wake)
    then show ?thesis
      by (intro chan_invI [where vs = "[]" and cs = cs and fe = False and be = be, OF _ _ _ ordered_same [OF I(4)]])
        (use I ended p in \<open>auto simp: chan_defs\<close>)
  next
    case (late v ws)
    with I(2) assms(2) have p: "p = val v" "ps = map val ws @ (if fe then [EndPacket] else [])"
      by (auto simp: in_flight_def)
    let ?c = "c\<lparr>c_fwd := ps\<rparr>"
    from late p assms(3) I(1) have cl: "close (c_rcv ?c) = (r', evs)"
      by (simp add: arrived_def arrived_receiver_def shaped_def val_def)
    then have r': "r' = (c_rcv c)\<lparr>ep_live := False, ep_closed := True, ep_queue := [], ep_retained := 0, ep_waiters := []\<rparr>"
      and ev: "posted evs = [StopPacket]"
      using close_live [of "c_rcv c"] late I(1) by (auto simp: shaped_def)
    show ?thesis
      by (rule chan_invI [where vs = ws and cs = cs and fe = fe and be = True, OF _ _ _ ordered_same [OF I(4)]])
        (use I late p in \<open>auto simp: chan_defs r' ev\<close>)
  next
    case (queue v ws)
    with I(2) assms(2) have p: "p = val v" "ps = map val ws @ (if fe then [EndPacket] else [])"
      by (auto simp: in_flight_def)
    let ?r = "(c_rcv c)\<lparr>ep_queue := ep_queue (c_rcv c) @ [Owned v], ep_retained := ep_retained (c_rcv c) + length v\<rparr>"
    have "(r', evs) = wake ?r"
      using deliver_value I queue p assms(3) by simp
    then have r': "r' = ?r\<lparr>ep_waiters := []\<rparr>" and ev: "posted evs = []"
      by (metis fst_conv fst_wake, metis snd_conv posted_wake)
    show ?thesis
      by (rule chan_invI [where vs = ws and cs = cs and fe = fe and be = be, OF _ _ _ ordered_deliver [where v = v and c = c]])
        (use I queue p in \<open>auto simp: chan_defs r' ev\<close>)
  qed
qed

lemma inv_deliver_bwd:
  assumes "chan_inv c" and "c_bwd c = p # ps" and "arrived (c_snd c) p = (s', evs)"
  shows "chan_inv (c\<lparr>c_snd := s', c_bwd := ps, c_fwd := c_fwd c @ posted evs\<rparr>)"
proof -
  from assms(1) obtain vs cs fe be where I: "shaped c" "in_flight c vs cs fe be" "balanced c vs cs" "ordered c vs"
    by (rule chan_invE)
  consider (idle) "cs \<noteq> []" "\<not> ep_live (c_snd c) \<or> ep_closed (c_snd c)"
    | (dead) "cs = []" "\<not> ep_live (c_snd c)" | (stop) "cs = []" "ep_live (c_snd c)"
    | (credit) n ns where "cs = n # ns" "ep_live (c_snd c)" "\<not> ep_closed (c_snd c)"
    by (cases cs) auto
  then show ?thesis
  proof cases
    case idle
    then obtain n ns where cs: "cs = n # ns" by (cases cs) auto
    with I(2) assms(2) have p: "p = credit n" "ps = map credit ns @ (if be then [StopPacket] else [])"
      by (auto simp: in_flight_def)
    with idle assms(3) I(1) have "s' = c_snd c" "evs = []"
      by (auto simp: arrived_def arrived_sender_def credit_def shaped_def split: if_splits)
    moreover have "ep_closed (c_snd c)" using idle I(1) by (auto simp: shaped_def)
    ultimately show ?thesis
      by (intro chan_invI [where vs = vs and cs = ns and fe = fe and be = be, OF _ _ _ ordered_same [OF I(4)]])
        (use I cs p in \<open>auto simp: chan_defs\<close>)
  next
    case dead
    with assms(3) have e: "s' = c_snd c" "evs = []" by (simp_all add: arrived_def)
    from dead I(2) assms(2) have p: "ps = []" "be" by (auto simp: in_flight_def split: if_splits)
    show ?thesis
      by (rule chan_invI [where vs = vs and cs = "[]" and fe = fe and be = False, OF _ _ _ ordered_same [OF I(4)]])
        (use I dead p e in \<open>auto simp: chan_defs\<close>)
  next
    case stop
    with I(2) assms(2) have p: "p = StopPacket" "ps = []" "be" by (auto simp: in_flight_def split: if_splits)
    with stop assms(3) I(1) have "(s', evs) = wake ((c_snd c)\<lparr>ep_closed := True\<rparr>)"
      by (simp add: arrived_def arrived_sender_def shaped_def)
    then have s': "s' = (c_snd c)\<lparr>ep_closed := True, ep_waiters := []\<rparr>" and "posted evs = []"
      by (metis fst_conv fst_wake, metis snd_conv posted_wake)
    then show ?thesis
      by (intro chan_invI [where vs = vs and cs = "[]" and fe = fe and be = False, OF _ _ _ ordered_same [OF I(4)]])
        (use I stop p in \<open>auto simp: chan_defs\<close>)
  next
    case (credit n ns)
    with I(2) assms(2) have p: "p = Channel_Protocol.credit n" "ps = map Channel_Protocol.credit ns @ (if be then [StopPacket] else [])"
      by (auto simp: in_flight_def)
    let ?s = "(c_snd c)\<lparr>ep_slots := ep_slots (c_snd c) + 1, ep_room := ep_room (c_snd c) + n\<rparr>"
    have "(s', evs) = wake ?s"
      using deliver_credit I credit p assms(3) by simp
    then have s': "s' = ?s\<lparr>ep_waiters := []\<rparr>" and ev: "posted evs = []"
      by (metis fst_conv fst_wake, metis snd_conv posted_wake)
    show ?thesis
      by (rule chan_invI [where vs = vs and cs = ns and fe = fe and be = be, OF _ _ _ ordered_same [OF I(4)]])
        (use I credit p in \<open>auto simp: chan_defs s' ev\<close>)
  qed
qed

lemma inv_reopen_snd:
  assumes "chan_inv c"
    and "s' = (c_snd c)\<lparr>ep_closed := b, ep_waiters := ws\<rparr>" and "ep_closed (c_snd c) \<Longrightarrow> b"
  shows "chan_inv (c\<lparr>c_snd := s'\<rparr>)"
proof -
  from assms(1) obtain vs cs fe be where I: "shaped c" "in_flight c vs cs fe be" "balanced c vs cs" "ordered c vs"
    by (rule chan_invE)
  show ?thesis
    by (rule chan_invI [where vs = vs and cs = cs and fe = fe and be = be, OF _ _ _ ordered_same [OF I(4)]])
      (use I assms(2,3) in \<open>auto simp: chan_defs\<close>)
qed

lemma inv_reopen_rcv:
  assumes "chan_inv c"
    and "r' = (c_rcv c)\<lparr>ep_closed := b, ep_waiters := ws\<rparr>" and "ep_closed (c_rcv c) \<Longrightarrow> b"
  shows "chan_inv (c\<lparr>c_rcv := r'\<rparr>)"
proof -
  from assms(1) obtain vs cs fe be where I: "shaped c" "in_flight c vs cs fe be" "balanced c vs cs" "ordered c vs"
    by (rule chan_invE)
  show ?thesis
    by (rule chan_invI [where vs = vs and cs = cs and fe = fe and be = be, OF _ _ _ ordered_same [OF I(4)]])
      (use I assms(2,3) in \<open>auto simp: chan_defs\<close>)
qed

lemma remoteClose_frame:
  "remoteClose e = (e', evs) \<Longrightarrow> \<exists>b ws. e' = e\<lparr>ep_closed := b, ep_waiters := ws\<rparr> \<and> (ep_closed e \<longrightarrow> b)"
  by (intro exI [of _ "ep_closed e'"] exI [of _ "ep_waiters e'"])
    (auto simp: remoteClose_def wake_def split: if_splits)

lemma subscribe_frame:
  "subscribe e k n = (e', evs, res) \<Longrightarrow> \<exists>b ws. e' = e\<lparr>ep_closed := b, ep_waiters := ws\<rparr> \<and> (ep_closed e \<longrightarrow> b)"
  by (intro exI [of _ "ep_closed e"] exI [of _ "ep_waiters e'"])
    (auto simp: subscribe_def Let_def split: option.splits if_splits)

section \<open>Endpoints on the move\<close>

definition snapshot_of :: "endpoint \<Rightarrow> int \<Rightarrow> snapshot" where
  "snapshot_of e g = \<lparr>sn_port = Some (ep_port e), sn_direction = ep_direction e, sn_messages = IntV (int (ep_messages e)), sn_bytes = IntV (int (ep_bytes e)),
     sn_closed = Some (ep_closed e), sn_slots = IntV (int (ep_slots e)), sn_room = IntV (int (ep_room e)), sn_retained = IntV (int (ep_retained e)),
     sn_queue = Some (ep_queue e), sn_generation = IntV g\<rparr>"

text \<open>The endpoint a snapshot stands for.\<close>

definition of_snapshot :: "snapshot \<Rightarrow> endpoint" where
  "of_snapshot sn = \<lparr>ep_port = the (sn_port sn), ep_direction = sn_direction sn, ep_messages = nat (the_int (sn_messages sn)), ep_bytes = nat (the_int (sn_bytes sn)),
     ep_live = True, ep_closed = the (sn_closed sn), ep_slots = nat (the_int (sn_slots sn)), ep_room = nat (the_int (sn_room sn)),
     ep_retained = nat (the_int (sn_retained sn)), ep_queue = the (sn_queue sn), ep_waiters = [], ep_observers = []\<rparr>"

lemma move_snapshot:
  assumes "move ids e = (ids1, e0, evs, Inr sn)"
  shows "ep_live e \<and> \<not> ep_live e0 \<and> posted evs = [] \<and> of_snapshot sn = e \<and> (\<exists>g. sn = snapshot_of e g)"
  using assms by (auto simp: move_def Let_def snapshot_of_def of_snapshot_def split: if_splits option.splits prod.splits)

lemma endpoint_Inr:
  assumes "endpoint ids (Some p) d (IntV m) (IntV b) sv = (ids', Inr e)"
    and "sv_slots sv = IntV x" "sv_room sv = IntV y" "sv_retained sv = IntV z"
  shows "e = \<lparr>ep_port = p, ep_direction = d, ep_messages = nat m, ep_bytes = nat b, ep_live = True,
     ep_closed = sv_closed sv, ep_slots = nat x, ep_room = nat y, ep_retained = nat z,
     ep_queue = sv_queue sv, ep_waiters = [], ep_observers = []\<rparr>"
  using assms by (simp add: endpoint_def limits_def Let_def split: if_splits)

lemma adopt_snapshot:
  assumes "adoptPortEndpoint ids (snapshot_of e0 g) = (ids', Inr e)"
  shows "e = of_snapshot (snapshot_of e0 g)"
  using endpoint_Inr [OF assms [unfolded adoptPortEndpoint_def snapshot_of_def, simplified]] by (simp add: snapshot_of_def of_snapshot_def)

definition placed :: "endpoint \<Rightarrow> place \<Rightarrow> endpoint" where
  "placed e a = (case a of Attached \<Rightarrow> e | Detached sn \<Rightarrow> of_snapshot sn | Transferred sn \<Rightarrow> of_snapshot sn)"

definition place_ok :: "endpoint \<Rightarrow> place \<Rightarrow> bool" where
  "place_ok e a \<longleftrightarrow> (a = Attached \<or> \<not> ep_live e \<and> (\<exists>e0 g. a = Detached (snapshot_of e0 g) \<or> a = Transferred (snapshot_of e0 g)))"

text \<open>The channel with each moving endpoint in the place of its dead wrapper.\<close>

definition view :: "chan \<Rightarrow> link" where
  "view c = \<lparr>c_snd = placed (c_snd c) (c_snd_at c), c_rcv = placed (c_rcv c) (c_rcv_at c), c_fwd = c_fwd c, c_bwd = c_bwd c, c_sent = c_sent c, c_got = c_got c,
     c_lostValues = c_lostValues c, c_lostCredits = c_lostCredits c\<rparr>"

definition sys_inv :: "chan \<Rightarrow> bool" where
  "sys_inv c \<longleftrightarrow> chan_inv (view c) \<and> place_ok (c_snd c) (c_snd_at c) \<and> place_ok (c_rcv c) (c_rcv_at c)"

lemma placed_simps [simp]: "placed e Attached = e" "placed e (Detached sn) = of_snapshot sn" "placed e (Transferred sn) = of_snapshot sn"
  by (simp_all add: placed_def)

lemma place_ok_Attached [simp]: "place_ok e Attached"
  by (simp add: place_ok_def)

lemma of_snapshot_live [simp]: "ep_live (of_snapshot sn)"
  by (simp add: of_snapshot_def)

text \<open>A dead wrapper does nothing.\<close>

lemma dead_wrapper:
  assumes "\<not> ep_live e"
  shows "trySend posts refusal e p = (e', evs, res) \<Longrightarrow> e' = e \<and> evs = [] \<and> res \<noteq> Inr Sent"
    and "tryReceive e = (e', evs, rs) \<Longrightarrow> e' = e \<and> evs = [] \<and> consumed rs = []"
    and "close e = (e', evs) \<Longrightarrow> e' = e \<and> evs = []"
    and "remoteClose e = (e', evs) \<Longrightarrow> e' = e"
    and "subscribe e k n = (e', evs, u) \<Longrightarrow> e' = e"
  using assms by (auto simp: trySend_def tryReceive_def close_def remoteClose_def subscribe_def Let_def split: option.splits if_splits)

lemma sys_inv_dead: "sys_inv c \<Longrightarrow> c_snd_at c \<noteq> Attached \<Longrightarrow> \<not> ep_live (c_snd c)" "sys_inv c \<Longrightarrow> c_rcv_at c \<noteq> Attached \<Longrightarrow> \<not> ep_live (c_rcv c)"
  by (auto simp: sys_inv_def place_ok_def)

lemma view_attached: "c_snd_at c = Attached \<Longrightarrow> c_snd (view c) = c_snd c" "c_rcv_at c = Attached \<Longrightarrow> c_rcv (view c) = c_rcv c"
  and view_fields [simp]: "c_fwd (view c) = c_fwd c" "c_bwd (view c) = c_bwd c" "c_sent (view c) = c_sent c" "c_got (view c) = c_got c"
    "c_lostValues (view c) = c_lostValues c" "c_lostCredits (view c) = c_lostCredits c"
  by (simp_all add: view_def)

lemma sys_inv_chan: "sys_inv c \<Longrightarrow> chan_inv (view c)"
  by (simp add: sys_inv_def)

text \<open>An operation of an endpoint that is where it was; on the dead wrapper of a moving one it does nothing.\<close>

lemma sys_inv_snd:
  assumes inv: "sys_inv c" and quiet: "\<not> ep_live (c_snd c) \<Longrightarrow> s' = c_snd c \<and> f = c_fwd c \<and> t = c_sent c"
    and act: "chan_inv (view c) \<Longrightarrow> c_snd (view c) = c_snd c \<Longrightarrow> chan_inv ((view c)\<lparr>c_snd := s', c_fwd := f, c_sent := t\<rparr>)"
  shows "sys_inv (c\<lparr>c_snd := s', c_fwd := f, c_sent := t\<rparr>)"
proof (cases "c_snd_at c = Attached")
  case True
  with inv act show ?thesis by (simp add: sys_inv_def view_def)
next
  case False
  with quiet sys_inv_dead(1) [OF inv] inv show ?thesis by simp
qed

lemma sys_inv_rcv:
  assumes inv: "sys_inv c" and quiet: "\<not> ep_live (c_rcv c) \<Longrightarrow> r' = c_rcv c \<and> b = c_bwd c \<and> g = c_got c"
    and act: "chan_inv (view c) \<Longrightarrow> c_rcv (view c) = c_rcv c \<Longrightarrow> chan_inv ((view c)\<lparr>c_rcv := r', c_bwd := b, c_got := g\<rparr>)"
  shows "sys_inv (c\<lparr>c_rcv := r', c_bwd := b, c_got := g\<rparr>)"
proof (cases "c_rcv_at c = Attached")
  case True
  with inv act show ?thesis by (simp add: sys_inv_def view_def)
next
  case False
  with quiet sys_inv_dead(2) [OF inv] inv show ?thesis by simp
qed

lemma inv_lose_fwd:
  assumes "chan_inv c" "c_fwd c = p # ps" "ep_live (c_rcv c)"
  shows "chan_inv (c\<lparr>c_fwd := ps, c_lostValues := c_lostValues c @ lost_values p\<rparr>)"
proof -
  from assms(1) obtain vs cs fe be where I: "shaped c" "in_flight c vs cs fe be" "balanced c vs cs" "ordered c vs" by (rule chan_invE)
  show ?thesis
  proof (cases vs)
    case Nil
    with I(2) assms(2) have p: "p = EndPacket" "ps = []" by (auto simp: in_flight_def split: if_splits)
    show ?thesis
      by (rule chan_invI [where vs = "[]" and cs = cs and fe = False and be = be, OF _ _ _ ordered_same [OF I(4)]])
        (use I Nil p in \<open>auto simp: chan_defs\<close>)
  next
    case (Cons v ws)
    with I(2) assms(2) have p: "p = val v" "ps = map val ws @ (if fe then [EndPacket] else [])" by (auto simp: in_flight_def)
    then have lost: "lost_values p = [v]" by (simp add: val_def)
    show ?thesis unfolding lost
      by (rule chan_invI [where vs = ws and cs = cs and fe = fe and be = be, OF _ _ _ ordered_lose [where c = c and v = v]])
        (use I Cons p assms(3) in \<open>auto simp: chan_defs\<close>)
  qed
qed

lemma inv_lose_bwd:
  assumes "chan_inv c" "c_bwd c = p # ps"
  shows "chan_inv (c\<lparr>c_bwd := ps, c_lostCredits := c_lostCredits c @ lost_credits p\<rparr>)"
proof -
  from assms(1) obtain vs cs fe be where I: "shaped c" "in_flight c vs cs fe be" "balanced c vs cs" "ordered c vs" by (rule chan_invE)
  show ?thesis
  proof (cases cs)
    case Nil
    with I(2) assms(2) have p: "p = StopPacket" "ps = []" by (auto simp: in_flight_def split: if_splits)
    show ?thesis
      by (rule chan_invI [where vs = vs and cs = "[]" and fe = fe and be = False, OF _ _ _ ordered_same [OF I(4)]])
        (use I Nil p in \<open>auto simp: chan_defs\<close>)
  next
    case (Cons n ns)
    with I(2) assms(2) have p: "p = credit n" "ps = map credit ns @ (if be then [StopPacket] else [])" by (auto simp: in_flight_def)
    then have lost: "lost_credits p = [n]" by (simp add: credit_def)
    show ?thesis unfolding lost
      by (rule chan_invI [where vs = vs and cs = ns and fe = fe and be = be, OF _ _ _ ordered_same [OF I(4)]])
        (use I Cons p in \<open>auto simp: chan_defs\<close>)
  qed
qed

lemma view_same [simp]:
  "(view c)\<lparr>c_snd := s', c_fwd := f, c_sent := c_sent c\<rparr> = (view c)\<lparr>c_snd := s', c_fwd := f\<rparr>" "(view c)\<lparr>c_snd := s', c_fwd := c_fwd c\<rparr> = (view c)\<lparr>c_snd := s'\<rparr>"
  "(view c)\<lparr>c_rcv := r', c_bwd := b, c_got := c_got c\<rparr> = (view c)\<lparr>c_rcv := r', c_bwd := b\<rparr>" "(view c)\<lparr>c_rcv := r', c_bwd := c_bwd c\<rparr> = (view c)\<lparr>c_rcv := r'\<rparr>"
  "(view c)\<lparr>c_snd := s', c_sent := c_sent c\<rparr> = (view c)\<lparr>c_snd := s'\<rparr>" "(view c)\<lparr>c_rcv := r', c_got := c_got c\<rparr> = (view c)\<lparr>c_rcv := r'\<rparr>"
  by (simp_all add: view_def)

lemma chan_step_inv: "chan_step c c' \<Longrightarrow> sys_inv c \<Longrightarrow> sys_inv c'"
proof (induction rule: chan_step.induct)
  case (send posts refusal c p s' evs res)
  show ?case
  proof (rule sys_inv_snd [OF send(2)])
    show "\<not> ep_live (c_snd c) \<Longrightarrow> s' = c_snd c \<and> c_fwd c @ posted evs = c_fwd c \<and> c_sent c @ accepted res p = c_sent c"
      using dead_wrapper(1) send(1) by (fastforce simp: accepted_def)
  qed (use inv_send [of "view c"] send(1) in simp)
next
  case (receive c r' evs res)
  show ?case
  proof (rule sys_inv_rcv [OF receive(2)])
    show "\<not> ep_live (c_rcv c) \<Longrightarrow> r' = c_rcv c \<and> c_bwd c @ posted evs = c_bwd c \<and> c_got c @ consumed res = c_got c"
      using dead_wrapper(2) receive(1) by fastforce
  qed (use inv_receive [of "view c"] receive(1) in simp)
next
  case (deliver_fwd c p ps r' evs)
  from inv_deliver_fwd [OF sys_inv_chan [OF deliver_fwd(4)]] deliver_fwd show ?case by (simp add: sys_inv_def view_def)
next
  case (deliver_bwd c p ps s' evs)
  from inv_deliver_bwd [OF sys_inv_chan [OF deliver_bwd(4)]] deliver_bwd show ?case by (simp add: sys_inv_def view_def)
next
  case (close_snd c s' evs)
  have "sys_inv (c\<lparr>c_snd := s', c_fwd := c_fwd c @ posted evs, c_sent := c_sent c\<rparr>)"
  proof (rule sys_inv_snd [OF close_snd(2)])
    show "\<not> ep_live (c_snd c) \<Longrightarrow> s' = c_snd c \<and> c_fwd c @ posted evs = c_fwd c \<and> c_sent c = c_sent c"
      using dead_wrapper(3) close_snd(1) by fastforce
  qed (use inv_close_snd [of "view c"] close_snd(1) in simp)
  then show ?case by simp
next
  case (close_rcv c r' evs)
  have "sys_inv (c\<lparr>c_rcv := r', c_bwd := c_bwd c @ posted evs, c_got := c_got c\<rparr>)"
  proof (rule sys_inv_rcv [OF close_rcv(2)])
    show "\<not> ep_live (c_rcv c) \<Longrightarrow> r' = c_rcv c \<and> c_bwd c @ posted evs = c_bwd c \<and> c_got c = c_got c"
      using dead_wrapper(3) close_rcv(1) by fastforce
  qed (use inv_close_rcv [of "view c"] close_rcv(1) in simp)
  then show ?case by simp
next
  case (revoke_snd c s' evs)
  from remoteClose_frame [OF revoke_snd(1)] obtain b ws where s': "s' = (c_snd c)\<lparr>ep_closed := b, ep_waiters := ws\<rparr>" "ep_closed (c_snd c) \<longrightarrow> b" by blast
  have "sys_inv (c\<lparr>c_snd := s', c_fwd := c_fwd c, c_sent := c_sent c\<rparr>)"
    by (rule sys_inv_snd [OF revoke_snd(2)]) (use dead_wrapper(4) revoke_snd(1) inv_reopen_snd [where c = "view c" and b = b and ws = ws] s' in auto)
  then show ?case by simp
next
  case (revoke_rcv c r' evs)
  from remoteClose_frame [OF revoke_rcv(1)] obtain b ws where r': "r' = (c_rcv c)\<lparr>ep_closed := b, ep_waiters := ws\<rparr>" "ep_closed (c_rcv c) \<longrightarrow> b" by blast
  have "sys_inv (c\<lparr>c_rcv := r', c_bwd := c_bwd c, c_got := c_got c\<rparr>)"
    by (rule sys_inv_rcv [OF revoke_rcv(2)]) (use dead_wrapper(4) revoke_rcv(1) inv_reopen_rcv [where c = "view c" and b = b and ws = ws] r' in auto)
  then show ?case by simp
next
  case (wait_snd c k n s' evs res)
  from subscribe_frame [OF wait_snd(1)] obtain b ws where s': "s' = (c_snd c)\<lparr>ep_closed := b, ep_waiters := ws\<rparr>" "ep_closed (c_snd c) \<longrightarrow> b" by blast
  have "sys_inv (c\<lparr>c_snd := s', c_fwd := c_fwd c, c_sent := c_sent c\<rparr>)"
    by (rule sys_inv_snd [OF wait_snd(2)]) (use dead_wrapper(5) wait_snd(1) inv_reopen_snd [where c = "view c" and b = b and ws = ws] s' in auto)
  then show ?case by simp
next
  case (wait_rcv c k n r' evs res)
  from subscribe_frame [OF wait_rcv(1)] obtain b ws where r': "r' = (c_rcv c)\<lparr>ep_closed := b, ep_waiters := ws\<rparr>" "ep_closed (c_rcv c) \<longrightarrow> b" by blast
  have "sys_inv (c\<lparr>c_rcv := r', c_bwd := c_bwd c, c_got := c_got c\<rparr>)"
    by (rule sys_inv_rcv [OF wait_rcv(2)]) (use dead_wrapper(5) wait_rcv(1) inv_reopen_rcv [where c = "view c" and b = b and ws = ws] r' in auto)
  then show ?case by simp
next
  case (move_snd ids c ids1 s0 evs sn)
  with move_snapshot [OF move_snd(1)] sys_inv_dead(1) [OF move_snd(2)] show ?case by (auto simp: sys_inv_def view_def place_ok_def)
next
  case (move_rcv ids c ids1 r0 evs sn)
  with move_snapshot [OF move_rcv(1)] sys_inv_dead(2) [OF move_rcv(2)] show ?case by (auto simp: sys_inv_def view_def place_ok_def)
next
  case (lose_fwd c sn p ps)
  with inv_lose_fwd [OF sys_inv_chan [OF lose_fwd(3)], of p ps] show ?case by (simp add: sys_inv_def view_def)
next
  case (lose_bwd c sn p ps)
  with inv_lose_bwd [OF sys_inv_chan [OF lose_bwd(3)], of p ps] show ?case by (simp add: sys_inv_def view_def)
next
  case (adopt_snd c sn ids ids' s')
  then obtain e0 g where "sn = snapshot_of e0 g" by (auto simp: sys_inv_def place_ok_def)
  with adopt_snapshot adopt_snd show ?case by (auto simp: sys_inv_def view_def)
next
  case (adopt_rcv c sn ids ids' r')
  then obtain e0 g where "sn = snapshot_of e0 g" by (auto simp: sys_inv_def place_ok_def)
  with adopt_snapshot adopt_rcv show ?case by (auto simp: sys_inv_def view_def)
qed (auto simp: sys_inv_def view_def place_ok_def)

lemma fresh_endpoint:
  assumes "endpoint ids (Some p) d m b fresh_saved = (ids', Inr e)"
  shows "\<exists>mi bi. m = IntV mi \<and> b = IntV bi \<and> 0 < mi \<and> 0 < bi \<and> bi \<le> max_safe \<and>
    e = \<lparr>ep_port = p, ep_direction = d, ep_messages = nat mi, ep_bytes = nat bi, ep_live = True,
     ep_closed = False, ep_slots = nat mi, ep_room = nat bi, ep_retained = 0,
     ep_queue = [], ep_waiters = [], ep_observers = []\<rparr>"
  using assms
  by (cases m; cases b) (auto simp: endpoint_def limits_def Let_def fresh_saved_def split: if_splits)

lemma initial_inv:
  assumes "createPortChannel ids p1 p2 m b = (ids', Inr (s, r))"
  shows "sys_inv (initial s r)"
proof -
  from assms obtain ids1 where s: "endpoint ids (Some p1) Sender m b fresh_saved = (ids1, Inr s)"
    and r: "endpoint ids1 (Some p2) Receiver m b fresh_saved = (ids', Inr r)"
    by (auto simp: createPortChannel_def split: sum.splits prod.splits)
  have "chan_inv (view (initial s r))"
    by (rule chan_invI [where vs = "[]" and cs = "[]" and fe = False and be = False])
      (use fresh_endpoint [OF s] fresh_endpoint [OF r] in \<open>auto simp: initial_def view_def chan_defs ordered_def passed_def\<close>)
  then show ?thesis by (simp add: sys_inv_def initial_def)
qed

lemma reachable_inv: "reachable c \<Longrightarrow> sys_inv c"
  by (induction rule: reachable.induct) (auto intro: initial_inv chan_step_inv)

section \<open>Properties\<close>

text \<open>The sender and the receiver, where a moving one is the endpoint its snapshot stands for.\<close>

definition sender_of :: "chan \<Rightarrow> endpoint" where
  "sender_of c = placed (c_snd c) (c_snd_at c)"

definition receiver_of :: "chan \<Rightarrow> endpoint" where
  "receiver_of c = placed (c_rcv c) (c_rcv_at c)"

lemma view_endpoints: "c_snd (view c) = sender_of c" "c_rcv (view c) = receiver_of c"
  by (simp_all add: view_def sender_of_def receiver_of_def)

lemma reachable_viewE:
  assumes "reachable c"
  obtains vs cs fe be where "shaped (view c)" "in_flight (view c) vs cs fe be" "balanced (view c) vs cs" "ordered (view c) vs"
  using chan_invE [OF sys_inv_chan [OF reachable_inv [OF assms]]] .

lemma filter_flight: "filter (\<lambda>p. p \<noteq> EndPacket) (map val vs) = map val vs" "filter (\<lambda>p. p \<noteq> StopPacket) (map credit cs) = map credit cs"
  by (auto simp: filter_id_conv val_def credit_def)

text \<open>C1. Flow control. In every reachable state, endpoints on the move included, the receiver never
  holds more messages or bytes than the channel's limits, counting what is still in flight to
  it; and while neither side is closed the credits balance exactly: the sender's free slots,
  the values in flight, the queued values, the credits in flight and the packets that were
  dispatched while an endpoint had left its port add up to the message limit, and likewise
  for bytes.
\<close>

theorem credits_conserved:
  assumes "reachable c"
  shows "\<exists>vs cs. filter (\<lambda>p. p \<noteq> EndPacket) (c_fwd c) = map val vs
    \<and> filter (\<lambda>p. p \<noteq> StopPacket) (c_bwd c) = map credit cs
    \<and> length vs + length (ep_queue (receiver_of c)) \<le> ep_messages (receiver_of c)
    \<and> lengths vs + ep_retained (receiver_of c) \<le> ep_bytes (receiver_of c)
    \<and> ep_retained (receiver_of c) = queued_bytes (ep_queue (receiver_of c))
    \<and> (\<not> ep_closed (sender_of c) \<and> \<not> ep_closed (receiver_of c) \<longrightarrow>
         ep_slots (sender_of c) + length vs + length (ep_queue (receiver_of c)) + length cs
           + length (c_lostValues c) + length (c_lostCredits c) = ep_messages (sender_of c)
       \<and> ep_room (sender_of c) + lengths vs + ep_retained (receiver_of c) + sum_list cs
           + lengths (c_lostValues c) + sum_list (c_lostCredits c) = ep_bytes (sender_of c))"
proof -
  from reachable_viewE [OF assms] obtain vs cs fe be
    where I: "shaped (view c)" "in_flight (view c) vs cs fe be" "balanced (view c) vs cs" "ordered (view c) vs" .
  with filter_flight show ?thesis by (intro exI [of _ vs] exI [of _ cs]) (auto simp: chan_defs view_endpoints)
qed

text \<open>C2. Ordered delivery without duplication, and loss only in the window of a move. The accepted
  values are, first, an interleaving of what the receiver consumed, what it has queued and
  what was dispatched while the receiver had left its port, each in order; then, while the
  receiver is live, exactly what is in flight. If nothing was dispatched in such a window,
  what was consumed is a prefix of what was accepted.
\<close>

theorem delivery_in_order:
  assumes "reachable c"
  shows "(\<exists>dn qs rest. c_sent c = dn @ rest \<and> dn \<in> shuffles (c_got c @ qs) (c_lostValues c)
      \<and> (ep_live (receiver_of c) \<longrightarrow> qs = map contents (ep_queue (receiver_of c)) \<and> filter (\<lambda>p. p \<noteq> EndPacket) (c_fwd c) = map val rest))
    \<and> (c_lostValues c = [] \<longrightarrow> (\<exists>rest. c_sent c = c_got c @ rest))"
proof -
  from reachable_viewE [OF assms] obtain vs cs fe be
    where I: "shaped (view c)" "in_flight (view c) vs cs fe be" "balanced (view c) vs cs" "ordered (view c) vs" .
  from I(4) obtain dn qs rest where o: "c_sent c = dn @ rest" "dn \<in> shuffles (c_got c @ qs) (c_lostValues c)"
    "ep_live (receiver_of c) \<longrightarrow> qs = map contents (ep_queue (receiver_of c)) \<and> rest = vs"
    by (auto simp: ordered_def passed_def view_endpoints)
  have "filter (\<lambda>p. p \<noteq> EndPacket) (c_fwd c) = map val vs" using I(2) filter_flight(1) by (auto simp: in_flight_def)
  with o have "\<exists>dn qs rest. c_sent c = dn @ rest \<and> dn \<in> shuffles (c_got c @ qs) (c_lostValues c)
      \<and> (ep_live (receiver_of c) \<longrightarrow> qs = map contents (ep_queue (receiver_of c)) \<and> filter (\<lambda>p. p \<noteq> EndPacket) (c_fwd c) = map val rest)"
    by blast
  moreover have "\<exists>rest. c_sent c = c_got c @ rest" if "c_lostValues c = []"
    using o(1,2) that by (auto simp: shuffles_commutes [of _ "[]"])
  ultimately show ?thesis by blast
qed

text \<open>No spurious failure. In a reachable state, delivering the next packet to an open
  endpoint never takes the branch that closes it for a protocol violation: it stays live,
  and a receiver that takes a value stays open.
\<close>

theorem delivery_never_fails:
  assumes "reachable c"
  shows "(c_fwd c = p # ps \<and> ep_live (receiver_of c) \<and> \<not> ep_closed (receiver_of c) \<longrightarrow>
      ep_live (fst (arrived (receiver_of c) p)) \<and> (p \<noteq> EndPacket \<longrightarrow> \<not> ep_closed (fst (arrived (receiver_of c) p))))
    \<and> (c_bwd c = q # qs \<and> ep_live (sender_of c) \<and> \<not> ep_closed (sender_of c) \<longrightarrow>
      ep_live (fst (arrived (sender_of c) q)) \<and> (q \<noteq> StopPacket \<longrightarrow> \<not> ep_closed (fst (arrived (sender_of c) q))))"
proof -
  from reachable_viewE [OF assms] obtain vs cs fe be
    where I: "shaped (view c)" "in_flight (view c) vs cs fe be" "balanced (view c) vs cs" "ordered (view c) vs" .
  have fwd: "ep_live (fst (arrived (receiver_of c) p)) \<and> (p \<noteq> EndPacket \<longrightarrow> \<not> ep_closed (fst (arrived (receiver_of c) p)))"
    if "c_fwd c = p # ps" "ep_live (receiver_of c)" "\<not> ep_closed (receiver_of c)"
  proof (cases vs)
    case Nil
    with that I(2) have "p = EndPacket" by (auto simp: in_flight_def split: if_splits)
    with that I(1) show ?thesis by (simp add: arrived_def arrived_receiver_def fst_wake shaped_def view_endpoints)
  next
    case (Cons v ws)
    with that I(2) have "p = val v" by (auto simp: in_flight_def)
    with that I Cons show ?thesis using deliver_value [of "view c" v ws cs fe be] by (simp add: fst_wake view_endpoints)
  qed
  have bwd: "ep_live (fst (arrived (sender_of c) q)) \<and> (q \<noteq> StopPacket \<longrightarrow> \<not> ep_closed (fst (arrived (sender_of c) q)))"
    if "c_bwd c = q # qs" "ep_live (sender_of c)" "\<not> ep_closed (sender_of c)"
  proof (cases cs)
    case Nil
    with that I(2) have "q = StopPacket" by (auto simp: in_flight_def split: if_splits)
    with that I(1) show ?thesis by (simp add: arrived_def arrived_sender_def fst_wake shaped_def view_endpoints)
  next
    case (Cons n ns)
    with that I(2) have "q = credit n" by (auto simp: in_flight_def)
    with that I Cons show ?thesis using deliver_credit [of "view c" vs n ns fe be] by (simp add: fst_wake view_endpoints)
  qed
  from fwd bwd show ?thesis by blast
qed

text \<open>While nothing was lost and both sides are open, a sender without a slot always has something
  that will give it one: a value in flight, a queued value or a credit in flight.
\<close>

lemma sender_not_stuck:
  assumes "reachable c" "\<not> ep_closed (sender_of c)" "\<not> ep_closed (receiver_of c)" "c_lostValues c = []" "c_lostCredits c = []"
  shows "ep_slots (sender_of c) = 0 \<longrightarrow> c_fwd c \<noteq> [] \<or> ep_queue (receiver_of c) \<noteq> [] \<or> c_bwd c \<noteq> []"
proof -
  from reachable_viewE [OF assms(1)] obtain vs cs fe be
    where I: "shaped (view c)" "in_flight (view c) vs cs fe be" "balanced (view c) vs cs" "ordered (view c) vs" .
  with assms(2-5) show ?thesis by (auto simp: chan_defs view_endpoints)
qed

text \<open>Moving an endpoint to another realm keeps its state: when the snapshot of a live
  endpoint is adopted, the adopted endpoint has the same credits, queue and closed flag,
  and the old wrapper is dead and posts nothing.
\<close>

theorem move_adopt_roundtrip:
  assumes "move ids e = (ids1, e0, evs, Inr sn)" and "adoptPortEndpoint ids2 sn = (ids3, Inr e')"
  shows "e' = e \<and> \<not> ep_live e0 \<and> ep_queue e0 = [] \<and> posted evs = []"
proof -
  from move_snapshot [OF assms(1)] obtain g where m: "\<not> ep_live e0" "posted evs = []" "of_snapshot sn = e" "sn = snapshot_of e g" by blast
  with adopt_snapshot [OF assms(2) [unfolded m(4)]] assms(1) show ?thesis by (auto simp: move_def Let_def split: if_splits option.splits prod.splits)
qed

text \<open>C30. The window of a move loses a value for good. When the receiver of an idle channel is taken for a worker task while a value is sent to it, the value can be dispatched before
  the endpoint is transferred: then both endpoints are back as they were, nothing is in flight, the value was accepted and neither consumed nor queued, and the sender has one
  slot less that no credit will bring back.
\<close>

theorem move_window_loses_value:
  assumes "reachable c" "c_snd_at c = Attached" "c_rcv_at c = Attached" "c_fwd c = []"
    and send: "trySend True refusal (c_snd c) p = (s', evs, Inr Sent)"
    and move: "move ids (c_rcv c) = (ids1, r0, evs', Inr sn)" and adopt: "adoptPortEndpoint ids2 sn = (ids3, Inr r')"
  shows "\<exists>c'. reachable c' \<and> c_snd_at c' = Attached \<and> c_rcv_at c' = Attached \<and> c_rcv c' = c_rcv c \<and> c_fwd c' = [] \<and> c_bwd c' = c_bwd c \<and> c_got c' = c_got c \<and>
    c_sent c' = c_sent c @ [contents p] \<and> ep_live (c_snd c') \<and> \<not> ep_closed (c_snd c') \<and> Suc (ep_slots (c_snd c')) = ep_slots (c_snd c)"
proof -
  from send have "posted evs = [val (contents p)] \<and> ep_live s' \<and> \<not> ep_closed s' \<and> Suc (ep_slots s') = ep_slots (c_snd c)"
    by (cases rule: trySend_cases) auto
  then have sent: "posted evs = [val (contents p)]" "ep_live s'" "\<not> ep_closed s'" "Suc (ep_slots s') = ep_slots (c_snd c)" by blast+
  have r': "r' = c_rcv c" using move_adopt_roundtrip [OF move adopt] by simp
  define c1 where "c1 = c\<lparr>c_rcv := r0, c_rcv_at := Detached sn\<rparr>"
  define c2 where "c2 = c1\<lparr>c_snd := s', c_fwd := c_fwd c1 @ posted evs, c_sent := c_sent c1 @ accepted (Inr Sent) p\<rparr>"
  define c3 where "c3 = c2\<lparr>c_fwd := [], c_lostValues := c_lostValues c2 @ lost_values (val (contents p))\<rparr>"
  define c4 where "c4 = c3\<lparr>c_rcv_at := Transferred sn\<rparr>"
  have "reachable c1" unfolding c1_def by (rule reachable.step [OF assms(1) chan_step.move_rcv [OF move]])
  moreover have "chan_step c1 c2" unfolding c2_def by (rule chan_step.send [where posts = True and refusal = refusal]) (simp add: c1_def send)
  moreover have "chan_step c2 c3" unfolding c3_def by (rule chan_step.lose_fwd) (simp_all add: c2_def c1_def assms(4) sent(1))
  moreover have "chan_step c3 c4" unfolding c4_def by (rule chan_step.transfer_rcv) (simp add: c3_def c2_def c1_def)
  ultimately have "reachable c4" by (blast intro: reachable.step)
  moreover have "chan_step c4 (c4\<lparr>c_rcv := r', c_rcv_at := Attached\<rparr>)" by (rule chan_step.adopt_rcv [OF _ adopt]) (simp add: c4_def)
  ultimately have "reachable (c4\<lparr>c_rcv := r', c_rcv_at := Attached\<rparr>)" by (rule reachable.step)
  then show ?thesis
    by (intro exI [of _ "c4\<lparr>c_rcv := r', c_rcv_at := Attached\<rparr>"]) (simp add: c4_def c3_def c2_def c1_def assms(2) r' sent accepted_def)
qed

text \<open>A concrete channel of two slots and eight bytes, for the witnesses.\<close>

definition sample_snd :: endpoint where
  "sample_snd = \<lparr>ep_port = 1, ep_direction = Sender, ep_messages = 2, ep_bytes = 8, ep_live = True,
     ep_closed = False, ep_slots = 2, ep_room = 8, ep_retained = 0, ep_queue = [],
     ep_waiters = [], ep_observers = []\<rparr>"

definition sample_rcv :: endpoint where
  "sample_rcv = sample_snd\<lparr>ep_port := 2, ep_direction := Receiver\<rparr>"

definition sample_busy :: chan where
  "sample_busy = (initial sample_snd sample_rcv)\<lparr>c_snd := sample_snd\<lparr>ep_slots := 1, ep_room := 5\<rparr>,
     c_fwd := [val [1, 2, 3]], c_sent := [[1, 2, 3]]\<rparr>"

lemmas sample_defs = sample_snd_def sample_rcv_def sample_busy_def initial_def sender_of_def receiver_of_def

lemma sample_created:
  "snd (createPortChannel [] 1 2 (IntV 2) (IntV 8)) = Inr (sample_snd, sample_rcv)"
  by (simp add: createPortChannel_def endpoint_def limits_def accounted_def fresh_saved_def max_safe_def
      sample_snd_def sample_rcv_def mset_def mget_Cons)

lemma sample_reachable: "reachable (initial sample_snd sample_rcv)"
  using sample_created by (metis prod.collapse reachable.start)

lemma sample_busy_reachable: "reachable sample_busy"
proof (rule reachable.step [OF sample_reachable])
  have "trySend True (Error []) sample_snd (Owned [1, 2, 3]) =
      (sample_snd\<lparr>ep_slots := 1, ep_room := 5\<rparr>, [Posted (val [1, 2, 3])], Inr Sent)"
    by (simp add: trySend_def sample_snd_def val_def)
  from chan_step.send [of _ _ "initial sample_snd sample_rcv", simplified initial_def, simplified, OF this]
  show "chan_step (initial sample_snd sample_rcv) sample_busy"
    by (simp add: sample_busy_def initial_def accepted_def)
qed

theorem credits_conserved_witness:
  "\<exists>vs cs. filter (\<lambda>p. p \<noteq> EndPacket) (c_fwd sample_busy) = map val vs
    \<and> ep_slots (c_snd sample_busy) + length vs + length (ep_queue (c_rcv sample_busy)) + length cs = 2
    \<and> ep_slots (c_snd sample_busy) = 1"
  using credits_conserved [OF sample_busy_reachable] by (auto simp: sample_defs)

theorem delivery_in_order_witness:
  "ep_live (c_rcv sample_busy) \<and> c_sent sample_busy = [[1, 2, 3]] \<and>
   (\<exists>vs. filter (\<lambda>p. p \<noteq> EndPacket) (c_fwd sample_busy) = map val vs
      \<and> c_sent sample_busy = c_got sample_busy @ map contents (ep_queue (c_rcv sample_busy)) @ vs)"
  using delivery_in_order [OF sample_busy_reachable] by (simp add: sample_defs)

theorem delivery_never_fails_witness:
  "c_fwd sample_busy = val [1, 2, 3] # [] \<and> ep_live (fst (arrived (c_rcv sample_busy) (val [1, 2, 3])))
    \<and> \<not> ep_closed (fst (arrived (c_rcv sample_busy) (val [1, 2, 3])))"
  using delivery_never_fails [OF sample_busy_reachable, of "val [1, 2, 3]" "[]"]
  by (simp add: sample_defs val_def)

text \<open>In a channel of one slot the sender waits from then on for a credit that nothing will give.\<close>

theorem move_window_loses_value_witness:
  "\<exists>c. reachable c \<and> ep_messages (c_snd c) = 1 \<and> ep_slots (c_snd c) = 0 \<and> c_sent c = [[4]] \<and> c_got c = [] \<and> c_fwd c = [] \<and> c_bwd c = [] \<and>
     ep_queue (c_rcv c) = [] \<and> \<not> ep_closed (c_snd c) \<and> \<not> ep_closed (c_rcv c)"
proof -
  let ?s = "sample_snd\<lparr>ep_messages := 1, ep_slots := 1\<rparr>" and ?r = "sample_rcv\<lparr>ep_messages := 1, ep_slots := 1\<rparr>"
  let ?c = "initial ?s ?r" and ?ids = "[(2, \<lparr>id_generation = IntV 1, id_claimed = True\<rparr>)]"
  have "snd (createPortChannel [] 1 2 (IntV 1) (IntV 8)) = Inr (?s, ?r)"
    by (simp add: createPortChannel_def endpoint_def limits_def accounted_def fresh_saved_def max_safe_def sample_snd_def sample_rcv_def mset_def mget_Cons Let_def)
  then have c: "reachable ?c" by (metis prod.collapse reachable.start)
  have send: "trySend True (Error []) (c_snd ?c) (Owned [4]) = (?s\<lparr>ep_slots := 0, ep_room := 7\<rparr>, [Posted (val [4])], Inr Sent)"
    by (simp add: trySend_def sample_snd_def val_def initial_def)
  have "\<exists>ids1 r0 evs sn. move ?ids (c_rcv ?c) = (ids1, r0, evs, Inr sn)" by (simp add: move_def sample_defs mget_Cons max_safe_def Let_def)
  then obtain ids1 r0 evs sn where m: "move ?ids (c_rcv ?c) = (ids1, r0, evs, Inr sn)" by blast
  then have "\<exists>ids3 r'. adoptPortEndpoint [] sn = (ids3, Inr r')"
    by (auto simp: move_def sample_defs mget_Cons max_safe_def Let_def adoptPortEndpoint_def endpoint_def limits_def accounted_def)
  then obtain ids3 r' where a: "adoptPortEndpoint [] sn = (ids3, Inr r')" by blast
  have at: "c_snd_at ?c = Attached" "c_rcv_at ?c = Attached" "c_fwd ?c = []" by (simp_all add: initial_def)
  from move_window_loses_value [OF c at send m a] obtain c' where c': "reachable c'" "c_rcv c' = ?r" "c_fwd c' = []" "c_bwd c' = []" "c_got c' = []" "c_sent c' = [[4]]"
    "ep_live (c_snd c')" "\<not> ep_closed (c_snd c')" "Suc (ep_slots (c_snd c')) = 1" "c_snd_at c' = Attached" "c_rcv_at c' = Attached" by (auto simp: initial_def sample_snd_def)
  from reachable_viewE [OF c'(1)] have "shaped (view c')" .
  then have "ep_messages (c_snd c') = 1" using c' by (simp add: shaped_def view_def sample_rcv_def sample_snd_def)
  with c' show ?thesis by (intro exI [of _ c']) (simp add: sample_rcv_def sample_snd_def)
qed

theorem move_adopt_roundtrip_witness:
  "\<exists>ids1 e0 evs sn. move [(1, \<lparr>id_generation = IntV 1, id_claimed = True\<rparr>)] sample_snd = (ids1, e0, evs, Inr sn)
    \<and> snd (adoptPortEndpoint [] sn) = Inr sample_snd \<and> \<not> ep_live e0"
proof -
  let ?ids = "[(1, \<lparr>id_generation = IntV 1, id_claimed = True\<rparr>)]"
  have "\<exists>ids1 e0 evs sn. move ?ids sample_snd = (ids1, e0, evs, Inr sn)"
    by (simp add: move_def sample_snd_def mget_Cons max_safe_def Let_def)
  then obtain ids1 e0 evs sn where m: "move ?ids sample_snd = (ids1, e0, evs, Inr sn)" by blast
  have "\<exists>ids3 e'. adoptPortEndpoint [] sn = (ids3, Inr e')"
    using m by (auto simp: move_def sample_snd_def mget_Cons max_safe_def Let_def adoptPortEndpoint_def endpoint_def
        limits_def accounted_def)
  then obtain ids3 e' where a: "adoptPortEndpoint [] sn = (ids3, Inr e')" by blast
  from move_adopt_roundtrip [OF m a] m a show ?thesis by auto
qed

end
