(* ===== verification/Codec.thy ===== *)
theory Codec
  imports Prelude
begin

text \<open>
  The binary and text encodings of the host channel: little-endian fields as
  \<^verbatim>\<open>DataView\<close> reads and writes them, UTF-8 as \<^verbatim>\<open>TextEncoder\<close> and the fatal \<^verbatim>\<open>TextDecoder\<close>
  translate JavaScript strings, and the classes \<^verbatim>\<open>Reader\<close> and \<^verbatim>\<open>Writer\<close> of
  \<^verbatim>\<open>src/runtime/wasm/host-channel.mjs\<close>.
\<close>

section \<open>Little-endian fields\<close>

fun le_bytes :: "nat \<Rightarrow> nat \<Rightarrow> byte list" where
  "le_bytes 0 n = []"
| "le_bytes (Suc k) n = of_nat n # le_bytes k (n div 256)"

fun le_nat :: "byte list \<Rightarrow> nat" where
  "le_nat [] = 0"
| "le_nat (b # bs) = unat b + 256 * le_nat bs"

lemma le_bytes_numeral: "le_bytes (numeral k) n = of_nat n # le_bytes (pred_numeral k) (n div 256)"
  by (simp only: numeral_eq_Suc [of k] le_bytes.simps)

lemma length_le_bytes [simp]: "length (le_bytes k n) = k"
  by (induction k arbitrary: n) auto

lemma le_nat_le_bytes: "le_nat (le_bytes k n) = n mod 256 ^ k"
proof (induction k arbitrary: n)
  case (Suc k)
  have "n mod 256 ^ Suc k = n mod 256 + 256 * (n div 256 mod 256 ^ k)"
    by (simp add: mod_mult2_eq mult.commute)
  with Suc show ?case by (simp add: unat_of_nat)
qed simp

lemma le_nat_bound: "le_nat bs < 256 ^ length bs"
proof (induction bs)
  case (Cons b bs)
  then show ?case using unat_byte [of b] unfolding le_nat.simps list.size power_add by simp
qed simp

lemma le_bytes_le_nat: "le_bytes (length bs) (le_nat bs) = bs"
proof (induction bs)
  case (Cons b bs)
  have "(of_nat (unat b + 256 * le_nat bs) :: byte) = b"
  proof -
    have zero: "(256 :: byte) = 0" by simp
    have "(of_nat (unat b + 256 * le_nat bs) :: byte) = b + 256 * of_nat (le_nat bs)" by simp
    then show ?thesis unfolding zero by simp
  qed
  then show ?case using Cons unat_byte [of b] by simp
qed simp

section \<open>UTF-16 and UTF-8\<close>

definition high_surrogate :: "nat \<Rightarrow> bool" where
  "high_surrogate u \<longleftrightarrow> 0xD800 \<le> u \<and> u \<le> 0xDBFF"

definition low_surrogate :: "nat \<Rightarrow> bool" where
  "low_surrogate u \<longleftrightarrow> 0xDC00 \<le> u \<and> u \<le> 0xDFFF"

definition scalar_value :: "nat \<Rightarrow> bool" where
  "scalar_value c \<longleftrightarrow> c < 0x110000 \<and> \<not> high_surrogate c \<and> \<not> low_surrogate c"

definition replaced :: "nat \<Rightarrow> nat" where
  "replaced u = (if high_surrogate u \<or> low_surrogate u then 0xFFFD else u)"

text \<open>The code points of a string, a lone surrogate replaced as the encoder replaces it.\<close>

fun code_points :: "jstr \<Rightarrow> nat list" where
  "code_points [] = []"
| "code_points [u] = [replaced u]"
| "code_points (u # v # us) =
     (if high_surrogate u \<and> low_surrogate v
      then (0x10000 + (u - 0xD800) * 1024 + (v - 0xDC00)) # code_points us
      else replaced u # code_points (v # us))"

fun isWellFormed :: "jstr \<Rightarrow> bool" where
  "isWellFormed [] \<longleftrightarrow> True"
| "isWellFormed [u] \<longleftrightarrow> \<not> high_surrogate u \<and> \<not> low_surrogate u"
| "isWellFormed (u # v # us) \<longleftrightarrow>
     (if high_surrogate u \<and> low_surrogate v then isWellFormed us
      else \<not> high_surrogate u \<and> \<not> low_surrogate u \<and> isWellFormed (v # us))"

definition units :: "nat \<Rightarrow> jstr" where
  "units c = (if c < 0x10000 then [c]
     else [0xD800 + (c - 0x10000) div 1024, 0xDC00 + (c - 0x10000) mod 1024])"

definition utf8_cp :: "nat \<Rightarrow> nat list" where
  "utf8_cp c =
    (if c < 0x80 then [c]
     else if c < 0x800 then [0xC0 + c div 64, 0x80 + c mod 64]
     else if c < 0x10000 then [0xE0 + c div 4096, 0x80 + c div 64 mod 64, 0x80 + c mod 64]
     else [0xF0 + c div 262144, 0x80 + c div 4096 mod 64, 0x80 + c div 64 mod 64, 0x80 + c mod 64])"

definition encode_text :: "jstr \<Rightarrow> byte list" where
  "encode_text s = map of_nat (concat (map utf8_cp (code_points s)))"

definition within :: "nat \<Rightarrow> nat \<Rightarrow> nat \<Rightarrow> bool" where
  "within lo hi b \<longleftrightarrow> lo \<le> b \<and> b \<le> hi"

text \<open>The decoder's first continuation byte has a narrower range after four lead bytes.\<close>

definition second_ok :: "nat \<Rightarrow> nat \<Rightarrow> bool" where
  "second_ok lead b =
    within (if lead = 0xE0 then 0xA0 else if lead = 0xF0 then 0x90 else 0x80)
           (if lead = 0xED then 0x9F else if lead = 0xF4 then 0x8F else 0xBF) b"

abbreviation cont :: "nat \<Rightarrow> bool" where
  "cont b \<equiv> within 0x80 0xBF b"

fun utf8_decode :: "nat list \<Rightarrow> nat list option" where
  "utf8_decode [] = Some []"
| "utf8_decode (a # bs) =
    (if a < 0x80 then map_option (Cons a) (utf8_decode bs)
     else if within 0xC2 0xDF a then
       (case bs of b # r \<Rightarrow>
          if cont b then map_option (Cons ((a - 0xC0) * 64 + (b - 0x80))) (utf8_decode r) else None
        | _ \<Rightarrow> None)
     else if within 0xE0 0xEF a then
       (case bs of b # c # r \<Rightarrow>
          if second_ok a b \<and> cont c
          then map_option (Cons ((a - 0xE0) * 4096 + (b - 0x80) * 64 + (c - 0x80))) (utf8_decode r)
          else None
        | _ \<Rightarrow> None)
     else if within 0xF0 0xF4 a then
       (case bs of b # c # d # r \<Rightarrow>
          if second_ok a b \<and> cont c \<and> cont d
          then map_option (Cons ((a - 0xF0) * 262144 + (b - 0x80) * 4096 + (c - 0x80) * 64 + (d - 0x80)))
                 (utf8_decode r)
          else None
        | _ \<Rightarrow> None)
     else None)"

text \<open>A \<^verbatim>\<open>TextDecoder\<close> made without \<^verbatim>\<open>ignoreBOM\<close> drops a leading byte order mark.\<close>

definition strip_bom :: "byte list \<Rightarrow> byte list" where
  "strip_bom bs = (if take 3 bs = [0xEF, 0xBB, 0xBF] then drop 3 bs else bs)"

definition decode_text :: "byte list \<Rightarrow> jstr result" where
  "decode_text bs =
    (case utf8_decode (map unat (strip_bom bs)) of
       None \<Rightarrow> Inl (TypeError (js ''The encoded data was not valid for encoding utf-8''))
     | Some cps \<Rightarrow> Inr (concat (map units cps)))"

section \<open>Reader\<close>

record reader =
  rd_buffer :: "byte list"
  rd_at :: nat

definition rd_take :: "nat \<Rightarrow> reader \<Rightarrow> (nat \<times> reader) result" where
  "rd_take count r =
    (if rd_at r + count > length (rd_buffer r)
     then throw ''a host frame's records ended inside a record''
     else Inr (rd_at r, r\<lparr>rd_at := rd_at r + count\<rparr>))"

definition rd_bytes :: "nat \<Rightarrow> reader \<Rightarrow> (byte list \<times> reader) result" where
  "rd_bytes count r = bind (rd_take count r) (\<lambda>(at, r'). Inr (take count (drop at (rd_buffer r)), r'))"

definition rd_uint :: "nat \<Rightarrow> reader \<Rightarrow> (nat \<times> reader) result" where
  "rd_uint width r = bind (rd_bytes width r) (\<lambda>(bs, r'). Inr (le_nat bs, r'))"

abbreviation rd_u8 :: "reader \<Rightarrow> (nat \<times> reader) result" where "rd_u8 \<equiv> rd_uint 1"
abbreviation rd_u16 :: "reader \<Rightarrow> (nat \<times> reader) result" where "rd_u16 \<equiv> rd_uint 2"
abbreviation rd_u32 :: "reader \<Rightarrow> (nat \<times> reader) result" where "rd_u32 \<equiv> rd_uint 4"

text \<open>A number is its IEEE 754 bit pattern, which is what the eight bytes hold.\<close>

type_synonym f64 = "64 word"

definition rd_f64 :: "reader \<Rightarrow> (f64 \<times> reader) result" where
  "rd_f64 r = bind (rd_uint 8 r) (\<lambda>(n, r'). Inr (of_nat n, r'))"

definition rd_text :: "nat \<Rightarrow> reader \<Rightarrow> (jstr \<times> reader) result" where
  "rd_text count r = bind (rd_bytes count r) (\<lambda>(bs, r').
     bind (decode_text bs) (\<lambda>s. Inr (s, r')))"

definition rd_remaining :: "reader \<Rightarrow> nat" where
  "rd_remaining r = length (rd_buffer r) - rd_at r"

section \<open>Writer\<close>

record writer =
  wr_buffer :: "byte list"
  wr_length :: nat

definition new_writer :: "nat \<Rightarrow> writer" where
  "new_writer capacity = \<lparr>wr_buffer = replicate capacity 0, wr_length = 0\<rparr>"

definition wr_reserve :: "nat \<Rightarrow> writer \<Rightarrow> nat \<times> writer" where
  "wr_reserve count w =
    (let needed = wr_length w + count;
         buffer = (if needed > length (wr_buffer w)
           then blit (replicate (max needed (length (wr_buffer w) * 2)) 0) 0 (take (wr_length w) (wr_buffer w))
           else wr_buffer w)
     in (wr_length w, \<lparr>wr_buffer = buffer, wr_length = needed\<rparr>))"

definition wr_raw :: "byte list \<Rightarrow> writer \<Rightarrow> writer" where
  "wr_raw bs w = (case wr_reserve (length bs) w of (at, w') \<Rightarrow>
     w'\<lparr>wr_buffer := blit (wr_buffer w') at bs\<rparr>)"

definition wr_uint :: "nat \<Rightarrow> nat \<Rightarrow> writer \<Rightarrow> writer" where
  "wr_uint width value w = (case wr_reserve width w of (at, w') \<Rightarrow>
     w'\<lparr>wr_buffer := blit (wr_buffer w') at (le_bytes width value)\<rparr>)"

abbreviation wr_u8 :: "nat \<Rightarrow> writer \<Rightarrow> writer" where "wr_u8 \<equiv> wr_uint 1"
abbreviation wr_u16 :: "nat \<Rightarrow> writer \<Rightarrow> writer" where "wr_u16 \<equiv> wr_uint 2"
abbreviation wr_u32 :: "nat \<Rightarrow> writer \<Rightarrow> writer" where "wr_u32 \<equiv> wr_uint 4"

definition wr_f64 :: "f64 \<Rightarrow> writer \<Rightarrow> writer" where
  "wr_f64 x w = wr_uint 8 (unat x) w"

definition wr_sized :: "byte list \<Rightarrow> writer \<Rightarrow> writer" where
  "wr_sized bs w = wr_raw bs (wr_u32 (length bs) w)"

definition wr_result :: "writer \<Rightarrow> byte list" where
  "wr_result w = take (wr_length w) (wr_buffer w)"

definition wf_writer :: "writer \<Rightarrow> bool" where
  "wf_writer w \<longleftrightarrow> wr_length w \<le> length (wr_buffer w)"

section \<open>The writer appends\<close>

text \<open>
  The contract of an append-only byte sink, which the record encoders use: whatever the
  capacity and however often it grew, writing appends.
\<close>

locale byte_sink =
  fixes put :: "byte list \<Rightarrow> 'w \<Rightarrow> 'w"
    and written :: "'w \<Rightarrow> byte list"
    and ok :: "'w \<Rightarrow> bool"
  assumes ok_put: "ok w \<Longrightarrow> ok (put bs w)"
    and written_put: "ok w \<Longrightarrow> written (put bs w) = written w @ bs"
begin

lemma put_all: "ok w \<Longrightarrow> ok (fold put bss w) \<and> written (fold put bss w) = written w @ concat bss"
  by (induction bss arbitrary: w) (auto simp: ok_put written_put)

lemma put_put: "ok w \<Longrightarrow> written (put cs (put bs w)) = written (put (bs @ cs) w)"
  by (simp add: ok_put written_put)

end

lemma wr_reserve_spec:
  assumes "wf_writer w" and "wr_reserve n w = (at, w')"
  shows "at = wr_length w \<and> wr_length w' = at + n \<and> at + n \<le> length (wr_buffer w')
    \<and> take at (wr_buffer w') = wr_result w"
  using assms by (auto simp: wr_reserve_def wf_writer_def wr_result_def blit_def Let_def split: if_splits)

lemma wr_store_spec:
  assumes "wf_writer w" and "wr_reserve (length bs) w = (at, w')"
  shows "wf_writer (w'\<lparr>wr_buffer := blit (wr_buffer w') at bs\<rparr>)
    \<and> wr_result (w'\<lparr>wr_buffer := blit (wr_buffer w') at bs\<rparr>) = wr_result w @ bs"
proof -
  note spec = wr_reserve_spec [OF assms]
  from spec blit_extends [of at bs "wr_buffer w'"] show ?thesis
    by (auto simp: wf_writer_def wr_result_def)
qed

interpretation sink: byte_sink wr_raw wr_result wf_writer
proof (unfold_locales, goal_cases)
  case (1 w bs)
  then show ?case using wr_store_spec [of w bs] by (simp add: wr_raw_def split: prod.splits)
next
  case (2 w bs)
  then show ?case using wr_store_spec [of w bs] by (simp add: wr_raw_def split: prod.splits)
qed

lemma wf_new_writer [simp]: "wf_writer (new_writer n)" "wr_result (new_writer n) = []"
  by (auto simp: wf_writer_def new_writer_def wr_result_def)

lemma wr_uint_raw: "wr_uint k n w = wr_raw (le_bytes k n) w"
  by (simp add: wr_uint_def wr_raw_def)

lemma wr_result_simps [simp]:
  assumes "wf_writer w"
  shows "wf_writer (wr_uint k n w)" "wr_result (wr_uint k n w) = wr_result w @ le_bytes k n"
    "wf_writer (wr_raw bs w)" "wr_result (wr_raw bs w) = wr_result w @ bs"
    "wf_writer (wr_f64 x w)" "wr_result (wr_f64 x w) = wr_result w @ le_bytes 8 (unat x)"
    "wf_writer (wr_sized bs w)" "wr_result (wr_sized bs w) = wr_result w @ le_bytes 4 (length bs) @ bs"
  using assms by (simp_all add: wr_uint_raw wr_f64_def wr_sized_def sink.ok_put sink.written_put)

section \<open>Reading back\<close>

definition reads :: "(reader \<Rightarrow> ('a \<times> reader) result) \<Rightarrow> byte list \<Rightarrow> 'a \<Rightarrow> bool" where
  "reads f bs x \<longleftrightarrow> (\<forall>pre post. f \<lparr>rd_buffer = pre @ bs @ post, rd_at = length pre\<rparr> =
     Inr (x, \<lparr>rd_buffer = pre @ bs @ post, rd_at = length (pre @ bs)\<rparr>))"

lemma reads_bytes: "n = length bs \<Longrightarrow> reads (rd_bytes n) bs bs"
  by (simp add: reads_def rd_bytes_def rd_take_def)

lemma reads_uint: "n < 256 ^ k \<Longrightarrow> reads (rd_uint k) (le_bytes k n) n"
  using reads_bytes [of k "le_bytes k n"]
  by (simp add: reads_def rd_uint_def le_nat_le_bytes)

lemma reads_f64: "reads rd_f64 (le_bytes 8 (unat x)) x"
proof -
  have "unat x < 256 ^ 8" using unsigned_less [of x, where 'a = nat] by simp
  from reads_uint [OF this] show ?thesis by (simp add: reads_def rd_f64_def)
qed

lemma reads_text: "decode_text bs = Inr s \<Longrightarrow> n = length bs \<Longrightarrow> reads (rd_text n) bs s"
  using reads_bytes [of n bs] by (simp add: reads_def rd_text_def)

section \<open>Text round trips\<close>

lemma replaced_scalar: "u < 65536 \<Longrightarrow> scalar_value (replaced u)"
  by (auto simp: scalar_value_def replaced_def high_surrogate_def low_surrogate_def)

lemma code_points_scalar: "\<forall>u \<in> set s. u < 65536 \<Longrightarrow> \<forall>c \<in> set (code_points s). scalar_value c"
proof (induction s rule: code_points.induct)
  case (3 u v us)
  then show ?case
    by (auto simp: replaced_scalar) (auto simp: scalar_value_def high_surrogate_def low_surrogate_def)
qed (auto simp: replaced_scalar)

lemma utf8_cp_bytes: "c < 0x110000 \<Longrightarrow> \<forall>b \<in> set (utf8_cp c). b < 256"
  by (auto simp: utf8_cp_def)

lemma utf8_decode_2: "0x80 \<le> c \<Longrightarrow> c < 0x800 \<Longrightarrow> utf8_decode (utf8_cp c @ bs) = map_option (Cons c) (utf8_decode bs)"
proof -
  assume c: "0x80 \<le> c" "c < 0x800"
  then have "within 0xC2 0xDF (0xC0 + c div 64)" "cont (0x80 + c mod 64)"
    by (auto simp: within_def)
  moreover have "(c div 64) * 64 + c mod 64 = c" by simp
  ultimately show ?thesis using c by (simp add: utf8_cp_def)
qed

lemma base64_digits3: "c div 4096 * 4096 + c div 64 mod 64 * 64 + c mod 64 = (c :: nat)"
proof -
  have "c div 4096 = c div 64 div 64" by (simp add: div_mult2_eq [symmetric])
  moreover have "c div 64 div 64 * 64 + c div 64 mod 64 = c div 64" "c div 64 * 64 + c mod 64 = c"
    by (simp_all only: div_mult_mod_eq)
  ultimately show ?thesis by linarith
qed

lemma base64_digits4:
  "c div 262144 * 262144 + c div 4096 mod 64 * 4096 + c div 64 mod 64 * 64 + c mod 64 = (c :: nat)"
proof -
  have "c div 262144 = c div 4096 div 64" by (simp add: div_mult2_eq [symmetric])
  moreover have "c div 4096 div 64 * 64 + c div 4096 mod 64 = c div 4096"
    by (simp only: div_mult_mod_eq)
  ultimately show ?thesis using base64_digits3 [of c] by linarith
qed

lemma utf8_decode_3:
  assumes c: "0x800 \<le> c" "c < 0x10000" "scalar_value c"
  shows "utf8_decode (utf8_cp c @ bs) = map_option (Cons c) (utf8_decode bs)"
proof -
  define a b d where abd: "a = c div 4096" "b = c div 64 mod 64" "d = c mod 64"
  have eq: "c = a * 4096 + b * 64 + d" unfolding abd by (simp only: base64_digits3)
  have bounds: "a < 16" "b < 64" "d < 64" using c unfolding abd by auto
  have lead: "within 0xE0 0xEF (0xE0 + a)" "\<not> within 0xC2 0xDF (0xE0 + a)" "cont (0x80 + d)"
    using bounds by (auto simp: within_def)
  have "a = 0 \<Longrightarrow> 32 \<le> b" using c bounds eq by linarith
  moreover have "a = 13 \<Longrightarrow> b < 32"
    using c(3) bounds eq unfolding scalar_value_def high_surrogate_def low_surrogate_def by linarith
  ultimately have "second_ok (0xE0 + a) (0x80 + b)"
    using bounds by (auto simp: second_ok_def within_def)
  with lead have "utf8_decode ([0xE0 + a, 0x80 + b, 0x80 + d] @ bs) = map_option (Cons (a * 4096 + b * 64 + d)) (utf8_decode bs)"
    by simp
  then show ?thesis using c unfolding eq [symmetric] by (simp add: utf8_cp_def abd del: utf8_decode.simps)
qed

lemma utf8_decode_4:
  assumes c: "0x10000 \<le> c" "c < 0x110000"
  shows "utf8_decode (utf8_cp c @ bs) = map_option (Cons c) (utf8_decode bs)"
proof -
  define a b d e where abd: "a = c div 262144" "b = c div 4096 mod 64" "d = c div 64 mod 64" "e = c mod 64"
  have eq: "c = a * 262144 + b * 4096 + d * 64 + e" unfolding abd by (simp only: base64_digits4)
  have bounds: "a < 5" "b < 64" "d < 64" "e < 64" using c unfolding abd by auto
  have lead: "within 0xF0 0xF4 (0xF0 + a)" "\<not> within 0xC2 0xDF (0xF0 + a)" "\<not> within 0xE0 0xEF (0xF0 + a)"
    "cont (0x80 + d)" "cont (0x80 + e)"
    using bounds by (auto simp: within_def)
  have "a = 0 \<Longrightarrow> 16 \<le> b" and "a = 4 \<Longrightarrow> b < 16" using c bounds eq by linarith+
  then have "second_ok (0xF0 + a) (0x80 + b)"
    using bounds by (auto simp: second_ok_def within_def)
  with lead have "utf8_decode ([0xF0 + a, 0x80 + b, 0x80 + d, 0x80 + e] @ bs) =
      map_option (Cons (a * 262144 + b * 4096 + d * 64 + e)) (utf8_decode bs)"
    by simp
  then show ?thesis using c unfolding eq [symmetric] by (simp add: utf8_cp_def abd del: utf8_decode.simps)
qed

lemma utf8_decode_cp:
  assumes "scalar_value c"
  shows "utf8_decode (utf8_cp c @ bs) = map_option (Cons c) (utf8_decode bs)"
proof -
  consider "c < 0x80" | "0x80 \<le> c" "c < 0x800" | "0x800 \<le> c" "c < 0x10000" | "0x10000 \<le> c" "c < 0x110000"
    using assms unfolding scalar_value_def by linarith
  then show ?thesis
    by cases (simp add: utf8_cp_def, auto intro: utf8_decode_2 utf8_decode_3 utf8_decode_4 assms simp del: utf8_decode.simps)
qed

lemma utf8_decode_concat: "\<forall>c \<in> set cs. scalar_value c \<Longrightarrow> utf8_decode (concat (map utf8_cp cs)) = Some cs"
  by (induction cs) (auto simp: utf8_decode_cp simp del: utf8_decode.simps(2))

lemma map_unat_of_nat: "\<forall>n \<in> set ns. n < 256 \<Longrightarrow> map unat (map of_nat ns :: byte list) = ns"
  by (induction ns) (auto simp: unat_of_nat)

lemma units_code_points:
  "isWellFormed s \<Longrightarrow> \<forall>u \<in> set s. u < 65536 \<Longrightarrow> concat (map units (code_points s)) = s"
proof (induction s rule: code_points.induct)
  case (3 u v us)
  show ?case
  proof (cases "high_surrogate u \<and> low_surrogate v")
    case True
    then obtain a b where u: "u = 0xD800 + a" "v = 0xDC00 + b" "a < 1024" "b < 1024"
      by (auto simp: high_surrogate_def low_surrogate_def dest!: le_Suc_ex)
    with True 3 show ?thesis by (simp add: units_def)
  next
    case False
    with 3 show ?thesis by (auto simp: units_def replaced_def split: if_splits)
  qed
qed (auto simp: units_def replaced_def)

lemma unat_encode_text:
  assumes "\<forall>u \<in> set s. u < 65536"
  shows "map unat (encode_text s) = concat (map utf8_cp (code_points s))"
proof -
  have "\<forall>n \<in> set (concat (map utf8_cp (code_points s))). n < 256"
    using code_points_scalar [OF assms] utf8_cp_bytes by (auto simp: scalar_value_def)
  then show ?thesis unfolding encode_text_def by (rule map_unat_of_nat)
qed

lemma decode_encode_raw:
  assumes "isWellFormed s" and "\<forall>u \<in> set s. u < 65536"
  shows "utf8_decode (map unat (encode_text s)) = Some (code_points s) \<and> concat (map units (code_points s)) = s"
  using assms utf8_decode_concat [OF code_points_scalar [OF assms(2)]]
  by (simp add: unat_encode_text units_code_points)

lemma bom_only: "take 3 (utf8_cp c @ bs) = [0xEF, 0xBB, 0xBF] \<Longrightarrow> c < 0x110000 \<Longrightarrow> c = 0xFEFF"
proof -
  assume bom: "take 3 (utf8_cp c @ bs) = [0xEF, 0xBB, 0xBF]" and c: "c < 0x110000"
  consider "c < 0x80" | (two) "0x80 \<le> c" "c < 0x800" | (three) "0x800 \<le> c" "c < 0x10000" | "0x10000 \<le> c"
    by linarith
  then show ?thesis
  proof cases
    case two
    then have "c div 64 < 32" by auto
    with two bom show ?thesis by (simp add: utf8_cp_def)
  next
    case three
    with bom have "c div 4096 = 15" "c div 64 mod 64 = 59" "c mod 64 = 63"
      by (simp_all add: utf8_cp_def)
    then show ?thesis using base64_digits3 [of c] by simp
  qed (use bom in \<open>simp_all add: utf8_cp_def take_Cons'\<close>)
qed

lemma code_points_hd: "code_points (u # us) = c # cs \<Longrightarrow> c = 0xFEFF \<Longrightarrow> u = 0xFEFF"
  by (cases us) (auto simp: replaced_def split: if_splits)

lemma no_bom:
  assumes "\<forall>u \<in> set s. u < 65536" and "take 1 s \<noteq> [0xFEFF]"
  shows "take 3 (encode_text s) \<noteq> [0xEF, 0xBB, 0xBF]"
proof
  assume bom: "take 3 (encode_text s) = [0xEF, 0xBB, 0xBF]"
  then obtain u us where s: "s = u # us" by (cases s) (auto simp: encode_text_def)
  obtain c cs where cp: "code_points s = c # cs" by (cases "code_points s"; cases us) (auto simp: s split: if_splits)
  have "map unat (take 3 (encode_text s)) = [0xEF, 0xBB, 0xBF]" by (simp add: bom)
  then have "take 3 (utf8_cp c @ concat (map utf8_cp cs)) = [0xEF, 0xBB, 0xBF]"
    by (simp add: take_map [symmetric] unat_encode_text assms(1) cp)
  moreover have "c < 0x110000" using code_points_scalar [OF assms(1)] cp by (simp add: scalar_value_def)
  ultimately have "c = 0xFEFF" by (rule bom_only)
  with code_points_hd cp s have "u = 0xFEFF" by blast
  with assms(2) s show False by simp
qed

section \<open>Properties\<close>

text \<open>The growing \<^verbatim>\<open>Writer\<close> refines an append-only byte string: whatever capacity it
  started with, writing a field appends exactly that field's bytes to what \<^verbatim>\<open>result\<close>
  returns, and no earlier byte changes when the buffer is replaced.
\<close>

theorem writer_appends:
  assumes "wf_writer w"
  shows "wr_result (wr_uint k n w) = wr_result w @ le_bytes k n
    \<and> wr_result (wr_f64 x w) = wr_result w @ le_bytes 8 (unat x)
    \<and> wr_result (wr_sized bs w) = wr_result w @ le_bytes 4 (length bs) @ bs
    \<and> wr_result (fold wr_raw bss w) = wr_result w @ concat bss
    \<and> wf_writer (wr_uint k n w) \<and> wf_writer (wr_f64 x w) \<and> wf_writer (wr_sized bs w)"
  using assms sink.put_all [OF assms, of bss] by simp

theorem writer_appends_witness:
  "wf_writer (new_writer 1) \<and> wr_result (wr_sized [9, 8] (new_writer 1)) = [2, 0, 0, 0, 9, 8]"
  using writer_appends [OF wf_new_writer(1), where bs = "[9, 8]"] by (simp add: le_bytes_numeral)

text \<open>What a writer wrote a reader reads back: each field that fits its width returns with
  the cursor right behind it, wherever the field lies in the buffer.
\<close>

theorem reader_reads_written:
  assumes "n < 256 ^ k" and "length bs < 2 ^ 32"
  shows "rd_uint k \<lparr>rd_buffer = pre @ le_bytes k n @ post, rd_at = length pre\<rparr>
      = Inr (n, \<lparr>rd_buffer = pre @ le_bytes k n @ post, rd_at = length pre + k\<rparr>)
    \<and> rd_f64 \<lparr>rd_buffer = pre @ le_bytes 8 (unat x) @ post, rd_at = length pre\<rparr>
      = Inr (x, \<lparr>rd_buffer = pre @ le_bytes 8 (unat x) @ post, rd_at = length pre + 8\<rparr>)
    \<and> bind (rd_u32 \<lparr>rd_buffer = pre @ le_bytes 4 (length bs) @ bs @ post, rd_at = length pre\<rparr>)
        (\<lambda>(count, r). rd_bytes count r)
      = Inr (bs, \<lparr>rd_buffer = pre @ le_bytes 4 (length bs) @ bs @ post, rd_at = length pre + 4 + length bs\<rparr>)"
proof -
  have "reads rd_u32 (le_bytes 4 (length bs)) (length bs)"
    using assms(2) by (intro reads_uint) simp
  then have size: "rd_u32 \<lparr>rd_buffer = pre @ le_bytes 4 (length bs) @ bs @ post, rd_at = length pre\<rparr>
      = Inr (length bs, \<lparr>rd_buffer = pre @ le_bytes 4 (length bs) @ bs @ post, rd_at = length pre + 4\<rparr>)"
    by (simp add: reads_def)
  have "rd_bytes (length bs) \<lparr>rd_buffer = (pre @ le_bytes 4 (length bs)) @ bs @ post, rd_at = length (pre @ le_bytes 4 (length bs))\<rparr>
      = Inr (bs, \<lparr>rd_buffer = (pre @ le_bytes 4 (length bs)) @ bs @ post, rd_at = length ((pre @ le_bytes 4 (length bs)) @ bs)\<rparr>)"
    using reads_bytes [of "length bs" bs] unfolding reads_def by blast
  with size show ?thesis
    using reads_uint [OF assms(1)] reads_f64 [of x] by (simp add: reads_def add.assoc)
qed

theorem reader_reads_written_witness:
  "bind (rd_u32 \<lparr>rd_buffer = [7] @ le_bytes 4 2 @ [5, 6] @ [1], rd_at = 1\<rparr>) (\<lambda>(count, r). rd_bytes count r)
     = Inr ([5, 6], \<lparr>rd_buffer = [7, 2, 0, 0, 0, 5, 6, 1], rd_at = 7\<rparr>)"
  using reader_reads_written [of 0 1 "[5, 6]" "[7]" "[1]"] by (simp add: le_bytes_numeral)

text \<open>Text survives the wire: decoding the UTF-8 of a well-formed string gives the string
  back, unless it starts with a byte order mark.
\<close>

theorem text_roundtrip:
  assumes "isWellFormed s" and "\<forall>u \<in> set s. u < 65536" and "take 1 s \<noteq> [0xFEFF]"
  shows "decode_text (encode_text s) = Inr s"
  using decode_encode_raw [OF assms(1,2)] no_bom [OF assms(2,3)]
  by (simp add: decode_text_def strip_bom_def)

theorem text_roundtrip_witness: "decode_text (encode_text [0x68, 0xE9, 0x20AC, 0xD83D, 0xDE00]) = Inr [0x68, 0xE9, 0x20AC, 0xD83D, 0xDE00]"
  by (rule text_roundtrip) (simp_all add: high_surrogate_def low_surrogate_def)

text \<open>The fatal decoder is made without \<^verbatim>\<open>ignoreBOM\<close>, so a string that starts with U+FEFF
  arrives without that character: the wire does not carry such strings faithfully.
\<close>

theorem text_loses_bom:
  assumes "isWellFormed s" and "\<forall>u \<in> set s. u < 65536"
  shows "decode_text (encode_text (0xFEFF # s)) = Inr s"
proof -
  have "code_points (0xFEFF # s) = 0xFEFF # code_points s"
    by (cases s) (simp_all add: replaced_def high_surrogate_def low_surrogate_def)
  then have "encode_text (0xFEFF # s) = [0xEF, 0xBB, 0xBF] @ encode_text s"
    by (simp add: encode_text_def utf8_cp_def)
  with decode_encode_raw [OF assms] show ?thesis by (simp add: decode_text_def strip_bom_def)
qed

theorem text_loses_bom_witness: "decode_text (encode_text [0xFEFF, 0x68]) = Inr [0x68]"
  by (rule text_loses_bom) (simp_all add: high_surrogate_def low_surrogate_def)

end
