(* ===== verification/Base64.thy ===== *)
theory Base64
  imports Prelude
begin

text \<open>
  Base64 as the runtime uses it: the browser's \<^verbatim>\<open>btoa\<close> and forgiving \<^verbatim>\<open>atob\<close>, the effect
  bridge's \<^verbatim>\<open>bytesToBase64\<close> and validating \<^verbatim>\<open>base64ToBytes\<close>
  (\<^verbatim>\<open>src/runtime/wasm/app-runtime.mjs\<close>), the channel host's \<^verbatim>\<open>bytes\<close> and \<^verbatim>\<open>encoded\<close>
  (\<^verbatim>\<open>src/runtime/wasm/channel-host.mjs\<close>), and hexadecimal digests.
\<close>

section \<open>The alphabet, btoa and atob\<close>

definition b64_char :: "nat \<Rightarrow> nat" where
  "b64_char v = (if v < 26 then 65 + v else if v < 52 then 71 + v else if v < 62 then v - 4
     else if v = 62 then 43 else 47)"

definition b64_val :: "nat \<Rightarrow> nat option" where
  "b64_val c = (if 65 \<le> c \<and> c \<le> 90 then Some (c - 65) else if 97 \<le> c \<and> c \<le> 122 then Some (c - 71)
     else if 48 \<le> c \<and> c \<le> 57 then Some (c + 4) else if c = 43 then Some 62
     else if c = 47 then Some 63 else None)"

fun btoa :: "byte list \<Rightarrow> jstr" where
  "btoa [] = []"
| "btoa [x] = [b64_char (unat x div 4), b64_char (unat x mod 4 * 16), 61, 61]"
| "btoa [x, y] = [b64_char (unat x div 4), b64_char (unat x mod 4 * 16 + unat y div 16),
     b64_char (unat y mod 16 * 4), 61]"
| "btoa (x # y # z # r) = b64_char (unat x div 4) # b64_char (unat x mod 4 * 16 + unat y div 16)
     # b64_char (unat y mod 16 * 4 + unat z div 64) # b64_char (unat z mod 64) # btoa r"

definition ascii_space :: "nat \<Rightarrow> bool" where
  "ascii_space c \<longleftrightarrow> c \<in> {9, 10, 12, 13, 32}"

definition strip_pad :: "jstr \<Rightarrow> jstr" where
  "strip_pad t = (if length t mod 4 = 0 then
     (case rev t of a # b # r \<Rightarrow> if a = 61 then (if b = 61 then rev r else rev (b # r)) else t | _ \<Rightarrow> t)
     else t)"

fun b64_groups :: "nat list \<Rightarrow> byte list" where
  "b64_groups (a # b # c # d # r) =
     of_nat (a * 4 + b div 16) # of_nat (b mod 16 * 16 + c div 4) # of_nat (c mod 4 * 64 + d) # b64_groups r"
| "b64_groups [a, b, c] = [of_nat (a * 4 + b div 16), of_nat (b mod 16 * 16 + c div 4)]"
| "b64_groups [a, b] = [of_nat (a * 4 + b div 16)]"
| "b64_groups _ = []"

definition atob :: "jstr \<Rightarrow> byte list result" where
  "atob s = (let t = strip_pad (filter (\<lambda>c. \<not> ascii_space c) s) in
     if length t mod 4 = 1 \<or> (\<exists>c \<in> set t. b64_val c = None)
     then throw ''InvalidCharacterError''
     else Inr (b64_groups (map (the \<circ> b64_val) t)))"

section \<open>The runtime's wrappers\<close>

text \<open>The binary string is built slice by slice.\<close>

function slices :: "nat \<Rightarrow> byte list \<Rightarrow> byte list" where
  "slices step bs = (if bs = [] \<or> step = 0 then bs else take step bs @ slices step (drop step bs))"
  by pat_completeness auto
termination by (relation "measure (\<lambda>(step, bs). length bs)") auto

declare slices.simps [simp del]

definition bytesToBase64 :: "byte list \<Rightarrow> jstr" where
  "bytesToBase64 bs = btoa (slices 0x8000 bs)"

fun canonical_shape :: "jstr \<Rightarrow> bool" where
  "canonical_shape [] \<longleftrightarrow> True"
| "canonical_shape (a # b # c # d # r) \<longleftrightarrow> b64_val a \<noteq> None \<and> b64_val b \<noteq> None \<and>
     (b64_val c \<noteq> None \<and> b64_val d \<noteq> None \<and> canonical_shape r
      \<or> r = [] \<and> d = 61 \<and> (c = 61 \<or> b64_val c \<noteq> None))"
| "canonical_shape _ \<longleftrightarrow> False"

text \<open>\<open>None\<close> for a value that is not a string.\<close>

definition base64ToBytes :: "jstr option \<Rightarrow> string \<Rightarrow> byte list result" where
  "base64ToBytes text label =
    (case text of
       None \<Rightarrow> throw (label @ '' must be canonical base64'')
     | Some s \<Rightarrow> if length s mod 4 \<noteq> 0 \<or> \<not> canonical_shape s
         then throw (label @ '' must be canonical base64'') else atob s)"

definition MAX_WIRE_BYTES :: nat where
  "MAX_WIRE_BYTES = 512 * 1024"

definition wire_bytes :: "jstr option \<Rightarrow> byte list result" where
  "wire_bytes text =
    (case text of
       None \<Rightarrow> Inl (TypeError (js ''invalid channel payload''))
     | Some s \<Rightarrow>
        if length s > (MAX_WIRE_BYTES + 2) div 3 * 4
        then Inl (RangeError (js ''browser channel payload exceeds 512 KiB''))
        else bind (atob s) (\<lambda>value.
          if length value > MAX_WIRE_BYTES
          then Inl (RangeError (js ''browser channel payload exceeds 512 KiB'')) else Inr value))"

definition wire_encoded :: "byte list \<Rightarrow> jstr" where
  "wire_encoded value = btoa (slices 8192 value)"

definition hex_digit :: "nat \<Rightarrow> nat" where
  "hex_digit d = (if d < 10 then 48 + d else 87 + d)"

definition hex_text :: "byte list \<Rightarrow> jstr" where
  "hex_text bs = concat (map (\<lambda>b. [hex_digit (unat b div 16), hex_digit (unat b mod 16)]) bs)"

section \<open>Lemmas\<close>

lemma slices_id [simp]: "slices step bs = bs"
proof (induction step bs rule: slices.induct)
  case (1 step bs)
  show ?case by (subst slices.simps) (simp add: 1)
qed

lemma b64_val_char [simp]: "v < 64 \<Longrightarrow> b64_val (b64_char v) = Some v"
  by (auto simp: b64_char_def b64_val_def)

lemma b64_char_facts: "v < 64 \<Longrightarrow> b64_char v \<noteq> 61 \<and> \<not> ascii_space (b64_char v)"
  by (auto simp: b64_char_def ascii_space_def)

lemma sextets:
  fixes x y z :: byte
  shows "unat x div 4 < 64 \<and> unat x mod 4 * 16 + unat y div 16 < 64 \<and>
    unat y mod 16 * 4 + unat z div 64 < 64 \<and> unat x mod 4 * 16 < 64 \<and> unat y mod 16 * 4 < 64"
  using unat_byte [of x] unat_byte [of y] unat_byte [of z] by auto

lemma regroup:
  "(of_nat (unat x div 4 * 4 + (unat x mod 4 * 16 + unat y div 16) div 16) :: byte) = x"
  "(of_nat ((unat x mod 4 * 16 + unat y div 16) mod 16 * 16 + (unat y mod 16 * 4 + unat z div 64) div 4) :: byte) = y"
  "(of_nat ((unat y mod 16 * 4 + unat z div 64) mod 4 * 64 + unat z mod 64) :: byte) = (z :: byte)"
  "(of_nat (unat x div 4 * 4 + (unat x mod 4 * 16) div 16) :: byte) = x"
  "(of_nat ((unat x mod 4 * 16 + unat y div 16) mod 16 * 16 + (unat y mod 16 * 4) div 4) :: byte) = y"
proof -
  have b: "unat x div 4 * 4 + unat x mod 4 = unat x" "unat y div 16 * 16 + unat y mod 16 = unat y"
    "unat z div 64 * 64 + unat z mod 64 = unat z"
    by (simp_all only: div_mult_mod_eq)
  have s: "unat y div 16 < 16" "unat z div 64 < 4"
    using unat_byte [of y] unat_byte [of z] by auto
  from s have "(unat x mod 4 * 16 + unat y div 16) div 16 = unat x mod 4"
    "(unat x mod 4 * 16 + unat y div 16) mod 16 = unat y div 16"
    "(unat y mod 16 * 4 + unat z div 64) div 4 = unat y mod 16"
    "(unat y mod 16 * 4 + unat z div 64) mod 4 = unat z div 64" by auto
  with b show
    "(of_nat (unat x div 4 * 4 + (unat x mod 4 * 16 + unat y div 16) div 16) :: byte) = x"
    "(of_nat ((unat x mod 4 * 16 + unat y div 16) mod 16 * 16 + (unat y mod 16 * 4 + unat z div 64) div 4) :: byte) = y"
    "(of_nat ((unat y mod 16 * 4 + unat z div 64) mod 4 * 64 + unat z mod 64) :: byte) = (z :: byte)"
    "(of_nat (unat x div 4 * 4 + (unat x mod 4 * 16) div 16) :: byte) = x"
    "(of_nat ((unat x mod 4 * 16 + unat y div 16) mod 16 * 16 + (unat y mod 16 * 4) div 4) :: byte) = y"
    by (simp_all del: of_nat_add of_nat_mult)
qed

lemma length_btoa: "length (btoa bs) mod 4 = 0"
  by (induction bs rule: btoa.induct) auto

lemma length_btoa_bound: "length (btoa bs) = (length bs + 2) div 3 * 4"
proof (induction bs rule: btoa.induct)
  case (4 x y z r)
  have "(5 + n) div 3 = (n + 2) div 3 + 1" for n :: nat by presburger
  from this [of "length r"] 4 show ?case by simp
qed auto

lemma btoa_shape: "canonical_shape (btoa bs)"
  by (induction bs rule: btoa.induct) (use sextets in \<open>auto\<close>)

lemma btoa_no_space: "c \<in> set (btoa bs) \<Longrightarrow> \<not> ascii_space c"
proof (induction bs rule: btoa.induct)
  case (4 x y z r)
  then show ?case using sextets [of x y z] b64_char_facts by auto
qed (use sextets b64_char_facts in \<open>auto simp: ascii_space_def\<close>)

lemma strip_pad_Cons4:
  assumes "length r mod 4 = 0" and "r \<noteq> []"
  shows "strip_pad (a # b # c # d # r) = a # b # c # d # strip_pad r"
proof -
  obtain x y q where "rev r = x # y # q"
    using assms by (cases "rev r"; cases "tl (rev r)") auto
  moreover from this have "r = rev (x # y # q)" by (metis rev_rev_ident)
  moreover have "(n + 4) mod 4 = n mod 4" for n :: nat by simp
  ultimately show ?thesis using assms(1) by (auto simp: strip_pad_def mod_Suc split: if_splits)
qed

lemma unpadded_btoa:
  "b64_groups (map (the \<circ> b64_val) (strip_pad (btoa bs))) = bs
   \<and> length (strip_pad (btoa bs)) mod 4 \<noteq> 1 \<and> (\<forall>c \<in> set (strip_pad (btoa bs)). b64_val c \<noteq> None)"
proof (induction bs rule: btoa.induct)
  case 1
  then show ?case by (simp add: strip_pad_def)
next
  case (2 x)
  have "strip_pad (btoa [x]) = [b64_char (unat x div 4), b64_char (unat x mod 4 * 16)]"
    by (simp add: strip_pad_def)
  then show ?case using sextets [of x] regroup(4) [of x] by (simp del: of_nat_add of_nat_mult)
next
  case (3 x y)
  have "b64_char (unat y mod 16 * 4) \<noteq> 61" using b64_char_facts sextets [of 0 y] by blast
  then have "strip_pad (btoa [x, y]) = [b64_char (unat x div 4), b64_char (unat x mod 4 * 16 + unat y div 16),
     b64_char (unat y mod 16 * 4)]"
    by (simp add: strip_pad_def)
  then show ?case using sextets [of x y] regroup(1) [of x y] regroup(5) [of x y] by (simp del: of_nat_add of_nat_mult)
next
  case (4 x y z r)
  have ne: "b64_char (unat z mod 64) \<noteq> 61" using b64_char_facts by simp
  have "strip_pad (btoa (x # y # z # r)) = b64_char (unat x div 4) # b64_char (unat x mod 4 * 16 + unat y div 16)
     # b64_char (unat y mod 16 * 4 + unat z div 64) # b64_char (unat z mod 64) # strip_pad (btoa r)"
  proof (cases "btoa r = []")
    case True
    with ne show ?thesis by (simp add: strip_pad_def)
  next
    case False
    then show ?thesis by (simp add: strip_pad_Cons4 length_btoa)
  qed
  then show ?case using 4 sextets [of x y z] regroup(1) [of x y] regroup(2) [of x y z] regroup(3) [of y z]
    by (simp del: of_nat_add of_nat_mult)
qed

lemma atob_btoa: "atob (btoa bs) = Inr bs"
proof -
  have "filter (\<lambda>c. \<not> ascii_space c) (btoa bs) = btoa bs"
    using btoa_no_space by (auto simp: filter_id_conv)
  with unpadded_btoa [of bs] show ?thesis by (auto simp: atob_def Let_def)
qed

section \<open>Properties\<close>

text \<open>Bytes survive both base64 bridges: \<^verbatim>\<open>base64ToBytes\<close> returns what \<^verbatim>\<open>bytesToBase64\<close>
  encoded, and the channel host decodes its own encoding of every payload of at most 512 KiB.
\<close>

theorem base64_roundtrip:
  "base64ToBytes (Some (bytesToBase64 bs)) label = Inr bs
   \<and> wire_bytes (Some (wire_encoded bs))
       = (if length bs > MAX_WIRE_BYTES
          then Inl (RangeError (js ''browser channel payload exceeds 512 KiB'')) else Inr bs)"
proof -
  have "length (btoa bs) > (MAX_WIRE_BYTES + 2) div 3 * 4 \<Longrightarrow> length bs > MAX_WIRE_BYTES"
  proof (rule ccontr)
    assume "length (btoa bs) > (MAX_WIRE_BYTES + 2) div 3 * 4" "\<not> length bs > MAX_WIRE_BYTES"
    then have "(length bs + 2) div 3 \<le> (MAX_WIRE_BYTES + 2) div 3"
      by (intro div_le_mono) simp
    with \<open>length (btoa bs) > _\<close> show False by (simp add: length_btoa_bound)
  qed
  then show ?thesis
    by (auto simp: base64ToBytes_def bytesToBase64_def btoa_shape length_btoa atob_btoa
        wire_bytes_def wire_encoded_def)
qed

text \<open>The check named canonical accepts encodings that no encoder produces: the unused low
  bits before the padding are not inspected, so distinct texts decode to the same bytes.
\<close>

theorem base64_not_canonical:
  "base64ToBytes (Some (js ''AB=='')) label = base64ToBytes (Some (js ''AA=='')) label
   \<and> is_ok (base64ToBytes (Some (js ''AB=='')) label)
   \<and> bytesToBase64 [0] = js ''AA=='' \<and> js ''AB=='' \<noteq> js ''AA==''"
  by (simp add: base64ToBytes_def atob_def strip_pad_def js_def b64_val_def ascii_space_def
      bytesToBase64_def b64_char_def)

end
