(* ===== verification/HostChannel.thy ===== *)
theory HostChannel
  imports Codec Transfers
begin

text \<open>
  The page's side of \<^verbatim>\<open>os.host\<close>, \<^verbatim>\<open>src/runtime/wasm/host-channel.mjs\<close>: handlers registered by
  kind, a frame's binary records read and dispatched, answers and inbound messages written
  into the frame's inbox, uploads reassembled and large results kept until fetched. The
  channel is a record; every operation returns the new channel, and what it does to the
  outside (handler calls, releases, reports, wake-ups) is appended to its log.
\<close>

section \<open>Values\<close>

datatype jval =
    JUndef | JNull | JBool bool | JNum f64 | JStr jstr | JBytes "byte list"
  | JForeign jstr  \<comment> \<open>any other value, with its \<^verbatim>\<open>typeof\<close>\<close>

text \<open>What a handler answers: nothing, an array, or one value.\<close>

datatype answered = AnsweredNothing | AnsweredArray "jval list" | AnsweredOne jval

datatype tagged =
    TNil | TFalse | TTrue | TNumber f64 | TString "byte list" | TBytes "byte list" | TFetch nat

definition MAX_STRING_BYTES :: nat where "MAX_STRING_BYTES = 64 * 1024"
definition MAX_OUTBOUND_BYTES :: nat where "MAX_OUTBOUND_BYTES = 64 * 1024 * 1024"
definition MAX_INBOUND_BYTES :: nat where "MAX_INBOUND_BYTES = 8 * 1024 * 1024"
definition INLINE_BYTES :: nat where "INLINE_BYTES = 16 * 1024"
definition MAX_VALUES :: nat where "MAX_VALUES = 255"
definition DEFAULT_REASSEMBLY_BYTES :: nat where "DEFAULT_REASSEMBLY_BYTES = 128 * 1024 * 1024"
definition MAX_INBOUND_MESSAGES :: nat where "MAX_INBOUND_MESSAGES = 4096"

lemmas host_limits = MAX_STRING_BYTES_def MAX_OUTBOUND_BYTES_def MAX_INBOUND_BYTES_def INLINE_BYTES_def
  MAX_VALUES_def DEFAULT_REASSEMBLY_BYTES_def MAX_INBOUND_MESSAGES_def

definition isFinite :: "f64 \<Rightarrow> bool" where
  "isFinite x \<longleftrightarrow> unat x div 2 ^ 52 mod 2048 \<noteq> 2047"

definition hex4 :: "nat \<Rightarrow> jstr" where
  "hex4 n = map (\<lambda>d. if d < 10 then 48 + d else 87 + d) [n div 4096 mod 16, n div 256 mod 16, n div 16 mod 16, n mod 16]"

text \<open>\<^verbatim>\<open>JSON.stringify\<close> of a string, as the message of a rejected kind shows it.\<close>

definition json_unit :: "nat \<Rightarrow> jstr" where
  "json_unit u =
    (if u = 34 then [92, 34] else if u = 92 then [92, 92]
     else if u = 8 then [92, 98] else if u = 9 then [92, 116] else if u = 10 then [92, 110]
     else if u = 12 then [92, 102] else if u = 13 then [92, 114]
     else if u < 32 \<or> high_surrogate u \<or> low_surrogate u then [92, 117] @ hex4 u
     else [u])"

fun json_units :: "jstr \<Rightarrow> jstr" where
  "json_units [] = []"
| "json_units [u] = json_unit u"
| "json_units (u # v # us) =
    (if high_surrogate u \<and> low_surrogate v then [u, v] @ json_units us
     else json_unit u @ json_units (v # us))"

definition json_quote :: "jstr \<Rightarrow> jstr" where
  "json_quote s = [34] @ json_units s @ [34]"

section \<open>Kinds\<close>

definition word_char :: "nat \<Rightarrow> bool" where
  "word_char c \<longleftrightarrow> 97 \<le> c \<and> c \<le> 122 \<or> 65 \<le> c \<and> c \<le> 90 \<or> 48 \<le> c \<and> c \<le> 57 \<or> c = 95"

definition kind_char :: "nat \<Rightarrow> bool" where
  "kind_char c \<longleftrightarrow> word_char c \<or> c = 45"

text \<open>The regular expression \<^verbatim>\<open>KIND\<close>: the first group cannot match a dot, so it ends at the first one.\<close>

definition KIND :: "jstr \<Rightarrow> bool" where
  "KIND name \<longleftrightarrow>
     (let head = takeWhile (\<lambda>c. c \<noteq> 46) name; rest = drop (length head + 1) name in
      head \<noteq> [] \<and> list_all kind_char head \<and> 46 \<in> set name \<and> rest \<noteq> [] \<and>
      list_all (\<lambda>c. kind_char c \<or> c = 46) rest \<and> kind_char (last rest))"

fun has_double_dot :: "jstr \<Rightarrow> bool" where
  "has_double_dot (a # b # r) \<longleftrightarrow> a = 46 \<and> b = 46 \<or> has_double_dot (b # r)"
| "has_double_dot _ \<longleftrightarrow> False"

definition starts_with :: "jstr \<Rightarrow> jstr \<Rightarrow> bool" where
  "starts_with p s \<longleftrightarrow> take (length p) s = p"

definition checkedKind :: "jstr \<Rightarrow> jstr result" where
  "checkedKind name =
    (if length name > 128 \<or> \<not> KIND name \<or> has_double_dot name
     then Inl (Error (js ''host kind '' @ json_quote name @ js '' must be dot-separated names''))
     else if starts_with (js ''nupp.'') name
     then Inl (Error (js ''host kind '' @ name @ js '' is reserved for the runtime''))
     else Inr name)"

section \<open>The channel\<close>

record upload =
  up_bytes :: "byte list"
  up_total :: nat
  up_received :: nat

record kept_result =
  kr_views :: "byte list option list"
  kr_remaining :: int
  kr_release :: bool
  kr_values :: answered

datatype answer_body =
    Failure jstr
  | Success "tagged list" bool answered  \<comment> \<open>values, whether the handler has a release, results\<close>

record answer_item =
  an_id :: nat
  an_body :: answer_body
  an_encoded :: "byte list option"

record message_item =
  ms_kind :: jstr
  ms_values :: "tagged list"
  ms_encoded :: "byte list option"

datatype json = JsonNull | JsonBool bool | JsonInt int | JsonStr jstr | JsonArr "json list"
  | JsonObj "(jstr \<times> json) list"

record inbox_span =
  ib_lease :: jnum
  ib_bytes :: jnum

record frame =
  fr_lease :: "lease_entry option"
  fr_inbox :: "inbox_span option"
  fr_failure :: "jserror option"

datatype host_event =
    Called jstr "jval list"
  | Released answered
  | Reported jserror
  | Notified
  | Aborted nat jstr
  | EndCalled
  | Started

record host_channel =
  hc_handlers :: "(jstr, bool) jmap"  \<comment> \<open>kind, whether it has a release\<close>
  hc_end :: bool
  hc_reassemblyLimit :: nat
  hc_reassembled :: nat
  hc_uploads :: "(int, upload) jmap"
  hc_results :: "(nat, kept_result) jmap"
  hc_inflight :: "(nat, bool) jmap"  \<comment> \<open>whether its controller is aborted\<close>
  hc_answers :: "answer_item list"
  hc_inbound :: "message_item list"
  hc_dropped :: "(jstr, nat) jmap"
  hc_routes :: "(jstr, json) jmap"
  hc_frames :: "(nat, frame) jmap"
  hc_notify :: bool
  hc_wakeScheduled :: bool
  hc_nextResult :: nat
  hc_closed :: bool
  hc_log :: "host_event list"

definition log :: "host_channel \<Rightarrow> host_event list \<Rightarrow> host_channel" where
  "log ch evs = ch\<lparr>hc_log := hc_log ch @ evs\<rparr>"

datatype page_handler = HandlerFunction | HandlerObject bool | HandlerInvalid

datatype callback = NoCallback | Callback | BadCallback

record host_option =
  ho_handlers :: "(jstr \<times> page_handler) list option"  \<comment> \<open>\<open>None\<close>: not an object keyed by kind\<close>
  ho_max :: jnum
  ho_end :: callback
  ho_start :: callback

fun normalize_entries ::
  "(jstr \<times> page_handler) list \<Rightarrow> (jstr, bool) jmap \<Rightarrow> (jstr, bool) jmap result" where
  "normalize_entries [] acc = Inr acc"
| "normalize_entries ((name, h) # hs) acc = bind (checkedKind name) (\<lambda>_.
     case h of
       HandlerFunction \<Rightarrow> normalize_entries hs (mset acc name False)
     | HandlerObject hasRelease \<Rightarrow> normalize_entries hs (mset acc name hasRelease)
     | HandlerInvalid \<Rightarrow>
         Inl (Error (js ''host handler '' @ name @ js '' must be a function or an object with call'')))"

definition normalizedHandlers :: "(jstr \<times> page_handler) list option \<Rightarrow> (jstr, bool) jmap result" where
  "normalizedHandlers handlers =
    (case handlers of
       None \<Rightarrow> throw ''host handlers must be an object keyed by kind''
     | Some entries \<Rightarrow> normalize_entries entries [])"

definition createHostChannel :: "host_option option \<Rightarrow> host_channel result" where
  "createHostChannel host =
    (case host of None \<Rightarrow> throw ''the host option must be an object'' | Some h \<Rightarrow>
     let limit = (case ho_max h of Undef \<Rightarrow> IntV (int DEFAULT_REASSEMBLY_BYTES) | n \<Rightarrow> n) in
     if \<not> isSafeInteger limit \<or> the_int limit < 1
     then throw ''host.maxReassemblyBytes must be a positive integer''
     else if ho_end h = BadCallback then throw ''host.end must be a function''
     else if ho_start h = BadCallback then throw ''host.start must be a function''
     else bind (normalizedHandlers (ho_handlers h)) (\<lambda>handlers.
       Inr \<lparr>hc_handlers = handlers, hc_end = (ho_end h = Callback),
            hc_reassemblyLimit = nat (the_int limit), hc_reassembled = 0,
            hc_uploads = [], hc_results = [], hc_inflight = [], hc_answers = [], hc_inbound = [],
            hc_dropped = [], hc_routes = [], hc_frames = [], hc_notify = False,
            hc_wakeScheduled = False, hc_nextResult = 1, hc_closed = False,
            hc_log = (if ho_start h = Callback then [Started] else [])\<rparr>))"

definition wake :: "host_channel \<Rightarrow> host_channel" where
  "wake ch = (if hc_notify ch then log (ch\<lparr>hc_notify := False\<rparr>) [Notified] else ch)"

text \<open>An exception of the page's release is caught and reported, so it changes nothing here.\<close>

definition releaseResult :: "host_channel \<Rightarrow> bool \<Rightarrow> answered \<Rightarrow> host_channel" where
  "releaseResult ch hasRelease values = (if hasRelease then log ch [Released values] else ch)"

fun release_answers :: "answer_item list \<Rightarrow> host_channel \<Rightarrow> host_channel" where
  "release_answers [] ch = ch"
| "release_answers (item # items) ch = release_answers items
     (case an_body item of Failure e \<Rightarrow> ch | Success vs rel results \<Rightarrow> releaseResult ch rel results)"

fun release_kept :: "kept_result list \<Rightarrow> host_channel \<Rightarrow> host_channel" where
  "release_kept [] ch = ch"
| "release_kept (r # rs) ch = release_kept rs (releaseResult ch (kr_release r) (kr_values r))"

definition closeHostChannel :: "host_channel \<Rightarrow> host_channel" where
  "closeHostChannel ch =
    (if hc_closed ch then ch else
     let ch1 = ch\<lparr>hc_closed := True\<rparr>;
         ch2 = log ch1 (map (\<lambda>i. Aborted i (js ''the application finished'')) (mkeys (hc_inflight ch1)));
         ch3 = ch2\<lparr>hc_inflight := []\<rparr>;
         ch4 = (release_answers (hc_answers ch3) ch3)\<lparr>hc_answers := []\<rparr>;
         ch5 = (release_kept (mvalues (hc_results ch4)) ch4)\<lparr>hc_results := []\<rparr>;
         ch6 = wake (ch5\<lparr>hc_uploads := [], hc_reassembled := 0\<rparr>)
     in if hc_end ch6 then log ch6 [EndCalled] else ch6)"

section \<open>Checking values\<close>

definition checkedText :: "jstr \<Rightarrow> jstr \<Rightarrow> byte list result" where
  "checkedText value describe =
    (if \<not> isWellFormed value then Inl (Error (describe @ js '' is not valid text''))
     else if length (encode_text value) > MAX_STRING_BYTES
     then Inl (Error (describe @ js '' is a string longer than 64 KiB; answer bytes''))
     else Inr (encode_text value))"

definition checkedResult :: "jstr \<Rightarrow> jval \<Rightarrow> tagged result" where
  "checkedResult describe value =
    (case value of
       JNull \<Rightarrow> Inr TNil
     | JUndef \<Rightarrow> Inr TNil
     | JBytes bs \<Rightarrow> if length bs > MAX_INBOUND_BYTES
         then Inl (Error (describe @ js '' is more than 8 MiB of bytes'')) else Inr (TBytes bs)
     | JBool b \<Rightarrow> Inr (if b then TTrue else TFalse)
     | JNum x \<Rightarrow> if \<not> isFinite x then Inl (Error (describe @ js '' is not a finite number'')) else Inr (TNumber x)
     | JStr s \<Rightarrow> bind (checkedText s describe) (\<lambda>bs. Inr (TString bs))
     | JForeign t \<Rightarrow> Inl (Error (describe @ js '' is a '' @ t @ js '', which cannot cross'')))"

fun map_results :: "(nat \<Rightarrow> 'a \<Rightarrow> 'b result) \<Rightarrow> nat \<Rightarrow> 'a list \<Rightarrow> 'b list result" where
  "map_results f i [] = Inr []"
| "map_results f i (x # xs) = bind (f i x) (\<lambda>y. bind (map_results f (Suc i) xs) (\<lambda>ys. Inr (y # ys)))"

fun results_list :: "answered \<Rightarrow> jval list" where
  "results_list AnsweredNothing = []"
| "results_list (AnsweredArray vs) = vs"
| "results_list (AnsweredOne v) = [v]"

definition checkedResults :: "jstr \<Rightarrow> answered \<Rightarrow> tagged list result" where
  "checkedResults name answer =
    (let results = results_list answer in
     if length results > MAX_VALUES
     then Inl (Error (js ''host handler '' @ name @ js '' answered more than 255 values''))
     else map_results (\<lambda>i v. checkedResult (js ''host handler '' @ name @ js '' result '' @ decimal (i + 1)) v) 0 results)"

definition inboundValue :: "jstr \<Rightarrow> jval \<Rightarrow> nat \<Rightarrow> tagged result" where
  "inboundValue kind value position =
    (let describe = js ''host push '' @ kind @ js '' value '' @ decimal position in
     case value of
       JNull \<Rightarrow> Inr TNil
     | JUndef \<Rightarrow> Inr TNil
     | JBool b \<Rightarrow> Inr (if b then TTrue else TFalse)
     | JNum x \<Rightarrow> if \<not> isFinite x then Inl (Error (describe @ js '' is not a finite number'')) else Inr (TNumber x)
     | JStr s \<Rightarrow> bind (checkedText s describe) (\<lambda>bs. Inr (TString bs))
     | JBytes bs \<Rightarrow> Inl (Error (describe @ js '' is a object; an inbound message carries scalars and strings''))
     | JForeign t \<Rightarrow> Inl (Error (describe @ js '' is a '' @ t @ js ''; an inbound message carries scalars and strings'')))"

section \<open>Arguments of a request\<close>

definition incomplete :: "nat \<Rightarrow> jserror" where
  "incomplete index = Error (js ''host request value '' @ decimal (index + 1) @ js '' names an incomplete upload'')"

text \<open>One tagged value; an upload it names leaves the table even when a later value fails.\<close>

definition read_value :: "nat \<Rightarrow> host_channel \<Rightarrow> reader \<Rightarrow> host_channel \<times> (jval \<times> reader) result" where
  "read_value index ch r =
    (case rd_u8 r of Inl e \<Rightarrow> (ch, Inl e) | Inr (tag, r1) \<Rightarrow>
     if tag = 0 then (ch, Inr (JNull, r1))
     else if tag = 1 then (ch, Inr (JBool False, r1))
     else if tag = 2 then (ch, Inr (JBool True, r1))
     else if tag = 3 then (ch, bind (rd_f64 r1) (\<lambda>(x, r2). Inr (JNum x, r2)))
     else if tag = 4 then
       (ch, bind (rd_u32 r1) (\<lambda>(n, r2). bind (rd_text n r2) (\<lambda>(s, r3). Inr (JStr s, r3))))
     else if tag = 5 then
       (ch, bind (rd_u32 r1) (\<lambda>(n, r2). bind (rd_bytes n r2) (\<lambda>(bs, r3). Inr (JBytes bs, r3))))
     else if tag = 6 then
       (case rd_u32 r1 of Inl e \<Rightarrow> (ch, Inl e) | Inr (transfer, r2) \<Rightarrow>
        (case mget (hc_uploads ch) (int transfer) of
           None \<Rightarrow> (ch, Inl (incomplete index))
         | Some up \<Rightarrow>
            if up_received up \<noteq> up_total up then (ch, Inl (incomplete index))
            else (ch\<lparr>hc_uploads := mdelete (hc_uploads ch) (int transfer),
                     hc_reassembled := hc_reassembled ch - up_total up\<rparr>,
                  Inr (JBytes (up_bytes up), r2))))
     else (ch, Inl (Error (js ''host request value '' @ decimal (index + 1) @ js '' has an unknown tag '' @ decimal tag))))"

fun read_values :: "nat \<Rightarrow> nat \<Rightarrow> host_channel \<Rightarrow> reader \<Rightarrow> host_channel \<times> (jval list \<times> reader) result" where
  "read_values 0 index ch r = (ch, Inr ([], r))"
| "read_values (Suc k) index ch r =
    (case read_value index ch r of
       (ch1, Inl e) \<Rightarrow> (ch1, Inl e)
     | (ch1, Inr (v, r1)) \<Rightarrow>
        (case read_values k (Suc index) ch1 r1 of
           (ch2, Inl e) \<Rightarrow> (ch2, Inl e)
         | (ch2, Inr (vs, r2)) \<Rightarrow> (ch2, Inr (v # vs, r2))))"

definition readArguments :: "host_channel \<Rightarrow> reader \<Rightarrow> host_channel \<times> (jval list \<times> reader) result" where
  "readArguments ch r =
    (case rd_u16 r of Inl e \<Rightarrow> (ch, Inl e) | Inr (count, r1) \<Rightarrow>
     if count > MAX_VALUES then (ch, throw ''a host request carries more than 255 values'')
     else read_values count 0 ch r1)"

fun writeValue :: "tagged \<Rightarrow> writer \<Rightarrow> writer" where
  "writeValue TNil w = wr_u8 0 w"
| "writeValue TFalse w = wr_u8 1 w"
| "writeValue TTrue w = wr_u8 2 w"
| "writeValue (TNumber x) w = wr_f64 x (wr_u8 3 w)"
| "writeValue (TString bs) w = wr_sized bs (wr_u8 4 w)"
| "writeValue (TBytes bs) w = wr_sized bs (wr_u8 5 w)"
| "writeValue (TFetch n) w = wr_u32 n (wr_u8 7 w)"

section \<open>Requests\<close>

definition answer :: "host_channel \<Rightarrow> nat \<Rightarrow> answer_body \<Rightarrow> host_channel" where
  "answer ch i body =
     wake (ch\<lparr>hc_answers := hc_answers ch @ [\<lparr>an_id = i, an_body = body, an_encoded = None\<rparr>]\<rparr>)"

text \<open>
  The page's handlers are parameters: \<open>call kind args\<close> is \<open>Some e\<close> when the handler throws at
  once. A handler that does not is settled later, by \<open>settleCall\<close> or \<open>settleOneWay\<close>.
\<close>

type_synonym handlers = "jstr \<Rightarrow> jval list \<Rightarrow> jserror option"

definition dispatchCall :: "handlers \<Rightarrow> host_channel \<Rightarrow> nat \<Rightarrow> jstr \<Rightarrow> jval list \<Rightarrow> host_channel" where
  "dispatchCall call ch i name args =
    (case mget (hc_handlers ch) name of
       None \<Rightarrow> answer ch i (Failure (js ''no host answers '' @ name))
     | Some _ \<Rightarrow>
        let ch1 = log (ch\<lparr>hc_inflight := mset (hc_inflight ch) i False\<rparr>) [Called name args] in
        (case call name args of
           Some e \<Rightarrow> answer (ch1\<lparr>hc_inflight := mdelete (hc_inflight ch1) i\<rparr>) i (Failure (message e))
         | None \<Rightarrow> ch1))"

definition settleCall :: "host_channel \<Rightarrow> nat \<Rightarrow> jstr \<Rightarrow> answered result \<Rightarrow> host_channel" where
  "settleCall ch i name outcome =
    (let ch1 = ch\<lparr>hc_inflight := mdelete (hc_inflight ch) i\<rparr>;
         rel = (mget (hc_handlers ch) name = Some True) in
     case outcome of
       Inl e \<Rightarrow> answer ch1 i (Failure (message e))
     | Inr results \<Rightarrow>
        (case checkedResults name results of
           Inl e \<Rightarrow> answer (releaseResult ch1 rel
               (AnsweredArray (case results of AnsweredNothing \<Rightarrow> [JUndef] | _ \<Rightarrow> results_list results)))
             i (Failure (message e))
         | Inr values \<Rightarrow>
            if hc_closed ch1 then releaseResult ch1 rel results
            else answer ch1 i (Success values rel results)))"

definition dispatchOneWay :: "handlers \<Rightarrow> host_channel \<Rightarrow> jstr \<Rightarrow> jval list \<Rightarrow> host_channel" where
  "dispatchOneWay call ch name args =
    (case mget (hc_handlers ch) name of
       None \<Rightarrow> log ch [Reported (Error (js ''no host answers '' @ name))]
     | Some _ \<Rightarrow>
        let ch1 = log ch [Called name args] in
        (case call name args of Some e \<Rightarrow> log ch1 [Reported e] | None \<Rightarrow> ch1))"

definition settleOneWay :: "host_channel \<Rightarrow> jstr \<Rightarrow> bool \<Rightarrow> answered result \<Rightarrow> host_channel" where
  "settleOneWay ch name post outcome =
    (case outcome of
       Inl e \<Rightarrow> log ch [Reported e]
     | Inr results \<Rightarrow>
        if post \<and> results \<noteq> AnsweredNothing
        then releaseResult ch (mget (hc_handlers ch) name = Some True) results else ch)"

section \<open>The records of a frame\<close>

text \<open>\<open>parse\<close> is \<^verbatim>\<open>JSON.parse\<close>, which the routing record alone uses.\<close>

definition read_record ::
  "handlers \<Rightarrow> (jstr \<Rightarrow> json result) \<Rightarrow> host_channel \<Rightarrow> reader \<Rightarrow> host_channel \<times> reader result" where
  "read_record call parse ch r =
    (case bind (rd_u8 r) (\<lambda>(op, r1). bind (rd_u32 r1) (\<lambda>(i, r2). Inr (op, i, r2))) of
       Inl e \<Rightarrow> (ch, Inl e)
     | Inr (op, i, r2) \<Rightarrow>
        if op = 1 \<or> op = 2 \<or> op = 3 then
          (case bind (rd_u16 r2) (\<lambda>(n, r3). rd_text n r3) of
             Inl e \<Rightarrow> (ch, Inl e)
           | Inr (name, r4) \<Rightarrow>
              (case readArguments ch r4 of
                 (ch1, Inl e) \<Rightarrow> (ch1, Inl e)
               | (ch1, Inr (args, r5)) \<Rightarrow>
                  ((case checkedKind name of
                      Inl e \<Rightarrow> if op = 1 then answer ch1 i (Failure (message e)) else log ch1 [Reported e]
                    | Inr checked \<Rightarrow>
                        if op = 1 then dispatchCall call ch1 i checked args
                        else dispatchOneWay call ch1 checked args), Inr r5)))
        else if op = 4 then
          ((if mhas (hc_inflight ch) i
            then log (ch\<lparr>hc_inflight := mset (hc_inflight ch) i True\<rparr>) [Aborted i (js ''the caller stopped waiting'')]
            else ch), Inr r2)
        else if op = 5 then
          (case rd_u32 r2 of Inl e \<Rightarrow> (ch, Inl e) | Inr (result, r3) \<Rightarrow>
           ((case mget (hc_results ch) result of None \<Rightarrow> ch
             | Some rec \<Rightarrow> releaseResult (ch\<lparr>hc_results := mdelete (hc_results ch) result\<rparr>)
                  (kr_release rec) (kr_values rec)), Inr r3))
        else if op = 6 then
          (case rd_u32 r2 of Inl e \<Rightarrow> (ch, Inl e) | Inr (transfer, r3) \<Rightarrow>
           ((case mget (hc_uploads ch) (int transfer) of None \<Rightarrow> ch
             | Some up \<Rightarrow> ch\<lparr>hc_uploads := mdelete (hc_uploads ch) (int transfer),
                  hc_reassembled := hc_reassembled ch - up_total up\<rparr>), Inr r3))
        else if op = 7 then
          (case bind (rd_u32 r2) (\<lambda>(n, r3). bind (rd_text n r3) (\<lambda>(s, r4). bind (parse s) (\<lambda>j. Inr (j, r4)))) of
             Inl e \<Rightarrow> (ch, Inl e)
           | Inr (j, r4) \<Rightarrow> (ch\<lparr>hc_routes := (case j of JsonObj kvs \<Rightarrow> kvs | _ \<Rightarrow> [])\<rparr>, Inr r4))
        else (ch, Inl (Error (js ''a host frame carried an unknown record '' @ decimal op))))"

text \<open>Every read moves the cursor forward inside the same buffer.\<close>

definition forward :: "nat \<Rightarrow> reader \<Rightarrow> reader \<Rightarrow> bool" where
  "forward k r r' \<longleftrightarrow> rd_buffer r' = rd_buffer r \<and> rd_at r + k \<le> rd_at r' \<and> rd_at r' \<le> length (rd_buffer r)"

lemma forward_trans: "forward k r r' \<Longrightarrow> forward l r' r'' \<Longrightarrow> forward (k + l) r r''"
  by (auto simp: forward_def)

lemma forward_bytes: "rd_bytes n r = Inr (x, r') \<Longrightarrow> forward n r r'"
  by (auto simp: rd_bytes_def rd_take_def forward_def split: if_splits)

lemma forward_uint: "rd_uint n r = Inr (x, r') \<Longrightarrow> forward n r r'"
  by (auto simp: rd_uint_def dest: forward_bytes)

lemma forward_f64: "rd_f64 r = Inr (x, r') \<Longrightarrow> forward 8 r r'"
  by (auto simp: rd_f64_def dest: forward_uint)

lemma forward_text: "rd_text n r = Inr (x, r') \<Longrightarrow> forward n r r'"
  by (auto simp: rd_text_def dest: forward_bytes)

lemmas forwards = forward_bytes forward_uint forward_f64 forward_text

lemma forward_le: "forward k r r' \<Longrightarrow> l \<le> k \<Longrightarrow> forward l r r'"
  by (auto simp: forward_def)

lemma forward_read_value: "read_value i ch r = (ch', Inr (v, r')) \<Longrightarrow> forward 1 r r'"
  by (auto simp: read_value_def split: sum.splits if_splits option.splits prod.splits
      dest!: forwards intro: forward_le [OF forward_trans] forward_le [OF forward_trans [OF forward_trans]])

lemma forward_read_values: "read_values k i ch r = (ch', Inr (vs, r')) \<Longrightarrow> rd_at r \<le> length (rd_buffer r) \<Longrightarrow> forward 0 r r'"
proof (induction k arbitrary: i ch r vs)
  case 0
  then show ?case by (auto simp: forward_def)
next
  case (Suc k)
  obtain ch1 v r1 vs' where v: "read_value i ch r = (ch1, Inr (v, r1))"
    and vs: "read_values k (Suc i) ch1 r1 = (ch', Inr (vs', r'))"
    using Suc.prems(1) by (auto split: prod.splits sum.splits)
  have f: "forward 1 r r1" using forward_read_value [OF v] .
  then have "forward 0 r1 r'" using Suc.IH [OF vs] by (simp add: forward_def)
  with f show ?case by (auto simp: forward_def)
qed

lemma forward_readArguments: "readArguments ch r = (ch', Inr (args, r')) \<Longrightarrow> forward 2 r r'"
proof -
  assume "readArguments ch r = (ch', Inr (args, r'))"
  then obtain n r1 where u: "rd_u16 r = Inr (n, r1)" and "read_values n 0 ch r1 = (ch', Inr (args, r'))"
    by (auto simp: readArguments_def split: sum.splits if_splits)
  moreover have "forward 2 r r1" using forward_uint [OF u] .
  ultimately show ?thesis using forward_read_values [of n 0 ch r1 ch' args r'] by (auto simp: forward_def)
qed

lemma forward_read_record:
  assumes "read_record call parse ch r = (ch', Inr r')"
  shows "forward 5 r r'"
proof -
  from assms obtain op i r1 r2 where u: "rd_u8 r = Inr (op, r1)" "rd_u32 r1 = Inr (i, r2)"
    by (auto simp: read_record_def split: sum.splits)
  then have f: "forward 5 r r2" using forward_uint [of 1 r op r1] forward_uint [of 4 r1 i r2]
    by (auto simp: forward_def)
  have "forward 0 r2 r'"
  proof (cases "op = 1 \<or> op = 2 \<or> op = 3")
    case True
    with assms u obtain n r3 name r4 ch1 args where
      "rd_u16 r2 = Inr (n, r3)" "rd_text n r3 = Inr (name, r4)" "readArguments ch r4 = (ch1, Inr (args, r'))"
      by (auto simp: read_record_def split: sum.splits prod.splits)
    then have "forward 2 r2 r3" "forward n r3 r4" "forward 2 r4 r'"
      using forward_uint forward_text forward_readArguments by blast+
    then show ?thesis by (auto simp: forward_def)
  next
    case False
    with assms u f show ?thesis
      by (auto simp: read_record_def split: sum.splits prod.splits if_splits
          dest!: forward_uint forward_text) (auto simp: forward_def)
  qed
  with f show ?thesis by (auto simp: forward_def)
qed

function readRecords_loop ::
  "handlers \<Rightarrow> (jstr \<Rightarrow> json result) \<Rightarrow> host_channel \<Rightarrow> reader \<Rightarrow> host_channel \<times> unit result" where
  "readRecords_loop call parse ch r =
    (if rd_remaining r > 0 then
       (case read_record call parse ch r of
          (ch1, Inl e) \<Rightarrow> (ch1, Inl e)
        | (ch1, Inr r1) \<Rightarrow> readRecords_loop call parse ch1 r1)
     else (ch, Inr ()))"
  by pat_completeness auto
termination
proof (relation "measure (\<lambda>(call, parse, ch, r). rd_remaining r)", goal_cases)
  case (2 call parse ch r p ch1 r1)
  then have "forward 5 r r1" using forward_read_record by metis
  with 2 show ?case by (auto simp: forward_def rd_remaining_def)
qed simp

declare readRecords_loop.simps [simp del]

definition readRecords ::
  "handlers \<Rightarrow> (jstr \<Rightarrow> json result) \<Rightarrow> host_channel \<Rightarrow> byte list \<Rightarrow> host_channel \<times> unit result" where
  "readRecords call parse ch bs = readRecords_loop call parse ch \<lparr>rd_buffer = bs, rd_at = 0\<rparr>"

section \<open>Frames\<close>

fun to_int32 :: "jnum \<Rightarrow> int" where
  "to_int32 (IntV i) = (let m = i mod 2 ^ 32 in if m \<ge> 2 ^ 31 then m - 2 ^ 32 else m)"
| "to_int32 _ = 0"

record host_effect =
  he_id :: nat
  he_op :: string
  he_spans :: "inbox_span list option"  \<comment> \<open>\<open>None\<close>: not an array\<close>
  he_records :: jnum
  he_result :: jnum
  he_index :: jnum
  he_offset :: jnum
  he_transfer :: jnum
  he_total :: jnum

text \<open>\<open>spans\<close> are the values of the effect's \<^verbatim>\<open>spans\<close>, an array or an object.\<close>

definition beginHostFrame ::
  "handlers \<Rightarrow> (jstr \<Rightarrow> json result) \<Rightarrow> host_effect \<Rightarrow> inbox_span list \<Rightarrow> host_channel \<Rightarrow> transfers \<Rightarrow> host_channel" where
  "beginHostFrame call parse eff spans ch t =
    (case spans of
       [] \<Rightarrow> ch\<lparr>hc_frames := mset (hc_frames ch) (he_id eff) \<lparr>fr_lease = None, fr_inbox = None, fr_failure = None\<rparr>\<rparr>
     | inbox # _ \<Rightarrow>
        (case lease t (ib_lease inbox) (ib_bytes inbox) True of
           Inl e \<Rightarrow> ch\<lparr>hc_frames := mset (hc_frames ch) (he_id eff)
               \<lparr>fr_lease = None, fr_inbox = Some inbox, fr_failure = Some e\<rparr>\<rparr>
         | Inr entry \<Rightarrow>
            let records = to_int32 (he_records eff);
                (ch1, failure) =
                  (if records < 0 \<or> records > int (length (le_view entry))
                   then (ch, Some (Error (js ''a host frame's records overrun its buffer'')))
                   else if records > 0
                   then (case readRecords call parse ch (take (nat records) (le_view entry)) of
                           (ch1, Inl e) \<Rightarrow> (ch1, Some e) | (ch1, Inr _) \<Rightarrow> (ch1, None))
                   else (ch, None))
            in ch1\<lparr>hc_frames := mset (hc_frames ch1) (he_id eff)
                 \<lparr>fr_lease = Some entry, fr_inbox = Some inbox, fr_failure = failure\<rparr>\<rparr>))"

definition hostFrameReady :: "host_channel option \<Rightarrow> bool" where
  "hostFrameReady chan \<longleftrightarrow> (case chan of None \<Rightarrow> False
     | Some ch \<Rightarrow> length (hc_answers ch) > 0 \<or> length (hc_inbound ch) > 0 \<or> length (hc_dropped ch) > 0)"

definition hostFrameWaitable :: "host_channel option \<Rightarrow> bool" where
  "hostFrameWaitable chan \<longleftrightarrow> (case chan of None \<Rightarrow> False
     | Some ch \<Rightarrow> \<not> hc_closed ch \<and> (length (hc_inflight ch) > 0 \<or> length (hc_routes ch) > 0))"

definition onHostFrameReady :: "host_channel \<Rightarrow> bool \<Rightarrow> host_channel" where
  "onHostFrameReady ch notify = ch\<lparr>hc_notify := notify\<rparr>"

section \<open>Routing policies\<close>

definition count_in :: "(jstr, nat) jmap \<Rightarrow> jstr \<Rightarrow> nat" where
  "count_in m k = (case mget m k of None \<Rightarrow> 0 | Some n \<Rightarrow> n)"

definition bump :: "(jstr, nat) jmap \<Rightarrow> jstr \<Rightarrow> (jstr, nat) jmap" where
  "bump m k = mset m k (count_in m k + 1)"

fun truthy :: "json option \<Rightarrow> bool" where
  "truthy None = False"
| "truthy (Some JsonNull) = False"
| "truthy (Some (JsonBool b)) = b"
| "truthy (Some (JsonInt i)) = (i \<noteq> 0)"
| "truthy (Some (JsonStr s)) = (s \<noteq> [])"
| "truthy (Some _) = True"

fun json_field :: "json option \<Rightarrow> string \<Rightarrow> json option" where
  "json_field (Some (JsonObj kvs)) f = mget kvs (js f)"
| "json_field _ f = None"

definition route_limit :: "json option \<Rightarrow> int" where
  "route_limit route = to_int32 (case json_field route ''l'' of Some (JsonInt i) \<Rightarrow> IntV i | _ \<Rightarrow> Undef)"

definition route_keep :: "json option \<Rightarrow> nat" where
  "route_keep route =
    (if \<not> truthy route then 0
     else if json_field route ''p'' = Some (JsonStr (js ''latest'')) then 1
     else nat (max 1 (route_limit route)))"

definition totals_of :: "message_item list \<Rightarrow> (jstr, nat) jmap" where
  "totals_of msgs = fold (\<lambda>m t. bump t (ms_kind m)) msgs []"

fun policy_loop ::
  "(jstr, json) jmap \<Rightarrow> (jstr, nat) jmap \<Rightarrow> message_item list \<Rightarrow> (jstr, nat) jmap \<Rightarrow> (jstr, nat) jmap
    \<Rightarrow> message_item list \<times> (jstr, nat) jmap" where
  "policy_loop routes totals [] seen dropped = ([], dropped)"
| "policy_loop routes totals (m # ms) seen dropped =
    (let route = mget routes (ms_kind m);
         keep = route_keep route;
         index = count_in seen (ms_kind m);
         seen' = mset seen (ms_kind m) (index + 1)
     in if int index \<ge> int (count_in totals (ms_kind m)) - int keep
        then (case policy_loop routes totals ms seen' dropped of (kept, d) \<Rightarrow> (m # kept, d))
        else policy_loop routes totals ms seen' (if truthy route then bump dropped (ms_kind m) else dropped))"

definition applyPolicies :: "host_channel \<Rightarrow> host_channel" where
  "applyPolicies ch =
    (case policy_loop (hc_routes ch) (totals_of (hc_inbound ch)) (hc_inbound ch) [] (hc_dropped ch) of
       (kept, dropped) \<Rightarrow> ch\<lparr>hc_inbound := kept, hc_dropped := dropped\<rparr>)"

section \<open>The inbox\<close>

definition large_value :: "tagged \<Rightarrow> bool" where
  "large_value v \<longleftrightarrow> (case v of TBytes bs \<Rightarrow> length bs > INLINE_BYTES | _ \<Rightarrow> False)"

fun value_bytes :: "tagged \<Rightarrow> byte list option" where
  "value_bytes (TBytes bs) = Some bs"
| "value_bytes _ = None"

definition announced :: "tagged \<Rightarrow> tagged" where
  "announced v = (case v of TBytes bs \<Rightarrow> if length bs > INLINE_BYTES then TFetch (length bs) else v | _ \<Rightarrow> v)"

definition view_length :: "tagged \<Rightarrow> nat" where
  "view_length v = (case value_bytes v of None \<Rightarrow> 0 | Some bs \<Rightarrow> length bs)"

text \<open>The views a result keeps and how many bytes of them are still to be fetched.\<close>

definition keep_result :: "tagged list \<Rightarrow> bool \<Rightarrow> answered \<Rightarrow> kept_result" where
  "keep_result values rel results =
    \<lparr>kr_views = map value_bytes values,
     kr_remaining = int (sum_list (map view_length (filter large_value values))),
     kr_release = rel, kr_values = results\<rparr>"

definition encodeAnswer :: "host_channel \<Rightarrow> answer_item \<Rightarrow> host_channel \<times> byte list" where
  "encodeAnswer ch item =
    (let w = wr_u32 (an_id item) (wr_u8 1 (new_writer 64)) in
     case an_body item of
       Failure e \<Rightarrow> (ch, wr_result (wr_sized (encode_text e) (wr_u8 0 w)))
     | Success values rel results \<Rightarrow>
        let w1 = wr_u8 1 w;
            (ch1, result) =
              (if filter large_value values \<noteq> []
               then (ch\<lparr>hc_nextResult := hc_nextResult ch + 1,
                       hc_results := mset (hc_results ch) (hc_nextResult ch) (keep_result values rel results)\<rparr>,
                     hc_nextResult ch)
               else (ch, 0));
            w2 = wr_u16 (length values) (wr_u32 result w1)
        in (ch1, wr_result (fold (\<lambda>v w. writeValue (announced v) w) values w2)))"

definition encodeMessage :: "message_item \<Rightarrow> byte list" where
  "encodeMessage m =
    (let kind = encode_text (ms_kind m);
         w = wr_raw kind (wr_u16 (length kind) (wr_u8 2 (new_writer 64)));
         w1 = wr_u16 (length (ms_values m)) w
     in wr_result (fold writeValue (ms_values m) w1))"

definition encodeDropped :: "jstr \<Rightarrow> nat \<Rightarrow> byte list" where
  "encodeDropped kind count =
    (let name = encode_text kind in
     wr_result (wr_u32 count (wr_raw name (wr_u16 (length name) (wr_u8 3 (new_writer 32))))))"

text \<open>The inbox being filled: the lease table its view belongs to, the bytes written and \<^verbatim>\<open>more\<close>.\<close>

record filling =
  fi_transfers :: transfers
  fi_written :: nat
  fi_more :: nat

definition put :: "int \<Rightarrow> nat \<Rightarrow> byte list \<Rightarrow> filling \<Rightarrow> filling \<times> bool" where
  "put i capacity bs f =
    (if fi_written f + length bs > capacity
     then (f\<lparr>fi_more := (if fi_more f = 0 then length bs else fi_more f)\<rparr>, False)
     else (f\<lparr>fi_transfers := write_view (fi_transfers f) i (fi_written f) bs,
             fi_written := fi_written f + length bs\<rparr>, True))"

fun put_answers ::
  "int \<Rightarrow> nat \<Rightarrow> answer_item list \<Rightarrow> host_channel \<Rightarrow> filling \<Rightarrow> host_channel \<times> filling" where
  "put_answers i capacity [] ch f = (ch\<lparr>hc_answers := []\<rparr>, f)"
| "put_answers i capacity (item # items) ch f =
    (let (ch1, bs) = (case an_encoded item of Some bs \<Rightarrow> (ch, bs) | None \<Rightarrow> encodeAnswer ch item) in
     case put i capacity bs f of
       (f1, True) \<Rightarrow> put_answers i capacity items ch1 f1
     | (f1, False) \<Rightarrow> (ch1\<lparr>hc_answers := item\<lparr>an_encoded := Some bs\<rparr> # items\<rparr>, f1))"

fun put_dropped ::
  "int \<Rightarrow> nat \<Rightarrow> (jstr \<times> nat) list \<Rightarrow> host_channel \<Rightarrow> filling \<Rightarrow> host_channel \<times> filling" where
  "put_dropped i capacity [] ch f = (ch, f)"
| "put_dropped i capacity ((kind, count) # rest) ch f =
    (case put i capacity (encodeDropped kind count) f of
       (f1, True) \<Rightarrow> put_dropped i capacity rest (ch\<lparr>hc_dropped := mdelete (hc_dropped ch) kind\<rparr>) f1
     | (f1, False) \<Rightarrow> (ch, f1))"

fun put_inbound ::
  "int \<Rightarrow> nat \<Rightarrow> message_item list \<Rightarrow> host_channel \<Rightarrow> filling \<Rightarrow> host_channel \<times> filling" where
  "put_inbound i capacity [] ch f = (ch\<lparr>hc_inbound := []\<rparr>, f)"
| "put_inbound i capacity (m # ms) ch f =
    (let bs = (case ms_encoded m of Some bs \<Rightarrow> bs | None \<Rightarrow> encodeMessage m) in
     case put i capacity bs f of
       (f1, True) \<Rightarrow> put_inbound i capacity ms ch f1
     | (f1, False) \<Rightarrow> (ch\<lparr>hc_inbound := m\<lparr>ms_encoded := Some bs\<rparr> # ms\<rparr>, f1))"

definition fill_inbox :: "int \<Rightarrow> nat \<Rightarrow> host_channel \<Rightarrow> filling \<Rightarrow> host_channel \<times> filling" where
  "fill_inbox i capacity ch f =
    (let (ch1, f1) = put_answers i capacity (hc_answers ch) ch f in
     if fi_more f1 = 0 then
       (let ch2 = applyPolicies ch1;
            (ch3, f2) = put_dropped i capacity (hc_dropped ch2) ch2 f1
        in if fi_more f2 = 0 then put_inbound i capacity (hc_inbound ch3) ch3 f2 else (ch3, f2))
     else (ch1, f1))"

record written_answer =
  wa_written :: nat
  wa_more :: "nat option"

definition finishHostFrame ::
  "nat \<Rightarrow> host_channel \<Rightarrow> transfers \<Rightarrow> host_channel \<times> transfers \<times> written_answer result" where
  "finishHostFrame effect_id ch t =
    (case mget (hc_frames ch) effect_id of
       None \<Rightarrow> (ch, t, throw ''a host frame was never begun'')
     | Some fr \<Rightarrow>
        let ch1 = ch\<lparr>hc_frames := mdelete (hc_frames ch) effect_id\<rparr>;
            inbox = (case fr_inbox fr of None \<Rightarrow> Undef | Some s \<Rightarrow> ib_lease s) in
        (case (fr_failure fr, fr_lease fr) of
           (Some e, None) \<Rightarrow> (ch1, t, Inl e)
         | (Some e, Some entry) \<Rightarrow> (ch1, release t inbox, Inl e)
         | (None, None) \<Rightarrow> (ch1, t, Inr \<lparr>wa_written = 0, wa_more = None\<rparr>)
         | (None, Some entry) \<Rightarrow>
            let (ch2, f) = fill_inbox (le_id entry) (length (le_view entry)) ch1
                             \<lparr>fi_transfers = t, fi_written = 0, fi_more = 0\<rparr>
            in (ch2, release (fi_transfers f) inbox,
                Inr \<lparr>wa_written = fi_written f,
                     wa_more = (if fi_more f > 0 then Some (fi_more f) else None)\<rparr>)))"

section \<open>Streams in\<close>

fun drop_oldest :: "message_item list \<Rightarrow> (jstr, nat) jmap \<Rightarrow> message_item list \<times> (jstr, nat) jmap" where
  "drop_oldest [] dropped = ([], dropped)"
| "drop_oldest (m # ms) dropped =
    (if length (m # ms) > MAX_INBOUND_MESSAGES then drop_oldest ms (bump dropped (ms_kind m)) else (m # ms, dropped))"

definition pushMessage :: "host_channel \<Rightarrow> jstr \<Rightarrow> jval list \<Rightarrow> host_channel \<times> unit result" where
  "pushMessage ch kind values =
    (case bind (checkedKind kind) (\<lambda>_.
        if length values > MAX_VALUES
        then Inl (Error (js ''host push '' @ kind @ js '' carries more than 255 values''))
        else map_results (\<lambda>i v. inboundValue kind v (i + 1)) 0 values) of
       Inl e \<Rightarrow> (ch, Inl e)
     | Inr checked \<Rightarrow>
        if hc_closed ch then (ch, Inr ()) else
        let (inbound, dropped) =
              drop_oldest (hc_inbound ch @ [\<lparr>ms_kind = kind, ms_values = checked, ms_encoded = None\<rparr>]) (hc_dropped ch);
            ch1 = ch\<lparr>hc_inbound := inbound, hc_dropped := dropped\<rparr>
        in (if hc_notify ch1 \<and> \<not> hc_wakeScheduled ch1 then ch1\<lparr>hc_wakeScheduled := True\<rparr> else ch1, Inr ()))"

definition run_microtask :: "host_channel \<Rightarrow> host_channel" where
  "run_microtask ch = wake (ch\<lparr>hc_wakeScheduled := False\<rparr>)"

section \<open>Bulk bytes\<close>

definition first_span :: "host_effect \<Rightarrow> inbox_span option" where
  "first_span eff = (case he_spans eff of Some (s # _) \<Rightarrow> Some s | _ \<Rightarrow> None)"

definition span_lease :: "inbox_span option \<Rightarrow> jnum" where
  "span_lease s = (case s of None \<Rightarrow> Undef | Some s \<Rightarrow> ib_lease s)"

definition release_span :: "transfers \<Rightarrow> inbox_span option \<Rightarrow> transfers" where
  "release_span t s = (case s of None \<Rightarrow> t | Some s \<Rightarrow> release t (ib_lease s))"

definition array_at :: "'a option list \<Rightarrow> int \<Rightarrow> 'a option" where
  "array_at xs i = (if 0 \<le> i \<and> i < int (length xs) then xs ! nat i else None)"

definition result_of :: "host_channel \<Rightarrow> jnum \<Rightarrow> (nat \<times> kept_result) option" where
  "result_of ch n =
    (case n of IntV i \<Rightarrow> if i < 0 then None else map_option (Pair (nat i)) (mget (hc_results ch) (nat i)) | _ \<Rightarrow> None)"

definition fetchResult :: "host_channel \<Rightarrow> host_effect \<Rightarrow> transfers \<Rightarrow> host_channel \<times> transfers \<times> nat result" where
  "fetchResult ch eff t =
    (let span = first_span eff; done = (\<lambda>ch t r. (ch, release_span t span, r)) in
     case result_of ch (he_result eff) of
       None \<Rightarrow> done ch t (throw ''host result is unknown or was already released'')
     | Some (k, rec) \<Rightarrow>
        (case (case he_index eff of IntV i \<Rightarrow> array_at (kr_views rec) (i - 1) | _ \<Rightarrow> None) of
           None \<Rightarrow> done ch t (throw ''host result has no such byte value'')
         | Some view \<Rightarrow>
            (case lease t (span_lease span) Undef True of
               Inl e \<Rightarrow> done ch t (Inl e)
             | Inr entry \<Rightarrow>
                let n = length (le_view entry); offset = the_int (he_offset eff) in
                if \<not> isInteger (he_offset eff) \<or> offset < 0 \<or> offset + int n > int (length view)
                then done ch t (throw ''host result fetch range is invalid'')
                else
                  let rec1 = rec\<lparr>kr_remaining := kr_remaining rec - int n\<rparr>;
                      ch1 = ch\<lparr>hc_results := (if kr_remaining rec1 = 0 then mdelete (hc_results ch) k
                                               else mset (hc_results ch) k rec1)\<rparr>
                  in done ch1 (write_view t (le_id entry) 0 (take n (drop (nat offset) view))) (Inr n))))"

text \<open>An upload's table entry exists as soon as its first chunk is accepted, also when its lease then fails.\<close>

definition open_upload :: "host_channel \<Rightarrow> int \<Rightarrow> jnum \<Rightarrow> nat \<Rightarrow> (host_channel \<times> upload) result" where
  "open_upload ch transfer offset n =
    (case mget (hc_uploads ch) transfer of
       Some up \<Rightarrow> Inr (ch, up)
     | None \<Rightarrow>
        if offset \<noteq> IntV 0 then throw ''host upload began past its start''
        else if hc_reassembled ch + n > hc_reassemblyLimit ch
        then Inl (Error (js ''host upload of '' @ decimal n @ js '' bytes exceeds the page's reassembly bound''))
        else let up = \<lparr>up_bytes = replicate n 0, up_total = n, up_received = 0\<rparr>
             in Inr (ch\<lparr>hc_uploads := mset (hc_uploads ch) transfer up, hc_reassembled := hc_reassembled ch + n\<rparr>, up))"

definition receiveUpload :: "host_channel \<Rightarrow> host_effect \<Rightarrow> transfers \<Rightarrow> host_channel \<times> transfers \<times> nat result" where
  "receiveUpload ch eff t =
    (let span = first_span eff; done = (\<lambda>ch r. (ch, release_span t span, r)) in
     if \<not> isInteger (he_transfer eff) \<or> \<not> isInteger (he_total eff) \<or> the_int (he_total eff) < 0
        \<or> the_int (he_total eff) > int MAX_OUTBOUND_BYTES
     then done ch (throw ''host upload is malformed'') else
     let transfer = the_int (he_transfer eff); n = nat (the_int (he_total eff)) in
     case open_upload ch transfer (he_offset eff) n of
       Inl e \<Rightarrow> done ch (Inl e)
     | Inr (ch1, up) \<Rightarrow>
        (case lease t (span_lease span) Undef False of
           Inl e \<Rightarrow> done ch1 (Inl e)
         | Inr entry \<Rightarrow>
            let chunk = le_view entry in
            if he_offset eff \<noteq> IntV (int (up_received up)) \<or> up_received up + length chunk > n
            then done ch1 (throw ''host upload chunk is out of order'')
            else if up_received up + length chunk > length (up_bytes up)
            then done ch1 (Inl (RangeError (js ''offset is out of bounds'')))
            else
              let up1 = up\<lparr>up_bytes := blit (up_bytes up) (up_received up) chunk,
                          up_received := up_received up + length chunk\<rparr>
              in done (ch1\<lparr>hc_uploads := mset (hc_uploads ch1) transfer up1\<rparr>) (Inr (up_received up1))))"

datatype host_reply = Fetched nat | Received nat

definition performHostEffect ::
  "host_channel \<Rightarrow> host_effect \<Rightarrow> transfers \<Rightarrow> host_channel \<times> transfers \<times> host_reply result" where
  "performHostEffect ch eff t =
    (if he_op eff = ''fetch'' then
       (case fetchResult ch eff t of (ch1, t1, r) \<Rightarrow> (ch1, t1, bind r (\<lambda>n. Inr (Fetched n))))
     else if he_op eff = ''upload'' then
       (case receiveUpload ch eff t of (ch1, t1, r) \<Rightarrow> (ch1, t1, bind r (\<lambda>n. Inr (Received n))))
     else (ch, foldl release t (map ib_lease (case he_spans eff of Some ss \<Rightarrow> ss | None \<Rightarrow> [])),
           Inl (Error (js ''unknown host operation '' @ js (he_op eff)))))"

definition isHostFrame :: "string \<Rightarrow> host_effect \<Rightarrow> bool" where
  "isHostFrame kind eff \<longleftrightarrow> kind = ''host'' \<and> he_op eff = ''x''"

definition hostEffectBoundToFrame :: "host_effect \<Rightarrow> bool" where
  "hostEffectBoundToFrame eff \<longleftrightarrow> he_op eff = ''fetch'' \<or> he_op eff = ''upload''"

text \<open>\<^verbatim>\<open>options.hostChannel ||= createHostChannel(options.host)\<close>\<close>

definition channelOf :: "host_channel option \<Rightarrow> host_option option \<Rightarrow> host_channel result" where
  "channelOf chan host = (case chan of Some ch \<Rightarrow> Inr ch | None \<Rightarrow> createHostChannel host)"

end
