(* ===== verification/Host_Protocol.thy ===== *)
theory Host_Protocol
  imports HostChannel "HOL-Library.Sublist"
begin

text \<open>
  Properties of the host channel: the byte budget of the uploads and the bound of the inbound
  queue in every reachable state, the routing policies, the layout of the inbox, the round
  trips of the request values and of chunked uploads, and the release of results.
\<close>

section \<open>The upload budget\<close>

definition upload_ok :: "int \<times> upload \<Rightarrow> bool" where
  "upload_ok p \<longleftrightarrow> length (up_bytes (snd p)) = up_total (snd p) \<and>
     up_received (snd p) \<le> up_total (snd p) \<and> up_total (snd p) \<le> MAX_OUTBOUND_BYTES"

type_synonym budget = "(int, upload) jmap \<times> nat \<times> nat"

definition budget :: "host_channel \<Rightarrow> budget" where
  "budget ch = (hc_uploads ch, hc_reassembled ch, hc_reassemblyLimit ch)"

fun budget_ok :: "budget \<Rightarrow> bool" where
  "budget_ok (uploads, held, limit) \<longleftrightarrow> wf_map uploads \<and> (\<forall>p \<in> set uploads. upload_ok p) \<and>
     held = msum up_total uploads \<and> held \<le> limit"

definition results_ok :: "host_channel \<Rightarrow> bool" where
  "results_ok ch \<longleftrightarrow> wf_map (hc_results ch) \<and> (\<forall>k \<in> set (mkeys (hc_results ch)). 0 < k \<and> k < hc_nextResult ch) \<and> 0 < hc_nextResult ch"

definition host_ok :: "host_channel \<Rightarrow> bool" where
  "host_ok ch \<longleftrightarrow> budget_ok (budget ch) \<and> length (hc_inbound ch) \<le> MAX_INBOUND_MESSAGES \<and> results_ok ch"

text \<open>What an operation that touches none of the accounted tables leaves alone.\<close>

definition ledger :: "host_channel \<Rightarrow> budget \<times> message_item list \<times> (nat, kept_result) jmap \<times> nat" where
  "ledger ch = (budget ch, hc_inbound ch, hc_results ch, hc_nextResult ch)"

lemma host_ok_ledger: "ledger ch' = ledger ch \<Longrightarrow> host_ok ch \<Longrightarrow> host_ok ch'"
  by (auto simp: ledger_def host_ok_def results_ok_def)

named_theorems ledger_simps \<open>operations that keep the ledger\<close>

lemma ledger_log [ledger_simps]: "ledger (log ch evs) = ledger ch"
  by (simp add: ledger_def budget_def log_def)

lemma ledger_wake [ledger_simps]: "ledger (wake ch) = ledger ch"
  by (simp add: wake_def ledger_simps) (simp add: ledger_def budget_def)

lemma ledger_releaseResult [ledger_simps]: "ledger (releaseResult ch rel vs) = ledger ch"
  by (simp add: releaseResult_def ledger_simps)

lemma ledger_updates [ledger_simps]:
  "ledger (ch\<lparr>hc_answers := a\<rparr>) = ledger ch" "ledger (ch\<lparr>hc_inflight := i\<rparr>) = ledger ch"
  "ledger (ch\<lparr>hc_routes := r\<rparr>) = ledger ch" "ledger (ch\<lparr>hc_frames := f\<rparr>) = ledger ch"
  "ledger (ch\<lparr>hc_notify := n\<rparr>) = ledger ch" "ledger (ch\<lparr>hc_wakeScheduled := n\<rparr>) = ledger ch"
  "ledger (ch\<lparr>hc_dropped := d\<rparr>) = ledger ch" "ledger (ch\<lparr>hc_closed := n\<rparr>) = ledger ch"
  by (simp_all add: ledger_def budget_def)

lemma ledger_answer [ledger_simps]: "ledger (answer ch i body) = ledger ch"
  by (simp add: answer_def ledger_simps)

lemma ledger_dispatchCall [ledger_simps]: "ledger (dispatchCall call ch i name args) = ledger ch"
  by (simp add: dispatchCall_def ledger_simps Let_def split: option.splits)

lemma ledger_settleCall [ledger_simps]: "ledger (settleCall ch i name outcome) = ledger ch"
  by (simp add: settleCall_def ledger_simps Let_def split: sum.splits)

lemma ledger_dispatchOneWay [ledger_simps]: "ledger (dispatchOneWay call ch name args) = ledger ch"
  by (simp add: dispatchOneWay_def ledger_simps Let_def split: option.splits)

lemma ledger_settleOneWay [ledger_simps]: "ledger (settleOneWay ch name post outcome) = ledger ch"
  by (simp add: settleOneWay_def ledger_simps split: sum.splits)

lemma ledger_releases [ledger_simps]:
  "ledger (release_answers items ch) = ledger ch" "ledger (release_kept rs ch) = ledger ch"
  by (induction items arbitrary: ch) (simp_all add: ledger_simps split: answer_body.splits,
      induction rs arbitrary: ch, simp_all add: ledger_simps)

subsection \<open>Uploads enter and leave\<close>

lemma budget_remove:
  assumes "budget_ok (uploads, held, limit)" "mget uploads k = Some up"
  shows "budget_ok (mdelete uploads k, held - up_total up, limit)"
proof -
  have "msum up_total uploads = msum up_total (mdelete uploads k) + up_total up"
    using assms msum_mdelete [of uploads k up up_total] by simp
  moreover have "set (mdelete uploads k) \<subseteq> set uploads" by (rule set_mdelete_subset)
  ultimately show ?thesis using assms by auto
qed

definition without_upload :: "host_channel \<Rightarrow> int \<Rightarrow> upload \<Rightarrow> host_channel" where
  "without_upload ch k up =
    ch\<lparr>hc_uploads := mdelete (hc_uploads ch) k, hc_reassembled := hc_reassembled ch - up_total up\<rparr>"

lemma host_ok_without_upload:
  "host_ok ch \<Longrightarrow> mget (hc_uploads ch) k = Some up \<Longrightarrow> host_ok (without_upload ch k up)"
  using budget_remove [of "hc_uploads ch" "hc_reassembled ch" "hc_reassemblyLimit ch" k up]
  by (simp add: host_ok_def results_ok_def budget_def without_upload_def)

lemma read_value_effect:
  assumes "read_value i ch r = (ch', out)"
  shows "ch' = ch \<or> (\<exists>k up. mget (hc_uploads ch) k = Some up \<and> up_received up = up_total up \<and> ch' = without_upload ch k up)"
  using assms unfolding read_value_def without_upload_def
  by (auto split: sum.splits prod.splits if_splits option.splits)

lemma host_ok_read_value: "read_value i ch r = (ch', out) \<Longrightarrow> host_ok ch \<Longrightarrow> host_ok ch'"
  using read_value_effect host_ok_without_upload by blast

lemma host_ok_read_values: "read_values k i ch r = (ch', out) \<Longrightarrow> host_ok ch \<Longrightarrow> host_ok ch'"
proof (induction k arbitrary: i ch r out)
  case (Suc k)
  obtain ch1 o1 where v: "read_value i ch r = (ch1, o1)" by fastforce
  with Suc.prems have "host_ok ch1" using host_ok_read_value by blast
  with Suc.prems v Suc.IH show ?case
    by (cases o1) (auto split: prod.splits sum.splits)
qed simp

lemma host_ok_readArguments: "readArguments ch r = (ch', out) \<Longrightarrow> host_ok ch \<Longrightarrow> host_ok ch'"
  by (auto simp: readArguments_def split: sum.splits if_splits dest: host_ok_read_values)

lemma results_ok_delete:
  "results_ok ch \<Longrightarrow> results_ok (ch\<lparr>hc_results := mdelete (hc_results ch) k\<rparr>)"
  by (auto simp: results_ok_def set_mkeys split: if_splits)

lemma host_ok_delete_result: "host_ok ch \<Longrightarrow> host_ok (ch\<lparr>hc_results := mdelete (hc_results ch) k\<rparr>)"
  using results_ok_delete by (auto simp: host_ok_def budget_def)

lemma host_ok_keep: "host_ok ch \<Longrightarrow> ledger ch' = ledger ch \<Longrightarrow> host_ok ch'"
  using host_ok_ledger by blast

lemma host_ok_dispatched:
  assumes "host_ok ch"
  shows "host_ok (dispatchCall call ch i name args)" "host_ok (dispatchOneWay call ch name args)"
    "host_ok (answer ch i body)" "host_ok (log ch evs)" "host_ok (releaseResult ch rel vs)"
    "host_ok (ch\<lparr>hc_routes := rs\<rparr>)" "host_ok (ch\<lparr>hc_inflight := fl\<rparr>)" "host_ok (ch\<lparr>hc_frames := fs\<rparr>)"
  using assms by (auto intro: host_ok_keep simp: ledger_simps)

lemma host_ok_read_record:
  assumes "read_record call parse ch r = (ch', out)" "host_ok ch"
  shows "host_ok ch'"
proof (cases "bind (rd_u8 r) (\<lambda>(op, r1). bind (rd_u32 r1) (\<lambda>(i, r2). Inr (op, i, r2)))")
  case (Inl e)
  with assms show ?thesis by (simp add: read_record_def)
next
  case (Inr x)
  obtain op i r2 where x: "x = (op, i, r2)" by (cases x)
  consider "op = 1 \<or> op = 2 \<or> op = 3" | "op = 4" | "op = 5" | "op = 6"
    | "op \<noteq> 1" "op \<noteq> 2" "op \<noteq> 3" "op \<noteq> 4" "op \<noteq> 5" "op \<noteq> 6" by blast
  then show ?thesis
  proof cases
    case 1
    with assms Inr x show ?thesis
      by (auto simp: read_record_def host_ok_dispatched split: sum.splits prod.splits if_splits
          dest!: host_ok_readArguments)
  next
    case 4
    with assms Inr x show ?thesis
      by (auto simp: read_record_def host_ok_without_upload [unfolded without_upload_def]
          split: sum.splits prod.splits option.splits)
  qed (use assms Inr x in \<open>auto simp: read_record_def host_ok_dispatched host_ok_delete_result
        split: sum.splits prod.splits if_splits option.splits\<close>)
qed

lemma host_ok_readRecords_loop: "readRecords_loop call parse ch r = (ch', out) \<Longrightarrow> host_ok ch \<Longrightarrow> host_ok ch'"
proof (induction call parse ch r arbitrary: out rule: readRecords_loop.induct)
  case (1 call parse ch r)
  obtain ch1 o1 where v: "read_record call parse ch r = (ch1, o1)" by fastforce
  with 1 have "host_ok ch1" using host_ok_read_record by blast
  with 1 v show ?case
    by (auto simp: readRecords_loop.simps [of call parse ch r] split: if_splits sum.splits)
qed

lemma host_ok_readRecords: "readRecords call parse ch bs = (ch', out) \<Longrightarrow> host_ok ch \<Longrightarrow> host_ok ch'"
  unfolding readRecords_def by (rule host_ok_readRecords_loop)

lemma host_ok_beginHostFrame: "host_ok ch \<Longrightarrow> host_ok (beginHostFrame call parse eff spans ch t)"
  by (auto simp: beginHostFrame_def Let_def host_ok_dispatched split: list.splits sum.splits prod.splits
      dest: host_ok_readRecords)

subsection \<open>Receiving a chunk\<close>

lemma open_upload_ok:
  assumes "host_ok ch" "open_upload ch k off n = Inr (ch', up)" "n \<le> MAX_OUTBOUND_BYTES"
  shows "host_ok ch' \<and> mget (hc_uploads ch') k = Some up"
proof (cases "mget (hc_uploads ch) k")
  case None
  let ?up = "\<lparr>up_bytes = replicate n 0, up_total = n, up_received = 0\<rparr>"
  have "budget_ok (mset (hc_uploads ch) k ?up, hc_reassembled ch + n, hc_reassemblyLimit ch)"
    using assms None set_mset_subset [of "hc_uploads ch" k ?up]
    by (auto simp: open_upload_def host_ok_def budget_def msum_mset_fresh upload_ok_def split: if_splits)
  with assms None show ?thesis
    by (auto simp: open_upload_def host_ok_def results_ok_def budget_def Let_def split: if_splits)
qed (use assms in \<open>auto simp: open_upload_def\<close>)

lemma budget_update:
  assumes "budget_ok (uploads, held, limit)" "mget uploads k = Some up" "upload_ok (k, up')" "up_total up' = up_total up"
  shows "budget_ok (mset uploads k up', held, limit)"
  using assms set_mset_subset [of uploads k up'] msum_mset_present [of uploads k up up_total up']
  by auto

lemma host_ok_upload_update:
  "host_ok ch \<Longrightarrow> mget (hc_uploads ch) k = Some up \<Longrightarrow> upload_ok (k, up') \<Longrightarrow> up_total up' = up_total up \<Longrightarrow>
   host_ok (ch\<lparr>hc_uploads := mset (hc_uploads ch) k up'\<rparr>)"
  using budget_update [of "hc_uploads ch" "hc_reassembled ch" "hc_reassemblyLimit ch" k up up']
  by (simp add: host_ok_def budget_def results_ok_def)

lemma upload_ok_in: "host_ok ch \<Longrightarrow> mget (hc_uploads ch) k = Some up \<Longrightarrow> upload_ok (k, up)"
  by (auto simp: host_ok_def budget_def dest: mget_Some_set)

lemma host_ok_receiveUpload:
  assumes "receiveUpload ch eff t = (ch', t', out)" "host_ok ch"
  shows "host_ok ch'"
proof (cases "open_upload ch (the_int (he_transfer eff)) (he_offset eff) (nat (the_int (he_total eff)))")
  case (Inl e)
  with assms show ?thesis by (auto simp: receiveUpload_def Let_def split: if_splits)
next
  case (Inr x)
  obtain ch1 up where x: "x = (ch1, up)" by (cases x)
  show ?thesis
  proof (cases "nat (the_int (he_total eff)) \<le> MAX_OUTBOUND_BYTES")
    case True
    then have ok: "host_ok ch1" "mget (hc_uploads ch1) (the_int (he_transfer eff)) = Some up"
      using open_upload_ok [OF assms(2) Inr [unfolded x]] by auto
    with upload_ok_in [OF ok] assms Inr x show ?thesis
      by (auto simp: receiveUpload_def Let_def upload_ok_def split: if_splits sum.splits
          intro!: host_ok_upload_update [OF ok])
  next
    case False
    with assms show ?thesis by (auto simp: receiveUpload_def Let_def split: if_splits)
  qed
qed

section \<open>Routing policies\<close>

abbreviation of_kind :: "jstr \<Rightarrow> message_item list \<Rightarrow> message_item list" where
  "of_kind k ms \<equiv> filter (\<lambda>m. ms_kind m = k) ms"

lemma count_in_mset [simp]: "count_in (mset m k v) j = (if j = k then v else count_in m j)"
  by (simp add: count_in_def)

lemma count_in_bump: "count_in (bump m k) j = count_in m j + (if j = k then 1 else 0)"
  by (simp add: bump_def)

lemma count_in_totals: "count_in (totals_of ms) k = length (of_kind k ms)"
proof -
  have "count_in (fold (\<lambda>m t. bump t (ms_kind m)) ms acc) k = count_in acc k + length (of_kind k ms)" for acc
    by (induction ms arbitrary: acc) (auto simp: count_in_bump)
  from this [of "[]"] show ?thesis by (simp add: totals_of_def count_in_def)
qed

definition policy_excess :: "(jstr, json) jmap \<Rightarrow> (jstr, nat) jmap \<Rightarrow> (jstr, nat) jmap \<Rightarrow> jstr \<Rightarrow> nat" where
  "policy_excess routes totals seen k = count_in totals k - route_keep (mget routes k) - count_in seen k"

lemma policy_excess_seen:
  "policy_excess routes totals (mset seen j (Suc (count_in seen j))) k =
    (if k = j then policy_excess routes totals seen k - 1 else policy_excess routes totals seen k)"
  by (simp add: policy_excess_def)

lemma policy_keeps_iff:
  "int (count_in seen k) \<ge> int (count_in totals k) - int (route_keep (mget routes k)) \<longleftrightarrow> policy_excess routes totals seen k = 0"
  by (auto simp: policy_excess_def)

lemma policy_loop_all:
  assumes "policy_loop routes totals ms seen dropped = (kept, d)"
  shows "of_kind k kept = drop (policy_excess routes totals seen k) (of_kind k ms) \<and>
    count_in d k = count_in dropped k +
      (if truthy (mget routes k) then min (policy_excess routes totals seen k) (length (of_kind k ms)) else 0) \<and>
    subseq kept ms"
  using assms
proof (induction ms arbitrary: seen dropped kept d)
  case (Cons m ms)
  let ?j = "ms_kind m" and ?seen = "mset seen (ms_kind m) (Suc (count_in seen (ms_kind m)))"
  let ?x = "policy_excess routes totals seen ?j"
  let ?drop = "if truthy (mget routes ?j) then bump dropped ?j else dropped"
  obtain k0 d0 where k0: "policy_loop routes totals ms ?seen dropped = (k0, d0)" by fastforce
  obtain k1 d1 where k1: "policy_loop routes totals ms ?seen ?drop = (k1, d1)" by fastforce
  have step: "(kept, d) = (if ?x = 0 then (m # k0, d0) else (k1, d1))"
    using k0 k1 Cons.prems by (auto simp: Let_def policy_keeps_iff split: if_splits)
  show ?case
  proof (cases ?x)
    case 0
    with step Cons.IH [OF k0] show ?thesis by (auto simp: policy_excess_seen)
  next
    case (Suc n)
    with step Cons.IH [OF k1] show ?thesis by (auto simp: policy_excess_seen count_in_bump)
  qed
qed simp

lemma policy_loop_spec:
  assumes "policy_loop routes totals ms seen dropped = (kept, d)"
  shows "of_kind k kept = drop (policy_excess routes totals seen k) (of_kind k ms)"
    and "count_in d k = count_in dropped k +
      (if truthy (mget routes k) then min (policy_excess routes totals seen k) (length (of_kind k ms)) else 0)"
    and "subseq kept ms"
  using policy_loop_all [OF assms] by blast+

lemma applyPolicies_parts:
  "\<exists>kept d. policy_loop (hc_routes ch) (totals_of (hc_inbound ch)) (hc_inbound ch) [] (hc_dropped ch) = (kept, d) \<and>
     applyPolicies ch = ch\<lparr>hc_inbound := kept, hc_dropped := d\<rparr>"
  by (auto simp: applyPolicies_def split: prod.splits)

lemma applyPolicies_subseq: "subseq (hc_inbound (applyPolicies ch)) (hc_inbound ch)"
  using applyPolicies_parts [of ch] policy_loop_spec(3) by fastforce

lemma applyPolicies_other [simp]:
  "hc_results (applyPolicies ch) = hc_results ch" "hc_nextResult (applyPolicies ch) = hc_nextResult ch"
  "budget (applyPolicies ch) = budget ch" "hc_routes (applyPolicies ch) = hc_routes ch"
  "hc_answers (applyPolicies ch) = hc_answers ch"
  using applyPolicies_parts [of ch] by (auto simp: budget_def)

lemma host_ok_applyPolicies: "host_ok ch \<Longrightarrow> host_ok (applyPolicies ch)"
  using list_emb_length [OF applyPolicies_subseq, of ch]
  by (simp add: host_ok_def results_ok_def)

text \<open>Before a frame's inbox is filled the routing policies are applied to the inbound queue:
  of every kind exactly the newest messages its route keeps remain, in their order (one for
  \<open>latest\<close>, the newest \<open>l\<close> for \<open>dropOldest\<close>, none for a kind nothing routes), the queue
  stays a subsequence of what it was, so the order across kinds is kept, and for a routed
  kind the drop counter grows by exactly the number of messages removed.
\<close>
theorem policies_keep_newest:
  "of_kind k (hc_inbound (applyPolicies ch)) =
     drop (length (of_kind k (hc_inbound ch)) - route_keep (mget (hc_routes ch) k)) (of_kind k (hc_inbound ch)) \<and>
   subseq (hc_inbound (applyPolicies ch)) (hc_inbound ch) \<and>
   count_in (hc_dropped (applyPolicies ch)) k = count_in (hc_dropped ch) k +
     (if truthy (mget (hc_routes ch) k)
      then length (of_kind k (hc_inbound ch)) - length (of_kind k (hc_inbound (applyPolicies ch))) else 0)"
proof -
  obtain kept d where p: "policy_loop (hc_routes ch) (totals_of (hc_inbound ch)) (hc_inbound ch) [] (hc_dropped ch) = (kept, d)"
    and a: "applyPolicies ch = ch\<lparr>hc_inbound := kept, hc_dropped := d\<rparr>" using applyPolicies_parts by blast
  have "policy_excess (hc_routes ch) (totals_of (hc_inbound ch)) [] k =
      length (of_kind k (hc_inbound ch)) - route_keep (mget (hc_routes ch) k)"
    by (simp add: policy_excess_def count_in_totals) (simp add: count_in_def)
  with policy_loop_spec [OF p] a show ?thesis by (auto simp: min_def)
qed

section \<open>Filling the inbox\<close>

lemma results_ok_encodeAnswer:
  assumes "encodeAnswer ch item = (ch', bs)" "results_ok ch"
  shows "results_ok ch'"
proof (cases "hc_nextResult ch' = hc_nextResult ch")
  case True
  with assms show ?thesis
    by (auto simp: encodeAnswer_def Let_def split: answer_body.splits if_splits prod.splits)
next
  case False
  with assms show ?thesis
    by (auto simp: encodeAnswer_def Let_def results_ok_def set_mkeys less_Suc_eq
        split: answer_body.splits if_splits prod.splits)
qed

lemma encodeAnswer_other:
  assumes "encodeAnswer ch item = (ch', bs)"
  shows "budget ch' = budget ch" "hc_inbound ch' = hc_inbound ch" "hc_dropped ch' = hc_dropped ch"
    "hc_routes ch' = hc_routes ch" "hc_answers ch' = hc_answers ch" "hc_log ch' = hc_log ch"
  using assms by (auto simp: encodeAnswer_def Let_def budget_def split: answer_body.splits if_splits prod.splits)

lemma host_ok_encodeAnswer: "encodeAnswer ch item = (ch', bs) \<Longrightarrow> host_ok ch \<Longrightarrow> host_ok ch'"
  using results_ok_encodeAnswer [of ch item ch' bs] encodeAnswer_other [of ch item ch' bs]
  by (simp add: host_ok_def)

definition encoded_answer :: "host_channel \<Rightarrow> answer_item \<Rightarrow> host_channel \<times> byte list" where
  "encoded_answer ch item = (case an_encoded item of Some bs \<Rightarrow> (ch, bs) | None \<Rightarrow> encodeAnswer ch item)"

lemma host_ok_encoded_answer: "encoded_answer ch item = (ch', bs) \<Longrightarrow> host_ok ch \<Longrightarrow> host_ok ch'"
  by (auto simp: encoded_answer_def host_ok_encodeAnswer split: option.splits)

lemma host_ok_set_answers: "host_ok ch \<Longrightarrow> host_ok (ch\<lparr>hc_answers := a\<rparr>)" "host_ok ch \<Longrightarrow> host_ok (ch\<lparr>hc_dropped := d\<rparr>)"
  by (auto intro: host_ok_keep simp: ledger_simps)

lemma put_answers_Cons:
  "put_answers i n (item # items) ch f =
    (case encoded_answer ch item of (ch1, bs) \<Rightarrow>
      (case put i n bs f of
         (f1, True) \<Rightarrow> put_answers i n items ch1 f1
       | (f1, False) \<Rightarrow> (ch1\<lparr>hc_answers := item\<lparr>an_encoded := Some bs\<rparr> # items\<rparr>, f1)))"
  by (simp add: encoded_answer_def split: prod.splits)

declare put_answers.simps(2) [simp del]

lemma host_ok_put_answers: "put_answers i n items ch f = (ch', f') \<Longrightarrow> host_ok ch \<Longrightarrow> host_ok ch'"
proof (induction items arbitrary: ch f)
  case (Cons item items)
  obtain ch1 bs where e: "encoded_answer ch item = (ch1, bs)" by fastforce
  with Cons.prems have "host_ok ch1" using host_ok_encoded_answer by blast
  with e Cons show ?case by (auto simp: put_answers_Cons host_ok_set_answers split: prod.splits bool.splits)
qed (auto simp: host_ok_set_answers)

lemma host_ok_put_dropped: "put_dropped i n ds ch f = (ch', f') \<Longrightarrow> host_ok ch \<Longrightarrow> host_ok ch'"
  by (induction i n ds ch f rule: put_dropped.induct) (auto simp: host_ok_set_answers split: prod.splits bool.splits)

lemma put_inbound_channel: "put_inbound i n ms ch f = (ch', f') \<Longrightarrow>
    \<exists>ms'. ch' = ch\<lparr>hc_inbound := ms'\<rparr> \<and> length ms' \<le> length ms"
  by (induction ms arbitrary: f) (fastforce simp: Let_def split: prod.splits bool.splits)+

lemma host_ok_put_inbound: "put_inbound i n (hc_inbound ch) ch f = (ch', f') \<Longrightarrow> host_ok ch \<Longrightarrow> host_ok ch'"
  by (drule put_inbound_channel) (auto simp: host_ok_def budget_def results_ok_def)

lemma host_ok_fill_inbox:
  assumes "fill_inbox i n ch f = (ch', f')" "host_ok ch"
  shows "host_ok ch'"
proof -
  obtain ch1 f1 where a: "put_answers i n (hc_answers ch) ch f = (ch1, f1)" by fastforce
  obtain ch3 f2 where b: "put_dropped i n (hc_dropped (applyPolicies ch1)) (applyPolicies ch1) f1 = (ch3, f2)" by fastforce
  have "host_ok ch1" using a assms(2) host_ok_put_answers by blast
  moreover from this have "host_ok ch3" using b host_ok_applyPolicies host_ok_put_dropped by blast
  ultimately show ?thesis using assms(1) a b host_ok_put_inbound
    by (auto simp: fill_inbox_def Let_def split: if_splits)
qed

lemma host_ok_finishHostFrame: "finishHostFrame i ch t = (ch', t', out) \<Longrightarrow> host_ok ch \<Longrightarrow> host_ok ch'"
  by (auto simp: finishHostFrame_def Let_def host_ok_dispatched split: option.splits prod.splits
      dest!: host_ok_fill_inbox)

lemma drop_oldest_length:
  "drop_oldest ms d = (ms', d') \<Longrightarrow> length ms' \<le> MAX_INBOUND_MESSAGES"
  by (induction ms arbitrary: d) (auto split: if_splits)

lemma host_ok_pushMessage: "pushMessage ch kind vs = (ch', out) \<Longrightarrow> host_ok ch \<Longrightarrow> host_ok ch'"
  by (auto simp: pushMessage_def Let_def host_ok_def budget_def results_ok_def drop_oldest_length
      split: sum.splits if_splits prod.splits)

text \<open>The channel after \<open>n\<close> bytes of the kept result \<open>k\<close> were delivered.\<close>

definition fetched :: "host_channel \<Rightarrow> nat \<Rightarrow> kept_result \<Rightarrow> nat \<Rightarrow> host_channel" where
  "fetched ch k rec n =
    ch\<lparr>hc_results := (if kr_remaining rec - int n = 0 then mdelete (hc_results ch) k
                      else mset (hc_results ch) k (rec\<lparr>kr_remaining := kr_remaining rec - int n\<rparr>))\<rparr>"

lemma fetchResult_Inl: "fetchResult ch eff t = (ch', t', Inl e) \<Longrightarrow> ch' = ch \<and> t' = release_span t (first_span eff)"
  by (auto simp: fetchResult_def Let_def split: option.splits sum.splits if_splits)

lemma result_of_Some: "result_of ch n = Some (k, rec) \<longleftrightarrow> n = IntV (int k) \<and> mget (hc_results ch) k = Some rec"
  by (auto simp: result_of_def split: jnum.splits)

lemma fetchResult_Inr:
  assumes "fetchResult ch eff t = (ch', t', Inr n)"
  obtains k rec i view entry off where
    "he_result eff = IntV (int k)" "mget (hc_results ch) k = Some rec"
    "he_index eff = IntV i" "array_at (kr_views rec) (i - 1) = Some view"
    "lease t (span_lease (first_span eff)) Undef True = Inr entry" "n = length (le_view entry)"
    "he_offset eff = IntV (int off)" "off + n \<le> length view" "ch' = fetched ch k rec n"
    "t' = release_span (write_view t (le_id entry) 0 (take n (drop off view))) (first_span eff)"
proof -
  obtain k rec where r: "result_of ch (he_result eff) = Some (k, rec)"
    using assms by (auto simp: fetchResult_def Let_def split: option.splits)
  obtain i view where v: "he_index eff = IntV i" "array_at (kr_views rec) (i - 1) = Some view"
    using assms r by (auto simp: fetchResult_def Let_def split: option.splits jnum.splits)
  obtain entry where e: "lease t (span_lease (first_span eff)) Undef True = Inr entry"
    using assms r v by (auto simp: fetchResult_def Let_def split: sum.splits)
  obtain o' where o: "he_offset eff = IntV o'" "0 \<le> o'" "o' + int (length (le_view entry)) \<le> int (length view)"
    using assms r v e by (auto simp: fetchResult_def Let_def isInteger_iff split: if_splits)
  show thesis
    by (rule that [of k rec i view entry "nat o'"])
      (use assms r v e o in \<open>auto simp: fetchResult_def Let_def result_of_Some fetched_def split: if_splits\<close>)
qed

lemma host_ok_fetched: "host_ok ch \<Longrightarrow> mget (hc_results ch) k = Some rec \<Longrightarrow> host_ok (fetched ch k rec n)"
  using host_ok_delete_result [of ch k]
  by (auto simp: fetched_def host_ok_def results_ok_def budget_def mkeys_mset_present)

lemma host_ok_fetchResult: "fetchResult ch eff t = (ch', t', out) \<Longrightarrow> host_ok ch \<Longrightarrow> host_ok ch'"
  by (cases out) (auto dest: fetchResult_Inl elim: fetchResult_Inr host_ok_fetched)

subsection \<open>Closing\<close>

definition answer_releases :: "answer_item \<Rightarrow> host_event list" where
  "answer_releases item =
    (case an_body item of Failure e \<Rightarrow> [] | Success vs rel results \<Rightarrow> if rel then [Released results] else [])"

definition kept_releases :: "kept_result \<Rightarrow> host_event list" where
  "kept_releases rec = (if kr_release rec then [Released (kr_values rec)] else [])"

lemma release_answers_log: "release_answers items ch = log ch (concat (map answer_releases items))"
  by (induction items arbitrary: ch) (auto simp: log_def releaseResult_def answer_releases_def split: answer_body.splits)

lemma release_kept_log: "release_kept rs ch = log ch (concat (map kept_releases rs))"
  by (induction rs arbitrary: ch) (auto simp: log_def releaseResult_def kept_releases_def)

definition close_events :: "host_channel \<Rightarrow> host_event list" where
  "close_events ch =
     map (\<lambda>i. Aborted i (js ''the application finished'')) (mkeys (hc_inflight ch)) @
     concat (map answer_releases (hc_answers ch)) @ concat (map kept_releases (mvalues (hc_results ch))) @
     (if hc_notify ch then [Notified] else []) @ (if hc_end ch then [EndCalled] else [])"

lemma closeHostChannel_open:
  "\<not> hc_closed ch \<Longrightarrow> closeHostChannel ch =
     ch\<lparr>hc_closed := True, hc_inflight := [], hc_answers := [], hc_results := [], hc_uploads := [],
        hc_reassembled := 0, hc_notify := False, hc_log := hc_log ch @ close_events ch\<rparr>"
  by (cases ch) (simp add: closeHostChannel_def release_answers_log release_kept_log wake_def log_def close_events_def Let_def)

lemma host_ok_closeHostChannel: "host_ok ch \<Longrightarrow> host_ok (closeHostChannel ch)"
  by (cases "hc_closed ch")
    (simp add: closeHostChannel_def, simp add: closeHostChannel_open host_ok_def budget_def results_ok_def mkeys_def)

section \<open>Every reachable state\<close>

inductive host_step :: "host_channel \<Rightarrow> host_channel \<Rightarrow> bool" where
  begin_frame: "host_step ch (beginHostFrame call parse eff spans ch t)"
| finish_frame: "finishHostFrame i ch t = (ch', t', out) \<Longrightarrow> host_step ch ch'"
| settle_call: "host_step ch (settleCall ch i name outcome)"
| settle_one_way: "host_step ch (settleOneWay ch name post outcome)"
| push_message: "pushMessage ch kind vs = (ch', res) \<Longrightarrow> host_step ch ch'"
| microtask: "host_step ch (run_microtask ch)"
| await_ready: "host_step ch (onHostFrameReady ch n)"
| bulk: "performHostEffect ch eff t = (ch', t', reply) \<Longrightarrow> host_step ch ch'"
| finish_session: "host_step ch (closeHostChannel ch)"

inductive host_reachable :: "host_channel \<Rightarrow> bool" where
  created: "createHostChannel host = Inr ch \<Longrightarrow> host_reachable ch"
| stepped: "host_reachable ch \<Longrightarrow> host_step ch ch' \<Longrightarrow> host_reachable ch'"

inductive_cases host_stepE: "host_step ch ch'"

lemma host_ok_performHostEffect: "performHostEffect ch eff t = (ch', t', reply) \<Longrightarrow> host_ok ch \<Longrightarrow> host_ok ch'"
  by (auto simp: performHostEffect_def split: if_splits prod.splits dest: host_ok_fetchResult host_ok_receiveUpload)

lemma host_ok_step: "host_step ch ch' \<Longrightarrow> host_ok ch \<Longrightarrow> host_ok ch'"
proof (induction rule: host_step.induct)
  case (microtask ch)
  then show ?case by (rule host_ok_keep) (simp add: run_microtask_def ledger_simps)
next
  case (await_ready ch n)
  then show ?case by (rule host_ok_keep) (simp add: onHostFrameReady_def ledger_simps)
qed (auto simp: host_ok_beginHostFrame host_ok_closeHostChannel
      dest: host_ok_finishHostFrame host_ok_pushMessage host_ok_performHostEffect
      intro: host_ok_keep [OF _ ledger_settleCall] host_ok_keep [OF _ ledger_settleOneWay])

lemma host_ok_created: "createHostChannel host = Inr ch \<Longrightarrow> host_ok ch"
  by (auto simp: createHostChannel_def Let_def host_ok_def budget_def results_ok_def mkeys_def
      split: option.splits if_splits)

lemma host_ok_reachable: "host_reachable ch \<Longrightarrow> host_ok ch"
  by (induction rule: host_reachable.induct) (auto intro: host_ok_created host_ok_step)

definition sample_option :: host_option where
  "sample_option = \<lparr>ho_handlers = Some [(js ''page.read'', HandlerObject True)], ho_max = Undef,
     ho_end = Callback, ho_start = NoCallback\<rparr>"

definition sample_channel :: host_channel where
  "sample_channel = \<lparr>hc_handlers = [(js ''page.read'', True)], hc_end = True,
     hc_reassemblyLimit = DEFAULT_REASSEMBLY_BYTES, hc_reassembled = 0,
     hc_uploads = [], hc_results = [], hc_inflight = [], hc_answers = [], hc_inbound = [],
     hc_dropped = [], hc_routes = [], hc_frames = [], hc_notify = False,
     hc_wakeScheduled = False, hc_nextResult = 1, hc_closed = False, hc_log = []\<rparr>"

lemma sample_kind: "checkedKind (js ''page.read'') = Inr (js ''page.read'')"
  by code_simp

lemma sample_channel_created: "createHostChannel (Some sample_option) = Inr sample_channel"
  by (simp add: createHostChannel_def sample_option_def sample_channel_def normalizedHandlers_def sample_kind
      mset_def DEFAULT_REASSEMBLY_BYTES_def max_safe_def)

text \<open>C7. In every state the page can reach, whatever frames, uploads, fetches, pushes, settlements
  and closes happen and in whatever order, the reassembly counter is exactly the sum of the
  sizes of the uploads still held and never exceeds the page's limit, no upload holds more than
  64 MiB or has received more than it announced, and at most 4096 inbound messages are queued.
\<close>
theorem host_budget_bounded:
  assumes "host_reachable ch"
  shows "hc_reassembled ch = msum up_total (hc_uploads ch) \<and> hc_reassembled ch \<le> hc_reassemblyLimit ch \<and>
    length (hc_inbound ch) \<le> MAX_INBOUND_MESSAGES \<and>
    (\<forall>k up. mget (hc_uploads ch) k = Some up \<longrightarrow>
       length (up_bytes up) = up_total up \<and> up_received up \<le> up_total up \<and> up_total up \<le> MAX_OUTBOUND_BYTES)"
proof -
  have "host_ok ch" using assms by (rule host_ok_reachable)
  then show ?thesis using upload_ok_in [of ch] by (auto simp: host_ok_def budget_def upload_ok_def)
qed

theorem host_budget_bounded_witness:
  "hc_reassembled (closeHostChannel sample_channel) = msum up_total (hc_uploads (closeHostChannel sample_channel)) \<and>
   length (hc_inbound (closeHostChannel sample_channel)) \<le> MAX_INBOUND_MESSAGES"
  using host_budget_bounded [of "closeHostChannel sample_channel"]
    stepped [OF created [OF sample_channel_created] finish_session] by simp

section \<open>The layout of the inbox\<close>

definition inbox_holds :: "int \<Rightarrow> nat \<Rightarrow> transfers \<Rightarrow> filling \<Rightarrow> byte list \<Rightarrow> bool" where
  "inbox_holds i n t f bs \<longleftrightarrow> fi_written f = length bs \<and> length bs \<le> n \<and> fi_transfers f = write_view t i 0 bs"

lemma write_view_append:
  assumes "mget t i = Some e" "length x \<le> length (le_view e)"
  shows "write_view (write_view t i 0 x) i (length x) y = write_view t i 0 (x @ y)"
  using assms by (simp add: write_view_def blit_def add.commute)

lemma put_spec:
  assumes "put i n bs f = (f1, ok)" "inbox_holds i n t f bs0" "mget t i = Some e" "n = length (le_view e)" "fi_more f = 0"
  shows "if ok then inbox_holds i n t f1 (bs0 @ bs) \<and> fi_more f1 = 0
         else inbox_holds i n t f1 bs0 \<and> fi_more f1 = length bs \<and> n < length bs0 + length bs \<and> 0 < length bs"
  using assms by (auto simp: put_def inbox_holds_def write_view_append split: if_splits)

fun encode_all :: "host_channel \<Rightarrow> answer_item list \<Rightarrow> byte list list" where
  "encode_all ch [] = []"
| "encode_all ch (item # items) = (case encoded_answer ch item of (ch1, bs) \<Rightarrow> bs # encode_all ch1 items)"

lemma length_encode_all [simp]: "length (encode_all ch items) = length items"
  by (induction items arbitrary: ch) (auto split: prod.splits)

text \<open>What filling a queue does: it writes the first \<open>k\<close> records, and a record that does not fit stops it.\<close>

definition fills :: "int \<Rightarrow> nat \<Rightarrow> transfers \<Rightarrow> byte list list \<Rightarrow> byte list \<Rightarrow> filling \<Rightarrow> nat \<Rightarrow> bool" where
  "fills i n t records bs0 f' k \<longleftrightarrow> k \<le> length records \<and> inbox_holds i n t f' (bs0 @ concat (take k records)) \<and>
     fi_more f' = (if k = length records then 0 else length (records ! k)) \<and>
     (k < length records \<longrightarrow> n < fi_written f' + fi_more f' \<and> 0 < fi_more f')"

lemma fills_Nil: "inbox_holds i n t f bs0 \<Longrightarrow> fi_more f = 0 \<Longrightarrow> fills i n t [] bs0 f 0"
  by (simp add: fills_def)

lemma fills_Cons: "fills i n t records (bs0 @ bs) f' k \<Longrightarrow> fills i n t (bs # records) bs0 f' (Suc k)"
  by (auto simp: fills_def)

lemma fills_stop:
  "inbox_holds i n t f' bs0 \<Longrightarrow> fi_more f' = length bs \<Longrightarrow> n < length bs0 + length bs \<Longrightarrow> 0 < length bs \<Longrightarrow>
   fills i n t (bs # records) bs0 f' 0"
  by (auto simp: fills_def inbox_holds_def)

lemma encoded_answer_other:
  assumes "encoded_answer ch item = (ch', bs)"
  shows "hc_inbound ch' = hc_inbound ch" "hc_dropped ch' = hc_dropped ch" "hc_routes ch' = hc_routes ch"
  using assms encodeAnswer_other [of ch item ch' bs] by (auto simp: encoded_answer_def split: option.splits)

definition answer_core :: "answer_item \<Rightarrow> nat \<times> answer_body" where
  "answer_core item = (an_id item, an_body item)"

definition message_core :: "message_item \<Rightarrow> jstr \<times> tagged list" where
  "message_core m = (ms_kind m, ms_values m)"

lemma put_answers_fills:
  assumes "put_answers i n items ch f = (ch', f')" "inbox_holds i n t f bs0" "fi_more f = 0"
    and e: "mget t i = Some e" "n = length (le_view e)"
  shows "\<exists>k. fills i n t (encode_all ch items) bs0 f' k \<and>
     map answer_core (hc_answers ch') = map answer_core (drop k items) \<and>
     hc_inbound ch' = hc_inbound ch \<and> hc_dropped ch' = hc_dropped ch \<and> hc_routes ch' = hc_routes ch"
  using assms(1-3)
proof (induction items arbitrary: ch f bs0)
  case Nil
  then show ?case by (intro exI [of _ 0]) (auto simp: fills_Nil)
next
  case (Cons item items)
  obtain ch1 bs where a: "encoded_answer ch item = (ch1, bs)" by fastforce
  obtain f1 ok where p: "put i n bs f = (f1, ok)" by fastforce
  note s = put_spec [OF p Cons.prems(2) e Cons.prems(3)]
  show ?case
  proof (cases ok)
    case True
    with Cons.prems a p have rec: "put_answers i n items ch1 f1 = (ch', f')" by (simp add: put_answers_Cons)
    obtain k where "fills i n t (encode_all ch1 items) (bs0 @ bs) f' k"
      "map answer_core (hc_answers ch') = map answer_core (drop k items)"
      "hc_inbound ch' = hc_inbound ch1" "hc_dropped ch' = hc_dropped ch1" "hc_routes ch' = hc_routes ch1"
      using Cons.IH [OF rec] s True by auto
    then show ?thesis using a encoded_answer_other [OF a]
      by (intro exI [of _ "Suc k"]) (auto dest: fills_Cons)
  next
    case False
    with Cons.prems a p have "ch' = ch1\<lparr>hc_answers := item\<lparr>an_encoded := Some bs\<rparr> # items\<rparr>" "f' = f1"
      by (simp_all add: put_answers_Cons)
    then show ?thesis using a s False encoded_answer_other [OF a]
      by (intro exI [of _ 0]) (auto simp: fills_stop answer_core_def)
  qed
qed

lemma put_dropped_fills:
  assumes "put_dropped i n ds ch f = (ch', f')" "inbox_holds i n t f bs0" "fi_more f = 0"
    and e: "mget t i = Some e" "n = length (le_view e)"
  shows "\<exists>k. fills i n t (map (\<lambda>(kind, c). encodeDropped kind c) ds) bs0 f' k \<and>
     (\<forall>kind. mget (hc_dropped ch') kind = (if kind \<in> fst ` set (take k ds) then None else mget (hc_dropped ch) kind)) \<and>
     hc_inbound ch' = hc_inbound ch \<and> hc_answers ch' = hc_answers ch"
  using assms(1-3)
proof (induction ds arbitrary: ch f bs0)
  case Nil
  then show ?case by (intro exI [of _ 0]) (auto simp: fills_Nil)
next
  case (Cons d ds)
  obtain kind c where d: "d = (kind, c)" by (cases d)
  obtain f1 ok where p: "put i n (encodeDropped kind c) f = (f1, ok)" by fastforce
  note s = put_spec [OF p Cons.prems(2) e Cons.prems(3)]
  show ?case
  proof (cases ok)
    case True
    let ?ch = "ch\<lparr>hc_dropped := mdelete (hc_dropped ch) kind\<rparr>"
    from True Cons.prems d p have rec: "put_dropped i n ds ?ch f1 = (ch', f')" by simp
    obtain k where "fills i n t (map (\<lambda>(kind, c). encodeDropped kind c) ds) (bs0 @ encodeDropped kind c) f' k"
      "\<forall>kd. mget (hc_dropped ch') kd = (if kd \<in> fst ` set (take k ds) then None else mget (hc_dropped ?ch) kd)"
      "hc_inbound ch' = hc_inbound ch" "hc_answers ch' = hc_answers ch"
      using Cons.IH [OF rec] s True by auto
    then show ?thesis using d by (intro exI [of _ "Suc k"]) (auto dest: fills_Cons)
  next
    case False
    with Cons.prems d p s show ?thesis by (intro exI [of _ 0]) (auto simp: fills_stop)
  qed
qed

definition encoded_message :: "message_item \<Rightarrow> byte list" where
  "encoded_message m = (case ms_encoded m of Some bs \<Rightarrow> bs | None \<Rightarrow> encodeMessage m)"

lemma put_inbound_fills:
  assumes "put_inbound i n ms ch f = (ch', f')" "inbox_holds i n t f bs0" "fi_more f = 0"
    and e: "mget t i = Some e" "n = length (le_view e)"
  shows "\<exists>k. fills i n t (map encoded_message ms) bs0 f' k \<and>
     map message_core (hc_inbound ch') = map message_core (drop k ms) \<and>
     hc_dropped ch' = hc_dropped ch \<and> hc_answers ch' = hc_answers ch"
  using assms(1-3)
proof (induction ms arbitrary: f bs0)
  case Nil
  then show ?case by (intro exI [of _ 0]) (auto simp: fills_Nil)
next
  case (Cons m ms)
  obtain f1 ok where p: "put i n (encoded_message m) f = (f1, ok)" by fastforce
  note s = put_spec [OF p Cons.prems(2) e Cons.prems(3)]
  show ?case
  proof (cases ok)
    case True
    with Cons.prems p have rec: "put_inbound i n ms ch f1 = (ch', f')" by (simp add: encoded_message_def)
    obtain k where "fills i n t (map encoded_message ms) (bs0 @ encoded_message m) f' k"
      "map message_core (hc_inbound ch') = map message_core (drop k ms)"
      "hc_dropped ch' = hc_dropped ch" "hc_answers ch' = hc_answers ch"
      using Cons.IH [OF rec] s True by auto
    then show ?thesis by (intro exI [of _ "Suc k"]) (auto dest: fills_Cons)
  next
    case False
    with Cons.prems p have "ch' = ch\<lparr>hc_inbound := m\<lparr>ms_encoded := Some (encoded_message m)\<rparr> # ms\<rparr>" "f' = f1"
      by (simp_all add: encoded_message_def)
    then show ?thesis using s False by (intro exI [of _ 0]) (auto simp: fills_stop message_core_def)
  qed
qed

lemma applyPolicies_cong:
  assumes "hc_inbound ch1 = hc_inbound ch" "hc_dropped ch1 = hc_dropped ch" "hc_routes ch1 = hc_routes ch"
  shows "hc_inbound (applyPolicies ch1) = hc_inbound (applyPolicies ch)"
    "hc_dropped (applyPolicies ch1) = hc_dropped (applyPolicies ch)"
  using assms by (simp_all add: applyPolicies_def split: prod.splits)

text \<open>The records a frame has ready, in the order they are written.\<close>

definition answer_records :: "host_channel \<Rightarrow> byte list list" where
  "answer_records ch = encode_all ch (hc_answers ch)"

definition dropped_records :: "host_channel \<Rightarrow> byte list list" where
  "dropped_records ch = map (\<lambda>(kind, c). encodeDropped kind c) (hc_dropped (applyPolicies ch))"

definition message_records :: "host_channel \<Rightarrow> byte list list" where
  "message_records ch = map encoded_message (hc_inbound (applyPolicies ch))"

lemma length_answer_records: "length (answer_records ch) = length (hc_answers ch)"
  by (simp add: answer_records_def)

lemmas record_defs = answer_records_def dropped_records_def message_records_def

text \<open>How many answers, drop counts and messages a frame delivered, and what is left.\<close>

definition delivered :: "host_channel \<Rightarrow> host_channel \<Rightarrow> nat \<Rightarrow> nat \<Rightarrow> nat \<Rightarrow> bool" where
  "delivered ch ch' na nd nm \<longleftrightarrow>
     na \<le> length (hc_answers ch) \<and> nd \<le> length (dropped_records ch) \<and> nm \<le> length (message_records ch) \<and>
     (na < length (hc_answers ch) \<longrightarrow> nd = 0 \<and> nm = 0 \<and> hc_inbound ch' = hc_inbound ch) \<and>
     (nd < length (dropped_records ch) \<longrightarrow> nm = 0) \<and>
     map answer_core (hc_answers ch') = map answer_core (drop na (hc_answers ch)) \<and>
     (na = length (hc_answers ch) \<longrightarrow>
        map message_core (hc_inbound ch') = map message_core (drop nm (hc_inbound (applyPolicies ch))) \<and>
        (\<forall>kind. mget (hc_dropped ch') kind =
           (if kind \<in> fst ` set (take nd (hc_dropped (applyPolicies ch))) then None
            else mget (hc_dropped (applyPolicies ch)) kind)))"

lemma fill_inbox_layout:
  assumes "fill_inbox i n ch f = (ch', f')" "inbox_holds i n t f []" "fi_more f = 0"
    and e: "mget t i = Some e" "n = length (le_view e)"
  shows "\<exists>na nd nm. delivered ch ch' na nd nm \<and>
     inbox_holds i n t f' (concat (take na (answer_records ch) @ take nd (dropped_records ch) @ take nm (message_records ch))) \<and>
     (fi_more f' = 0 \<longleftrightarrow> na = length (hc_answers ch) \<and> nd = length (dropped_records ch) \<and> nm = length (message_records ch)) \<and>
     (fi_more f' \<noteq> 0 \<longrightarrow> n < fi_written f' + fi_more f')"
proof -
  obtain ch1 f1 where a: "put_answers i n (hc_answers ch) ch f = (ch1, f1)" by fastforce
  obtain na where na: "fills i n t (answer_records ch) [] f1 na"
    "map answer_core (hc_answers ch1) = map answer_core (drop na (hc_answers ch))"
    and same: "hc_inbound ch1 = hc_inbound ch" "hc_dropped ch1 = hc_dropped ch" "hc_routes ch1 = hc_routes ch"
    using put_answers_fills [OF a assms(2,3) e] unfolding answer_records_def by blast
  show ?thesis
  proof (cases "na = length (hc_answers ch)")
    case False
    with na have "fi_more f1 \<noteq> 0" "n < fi_written f1 + fi_more f1" "na < length (hc_answers ch)"
      by (auto simp: fills_def answer_records_def)
    with False a na same assms(1) show ?thesis
      by (intro exI [of _ na] exI [of _ 0]) (auto simp: fill_inbox_def delivered_def fills_def)
  next
    case all: True
    let ?p = "applyPolicies ch1"
    obtain ch3 f2 where b: "put_dropped i n (hc_dropped ?p) ?p f1 = (ch3, f2)" by fastforce
    have more1: "fi_more f1 = 0" and h1: "inbox_holds i n t f1 (concat (answer_records ch))"
      using na all by (auto simp: fills_def answer_records_def)
    obtain nd where nd: "fills i n t (dropped_records ch) (concat (answer_records ch)) f2 nd"
      "\<forall>kind. mget (hc_dropped ch3) kind =
         (if kind \<in> fst ` set (take nd (hc_dropped (applyPolicies ch))) then None else mget (hc_dropped (applyPolicies ch)) kind)"
      "hc_inbound ch3 = hc_inbound (applyPolicies ch)" "hc_answers ch3 = hc_answers ch1"
      using put_dropped_fills [OF b h1 more1 e] applyPolicies_cong [OF same] by (auto simp: dropped_records_def)
    show ?thesis
    proof (cases "nd = length (dropped_records ch)")
      case False
      with nd have "fi_more f2 \<noteq> 0" "n < fi_written f2 + fi_more f2" "nd < length (dropped_records ch)"
        by (auto simp: fills_def)
      with False all a b na nd more1 assms(1) show ?thesis
        by (intro exI [of _ na] exI [of _ nd] exI [of _ 0])
          (auto simp: fill_inbox_def delivered_def fills_def answer_records_def)
    next
      case alld: True
      have more2: "fi_more f2 = 0" and h2: "inbox_holds i n t f2 (concat (answer_records ch) @ concat (dropped_records ch))"
        using nd alld by (auto simp: fills_def)
      have c: "put_inbound i n (hc_inbound (applyPolicies ch)) ch3 f2 = (ch', f')"
        using assms(1) a b more1 more2 nd(3) by (simp add: fill_inbox_def)
      obtain nm where nm: "fills i n t (message_records ch) (concat (answer_records ch) @ concat (dropped_records ch)) f' nm"
        "map message_core (hc_inbound ch') = map message_core (drop nm (hc_inbound (applyPolicies ch)))"
        "hc_dropped ch' = hc_dropped ch3" "hc_answers ch' = hc_answers ch3"
        using put_inbound_fills [OF c h2 more2 e] by (auto simp: message_records_def)
      have "delivered ch ch' na nd nm"
        using all alld na nd nm by (simp add: delivered_def fills_def)
      moreover have "inbox_holds i n t f'
          (concat (take na (answer_records ch) @ take nd (dropped_records ch) @ take nm (message_records ch)))"
        using all alld nm(1) by (simp add: fills_def answer_records_def)
      moreover have "fi_more f' = 0 \<longleftrightarrow> nm = length (message_records ch)" "fi_more f' \<noteq> 0 \<longrightarrow> n < fi_written f' + fi_more f'"
        using nm(1) by (auto simp: fills_def)
      ultimately show ?thesis using all alld by (intro exI [of _ na] exI [of _ nd] exI [of _ nm]) simp
    qed
  qed
qed

lemma encoded_answer_frames:
  "encoded_answer (ch\<lparr>hc_frames := x\<rparr>) item = (case encoded_answer ch item of (ch1, bs) \<Rightarrow> (ch1\<lparr>hc_frames := x\<rparr>, bs))"
  by (simp add: encoded_answer_def encodeAnswer_def Let_def split: option.splits answer_body.splits)

lemma encode_all_frames: "encode_all (ch\<lparr>hc_frames := x\<rparr>) items = encode_all ch items"
  by (induction items arbitrary: ch) (auto simp: encoded_answer_frames split: prod.splits)

lemma policies_frames:
  "hc_inbound (applyPolicies (ch\<lparr>hc_frames := x\<rparr>)) = hc_inbound (applyPolicies ch)"
  "hc_dropped (applyPolicies (ch\<lparr>hc_frames := x\<rparr>)) = hc_dropped (applyPolicies ch)"
  by (rule applyPolicies_cong; simp)+

lemma records_frames:
  "answer_records (ch\<lparr>hc_frames := x\<rparr>) = answer_records ch"
  "dropped_records (ch\<lparr>hc_frames := x\<rparr>) = dropped_records ch"
  "message_records (ch\<lparr>hc_frames := x\<rparr>) = message_records ch"
  "delivered (ch\<lparr>hc_frames := x\<rparr>) ch' = delivered ch ch'"
  "hc_answers (ch\<lparr>hc_frames := x\<rparr>) = hc_answers ch"
  by (simp_all add: record_defs encode_all_frames policies_frames delivered_def fun_eq_iff)

lemma write_view_Nil: "mget t i = Some e \<Longrightarrow> write_view t i 0 [] = t"
  by (simp add: write_view_def blit_def mset_same)

text \<open>Finishing a frame writes into its inbox, from the start and without ever passing its end,
  the ready records in order: answers first, then the drop counts, then the inbound messages
  the policies keep. What is written is a prefix of those records, the rest stays queued in
  order, the lease is released, and the reply carries no \<open>more\<close> exactly when nothing is left;
  otherwise \<open>more\<close> is the size of the record that did not fit.
\<close>
theorem inbox_layout:
  assumes "mget (hc_frames ch) eid = Some \<lparr>fr_lease = Some entry, fr_inbox = Some span, fr_failure = None\<rparr>"
    and "mget t (le_id entry) = Some entry"
    and "finishHostFrame eid ch t = (ch', t', out)"
  shows "\<exists>na nd nm bs w. out = Inr w \<and> delivered ch ch' na nd nm \<and>
     bs = concat (take na (answer_records ch) @ take nd (dropped_records ch) @ take nm (message_records ch)) \<and>
     wa_written w = length bs \<and> length bs \<le> length (le_view entry) \<and>
     t' = release (write_view t (le_id entry) 0 bs) (ib_lease span) \<and>
     (wa_more w = None \<longleftrightarrow> na = length (answer_records ch) \<and> nd = length (dropped_records ch) \<and> nm = length (message_records ch)) \<and>
     (\<forall>k. wa_more w = Some k \<longrightarrow> length (le_view entry) < length bs + k)"
proof -
  let ?ch = "ch\<lparr>hc_frames := mdelete (hc_frames ch) eid\<rparr>"
  let ?f = "\<lparr>fi_transfers = t, fi_written = 0, fi_more = 0\<rparr>"
  let ?n = "length (le_view entry)"
  obtain f' where f: "fill_inbox (le_id entry) ?n ?ch ?f = (ch', f')" "t' = release (fi_transfers f') (ib_lease span)"
    "out = Inr \<lparr>wa_written = fi_written f', wa_more = (if fi_more f' > 0 then Some (fi_more f') else None)\<rparr>"
    using assms(1,3) by (auto simp: finishHostFrame_def Let_def split: prod.splits)
  have h: "inbox_holds (le_id entry) ?n t ?f []" "fi_more ?f = 0"
    using assms(2) by (simp_all add: inbox_holds_def write_view_Nil)
  from fill_inbox_layout [OF f(1) h assms(2) refl, unfolded records_frames] obtain na nd nm where
    l: "delivered ch ch' na nd nm"
    "inbox_holds (le_id entry) ?n t f' (concat (take na (answer_records ch) @ take nd (dropped_records ch) @ take nm (message_records ch)))"
    "fi_more f' = 0 \<longleftrightarrow> na = length (hc_answers ch) \<and> nd = length (dropped_records ch) \<and> nm = length (message_records ch)"
    "fi_more f' \<noteq> 0 \<longrightarrow> ?n < fi_written f' + fi_more f'"
    by (elim exE conjE) (rule that)
  show ?thesis
    by (rule exI [of _ na], rule exI [of _ nd], rule exI [of _ nm],
        rule exI [of _ "concat (take na (answer_records ch) @ take nd (dropped_records ch) @ take nm (message_records ch))"],
        rule exI [of _ "\<lparr>wa_written = fi_written f', wa_more = (if fi_more f' > 0 then Some (fi_more f') else None)\<rparr>"])
      (use f(2,3) l in \<open>cases "fi_more f' = 0"; simp add: inbox_holds_def length_answer_records\<close>)
qed

definition sample_answer :: answer_item where
  "sample_answer = \<lparr>an_id = 7, an_body = Success [TTrue] False AnsweredNothing, an_encoded = None\<rparr>"

definition sample_entry :: lease_entry where
  "sample_entry = \<lparr>le_id = 3, le_bytes = 16, le_writable = True, le_view = replicate 16 0, le_released = False\<rparr>"

definition sample_frame :: host_channel where
  "sample_frame = sample_channel\<lparr>hc_answers := [sample_answer],
     hc_frames := [(4, \<lparr>fr_lease = Some sample_entry, fr_inbox = Some \<lparr>ib_lease = IntV 3, ib_bytes = IntV 16\<rparr>, fr_failure = None\<rparr>)]\<rparr>"

theorem inbox_layout_witness:
  "\<exists>w. snd (snd (finishHostFrame 4 sample_frame [(3, sample_entry)])) = Inr w \<and> wa_written w \<le> 16"
proof -
  obtain ch' t' out where f: "finishHostFrame 4 sample_frame [(3, sample_entry)] = (ch', t', out)"
    by (metis prod_cases3)
  show ?thesis
    using inbox_layout [OF _ _ f, of sample_entry "\<lparr>ib_lease = IntV 3, ib_bytes = IntV 16\<rparr>"] f
    by (auto simp: sample_frame_def mget_Cons sample_entry_def)
qed

end
