(* ===== verification/Host_Requests.thy ===== *)
theory Host_Requests
  imports Host_Protocol
begin

text \<open>
  The requests of the host channel end to end: which kinds are accepted, how request values
  survive the wire, how a chunked upload is reassembled and consumed, how a large result is
  fetched, that every call is answered once, and what closing releases.
\<close>

section \<open>Kinds\<close>

fun split_dots :: "jstr \<Rightarrow> jstr list" where
  "split_dots [] = [[]]"
| "split_dots (c # cs) = (if c = 46 then [] # split_dots cs else (c # hd (split_dots cs)) # tl (split_dots cs))"

fun dots_ok :: "jstr \<Rightarrow> bool" where
  "dots_ok [] = False"
| "dots_ok [c] = kind_char c"
| "dots_ok (c # d # cs) = (kind_char c \<and> (if d = 46 then dots_ok cs else dots_ok (d # cs)))"

lemma split_dots_nonempty [simp]: "split_dots s \<noteq> []"
  by (induction s) auto

lemma kind_char_dot [simp]: "\<not> kind_char 46"
  by (simp add: kind_char_def word_char_def)

abbreviation segments_ok :: "jstr list \<Rightarrow> bool" where
  "segments_ok \<equiv> list_all (\<lambda>s. s \<noteq> [] \<and> list_all kind_char s)"

lemma list_all_hd_tl: "xs \<noteq> [] \<Longrightarrow> list_all P xs \<longleftrightarrow> P (hd xs) \<and> list_all P (tl xs)"
  by (cases xs) auto

lemma dots_ok_segments: "dots_ok s \<longleftrightarrow> segments_ok (split_dots s)"
proof (induction s rule: dots_ok.induct)
  case (3 c d cs)
  then show ?case by (auto simp: list_all_hd_tl [OF split_dots_nonempty])
qed auto

lemma dots_ok_chars:
  "dots_ok s \<longleftrightarrow> s \<noteq> [] \<and> hd s \<noteq> 46 \<and> last s \<noteq> 46 \<and> \<not> has_double_dot s \<and> list_all (\<lambda>c. kind_char c \<or> c = 46) s"
proof (induction s rule: dots_ok.induct)
  case (3 c d cs)
  then show ?case by (cases cs) auto
qed auto

lemma hd_split_dots: "hd (split_dots s) = takeWhile (\<lambda>c. c \<noteq> 46) s"
  by (induction s) auto

lemma length_split_dots: "2 \<le> length (split_dots s) \<longleftrightarrow> 46 \<in> set s"
proof (induction s)
  case (Cons c s)
  obtain x xs where "split_dots s = x # xs" by (cases "split_dots s") auto
  then show ?case using Cons by auto
qed simp

lemma first_dot: "46 \<in> set s \<Longrightarrow> s = takeWhile (\<lambda>c. c \<noteq> 46) s @ 46 # drop (Suc (length (takeWhile (\<lambda>c. c \<noteq> (46 :: nat)) s))) s"
  by (induction s) auto

lemma KIND_dots:
  assumes "46 \<in> set s" "\<not> has_double_dot s"
  shows "KIND s \<longleftrightarrow> dots_ok s"
proof -
  define p r where "p = takeWhile (\<lambda>c. c \<noteq> 46) s" and "r = drop (Suc (length p)) s"
  have s: "s = p @ 46 # r" unfolding p_def r_def by (rule first_dot [OF assms(1)])
  have p: "\<forall>c \<in> set p. c \<noteq> 46" unfolding p_def by (auto dest: set_takeWhileD)
  then have all: "list_all (\<lambda>c. kind_char c \<or> c = 46) p \<longleftrightarrow> list_all kind_char p"
    by (auto simp: list_all_iff)
  have "KIND s \<longleftrightarrow> p \<noteq> [] \<and> list_all kind_char p \<and> r \<noteq> [] \<and> list_all (\<lambda>c. kind_char c \<or> c = 46) r \<and> kind_char (last r)"
    using assms(1) by (simp add: KIND_def p_def r_def Let_def)
  moreover have "dots_ok s \<longleftrightarrow> p \<noteq> [] \<and> list_all kind_char p \<and> r \<noteq> [] \<and> list_all (\<lambda>c. kind_char c \<or> c = 46) r \<and> last r \<noteq> 46"
    using assms(2) p all unfolding dots_ok_chars by (subst (1 2 3 5) s) (cases p; cases "r = []"; auto simp: hd_append)
  ultimately show ?thesis by (auto simp: list_all_iff)
qed

lemma starts_reserved:
  assumes "46 \<in> set s"
  shows "starts_with (js ''nupp.'') s \<longleftrightarrow> takeWhile (\<lambda>c. c \<noteq> 46) s = js ''nupp''"
proof
  assume "starts_with (js ''nupp.'') s"
  then have t: "take 5 s = [110, 117, 112, 112, 46]" by (simp add: starts_with_def js_def eval_nat_numeral)
  have "s = [110, 117, 112, 112, 46] @ drop 5 s" unfolding t [symmetric] by (rule append_take_drop_id [symmetric])
  then obtain r where "s = [110, 117, 112, 112, 46] @ r" ..
  then show "takeWhile (\<lambda>c. c \<noteq> 46) s = js ''nupp''" by (simp add: js_def)
next
  assume "takeWhile (\<lambda>c. c \<noteq> 46) s = js ''nupp''"
  with first_dot [OF assms] obtain r where "s = js ''nupp'' @ 46 # r" by metis
  then show "starts_with (js ''nupp.'') s" by (simp add: starts_with_def js_def)
qed

text \<open>A host kind is accepted exactly when it is at most 128 units long and consists of at
  least two dot-separated names, none of them empty, written in letters, digits, underscore
  and hyphen, the first of which is not the runtime's own \<open>nupp\<close>; the regular expression,
  the test for two adjacent dots and the reserved prefix together say just that.
\<close>
theorem kind_accepted_iff:
  "is_ok (checkedKind name) \<longleftrightarrow> length name \<le> 128 \<and> 2 \<le> length (split_dots name) \<and>
     segments_ok (split_dots name) \<and> hd (split_dots name) \<noteq> js ''nupp''"
proof (cases "46 \<in> set name")
  case True
  show ?thesis
  proof (cases "has_double_dot name")
    case True
    then have "\<not> dots_ok name" by (simp add: dots_ok_chars)
    with True show ?thesis by (simp add: checkedKind_def dots_ok_segments)
  next
    case False
    with True show ?thesis
      by (simp add: checkedKind_def KIND_dots dots_ok_segments length_split_dots hd_split_dots starts_reserved)
  qed
next
  case False
  then show ?thesis by (simp add: checkedKind_def length_split_dots KIND_def Let_def)
qed

section \<open>Values on the wire\<close>

fun value_wire :: "tagged \<Rightarrow> byte list" where
  "value_wire TNil = [0]"
| "value_wire TFalse = [1]"
| "value_wire TTrue = [2]"
| "value_wire (TNumber x) = 3 # Codec.le_bytes 8 (unat x)"
| "value_wire (TString bs) = 4 # Codec.le_bytes 4 (length bs) @ bs"
| "value_wire (TBytes bs) = 5 # Codec.le_bytes 4 (length bs) @ bs"
| "value_wire (TFetch n) = 7 # Codec.le_bytes 4 n"

lemma writeValue_wire [simp]:
  assumes "wf_writer w"
  shows "wf_writer (writeValue v w)" "wr_result (writeValue v w) = wr_result w @ value_wire v"
  using assms by (cases v; simp)+

lemma write_values_wire:
  "wf_writer w \<Longrightarrow> wf_writer (fold writeValue vs w) \<and> wr_result (fold writeValue vs w) = wr_result w @ concat (map value_wire vs)"
  by (induction vs arbitrary: w) auto

text \<open>The JavaScript value a tagged value stands for.\<close>

fun stands_for :: "tagged \<Rightarrow> jval \<Rightarrow> bool" where
  "stands_for TNil JNull = True"
| "stands_for TFalse (JBool b) = (\<not> b)"
| "stands_for TTrue (JBool b) = b"
| "stands_for (TNumber x) (JNum y) = (x = y)"
| "stands_for (TString bs) (JStr s) = (decode_text bs = Inr s \<and> length bs < 2 ^ 32)"
| "stands_for (TBytes bs) (JBytes cs) = (bs = cs \<and> length bs < 2 ^ 32)"
| "stands_for _ _ = False"

definition holds :: "byte list \<Rightarrow> nat \<Rightarrow> byte list \<Rightarrow> bool" where
  "holds buf n bs \<longleftrightarrow> (\<exists>pre post. buf = pre @ bs @ post \<and> n = length pre)"

lemma holds_append: "holds buf n (xs @ ys) \<longleftrightarrow> holds buf n xs \<and> holds buf (n + length xs) ys"
proof
  assume "holds buf n (xs @ ys)"
  then obtain pre post where "buf = pre @ xs @ ys @ post" "n = length pre" by (auto simp: holds_def)
  then have "buf = pre @ xs @ (ys @ post)" "buf = (pre @ xs) @ ys @ post" "n + length xs = length (pre @ xs)" by simp_all
  then show "holds buf n xs \<and> holds buf (n + length xs) ys" unfolding holds_def using \<open>n = length pre\<close> by blast
next
  assume h: "holds buf n xs \<and> holds buf (n + length xs) ys"
  obtain pre post where "buf = pre @ xs @ post" "n = length pre" using h unfolding holds_def by blast
  moreover obtain p2 q2 where "buf = p2 @ ys @ q2" "n + length xs = length p2" using h unfolding holds_def by blast
  ultimately have "p2 = pre @ xs" "post = ys @ q2" using append_eq_append_conv [of "pre @ xs" p2 post "ys @ q2"] by auto
  then show "holds buf n (xs @ ys)" using \<open>buf = pre @ xs @ post\<close> \<open>n = length pre\<close> unfolding holds_def by auto
qed

lemma reads_holds:
  "reads f bs x \<Longrightarrow> holds buf n bs \<Longrightarrow> f \<lparr>rd_buffer = buf, rd_at = n\<rparr> = Inr (x, \<lparr>rd_buffer = buf, rd_at = n + length bs\<rparr>)"
  by (auto simp: reads_def holds_def)

lemma reads_tag: "reads rd_u8 [b] (unat b)"
  using reads_uint [of "unat b" 1] unat_byte [of b] by simp

lemma tag_holds: "holds buf n [b] \<Longrightarrow> rd_u8 \<lparr>rd_buffer = buf, rd_at = n\<rparr> = Inr (unat b, \<lparr>rd_buffer = buf, rd_at = Suc n\<rparr>)"
  using reads_holds [OF reads_tag] by simp

lemma read_value_wire:
  assumes "stands_for v a" "holds buf n (value_wire v)"
  shows "read_value i ch \<lparr>rd_buffer = buf, rd_at = n\<rparr> = (ch, Inr (a, \<lparr>rd_buffer = buf, rd_at = n + length (value_wire v)\<rparr>))"
proof -
  have u32: "rd_u32 \<lparr>rd_buffer = buf, rd_at = m\<rparr> = Inr (k, \<lparr>rd_buffer = buf, rd_at = m + 4\<rparr>)"
    if "k < 2 ^ 32" "holds buf m (Codec.le_bytes 4 k)" for k m
    using reads_holds [OF reads_uint that(2)] that(1) by simp
  have f64: "rd_f64 \<lparr>rd_buffer = buf, rd_at = m\<rparr> = Inr (x, \<lparr>rd_buffer = buf, rd_at = m + 8\<rparr>)"
    if "holds buf m (Codec.le_bytes 8 (unat x))" for x m
    using reads_holds [OF reads_f64 that] by simp
  have raw: "rd_bytes (length bs) \<lparr>rd_buffer = buf, rd_at = m\<rparr> = Inr (bs, \<lparr>rd_buffer = buf, rd_at = m + length bs\<rparr>)"
    if "holds buf m bs" for bs m
    using reads_holds [OF reads_bytes [OF refl] that] .
  have str: "rd_text (length bs) \<lparr>rd_buffer = buf, rd_at = m\<rparr> = Inr (s, \<lparr>rd_buffer = buf, rd_at = m + length bs\<rparr>)"
    if "decode_text bs = Inr s" "holds buf m bs" for bs s m
    using reads_holds [OF reads_text [OF that(1) refl] that(2)] .
  show ?thesis
  proof (cases v)
    case (TNumber x)
    with assms have h: "holds buf n [3]" "holds buf (Suc n) (Codec.le_bytes 8 (unat x))" and a: "a = JNum x"
      using holds_append [of buf n "[3]" "Codec.le_bytes 8 (unat x)"] by (cases a; simp)+
    show ?thesis using TNumber a tag_holds [OF h(1)] f64 [OF h(2)] by (simp add: read_value_def)
  next
    case (TString bs)
    with assms obtain s where a: "a = JStr s" "decode_text bs = Inr s" "length bs < 2 ^ 32" by (cases a) auto
    have h: "holds buf n [4]" "holds buf (Suc n) (Codec.le_bytes 4 (length bs))" "holds buf (Suc n + 4) bs"
      using assms(2) TString holds_append [of buf n "[4]" "Codec.le_bytes 4 (length bs) @ bs"]
        holds_append [of buf "Suc n" "Codec.le_bytes 4 (length bs)" bs] by simp_all
    show ?thesis using TString a(1) tag_holds [OF h(1)] u32 [OF a(3) h(2)] str [OF a(2) h(3)] by (simp add: read_value_def)
  next
    case (TBytes bs)
    with assms have a: "a = JBytes bs" "length bs < 2 ^ 32" by (cases a; simp)+
    have h: "holds buf n [5]" "holds buf (Suc n) (Codec.le_bytes 4 (length bs))" "holds buf (Suc n + 4) bs"
      using assms(2) TBytes holds_append [of buf n "[5]" "Codec.le_bytes 4 (length bs) @ bs"]
        holds_append [of buf "Suc n" "Codec.le_bytes 4 (length bs)" bs] by simp_all
    show ?thesis using TBytes a(1) tag_holds [OF h(1)] u32 [OF a(2) h(2)] raw [OF h(3)] by (simp add: read_value_def)
  qed (use assms tag_holds [of buf n] in \<open>cases a; simp add: read_value_def\<close>)+
qed

lemma read_values_wire:
  assumes "list_all2 stands_for vs args" "holds buf n (concat (map value_wire vs))"
  shows "read_values (length vs) i ch \<lparr>rd_buffer = buf, rd_at = n\<rparr> =
    (ch, Inr (args, \<lparr>rd_buffer = buf, rd_at = n + length (concat (map value_wire vs))\<rparr>))"
  using assms
  by (induction arbitrary: n i rule: list_all2_induct)
    (auto simp: holds_append read_value_wire add.assoc)

text \<open>Request values survive the wire: reading the arguments of a record whose values were
  written by \<open>writeValue\<close> behind their 16-bit count gives back exactly the values they stand
  for, in order, consumes exactly those bytes and leaves the channel untouched.
\<close>
theorem arguments_roundtrip:
  assumes "list_all2 stands_for vs args" "length vs \<le> MAX_VALUES" "wf_writer w"
  shows "readArguments ch
      \<lparr>rd_buffer = wr_result (fold writeValue vs (wr_u16 (length vs) w)) @ post, rd_at = length (wr_result w)\<rparr> =
    (ch, Inr (args, \<lparr>rd_buffer = wr_result (fold writeValue vs (wr_u16 (length vs) w)) @ post,
                    rd_at = length (wr_result (fold writeValue vs (wr_u16 (length vs) w)))\<rparr>))"
proof -
  let ?vs = "concat (map value_wire vs)" and ?n = "length (wr_result w)"
  let ?buf = "wr_result w @ (Codec.le_bytes 2 (length vs) @ ?vs) @ post"
  have buf: "wr_result (fold writeValue vs (wr_u16 (length vs) w)) = wr_result w @ Codec.le_bytes 2 (length vs) @ ?vs"
    using write_values_wire [of "wr_u16 (length vs) w" vs] assms(3) by simp
  have "holds ?buf ?n (Codec.le_bytes 2 (length vs) @ ?vs)" unfolding holds_def by blast
  then have h: "holds ?buf ?n (Codec.le_bytes 2 (length vs))" "holds ?buf (?n + 2) ?vs" by (simp_all add: holds_append)
  have "rd_u16 \<lparr>rd_buffer = ?buf, rd_at = ?n\<rparr> = Inr (length vs, \<lparr>rd_buffer = ?buf, rd_at = ?n + 2\<rparr>)"
    using reads_holds [OF reads_uint h(1)] assms(2) by (simp add: MAX_VALUES_def)
  then show ?thesis
    using read_values_wire [OF assms(1) h(2)] assms(2) buf by (simp add: readArguments_def)
qed

theorem arguments_roundtrip_witness:
  "fst (readArguments sample_channel
      \<lparr>rd_buffer = wr_result (fold writeValue [TTrue, TBytes [9, 8]] (wr_u16 (length [TTrue, TBytes [9, 8]]) (new_writer 4))) @ [1],
       rd_at = length (wr_result (new_writer 4))\<rparr>) = sample_channel"
  using arguments_roundtrip [of "[TTrue, TBytes [9, 8]]" "[JBool True, JBytes [9, 8]]" "new_writer 4" sample_channel "[1]"]
  by (simp add: MAX_VALUES_def)

section \<open>Uploads\<close>

definition chunk_effect :: "string \<Rightarrow> int \<Rightarrow> nat \<Rightarrow> nat \<Rightarrow> host_effect" where
  "chunk_effect op k offset n =
    \<lparr>he_id = 0, he_op = op, he_spans = Some [\<lparr>ib_lease = IntV 1, ib_bytes = Undef\<rparr>], he_records = Undef,
     he_result = IntV k, he_index = IntV (int n), he_offset = IntV (int offset), he_transfer = IntV k, he_total = IntV (int n)\<rparr>"

definition one_lease :: "byte list \<Rightarrow> bool \<Rightarrow> bool \<Rightarrow> transfers" where
  "one_lease view writable released =
    [(1, \<lparr>le_id = 1, le_bytes = length view, le_writable = writable, le_view = view, le_released = released\<rparr>)]"

text \<open>The application sends the chunks of an upload one effect after the other.\<close>

fun upload_chunks :: "int \<Rightarrow> nat \<Rightarrow> nat \<Rightarrow> byte list list \<Rightarrow> host_channel \<Rightarrow> host_channel result" where
  "upload_chunks k n offset [] ch = Inr ch"
| "upload_chunks k n offset (c # cs) ch =
    (case performHostEffect ch (chunk_effect ''upload'' k offset n) (one_lease c False False) of
       (ch1, t1, Inl e) \<Rightarrow> Inl e
     | (ch1, t1, Inr r) \<Rightarrow> upload_chunks k n (offset + length c) cs ch1)"

definition uploading :: "host_channel \<Rightarrow> int \<Rightarrow> nat \<Rightarrow> byte list \<Rightarrow> host_channel" where
  "uploading ch k n bs = ch\<lparr>
     hc_uploads := mset (hc_uploads ch) k \<lparr>up_bytes = bs @ replicate (n - length bs) 0, up_total = n, up_received = length bs\<rparr>,
     hc_reassembled := hc_reassembled ch + n\<rparr>"

lemma one_lease_simps [simp]:
  "lease (one_lease view w False) (IntV 1) Undef w = Inr (snd (hd (one_lease view w False)))"
  "release (one_lease view w r) (IntV 1) = one_lease view w True"
  "le_view (snd (hd (one_lease view w r))) = view" "le_id (snd (hd (one_lease view w r))) = 1"
  "length bs = length view \<Longrightarrow> write_view (one_lease view w r) 1 0 bs = one_lease bs w r"
  by (simp_all add: one_lease_def lease_def mget_Cons mset_def write_view_def blit_def)

declare release.simps(1) [simp del]

lemma chunk_effect_simps [simp]:
  "first_span (chunk_effect op k offset n) = Some \<lparr>ib_lease = IntV 1, ib_bytes = Undef\<rparr>"
  "he_op (chunk_effect op k offset n) = op" "he_offset (chunk_effect op k offset n) = IntV (int offset)"
  "he_transfer (chunk_effect op k offset n) = IntV k" "he_total (chunk_effect op k offset n) = IntV (int n)"
  "he_result (chunk_effect op k offset n) = IntV k" "he_index (chunk_effect op k offset n) = IntV (int n)"
  by (simp_all add: chunk_effect_def first_span_def)

lemma first_chunk:
  assumes "mget (hc_uploads ch) k = None" "hc_reassembled ch + n \<le> hc_reassemblyLimit ch"
    "n \<le> MAX_OUTBOUND_BYTES" "length c \<le> n"
  shows "performHostEffect ch (chunk_effect ''upload'' k 0 n) (one_lease c False False) =
    (uploading ch k n c, one_lease c False True, Inr (Received (length c)))"
  using assms
  by (simp add: performHostEffect_def receiveUpload_def open_upload_def uploading_def Let_def span_lease_def release_span_def blit_def)

lemma next_chunk:
  assumes "n \<le> MAX_OUTBOUND_BYTES" "length (bs @ c) \<le> n"
  shows "performHostEffect (uploading ch k n bs) (chunk_effect ''upload'' k (length bs) n) (one_lease c False False) =
    (uploading ch k n (bs @ c), one_lease c False True, Inr (Received (length (bs @ c))))"
proof -
  have "blit (bs @ replicate (n - length bs) 0) (length bs) c = (bs @ c) @ replicate (n - length (bs @ c)) (0 :: byte)"
    using assms(2) by (simp add: blit_def)
  with assms show ?thesis
    by (simp add: performHostEffect_def receiveUpload_def open_upload_def uploading_def Let_def span_lease_def release_span_def)
qed

lemma next_chunks:
  "n \<le> MAX_OUTBOUND_BYTES \<Longrightarrow> length (bs @ concat cs) \<le> n \<Longrightarrow>
   upload_chunks k n (length bs) cs (uploading ch k n bs) = Inr (uploading ch k n (bs @ concat cs))"
proof (induction cs arbitrary: bs)
  case (Cons c cs)
  then have "performHostEffect (uploading ch k n bs) (chunk_effect ''upload'' k (length bs) n) (one_lease c False False) =
    (uploading ch k n (bs @ c), one_lease c False True, Inr (Received (length (bs @ c))))"
    by (intro next_chunk) auto
  with Cons.IH [of "bs @ c"] Cons.prems show ?case by simp
qed simp

text \<open>C28. A large argument crosses in chunks: when the upload is new and fits the page's reassembly
  bound, sending its chunks in order succeeds, the page then holds their concatenation as a
  complete upload, and a request value that names it receives exactly those bytes, after which
  the channel is as it was before the first chunk, with all reassembly budget returned.
\<close>
theorem upload_reassembles:
  assumes "mget (hc_uploads ch) (int k) = None" "n = length (concat (c # cs))" "n \<le> MAX_OUTBOUND_BYTES"
    and "hc_reassembled ch + n \<le> hc_reassemblyLimit ch" "k < 2 ^ 32"
  shows "\<exists>ch1. upload_chunks (int k) n 0 (c # cs) ch = Inr ch1 \<and> hc_reassembled ch1 = hc_reassembled ch + n \<and>
    read_value i ch1 \<lparr>rd_buffer = wr_result (wr_u32 k (wr_u8 6 (new_writer 8))), rd_at = 0\<rparr> =
      (ch, Inr (JBytes (concat (c # cs)), \<lparr>rd_buffer = wr_result (wr_u32 k (wr_u8 6 (new_writer 8))), rd_at = 5\<rparr>))"
proof -
  let ?bs = "concat (c # cs)" and ?buf = "6 # Codec.le_bytes 4 k"
  let ?ch = "uploading ch (int k) n ?bs"
  have up: "upload_chunks (int k) n 0 (c # cs) ch = Inr ?ch"
    using assms first_chunk [of ch "int k" n c] next_chunks [of n c cs "int k" ch] by simp
  have h: "holds ?buf 0 [6]" "holds ?buf (Suc 0) (Codec.le_bytes 4 k)"
    using holds_append [of ?buf 0 "[6]" "Codec.le_bytes 4 k"] unfolding holds_def by auto
  have r: "rd_u8 \<lparr>rd_buffer = ?buf, rd_at = 0\<rparr> = Inr (6, \<lparr>rd_buffer = ?buf, rd_at = Suc 0\<rparr>)"
    "rd_u32 \<lparr>rd_buffer = ?buf, rd_at = Suc 0\<rparr> = Inr (k, \<lparr>rd_buffer = ?buf, rd_at = 5\<rparr>)"
    using tag_holds [OF h(1)] reads_holds [OF reads_uint h(2)] assms(5) by simp_all
  have "ch\<lparr>hc_uploads := hc_uploads ch, hc_reassembled := hc_reassembled ch\<rparr> = ch" by simp
  moreover have "mdelete (mset (hc_uploads ch) (int k) v) (int k) = hc_uploads ch" for v
    using assms(1) by (simp add: mset_fresh mdelete_append) (simp add: mdelete_def)
  ultimately have "read_value i ?ch \<lparr>rd_buffer = ?buf, rd_at = 0\<rparr> = (ch, Inr (JBytes ?bs, \<lparr>rd_buffer = ?buf, rd_at = 5\<rparr>))"
    using r assms(2) by (simp add: read_value_def uploading_def)
  with up show ?thesis by (simp add: uploading_def)
qed

theorem upload_reassembles_witness:
  "\<exists>ch1. upload_chunks 5 3 0 [[1, 2], [3]] sample_channel = Inr ch1 \<and> hc_reassembled ch1 = 3"
  using upload_reassembles [of sample_channel 5 3 "[1, 2]" "[[3]]" 0]
  by (auto simp: sample_channel_def host_limits)

section \<open>Fetching a result\<close>

text \<open>The application fetches a kept view piece by piece, each into a lease of the piece's size.\<close>

fun fetch_pieces :: "nat \<Rightarrow> nat \<Rightarrow> nat \<Rightarrow> nat list \<Rightarrow> host_channel \<Rightarrow> (byte list list \<times> host_channel) result" where
  "fetch_pieces k index offset [] ch = Inr ([], ch)"
| "fetch_pieces k index offset (n # ns) ch =
    (case performHostEffect ch (chunk_effect ''fetch'' (int k) offset index) (one_lease (replicate n 0) True False) of
       (ch1, t1, Inl e) \<Rightarrow> Inl e
     | (ch1, t1, Inr r) \<Rightarrow> bind (fetch_pieces k index (offset + n) ns ch1) (\<lambda>(ps, ch2).
         Inr (le_view (snd (hd t1)) # ps, ch2)))"

lemma fetch_piece:
  assumes "mget (hc_results ch) k = Some rec" "array_at (kr_views rec) (int index - 1) = Some view"
    and "offset + n \<le> length view"
  shows "performHostEffect ch (chunk_effect ''fetch'' (int k) offset index) (one_lease (replicate n 0) True False) =
    (fetched ch k rec n, one_lease (take n (drop offset view)) True True, Inr (Fetched n))"
  using assms
  by (simp add: performHostEffect_def fetchResult_def result_of_def Let_def span_lease_def release_span_def fetched_def)

lemma fetch_rest:
  assumes "array_at (kr_views rec) (int index - 1) = Some view"
    and "mget (hc_results ch) k = Some rec" "kr_remaining rec = int (length view - offset)"
    and "offset + sum_list ns = length view" "list_all (\<lambda>n. 0 < n) ns" "ns \<noteq> []"
  shows "\<exists>ps. fetch_pieces k index offset ns ch = Inr (ps, ch\<lparr>hc_results := mdelete (hc_results ch) k\<rparr>) \<and>
    concat ps = drop offset view"
  using assms
proof (induction ns arbitrary: offset rec ch)
  case (Cons n ns)
  let ?rec = "rec\<lparr>kr_remaining := kr_remaining rec - int n\<rparr>"
  let ?del = "\<lambda>ch. ch\<lparr>hc_results := mdelete (hc_results ch) k\<rparr>"
  have s: "performHostEffect ch (chunk_effect ''fetch'' (int k) offset index) (one_lease (replicate n 0) True False) =
    (fetched ch k rec n, one_lease (take n (drop offset view)) True True, Inr (Fetched n))"
    using Cons.prems by (intro fetch_piece) auto
  show ?case
  proof (cases "ns = []")
    case True
    with Cons.prems s show ?thesis by (auto simp: fetched_def)
  next
    case False
    then have pos: "0 < sum_list ns" using Cons.prems(5) by (cases ns) auto
    have f: "fetched ch k rec n = ch\<lparr>hc_results := mset (hc_results ch) k ?rec\<rparr>"
      using Cons.prems(3,4) pos by (simp add: fetched_def)
    obtain ps where ps: "fetch_pieces k index (offset + n) ns (fetched ch k rec n) = Inr (ps, ?del (fetched ch k rec n))"
      "concat ps = drop (offset + n) view"
      using Cons.IH [of ?rec "fetched ch k rec n" "offset + n"] Cons.prems f False by auto
    have "?del (fetched ch k rec n) = ?del ch" by (simp add: f mdelete_mset)
    moreover have "take n (drop offset view) @ drop (offset + n) view = drop offset view"
      by (metis append_take_drop_id drop_drop add.commute)
    ultimately show ?thesis using s ps by simp
  qed
qed simp

text \<open>A result too large for the inbox is fetched in pieces: for a kept result one of whose
  byte values is all that remains to be fetched, requests for consecutive non-empty pieces
  that add up to its length all succeed, the pieces concatenate to exactly those bytes, and
  the last one removes the result from the page, which is the moment the application owns it.
\<close>
theorem fetch_delivers_result:
  assumes "mget (hc_results ch) k = Some rec" "array_at (kr_views rec) (int index - 1) = Some view"
    and "kr_remaining rec = int (length view)" "sum_list ns = length view" "list_all (\<lambda>n. 0 < n) ns" "ns \<noteq> []"
  shows "\<exists>ps. fetch_pieces k index 0 ns ch = Inr (ps, ch\<lparr>hc_results := mdelete (hc_results ch) k\<rparr>) \<and> concat ps = view"
  using fetch_rest [of rec index view ch k 0 ns] assms by simp

definition sample_kept :: kept_result where
  "sample_kept = \<lparr>kr_views = [None, Some [1, 2, 3]], kr_remaining = 3, kr_release = True, kr_values = AnsweredNothing\<rparr>"

theorem fetch_delivers_result_witness:
  "\<exists>ps ch. fetch_pieces 1 2 0 [2, 1] (sample_channel\<lparr>hc_results := [(1, sample_kept)]\<rparr>) = Inr (ps, ch) \<and> concat ps = [1, 2, 3]"
  using fetch_delivers_result [of "sample_channel\<lparr>hc_results := [(1, sample_kept)]\<rparr>" 1 sample_kept 2 "[1, 2, 3]" "[2, 1]"]
  by (auto simp: sample_kept_def mget_Cons array_at_def)

section \<open>Answers\<close>

definition answered_with :: "host_channel \<Rightarrow> host_channel \<Rightarrow> nat \<Rightarrow> bool" where
  "answered_with ch ch' i \<longleftrightarrow> (\<exists>item. an_id item = i \<and> hc_answers ch' = hc_answers ch @ [item])"

lemma effect_fields [simp]:
  "hc_answers (log ch evs) = hc_answers ch" "hc_answers (wake ch) = hc_answers ch"
  "hc_answers (releaseResult ch rel vs) = hc_answers ch" "hc_inflight (log ch evs) = hc_inflight ch"
  "hc_inflight (wake ch) = hc_inflight ch" "hc_inflight (releaseResult ch rel vs) = hc_inflight ch"
  "hc_inflight (answer ch i body) = hc_inflight ch"
  "hc_answers (answer ch i body) = hc_answers ch @ [\<lparr>an_id = i, an_body = body, an_encoded = None\<rparr>]"
  by (simp_all add: log_def wake_def releaseResult_def answer_def)

text \<open>Every call is answered exactly once. Dispatching a call that is not in flight either
  queues one answer with its id at once, when no handler answers the kind or the handler
  throws, or leaves the answers alone and records the call as in flight; and settling a call
  on an open channel, whether its handler failed, answered acceptable values or answered
  something that cannot cross, queues one answer with its id and takes it out of flight.
\<close>
theorem call_answered_once:
  assumes "\<not> mhas (hc_inflight ch) i" "\<not> hc_closed ch"
  shows "(answered_with ch (dispatchCall call ch i name args) i \<and> \<not> mhas (hc_inflight (dispatchCall call ch i name args)) i
      \<or> hc_answers (dispatchCall call ch i name args) = hc_answers ch
        \<and> mget (hc_inflight (dispatchCall call ch i name args)) i = Some False)
    \<and> answered_with ch (settleCall ch i name outcome) i \<and> \<not> mhas (hc_inflight (settleCall ch i name outcome)) i"
  using assms
  by (auto simp: answered_with_def dispatchCall_def settleCall_def Let_def mhas_def mdelete_mset split: option.splits sum.splits)

theorem call_answered_once_witness:
  "answered_with sample_channel (settleCall sample_channel 3 (js ''page.read'') (Inr AnsweredNothing)) 3"
  using call_answered_once [of sample_channel 3 "\<lambda>_ _. None" "js ''page.read''" "[]" "Inr AnsweredNothing"]
  by (simp add: sample_channel_def mhas_def)

section \<open>Closing\<close>

definition new_events :: "host_channel \<Rightarrow> host_channel \<Rightarrow> host_event list" where
  "new_events ch ch' = drop (length (hc_log ch)) (hc_log ch')"

lemma count_answer_releases:
  "count_list (concat (map answer_releases items)) (Released v) =
   length (filter (\<lambda>item. \<exists>vs. an_body item = Success vs True v) items)"
  by (induction items) (auto simp: answer_releases_def split: answer_body.splits)

lemma count_kept_releases:
  "count_list (concat (map kept_releases rs)) (Released v) = length (filter (\<lambda>r. kr_release r \<and> kr_values r = v) rs)"
  by (induction rs) (auto simp: kept_releases_def)

lemma count_close_events:
  "count_list (close_events ch) (Released v) =
     length (filter (\<lambda>item. \<exists>vs. an_body item = Success vs True v) (hc_answers ch)) +
     length (filter (\<lambda>r. kr_release r \<and> kr_values r = v) (mvalues (hc_results ch)))"
proof -
  have "count_list (map (\<lambda>i. Aborted i s) is) (Released v) = 0" for s "is" by (induction "is") auto
  then show ?thesis by (simp add: close_events_def count_answer_releases count_kept_releases)
qed

text \<open>Closing the channel hands back everything the application never came to own: each
  queued answer and each kept result whose handler has a release is released, once per entry,
  every call in flight is aborted, the tables and the upload budget are empty afterwards, and
  closing again does nothing.
\<close>
theorem close_releases:
  assumes "\<not> hc_closed ch"
  shows "count_list (new_events ch (closeHostChannel ch)) (Released v) =
      length (filter (\<lambda>item. \<exists>vs. an_body item = Success vs True v) (hc_answers ch)) +
      length (filter (\<lambda>r. kr_release r \<and> kr_values r = v) (mvalues (hc_results ch)))
    \<and> (\<forall>i. mhas (hc_inflight ch) i \<longrightarrow> Aborted i (js ''the application finished'') \<in> set (new_events ch (closeHostChannel ch)))
    \<and> hc_answers (closeHostChannel ch) = [] \<and> hc_results (closeHostChannel ch) = [] \<and> hc_inflight (closeHostChannel ch) = []
    \<and> hc_uploads (closeHostChannel ch) = [] \<and> hc_reassembled (closeHostChannel ch) = 0
    \<and> closeHostChannel (closeHostChannel ch) = closeHostChannel ch"
proof -
  have "new_events ch (closeHostChannel ch) = close_events ch"
    using assms by (simp add: new_events_def closeHostChannel_open)
  moreover have "mhas (hc_inflight ch) i \<Longrightarrow> Aborted i (js ''the application finished'') \<in> set (close_events ch)" for i
    by (auto simp: close_events_def mhas_def set_mkeys)
  moreover have "closeHostChannel (closeHostChannel ch) = closeHostChannel ch"
    using assms by (subst closeHostChannel_def) (simp add: closeHostChannel_open)
  ultimately show ?thesis using assms by (simp add: count_close_events) (simp add: closeHostChannel_open)
qed

theorem close_releases_witness:
  "count_list (new_events (sample_channel\<lparr>hc_results := [(1, sample_kept)]\<rparr>)
     (closeHostChannel (sample_channel\<lparr>hc_results := [(1, sample_kept)]\<rparr>))) (Released AnsweredNothing) = 1"
  using close_releases [of "sample_channel\<lparr>hc_results := [(1, sample_kept)]\<rparr>" AnsweredNothing]
  by (simp add: sample_channel_def mvalues_def sample_kept_def)

subsection \<open>An answer that did not fit\<close>

lemma length_encodeAnswer:
  assumes "an_body item = Success vs rel results" "filter large_value vs \<noteq> []" "encodeAnswer ch item = (ch', bs)"
  shows "12 \<le> length bs \<and> ch' = ch\<lparr>hc_nextResult := hc_nextResult ch + 1,
    hc_results := mset (hc_results ch) (hc_nextResult ch) (keep_result vs rel results)\<rparr>"
proof -
  let ?w = "wr_u16 (length vs) (wr_u32 (hc_nextResult ch) (wr_u8 1 (wr_u32 (an_id item) (wr_u8 1 (new_writer 64)))))"
  have "fold (\<lambda>v. writeValue (announced v)) vs ?w = fold writeValue (map announced vs) ?w"
    by (simp add: fold_map comp_def)
  with assms write_values_wire [of ?w "map announced vs"] show ?thesis
    by (auto simp: encodeAnswer_def Let_def)
qed

text \<open>An answer whose bytes are too large for the inbox is registered for fetching when it is
  encoded, before it is known whether its record fits. If it does not fit it stays queued as
  well, so closing the channel at that point releases the same results twice.
\<close>
theorem unsent_large_answer_released_twice:
  assumes "mget (hc_frames ch) eid = Some \<lparr>fr_lease = Some entry, fr_inbox = Some span, fr_failure = None\<rparr>"
    and "length (le_view entry) < 12" "\<not> hc_closed ch" "hc_results ch = []"
    and "hc_answers ch = [\<lparr>an_id = i, an_body = Success vs True results, an_encoded = None\<rparr>]" "filter large_value vs \<noteq> []"
    and "finishHostFrame eid ch t = (ch', t', out)"
  shows "count_list (new_events ch' (closeHostChannel ch')) (Released results) = 2"
proof -
  let ?item = "\<lparr>an_id = i, an_body = Success vs True results, an_encoded = None\<rparr>"
  let ?ch = "ch\<lparr>hc_frames := mdelete (hc_frames ch) eid\<rparr>"
  obtain ch1 bs where e: "encodeAnswer ?ch ?item = (ch1, bs)" by fastforce
  have l: "12 \<le> length bs" "ch1 = ?ch\<lparr>hc_nextResult := hc_nextResult ch + 1,
      hc_results := mset [] (hc_nextResult ch) (keep_result vs True results)\<rparr>"
    using length_encodeAnswer [of ?item, OF _ assms(6) e] assms(4) by simp_all
  have "ch' = ch1\<lparr>hc_answers := [?item\<lparr>an_encoded := Some bs\<rparr>]\<rparr>"
    using assms(1,2,5,7) e l(1) list.size(3) [where 'a = byte]
    by (cases "bs = []") (auto simp: finishHostFrame_def fill_inbox_def put_answers_Cons encoded_answer_def put_def Let_def)
  then have "\<not> hc_closed ch'" "hc_answers ch' = [?item\<lparr>an_encoded := Some bs\<rparr>]"
    "mvalues (hc_results ch') = [keep_result vs True results]"
    using assms(3) l(2) by (simp_all add: mset_def mvalues_def)
  then show ?thesis
    by (simp add: new_events_def closeHostChannel_open count_close_events keep_result_def)
qed

definition sample_large :: host_channel where
  "sample_large = sample_channel\<lparr>
     hc_answers := [\<lparr>an_id = 7, an_body = Success [TBytes (replicate 20000 1)] True AnsweredNothing, an_encoded = None\<rparr>],
     hc_frames := [(4, \<lparr>fr_lease = Some (sample_entry\<lparr>le_view := []\<rparr>), fr_inbox = Some \<lparr>ib_lease = IntV 3, ib_bytes = IntV 0\<rparr>, fr_failure = None\<rparr>)]\<rparr>"

theorem unsent_large_answer_released_twice_witness:
  "\<exists>ch'. fst (finishHostFrame 4 sample_large []) = ch' \<and>
    count_list (new_events ch' (closeHostChannel ch')) (Released AnsweredNothing) = 2"
proof -
  obtain ch' t' out where f: "finishHostFrame 4 sample_large [] = (ch', t', out)" by (metis prod_cases3)
  have "count_list (new_events ch' (closeHostChannel ch')) (Released AnsweredNothing) = 2"
    by (rule unsent_large_answer_released_twice [OF _ _ _ _ _ _ f,
          of "sample_entry\<lparr>le_view := []\<rparr>" "\<lparr>ib_lease = IntV 3, ib_bytes = IntV 0\<rparr>" 7 "[TBytes (replicate 20000 1)]"])
      (simp_all add: sample_large_def sample_channel_def mget_Cons large_value_def INLINE_BYTES_def)
  with f show ?thesis by simp
qed

end
