(* ===== verification/ChannelHost.thy ===== *)
theory ChannelHost
  imports Channel_Protocol Base64
begin

text \<open>
  The endpoint table of one guest, \<^verbatim>\<open>src/runtime/wasm/channel-host.mjs\<close>: entries by handle,
  each with a channel endpoint and a control port, supervisors of the channels this table
  created, and the resources that group them. A control port and its supervisor port are
  named by the token they share; what goes through them, and the watches that resolve, are
  events of the log. An operation that throws keeps the changes it made before.
\<close>

section \<open>State\<close>

record description =
  de_handle :: nat
  de_direction :: direction
  de_messages :: nat
  de_bytes :: nat
  de_closed :: bool
  de_sent :: int
  de_sentBytes :: int
  de_consumed :: int
  de_consumedBytes :: int

datatype watch_result =
    WatchState description "jstr option"  \<comment> \<open>with the payload of a receiver's value\<close>
  | WatchClosed
  | WatchMoved
  | WatchCancelled bool

record watch_request =
  wq_consumed :: jnum
  wq_consumedBytes :: jnum

record host_entry =
  en_id :: nat
  en_endpoint :: endpoint
  en_token :: nat
  en_messages :: nat
  en_bytes :: nat
  en_sent :: int
  en_sentBytes :: int
  en_watch :: "watch_request option"
  en_resource :: "nat option"

record supervisor =
  su_peer :: nat
  su_done :: bool
  su_resource :: nat

record resource =
  rs_tokens :: "nat list"
  rs_ids :: "nat list"

datatype control = RemoteClose | Abort

datatype table_event =
    DataPort nat event         \<comment> \<open>what the endpoint of an entry did\<close>
  | WatchResolved nat watch_result
  | ToSupervisor nat           \<comment> \<open>\<^verbatim>\<open>{type: 'closed'}\<close> on the control port of a token\<close>
  | ControlClosed nat
  | ToEntry nat control        \<comment> \<open>from the supervisor port of a token\<close>
  | SupervisorClosed nat

record channel_host =
  ct_entries :: "(nat, host_entry) jmap"
  ct_supervisors :: "(nat, supervisor) jmap"
  ct_resources :: "(nat, resource) jmap"
  ct_nextId :: nat
  ct_nextToken :: nat
  ct_cancelled :: bool
  ct_deadline :: bool
  ct_closed :: bool
  ct_identities :: identities
  ct_nextPort :: nat           \<comment> \<open>the ports the browser hands out\<close>
  ct_log :: "table_event list"

definition createChannelHost :: "identities \<Rightarrow> nat \<Rightarrow> channel_host" where
  "createChannelHost ids port =
    \<lparr>ct_entries = [], ct_supervisors = [], ct_resources = [], ct_nextId = 1, ct_nextToken = 1,
     ct_cancelled = False, ct_deadline = False, ct_closed = False, ct_identities = ids, ct_nextPort = port, ct_log = []\<rparr>"

definition emit :: "table_event list \<Rightarrow> channel_host \<Rightarrow> channel_host" where
  "emit evs h = h\<lparr>ct_log := ct_log h @ evs\<rparr>"

definition description_of :: "host_entry \<Rightarrow> description" where
  "description_of entry =
    (let state = inspect (en_endpoint entry); d = ep_direction (en_endpoint entry) in
     \<lparr>de_handle = en_id entry, de_direction = d, de_messages = en_messages entry, de_bytes = en_bytes entry,
      de_closed = (in_closed state \<and> (d = Sender \<or> in_queued state = 0)),
      de_sent = en_sent entry, de_sentBytes = en_sentBytes entry,
      de_consumed = en_sent entry - (int (en_messages entry) - int (in_availableMessages state)),
      de_consumedBytes = en_sentBytes entry - (int (en_bytes entry) - int (in_availableBytes state))\<rparr>)"

section \<open>Supervisors\<close>

definition finishSupervisor :: "channel_host \<Rightarrow> nat \<Rightarrow> channel_host" where
  "finishSupervisor h token =
    (case mget (ct_supervisors h) token of None \<Rightarrow> h | Some item \<Rightarrow>
     let h1 = h\<lparr>ct_supervisors := mset (ct_supervisors h) token (item\<lparr>su_done := True\<rparr>)\<rparr> in
     case mget (ct_supervisors h1) (su_peer item) of
       None \<Rightarrow> emit [SupervisorClosed token] (h1\<lparr>ct_supervisors := mdelete (ct_supervisors h1) token,
                 ct_resources := mdelete (ct_resources h1) (su_resource item)\<rparr>)
     | Some peer \<Rightarrow>
        if su_done peer
        then emit [SupervisorClosed token, SupervisorClosed (su_peer item)]
               (h1\<lparr>ct_supervisors := mdelete (mdelete (ct_supervisors h1) token) (su_peer item),
                  ct_resources := mdelete (ct_resources h1) (su_resource item)\<rparr>)
        else h1)"

definition revoke :: "channel_host \<Rightarrow> nat \<Rightarrow> channel_host" where
  "revoke h token =
    (case mget (ct_supervisors h) token of None \<Rightarrow> h | Some item \<Rightarrow>
     if su_done item then h else
     finishSupervisor
       (if mhas (ct_supervisors h) (su_peer item) then emit [ToEntry (su_peer item) RemoteClose] h else h) token)"

section \<open>Watches\<close>

text \<open>Only a watch observes an endpoint, under the entry's own id.\<close>

definition finish_watch :: "watch_result \<Rightarrow> host_entry \<Rightarrow> host_entry \<times> table_event list" where
  "finish_watch value entry =
    (case en_watch entry of None \<Rightarrow> (entry, [])
     | Some _ \<Rightarrow> (entry\<lparr>en_watch := None, en_endpoint := unobserve (en_endpoint entry) (en_id entry)\<rparr>,
                  [WatchResolved (en_id entry) value]))"

definition poll :: "bool \<Rightarrow> bool \<Rightarrow> host_entry \<Rightarrow> host_entry \<times> table_event list \<times> unit result" where
  "poll cancelled deadline entry =
    (let done = (\<lambda>value. case finish_watch value entry of (entry1, evs) \<Rightarrow> (entry1, evs, Inr ()));
         state = description_of entry in
     if cancelled then done (WatchCancelled deadline)
     else if ep_direction (en_endpoint entry) = Sender then
       (case en_watch entry of None \<Rightarrow> (entry, [], Inr ()) | Some w \<Rightarrow>
        if de_closed state \<or> IntV (de_consumed state) \<noteq> wq_consumed w \<or> IntV (de_consumedBytes state) \<noteq> wq_consumedBytes w
        then done (WatchState state None) else (entry, [], Inr ()))
     else
       (case peek (en_endpoint entry) of
          Inl e \<Rightarrow> (entry, [], Inl e)
        | Inr (Received value) \<Rightarrow> done (WatchState state (Some (wire_encoded (contents value))))
        | Inr ReceiveClosed \<Rightarrow> done (WatchState (state\<lparr>de_closed := True\<rparr>) None)
        | Inr Empty \<Rightarrow> (entry, [], Inr ())))"

text \<open>The events of an endpoint operation, the observation polls included; a poll that throws stops them.\<close>

fun run_events :: "bool \<Rightarrow> bool \<Rightarrow> event list \<Rightarrow> host_entry \<Rightarrow> host_entry \<times> table_event list \<times> unit result" where
  "run_events cancelled deadline [] entry = (entry, [], Inr ())"
| "run_events cancelled deadline (Observed c # evs) entry =
    (case poll cancelled deadline entry of
       (entry1, log1, Inl e) \<Rightarrow> (entry1, log1, Inl e)
     | (entry1, log1, Inr _) \<Rightarrow>
        (case run_events cancelled deadline evs entry1 of (entry2, log2, r) \<Rightarrow> (entry2, log1 @ log2, r)))"
| "run_events cancelled deadline (ev # evs) entry =
    (case run_events cancelled deadline evs entry of (entry1, log1, r) \<Rightarrow> (entry1, DataPort (en_id entry) ev # log1, r))"

definition on_endpoint ::
  "channel_host \<Rightarrow> (endpoint \<Rightarrow> endpoint \<times> event list) \<Rightarrow> host_entry \<Rightarrow> host_entry \<times> table_event list \<times> unit result" where
  "on_endpoint h f entry =
    (case f (en_endpoint entry) of (e, evs) \<Rightarrow>
     run_events (ct_cancelled h) (ct_deadline h) evs (entry\<lparr>en_endpoint := e\<rparr>))"

section \<open>Entries\<close>

definition resource_add :: "channel_host \<Rightarrow> nat option \<Rightarrow> nat \<Rightarrow> channel_host" where
  "resource_add h res i =
    (case res of None \<Rightarrow> h | Some r \<Rightarrow>
     case mget (ct_resources h) r of None \<Rightarrow> h
     | Some rs \<Rightarrow> h\<lparr>ct_resources := mset (ct_resources h) r (rs\<lparr>rs_ids := set_add i (rs_ids rs)\<rparr>)\<rparr>)"

definition resource_remove :: "channel_host \<Rightarrow> nat option \<Rightarrow> nat \<Rightarrow> channel_host" where
  "resource_remove h res i =
    (case res of None \<Rightarrow> h | Some r \<Rightarrow>
     case mget (ct_resources h) r of None \<Rightarrow> h
     | Some rs \<Rightarrow> h\<lparr>ct_resources := mset (ct_resources h) r (rs\<lparr>rs_ids := removeAll i (rs_ids rs)\<rparr>)\<rparr>)"

definition install ::
  "channel_host \<Rightarrow> endpoint \<Rightarrow> nat \<Rightarrow> nat \<Rightarrow> nat \<Rightarrow> int \<Rightarrow> int \<Rightarrow> nat option \<Rightarrow> channel_host \<times> host_entry" where
  "install h ep token messages byteLimit sent sentBytes res =
    (let i = ct_nextId h;
         entry = \<lparr>en_id = i, en_endpoint = ep, en_token = token, en_messages = messages, en_bytes = byteLimit,
                  en_sent = sent, en_sentBytes = sentBytes, en_watch = None, en_resource = res\<rparr>;
         h1 = h\<lparr>ct_nextId := i + 1, ct_entries := mset (ct_entries h) i entry\<rparr>
     in (resource_add h1 res i, entry))"

definition find_entry :: "channel_host \<Rightarrow> jnum \<Rightarrow> host_entry result" where
  "find_entry h n =
    (case n of IntV i \<Rightarrow>
       (case (if i < 0 then None else mget (ct_entries h) (nat i)) of
          None \<Rightarrow> throw ''invalid, closed, or moved channel endpoint'' | Some entry \<Rightarrow> Inr entry)
     | _ \<Rightarrow> throw ''invalid, closed, or moved channel endpoint'')"

definition drop_entry :: "channel_host \<Rightarrow> nat \<Rightarrow> channel_host \<times> unit result" where
  "drop_entry h i =
    (case mget (ct_entries h) i of None \<Rightarrow> (h, Inr ()) | Some entry \<Rightarrow>
     let h1 = resource_remove (h\<lparr>ct_entries := mdelete (ct_entries h) i\<rparr>) (en_resource entry) i in
     case on_endpoint h close entry of
       (entry1, evs, Inl e) \<Rightarrow> (emit evs h1, Inl e)
     | (entry1, evs, Inr _) \<Rightarrow>
        (case finish_watch WatchClosed entry1 of (entry2, evs2) \<Rightarrow>
         (emit (evs @ evs2 @ [ToSupervisor (en_token entry), ControlClosed (en_token entry)]) h1, Inr ())))"

fun drop_entries :: "channel_host \<Rightarrow> nat list \<Rightarrow> channel_host \<times> unit result" where
  "drop_entries h [] = (h, Inr ())"
| "drop_entries h (i # is) =
    (case drop_entry h i of (h1, Inl e) \<Rightarrow> (h1, Inl e) | (h1, Inr _) \<Rightarrow> drop_entries h1 is)"

text \<open>An entry's listener on its control port, and the supervisor's on its own.\<close>

definition store :: "channel_host \<Rightarrow> nat \<Rightarrow> host_entry \<Rightarrow> table_event list \<Rightarrow> channel_host" where
  "store h i entry evs = emit evs (h\<lparr>ct_entries := mset (ct_entries h) i entry\<rparr>)"

definition controlMessage :: "channel_host \<Rightarrow> nat \<Rightarrow> control \<Rightarrow> channel_host \<times> unit result" where
  "controlMessage h i msg =
    (case mget (ct_entries h) i of None \<Rightarrow> (h, Inr ()) | Some entry \<Rightarrow>
     (case msg of
        RemoteClose \<Rightarrow> (case on_endpoint h remoteClose entry of (entry1, evs, r) \<Rightarrow> (store h i entry1 evs, r))
      | Abort \<Rightarrow> drop_entry h i))"

definition supervisorMessage :: "channel_host \<Rightarrow> nat \<Rightarrow> channel_host" where
  "supervisorMessage h token = finishSupervisor h token"

text \<open>A packet arriving on the data port of an entry.\<close>

definition dataMessage :: "channel_host \<Rightarrow> nat \<Rightarrow> packet \<Rightarrow> channel_host \<times> unit result" where
  "dataMessage h i packet =
    (case mget (ct_entries h) i of None \<Rightarrow> (h, Inr ()) | Some entry \<Rightarrow>
     (case on_endpoint h (\<lambda>e. arrived e packet) entry of (entry1, evs, r) \<Rightarrow> (store h i entry1 evs, r)))"

section \<open>Creating and releasing channels\<close>

definition supervise :: "nat \<Rightarrow> nat \<Rightarrow> nat \<Rightarrow> channel_host \<Rightarrow> channel_host" where
  "supervise token peer res h =
    h\<lparr>ct_supervisors := mset (ct_supervisors h) token \<lparr>su_peer = peer, su_done = False, su_resource = res\<rparr>\<rparr>"

definition create :: "channel_host \<Rightarrow> jnum \<Rightarrow> jnum \<Rightarrow> channel_host \<times> (description \<times> description \<times> nat) result" where
  "create h messages bytes =
    (case createPortChannel (ct_identities h) (ct_nextPort h) (ct_nextPort h + 1) messages bytes of
       (ids, Inl e) \<Rightarrow> (h\<lparr>ct_identities := ids\<rparr>, Inl e)
     | (ids, Inr (snd_ep, rcv_ep)) \<Rightarrow>
        let senderToken = ct_nextToken h; receiverToken = ct_nextToken h + 1;
            h1 = h\<lparr>ct_identities := ids, ct_nextPort := ct_nextPort h + 2, ct_nextToken := ct_nextToken h + 2,
                   ct_resources := mset (ct_resources h) senderToken \<lparr>rs_tokens = [senderToken, receiverToken], rs_ids = []\<rparr>\<rparr>;
            h2 = supervise receiverToken senderToken senderToken (supervise senderToken receiverToken senderToken h1);
            (h3, sender) = install h2 snd_ep senderToken (nat (the_int messages)) (nat (the_int bytes)) 0 0 (Some senderToken);
            (h4, receiver) = install h3 rcv_ep receiverToken (nat (the_int messages)) (nat (the_int bytes)) 0 0 (Some senderToken)
        in (h4, Inr (description_of sender, description_of receiver, senderToken)))"

definition release_resource :: "channel_host \<Rightarrow> nat \<Rightarrow> channel_host \<times> unit result" where
  "release_resource h r =
    (case mget (ct_resources h) r of None \<Rightarrow> (h, Inr ()) | Some rs \<Rightarrow>
     (case drop_entries h (rs_ids rs) of
        (h1, Inl e) \<Rightarrow> (h1, Inl e)
      | (h1, Inr _) \<Rightarrow>
         let h2 = emit (map (\<lambda>token. ToEntry token Abort) (filter (mhas (ct_supervisors h1)) (rs_tokens rs))) h1;
             h3 = foldl finishSupervisor h2 (rs_tokens rs)
         in (h3\<lparr>ct_resources := mdelete (ct_resources h3) r\<rparr>, Inr ())))"

fun release_resources :: "channel_host \<Rightarrow> jnum list \<Rightarrow> channel_host \<times> unit result" where
  "release_resources h [] = (h, Inr ())"
| "release_resources h (n # ns) =
    (case (case n of IntV i \<Rightarrow> if i < 0 then (h, Inr ()) else release_resource h (nat i) | _ \<Rightarrow> (h, Inr ())) of
       (h1, Inl e) \<Rightarrow> (h1, Inl e) | (h1, Inr _) \<Rightarrow> release_resources h1 ns)"

text \<open>The promise's executor runs \<^verbatim>\<open>poll\<close> at once; what it throws rejects the promise and leaves the watch in place.\<close>

definition watch :: "channel_host \<Rightarrow> host_entry \<Rightarrow> watch_request \<Rightarrow> channel_host \<times> unit result" where
  "watch h entry w =
    (if en_watch entry \<noteq> None then (h, throw ''a channel endpoint already has a host watch'')
     else
       let ep = en_endpoint entry;
           entry1 = entry\<lparr>en_watch := Some w, en_endpoint := ep\<lparr>ep_observers := set_add (en_id entry) (ep_observers ep)\<rparr>\<rparr>
       in case poll (ct_cancelled h) (ct_deadline h) entry1 of (entry2, evs, r) \<Rightarrow> (store h (en_id entry) entry2 evs, r))"

section \<open>Performing an effect\<close>

datatype channel_effect =
    CreateEffect jnum jnum
  | ReleaseEffect "jnum list"
  | CloseEffect jnum
  | SendEffect jnum "jstr option"
  | ConsumeEffect jnum
  | WatchEffect jnum watch_request
  | OtherEffect string jnum

datatype channel_reply =
    CreatedReply description description nat
  | EmptyReply
  | SentReply description bool  \<comment> \<open>whether the status is \<^verbatim>\<open>sent\<close>\<close>
  | WatchingReply

definition perform_send ::
  "bool \<Rightarrow> jserror \<Rightarrow> channel_host \<Rightarrow> host_entry \<Rightarrow> jstr option \<Rightarrow> channel_host \<times> channel_reply result" where
  "perform_send posts refusal h entry text =
    (case wire_bytes text of Inl e \<Rightarrow> (h, Inl e) | Inr payload \<Rightarrow>
     (case trySend posts refusal (en_endpoint entry) (Owned payload) of (ep, evs, out) \<Rightarrow>
      (case run_events (ct_cancelled h) (ct_deadline h) evs (entry\<lparr>en_endpoint := ep\<rparr>) of
         (entry1, log1, Inl e) \<Rightarrow> (store h (en_id entry) entry1 log1, Inl e)
       | (entry1, log1, Inr _) \<Rightarrow>
          (case out of
             Inl e \<Rightarrow> (store h (en_id entry) entry1 log1, Inl e)
           | Inr Sent \<Rightarrow>
              let entry2 = entry1\<lparr>en_sent := en_sent entry1 + 1, en_sentBytes := en_sentBytes entry1 + int (length payload)\<rparr>
              in (store h (en_id entry) entry2 log1, Inr (SentReply (description_of entry2) True))
           | Inr (SendClosed v) \<Rightarrow> (store h (en_id entry) entry1 log1, Inr (SentReply (description_of entry1) False))
           | Inr (Full v) \<Rightarrow>
              (store h (en_id entry) entry1 log1, throw ''channel credit accounting disagrees with the guest'')))))"

definition perform_consume :: "channel_host \<Rightarrow> host_entry \<Rightarrow> channel_host \<times> channel_reply result" where
  "perform_consume h entry =
    (case tryReceive (en_endpoint entry) of (ep, evs, out) \<Rightarrow>
     (case run_events (ct_cancelled h) (ct_deadline h) evs (entry\<lparr>en_endpoint := ep\<rparr>) of (entry1, log1, r) \<Rightarrow>
      (store h (en_id entry) entry1 log1,
       bind r (\<lambda>_. case out of Inl e \<Rightarrow> Inl e | Inr (Received v) \<Rightarrow> Inr EmptyReply
         | Inr _ \<Rightarrow> throw ''a staged channel message is missing''))))"

definition with_entry ::
  "channel_host \<Rightarrow> jnum \<Rightarrow> (host_entry \<Rightarrow> channel_host \<times> channel_reply result) \<Rightarrow> channel_host \<times> channel_reply result" where
  "with_entry h n f = (case find_entry h n of Inl e \<Rightarrow> (h, Inl e) | Inr entry \<Rightarrow> f entry)"

definition perform :: "bool \<Rightarrow> jserror \<Rightarrow> channel_host \<Rightarrow> channel_effect \<Rightarrow> channel_host \<times> channel_reply result" where
  "perform posts refusal h eff =
    (if ct_closed h then (h, throw ''the channel host is closed'') else
     case eff of
       CreateEffect messages bytes \<Rightarrow>
        (case create h messages bytes of (h1, r) \<Rightarrow> (h1, bind r (\<lambda>(s, v, res). Inr (CreatedReply s v res))))
     | ReleaseEffect ns \<Rightarrow> (case release_resources h ns of (h1, r) \<Rightarrow> (h1, bind r (\<lambda>_. Inr EmptyReply)))
     | CloseEffect n \<Rightarrow>
        (case n of IntV i \<Rightarrow>
           if i < 0 then (h, Inr EmptyReply)
           else (case drop_entry h (nat i) of (h1, r) \<Rightarrow> (h1, bind r (\<lambda>_. Inr EmptyReply)))
         | _ \<Rightarrow> (h, Inr EmptyReply))
     | SendEffect n text \<Rightarrow> with_entry h n (\<lambda>entry. perform_send posts refusal h entry text)
     | ConsumeEffect n \<Rightarrow> with_entry h n (perform_consume h)
     | WatchEffect n w \<Rightarrow>
        with_entry h n (\<lambda>entry. case watch h entry w of (h1, r) \<Rightarrow> (h1, bind r (\<lambda>_. Inr WatchingReply)))
     | OtherEffect name n \<Rightarrow> with_entry h n (\<lambda>entry. (h, throw (''unsupported channel operation '' @ name))))"

section \<open>Moving endpoints between tables\<close>

record moved_endpoint =
  mv_snapshot :: snapshot
  mv_token :: nat
  mv_sent :: int
  mv_sentBytes :: int

fun find_all :: "channel_host \<Rightarrow> jnum list \<Rightarrow> host_entry list result" where
  "find_all h [] = Inr []"
| "find_all h (n # ns) = bind (find_entry h n) (\<lambda>e. bind (find_all h ns) (\<lambda>es. Inr (e # es)))"

text \<open>One iteration of \<^verbatim>\<open>take\<close>.\<close>

definition take_entry :: "channel_host \<Rightarrow> host_entry \<Rightarrow> channel_host \<times> moved_endpoint result" where
  "take_entry h entry =
    (case finish_watch WatchMoved entry of (entry1, evs1) \<Rightarrow>
     (case move (ct_identities h) (en_endpoint entry1) of (ids, ep, evs, out) \<Rightarrow>
      let h1 = emit (evs1 @ map (DataPort (en_id entry)) evs) (h\<lparr>ct_identities := ids\<rparr>) in
      (case out of
         Inl e \<Rightarrow> (store h1 (en_id entry) (entry1\<lparr>en_endpoint := ep\<rparr>) [], Inl e)
       | Inr sn \<Rightarrow>
          (resource_remove (h1\<lparr>ct_entries := mdelete (ct_entries h1) (en_id entry)\<rparr>) (en_resource entry) (en_id entry),
           Inr \<lparr>mv_snapshot = sn, mv_token = en_token entry, mv_sent = en_sent entry, mv_sentBytes = en_sentBytes entry\<rparr>))))"

fun take_entries :: "channel_host \<Rightarrow> host_entry list \<Rightarrow> channel_host \<times> moved_endpoint list \<times> unit result" where
  "take_entries h [] = (h, [], Inr ())"
| "take_entries h (entry # es) =
    (case take_entry h entry of
       (h1, Inl e) \<Rightarrow> (h1, [], Inl e)
     | (h1, Inr item) \<Rightarrow> (case take_entries h1 es of (h2, items, r) \<Rightarrow> (h2, item # items, r)))"

definition close_moved :: "channel_host \<Rightarrow> moved_endpoint \<Rightarrow> channel_host \<times> unit result" where
  "close_moved h item =
    (case adoptPortEndpoint (ct_identities h) (mv_snapshot item) of
       (ids, Inl e) \<Rightarrow> (h\<lparr>ct_identities := ids\<rparr>, Inl e)
     | (ids, Inr ep) \<Rightarrow> (emit (map (DataPort 0) (snd (close ep))) (h\<lparr>ct_identities := ids\<rparr>), Inr ()))"

definition say_closed :: "moved_endpoint \<Rightarrow> channel_host \<Rightarrow> channel_host" where
  "say_closed item h = emit [ToSupervisor (mv_token item), ControlClosed (mv_token item)] h"

fun abandon_moved :: "channel_host \<Rightarrow> moved_endpoint list \<Rightarrow> channel_host \<times> unit result" where
  "abandon_moved h [] = (h, Inr ())"
| "abandon_moved h (item # items) =
    (case close_moved h item of (h1, Inl e) \<Rightarrow> (h1, Inl e) | (h1, Inr _) \<Rightarrow> abandon_moved (say_closed item h1) items)"

text \<open>\<open>None\<close> for a list that is not an array.\<close>

definition take_endpoints :: "channel_host \<Rightarrow> jnum list option \<Rightarrow> channel_host \<times> moved_endpoint list result" where
  "take_endpoints h ids =
    (case ids of None \<Rightarrow> (h, throw ''invalid endpoint startup list'') | Some ns \<Rightarrow>
     if \<not> distinct ns then (h, throw ''invalid endpoint startup list'') else
     case find_all h ns of Inl e \<Rightarrow> (h, Inl e) | Inr found \<Rightarrow>
     (case take_entries h found of
        (h1, items, Inr _) \<Rightarrow> (h1, Inr items)
      | (h1, items, Inl e) \<Rightarrow>
         (case abandon_moved h1 items of
            (h2, Inl e2) \<Rightarrow> (h2, Inl e2)
          | (h2, Inr _) \<Rightarrow>
             (case drop_entries h2 (map en_id found) of (h3, Inl e3) \<Rightarrow> (h3, Inl e3) | (h3, Inr _) \<Rightarrow> (h3, Inl e)))))"

fun adopt_loop :: "channel_host \<Rightarrow> moved_endpoint list \<Rightarrow> channel_host \<times> host_entry list \<times> unit result" where
  "adopt_loop h [] = (h, [], Inr ())"
| "adopt_loop h (item # items) =
    (case adoptPortEndpoint (ct_identities h) (mv_snapshot item) of
       (ids, Inl e) \<Rightarrow> (h\<lparr>ct_identities := ids\<rparr>, [], Inl e)
     | (ids, Inr ep) \<Rightarrow>
        (case install (h\<lparr>ct_identities := ids\<rparr>) ep (mv_token item) (nat (the_int (sn_messages (mv_snapshot item))))
                (nat (the_int (sn_bytes (mv_snapshot item)))) (mv_sent item) (mv_sentBytes item) None of (h1, entry) \<Rightarrow>
         (case adopt_loop h1 items of (h2, es, r) \<Rightarrow> (h2, entry # es, r))))"

fun discard_rest :: "channel_host \<Rightarrow> moved_endpoint list \<Rightarrow> channel_host" where
  "discard_rest h [] = h"
| "discard_rest h (item # items) = discard_rest (say_closed item (fst (close_moved h item))) items"

definition adopt :: "channel_host \<Rightarrow> moved_endpoint list \<Rightarrow> channel_host \<times> description list result" where
  "adopt h items =
    (case adopt_loop h items of
       (h1, es, Inr _) \<Rightarrow> (h1, Inr (map description_of es))
     | (h1, es, Inl e) \<Rightarrow>
        (case drop_entries h1 (map en_id es) of
           (h2, Inl e2) \<Rightarrow> (h2, Inl e2)
         | (h2, Inr _) \<Rightarrow> (discard_rest h2 (drop (length es) items), Inl e)))"

fun discard :: "channel_host \<Rightarrow> moved_endpoint list \<Rightarrow> channel_host" where
  "discard h [] = h"
| "discard h (item # items) =
    discard (revoke (say_closed item (fst (close_moved h item))) (mv_token item)) items"

section \<open>Interrupting and closing\<close>

definition interrupt_entry :: "bool \<Rightarrow> channel_host \<Rightarrow> nat \<Rightarrow> channel_host" where
  "interrupt_entry deadline h i =
    (case mget (ct_entries h) i of None \<Rightarrow> h | Some entry \<Rightarrow>
     case finish_watch (WatchCancelled deadline) entry of (entry1, evs) \<Rightarrow> store h i entry1 evs)"

definition interrupt :: "channel_host \<Rightarrow> bool \<Rightarrow> channel_host" where
  "interrupt h isDeadline =
    foldl (interrupt_entry isDeadline) (h\<lparr>ct_cancelled := True, ct_deadline := isDeadline\<rparr>) (mkeys (ct_entries h))"

definition reset :: "channel_host \<Rightarrow> channel_host" where
  "reset h = h\<lparr>ct_cancelled := False, ct_deadline := False\<rparr>"

definition settle :: "channel_host \<Rightarrow> channel_host \<times> unit result" where
  "settle h = drop_entries h (mkeys (ct_entries h))"

definition close_table :: "channel_host \<Rightarrow> channel_host \<times> unit result" where
  "close_table h =
    (if ct_closed h then (h, Inr ()) else
     let h0 = h\<lparr>ct_closed := True\<rparr> in
     case drop_entries h0 (mkeys (ct_entries h0)) of
       (h1, Inl e) \<Rightarrow> (h1, Inl e)
     | (h1, Inr _) \<Rightarrow>
        let h2 = foldl revoke h1 (mkeys (ct_supervisors h1));
            h3 = emit (map SupervisorClosed (mkeys (ct_supervisors h2))) h2
        in (h3\<lparr>ct_supervisors := [], ct_resources := []\<rparr>, Inr ()))"

record table_counts =
  tc_endpoints :: nat
  tc_supervisors :: nat
  tc_resources :: nat
  tc_watches :: nat

definition inspect_table :: "channel_host \<Rightarrow> table_counts" where
  "inspect_table h =
    \<lparr>tc_endpoints = length (ct_entries h), tc_supervisors = length (ct_supervisors h), tc_resources = length (ct_resources h),
     tc_watches = length (filter (\<lambda>entry. en_watch entry \<noteq> None) (mvalues (ct_entries h)))\<rparr>"

text \<open>What a startup message transfers: data ports, control ports, then queued buffers, item by item.\<close>

datatype transferable = TransferPort "nat option" | TransferControl nat | TransferBuffer "byte list"

definition endpointTransfers :: "moved_endpoint list \<Rightarrow> transferable list" where
  "endpointTransfers items = concat (map (\<lambda>item.
     TransferPort (sn_port (mv_snapshot item)) # TransferControl (mv_token item)
       # map (TransferBuffer \<circ> contents) (case sn_queue (mv_snapshot item) of Some q \<Rightarrow> q | None \<Rightarrow> [])) items)"

end
