(* ===== verification/Channel_Table.thy ===== *)
theory Channel_Table
  imports ChannelHost
begin

text \<open>
  Properties of the endpoint table: the supervisors of a channel always come in pairs that
  belong to a resource, watches match the observers of their endpoints, closing an
  interrupted table empties it and resolves every watch, endpoints keep their accounting
  when they move between tables, and what happens when a watched receiver is dropped.
\<close>

section \<open>The invariant\<close>

text \<open>What no transfer of packets changes of an endpoint.\<close>

definition shape :: "endpoint \<Rightarrow> nat list \<times> nat \<times> nat" where
  "shape e = (ep_observers e, ep_messages e, ep_bytes e)"

definition entry_good :: "nat \<Rightarrow> host_entry \<Rightarrow> bool" where
  "entry_good i entry \<longleftrightarrow> en_id entry = i \<and>
     shape (en_endpoint entry) = (if en_watch entry = None then [] else [i], en_messages entry, en_bytes entry)"

definition entries_ok :: "(nat, host_entry) jmap \<Rightarrow> nat \<Rightarrow> bool" where
  "entries_ok es next \<longleftrightarrow> wf_map es \<and> (\<forall>i entry. mget es i = Some entry \<longrightarrow> entry_good i entry \<and> 0 < i \<and> i < next) \<and> 0 < next"

definition tokens_of :: "(nat, resource) jmap \<Rightarrow> nat \<Rightarrow> nat list option" where
  "tokens_of res r = map_option rs_tokens (mget res r)"

definition pair_of :: "(nat, supervisor) jmap \<Rightarrow> nat \<Rightarrow> bool" where
  "pair_of sv r \<longleftrightarrow> (\<exists>d1 d2. mget sv r = Some \<lparr>su_peer = Suc r, su_done = d1, su_resource = r\<rparr> \<and>
     mget sv (Suc r) = Some \<lparr>su_peer = r, su_done = d2, su_resource = r\<rparr> \<and> \<not> (d1 \<and> d2))"

definition paired :: "(nat, supervisor) jmap \<Rightarrow> (nat, resource) jmap \<Rightarrow> nat \<Rightarrow> bool" where
  "paired sv res next \<longleftrightarrow>
     (\<forall>r ts. tokens_of res r = Some ts \<longrightarrow> ts = [r, Suc r] \<and> pair_of sv r \<and> Suc r < next) \<and>
     (\<forall>t s. mget sv t = Some s \<longrightarrow> tokens_of res (su_resource s) \<noteq> None \<and> (t = su_resource s \<or> t = Suc (su_resource s)))"

definition table_ok :: "channel_host \<Rightarrow> bool" where
  "table_ok h \<longleftrightarrow> entries_ok (ct_entries h) (ct_nextId h) \<and> paired (ct_supervisors h) (ct_resources h) (ct_nextToken h)"

lemma pairedD:
  assumes "paired sv res next" "mget sv t = Some s"
  obtains d1 d2 r where "su_resource s = r" "tokens_of res r = Some [r, Suc r]" "Suc r < next" "\<not> (d1 \<and> d2)"
    "mget sv r = Some \<lparr>su_peer = Suc r, su_done = d1, su_resource = r\<rparr>"
    "mget sv (Suc r) = Some \<lparr>su_peer = r, su_done = d2, su_resource = r\<rparr>"
    "t = r \<or> t = Suc r"
proof -
  have "tokens_of res (su_resource s) \<noteq> None" "t = su_resource s \<or> t = Suc (su_resource s)"
    using assms unfolding paired_def by blast+
  moreover from this obtain ts where "tokens_of res (su_resource s) = Some ts" by blast
  moreover from this have "ts = [su_resource s, Suc (su_resource s)]" "pair_of sv (su_resource s)" "Suc (su_resource s) < next"
    using assms(1) unfolding paired_def by blast+
  ultimately show thesis using that unfolding pair_of_def by blast
qed

lemma tokens_of_delete: "tokens_of (mdelete res r) r' = (if r' = r then None else tokens_of res r')"
  by (simp add: tokens_of_def)

text \<open>Both supervisors of a resource leave together with it.\<close>

lemma paired_remove:
  assumes "paired sv res next" "tokens_of res r = Some ts"
  shows "paired (mdelete (mdelete sv r) (Suc r)) (mdelete res r) next"
proof -
  have r: "pair_of sv r" using assms unfolding paired_def by blast
  have other: "pair_of (mdelete (mdelete sv r) (Suc r)) r'" if "r' \<noteq> r" "pair_of sv r'" for r'
    using r that unfolding pair_of_def by auto
  show ?thesis
    unfolding paired_def
  proof (intro conjI allI impI)
    fix r' ts assume "tokens_of (mdelete res r) r' = Some ts"
    then have "r' \<noteq> r" "tokens_of res r' = Some ts" by (auto simp: tokens_of_delete split: if_splits)
    with assms(1) other show "ts = [r', Suc r']" "pair_of (mdelete (mdelete sv r) (Suc r)) r'" "Suc r' < next"
      unfolding paired_def by blast+
  next
    fix t s assume "mget (mdelete (mdelete sv r) (Suc r)) t = Some s"
    then have t: "t \<noteq> r" "t \<noteq> Suc r" "mget sv t = Some s" by (auto split: if_splits)
    with assms(1) have "tokens_of res (su_resource s) \<noteq> None" "t = su_resource s \<or> t = Suc (su_resource s)"
      unfolding paired_def by blast+
    with t show "tokens_of (mdelete res r) (su_resource s) \<noteq> None" "t = su_resource s \<or> t = Suc (su_resource s)"
      by (auto simp: tokens_of_delete)
  qed
qed

lemma paired_done:
  assumes "paired sv res next" "mget sv t = Some s" "mget sv (su_peer s) = Some p" "\<not> su_done p"
  shows "paired (mset sv t (s\<lparr>su_done := True\<rparr>)) res next"
proof -
  have pair: "pair_of (mset sv t (s\<lparr>su_done := True\<rparr>)) r'" if "pair_of sv r'" for r'
  proof -
    obtain d1 d2 where d: "mget sv r' = Some \<lparr>su_peer = Suc r', su_done = d1, su_resource = r'\<rparr>"
      "mget sv (Suc r') = Some \<lparr>su_peer = r', su_done = d2, su_resource = r'\<rparr>" "\<not> (d1 \<and> d2)"
      using \<open>pair_of sv r'\<close> unfolding pair_of_def by blast
    show ?thesis
      by (cases "t = r'"; cases "t = Suc r'") (use d assms(2-4) in \<open>auto simp: pair_of_def ex_bool_eq\<close>)
  qed
  show ?thesis
    unfolding paired_def
  proof (intro conjI allI impI)
    fix r' ts assume "tokens_of res r' = Some ts"
    with assms(1) pair show "ts = [r', Suc r']" "pair_of (mset sv t (s\<lparr>su_done := True\<rparr>)) r'" "Suc r' < next"
      unfolding paired_def by blast+
  next
    fix t' s' assume "mget (mset sv t (s\<lparr>su_done := True\<rparr>)) t' = Some s'"
    then obtain s0 where "mget sv t' = Some s0" "su_resource s' = su_resource s0"
      using assms(2) by (auto split: if_splits)
    with assms(1) show "tokens_of res (su_resource s') \<noteq> None" "t' = su_resource s' \<or> t' = Suc (su_resource s')"
      unfolding paired_def by metis+
  qed
qed

lemma finishSupervisor_cases:
  assumes "paired (ct_supervisors h) (ct_resources h) next" "mget (ct_supervisors h) t = Some s"
  shows "\<exists>p. mget (ct_supervisors h) (su_peer s) = Some p \<and> su_peer s \<noteq> t \<and>
    (if su_done p
     then ct_supervisors (finishSupervisor h t) = mdelete (mdelete (ct_supervisors h) (su_resource s)) (Suc (su_resource s))
        \<and> ct_resources (finishSupervisor h t) = mdelete (ct_resources h) (su_resource s)
     else ct_supervisors (finishSupervisor h t) = mset (ct_supervisors h) t (s\<lparr>su_done := True\<rparr>)
        \<and> ct_resources (finishSupervisor h t) = ct_resources h)"
proof -
  obtain d1 d2 r where r: "t = r \<or> t = Suc r"
    "mget (ct_supervisors h) r = Some \<lparr>su_peer = Suc r, su_done = d1, su_resource = r\<rparr>"
    "mget (ct_supervisors h) (Suc r) = Some \<lparr>su_peer = r, su_done = d2, su_resource = r\<rparr>"
    using pairedD [OF assms] by metis
  have "t = r \<and> s = \<lparr>su_peer = Suc r, su_done = d1, su_resource = r\<rparr> \<or>
    t = Suc r \<and> s = \<lparr>su_peer = r, su_done = d2, su_resource = r\<rparr>"
    using r assms(2) by auto
  then show ?thesis
    using r(2,3) by (elim disjE conjE)
      (simp_all add: finishSupervisor_def Let_def emit_def mdelete_mset mdelete_commute [of _ "Suc r" r])
qed

lemma finishSupervisor_other [simp]:
  "ct_entries (finishSupervisor h t) = ct_entries h" "ct_nextId (finishSupervisor h t) = ct_nextId h"
  "ct_nextToken (finishSupervisor h t) = ct_nextToken h" "ct_identities (finishSupervisor h t) = ct_identities h"
  "ct_cancelled (finishSupervisor h t) = ct_cancelled h" "ct_closed (finishSupervisor h t) = ct_closed h"
  by (auto simp: finishSupervisor_def emit_def Let_def split: option.splits)

lemma emit_other [simp]:
  "ct_entries (emit evs h) = ct_entries h" "ct_nextId (emit evs h) = ct_nextId h" "ct_supervisors (emit evs h) = ct_supervisors h"
  "ct_resources (emit evs h) = ct_resources h" "ct_nextToken (emit evs h) = ct_nextToken h"
  "ct_identities (emit evs h) = ct_identities h" "ct_cancelled (emit evs h) = ct_cancelled h"
  "ct_deadline (emit evs h) = ct_deadline h" "ct_closed (emit evs h) = ct_closed h" "ct_log (emit evs h) = ct_log h @ evs"
  by (simp_all add: emit_def)

lemma paired_finishSupervisor:
  assumes "paired (ct_supervisors h) (ct_resources h) next"
  shows "paired (ct_supervisors (finishSupervisor h t)) (ct_resources (finishSupervisor h t)) next"
proof (cases "mget (ct_supervisors h) t")
  case None
  with assms show ?thesis by (simp add: finishSupervisor_def)
next
  case (Some s)
  obtain p where p: "mget (ct_supervisors h) (su_peer s) = Some p"
    "if su_done p
     then ct_supervisors (finishSupervisor h t) = mdelete (mdelete (ct_supervisors h) (su_resource s)) (Suc (su_resource s))
        \<and> ct_resources (finishSupervisor h t) = mdelete (ct_resources h) (su_resource s)
     else ct_supervisors (finishSupervisor h t) = mset (ct_supervisors h) t (s\<lparr>su_done := True\<rparr>)
        \<and> ct_resources (finishSupervisor h t) = ct_resources h"
    using finishSupervisor_cases [OF assms Some] by blast
  obtain ts where "tokens_of (ct_resources h) (su_resource s) = Some ts"
    using assms Some unfolding paired_def by blast
  with p paired_remove [OF assms] paired_done [OF assms Some p(1)] show ?thesis
    by (auto split: if_splits)
qed

lemma table_ok_finishSupervisor: "table_ok h \<Longrightarrow> table_ok (finishSupervisor h t)"
  using paired_finishSupervisor by (simp add: table_ok_def)

lemma table_ok_emit [simp]: "table_ok (emit evs h) = table_ok h"
  by (simp add: table_ok_def)

lemma table_ok_revoke: "table_ok h \<Longrightarrow> table_ok (revoke h t)"
  by (auto simp: revoke_def table_ok_finishSupervisor split: option.splits)

lemma table_ok_foldl: "(\<And>h x. table_ok h \<Longrightarrow> table_ok (f h x)) \<Longrightarrow> table_ok h \<Longrightarrow> table_ok (foldl f h xs)"
  by (induction xs arbitrary: h) auto

section \<open>Entries\<close>

lemma shape_updates [simp]:
  "shape (e\<lparr>ep_slots := x1\<rparr>) = shape e" "shape (e\<lparr>ep_room := x2\<rparr>) = shape e" "shape (e\<lparr>ep_closed := x3\<rparr>) = shape e"
  "shape (e\<lparr>ep_waiters := x4\<rparr>) = shape e" "shape (e\<lparr>ep_live := x5\<rparr>) = shape e" "shape (e\<lparr>ep_queue := x6\<rparr>) = shape e"
  "shape (e\<lparr>ep_retained := x7\<rparr>) = shape e" "shape (e\<lparr>ep_observers := x8\<rparr>) = (x8, snd (shape e))"
  by (simp_all add: shape_def)

lemma shape_observers: "ep_observers e = fst (shape e)"
  by (simp add: shape_def)

lemma finish_watch_good: "entry_good i entry \<Longrightarrow> finish_watch v entry = (entry', evs) \<Longrightarrow> entry_good i entry'"
  by (auto simp: finish_watch_def entry_good_def unobserve_def shape_observers split: option.splits if_splits)

lemma poll_good: "entry_good i entry \<Longrightarrow> poll c d entry = (entry', evs, r) \<Longrightarrow> entry_good i entry'"
  by (auto simp: poll_def Let_def split: if_splits option.splits prod.splits sum.splits receive_status.splits
      dest: finish_watch_good)

lemma run_events_good: "entry_good i entry \<Longrightarrow> run_events c d evs entry = (entry', log', r) \<Longrightarrow> entry_good i entry'"
proof (induction c d evs entry arbitrary: entry' log' r rule: run_events.induct)
  case (2 c d n evs entry)
  obtain entry1 log1 r1 where p: "poll c d entry = (entry1, log1, r1)" by (metis prod_cases3)
  with 2 have "entry_good i entry1" using poll_good by blast
  with 2 p show ?case by (cases r1) (auto split: prod.splits)
qed (auto split: prod.splits)

lemma shape_kept:
  "shape (fst (close e)) = shape e" "shape (fst (remoteClose e)) = shape e"
  "shape (fst (arrived e p)) = shape e" "shape (fst (trySend posts ref e v)) = shape e"
  "shape (fst (tryReceive e)) = shape e"
proof -
  have c: "shape (fst (close e)) = shape e" for e by (simp add: close_def wake_def Let_def)
  show "shape (fst (close e)) = shape e" by (rule c)
  show "shape (fst (remoteClose e)) = shape e" by (simp add: remoteClose_def wake_def)
  show "shape (fst (arrived e p)) = shape e"
    by (simp add: arrived_def arrived_sender_def arrived_receiver_def c wake_def split: packet.splits)
  show "shape (fst (trySend posts ref e v)) = shape e"
    using c [of e] by (auto simp: trySend_def split: prod.splits)
  show "shape (fst (tryReceive e)) = shape e"
    by (simp add: tryReceive_def split: list.splits)
qed

lemma on_endpoint_good:
  assumes "entry_good i entry" "on_endpoint h f entry = (entry', evs, r)"
    and "shape (fst (f (en_endpoint entry))) = shape (en_endpoint entry)"
  shows "entry_good i entry'"
proof -
  obtain e ev where f: "f (en_endpoint entry) = (e, ev)" by fastforce
  have "entry_good i (entry\<lparr>en_endpoint := e\<rparr>)" using assms(1,3) f by (simp add: entry_good_def)
  then show ?thesis using assms(2) f run_events_good by (simp add: on_endpoint_def)
qed

lemma entries_ok_mset:
  "entries_ok es next \<Longrightarrow> entry_good i entry \<Longrightarrow> 0 < i \<Longrightarrow> i < next \<Longrightarrow> entries_ok (mset es i entry) next"
  by (simp add: entries_ok_def)

lemma entries_ok_mdelete: "entries_ok es next \<Longrightarrow> entries_ok (mdelete es i) next"
  by (simp add: entries_ok_def)

lemma table_ok_store:
  assumes "table_ok h" "mget (ct_entries h) i = Some entry" "entry_good i entry'"
  shows "table_ok (store h i entry' evs)"
  using assms entries_ok_mset by (simp add: table_ok_def store_def) (metis entries_ok_def)

lemma tokens_of_resource [simp]:
  "tokens_of (ct_resources (resource_remove h res i)) r = tokens_of (ct_resources h) r"
  "tokens_of (ct_resources (resource_add h res i)) r = tokens_of (ct_resources h) r"
  by (auto simp: resource_remove_def resource_add_def tokens_of_def split: option.splits)

lemma resource_other [simp]:
  "ct_entries (resource_remove h res i) = ct_entries h" "ct_entries (resource_add h res i) = ct_entries h"
  "ct_nextId (resource_remove h res i) = ct_nextId h" "ct_nextId (resource_add h res i) = ct_nextId h"
  "ct_supervisors (resource_remove h res i) = ct_supervisors h" "ct_supervisors (resource_add h res i) = ct_supervisors h"
  "ct_nextToken (resource_remove h res i) = ct_nextToken h" "ct_nextToken (resource_add h res i) = ct_nextToken h"
  "ct_cancelled (resource_remove h res i) = ct_cancelled h" "ct_log (resource_remove h res i) = ct_log h"
  by (auto simp: resource_remove_def resource_add_def split: option.splits)

lemma paired_tokens: "(\<And>r. tokens_of res' r = tokens_of res r) \<Longrightarrow> paired sv res' next = paired sv res next"
  by (simp add: paired_def)

lemma drop_entry_effect:
  assumes "drop_entry h i = (h', r)"
  shows "ct_entries h' = mdelete (ct_entries h) i \<and> ct_supervisors h' = ct_supervisors h \<and>
    (\<forall>r. tokens_of (ct_resources h') r = tokens_of (ct_resources h) r) \<and> ct_nextId h' = ct_nextId h \<and>
    ct_nextToken h' = ct_nextToken h \<and> ct_cancelled h' = ct_cancelled h"
  using assms by (auto simp: drop_entry_def Let_def split: option.splits prod.splits sum.splits)

lemma table_ok_drop_entry: "drop_entry h i = (h', r) \<Longrightarrow> table_ok h \<Longrightarrow> table_ok h'"
  using drop_entry_effect [of h i h' r] entries_ok_mdelete paired_tokens [of "ct_resources h'" "ct_resources h"]
  by (simp add: table_ok_def)

lemma table_ok_drop_entries: "drop_entries h is = (h', r) \<Longrightarrow> table_ok h \<Longrightarrow> table_ok h'"
proof (induction "is" arbitrary: h)
  case (Cons i "is")
  obtain h1 r1 where d: "drop_entry h i = (h1, r1)" by fastforce
  with Cons.prems have "table_ok h1" using table_ok_drop_entry by blast
  with Cons d show ?case by (cases r1) auto
qed simp

lemma table_okD: "table_ok h \<Longrightarrow> mget (ct_entries h) i = Some entry \<Longrightarrow> entry_good i entry \<and> 0 < i \<and> i < ct_nextId h"
  by (auto simp: table_ok_def entries_ok_def)

lemma table_ok_flags [simp]:
  "table_ok (h\<lparr>ct_cancelled := b\<rparr>) = table_ok h" "table_ok (h\<lparr>ct_deadline := b\<rparr>) = table_ok h"
  "table_ok (h\<lparr>ct_closed := b\<rparr>) = table_ok h" "table_ok (h\<lparr>ct_identities := ids\<rparr>) = table_ok h"
  by (simp_all add: table_ok_def)

lemma table_ok_on_endpoint:
  assumes "table_ok h" "mget (ct_entries h) i = Some entry" "on_endpoint h f entry = (entry', evs, r)"
    and "shape (fst (f (en_endpoint entry))) = shape (en_endpoint entry)"
  shows "table_ok (store h i entry' evs')"
  using assms table_okD [OF assms(1,2)] on_endpoint_good table_ok_store by blast

lemma table_ok_controlMessage: "controlMessage h i msg = (h', r) \<Longrightarrow> table_ok h \<Longrightarrow> table_ok h'"
  by (auto simp: controlMessage_def shape_kept split: option.splits control.splits prod.splits
      intro: table_ok_on_endpoint table_ok_drop_entry)

lemma table_ok_dataMessage: "dataMessage h i packet = (h', r) \<Longrightarrow> table_ok h \<Longrightarrow> table_ok h'"
  by (auto simp: dataMessage_def shape_kept split: option.splits prod.splits intro: table_ok_on_endpoint)

lemma find_entry_Inr:
  "find_entry h n = Inr entry \<Longrightarrow> \<exists>i. n = IntV (int i) \<and> mget (ct_entries h) i = Some entry"
  by (cases n) (auto simp: find_entry_def split: option.splits if_splits intro!: exI [of _ "nat (the_int n)"])

lemma found_good:
  assumes "table_ok h" "find_entry h n = Inr entry"
  shows "entry_good (en_id entry) entry \<and> mget (ct_entries h) (en_id entry) = Some entry"
  using find_entry_Inr [OF assms(2)] table_okD [OF assms(1)] by (auto simp: entry_good_def)

lemma table_ok_watch:
  assumes "table_ok h" "find_entry h n = Inr entry" "watch h entry w = (h', r)"
  shows "table_ok h'"
proof (cases "en_watch entry")
  case None
  let ?e1 = "entry\<lparr>en_watch := Some w, en_endpoint := (en_endpoint entry)\<lparr>ep_observers := set_add (en_id entry) (ep_observers (en_endpoint entry))\<rparr>\<rparr>"
  have "entry_good (en_id entry) ?e1"
    using found_good [OF assms(1,2)] None by (simp add: entry_good_def set_add_def shape_observers)
  then have "poll c d ?e1 = (e2, evs, r2) \<Longrightarrow> entry_good (en_id entry) e2" for c d e2 evs r2
    by (rule poll_good)
  with None assms found_good [OF assms(1,2)] show ?thesis
    by (auto simp: watch_def Let_def split: prod.splits intro!: table_ok_store)
qed (use assms in \<open>simp add: watch_def\<close>)

lemma table_ok_perform_send:
  assumes "table_ok h" "find_entry h n = Inr entry" "perform_send posts refusal h entry text = (h', r)"
  shows "table_ok h'"
proof (cases "wire_bytes text")
  case (Inr payload)
  obtain ep evs out where s: "trySend posts refusal (en_endpoint entry) (Owned payload) = (ep, evs, out)" by (metis prod_cases3)
  obtain e1 log1 r1 where v: "run_events (ct_cancelled h) (ct_deadline h) evs (entry\<lparr>en_endpoint := ep\<rparr>) = (e1, log1, r1)"
    by (metis prod_cases3)
  have "entry_good (en_id entry) (entry\<lparr>en_endpoint := ep\<rparr>)"
    using found_good [OF assms(1,2)] shape_kept(4) [of posts refusal "en_endpoint entry" "Owned payload"] s
    by (simp add: entry_good_def)
  then have "entry_good (en_id entry) e1" using v run_events_good by blast
  then have "entry_good (en_id entry) e1" "entry_good (en_id entry) (e1\<lparr>en_sent := x, en_sentBytes := y\<rparr>)" for x y
    by (simp_all add: entry_good_def)
  with assms found_good [OF assms(1,2)] Inr s v show ?thesis
    by (auto simp: perform_send_def Let_def split: sum.splits send_status.splits intro!: table_ok_store)
qed (use assms in \<open>simp add: perform_send_def\<close>)

lemma table_ok_perform_consume:
  assumes "table_ok h" "find_entry h n = Inr entry" "perform_consume h entry = (h', r)"
  shows "table_ok h'"
proof -
  obtain ep evs out where s: "tryReceive (en_endpoint entry) = (ep, evs, out)" by (metis prod_cases3)
  obtain e1 log1 r1 where v: "run_events (ct_cancelled h) (ct_deadline h) evs (entry\<lparr>en_endpoint := ep\<rparr>) = (e1, log1, r1)"
    by (metis prod_cases3)
  have "entry_good (en_id entry) (entry\<lparr>en_endpoint := ep\<rparr>)"
    using found_good [OF assms(1,2)] shape_kept(5) [of "en_endpoint entry"] s by (simp add: entry_good_def)
  then have "entry_good (en_id entry) e1" using v run_events_good by blast
  with assms found_good [OF assms(1,2)] s v show ?thesis
    by (auto simp: perform_consume_def intro!: table_ok_store)
qed

lemma tokens_of_mset: "tokens_of (mset res r rs) r' = (if r' = r then Some (rs_tokens rs) else tokens_of res r')"
  by (simp add: tokens_of_def)

text \<open>A new channel takes the next two tokens.\<close>

lemma paired_create:
  assumes "paired sv res n" "rs_tokens rs = [n, Suc n]"
  shows "paired (mset (mset sv n \<lparr>su_peer = Suc n, su_done = False, su_resource = n\<rparr>) (Suc n)
      \<lparr>su_peer = n, su_done = False, su_resource = n\<rparr>) (mset res n rs) (Suc (Suc n))" (is "paired ?sv _ _")
proof -
  have old: "pair_of ?sv r" if "pair_of sv r" "Suc r < n" for r
    using that unfolding pair_of_def by auto
  have new: "pair_of ?sv n" by (simp add: pair_of_def ex_bool_eq)
  show ?thesis
    unfolding paired_def
  proof (intro conjI allI impI)
    fix r ts assume t: "tokens_of (mset res n rs) r = Some ts"
    have "tokens_of res r = Some ts \<Longrightarrow> ts = [r, Suc r] \<and> pair_of sv r \<and> Suc r < n"
      using assms(1) unfolding paired_def by blast
    then show "ts = [r, Suc r]" "pair_of ?sv r" "Suc r < Suc (Suc n)"
      using t assms(2) old new by (auto simp: tokens_of_mset split: if_splits)
  next
    fix t s assume "mget ?sv t = Some s"
    then show "tokens_of (mset res n rs) (su_resource s) \<noteq> None" "t = su_resource s \<or> t = Suc (su_resource s)"
      using assms(1) unfolding paired_def by (auto simp: tokens_of_mset split: if_splits)
  qed
qed

lemma install_ok:
  assumes "entries_ok (ct_entries h) (ct_nextId h)" "shape ep = ([], m, b)"
    and "install h ep token m b s sb res = (h', entry)"
  shows "entries_ok (ct_entries h') (ct_nextId h') \<and> ct_supervisors h' = ct_supervisors h \<and>
    (\<forall>r. tokens_of (ct_resources h') r = tokens_of (ct_resources h) r) \<and> ct_nextToken h' = ct_nextToken h"
proof -
  have "entry_good (ct_nextId h) entry" using assms(2,3) by (simp add: install_def Let_def entry_good_def) auto
  moreover have "entries_ok (ct_entries h) (Suc (ct_nextId h))" "0 < ct_nextId h"
    using assms(1) unfolding entries_ok_def by (simp_all add: less_Suc_eq)
  ultimately have "entries_ok (mset (ct_entries h) (ct_nextId h) entry) (Suc (ct_nextId h))"
    by (simp add: entries_ok_mset)
  with assms(3) show ?thesis by (auto simp: install_def Let_def)
qed

lemma fresh_shape:
  assumes "createPortChannel ids p1 p2 m b = (ids', Inr (s, v))"
  shows "shape s = ([], nat (the_int m), nat (the_int b)) \<and> shape v = ([], nat (the_int m), nat (the_int b))"
proof -
  from assms obtain ids1 where "endpoint ids (Some p1) Sender m b fresh_saved = (ids1, Inr s)"
    "endpoint ids1 (Some p2) Receiver m b fresh_saved = (ids', Inr v)"
    by (auto simp: createPortChannel_def split: sum.splits prod.splits)
  from fresh_endpoint [OF this(1)] fresh_endpoint [OF this(2)] show ?thesis by (auto simp: shape_def)
qed

lemma table_ok_create:
  assumes "create h m b = (h', r)" "table_ok h"
  shows "table_ok h'"
proof (cases "createPortChannel (ct_identities h) (ct_nextPort h) (ct_nextPort h + 1) m b")
  case (Pair ids out)
  show ?thesis
  proof (cases out)
    case (Inl e)
    with Pair assms show ?thesis by (auto simp: create_def)
  next
    case (Inr x)
    obtain s v where x: "x = (s, v)" by fastforce
    let ?t = "ct_nextToken h"
    let ?h1 = "h\<lparr>ct_identities := ids, ct_nextPort := ct_nextPort h + 2, ct_nextToken := ?t + 2,
        ct_resources := mset (ct_resources h) ?t \<lparr>rs_tokens = [?t, ?t + 1], rs_ids = []\<rparr>\<rparr>"
    let ?h2 = "supervise (?t + 1) ?t ?t (supervise ?t (?t + 1) ?t ?h1)"
    obtain h3 e1 where i1: "install ?h2 s ?t (nat (the_int m)) (nat (the_int b)) 0 0 (Some ?t) = (h3, e1)" by fastforce
    obtain h4 e2 where i2: "install h3 v (?t + 1) (nat (the_int m)) (nat (the_int b)) 0 0 (Some ?t) = (h4, e2)" by fastforce
    have h': "h' = h4" using assms(1) Pair Inr x i1 i2 by (simp add: create_def Let_def)
    have obs: "shape s = ([], nat (the_int m), nat (the_int b))" "shape v = ([], nat (the_int m), nat (the_int b))"
      using fresh_shape Pair Inr x by auto
    have "entries_ok (ct_entries ?h2) (ct_nextId ?h2)" using assms(2) by (simp add: table_ok_def supervise_def)
    note a = install_ok [OF this obs(1) i1]
    note b = install_ok [OF _ obs(2) i2]
    have "paired (ct_supervisors ?h2) (ct_resources ?h2) (ct_nextToken ?h2)"
      using assms(2) paired_create [of "ct_supervisors h" "ct_resources h" ?t]
      by (simp add: table_ok_def supervise_def)
    with a b h' show ?thesis by (auto simp: table_ok_def paired_def)
  qed
qed

section \<open>Moves\<close>

lemma table_ok_take_entry:
  assumes "take_entry h entry = (h', r)" "table_ok h" "entry_good i entry" "mget (ct_entries h) i = Some e0"
  shows "table_ok h' \<and> ct_entries h' = (if is_ok r then mdelete (ct_entries h) i else ct_entries h')
    \<and> (\<forall>j. j \<noteq> i \<longrightarrow> mget (ct_entries h') j = mget (ct_entries h) j)"
proof -
  obtain entry1 evs1 where f: "finish_watch WatchMoved entry = (entry1, evs1)" by fastforce
  obtain ids ep evs out where m: "move (ct_identities h) (en_endpoint entry1) = (ids, ep, evs, out)" by (metis prod_cases4)
  have g: "entry_good i entry1" using f assms(3) finish_watch_good by blast
  have obs: "shape ep = shape (en_endpoint entry1)"
    using m shape_kept(1) [of "en_endpoint entry1"] by (auto simp: move_def Let_def split: if_splits option.splits prod.splits)
  have i: "en_id entry = i" using assms(3) by (simp add: entry_good_def)
  let ?h1 = "emit (evs1 @ map (DataPort i) evs) (h\<lparr>ct_identities := ids\<rparr>)"
  show ?thesis
  proof (cases out)
    case (Inl e)
    have "table_ok ?h1" "mget (ct_entries ?h1) i = Some e0" using assms(2,4) by simp_all
    moreover have "entry_good i (entry1\<lparr>en_endpoint := ep\<rparr>)" using g obs by (simp add: entry_good_def)
    ultimately have "table_ok (store ?h1 i (entry1\<lparr>en_endpoint := ep\<rparr>) [])" by (rule table_ok_store)
    with assms(1) f m Inl i show ?thesis by (auto simp: take_entry_def Let_def store_def)
  next
    case (Inr sn)
    with assms(1) f m i have h': "h' = resource_remove (?h1\<lparr>ct_entries := mdelete (ct_entries ?h1) i\<rparr>) (en_resource entry) i"
      and r: "is_ok r" by (auto simp: take_entry_def Let_def)
    have "table_ok (h'\<lparr>ct_resources := ct_resources h\<rparr>)"
      using assms(2) entries_ok_mdelete unfolding h' by (simp add: table_ok_def)
    moreover have "tokens_of (ct_resources h') x = tokens_of (ct_resources h) x" for x unfolding h' by simp
    ultimately have "table_ok h'" unfolding table_ok_def using paired_tokens by (simp add: paired_def)
    with r show ?thesis unfolding h' by simp
  qed
qed

lemma table_ok_take_entries:
  assumes "take_entries h es = (h', items, r)" "table_ok h" "distinct (map en_id es)"
    and "\<forall>e \<in> set es. entry_good (en_id e) e \<and> mget (ct_entries h) (en_id e) = Some e"
  shows "table_ok h'"
  using assms
proof (induction es arbitrary: h items)
  case (Cons e es)
  obtain h1 r1 where t: "take_entry h e = (h1, r1)" by fastforce
  have h1: "table_ok h1" "\<forall>j. j \<noteq> en_id e \<longrightarrow> mget (ct_entries h1) j = mget (ct_entries h) j"
    using table_ok_take_entry [OF t Cons.prems(2)] Cons.prems(4) by auto
  have "en_id x \<noteq> en_id e" if "x \<in> set es" for x using Cons.prems(3) that by (metis distinct.simps(2) image_eqI list.simps(9) set_map)
  then have rest: "\<forall>x \<in> set es. entry_good (en_id x) x \<and> mget (ct_entries h1) (en_id x) = Some x"
    using h1(2) Cons.prems(4) by auto
  show ?case
  proof (cases r1)
    case (Inr item)
    obtain items' where "take_entries h1 es = (h', items', r)"
      using Cons.prems(1) t Inr by (auto split: prod.splits)
    then show ?thesis using Cons.IH [OF _ h1(1) _ rest] Cons.prems(3) by simp
  qed (use Cons.prems(1) t h1(1) in auto)
qed simp

lemma find_all_found:
  assumes "find_all h ns = Inr es" "table_ok h"
  shows "ns = map (\<lambda>e. IntV (int (en_id e))) es \<and>
    (\<forall>e \<in> set es. entry_good (en_id e) e \<and> mget (ct_entries h) (en_id e) = Some e)"
  using assms(1)
proof (induction ns arbitrary: es)
  case (Cons n ns)
  then obtain e es' where e: "find_entry h n = Inr e" "find_all h ns = Inr es'" "es = e # es'" by auto
  then show ?case using Cons.IH found_good [OF assms(2) e(1)] find_entry_Inr [OF e(1)] table_okD [OF assms(2)]
    by (auto simp: entry_good_def)
qed simp

lemma close_moved_ok: "table_ok h \<Longrightarrow> table_ok (fst (close_moved h item))"
  by (auto simp: close_moved_def split: prod.splits sum.splits)

lemma say_closed_ok [simp]: "table_ok (say_closed item h) = table_ok h"
  by (simp add: say_closed_def)

lemma abandon_moved_ok: "table_ok h \<Longrightarrow> table_ok (fst (abandon_moved h items))"
proof (induction items arbitrary: h)
  case (Cons item items)
  obtain h1 r1 where c: "close_moved h item = (h1, r1)" by fastforce
  with close_moved_ok [OF Cons.prems, of item] Cons.IH [of "say_closed item h1"] show ?case by (cases r1) auto
qed simp

lemma table_ok_take_endpoints:
  assumes "take_endpoints h ids = (h', r)" "table_ok h"
  shows "table_ok h'"
proof (cases "\<exists>ns es. ids = Some ns \<and> distinct ns \<and> find_all h ns = Inr es")
  case False
  with assms show ?thesis by (cases ids) (auto simp: take_endpoints_def split: if_splits sum.splits)
next
  case True
  then obtain ns es where f: "ids = Some ns" "distinct ns" "find_all h ns = Inr es" by blast
  obtain h1 items r1 where t: "take_entries h es = (h1, items, r1)" by (metis prod_cases3)
  have "distinct (map en_id es)"
    using f(2) find_all_found [OF f(3) assms(2)] by (auto simp: distinct_map inj_on_def)
  then have ok1: "table_ok h1" using table_ok_take_entries [OF t assms(2)] find_all_found [OF f(3) assms(2)] by blast
  obtain h2 r2 where a: "abandon_moved h1 items = (h2, r2)" by fastforce
  have ok2: "table_ok h2" using abandon_moved_ok [OF ok1, of items] a by simp
  have "drop_entries h2 xs = (h3, r3) \<Longrightarrow> table_ok h3" for xs h3 r3
    using table_ok_drop_entries ok2 by blast
  with assms(1) f t a ok1 ok2 show ?thesis
    by (auto simp: take_endpoints_def split: sum.splits prod.splits)
qed

lemma adopted_shape: "adoptPortEndpoint ids sn = (ids', Inr ep) \<Longrightarrow>
    shape ep = ([], nat (the_int (sn_messages sn)), nat (the_int (sn_bytes sn)))"
  by (auto simp: shape_def adoptPortEndpoint_def endpoint_def Let_def split: option.splits sum.splits if_splits)

lemma table_ok_install:
  assumes "table_ok h" "shape ep = ([], m, b)" "install h ep token m b s sb res = (h', entry)"
  shows "table_ok h'"
proof -
  have i: "entries_ok (ct_entries h') (ct_nextId h')" "ct_supervisors h' = ct_supervisors h"
    "\<And>r. tokens_of (ct_resources h') r = tokens_of (ct_resources h) r" "ct_nextToken h' = ct_nextToken h"
    using install_ok [OF _ assms(2,3)] assms(1) by (auto simp: table_ok_def)
  then show ?thesis using assms(1) paired_tokens [OF i(3)] by (simp add: table_ok_def)
qed

lemma table_ok_adopt_loop: "adopt_loop h items = (h', es, r) \<Longrightarrow> table_ok h \<Longrightarrow> table_ok h'"
proof (induction items arbitrary: h es)
  case (Cons item items)
  obtain ids out where a: "adoptPortEndpoint (ct_identities h) (mv_snapshot item) = (ids, out)" by fastforce
  show ?case
  proof (cases out)
    case (Inr ep)
    obtain h1 e where i: "install (h\<lparr>ct_identities := ids\<rparr>) ep (mv_token item) (nat (the_int (sn_messages (mv_snapshot item))))
        (nat (the_int (sn_bytes (mv_snapshot item)))) (mv_sent item) (mv_sentBytes item) None = (h1, e)" by fastforce
    have "table_ok h1"
      by (rule table_ok_install [OF _ _ i]) (use Cons.prems a Inr adopted_shape in auto)
    with Cons a Inr i show ?thesis by (auto split: prod.splits)
  qed (use Cons.prems a in auto)
qed simp

lemma discard_rest_ok: "table_ok h \<Longrightarrow> table_ok (discard_rest h items)"
  by (induction items arbitrary: h) (auto simp: close_moved_ok)

lemma discard_ok: "table_ok h \<Longrightarrow> table_ok (discard h items)"
  by (induction items arbitrary: h) (auto simp: close_moved_ok table_ok_revoke)

lemma table_ok_adopt:
  assumes "adopt h items = (h', r)" "table_ok h"
  shows "table_ok h'"
proof -
  obtain h1 es r1 where a: "adopt_loop h items = (h1, es, r1)" by (metis prod_cases3)
  have ok1: "table_ok h1" using table_ok_adopt_loop [OF a assms(2)] .
  obtain h2 r2 where d: "drop_entries h1 (map en_id es) = (h2, r2)" by fastforce
  have "table_ok h2" using table_ok_drop_entries [OF d ok1] .
  with assms(1) a d ok1 discard_rest_ok show ?thesis
    by (auto simp: adopt_def split: sum.splits)
qed

section \<open>Releasing\<close>

lemma finish_pair:
  assumes p: "paired (ct_supervisors h) (ct_resources h) n" and r: "tokens_of (ct_resources h) r = Some ts"
  shows "mget (ct_resources (finishSupervisor (finishSupervisor h r) (Suc r))) r = None"
proof -
  obtain d1 d2 where m: "mget (ct_supervisors h) r = Some \<lparr>su_peer = Suc r, su_done = d1, su_resource = r\<rparr>"
    "mget (ct_supervisors h) (Suc r) = Some \<lparr>su_peer = r, su_done = d2, su_resource = r\<rparr>"
    using p r unfolding paired_def pair_of_def by blast
  show ?thesis
  proof (cases d2)
    case True
    with m finishSupervisor_cases [OF p m(1)] have
      "ct_supervisors (finishSupervisor h r) = mdelete (mdelete (ct_supervisors h) r) (Suc r)"
      "ct_resources (finishSupervisor h r) = mdelete (ct_resources h) r" by auto
    then show ?thesis by (simp add: finishSupervisor_def [of "finishSupervisor h r"])
  next
    case False
    let ?h = "finishSupervisor h r"
    from False m finishSupervisor_cases [OF p m(1)] have
      s: "ct_supervisors ?h = mset (ct_supervisors h) r \<lparr>su_peer = Suc r, su_done = True, su_resource = r\<rparr>" by auto
    then have "mget (ct_supervisors ?h) (Suc r) = Some \<lparr>su_peer = r, su_done = d2, su_resource = r\<rparr>" using m by simp
    from finishSupervisor_cases [OF paired_finishSupervisor [OF p] this] s show ?thesis by auto
  qed
qed

lemma mdelete_filter: "mdelete m k = filter (\<lambda>p. fst p \<noteq> k) m"
  by (induction m) (auto simp: mdelete_def)

lemma drop_entries_effect:
  assumes "drop_entries h is = (h', r)"
  shows "ct_supervisors h' = ct_supervisors h \<and> (\<forall>x. tokens_of (ct_resources h') x = tokens_of (ct_resources h) x) \<and>
    ct_nextToken h' = ct_nextToken h \<and> ct_cancelled h' = ct_cancelled h \<and>
    (is_ok r \<longrightarrow> ct_entries h' = filter (\<lambda>p. fst p \<notin> set is) (ct_entries h))"
  using assms
proof (induction "is" arbitrary: h)
  case (Cons i "is")
  obtain h1 r1 where d: "drop_entry h i = (h1, r1)" by fastforce
  with Cons drop_entry_effect [OF d] show ?case
    by (cases r1) (auto simp: mdelete_filter intro: filter_cong)
qed simp

lemma table_ok_release_resource:
  assumes "release_resource h r = (h', out)" "table_ok h"
  shows "table_ok h'"
proof (cases "mget (ct_resources h) r")
  case (Some rs)
  obtain h1 o1 where d: "drop_entries h (rs_ids rs) = (h1, o1)" by fastforce
  have ok1: "table_ok h1" using table_ok_drop_entries [OF d assms(2)] .
  show ?thesis
  proof (cases o1)
    case (Inr u)
    have toks: "tokens_of (ct_resources h1) r = Some (rs_tokens rs)"
      using drop_entries_effect [OF d] Some by (simp add: tokens_of_def)
    then have rs: "rs_tokens rs = [r, Suc r]" using ok1 by (auto simp: table_ok_def paired_def)
    let ?h2 = "emit (map (\<lambda>token. ToEntry token Abort) (filter (mhas (ct_supervisors h1)) (rs_tokens rs))) h1"
    let ?h3 = "finishSupervisor (finishSupervisor ?h2 r) (Suc r)"
    have "table_ok ?h3" using ok1 by (simp add: table_ok_finishSupervisor)
    moreover have "mget (ct_resources ?h3) r = None"
      by (rule finish_pair [of _ "ct_nextToken h1"]) (use ok1 toks in \<open>auto simp: table_ok_def\<close>)
    moreover have "h' = ?h3\<lparr>ct_resources := mdelete (ct_resources ?h3) r\<rparr>"
      using assms(1) Some d Inr rs by (simp add: release_resource_def Let_def)
    ultimately show ?thesis by (simp add: table_ok_def)
  qed (use assms Some d ok1 in \<open>simp add: release_resource_def\<close>)
qed (use assms in \<open>simp add: release_resource_def\<close>)

lemma table_ok_release_resources: "release_resources h ns = (h', r) \<Longrightarrow> table_ok h \<Longrightarrow> table_ok h'"
proof (induction ns arbitrary: h)
  case (Cons n ns)
  obtain h1 r1 where s: "(case n of IntV i \<Rightarrow> if i < 0 then (h, Inr ()) else release_resource h (nat i) | _ \<Rightarrow> (h, Inr ())) = (h1, r1)"
    by fastforce
  then have "table_ok h1" using Cons.prems(2) table_ok_release_resource
    by (auto split: jnum.splits if_splits)
  with Cons s show ?case by (cases r1) auto
qed simp

section \<open>Reachable tables\<close>

lemma table_ok_perform:
  assumes "perform posts refusal h eff = (h', r)" "table_ok h"
  shows "table_ok h'"
proof (cases "ct_closed h")
  case False
  show ?thesis
  proof (cases eff)
    case (CreateEffect m b)
    obtain h1 r1 where "create h m b = (h1, r1)" by fastforce
    with table_ok_create assms False CreateEffect show ?thesis by (auto simp: perform_def)
  next
    case (ReleaseEffect ns)
    obtain h1 r1 where "release_resources h ns = (h1, r1)" by fastforce
    with table_ok_release_resources assms False ReleaseEffect show ?thesis by (auto simp: perform_def)
  next
    case (CloseEffect n)
    with assms False table_ok_drop_entry show ?thesis
      by (auto simp: perform_def split: jnum.splits if_splits prod.splits)
  next
    case (SendEffect n s)
    with assms False table_ok_perform_send show ?thesis by (auto simp: perform_def with_entry_def split: sum.splits)
  next
    case (ConsumeEffect n)
    with assms False table_ok_perform_consume show ?thesis by (auto simp: perform_def with_entry_def split: sum.splits)
  next
    case (WatchEffect n w)
    with assms False table_ok_watch show ?thesis by (auto simp: perform_def with_entry_def split: sum.splits prod.splits)
  qed (use assms False in \<open>auto simp: perform_def with_entry_def split: sum.splits\<close>)
qed (use assms in \<open>simp add: perform_def\<close>)

lemma table_ok_interrupt_entry: "table_ok h \<Longrightarrow> table_ok (interrupt_entry d h i)"
  by (auto simp: interrupt_entry_def split: option.splits prod.splits
      intro!: table_ok_store dest: table_okD intro: finish_watch_good)

lemma table_ok_interrupt: "table_ok h \<Longrightarrow> table_ok (interrupt h d)"
  unfolding interrupt_def by (rule table_ok_foldl) (auto simp: table_ok_interrupt_entry)

lemma table_ok_close_table:
  assumes "close_table h = (h', r)" "table_ok h"
  shows "table_ok h'"
proof -
  obtain h1 r1 where d: "drop_entries (h\<lparr>ct_closed := True\<rparr>) (mkeys (ct_entries h)) = (h1, r1)" by fastforce
  have ok1: "table_ok h1" using table_ok_drop_entries [OF d] assms(2) by simp
  have ok2: "table_ok (foldl revoke h1 xs)" for xs using table_ok_foldl [OF table_ok_revoke ok1] .
  have empty: "table_ok (h\<lparr>ct_supervisors := [], ct_resources := []\<rparr>)" if "table_ok h" for h
    using that by (simp add: table_ok_def paired_def tokens_of_def)
  show ?thesis
    using assms d ok1 ok2 by (cases r1) (auto simp: close_table_def Let_def intro!: empty split: if_splits)
qed

inductive table_step :: "channel_host \<Rightarrow> channel_host \<Rightarrow> bool" where
  performing: "perform posts refusal h eff = (h', r) \<Longrightarrow> table_step h h'"
| arriving: "dataMessage h i packet = (h', out) \<Longrightarrow> table_step h h'"
| controlling: "controlMessage h i msg = (h', out) \<Longrightarrow> table_step h h'"
| supervising: "table_step h (supervisorMessage h token)"
| taking: "take_endpoints h ids = (h', items) \<Longrightarrow> table_step h h'"
| adopting: "adopt h moved = (h', ds) \<Longrightarrow> table_step h h'"
| revoking: "table_step h (revoke h token)"
| discarding: "table_step h (discard h moved)"
| interrupting: "table_step h (interrupt h d)"
| resetting: "table_step h (reset h)"
| settling: "settle h = (h', out) \<Longrightarrow> table_step h h'"
| closing: "close_table h = (h', out) \<Longrightarrow> table_step h h'"

inductive table_reachable :: "channel_host \<Rightarrow> bool" where
  table_start: "table_reachable (createChannelHost ids port)"
| table_more: "table_reachable h \<Longrightarrow> table_step h h' \<Longrightarrow> table_reachable h'"

lemma table_ok_step: "table_step h h' \<Longrightarrow> table_ok h \<Longrightarrow> table_ok h'"
  by (induction rule: table_step.induct)
    (auto simp: supervisorMessage_def reset_def settle_def table_ok_revoke table_ok_finishSupervisor discard_ok table_ok_interrupt
      dest: table_ok_perform table_ok_dataMessage table_ok_controlMessage table_ok_take_endpoints table_ok_adopt
        table_ok_drop_entries table_ok_close_table)

lemma table_ok_reachable: "table_reachable h \<Longrightarrow> table_ok h"
proof (induction rule: table_reachable.induct)
  case (table_start ids port)
  show ?case by (simp add: createChannelHost_def table_ok_def entries_ok_def paired_def tokens_of_def)
qed (rule table_ok_step)

section \<open>Dropping an entry\<close>

fun observation :: "event \<Rightarrow> bool" where
  "observation (Observed c) = True"
| "observation _ = False"

lemma run_events_plain:
  "list_all (\<lambda>ev. \<not> observation ev) xs \<Longrightarrow> run_events c d (xs @ ys) entry =
     (case run_events c d ys entry of (e, l, r) \<Rightarrow> (e, map (DataPort (en_id entry)) xs @ l, r))"
proof (induction xs)
  case (Cons x xs)
  then show ?case by (cases x) (auto split: prod.splits)
qed simp

definition closed_endpoint :: "endpoint \<Rightarrow> endpoint" where
  "closed_endpoint e = e\<lparr>ep_live := False, ep_closed := True, ep_queue := [], ep_retained := 0, ep_waiters := []\<rparr>"

definition closing_events :: "endpoint \<Rightarrow> event list" where
  "closing_events e = [Posted (if ep_direction e = Sender then EndPacket else StopPacket), Unlisten, PortClosed]
     @ map Resumed (ep_waiters e)"

lemma close_events_split:
  "close e = (if ep_live e then (closed_endpoint e, closing_events e @ map Observed (ep_observers e)) else (e, []))"
  by (simp add: close_def wake_def Let_def closed_endpoint_def closing_events_def)

lemma closing_events_plain: "list_all (\<lambda>ev. \<not> observation ev) (closing_events e)"
  by (simp add: closing_events_def list_all_iff)

lemma on_close:
  assumes "entry_good i entry" "ep_live (en_endpoint entry)"
  shows "on_endpoint h close entry =
    (let entry1 = entry\<lparr>en_endpoint := closed_endpoint (en_endpoint entry)\<rparr>;
         evs = map (DataPort i) (closing_events (en_endpoint entry)) in
     if en_watch entry = None then (entry1, evs, Inr ())
     else case poll (ct_cancelled h) (ct_deadline h) entry1 of (e, l, r) \<Rightarrow> (e, evs @ l, r))"
proof -
  have i: "en_id entry = i" "ep_observers (en_endpoint entry) = (if en_watch entry = None then [] else [i])"
    using assms(1) by (simp_all add: entry_good_def shape_observers)
  show ?thesis
    using assms(2) i closing_events_plain
    by (auto simp: on_endpoint_def close_events_split run_events_plain Let_def split: prod.splits sum.splits)
qed

definition drops_cleanly :: "channel_host \<Rightarrow> host_entry \<Rightarrow> bool" where
  "drops_cleanly h entry \<longleftrightarrow> en_watch entry = None \<or> ep_direction (en_endpoint entry) = Sender \<or> ct_cancelled h
     \<or> \<not> ep_live (en_endpoint entry)"

lemma on_close_clean:
  assumes "entry_good i entry" "drops_cleanly h entry"
  shows "\<exists>e l. on_endpoint h close entry = (e, l, Inr ())"
proof (cases "ep_live (en_endpoint entry)")
  case True
  with assms show ?thesis
    by (auto simp: on_close [OF assms(1) True] Let_def drops_cleanly_def poll_def description_of_def inspect_def
        closed_endpoint_def split: option.splits prod.splits)
qed (simp add: on_endpoint_def close_def)

lemma drop_entry_clean:
  assumes "table_ok h" "\<And>entry. mget (ct_entries h) i = Some entry \<Longrightarrow> drops_cleanly h entry"
  shows "\<exists>h'. drop_entry h i = (h', Inr ())"
proof (cases "mget (ct_entries h) i")
  case (Some entry)
  from on_close_clean [of i entry h] table_okD [OF assms(1) Some] assms(2) [OF Some]
  obtain e l where "on_endpoint h close entry = (e, l, Inr ())" by blast
  with Some show ?thesis by (auto simp: drop_entry_def Let_def split: prod.splits)
qed (simp add: drop_entry_def)

lemma drop_entries_cancelled: "table_ok h \<Longrightarrow> ct_cancelled h \<Longrightarrow> \<exists>h'. drop_entries h is = (h', Inr ())"
proof (induction "is" arbitrary: h)
  case (Cons i "is")
  obtain h1 where d: "drop_entry h i = (h1, Inr ())"
    using drop_entry_clean [OF Cons.prems(1), of i] Cons.prems(2) by (auto simp: drops_cleanly_def)
  with Cons.IH [of h1] table_ok_drop_entry [OF d Cons.prems(1)] drop_entry_effect [OF d] Cons.prems(2) show ?case by simp
qed simp

lemma interrupt_entry_other [simp]:
  "ct_cancelled (interrupt_entry d h i) = ct_cancelled h" "ct_closed (interrupt_entry d h i) = ct_closed h"
  by (auto simp: interrupt_entry_def store_def split: option.splits prod.splits)

lemma foldl_interrupt_other:
  "ct_cancelled (foldl (interrupt_entry d) h is) = ct_cancelled h \<and> ct_closed (foldl (interrupt_entry d) h is) = ct_closed h"
  by (induction "is" arbitrary: h) auto

text \<open>C39. The bookkeeping of channels. In every state a table can reach, each resource has exactly
  two supervisors that name each other and not both of which are done, every supervisor
  belongs to such a resource, and each entry carries its own handle, the limits of its
  endpoint and, exactly when a watch is pending on it, one observer of its endpoint.
\<close>
theorem supervisors_paired:
  assumes "table_reachable h"
  shows "(\<forall>r rs. mget (ct_resources h) r = Some rs \<longrightarrow> rs_tokens rs = [r, Suc r] \<and>
       (\<exists>d1 d2. mget (ct_supervisors h) r = Some \<lparr>su_peer = Suc r, su_done = d1, su_resource = r\<rparr> \<and>
          mget (ct_supervisors h) (Suc r) = Some \<lparr>su_peer = r, su_done = d2, su_resource = r\<rparr> \<and> \<not> (d1 \<and> d2)))
    \<and> (\<forall>t s. mget (ct_supervisors h) t = Some s \<longrightarrow>
         mget (ct_resources h) (su_resource s) \<noteq> None \<and> (t = su_resource s \<or> t = Suc (su_resource s)))
    \<and> (\<forall>i entry. mget (ct_entries h) i = Some entry \<longrightarrow> en_id entry = i \<and> i < ct_nextId h \<and>
         ep_observers (en_endpoint entry) = (if en_watch entry = None then [] else [i]) \<and>
         ep_messages (en_endpoint entry) = en_messages entry \<and> ep_bytes (en_endpoint entry) = en_bytes entry)"
proof -
  have ok: "table_ok h" using assms by (rule table_ok_reachable)
  have "\<forall>i entry. mget (ct_entries h) i = Some entry \<longrightarrow> en_id entry = i \<and> i < ct_nextId h \<and>
         ep_observers (en_endpoint entry) = (if en_watch entry = None then [] else [i]) \<and>
         ep_messages (en_endpoint entry) = en_messages entry \<and> ep_bytes (en_endpoint entry) = en_bytes entry"
    using table_okD [OF ok] by (auto simp: entry_good_def shape_def)
  moreover have "paired (ct_supervisors h) (ct_resources h) (ct_nextToken h)" using ok by (simp add: table_ok_def)
  ultimately show ?thesis by (simp add: paired_def tokens_of_def pair_of_def)
qed

definition sample_table :: channel_host where
  "sample_table = fst (create (createChannelHost [] 1) (IntV 2) (IntV 8))"

lemma sample_table_reachable: "table_reachable sample_table"
proof -
  obtain h r where c: "create (createChannelHost [] 1) (IntV 2) (IntV 8) = (h, r)" by fastforce
  have "perform True (Error []) (createChannelHost [] 1) (CreateEffect (IntV 2) (IntV 8)) =
      (h, bind r (\<lambda>(s, v, res). Inr (CreatedReply s v res)))"
    using c by (simp add: perform_def createChannelHost_def)
  from table_more [OF table_start performing [OF this]] show ?thesis using c by (simp add: sample_table_def)
qed

theorem supervisors_paired_witness:
  "\<exists>entry. mget (ct_entries sample_table) 1 = Some entry \<and> en_id entry = 1 \<and> 1 < ct_nextId sample_table"
proof -
  have "mget (ct_entries sample_table) 1 \<noteq> None" by code_simp
  then show ?thesis using supervisors_paired [OF sample_table_reachable] by blast
qed

text \<open>Closing an interrupted table leaves nothing behind: for every reachable table that is not
  closed, interrupting it and closing it succeeds, and afterwards it has no endpoints, no
  supervisors, no resources and no watches.
\<close>
theorem close_after_interrupt:
  assumes "table_reachable h" "\<not> ct_closed h"
  shows "\<exists>h'. close_table (interrupt h d) = (h', Inr ()) \<and>
    inspect_table h' = \<lparr>tc_endpoints = 0, tc_supervisors = 0, tc_resources = 0, tc_watches = 0\<rparr>"
proof -
  let ?h = "interrupt h d"
  have ok: "table_ok ?h" using table_ok_interrupt table_ok_reachable assms(1) by blast
  have fl: "ct_cancelled ?h" "\<not> ct_closed ?h" using foldl_interrupt_other assms(2) by (auto simp: interrupt_def)
  let ?h0 = "?h\<lparr>ct_closed := True\<rparr>"
  obtain h1 where dr: "drop_entries ?h0 (mkeys (ct_entries ?h)) = (h1, Inr ())"
    using drop_entries_cancelled [of ?h0] ok fl(1) by auto
  have e1: "ct_entries h1 = []"
    using drop_entries_effect [OF dr] by (auto simp: filter_empty_conv mkeys_def)
  have keep: "ct_entries (foldl revoke h1 xs) = ct_entries h1" for xs
    by (induction xs arbitrary: h1) (auto simp: revoke_def split: option.splits)
  show ?thesis using fl(2) dr e1 keep
    by (simp add: close_table_def Let_def inspect_table_def mvalues_def)
qed

theorem close_after_interrupt_witness:
  "\<exists>h'. close_table (interrupt sample_table False) = (h', Inr ()) \<and> tc_endpoints (inspect_table h') = 0"
proof -
  have "\<not> ct_closed sample_table"
    by (simp add: sample_table_def create_def createChannelHost_def Let_def install_def resource_add_def supervise_def
        split: prod.splits sum.splits option.splits)
  from close_after_interrupt [OF sample_table_reachable this, of False] show ?thesis by auto
qed

subsection \<open>A watched receiver\<close>

lemma poll_dead_receiver:
  assumes "ep_direction (en_endpoint entry) = Receiver" "\<not> ep_live (en_endpoint entry)"
  shows "poll False d entry = (entry, [], throw ''invalid or moved receiver'')"
  using assms by (simp add: poll_def Let_def peek_def)

text \<open>Dropping a live receiver on which a watch is pending, on a table that is not interrupted,
  throws: closing the endpoint wakes the watch's observer while the endpoint is already dead,
  and its poll peeks the dead receiver. The entry is gone by then, but the watch is never
  resolved and the supervisor is never told.
\<close>
theorem dropping_watched_receiver_throws:
  assumes "table_reachable h" "mget (ct_entries h) i = Some entry" "en_watch entry \<noteq> None"
    and "ep_direction (en_endpoint entry) = Receiver" "ep_live (en_endpoint entry)" "\<not> ct_cancelled h"
  shows "\<exists>h' evs. drop_entry h i = (h', throw ''invalid or moved receiver'') \<and> ct_log h' = ct_log h @ evs \<and>
    mget (ct_entries h') i = None \<and> (\<forall>v. WatchResolved i v \<notin> set evs) \<and> ToSupervisor (en_token entry) \<notin> set evs"
proof -
  have g: "entry_good i entry" using table_okD [OF table_ok_reachable [OF assms(1)] assms(2)] by blast
  have "poll False (ct_deadline h) (entry\<lparr>en_endpoint := closed_endpoint (en_endpoint entry)\<rparr>) =
      (entry\<lparr>en_endpoint := closed_endpoint (en_endpoint entry)\<rparr>, [], throw ''invalid or moved receiver'')"
    using assms(4) by (simp add: poll_dead_receiver closed_endpoint_def)
  then show ?thesis
    using assms(2,3,6) on_close [OF g assms(5), of h] by (simp add: drop_entry_def Let_def) auto
qed

definition sample_watched :: channel_host where
  "sample_watched = fst (perform True (Error []) sample_table (WatchEffect (IntV 2) \<lparr>wq_consumed = Undef, wq_consumedBytes = Undef\<rparr>))"

lemma sample_watched_reachable: "table_reachable sample_watched"
  unfolding sample_watched_def
  by (rule table_more [OF sample_table_reachable performing]) (rule prod.collapse [symmetric])

definition sample_ports :: "identities" where
  "sample_ports = [(1, \<lparr>id_generation = IntV 1, id_claimed = True\<rparr>), (2, \<lparr>id_generation = IntV 1, id_claimed = True\<rparr>)]"

lemma sample_created_ports: "createPortChannel [] 1 2 (IntV 2) (IntV 8) = (sample_ports, Inr (sample_snd, sample_rcv))"
  by (simp add: createPortChannel_def endpoint_def limits_def accounted_def fresh_saved_def max_safe_def
      sample_snd_def sample_rcv_def mset_def mget_Cons sample_ports_def)

definition sample_receiver :: host_entry where
  "sample_receiver = \<lparr>en_id = 2, en_endpoint = sample_rcv, en_token = 2, en_messages = 2, en_bytes = 8,
     en_sent = 0, en_sentBytes = 0, en_watch = None, en_resource = Some 1\<rparr>"

lemma sample_table_entries:
  "mget (ct_entries sample_table) 2 = Some sample_receiver" "ct_cancelled sample_table = False" "ct_closed sample_table = False"
  "ct_identities sample_table = sample_ports" "ct_nextId sample_table = 3"
  using sample_created_ports
  by (simp_all add: sample_table_def create_def createChannelHost_def Let_def install_def resource_add_def supervise_def
      sample_receiver_def mget_Cons mset_def numeral_2_eq_2 split: option.splits)

lemma sample_watched_entry:
  "\<exists>entry. mget (ct_entries sample_watched) 2 = Some entry \<and> en_watch entry \<noteq> None \<and>
     ep_direction (en_endpoint entry) = Receiver \<and> ep_live (en_endpoint entry) \<and> \<not> ct_cancelled sample_watched"
  using sample_table_entries
  by (simp add: sample_watched_def perform_def with_entry_def find_entry_def watch_def Let_def sample_receiver_def poll_def
      peek_def sample_rcv_def sample_snd_def store_def description_of_def)

theorem dropping_watched_receiver_throws_witness:
  "\<exists>h'. drop_entry sample_watched 2 = (h', throw ''invalid or moved receiver'')"
  using sample_watched_entry dropping_watched_receiver_throws [OF sample_watched_reachable] by blast

section \<open>Moving an endpoint to another table\<close>

lemma description_endpoint:
  assumes "en_messages e1 = en_messages e2" "en_bytes e1 = en_bytes e2" "en_sent e1 = en_sent e2" "en_sentBytes e1 = en_sentBytes e2"
    and "en_endpoint e1 = (en_endpoint e2)\<lparr>ep_observers := obs\<rparr>"
  shows "description_of e1 = (description_of e2)\<lparr>de_handle := en_id e1\<rparr>"
  using assms by (simp add: description_of_def inspect_def Let_def)

text \<open>An endpoint keeps its accounting when it moves: taking an endpoint from a table removes it
  there, and the description under which another table adopts it is the one it had, credits,
  totals and closed flag included, under the new handle.
\<close>
theorem moved_endpoint_keeps_accounting:
  assumes "table_reachable h" "mget (ct_entries h) i = Some entry"
    and "take_endpoints h (Some [IntV (int i)]) = (h1, Inr items)" "adopt g items = (g1, Inr ds)"
  shows "ds = [(description_of entry)\<lparr>de_handle := ct_nextId g\<rparr>] \<and> mget (ct_entries h1) i = None"
proof -
  have g: "entry_good i entry" using table_okD [OF table_ok_reachable [OF assms(1)] assms(2)] by blast
  then have i: "en_id entry = i" by (simp add: entry_good_def)
  let ?e = "(en_endpoint entry)\<lparr>ep_observers := []\<rparr>"
  obtain entry1 evs1 where f: "finish_watch WatchMoved entry = (entry1, evs1)" by fastforce
  have e1: "en_endpoint entry1 = ?e"
  proof (cases "en_watch entry")
    case None
    with f g have "entry1 = entry" "ep_observers (en_endpoint entry) = []"
      by (simp_all add: finish_watch_def entry_good_def shape_observers)
    then show ?thesis by simp
  qed (use f g i in \<open>auto simp: finish_watch_def unobserve_def entry_good_def shape_observers\<close>)
  have tk: "take_entries h [entry] = (h1, items, Inr ())"
    using assms(2,3) by (auto simp: take_endpoints_def find_entry_def split: prod.splits sum.splits)
  obtain ids ep evs out where m: "move (ct_identities h) ?e = (ids, ep, evs, out)" by (metis prod_cases4)
  obtain sn where sn: "out = Inr sn"
    "items = [\<lparr>mv_snapshot = sn, mv_token = en_token entry, mv_sent = en_sent entry, mv_sentBytes = en_sentBytes entry\<rparr>]"
    using tk f e1 m by (auto simp: take_entry_def Let_def split: sum.splits)
  have none: "mget (ct_entries h1) i = None"
    using tk f e1 m sn i by (auto simp: take_entry_def Let_def)
  obtain ids2 ep2 where ad: "adoptPortEndpoint (ct_identities g) sn = (ids2, Inr ep2)"
    using assms(4) sn(2) by (cases "adoptPortEndpoint (ct_identities g) sn"; cases "snd (adoptPortEndpoint (ct_identities g) sn)")
      (auto simp: adopt_def)
  have ep2: "ep2 = ?e"
    using move_snapshot [OF m [unfolded sn(1)]] ad by (auto dest: adopt_snapshot)
  have lim: "nat (the_int (sn_messages sn)) = en_messages entry" "nat (the_int (sn_bytes sn)) = en_bytes entry"
    using adopted_shape [OF ad] g ep2 by (auto simp: shape_def entry_good_def)
  obtain entry2 where e2: "ds = [description_of entry2]" "en_endpoint entry2 = ?e" "en_id entry2 = ct_nextId g"
    "en_messages entry2 = en_messages entry" "en_bytes entry2 = en_bytes entry"
    "en_sent entry2 = en_sent entry" "en_sentBytes entry2 = en_sentBytes entry"
    using assms(4) sn(2) ad ep2 lim by (auto simp: adopt_def install_def Let_def)
  show ?thesis using e2 none description_endpoint [of entry2 entry "[]"] by simp
qed

theorem moved_endpoint_keeps_accounting_witness:
  "\<exists>h1 items g1. take_endpoints sample_table (Some [IntV (int 2)]) = (h1, Inr items) \<and>
     adopt (createChannelHost [] 9) items = (g1, Inr [description_of (sample_receiver\<lparr>en_id := 1\<rparr>)])"
proof -
  let ?g = "createChannelHost [] 9"
  let ?sn = "\<lparr>sn_port = Some 2, sn_direction = Receiver, sn_messages = IntV 2, sn_bytes = IntV 8, sn_closed = Some False,
    sn_slots = IntV 2, sn_room = IntV 8, sn_retained = IntV 0, sn_queue = Some [], sn_generation = IntV 2\<rparr>"
  have "\<exists>h1. take_endpoints sample_table (Some [IntV (int 2)]) =
      (h1, Inr [\<lparr>mv_snapshot = ?sn, mv_token = 2, mv_sent = 0, mv_sentBytes = 0\<rparr>])"
    using sample_table_entries
    by (simp add: take_endpoints_def find_entry_def sample_receiver_def take_entry_def finish_watch_def move_def sample_rcv_def
        sample_snd_def sample_ports_def mget_Cons max_safe_def Let_def)
  then obtain h1 items where tk: "take_endpoints sample_table (Some [IntV (int 2)]) = (h1, Inr items)"
    and it: "items = [\<lparr>mv_snapshot = ?sn, mv_token = 2, mv_sent = 0, mv_sentBytes = 0\<rparr>]" by blast
  have "\<exists>g1 ds. adopt ?g items = (g1, Inr ds)"
    by (simp add: it adopt_def adoptPortEndpoint_def endpoint_def limits_def accounted_def createChannelHost_def max_safe_def
        install_def Let_def)
  then obtain g1 ds where ad: "adopt ?g items = (g1, Inr ds)" by blast
  have "ds = [(description_of sample_receiver)\<lparr>de_handle := ct_nextId ?g\<rparr>]"
    using moved_endpoint_keeps_accounting [OF sample_table_reachable sample_table_entries(1) tk ad] by blast
  then show ?thesis using tk ad by (simp add: description_of_def createChannelHost_def Let_def)
qed

end
