(* ===== verification/WorkerPool.thy ===== *)
theory WorkerPool
  imports ChannelHost
begin

text \<open>
  The page's half of \<^verbatim>\<open>nupp.workers\<close>, \<^verbatim>\<open>src/runtime/wasm/worker-pool.mjs\<close>: shared lanes up to a
  capacity, dedicated lanes up to a limit, a queue of submitted tasks, their assignment,
  cancellation, replies and failures. Tasks and lanes are objects the pool refers to from
  several places, so the pool keeps a store of each and refers to them by reference. The
  pool moves the endpoints of a task through the channel table of its page. What the
  browser does when a worker is made or a message posted is the parameter \<open>env\<close>.
\<close>

section \<open>State\<close>

datatype task_result = TaskDone jstr | TaskFailed jstr | TaskCancelled bool

record task =
  ta_id :: int
  ta_module :: jstr
  ta_member :: jstr
  ta_payload :: jstr
  ta_settled :: bool
  ta_cancelRequested :: bool
  ta_deadline :: bool
  ta_waiters :: "nat list"
  ta_lane :: "nat option"
  ta_timer :: bool
  ta_result :: "task_result option"
  ta_endpoints :: "moved_endpoint list"
  ta_endpointTokens :: "nat list"
  ta_endpointArguments :: "jnum list"

record lane =
  la_task :: "nat option"
  la_dedicated :: bool
  la_ready :: bool
  la_failed :: "jstr option"

datatype pool_event =
    Booted nat
  | TaskPosted nat int "moved_endpoint list"
  | CancelPosted nat int bool
  | Terminated nat
  | Resolved nat task_result
  | PersistentRequested nat jnum
  | Uncaught jserror

record worker_pool =
  po_lanes :: "nat list"
  po_dedicated :: "nat list"
  po_capacity :: nat
  po_maxDedicated :: nat
  po_tasks :: "(int, nat) jmap"
  po_queue :: "nat list"
  po_started :: "int list"
  po_closed :: bool
  po_laneStore :: "(nat, lane) jmap"
  po_taskStore :: "(nat, task) jmap"
  po_nextLane :: nat
  po_nextTask :: nat
  po_channels :: "channel_host option"
  po_log :: "pool_event list"

text \<open>How opening a lane goes: the constructor throws, the boot message throws, the worker fails meanwhile, or it opens.\<close>

datatype open_outcome = ConstructorThrows jserror | BootThrows jserror | FailsOpening jstr | Opens

record worker_env =
  we_open :: "nat \<Rightarrow> open_outcome"
  we_post :: "nat \<Rightarrow> int \<Rightarrow> jserror option"  \<comment> \<open>\<open>Some e\<close>: \<^verbatim>\<open>postMessage\<close> throws \<open>e\<close>\<close>

definition say :: "pool_event list \<Rightarrow> worker_pool \<Rightarrow> worker_pool" where
  "say evs p = p\<lparr>po_log := po_log p @ evs\<rparr>"

definition upd_task :: "nat \<Rightarrow> (task \<Rightarrow> task) \<Rightarrow> worker_pool \<Rightarrow> worker_pool" where
  "upd_task t f p = (case mget (po_taskStore p) t of None \<Rightarrow> p | Some ta \<Rightarrow> p\<lparr>po_taskStore := mset (po_taskStore p) t (f ta)\<rparr>)"

definition upd_lane :: "nat \<Rightarrow> (lane \<Rightarrow> lane) \<Rightarrow> worker_pool \<Rightarrow> worker_pool" where
  "upd_lane l f p = (case mget (po_laneStore p) l of None \<Rightarrow> p | Some la \<Rightarrow> p\<lparr>po_laneStore := mset (po_laneStore p) l (f la)\<rparr>)"

definition laneCount :: "jnum \<Rightarrow> jnum \<Rightarrow> nat" where
  "laneCount maxLanes hardwareConcurrency =
    (let requested = (if isInteger maxLanes \<and> the_int maxLanes > 0 then the_int maxLanes else 8);
         available = (if isInteger hardwareConcurrency then the_int hardwareConcurrency else 4)
     in nat (max 1 (min requested (min available 64))))"

definition hex_char :: "nat \<Rightarrow> bool" where
  "hex_char c \<longleftrightarrow> 48 \<le> c \<and> c \<le> 57 \<or> 97 \<le> c \<and> c \<le> 102"

definition manifest_digest :: "jstr \<Rightarrow> bool" where
  "manifest_digest s \<longleftrightarrow> length s = 64 \<and> list_all hex_char s"

text \<open>\<open>None\<close>: a digest that is not a string. \<open>maxDedicated\<close> defaults to 64.\<close>

definition createWorkerPool ::
  "jstr option \<Rightarrow> bool \<Rightarrow> jnum \<Rightarrow> jnum \<Rightarrow> jnum \<Rightarrow> channel_host option \<Rightarrow> worker_pool result" where
  "createWorkerPool digest workerClass maxLanes hardwareConcurrency maxDedicated channels =
    (if (case digest of None \<Rightarrow> True | Some s \<Rightarrow> \<not> manifest_digest s)
     then throw ''a browser worker pool needs the manifest digest its page verified''
     else if \<not> workerClass
     then throw ''Web Workers are unavailable, so this host cannot run Nupp worker tasks''
     else let most = default maxDedicated (IntV 64) in
     if \<not> isSafeInteger most \<or> the_int most < 1
     then throw ''the dedicated worker limit must be a positive safe integer''
     else Inr \<lparr>po_lanes = [], po_dedicated = [], po_capacity = laneCount maxLanes hardwareConcurrency,
       po_maxDedicated = nat (the_int most), po_tasks = [], po_queue = [], po_started = [], po_closed = False,
       po_laneStore = [], po_taskStore = [], po_nextLane = 0, po_nextTask = 0, po_channels = channels, po_log = []\<rparr>)"

section \<open>Settling\<close>

definition drainStarted :: "worker_pool \<Rightarrow> worker_pool \<times> int list" where
  "drainStarted p = (p\<lparr>po_started := []\<rparr>, po_started p)"

definition settle_task :: "nat \<Rightarrow> task_result \<Rightarrow> worker_pool \<Rightarrow> worker_pool" where
  "settle_task t result p =
    (case mget (po_taskStore p) t of None \<Rightarrow> p | Some ta \<Rightarrow>
     if ta_settled ta then p else
     say (map (\<lambda>w. Resolved w result) (ta_waiters ta))
       (upd_task t (\<lambda>ta. ta\<lparr>ta_settled := True, ta_timer := False, ta_lane := None, ta_result := Some result, ta_waiters := []\<rparr>) p))"

definition revokeEndpoints :: "nat \<Rightarrow> worker_pool \<Rightarrow> worker_pool" where
  "revokeEndpoints t p =
    (case mget (po_taskStore p) t of None \<Rightarrow> p | Some ta \<Rightarrow>
     upd_task t (\<lambda>ta. ta\<lparr>ta_endpoints := []\<rparr>)
       (p\<lparr>po_channels := map_option (\<lambda>h. foldl revoke (discard h (ta_endpoints ta)) (ta_endpointTokens ta)) (po_channels p)\<rparr>))"

section \<open>Lanes\<close>

text \<open>\<^verbatim>\<open>laneFailure\<close> up to its closing \<^verbatim>\<open>dispatch()\<close>.\<close>

definition fail_lane :: "nat \<Rightarrow> jstr \<Rightarrow> bool \<Rightarrow> worker_pool \<Rightarrow> worker_pool" where
  "fail_lane l reason channelsClosed p =
    (case mget (po_laneStore p) l of None \<Rightarrow> p | Some la \<Rightarrow>
     let p1 = upd_lane l (\<lambda>la. la\<lparr>la_failed := Some reason\<rparr>) p;
         p2 = (case la_task la of Some t \<Rightarrow> if channelsClosed then p1 else revokeEndpoints t p1 | None \<Rightarrow> p1);
         p3 = say [Terminated l] (upd_lane l (\<lambda>la. la\<lparr>la_task := None\<rparr>) p2);
         p4 = (if la_dedicated la then p3\<lparr>po_dedicated := removeAll l (po_dedicated p3)\<rparr>
               else p3\<lparr>po_lanes := remove1 l (po_lanes p3)\<rparr>)
     in (case la_task la of Some t \<Rightarrow> settle_task t (TaskFailed reason) p4 | None \<Rightarrow> p4))"

definition openLane :: "worker_env \<Rightarrow> bool \<Rightarrow> worker_pool \<Rightarrow> worker_pool \<times> nat result" where
  "openLane env isDedicated p =
    (let l = po_nextLane p; la = \<lparr>la_task = None, la_dedicated = isDedicated, la_ready = False, la_failed = None\<rparr> in
     case we_open env l of
       ConstructorThrows e \<Rightarrow> (p, Inl e)
     | BootThrows e \<Rightarrow> (say [Terminated l] (p\<lparr>po_nextLane := l + 1\<rparr>), Inl e)
     | FailsOpening reason \<Rightarrow> (say [Booted l, Terminated l] (p\<lparr>po_nextLane := l + 1\<rparr>), Inl (Error reason))
     | Opens \<Rightarrow>
        let p1 = say [Booted l] (p\<lparr>po_nextLane := l + 1, po_laneStore := mset (po_laneStore p) l la\<rparr>)
        in (if isDedicated then p1\<lparr>po_dedicated := set_add l (po_dedicated p1)\<rparr>
            else p1\<lparr>po_lanes := po_lanes p1 @ [l]\<rparr>, Inr l))"

definition postAssigned :: "worker_env \<Rightarrow> nat \<Rightarrow> nat \<Rightarrow> worker_pool \<Rightarrow> worker_pool \<times> unit result" where
  "postAssigned env l t p =
    (case mget (po_taskStore p) t of None \<Rightarrow> (p, Inr ()) | Some ta \<Rightarrow>
     case we_post env l (ta_id ta) of
       Some e \<Rightarrow> (p, Inl e)
     | None \<Rightarrow> (upd_task t (\<lambda>ta. ta\<lparr>ta_endpointTokens := map mv_token (ta_endpoints ta), ta_endpoints := []\<rparr>)
                 (say [TaskPosted l (ta_id ta) (ta_endpoints ta)] p), Inr ()))"

definition lane_ready :: "worker_pool \<Rightarrow> nat \<Rightarrow> bool" where
  "lane_ready p l \<longleftrightarrow> (case mget (po_laneStore p) l of None \<Rightarrow> False | Some la \<Rightarrow> la_ready la)"

definition assignLane :: "worker_env \<Rightarrow> nat \<Rightarrow> nat \<Rightarrow> worker_pool \<Rightarrow> worker_pool \<times> unit result" where
  "assignLane env l t p =
    (let p1 = upd_task t (\<lambda>ta. ta\<lparr>ta_lane := Some l\<rparr>) (upd_lane l (\<lambda>la. la\<lparr>la_task := Some t\<rparr>) p)
     in if lane_ready p1 l then postAssigned env l t p1 else (p1, Inr ()))"

definition idle_lane :: "worker_pool \<Rightarrow> nat \<Rightarrow> bool" where
  "idle_lane p l \<longleftrightarrow> (case mget (po_laneStore p) l of None \<Rightarrow> False | Some la \<Rightarrow> la_task la = None)"

definition task_settled :: "worker_pool \<Rightarrow> nat \<Rightarrow> bool" where
  "task_settled p t \<longleftrightarrow> (case mget (po_taskStore p) t of None \<Rightarrow> True | Some ta \<Rightarrow> ta_settled ta)"

datatype acquired = GotLane nat | NoLane | LaneError jserror

definition acquireLane :: "worker_env \<Rightarrow> worker_pool \<Rightarrow> worker_pool \<times> acquired" where
  "acquireLane env p =
    (case find (idle_lane p) (po_lanes p) of
       Some l \<Rightarrow> (p, GotLane l)
     | None \<Rightarrow>
        if length (po_lanes p) < po_capacity p
        then (case openLane env False p of (p1, Inl e) \<Rightarrow> (p1, LaneError e) | (p1, Inr l) \<Rightarrow> (p1, GotLane l))
        else (p, NoLane))"

text \<open>One task leaves the queue for the lane at hand; a lane that cannot be given it fails.\<close>

definition hand_over :: "worker_env \<Rightarrow> nat \<Rightarrow> nat \<Rightarrow> worker_pool \<Rightarrow> worker_pool" where
  "hand_over env l t p =
    (if task_settled p t then p else
     case assignLane env l t p of
       (p1, Inr _) \<Rightarrow> p1
     | (p1, Inl e) \<Rightarrow> fail_lane l (js ''nupp: worker startup failed: '' @ message e) False p1)"

lemma upd_queue [simp]: "po_queue (upd_task t f p) = po_queue p" "po_queue (upd_lane l g p) = po_queue p" "po_queue (say evs p) = po_queue p"
  by (auto simp: upd_task_def upd_lane_def say_def split: option.splits)

lemma settle_queue [simp]: "po_queue (settle_task t r p) = po_queue p" "po_queue (revokeEndpoints t p) = po_queue p"
  by (auto simp: settle_task_def revokeEndpoints_def split: option.splits)

lemma fail_queue [simp]: "po_queue (fail_lane l reason c p) = po_queue p"
  by (auto simp: fail_lane_def Let_def split: option.splits)

lemma hand_over_queue [simp]: "po_queue (hand_over env l t p) = po_queue p"
  by (auto simp: hand_over_def assignLane_def postAssigned_def Let_def split: option.splits prod.splits sum.splits)

text \<open>
  The loop of \<^verbatim>\<open>dispatch\<close>. When a lane fails in it, \<^verbatim>\<open>laneFailure\<close> ends by calling \<^verbatim>\<open>dispatch\<close> and
  the loop then tests its condition again; both continue from the same state, so the one
  recursive call stands for the two (lemma \<open>dispatch_again\<close> below).
\<close>

function dispatch :: "worker_env \<Rightarrow> worker_pool \<Rightarrow> worker_pool" where
  "dispatch env p =
    (case po_queue p of [] \<Rightarrow> p | t # rest \<Rightarrow>
     if po_closed p then p else
     case acquireLane env p of
       (p1, NoLane) \<Rightarrow> p1
     | (p1, LaneError e) \<Rightarrow>
        dispatch env (settle_task t (TaskFailed (message e)) (revokeEndpoints t (p1\<lparr>po_queue := rest\<rparr>)))
     | (p1, GotLane l) \<Rightarrow> dispatch env (hand_over env l t (p1\<lparr>po_queue := rest\<rparr>)))"
  by pat_completeness auto

termination
  by (relation "measure (\<lambda>(env, p). length (po_queue p))") auto

declare dispatch.simps [simp del]

definition laneFailure :: "worker_env \<Rightarrow> nat \<Rightarrow> jstr \<Rightarrow> bool \<Rightarrow> worker_pool \<Rightarrow> worker_pool" where
  "laneFailure env l reason channelsClosed p =
    (case mget (po_laneStore p) l of None \<Rightarrow> p | Some la \<Rightarrow>
     if la_failed la \<noteq> None then p else dispatch env (fail_lane l reason channelsClosed p))"

datatype reply_status = ReplyDone "jstr option" | ReplyCancelled bool | ReplyFailed "jstr option" | ReplyOther

datatype lane_message =
    Ready
  | PersistentRequest jnum
  | StartedMessage jnum
  | FailedMessage jstr bool
  | Reply jnum reply_status
  | OtherMessage

fun reply_result :: "reply_status \<Rightarrow> task_result" where
  "reply_result (ReplyDone (Some payload)) = TaskDone payload"
| "reply_result (ReplyCancelled deadline) = TaskCancelled deadline"
| "reply_result (ReplyFailed (Some e)) = TaskFailed e"
| "reply_result _ = TaskFailed (js ''nupp: a worker lane returned an invalid task reply'')"

definition id_of :: "worker_pool \<Rightarrow> nat \<Rightarrow> jnum" where
  "id_of p t = (case mget (po_taskStore p) t of None \<Rightarrow> Undef | Some ta \<Rightarrow> IntV (ta_id ta))"

definition laneMessage :: "worker_env \<Rightarrow> nat \<Rightarrow> lane_message \<Rightarrow> worker_pool \<Rightarrow> worker_pool" where
  "laneMessage env l msg p =
    (case mget (po_laneStore p) l of None \<Rightarrow> p | Some la \<Rightarrow>
     if la_failed la \<noteq> None then p else
     case msg of
       Ready \<Rightarrow>
        let p1 = upd_lane l (\<lambda>la. la\<lparr>la_ready := True\<rparr>) p in
        (case la_task la of None \<Rightarrow> p1
         | Some t \<Rightarrow> (case postAssigned env l t p1 of (p2, Inr _) \<Rightarrow> p2 | (p2, Inl e) \<Rightarrow> say [Uncaught e] p2))
     | PersistentRequest n \<Rightarrow> say [PersistentRequested l n] p
     | StartedMessage n \<Rightarrow>
        (case (la_task la, n) of
           (Some t, IntV i) \<Rightarrow> if id_of p t = n then p\<lparr>po_started := po_started p @ [i]\<rparr> else p
         | _ \<Rightarrow> p)
     | FailedMessage e channelsClosed \<Rightarrow>
        laneFailure env l (js ''nupp: a worker lane could not start: '' @ e) channelsClosed p
     | Reply n status \<Rightarrow>
        if \<not> isSafeInteger n then p else
        (case la_task la of None \<Rightarrow> p | Some t \<Rightarrow>
         if id_of p t \<noteq> n then p else
         let p1 = settle_task t (reply_result status) (upd_lane l (\<lambda>la. la\<lparr>la_task := None\<rparr>) p);
             p2 = (if la_dedicated la then say [Terminated l] (p1\<lparr>po_dedicated := removeAll l (po_dedicated p1)\<rparr>) else p1)
         in dispatch env p2)
     | OtherMessage \<Rightarrow> p)"

section \<open>Cancelling and submitting\<close>

definition requestCancel :: "worker_env \<Rightarrow> nat \<Rightarrow> bool \<Rightarrow> worker_pool \<Rightarrow> worker_pool" where
  "requestCancel env t deadline p =
    (case mget (po_taskStore p) t of None \<Rightarrow> p | Some ta \<Rightarrow>
     if ta_settled ta then p else
     let late = (ta_deadline ta \<or> deadline);
         p1 = upd_task t (\<lambda>ta. ta\<lparr>ta_cancelRequested := True, ta_deadline := late\<rparr>) p in
     case ta_lane ta of
       Some l \<Rightarrow>
        if \<not> lane_ready p l then
          let p2 = upd_lane l (\<lambda>la. la\<lparr>la_task := None\<rparr>) p1;
              p3 = (case mget (po_laneStore p) l of None \<Rightarrow> p2
                    | Some la \<Rightarrow> if la_dedicated la
                        then say [Terminated l] (p2\<lparr>po_dedicated := removeAll l (po_dedicated p2)\<rparr>) else p2)
          in dispatch env (settle_task t (TaskCancelled late) (revokeEndpoints t p3))
        else say [CancelPosted l (ta_id ta) late] p1
     | None \<Rightarrow>
        settle_task t (TaskCancelled late) (revokeEndpoints t (p1\<lparr>po_queue := remove1 t (po_queue p1)\<rparr>)))"

datatype dedicated_flag = DedicatedUndefined | DedicatedBool bool | DedicatedInvalid

record submission =
  sb_task :: jnum
  sb_module :: "jstr option"
  sb_member :: "jstr option"
  sb_payload :: "jstr option"
  sb_dedicated :: dedicated_flag
  sb_endpoints :: "(jnum \<times> jnum) list"  \<comment> \<open>handle, argument\<close>
  sb_deadline :: bool  \<comment> \<open>a finite deadline is given\<close>

definition new_task :: "submission \<Rightarrow> task" where
  "new_task entry =
    \<lparr>ta_id = the_int (sb_task entry), ta_module = the (sb_module entry), ta_member = the (sb_member entry),
     ta_payload = the (sb_payload entry), ta_settled = False, ta_cancelRequested = False, ta_deadline = False,
     ta_waiters = [], ta_lane = None, ta_timer = False, ta_result = None, ta_endpoints = [], ta_endpointTokens = [],
     ta_endpointArguments = []\<rparr>"

text \<open>The endpoints a submission moves, taken from the page's table before anything else happens.\<close>

definition take_task_endpoints :: "submission \<Rightarrow> worker_pool \<Rightarrow> worker_pool \<times> task result" where
  "take_task_endpoints entry p =
    (if sb_endpoints entry = [] then (p, Inr (new_task entry)) else
     case po_channels p of
       None \<Rightarrow> (p, throw ''channel endpoint startup is unavailable'')
     | Some h \<Rightarrow>
        (case take_endpoints h (Some (map fst (sb_endpoints entry))) of
           (h1, Inl e) \<Rightarrow> (p\<lparr>po_channels := Some h1\<rparr>, Inl e)
         | (h1, Inr items) \<Rightarrow>
            (p\<lparr>po_channels := Some h1\<rparr>,
             Inr ((new_task entry)\<lparr>ta_endpoints := items, ta_endpointArguments := map snd (sb_endpoints entry)\<rparr>))))"

text \<open>\<^verbatim>\<open>revokeEndpoints\<close> of a task the pool does not know yet; it has no endpoint tokens.\<close>

definition revoke_new :: "task \<Rightarrow> worker_pool \<Rightarrow> worker_pool" where
  "revoke_new ta p = p\<lparr>po_channels := map_option (\<lambda>h. discard h (ta_endpoints ta)) (po_channels p)\<rparr>"

definition register_task :: "task \<Rightarrow> worker_pool \<Rightarrow> worker_pool" where
  "register_task ta p = p\<lparr>po_nextTask := po_nextTask p + 1,
     po_taskStore := mset (po_taskStore p) (po_nextTask p) ta, po_tasks := mset (po_tasks p) (ta_id ta) (po_nextTask p)\<rparr>"

text \<open>A task whose lane could not be given it is taken out again; nothing refers to it any more.\<close>

definition unregister_task :: "nat \<Rightarrow> int \<Rightarrow> nat \<Rightarrow> worker_pool \<Rightarrow> worker_pool" where
  "unregister_task t i l p =
    (let p1 = upd_lane l (\<lambda>la. la\<lparr>la_task := None\<rparr>)
                (p\<lparr>po_tasks := mdelete (po_tasks p) i, po_dedicated := removeAll l (po_dedicated p)\<rparr>);
         p2 = revokeEndpoints t (say [Terminated l] p1)
     in p2\<lparr>po_taskStore := mdelete (po_taskStore p2) t\<rparr>)"

definition accept_checks :: "submission \<Rightarrow> worker_pool \<Rightarrow> unit result" where
  "accept_checks entry p =
    (if \<not> isSafeInteger (sb_task entry) \<or> the_int (sb_task entry) < 1 \<or> sb_module entry = None
        \<or> sb_member entry = None \<or> sb_payload entry = None
     then throw ''invalid browser worker submission''
     else if mhas (po_tasks p) (the_int (sb_task entry)) then throw ''a browser worker task id was reused''
     else if sb_dedicated entry = DedicatedInvalid then throw ''invalid browser worker execution mode''
     else if sb_dedicated entry = DedicatedBool True \<and> length (po_dedicated p) \<ge> po_maxDedicated p
     then Inl (Error (js ''nupp: dedicated worker admission limit reached ('' @ decimal (po_maxDedicated p) @ js '')''))
     else Inr ())"

definition start_timer :: "submission \<Rightarrow> nat \<Rightarrow> worker_pool \<Rightarrow> worker_pool" where
  "start_timer entry t p = (if sb_deadline entry then upd_task t (\<lambda>ta. ta\<lparr>ta_timer := True\<rparr>) p else p)"

definition accept :: "worker_env \<Rightarrow> submission \<Rightarrow> worker_pool \<Rightarrow> worker_pool \<times> unit result" where
  "accept env entry p =
    (case accept_checks entry p of Inl e \<Rightarrow> (p, Inl e) | Inr _ \<Rightarrow>
     case take_task_endpoints entry p of
       (p1, Inl e) \<Rightarrow> (p1, Inl e)
     | (p1, Inr ta) \<Rightarrow>
        if sb_dedicated entry = DedicatedBool True then
          (case openLane env True p1 of
             (p2, Inl e) \<Rightarrow> (revoke_new ta p2, Inl e)
           | (p2, Inr l) \<Rightarrow>
              let t = po_nextTask p2 in
              (case assignLane env l t (register_task ta p2) of
                 (p3, Inr _) \<Rightarrow> (start_timer entry t p3, Inr ())
               | (p3, Inl e) \<Rightarrow> (unregister_task t (ta_id ta) l p3, Inl e)))
        else
          let t = po_nextTask p1; p2 = register_task ta p1
          in (start_timer entry t (p2\<lparr>po_queue := po_queue p2 @ [t]\<rparr>), Inr ()))"

fun accept_all :: "worker_env \<Rightarrow> submission list \<Rightarrow> worker_pool \<Rightarrow> worker_pool \<times> (jnum \<times> jstr) list" where
  "accept_all env [] p = (p, [])"
| "accept_all env (entry # entries) p =
    (case accept env entry p of
       (p1, Inr _) \<Rightarrow> accept_all env entries p1
     | (p1, Inl e) \<Rightarrow> (case accept_all env entries p1 of (p2, rs) \<Rightarrow> (p2, (sb_task entry, message e) # rs)))"

record submit_reply =
  sr_lanes :: nat
  sr_rejected :: "(jnum \<times> jstr) list"
  sr_started :: "int list"

text \<open>\<open>None\<close>: \<^verbatim>\<open>tasks\<close> is not an array.\<close>

definition submit :: "worker_env \<Rightarrow> submission list option \<Rightarrow> worker_pool \<Rightarrow> worker_pool \<times> submit_reply result" where
  "submit env entries p =
    (if po_closed p then (p, throw ''the browser worker pool is closed'') else
     case entries of None \<Rightarrow> (p, throw ''invalid browser worker submission'') | Some es \<Rightarrow>
     case accept_all env es p of (p1, rejected) \<Rightarrow>
     case drainStarted (dispatch env p1) of (p2, started) \<Rightarrow>
       (p2, Inr \<lparr>sr_lanes = po_capacity p, sr_rejected = rejected, sr_started = started\<rparr>))"

datatype await_outcome = AwaitSettled task_result "int list" | AwaitPending

definition settlement :: "jnum \<Rightarrow> nat \<Rightarrow> worker_pool \<Rightarrow> worker_pool \<times> await_outcome result" where
  "settlement n waiter p =
    (case (case n of IntV i \<Rightarrow> mget (po_tasks p) i | _ \<Rightarrow> None) of
       None \<Rightarrow> (p, throw ''a browser worker task was awaited twice or never submitted'')
     | Some t \<Rightarrow>
        (case mget (po_taskStore p) t of
           None \<Rightarrow> (p, throw ''a browser worker task was awaited twice or never submitted'')
         | Some ta \<Rightarrow>
            (case ta_result ta of
               Some result \<Rightarrow>
                (case drainStarted (p\<lparr>po_tasks := mdelete (po_tasks p) (ta_id ta)\<rparr>) of (p1, started) \<Rightarrow>
                 (p1, Inr (AwaitSettled result started)))
             | None \<Rightarrow> (upd_task t (\<lambda>ta. ta\<lparr>ta_waiters := ta_waiters ta @ [waiter]\<rparr>) p, Inr AwaitPending))))"

text \<open>The continuation of an awaited promise.\<close>

definition settlement_resumed :: "int \<Rightarrow> worker_pool \<Rightarrow> worker_pool \<times> int list" where
  "settlement_resumed i p = drainStarted (p\<lparr>po_tasks := mdelete (po_tasks p) i\<rparr>)"

definition cancel :: "worker_env \<Rightarrow> jnum \<Rightarrow> worker_pool \<Rightarrow> worker_pool \<times> int list" where
  "cancel env n p =
    drainStarted (case (case n of IntV i \<Rightarrow> mget (po_tasks p) i | _ \<Rightarrow> None) of
      None \<Rightarrow> p | Some t \<Rightarrow> requestCancel env t False p)"

definition timer_fires :: "worker_env \<Rightarrow> nat \<Rightarrow> worker_pool \<Rightarrow> worker_pool" where
  "timer_fires env t p =
    (case mget (po_taskStore p) t of None \<Rightarrow> p | Some ta \<Rightarrow>
     if ta_timer ta then requestCancel env t True (upd_task t (\<lambda>ta. ta\<lparr>ta_timer := False\<rparr>) p) else p)"

datatype pool_effect = SubmitEffect "submission list option" | AwaitEffect jnum nat | CancelEffect jnum | UnknownEffect string

datatype pool_reply = SubmitReply submit_reply | AwaitReply await_outcome | CancelReply "int list"

definition perform_pool :: "worker_env \<Rightarrow> pool_effect \<Rightarrow> worker_pool \<Rightarrow> worker_pool \<times> pool_reply result" where
  "perform_pool env eff p =
    (case eff of
       SubmitEffect entries \<Rightarrow> (case submit env entries p of (p1, r) \<Rightarrow> (p1, bind r (\<lambda>x. Inr (SubmitReply x))))
     | AwaitEffect n waiter \<Rightarrow> (case settlement n waiter p of (p1, r) \<Rightarrow> (p1, bind r (\<lambda>x. Inr (AwaitReply x))))
     | CancelEffect n \<Rightarrow> (case cancel env n p of (p1, started) \<Rightarrow> (p1, Inr (CancelReply started)))
     | UnknownEffect name \<Rightarrow> (p, throw (''unsupported browser worker operation '' @ name)))"

section \<open>Closing\<close>

definition close_task :: "worker_pool \<Rightarrow> nat \<Rightarrow> worker_pool" where
  "close_task p t = settle_task t (TaskFailed (js ''nupp: the browser worker pool closed'')) (revokeEndpoints t p)"

definition close_pool :: "worker_pool \<Rightarrow> worker_pool" where
  "close_pool p =
    (if po_closed p then p else
     let p1 = foldl close_task (p\<lparr>po_closed := True\<rparr>) (mvalues (po_tasks p))
     in say (map Terminated (po_lanes p1) @ map Terminated (po_dedicated p1)) (p1\<lparr>po_lanes := [], po_dedicated := []\<rparr>))"

end
