(* ===== verification/Pool_Protocol.thy ===== *)
theory Pool_Protocol
  imports WorkerPool
begin

text \<open>
  Properties of the worker pool: no accepted task is lost, lanes stay within their bounds and
  no lane is idle while a task waits, a settled task keeps its result, and closing settles
  everything.
\<close>

section \<open>Store updates\<close>

named_theorems pool_simps \<open>fields of an updated pool\<close>

lemma task_upd [pool_simps]:
  "mget (po_taskStore (upd_task t f p)) s = (if s = t then map_option f (mget (po_taskStore p) t) else mget (po_taskStore p) s)"
  "po_laneStore (upd_task t f p) = po_laneStore p" "po_lanes (upd_task t f p) = po_lanes p"
  "po_dedicated (upd_task t f p) = po_dedicated p" "po_tasks (upd_task t f p) = po_tasks p"
  "po_closed (upd_task t f p) = po_closed p" "po_capacity (upd_task t f p) = po_capacity p"
  "po_maxDedicated (upd_task t f p) = po_maxDedicated p" "po_nextLane (upd_task t f p) = po_nextLane p"
  "po_nextTask (upd_task t f p) = po_nextTask p" "po_channels (upd_task t f p) = po_channels p"
  by (auto simp: upd_task_def split: option.splits)

lemma lane_upd [pool_simps]:
  "mget (po_laneStore (upd_lane l f p)) k = (if k = l then map_option f (mget (po_laneStore p) l) else mget (po_laneStore p) k)"
  "po_taskStore (upd_lane l f p) = po_taskStore p" "po_lanes (upd_lane l f p) = po_lanes p"
  "po_dedicated (upd_lane l f p) = po_dedicated p" "po_tasks (upd_lane l f p) = po_tasks p"
  "po_closed (upd_lane l f p) = po_closed p" "po_capacity (upd_lane l f p) = po_capacity p"
  "po_maxDedicated (upd_lane l f p) = po_maxDedicated p" "po_nextLane (upd_lane l f p) = po_nextLane p"
  "po_nextTask (upd_lane l f p) = po_nextTask p" "po_channels (upd_lane l f p) = po_channels p"
  by (auto simp: upd_lane_def split: option.splits)

lemma say_upd [pool_simps]:
  "po_taskStore (say evs p) = po_taskStore p" "po_laneStore (say evs p) = po_laneStore p" "po_lanes (say evs p) = po_lanes p"
  "po_dedicated (say evs p) = po_dedicated p" "po_tasks (say evs p) = po_tasks p"
  "po_closed (say evs p) = po_closed p" "po_capacity (say evs p) = po_capacity p"
  "po_maxDedicated (say evs p) = po_maxDedicated p" "po_nextLane (say evs p) = po_nextLane p"
  "po_nextTask (say evs p) = po_nextTask p" "po_channels (say evs p) = po_channels p"
  by (simp_all add: say_def)

definition settled_as :: "task_result \<Rightarrow> task \<Rightarrow> task" where
  "settled_as r ta = (if ta_settled ta then ta else
     ta\<lparr>ta_settled := True, ta_timer := False, ta_lane := None, ta_result := Some r, ta_waiters := []\<rparr>)"

lemma settle_upd [pool_simps]:
  "mget (po_taskStore (settle_task t r p)) s = (if s = t then map_option (settled_as r) (mget (po_taskStore p) t) else mget (po_taskStore p) s)"
  "po_laneStore (settle_task t r p) = po_laneStore p" "po_lanes (settle_task t r p) = po_lanes p"
  "po_dedicated (settle_task t r p) = po_dedicated p" "po_tasks (settle_task t r p) = po_tasks p"
  "po_closed (settle_task t r p) = po_closed p" "po_capacity (settle_task t r p) = po_capacity p"
  "po_maxDedicated (settle_task t r p) = po_maxDedicated p" "po_nextLane (settle_task t r p) = po_nextLane p"
  "po_nextTask (settle_task t r p) = po_nextTask p" "po_channels (settle_task t r p) = po_channels p"
  by (auto simp: settle_task_def pool_simps settled_as_def split: option.splits)

lemma revoke_upd [pool_simps]:
  "mget (po_taskStore (revokeEndpoints t p)) s = (if s = t then map_option (\<lambda>ta. ta\<lparr>ta_endpoints := []\<rparr>) (mget (po_taskStore p) t) else mget (po_taskStore p) s)"
  "po_laneStore (revokeEndpoints t p) = po_laneStore p" "po_lanes (revokeEndpoints t p) = po_lanes p"
  "po_dedicated (revokeEndpoints t p) = po_dedicated p" "po_tasks (revokeEndpoints t p) = po_tasks p"
  "po_closed (revokeEndpoints t p) = po_closed p" "po_capacity (revokeEndpoints t p) = po_capacity p"
  "po_maxDedicated (revokeEndpoints t p) = po_maxDedicated p" "po_nextLane (revokeEndpoints t p) = po_nextLane p"
  "po_nextTask (revokeEndpoints t p) = po_nextTask p"
  by (auto simp: revokeEndpoints_def pool_simps split: option.splits)

section \<open>The invariant\<close>

text \<open>The parts of tasks and lanes the invariant is about.\<close>

record task_view =
  v_id :: int
  v_settled :: bool
  v_lane :: "nat option"
  v_result :: "task_result option"

record lane_view =
  v_task :: "nat option"
  v_dedicated :: bool

definition task_view :: "task \<Rightarrow> task_view" where
  "task_view ta = \<lparr>v_id = ta_id ta, v_settled = ta_settled ta, v_lane = ta_lane ta, v_result = ta_result ta\<rparr>"

definition lane_view :: "lane \<Rightarrow> lane_view" where
  "lane_view la = \<lparr>v_task = la_task la, v_dedicated = la_dedicated la\<rparr>"

definition tasks_at :: "worker_pool \<Rightarrow> nat \<Rightarrow> task_view option" where
  "tasks_at p t = map_option task_view (mget (po_taskStore p) t)"

definition lanes_at :: "worker_pool \<Rightarrow> nat \<Rightarrow> lane_view option" where
  "lanes_at p l = map_option lane_view (mget (po_laneStore p) l)"

text \<open>\<open>gone\<close> are the unsettled tasks an operation is moving: in no queue and on no lane.\<close>

definition lanes_ok :: "worker_pool \<Rightarrow> bool" where
  "lanes_ok p \<longleftrightarrow> distinct (po_lanes p) \<and> distinct (po_dedicated p) \<and>
     length (po_lanes p) \<le> po_capacity p \<and> length (po_dedicated p) \<le> po_maxDedicated p \<and>
     (\<forall>l \<in> set (po_lanes p). \<exists>la. lanes_at p l = Some la \<and> \<not> v_dedicated la) \<and>
     (\<forall>l \<in> set (po_dedicated p). \<exists>la. lanes_at p l = Some la \<and> v_dedicated la) \<and>
     (\<forall>l. lanes_at p l \<noteq> None \<longrightarrow> l < po_nextLane p)"

definition open_task :: "worker_pool \<Rightarrow> nat \<Rightarrow> task_view \<Rightarrow> bool" where
  "open_task p t ta \<longleftrightarrow> tasks_at p t = Some ta \<and> \<not> v_settled ta"

definition holds_task :: "worker_pool \<Rightarrow> nat \<Rightarrow> nat \<Rightarrow> bool" where
  "holds_task p l t \<longleftrightarrow> (\<exists>la. lanes_at p l = Some la \<and> v_task la = Some t)"

definition assigned_ok :: "worker_pool \<Rightarrow> bool" where
  "assigned_ok p \<longleftrightarrow> (\<forall>l t. holds_task p l t \<longrightarrow>
     l \<in> set (po_lanes p) \<union> set (po_dedicated p) \<and> (\<exists>ta. open_task p t ta \<and> v_lane ta = Some l))"

definition queue_ok :: "worker_pool \<Rightarrow> bool" where
  "queue_ok p \<longleftrightarrow> distinct (po_queue p) \<and> (\<forall>t \<in> set (po_queue p). \<exists>ta. open_task p t ta \<and> v_lane ta = None)"

definition placed :: "worker_pool \<Rightarrow> nat \<Rightarrow> task_view \<Rightarrow> bool" where
  "placed p t ta \<longleftrightarrow> v_lane ta = None \<and> t \<in> set (po_queue p) \<or> (\<exists>l. v_lane ta = Some l \<and> holds_task p l t)"

definition tasks_ok :: "nat set \<Rightarrow> worker_pool \<Rightarrow> bool" where
  "tasks_ok gone p \<longleftrightarrow>
     (\<forall>t ta. open_task p t ta \<longrightarrow> t \<in> gone \<or> placed p t ta) \<and>
     (\<forall>t \<in> gone. (\<exists>ta. open_task p t ta) \<and> t \<notin> set (po_queue p) \<and> (\<forall>l. \<not> holds_task p l t))"

definition index_ok :: "worker_pool \<Rightarrow> bool" where
  "index_ok p \<longleftrightarrow>
     (\<forall>t ta. tasks_at p t = Some ta \<longrightarrow> t < po_nextTask p \<and> (v_settled ta \<longleftrightarrow> v_result ta \<noteq> None)) \<and>
     (\<forall>i t. mget (po_tasks p) i = Some t \<longrightarrow> (\<exists>ta. tasks_at p t = Some ta \<and> v_id ta = i)) \<and>
     (\<forall>t ta. open_task p t ta \<longrightarrow> mget (po_tasks p) (v_id ta) = Some t)"

definition pool_ok :: "nat set \<Rightarrow> worker_pool \<Rightarrow> bool" where
  "pool_ok gone p \<longleftrightarrow> lanes_ok p \<and> assigned_ok p \<and> queue_ok p \<and> tasks_ok gone p \<and> index_ok p"

lemmas pool_ok_defs = pool_ok_def lanes_ok_def assigned_ok_def queue_ok_def tasks_ok_def index_ok_def

lemma pool_ok_cong:
  assumes "tasks_at p' = tasks_at p" "lanes_at p' = lanes_at p" "po_lanes p' = po_lanes p" "po_dedicated p' = po_dedicated p"
    "po_capacity p' = po_capacity p" "po_maxDedicated p' = po_maxDedicated p" "po_nextLane p' = po_nextLane p"
    "po_nextTask p' = po_nextTask p" "po_tasks p' = po_tasks p" "po_queue p' = po_queue p"
  shows "pool_ok gone p' = pool_ok gone p"
proof -
  have "open_task p' = open_task p" "holds_task p' = holds_task p"
    using assms by (simp_all add: open_task_def holds_task_def fun_eq_iff)
  moreover from this have "placed p' = placed p" using assms by (simp add: placed_def fun_eq_iff)
  ultimately show ?thesis using assms by (simp add: pool_ok_defs)
qed

lemma views_upd [pool_simps]:
  "tasks_at (say evs p) = tasks_at p" "lanes_at (say evs p) = lanes_at p"
  "tasks_at (upd_lane l g p) = tasks_at p" "lanes_at (upd_task t f p) = lanes_at p"
  "tasks_at (revokeEndpoints t p) = tasks_at p" "lanes_at (revokeEndpoints t p) = lanes_at p"
  "lanes_at (settle_task t r p) = lanes_at p"
  by (auto simp: tasks_at_def lanes_at_def pool_simps fun_eq_iff option.map_comp comp_def task_view_def [abs_def])

lemma tasks_at_upd [pool_simps]:
  "(\<And>ta. task_view (f ta) = task_view ta) \<Longrightarrow> tasks_at (upd_task t f p) = tasks_at p"
  by (auto simp: tasks_at_def pool_simps fun_eq_iff option.map_comp comp_def)

lemma lanes_at_upd [pool_simps]:
  "(\<And>la. lane_view (f la) = lane_view la) \<Longrightarrow> lanes_at (upd_lane l f p) = lanes_at p"
  by (auto simp: lanes_at_def pool_simps fun_eq_iff option.map_comp comp_def)

lemma views_fields [pool_simps]:
  "tasks_at (p\<lparr>po_queue := x1\<rparr>) = tasks_at p" "lanes_at (p\<lparr>po_queue := x1\<rparr>) = lanes_at p"
  "tasks_at (p\<lparr>po_lanes := x2\<rparr>) = tasks_at p" "lanes_at (p\<lparr>po_lanes := x2\<rparr>) = lanes_at p"
  "tasks_at (p\<lparr>po_dedicated := x2\<rparr>) = tasks_at p" "lanes_at (p\<lparr>po_dedicated := x2\<rparr>) = lanes_at p"
  "tasks_at (p\<lparr>po_tasks := x3\<rparr>) = tasks_at p" "lanes_at (p\<lparr>po_tasks := x3\<rparr>) = lanes_at p"
  "tasks_at (p\<lparr>po_started := x4\<rparr>) = tasks_at p" "lanes_at (p\<lparr>po_started := x4\<rparr>) = lanes_at p"
  "tasks_at (p\<lparr>po_channels := x5\<rparr>) = tasks_at p" "lanes_at (p\<lparr>po_channels := x5\<rparr>) = lanes_at p"
  "tasks_at (p\<lparr>po_nextLane := x6\<rparr>) = tasks_at p" "lanes_at (p\<lparr>po_nextLane := x6\<rparr>) = lanes_at p"
  "tasks_at (p\<lparr>po_nextTask := x6\<rparr>) = tasks_at p" "lanes_at (p\<lparr>po_nextTask := x6\<rparr>) = lanes_at p"
  "tasks_at (p\<lparr>po_closed := x7\<rparr>) = tasks_at p" "lanes_at (p\<lparr>po_closed := x7\<rparr>) = lanes_at p"
  "tasks_at (p\<lparr>po_laneStore := x8\<rparr>) = tasks_at p" "lanes_at (p\<lparr>po_taskStore := x9\<rparr>) = lanes_at p"
  by (simp_all add: tasks_at_def lanes_at_def fun_eq_iff)

lemma pool_ok_simps [simp]:
  "pool_ok gone (say evs p) = pool_ok gone p" "pool_ok gone (revokeEndpoints t p) = pool_ok gone p"
  "pool_ok gone (p\<lparr>po_started := s\<rparr>) = pool_ok gone p" "pool_ok gone (p\<lparr>po_channels := c\<rparr>) = pool_ok gone p"
  by (rule pool_ok_cong; simp add: pool_simps)+

lemma pool_ok_upd:
  "(\<And>ta. task_view (f ta) = task_view ta) \<Longrightarrow> pool_ok gone (upd_task t f p) = pool_ok gone p"
  "(\<And>la. lane_view (g la) = lane_view la) \<Longrightarrow> pool_ok gone (upd_lane l g p) = pool_ok gone p"
  by (rule pool_ok_cong; simp add: pool_simps)+

lemma pool_holds:
  "pool_ok gone p \<Longrightarrow> holds_task p l t \<Longrightarrow>
    l \<in> set (po_lanes p) \<union> set (po_dedicated p) \<and> (\<exists>ta. open_task p t ta \<and> v_lane ta = Some l)"
  unfolding pool_ok_def assigned_ok_def by blast

lemma pool_queued: "pool_ok gone p \<Longrightarrow> t \<in> set (po_queue p) \<Longrightarrow> \<exists>ta. open_task p t ta \<and> v_lane ta = None"
  unfolding pool_ok_def queue_ok_def by blast

lemma pool_placed: "pool_ok gone p \<Longrightarrow> open_task p t ta \<Longrightarrow> t \<in> gone \<or> placed p t ta"
  unfolding pool_ok_def tasks_ok_def by blast

lemma tasks_okI:
  "(\<And>s ta. open_task p s ta \<Longrightarrow> s \<notin> gone \<Longrightarrow> placed p s ta) \<Longrightarrow>
   (\<And>s. s \<in> gone \<Longrightarrow> (\<exists>ta. open_task p s ta) \<and> s \<notin> set (po_queue p) \<and> (\<forall>l. \<not> holds_task p l s)) \<Longrightarrow> tasks_ok gone p"
  unfolding tasks_ok_def by blast

lemma open_unique: "open_task p t ta \<Longrightarrow> open_task p t tb \<Longrightarrow> tb = ta"
  by (simp add: open_task_def)

lemma queued_not_held: "pool_ok gone p \<Longrightarrow> t \<in> set (po_queue p) \<Longrightarrow> \<not> holds_task p l t"
  using pool_holds [of gone p l t] pool_queued [of gone p t] open_unique [of p t] by fastforce

lemma held_once: "pool_ok gone p \<Longrightarrow> holds_task p l t \<Longrightarrow> holds_task p l' t \<Longrightarrow> l' = l"
  using pool_holds [of gone p l t] pool_holds [of gone p l' t] open_unique [of p t] by fastforce

subsection \<open>Moving tasks\<close>

lemma ok_shift:
  assumes "pool_ok {} p" "po_queue p = t # rest"
  shows "pool_ok {t} (p\<lparr>po_queue := rest\<rparr>)"
proof -
  have h: "\<not> holds_task p l t" for l using queued_not_held [OF assms(1), of t l] assms(2) by simp
  have q: "\<exists>ta. open_task p t ta" using pool_queued [OF assms(1), of t] assms(2) by auto
  let ?p = "p\<lparr>po_queue := rest\<rparr>"
  have same: "open_task ?p = open_task p" "holds_task ?p = holds_task p"
    by (simp_all add: open_task_def holds_task_def fun_eq_iff pool_simps)
  have "tasks_ok {t} ?p"
    using assms h q by (auto simp: pool_ok_def tasks_ok_def queue_ok_def same placed_def)
  moreover have "queue_ok ?p" using assms by (auto simp: pool_ok_def queue_ok_def same)
  ultimately show ?thesis
    using assms(1) by (simp add: pool_ok_def lanes_ok_def assigned_ok_def index_ok_def same pool_simps)
qed

lemma tasks_at_settle:
  "tasks_at (settle_task t r p) s = (if s = t then map_option (\<lambda>v. if v_settled v then v else v\<lparr>v_settled := True, v_lane := None, v_result := Some r\<rparr>) (tasks_at p t) else tasks_at p s)"
  by (cases "mget (po_taskStore p) t") (auto simp: tasks_at_def pool_simps settled_as_def task_view_def)

lemma ok_settle:
  assumes "pool_ok {t} p"
  shows "pool_ok {} (settle_task t r p)"
proof -
  let ?p = "settle_task t r p"
  have open_iff: "open_task ?p s ta \<longleftrightarrow> s \<noteq> t \<and> open_task p s ta" for s ta
    by (auto simp: open_task_def tasks_at_settle)
  have holds: "holds_task ?p = holds_task p" by (simp add: holds_task_def fun_eq_iff pool_simps)
  have t: "t \<notin> set (po_queue p)" "\<And>l. \<not> holds_task p l t" using assms by (auto simp: pool_ok_defs)
  have "lanes_ok ?p" using assms by (simp add: pool_ok_def lanes_ok_def pool_simps)
  moreover have "assigned_ok ?p" using assms t by (auto simp: pool_ok_def assigned_ok_def holds open_iff pool_simps)
  moreover have "queue_ok ?p" using assms t by (auto simp: pool_ok_def queue_ok_def open_iff)
  moreover have "tasks_ok {} ?p" using assms t by (auto simp: pool_ok_def tasks_ok_def open_iff placed_def holds)
  moreover have "index_ok ?p"
  proof -
    have "\<exists>ta. tasks_at ?p s = Some ta \<and> v_id ta = i" if mg: "mget (po_tasks p) i = Some s" for i s
    proof -
      obtain tb where "tasks_at p s = Some tb" "v_id tb = i" using assms mg unfolding pool_ok_def index_ok_def by blast
      then show ?thesis by (cases "s = t"; cases "v_settled tb") (auto simp: tasks_at_settle)
    qed
    moreover have "s < po_nextTask p \<and> (v_settled ta \<longleftrightarrow> v_result ta \<noteq> None)" if ts: "tasks_at ?p s = Some ta" for s ta
    proof -
      obtain tb where "tasks_at p s = Some tb" "ta = tb \<or> v_settled ta \<and> v_result ta = Some r"
        using ts by (auto simp: tasks_at_settle split: if_splits)
      then show ?thesis using assms unfolding pool_ok_def index_ok_def by auto
    qed
    ultimately show ?thesis using assms by (simp add: pool_ok_def index_ok_def open_iff pool_simps)
  qed
  ultimately show ?thesis by (simp add: pool_ok_def)
qed

definition active :: "worker_pool \<Rightarrow> nat \<Rightarrow> bool" where
  "active p l \<longleftrightarrow> l \<in> set (po_lanes p) \<union> set (po_dedicated p)"

definition idle :: "worker_pool \<Rightarrow> nat \<Rightarrow> bool" where
  "idle p l \<longleftrightarrow> (\<exists>la. lanes_at p l = Some la \<and> v_task la = None)"

lemma lanes_at_task:
  assumes "\<And>la. lane_view (f la) = (lane_view la)\<lparr>v_task := x\<rparr>"
  shows "lanes_at (upd_lane l f p) k = (if k = l then map_option (\<lambda>v. v\<lparr>v_task := x\<rparr>) (lanes_at p l) else lanes_at p k)"
  using assms by (auto simp: lanes_at_def pool_simps option.map_comp comp_def)

lemma tasks_at_lane:
  assumes "\<And>ta. task_view (f ta) = (task_view ta)\<lparr>v_lane := x\<rparr>"
  shows "tasks_at (upd_task t f p) s = (if s = t then map_option (\<lambda>v. v\<lparr>v_lane := x\<rparr>) (tasks_at p t) else tasks_at p s)"
  using assms by (auto simp: tasks_at_def pool_simps option.map_comp comp_def)

text \<open>A moving task lands on an idle lane.\<close>

lemma ok_land:
  assumes "pool_ok {t} p" "active p l" "idle p l"
  shows "pool_ok {} (upd_task t (\<lambda>ta. ta\<lparr>ta_lane := Some l\<rparr>) (upd_lane l (\<lambda>la. la\<lparr>la_task := Some t\<rparr>) p))" (is "pool_ok {} ?p")
proof -
  obtain v where v: "open_task p t v" "t \<notin> set (po_queue p)" "\<And>k. \<not> holds_task p k t"
    using assms(1) unfolding pool_ok_def tasks_ok_def by blast
  obtain w where w: "lanes_at p l = Some w" "v_task w = None" using assms(3) unfolding idle_def by blast
  have lanes: "lanes_at (upd_lane l (\<lambda>la. la\<lparr>la_task := Some t\<rparr>) p) k = (if k = l then Some (w\<lparr>v_task := Some t\<rparr>) else lanes_at p k)" for k
    using w lanes_at_task [of "\<lambda>la. la\<lparr>la_task := Some t\<rparr>" "Some t" l p k] by (simp add: pool_simps lane_view_def)
  have tasks: "tasks_at ?p s = (if s = t then Some (v\<lparr>v_lane := Some l\<rparr>) else tasks_at p s)" for s
    using v(1) tasks_at_lane [of "\<lambda>ta. ta\<lparr>ta_lane := Some l\<rparr>" "Some l" t "upd_lane l (\<lambda>la. la\<lparr>la_task := Some t\<rparr>) p" s]
    by (simp add: pool_simps task_view_def open_task_def)
  have open_iff: "open_task ?p s ta \<longleftrightarrow> (if s = t then ta = v\<lparr>v_lane := Some l\<rparr> else open_task p s ta)" for s ta
    using v(1) by (auto simp: open_task_def tasks)
  have holds: "holds_task ?p k s \<longleftrightarrow> (if k = l then s = t else holds_task p k s)" for k s
    by (auto simp: holds_task_def lanes pool_simps)
  have not: "\<not> holds_task p l s" for s using w by (simp add: holds_task_def)
  have "lanes_ok ?p"
    using assms(1) w by (auto simp: pool_ok_def lanes_ok_def lanes pool_simps)
  moreover have "assigned_ok ?p"
    unfolding assigned_ok_def
  proof (intro allI impI)
    fix k s assume "holds_task ?p k s"
    then consider "k = l" "s = t" | "k \<noteq> l" "holds_task p k s" "s \<noteq> t"
      using v(3) by (auto simp: holds split: if_splits)
    then show "k \<in> set (po_lanes ?p) \<union> set (po_dedicated ?p) \<and> (\<exists>ta. open_task ?p s ta \<and> v_lane ta = Some k)"
    proof cases
      case 1
      then show ?thesis using assms(2) by (simp add: open_iff active_def pool_simps)
    next
      case 2
      then show ?thesis using pool_holds [OF assms(1) 2(2)] by (simp add: open_iff pool_simps)
    qed
  qed
  moreover have "queue_ok ?p"
    using assms(1) v(2) by (auto simp: pool_ok_def queue_ok_def open_iff)
  moreover have "tasks_ok {} ?p"
  proof (rule tasks_okI)
    fix s ta assume o: "open_task ?p s ta"
    show "placed ?p s ta"
    proof (cases "s = t")
      case True
      with o show ?thesis by (simp add: open_iff placed_def holds)
    next
      case False
      with o have "placed p s ta" using pool_placed [OF assms(1)] by (auto simp: open_iff)
      with not [of s] False show ?thesis by (auto simp: placed_def holds)
    qed
  qed simp
  moreover have "index_ok ?p"
  proof -
    have i: "index_ok p" using assms(1) by (simp add: pool_ok_def)
    then have "mget (po_tasks p) (v_id v) = Some t" using v(1) unfolding index_ok_def by blast
    moreover have "t < po_nextTask p \<and> (v_settled v \<longleftrightarrow> v_result v \<noteq> None)" using i v(1) unfolding index_ok_def open_task_def by blast
    ultimately show ?thesis using i v(1)
      by (simp add: index_ok_def tasks open_iff pool_simps) (metis open_task_def option.inject)
  qed
  ultimately show ?thesis by (simp add: pool_ok_def)
qed

text \<open>A lane lets go of its task.\<close>

lemma ok_lift:
  assumes "pool_ok {} p" "holds_task p l t" "\<And>la. lane_view (f la) = (lane_view la)\<lparr>v_task := None\<rparr>"
  shows "pool_ok {t} (upd_lane l f p)" (is "pool_ok {t} ?p")
proof -
  obtain v where v: "open_task p t v" "v_lane v = Some l" using pool_holds [OF assms(1,2)] by blast
  have lanes: "lanes_at ?p k = (if k = l then map_option (\<lambda>v. v\<lparr>v_task := None\<rparr>) (lanes_at p l) else lanes_at p k)" for k
    by (rule lanes_at_task) (rule assms(3))
  have same: "open_task ?p = open_task p" by (simp add: open_task_def fun_eq_iff pool_simps)
  have holds: "holds_task ?p k s \<longleftrightarrow> k \<noteq> l \<and> holds_task p k s" for k s
    by (auto simp: holds_task_def lanes)
  have other: "s = t" if "holds_task p l s" for s using that assms(2) by (auto simp: holds_task_def)
  have q: "t \<notin> set (po_queue p)" using queued_not_held [OF assms(1)] assms(2) by blast
  have once: "holds_task p k t \<Longrightarrow> k = l" for k using held_once [OF assms(1,2)] by blast
  have "lanes_ok ?p" using assms(1) by (auto simp: pool_ok_def lanes_ok_def lanes pool_simps)
  moreover have "assigned_ok ?p" using assms(1) by (auto simp: pool_ok_def assigned_ok_def holds same pool_simps)
  moreover have "queue_ok ?p" using assms(1) by (auto simp: pool_ok_def queue_ok_def same)
  moreover have "tasks_ok {t} ?p"
  proof (rule tasks_okI)
    fix s ta assume o: "open_task ?p s ta" "s \<notin> {t}"
    then have "placed p s ta" using pool_placed [OF assms(1)] by (auto simp: same)
    with o other [of s] show "placed ?p s ta" by (auto simp: placed_def holds)
  qed (use v(1) q once in \<open>auto simp: same holds\<close>)
  moreover have "index_ok ?p" using assms(1) by (simp add: pool_ok_def index_ok_def same pool_simps)
  ultimately show ?thesis by (simp add: pool_ok_def)
qed

text \<open>A lane with no task leaves the pool.\<close>

lemma ok_retire:
  assumes "pool_ok gone p" "\<And>t. \<not> holds_task p l t"
  shows "pool_ok gone (p\<lparr>po_dedicated := removeAll l (po_dedicated p)\<rparr>)" "pool_ok gone (p\<lparr>po_lanes := remove1 l (po_lanes p)\<rparr>)"
proof -
  have same: "open_task (p\<lparr>po_dedicated := x\<rparr>) = open_task p" "holds_task (p\<lparr>po_dedicated := x\<rparr>) = holds_task p"
    "open_task (p\<lparr>po_lanes := x\<rparr>) = open_task p" "holds_task (p\<lparr>po_lanes := x\<rparr>) = holds_task p" for x
    by (simp_all add: open_task_def holds_task_def fun_eq_iff pool_simps)
  have lens: "length (removeAll l xs) \<le> length xs" "length (remove1 l xs) \<le> length xs" "distinct xs \<Longrightarrow> remove1 l xs = removeAll l xs" for xs
    by (simp_all add: length_removeAll_less_eq length_remove1 distinct_remove1_removeAll)
  have "distinct (po_lanes p)" "length (po_lanes p) \<le> po_capacity p" "length (po_dedicated p) \<le> po_maxDedicated p"
    using assms(1) by (simp_all add: pool_ok_def lanes_ok_def)
  with le_trans [OF lens(1) [of "po_dedicated p"]] le_trans [OF lens(1) [of "po_lanes p"]] assms
  show "pool_ok gone (p\<lparr>po_dedicated := removeAll l (po_dedicated p)\<rparr>)" "pool_ok gone (p\<lparr>po_lanes := remove1 l (po_lanes p)\<rparr>)"
    by (auto simp: pool_ok_defs placed_def same pool_simps lens(3) distinct_removeAll)
qed

subsection \<open>Opening, failing, dispatching\<close>

lemma openLane_ok:
  assumes "pool_ok gone p" "openLane env d p = (p', r)"
    and "if d then length (po_dedicated p) < po_maxDedicated p else length (po_lanes p) < po_capacity p"
  shows "pool_ok gone p' \<and> po_queue p' = po_queue p \<and> po_closed p' = po_closed p \<and> po_tasks p' = po_tasks p \<and>
    po_taskStore p' = po_taskStore p \<and> po_nextTask p' = po_nextTask p \<and>
    (\<forall>l. r = Inr l \<longrightarrow> active p' l \<and> idle p' l)"
proof (cases "we_open env (po_nextLane p)")
  case Opens
  let ?l = "po_nextLane p"
  have fresh: "lanes_at p ?l = None" "?l \<notin> set (po_lanes p)" "?l \<notin> set (po_dedicated p)"
    using assms(1) unfolding pool_ok_def lanes_ok_def by (metis less_irrefl option.distinct(1))+
  have lanes: "lanes_at p' k = (if k = ?l then Some \<lparr>v_task = None, v_dedicated = d\<rparr> else lanes_at p k)" for k
    using assms(2) Opens by (auto simp: openLane_def Let_def lanes_at_def say_def lane_view_def)
  have tasks: "tasks_at p' = tasks_at p" using assms(2) Opens by (auto simp: openLane_def Let_def pool_simps)
  have same: "open_task p' = open_task p" by (simp add: open_task_def fun_eq_iff tasks)
  have holds: "holds_task p' = holds_task p" using fresh by (auto simp: holds_task_def fun_eq_iff lanes)
  have f: "po_queue p' = po_queue p" "po_closed p' = po_closed p" "po_tasks p' = po_tasks p" "po_taskStore p' = po_taskStore p"
    "po_nextTask p' = po_nextTask p" "po_nextLane p' = Suc ?l" "po_capacity p' = po_capacity p" "po_maxDedicated p' = po_maxDedicated p"
    "po_lanes p' = (if d then po_lanes p else po_lanes p @ [?l])" "po_dedicated p' = (if d then po_dedicated p @ [?l] else po_dedicated p)"
    "r = Inr ?l"
    using assms(2) Opens fresh by (auto simp: openLane_def Let_def pool_simps set_add_def split: if_splits)
  have placed: "placed p' = placed p" by (simp add: placed_def fun_eq_iff holds f)
  have "lanes_ok p'" using assms(1,3) fresh f lanes by (auto simp: pool_ok_def lanes_ok_def less_Suc_eq split: if_splits)
  moreover have "assigned_ok p'" using assms(1) by (auto simp: pool_ok_def assigned_ok_def holds same f split: if_splits)
  moreover have "queue_ok p'" "tasks_ok gone p'" "index_ok p'"
    using assms(1) by (simp_all add: pool_ok_def queue_ok_def tasks_ok_def index_ok_def holds same f placed tasks)
  moreover have "active p' ?l" "idle p' ?l" by (auto simp: active_def idle_def lanes f)
  ultimately show ?thesis using f by (simp add: pool_ok_def)
next
  case (ConstructorThrows e)
  with assms show ?thesis by (auto simp: openLane_def)
next
  case (BootThrows e)
  have "pool_ok gone (p\<lparr>po_nextLane := Suc (po_nextLane p)\<rparr>)"
    using assms(1) by (auto simp: pool_ok_defs placed_def open_task_def holds_task_def pool_simps less_Suc_eq)
  with assms(2) BootThrows show ?thesis by (auto simp: openLane_def Let_def pool_simps)
next
  case (FailsOpening e)
  have "pool_ok gone (p\<lparr>po_nextLane := Suc (po_nextLane p)\<rparr>)"
    using assms(1) by (auto simp: pool_ok_defs placed_def open_task_def holds_task_def pool_simps less_Suc_eq)
  with assms(2) FailsOpening show ?thesis by (auto simp: openLane_def Let_def pool_simps)
qed

lemma postAssigned_ok: "postAssigned env l t p = (p', r) \<Longrightarrow> pool_ok gone p' = pool_ok gone p"
  by (auto simp: postAssigned_def pool_ok_upd task_view_def split: option.splits)

lemma assignLane_ok:
  assumes "pool_ok {t} p" "active p l" "idle p l" "assignLane env l t p = (p', r)"
  shows "pool_ok {} p'"
  using ok_land [OF assms(1-3)] assms(4) postAssigned_ok [of env l t _ p' r "{}"]
  by (auto simp: assignLane_def Let_def split: if_splits)

lemma fail_lane_ok:
  assumes "pool_ok {} p"
  shows "pool_ok {} (fail_lane l reason c p)"
proof (cases "mget (po_laneStore p) l")
  case (Some la)
  let ?p1 = "upd_lane l (\<lambda>la. la\<lparr>la_failed := Some reason\<rparr>) p"
  have p1: "pool_ok {} ?p1" "\<And>t. holds_task ?p1 l t \<longleftrightarrow> holds_task p l t"
    using assms by (simp_all add: pool_ok_cong [of ?p1 p] holds_task_def pool_simps lane_view_def)
  show ?thesis
  proof (cases "la_task la")
    case None
    let ?p3 = "say [Terminated l] (upd_lane l (\<lambda>la. la\<lparr>la_task := None\<rparr>) ?p1)"
    have v: "lanes_at ?p3 = lanes_at p"
      using Some None by (auto simp: fun_eq_iff pool_simps lanes_at_def lane_view_def)
    have "pool_ok {} ?p3 = pool_ok {} p" by (rule pool_ok_cong) (use v in \<open>simp_all add: pool_simps\<close>)
    then have "pool_ok {} ?p3" using assms by simp
    moreover have "\<not> holds_task ?p3 l t" for t
      unfolding holds_task_def v using Some None by (simp add: lanes_at_def lane_view_def)
    ultimately have "pool_ok {} ?p3" "\<And>t. \<not> holds_task ?p3 l t" by blast+
    from ok_retire [OF this] Some None show ?thesis by (simp add: fail_lane_def Let_def)
  next
    case task: (Some t)
    then have h: "holds_task p l t" using Some by (simp add: holds_task_def lanes_at_def lane_view_def)
    let ?p2 = "if c then ?p1 else revokeEndpoints t ?p1"
    have p2: "pool_ok {} ?p2" "holds_task ?p2 l t" using p1 h by (simp_all add: holds_task_def pool_simps)
    let ?p3 = "say [Terminated l] (upd_lane l (\<lambda>la. la\<lparr>la_task := None\<rparr>) ?p2)"
    have "pool_ok {t} ?p3" using ok_lift [OF p2] by (simp add: lane_view_def)
    moreover have "\<not> holds_task ?p3 l s" for s
      by (auto simp: holds_task_def pool_simps lanes_at_def lane_view_def)
    ultimately have "pool_ok {t} (?p3\<lparr>po_dedicated := removeAll l (po_dedicated ?p3)\<rparr>)"
      "pool_ok {t} (?p3\<lparr>po_lanes := remove1 l (po_lanes ?p3)\<rparr>)" by (rule ok_retire)+
    from ok_settle [OF this(1)] ok_settle [OF this(2)] Some task show ?thesis by (simp add: fail_lane_def Let_def)
  qed
qed (use assms in \<open>simp add: fail_lane_def\<close>)

lemma hand_over_ok:
  assumes "pool_ok {t} p" "active p l" "idle p l"
  shows "pool_ok {} (hand_over env l t p)"
proof -
  have "\<not> task_settled p t"
    using assms(1) by (auto simp: pool_ok_def tasks_ok_def open_task_def tasks_at_def task_settled_def task_view_def)
  then show ?thesis
    using assignLane_ok [OF assms] fail_lane_ok by (auto simp: hand_over_def split: prod.splits sum.splits)
qed

lemma idle_lane_view: "idle_lane p l \<longleftrightarrow> idle p l"
  by (auto simp: idle_lane_def idle_def lanes_at_def lane_view_def split: option.splits)

lemma acquireLane_ok:
  assumes "pool_ok {} p" "acquireLane env p = (p1, a)"
  shows "pool_ok {} p1 \<and> po_queue p1 = po_queue p \<and> po_closed p1 = po_closed p \<and> (\<forall>l. a = GotLane l \<longrightarrow> active p1 l \<and> idle p1 l)
    \<and> (a = NoLane \<longrightarrow> p1 = p \<and> (\<forall>l \<in> set (po_lanes p). \<not> idle p l) \<and> po_capacity p \<le> length (po_lanes p))"
proof (cases "find (idle_lane p) (po_lanes p)")
  case (Some l)
  then have "l \<in> set (po_lanes p)" "idle p l" by (auto simp: find_Some_iff idle_lane_view)
  with assms Some show ?thesis by (auto simp: acquireLane_def active_def)
next
  case None
  then have none: "\<forall>l \<in> set (po_lanes p). \<not> idle p l" by (auto simp: find_None_iff idle_lane_view)
  show ?thesis
  proof (cases "length (po_lanes p) < po_capacity p")
    case True
    obtain p2 r where o: "openLane env False p = (p2, r)" by fastforce
    from openLane_ok [OF assms(1) o] True None o assms(2) show ?thesis by (cases r) (auto simp: acquireLane_def)
  qed (use assms None none in \<open>auto simp: acquireLane_def\<close>)
qed

definition conserving :: "worker_pool \<Rightarrow> bool" where
  "conserving p \<longleftrightarrow> po_queue p = [] \<or> po_closed p \<or> (\<forall>l \<in> set (po_lanes p). \<not> idle p l) \<and> po_capacity p \<le> length (po_lanes p)"

lemma same_shift:
  "active (p\<lparr>po_queue := q\<rparr>) = active p" "idle (p\<lparr>po_queue := q\<rparr>) = idle p"
  by (simp_all add: active_def idle_def fun_eq_iff pool_simps)

lemma dispatch_ok: "pool_ok {} p \<Longrightarrow> pool_ok {} (dispatch env p) \<and> conserving (dispatch env p)"
proof (induction env p rule: dispatch.induct)
  case (1 env p)
  show ?case
  proof (cases "po_queue p = [] \<or> po_closed p")
    case True
    then have "dispatch env p = p" by (subst dispatch.simps) (auto split: list.splits)
    with 1 True show ?thesis by (auto simp: conserving_def)
  next
    case False
    then obtain t rest where q: "po_queue p = t # rest" "\<not> po_closed p" by (cases "po_queue p") auto
    obtain p1 a where a: "acquireLane env p = (p1, a)" by fastforce
    note ac = acquireLane_ok [OF 1(3) a]
    have shift: "pool_ok {t} (p1\<lparr>po_queue := rest\<rparr>)" using ok_shift [of p1 t rest] ac q(1) by simp
    show ?thesis
    proof (cases a)
      case NoLane
      then have "dispatch env p = p" using q a ac by (subst dispatch.simps) simp
      with ac NoLane show ?thesis by (auto simp: conserving_def)
    next
      case (LaneError e)
      let ?p = "settle_task t (TaskFailed (message e)) (revokeEndpoints t (p1\<lparr>po_queue := rest\<rparr>))"
      have "pool_ok {} ?p" using shift by (intro ok_settle) simp
      moreover have "dispatch env p = dispatch env ?p" using q a LaneError by (subst dispatch.simps) simp
      ultimately show ?thesis using 1(2) [OF q(1,2) a [symmetric] LaneError] by simp
    next
      case (GotLane l)
      let ?p = "hand_over env l t (p1\<lparr>po_queue := rest\<rparr>)"
      have "pool_ok {} ?p" using hand_over_ok [OF shift] ac GotLane by (simp add: same_shift)
      moreover have "dispatch env p = dispatch env ?p" using q a GotLane by (subst dispatch.simps) simp
      ultimately show ?thesis using 1(1) [OF q(1,2) a [symmetric] GotLane] by simp
    qed
  qed
qed

subsection \<open>Messages and cancellation\<close>

lemma open_taskI: "mget (po_taskStore p) t = Some ta \<Longrightarrow> \<not> ta_settled ta \<Longrightarrow> open_task p t (task_view ta)"
  by (simp add: open_task_def tasks_at_def task_view_def)

lemma holds_taskI: "mget (po_laneStore p) l = Some la \<Longrightarrow> la_task la = Some t \<Longrightarrow> holds_task p l t"
  by (simp add: holds_task_def lanes_at_def lane_view_def)

lemma conserving_cong:
  assumes "po_queue p' = po_queue p" "po_closed p' = po_closed p" "po_lanes p' = po_lanes p" "po_capacity p' = po_capacity p"
    "lanes_at p' = lanes_at p"
  shows "conserving p' = conserving p"
  using assms by (simp add: conserving_def idle_def)

lemma conserving_upd:
  "conserving (upd_task t f p) = conserving p" "conserving (say evs p) = conserving p"
  "(\<And>la. lane_view (g la) = lane_view la) \<Longrightarrow> conserving (upd_lane l g p) = conserving p"
  "conserving (p\<lparr>po_started := s\<rparr>) = conserving p" "conserving (p\<lparr>po_tasks := x\<rparr>) = conserving p"
  "conserving (revokeEndpoints t p) = conserving p" "conserving (settle_task t r p) = conserving p"
  by (rule conserving_cong; simp add: pool_simps)+

definition good :: "worker_pool \<Rightarrow> bool" where
  "good p \<longleftrightarrow> pool_ok {} p \<and> conserving p"

lemma good_dispatch: "pool_ok {} p \<Longrightarrow> good (dispatch env p)"
  using dispatch_ok by (simp add: good_def)

lemma good_laneFailure: "good p \<Longrightarrow> good (laneFailure env l reason c p)"
  by (auto simp: laneFailure_def good_dispatch fail_lane_ok good_def [of p] split: option.splits)

lemma good_postAssigned: "postAssigned env l t p = (p', r) \<Longrightarrow> good p \<Longrightarrow> good p'"
  using postAssigned_ok [of env l t p p' r "{}"]
  by (auto simp: good_def postAssigned_def conserving_upd split: option.splits)

lemma ok_let_go:
  assumes "pool_ok {} p" "holds_task p l t"
  shows "pool_ok {t} (upd_lane l (\<lambda>la. la\<lparr>la_task := None\<rparr>) p)"
  by (rule ok_lift [OF assms]) (simp add: lane_view_def)

lemma let_go_holds: "\<not> holds_task (upd_lane l (\<lambda>la. la\<lparr>la_task := None\<rparr>) p) l s"
  by (auto simp: holds_task_def lanes_at_def lane_view_def pool_simps)

lemma good_reply:
  assumes "pool_ok {} p" "holds_task p l t"
  shows "pool_ok {} (let p1 = settle_task t r (upd_lane l (\<lambda>la. la\<lparr>la_task := None\<rparr>) p) in
     if d then say [Terminated l] (p1\<lparr>po_dedicated := removeAll l (po_dedicated p1)\<rparr>) else p1)"
proof -
  let ?p1 = "settle_task t r (upd_lane l (\<lambda>la. la\<lparr>la_task := None\<rparr>) p)"
  have ok: "pool_ok {} ?p1" using ok_settle [OF ok_let_go [OF assms]] .
  moreover have "\<not> holds_task ?p1 l s" for s
    using let_go_holds [of l p s] by (simp add: holds_task_def pool_simps)
  ultimately show ?thesis using ok_retire(1) [of "{}" ?p1 l] by (simp add: Let_def)
qed

lemma good_laneMessage:
  assumes "good p"
  shows "good (laneMessage env l msg p)"
proof (cases "mget (po_laneStore p) l")
  case (Some la)
  have ok: "pool_ok {} p" using assms by (simp add: good_def)
  show ?thesis
  proof (cases msg)
    case Ready
    let ?p1 = "upd_lane l (\<lambda>la. la\<lparr>la_ready := True\<rparr>) p"
    have "good ?p1" using assms by (simp add: good_def pool_ok_upd conserving_upd lane_view_def)
    then have "postAssigned env l t ?p1 = (p2, r) \<Longrightarrow> good p2 \<and> good (say evs p2)" for t p2 r evs
      using good_postAssigned [of env l t ?p1] by (simp add: good_def conserving_upd)
    with \<open>good ?p1\<close> assms Some Ready show ?thesis
      by (auto simp: laneMessage_def Let_def split: option.splits prod.splits sum.splits)
  next
    case (Reply n status)
    show ?thesis
    proof (cases "la_task la")
      case (Some t)
      have "holds_task p l t" using holds_taskI \<open>mget (po_laneStore p) l = Some la\<close> Some by blast
      from good_dispatch [OF good_reply [OF ok this]] assms \<open>mget (po_laneStore p) l = Some la\<close> Some Reply show ?thesis
        by (auto simp: laneMessage_def Let_def)
    qed (use assms Some Reply in \<open>auto simp: laneMessage_def\<close>)
  qed (use assms Some good_laneFailure in
      \<open>auto simp: laneMessage_def good_def conserving_upd split: option.splits jnum.splits\<close>)
qed (use assms in \<open>simp add: laneMessage_def\<close>)

lemma ok_unqueue:
  assumes "pool_ok {} p" "t \<in> set (po_queue p)"
  shows "pool_ok {t} (p\<lparr>po_queue := remove1 t (po_queue p)\<rparr>)" (is "pool_ok {t} ?p")
proof -
  have h: "\<not> holds_task p l t" for l using queued_not_held [OF assms] .
  have d: "distinct (po_queue p)" using assms(1) by (simp add: pool_ok_def queue_ok_def)
  have q: "\<exists>ta. open_task p t ta" using pool_queued [OF assms] by auto
  have same: "open_task ?p = open_task p" "holds_task ?p = holds_task p"
    by (simp_all add: open_task_def holds_task_def fun_eq_iff pool_simps)
  have "tasks_ok {t} ?p"
    using assms h q d by (auto simp: pool_ok_def tasks_ok_def same placed_def)
  moreover have "queue_ok ?p" using assms d by (auto simp: pool_ok_def queue_ok_def same)
  ultimately show ?thesis
    using assms(1) by (simp add: pool_ok_def lanes_ok_def assigned_ok_def index_ok_def same pool_simps)
qed

lemma good_requestCancel:
  assumes "good p"
  shows "good (requestCancel env t deadline p)"
proof (cases "mget (po_taskStore p) t")
  case (Some ta)
  show ?thesis
  proof (cases "ta_settled ta")
    case False
    let ?late = "ta_deadline ta \<or> deadline"
    let ?p1 = "upd_task t (\<lambda>ta. ta\<lparr>ta_cancelRequested := True, ta_deadline := ?late\<rparr>) p"
    have g1: "good ?p1" using assms by (simp add: good_def pool_ok_upd conserving_upd task_view_def)
    have pl: "placed p t (task_view ta)"
      using pool_placed [of "{}" p t "task_view ta"] open_taskI [OF Some False] assms by (simp add: good_def)
    show ?thesis
    proof (cases "ta_lane ta")
      case None
      then have q: "t \<in> set (po_queue p)" using pl by (simp add: placed_def task_view_def)
      let ?p2 = "?p1\<lparr>po_queue := remove1 t (po_queue ?p1)\<rparr>"
      have "pool_ok {t} ?p2" using g1 q by (intro ok_unqueue) (simp_all add: good_def)
      then have "pool_ok {} (settle_task t (TaskCancelled ?late) (revokeEndpoints t ?p2))" by (intro ok_settle) simp
      moreover have "conserving ?p2"
        using g1 q by (auto simp: good_def conserving_def same_shift pool_simps)
      ultimately show ?thesis
        using Some False None by (simp add: requestCancel_def Let_def good_def conserving_upd)
    next
      case lane: (Some l)
      then have h: "holds_task ?p1 l t" using pl by (auto simp: placed_def task_view_def holds_task_def pool_simps)
      let ?p2 = "upd_lane l (\<lambda>la. la\<lparr>la_task := None\<rparr>) ?p1"
      have ok2: "pool_ok {t} ?p2" "\<And>s. \<not> holds_task ?p2 l s"
        using ok_let_go [of ?p1 l t] g1 h let_go_holds by (auto simp: good_def)
      have fin: "pool_ok {t} q \<Longrightarrow> good (dispatch env (settle_task t r (revokeEndpoints t q)))" for q r
        using ok_settle [of t "revokeEndpoints t q" r] good_dispatch by simp
      show ?thesis
      proof (cases "lane_ready p l")
        case True
        with g1 Some False lane show ?thesis by (simp add: requestCancel_def Let_def good_def conserving_upd)
      next
        case notready: False
        show ?thesis
          using Some False lane notready ok2(1) ok_retire(1) [OF ok2]
          by (auto simp: requestCancel_def Let_def split: option.splits intro!: fin)
      qed
    qed
  qed (use assms Some in \<open>simp add: requestCancel_def\<close>)
qed (use assms in \<open>simp add: requestCancel_def\<close>)

subsection \<open>Submissions\<close>

lemma ok_register:
  assumes "pool_ok {} p" "\<not> mhas (po_tasks p) (ta_id ta)" "\<not> ta_settled ta" "ta_result ta = None"
  shows "pool_ok {po_nextTask p} (register_task ta p)" (is "pool_ok {?t} ?p")
proof -
  have fresh: "tasks_at p ?t = None" "?t \<notin> set (po_queue p)" "\<And>l. \<not> holds_task p l ?t"
  proof -
    show f: "tasks_at p ?t = None" using assms(1) unfolding pool_ok_def index_ok_def by (metis less_irrefl not_None_eq)
    then have "\<not> open_task p ?t v" for v by (simp add: open_task_def)
    then show "?t \<notin> set (po_queue p)" "\<not> holds_task p l ?t" for l
      using pool_queued [OF assms(1), of ?t] pool_holds [OF assms(1), of l ?t] by blast+
  qed
  have tasks: "tasks_at ?p s = (if s = ?t then Some (task_view ta) else tasks_at p s)" for s
    by (simp add: tasks_at_def register_task_def)
  have lanes: "lanes_at ?p = lanes_at p" by (simp add: lanes_at_def register_task_def fun_eq_iff)
  have holds: "holds_task ?p = holds_task p" by (simp add: holds_task_def lanes fun_eq_iff)
  have open_iff: "open_task ?p s v \<longleftrightarrow> (if s = ?t then v = task_view ta else open_task p s v)" for s v
    using assms(3) by (auto simp: open_task_def tasks task_view_def)
  have f: "po_queue ?p = po_queue p" "po_lanes ?p = po_lanes p" "po_dedicated ?p = po_dedicated p" "po_capacity ?p = po_capacity p"
    "po_maxDedicated ?p = po_maxDedicated p" "po_nextLane ?p = po_nextLane p" "po_nextTask ?p = Suc ?t"
    "po_tasks ?p = mset (po_tasks p) (ta_id ta) ?t" by (simp_all add: register_task_def)
  have "lanes_ok ?p" using assms(1) by (simp add: pool_ok_def lanes_ok_def lanes f)
  moreover have "assigned_ok ?p"
    unfolding assigned_ok_def
  proof (intro allI impI)
    fix l s assume "holds_task ?p l s"
    then have h: "holds_task p l s" by (simp add: holds)
    then have "s \<noteq> ?t" using fresh(3) by blast
    then show "l \<in> set (po_lanes ?p) \<union> set (po_dedicated ?p) \<and> (\<exists>v. open_task ?p s v \<and> v_lane v = Some l)"
      using pool_holds [OF assms(1) h] by (simp add: open_iff f)
  qed
  moreover have "queue_ok ?p"
    using assms(1) fresh(2) by (auto simp: pool_ok_def queue_ok_def open_iff f)
  moreover have "tasks_ok {?t} ?p"
    by (rule tasks_okI) (use pool_placed [OF assms(1)] fresh in \<open>auto simp: open_iff placed_def holds f split: if_splits\<close>)
  moreover have "index_ok ?p"
  proof -
    have i: "index_ok p" using assms(1) by (simp add: pool_ok_def)
    have old: "s \<noteq> ?t" if "mget (po_tasks p) j = Some s" for j s
      using i that fresh(1) unfolding index_ok_def by (metis option.distinct(1))
    have "v_id v \<noteq> ta_id ta" if "open_task p s v" for s v
      using i that assms(2) unfolding index_ok_def mhas_def by (metis option.distinct(1))
    with i old assms(3,4) show ?thesis
      by (auto simp: index_ok_def tasks open_iff f task_view_def less_Suc_eq split: if_splits)
  qed
  ultimately show ?thesis by (simp add: pool_ok_def)
qed

lemma ok_enqueue:
  assumes "pool_ok {t} p" "open_task p t v" "v_lane v = None"
  shows "pool_ok {} (p\<lparr>po_queue := po_queue p @ [t]\<rparr>)" (is "pool_ok {} ?p")
proof -
  have same: "open_task ?p = open_task p" "holds_task ?p = holds_task p"
    by (simp_all add: open_task_def holds_task_def fun_eq_iff pool_simps)
  have t: "t \<notin> set (po_queue p)" using assms(1) by (simp add: pool_ok_def tasks_ok_def)
  have "tasks_ok {} ?p"
  proof (rule tasks_okI)
    fix s u assume o: "open_task ?p s u"
    show "placed ?p s u"
      using pool_placed [OF assms(1), of s u] o assms(2,3) open_unique [of p t v u]
      by (cases "s = t") (auto simp: same placed_def)
  qed simp
  moreover have "queue_ok ?p" using assms t by (auto simp: pool_ok_def queue_ok_def same)
  ultimately show ?thesis
    using assms(1) by (simp add: pool_ok_def lanes_ok_def assigned_ok_def index_ok_def same pool_simps)
qed

lemma take_task_endpoints_ok:
  assumes "take_task_endpoints entry p = (p1, r)"
  shows "pool_ok gone p1 = pool_ok gone p \<and> po_tasks p1 = po_tasks p \<and> po_dedicated p1 = po_dedicated p \<and>
    po_maxDedicated p1 = po_maxDedicated p \<and> po_closed p1 = po_closed p \<and>
    (\<forall>ta. r = Inr ta \<longrightarrow> ta_id ta = the_int (sb_task entry) \<and> \<not> ta_settled ta \<and> ta_result ta = None \<and> ta_lane ta = None)"
  using assms by (auto simp: take_task_endpoints_def new_task_def split: if_splits option.splits prod.splits sum.splits)

lemma start_timer_ok: "pool_ok gone (start_timer entry t p) = pool_ok gone p"
  by (simp add: start_timer_def pool_ok_upd task_view_def)

lemma fresh_lane_not_ready:
  assumes "openLane env d p = (p', Inr l)"
  shows "\<not> lane_ready p' l"
  using assms by (auto simp: openLane_def Let_def lane_ready_def say_def split: open_outcome.splits if_splits)

lemma accept_ok:
  assumes "accept env entry p = (p', r)" "pool_ok {} p"
  shows "pool_ok {} p'"
proof (cases "accept_checks entry p")
  case (Inr u)
  obtain p1 r1 where tk: "take_task_endpoints entry p = (p1, r1)" by fastforce
  note t1 = take_task_endpoints_ok [OF tk]
  have ok1: "pool_ok {} p1" using t1 assms(2) by blast
  show ?thesis
  proof (cases r1)
    case (Inl e)
    with assms(1) Inr tk ok1 show ?thesis by (auto simp: accept_def)
  next
    case ta: (Inr ta)
    have new: "\<not> mhas (po_tasks p1) (ta_id ta)" "\<not> ta_settled ta" "ta_result ta = None" "ta_lane ta = None"
      using t1 ta Inr by (auto simp: accept_checks_def split: if_splits)
    show ?thesis
    proof (cases "sb_dedicated entry = DedicatedBool True")
      case False
      let ?p2 = "register_task ta p1"
      have "pool_ok {po_nextTask p1} ?p2" using ok_register [OF ok1 new(1-3)] .
      moreover have "open_task ?p2 (po_nextTask p1) (task_view ta)"
        using new by (simp add: open_task_def tasks_at_def register_task_def task_view_def)
      moreover have "v_lane (task_view ta) = None" using new(4) by (simp add: task_view_def)
      ultimately have "pool_ok {} (?p2\<lparr>po_queue := po_queue ?p2 @ [po_nextTask p1]\<rparr>)" by (rule ok_enqueue)
      with assms(1) Inr tk ta False show ?thesis by (auto simp: accept_def Let_def start_timer_ok)
    next
      case True
      then have room: "length (po_dedicated p1) < po_maxDedicated p1"
        using t1 Inr by (auto simp: accept_checks_def split: if_splits)
      obtain p2 r2 where o: "openLane env True p1 = (p2, r2)" by fastforce
      note o1 = openLane_ok [OF ok1 o]
      show ?thesis
      proof (cases r2)
        case (Inl e)
        with assms(1) Inr tk ta True o o1 room show ?thesis by (auto simp: accept_def revoke_new_def)
      next
        case l: (Inr l)
        let ?p3 = "register_task ta p2"
        have "pool_ok {po_nextTask p2} ?p3" using o1 room new by (intro ok_register) auto
        moreover have "active ?p3 l" "idle ?p3 l"
          using o1 room l by (auto simp: active_def idle_def register_task_def lanes_at_def)
        ultimately have a: "assignLane env l (po_nextTask p2) ?p3 = (p4, r4) \<Longrightarrow> pool_ok {} p4" for p4 r4
          by (rule assignLane_ok)
        have "\<not> lane_ready p2 l" using fresh_lane_not_ready o l by blast
        then have "snd (assignLane env l (po_nextTask p2) ?p3) = Inr ()"
          by (auto simp: assignLane_def Let_def lane_ready_def pool_simps register_task_def split: option.splits)
        then obtain p4 where "assignLane env l (po_nextTask p2) ?p3 = (p4, Inr ())" by (metis prod.collapse)
        with a assms(1) Inr tk ta True o l show ?thesis by (auto simp: accept_def Let_def start_timer_ok)
      qed
    qed
  qed
qed (use assms in \<open>simp add: accept_def\<close>)

lemma accept_all_ok: "accept_all env es p = (p', rs) \<Longrightarrow> pool_ok {} p \<Longrightarrow> pool_ok {} p'"
proof (induction es arbitrary: p rs)
  case (Cons e es)
  obtain p1 r where a: "accept env e p = (p1, r)" by fastforce
  with Cons.prems have "pool_ok {} p1" using accept_ok by blast
  with Cons a show ?case by (cases r) (auto split: prod.splits)
qed simp

lemma good_submit: "submit env es p = (p', r) \<Longrightarrow> good p \<Longrightarrow> good p'"
  by (auto simp: submit_def drainStarted_def good_def [of p'] conserving_upd dispatch_ok split: if_splits option.splits prod.splits
      dest!: accept_all_ok) (auto simp: good_def)

subsection \<open>Awaiting\<close>

lemma ok_forget_id:
  assumes "pool_ok {} p" "mget (po_tasks p) i = Some t" "tasks_at p t = Some v" "v_settled v"
  shows "pool_ok {} (p\<lparr>po_tasks := mdelete (po_tasks p) i\<rparr>)" (is "pool_ok {} ?p")
proof -
  have same: "open_task ?p = open_task p" "holds_task ?p = holds_task p"
    by (simp_all add: open_task_def holds_task_def fun_eq_iff pool_simps)
  have placed: "placed ?p = placed p" by (simp add: placed_def fun_eq_iff same)
  have i: "index_ok p" using assms(1) by (simp add: pool_ok_def)
  have "v_id u \<noteq> i" if "open_task p s u" for s u
  proof
    assume "v_id u = i"
    then have "s = t" using i that assms(2) unfolding index_ok_def by (metis option.inject)
    then show False using that assms(3,4) by (simp add: open_task_def)
  qed
  then have "index_ok ?p" using i by (auto simp: index_ok_def same pool_simps)
  with assms(1) show ?thesis
    by (simp add: pool_ok_def lanes_ok_def assigned_ok_def queue_ok_def tasks_ok_def same pool_simps placed)
qed

lemma good_settlement:
  assumes "settlement n w p = (p', r)" "good p"
  shows "good p'"
proof -
  have ok: "pool_ok {} p" "conserving p" using assms(2) by (simp_all add: good_def)
  consider "p' = p" | t where "p' = upd_task t (\<lambda>ta. ta\<lparr>ta_waiters := ta_waiters ta @ [w]\<rparr>) p"
    | i t ta where "p' = p\<lparr>po_tasks := mdelete (po_tasks p) (ta_id ta), po_started := []\<rparr>"
        "mget (po_tasks p) i = Some t" "mget (po_taskStore p) t = Some ta" "ta_result ta \<noteq> None"
    using assms(1) by (auto simp: settlement_def drainStarted_def split: jnum.splits option.splits prod.splits)
  then show ?thesis
  proof cases
    case 3
    then have v: "tasks_at p t = Some (task_view ta)" by (simp add: tasks_at_def)
    have i: "index_ok p" using ok(1) by (simp add: pool_ok_def)
    have "v_settled (task_view ta)" using i v 3(4) unfolding index_ok_def by (metis task_view.select_convs(4) task_view_def)
    moreover have "ta_id ta = i" using i v 3(2) unfolding index_ok_def by (metis option.inject task_view.select_convs(1) task_view_def)
    ultimately have "pool_ok {} (p\<lparr>po_tasks := mdelete (po_tasks p) (ta_id ta)\<rparr>)" using ok_forget_id [OF ok(1) _ v] 3(2) by blast
    with ok(2) show ?thesis unfolding 3(1) by (simp add: good_def conserving_upd)
  qed (use assms(2) in \<open>auto simp: good_def pool_ok_upd conserving_upd task_view_def\<close>)
qed

section \<open>After closing\<close>

definition shut :: "worker_pool \<Rightarrow> bool" where
  "shut p \<longleftrightarrow> po_closed p \<and> po_lanes p = [] \<and> po_dedicated p = [] \<and> (\<forall>t v. tasks_at p t = Some v \<longrightarrow> v_settled v)"

lemma shut_settle: "(\<forall>t v. tasks_at p t = Some v \<longrightarrow> v_settled v) \<Longrightarrow> tasks_at (settle_task t r p) = tasks_at p"
  by (rule ext) (cases "tasks_at p t"; simp add: tasks_at_settle)

lemma shut_upd:
  "shut (say evs p) = shut p" "shut (upd_lane l g p) = shut p" "shut (revokeEndpoints t p) = shut p"
  "(\<And>ta. task_view (f ta) = task_view ta) \<Longrightarrow> shut (upd_task t f p) = shut p"
  "shut (p\<lparr>po_started := s\<rparr>) = shut p" "shut (p\<lparr>po_tasks := x\<rparr>) = shut p" "shut (p\<lparr>po_queue := q\<rparr>) = shut p"
  "shut p \<Longrightarrow> shut (settle_task t r p)" "shut p \<Longrightarrow> shut (p\<lparr>po_dedicated := removeAll l (po_dedicated p)\<rparr>)"
  "shut p \<Longrightarrow> shut (p\<lparr>po_lanes := remove1 l (po_lanes p)\<rparr>)"
  by (auto simp: shut_def pool_simps shut_settle)

lemma shut_dispatch: "shut p \<Longrightarrow> dispatch env p = p"
  by (subst dispatch.simps) (auto simp: shut_def split: list.splits)

lemma shut_fail_lane: "shut p \<Longrightarrow> shut (fail_lane l reason c p)"
  by (auto simp: fail_lane_def Let_def shut_upd split: option.splits)

lemma shut_laneFailure: "shut p \<Longrightarrow> shut (laneFailure env l reason c p)"
  by (auto simp: laneFailure_def shut_fail_lane shut_dispatch split: option.splits)

lemma shut_postAssigned: "postAssigned env l t p = (p', r) \<Longrightarrow> shut p \<Longrightarrow> shut p'"
  by (auto simp: postAssigned_def shut_upd task_view_def split: option.splits)

lemma shut_laneMessage:
  assumes "shut p"
  shows "shut (laneMessage env l msg p)"
proof (cases msg)
  case Ready
  have "shut (upd_lane l (\<lambda>la. la\<lparr>la_ready := True\<rparr>) p)" using assms by (simp add: shut_upd)
  with assms Ready show ?thesis
    by (auto simp: laneMessage_def Let_def shut_upd split: option.splits prod.splits sum.splits dest: shut_postAssigned)
next
  case (Reply n status)
  have "shut (let p1 = settle_task t r (upd_lane l (\<lambda>la. la\<lparr>la_task := None\<rparr>) p) in
     if d then say [Terminated l] (p1\<lparr>po_dedicated := removeAll l (po_dedicated p1)\<rparr>) else p1)" for t r d
    using assms by (simp add: shut_upd Let_def)
  with assms Reply show ?thesis by (auto simp: laneMessage_def Let_def shut_dispatch split: option.splits)
qed (use assms shut_laneFailure in \<open>auto simp: laneMessage_def shut_upd split: option.splits jnum.splits\<close>)

lemma shut_requestCancel: "shut p \<Longrightarrow> requestCancel env t d p = p"
proof (cases "mget (po_taskStore p) t")
  case (Some ta)
  assume "shut p"
  moreover have "tasks_at p t = Some (task_view ta)" using Some by (simp add: tasks_at_def)
  ultimately have "ta_settled ta" unfolding shut_def by (metis task_view.select_convs(2) task_view_def)
  with Some show ?thesis by (simp add: requestCancel_def)
qed (simp add: requestCancel_def)

lemma foldl_close_task:
  "tasks_at (foldl close_task p ts) t =
     (if t \<in> set ts then map_option (\<lambda>v. if v_settled v then v
          else v\<lparr>v_settled := True, v_lane := None, v_result := Some (TaskFailed (js ''nupp: the browser worker pool closed''))\<rparr>) (tasks_at p t)
      else tasks_at p t) \<and> po_closed (foldl close_task p ts) = po_closed p"
  by (induction ts arbitrary: p)
    (auto simp: close_task_def tasks_at_settle pool_simps option.map_comp comp_def intro!: option.map_cong)

lemma shut_close_pool:
  assumes "pool_ok {} p" "\<not> po_closed p"
  shows "shut (close_pool p)"
proof -
  let ?p1 = "foldl close_task (p\<lparr>po_closed := True\<rparr>) (mvalues (po_tasks p))"
  have "v_settled v" if t: "tasks_at ?p1 t = Some v" for t v
  proof (cases "t \<in> set (mvalues (po_tasks p))")
    case True
    with t show ?thesis by (auto simp: foldl_close_task pool_simps)
  next
    case False
    with t have "tasks_at p t = Some v" by (simp add: foldl_close_task pool_simps)
    moreover have "mget (po_tasks p) (v_id v) \<noteq> Some t"
      using False mget_Some_set [of "po_tasks p" "v_id v" t] by (force simp: mvalues_def)
    ultimately show ?thesis using assms(1) unfolding pool_ok_def index_ok_def open_task_def by blast
  qed
  then show ?thesis
    using assms(2) foldl_close_task [of "p\<lparr>po_closed := True\<rparr>" "mvalues (po_tasks p)"]
    by (simp add: close_pool_def Let_def shut_def pool_simps)
qed

section \<open>Results are final\<close>

definition result_of_task :: "worker_pool \<Rightarrow> nat \<Rightarrow> task_result option" where
  "result_of_task p t = (case tasks_at p t of None \<Rightarrow> None | Some v \<Rightarrow> if v_settled v then v_result v else None)"

definition keeps :: "worker_pool \<Rightarrow> worker_pool \<Rightarrow> bool" where
  "keeps p p' \<longleftrightarrow> (\<forall>t r. result_of_task p t = Some r \<longrightarrow> result_of_task p' t = Some r) \<and>
     po_closed p' = po_closed p \<and> po_capacity p' = po_capacity p \<and> po_maxDedicated p' = po_maxDedicated p"

lemma keeps_refl [simp]: "keeps p p"
  by (simp add: keeps_def)

lemma keeps_trans: "keeps p q \<Longrightarrow> keeps q r \<Longrightarrow> keeps p r"
  by (auto simp: keeps_def)

lemma keeps_views:
  "tasks_at p' = tasks_at p \<Longrightarrow> po_closed p' = po_closed p \<Longrightarrow> po_capacity p' = po_capacity p \<Longrightarrow>
   po_maxDedicated p' = po_maxDedicated p \<Longrightarrow> keeps p p'"
  by (simp add: keeps_def result_of_task_def)

lemma keeps_basic:
  "keeps p (say evs p)" "keeps p (upd_lane l g p)" "keeps p (revokeEndpoints t p)" "keeps p (p\<lparr>po_queue := q\<rparr>)"
  "keeps p (p\<lparr>po_dedicated := d\<rparr>)" "keeps p (p\<lparr>po_lanes := d\<rparr>)" "keeps p (p\<lparr>po_started := s\<rparr>)" "keeps p (p\<lparr>po_tasks := x\<rparr>)"
  "keeps p (p\<lparr>po_channels := c\<rparr>)" "(\<And>ta. task_view (f ta) = task_view ta) \<Longrightarrow> keeps p (upd_task t f p)"
  by (rule keeps_views; simp add: pool_simps)+

lemma keeps_settle: "keeps p (settle_task t r p)"
  by (auto simp: keeps_def result_of_task_def tasks_at_settle pool_simps split: option.splits if_splits)

lemma keeps_lane: "keeps p (upd_task t (\<lambda>ta. ta\<lparr>ta_lane := x\<rparr>) p)"
  by (auto simp: keeps_def result_of_task_def pool_simps
      tasks_at_lane [of "\<lambda>ta. ta\<lparr>ta_lane := x\<rparr>" x] task_view_def split: option.splits if_splits)

lemmas keeps_intros = keeps_basic keeps_settle keeps_lane keeps_trans [OF _ keeps_basic(1)] keeps_trans [OF _ keeps_basic(2)]
  keeps_trans [OF _ keeps_basic(3)] keeps_trans [OF _ keeps_basic(4)] keeps_trans [OF _ keeps_basic(5)] keeps_trans [OF _ keeps_basic(6)]
  keeps_trans [OF _ keeps_settle] keeps_trans [OF _ keeps_lane]

lemma keeps_fail_lane: "keeps p (fail_lane l reason c p)"
  by (auto simp: fail_lane_def Let_def split: option.splits intro!: keeps_intros)

lemma keeps_postAssigned: "keeps p (fst (postAssigned env l t p))"
  by (auto simp: postAssigned_def split: option.splits intro!: keeps_trans [OF keeps_basic(1) keeps_basic(10)] simp: task_view_def)

lemma keeps_assignLane: "keeps p (fst (assignLane env l t p))"
  by (auto simp: assignLane_def Let_def intro!: keeps_trans [OF _ keeps_postAssigned] keeps_intros)

lemma keeps_hand_over: "keeps p (hand_over env l t p)"
  using keeps_assignLane [of p env l t] keeps_trans [OF _ keeps_fail_lane]
  by (auto simp: hand_over_def split: prod.splits sum.splits)

lemma keeps_openLane: "keeps p (fst (openLane env d p))"
  by (rule keeps_views; auto simp: openLane_def Let_def pool_simps split: open_outcome.splits)

lemma keeps_acquireLane: "keeps p (fst (acquireLane env p))"
  using keeps_openLane [of p env False] by (auto simp: acquireLane_def split: option.splits prod.splits sum.splits)

lemma keeps_dispatch: "keeps p (dispatch env p)"
proof (induction env p rule: dispatch.induct)
  case (1 env p)
  show ?case
  proof (cases "po_queue p = [] \<or> po_closed p")
    case True
    then have "dispatch env p = p" by (subst dispatch.simps) (auto split: list.splits)
    then show ?thesis by simp
  next
    case False
    then obtain t rest where q: "po_queue p = t # rest" "\<not> po_closed p" by (cases "po_queue p") auto
    obtain p1 a where a: "acquireLane env p = (p1, a)" by fastforce
    have k1: "keeps p (p1\<lparr>po_queue := rest\<rparr>)" using keeps_acquireLane [of p env] a keeps_trans keeps_basic(4) by fastforce
    show ?thesis
    proof (cases a)
      case NoLane
      then show ?thesis using q a keeps_acquireLane [of p env] by (subst dispatch.simps) simp
    next
      case (LaneError e)
      let ?p = "settle_task t (TaskFailed (message e)) (revokeEndpoints t (p1\<lparr>po_queue := rest\<rparr>))"
      have "dispatch env p = dispatch env ?p" using q a LaneError by (subst dispatch.simps) simp
      moreover have "keeps p ?p" using k1 keeps_trans keeps_basic(3) keeps_settle by meson
      ultimately show ?thesis using 1(2) [OF q(1,2) a [symmetric] LaneError] keeps_trans by simp
    next
      case (GotLane l)
      let ?p = "hand_over env l t (p1\<lparr>po_queue := rest\<rparr>)"
      have "dispatch env p = dispatch env ?p" using q a GotLane by (subst dispatch.simps) simp
      moreover have "keeps p ?p" using k1 keeps_trans keeps_hand_over by meson
      ultimately show ?thesis using 1(1) [OF q(1,2) a [symmetric] GotLane] keeps_trans by simp
    qed
  qed
qed

lemma keeps_laneFailure: "keeps p (laneFailure env l reason c p)"
  using keeps_trans [OF keeps_fail_lane keeps_dispatch] by (auto simp: laneFailure_def split: option.splits)

lemma keeps_requestCancel: "keeps p (requestCancel env t d p)"
proof -
  have k: "keeps p (upd_task t (\<lambda>ta. ta\<lparr>ta_cancelRequested := True, ta_deadline := x\<rparr>) p)" for x
    by (rule keeps_basic(10)) (simp add: task_view_def)
  show ?thesis
    by (auto simp: requestCancel_def Let_def split: option.splits intro!: k keeps_trans [OF _ keeps_dispatch] keeps_intros)
qed

lemma keeps_laneMessage: "keeps p (laneMessage env l msg p)"
proof -
  have post: "keeps p q" if "postAssigned env l t (upd_lane l g p) = (q, r)" for t g q r
    using that keeps_trans [OF keeps_basic(2) [of p l g] keeps_postAssigned [of "upd_lane l g p" env l t]] by simp
  show ?thesis
    by (auto simp: laneMessage_def Let_def split: option.splits lane_message.splits jnum.splits prod.splits sum.splits
        intro!: keeps_laneFailure keeps_trans [OF _ keeps_dispatch] keeps_intros dest: post)
qed

lemma keeps_register:
  assumes "index_ok p" "ta_lane ta = None"
  shows "keeps p (register_task ta p)"
proof -
  have "tasks_at p (po_nextTask p) = None"
    using assms(1) unfolding index_ok_def by (metis less_irrefl not_None_eq)
  moreover have "tasks_at (register_task ta p) t = (if t = po_nextTask p then Some (task_view ta) else tasks_at p t)" for t
    by (simp add: register_task_def tasks_at_def)
  moreover have "po_closed (register_task ta p) = po_closed p" "po_capacity (register_task ta p) = po_capacity p"
    "po_maxDedicated (register_task ta p) = po_maxDedicated p" by (simp_all add: register_task_def)
  ultimately show ?thesis by (auto simp: keeps_def result_of_task_def)
qed

lemma take_task_endpoints_keeps: "take_task_endpoints entry p = (p1, r) \<Longrightarrow> keeps p p1"
  by (rule keeps_views) (auto simp: take_task_endpoints_def pool_simps split: if_splits option.splits prod.splits sum.splits)

lemma start_timer_keeps: "keeps p (start_timer entry t p)"
  by (auto simp: start_timer_def task_view_def intro!: keeps_basic(10))

lemma keeps_accept:
  assumes "accept env entry p = (p', r)" "pool_ok {} p"
  shows "keeps p p'"
proof (cases "accept_checks entry p")
  case (Inr u)
  obtain p1 r1 where tk: "take_task_endpoints entry p = (p1, r1)" by fastforce
  note t1 = take_task_endpoints_ok [OF tk] and k1 = take_task_endpoints_keeps [OF tk]
  show ?thesis
  proof (cases r1)
    case (Inl e)
    with assms(1) Inr tk k1 show ?thesis by (auto simp: accept_def)
  next
    case ta: (Inr ta)
    have lane: "ta_lane ta = None" using t1 ta by blast
    have ok1: "pool_ok {} p1" using t1 assms(2) by blast
    show ?thesis
    proof (cases "sb_dedicated entry = DedicatedBool True")
      case False
      have "keeps p1 (register_task ta p1)" using ok1 lane by (intro keeps_register) (auto simp: pool_ok_def)
      then have "keeps p (start_timer entry (po_nextTask p1) ((register_task ta p1)\<lparr>po_queue := q\<rparr>))" for q
        using k1 keeps_trans keeps_basic(4) start_timer_keeps by meson
      with assms(1) Inr tk ta False show ?thesis by (auto simp: accept_def Let_def)
    next
      case True
      then have room: "length (po_dedicated p1) < po_maxDedicated p1"
        using t1 Inr by (auto simp: accept_checks_def split: if_splits)
      obtain p2 r2 where o: "openLane env True p1 = (p2, r2)" by fastforce
      note o1 = openLane_ok [OF ok1 o]
      have k2: "keeps p p2" using keeps_trans [OF k1 keeps_openLane [of p1 env True]] o by simp
      show ?thesis
      proof (cases r2)
        case (Inl e)
        with assms(1) Inr tk ta True o keeps_trans [OF k2 keeps_basic(9)] show ?thesis by (auto simp: accept_def revoke_new_def)
      next
        case l: (Inr l)
        let ?p3 = "register_task ta p2"
        have "keeps p2 ?p3" using o1 room lane by (intro keeps_register) (auto simp: pool_ok_def)
        then have k3: "keeps p (fst (assignLane env l (po_nextTask p2) ?p3))" using k2 keeps_trans keeps_assignLane by meson
        have "\<not> lane_ready p2 l" using fresh_lane_not_ready o l by blast
        then have "snd (assignLane env l (po_nextTask p2) ?p3) = Inr ()"
          by (auto simp: assignLane_def Let_def lane_ready_def pool_simps register_task_def split: option.splits)
        then obtain p4 where a: "assignLane env l (po_nextTask p2) ?p3 = (p4, Inr ())" by (metis prod.collapse)
        with k3 have "keeps p (start_timer entry (po_nextTask p2) p4)" using keeps_trans start_timer_keeps by fastforce
        with a assms(1) Inr tk ta True o l show ?thesis by (auto simp: accept_def Let_def)
      qed
    qed
  qed
qed (use assms in \<open>simp add: accept_def\<close>)

lemma keeps_accept_all: "accept_all env es p = (p', rs) \<Longrightarrow> pool_ok {} p \<Longrightarrow> keeps p p'"
proof (induction es arbitrary: p rs)
  case (Cons e es)
  obtain p1 r where a: "accept env e p = (p1, r)" by fastforce
  then have k: "pool_ok {} p1" "keeps p p1" using accept_ok keeps_accept Cons.prems(2) by blast+
  show ?case
  proof (cases r)
    case (Inl x)
    obtain p2 rs2 where "accept_all env es p1 = (p2, rs2)" by fastforce
    then show ?thesis using Cons.IH [of p1 rs2] Cons.prems(1) a k Inl keeps_trans by fastforce
  next
    case (Inr x)
    then show ?thesis using Cons.IH [of p1 rs] Cons.prems(1) a k keeps_trans by fastforce
  qed
qed simp

lemma keeps_submit:
  assumes "submit env es p = (p', r)" "pool_ok {} p"
  shows "keeps p p'"
proof (cases "\<not> po_closed p \<and> es \<noteq> None")
  case True
  then obtain xs where es: "es = Some xs" by blast
  obtain p1 rs where a: "accept_all env xs p = (p1, rs)" by fastforce
  have "keeps p ((dispatch env p1)\<lparr>po_started := []\<rparr>)"
    using keeps_accept_all [OF a assms(2)] keeps_trans keeps_dispatch keeps_basic(7) by meson
  with assms(1) True es a show ?thesis by (auto simp: submit_def drainStarted_def)
qed (use assms in \<open>auto simp: submit_def split: if_splits option.splits\<close>)

lemma keeps_settlement: "settlement n w p = (p', r) \<Longrightarrow> keeps p p'"
  by (auto simp: settlement_def drainStarted_def task_view_def split: jnum.splits option.splits prod.splits
      intro!: keeps_basic(10) keeps_views simp: pool_simps)

lemma keeps_cancel: "cancel env n p = (p', s) \<Longrightarrow> keeps p p'"
  using keeps_trans [OF keeps_requestCancel keeps_basic(7)]
  by (auto simp: cancel_def drainStarted_def split: jnum.splits option.splits intro: keeps_basic(7))

lemma keeps_timer_fires: "keeps p (timer_fires env t p)"
proof -
  have "keeps p (upd_task t (\<lambda>ta. ta\<lparr>ta_timer := False\<rparr>) p)" by (rule keeps_basic(10)) (simp add: task_view_def)
  then show ?thesis using keeps_trans [OF _ keeps_requestCancel] by (auto simp: timer_fires_def split: option.splits)
qed

section \<open>Reachable pools\<close>

text \<open>
  What may happen to a pool. The continuation of an awaited task runs in the turn in which
  the task is settled, so its identifier still names that task.
\<close>

inductive pool_step :: "worker_env \<Rightarrow> worker_pool \<Rightarrow> worker_pool \<Rightarrow> bool" for env where
  submits: "submit env es p = (p', r) \<Longrightarrow> pool_step env p p'"
| awaits: "settlement n w p = (p', r) \<Longrightarrow> pool_step env p p'"
| resumes: "mget (po_tasks p) i = Some t \<Longrightarrow> result_of_task p t \<noteq> None \<Longrightarrow> settlement_resumed i p = (p', s) \<Longrightarrow> pool_step env p p'"
| cancels: "cancel env n p = (p', s) \<Longrightarrow> pool_step env p p'"
| expires: "pool_step env p (timer_fires env t p)"
| hears: "pool_step env p (laneMessage env l msg p)"
| fails: "pool_step env p (laneFailure env l reason c p)"

inductive pool_reachable :: "worker_env \<Rightarrow> worker_pool \<Rightarrow> bool" for env where
  created: "createWorkerPool digest workerClass maxLanes hardware maxDedicated channels = Inr p \<Longrightarrow> pool_reachable env p"
| stepped: "pool_reachable env p \<Longrightarrow> pool_step env p p' \<Longrightarrow> pool_reachable env p'"
| closed: "pool_reachable env p \<Longrightarrow> pool_reachable env (close_pool p)"

definition state_ok :: "worker_pool \<Rightarrow> bool" where
  "state_ok p \<longleftrightarrow> (if po_closed p then shut p else good p) \<and> 1 \<le> po_capacity p \<and> po_capacity p \<le> 64"

lemma laneCount_bounds: "1 \<le> laneCount m h \<and> laneCount m h \<le> 64"
  by (auto simp: laneCount_def Let_def min_def max_def)

lemma created_ok:
  assumes "createWorkerPool digest workerClass maxLanes hardware maxDedicated channels = Inr p"
  shows "state_ok p"
  using assms laneCount_bounds [of maxLanes hardware]
  by (auto simp: createWorkerPool_def Let_def state_ok_def good_def conserving_def pool_ok_defs tasks_at_def lanes_at_def
      open_task_def holds_task_def split: if_splits)

lemma step_keeps:
  assumes "pool_step env p p'" "state_ok p"
  shows "keeps p p'"
  using assms
proof cases
  case (submits es r)
  show ?thesis
  proof (cases "po_closed p")
    case True
    then show ?thesis using submits by (simp add: submit_def)
  next
    case False
    then show ?thesis using submits assms(2) keeps_submit [of env es p p' r] by (simp add: state_ok_def good_def)
  qed
qed (auto simp: keeps_settlement keeps_cancel keeps_timer_fires keeps_laneMessage keeps_laneFailure settlement_resumed_def
    drainStarted_def intro!: keeps_views simp: pool_simps)

lemma good_step:
  assumes "pool_step env p p'" "good p"
  shows "good p'"
  using assms
proof cases
  case (resumes i t s)
  then obtain v where v: "tasks_at p t = Some v" "v_settled v" by (auto simp: result_of_task_def split: option.splits if_splits)
  have "pool_ok {} (p\<lparr>po_tasks := mdelete (po_tasks p) i\<rparr>)" using ok_forget_id resumes(1) v assms(2) by (simp add: good_def)
  moreover have "conserving (p\<lparr>po_tasks := mdelete (po_tasks p) i\<rparr>)" using assms(2) by (simp add: good_def conserving_upd)
  ultimately show ?thesis using resumes(3)
    by (auto simp: settlement_resumed_def drainStarted_def good_def pool_ok_upd conserving_upd)
next
  case (cancels n s)
  then show ?thesis using assms(2) good_requestCancel
    by (auto simp: cancel_def drainStarted_def good_def pool_ok_upd conserving_upd split: jnum.splits option.splits)
next
  case (expires t)
  have "good (upd_task t (\<lambda>ta. ta\<lparr>ta_timer := False\<rparr>) p)"
    using assms(2) by (simp add: good_def pool_ok_upd conserving_upd task_view_def)
  then show ?thesis using expires assms(2) good_requestCancel by (auto simp: timer_fires_def split: option.splits)
qed (use assms(2) good_submit good_settlement good_laneMessage good_laneFailure in auto)

lemma shut_step:
  assumes "pool_step env p p'" "shut p"
  shows "shut p'"
  using assms
proof cases
  case (submits es r)
  then show ?thesis using assms(2) by (auto simp: submit_def shut_def)
next
  case (awaits n w r)
  then show ?thesis using assms(2)
    by (auto simp: settlement_def drainStarted_def shut_upd task_view_def split: jnum.splits option.splits prod.splits)
next
  case (resumes i t s)
  then show ?thesis using assms(2) by (auto simp: settlement_resumed_def drainStarted_def shut_upd)
next
  case (cancels n s)
  then show ?thesis using assms(2) shut_requestCancel
    by (auto simp: cancel_def drainStarted_def shut_upd split: jnum.splits option.splits)
next
  case (expires t)
  then show ?thesis using assms(2) shut_requestCancel shut_upd
    by (auto simp: timer_fires_def task_view_def split: option.splits)
qed (use assms(2) shut_laneMessage shut_laneFailure in auto)

lemma step_ok: "pool_step env p p' \<Longrightarrow> state_ok p \<Longrightarrow> state_ok p'"
  using step_keeps [of env p p'] good_step [of env p p'] shut_step [of env p p'] by (auto simp: state_ok_def keeps_def split: if_splits)

lemma close_pool_fields:
  "po_capacity (close_pool p) = po_capacity p" "po_maxDedicated (close_pool p) = po_maxDedicated p" "po_closed (close_pool p)"
proof -
  have "po_capacity (foldl close_task p ts) = po_capacity p \<and> po_maxDedicated (foldl close_task p ts) = po_maxDedicated p
    \<and> po_closed (foldl close_task p ts) = po_closed p" for ts p
    by (induction ts arbitrary: p) (auto simp: close_task_def pool_simps)
  then show "po_capacity (close_pool p) = po_capacity p" "po_maxDedicated (close_pool p) = po_maxDedicated p" "po_closed (close_pool p)"
    by (auto simp: close_pool_def Let_def pool_simps)
qed

lemma close_ok: "state_ok p \<Longrightarrow> state_ok (close_pool p)"
  using shut_close_pool [of p] close_pool_fields [of p] by (auto simp: state_ok_def good_def close_pool_def split: if_splits)

lemma reachable_ok: "pool_reachable env p \<Longrightarrow> state_ok p"
  by (induction rule: pool_reachable.induct) (auto intro: created_ok step_ok close_ok)

lemma close_keeps: "result_of_task p t = Some r \<Longrightarrow> result_of_task (close_pool p) t = Some r"
  using foldl_close_task [of "p\<lparr>po_closed := True\<rparr>" "mvalues (po_tasks p)" t]
  by (auto simp: close_pool_def Let_def result_of_task_def pool_simps split: option.splits if_splits)

lemma conserving_dispatch: "conserving p \<Longrightarrow> dispatch env p = p"
  by (subst dispatch.simps)
    (auto simp: conserving_def acquireLane_def find_None_iff idle_lane_view split: list.splits option.splits dest!: find_Some_iff [THEN iffD1])

text \<open>Nothing is left to hand out after a dispatch, so a second one changes nothing.\<close>

lemma dispatch_again: "pool_ok {} p \<Longrightarrow> dispatch env (dispatch env p) = dispatch env p"
  using dispatch_ok conserving_dispatch by blast

section \<open>A pool at work\<close>

definition quiet_env :: worker_env where
  "quiet_env = \<lparr>we_open = (\<lambda>_. Opens), we_post = (\<lambda>_ _. None)\<rparr>"

definition small_pool :: worker_pool where
  "small_pool = (case createWorkerPool (Some (replicate 64 97)) True (IntV 1) (IntV 4) Undef None of Inr p \<Rightarrow> p)"

definition sample_task :: "int \<Rightarrow> submission" where
  "sample_task i = \<lparr>sb_task = IntV i, sb_module = Some [109], sb_member = Some [102], sb_payload = Some [],
     sb_dedicated = DedicatedUndefined, sb_endpoints = [], sb_deadline = False\<rparr>"

definition busy_pool :: worker_pool where
  "busy_pool = fst (submit quiet_env (Some [sample_task 1, sample_task 2]) small_pool)"

definition answered_pool :: worker_pool where
  "answered_pool = laneMessage quiet_env 0 (Reply (IntV 1) (ReplyDone (Some [111]))) busy_pool"

lemmas sample_defs = quiet_env_def small_pool_def sample_task_def busy_pool_def answered_pool_def

lemma small_pool_created: "createWorkerPool (Some (replicate 64 97)) True (IntV 1) (IntV 4) Undef None = Inr small_pool"
  by code_simp

lemma busy_pool_reachable: "pool_reachable quiet_env busy_pool"
  using stepped [OF created [OF small_pool_created] submits [of quiet_env "Some [sample_task 1, sample_task 2]" small_pool
    busy_pool "snd (submit quiet_env (Some [sample_task 1, sample_task 2]) small_pool)"]]
  by (simp add: busy_pool_def)

lemma busy_pool_view:
  "po_queue busy_pool = [1]" "po_closed busy_pool = False" "po_lanes busy_pool = [0]" "mget (po_tasks busy_pool) 1 = Some 0"
  "mget (po_tasks busy_pool) 2 = Some 1"
  by code_simp+

lemma answered_pool_result: "result_of_task answered_pool 0 = Some (TaskDone [111])"
  by code_simp

definition lane_holds :: "worker_pool \<Rightarrow> nat \<Rightarrow> nat \<Rightarrow> bool" where
  "lane_holds p l t \<longleftrightarrow> (\<exists>la. mget (po_laneStore p) l = Some la \<and> la_task la = Some t)"

lemma lane_holds_view: "lane_holds p l t \<longleftrightarrow> holds_task p l t"
  by (auto simp: lane_holds_def holds_task_def lanes_at_def lane_view_def)

lemma settled_nowhere:
  assumes "pool_ok {} p" "tasks_at p t = Some v" "v_settled v"
  shows "t \<notin> set (po_queue p) \<and> (\<forall>l. \<not> holds_task p l t)"
  using assms pool_queued [of "{}" p t] pool_holds [of "{}" p _ t] by (auto simp: open_task_def)

section \<open>Properties\<close>

text \<open>In every pool that can arise there are at most \<open>capacity\<close> shared lanes, at most \<open>maxDedicated\<close> dedicated
  ones, no lane is listed twice or under both, and the capacity is between 1 and 64.\<close>

theorem pool_lane_bounds:
  assumes "pool_reachable env p"
  shows "length (po_lanes p) \<le> po_capacity p \<and> length (po_dedicated p) \<le> po_maxDedicated p \<and>
    distinct (po_lanes p @ po_dedicated p) \<and> 1 \<le> po_capacity p \<and> po_capacity p \<le> 64"
proof -
  have st: "state_ok p" using reachable_ok assms .
  show ?thesis
  proof (cases "po_closed p")
    case True
    with st show ?thesis by (simp add: state_ok_def shut_def)
  next
    case False
    with st have l: "lanes_ok p" by (simp add: state_ok_def good_def pool_ok_def)
    then have "set (po_lanes p) \<inter> set (po_dedicated p) = {}" unfolding lanes_ok_def by fastforce
    with l st show ?thesis by (simp add: lanes_ok_def state_ok_def)
  qed
qed

theorem pool_lane_bounds_witness:
  "length (po_lanes busy_pool) \<le> po_capacity busy_pool \<and> po_lanes busy_pool = [0] \<and> po_capacity busy_pool \<le> 64"
  using pool_lane_bounds [OF busy_pool_reachable] busy_pool_view by simp

text \<open>C5. No task is lost or run twice: while the pool is open, a task it knows by an identifier either has its result and
  is neither queued nor held by a lane, or waits in the queue and no lane holds it, or is held by exactly one lane of the
  pool and is not in the queue.\<close>

theorem no_task_lost:
  assumes "pool_reachable env p" "\<not> po_closed p" "mget (po_tasks p) i = Some t"
  shows "\<exists>ta. mget (po_taskStore p) t = Some ta \<and> ta_id ta = i \<and>
    (ta_result ta \<noteq> None \<and> t \<notin> set (po_queue p) \<and> (\<forall>l. \<not> lane_holds p l t) \<or>
     ta_result ta = None \<and> t \<in> set (po_queue p) \<and> (\<forall>l. \<not> lane_holds p l t) \<or>
     ta_result ta = None \<and> t \<notin> set (po_queue p) \<and> (\<exists>!l. lane_holds p l t) \<and>
       (\<forall>l. lane_holds p l t \<longrightarrow> l \<in> set (po_lanes p) \<union> set (po_dedicated p)))"
proof -
  have ok: "pool_ok {} p" using reachable_ok [OF assms(1)] assms(2) by (simp add: state_ok_def good_def)
  then have i: "index_ok p" by (simp add: pool_ok_def)
  then obtain v where v: "tasks_at p t = Some v" "v_id v = i" using assms(3) unfolding index_ok_def by blast
  then obtain ta where ta: "mget (po_taskStore p) t = Some ta" "ta_id ta = i" "tasks_at p t = Some (task_view ta)"
    by (auto simp: tasks_at_def task_view_def)
  have r: "ta_settled ta \<longleftrightarrow> ta_result ta \<noteq> None" using i ta(3) unfolding index_ok_def by (metis task_view.select_convs(2,4) task_view_def)
  show ?thesis
  proof (cases "ta_settled ta")
    case True
    then have "v_settled (task_view ta)" by (simp add: task_view_def)
    then show ?thesis using settled_nowhere [OF ok ta(3)] ta(1,2) r True by (simp add: lane_holds_view)
  next
    case False
    then have o: "open_task p t (task_view ta)" using ta(3) by (simp add: open_task_def task_view_def)
    then consider "t \<in> set (po_queue p)" | l where "holds_task p l t"
      using pool_placed [OF ok] by (auto simp: placed_def)
    then show ?thesis
    proof cases
      case 1
      then have "\<forall>l. \<not> holds_task p l t" using queued_not_held [OF ok] by blast
      then show ?thesis using 1 ta(1,2) r False by (simp add: lane_holds_view)
    next
      case (2 l)
      then have "t \<notin> set (po_queue p)" "\<And>l'. holds_task p l' t \<Longrightarrow> l' = l" "l \<in> set (po_lanes p) \<union> set (po_dedicated p)"
        using queued_not_held [OF ok, of t l] held_once [OF ok 2] pool_holds [OF ok 2] 2 by blast+
      with 2 have "\<exists>!l. holds_task p l t" "\<forall>l. holds_task p l t \<longrightarrow> l \<in> set (po_lanes p) \<union> set (po_dedicated p)"
        "t \<notin> set (po_queue p)" by blast+
      then show ?thesis using ta(1,2) r False by (simp add: lane_holds_view)
    qed
  qed
qed

theorem no_task_lost_witness:
  "\<exists>ta. mget (po_taskStore busy_pool) 1 = Some ta \<and> ta_id ta = 2 \<and> 1 \<in> set (po_queue busy_pool) \<and> (\<forall>l. \<not> lane_holds busy_pool l 1)"
  using no_task_lost [OF busy_pool_reachable, of 2 1] busy_pool_view by auto

text \<open>C6. The pool is work-conserving: as long as it is open and a task waits, every shared lane has a task and the pool
  has opened all the lanes it may.\<close>

theorem work_conserving:
  assumes "pool_reachable env p" "\<not> po_closed p" "po_queue p \<noteq> []"
  shows "length (po_lanes p) = po_capacity p \<and> (\<forall>l \<in> set (po_lanes p). \<exists>t. lane_holds p l t)"
proof -
  have g: "good p" using reachable_ok [OF assms(1)] assms(2) by (simp add: state_ok_def)
  then have c: "\<forall>l \<in> set (po_lanes p). \<not> idle p l" "po_capacity p \<le> length (po_lanes p)"
    using assms(2,3) by (auto simp: good_def conserving_def)
  have l: "lanes_ok p" using g by (simp add: good_def pool_ok_def)
  then have "\<exists>la. lanes_at p l = Some la" if "l \<in> set (po_lanes p)" for l
    using that unfolding lanes_ok_def by blast
  with c(1) have "\<exists>t. holds_task p l t" if "l \<in> set (po_lanes p)" for l
    using that by (fastforce simp: idle_def holds_task_def)
  with c(2) l show ?thesis by (auto simp: lanes_ok_def lane_holds_view)
qed

theorem work_conserving_witness: "length (po_lanes busy_pool) = po_capacity busy_pool \<and> (\<exists>t. lane_holds busy_pool 0 t)"
  using work_conserving [OF busy_pool_reachable] busy_pool_view by simp

text \<open>C29. A result is final: once a task has one, no message, failure, cancellation, deadline, later submission or closing
  of the pool changes it.\<close>

theorem results_final:
  assumes "pool_reachable env p" "result_of_task p t = Some r" "pool_step env p p' \<or> p' = close_pool p"
  shows "result_of_task p' t = Some r"
  using assms(3)
proof
  assume "pool_step env p p'"
  then show ?thesis using step_keeps [OF _ reachable_ok [OF assms(1)]] assms(2) by (simp add: keeps_def)
qed (use close_keeps [OF assms(2)] in simp)

theorem results_final_witness:
  "result_of_task (laneFailure quiet_env 0 [] False answered_pool) 0 = Some (TaskDone [111]) \<and>
   result_of_task (close_pool answered_pool) 0 = Some (TaskDone [111])"
proof -
  have r: "pool_reachable quiet_env answered_pool"
    unfolding answered_pool_def by (rule stepped [OF busy_pool_reachable hears])
  show ?thesis using results_final [OF r answered_pool_result] fails by blast
qed

text \<open>Closing settles everything: afterwards the pool has no lane, every task it ever accepted has a result, and
  submitting is refused without any change.\<close>

theorem close_settles_all:
  assumes "pool_reachable env p" "mget (po_taskStore (close_pool p)) t = Some ta"
  shows "ta_settled ta \<and> po_lanes (close_pool p) = [] \<and> po_dedicated (close_pool p) = [] \<and>
    submit env es (close_pool p) = (close_pool p, throw ''the browser worker pool is closed'')"
proof -
  have "shut (close_pool p)"
    using reachable_ok [OF pool_reachable.closed [OF assms(1)]] close_pool_fields(3) by (simp add: state_ok_def)
  moreover have "tasks_at (close_pool p) t = Some (task_view ta)" using assms(2) by (simp add: tasks_at_def)
  ultimately have "v_settled (task_view ta)" "po_closed (close_pool p)" "po_lanes (close_pool p) = []" "po_dedicated (close_pool p) = []"
    unfolding shut_def by blast+
  then show ?thesis by (simp add: submit_def task_view_def)
qed

theorem close_settles_all_witness:
  "\<exists>ta. mget (po_taskStore (close_pool busy_pool)) 1 = Some ta \<and> ta_settled ta \<and> po_lanes (close_pool busy_pool) = []"
proof -
  have "mget (po_taskStore (close_pool busy_pool)) 1 \<noteq> None" by code_simp
  then show ?thesis using close_settles_all [OF busy_pool_reachable, of 1] by blast
qed

end
