(* ===== verification/Effect_Base.thy ===== *)
theory Effect_Base
  imports Base64 Transfers
begin

text \<open>
  What the browser effects of \<^verbatim>\<open>src/runtime/wasm/app-runtime.mjs\<close> share: the limits of an application,
  exceptions, the use of the frame's transfer leases, and the small effects that keep no
  state: time, random bytes, SHA-256 and HMAC. Clocks, the random source and the digests
  are the browser's and parameters here.
\<close>

section \<open>Exceptions\<close>

text \<open>An exception: a \<^verbatim>\<open>DOMException\<close> with its name, or an error the runtime throws.\<close>

datatype fault = DomException string jstr | Plain jserror

abbreviation fails :: "string \<Rightarrow> fault + 'a" where
  "fails s \<equiv> Inl (Plain (Error (js s)))"

fun fault_name :: "fault \<Rightarrow> string" where
  "fault_name (DomException name _) = name"
| "fault_name (Plain (Error _)) = ''Error''"
| "fault_name (Plain (TypeError _)) = ''TypeError''"
| "fault_name (Plain (RangeError _)) = ''RangeError''"

fun fault_message :: "fault \<Rightarrow> jstr" where
  "fault_message (DomException _ m) = m"
| "fault_message (Plain e) = message e"

section \<open>Limits\<close>

definition RESPONSE_TEXT_BUDGET :: nat where
  "RESPONSE_TEXT_BUDGET = 896 * 1024"

record limits =
  maxEffects :: nat
  maxEffectBytes :: nat
  maxResponseBytes :: nat

definition DEFAULT_LIMITS :: limits where
  "DEFAULT_LIMITS = \<lparr>maxEffects = 256, maxEffectBytes = 4 * 1024 * 1024, maxResponseBytes = 8 * 1024 * 1024\<rparr>"

text \<open>One overridden limit; \<^verbatim>\<open>undefined\<close> keeps the default.\<close>

definition checked_limit :: "string \<Rightarrow> nat \<Rightarrow> jnum \<Rightarrow> nat result" where
  "checked_limit name old value =
    (if value = Undef then Inr old
     else if \<not> isInteger value \<or> the_int value < 1
     then throw (''browser application limit '' @ name @ '' must be a positive integer'')
     else Inr (nat (the_int value)))"

record limit_overrides =
  ov_maxEffects :: jnum
  ov_maxEffectBytes :: jnum
  ov_maxResponseBytes :: jnum

definition checkedLimits :: "limit_overrides \<Rightarrow> limits result" where
  "checkedLimits overrides =
    bind (checked_limit ''maxEffects'' (maxEffects DEFAULT_LIMITS) (ov_maxEffects overrides)) (\<lambda>a.
    bind (checked_limit ''maxEffectBytes'' (maxEffectBytes DEFAULT_LIMITS) (ov_maxEffectBytes overrides)) (\<lambda>b.
    bind (checked_limit ''maxResponseBytes'' (maxResponseBytes DEFAULT_LIMITS) (ov_maxResponseBytes overrides)) (\<lambda>c.
      Inr \<lparr>maxEffects = a, maxEffectBytes = b, maxResponseBytes = c\<rparr>)))"

section \<open>Cancellation\<close>

text \<open>A signal: not aborted, or aborted with a reason that may be missing.\<close>

datatype signal = Running | Aborted "fault option"

fun aborted :: "signal \<Rightarrow> bool" where
  "aborted Running = False"
| "aborted (Aborted _) = True"

fun abortError :: "signal \<Rightarrow> fault" where
  "abortError (Aborted (Some reason)) = reason"
| "abortError _ = DomException ''AbortError'' (js ''The operation was aborted'')"

section \<open>Leases\<close>

definition memoryLease :: "transfers option \<Rightarrow> jnum \<Rightarrow> jnum \<Rightarrow> bool \<Rightarrow> lease_entry result" where
  "memoryLease t i expectedBytes writable =
    (case t of None \<Rightarrow> throw ''browser operation has no transfer lease table''
     | Some ts \<Rightarrow> lease ts i expectedBytes writable)"

definition releaseEffectLease :: "transfers option \<Rightarrow> jnum \<Rightarrow> transfers option" where
  "releaseEffectLease t i = map_option (\<lambda>ts. release ts i) t"

definition write_lease :: "transfers option \<Rightarrow> lease_entry \<Rightarrow> nat \<Rightarrow> byte list \<Rightarrow> transfers option" where
  "write_lease t e at bs = map_option (\<lambda>ts. write_view ts (le_id e) at bs) t"

section \<open>Time\<close>

text \<open>A number of the guest: not a number, not finite, or finite. Milliseconds are taken from any ordered ring.\<close>

datatype 'n jreal = NotNumber | NotFinite | Finite 'n

fun valid_duration :: "('n :: linordered_idom) jreal \<Rightarrow> bool" where
  "valid_duration (Finite x) \<longleftrightarrow> x \<ge> 0"
| "valid_duration _ \<longleftrightarrow> False"

fun the_real :: "('n :: linordered_idom) jreal \<Rightarrow> 'n" where
  "the_real (Finite x) = x"
| "the_real _ = 0"

record 'n time_effect =
  tm_operation :: string
  tm_deadline :: "'n jreal"
  tm_milliseconds :: "'n jreal"

text \<open>A reading of a clock, or a sleep to be waited for.\<close>

datatype 'n time_reply = Reading 'n | SleepFor 'n

definition performTimeEffect :: "('n :: linordered_idom) \<Rightarrow> 'n \<Rightarrow> signal \<Rightarrow> 'n time_effect \<Rightarrow> fault + 'n time_reply" where
  "performTimeEffect now wall sig eff =
    (if tm_operation eff = ''now'' then Inr (Reading now)
     else if tm_operation eff = ''wall'' then Inr (Reading wall)
     else let sleep = (if tm_operation eff = ''until'' \<and> valid_duration (tm_deadline eff)
                then Some (Finite (max 0 (the_real (tm_deadline eff) - now)))
                else if tm_operation eff = ''sleep'' then Some (tm_milliseconds eff) else None) in
     (case sleep of
        Some ms \<Rightarrow> if \<not> valid_duration ms then fails ''invalid browser time operation''
          else if aborted sig then Inl (abortError sig) else Inr (SleepFor (the_real ms))
      | None \<Rightarrow> fails ''invalid browser time operation''))"

text \<open>How a sleep ends: its timer fires first, or the signal does; whichever comes second is disarmed.\<close>

definition sleep_ends :: "signal \<Rightarrow> bool \<Rightarrow> fault + unit" where
  "sleep_ends sig timer = (if timer then Inr () else Inl (abortError sig))"

section \<open>Random bytes and digests\<close>

text \<open>\<open>Some c\<close>: Web Crypto is there with both of the parts the runtime uses.\<close>

definition webCrypto :: "'c option \<Rightarrow> 'c result" where
  "webCrypto crypto = (case crypto of None \<Rightarrow> throw ''Web Crypto is unavailable in this host'' | Some c \<Rightarrow> Inr c)"

text \<open>\<open>random at n\<close> fills \<open>n\<close> bytes from offset \<open>at\<close>, which is one call of \<^verbatim>\<open>getRandomValues\<close>.\<close>

function random_fill :: "(nat \<Rightarrow> nat \<Rightarrow> byte list) \<Rightarrow> nat \<Rightarrow> nat \<Rightarrow> (nat \<times> nat) list \<times> byte list" where
  "random_fill random count at =
    (if at < count then
       let n = min (at + 65536) count - at in
       (case random_fill random count (at + 65536) of (calls, bs) \<Rightarrow> ((at, n) # calls, random at n @ bs))
     else ([], []))"
  by pat_completeness auto
termination
  by (relation "measure (\<lambda>(random, count, at). count - at)") auto

declare random_fill.simps [simp del]

record 'n random_reply =
  rr_bytesBase64 :: jstr
  rr_wallTimeMs :: "'n option"

definition performRandomEffect ::
  "(nat \<Rightarrow> nat \<Rightarrow> byte list) option \<Rightarrow> 'n \<Rightarrow> jnum \<Rightarrow> bool \<Rightarrow> 'n random_reply result" where
  "performRandomEffect crypto wall count wallTime =
    (if \<not> isInteger count \<or> the_int count < 0 \<or> the_int count > 1024 * 1024
     then throw ''browser random byte count must be between 0 and 1048576''
     else bind (webCrypto crypto) (\<lambda>random.
       Inr \<lparr>rr_bytesBase64 = bytesToBase64 (snd (random_fill random (nat (the_int count)) 0)),
            rr_wallTimeMs = (if wallTime then Some wall else None)\<rparr>))"

definition performSha256Effect :: "(byte list \<Rightarrow> byte list) option \<Rightarrow> jstr option \<Rightarrow> jstr result" where
  "performSha256Effect crypto text =
    bind (base64ToBytes text ''SHA-256 input'') (\<lambda>bytes.
    bind (webCrypto crypto) (\<lambda>sha. Inr (hex_text (sha bytes))))"

definition performHmacEffect ::
  "(byte list \<Rightarrow> byte list \<Rightarrow> byte list) option \<Rightarrow> jstr option \<Rightarrow> jstr option \<Rightarrow> jstr result" where
  "performHmacEffect crypto key text =
    bind (webCrypto crypto) (\<lambda>hmac.
    bind (base64ToBytes key ''HMAC key'') (\<lambda>keyBytes.
    bind (base64ToBytes text ''HMAC message'') (\<lambda>msg. Inr (bytesToBase64 (hmac keyBytes msg)))))"

section \<open>Lemmas\<close>

lemma lease_Inr:
  "lease t i n w = Inr e \<longleftrightarrow>
     (\<exists>k. i = IntV k \<and> mget t k = Some e) \<and> \<not> le_released e \<and> (n = Undef \<or> n = IntV (int (le_bytes e))) \<and> (w \<longrightarrow> le_writable e)"
  by (cases i) (auto simp: lease_def split: option.splits)

lemma released_not_outstanding: "k \<notin> outstanding (release t (IntV k))"
  by (auto simp: outstanding_def split: option.splits)

lemma released_still_ok: "wf_transfers t \<Longrightarrow> wf_transfers (release t i)"
  by (rule wf_release)

lemma releaseEffectLease_Some [simp]: "releaseEffectLease (Some t) i = Some (release t i)"
  by (simp add: releaseEffectLease_def)

lemma memoryLease_Some [simp]: "memoryLease (Some t) i n w = lease t i n w"
  by (simp add: memoryLease_def)

text \<open>The random source is asked for at most 65536 bytes at a time, the quota of \<^verbatim>\<open>getRandomValues\<close>, and for all of them.\<close>

lemma random_fill_calls:
  "(\<forall>c \<in> set (fst (random_fill random count at)). 0 < snd c \<and> snd c \<le> 65536) \<and>
   sum_list (map snd (fst (random_fill random count at))) = count - at \<and>
   snd (random_fill random count at) = concat (map (\<lambda>(i, n). random i n) (fst (random_fill random count at)))"
proof (induction random count at rule: random_fill.induct)
  case (1 random count at)
  show ?case
  proof (cases "at < count")
    case True
    obtain calls bs where r: "random_fill random count (at + 65536) = (calls, bs)" by fastforce
    let ?n = "min (at + 65536) count - at"
    have "random_fill random count at = ((at, ?n) # calls, random at ?n @ bs)"
      using True r by (subst random_fill.simps) (simp add: Let_def)
    moreover have "0 < ?n" "?n \<le> 65536" "?n + (count - (at + 65536)) = count - at" using True by auto
    ultimately show ?thesis using 1 [OF True refl] r by simp
  qed (simp add: random_fill.simps)
qed

end
