(* ===== verification/Files.thy ===== *)
theory Files
  imports Effect_Base
begin

text \<open>
  The \<^verbatim>\<open>files\<close> effects of \<^verbatim>\<open>src/runtime/wasm/app-runtime.mjs\<close>: paths checked against the three
  roots, open handles with their cursors, and reads and writes that move bytes through the
  frame's transfer leases. The Origin Private File System of the browser is the parameter
  \<open>fs\<close> over a disk of any type; file effects run one after another, so each is one step.
\<close>

section \<open>The browser's storage\<close>

type_synonym access = nat

text \<open>
  Paths are the names below the origin's root. \<open>fs_directory\<close> is one \<^verbatim>\<open>getDirectoryHandle\<close> under
  a path, \<open>fs_file\<close> one \<^verbatim>\<open>getFileHandle\<close>. Sizes and counts are integers, as their interfaces declare. \<open>fs_read d a n at\<close> gives the bytes put into a view of \<open>n\<close>
  bytes and the count it reports.
\<close>

record 'd file_system =
  fs_root :: "'d \<Rightarrow> fault + unit"
  fs_directory :: "'d \<Rightarrow> jstr list \<Rightarrow> jstr \<Rightarrow> bool \<Rightarrow> 'd \<times> (fault + unit)"
  fs_file :: "'d \<Rightarrow> jstr list \<Rightarrow> jstr \<Rightarrow> bool \<Rightarrow> 'd \<times> (fault + unit)"
  fs_sync :: "bool"
  fs_open :: "'d \<Rightarrow> jstr list \<Rightarrow> jstr \<Rightarrow> 'd \<times> (fault + access)"
  fs_truncate :: "'d \<Rightarrow> access \<Rightarrow> 'd \<times> (fault + unit)"
  fs_size :: "'d \<Rightarrow> access \<Rightarrow> fault + int"
  fs_read :: "'d \<Rightarrow> access \<Rightarrow> nat \<Rightarrow> int \<Rightarrow> byte list \<times> (fault + int)"
  fs_write :: "'d \<Rightarrow> access \<Rightarrow> byte list \<Rightarrow> int \<Rightarrow> 'd \<times> (fault + int)"
  fs_flush :: "'d \<Rightarrow> access \<Rightarrow> 'd \<times> (fault + unit)"
  fs_close :: "'d \<Rightarrow> access \<Rightarrow> 'd"
  fs_stat :: "'d \<Rightarrow> jstr list \<Rightarrow> jstr \<Rightarrow> fault + (int \<times> int)"
  fs_remove :: "'d \<Rightarrow> jstr list \<Rightarrow> jstr \<Rightarrow> bool \<Rightarrow> 'd \<times> (fault + unit)"
  fs_entries :: "'d \<Rightarrow> jstr list \<Rightarrow> (jstr \<times> string) list"
  fs_persist :: "'d \<Rightarrow> 'd \<times> (fault + bool)"

section \<open>State and requests\<close>

record file_handle =
  fh_access :: access
  fh_cursor :: int
  fh_readable :: bool
  fh_writable :: bool
  fh_appending :: bool

record 'd files_state =
  fl_disk :: 'd
  fl_available :: bool
  fl_persistentAvailable :: bool
  fl_relay :: bool  \<comment> \<open>\<^verbatim>\<open>requestPersistentStorage\<close> is there\<close>
  fl_handles :: "(int, file_handle) jmap"
  fl_nextHandle :: int

text \<open>
  What the page gives: a storage with \<^verbatim>\<open>getDirectory\<close>, one with \<^verbatim>\<open>persist\<close>, a relay of its own.
\<close>

definition filesState :: "'d \<Rightarrow> bool \<Rightarrow> bool \<Rightarrow> bool \<Rightarrow> 'd files_state" where
  "filesState disk directory persist relay =
    \<lparr>fl_disk = disk, fl_available = directory, fl_persistentAvailable = relay \<or> persist, fl_relay = relay \<or> persist,
     fl_handles = [], fl_nextHandle = 1\<rparr>"

record file_effect =
  fx_operation :: string
  fx_handle :: jnum
  fx_offset :: jnum
  fx_origin :: jnum
  fx_count :: jnum
  fx_lease :: jnum
  fx_root :: "jstr option"
  fx_parts :: "jstr option list option"  \<comment> \<open>\<open>None\<close>: not an array; a \<open>None\<close> part: not a string\<close>
  fx_mode :: jstr
  fx_recursive :: bool

datatype file_reply =
    Capabilities bool bool
  | Granted bool
  | FileClosed
  | FileSize int
  | FilePosition int
  | FileRead int
  | FileWrote nat
  | FileFlushed
  | DirectoryCreated
  | FileExists bool
  | FileOpened int
  | FileInfo string int int  \<comment> \<open>kind, size, and the modification time in milliseconds, divided by 1000 in the answer\<close>
  | FileRemoved
  | FileEntries "(jstr \<times> string) list"

section \<open>Paths\<close>

definition part_ok :: "jstr option \<Rightarrow> bool" where
  "part_ok part \<longleftrightarrow> (case part of None \<Rightarrow> False
     | Some p \<Rightarrow> p \<noteq> [] \<and> p \<noteq> js ''.'' \<and> p \<noteq> js ''..'' \<and> 47 \<notin> set p \<and> 92 \<notin> set p)"

definition fileParts :: "file_effect \<Rightarrow> fault + jstr list" where
  "fileParts eff =
    (case fx_parts eff of None \<Rightarrow> fails ''browser file path is invalid''
     | Some parts \<Rightarrow>
        if length parts < 3 \<or> \<not> list_all part_ok parts then fails ''browser file path is invalid''
        else if fx_root eff \<noteq> hd parts \<or> fx_root eff \<notin> {Some (js ''configuration''), Some (js ''data''), Some (js ''cache'')}
        then fails ''browser file root is invalid''
        else Inr (map the parts))"

text \<open>\<open>done\<close> are the names already entered; \<^verbatim>\<open>filesRoot\<close> comes first.\<close>

fun enter :: "'d file_system \<Rightarrow> bool \<Rightarrow> jstr list \<Rightarrow> jstr list \<Rightarrow> 'd \<Rightarrow> 'd \<times> (fault + unit)" where
  "enter fs create done [] d = (d, Inr ())"
| "enter fs create done (p # ps) d =
    (case fs_directory fs d done p create of
       (d1, Inl e) \<Rightarrow> (d1, Inl e)
     | (d1, Inr _) \<Rightarrow> enter fs create (done @ [p]) ps d1)"

definition directoryAt :: "'d file_system \<Rightarrow> jstr list \<Rightarrow> bool \<Rightarrow> 'd \<Rightarrow> 'd \<times> (fault + unit)" where
  "directoryAt fs parts create d = (case fs_root fs d of Inl e \<Rightarrow> (d, Inl e) | Inr _ \<Rightarrow> enter fs create [] parts d)"

section \<open>Open handles\<close>

definition openFile :: "'d files_state \<Rightarrow> jnum \<Rightarrow> fault + file_handle" where
  "openFile st value =
    (if \<not> isSafeInteger value \<or> the_int value < 1 then fails ''browser file handle is invalid''
     else case mget (fl_handles st) (the_int value) of
       None \<Rightarrow> fails ''browser file handle is closed or unknown''
     | Some file \<Rightarrow> Inr file)"

definition set_cursor :: "int \<Rightarrow> int \<Rightarrow> 'd files_state \<Rightarrow> 'd files_state" where
  "set_cursor handle cursor st =
    (case mget (fl_handles st) handle of None \<Rightarrow> st
     | Some file \<Rightarrow> st\<lparr>fl_handles := mset (fl_handles st) handle (file\<lparr>fh_cursor := cursor\<rparr>)\<rparr>)"

definition file_close :: "'d file_system \<Rightarrow> file_effect \<Rightarrow> 'd files_state \<Rightarrow> 'd files_state \<times> (fault + file_reply)" where
  "file_close fs eff st =
    (case openFile st (fx_handle eff) of Inl e \<Rightarrow> (st, Inl e)
     | Inr file \<Rightarrow>
        (st\<lparr>fl_handles := mdelete (fl_handles st) (the_int (fx_handle eff)), fl_disk := fs_close fs (fl_disk st) (fh_access file)\<rparr>,
         Inr FileClosed))"

definition file_size :: "'d file_system \<Rightarrow> file_effect \<Rightarrow> 'd files_state \<Rightarrow> fault + file_reply" where
  "file_size fs eff st =
    (case openFile st (fx_handle eff) of Inl e \<Rightarrow> Inl e
     | Inr file \<Rightarrow>
        (case fs_size fs (fl_disk st) (fh_access file) of Inl e \<Rightarrow> Inl e
         | Inr n \<Rightarrow> if \<not> isSafeInteger (IntV n) \<or> n < 0 then fails ''browser file size is invalid''
             else Inr (FileSize n)))"

definition seek_base :: "'d file_system \<Rightarrow> 'd files_state \<Rightarrow> file_handle \<Rightarrow> int \<Rightarrow> fault + int" where
  "seek_base fs st file origin =
    (if origin = 0 then Inr 0 else if origin = 1 then Inr (fh_cursor file)
     else fs_size fs (fl_disk st) (fh_access file))"

definition file_seek :: "'d file_system \<Rightarrow> file_effect \<Rightarrow> 'd files_state \<Rightarrow> 'd files_state \<times> (fault + file_reply)" where
  "file_seek fs eff st =
    (case openFile st (fx_handle eff) of Inl e \<Rightarrow> (st, Inl e)
     | Inr file \<Rightarrow>
        if \<not> isSafeInteger (fx_offset eff) \<or> fx_origin eff \<notin> {IntV 0, IntV 1, IntV 2}
        then (st, fails ''browser file seek is invalid'')
        else case seek_base fs st file (the_int (fx_origin eff)) of
          Inl e \<Rightarrow> (st, Inl e)
        | Inr base \<Rightarrow>
           let position = max 0 (base + the_int (fx_offset eff)) in
           if \<not> isSafeInteger (IntV position) then (st, fails ''browser file position exceeds the exact integer range'')
           else (set_cursor (the_int (fx_handle eff)) position st, Inr (FilePosition position)))"

section \<open>Reading and writing\<close>

text \<open>
  The lease is taken before the \<^verbatim>\<open>try\<close> whose \<^verbatim>\<open>finally\<close> gives it back, and the checks before it
  throw without giving it back.
\<close>

definition file_read ::
  "'d file_system \<Rightarrow> file_effect \<Rightarrow> 'd files_state \<times> transfers option \<Rightarrow> ('d files_state \<times> transfers option) \<times> (fault + file_reply)" where
  "file_read fs eff w = (case w of (st, t) \<Rightarrow>
    (case openFile st (fx_handle eff) of Inl e \<Rightarrow> (w, Inl e)
     | Inr file \<Rightarrow>
        if \<not> fh_readable file then (w, fails ''file is not open for reading'')
        else if \<not> isSafeInteger (fx_count eff) \<or> the_int (fx_count eff) < 1 then (w, fails ''browser file read count is invalid'')
        else case memoryLease t (fx_lease eff) (fx_count eff) True of
          Inl e \<Rightarrow> (w, Inl (Plain e))
        | Inr entry \<Rightarrow>
           (case fs_read fs (fl_disk st) (fh_access file) (le_bytes entry) (fh_cursor file) of (bs, r) \<Rightarrow>
            let t1 = releaseEffectLease (write_lease t entry 0 bs) (fx_lease eff) in
            (case r of Inl e \<Rightarrow> ((st, t1), Inl e)
             | Inr bytes \<Rightarrow>
                if \<not> isSafeInteger (IntV bytes) \<or> bytes < 0 \<or> bytes > the_int (fx_count eff)
                then ((st, t1), fails ''browser file read returned an invalid byte count'')
                else ((set_cursor (the_int (fx_handle eff)) (fh_cursor file + bytes) st, t1),
                      Inr (FileRead bytes))))))"

text \<open>The loop of a write: \<open>bytes\<close> are done of \<open>count\<close>, the rest of the view goes to the cursor.\<close>

function write_loop ::
  "'d file_system \<Rightarrow> access \<Rightarrow> byte list \<Rightarrow> nat \<Rightarrow> nat \<Rightarrow> int \<Rightarrow> 'd \<Rightarrow> 'd \<times> int \<times> (fault + nat)" where
  "write_loop fs a view count bytes cursor d =
    (if bytes < count then
       (case fs_write fs d a (drop bytes view) cursor of
          (d1, Inl e) \<Rightarrow> (d1, cursor, Inl e)
        | (d1, Inr wrote) \<Rightarrow>
           if \<not> isSafeInteger (IntV wrote) \<or> wrote < 1 \<or> wrote > int (count - bytes)
           then (d1, cursor, fails ''browser file write returned an invalid byte count'')
           else write_loop fs a view count (bytes + nat wrote) (cursor + wrote) d1)
     else (d, cursor, Inr bytes))"
  by pat_completeness auto
termination
  by (relation "measure (\<lambda>(fs, a, view, count, bytes, cursor, d). count - bytes)") auto

declare write_loop.simps [simp del]

definition write_start :: "'d file_system \<Rightarrow> 'd files_state \<Rightarrow> file_handle \<Rightarrow> fault + int" where
  "write_start fs st file =
    (if fh_appending file then fs_size fs (fl_disk st) (fh_access file) else Inr (fh_cursor file))"

definition file_write ::
  "'d file_system \<Rightarrow> file_effect \<Rightarrow> 'd files_state \<times> transfers option \<Rightarrow> ('d files_state \<times> transfers option) \<times> (fault + file_reply)" where
  "file_write fs eff w = (case w of (st, t) \<Rightarrow>
    (case openFile st (fx_handle eff) of Inl e \<Rightarrow> (w, Inl e)
     | Inr file \<Rightarrow>
        if \<not> fh_writable file then (w, fails ''file is not open for writing'')
        else if \<not> isSafeInteger (fx_count eff) \<or> the_int (fx_count eff) < 0 then (w, fails ''browser file write count is invalid'')
        else case memoryLease t (fx_lease eff) (fx_count eff) False of
          Inl e \<Rightarrow> (w, Inl (Plain e))
        | Inr entry \<Rightarrow>
           let t1 = releaseEffectLease t (fx_lease eff) in
           (case write_start fs st file of Inl e \<Rightarrow> ((st, t1), Inl e)
            | Inr start \<Rightarrow>
               (case write_loop fs (fh_access file) (le_view entry) (nat (the_int (fx_count eff))) 0 start (fl_disk st) of
                  (d, cursor, r) \<Rightarrow>
                    ((set_cursor (the_int (fx_handle eff)) cursor (st\<lparr>fl_disk := d\<rparr>), t1),
                     (case r of Inl e \<Rightarrow> Inl e | Inr n \<Rightarrow> Inr (FileWrote n)))))))"

definition file_flush :: "'d file_system \<Rightarrow> file_effect \<Rightarrow> 'd files_state \<Rightarrow> 'd files_state \<times> (fault + file_reply)" where
  "file_flush fs eff st =
    (case openFile st (fx_handle eff) of Inl e \<Rightarrow> (st, Inl e)
     | Inr file \<Rightarrow> (case fs_flush fs (fl_disk st) (fh_access file) of
         (d, Inl e) \<Rightarrow> (st\<lparr>fl_disk := d\<rparr>, Inl e) | (d, Inr _) \<Rightarrow> (st\<lparr>fl_disk := d\<rparr>, Inr FileFlushed)))"

section \<open>Names\<close>

definition create_directory :: "'d file_system \<Rightarrow> jstr list \<Rightarrow> 'd files_state \<Rightarrow> 'd files_state \<times> (fault + file_reply)" where
  "create_directory fs parts st =
    (case directoryAt fs parts True (fl_disk st) of
       (d, Inl e) \<Rightarrow> (st\<lparr>fl_disk := d\<rparr>, Inl e) | (d, Inr _) \<Rightarrow> (st\<lparr>fl_disk := d\<rparr>, Inr DirectoryCreated))"

definition exists_lookup :: "'d file_system \<Rightarrow> jstr list \<Rightarrow> 'd \<Rightarrow> 'd \<times> (fault + unit)" where
  "exists_lookup fs parts d =
    (case directoryAt fs (butlast parts) False d of (d1, Inl e) \<Rightarrow> (d1, Inl e)
     | (d1, Inr _) \<Rightarrow>
        (case fs_file fs d1 (butlast parts) (last parts) False of
           (d2, Inl e) \<Rightarrow> if fault_name e = ''TypeMismatchError'' then (d2, Inr ()) else (d2, Inl e)
         | (d2, Inr _) \<Rightarrow> (d2, Inr ())))"

definition exists_file :: "'d file_system \<Rightarrow> jstr list \<Rightarrow> 'd files_state \<Rightarrow> 'd files_state \<times> (fault + file_reply)" where
  "exists_file fs parts st =
    (case exists_lookup fs parts (fl_disk st) of
       (d, Inr _) \<Rightarrow> (st\<lparr>fl_disk := d\<rparr>, Inr (FileExists True))
     | (d, Inl e) \<Rightarrow> (st\<lparr>fl_disk := d\<rparr>,
         if fault_name e = ''NotFoundError'' then Inr (FileExists False) else Inl e))"

record file_mode =
  md_mustExist :: bool
  md_readable :: bool
  md_writable :: bool
  md_truncate :: bool
  md_appending :: bool

definition modes :: "jstr \<Rightarrow> file_mode option" where
  "modes m =
    (if m = js ''r'' then Some \<lparr>md_mustExist = True, md_readable = True, md_writable = False, md_truncate = False, md_appending = False\<rparr>
     else if m = js ''w'' then Some \<lparr>md_mustExist = False, md_readable = False, md_writable = True, md_truncate = True, md_appending = False\<rparr>
     else if m = js ''a'' then Some \<lparr>md_mustExist = False, md_readable = False, md_writable = True, md_truncate = False, md_appending = True\<rparr>
     else if m = js ''r+'' then Some \<lparr>md_mustExist = True, md_readable = True, md_writable = True, md_truncate = False, md_appending = False\<rparr>
     else if m = js ''w+'' then Some \<lparr>md_mustExist = False, md_readable = True, md_writable = True, md_truncate = True, md_appending = False\<rparr>
     else if m = js ''a+'' then Some \<lparr>md_mustExist = False, md_readable = True, md_writable = True, md_truncate = False, md_appending = True\<rparr>
     else None)"

text \<open>
  \<^verbatim>\<open>while (handle === 0 || state.handles.has(handle)) handle = state.nextHandle++\<close>: the first free
  handle from \<open>next\<close> on.
\<close>

function free_handle :: "(int, 'a) jmap \<Rightarrow> int \<Rightarrow> int" where
  "free_handle m next = (if next = 0 \<or> mhas m next then free_handle m (next + 1) else next)"
  by pat_completeness auto
termination
proof (relation "measure (\<lambda>(m, next). card {k \<in> insert 0 (set (mkeys m)). next \<le> k})", goal_cases)
  case (2 m h)
  let ?A = "insert 0 (set (mkeys m))"
  let ?B = "{k \<in> ?A. h \<le> k}"
  have "h \<in> ?A" using 2 by (auto simp: set_mkeys mhas_def)
  then have "h \<in> ?B" "h \<notin> {k \<in> ?A. h + 1 \<le> k}" by simp_all
  moreover have "{k \<in> ?A. h + 1 \<le> k} \<subseteq> ?B" by (rule Collect_mono) simp
  ultimately have "{k \<in> ?A. h + 1 \<le> k} \<subset> ?B" by blast
  moreover have "finite ?B" by simp
  ultimately show ?case by (simp only: in_measure case_prod_conv) (rule psubset_card_mono)
qed simp

declare free_handle.simps [simp del]

definition open_file :: "'d file_system \<Rightarrow> file_effect \<Rightarrow> jstr list \<Rightarrow> 'd files_state \<Rightarrow> 'd files_state \<times> (fault + file_reply)" where
  "open_file fs eff parts st =
    (case modes (fx_mode eff) of None \<Rightarrow> (st, fails ''unknown browser file mode'')
     | Some mode \<Rightarrow>
        (case fs_file fs (fl_disk st) (butlast parts) (last parts) (\<not> md_mustExist mode) of
           (d1, Inl e) \<Rightarrow> (st\<lparr>fl_disk := d1\<rparr>, Inl e)
         | (d1, Inr _) \<Rightarrow>
            if \<not> fs_sync fs then (st\<lparr>fl_disk := d1\<rparr>, fails ''synchronous OPFS file handles are unavailable'')
            else case fs_open fs d1 (butlast parts) (last parts) of
              (d2, Inl e) \<Rightarrow> (st\<lparr>fl_disk := d2\<rparr>, Inl e)
            | (d2, Inr a) \<Rightarrow>
               (case (if md_truncate mode then fs_truncate fs d2 a else (d2, Inr ())) of
                  (d3, Inl e) \<Rightarrow> (st\<lparr>fl_disk := fs_close fs d3 a\<rparr>, Inl e)
                | (d3, Inr _) \<Rightarrow>
                   let handle = free_handle (fl_handles st) (fl_nextHandle st) in
                   (st\<lparr>fl_disk := d3, fl_nextHandle := handle + 1,
                      fl_handles := mset (fl_handles st) handle
                        \<lparr>fh_access = a, fh_cursor = 0, fh_readable = md_readable mode, fh_writable = md_writable mode,
                         fh_appending = md_appending mode\<rparr>\<rparr>,
                    Inr (FileOpened handle)))))"

definition file_info :: "'d file_system \<Rightarrow> jstr list \<Rightarrow> 'd files_state \<Rightarrow> 'd files_state \<times> (fault + file_reply)" where
  "file_info fs parts st =
    (case fs_file fs (fl_disk st) (butlast parts) (last parts) False of (d1, r1) \<Rightarrow>
     (case (case r1 of Inl e \<Rightarrow> Inl e | Inr _ \<Rightarrow> fs_stat fs d1 (butlast parts) (last parts)) of
        Inr (n, modified) \<Rightarrow> (st\<lparr>fl_disk := d1\<rparr>, Inr (FileInfo ''file'' n modified))
      | Inl fileError \<Rightarrow>
         (case fs_directory fs d1 (butlast parts) (last parts) False of
            (d2, Inr _) \<Rightarrow> (st\<lparr>fl_disk := d2\<rparr>, Inr (FileInfo ''directory'' 0 0))
          | (d2, Inl _) \<Rightarrow> (st\<lparr>fl_disk := d2\<rparr>, Inl fileError))))"

definition file_remove :: "'d file_system \<Rightarrow> file_effect \<Rightarrow> jstr list \<Rightarrow> 'd files_state \<Rightarrow> 'd files_state \<times> (fault + file_reply)" where
  "file_remove fs eff parts st =
    (case fs_remove fs (fl_disk st) (butlast parts) (last parts) (fx_recursive eff) of
       (d, Inl e) \<Rightarrow> (st\<lparr>fl_disk := d\<rparr>, Inl e) | (d, Inr _) \<Rightarrow> (st\<lparr>fl_disk := d\<rparr>, Inr FileRemoved))"

definition file_list :: "'d file_system \<Rightarrow> jstr list \<Rightarrow> 'd files_state \<Rightarrow> 'd files_state \<times> (fault + file_reply)" where
  "file_list fs parts st =
    (case fs_directory fs (fl_disk st) (butlast parts) (last parts) False of
       (d, Inl e) \<Rightarrow> (st\<lparr>fl_disk := d\<rparr>, Inl e)
     | (d, Inr _) \<Rightarrow> (st\<lparr>fl_disk := d\<rparr>, Inr (FileEntries
         (map (\<lambda>(name, kind). (name, if kind = ''directory'' then ''directory'' else ''file'')) (fs_entries fs d parts)))))"

text \<open>The operations that look below a parent directory.\<close>

definition below_parent :: "'d file_system \<Rightarrow> file_effect \<Rightarrow> jstr list \<Rightarrow> 'd files_state \<Rightarrow> 'd files_state \<times> (fault + file_reply)" where
  "below_parent fs eff parts st =
    (case directoryAt fs (butlast parts) False (fl_disk st) of
       (d, Inl e) \<Rightarrow> (st\<lparr>fl_disk := d\<rparr>, Inl e)
     | (d, Inr _) \<Rightarrow>
        let st1 = st\<lparr>fl_disk := d\<rparr> in
        if fx_operation eff = ''open'' then open_file fs eff parts st1
        else if fx_operation eff = ''info'' then file_info fs parts st1
        else if fx_operation eff = ''remove'' then file_remove fs eff parts st1
        else if fx_operation eff = ''list'' then file_list fs parts st1
        else (st1, fails (''unsupported browser file operation '' @ fx_operation eff)))"

section \<open>The effect\<close>

definition with_files :: "transfers option \<Rightarrow> 'd files_state \<times> (fault + file_reply) \<Rightarrow> ('d files_state \<times> transfers option) \<times> (fault + file_reply)" where
  "with_files t x = ((fst x, t), snd x)"

definition persist_storage :: "'d file_system \<Rightarrow> 'd files_state \<Rightarrow> 'd files_state \<times> (fault + file_reply)" where
  "persist_storage fs st =
    (if \<not> fl_relay st then (st, fails ''the browser host has no main-thread persistence relay'')
     else case fs_persist fs (fl_disk st) of
       (d, Inl e) \<Rightarrow> (st\<lparr>fl_disk := d\<rparr>, Inl e) | (d, Inr granted) \<Rightarrow> (st\<lparr>fl_disk := d\<rparr>, Inr (Granted granted)))"

definition performFilesEffectNow ::
  "'d file_system \<Rightarrow> file_effect \<Rightarrow> 'd files_state \<times> transfers option \<Rightarrow> ('d files_state \<times> transfers option) \<times> (fault + file_reply)" where
  "performFilesEffectNow fs eff w = (case w of (st, t) \<Rightarrow>
    (let op = fx_operation eff in
     if op = ''capabilities'' then (w, Inr (Capabilities (fl_available st) (fl_persistentAvailable st)))
     else if \<not> fl_available st then (w, fails ''Origin Private File System is unavailable'')
     else if op = ''persist'' then with_files t (persist_storage fs st)
     else if op = ''file-close'' then with_files t (file_close fs eff st)
     else if op = ''file-size'' then (w, file_size fs eff st)
     else if op = ''file-seek'' then with_files t (file_seek fs eff st)
     else if op = ''file-read'' then file_read fs eff w
     else if op = ''file-write'' then file_write fs eff w
     else if op = ''file-flush'' then with_files t (file_flush fs eff st)
     else case fileParts eff of Inl e \<Rightarrow> (w, Inl e)
       | Inr parts \<Rightarrow>
          if op = ''create-directory'' then with_files t (create_directory fs parts st)
          else if op = ''exists'' then with_files t (exists_file fs parts st)
          else with_files t (below_parent fs eff parts st)))"

text \<open>
  \<^verbatim>\<open>performFilesEffect\<close> chains every request behind the one before it, whether that one succeeds
  or fails, so a batch runs in request order.
\<close>

fun performFilesEffects ::
  "'d file_system \<Rightarrow> file_effect list \<Rightarrow> 'd files_state \<times> transfers option
     \<Rightarrow> ('d files_state \<times> transfers option) \<times> (fault + file_reply) list" where
  "performFilesEffects fs [] w = (w, [])"
| "performFilesEffects fs (eff # effs) w =
    (case performFilesEffectNow fs eff w of (w1, r) \<Rightarrow>
     case performFilesEffects fs effs w1 of (w2, rs) \<Rightarrow> (w2, r # rs))"

section \<open>Writing stores everything\<close>

text \<open>What a file holds after bytes are put at a position; a gap is filled with zeros.\<close>

definition splice :: "byte list \<Rightarrow> nat \<Rightarrow> byte list \<Rightarrow> byte list" where
  "splice c at bs = take at (c @ replicate (at - length c) 0) @ bs @ drop (at + length bs) c"

lemma splice_splice: "splice (splice c at xs) (at + length xs) ys = splice c at (xs @ ys)"
proof -
  have "length (take at (c @ replicate (at - length c) 0)) = at" by simp
  then show ?thesis by (simp add: splice_def ac_simps)
qed

lemma splice_Nil: "at \<le> length c \<Longrightarrow> splice c at [] = c"
  by (simp add: splice_def)

text \<open>
  What the File System standard promises of \<^verbatim>\<open>write\<close>: it puts some of the bytes, at least one of a
  non-empty view, at the position and reports how many.
\<close>

definition writes_some :: "'d file_system \<Rightarrow> ('d \<Rightarrow> access \<Rightarrow> byte list) \<Rightarrow> bool" where
  "writes_some fs contents \<longleftrightarrow> (\<forall>d a bs at. bs \<noteq> [] \<longrightarrow> 0 \<le> at \<longrightarrow>
     (\<exists>d' n. fs_write fs d a bs at = (d', Inr (int n)) \<and> 1 \<le> n \<and> n \<le> length bs \<and>
        contents d' a = splice (contents d a) (nat at) (take n bs)))"

lemma writes_someD:
  assumes "writes_some fs contents" "bs \<noteq> []" "0 \<le> at"
  obtains d' n where "fs_write fs d a bs at = (d', Inr (int n))" "1 \<le> n" "n \<le> length bs"
    "contents d' a = splice (contents d a) (nat at) (take n bs)"
  using assms unfolding writes_some_def by blast

lemma write_loop_stores:
  assumes "writes_some fs contents" "0 \<le> cursor" "bytes < length view" "int (length view) \<le> max_safe"
  shows "\<exists>d'. write_loop fs a view (length view) bytes cursor d = (d', cursor + int (length view - bytes), Inr (length view)) \<and>
    contents d' a = splice (contents d a) (nat cursor) (drop bytes view)"
  using assms(2,3)
proof (induction "length view - bytes" arbitrary: bytes cursor d rule: less_induct)
  case less
  obtain d1 n where w: "fs_write fs d a (drop bytes view) cursor = (d1, Inr (int n))" "1 \<le> n" "n \<le> length view - bytes"
    "contents d1 a = splice (contents d a) (nat cursor) (take n (drop bytes view))"
    using writes_someD [OF assms(1), of "drop bytes view" cursor d a] less.prems by auto
  have ok: "isSafeInteger (IntV (int n))" "\<not> int n < 1" "\<not> int n > int (length view - bytes)"
    using w(2,3) assms(4) by (auto simp: max_safe_def)
  have step: "write_loop fs a view (length view) bytes cursor d = write_loop fs a view (length view) (bytes + n) (cursor + int n) d1"
    using less.prems w(1) ok by (subst write_loop.simps) simp
  show ?case
  proof (cases "bytes + n < length view")
    case True
    have "length view - (bytes + n) < length view - bytes" using w(2) True by simp
    then obtain d2 where d2: "write_loop fs a view (length view) (bytes + n) (cursor + int n) d1 =
        (d2, cursor + int n + int (length view - (bytes + n)), Inr (length view))"
      "contents d2 a = splice (contents d1 a) (nat (cursor + int n)) (drop (bytes + n) view)"
      using less.hyps [of "bytes + n" "cursor + int n" d1] less.prems True by auto
    have "nat (cursor + int n) = nat cursor + length (take n (drop bytes view))" using less.prems w(3) by simp
    then have "contents d2 a = splice (contents d a) (nat cursor) (take n (drop bytes view) @ drop (bytes + n) view)"
      unfolding d2(2) w(4) by (simp only: splice_splice)
    moreover have "take n (drop bytes view) @ drop (bytes + n) view = drop bytes view"
      by (metis append_take_drop_id drop_drop add.commute)
    ultimately show ?thesis using step d2(1) w(3) less.prems by simp
  next
    case False
    then have eq: "n = length view - bytes" using w(3) by simp
    then have "write_loop fs a view (length view) (bytes + n) (cursor + int n) d1 = (d1, cursor + int n, Inr (length view))"
      using less.prems by (subst write_loop.simps) simp
    moreover have "take n (drop bytes view) = drop bytes view" using eq by simp
    ultimately show ?thesis using step w(4) eq by simp
  qed
qed

text \<open>The state a sample file system keeps: the bytes of one file, written at most three at a time.\<close>

definition memory_fs :: "byte list file_system" where
  "memory_fs = \<lparr>fs_root = (\<lambda>_. Inr ()), fs_directory = (\<lambda>d _ _ _. (d, Inr ())), fs_file = (\<lambda>d _ _ _. (d, Inr ())),
     fs_sync = True, fs_open = (\<lambda>d _ _. (d, Inr 0)), fs_truncate = (\<lambda>d _. ([], Inr ())), fs_size = (\<lambda>d _. Inr (int (length d))),
     fs_read = (\<lambda>d _ n at. let bs = take n (drop (nat at) d) in (bs, Inr (int (length bs)))),
     fs_write = (\<lambda>d _ bs at. (splice d (nat at) (take 3 bs), Inr (int (min 3 (length bs))))),
     fs_flush = (\<lambda>d _. (d, Inr ())), fs_close = (\<lambda>d _. d), fs_stat = (\<lambda>d _ _. Inr (int (length d), 0)),
     fs_remove = (\<lambda>d _ _ _. ([], Inr ())), fs_entries = (\<lambda>_ _. []), fs_persist = (\<lambda>d. (d, Inr True))\<rparr>"

lemma memory_fs_writes: "writes_some memory_fs (\<lambda>d a. d)"
proof -
  have "\<exists>d' n. fs_write memory_fs d a bs at = (d', Inr (int n)) \<and> 1 \<le> n \<and> n \<le> length bs \<and> d' = splice d (nat at) (take n bs)"
    if "bs \<noteq> []" for d a bs at
    using that by (intro exI [of _ "splice d (nat at) (take 3 bs)"] exI [of _ "min 3 (length bs)"])
      (cases bs; auto simp: memory_fs_def min_def)
  then show ?thesis unfolding writes_some_def by blast
qed

definition sample_file :: "byte list files_state" where
  "sample_file = (filesState [9, 9] True False False)\<lparr>fl_handles := [(1, \<lparr>fh_access = 0, fh_cursor = 1, fh_readable = False,
     fh_writable = True, fh_appending = False\<rparr>)], fl_nextHandle := 2\<rparr>"

definition sample_leases :: transfers where
  "sample_leases = [(7, \<lparr>le_id = 7, le_bytes = 5, le_writable = False, le_view = [1, 2, 3, 4, 5], le_released = False\<rparr>)]"

definition sample_file_effect :: "string \<Rightarrow> file_effect" where
  "sample_file_effect op = \<lparr>fx_operation = op, fx_handle = IntV 1, fx_offset = Undef, fx_origin = Undef, fx_count = IntV 5,
     fx_lease = IntV 7, fx_root = None, fx_parts = None, fx_mode = [], fx_recursive = False\<rparr>"

section \<open>Properties\<close>

text \<open>Writing ends and stores everything: when the file system writes at least one byte of what it is offered, a
  write through a valid lease to a writable handle ends with the reply that all \<open>count\<close> bytes were written, the
  file holds the lease's bytes at the cursor and is otherwise as before, the cursor is past them and the lease
  is given back.\<close>

theorem write_stores_all:
  assumes "writes_some fs contents"
    and "openFile st (IntV h) = Inr file" "fh_writable file" "\<not> fh_appending file" "0 \<le> fh_cursor file"
    and "lease t (IntV k) (IntV (int n)) False = Inr e" "wf_transfers t" "0 < n" "int n \<le> max_safe"
    and "fl_available st" "fx_operation eff = ''file-write''" "fx_handle eff = IntV h" "fx_lease eff = IntV k" "fx_count eff = IntV (int n)"
  shows "\<exists>st'. performFilesEffectNow fs eff (st, Some t) = ((st', Some (release t (IntV k))), Inr (FileWrote n)) \<and>
    contents (fl_disk st') (fh_access file) = splice (contents (fl_disk st) (fh_access file)) (nat (fh_cursor file)) (le_view e) \<and>
    openFile st' (IntV h) = Inr (file\<lparr>fh_cursor := fh_cursor file + int n\<rparr>) \<and>
    k \<notin> outstanding (release t (IntV k))"
proof -
  have e: "mget t k = Some e" "le_bytes e = n" using assms(6) by (auto simp: lease_Inr)
  then have view: "length (le_view e) = n" using wf_transfers_mget [OF assms(7)] by (simp add: entry_ok_def)
  obtain d where d: "write_loop fs (fh_access file) (le_view e) n 0 (fh_cursor file) (fl_disk st) = (d, fh_cursor file + int n, Inr n)"
    "contents d (fh_access file) = splice (contents (fl_disk st) (fh_access file)) (nat (fh_cursor file)) (le_view e)"
    using write_loop_stores [OF assms(1,5), of 0 "le_view e" "fh_access file" "fl_disk st"] assms(8,9) view by auto
  have safe: "isSafeInteger (IntV (int n))" using assms(9) by (simp add: max_safe_def)
  let ?st = "set_cursor h (fh_cursor file + int n) (st\<lparr>fl_disk := d\<rparr>)"
  have h: "mget (fl_handles st) h = Some file" "isSafeInteger (IntV h)" "\<not> h < 1"
    using assms(2) by (auto simp: openFile_def split: if_splits option.splits)
  have "performFilesEffectNow fs eff (st, Some t) = ((?st, Some (release t (IntV k))), Inr (FileWrote n))"
    using assms(2-4,6,10-14) safe d(1) by (simp add: performFilesEffectNow_def file_write_def memoryLease_def releaseEffectLease_def write_start_def)
  moreover have "fl_disk ?st = d" using h by (simp add: set_cursor_def)
  moreover have "openFile ?st (IntV h) = Inr (file\<lparr>fh_cursor := fh_cursor file + int n\<rparr>)"
    using h by (simp add: openFile_def set_cursor_def)
  ultimately show ?thesis using d(2) released_not_outstanding by metis
qed

theorem write_stores_all_witness:
  "\<exists>st'. performFilesEffectNow memory_fs (sample_file_effect ''file-write'') (sample_file, Some sample_leases) =
      ((st', Some (release sample_leases (IntV 7))), Inr (FileWrote 5)) \<and> fl_disk st' = [9, 1, 2, 3, 4, 5]"
proof -
  have o: "openFile sample_file (IntV 1) = Inr \<lparr>fh_access = 0, fh_cursor = 1, fh_readable = False, fh_writable = True, fh_appending = False\<rparr>"
    by (simp add: openFile_def sample_file_def max_safe_def mget_Cons)
  have l: "lease sample_leases (IntV 7) (IntV (int 5)) False =
      Inr \<lparr>le_id = 7, le_bytes = 5, le_writable = False, le_view = [1, 2, 3, 4, 5], le_released = False\<rparr>"
    by (simp add: lease_Inr sample_leases_def mget_Cons)
  have wf: "wf_transfers sample_leases" by (simp add: sample_leases_def wf_transfers_def wf_map_def entry_ok_def)
  have "splice (fl_disk sample_file) 1 [1, 2, 3, 4, 5] = [9, 1, 2, 3, 4, 5]"
    by (simp add: splice_def sample_file_def filesState_def)
  then show ?thesis
    using write_stores_all [OF memory_fs_writes o _ _ _ l wf, of "sample_file_effect ''file-write''"]
    by (auto simp: sample_file_effect_def sample_file_def filesState_def max_safe_def)
qed

text \<open>A read or write that is refused before it takes its lease keeps it: with a handle that is not open, the effect
  fails and leaves the transfer table as it was. Its lease is still outstanding, and unless another request of the
  frame names it too, no release of the others lets the frame be answered.\<close>

theorem refused_transfer_strands_lease:
  assumes "openFile st (fx_handle eff) = Inl e" "fl_available st"
    and "fx_operation eff = ''file-read'' \<or> fx_operation eff = ''file-write''"
    and "wf_transfers t" "fx_lease eff = IntV k" "k \<in> outstanding t" "IntV k \<notin> set others"
  shows "performFilesEffectNow fs eff (st, Some t) = ((st, Some t), Inl e) \<and>
    \<not> is_ok (response (foldl release t others))"
  using assms(1-3) tt.answer_needs_every_lease [OF assms(4,6,7)]
  by (auto simp: performFilesEffectNow_def file_read_def file_write_def)

theorem refused_transfer_strands_lease_witness:
  "performFilesEffectNow memory_fs (sample_file_effect ''file-read'') (filesState [] True False False, Some sample_leases) =
     ((filesState [] True False False, Some sample_leases), fails ''browser file handle is closed or unknown'') \<and>
   \<not> is_ok (response sample_leases)"
  using refused_transfer_strands_lease [of "filesState [] True False False" "sample_file_effect ''file-read''"
      "Plain (Error (js ''browser file handle is closed or unknown''))" sample_leases 7 "[]" memory_fs]
  by (simp add: openFile_def sample_file_effect_def filesState_def max_safe_def sample_leases_def wf_transfers_def wf_map_def
      entry_ok_def outstanding_def mget_Cons)

end
