(* ===== verification/Http.thy ===== *)
theory Http
  imports Effect_Base
begin

text \<open>
  The \<^verbatim>\<open>http\<close> effects of \<^verbatim>\<open>src/runtime/wasm/app-runtime.mjs\<close>: a request is checked and built, the
  response is read under a byte limit, and its body goes back as base64 or is retained
  until it is read into a lease or released. A request is two steps around the wait for
  \<^verbatim>\<open>fetch\<close>, whose outcome is a parameter.
\<close>

section \<open>Requests\<close>

record http_effect =
  hx_operation :: string
  hx_body :: jnum
  hx_lease :: jnum
  hx_url :: "jstr option"
  hx_method :: "jstr option"
  hx_headers :: "jstr list option list"  \<comment> \<open>\<open>None\<close>: a header that is not an array\<close>
  hx_bodyLease :: jnum
  hx_bodyBase64 :: "jstr option option"  \<comment> \<open>\<open>None\<close>: undefined; \<open>Some None\<close>: not a string\<close>
  hx_memoryResponse :: bool
  hx_maxBytes :: jnum
  hx_timeoutMs :: jnum

definition lower :: "nat \<Rightarrow> nat" where
  "lower c = (if 65 \<le> c \<and> c \<le> 90 then c + 32 else c)"

text \<open>\<^verbatim>\<open>/^https?:\/\//i\<close>\<close>

definition absolute_http :: "jstr \<Rightarrow> bool" where
  "absolute_http url \<longleftrightarrow>
     map lower (take 7 url) = js ''http://'' \<or> map lower (take 8 url) = js ''https://''"

record http_request =
  rq_url :: jstr
  rq_method :: jstr
  rq_headers :: "(jstr \<times> jstr) list"
  rq_body :: "byte list option"

text \<open>\<open>refuses\<close> is the exception of \<^verbatim>\<open>Headers.append\<close>, if the name or the value is bad.\<close>

fun build_headers :: "(jstr \<Rightarrow> jstr \<Rightarrow> fault option) \<Rightarrow> jstr list option list \<Rightarrow> fault + (jstr \<times> jstr) list" where
  "build_headers refuses [] = Inr []"
| "build_headers refuses (Some [name, value] # rest) =
    (case refuses name value of Some e \<Rightarrow> Inl e
     | None \<Rightarrow> (case build_headers refuses rest of Inl e \<Rightarrow> Inl e | Inr hs \<Rightarrow> Inr ((name, value) # hs)))"
| "build_headers refuses (_ # rest) = fails ''invalid browser HTTP header''"

definition request_body :: "limits \<Rightarrow> http_effect \<Rightarrow> transfers option \<Rightarrow> fault + byte list option" where
  "request_body limits eff t =
    (if hx_bodyLease eff \<noteq> Undef then
       (case memoryLease t (hx_bodyLease eff) Undef False of Inl e \<Rightarrow> Inl (Plain e)
        | Inr entry \<Rightarrow>
           if le_bytes entry > maxEffectBytes limits then fails ''browser HTTP request body exceeded the effect byte limit''
           else Inr (Some (le_view entry)))
     else case hx_bodyBase64 eff of None \<Rightarrow> Inr None
       | Some text \<Rightarrow> (case base64ToBytes text ''HTTP request body'' of Inl e \<Rightarrow> Inl (Plain e) | Inr bs \<Rightarrow> Inr (Some bs)))"

definition request_timeout :: "http_effect \<Rightarrow> nat option" where
  "request_timeout eff =
    (if isInteger (hx_timeoutMs eff) \<and> the_int (hx_timeoutMs eff) > 0 then Some (nat (the_int (hx_timeoutMs eff))) else None)"

text \<open>Giving the request body's lease back, in the \<^verbatim>\<open>finally\<close> of the request.\<close>

definition release_body :: "http_effect \<Rightarrow> transfers option \<Rightarrow> transfers option" where
  "release_body eff t = (if hx_bodyLease eff \<noteq> Undef then releaseEffectLease t (hx_bodyLease eff) else t)"

text \<open>
  Up to the call of \<^verbatim>\<open>fetch\<close>. The first two checks throw before the \<^verbatim>\<open>try\<close>, so they keep the
  lease; a failure inside gives it back.
\<close>

definition http_begin ::
  "(jstr \<Rightarrow> jstr \<Rightarrow> fault option) \<Rightarrow> limits \<Rightarrow> signal \<Rightarrow> http_effect \<Rightarrow> transfers option \<Rightarrow> transfers option \<times> (fault + http_request)" where
  "http_begin refuses limits sig eff t =
    (case hx_url eff of None \<Rightarrow> (t, fails ''browser HTTP effects require an absolute http or https URL'')
     | Some url \<Rightarrow>
        if \<not> absolute_http url then (t, fails ''browser HTTP effects require an absolute http or https URL'')
        else if aborted sig then (t, Inl (abortError sig))
        else case build_headers refuses (hx_headers eff) of Inl e \<Rightarrow> (release_body eff t, Inl e)
          | Inr headers \<Rightarrow>
             (case request_body limits eff t of Inl e \<Rightarrow> (release_body eff t, Inl e)
              | Inr body \<Rightarrow>
                 (t, Inr \<lparr>rq_url = url, rq_method = (case hx_method eff of Some m \<Rightarrow> if m = [] then js ''GET'' else m | None \<Rightarrow> js ''GET''),
                    rq_headers = headers, rq_body = body\<rparr>)))"

section \<open>Responses\<close>

text \<open>The reads of a response stream, up to its end or its failure.\<close>

datatype stream = Done | Broken fault | Chunk "byte list" stream

datatype response_body = Streamed stream | Buffered "fault + byte list"

record http_response =
  rs_status :: int
  rs_url :: jstr
  rs_headers :: "(jstr \<times> jstr) list"
  rs_declared :: "nat option"  \<comment> \<open>the content length, \<open>None\<close> when it is not a finite number\<close>
  rs_body :: response_body

record retained_body =
  rb_chunks :: "byte list list"
  rb_length :: nat

record http_state =
  ht_bodies :: "(int, retained_body) jmap"
  ht_nextBody :: int

definition no_bodies :: http_state where
  "no_bodies = \<lparr>ht_bodies = [], ht_nextBody = 0\<rparr>"

definition too_long :: "nat \<Rightarrow> fault" where
  "too_long maxBytes = Plain (Error (js ''HTTP response exceeded maxBytes ('' @ decimal maxBytes @ js '')''))"

fun read_stream :: "nat \<Rightarrow> nat \<Rightarrow> byte list list \<Rightarrow> stream \<Rightarrow> fault + (byte list list \<times> nat)" where
  "read_stream maxBytes len chunks Done = Inr (chunks, len)"
| "read_stream maxBytes len chunks (Broken e) = Inl e"
| "read_stream maxBytes len chunks (Chunk value rest) =
    (if len + length value > maxBytes then Inl (too_long maxBytes)
     else read_stream maxBytes (len + length value) (chunks @ [value]) rest)"

definition response_limit :: "limits \<Rightarrow> http_effect \<Rightarrow> nat" where
  "response_limit limits eff =
    (let protocolLimit = (if hx_memoryResponse eff then maxResponseBytes limits else maxResponseBytes limits * 3 div 4) in
     if isInteger (hx_maxBytes eff) \<and> the_int (hx_maxBytes eff) > 0
     then min (nat (the_int (hx_maxBytes eff))) protocolLimit else protocolLimit)"

definition read_response :: "nat \<Rightarrow> http_response \<Rightarrow> fault + (byte list list \<times> nat)" where
  "read_response maxBytes resp =
    (if (case rs_declared resp of None \<Rightarrow> False | Some declared \<Rightarrow> declared > maxBytes) then Inl (too_long maxBytes)
     else case rs_body resp of
       Streamed st \<Rightarrow> read_stream maxBytes 0 [] st
     | Buffered (Inl e) \<Rightarrow> Inl e
     | Buffered (Inr value) \<Rightarrow> if length value > maxBytes then Inl (too_long maxBytes) else Inr ([value], length value))"

datatype http_reply =
    Retained int jstr "(jstr \<times> jstr) list" int nat  \<comment> \<open>status, url, headers, body handle, its length\<close>
  | Inline int jstr "(jstr \<times> jstr) list" jstr  \<comment> \<open>status, url, headers, base64 body\<close>
  | ReleasedBody bool
  | ReadBytes nat

definition response_url :: "http_effect \<Rightarrow> http_response \<Rightarrow> jstr" where
  "response_url eff resp = (if rs_url resp = [] then the (hx_url eff) else rs_url resp)"

definition retain ::
  "limits \<Rightarrow> http_effect \<Rightarrow> http_response \<Rightarrow> byte list list \<Rightarrow> nat \<Rightarrow> http_state \<Rightarrow> http_state \<times> (fault + http_reply)" where
  "retain limits eff resp chunks len st =
    (if msum rb_length (ht_bodies st) + len > maxResponseBytes limits
     then (st, fails ''browser HTTP retained bodies exceeded the byte limit'')
     else let body = ht_nextBody st + 1 in
       (st\<lparr>ht_nextBody := body, ht_bodies := mset (ht_bodies st) body \<lparr>rb_chunks = chunks, rb_length = len\<rparr>\<rparr>,
        Inr (Retained (rs_status resp) (response_url eff resp) (rs_headers resp) body len)))"

text \<open>
  From the outcome of \<^verbatim>\<open>fetch\<close> to the reply. \<open>sig\<close> is the signal when the body has been read. The
  request body's lease goes back in every case.
\<close>

definition http_finish ::
  "limits \<Rightarrow> signal \<Rightarrow> http_effect \<Rightarrow> fault + http_response \<Rightarrow> http_state \<times> transfers option
     \<Rightarrow> (http_state \<times> transfers option) \<times> (fault + http_reply)" where
  "http_finish limits sig eff outcome w = (case w of (st, t) \<Rightarrow>
    (let t1 = release_body eff t in
     case outcome of Inl e \<Rightarrow> ((st, t1), Inl e)
     | Inr resp \<Rightarrow>
        (case read_response (response_limit limits eff) resp of Inl e \<Rightarrow> ((st, t1), Inl e)
         | Inr (chunks, len) \<Rightarrow>
            if aborted sig then ((st, t1), Inl (abortError sig))
            else if hx_memoryResponse eff then
              (case retain limits eff resp chunks len st of (st1, r) \<Rightarrow> ((st1, t1), r))
            else ((st, t1), Inr (Inline (rs_status resp) (response_url eff resp) (rs_headers resp)
                   (bytesToBase64 (assemble len chunks)))))))"

section \<open>Retained bodies\<close>

definition find_body :: "http_state \<Rightarrow> jnum \<Rightarrow> retained_body option" where
  "find_body st body = (case body of IntV i \<Rightarrow> mget (ht_bodies st) i | _ \<Rightarrow> None)"

definition drop_body :: "jnum \<Rightarrow> http_state \<Rightarrow> http_state" where
  "drop_body body st = (case body of IntV i \<Rightarrow> st\<lparr>ht_bodies := mdelete (ht_bodies st) i\<rparr> | _ \<Rightarrow> st)"

definition release_retained :: "http_effect \<Rightarrow> http_state \<Rightarrow> http_state \<times> http_reply" where
  "release_retained eff st = (drop_body (hx_body eff) st, ReleasedBody (find_body st (hx_body eff) \<noteq> None))"

text \<open>The destination of a read: the chunks go into the lease's view one after another.\<close>

fun write_chunks :: "transfers option \<Rightarrow> lease_entry \<Rightarrow> nat \<Rightarrow> byte list list \<Rightarrow> transfers option \<times> nat" where
  "write_chunks t e pos [] = (t, pos)"
| "write_chunks t e pos (c # cs) = write_chunks (write_lease t e pos c) e (pos + length c) cs"

definition read_body ::
  "signal \<Rightarrow> http_effect \<Rightarrow> http_state \<times> transfers option \<Rightarrow> (http_state \<times> transfers option) \<times> (fault + http_reply)" where
  "read_body sig eff w = (case w of (st, t) \<Rightarrow>
    (case find_body st (hx_body eff) of None \<Rightarrow> (w, fails ''browser HTTP body was released'')
     | Some saved \<Rightarrow>
        let st1 = drop_body (hx_body eff) st; rel = (\<lambda>t. releaseEffectLease t (hx_lease eff)) in
        if aborted sig then ((st1, rel t), Inl (abortError sig))
        else case memoryLease t (hx_lease eff) (IntV (int (rb_length saved))) True of
          Inl e \<Rightarrow> ((st1, rel t), Inl (Plain e))
        | Inr destination \<Rightarrow>
           if le_bytes destination \<noteq> rb_length saved then ((st1, rel t), fails ''browser HTTP body lease has the wrong length'')
           else case write_chunks t destination 0 (rb_chunks saved) of (t1, n) \<Rightarrow> ((st1, rel t1), Inr (ReadBytes n))))"

section \<open>The retained bytes stay within the limit\<close>

definition bodies_ok :: "limits \<Rightarrow> http_state \<Rightarrow> bool" where
  "bodies_ok limits st \<longleftrightarrow> wf_map (ht_bodies st) \<and> msum rb_length (ht_bodies st) \<le> maxResponseBytes limits \<and>
     (\<forall>i b. mget (ht_bodies st) i = Some b \<longrightarrow> 0 < i \<and> i \<le> ht_nextBody st \<and> rb_length b = length (concat (rb_chunks b))) \<and>
     0 \<le> ht_nextBody st"

inductive http_step :: "limits \<Rightarrow> http_state \<times> transfers option \<Rightarrow> http_state \<times> transfers option \<Rightarrow> bool" for limits where
  finishes: "http_finish limits sig eff outcome w = (w', r) \<Longrightarrow> http_step limits w w'"
| releases: "release_retained eff st = (st', r) \<Longrightarrow> http_step limits (st, t) (st', t)"
| reads: "read_body sig eff w = (w', r) \<Longrightarrow> http_step limits w w'"
| new_frame: "http_step limits (st, t) (st, t')"

inductive http_reachable :: "limits \<Rightarrow> http_state \<times> transfers option \<Rightarrow> bool" for limits where
  starts: "http_reachable limits (no_bodies, t)"
| steps: "http_reachable limits w \<Longrightarrow> http_step limits w w' \<Longrightarrow> http_reachable limits w'"

lemma bodies_ok_delete: "bodies_ok limits st \<Longrightarrow> bodies_ok limits (drop_body body st)"
proof (cases "find_body st body")
  case None
  assume "bodies_ok limits st"
  with None show ?thesis by (cases body) (auto simp: drop_body_def find_body_def)
next
  case (Some b)
  assume ok: "bodies_ok limits st"
  from Some obtain i where "body = IntV i" "mget (ht_bodies st) i = Some b" by (cases body) (auto simp: find_body_def)
  with ok msum_mdelete [of "ht_bodies st" i b rb_length] show ?thesis
    by (auto simp: drop_body_def bodies_ok_def)
qed

text \<open>The chunks of a stream that ends.\<close>

fun stream_chunks :: "stream \<Rightarrow> byte list list option" where
  "stream_chunks Done = Some []"
| "stream_chunks (Broken e) = None"
| "stream_chunks (Chunk value rest) = map_option (Cons value) (stream_chunks rest)"

definition body_chunks :: "http_response \<Rightarrow> byte list list option" where
  "body_chunks resp = (case rs_body resp of Streamed st \<Rightarrow> stream_chunks st | Buffered (Inl e) \<Rightarrow> None | Buffered (Inr v) \<Rightarrow> Some [v])"

lemma read_stream_spec:
  "read_stream maxBytes (length (concat chunks)) chunks st = Inr (cs, n) \<Longrightarrow> length (concat chunks) \<le> maxBytes
   \<Longrightarrow> n = length (concat cs) \<and> n \<le> maxBytes \<and> (\<exists>vs. stream_chunks st = Some vs \<and> cs = chunks @ vs)"
proof (induction st arbitrary: chunks)
  case (Chunk v st)
  then show ?case using Chunk.IH [of "chunks @ [v]"] by (auto split: if_splits)
qed auto

lemma read_response_spec:
  assumes "read_response maxBytes resp = Inr (cs, n)"
  shows "n = length (concat cs) \<and> n \<le> maxBytes \<and> body_chunks resp = Some cs"
  using assms read_stream_spec [of maxBytes "[]" _ cs n]
  by (auto simp: read_response_def body_chunks_def split: if_splits response_body.splits sum.splits)

lemma bodies_ok_retain:
  assumes "bodies_ok limits st" "retain limits eff resp chunks len st = (st', r)" "len = length (concat chunks)"
  shows "bodies_ok limits st'"
proof -
  have "mget (ht_bodies st) (ht_nextBody st + 1) = None"
    using assms(1) unfolding bodies_ok_def by (metis add.commute less_le_not_le not_None_eq zless_add1_eq)
  moreover have "i \<le> ht_nextBody st + 1" if "mget (ht_bodies st) i = Some b" for i b
    using assms(1) that unfolding bodies_ok_def by (meson order_trans zle_add1_eq_le order_less_imp_le less_add_one)
  ultimately show ?thesis using assms
    by (auto simp: retain_def bodies_ok_def Let_def msum_mset_fresh split: if_splits)
qed

lemma bodies_ok_step: "http_step limits w w' \<Longrightarrow> bodies_ok limits (fst w) \<Longrightarrow> bodies_ok limits (fst w')"
proof (induction rule: http_step.induct)
  case (finishes sig eff outcome w w' r)
  then show ?case
    by (auto simp: http_finish_def Let_def split: prod.splits sum.splits if_splits dest!: read_response_spec dest: bodies_ok_retain)
next
  case (reads sig eff w w' r)
  then show ?case
    by (auto simp: read_body_def Let_def bodies_ok_delete split: prod.splits option.splits if_splits sum.splits)
qed (auto simp: release_retained_def bodies_ok_delete)

lemma bodies_ok_reachable: "http_reachable limits w \<Longrightarrow> bodies_ok limits (fst w)"
proof (induction rule: http_reachable.induct)
  case (steps w w')
  then show ?case using bodies_ok_step by blast
qed (simp add: no_bodies_def bodies_ok_def)

section \<open>A retained body is delivered\<close>

lemma write_chunks_view:
  assumes "mget t k = Some x" "le_id e = k"
  shows "\<exists>t'. write_chunks (Some t) e pos cs = (Some t', pos + length (concat cs)) \<and>
    mget t' k = Some (x\<lparr>le_view := join_at (le_view x) pos cs\<rparr>)"
  using assms(1)
proof (induction cs arbitrary: t x pos)
  case (Cons c cs)
  let ?x = "x\<lparr>le_view := blit (le_view x) pos c\<rparr>"
  have w: "write_lease (Some t) e pos c = Some (mset t k ?x)" "mget (mset t k ?x) k = Some ?x"
    using Cons.prems assms(2) by (simp_all add: write_lease_def write_view_def)
  show ?case using Cons.IH [OF w(2), of "pos + length c"] w(1) by (auto simp: add.assoc)
qed simp

lemma retained_found:
  assumes "http_finish limits sig eff (Inr resp) (st, t) = ((st1, t1), Inr (Retained s u hs body n))"
  shows "\<exists>cs. body_chunks resp = Some cs \<and> n = length (concat cs) \<and> body = ht_nextBody st + 1 \<and>
    mget (ht_bodies st1) body = Some \<lparr>rb_chunks = cs, rb_length = n\<rparr>"
  using assms
  by (auto simp: http_finish_def Let_def retain_def split: sum.splits prod.splits if_splits dest!: read_response_spec)

definition small_limits :: limits where
  "small_limits = \<lparr>maxEffects = 4, maxEffectBytes = 16, maxResponseBytes = 8\<rparr>"

definition sample_get :: http_effect where
  "sample_get = \<lparr>hx_operation = ''request'', hx_body = Undef, hx_lease = Undef, hx_url = Some (js ''http://a''), hx_method = None,
     hx_headers = [], hx_bodyLease = Undef, hx_bodyBase64 = None, hx_memoryResponse = True, hx_maxBytes = Undef, hx_timeoutMs = Undef\<rparr>"

definition sample_response :: http_response where
  "sample_response = \<lparr>rs_status = 200, rs_url = [], rs_headers = [], rs_declared = Some 0,
     rs_body = Streamed (Chunk [1, 2] (Chunk [3] Done))\<rparr>"

definition sample_read :: http_effect where
  "sample_read = sample_get\<lparr>hx_operation := ''read-body'', hx_body := IntV 1, hx_lease := IntV 5\<rparr>"

definition sample_destination :: transfers where
  "sample_destination = [(5, \<lparr>le_id = 5, le_bytes = 3, le_writable = True, le_view = [0, 0, 0], le_released = False\<rparr>)]"

definition sample_retained :: http_state where
  "sample_retained = \<lparr>ht_bodies = [(1, \<lparr>rb_chunks = [[1, 2], [3]], rb_length = 3\<rparr>)], ht_nextBody = 1\<rparr>"

lemma sample_retained_finish:
  "http_finish small_limits Running sample_get (Inr sample_response) (no_bodies, None) =
     ((sample_retained, None), Inr (Retained 200 (js ''http://a'') [] 1 3))"
  by (simp add: http_finish_def sample_get_def sample_response_def small_limits_def no_bodies_def sample_retained_def
      read_response_def response_limit_def retain_def release_body_def response_url_def mset_def)

lemma sample_retained_reachable: "http_reachable small_limits (sample_retained, None)"
  using steps [OF starts finishes [OF sample_retained_finish]] .

section \<open>Properties\<close>

text \<open>The bodies retained for the guest never hold more bytes than \<open>maxResponseBytes\<close>, whatever requests finish and
  whatever is read or released; each is recorded with its true length under a positive handle not yet handed out.\<close>

theorem http_bodies_bounded:
  assumes "http_reachable limits (st, t)"
  shows "sum_list (map (\<lambda>b. length (concat (rb_chunks b))) (mvalues (ht_bodies st))) \<le> maxResponseBytes limits \<and>
    mget (ht_bodies st) (ht_nextBody st + 1) = None"
proof -
  have ok: "bodies_ok limits st" using bodies_ok_reachable [OF assms] by simp
  then have "rb_length b = length (concat (rb_chunks b))" if "b \<in> set (mvalues (ht_bodies st))" for b
    using that unfolding bodies_ok_def by (force simp: mvalues_def jm.entries_get)
  then have "map (\<lambda>b. length (concat (rb_chunks b))) (mvalues (ht_bodies st)) = map rb_length (mvalues (ht_bodies st))" by simp
  then have "sum_list (map (\<lambda>b. length (concat (rb_chunks b))) (mvalues (ht_bodies st))) = msum rb_length (ht_bodies st)"
    unfolding msum_def by (rule arg_cong)
  moreover have "mget (ht_bodies st) (ht_nextBody st + 1) = None"
    using ok unfolding bodies_ok_def by (metis add.commute less_le_not_le not_None_eq zless_add1_eq)
  ultimately show ?thesis using ok by (simp add: bodies_ok_def)
qed

theorem http_bodies_bounded_witness:
  "sum_list (map (\<lambda>b. length (concat (rb_chunks b))) (mvalues (ht_bodies sample_retained))) \<le> 8"
  using http_bodies_bounded [OF sample_retained_reachable] by (simp add: small_limits_def)

text \<open>A body retained by a request is delivered exactly once: reading it into a writable lease of its length puts the
  bytes the response stream carried into the lease, gives the lease back and forgets the body, so that reading it
  again fails.\<close>

theorem http_body_delivered:
  assumes "http_finish limits sig eff (Inr resp) (st, t) = ((st1, t1), Inr (Retained s u hs body n))"
    and "wf_transfers t2" "lease t2 (IntV k) (IntV (int n)) True = Inr e"
    and "hx_body rd = IntV body" "hx_lease rd = IntV k"
  shows "\<exists>st2 t3 x cs. read_body Running rd (st1, Some t2) = ((st2, Some (release t3 (IntV k))), Inr (ReadBytes n)) \<and>
    body_chunks resp = Some cs \<and> mget t3 k = Some x \<and> le_view x = concat cs \<and>
    read_body Running rd (st2, Some t2) = ((st2, Some t2), fails ''browser HTTP body was released'')"
proof -
  obtain cs where cs: "body_chunks resp = Some cs" "n = length (concat cs)" "mget (ht_bodies st1) body = Some \<lparr>rb_chunks = cs, rb_length = n\<rparr>"
    using retained_found [OF assms(1)] by blast
  have e: "mget t2 k = Some e" "le_bytes e = n" using assms(3) by (auto simp: lease_Inr)
  then have ok: "le_id e = k" "length (le_view e) = n" using wf_transfers_mget [OF assms(2)] by (simp_all add: entry_ok_def)
  obtain t3 where t3: "write_chunks (Some t2) e 0 cs = (Some t3, n)" "mget t3 k = Some (e\<lparr>le_view := join_at (le_view e) 0 cs\<rparr>)"
    using write_chunks_view [OF e(1) ok(1), of 0 cs] cs(2) by auto
  have "join_at (le_view e) 0 cs = concat cs" using join_at_concat [of 0 cs "le_view e"] ok(2) cs(2) by simp
  with t3 have v: "mget t3 k = Some (e\<lparr>le_view := concat cs\<rparr>)" by simp
  let ?st2 = "st1\<lparr>ht_bodies := mdelete (ht_bodies st1) body\<rparr>"
  have "read_body Running rd (st1, Some t2) = ((?st2, Some (release t3 (IntV k))), Inr (ReadBytes n))"
    using assms(3-5) cs e(2) t3(1) by (simp add: read_body_def find_body_def drop_body_def Let_def)
  moreover have "read_body Running rd (?st2, Some t2) = ((?st2, Some t2), fails ''browser HTTP body was released'')"
    using assms(4) by (simp add: read_body_def find_body_def)
  ultimately show ?thesis using cs(1) v by fastforce
qed

theorem http_body_delivered_witness:
  "\<exists>st2 t3 x. read_body Running sample_read (sample_retained, Some sample_destination) =
      ((st2, Some (release t3 (IntV 5))), Inr (ReadBytes 3)) \<and> mget t3 5 = Some x \<and> le_view x = [1, 2, 3]"
proof -
  have "wf_transfers sample_destination" by (simp add: sample_destination_def wf_transfers_def wf_map_def entry_ok_def)
  moreover have "lease sample_destination (IntV 5) (IntV (int 3)) True =
      Inr \<lparr>le_id = 5, le_bytes = 3, le_writable = True, le_view = [0, 0, 0], le_released = False\<rparr>"
    by (simp add: lease_Inr sample_destination_def mget_Cons)
  ultimately show ?thesis
    using http_body_delivered [OF sample_retained_finish, of sample_destination 5 _ sample_read]
    by (fastforce simp: sample_read_def body_chunks_def sample_response_def)
qed

end
