(* ===== verification/Gpu.thy ===== *)
theory Gpu
  imports Effect_Base
begin

text \<open>
  The \<^verbatim>\<open>gpu\<close> effects of \<^verbatim>\<open>src/runtime/wasm/app-runtime.mjs\<close>: buffers and kernels under numeric handles,
  transfers between leases and buffers, dispatches folded into a grid, and downloads that
  are queued, synchronized and read. WebGPU is asynchronous, so an operation is one step up
  to its wait and one after it; what the device does is the outcome the second step gets.
\<close>

section \<open>State\<close>

record gpu_download =
  dl_buffer :: nat
  dl_bytes :: nat
  dl_ready :: bool
  dl_synchronized :: bool
  dl_error :: "fault option"

record gpu_buffer =
  gb_bytes :: nat
  gb_buffer :: nat
  gb_download :: "gpu_download option"

record gpu_kernel =
  gk_pipeline :: nat
  gk_readonly :: nat
  gk_writable :: nat
  gk_uniformBytes :: nat
  gk_threads :: nat

text \<open>What reaches the device.\<close>

datatype device_call =
    WriteBuffer nat nat "byte list"  \<comment> \<open>buffer, offset, bytes\<close>
  | CopyBuffer nat nat nat  \<comment> \<open>buffer, offset, length\<close>
  | Dispatched nat "nat list" "byte list" nat nat  \<comment> \<open>pipeline, bound buffers, uniform bytes, columns, rows\<close>
  | Destroyed nat
  | Unmapped nat

record gpu_state =
  gr_buffers :: "(int, gpu_buffer) jmap"
  gr_kernels :: "(int, gpu_kernel) jmap"
  gr_nextBuffer :: int
  gr_nextKernel :: int
  gr_failure :: "jstr option"
  gr_uncaptured :: "jstr option"
  gr_calls :: "device_call list"

definition gpuRuntime :: gpu_state where
  "gpuRuntime = \<lparr>gr_buffers = [], gr_kernels = [], gr_nextBuffer = 1, gr_nextKernel = 1, gr_failure = None,
     gr_uncaptured = None, gr_calls = []\<rparr>"

definition issue :: "device_call list \<Rightarrow> gpu_state \<Rightarrow> gpu_state" where
  "issue calls g = g\<lparr>gr_calls := gr_calls g @ calls\<rparr>"

record gpu_effect =
  gx_operation :: string
  gx_buffer :: jnum
  gx_kernel :: jnum
  gx_bytes :: jnum
  gx_offset :: jnum
  gx_lease :: jnum
  gx_count :: jnum
  gx_read :: "jnum list option"
  gx_write :: "jnum list option"
  gx_buffers :: "jnum list option"
  gx_kernels :: "jnum list option"
  gx_wgsl :: "jstr option"
  gx_entrypoint :: "jstr option"
  gx_readonly :: jnum
  gx_writable :: jnum
  gx_uniformBytes :: jnum
  gx_threads :: jnum

text \<open>The device: its usage constants, whether it could be had, its error scopes, its map mode constants and its grid limit.\<close>

record gpu_env =
  ge_usage :: bool
  ge_device :: "fault + unit"
  ge_scopes :: bool
  ge_mapMode :: bool
  ge_limit :: nat

section \<open>Checks\<close>

definition uint32 :: "jnum \<Rightarrow> string \<Rightarrow> 32 word result" where
  "uint32 value name =
    (if \<not> isInteger value \<or> the_int value < 0 \<or> the_int value > 0xffffffff
     then throw (''browser GPU '' @ name @ '' must be a uint32'')
     else Inr (of_int (the_int value)))"

definition handle_of :: "jnum \<Rightarrow> string \<Rightarrow> fault + int" where
  "handle_of value name = (case uint32 value name of Inl e \<Rightarrow> Inl (Plain e) | Inr w \<Rightarrow> Inr (uint w))"

definition gpuBuffer :: "gpu_state \<Rightarrow> int \<Rightarrow> fault + gpu_buffer" where
  "gpuBuffer g i = (case mget (gr_buffers g) i of None \<Rightarrow> fails ''browser GPU buffer handle is unknown'' | Some b \<Rightarrow> Inr b)"

definition gpuBufferRange :: "gpu_effect \<Rightarrow> gpu_buffer \<Rightarrow> fault + (nat \<times> nat)" where
  "gpuBufferRange eff resource =
    (case (if gx_offset eff = Undef then Inr 0 else uint32 (gx_offset eff) ''buffer byte offset'') of Inl e \<Rightarrow> Inl (Plain e)
     | Inr off \<Rightarrow>
        (case (if gx_bytes eff = Undef then Inr (gb_bytes resource)
               else case uint32 (gx_bytes eff) ''buffer byte length'' of Inl e \<Rightarrow> Inl e | Inr w \<Rightarrow> Inr (unat w)) of
           Inl e \<Rightarrow> Inl (Plain e)
         | Inr bytes \<Rightarrow>
            let offset = unat off in
            if offset mod 4 \<noteq> 0 \<or> bytes = 0 \<or> bytes mod 4 \<noteq> 0 \<or> offset > gb_bytes resource \<or> bytes > gb_bytes resource - offset
            then fails ''browser GPU transfer range is invalid'' else Inr (offset, bytes)))"

text \<open>\<open>work\<close> is how the device calls of an operation went, \<open>oom\<close> and \<open>invalid\<close> what the two scopes caught.\<close>

record gpu_outcome =
  go_work :: "fault + nat"
  go_created :: "nat option"  \<comment> \<open>the buffer made before the work threw\<close>
  go_memory :: "jstr option"
  go_invalid :: "jstr option"
  go_pipeline :: "fault + nat"  \<comment> \<open>the pipeline of a compilation, made after its module\<close>
  go_mapped :: "fault + byte list"  \<comment> \<open>the mapping of a readback buffer\<close>

definition gpuChecked :: "gpu_env \<Rightarrow> gpu_outcome \<Rightarrow> fault + nat" where
  "gpuChecked env oc =
    (if \<not> ge_scopes env then go_work oc
     else case go_work oc of Inl e \<Rightarrow> Inl e
     | Inr v \<Rightarrow>
        (case go_invalid oc of Some m \<Rightarrow> Inl (Plain (Error (js ''WebGPU validation failed: '' @ m)))
         | None \<Rightarrow> (case go_memory oc of Some m \<Rightarrow> Inl (Plain (Error (js ''WebGPU is out of memory: '' @ m)))
                     | None \<Rightarrow> Inr v)))"

definition destroyGpuDownload :: "int \<Rightarrow> gpu_state \<Rightarrow> gpu_state" where
  "destroyGpuDownload i g =
    (case mget (gr_buffers g) i of None \<Rightarrow> g
     | Some b \<Rightarrow> (case gb_download b of None \<Rightarrow> g
        | Some d \<Rightarrow> issue [Unmapped (dl_buffer d), Destroyed (dl_buffer d)]
            (g\<lparr>gr_buffers := mset (gr_buffers g) i (b\<lparr>gb_download := None\<rparr>)\<rparr>)))"

text \<open>What every operation goes through first.\<close>

definition gpu_prologue :: "gpu_env \<Rightarrow> gpu_state \<Rightarrow> gpu_state \<times> (fault + unit)" where
  "gpu_prologue env g =
    (if \<not> ge_usage env then (g, fails ''WebGPU buffer usage constants are unavailable'')
     else case ge_device env of Inl e \<Rightarrow> (g, Inl e)
     | Inr _ \<Rightarrow>
        (case gr_failure g of Some m \<Rightarrow> (g, Inl (Plain (Error m)))
         | None \<Rightarrow> (case gr_uncaptured g of
             Some m \<Rightarrow> (g\<lparr>gr_uncaptured := None\<rparr>, Inl (Plain (Error (js ''WebGPU device error: '' @ m))))
           | None \<Rightarrow> (g, Inr ()))))"

text \<open>The first uncaptured error is kept; a lost device is remembered as the reason of all later failures.\<close>

definition uncaptured_error :: "jstr \<Rightarrow> gpu_state \<Rightarrow> gpu_state" where
  "uncaptured_error m g = (if gr_uncaptured g = None \<or> gr_uncaptured g = Some [] then g\<lparr>gr_uncaptured := Some m\<rparr> else g)"

definition device_lost :: "jstr \<Rightarrow> gpu_state \<Rightarrow> gpu_state" where
  "device_lost m g = g\<lparr>gr_failure := Some (js ''WebGPU device was lost: '' @ m)\<rparr>"

section \<open>Operations that do not wait\<close>

datatype gpu_reply = Driver jstr | GpuNull | NewBuffer int | NewKernel int

fun handles_of :: "jnum list \<Rightarrow> string \<Rightarrow> fault + int list" where
  "handles_of [] name = Inr []"
| "handles_of (v # vs) name =
    (case handle_of v name of Inl e \<Rightarrow> Inl e
     | Inr h \<Rightarrow> (case handles_of vs name of Inl e \<Rightarrow> Inl e | Inr hs \<Rightarrow> Inr (h # hs)))"

definition close_buffer :: "gpu_state \<Rightarrow> int \<Rightarrow> gpu_state" where
  "close_buffer g i =
    (case mget (gr_buffers g) i of None \<Rightarrow> g
     | Some b \<Rightarrow>
        let g1 = issue [Destroyed (gb_buffer b)] (destroyGpuDownload i g)
        in g1\<lparr>gr_buffers := mdelete (gr_buffers g1) i\<rparr>)"

definition close_kernel :: "gpu_state \<Rightarrow> int \<Rightarrow> gpu_state" where
  "close_kernel g i = g\<lparr>gr_kernels := mdelete (gr_kernels g) i\<rparr>"

definition runtime_close :: "gpu_effect \<Rightarrow> gpu_state \<Rightarrow> gpu_state \<times> (fault + gpu_reply)" where
  "runtime_close eff g =
    (case (gx_buffers eff, gx_kernels eff) of
       (Some bs, Some ks) \<Rightarrow>
         (case handles_of bs ''buffer handle'' of Inl e \<Rightarrow> (g, Inl e)
          | Inr buffers \<Rightarrow>
             (case handles_of ks ''kernel handle'' of Inl e \<Rightarrow> (g, Inl e)
              | Inr kernels \<Rightarrow> (foldl close_kernel (foldl close_buffer g buffers) kernels, Inr GpuNull)))
     | _ \<Rightarrow> (g, fails ''browser GPU context resource lists are invalid''))"

definition destroy_buffer :: "gpu_effect \<Rightarrow> gpu_state \<Rightarrow> gpu_state \<times> (fault + gpu_reply)" where
  "destroy_buffer eff g =
    (case handle_of (gx_buffer eff) ''buffer handle'' of Inl e \<Rightarrow> (g, Inl e)
     | Inr i \<Rightarrow> (case gpuBuffer g i of Inl e \<Rightarrow> (g, Inl e) | Inr b \<Rightarrow> (close_buffer g i, Inr GpuNull)))"

definition destroy_kernel :: "gpu_effect \<Rightarrow> gpu_state \<Rightarrow> gpu_state \<times> (fault + gpu_reply)" where
  "destroy_kernel eff g =
    (case handle_of (gx_kernel eff) ''kernel handle'' of Inl e \<Rightarrow> (g, Inl e) | Inr i \<Rightarrow> (close_kernel g i, Inr GpuNull))"

text \<open>\<open>mapped b\<close> is the mapped range of the device buffer \<open>b\<close>. The download goes away whether or not its bytes could be given.\<close>

definition read_download ::
  "(nat \<Rightarrow> byte list) \<Rightarrow> gpu_effect \<Rightarrow> gpu_state \<times> transfers option \<Rightarrow> (gpu_state \<times> transfers option) \<times> (fault + gpu_reply)" where
  "read_download mapped eff w = (case w of (g, t) \<Rightarrow>
    (case handle_of (gx_buffer eff) ''buffer handle'' of Inl e \<Rightarrow> (w, Inl e)
     | Inr i \<Rightarrow> (case gpuBuffer g i of Inl e \<Rightarrow> (w, Inl e)
     | Inr b \<Rightarrow> (case gb_download b of None \<Rightarrow> (w, fails ''browser GPU download is not synchronized'')
     | Some d \<Rightarrow>
        if \<not> dl_synchronized d \<or> \<not> dl_ready d \<or> dl_error d \<noteq> None
        then (w, fails ''browser GPU download is not synchronized'')
        else let g1 = destroyGpuDownload i g in
          (case memoryLease t (gx_lease eff) (IntV (int (dl_bytes d))) True of Inl e \<Rightarrow> ((g1, t), Inl (Plain e))
           | Inr entry \<Rightarrow>
              if length (mapped (dl_buffer d)) > le_bytes entry
              then ((g1, t), Inl (Plain (RangeError (js ''offset is out of bounds''))))
              else ((g1, write_lease t entry 0 (mapped (dl_buffer d))), Inr GpuNull))))))"

section \<open>Dispatching\<close>

definition ceil_div :: "nat \<Rightarrow> nat \<Rightarrow> nat" where
  "ceil_div a b = (a + b - 1) div b"

text \<open>The grid of a dispatch: as many columns as one dimension takes, and rows for the rest.\<close>

definition dispatch_grid :: "nat \<Rightarrow> nat \<Rightarrow> nat \<Rightarrow> fault + (nat \<times> nat)" where
  "dispatch_grid count threads limit =
    (let groups = ceil_div count threads;
         columns = min groups limit;
         rows = (if groups > limit then ceil_div groups limit else 1) in
     if rows > limit
     then Inl (Plain (Error (js ''GPU dispatch workgroup count ['' @ decimal columns @ js '', '' @ decimal rows
            @ js '', 1] exceeds the per-dimension limit '' @ decimal limit)))
     else Inr (columns, rows))"

fun bind_buffers :: "gpu_state \<Rightarrow> string \<Rightarrow> jnum list \<Rightarrow> fault + nat list" where
  "bind_buffers g name [] = Inr []"
| "bind_buffers g name (v # vs) =
    (case handle_of v name of Inl e \<Rightarrow> Inl e
     | Inr i \<Rightarrow> (case gpuBuffer g i of Inl e \<Rightarrow> Inl e
     | Inr b \<Rightarrow> (case bind_buffers g name vs of Inl e \<Rightarrow> Inl e | Inr bs \<Rightarrow> Inr (gb_buffer b # bs))))"

definition dispatch_kernel ::
  "gpu_env \<Rightarrow> gpu_effect \<Rightarrow> gpu_state \<Rightarrow> transfers option \<Rightarrow> fault + device_call" where
  "dispatch_kernel env eff g t =
    (case handle_of (gx_kernel eff) ''kernel handle'' of Inl e \<Rightarrow> Inl e
     | Inr k \<Rightarrow>
        (case (mget (gr_kernels g) k, gx_read eff, gx_write eff) of
           (Some kern, Some rd, Some wr) \<Rightarrow>
             if length rd \<noteq> gk_readonly kern \<or> length wr \<noteq> gk_writable kern
             then fails ''browser GPU dispatch has the wrong binding count''
             else (case uint32 (gx_count eff) ''dispatch count'' of Inl e \<Rightarrow> Inl (Plain e)
               | Inr count \<Rightarrow>
                  (case dispatch_grid (unat count) (gk_threads kern) (ge_limit env) of Inl e \<Rightarrow> Inl e
                   | Inr (columns, rows) \<Rightarrow>
                      (case memoryLease t (gx_lease eff) (IntV (int (gk_uniformBytes kern))) False of Inl e \<Rightarrow> Inl (Plain e)
                       | Inr entry \<Rightarrow>
                          (case bind_buffers g ''read buffer'' rd of Inl e \<Rightarrow> Inl e
                           | Inr rs \<Rightarrow> (case bind_buffers g ''write buffer'' wr of Inl e \<Rightarrow> Inl e
                               | Inr ws \<Rightarrow> Inr (Dispatched (gk_pipeline kern) (rs @ ws) (le_view entry) columns rows))))))
         | _ \<Rightarrow> fails ''browser GPU dispatch names an unknown kernel or buffers''))"

section \<open>Operations that wait\<close>

datatype gpu_pending =
    CreatingBuffer nat
  | Compiling nat nat nat nat  \<comment> \<open>readonly, writable, uniform bytes, threads\<close>
  | Uploading
  | Dispatching
  | EnqueuingDownload int nat
  | Downloading nat
  | Synchronizing

datatype gpu_begun = Replies "fault + gpu_reply" | Waits gpu_pending

definition kernel_ok :: "gpu_effect \<Rightarrow> bool" where
  "kernel_ok eff \<longleftrightarrow>
     (case gx_wgsl eff of None \<Rightarrow> False | Some s \<Rightarrow> s \<noteq> []) \<and> (case gx_entrypoint eff of None \<Rightarrow> False | Some s \<Rightarrow> s \<noteq> []) \<and>
     isInteger (gx_readonly eff) \<and> the_int (gx_readonly eff) \<ge> 0 \<and>
     isInteger (gx_writable eff) \<and> the_int (gx_writable eff) \<ge> 1 \<and>
     the_int (gx_readonly eff) + the_int (gx_writable eff) \<le> 8 \<and>
     isInteger (gx_uniformBytes eff) \<and>
     the_int (gx_uniformBytes eff) \<ge> 4 * (1 + 2 * (the_int (gx_readonly eff) + the_int (gx_writable eff))) \<and>
     the_int (gx_uniformBytes eff) \<le> 128 \<and> the_int (gx_uniformBytes eff) mod 4 = 0 \<and>
     isInteger (gx_threads eff) \<and> the_int (gx_threads eff) \<ge> 1 \<and> the_int (gx_threads eff) \<le> 256"

definition range_of :: "gpu_effect \<Rightarrow> gpu_state \<Rightarrow> fault + (int \<times> gpu_buffer \<times> nat \<times> nat)" where
  "range_of eff g =
    (case handle_of (gx_buffer eff) ''buffer handle'' of Inl e \<Rightarrow> Inl e
     | Inr i \<Rightarrow> (case gpuBuffer g i of Inl e \<Rightarrow> Inl e
     | Inr b \<Rightarrow> (case gpuBufferRange eff b of Inl e \<Rightarrow> Inl e | Inr (offset, bytes) \<Rightarrow> Inr (i, b, offset, bytes))))"

definition begin_create :: "gpu_effect \<Rightarrow> gpu_begun" where
  "begin_create eff =
    (case uint32 (gx_bytes eff) ''buffer byte length'' of Inl e \<Rightarrow> Replies (Inl (Plain e))
     | Inr w \<Rightarrow> if unat w = 0 \<or> unat w mod 4 \<noteq> 0 then Replies (fails ''browser GPU buffers need a positive four-byte size'')
         else Waits (CreatingBuffer (unat w)))"

definition begin_compile :: "gpu_effect \<Rightarrow> gpu_begun" where
  "begin_compile eff =
    (if \<not> kernel_ok eff then Replies (fails ''browser GPU kernel descriptor is invalid'')
     else Waits (Compiling (nat (the_int (gx_readonly eff))) (nat (the_int (gx_writable eff)))
            (nat (the_int (gx_uniformBytes eff))) (nat (the_int (gx_threads eff)))))"

definition begin_upload :: "gpu_effect \<Rightarrow> gpu_state \<Rightarrow> transfers option \<Rightarrow> gpu_state \<times> gpu_begun" where
  "begin_upload eff g t =
    (case range_of eff g of Inl e \<Rightarrow> (g, Replies (Inl e))
     | Inr (i, b, offset, bytes) \<Rightarrow>
        (case memoryLease t (gx_lease eff) (IntV (int bytes)) False of Inl e \<Rightarrow> (g, Replies (Inl (Plain e)))
         | Inr entry \<Rightarrow> (issue [WriteBuffer (gb_buffer b) offset (le_view entry)] g, Waits Uploading)))"

definition begin_dispatch :: "gpu_env \<Rightarrow> gpu_effect \<Rightarrow> gpu_state \<Rightarrow> transfers option \<Rightarrow> gpu_state \<times> gpu_begun" where
  "begin_dispatch env eff g t =
    (case dispatch_kernel env eff g t of Inl e \<Rightarrow> (g, Replies (Inl e)) | Inr call \<Rightarrow> (issue [call] g, Waits Dispatching))"

definition begin_enqueue :: "gpu_effect \<Rightarrow> gpu_state \<Rightarrow> gpu_state \<times> gpu_begun" where
  "begin_enqueue eff g =
    (case range_of eff g of Inl e \<Rightarrow> (g, Replies (Inl e))
     | Inr (i, b, offset, bytes) \<Rightarrow>
        if gb_download b \<noteq> None then (g, Replies (fails ''browser GPU buffer already has a queued download''))
        else (issue [CopyBuffer (gb_buffer b) offset bytes] g, Waits (EnqueuingDownload i bytes)))"

definition begin_download :: "gpu_effect \<Rightarrow> gpu_state \<Rightarrow> transfers option \<Rightarrow> gpu_state \<times> gpu_begun" where
  "begin_download eff g t =
    (case range_of eff g of Inl e \<Rightarrow> (g, Replies (Inl e))
     | Inr (i, b, offset, bytes) \<Rightarrow>
        (case memoryLease t (gx_lease eff) (IntV (int bytes)) True of Inl e \<Rightarrow> (g, Replies (Inl (Plain e)))
         | Inr entry \<Rightarrow> (issue [CopyBuffer (gb_buffer b) offset bytes] g, Waits (Downloading bytes))))"

definition GPU_LEASE_OPERATIONS :: "string set" where
  "GPU_LEASE_OPERATIONS = {''runtime-upload'', ''runtime-dispatch'', ''runtime-download'', ''runtime-read-download''}"

definition release_gpu :: "gpu_effect \<Rightarrow> transfers option \<Rightarrow> transfers option" where
  "release_gpu eff t = (if gx_operation eff \<in> GPU_LEASE_OPERATIONS then releaseEffectLease t (gx_lease eff) else t)"

definition performGpuOperation ::
  "gpu_env \<Rightarrow> (nat \<Rightarrow> byte list) \<Rightarrow> gpu_effect \<Rightarrow> gpu_state \<times> transfers option \<Rightarrow> (gpu_state \<times> transfers option) \<times> gpu_begun" where
  "performGpuOperation env mapped eff w = (case w of (g0, t) \<Rightarrow>
    (case gpu_prologue env g0 of (g, Inl e) \<Rightarrow> ((g, t), Replies (Inl e))
     | (g, Inr _) \<Rightarrow>
        let op = gx_operation eff; replies = (\<lambda>(g', r). ((g', t), Replies r)); waits = (\<lambda>(g', b). ((g', t), b)) in
        if op = ''runtime-open'' then ((g, t), Replies (Inr (Driver (js ''webgpu''))))
        else if op = ''runtime-close'' then replies (runtime_close eff g)
        else if op = ''runtime-create-buffer'' then ((g, t), begin_create eff)
        else if op = ''runtime-destroy-buffer'' then replies (destroy_buffer eff g)
        else if op = ''runtime-compile'' then ((g, t), begin_compile eff)
        else if op = ''runtime-destroy-kernel'' then replies (destroy_kernel eff g)
        else if op = ''runtime-upload'' then waits (begin_upload eff g t)
        else if op = ''runtime-dispatch'' then waits (begin_dispatch env eff g t)
        else if op = ''runtime-enqueue-download'' then waits (begin_enqueue eff g)
        else if op = ''runtime-read-download'' then (case read_download mapped eff (g, t) of (w1, r) \<Rightarrow> (w1, Replies r))
        else if op = ''runtime-download'' then waits (begin_download eff g t)
        else if op = ''runtime-synchronize'' then ((g, t), Waits Synchronizing)
        else ((g, t), Replies (fails ''unsupported browser GPU runtime operation''))))"

text \<open>
  \<^verbatim>\<open>performGpuRuntimeEffect\<close>: the lease the operation names goes back once it is over, whichever
  way it ends. This is the part up to the operation's wait.
\<close>

definition gpu_begin ::
  "gpu_env \<Rightarrow> (nat \<Rightarrow> byte list) \<Rightarrow> gpu_effect \<Rightarrow> gpu_state \<times> transfers option \<Rightarrow> (gpu_state \<times> transfers option) \<times> gpu_begun" where
  "gpu_begin env mapped eff w =
    (case performGpuOperation env mapped eff w of
       ((g, t), Replies r) \<Rightarrow> ((g, release_gpu eff t), Replies r)
     | (w1, Waits p) \<Rightarrow> (w1, Waits p))"

section \<open>After the wait\<close>

definition end_create :: "gpu_env \<Rightarrow> gpu_outcome \<Rightarrow> nat \<Rightarrow> gpu_state \<Rightarrow> gpu_state \<times> (fault + gpu_reply)" where
  "end_create env oc bytes g =
    (case gpuChecked env oc of Inl e \<Rightarrow> (g, Inl e)
     | Inr buffer \<Rightarrow>
        let i = gr_nextBuffer g in
        (g\<lparr>gr_nextBuffer := i + 1,
           gr_buffers := mset (gr_buffers g) i \<lparr>gb_bytes = bytes, gb_buffer = buffer, gb_download = None\<rparr>\<rparr>, Inr (NewBuffer i)))"

definition end_compile :: "gpu_env \<Rightarrow> gpu_outcome \<Rightarrow> nat \<Rightarrow> nat \<Rightarrow> nat \<Rightarrow> nat \<Rightarrow> gpu_state \<Rightarrow> gpu_state \<times> (fault + gpu_reply)" where
  "end_compile env oc readonly writable uniformBytes threads g =
    (case gpuChecked env oc of Inl e \<Rightarrow> (g, Inl e)
     | Inr _ \<Rightarrow> (case go_pipeline oc of Inl e \<Rightarrow> (g, Inl e)
     | Inr pipeline \<Rightarrow>
        let i = gr_nextKernel g in
        (g\<lparr>gr_nextKernel := i + 1,
           gr_kernels := mset (gr_kernels g) i \<lparr>gk_pipeline = pipeline, gk_readonly = readonly, gk_writable = writable,
             gk_uniformBytes = uniformBytes, gk_threads = threads\<rparr>\<rparr>, Inr (NewKernel i))))"

definition end_plain :: "gpu_env \<Rightarrow> gpu_outcome \<Rightarrow> gpu_state \<Rightarrow> gpu_state \<times> (fault + gpu_reply)" where
  "end_plain env oc g = (g, case gpuChecked env oc of Inl e \<Rightarrow> Inl e | Inr _ \<Rightarrow> Inr GpuNull)"

text \<open>The readback buffer is destroyed when its copy failed or another download got in first.\<close>

definition discard_readback :: "gpu_outcome \<Rightarrow> gpu_state \<Rightarrow> gpu_state" where
  "discard_readback oc g = 
    (case go_work oc of Inr b \<Rightarrow> issue [Destroyed b] g
     | Inl _ \<Rightarrow> (case go_created oc of None \<Rightarrow> g | Some b \<Rightarrow> issue [Destroyed b] g))"

definition end_enqueue :: "gpu_env \<Rightarrow> gpu_outcome \<Rightarrow> int \<Rightarrow> nat \<Rightarrow> gpu_state \<Rightarrow> gpu_state \<times> (fault + gpu_reply)" where
  "end_enqueue env oc i bytes g =
    (case gpuChecked env oc of Inl e \<Rightarrow> (discard_readback oc g, Inl e)
     | Inr readback \<Rightarrow>
        let mapping = (if ge_mapMode env then Inr GpuNull else fails ''WebGPU map mode constants are unavailable'') in
        (case mget (gr_buffers g) i of None \<Rightarrow> (g, mapping)
         | Some b \<Rightarrow>
            if gb_download b \<noteq> None
            then (discard_readback oc g, fails ''browser GPU buffer already has a queued download'')
            else (g\<lparr>gr_buffers := mset (gr_buffers g) i (b\<lparr>gb_download := Some
                   \<lparr>dl_buffer = readback, dl_bytes = bytes, dl_ready = False, dl_synchronized = False, dl_error = None\<rparr>\<rparr>)\<rparr>,
                  mapping)))"

text \<open>The promise of a queued download settles.\<close>

definition download_settles :: "int \<Rightarrow> fault option \<Rightarrow> gpu_state \<Rightarrow> gpu_state" where
  "download_settles i failure g =
    (case mget (gr_buffers g) i of None \<Rightarrow> g
     | Some b \<Rightarrow> (case gb_download b of None \<Rightarrow> g
        | Some d \<Rightarrow> g\<lparr>gr_buffers := mset (gr_buffers g) i (b\<lparr>gb_download := Some
            (case failure of None \<Rightarrow> d\<lparr>dl_ready := True\<rparr> | Some e \<Rightarrow> d\<lparr>dl_error := Some e\<rparr>)\<rparr>)\<rparr>))"

definition end_download ::
  "gpu_env \<Rightarrow> gpu_outcome \<Rightarrow> gpu_effect \<Rightarrow> nat \<Rightarrow> gpu_state \<times> transfers option \<Rightarrow> (gpu_state \<times> transfers option) \<times> (fault + gpu_reply)" where
  "end_download env oc eff bytes w = (case w of (g, t) \<Rightarrow>
    (let g1 = discard_readback oc g in
     case gpuChecked env oc of Inl e \<Rightarrow> ((g1, t), Inl e)
     | Inr readback \<Rightarrow>
        (case (if ge_mapMode env then go_mapped oc else fails ''WebGPU map mode constants are unavailable'') of Inl e \<Rightarrow> ((g1, t), Inl e)
         | Inr bs \<Rightarrow>
            (case memoryLease t (gx_lease eff) (IntV (int bytes)) True of Inl e \<Rightarrow> ((g1, t), Inl (Plain e))
             | Inr entry \<Rightarrow>
                if length bs > le_bytes entry then ((g1, t), Inl (Plain (RangeError (js ''offset is out of bounds''))))
                else ((discard_readback oc (issue [Unmapped readback] g), write_lease t entry 0 bs), Inr GpuNull)))))"

text \<open>The loop over the buffers once the promises of their downloads have settled.\<close>

fun synchronize_all :: "int list \<Rightarrow> gpu_state \<Rightarrow> gpu_state \<times> (fault + gpu_reply)" where
  "synchronize_all [] g = (g, Inr GpuNull)"
| "synchronize_all (i # is) g =
    (case mget (gr_buffers g) i of None \<Rightarrow> synchronize_all is g
     | Some b \<Rightarrow> (case gb_download b of None \<Rightarrow> synchronize_all is g
        | Some d \<Rightarrow> (case dl_error d of
            Some e \<Rightarrow> (destroyGpuDownload i g, Inl e)
          | None \<Rightarrow> synchronize_all is (g\<lparr>gr_buffers := mset (gr_buffers g) i (b\<lparr>gb_download := Some (d\<lparr>dl_synchronized := True\<rparr>)\<rparr>)\<rparr>))))"

definition gpu_end ::
  "gpu_env \<Rightarrow> gpu_effect \<Rightarrow> gpu_pending \<Rightarrow> gpu_outcome \<Rightarrow> gpu_state \<times> transfers option \<Rightarrow> (gpu_state \<times> transfers option) \<times> (fault + gpu_reply)" where
  "gpu_end env eff p oc w = (case w of (g, t) \<Rightarrow>
    (case (case p of
        CreatingBuffer bytes \<Rightarrow> (case end_create env oc bytes g of (g1, r) \<Rightarrow> ((g1, t), r))
      | Compiling a b c d \<Rightarrow> (case end_compile env oc a b c d g of (g1, r) \<Rightarrow> ((g1, t), r))
      | Uploading \<Rightarrow> (case end_plain env oc g of (g1, r) \<Rightarrow> ((g1, t), r))
      | Dispatching \<Rightarrow> (case end_plain env oc (discard_readback oc g) of (g1, r) \<Rightarrow> ((g1, t), r))
      | EnqueuingDownload i bytes \<Rightarrow> (case end_enqueue env oc i bytes g of (g1, r) \<Rightarrow> ((g1, t), r))
      | Downloading bytes \<Rightarrow> end_download env oc eff bytes w
      | Synchronizing \<Rightarrow> (case synchronize_all (mkeys (gr_buffers g)) g of (g1, r) \<Rightarrow> ((g1, t), r)))
     of ((g1, t1), r) \<Rightarrow> ((g1, release_gpu eff t1), r)))"

definition performGpuEffect ::
  "gpu_env \<Rightarrow> (nat \<Rightarrow> byte list) \<Rightarrow> gpu_effect \<Rightarrow> gpu_state \<times> transfers option \<Rightarrow> (gpu_state \<times> transfers option) \<times> gpu_begun" where
  "performGpuEffect env mapped eff w =
    (if take 8 (gx_operation eff) = ''runtime-'' then gpu_begin env mapped eff w
     else (w, Replies (fails ''unsupported browser GPU operation'')))"

section \<open>Lemmas\<close>

lemma ceil_div_covers: "0 < b \<Longrightarrow> a \<le> ceil_div a b * b"
proof -
  assume "0 < b"
  have "(a + b - 1) div b * b + (a + b - 1) mod b = a + b - 1" by simp
  moreover have "(a + b - 1) mod b < b" using \<open>0 < b\<close> by (rule mod_less_divisor)
  ultimately show ?thesis unfolding ceil_div_def using \<open>0 < b\<close> by linarith
qed

lemma ceil_div_tight: "0 < b \<Longrightarrow> 0 < a \<Longrightarrow> (ceil_div a b - 1) * b < a"
proof -
  assume ab: "0 < b" "0 < a"
  have "(a + b - 1) div b * b \<le> a + b - 1" by (rule div_times_less_eq_dividend)
  then have "(a + b - 1) div b * b - b < a" using ab by linarith
  then show ?thesis by (simp add: ceil_div_def diff_mult_distrib)
qed

lemma ceil_div_le_iff: "0 < b \<Longrightarrow> ceil_div a b \<le> c \<longleftrightarrow> a \<le> c * b"
proof
  assume b: "0 < b" and "ceil_div a b \<le> c"
  then have "ceil_div a b * b \<le> c * b" by simp
  then show "a \<le> c * b" using ceil_div_covers [OF b] order_trans by blast
next
  assume b: "0 < b" and le: "a \<le> c * b"
  show "ceil_div a b \<le> c"
  proof (cases "a = 0")
    case True
    then show ?thesis using b by (simp add: ceil_div_def)
  next
    case False
    then have "(ceil_div a b - 1) * b < c * b" using ceil_div_tight [OF b, of a] le by linarith
    then have "ceil_div a b - 1 < c" by simp
    then show ?thesis by simp
  qed
qed

lemma grid_rows:
  assumes "0 < limit"
  shows "dispatch_grid count threads limit = Inr (c, r) \<longleftrightarrow>
    (let groups = ceil_div count threads in groups \<le> limit * limit \<and> c = min groups limit \<and>
       r = (if groups > limit then ceil_div groups limit else 1))"
proof -
  have "ceil_div count threads \<le> limit \<Longrightarrow> ceil_div count threads \<le> limit * limit" using assms by (simp add: le_trans)
  then show ?thesis using assms ceil_div_le_iff [of limit "ceil_div count threads" limit]
    by (auto simp: dispatch_grid_def Let_def split: if_splits)
qed

lemma performGpuOperation_table:
  assumes "performGpuOperation env mapped eff (g, Some t) = ((g', t'), b)"
  shows "\<exists>u. t' = Some u"
  using assms
  by (auto simp: performGpuOperation_def read_download_def write_lease_def Let_def split: prod.splits sum.splits if_splits option.splits)

lemma gpu_end_table:
  assumes "gpu_end env eff p oc (g, Some t) = ((g', t'), r)"
  shows "\<exists>u. t' = release_gpu eff (Some u)"
  using assms
  by (auto simp: gpu_end_def end_download_def write_lease_def Let_def split: prod.splits sum.splits if_splits gpu_pending.splits)

definition sample_gpu :: gpu_state where
  "sample_gpu = gpuRuntime\<lparr>gr_kernels := [(1, \<lparr>gk_pipeline = 3, gk_readonly = 1, gk_writable = 1, gk_uniformBytes = 20, gk_threads = 64\<rparr>)]\<rparr>"

definition sample_gpu_env :: gpu_env where
  "sample_gpu_env = \<lparr>ge_usage = True, ge_device = Inr (), ge_scopes = True, ge_mapMode = True, ge_limit = 65535\<rparr>"

definition sample_upload :: gpu_effect where
  "sample_upload = \<lparr>gx_operation = ''runtime-upload'', gx_buffer = IntV 999, gx_kernel = Undef, gx_bytes = Undef, gx_offset = Undef,
     gx_lease = IntV 4, gx_count = Undef, gx_read = None, gx_write = None, gx_buffers = None, gx_kernels = None, gx_wgsl = None,
     gx_entrypoint = None, gx_readonly = Undef, gx_writable = Undef, gx_uniformBytes = Undef, gx_threads = Undef\<rparr>"

definition sample_gpu_lease :: transfers where
  "sample_gpu_lease = [(4, \<lparr>le_id = 4, le_bytes = 4, le_writable = False, le_view = [1, 2, 3, 4], le_released = False\<rparr>)]"

section \<open>Properties\<close>

text \<open>The grid of a dispatch: when the device takes at most \<open>limit\<close> workgroups per dimension, a dispatch is refused exactly
  when more than \<open>limit * limit\<close> groups of \<open>threads\<close> are needed; otherwise both dimensions are within the limit, the
  grid has a thread for every index, and no row is all idle.\<close>

theorem dispatch_grid_exact:
  assumes "0 < threads" "0 < limit"
  shows "if ceil_div count threads > limit * limit then \<exists>e. dispatch_grid count threads limit = Inl e
    else \<exists>c r. dispatch_grid count threads limit = Inr (c, r) \<and> c \<le> limit \<and> r \<le> limit \<and> count \<le> c * r * threads \<and>
      (0 < count \<longrightarrow> (r - 1) * c * threads < count)"
proof (cases "ceil_div count threads > limit * limit")
  case True
  then have "dispatch_grid count threads limit \<noteq> Inr (c, r)" for c r using grid_rows [OF assms(2)] by (simp add: Let_def)
  then have "\<exists>e. dispatch_grid count threads limit = Inl e" by (metis not_Inl_iff old.sum.exhaust prod.collapse)
  with True show ?thesis by simp
next
  case False
  define n where "n = ceil_div count threads"
  define c where "c = min n limit"
  define r where "r = (if n > limit then ceil_div n limit else 1)"
  have eq: "dispatch_grid count threads limit = Inr (c, r)"
    using False grid_rows [OF assms(2)] by (simp add: Let_def n_def c_def r_def)
  have n: "n \<le> limit * limit" using False by (simp add: n_def)
  have "r \<le> limit" using n ceil_div_le_iff [OF assms(2), of n limit] assms(2) by (auto simp: r_def)
  moreover have "n \<le> c * r" using ceil_div_covers [OF assms(2), of n] by (auto simp: c_def r_def mult.commute)
  then have "count \<le> c * r * threads"
    using ceil_div_covers [OF assms(1), of count] mult_le_mono1 order_trans unfolding n_def by blast
  moreover have "(r - 1) * c * threads < count" if "0 < count"
  proof -
    have "(r - 1) * c \<le> n - 1"
    proof (cases "n > limit")
      case True
      then show ?thesis using ceil_div_tight [OF assms(2), of n] by (auto simp: c_def r_def)
    qed (simp add: r_def)
    then have "(r - 1) * c * threads \<le> (n - 1) * threads" by (rule mult_le_mono1)
    then show ?thesis using ceil_div_tight [OF assms(1) that] unfolding n_def by (rule le_less_trans)
  qed
  ultimately show ?thesis using eq False by (auto simp: c_def)
qed

theorem dispatch_grid_exact_witness: "\<exists>c r. dispatch_grid 1000 4 (16 :: nat) = Inr (c, r) \<and> c \<le> 16 \<and> r \<le> 16 \<and> 1000 \<le> c * r * 4"
  using dispatch_grid_exact [of 4 16 1000] by (auto simp: ceil_div_def)

text \<open>A GPU operation that names a lease always gives it back: when it is answered at once, whichever check fails, and when
  it is answered after its wait, whatever the device did.\<close>

theorem gpu_lease_returned:
  assumes "gx_operation eff \<in> GPU_LEASE_OPERATIONS" "gx_lease eff = IntV k"
    and "gpu_begin env mapped eff (g, Some t) = ((g', t'), Replies r) \<or> gpu_end env eff p oc (g, Some t) = ((g', t'), r)"
  shows "\<exists>u. t' = Some u \<and> k \<notin> outstanding u"
  using assms(3)
proof
  assume "gpu_begin env mapped eff (g, Some t) = ((g', t'), Replies r)"
  then obtain v where "performGpuOperation env mapped eff (g, Some t) = ((g', v), Replies r)" "t' = release_gpu eff v"
    by (auto simp: gpu_begin_def split: prod.splits gpu_begun.splits)
  then show ?thesis using performGpuOperation_table assms(1,2) released_not_outstanding by (fastforce simp: release_gpu_def)
next
  assume "gpu_end env eff p oc (g, Some t) = ((g', t'), r)"
  then show ?thesis using gpu_end_table assms(1,2) released_not_outstanding by (fastforce simp: release_gpu_def)
qed

theorem gpu_lease_returned_witness:
  "gpu_begin sample_gpu_env (\<lambda>_. []) sample_upload (sample_gpu, Some sample_gpu_lease) =
     ((sample_gpu, Some (release sample_gpu_lease (IntV 4))), Replies (fails ''browser GPU buffer handle is unknown'')) \<and>
   4 \<notin> outstanding (release sample_gpu_lease (IntV 4))"
proof -
  have b: "gpu_begin sample_gpu_env (\<lambda>_. []) sample_upload (sample_gpu, Some sample_gpu_lease) =
      ((sample_gpu, Some (release sample_gpu_lease (IntV 4))), Replies (fails ''browser GPU buffer handle is unknown''))"
    by (simp add: gpu_begin_def performGpuOperation_def gpu_prologue_def sample_gpu_env_def sample_upload_def sample_gpu_def
        gpuRuntime_def begin_upload_def range_of_def handle_of_def uint32_def gpuBuffer_def release_gpu_def GPU_LEASE_OPERATIONS_def)
  have "\<exists>u. Some (release sample_gpu_lease (IntV 4)) = Some u \<and> 4 \<notin> outstanding u"
    by (rule gpu_lease_returned [OF _ _ disjI1 [OF b]]) (simp_all add: sample_upload_def GPU_LEASE_OPERATIONS_def)
  with b show ?thesis by simp
qed

end
