(* ===== verification/AppRuntime.thy ===== *)
theory AppRuntime
  imports Effect_Base HostChannel
begin

text \<open>
  The frame loop of \<^verbatim>\<open>src/runtime/wasm/app-runtime.mjs\<close>: requests are routed to their handlers, a
  request that names a lease is held with its frame, the others settle on their own and are
  answered in whichever frame is next, and a frame waits as long as its wake mode says.
  Handlers are asynchronous, so a settlement is an event with the handler's outcome; the
  frame itself is a small state machine over the two awaits of \<^verbatim>\<open>handleBrowserEffects\<close>.
\<close>

section \<open>Requests and responses\<close>

datatype route = Supplied | HttpRoute | FilesRoute | TimeRoute | RandomRoute | SystemRoute | Sha256Route | HmacRoute | GpuRoute | HostRoute

definition route_of :: "(string \<Rightarrow> bool) \<Rightarrow> string \<Rightarrow> route option" where
  "route_of supplied kind =
    (if supplied kind then Some Supplied
     else if kind = ''http'' then Some HttpRoute else if kind = ''files'' then Some FilesRoute
     else if kind = ''time'' then Some TimeRoute else if kind = ''random'' then Some RandomRoute
     else if kind = ''system'' then Some SystemRoute else if kind = ''sha256'' then Some Sha256Route
     else if kind = ''hmac-sha256'' then Some HmacRoute else if kind = ''gpu'' then Some GpuRoute
     else if kind = ''host'' then Some HostRoute else None)"

definition availableParallelism :: "jnum \<Rightarrow> int" where
  "availableParallelism count = (if isInteger count \<and> the_int count > 0 then the_int count else 1)"

record effect_request =
  er_id :: jnum
  er_kind :: string
  er_lease :: jnum
  er_bodyLease :: jnum
  er_resultLease :: jnum
  er_spans :: bool  \<comment> \<open>whether \<^verbatim>\<open>spans\<close> is there\<close>
  er_host :: host_effect  \<comment> \<open>the fields of a host effect\<close>
  er_inbox :: "inbox_span list"

datatype 'v reply = Value 'v | HostWritten written_answer

record 'v effect_response =
  rp_id :: jnum
  rp_body :: "jstr + 'v reply"  \<comment> \<open>the error, or the value\<close>

text \<open>What \<^verbatim>\<open>performEffect\<close> answers once the handler of the request's route has the outcome \<open>run\<close>.\<close>

definition performEffect :: "(string \<Rightarrow> bool) \<Rightarrow> (route \<Rightarrow> fault + 'v) \<Rightarrow> effect_request \<Rightarrow> 'v effect_response" where
  "performEffect supplied run req =
    (if \<not> isInteger (er_id req) \<or> the_int (er_id req) < 1
     then \<lparr>rp_id = er_id req, rp_body = Inl (js ''browser effect id is invalid'')\<rparr>
     else \<lparr>rp_id = er_id req, rp_body =
       (case route_of supplied (er_kind req) of
          None \<Rightarrow> Inl (js (''unsupported browser effect '' @ er_kind req))
        | Some r \<Rightarrow> (case run r of Inl e \<Rightarrow> Inl (fault_message e) | Inr v \<Rightarrow> Inr (Value v)))\<rparr>)"

definition boundToFrame :: "effect_request \<Rightarrow> bool" where
  "boundToFrame req \<longleftrightarrow>
    (if er_kind req = ''host'' then hostEffectBoundToFrame (er_host req)
     else er_lease req \<noteq> Undef \<or> er_bodyLease req \<noteq> Undef \<or> er_resultLease req \<noteq> Undef \<or> er_spans req)"

section \<open>Packing an answer\<close>

text \<open>How many of the settled responses go; \<open>held\<close> says whether the frame has responses of its own.\<close>

fun pack_taken :: "('r \<Rightarrow> nat) \<Rightarrow> bool \<Rightarrow> nat \<Rightarrow> 'r list \<Rightarrow> nat" where
  "pack_taken len held used [] = 0"
| "pack_taken len held used (r # rs) =
    (let n = len r + 1 in
     if used + n > RESPONSE_TEXT_BUDGET \<and> held then 0 else Suc (pack_taken len held (used + n) rs))"

text \<open>\<open>len r\<close> is the length of the response's JSON text.\<close>

definition packedResponses :: "('r \<Rightarrow> nat) \<Rightarrow> 'r list \<Rightarrow> 'r list \<Rightarrow> 'r list \<times> 'r list" where
  "packedResponses len held settled =
    (let used = foldl (\<lambda>total r. total + len r + 1) 64 held;
         taken = pack_taken len (held \<noteq> []) used settled
     in (held @ take taken settled, drop taken settled))"

section \<open>Frames\<close>

datatype wake_mode = WakeNone | WakeAny | WakeTurn

datatype phase = Holding | AwaitingWake | AwaitingTurn | Answering

record 'v frame_state =
  fm_wake :: wake_mode
  fm_poll :: bool
  fm_held :: "(nat \<times> effect_request \<times> 'v effect_response option) list"
  fm_hosts :: "effect_request list"
  fm_phase :: phase

text \<open>
  Every request but the host frames gets a ticket when it is accepted. \<open>lp_answers\<close> are the
  tickets answered so far, with their responses.
\<close>

record 'v loop =
  lp_next :: nat
  lp_pending :: "(nat \<times> effect_request) list"
  lp_settled :: "(nat \<times> 'v effect_response) list"
  lp_frame :: "'v frame_state option"
  lp_host :: "host_channel option"
  lp_table :: transfers
  lp_answers :: "(nat \<times> 'v effect_response) list"

record frame_message =
  ms_wake :: "string option"
  ms_kind :: string
  ms_requests :: "effect_request list option"

definition wake_of :: "string option \<Rightarrow> wake_mode option" where
  "wake_of w = (case w of None \<Rightarrow> Some WakeNone
     | Some s \<Rightarrow> if s = ''any'' then Some WakeAny else if s = ''turn'' then Some WakeTurn else None)"

text \<open>The loop over the requests of a frame.\<close>

fun accept_requests :: "wake_mode \<Rightarrow> effect_request list \<Rightarrow> 'v loop \<times> 'v frame_state \<Rightarrow> 'v loop \<times> 'v frame_state" where
  "accept_requests mode [] s = s"
| "accept_requests mode (req # reqs) (lp, fm) =
    accept_requests mode reqs
      (if isHostFrame (er_kind req) (er_host req) then (lp, fm\<lparr>fm_hosts := fm_hosts fm @ [req]\<rparr>)
       else let lp1 = lp\<lparr>lp_next := lp_next lp + 1\<rparr> in
         if mode = WakeNone \<or> boundToFrame req
         then (lp1, fm\<lparr>fm_held := fm_held fm @ [(lp_next lp, req, None)]\<rparr>)
         else (lp1\<lparr>lp_pending := lp_pending lp @ [(lp_next lp, req)]\<rparr>, fm))"

text \<open>The host frames are begun in order; making the channel may throw.\<close>

fun begin_hosts ::
  "handlers \<Rightarrow> (jstr \<Rightarrow> json result) \<Rightarrow> host_option option \<Rightarrow> transfers \<Rightarrow> effect_request list \<Rightarrow> host_channel option
     \<Rightarrow> host_channel option \<times> unit result" where
  "begin_hosts call parse opts t [] chan = (chan, Inr ())"
| "begin_hosts call parse opts t (req # reqs) chan =
    (case channelOf chan opts of Inl e \<Rightarrow> (chan, Inl e)
     | Inr ch \<Rightarrow> begin_hosts call parse opts t reqs (Some (beginHostFrame call parse (er_host req) (er_inbox req) ch t)))"

definition frame_begin ::
  "handlers \<Rightarrow> (jstr \<Rightarrow> json result) \<Rightarrow> host_option option \<Rightarrow> limits \<Rightarrow> frame_message \<Rightarrow> transfers \<Rightarrow> 'v loop \<Rightarrow> 'v loop \<times> unit result" where
  "frame_begin call parse opts limits msg t lp =
    (case wake_of (ms_wake msg) of None \<Rightarrow> (lp, throw ''the Nupp app yielded an unknown browser effect wake mode'')
     | Some mode \<Rightarrow>
        if ms_kind msg \<noteq> ''poll'' \<and> (ms_kind msg \<noteq> ''effects'' \<or> ms_requests msg = None)
        then (lp, throw ''the Nupp app yielded an unknown browser effect message'')
        else let reqs = (if ms_kind msg = ''effects'' then the (ms_requests msg) else []) in
        if length reqs > maxEffects limits
        then (lp, Inl (Error (js ''browser application yielded more than '' @ decimal (maxEffects limits) @ js '' effects'')))
        else case accept_requests mode reqs (lp\<lparr>lp_table := t\<rparr>,
              \<lparr>fm_wake = mode, fm_poll = (ms_kind msg = ''poll''), fm_held = [], fm_hosts = [], fm_phase = Holding\<rparr>) of
          (lp1, fm) \<Rightarrow>
           (case begin_hosts call parse opts t (fm_hosts fm) (lp_host lp1) of
              (chan, Inl e) \<Rightarrow> (lp1\<lparr>lp_host := chan\<rparr>, Inl e)
            | (chan, Inr _) \<Rightarrow> (lp1\<lparr>lp_host := chan, lp_frame := Some fm\<rparr>, Inr ())))"

section \<open>Events\<close>

definition fill_held :: "nat \<Rightarrow> 'v effect_response \<Rightarrow> 'v frame_state \<Rightarrow> 'v frame_state" where
  "fill_held ticket resp fm =
    fm\<lparr>fm_held := map (\<lambda>(i, req, r). if i = ticket \<and> r = None then (i, req, Some resp) else (i, req, r)) (fm_held fm)\<rparr>"

definition wake_frame :: "'v frame_state \<Rightarrow> 'v frame_state" where
  "wake_frame fm = (if fm_phase fm = AwaitingWake then fm\<lparr>fm_phase := Answering\<rparr> else fm)"

text \<open>
  A request settles. A detached one joins the settled and wakes a frame that waits for it; a
  held one is kept for its frame's \<^verbatim>\<open>Promise.all\<close>.
\<close>

definition effect_settles :: "nat \<Rightarrow> 'v effect_response \<Rightarrow> 'v loop \<Rightarrow> 'v loop" where
  "effect_settles ticket resp lp =
    (if mhas (lp_pending lp) ticket
     then lp\<lparr>lp_pending := mdelete (lp_pending lp) ticket, lp_settled := lp_settled lp @ [(ticket, resp)],
             lp_frame := map_option wake_frame (lp_frame lp)\<rparr>
     else lp\<lparr>lp_frame := map_option (fill_held ticket resp) (lp_frame lp)\<rparr>)"

definition held_settled :: "'v frame_state \<Rightarrow> bool" where
  "held_settled fm \<longleftrightarrow> list_all (\<lambda>(i, req, r). r \<noteq> None) (fm_held fm)"

text \<open>After \<^verbatim>\<open>Promise.all(held)\<close>: whether the frame waits, and what for.\<close>

definition frame_proceeds :: "'v loop \<Rightarrow> 'v loop" where
  "frame_proceeds lp =
    (case lp_frame lp of None \<Rightarrow> lp
     | Some fm \<Rightarrow>
        if fm_phase fm \<noteq> Holding \<or> \<not> held_settled fm then lp
        else if fm_wake fm = WakeAny then
          let hostReady = (fm_hosts fm \<noteq> [] \<and> hostFrameReady (lp_host lp)) in
          if fm_held fm = [] \<and> lp_settled lp = [] \<and> \<not> hostReady then
            let hostWaits = (fm_hosts fm \<noteq> [] \<and> hostFrameWaitable (lp_host lp)) in
            if lp_pending lp \<noteq> [] \<or> hostWaits
            then lp\<lparr>lp_frame := Some (fm\<lparr>fm_phase := AwaitingWake\<rparr>),
                    lp_host := (if hostWaits then map_option (\<lambda>ch. onHostFrameReady ch True) (lp_host lp) else lp_host lp)\<rparr>
            else lp\<lparr>lp_frame := Some (fm\<lparr>fm_phase := AwaitingTurn\<rparr>)\<rparr>
          else lp\<lparr>lp_frame := Some (fm\<lparr>fm_phase := Answering\<rparr>)\<rparr>
        else if fm_poll fm \<or> fm_wake fm = WakeTurn then lp\<lparr>lp_frame := Some (fm\<lparr>fm_phase := AwaitingTurn\<rparr>)\<rparr>
        else lp\<lparr>lp_frame := Some (fm\<lparr>fm_phase := Answering\<rparr>)\<rparr>)"

definition turn_passes :: "'v loop \<Rightarrow> 'v loop" where
  "turn_passes lp = lp\<lparr>lp_frame := map_option (\<lambda>fm. if fm_phase fm = AwaitingTurn then fm\<lparr>fm_phase := Answering\<rparr> else fm) (lp_frame lp)\<rparr>"

text \<open>The page works on the channel meanwhile; when that calls \<open>notify\<close>, a waiting frame is woken.\<close>

definition host_changes :: "host_channel \<Rightarrow> 'v loop \<Rightarrow> 'v loop" where
  "host_changes ch lp =
    (let notified = (case lp_host lp of None \<Rightarrow> False | Some old \<Rightarrow> hc_notify old \<and> \<not> hc_notify ch) in
     lp\<lparr>lp_host := Some ch, lp_frame := (if notified then map_option wake_frame (lp_frame lp) else lp_frame lp)\<rparr>)"

fun finish_hosts :: "effect_request list \<Rightarrow> host_channel option \<times> transfers \<Rightarrow> (host_channel option \<times> transfers) \<times> 'v effect_response list" where
  "finish_hosts [] s = (s, [])"
| "finish_hosts (req # reqs) (chan, t) =
    (case (case chan of None \<Rightarrow> (None, t, throw ''a host frame was never begun'')
           | Some ch \<Rightarrow> (case finishHostFrame (he_id (er_host req)) ch t of (ch1, t1, r) \<Rightarrow> (Some ch1, t1, r))) of
       (chan1, t1, r) \<Rightarrow>
        (case finish_hosts reqs (chan1, t1) of (s, rs) \<Rightarrow>
          (s, \<lparr>rp_id = er_id req, rp_body = (case r of Inl e \<Rightarrow> Inl (message e) | Inr v \<Rightarrow> Inr (HostWritten v))\<rparr> # rs)))"

text \<open>The end of a frame that is no longer waiting: its answer.\<close>

definition frame_answer :: "('v effect_response \<Rightarrow> nat) \<Rightarrow> 'v loop \<Rightarrow> ('v loop \<times> 'v effect_response list) option" where
  "frame_answer len lp =
    (case lp_frame lp of None \<Rightarrow> None
     | Some fm \<Rightarrow>
        if fm_phase fm \<noteq> Answering then None else
        let held = map (\<lambda>(i, req, r). (i, the r)) (fm_held fm) in
        (case packedResponses (len \<circ> snd) held (lp_settled lp) of (answered, rest) \<Rightarrow>
         case finish_hosts (fm_hosts fm) (map_option (\<lambda>ch. onHostFrameReady ch False) (lp_host lp), lp_table lp) of
           ((chan, t), hosts) \<Rightarrow>
             Some (lp\<lparr>lp_settled := rest, lp_frame := None, lp_host := chan, lp_table := t, lp_answers := lp_answers lp @ answered\<rparr>,
                   map snd answered @ hosts)))"

section \<open>What may happen\<close>

inductive loop_step :: "('v effect_response \<Rightarrow> nat) \<Rightarrow> 'v loop \<Rightarrow> 'v loop \<Rightarrow> bool" for len where
  begins: "lp_frame lp = None \<Longrightarrow> frame_begin call parse opts limits msg t lp = (lp', Inr ()) \<Longrightarrow> loop_step len lp lp'"
| settles: "loop_step len lp (effect_settles ticket resp lp)"
| proceeds: "loop_step len lp (frame_proceeds lp)"
| turns: "loop_step len lp (turn_passes lp)"
| host_works: "loop_step len lp (host_changes ch lp)"
| answers: "frame_answer len lp = Some (lp', responses) \<Longrightarrow> loop_step len lp lp'"

definition idle_loop :: "host_channel option \<Rightarrow> 'v loop" where
  "idle_loop chan = \<lparr>lp_next = 0, lp_pending = [], lp_settled = [], lp_frame = None, lp_host = chan, lp_table = [], lp_answers = []\<rparr>"

inductive loop_reachable :: "('v effect_response \<Rightarrow> nat) \<Rightarrow> 'v loop \<Rightarrow> bool" for len where
  starts: "loop_reachable len (idle_loop chan)"
| steps: "loop_reachable len lp \<Longrightarrow> loop_step len lp lp' \<Longrightarrow> loop_reachable len lp'"

section \<open>Every request is answered once\<close>

text \<open>How often a ticket is found among the pending, the settled, the held and the answered.\<close>

definition held_of :: "'v loop \<Rightarrow> (nat \<times> effect_request \<times> 'v effect_response option) list" where
  "held_of lp = (case lp_frame lp of None \<Rightarrow> [] | Some fm \<Rightarrow> fm_held fm)"

definition tickets :: "'v loop \<Rightarrow> (nat \<times> effect_request \<times> 'v effect_response option) list \<Rightarrow> nat \<Rightarrow> nat" where
  "tickets lp held i = count_list (map fst (lp_pending lp)) i + count_list (map fst (lp_settled lp)) i +
     count_list (map fst held) i + count_list (map fst (lp_answers lp)) i"

definition tickets_ok :: "'v loop \<Rightarrow> (nat \<times> effect_request \<times> 'v effect_response option) list \<Rightarrow> bool" where
  "tickets_ok lp held \<longleftrightarrow> (\<forall>i. tickets lp held i = (if i < lp_next lp then 1 else 0))"

definition waits_ok :: "'v loop \<Rightarrow> 'v frame_state \<Rightarrow> bool" where
  "waits_ok lp fm \<longleftrightarrow> (fm_phase fm = AwaitingWake \<longrightarrow> fm_held fm = [] \<and> lp_settled lp = []) \<and>
     (fm_phase fm \<noteq> Holding \<longrightarrow> held_settled fm)"

definition loop_ok :: "'v loop \<Rightarrow> bool" where
  "loop_ok lp \<longleftrightarrow> tickets_ok lp (held_of lp) \<and> (\<forall>fm. lp_frame lp = Some fm \<longrightarrow> waits_ok lp fm)"

lemma count_mdelete: "count_list (map fst (mdelete m k)) i = (if i = k then 0 else count_list (map fst m) i)"
  by (induction m) (auto simp: mdelete_def)

lemma count_mhas: "mhas m k \<longleftrightarrow> count_list (map fst m) k \<noteq> 0"
  by (auto simp: mhas_def mget_def map_of_eq_None_iff count_list_0_iff)

lemma fst_fill_held: "map fst (fm_held (fill_held ticket resp fm)) = map fst (fm_held fm)"
  by (auto simp: fill_held_def)

lemma settled_fill_held: "held_settled fm \<Longrightarrow> held_settled (fill_held ticket resp fm)"
  by (auto simp: held_settled_def fill_held_def list_all_iff)

lemma tickets_same:
  "lp_next lp' = lp_next lp \<Longrightarrow> lp_pending lp' = lp_pending lp \<Longrightarrow> lp_settled lp' = lp_settled lp \<Longrightarrow> lp_answers lp' = lp_answers lp
   \<Longrightarrow> map fst held' = map fst held \<Longrightarrow> tickets_ok lp' held' = tickets_ok lp held"
  by (simp add: tickets_ok_def tickets_def)

lemma tickets_held:
  assumes "tickets_ok lp held"
  shows "tickets_ok (lp\<lparr>lp_next := lp_next lp + 1\<rparr>) (held @ [(lp_next lp, req, r)])"
  unfolding tickets_ok_def
proof
  fix i
  have "tickets lp held i = (if i < lp_next lp then 1 else 0)" using assms unfolding tickets_ok_def by blast
  then show "tickets (lp\<lparr>lp_next := lp_next lp + 1\<rparr>) (held @ [(lp_next lp, req, r)]) i =
      (if i < lp_next (lp\<lparr>lp_next := lp_next lp + 1\<rparr>) then 1 else 0)"
    by (auto simp: tickets_def)
qed

lemma tickets_pending:
  assumes "tickets_ok lp held"
  shows "tickets_ok (lp\<lparr>lp_next := lp_next lp + 1, lp_pending := lp_pending lp @ [(lp_next lp, req)]\<rparr>) held"
  unfolding tickets_ok_def
proof
  fix i
  have "tickets lp held i = (if i < lp_next lp then 1 else 0)" using assms unfolding tickets_ok_def by blast
  then show "tickets (lp\<lparr>lp_next := lp_next lp + 1, lp_pending := lp_pending lp @ [(lp_next lp, req)]\<rparr>) held i =
      (if i < lp_next (lp\<lparr>lp_next := lp_next lp + 1, lp_pending := lp_pending lp @ [(lp_next lp, req)]\<rparr>) then 1 else 0)"
    by (auto simp: tickets_def)
qed

lemma accept_requests_ok:
  assumes "tickets_ok lp (fm_held fm)" "fm_phase fm = Holding" "accept_requests mode reqs (lp, fm) = (lp', fm')"
  shows "tickets_ok lp' (fm_held fm') \<and> fm_phase fm' = Holding"
  using assms
proof (induction reqs arbitrary: lp fm)
  case (Cons req reqs)
  show ?case
  proof (cases "isHostFrame (er_kind req) (er_host req)")
    case True
    then show ?thesis using Cons.prems by (intro Cons.IH [of lp "fm\<lparr>fm_hosts := fm_hosts fm @ [req]\<rparr>"]) auto
  next
    case notHost: False
    show ?thesis
    proof (cases "mode = WakeNone \<or> boundToFrame req")
      case True
      let ?fm = "fm\<lparr>fm_held := fm_held fm @ [(lp_next lp, req, None)]\<rparr>"
      have "tickets_ok (lp\<lparr>lp_next := lp_next lp + 1\<rparr>) (fm_held ?fm)" using tickets_held [OF Cons.prems(1)] by simp
      then show ?thesis using Cons.prems(2,3) notHost True by (intro Cons.IH [of "lp\<lparr>lp_next := lp_next lp + 1\<rparr>" ?fm]) auto
    next
      case False
      let ?lp = "lp\<lparr>lp_next := lp_next lp + 1, lp_pending := lp_pending lp @ [(lp_next lp, req)]\<rparr>"
      show ?thesis using Cons.prems(2,3) notHost False tickets_pending [OF Cons.prems(1)]
        by (intro Cons.IH [of ?lp fm]) auto
    qed
  qed
qed simp

lemma frame_begin_cases:
  assumes "frame_begin call parse opts limits msg t lp = (lp', Inr ())"
  obtains mode reqs lp1 fm chan where
    "accept_requests mode reqs (lp\<lparr>lp_table := t\<rparr>,
       \<lparr>fm_wake = mode, fm_poll = (ms_kind msg = ''poll''), fm_held = [], fm_hosts = [], fm_phase = Holding\<rparr>) = (lp1, fm)"
    "lp' = lp1\<lparr>lp_host := chan, lp_frame := Some fm\<rparr>"
proof -
  let ?reqs = "if ms_kind msg = ''effects'' then the (ms_requests msg) else []"
  obtain mode where m: "wake_of (ms_wake msg) = Some mode" using assms by (cases "wake_of (ms_wake msg)") (auto simp: frame_begin_def)
  obtain lp1 fm where a: "accept_requests mode ?reqs (lp\<lparr>lp_table := t\<rparr>,
       \<lparr>fm_wake = mode, fm_poll = (ms_kind msg = ''poll''), fm_held = [], fm_hosts = [], fm_phase = Holding\<rparr>) = (lp1, fm)" by fastforce
  obtain chan r where h: "begin_hosts call parse opts t (fm_hosts fm) (lp_host lp1) = (chan, r)" by fastforce
  have "lp' = lp1\<lparr>lp_host := chan, lp_frame := Some fm\<rparr>"
    using assms by (simp add: frame_begin_def m Let_def a h split: if_splits sum.splits)
  with a show thesis by (rule that)
qed

lemma frame_begin_ok:
  assumes "frame_begin call parse opts limits msg t lp = (lp', Inr ())" "lp_frame lp = None" "loop_ok lp"
  shows "loop_ok lp'"
proof -
  obtain mode reqs lp1 fm chan where a:
    "accept_requests mode reqs (lp\<lparr>lp_table := t\<rparr>,
       \<lparr>fm_wake = mode, fm_poll = (ms_kind msg = ''poll''), fm_held = [], fm_hosts = [], fm_phase = Holding\<rparr>) = (lp1, fm)"
    "lp' = lp1\<lparr>lp_host := chan, lp_frame := Some fm\<rparr>"
    using frame_begin_cases [OF assms(1)] .
  have "tickets_ok lp []" using assms(2,3) by (simp add: loop_ok_def held_of_def)
  then have "tickets_ok (lp\<lparr>lp_table := t\<rparr>) []" by (subst tickets_same [of _ lp]) simp_all
  then have ok: "tickets_ok lp1 (fm_held fm) \<and> fm_phase fm = Holding" using accept_requests_ok [OF _ _ a(1)] by simp
  then have "tickets_ok lp' (held_of lp')" by (subst tickets_same [of _ lp1 _ "fm_held fm"]) (simp_all add: a(2) held_of_def)
  with ok show ?thesis by (simp add: a(2) loop_ok_def waits_ok_def)
qed

lemma effect_settles_ok:
  assumes "loop_ok lp"
  shows "loop_ok (effect_settles ticket resp lp)"
proof (cases "mhas (lp_pending lp) ticket")
  case True
  let ?lp = "lp\<lparr>lp_pending := mdelete (lp_pending lp) ticket, lp_settled := lp_settled lp @ [(ticket, resp)],
             lp_frame := map_option wake_frame (lp_frame lp)\<rparr>"
  have eq: "effect_settles ticket resp lp = ?lp" using True by (simp add: effect_settles_def)
  have held: "held_of ?lp = held_of lp" by (auto simp: held_of_def wake_frame_def split: option.splits)
  have t: "tickets lp (held_of lp) i = (if i < lp_next lp then 1 else 0)" for i
    using assms unfolding loop_ok_def tickets_ok_def by blast
  have "count_list (map fst (lp_pending lp)) ticket = 1"
    using t [of ticket] True by (auto simp: count_mhas tickets_def split: if_splits)
  then have "tickets ?lp (held_of lp) i = tickets lp (held_of lp) i" for i
    by (auto simp: tickets_def count_mdelete)
  then have "tickets_ok ?lp (held_of ?lp)" unfolding tickets_ok_def held using t by simp
  moreover have "waits_ok ?lp fm" if fr: "lp_frame ?lp = Some fm" for fm
  proof -
    obtain f where f: "lp_frame lp = Some f" "fm = wake_frame f" using fr by auto
    then have "waits_ok lp f" using assms unfolding loop_ok_def by blast
    with f(2) show ?thesis by (auto simp: waits_ok_def wake_frame_def held_settled_def split: if_splits)
  qed
  ultimately show ?thesis unfolding eq loop_ok_def by blast
next
  case False
  then have eq: "effect_settles ticket resp lp = lp\<lparr>lp_frame := map_option (fill_held ticket resp) (lp_frame lp)\<rparr>"
    by (simp add: effect_settles_def)
  have h: "map fst (held_of (effect_settles ticket resp lp)) = map fst (held_of lp)"
    by (auto simp: eq held_of_def fst_fill_held split: option.splits)
  have "tickets_ok (effect_settles ticket resp lp) (held_of (effect_settles ticket resp lp)) = tickets_ok lp (held_of lp)"
    by (rule tickets_same [OF _ _ _ _ h]) (simp_all add: eq)
  then have "tickets_ok (effect_settles ticket resp lp) (held_of (effect_settles ticket resp lp))"
    using assms unfolding loop_ok_def by blast
  moreover have "waits_ok (effect_settles ticket resp lp) fm" if fr: "lp_frame (effect_settles ticket resp lp) = Some fm" for fm
  proof -
    obtain f where f: "lp_frame lp = Some f" "fm = fill_held ticket resp f" using fr by (auto simp: eq)
    then have w: "waits_ok lp f" using assms unfolding loop_ok_def by blast
    have "fm_phase fm = fm_phase f" "fm_held f = [] \<Longrightarrow> fm_held fm = []" by (simp_all add: f(2) fill_held_def)
    with w settled_fill_held [of f ticket resp] show ?thesis unfolding f(2) [symmetric] by (auto simp: waits_ok_def eq)
  qed
  ultimately show ?thesis unfolding loop_ok_def by blast
qed

text \<open>A step that only moves the frame to another phase.\<close>

lemma phase_ok:
  assumes "loop_ok lp" "lp_frame lp = Some fm" "held_settled fm"
    and "ph = AwaitingWake \<Longrightarrow> fm_held fm = [] \<and> lp_settled lp = []"
  shows "loop_ok (lp\<lparr>lp_frame := Some (fm\<lparr>fm_phase := ph\<rparr>), lp_host := chan\<rparr>)"
    and "loop_ok (lp\<lparr>lp_frame := Some (fm\<lparr>fm_phase := ph\<rparr>)\<rparr>)"
proof -
  have "tickets_ok lp (fm_held fm)" using assms(1,2) by (simp add: loop_ok_def held_of_def)
  moreover have "held_settled (fm\<lparr>fm_phase := ph\<rparr>)" using assms(3) by (simp add: held_settled_def)
  ultimately show "loop_ok (lp\<lparr>lp_frame := Some (fm\<lparr>fm_phase := ph\<rparr>), lp_host := chan\<rparr>)"
    "loop_ok (lp\<lparr>lp_frame := Some (fm\<lparr>fm_phase := ph\<rparr>)\<rparr>)"
    using assms(4) by (simp_all add: loop_ok_def held_of_def waits_ok_def tickets_ok_def tickets_def)
qed

lemma proceeds_ok: "loop_ok lp \<Longrightarrow> loop_ok (frame_proceeds lp)"
proof (cases "lp_frame lp")
  case (Some fm)
  assume ok: "loop_ok lp"
  show ?thesis
  proof (cases "fm_phase fm = Holding \<and> held_settled fm")
    case True
    note ph = phase_ok [OF ok Some]
    have host: "loop_ok (lp\<lparr>lp_frame := Some (fm\<lparr>fm_phase := p\<rparr>), lp_host := (if b then c else lp_host lp)\<rparr>)"
      if "p = AwaitingWake \<Longrightarrow> fm_held fm = [] \<and> lp_settled lp = []" for p b c
      using ph(1) [OF _ that] True by simp
    have "loop_ok (lp\<lparr>lp_frame := Some (fm\<lparr>fm_phase := Answering\<rparr>)\<rparr>)" "loop_ok (lp\<lparr>lp_frame := Some (fm\<lparr>fm_phase := AwaitingTurn\<rparr>)\<rparr>)"
      using ph(2) [of Answering] ph(2) [of AwaitingTurn] True by simp_all
    then show ?thesis using True Some host [of AwaitingWake] by (auto simp: frame_proceeds_def Let_def)
  qed (use ok Some in \<open>auto simp: frame_proceeds_def\<close>)
qed (simp add: frame_proceeds_def)

lemma waits_settled: "loop_ok lp \<Longrightarrow> lp_frame lp = Some fm \<Longrightarrow> fm_phase fm \<noteq> Holding \<Longrightarrow> held_settled fm"
  by (simp add: loop_ok_def waits_ok_def)

lemma same_frame: "lp_frame lp = Some fm \<Longrightarrow> lp\<lparr>lp_frame := Some fm\<rparr> = lp" "lp_frame lp = None \<Longrightarrow> lp\<lparr>lp_frame := None\<rparr> = lp"
  by (cases lp; simp)+

lemma turn_ok:
  assumes "loop_ok lp"
  shows "loop_ok (turn_passes lp)"
proof (cases "lp_frame lp")
  case (Some fm)
  then show ?thesis using phase_ok(2) [OF assms Some, of Answering] waits_settled [OF assms Some] assms
    by (auto simp: turn_passes_def same_frame)
qed (use assms in \<open>simp add: turn_passes_def same_frame\<close>)

lemma host_only: "loop_ok (lp\<lparr>lp_host := chan\<rparr>) = loop_ok lp"
  by (simp add: loop_ok_def held_of_def waits_ok_def tickets_ok_def tickets_def)

lemma host_changes_ok:
  assumes "loop_ok lp"
  shows "loop_ok (host_changes ch lp)"
proof -
  have "loop_ok (lp\<lparr>lp_frame := map_option wake_frame (lp_frame lp)\<rparr>)"
  proof (cases "lp_frame lp")
    case (Some fm)
    then show ?thesis using phase_ok(2) [OF assms Some, of Answering] waits_settled [OF assms Some] assms
      by (auto simp: wake_frame_def same_frame)
  qed (use assms in \<open>simp add: same_frame\<close>)
  then have "loop_ok (lp\<lparr>lp_frame := map_option wake_frame (lp_frame lp), lp_host := Some ch\<rparr>)" by (simp only: host_only)
  moreover have "loop_ok (lp\<lparr>lp_host := Some ch\<rparr>)" using assms by (simp only: host_only)
  moreover have "lp\<lparr>lp_host := Some ch, lp_frame := f\<rparr> = lp\<lparr>lp_frame := f, lp_host := Some ch\<rparr>" for f by simp
  moreover have "lp\<lparr>lp_host := Some ch, lp_frame := lp_frame lp\<rparr> = lp\<lparr>lp_host := Some ch\<rparr>" by simp
  ultimately show ?thesis by (simp only: host_changes_def Let_def split: if_split) simp
qed

lemma packed_split: "packedResponses len held settled = (answered, rest) \<Longrightarrow> \<exists>front. answered = held @ front \<and> settled = front @ rest"
  by (auto simp: packedResponses_def Let_def)

lemma answer_parts:
  assumes "frame_answer len lp = Some (lp', responses)"
  obtains fm held front rest where "lp_frame lp = Some fm" "fm_phase fm = Answering" "held = map (\<lambda>(i, req, r). (i, the r)) (fm_held fm)"
    "packedResponses (len \<circ> snd) held (lp_settled lp) = (held @ front, rest)" "lp_settled lp = front @ rest"
    "lp_pending lp' = lp_pending lp" "lp_settled lp' = rest" "lp_frame lp' = None" "lp_next lp' = lp_next lp"
    "lp_answers lp' = lp_answers lp @ held @ front"
    "\<exists>hosts. responses = map snd (held @ front) @ hosts \<and> length hosts = length (fm_hosts fm)"
proof -
  have hs: "finish_hosts reqs s = (s', hs) \<Longrightarrow> length hs = length reqs" for reqs s s' and hs :: "'a effect_response list"
    by (induction reqs s arbitrary: s' hs rule: finish_hosts.induct) (auto split: prod.splits option.splits)
  obtain fm where fm: "lp_frame lp = Some fm" "fm_phase fm = Answering"
    using assms by (auto simp: frame_answer_def split: option.splits if_splits)
  define held where "held = map (\<lambda>(i, req, r). (i, the r)) (fm_held fm)"
  obtain answered rest where pk: "packedResponses (len \<circ> snd) held (lp_settled lp) = (answered, rest)" by fastforce
  then obtain front where fr: "answered = held @ front" "lp_settled lp = front @ rest" using packed_split by blast
  obtain chan t and hosts :: "'a effect_response list" where fh: "finish_hosts (fm_hosts fm) (map_option (\<lambda>ch. onHostFrameReady ch False) (lp_host lp), lp_table lp) =
      ((chan, t), hosts)" by (metis surj_pair)
  have "lp' = lp\<lparr>lp_settled := rest, lp_frame := None, lp_host := chan, lp_table := t, lp_answers := lp_answers lp @ answered\<rparr>"
    "responses = map snd answered @ hosts"
    using assms fm pk fh by (simp_all add: frame_answer_def Let_def held_def)
  moreover have "\<exists>hs. map snd answered @ hosts = map snd (held @ front) @ hs \<and> length hs = length (fm_hosts fm)"
    using fr(1) hs [OF fh] by blast
  ultimately show thesis using pk fr by (intro that [OF fm held_def, of front rest]) simp_all
qed

lemma answer_ok:
  assumes "frame_answer len lp = Some (lp', responses)" "loop_ok lp"
  shows "loop_ok lp'"
proof -
  obtain fm held front rest where p: "lp_frame lp = Some fm" "held = map (\<lambda>(i, req, r). (i, the r)) (fm_held fm)"
    "lp_settled lp = front @ rest" "lp_pending lp' = lp_pending lp" "lp_settled lp' = rest" "lp_frame lp' = None"
    "lp_next lp' = lp_next lp" "lp_answers lp' = lp_answers lp @ held @ front"
    using answer_parts [OF assms(1)] by metis
  have "map fst held = map fst (fm_held fm)" unfolding p(2) by auto
  then have "tickets lp' [] i = tickets lp (fm_held fm) i" for i
    by (simp add: tickets_def p(3-5,8) del: map_map)
  moreover have "tickets_ok lp (fm_held fm)" using assms(2) p(1) by (simp add: loop_ok_def held_of_def)
  ultimately show ?thesis using p(6,7) by (simp add: loop_ok_def held_of_def tickets_ok_def)
qed

lemma loop_ok_step: "loop_step len lp lp' \<Longrightarrow> loop_ok lp \<Longrightarrow> loop_ok lp'"
  by (induction rule: loop_step.induct)
    (auto intro: frame_begin_ok effect_settles_ok proceeds_ok turn_ok host_changes_ok answer_ok)

lemma loop_ok_reachable: "loop_reachable len lp \<Longrightarrow> loop_ok lp"
proof (induction rule: loop_reachable.induct)
  case (starts chan)
  show ?case by (simp add: idle_loop_def loop_ok_def held_of_def tickets_ok_def tickets_def)
qed (rule loop_ok_step)

section \<open>The size of an answer\<close>

definition text_used :: "('r \<Rightarrow> nat) \<Rightarrow> 'r list \<Rightarrow> nat" where
  "text_used len rs = 64 + sum_list (map (\<lambda>r. len r + 1) rs)"

lemma used_held: "foldl (\<lambda>n r. n + (len :: 'r \<Rightarrow> nat) r + 1) k rs = k + sum_list (map (\<lambda>r. len r + 1) rs)"
  by (induction rs arbitrary: k) auto

lemma pack_taken_bound:
  "used + sum_list (map (\<lambda>r. len r + 1) (take (pack_taken len True used rs) rs)) \<le> max RESPONSE_TEXT_BUDGET used"
proof (induction rs arbitrary: used)
  case (Cons r rs)
  show ?case
  proof (cases "used + (len r + 1) > RESPONSE_TEXT_BUDGET")
    case False
    then have "pack_taken len True used (r # rs) = Suc (pack_taken len True (used + (len r + 1)) rs)" by simp
    then show ?thesis using Cons.IH [of "used + (len r + 1)"] False by simp
  qed simp
qed simp

lemma pack_taken_all: "pack_taken len False used rs = length rs"
  by (induction rs arbitrary: used) (auto simp: Let_def)

definition small_request :: effect_request where
  "small_request = \<lparr>er_id = IntV 1, er_kind = ''time'', er_lease = Undef, er_bodyLease = Undef, er_resultLease = Undef, er_spans = False,
     er_host = \<lparr>he_id = 0, he_op = [], he_spans = None, he_records = Undef, he_result = Undef, he_index = Undef, he_offset = Undef,
       he_transfer = Undef, he_total = Undef\<rparr>, er_inbox = []\<rparr>"

definition small_message :: frame_message where
  "small_message = \<lparr>ms_wake = Some ''any'', ms_kind = ''effects'', ms_requests = Some [small_request]\<rparr>"

definition begun_loop :: "nat loop" where
  "begun_loop = fst (frame_begin (\<lambda>_ _. None) (\<lambda>_. throw ''no JSON'') None DEFAULT_LIMITS small_message [] (idle_loop None))"

definition waiting_loop :: "nat loop" where
  "waiting_loop = frame_proceeds begun_loop"

lemma waiting_loop_reachable: "loop_reachable len waiting_loop"
proof -
  have "frame_begin (\<lambda>_ _. None) (\<lambda>_. throw ''no JSON'') None DEFAULT_LIMITS small_message [] (idle_loop None :: nat loop) = (begun_loop, Inr ())"
    by (simp add: begun_loop_def frame_begin_def small_message_def wake_of_def DEFAULT_LIMITS_def Let_def small_request_def isHostFrame_def
        boundToFrame_def idle_loop_def)
  then have "loop_reachable len begun_loop" by (rule steps [OF starts begins, rotated]) (simp add: idle_loop_def)
  then show ?thesis unfolding waiting_loop_def by (rule steps [OF _ proceeds])
qed

lemma waiting_loop_view:
  "waiting_loop = \<lparr>lp_next = 1, lp_pending = [(0, small_request)], lp_settled = [],
     lp_frame = Some \<lparr>fm_wake = WakeAny, fm_poll = False, fm_held = [], fm_hosts = [], fm_phase = AwaitingWake\<rparr>,
     lp_host = None, lp_table = [], lp_answers = []\<rparr>"
  by (simp add: waiting_loop_def begun_loop_def frame_begin_def small_message_def wake_of_def DEFAULT_LIMITS_def Let_def small_request_def
      isHostFrame_def boundToFrame_def idle_loop_def frame_proceeds_def held_settled_def)

section \<open>Properties\<close>

text \<open>C3. Every request is answered exactly once: at any time a request the loop has accepted is in exactly one place, pending,
  settled and waiting for a frame, held by the current frame, or answered, and nothing else is in any of them.\<close>

theorem requests_answered_once:
  assumes "loop_reachable len lp"
  shows "count_list (map fst (lp_pending lp) @ map fst (lp_settled lp) @ map fst (held_of lp) @ map fst (lp_answers lp)) i =
    (if i < lp_next lp then 1 else 0)"
proof -
  have "tickets lp (held_of lp) i = (if i < lp_next lp then 1 else 0)"
    using loop_ok_reachable [OF assms] unfolding loop_ok_def tickets_ok_def by blast
  then show ?thesis by (simp add: tickets_def)
qed

theorem requests_answered_once_witness:
  "count_list (map fst (lp_pending waiting_loop) @ map fst (lp_settled waiting_loop) @ map fst (held_of waiting_loop) @
     map fst (lp_answers waiting_loop)) 0 = 1"
  using requests_answered_once [OF waiting_loop_reachable, of 0] by (simp add: waiting_loop_view)

text \<open>C4. No wake-up is lost: a frame that waits for something to settle holds nothing and leaves nothing settled unanswered, and
  as soon as any pending request settles the frame is answered with its response.\<close>

theorem no_lost_wakeup:
  assumes "loop_reachable len lp" "lp_frame lp = Some fm" "fm_phase fm = AwaitingWake" "mhas (lp_pending lp) ticket"
  shows "lp_settled lp = [] \<and> fm_held fm = [] \<and>
    (\<exists>lp' responses. frame_answer len (effect_settles ticket resp lp) = Some (lp', responses) \<and> resp \<in> set responses)"
proof -
  have w: "lp_settled lp = []" "fm_held fm = []"
    using loop_ok_reachable [OF assms(1)] assms(2,3) by (simp_all add: loop_ok_def waits_ok_def)
  let ?lp = "effect_settles ticket resp lp" and ?fm = "fm\<lparr>fm_phase := Answering\<rparr>"
  have s: "lp_settled ?lp = [(ticket, resp)]" "lp_frame ?lp = Some ?fm"
    using assms(2-4) w by (simp_all add: effect_settles_def wake_frame_def)
  obtain chan t and hosts :: "'a effect_response list" where
    "finish_hosts (fm_hosts fm) (map_option (\<lambda>ch. onHostFrameReady ch False) (lp_host ?lp), lp_table ?lp) = ((chan, t), hosts)"
    by (metis surj_pair)
  then have "\<exists>lp'. frame_answer len ?lp = Some (lp', map snd [(ticket, resp)] @ hosts)"
    using s w(2) by (simp add: frame_answer_def packedResponses_def pack_taken_all)
  then show ?thesis using w by auto
qed

theorem no_lost_wakeup_witness:
  "\<exists>lp' responses. frame_answer (\<lambda>_. 0) (effect_settles 0 \<lparr>rp_id = IntV 1, rp_body = Inr (Value 7)\<rparr> waiting_loop) = Some (lp', responses) \<and>
     \<lparr>rp_id = IntV 1, rp_body = Inr (Value 7)\<rparr> \<in> set responses"
  using no_lost_wakeup [OF waiting_loop_reachable [of "\<lambda>_. 0"], of _ 0 "\<lparr>rp_id = IntV 1, rp_body = Inr (Value 7)\<rparr>"]
  by (simp add: waiting_loop_view mhas_def mget_def)

text \<open>What fits an answer: an answer starts with the responses its frame holds and goes on with the settled ones in order; when the
  frame holds any, the text stays within the budget or within what the held ones need. When it holds none the budget
  is not looked at: everything settled goes at once, however long it is.\<close>

theorem packed_responses_budget:
  "\<exists>front rest. packedResponses len held settled = (held @ front, rest) \<and> settled = front @ rest \<and>
    (if held = [] then rest = []
     else text_used len (held @ front) \<le> max RESPONSE_TEXT_BUDGET (text_used len held))"
proof (cases "held = []")
  case True
  then show ?thesis by (simp add: packedResponses_def pack_taken_all)
next
  case False
  define used where "used = foldl (\<lambda>n r. n + len r + 1) 64 held"
  have u: "used = text_used len held" unfolding used_def text_used_def by (rule used_held)
  let ?front = "take (pack_taken len True used settled) settled"
  have "packedResponses len held settled = (held @ ?front, drop (pack_taken len True used settled) settled)"
    using False by (simp add: packedResponses_def Let_def used_def)
  moreover have "text_used len (held @ ?front) = used + sum_list (map (\<lambda>r. len r + 1) ?front)" by (simp add: u text_used_def)
  ultimately show ?thesis using False pack_taken_bound [of used len settled] u 
    by (intro exI [of _ ?front] exI [of _ "drop (pack_taken len True used settled) settled"]) auto
qed

end
