(* ===== verification/Audio.thy ===== *)
theory Audio
  imports Prelude
begin

text \<open>
  The audio stream of a packaged application: the page's half, \<^verbatim>\<open>src/runtime/wasm/audio.mjs\<close>,
  which checks and copies the bytes the application sends, and the worklet's half,
  \<^verbatim>\<open>src/runtime/wasm/audio-worklet.mjs\<close>, which plays them from a queue of chunks. The worklet is shown
  to refine a queue of whole frames.
\<close>

section \<open>Groups of a list\<close>

text \<open>The complete groups of \<open>n\<close> elements of a list, in order.\<close>

function groups :: "nat \<Rightarrow> 'a list \<Rightarrow> 'a list list" where
  "groups n xs = (if n = 0 \<or> length xs < n then [] else take n xs # groups n (drop n xs))"
  by auto
termination by (relation "measure (length \<circ> snd)") auto

declare groups.simps [simp del]

lemma groups_short [simp]: "length xs < n \<Longrightarrow> groups n xs = []"
  by (subst groups.simps) simp

lemma groups_step: "0 < n \<Longrightarrow> n \<le> length xs \<Longrightarrow> groups n xs = take n xs # groups n (drop n xs)"
  by (subst groups.simps) simp

lemma groups_append: "0 < n \<Longrightarrow> n dvd length xs \<Longrightarrow> groups n (xs @ ys) = groups n xs @ groups n ys"
proof (induction n xs rule: groups.induct)
  case (1 n xs)
  show ?case
  proof (cases "length xs < n")
    case True
    then have "length xs = 0" using "1.prems" nat_dvd_not_less by blast
    then show ?thesis using "1.prems" by (simp add: groups_short)
  next
    case False
    then have "n dvd length (drop n xs)" using "1.prems" by (simp add: dvd_minus_self)
    then have "groups n (drop n xs @ ys) = groups n (drop n xs) @ groups n ys"
      using "1.IH" False "1.prems" by simp
    then show ?thesis using False "1.prems" by (simp add: groups_step [of n "xs @ ys"] groups_step [of n xs])
  qed
qed

lemma length_groups: "0 < n \<Longrightarrow> length (groups n xs) = length xs div n"
proof (induction n xs rule: groups.induct)
  case (1 n xs)
  then show ?case by (cases "length xs < n") (simp_all add: groups_step le_div_geq)
qed

lemma groups_length: "g \<in> set (groups n xs) \<Longrightarrow> length g = n"
proof (induction n xs rule: groups.induct)
  case (1 n xs)
  then show ?case by (subst (asm) groups.simps) (auto split: if_splits)
qed

section \<open>The worklet\<close>

text \<open>
  A sample of the stream is the four bytes of its float. What the worklet writes to an
  output is a sample, the zero it fills with, or what reading past the end of a chunk
  gives (\<^verbatim>\<open>undefined\<close>, stored as a NaN).
\<close>

type_synonym sample = "byte list"

datatype output_sample = Sample sample | Silence | Undefined

record processor =
  ap_channels :: nat
  ap_bufferAhead :: nat
  ap_chunks :: "sample list list"
  ap_offset :: nat
  ap_queued :: int
  ap_playing :: bool
  ap_underruns :: nat
  ap_played :: nat

definition new_processor :: "nat \<Rightarrow> nat \<Rightarrow> processor" where
  "new_processor channels ahead = \<lparr>ap_channels = channels, ap_bufferAhead = ahead, ap_chunks = [], ap_offset = 0, ap_queued = 0,
     ap_playing = False, ap_underruns = 0, ap_played = 0\<rparr>"

record audio_stats =
  as_underruns :: nat
  as_queuedFrames :: int
  as_playedFrames :: nat

definition worklet_stats :: "processor \<Rightarrow> audio_stats" where
  "worklet_stats p = \<lparr>as_underruns = ap_underruns p, as_queuedFrames = ap_queued p, as_playedFrames = ap_played p\<rparr>"

text \<open>A chunk arrives; the page only sends whole frames, so that the quotient is exact.\<close>

definition enqueue :: "sample list \<Rightarrow> processor \<Rightarrow> processor" where
  "enqueue samples p = p\<lparr>ap_chunks := ap_chunks p @ [samples],
     ap_queued := ap_queued p + int (length samples div ap_channels p)\<rparr>"

definition chunk_at :: "sample list \<Rightarrow> nat \<Rightarrow> output_sample" where
  "chunk_at chunk i = (if i < length chunk then Sample (chunk ! i) else Undefined)"

text \<open>The frame played on \<open>m\<close> output channels: the last channel of the stream serves the outputs beyond it.\<close>

definition output_frame :: "nat \<Rightarrow> processor \<Rightarrow> sample list \<Rightarrow> output_sample list" where
  "output_frame m p chunk = map (\<lambda>c. chunk_at chunk (ap_offset p + min c (ap_channels p - 1))) [0..<m]"

definition advance :: "processor \<Rightarrow> sample list \<Rightarrow> sample list list \<Rightarrow> processor" where
  "advance p chunk rest =
    (let p1 = p\<lparr>ap_offset := ap_offset p + ap_channels p, ap_queued := ap_queued p - 1, ap_played := ap_played p + 1\<rparr> in
     if ap_offset p1 \<ge> length chunk then p1\<lparr>ap_chunks := rest, ap_offset := 0\<rparr> else p1)"

fun play :: "nat \<Rightarrow> nat \<Rightarrow> processor \<Rightarrow> processor \<times> output_sample list list" where
  "play 0 m p = (p, [])"
| "play (Suc k) m p =
    (case ap_chunks p of
       [] \<Rightarrow> (p\<lparr>ap_underruns := ap_underruns p + 1, ap_playing := False\<rparr>, replicate (Suc k) (replicate m Silence))
     | chunk # rest \<Rightarrow> (let (p', out) = play k m (advance p chunk rest) in (p', output_frame m p chunk # out)))"

text \<open>One quantum of \<open>n\<close> frames on \<open>m\<close> channels; an output left unwritten is silent.\<close>

definition process :: "nat \<Rightarrow> nat \<Rightarrow> processor \<Rightarrow> processor \<times> output_sample list list" where
  "process n m p =
    (if \<not> ap_playing p \<and> ap_queued p < int (ap_bufferAhead p) then (p, replicate n (replicate m Silence))
     else play n m (p\<lparr>ap_playing := True\<rparr>))"

section \<open>The page\<close>

text \<open>
  The checks of \<^verbatim>\<open>audioStream\<close>. \<open>kind\<close> is \<open>None\<close> unless it is a string; \<open>ms\<close> is the buffer-ahead,
  \<open>Some None\<close> when it is not a number, and \<open>frames_ahead\<close> what it rounds to in frames
  of the context's rate.
\<close>

definition audioStream :: "jstr option \<Rightarrow> jnum \<Rightarrow> int option option \<Rightarrow> (int \<Rightarrow> nat) \<Rightarrow> processor result" where
  "audioStream kind channels ms frames_ahead =
    (let channels' = (if channels = Undef then IntV 2 else channels);
         ms' = (case ms of None \<Rightarrow> Some 50 | Some x \<Rightarrow> x) in
     if kind = None then throw ''an audio stream needs the kind the application sends on''
     else if \<not> isInteger channels' \<or> the_int channels' < 1 \<or> the_int channels' > 8 then throw ''audio channels must be 1 to 8''
     else case ms' of
       None \<Rightarrow> throw ''bufferAheadMs must be positive''
     | Some x \<Rightarrow> if x > 0 then Inr (new_processor (nat (the_int channels')) (frames_ahead x))
         else throw ''bufferAheadMs must be positive'')"

text \<open>The handler of the stream: the samples it hands to the worklet. \<open>bytes\<close> is \<open>None\<close> unless it is a byte array.\<close>

definition audio_handler :: "jstr \<Rightarrow> nat \<Rightarrow> byte list option \<Rightarrow> sample list result" where
  "audio_handler kind channels bytes =
    (case bytes of
       None \<Rightarrow> Inl (Error (js ''audio stream '' @ kind @ js '' sends whole frames of '' @ decimal channels @ js '' float samples''))
     | Some bs \<Rightarrow> if length bs mod (4 * channels) \<noteq> 0
         then Inl (Error (js ''audio stream '' @ kind @ js '' sends whole frames of '' @ decimal channels @ js '' float samples''))
         else Inr (groups 4 bs))"

text \<open>The page and the worklet together: a message of the application, a quantum, a question.\<close>

datatype audio_op = Send "byte list option" | Quantum nat nat | AskStats

datatype audio_result = Sent "unit result" | Played "output_sample list list" | Stats audio_stats

fun audio_step :: "jstr \<Rightarrow> audio_op \<Rightarrow> processor \<Rightarrow> processor \<times> audio_result" where
  "audio_step kind (Send bytes) p =
    (case audio_handler kind (ap_channels p) bytes of
       Inl e \<Rightarrow> (p, Sent (Inl e))
     | Inr samples \<Rightarrow> (enqueue samples p, Sent (Inr ())))"
| "audio_step kind (Quantum n m) p = (let (p', out) = process n m p in (p', Played out))"
| "audio_step kind AskStats p = (p, Stats (worklet_stats p))"

section \<open>The abstract stream\<close>

text \<open>What the stream promises: a queue of whole frames, played in order, each once.\<close>

record frame_queue =
  fq_channels :: nat
  fq_bufferAhead :: nat
  fq_frames :: "sample list list"
  fq_playing :: bool
  fq_underruns :: nat
  fq_played :: nat

definition fan :: "nat \<Rightarrow> nat \<Rightarrow> sample list \<Rightarrow> output_sample list" where
  "fan m channels fr = map (\<lambda>c. Sample (fr ! min c (channels - 1))) [0..<m]"

definition play_queue :: "nat \<Rightarrow> nat \<Rightarrow> frame_queue \<Rightarrow> frame_queue \<times> output_sample list list" where
  "play_queue n m q =
    (let k = min n (length (fq_frames q)) in
     (q\<lparr>fq_frames := drop n (fq_frames q), fq_played := fq_played q + k,
        fq_underruns := fq_underruns q + (if k < n then 1 else 0), fq_playing := (fq_playing q \<and> k = n)\<rparr>,
      map (fan m (fq_channels q)) (take n (fq_frames q)) @ replicate (n - k) (replicate m Silence)))"

fun queue_step :: "jstr \<Rightarrow> audio_op \<Rightarrow> frame_queue \<Rightarrow> frame_queue \<times> audio_result" where
  "queue_step kind (Send bytes) q =
    (case audio_handler kind (fq_channels q) bytes of
       Inl e \<Rightarrow> (q, Sent (Inl e))
     | Inr samples \<Rightarrow> (q\<lparr>fq_frames := fq_frames q @ groups (fq_channels q) samples\<rparr>, Sent (Inr ())))"
| "queue_step kind (Quantum n m) q =
    (if \<not> fq_playing q \<and> length (fq_frames q) < fq_bufferAhead q then (q, Played (replicate n (replicate m Silence)))
     else let (q', out) = play_queue n m (q\<lparr>fq_playing := True\<rparr>) in (q', Played out))"
| "queue_step kind AskStats q = (q, Stats \<lparr>as_underruns = fq_underruns q, as_queuedFrames = int (length (fq_frames q)),
     as_playedFrames = fq_played q\<rparr>)"

definition new_queue :: "nat \<Rightarrow> nat \<Rightarrow> frame_queue" where
  "new_queue channels ahead = \<lparr>fq_channels = channels, fq_bufferAhead = ahead, fq_frames = [], fq_playing = False, fq_underruns = 0,
     fq_played = 0\<rparr>"

section \<open>Simulation\<close>

text \<open>A concrete machine that simulates an abstract one step by step gives the same results on every run.\<close>

fun run_steps :: "('op \<Rightarrow> 's \<Rightarrow> 's \<times> 'r) \<Rightarrow> 'op list \<Rightarrow> 's \<Rightarrow> 's \<times> 'r list" where
  "run_steps f [] s = (s, [])"
| "run_steps f (c # cs) s = (let (s1, r) = f c s; (s2, rs) = run_steps f cs s1 in (s2, r # rs))"

locale simulation =
  fixes cstep :: "'op \<Rightarrow> 'c \<Rightarrow> 'c \<times> 'r"
    and astep :: "'op \<Rightarrow> 'a \<Rightarrow> 'a \<times> 'r"
    and abstraction :: "'c \<Rightarrow> 'a"
    and inv :: "'c \<Rightarrow> bool"
    and allowed :: "'op \<Rightarrow> bool"
  assumes step_inv: "inv s \<Longrightarrow> allowed c \<Longrightarrow> inv (fst (cstep c s))"
    and step_sim: "inv s \<Longrightarrow> allowed c \<Longrightarrow> astep c (abstraction s) = (abstraction (fst (cstep c s)), snd (cstep c s))"
begin

lemma run_inv: "inv s \<Longrightarrow> (\<forall>c\<in>set cs. allowed c) \<Longrightarrow> inv (fst (run_steps cstep cs s))"
  by (induction cs arbitrary: s) (auto simp: split_beta Let_def step_inv)

lemma run_sim:
  "inv s \<Longrightarrow> (\<forall>c\<in>set cs. allowed c) \<Longrightarrow>
   run_steps astep cs (abstraction s) = (abstraction (fst (run_steps cstep cs s)), snd (run_steps cstep cs s))"
  by (induction cs arbitrary: s) (auto simp: split_beta Let_def step_inv step_sim)

end

section \<open>The worklet refines the queue\<close>

definition stream_frames :: "processor \<Rightarrow> sample list list" where
  "stream_frames p = groups (ap_channels p) (drop (ap_offset p) (concat (ap_chunks p)))"

definition frames_of :: "processor \<Rightarrow> frame_queue" where
  "frames_of p = \<lparr>fq_channels = ap_channels p, fq_bufferAhead = ap_bufferAhead p, fq_frames = stream_frames p,
     fq_playing = ap_playing p, fq_underruns = ap_underruns p, fq_played = ap_played p\<rparr>"

definition audio_ok :: "processor \<Rightarrow> bool" where
  "audio_ok p \<longleftrightarrow> 0 < ap_channels p \<and> (\<forall>ch\<in>set (ap_chunks p). ch \<noteq> [] \<and> ap_channels p dvd length ch) \<and>
     ap_channels p dvd ap_offset p \<and>
     (case ap_chunks p of [] \<Rightarrow> ap_offset p = 0 | ch # _ \<Rightarrow> ap_offset p < length ch) \<and>
     ap_queued p = int (length (stream_frames p))"

lemma dvd_next:
  assumes "(c :: nat) dvd a" "c dvd b" "a < b"
  shows "a + c \<le> b"
proof -
  have "c dvd b - a" using assms by (simp add: dvd_diff_nat)
  then have "c \<le> b - a" using assms(3) by (simp add: dvd_imp_le)
  then show ?thesis using assms(3) by simp
qed

lemma advance_fields [simp]:
  "ap_channels (advance p ch rest) = ap_channels p" "ap_bufferAhead (advance p ch rest) = ap_bufferAhead p"
  "ap_playing (advance p ch rest) = ap_playing p" "ap_underruns (advance p ch rest) = ap_underruns p"
  "ap_played (advance p ch rest) = ap_played p + 1" "ap_queued (advance p ch rest) = ap_queued p - 1"
  by (simp_all add: advance_def Let_def)

lemma head_room:
  assumes "audio_ok p" "ap_chunks p = ch # rest"
  shows "ap_offset p + ap_channels p \<le> length ch"
  using dvd_next [of "ap_channels p" "ap_offset p" "length ch"] assms by (auto simp: audio_ok_def)

lemma advance_frames:
  assumes ok: "audio_ok p" and ch: "ap_chunks p = ch # rest"
  shows "stream_frames p = take (ap_channels p) (drop (ap_offset p) ch) # stream_frames (advance p ch rest)"
proof -
  have c: "0 < ap_channels p" using ok by (simp add: audio_ok_def)
  note room = head_room [OF ok ch]
  have "groups (ap_channels p) (drop (ap_offset p) ch @ concat rest) =
      take (ap_channels p) (drop (ap_offset p) ch) # groups (ap_channels p) (drop (ap_channels p + ap_offset p) ch @ concat rest)"
    using c room by (subst groups_step) (simp_all add: add.commute)
  moreover have "stream_frames (advance p ch rest) = groups (ap_channels p) (drop (ap_channels p + ap_offset p) ch @ concat rest)"
    using room ch by (auto simp: stream_frames_def advance_def Let_def add.commute)
  ultimately show ?thesis using room ch by (simp add: stream_frames_def)
qed

lemma advance_ok:
  assumes ok: "audio_ok p" and ch: "ap_chunks p = ch # rest"
  shows "audio_ok (advance p ch rest)"
proof -
  have q: "ap_queued p - 1 = int (length (stream_frames (advance p ch rest)))"
    using ok advance_frames [OF ok ch] by (simp add: audio_ok_def)
  have all: "0 < ap_channels p" "ap_channels p dvd ap_offset p" "\<forall>x\<in>set rest. x \<noteq> [] \<and> ap_channels p dvd length x"
    "ch \<noteq> [] \<and> ap_channels p dvd length ch" using ok ch by (auto simp: audio_ok_def)
  show ?thesis
  proof (cases "ap_offset p + ap_channels p \<ge> length ch")
    case True
    then have "ap_chunks (advance p ch rest) = rest" "ap_offset (advance p ch rest) = 0" by (simp_all add: advance_def)
    with all q show ?thesis unfolding audio_ok_def by (auto split: list.splits)
  next
    case False
    then have "ap_chunks (advance p ch rest) = ch # rest" "ap_offset (advance p ch rest) = ap_offset p + ap_channels p"
      using ch by (simp_all add: advance_def)
    with all q False show ?thesis unfolding audio_ok_def by auto
  qed
qed

lemma output_fan:
  assumes ok: "audio_ok p" and ch: "ap_chunks p = ch # rest"
  shows "output_frame m p ch = fan m (ap_channels p) (take (ap_channels p) (drop (ap_offset p) ch))"
proof -
  note room = head_room [OF ok ch]
  have "chunk_at ch (ap_offset p + min c (ap_channels p - 1)) =
      Sample (take (ap_channels p) (drop (ap_offset p) ch) ! min c (ap_channels p - 1))" for c
  proof -
    have "min c (ap_channels p - 1) < ap_channels p" using ok by (auto simp: audio_ok_def min_def)
    then show ?thesis using room by (simp add: chunk_at_def)
  qed
  then show ?thesis by (simp add: output_frame_def fan_def)
qed

lemma play_refines:
  assumes "audio_ok p"
  shows "audio_ok (fst (play n m p)) \<and> play_queue n m (frames_of p) = (frames_of (fst (play n m p)), snd (play n m p))"
  using assms
proof (induction n arbitrary: p)
  case 0
  then show ?case by (simp add: play_queue_def frames_of_def)
next
  case (Suc k)
  show ?case
  proof (cases "ap_chunks p")
    case Nil
    then have "stream_frames p = []" "audio_ok (p\<lparr>ap_underruns := ap_underruns p + 1, ap_playing := False\<rparr>)"
      using Suc.prems by (auto simp: stream_frames_def audio_ok_def)
    then show ?thesis using Nil
      by (simp add: play_queue_def frames_of_def stream_frames_def)
  next
    case (Cons ch rest)
    let ?p = "advance p ch rest"
    have ok: "audio_ok ?p" by (rule advance_ok [OF Suc.prems Cons])
    note fr = advance_frames [OF Suc.prems Cons]
    have "play_queue (Suc k) m (frames_of p) =
        (fst (play_queue k m (frames_of ?p)), output_frame m p ch # snd (play_queue k m (frames_of ?p)))"
      by (simp add: play_queue_def Let_def frames_of_def fr output_fan [OF Suc.prems Cons])
    then show ?thesis using Suc.IH [OF ok] Cons by (simp add: split_beta Let_def)
  qed
qed

lemma process_refines:
  assumes "audio_ok p"
  shows "audio_ok (fst (process n m p)) \<and>
    queue_step kind (Quantum n m) (frames_of p) = (frames_of (fst (process n m p)), Played (snd (process n m p)))"
proof (cases "\<not> ap_playing p \<and> ap_queued p < int (ap_bufferAhead p)")
  case True
  then show ?thesis using assms by (simp add: process_def frames_of_def audio_ok_def)
next
  case False
  have ok: "audio_ok (p\<lparr>ap_playing := True\<rparr>)" using assms by (simp add: audio_ok_def stream_frames_def split: list.splits)
  have "(frames_of p)\<lparr>fq_playing := True\<rparr> = frames_of (p\<lparr>ap_playing := True\<rparr>)" by (simp add: frames_of_def stream_frames_def)
  moreover have "\<not> (\<not> fq_playing (frames_of p) \<and> length (fq_frames (frames_of p)) < fq_bufferAhead (frames_of p))"
    using False assms by (auto simp: frames_of_def audio_ok_def)
  ultimately have "queue_step kind (Quantum n m) (frames_of p) =
      (let (q', out) = play_queue n m (frames_of (p\<lparr>ap_playing := True\<rparr>)) in (q', Played out))"
    by auto
  moreover have "process n m p = play n m (p\<lparr>ap_playing := True\<rparr>)" using False by (auto simp: process_def)
  ultimately show ?thesis using play_refines [OF ok, of n m] by simp
qed

lemma handler_frames:
  assumes "audio_handler kind c (Some bs) = Inr samples" "bs \<noteq> []" "0 < c"
  shows "samples \<noteq> [] \<and> c dvd length samples"
proof -
  have s: "samples = groups 4 bs" "4 * c dvd length bs" using assms by (auto simp: audio_handler_def split: if_splits)
  then have "c dvd length samples" by (auto simp: length_groups)
  moreover have "4 \<le> length bs" using s(2) assms(2) dvd_imp_le [of "4 * c" "length bs"] assms(3) by auto
  ultimately show ?thesis using s(1) by (simp add: groups_step)
qed

lemma dvd_concat: "\<forall>ch\<in>set chs. (c :: nat) dvd length ch \<Longrightarrow> c dvd length (concat chs)"
  by (induction chs) auto

lemma enqueue_refines:
  assumes ok: "audio_ok p" and s: "samples \<noteq> []" "ap_channels p dvd length samples"
  shows "audio_ok (enqueue samples p) \<and> stream_frames (enqueue samples p) = stream_frames p @ groups (ap_channels p) samples"
proof -
  let ?c = "ap_channels p"
  have c: "0 < ?c" "?c dvd ap_offset p" and all: "\<forall>ch\<in>set (ap_chunks p). ?c dvd length ch" using ok by (auto simp: audio_ok_def)
  have off: "ap_offset p \<le> length (concat (ap_chunks p))" using ok by (cases "ap_chunks p") (auto simp: audio_ok_def)
  have "?c dvd length (concat (ap_chunks p))" using all by (rule dvd_concat)
  then have "?c dvd length (drop (ap_offset p) (concat (ap_chunks p)))" using c by (simp add: dvd_diff_nat)
  then have fr: "stream_frames (enqueue samples p) = stream_frames p @ groups ?c samples"
    using off c(1) by (simp add: stream_frames_def enqueue_def groups_append)
  moreover have "audio_ok (enqueue samples p)"
    using ok s c(1) fr unfolding audio_ok_def by (auto simp: enqueue_def length_groups split: list.splits)
  ultimately show ?thesis by simp
qed

text \<open>A message the refinement covers: anything but an empty byte array.\<close>

definition heard :: "audio_op \<Rightarrow> bool" where
  "heard c \<longleftrightarrow> c \<noteq> Send (Some [])"

lemma step_refines:
  assumes ok: "audio_ok p" and h: "heard c"
  shows "audio_ok (fst (audio_step kind c p)) \<and>
    queue_step kind c (frames_of p) = (frames_of (fst (audio_step kind c p)), snd (audio_step kind c p))"
proof (cases c)
  case (Send bytes)
  show ?thesis
  proof (cases "audio_handler kind (ap_channels p) bytes")
    case (Inl e)
    then show ?thesis using Send ok by (simp add: frames_of_def)
  next
    case (Inr samples)
    then obtain bs where bs: "bytes = Some bs" by (auto simp: audio_handler_def split: option.splits)
    then have "samples \<noteq> [] \<and> ap_channels p dvd length samples"
      using handler_frames [of kind "ap_channels p" bs samples] Inr h Send ok by (auto simp: heard_def audio_ok_def)
    then have "audio_ok (enqueue samples p)" "stream_frames (enqueue samples p) = stream_frames p @ groups (ap_channels p) samples"
      using enqueue_refines [OF ok] by blast+
    then show ?thesis using Send Inr by (simp add: frames_of_def) (simp add: enqueue_def)
  qed
next
  case (Quantum n m)
  then show ?thesis using process_refines [OF ok, of n m kind] by (simp add: split_beta Let_def)
next
  case AskStats
  then show ?thesis using ok by (simp add: worklet_stats_def frames_of_def audio_ok_def)
qed

interpretation au: simulation "audio_step kind" "queue_step kind" frames_of audio_ok heard for kind
  using step_refines by unfold_locales (blast, metis)

lemma new_processor_ok: "0 < channels \<Longrightarrow> audio_ok (new_processor channels ahead)"
  by (simp add: audio_ok_def new_processor_def stream_frames_def)

lemma new_processor_frames: "frames_of (new_processor channels ahead) = new_queue channels ahead"
  by (cases "channels = 0") (simp_all add: frames_of_def new_processor_def new_queue_def stream_frames_def groups.simps [of 0])

lemma audioStream_processor:
  assumes "audioStream kind channels ms frames_ahead = Inr p"
  obtains c ahead where "p = new_processor c ahead" "0 < c" "c \<le> 8"
proof -
  obtain x where "p = new_processor (nat (the_int (if channels = Undef then IntV 2 else channels))) (frames_ahead x)"
    "1 \<le> the_int (if channels = Undef then IntV 2 else channels)" "the_int (if channels = Undef then IntV 2 else channels) \<le> 8"
    using assms unfolding audioStream_def Let_def
    by (auto split: if_splits option.splits)
  then show thesis using that by auto
qed

section \<open>Properties\<close>

text \<open>C11. A stream that opened, with one to eight channels, plays what a queue of whole frames plays,
  whatever the application sends and however its bytes are cut into messages, as long as no
  message is empty: every frame once, in order, after the buffer-ahead has filled, with
  the same counts of underruns, queued and played frames.
\<close>

theorem audio_refines_frame_queue:
  assumes "audioStream kind channels ms frames_ahead = Inr p" "\<forall>c\<in>set ops. heard c"
  shows "ap_channels p \<in> {1..8} \<and>
    run_steps (queue_step k) ops (new_queue (ap_channels p) (ap_bufferAhead p)) =
      (frames_of (fst (run_steps (audio_step k) ops p)), snd (run_steps (audio_step k) ops p))"
proof -
  obtain c ahead where p: "p = new_processor c ahead" "0 < c" "c \<le> 8" using audioStream_processor [OF assms(1)] .
  then have f: "ap_channels p = c" "ap_bufferAhead p = ahead" by (simp_all add: new_processor_def)
  have "audio_ok p" using p by (simp add: new_processor_ok)
  from au.run_sim [OF this assms(2), of k] show ?thesis using p f by (simp add: new_processor_frames)
qed

definition two_messages :: "audio_op list" where
  "two_messages = [Send (Some [1, 2, 3, 4]), Send (Some [5, 6, 7, 8, 9, 10, 11, 12]), Quantum 2 1, Quantum 2 1, AskStats]"

theorem audio_refines_frame_queue_witness:
  "snd (run_steps (audio_step []) two_messages (new_processor 1 3)) =
     [Sent (Inr ()), Sent (Inr ()), Played [[Sample [1, 2, 3, 4]], [Sample [5, 6, 7, 8]]],
      Played [[Sample [9, 10, 11, 12]], [Silence]], Stats \<lparr>as_underruns = 1, as_queuedFrames = 0, as_playedFrames = 3\<rparr>]"
proof -
  have o: "audioStream (Some []) (IntV 1) None (\<lambda>_. 3) = Inr (new_processor 1 3)" by (simp add: audioStream_def)
  have h: "\<forall>c\<in>set two_messages. heard c" by (simp add: two_messages_def heard_def)
  have "snd (run_steps (queue_step []) two_messages (new_queue 1 3)) =
     [Sent (Inr ()), Sent (Inr ()), Played [[Sample [1, 2, 3, 4]], [Sample [5, 6, 7, 8]]],
      Played [[Sample [9, 10, 11, 12]], [Silence]], Stats \<lparr>as_underruns = 1, as_queuedFrames = 0, as_playedFrames = 3\<rparr>]"
    by code_simp
  then show ?thesis using audio_refines_frame_queue [OF o h, of "[]"] by (simp add: new_processor_def)
qed

text \<open>An empty byte array passes the page's check, and the worklet then plays for it a frame of undefined
  samples the application never sent and counts one frame less than the queue holds.
\<close>

theorem empty_message_plays_undefined:
  assumes "ap_chunks p = []" "ap_offset p = 0" "ap_playing p"
  shows "audio_step kind (Send (Some [])) p = (enqueue [] p, Sent (Inr ())) \<and>
    snd (process 1 m (enqueue [] p)) = [replicate m Undefined] \<and>
    ap_chunks (fst (process 1 m (enqueue [] p))) = [] \<and> ap_queued (fst (process 1 m (enqueue [] p))) = ap_queued p - 1"
  using assms by (auto simp: audio_handler_def process_def enqueue_def output_frame_def chunk_at_def advance_def map_replicate_const)

theorem empty_message_plays_undefined_witness:
  "ap_queued (fst (process 1 1 (enqueue [] ((new_processor 1 0)\<lparr>ap_playing := True\<rparr>)))) = -1"
  using empty_message_plays_undefined [of "(new_processor 1 0)\<lparr>ap_playing := True\<rparr>" "[]" 1] by (simp add: new_processor_def)

end
