(* ===== verification/Text.thy ===== *)
theory Text
  imports Prelude "HOL-Library.Sublist"
begin

text \<open>
  The string methods of JavaScript that the editor extension, the playground and the tools
  use: splitting and joining, white space, and searching. \<^verbatim>\<open>startsWith\<close>, \<^verbatim>\<open>endsWith\<close> and
  \<^verbatim>\<open>includes\<close> are the library's \<^const>\<open>prefix\<close>, \<^const>\<open>suffix\<close> and \<^const>\<open>sublist\<close>.
\<close>

section \<open>Splitting and joining\<close>

text \<open>\<^verbatim>\<open>s.split(c)\<close> for a separator of one code unit.\<close>

fun split_on :: "nat \<Rightarrow> jstr \<Rightarrow> jstr list" where
  "split_on c [] = [[]]"
| "split_on c (u # us) = (if u = c then [] # split_on c us
     else case split_on c us of [] \<Rightarrow> [[u]] | p # ps \<Rightarrow> (u # p) # ps)"

text \<open>\<^verbatim>\<open>parts.join(sep)\<close>.\<close>

fun join :: "jstr \<Rightarrow> jstr list \<Rightarrow> jstr" where
  "join sep [] = []"
| "join sep [p] = p"
| "join sep (p # q # ps) = p @ sep @ join sep (q # ps)"

lemma split_on_nonempty [simp]: "split_on c s \<noteq> []"
  by (induction s) (auto split: list.splits)

lemma split_on_parts: "p \<in> set (split_on c s) \<Longrightarrow> c \<notin> set p"
  by (induction s arbitrary: p) (auto split: if_splits list.splits)

lemma join_cons: "ps \<noteq> [] \<Longrightarrow> join sep (p # ps) = p @ sep @ join sep ps"
  by (cases ps) auto

lemma join_append: "ps \<noteq> [] \<Longrightarrow> qs \<noteq> [] \<Longrightarrow> join sep (ps @ qs) = join sep ps @ sep @ join sep qs"
proof (induction ps)
  case (Cons p ps)
  then show ?case by (cases "ps = []") (simp_all add: join_cons)
qed simp

lemma join_split_on: "join [c] (split_on c s) = s"
proof (induction s)
  case (Cons u us)
  obtain p ps where "split_on c us = p # ps" by (cases "split_on c us") auto
  with Cons show ?case by (cases ps) (auto simp: join_cons)
qed simp

lemma split_on_free: "c \<notin> set s \<Longrightarrow> split_on c s = [s]"
  by (induction s) auto

lemma split_on_append: "c \<notin> set p \<Longrightarrow> split_on c (p @ c # s) = p # split_on c s"
  by (induction p) auto

lemma split_on_join:
  "ps \<noteq> [] \<Longrightarrow> \<forall>p \<in> set ps. c \<notin> set p \<Longrightarrow> split_on c (join [c] ps) = ps"
proof (induction ps)
  case (Cons p ps)
  then show ?case by (cases ps) (auto simp: split_on_free split_on_append)
qed simp

lemma set_join: "set (join sep ps) \<subseteq> set sep \<union> (\<Union>p \<in> set ps. set p)"
  by (induction sep ps rule: join.induct) auto

section \<open>White space\<close>

text \<open>The white space and line terminators that \<^verbatim>\<open>trim\<close> removes.\<close>

definition white :: "nat \<Rightarrow> bool" where
  "white u \<longleftrightarrow> 9 \<le> u \<and> u \<le> 13 \<or> u = 32 \<or> u = 0xA0 \<or> u = 0x1680 \<or> 0x2000 \<le> u \<and> u \<le> 0x200A \<or>
     u = 0x2028 \<or> u = 0x2029 \<or> u = 0x202F \<or> u = 0x205F \<or> u = 0x3000 \<or> u = 0xFEFF"

definition trim :: "jstr \<Rightarrow> jstr" where
  "trim s = rev (dropWhile white (rev (dropWhile white s)))"

lemma trim_sublist: "sublist (trim s) s"
proof -
  have "sublist (trim s) (dropWhile white s)"
    unfolding trim_def using suffix_dropWhile [of white "rev (dropWhile white s)"]
    by (metis prefix_imp_sublist rev_rev_ident suffix_to_prefix)
  moreover have "sublist (dropWhile white s) s"
    by (rule suffix_imp_sublist, rule suffix_dropWhile)
  ultimately show ?thesis by (rule sublist_order.order.trans)
qed

lemma trim_ends: "trim s \<noteq> [] \<Longrightarrow> \<not> white (hd (trim s)) \<and> \<not> white (last (trim s))"
proof -
  assume ne: "trim s \<noteq> []"
  define t where "t = dropWhile white s"
  from ne have r: "dropWhile white (rev t) \<noteq> []" by (simp add: trim_def t_def)
  from hd_dropWhile [OF this] have "\<not> white (last (trim s))"
    by (simp add: trim_def t_def [symmetric] last_rev)
  moreover have "prefix (trim s) t"
    unfolding trim_def t_def [symmetric] using suffix_dropWhile [of white "rev t"] by (metis rev_rev_ident suffix_to_prefix)
  with ne have "hd (trim s) = hd t" "t \<noteq> []" by (auto simp: prefix_def)
  with hd_dropWhile [of white s] have "\<not> white (hd (trim s))" by (simp add: t_def)
  ultimately show ?thesis by simp
qed

lemma dropWhile_hd: "s = [] \<or> \<not> P (hd s) \<Longrightarrow> dropWhile P s = s"
  by (cases s) auto

lemma trim_id: "s = [] \<or> \<not> white (hd s) \<and> \<not> white (last s) \<Longrightarrow> trim s = s"
  by (cases "s = []") (simp_all add: trim_def dropWhile_hd hd_rev)

section \<open>Searching\<close>

text \<open>\<^verbatim>\<open>s.indexOf(c)\<close> for one code unit, as an option for the result \<^verbatim>\<open>-1\<close>.\<close>

fun index_of :: "nat \<Rightarrow> jstr \<Rightarrow> nat option" where
  "index_of c [] = None"
| "index_of c (u # us) = (if u = c then Some 0 else map_option Suc (index_of c us))"

lemma index_of_None [simp]: "index_of c s = None \<longleftrightarrow> c \<notin> set s"
  by (induction s) auto

lemma index_of_append: "c \<notin> set p \<Longrightarrow> index_of c (p @ c # s) = Some (length p)"
  by (induction p) auto

text \<open>The text before the first occurrence of a non-empty pattern and the text after it.\<close>

fun find_text :: "jstr \<Rightarrow> jstr \<Rightarrow> (jstr \<times> jstr) option" where
  "find_text pat [] = (if pat = [] then Some ([], []) else None)"
| "find_text pat (u # us) =
    (if prefix pat (u # us) then Some ([], drop (length pat) (u # us))
     else map_option (\<lambda>(before, after). (u # before, after)) (find_text pat us))"

lemma find_text_Some: "find_text pat s = Some (before, after) \<Longrightarrow> s = before @ pat @ after"
proof (induction s arbitrary: before)
  case (Cons u us)
  then show ?case by (auto simp: prefix_def split: if_splits)
qed (auto split: if_splits)

lemma find_text_None: "find_text pat s = None \<longleftrightarrow> \<not> sublist pat s"
proof (induction s)
  case (Cons u us)
  then show ?case by (auto simp: sublist_Cons_right)
qed auto

lemma find_text_less: "find_text pat s = Some (before, after) \<Longrightarrow> pat \<noteq> [] \<Longrightarrow> length after < length s"
  by (drule find_text_Some) auto

end
