(* ===== verification/Assets.thy ===== *)
theory Assets
  imports Base64 Text
begin

text \<open>
  The assets of a guest, \<^verbatim>\<open>src/runtime/luajit/assets.mjs\<close>: a manifest gives each asset its size and digest,
  \<^verbatim>\<open>verified\<close> fetches one or inflates it from the asset that carries it, checks both and keeps what
  it got; and the packager's own check of a guest, \<^verbatim>\<open>src/runtime/luajit/package-assets.mjs\<close>. Fetching, inflating and
  SHA-256 are the browser's and parameters here.
\<close>

section \<open>Streams\<close>

text \<open>The reads of a stream, up to its end or its failure.\<close>

datatype byte_stream = StreamEnds | StreamFails jserror | Piece "byte list" byte_stream

definition MAX_ASSET_BYTES :: nat where
  "MAX_ASSET_BYTES = 256 * 1024 * 1024"

text \<open>Reading to the end, giving up as soon as more than \<open>limit\<close> bytes came.\<close>

fun read_bounded :: "jserror \<Rightarrow> nat \<Rightarrow> nat \<Rightarrow> byte list list \<Rightarrow> byte_stream \<Rightarrow> (byte list list \<times> nat) result" where
  "read_bounded too_big limit len chunks StreamEnds = Inr (chunks, len)"
| "read_bounded too_big limit len chunks (StreamFails e) = Inl e"
| "read_bounded too_big limit len chunks (Piece value rest) =
    (if len + length value > limit then Inl too_big
     else read_bounded too_big limit (len + length value) (chunks @ [value]) rest)"

definition inflateSnapshot :: "(byte list \<Rightarrow> byte_stream) \<Rightarrow> byte list \<Rightarrow> jnum \<Rightarrow> byte list result" where
  "inflateSnapshot gunzip packed expectedBytes =
    (if \<not> isSafeInteger expectedBytes \<or> the_int expectedBytes \<le> 0 \<or> the_int expectedBytes > int MAX_ASSET_BYTES
     then throw ''Invalid snapshot extent''
     else let n = nat (the_int expectedBytes) in
       bind (read_bounded (Error (js ''Snapshot exceeds its declared extent'')) n 0 [] (gunzip packed)) (\<lambda>(chunks, len).
         if len \<noteq> n then throw ''Snapshot extent mismatch'' else Inr (assemble len chunks)))"

definition sha256 :: "(byte list \<Rightarrow> byte list) \<Rightarrow> byte list \<Rightarrow> jstr" where
  "sha256 digest bytes = hex_text (digest bytes)"

section \<open>Manifests\<close>

record asset_record =
  ar_sha256 :: jstr
  ar_bytes :: jnum

record snapshot_record =
  sn_buildKey :: jstr
  sn_guestAbi :: jnum
  sn_memoryMiB :: jnum
  sn_asset :: jstr
  sn_uncompressedBytes :: jnum

record guest_manifest =
  gm_schema :: jnum
  gm_guestAbi :: jnum
  gm_architecture :: jstr
  gm_buildKey :: jstr
  gm_assets :: "(jstr, asset_record) jmap option"
  gm_delivery :: "(jstr, jstr) jmap"
  gm_profiles :: "(string, jnum) jmap"  \<comment> \<open>the memory of each profile\<close>
  gm_snapshots :: "(string, snapshot_record) jmap"

definition hex_char :: "nat \<Rightarrow> bool" where
  "hex_char c \<longleftrightarrow> 48 \<le> c \<and> c \<le> 57 \<or> 97 \<le> c \<and> c \<le> 102"

definition hex64 :: "jstr \<Rightarrow> bool" where
  "hex64 s \<longleftrightarrow> length s = 64 \<and> list_all hex_char s"

definition supported_manifest :: "guest_manifest \<Rightarrow> bool" where
  "supported_manifest m \<longleftrightarrow> gm_schema m = IntV 1 \<and> gm_guestAbi m = IntV 1 \<and> gm_architecture m = js ''i386-linux-musl'' \<and>
     hex64 (gm_buildKey m) \<and> gm_assets m \<noteq> None"

text \<open>A response: its status and whether that is a success, and what its body gives.\<close>

record 'b fetched =
  ft_ok :: bool
  ft_status :: nat
  ft_body :: 'b

definition loadManifest :: "guest_manifest result fetched result \<Rightarrow> guest_manifest result" where
  "loadManifest response =
    bind response (\<lambda>r.
      if \<not> ft_ok r then Inl (Error (js ''Cannot fetch guest manifest: '' @ decimal (ft_status r)))
      else bind (ft_body r) (\<lambda>m. if supported_manifest m then Inr m else throw ''Unsupported guest manifest''))"

definition safe_path :: "jstr \<Rightarrow> bool" where
  "safe_path name \<longleftrightarrow> take 1 name \<noteq> [47] \<and> [46, 46] \<notin> set (split_on 47 name)"

definition record_ok :: "asset_record \<Rightarrow> bool" where
  "record_ok r \<longleftrightarrow> hex64 (ar_sha256 r) \<and> isSafeInteger (ar_bytes r) \<and> \<not> the_int (ar_bytes r) \<le> 0 \<and> \<not> the_int (ar_bytes r) > int MAX_ASSET_BYTES"

definition asset_of :: "guest_manifest \<Rightarrow> jstr \<Rightarrow> asset_record option" where
  "asset_of m name = (case gm_assets m of None \<Rightarrow> None | Some a \<Rightarrow> mget a name)"

text \<open>The asset that carries this one compressed, if the manifest names one.\<close>

definition delivery_of :: "guest_manifest \<Rightarrow> jstr \<Rightarrow> jstr option" where
  "delivery_of m name = (case mget (gm_delivery m) name of Some e \<Rightarrow> if e = [] then None else Some e | None \<Rightarrow> None)"

section \<open>Verified assets\<close>

text \<open>What the code relies on: fetching below the base, inflating, hashing, and the origin of a name.\<close>

record asset_env =
  ae_fetch :: "jstr \<Rightarrow> byte_stream fetched result"
  ae_gunzip :: "byte list \<Rightarrow> byte_stream"
  ae_digest :: "byte list \<Rightarrow> byte list"
  ae_same_origin :: "jstr \<Rightarrow> bool"

text \<open>The promises \<^verbatim>\<open>verified\<close> keeps, as what they settle with, and the names it fetched.\<close>

record asset_state =
  at_pending :: "(jstr, byte list result) jmap"
  at_fetches :: "jstr list"

definition no_assets :: asset_state where
  "no_assets = \<lparr>at_pending = [], at_fetches = []\<rparr>"

definition check_digest :: "asset_env \<Rightarrow> jstr \<Rightarrow> asset_record \<Rightarrow> byte list \<Rightarrow> byte list result" where
  "check_digest env name r bytes =
    (if sha256 (ae_digest env) bytes \<noteq> ar_sha256 r then Inl (Error (js ''Guest asset SHA-256 mismatch: '' @ name)) else Inr bytes)"

definition fetch_asset :: "asset_env \<Rightarrow> jstr \<Rightarrow> asset_record \<Rightarrow> byte list result" where
  "fetch_asset env name r =
    bind (ae_fetch env name) (\<lambda>response.
      if \<not> ft_ok response then Inl (Error (js ''Cannot fetch '' @ name @ js '': '' @ decimal (ft_status response)))
      else let n = nat (the_int (ar_bytes r)) in
        bind (read_bounded (Error (js ''Guest asset exceeds manifest size: '' @ name)) n 0 [] (ft_body response)) (\<lambda>(chunks, len).
          if len \<noteq> n then Inl (Error (js ''Guest asset size mismatch: '' @ name))
          else check_digest env name r (assemble len chunks)))"

definition inflate_asset :: "asset_env \<Rightarrow> jstr \<Rightarrow> asset_record \<Rightarrow> byte list result \<Rightarrow> byte list result" where
  "inflate_asset env name r packed =
    bind packed (\<lambda>p. bind (inflateSnapshot (ae_gunzip env) p (ar_bytes r)) (check_digest env name r))"

definition settle :: "jstr \<Rightarrow> byte list result \<Rightarrow> asset_state \<Rightarrow> asset_state \<times> byte list result" where
  "settle name res s = (s\<lparr>at_pending := mset (at_pending s) name res\<rparr>, res)"

function verified :: "asset_env \<Rightarrow> guest_manifest \<Rightarrow> jstr \<Rightarrow> asset_state \<Rightarrow> asset_state \<times> byte list result" where
  "verified env m name s =
    (case mget (at_pending s) name of
       Some res \<Rightarrow> (s, res)
     | None \<Rightarrow>
       (case asset_of m name of
          None \<Rightarrow> (s, Inl (Error (js ''Invalid guest asset: '' @ name)))
        | Some r \<Rightarrow>
          if \<not> record_ok r \<or> \<not> safe_path name then (s, Inl (Error (js ''Invalid guest asset: '' @ name)))
          else if \<not> ae_same_origin env name then (s, throw ''Guest asset crosses origins'')
          else case delivery_of m name of
            Some encoded \<Rightarrow>
              if encoded = name \<or> delivery_of m encoded \<noteq> None then settle name (throw ''Cyclic guest asset encoding'') s
              else (case verified env m encoded s of (s1, packed) \<Rightarrow> settle name (inflate_asset env name r packed) s1)
          | None \<Rightarrow> settle name (fetch_asset env name r) (s\<lparr>at_fetches := at_fetches s @ [name]\<rparr>)))"
  by auto
termination
  by (relation "measure (\<lambda>(env, m, name, s). if delivery_of m name = None then 0 else 1)") auto

declare verified.simps [simp del]

definition one_asset :: "jstr \<Rightarrow> asset_record \<Rightarrow> guest_manifest" where
  "one_asset name r = \<lparr>gm_schema = Undef, gm_guestAbi = Undef, gm_architecture = [], gm_buildKey = [], gm_assets = Some [(name, r)],
     gm_delivery = [], gm_profiles = [], gm_snapshots = []\<rparr>"

text \<open>\<open>name\<close>: the last segment of the address's path. A decoded size of zero is none.\<close>

definition loadPackedAsset :: "asset_env \<Rightarrow> jstr \<Rightarrow> asset_record \<Rightarrow> jnum \<Rightarrow> byte list result" where
  "loadPackedAsset env name r decodedBytes =
    bind (snd (verified env (one_asset name r) name no_assets)) (\<lambda>bytes.
      if decodedBytes = Undef \<or> decodedBytes = IntV 0 then Inr bytes
      else inflateSnapshot (ae_gunzip env) bytes decodedBytes)"

section \<open>Integrity\<close>

text \<open>The bytes match what the manifest says of the asset.\<close>

definition matches :: "asset_env \<Rightarrow> guest_manifest \<Rightarrow> jstr \<Rightarrow> byte list \<Rightarrow> bool" where
  "matches env m name bytes \<longleftrightarrow>
    (\<exists>r. asset_of m name = Some r \<and> ar_bytes r = IntV (int (length bytes)) \<and> sha256 (ae_digest env) bytes = ar_sha256 r \<and>
         0 < length bytes \<and> length bytes \<le> MAX_ASSET_BYTES \<and> safe_path name)"

definition assets_ok :: "asset_env \<Rightarrow> guest_manifest \<Rightarrow> asset_state \<Rightarrow> bool" where
  "assets_ok env m s \<longleftrightarrow> (\<forall>name bytes. mget (at_pending s) name = Some (Inr bytes) \<longrightarrow> matches env m name bytes) \<and>
     distinct (at_fetches s) \<and> (\<forall>name\<in>set (at_fetches s). mget (at_pending s) name \<noteq> None)"

lemma read_bounded_all:
  "read_bounded e limit len chunks st = Inr (chunks', len') \<Longrightarrow> len = length (concat chunks) \<Longrightarrow> len' = length (concat chunks')"
  by (induction e limit len chunks st rule: read_bounded.induct) (auto split: if_splits)

lemma record_ok_size: "record_ok r \<Longrightarrow> \<exists>n. ar_bytes r = IntV (int n) \<and> 0 < n \<and> n \<le> MAX_ASSET_BYTES"
  by (auto simp: record_ok_def js_simps not_le intro: exI [of _ "nat (the_int (ar_bytes r))"])

lemma check_digest_matches:
  assumes "check_digest env name r b = Inr bytes" "asset_of m name = Some r" "record_ok r" "safe_path name"
    "length b = nat (the_int (ar_bytes r))"
  shows "matches env m name bytes"
  using assms record_ok_size [OF assms(3)] by (auto simp: check_digest_def matches_def split: if_splits)

lemma fetch_asset_matches:
  assumes "fetch_asset env name r = Inr bytes" "asset_of m name = Some r" "record_ok r" "safe_path name"
  shows "matches env m name bytes"
proof -
  let ?n = "nat (the_int (ar_bytes r))"
  obtain resp :: "byte_stream fetched" and chunks where read: "read_bounded (Error (js ''Guest asset exceeds manifest size: '' @ name)) ?n 0 [] (ft_body resp) = Inr (chunks, ?n)"
    and c: "check_digest env name r (assemble ?n chunks) = Inr bytes"
    using assms(1) by (auto simp: fetch_asset_def Let_def split: if_splits prod.splits)
  have "length (assemble ?n chunks) = ?n" using read_bounded_all [OF read] by simp
  from check_digest_matches [OF c assms(2-4) this] show ?thesis .
qed

lemma inflate_length:
  assumes "inflateSnapshot gunzip packed n = Inr bytes"
  shows "length bytes = nat (the_int n)"
proof -
  let ?n = "nat (the_int n)"
  obtain chunks where read: "read_bounded (Error (js ''Snapshot exceeds its declared extent'')) ?n 0 [] (gunzip packed) = Inr (chunks, ?n)"
    and "bytes = assemble ?n chunks"
    using assms by (auto simp: inflateSnapshot_def Let_def split: if_splits prod.splits)
  then show ?thesis using read_bounded_all [OF read] by simp
qed

lemma inflate_asset_matches:
  assumes "inflate_asset env name r packed = Inr bytes" "asset_of m name = Some r" "record_ok r" "safe_path name"
  shows "matches env m name bytes"
proof -
  obtain p b where "inflateSnapshot (ae_gunzip env) p (ar_bytes r) = Inr b" "check_digest env name r b = Inr bytes"
    using assms(1) by (auto simp: inflate_asset_def)
  then show ?thesis using check_digest_matches [OF _ assms(2-4)] inflate_length by blast
qed

lemma settle_ok:
  assumes "assets_ok env m s" "\<And>bytes. res = Inr bytes \<Longrightarrow> matches env m name bytes"
  shows "assets_ok env m (fst (settle name res s))"
  using assms by (auto simp: assets_ok_def settle_def)

lemma fetch_ok:
  assumes "assets_ok env m s" "mget (at_pending s) name = None" "\<And>bytes. res = Inr bytes \<Longrightarrow> matches env m name bytes"
  shows "assets_ok env m (fst (settle name res (s\<lparr>at_fetches := at_fetches s @ [name]\<rparr>)))"
  using assms by (auto simp: assets_ok_def settle_def)

lemma verified_ok:
  assumes "assets_ok env m s"
  shows "assets_ok env m (fst (verified env m name s)) \<and>
    (\<forall>bytes. snd (verified env m name s) = Inr bytes \<longrightarrow> matches env m name bytes)"
  using assms
proof (induction env m name s rule: verified.induct)
  case (1 env m name s)
  show ?case
  proof (cases "mget (at_pending s) name")
    case (Some res)
    then show ?thesis using "1.prems" by (auto simp: verified.simps [of env m name] assets_ok_def)
  next
    case None
    note fresh = this
    show ?thesis
    proof (cases "\<exists>r. asset_of m name = Some r \<and> record_ok r \<and> safe_path name \<and> ae_same_origin env name")
      case False
      then show ?thesis using fresh "1.prems" by (auto simp: verified.simps [of env m name] split: option.splits)
    next
      case True
      then obtain r where r: "asset_of m name = Some r" "record_ok r" "safe_path name" "ae_same_origin env name" by blast
      show ?thesis
      proof (cases "delivery_of m name")
        case None
        have f: "\<And>bytes. fetch_asset env name r = Inr bytes \<Longrightarrow> matches env m name bytes" using fetch_asset_matches [OF _ r(1-3)] .
        have "verified env m name s = settle name (fetch_asset env name r) (s\<lparr>at_fetches := at_fetches s @ [name]\<rparr>)"
          using fresh r None by (simp add: verified.simps [of env m name])
        then show ?thesis using fetch_ok [OF "1.prems" fresh f] f by (simp add: settle_def)
      next
        case (Some encoded)
        note enc = this
        show ?thesis
        proof (cases "encoded = name \<or> delivery_of m encoded \<noteq> None")
          case True
          then have "verified env m name s = settle name (throw ''Cyclic guest asset encoding'') s"
            using fresh r enc by (simp add: verified.simps [of env m name])
          then show ?thesis using settle_ok [OF "1.prems", of "throw ''Cyclic guest asset encoding''" name] by (simp add: settle_def)
        next
          case False
          have ih: "assets_ok env m (fst (verified env m encoded s))"
            using "1.IH" [OF fresh r(1) _ _ enc False "1.prems"] r by blast
          have g: "\<And>packed bytes. inflate_asset env name r packed = Inr bytes \<Longrightarrow> matches env m name bytes"
            using inflate_asset_matches [OF _ r(1-3)] .
          have "verified env m name s =
              settle name (inflate_asset env name r (snd (verified env m encoded s))) (fst (verified env m encoded s))"
            using fresh r enc False by (simp add: verified.simps [of env m name] split_beta)
          then show ?thesis using settle_ok [OF ih g] g by (simp add: settle_def)
        qed
      qed
    qed
  qed
qed

text \<open>A sequence of requests for assets, in the order they are made.\<close>

fun verified_all :: "asset_env \<Rightarrow> guest_manifest \<Rightarrow> jstr list \<Rightarrow> asset_state \<Rightarrow> asset_state \<times> byte list result list" where
  "verified_all env m [] s = (s, [])"
| "verified_all env m (name # names) s =
    (let (s1, res) = verified env m name s; (s2, rest) = verified_all env m names s1 in (s2, res # rest))"

lemma verified_all_ok:
  "assets_ok env m s \<Longrightarrow> assets_ok env m (fst (verified_all env m names s)) \<and>
   list_all2 (\<lambda>name res. \<forall>bytes. res = Inr bytes \<longrightarrow> matches env m name bytes) names (snd (verified_all env m names s))"
proof (induction names arbitrary: s)
  case (Cons name names)
  show ?case using verified_ok [OF Cons.prems, of name] Cons.IH [of "fst (verified env m name s)"] by (simp add: split_beta Let_def)
qed simp

lemma no_assets_ok: "assets_ok env m no_assets"
  by (simp add: assets_ok_def no_assets_def)

section \<open>Packaging a guest\<close>

text \<open>
  The packager's check of the guest it ships. \<open>dev\<close>: the overlay of a development build is allowed; \<open>notices\<close> are the files
  of \<^verbatim>\<open>host/notices\<close>; \<open>disk\<close> and \<open>repo\<close> give the files of the distribution and of the repository, failing when one is not there.
\<close>

record package_manifest =
  pm_guest :: guest_manifest
  pm_overlay :: bool
  pm_inputs :: "(jstr, jstr) jmap"

definition snapshot_ok :: "guest_manifest \<Rightarrow> string \<Rightarrow> snapshot_record \<Rightarrow> bool" where
  "snapshot_ok m profile sn \<longleftrightarrow> sn_buildKey sn = gm_buildKey m \<and> sn_guestAbi sn = gm_guestAbi m \<and>
     sn_memoryMiB sn = IntV (if profile = ''compiler'' then 128 else 64) \<and> Some (sn_memoryMiB sn) = mget (gm_profiles m) profile \<and>
     isSafeInteger (sn_uncompressedBytes sn) \<and> \<not> the_int (sn_uncompressedBytes sn) \<le> 0 \<and>
     \<not> the_int (sn_uncompressedBytes sn) > 256 * 1024 * 1024 \<and> asset_of m (sn_asset sn) \<noteq> None"

fun check_all :: "('a \<Rightarrow> unit result) \<Rightarrow> 'a list \<Rightarrow> unit result" where
  "check_all f [] = Inr ()"
| "check_all f (x # xs) = bind (f x) (\<lambda>_. check_all f xs)"

definition check_snapshot :: "guest_manifest \<Rightarrow> string \<Rightarrow> unit result" where
  "check_snapshot m profile =
    (case mget (gm_snapshots m) profile of
       Some sn \<Rightarrow> if snapshot_ok m profile sn then Inr () else Inl (Error (js ''Invalid guest snapshot: '' @ js profile))
     | None \<Rightarrow> throw ''The guest needs both verified snapshots; run scripts/browser-snapshot.mjs first'')"

definition guest_inputs :: "jstr list" where
  "guest_inputs = map js [''runtime/luajit/bridge.lua'', ''runtime/luajit/guest-init.c'', ''runtime/luajit/linux.config'',
     ''runtime/luajit/vm-worker.mjs'', ''runtime/luajit/assets.mjs'']"

definition split_path :: "jstr \<Rightarrow> jstr list" where
  "split_path name = concat (map (split_on 92) (split_on 47 name))"

definition check_input :: "(byte list \<Rightarrow> jstr) \<Rightarrow> (jstr \<Rightarrow> byte list result) \<Rightarrow> package_manifest \<Rightarrow> jstr \<Rightarrow> unit result" where
  "check_input digest repo pm file =
    bind (repo file) (\<lambda>bytes. if mget (pm_inputs pm) file = Some (digest bytes) then Inr ()
      else Inl (Error (js ''The browser guest is stale: '' @ file)))"

text \<open>An asset on disk; an absolute name starts with a slash.\<close>

definition check_asset :: "(byte list \<Rightarrow> jstr) \<Rightarrow> (jstr \<Rightarrow> byte list result) \<Rightarrow> jstr \<times> asset_record \<Rightarrow> unit result" where
  "check_asset digest disk a =
    (case a of (name, r) \<Rightarrow>
      if take 1 name = [47] \<or> [46, 46] \<in> set (split_path name) \<or> [] \<in> set (split_path name) then throw ''Guest asset path escapes its package''
      else if \<not> isSafeInteger (ar_bytes r) \<or> the_int (ar_bytes r) \<le> 0 \<or> \<not> hex64 (ar_sha256 r)
      then Inl (Error (js ''Invalid guest asset record: '' @ name))
      else bind (disk name) (\<lambda>bytes.
        if int (length bytes) \<noteq> the_int (ar_bytes r) \<or> digest bytes \<noteq> ar_sha256 r
        then Inl (Error (js ''Guest asset integrity failure: '' @ name)) else Inr ()))"

definition verifyGuest ::
  "(byte list \<Rightarrow> jstr) \<Rightarrow> (jstr \<Rightarrow> byte list result) \<Rightarrow> (jstr \<Rightarrow> byte list result) \<Rightarrow> bool \<Rightarrow> jstr list \<Rightarrow> package_manifest \<Rightarrow> package_manifest result" where
  "verifyGuest digest repo disk dev notices pm =
    (let m = pm_guest pm in
     if pm_overlay pm \<and> \<not> dev then throw ''A development guest overlay is not a production package''
     else if \<not> supported_manifest m then throw ''Unsupported guest manifest''
     else if mget (gm_snapshots m) ''runner'' = None \<or> mget (gm_snapshots m) ''compiler'' = None
     then throw ''The guest needs both verified snapshots; run scripts/browser-snapshot.mjs first''
     else bind (check_all (check_snapshot m) [''runner'', ''compiler''])
      (\<lambda>_. bind (check_all (\<lambda>name. if asset_of m name = None then Inl (Error (js ''Guest distribution is missing '' @ name)) else Inr ())
                  (js ''matching-source.tar.gz'' # map (\<lambda>n. js ''notices/'' @ n) notices))
      (\<lambda>_. bind (check_all (check_input digest repo pm) guest_inputs)
      (\<lambda>_. bind (check_all (check_asset digest disk) (the (gm_assets m))) (\<lambda>_. Inr pm)))))"

text \<open>Shipping adds the compressed emulator, each in an asset of its own that delivers it; \<open>gzip\<close> compresses.\<close>

definition add_delivery :: "(byte list \<Rightarrow> jstr) \<Rightarrow> (byte list \<Rightarrow> byte list) \<Rightarrow> (jstr \<Rightarrow> byte list) \<Rightarrow> jstr \<Rightarrow> guest_manifest \<Rightarrow> guest_manifest" where
  "add_delivery digest gzip file name m =
    (let bytes = gzip (file name); encoded = name @ js ''.gz'' in
     m\<lparr>gm_assets := Some (mset (the (gm_assets m)) encoded \<lparr>ar_sha256 = digest bytes, ar_bytes = IntV (int (length bytes))\<rparr>),
       gm_delivery := mset (gm_delivery m) name encoded\<rparr>)"

definition copyGuest ::
  "(byte list \<Rightarrow> jstr) \<Rightarrow> (byte list \<Rightarrow> byte list) \<Rightarrow> (jstr \<Rightarrow> byte list result) \<Rightarrow> (jstr \<Rightarrow> byte list result) \<Rightarrow> (jstr \<Rightarrow> byte list) \<Rightarrow> bool \<Rightarrow>
    jstr list \<Rightarrow> package_manifest \<Rightarrow> package_manifest result" where
  "copyGuest digest gzip repo disk file dev notices pm =
    bind (verifyGuest digest repo disk dev notices pm) (\<lambda>pm.
      Inr (pm\<lparr>pm_guest := fold (add_delivery digest gzip file) [js ''assets/v86.wasm'', js ''assets/v86-fallback.wasm''] (pm_guest pm)\<rparr>))"

section \<open>Properties\<close>

text \<open>C21. Whatever assets are asked for, in whatever order, and whatever the server answers: an asset that is given has the length and
  the SHA-256 its manifest record says, inflated or not, and lies below the base; and each name is fetched at most once.
\<close>

theorem assets_match_manifest:
  "list_all2 (\<lambda>name res. case res of Inr bytes \<Rightarrow> matches env m name bytes | Inl e \<Rightarrow> True) names (snd (verified_all env m names no_assets)) \<and>
   distinct (at_fetches (fst (verified_all env m names no_assets)))"
  using verified_all_ok [OF no_assets_ok, of env m names] by (auto simp: assets_ok_def elim!: list_all2_mono split: sum.splits)

end
