(* ===== verification/VmWorker.thy ===== *)
theory VmWorker
  imports Assets Codec
begin

text \<open>
  The worker that runs the emulated guest, \<^verbatim>\<open>src/runtime/luajit/vm-worker.mjs\<close>: it boots the guest from a
  snapshot or cold, listens to the guest's serial line, and exchanges frames with it through
  a mailbox at the top of the guest's memory. The emulator is a parameter: what its memory
  holds is asked of the environment, what the worker does to it is an event.
\<close>

section \<open>State\<close>

definition MIB :: nat where
  "MIB = 1024 * 1024"

text \<open>The lines the worker sends to the guest. Of what it does, the last two only record the numbers its peers used.\<close>

datatype serial_line = StartLine | MailboxLine | NumberLine nat

fun serial_text :: "serial_line \<Rightarrow> jstr" where
  "serial_text StartLine = js ''start'' @ [10]"
| "serial_text MailboxLine = js ''mailbox'' @ [10]"
| "serial_text (NumberLine n) = decimal n @ [10]"

datatype 'j vm_output =
    StartWrote nat "byte list"  \<comment> \<open>a write of \<^verbatim>\<open>start\<close>, at an address; the guest of a cold boot runs then\<close>
  | Wrote nat "byte list"  \<comment> \<open>any other write\<close>
  | SerialSent serial_line
  | Created nat bool  \<comment> \<open>the emulator: MiB of memory, from a snapshot\<close>
  | EmulatorRun
  | PostFailed jstr jstr  \<comment> \<open>error and log\<close>
  | PostLog jstr
  | PostReady
  | PostFallback jstr
  | PostSelected
  | PostSnapshot nat
  | PostFrame string nat 'j "byte list"  \<comment> \<open>type, sequence, result, payload\<close>
  | GuestAsked string jnum  \<comment> \<open>a question that was taken, with the number in the guest's own line\<close>
  | HostAnswered jnum  \<comment> \<open>a response that was taken, with the number in the host's own message\<close>

record boot_message =
  bm_clockFinite :: bool
  bm_profile :: string
  bm_app :: "byte list"
  bm_config :: jstr  \<comment> \<open>the JSON text of the configuration\<close>
  bm_snapshot :: bool
  bm_capture :: bool

record 'j vm =
  vm_mailbox :: nat
  vm_active :: bool
  vm_sequence :: nat
  vm_log :: jstr
  vm_line :: jstr
  vm_timer :: bool
  vm_booted :: bool
  vm_completed :: bool
  vm_message :: "boot_message option"  \<comment> \<open>of a guest that was created\<close>
  vm_restored :: bool
  vm_out :: "'j vm_output list"

definition new_vm :: "'j vm" where
  "new_vm = \<lparr>vm_mailbox = 0, vm_active = False, vm_sequence = 0, vm_log = [], vm_line = [], vm_timer = False, vm_booted = False,
     vm_completed = False, vm_message = None, vm_restored = False, vm_out = []\<rparr>"

text \<open>
  The guest and the language around the worker at one moment: its memory, the eight bytes of the clock, the time in
  milliseconds, 32 random bytes, \<^verbatim>\<open>JSON.parse\<close>, the URL named by a parsed request, the JSON text of its answer
  (\<open>None\<close> for an invalid URL), and \<^verbatim>\<open>Number\<close> of a text.
\<close>

record 'j vm_env =
  ve_read :: "nat \<Rightarrow> nat \<Rightarrow> byte list"
  ve_clock :: "byte list"
  ve_now :: nat
  ve_random :: "byte list"
  ve_parse :: "jstr \<Rightarrow> 'j result"
  ve_href :: "'j \<Rightarrow> jstr option"
  ve_answer :: "jstr option \<Rightarrow> jstr"
  ve_number :: "jstr \<Rightarrow> jnum"

section \<open>The mailbox\<close>

definition emit :: "'j vm_output list \<Rightarrow> 'j vm \<Rightarrow> 'j vm" where
  "emit os v = v\<lparr>vm_out := vm_out v @ os\<rparr>"

definition fail_vm :: "jserror \<Rightarrow> 'j vm \<Rightarrow> 'j vm" where
  "fail_vm e v = emit [PostFailed (message e) (vm_log v)] (v\<lparr>vm_timer := False\<rparr>)"

definition clock :: "'j vm_env \<Rightarrow> 'j vm \<Rightarrow> 'j vm" where
  "clock env v = emit [Wrote (vm_mailbox v + 168) (ve_clock env)] v"

definition send :: "'j vm_env \<Rightarrow> serial_line \<Rightarrow> 'j vm \<Rightarrow> 'j vm" where
  "send env l v = emit [SerialSent l] (clock env v)"

definition read_mailbox :: "'j vm_env \<Rightarrow> 'j vm \<Rightarrow> 'j result" where
  "read_mailbox env v =
    (let n = le_nat (ve_read env (vm_mailbox v + 128) 4) in
     if n > MIB then throw ''Guest result exceeds mailbox''
     else bind (decode_text (ve_read env (vm_mailbox v + 4096) n)) (ve_parse env))"

definition write_mailbox :: "nat \<Rightarrow> nat \<Rightarrow> nat \<Rightarrow> byte list \<Rightarrow> 'j vm \<Rightarrow> 'j vm result" where
  "write_mailbox offset index capacity bytes v =
    (if length bytes > capacity then throw ''Host input exceeds mailbox''
     else Inr (emit [Wrote (vm_mailbox v + offset) bytes, Wrote (vm_mailbox v + 128 + index * 4) (le_bytes 4 (length bytes))] v))"

text \<open>The two writes of an answer; the second may fail after the first was made.\<close>

definition write_answer :: "jstr \<Rightarrow> byte list \<Rightarrow> 'j vm \<Rightarrow> 'j vm \<times> unit result" where
  "write_answer text payload v =
    (case write_mailbox (4 * MIB) 2 MIB (encode_text text) v of
       Inl e \<Rightarrow> (v, Inl e)
     | Inr v1 \<Rightarrow> (case write_mailbox (5 * MIB) 3 (2 * MIB) payload v1 of Inl e \<Rightarrow> (v1, Inl e) | Inr v2 \<Rightarrow> (v2, Inr ())))"

definition next_number :: "'j vm_env \<Rightarrow> 'j vm \<Rightarrow> 'j vm" where
  "next_number env v = send env (NumberLine (vm_sequence v)) (v\<lparr>vm_sequence := vm_sequence v + 1\<rparr>)"

section \<open>Booting\<close>

definition header_bytes :: "nat list \<Rightarrow> byte list" where
  "header_bytes ns = concat (map (le_bytes 4) ns)"

definition start :: "'j vm_env \<Rightarrow> boot_message \<Rightarrow> 'j vm \<Rightarrow> 'j vm" where
  "start env msg v =
    (let config = encode_text (bm_config msg); app = bm_app msg; now = ve_now env in
     emit ([StartWrote (vm_mailbox v) (header_bytes [0x5350554e, 1, length config, length app, now div 1000, now mod 1000 * 1000]),
            StartWrote (vm_mailbox v + 512) (ve_random env), StartWrote (vm_mailbox v + 4096) config, StartWrote (vm_mailbox v + MIB) app,
            SerialSent StartLine] @ (if vm_restored v then [EmulatorRun] else [])) v)"

definition profile_of :: "boot_message \<Rightarrow> string" where
  "profile_of msg = (if bm_profile msg = ''compiler'' then ''compiler'' else ''runner'')"

definition memory_of :: "boot_message \<Rightarrow> nat" where
  "memory_of msg = (if profile_of msg = ''compiler'' then 128 else 64)"

definition startup_fits :: "boot_message \<Rightarrow> bool" where
  "startup_fits msg \<longleftrightarrow> bm_app msg \<noteq> [] \<and> length (bm_app msg) \<le> 7 * MIB \<and>
     encode_text (bm_config msg) \<noteq> [] \<and> length (encode_text (bm_config msg)) \<le> 65536"

text \<open>The snapshot of the profile, if one is selected, found fit and inflates; otherwise the guest boots cold.\<close>

definition load_snapshot ::
  "asset_env \<Rightarrow> guest_manifest \<Rightarrow> boot_message \<Rightarrow> asset_state \<Rightarrow> 'j vm \<Rightarrow> 'j vm \<times> asset_state \<times> byte list option" where
  "load_snapshot aenv m msg s v =
    (case mget (gm_snapshots m) (profile_of msg) of
       None \<Rightarrow> (v, s, None)
     | Some sn \<Rightarrow>
        if \<not> bm_snapshot msg \<or> bm_capture msg then (v, s, None)
        else if sn_buildKey sn \<noteq> gm_buildKey m \<or> sn_memoryMiB sn \<noteq> IntV (int (memory_of msg)) \<or> sn_guestAbi sn \<noteq> gm_guestAbi m
        then (emit [PostFallback (js ''Snapshot does not match the guest build/profile'')] v, s, None)
        else (case verified aenv m (sn_asset sn) s of (s1, packed) \<Rightarrow>
          (case bind packed (\<lambda>p. inflateSnapshot (ae_gunzip aenv) p (sn_uncompressedBytes sn)) of
             Inl e \<Rightarrow> (emit [PostFallback (message e)] v, s1, None)
           | Inr bytes \<Rightarrow> (v, s1, Some bytes))))"

definition cold_assets :: "jstr list" where
  "cold_assets = map js [''assets/bios.bin'', ''assets/vgabios.bin'', ''assets/bzimage.bin'', ''assets/initramfs.gz'']"

definition first_error :: "byte list result list \<Rightarrow> jserror option" where
  "first_error rs = (case filter (\<lambda>r. \<not> is_ok r) rs of Inl e # _ \<Rightarrow> Some e | _ \<Rightarrow> None)"

text \<open>
  Booting from the answer to the manifest's fetch; the emulator's own assets are asked for first and awaited after the
  snapshot. Its callback for the fallback build of the emulator runs inside the emulator.
\<close>

definition boot_guest :: "asset_env \<Rightarrow> guest_manifest \<Rightarrow> boot_message \<Rightarrow> 'j vm \<Rightarrow> 'j vm \<times> unit result" where
  "boot_guest aenv m msg v =
    (if mget (gm_profiles m) (profile_of msg) \<noteq> Some (IntV (int (memory_of msg))) then (v, throw ''Unsupported guest memory profile'')
     else let v1 = v\<lparr>vm_mailbox := (memory_of msg - 16) * MIB\<rparr> in
       if \<not> startup_fits msg then (v1, throw ''Startup input exceeds mailbox'')
       else let (s1, wasm) = verified aenv m (js ''assets/v86.wasm'') no_assets;
                (v2, s2, snapshot) = load_snapshot aenv m msg s1 v1 in
         (case wasm of Inl e \<Rightarrow> (v2, Inl e)
          | Inr _ \<Rightarrow>
             (case snapshot of
                Some _ \<Rightarrow> (emit [PostSelected, Created (memory_of msg) True] (v2\<lparr>vm_message := Some msg, vm_restored := True\<rparr>), Inr ())
              | None \<Rightarrow>
                 (case first_error (snd (verified_all aenv m cold_assets s2)) of
                    Some e \<Rightarrow> (v2, Inl e)
                  | None \<Rightarrow> (emit [Created (memory_of msg) False] (v2\<lparr>vm_message := Some msg\<rparr>), Inr ())))))"

definition boot :: "asset_env \<Rightarrow> guest_manifest result fetched result \<Rightarrow> boot_message \<Rightarrow> 'j vm \<Rightarrow> 'j vm" where
  "boot aenv response msg v =
    (if vm_booted v then fail_vm (Error (js ''Worker has already booted'')) v
     else let v1 = v\<lparr>vm_booted := True\<rparr> in
       if \<not> bm_clockFinite msg then fail_vm (Error (js ''Invalid host clock origin'')) v1
       else case loadManifest response of
         Inl e \<Rightarrow> fail_vm e v1
       | Inr m \<Rightarrow> (case boot_guest aenv m msg v1 of (v2, Inl e) \<Rightarrow> fail_vm e v2 | (v2, Inr _) \<Rightarrow> v2))"

definition emulator_loaded :: "'j vm_env \<Rightarrow> 'j vm \<Rightarrow> 'j vm" where
  "emulator_loaded env v = (case vm_message v of Some msg \<Rightarrow> if vm_restored v then start env msg v else v | None \<Rightarrow> v)"

section \<open>The serial line\<close>

definition begins_with :: "string \<Rightarrow> jstr \<Rightarrow> bool" where
  "begins_with p s \<longleftrightarrow> take (length p) s = js p"

fun contains :: "string \<Rightarrow> jstr \<Rightarrow> bool" where
  "contains p [] \<longleftrightarrow> p = []"
| "contains p (u # us) \<longleftrightarrow> begins_with p (u # us) \<or> contains p us"

definition digits_value :: "jstr \<Rightarrow> nat" where
  "digits_value ds = foldl (\<lambda>n d. n * 10 + (d - 48)) 0 ds"

text \<open>The line \<^verbatim>\<open>@@NUPP_KIND@@ n\<close> of a frame.\<close>

definition frame_line :: "jstr \<Rightarrow> (string \<times> nat) option" where
  "frame_line s =
    (case filter (\<lambda>(kind, p). begins_with p s) [(''compiler'', ''@@NUPP_COMPILER@@ ''), (''effect'', ''@@NUPP_EFFECT@@ ''), (''done'', ''@@NUPP_DONE@@ '')] of
       (kind, p) # _ \<Rightarrow>
         (let ds = drop (length p) s in
          if ds \<noteq> [] \<and> list_all (\<lambda>d. 48 \<le> d \<and> d \<le> 57) ds then Some (kind, digits_value ds) else None)
     | [] \<Rightarrow> None)"

definition take_frame :: "'j vm_env \<Rightarrow> string \<Rightarrow> nat \<Rightarrow> 'j vm \<Rightarrow> 'j vm \<times> unit result" where
  "take_frame env kind incoming v =
    (if incoming \<noteq> vm_sequence v \<or> vm_active v then (v, throw ''Unexpected guest frame sequence'')
     else let v1 = v\<lparr>vm_active := kind \<noteq> ''done'', vm_completed := kind = ''done''\<rparr> in
       let v1 = (if kind = ''done'' then v1 else emit [GuestAsked kind (IntV (int incoming))] v1) in
       case read_mailbox env v1 of
         Inl e \<Rightarrow> (v1, Inl e)
       | Inr res \<Rightarrow>
          (let n = le_nat (ve_read env (vm_mailbox v1 + 132) 4) in
           if n > 2 * MIB then (v1, throw ''Guest transfer exceeds mailbox'')
           else (emit [PostFrame kind (vm_sequence v1) res (ve_read env (vm_mailbox v1 + 2 * MIB) n)] v1, Inr ())))"

definition answer_url :: "'j vm_env \<Rightarrow> jstr \<Rightarrow> 'j vm \<Rightarrow> 'j vm \<times> unit result" where
  "answer_url env rest v =
    (if ve_number env rest \<noteq> IntV (int (vm_sequence v)) \<or> vm_active v then (v, throw ''Unexpected guest frame sequence'')
     else let href = (case read_mailbox env v of Inl _ \<Rightarrow> None | Inr j \<Rightarrow> ve_href env j) in
       (case write_answer (ve_answer env href) [] v of (v1, Inl e) \<Rightarrow> (v1, Inl e) | (v1, Inr _) \<Rightarrow> (next_number env (emit [GuestAsked ''url'' (ve_number env rest)] v1), Inr ())))"

definition guest_line :: "'j vm_env \<Rightarrow> boot_message \<Rightarrow> jstr \<Rightarrow> 'j vm \<Rightarrow> 'j vm \<times> unit result" where
  "guest_line env msg current v =
    (if contains ''Kernel panic - not syncing:'' current \<or> begins_with ''Failed to execute /init'' current \<or>
        begins_with ''@@NUPP_INIT_ERROR@@'' current then (v, Inl (Error current))
     else if begins_with ''@@NUPP_GUEST_EXIT@@'' current \<and> \<not> vm_completed v
     then (v, Inl (Error (js ''LuaJIT exited before returning a result: '' @ current)))
     else if current = js ''@@NUPP_SNAPSHOT_READY@@''
     then (if bm_capture msg then emit [PostSnapshot (memory_of msg)] v else start env msg v, Inr ())
     else if current = js ''@@NUPP_MAILBOX@@ 0''
     then (emit [PostReady] (send env MailboxLine (v\<lparr>vm_timer := True\<rparr>)), Inr ())
     else if begins_with ''@@NUPP_URL@@ '' current then answer_url env (drop 13 current) v
     else case frame_line current of None \<Rightarrow> (v, Inr ()) | Some (kind, n) \<Rightarrow> take_frame env kind n v)"

definition last_units :: "nat \<Rightarrow> jstr \<Rightarrow> jstr" where
  "last_units n s = drop (length s - n) s"

definition serial_byte :: "'j vm_env \<Rightarrow> nat \<Rightarrow> 'j vm \<Rightarrow> 'j vm" where
  "serial_byte env c v =
    (case vm_message v of None \<Rightarrow> v
     | Some msg \<Rightarrow>
        (let v1 = v\<lparr>vm_log := last_units 16384 (vm_log v @ [c])\<rparr> in
         if c = 13 then v1
         else if c \<noteq> 10 then v1\<lparr>vm_line := last_units 16384 (vm_line v1 @ [c])\<rparr>
         else let current = vm_line v1; v2 = emit [PostLog (vm_log v1)] (v1\<lparr>vm_line := []\<rparr>) in
           (case guest_line env msg current v2 of (v3, Inl e) \<Rightarrow> fail_vm e v3 | (v3, Inr _) \<Rightarrow> v3)))"

text \<open>A tick of the interval that keeps the guest's clock.\<close>

definition clock_ticks :: "'j vm_env \<Rightarrow> 'j vm \<Rightarrow> 'j vm" where
  "clock_ticks env v = (if vm_timer v then clock env v else v)"

section \<open>Responses\<close>

text \<open>A response of the host, its JSON text and its payload.\<close>

definition host_response :: "'j vm_env \<Rightarrow> jnum \<Rightarrow> jstr \<Rightarrow> byte list \<Rightarrow> 'j vm \<Rightarrow> 'j vm" where
  "host_response env sequence text payload v =
    (if \<not> vm_active v \<or> sequence \<noteq> IntV (int (vm_sequence v)) then fail_vm (Error (js ''Stale host response'')) v
     else case write_answer text payload v of
       (v1, Inl e) \<Rightarrow> fail_vm e v1
     | (v1, Inr _) \<Rightarrow> next_number env (emit [HostAnswered sequence] (v1\<lparr>vm_active := False\<rparr>)))"

definition unhandled_rejection :: "jserror \<Rightarrow> 'j vm \<Rightarrow> 'j vm" where
  "unhandled_rejection e v = fail_vm e v"

section \<open>What may happen to the worker\<close>

text \<open>The environment gives a clock of eight bytes and 32 random ones.\<close>

definition env_ok :: "'j vm_env \<Rightarrow> bool" where
  "env_ok env \<longleftrightarrow> length (ve_clock env) = 8 \<and> length (ve_random env) = 32"

inductive vm_step :: "'j vm \<Rightarrow> 'j vm \<Rightarrow> bool" where
  boots: "vm_step v (boot aenv response msg v)"
| loaded: "env_ok env \<Longrightarrow> vm_step v (emulator_loaded env v)"
| hears: "env_ok env \<Longrightarrow> vm_step v (serial_byte env c v)"
| ticks: "env_ok env \<Longrightarrow> vm_step v (clock_ticks env v)"
| responds: "env_ok env \<Longrightarrow> vm_step v (host_response env n text payload v)"
| rejects: "vm_step v (unhandled_rejection e v)"

inductive vm_reachable :: "'j vm \<Rightarrow> bool" where
  created: "vm_reachable new_vm"
| stepped: "vm_reachable v \<Longrightarrow> vm_step v v' \<Longrightarrow> vm_reachable v'"

section \<open>Numbering\<close>

text \<open>
  The numbers sent to the guest; the sequences of the posted frames that ask for a response; the numbers the guest gave its questions, and its frames among them; the numbers the host gave its
  responses.
\<close>

definition answers :: "'j vm_output list \<Rightarrow> nat list" where
  "answers os = concat (map (\<lambda>x. case x of SerialSent (NumberLine n) \<Rightarrow> [n] | _ \<Rightarrow> []) os)"

definition asks :: "'j vm_output list \<Rightarrow> nat list" where
  "asks os = concat (map (\<lambda>x. case x of PostFrame kind n _ _ \<Rightarrow> if kind \<noteq> ''done'' then [n] else [] | _ \<Rightarrow> []) os)"

definition guest_numbers :: "'j vm_output list \<Rightarrow> jnum list" where
  "guest_numbers os = concat (map (\<lambda>x. case x of GuestAsked kind n \<Rightarrow> [n] | _ \<Rightarrow> []) os)"

definition frame_numbers :: "'j vm_output list \<Rightarrow> jnum list" where
  "frame_numbers os = concat (map (\<lambda>x. case x of GuestAsked kind n \<Rightarrow> if kind \<noteq> ''url'' then [n] else [] | _ \<Rightarrow> []) os)"

definition host_numbers :: "'j vm_output list \<Rightarrow> jnum list" where
  "host_numbers os = concat (map (\<lambda>x. case x of HostAnswered n \<Rightarrow> [n] | _ \<Rightarrow> []) os)"

lemmas number_defs = answers_def asks_def guest_numbers_def frame_numbers_def host_numbers_def

text \<open>Outputs without a number.\<close>

definition numberless :: "'j vm_output list \<Rightarrow> bool" where
  "numberless os \<longleftrightarrow> answers os = [] \<and> asks os = [] \<and> guest_numbers os = [] \<and> frame_numbers os = [] \<and> host_numbers os = []"

lemma parts_append [simp]:
  "answers (xs @ ys) = answers xs @ answers ys" "asks (xs @ ys) = asks xs @ asks ys" "guest_numbers (xs @ ys) = guest_numbers xs @ guest_numbers ys"
  "frame_numbers (xs @ ys) = frame_numbers xs @ frame_numbers ys" "host_numbers (xs @ ys) = host_numbers xs @ host_numbers ys"
  by (simp_all add: number_defs)

lemma parts_Nil [simp]: "answers [] = []" "asks [] = []" "guest_numbers [] = []" "frame_numbers [] = []" "host_numbers [] = []"
  by (simp_all add: number_defs)

lemma parts_Cons [simp]:
  "answers (x # os) = (case x of SerialSent (NumberLine n) \<Rightarrow> [n] | _ \<Rightarrow> []) @ answers os"
  "asks (x # os) = (case x of PostFrame kind n _ _ \<Rightarrow> if kind \<noteq> ''done'' then [n] else [] | _ \<Rightarrow> []) @ asks os"
  "guest_numbers (x # os) = (case x of GuestAsked kind n \<Rightarrow> [n] | _ \<Rightarrow> []) @ guest_numbers os"
  "frame_numbers (x # os) = (case x of GuestAsked kind n \<Rightarrow> if kind \<noteq> ''url'' then [n] else [] | _ \<Rightarrow> []) @ frame_numbers os"
  "host_numbers (x # os) = (case x of HostAnswered n \<Rightarrow> [n] | _ \<Rightarrow> []) @ host_numbers os"
  by (simp_all add: number_defs)

lemma numberless_append [simp]: "numberless (xs @ ys) \<longleftrightarrow> numberless xs \<and> numberless ys" "numberless []"
  by (auto simp: numberless_def)

lemma numberless_Cons [simp]:
  "numberless (SerialSent StartLine # os) = numberless os" "numberless (SerialSent MailboxLine # os) = numberless os"
  "numberless (StartWrote a bs # os) = numberless os" "numberless (Wrote a bs # os) = numberless os" "numberless (Created n b # os) = numberless os"
  "numberless (EmulatorRun # os) = numberless os" "numberless (PostFailed e l # os) = numberless os" "numberless (PostLog l # os) = numberless os"
  "numberless (PostReady # os) = numberless os" "numberless (PostFallback r # os) = numberless os" "numberless (PostSelected # os) = numberless os"
  "numberless (PostSnapshot n # os) = numberless os"
  by (simp_all add: numberless_def)

abbreviation numbers :: "nat list \<Rightarrow> jnum list" where
  "numbers ns \<equiv> map (\<lambda>n. IntV (int n)) ns"

text \<open>The question that waits for the host.\<close>

definition waiting_numbers :: "'j vm \<Rightarrow> nat list" where
  "waiting_numbers v = (if vm_active v then [vm_sequence v] else [])"

definition numbers_ok :: "'j vm \<Rightarrow> bool" where
  "numbers_ok v \<longleftrightarrow> answers (vm_out v) = [0..<vm_sequence v] \<and>
     guest_numbers (vm_out v) = numbers ([0..<vm_sequence v] @ waiting_numbers v) \<and>
     frame_numbers (vm_out v) = host_numbers (vm_out v) @ numbers (waiting_numbers v) \<and>
     subseq (numbers (asks (vm_out v))) (frame_numbers (vm_out v))"

lemma numbers_emit: "numberless os \<Longrightarrow> numbers_ok (emit os v) = numbers_ok v"
  by (simp add: numbers_ok_def emit_def numberless_def waiting_numbers_def)

lemma numbers_updates [simp]:
  "numbers_ok (v\<lparr>vm_timer := t\<rparr>) = numbers_ok v" "numbers_ok (v\<lparr>vm_line := l\<rparr>) = numbers_ok v"
  "numbers_ok (v\<lparr>vm_log := l\<rparr>) = numbers_ok v" "numbers_ok (v\<lparr>vm_booted := b\<rparr>) = numbers_ok v"
  "numbers_ok (v\<lparr>vm_mailbox := m\<rparr>) = numbers_ok v" "numbers_ok (v\<lparr>vm_message := msg\<rparr>) = numbers_ok v"
  "numbers_ok (v\<lparr>vm_restored := b\<rparr>) = numbers_ok v" "numbers_ok (v\<lparr>vm_completed := b\<rparr>) = numbers_ok v"
  by (simp_all add: numbers_ok_def waiting_numbers_def)

lemma numbers_fail [simp]: "numbers_ok (fail_vm e v) = numbers_ok v"
  by (simp add: fail_vm_def numbers_emit)

lemma numbers_clock [simp]: "numbers_ok (clock env v) = numbers_ok v"
  by (simp add: clock_def numbers_emit)

lemma write_answer_out:
  assumes "write_answer text payload v = (v1, r)"
  obtains os where "v1 = emit os v" "numberless os"
proof -
  have none: "v = emit [] v" by (simp add: emit_def)
  have two: "emit ys (emit xs v) = emit (xs @ ys) v" for xs ys by (simp add: emit_def)
  consider "v1 = v" | os where "v1 = emit os v" "numberless os"
    using assms by (auto simp: write_answer_def write_mailbox_def two split: if_splits)
  then show thesis using none that numberless_append(2) by metis
qed

text \<open>A question is answered: the guest's number is the next one, or it waits already and the host's number is the same.\<close>

lemma next_number_out:
  "vm_out (next_number env v) = vm_out v @ [Wrote (vm_mailbox v + 168) (ve_clock env), SerialSent (NumberLine (vm_sequence v))]"
  "vm_sequence (next_number env v) = vm_sequence v + 1" "vm_active (next_number env v) = vm_active v"
  by (simp_all add: next_number_def send_def clock_def emit_def)

lemma numbers_url_answered:
  assumes "numbers_ok v" "\<not> vm_active v"
  shows "numbers_ok (next_number env (emit [GuestAsked ''url'' (IntV (int (vm_sequence v)))] v))"
  using assms by (auto simp: numbers_ok_def next_number_out waiting_numbers_def emit_def)

lemma numbers_host_answered:
  assumes "numbers_ok v" "vm_active v"
  shows "numbers_ok (next_number env (emit [HostAnswered (IntV (int (vm_sequence v)))] (v\<lparr>vm_active := False\<rparr>)))"
  using assms by (auto simp: numbers_ok_def next_number_out waiting_numbers_def emit_def)

lemma numbers_url:
  assumes "numbers_ok v" "answer_url env rest v = (v', r)"
  shows "numbers_ok v'"
proof (cases "ve_number env rest \<noteq> IntV (int (vm_sequence v)) \<or> vm_active v")
  case False
  obtain v1 q where w: "write_answer (ve_answer env (case read_mailbox env v of Inl _ \<Rightarrow> None | Inr j \<Rightarrow> ve_href env j)) [] v = (v1, q)"
    by fastforce
  then obtain os where os: "v1 = emit os v" "numberless os" by (rule write_answer_out)
  have n1: "numbers_ok v1" using assms(1) os by (simp add: numbers_emit)
  have "vm_sequence v1 = vm_sequence v" "\<not> vm_active v1" using os False by (simp_all add: emit_def)
  then have "numbers_ok (next_number env (emit [GuestAsked ''url'' (ve_number env rest)] v1))" using numbers_url_answered [OF n1] False by simp
  then show ?thesis using assms(2) False w n1 by (cases q) (simp_all add: answer_url_def)
qed (use assms in \<open>simp add: answer_url_def\<close>)

lemma subseq_snoc: "subseq xs ys \<Longrightarrow> subseq xs (ys @ [y])" "subseq xs ys \<Longrightarrow> subseq (xs @ [y]) (ys @ [y])"
  by (auto intro: list_emb_append_mono)

lemma numbers_taken:
  assumes "numbers_ok v" "\<not> vm_active v" "kind \<noteq> ''done''" "kind \<noteq> ''url''"
  defines "v1 \<equiv> emit [GuestAsked kind (IntV (int (vm_sequence v)))] (v\<lparr>vm_active := True, vm_completed := False\<rparr>)"
  shows "numbers_ok v1" "numbers_ok (emit [PostFrame kind (vm_sequence v) j p] v1)"
  using assms(1-4) by (auto simp: v1_def numbers_ok_def waiting_numbers_def emit_def subseq_snoc)

lemma numbers_frame:
  assumes ok: "numbers_ok v" and frame: "take_frame env kind n v = (v', r)" and kind: "kind \<noteq> ''url''"
  shows "numbers_ok v'"
proof (cases "n \<noteq> vm_sequence v \<or> vm_active v")
  case False
  show ?thesis
  proof (cases "kind = ''done''")
    case True
    have "numbers_ok (v\<lparr>vm_active := False, vm_completed := True\<rparr>)" using ok False by (auto simp: numbers_ok_def waiting_numbers_def)
    then have "numbers_ok (v\<lparr>vm_active := False, vm_completed := True\<rparr>)" "numbers_ok (emit [PostFrame ''done'' k j p] (v\<lparr>vm_active := False, vm_completed := True\<rparr>))" for k j p
      by (auto simp: numbers_ok_def emit_def waiting_numbers_def)
    then show ?thesis using frame False True by (auto simp: take_frame_def Let_def split: sum.splits if_splits)
  next
    case other: False
    have "\<not> vm_active v" "n = vm_sequence v" using False by simp_all
    note taken = numbers_taken [OF ok this(1) other kind]
    have "vm_sequence (emit os (v\<lparr>vm_active := True, vm_completed := False\<rparr>)) = vm_sequence v" for os by (simp add: emit_def)
    then show ?thesis using frame False other taken by (auto simp: take_frame_def Let_def split: sum.splits if_splits)
  qed
qed (use assms in \<open>simp add: take_frame_def\<close>)

lemma frame_line_kind: "frame_line s = Some (kind, n) \<Longrightarrow> kind \<noteq> ''url''"
  by (auto simp: frame_line_def Let_def split: list.splits if_splits)

lemma numbers_start [simp]: "numbers_ok (start env msg v) = numbers_ok v"
  by (simp add: start_def Let_def numbers_emit)

lemma numbers_send [simp]: "numbers_ok (send env MailboxLine v) = numbers_ok v"
  by (simp add: send_def numbers_emit)

lemma numbers_line:
  assumes "numbers_ok v" "guest_line env msg current v = (v', r)"
  shows "numbers_ok v'"
  using assms numbers_url [OF assms(1)] numbers_frame [OF assms(1)]
  by (auto simp: guest_line_def numbers_emit dest: frame_line_kind split: if_splits option.splits)

lemma numbers_byte: "numbers_ok v \<Longrightarrow> numbers_ok (serial_byte env c v)"
proof (cases "vm_message v")
  case (Some msg)
  assume ok: "numbers_ok v"
  let ?v1 = "v\<lparr>vm_log := last_units 16384 (vm_log v @ [c])\<rparr>"
  let ?v2 = "emit [PostLog (vm_log ?v1)] (?v1\<lparr>vm_line := []\<rparr>)"
  obtain v3 r where l: "guest_line env msg (vm_line ?v1) ?v2 = (v3, r)" by fastforce
  have "numbers_ok ?v2" using ok by (simp add: numbers_emit)
  then have "numbers_ok v3" using l by (rule numbers_line)
  then show ?thesis using ok Some l by (cases r; cases "c = 10") (simp_all add: serial_byte_def Let_def)
qed (simp add: serial_byte_def)

lemma numbers_response:
  assumes ok: "numbers_ok v"
  shows "numbers_ok (host_response env n text payload v)"
proof (cases "\<not> vm_active v \<or> n \<noteq> IntV (int (vm_sequence v))")
  case False
  obtain v1 q where w: "write_answer text payload v = (v1, q)" by fastforce
  then obtain os where os: "v1 = emit os v" "numberless os" by (rule write_answer_out)
  have n1: "numbers_ok v1" using ok os by (simp add: numbers_emit)
  have "vm_sequence v1 = vm_sequence v" "vm_active v1" using os False by (simp_all add: emit_def)
  then have "numbers_ok (next_number env (emit [HostAnswered n] (v1\<lparr>vm_active := False\<rparr>)))" using numbers_host_answered [OF n1] False by simp
  then show ?thesis using False w n1 by (cases q) (simp_all add: host_response_def)
qed (use ok in \<open>simp add: host_response_def\<close>)

lemma load_snapshot_out:
  assumes "load_snapshot aenv m msg s v = (v', s', b)"
  obtains os where "v' = emit os v" "numberless os" "\<forall>a bs. StartWrote a bs \<notin> set os \<and> Wrote a bs \<notin> set os"
proof -
  have none: "v = emit [] v" by (simp add: emit_def)
  consider "v' = v" | x where "v' = emit [PostFallback x] v"
    using assms by (auto simp: load_snapshot_def split: option.splits if_splits prod.splits sum.splits)
  then show thesis
  proof cases
    case 1
    then show ?thesis using that [of "[]"] none by simp
  next
    case (2 x)
    then show ?thesis using that [of "[PostFallback x]"] by simp
  qed
qed

lemma numbers_boot_guest:
  assumes "numbers_ok v" "boot_guest aenv m msg v = (v', r)"
  shows "numbers_ok v'"
proof -
  let ?v = "v\<lparr>vm_mailbox := (memory_of msg - 16) * MIB\<rparr>"
  obtain s1 wasm where s1: "verified aenv m (js ''assets/v86.wasm'') no_assets = (s1, wasm)" by fastforce
  obtain v2 s2 b where l: "load_snapshot aenv m msg s1 ?v = (v2, s2, b)" by (metis prod_cases3)
  then obtain os where "v2 = emit os ?v" "numberless os" by (rule load_snapshot_out)
  then have "numbers_ok v2" using assms(1) by (simp add: numbers_emit)
  then show ?thesis using assms s1 l
    by (auto simp: boot_guest_def Let_def numbers_emit split: if_splits sum.splits option.splits)
qed

lemma numbers_boot: "numbers_ok v \<Longrightarrow> numbers_ok (boot aenv response msg v)"
  using numbers_boot_guest [of "v\<lparr>vm_booted := True\<rparr>" aenv _ msg]
  by (auto simp: boot_def Let_def split: sum.splits prod.splits)

lemma numbers_step: "vm_step v v' \<Longrightarrow> numbers_ok v \<Longrightarrow> numbers_ok v'"
  by (induction rule: vm_step.induct)
    (auto simp: emulator_loaded_def clock_ticks_def unhandled_rejection_def numbers_boot numbers_byte numbers_response split: option.splits)

lemma numbers_new: "numbers_ok new_vm"
  by (simp add: numbers_ok_def new_vm_def waiting_numbers_def number_defs)

lemma numbers_reachable: "vm_reachable v \<Longrightarrow> numbers_ok v"
  by (induction rule: vm_reachable.induct) (auto intro: numbers_step numbers_new)

section \<open>The areas of the mailbox\<close>

text \<open>
  A reply is written to the areas set aside for it: the clock, the two lengths, the text and the payload. \<^verbatim>\<open>start\<close> writes the header, the random bytes, the configuration and
  the application.
\<close>

definition startup_area :: "nat \<Rightarrow> nat \<Rightarrow> nat \<Rightarrow> bool" where
  "startup_area m a n \<longleftrightarrow> a = m \<and> n = 24 \<or> a = m + 512 \<and> n = 32 \<or> a = m + 4096 \<and> n \<le> 65536 \<or> a = m + MIB \<and> n \<le> 7 * MIB"

definition reply_area :: "nat \<Rightarrow> nat \<Rightarrow> nat \<Rightarrow> bool" where
  "reply_area m a n \<longleftrightarrow> a = m + 168 \<and> n = 8 \<or> (a = m + 136 \<or> a = m + 140) \<and> n = 4 \<or> a = m + 4 * MIB \<and> n \<le> MIB \<or>
     a = m + 5 * MIB \<and> n \<le> 2 * MIB"

fun output_ok :: "nat \<Rightarrow> 'j vm_output \<Rightarrow> bool" where
  "output_ok m (StartWrote a bs) \<longleftrightarrow> startup_area m a (length bs)"
| "output_ok m (Wrote a bs) \<longleftrightarrow> reply_area m a (length bs)"
| "output_ok m _ \<longleftrightarrow> True"

fun writes :: "'j vm_output \<Rightarrow> bool" where
  "writes (StartWrote a bs) \<longleftrightarrow> True"
| "writes (Wrote a bs) \<longleftrightarrow> True"
| "writes _ \<longleftrightarrow> False"

definition memory_ok :: "'j vm \<Rightarrow> bool" where
  "memory_ok v \<longleftrightarrow> (\<forall>x\<in>set (vm_out v). output_ok (vm_mailbox v) x) \<and>
     (case vm_message v of
        None \<Rightarrow> \<not> vm_timer v \<and> \<not> vm_active v \<and> (\<forall>x\<in>set (vm_out v). \<not> writes x)
      | Some msg \<Rightarrow> vm_booted v \<and> startup_fits msg \<and> vm_mailbox v = (memory_of msg - 16) * MIB)"

text \<open>Before the guest is there nothing is written; afterwards the mailbox stays where it is.\<close>

lemma output_ok_unwritten: "\<not> writes x \<Longrightarrow> output_ok m x"
  by (cases x) simp_all

lemma memory_emit:
  assumes "memory_ok v" "\<forall>x\<in>set os. output_ok (vm_mailbox v) x" "\<forall>x\<in>set os. writes x \<longrightarrow> vm_message v \<noteq> None"
  shows "memory_ok (emit os v)"
  using assms by (auto simp: memory_ok_def emit_def split: option.splits)

lemma memory_quiet:
  assumes "memory_ok v" "\<forall>x\<in>set os. \<not> writes x"
  shows "memory_ok (emit os v)"
  using assms by (intro memory_emit) (auto intro: output_ok_unwritten)

lemma memory_updates [simp]:
  "memory_ok (v\<lparr>vm_line := l\<rparr>) = memory_ok v" "memory_ok (v\<lparr>vm_log := l\<rparr>) = memory_ok v"
  "memory_ok (v\<lparr>vm_restored := b\<rparr>) = memory_ok v" "memory_ok (v\<lparr>vm_completed := b\<rparr>) = memory_ok v"
  "memory_ok (v\<lparr>vm_sequence := n\<rparr>) = memory_ok v"
  by (simp_all add: memory_ok_def split: option.splits)

lemma memory_live:
  assumes "memory_ok v" "vm_message v = Some msg"
  shows "memory_ok (v\<lparr>vm_timer := t\<rparr>)" "memory_ok (v\<lparr>vm_active := b\<rparr>)"
  using assms by (auto simp: memory_ok_def)

lemma memory_fail: "memory_ok v \<Longrightarrow> memory_ok (fail_vm e v)"
proof -
  assume "memory_ok v"
  then have "memory_ok (v\<lparr>vm_timer := False\<rparr>)" by (simp add: memory_ok_def split: option.splits)
  then show ?thesis by (simp add: fail_vm_def memory_quiet)
qed

lemma memory_clock:
  assumes "memory_ok v" "vm_message v = Some msg" "env_ok env"
  shows "memory_ok (clock env v)"
  unfolding clock_def by (rule memory_emit [OF assms(1)]) (use assms in \<open>simp_all add: env_ok_def reply_area_def\<close>)

lemma emit_fields [simp]:
  "vm_message (emit os v) = vm_message v" "vm_mailbox (emit os v) = vm_mailbox v" "vm_restored (emit os v) = vm_restored v"
  by (simp_all add: emit_def)

lemma memory_send:
  assumes "memory_ok v" "vm_message v = Some msg" "env_ok env"
  shows "memory_ok (send env l v)"
  unfolding send_def using memory_clock [OF assms] by (rule memory_quiet) simp

lemma memory_next:
  assumes "memory_ok v" "vm_message v = Some msg" "env_ok env"
  shows "memory_ok (next_number env v)"
  unfolding next_number_def by (rule memory_send) (use assms in simp_all)

lemma memory_write_answer:
  assumes "memory_ok v" "vm_message v = Some msg" "write_answer text payload v = (v1, r)"
  shows "memory_ok v1 \<and> vm_message v1 = Some msg"
proof -
  let ?a = "[Wrote (vm_mailbox v + 4 * MIB) (encode_text text), Wrote (vm_mailbox v + 128 + 2 * 4) (le_bytes 4 (length (encode_text text)))] :: 'a vm_output list"
  let ?b = "[Wrote (vm_mailbox v + 5 * MIB) payload, Wrote (vm_mailbox v + 128 + 3 * 4) (le_bytes 4 (length payload))] :: 'a vm_output list"
  have a: "memory_ok (emit ?a v)" if "length (encode_text text) \<le> MIB"
    by (rule memory_emit [OF assms(1)]) (use assms that in \<open>simp_all add: reply_area_def\<close>)
  have b: "memory_ok (emit ?b (emit ?a v))" if "length (encode_text text) \<le> MIB" "length payload \<le> 2 * MIB"
    by (rule memory_emit [OF a]) (use assms that in \<open>simp_all add: reply_area_def\<close>)
  show ?thesis using assms a b by (auto simp: write_answer_def write_mailbox_def split: if_splits)
qed

lemma header_length: "length (header_bytes ns) = 4 * length ns"
  by (induction ns) (simp_all add: header_bytes_def)

lemma memory_start:
  assumes "memory_ok v" "vm_message v = Some msg" "env_ok env"
  shows "memory_ok (start env msg v)"
proof -
  have "startup_fits msg" using assms by (simp add: memory_ok_def)
  then show ?thesis unfolding start_def Let_def
    by (intro memory_emit [OF assms(1)]) (use assms in \<open>auto simp: header_length env_ok_def startup_fits_def startup_area_def\<close>)
qed

lemma memory_url:
  assumes ok: "memory_ok v" "vm_message v = Some msg" "env_ok env" and "answer_url env rest v = (v', r)"
  shows "memory_ok v'"
proof -
  obtain v1 q where w: "write_answer (ve_answer env (case read_mailbox env v of Inl _ \<Rightarrow> None | Inr j \<Rightarrow> ve_href env j)) [] v = (v1, q)"
    by fastforce
  have v1: "memory_ok v1" "vm_message v1 = Some msg" using memory_write_answer [OF ok(1,2) w] by auto
  have "memory_ok (next_number env (emit [GuestAsked ''url'' k] v1))" for k
    by (rule memory_next [OF memory_quiet [OF v1(1)] _ ok(3)]) (use v1(2) in simp_all)
  then show ?thesis using assms(4) w v1 ok(1)
    by (cases q) (auto simp: answer_url_def Let_def split: if_splits)
qed

lemma memory_frame:
  assumes ok: "memory_ok v" "vm_message v = Some msg" and "take_frame env kind n v = (v', r)"
  shows "memory_ok v'"
proof -
  let ?v = "v\<lparr>vm_active := kind \<noteq> ''done'', vm_completed := kind = ''done''\<rparr>"
  have "memory_ok ?v" using memory_live(2) [OF ok] by simp
  then have "memory_ok (emit [GuestAsked kind i] ?v)" "memory_ok ?v" for i by (simp_all add: memory_quiet)
  then have "memory_ok (emit [PostFrame kind k j p] (emit [GuestAsked kind i] ?v))" "memory_ok (emit [PostFrame kind k j p] ?v)" "memory_ok (emit [GuestAsked kind i] ?v)" "memory_ok ?v"
    for i k j p by (simp_all add: memory_quiet)
  then show ?thesis using assms by (auto simp: take_frame_def Let_def split: if_splits sum.splits)
qed

lemma memory_line:
  assumes ok: "memory_ok v" "vm_message v = Some msg" "env_ok env" and l: "guest_line env msg current v = (v', r)"
  shows "memory_ok v'"
proof -
  have "memory_ok (emit [PostReady] (send env MailboxLine (v\<lparr>vm_timer := True\<rparr>)))"
    by (rule memory_quiet [OF memory_send [OF memory_live(1) [OF ok(1,2)]]]) (use ok in simp_all)
  moreover have "memory_ok (emit [PostSnapshot n] v)" for n using ok(1) by (simp add: memory_quiet)
  ultimately show ?thesis using l ok memory_start [OF ok] memory_url [OF ok] memory_frame [OF ok(1,2)]
    by (auto simp: guest_line_def split: if_splits option.splits)
qed

lemma memory_byte:
  assumes ok: "memory_ok v" "env_ok env"
  shows "memory_ok (serial_byte env c v)"
proof (cases "vm_message v")
  case (Some msg)
  let ?v1 = "v\<lparr>vm_log := last_units 16384 (vm_log v @ [c])\<rparr>"
  let ?v2 = "emit [PostLog (vm_log ?v1)] (?v1\<lparr>vm_line := []\<rparr>)"
  obtain v3 r where l: "guest_line env msg (vm_line ?v1) ?v2 = (v3, r)" by fastforce
  have "memory_ok ?v2" using ok by (simp add: memory_quiet)
  from memory_line [OF this _ ok(2) l] Some have "memory_ok v3" by simp
  then show ?thesis using ok Some l by (cases r; cases "c = 10") (simp_all add: serial_byte_def Let_def memory_fail)
qed (use ok in \<open>simp add: serial_byte_def\<close>)

lemma memory_response:
  assumes ok: "memory_ok v" "env_ok env"
  shows "memory_ok (host_response env n text payload v)"
proof (cases "\<not> vm_active v \<or> n \<noteq> IntV (int (vm_sequence v))")
  case False
  then obtain msg where msg: "vm_message v = Some msg" using ok by (auto simp: memory_ok_def split: option.splits)
  obtain v1 q where w: "write_answer text payload v = (v1, q)" by fastforce
  have v1: "memory_ok v1" "vm_message v1 = Some msg" using memory_write_answer [OF ok(1) msg w] by auto
  have "memory_ok (next_number env (emit [HostAnswered k] (v1\<lparr>vm_active := False\<rparr>)))" for k
    by (rule memory_next [OF memory_quiet [OF memory_live(2) [OF v1]] _ ok(2)]) (use v1 in simp_all)
  then show ?thesis using False w v1 by (cases q) (simp_all add: host_response_def memory_fail)
qed (use ok in \<open>simp add: host_response_def memory_fail\<close>)

lemma memory_boot_guest:
  assumes ok: "memory_ok v" and fresh: "vm_message v = None" "vm_booted v" and b: "boot_guest aenv m msg v = (v', r)"
  shows "memory_ok v'"
proof -
  let ?v = "v\<lparr>vm_mailbox := (memory_of msg - 16) * MIB\<rparr>"
  have v: "memory_ok ?v" using ok fresh by (auto simp: memory_ok_def intro: output_ok_unwritten)
  obtain s1 wasm where s1: "verified aenv m (js ''assets/v86.wasm'') no_assets = (s1, wasm)" by fastforce
  obtain v2 s2 sn where l: "load_snapshot aenv m msg s1 ?v = (v2, s2, sn)" by (metis prod_cases3)
  then obtain os where os: "v2 = emit os ?v" "\<forall>a bs. StartWrote a bs \<notin> set os \<and> Wrote a bs \<notin> set os" by (rule load_snapshot_out)
  then have q: "\<forall>x\<in>set os. \<not> writes x" using writes.elims(2) by metis
  have v2: "memory_ok v2" using memory_quiet [OF v q] os by simp
  have live: "memory_ok (v2\<lparr>vm_message := Some msg\<rparr>)" if "startup_fits msg"
    using v2 os fresh that by (auto simp: memory_ok_def emit_def)
  show ?thesis using b s1 l ok v v2 live
    by (auto simp: boot_guest_def Let_def split: if_splits sum.splits option.splits intro!: memory_quiet)
qed

lemma memory_boot: "memory_ok v \<Longrightarrow> memory_ok (boot aenv response msg v)"
proof (cases "vm_booted v")
  case False
  assume ok: "memory_ok v"
  have none: "vm_message v = None" using ok False by (auto simp: memory_ok_def split: option.splits)
  have v1: "memory_ok (v\<lparr>vm_booted := True\<rparr>)" using ok none by (simp add: memory_ok_def)
  have "memory_ok v2" if "boot_guest aenv m msg (v\<lparr>vm_booted := True\<rparr>) = (v2, r)" for m v2 r
    by (rule memory_boot_guest [OF v1 _ _ that]) (use none in simp_all)
  then show ?thesis using ok v1 False by (auto simp: boot_def Let_def memory_fail split: sum.splits prod.splits)
qed (simp add: boot_def memory_fail)

lemma memory_step: "vm_step v v' \<Longrightarrow> memory_ok v \<Longrightarrow> memory_ok v'"
proof (induction rule: vm_step.induct)
  case (loaded env v)
  then show ?case by (auto simp: emulator_loaded_def memory_start split: option.splits)
next
  case (ticks env v)
  show ?case
  proof (cases "vm_timer v")
    case True
    then obtain msg where "vm_message v = Some msg" using ticks.prems by (auto simp: memory_ok_def split: option.splits)
    then show ?thesis using True ticks memory_clock [of v msg env] by (simp add: clock_ticks_def)
  qed (use ticks in \<open>simp add: clock_ticks_def\<close>)
qed (simp_all add: memory_boot memory_byte memory_response unhandled_rejection_def memory_fail)

lemma memory_new: "memory_ok new_vm"
  by (simp add: memory_ok_def new_vm_def)

lemma memory_reachable: "vm_reachable v \<Longrightarrow> memory_ok v"
  by (induction rule: vm_reachable.induct) (auto intro: memory_step memory_new)

section \<open>A guest that boots and asks\<close>

definition plain_record :: asset_record where
  "plain_record = \<lparr>ar_sha256 = replicate 64 48, ar_bytes = IntV 1\<rparr>"

definition plain_manifest :: guest_manifest where
  "plain_manifest = \<lparr>gm_schema = IntV 1, gm_guestAbi = IntV 1, gm_architecture = js ''i386-linux-musl'', gm_buildKey = replicate 64 48,
     gm_assets = Some (map (\<lambda>n. (n, plain_record)) (js ''assets/v86.wasm'' # cold_assets)), gm_delivery = [],
     gm_profiles = [(''runner'', IntV 64)], gm_snapshots = []\<rparr>"

definition plain_assets :: asset_env where
  "plain_assets = \<lparr>ae_fetch = \<lambda>_. Inr \<lparr>ft_ok = True, ft_status = 200, ft_body = Piece [7] StreamEnds\<rparr>, ae_gunzip = \<lambda>_. StreamEnds,
     ae_digest = \<lambda>_. replicate 32 0, ae_same_origin = \<lambda>_. True\<rparr>"

definition plain_message :: boot_message where
  "plain_message = \<lparr>bm_clockFinite = True, bm_profile = ''runner'', bm_app = [1], bm_config = js ''{}'', bm_snapshot = False, bm_capture = False\<rparr>"

definition plain_env :: "nat vm_env" where
  "plain_env = \<lparr>ve_read = \<lambda>_ n. replicate n 0, ve_clock = replicate 8 0, ve_now = 0, ve_random = replicate 32 0, ve_parse = \<lambda>_. Inr 0,
     ve_href = \<lambda>_. None, ve_answer = \<lambda>_. [], ve_number = \<lambda>_. IntV 0\<rparr>"

definition booted_vm :: "nat vm" where
  "booted_vm = boot plain_assets (Inr \<lparr>ft_ok = True, ft_status = 200, ft_body = Inr plain_manifest\<rparr>) plain_message new_vm"

definition all_given :: "asset_state \<Rightarrow> bool" where
  "all_given s \<longleftrightarrow> (\<forall>n res. mget (at_pending s) n = Some res \<longrightarrow> is_ok res)"

lemma plain_fetch: "fetch_asset plain_assets name plain_record = Inr [7]"
proof -
  have "sha256 (ae_digest plain_assets) [7] = ar_sha256 plain_record" by code_simp
  then show ?thesis
    by (simp add: fetch_asset_def check_digest_def plain_assets_def plain_record_def del: bind_eq_Inr)
qed

lemma mget_same: "n \<in> set ns \<Longrightarrow> mget (map (\<lambda>n. (n, r)) ns) n = Some r"
  by (induction ns) (auto simp: mget_Cons)

lemma plain_verified:
  assumes "n \<in> set (js ''assets/v86.wasm'' # cold_assets)" "all_given s"
  shows "is_ok (snd (verified plain_assets plain_manifest n s)) \<and> all_given (fst (verified plain_assets plain_manifest n s))"
proof (cases "mget (at_pending s) n")
  case None
  have r: "asset_of plain_manifest n = Some plain_record"
    using assms(1) by (simp only: asset_of_def plain_manifest_def guest_manifest.simps option.case mget_same)
  have "record_ok plain_record" by (simp add: record_ok_def plain_record_def hex64_def hex_char_def list_all_iff max_safe_def MAX_ASSET_BYTES_def)
  moreover have "list_all safe_path (js ''assets/v86.wasm'' # cold_assets)" by code_simp
  then have "safe_path n" using assms(1) by (auto simp: list_all_iff)
  ultimately have "verified plain_assets plain_manifest n s = settle n (Inr [7]) (s\<lparr>at_fetches := at_fetches s @ [n]\<rparr>)"
    using None r plain_fetch [of n]
    by (simp add: verified.simps [of plain_assets] delivery_of_def) (simp add: plain_assets_def plain_manifest_def)
  then show ?thesis using assms(2) by (auto simp: settle_def all_given_def)
qed (use assms in \<open>auto simp: verified.simps [of plain_assets] all_given_def\<close>)

lemma plain_verified_all:
  "set ns \<subseteq> set (js ''assets/v86.wasm'' # cold_assets) \<Longrightarrow> all_given s \<Longrightarrow>
   list_all is_ok (snd (verified_all plain_assets plain_manifest ns s))"
proof (induction ns arbitrary: s)
  case (Cons n ns)
  then show ?case using plain_verified [of n s] by (auto simp: split_beta Let_def)
qed simp

lemma booted_vm_eq:
  "booted_vm = new_vm\<lparr>vm_mailbox := 48 * MIB, vm_booted := True, vm_message := Some plain_message, vm_out := [Created 64 False]\<rparr>"
proof -
  have m: "supported_manifest plain_manifest" by code_simp
  have fits: "startup_fits plain_message"
    by (simp add: startup_fits_def plain_message_def MIB_def encode_text_def js_def high_surrogate_def low_surrogate_def replaced_def utf8_cp_def)
  have g: "all_given no_assets" by (simp add: all_given_def no_assets_def)
  obtain s1 w where v: "verified plain_assets plain_manifest (js ''assets/v86.wasm'') no_assets = (s1, w)" by fastforce
  have w: "is_ok w" "all_given s1" using plain_verified [OF _ g, of "js ''assets/v86.wasm''"] v by auto
  then obtain wb where wb: "w = Inr wb" by (auto simp: is_ok_iff)
  have "list_all is_ok (snd (verified_all plain_assets plain_manifest cold_assets s1))"
    by (rule plain_verified_all [OF _ w(2)]) auto
  then have e: "first_error (snd (verified_all plain_assets plain_manifest cold_assets s1)) = None"
    by (simp add: first_error_def list_all_iff filter_empty_conv split: list.splits)
  have p: "profile_of plain_message = ''runner''" "memory_of plain_message = 64" "bm_clockFinite plain_message"
    by (simp_all add: profile_of_def memory_of_def plain_message_def)
  have n: "mget (gm_profiles plain_manifest) ''runner'' = Some (IntV 64)" "gm_snapshots plain_manifest = []"
    by (simp_all add: plain_manifest_def mget_Cons)
  show ?thesis
    by (simp add: booted_vm_def boot_def new_vm_def loadManifest_def m p boot_guest_def n fits v wb load_snapshot_def e emit_def Let_def)
qed

text \<open>Characters of a line are only collected.\<close>

lemma line_collected:
  assumes "vm_message v = Some msg" "list_all (\<lambda>c. c \<noteq> 10 \<and> c \<noteq> 13) cs" "length (vm_line v) + length cs \<le> 16384"
  shows "\<exists>lg. fold (serial_byte env) cs v = v\<lparr>vm_log := lg, vm_line := vm_line v @ cs\<rparr>"
  using assms
proof (induction cs arbitrary: v)
  case Nil
  then show ?case by (auto intro: exI [of _ "vm_log v"])
next
  case (Cons c cs)
  let ?v = "v\<lparr>vm_log := last_units 16384 (vm_log v @ [c]), vm_line := vm_line v @ [c]\<rparr>"
  have "serial_byte env c v = ?v" using Cons.prems by (simp add: serial_byte_def Let_def last_units_def)
  then show ?case using Cons.IH [of ?v] Cons.prems by simp
qed

definition asking_vm :: "nat vm" where
  "asking_vm = fold (serial_byte plain_env) (js ''@@NUPP_EFFECT@@ 0'' @ [10]) booted_vm"

definition asked_vm :: "nat vm" where
  "asked_vm = host_response plain_env (IntV 0) [] [] asking_vm"

lemma plain_env_ok: "env_ok plain_env"
  by (simp add: env_ok_def plain_env_def)

lemma fold_reachable: "vm_reachable v \<Longrightarrow> vm_reachable (fold (serial_byte plain_env) cs v)"
proof (induction cs arbitrary: v)
  case (Cons c cs)
  have "vm_reachable (serial_byte plain_env c v)" by (rule vm_reachable.stepped [OF Cons.prems hears [OF plain_env_ok]])
  then show ?case using Cons.IH by simp
qed simp

lemma asked_reachable: "vm_reachable asked_vm"
proof -
  have "vm_reachable booted_vm" unfolding booted_vm_def by (rule vm_reachable.stepped [OF vm_reachable.created boots])
  then have "vm_reachable asking_vm" unfolding asking_vm_def by (rule fold_reachable)
  then show ?thesis unfolding asked_vm_def by (rule vm_reachable.stepped [OF _ responds [OF plain_env_ok]])
qed

lemma plain_take:
  assumes "vm_sequence v = 0" "\<not> vm_active v"
  shows "guest_line plain_env plain_message (js ''@@NUPP_EFFECT@@ 0'') v =
    (emit [PostFrame ''effect'' 0 0 []] (emit [GuestAsked ''effect'' (IntV 0)] (v\<lparr>vm_active := True, vm_completed := False\<rparr>)), Inr ())"
proof -
  have l: "\<not> contains ''Kernel panic - not syncing:'' (js ''@@NUPP_EFFECT@@ 0'')" "\<not> begins_with ''Failed to execute /init'' (js ''@@NUPP_EFFECT@@ 0'')"
    "\<not> begins_with ''@@NUPP_INIT_ERROR@@'' (js ''@@NUPP_EFFECT@@ 0'')" "\<not> begins_with ''@@NUPP_GUEST_EXIT@@'' (js ''@@NUPP_EFFECT@@ 0'')"
    "js ''@@NUPP_EFFECT@@ 0'' \<noteq> js ''@@NUPP_SNAPSHOT_READY@@''" "js ''@@NUPP_EFFECT@@ 0'' \<noteq> js ''@@NUPP_MAILBOX@@ 0''"
    "\<not> begins_with ''@@NUPP_URL@@ '' (js ''@@NUPP_EFFECT@@ 0'')" by (simp_all add: begins_with_def js_def)
  have f: "frame_line (js ''@@NUPP_EFFECT@@ 0'') = Some (''effect'', 0)"
    by (simp add: frame_line_def begins_with_def js_def digits_value_def)
  have z: "le_nat (ve_read plain_env a 4) = 0" for a by (simp add: plain_env_def numeral_eq_Suc)
  have r: "read_mailbox plain_env v' = Inr 0" for v'
    by (simp add: read_mailbox_def z) (simp add: plain_env_def decode_text_def strip_bom_def)
  have p: "ve_read plain_env a 0 = []" for a by (simp add: plain_env_def)
  show ?thesis using assms by (simp add: guest_line_def l f take_frame_def r z p Let_def) (simp add: emit_def)
qed

lemma asking_parts:
  "vm_active asking_vm" "vm_sequence asking_vm = 0" "vm_mailbox asking_vm = 48 * MIB" "asks (vm_out asking_vm) = [0]" "host_numbers (vm_out asking_vm) = []"
proof -
  have b: "vm_message booted_vm = Some plain_message" "vm_line booted_vm = []" "vm_sequence booted_vm = 0" "\<not> vm_active booted_vm"
    "vm_mailbox booted_vm = 48 * MIB" "asks (vm_out booted_vm) = []" "host_numbers (vm_out booted_vm) = []"
    by (simp_all add: booted_vm_eq new_vm_def number_defs)
  have ns: "list_all (\<lambda>c. c \<noteq> 10 \<and> c \<noteq> 13) (js ''@@NUPP_EFFECT@@ 0'')" by (simp add: js_def)
  obtain lg where f: "fold (serial_byte plain_env) (js ''@@NUPP_EFFECT@@ 0'') booted_vm =
      booted_vm\<lparr>vm_log := lg, vm_line := js ''@@NUPP_EFFECT@@ 0''\<rparr>"
    using line_collected [OF b(1) ns, of plain_env] b(2) by (auto simp: js_def)
  let ?v = "emit [PostLog (last_units 16384 (lg @ [10]))] (booted_vm\<lparr>vm_log := last_units 16384 (lg @ [10]), vm_line := []\<rparr>)"
  have a: "asking_vm = emit [PostFrame ''effect'' 0 0 []] (emit [GuestAsked ''effect'' (IntV 0)] (?v\<lparr>vm_active := True, vm_completed := False\<rparr>))"
    using b plain_take [of ?v] by (simp add: asking_vm_def f serial_byte_def Let_def emit_def)
  show "vm_active asking_vm" "vm_sequence asking_vm = 0" "vm_mailbox asking_vm = 48 * MIB" "asks (vm_out asking_vm) = [0]" "host_numbers (vm_out asking_vm) = []"
    unfolding a using b by (simp_all add: emit_def)
qed

lemma asked_parts: "vm_sequence asked_vm = 1" "\<not> vm_active asked_vm" "asks (vm_out asked_vm) = [0]" "Wrote (52 * MIB) [] \<in> set (vm_out asked_vm)"
  using asking_parts
  by (simp_all add: asked_vm_def host_response_def write_answer_def write_mailbox_def encode_text_def next_number_def send_def clock_def emit_def MIB_def)

section \<open>Properties\<close>

text \<open>C20. Frames and answers are numbered in step, by the numbers the two peers use themselves. The numbers the worker sends the guest are 0, 1, 2 and so on, without a gap or a repeat. The
  questions it takes from the guest, frames and URLs, carry in the guest's own lines exactly these numbers, in this order and each once, and then that of the frame that waits, if one does. The
  responses it takes from the host carry in the host's own messages the numbers of the frames, in order, but for the one that waits. And what is posted to the host are such
  frames, each at most once and under the guest's number.
\<close>

theorem frames_numbered_in_step:
  assumes "vm_reachable v"
  shows "answers (vm_out v) = [0..<vm_sequence v] \<and>
    guest_numbers (vm_out v) = numbers ([0..<vm_sequence v] @ waiting_numbers v) \<and>
    frame_numbers (vm_out v) = host_numbers (vm_out v) @ numbers (waiting_numbers v) \<and>
    subseq (numbers (asks (vm_out v))) (frame_numbers (vm_out v))"
  using numbers_reachable [OF assms] unfolding numbers_ok_def .

theorem frames_numbered_in_step_witness:
  "answers (vm_out asked_vm) = [0] \<and> guest_numbers (vm_out asked_vm) = [IntV 0] \<and> asks (vm_out asked_vm) = [0] \<and> frame_numbers (vm_out asked_vm) = host_numbers (vm_out asked_vm)"
  using frames_numbered_in_step [OF asked_reachable] asked_parts by (simp add: waiting_numbers_def)

definition guest_areas :: "nat \<Rightarrow> nat set" where
  "guest_areas m = {m + 128..<m + 136} \<union> {m + 4096..<m + 4096 + MIB} \<union> {m + 2 * MIB..<m + 4 * MIB}"

lemma reply_area_apart:
  assumes "reply_area m a n"
  shows "{a..<a + n} \<inter> guest_areas m = {} \<and> {a..<a + n} \<subseteq> {m..<m + 8 * MIB}"
  using assms by (auto simp: reply_area_def guest_areas_def MIB_def)

text \<open>The places of \<^verbatim>\<open>start\<close> are inside the first eight MiB; the header and the random bytes are apart from what the guest writes.\<close>

lemma startup_area_inside:
  assumes "startup_area m a n"
  shows "{a..<a + n} \<subseteq> {m..<m + 8 * MIB} \<and> (a < m + 4096 \<longrightarrow> {a..<a + n} \<inter> guest_areas m = {})"
  using assms by (auto simp: startup_area_def guest_areas_def MIB_def)

fun write_of :: "'j vm_output \<Rightarrow> (nat \<times> byte list) option" where
  "write_of (StartWrote a bs) = Some (a, bs)"
| "write_of (Wrote a bs) = Some (a, bs)"
| "write_of _ = None"

text \<open>C33. Whatever the worker writes into the guest's memory, when it starts the guest (on a cold boot the guest runs already then) and later, lies in the first eight of the top sixteen MiB
  of the memory its profile has, and nothing is written before the guest is created. A write of \<^verbatim>\<open>start\<close> is one of its four: the header, the random bytes, the configuration, the application. Any other
  write, of the clock, a response or a URL, is outside the areas the guest itself writes: its lengths, its result and its transfer.
\<close>

theorem writes_stay_in_mailbox:
  fixes v :: "'j vm"
  assumes "vm_reachable v" "x \<in> set (vm_out v)" "write_of x = Some (a, bs)"
  shows "{a..<a + length bs} \<subseteq> {vm_mailbox v..<vm_mailbox v + 8 * MIB} \<and>
    (\<exists>msg. vm_message v = Some msg \<and> vm_mailbox v + 16 * MIB = memory_of msg * MIB) \<and>
    (if x = StartWrote a bs then startup_area (vm_mailbox v) a (length bs) else {a..<a + length bs} \<inter> guest_areas (vm_mailbox v) = {})"
proof -
  have ok: "memory_ok v" by (rule memory_reachable [OF assms(1)])
  have x: "x = StartWrote a bs \<or> x = Wrote a bs" using assms(3) by (cases x) auto
  have out: "output_ok (vm_mailbox v) x" using ok assms(2) unfolding memory_ok_def by blast
  obtain msg where m: "vm_message v = Some msg" "vm_mailbox v = (memory_of msg - 16) * MIB"
    using ok assms(2) x by (auto simp: memory_ok_def split: option.splits)
  have "vm_mailbox v + 16 * MIB = memory_of msg * MIB" by (simp add: m(2) memory_of_def flip: add_mult_distrib)
  moreover from x have "{a..<a + length bs} \<subseteq> {vm_mailbox v..<vm_mailbox v + 8 * MIB} \<and>
      (if x = StartWrote a bs then startup_area (vm_mailbox v) a (length bs) else {a..<a + length bs} \<inter> guest_areas (vm_mailbox v) = {})"
  proof
    assume "x = StartWrote a bs"
    then show ?thesis using out startup_area_inside [of "vm_mailbox v" a "length bs"] by simp
  next
    assume "x = Wrote a bs"
    then show ?thesis using out reply_area_apart [of "vm_mailbox v" a "length bs"] by simp
  qed
  ultimately show ?thesis using m(1) by blast
qed

text \<open>The guest that was asked above, and a cold guest that reports it is ready and is started.\<close>

definition started_vm :: "nat vm" where
  "started_vm = fold (serial_byte plain_env) (js ''@@NUPP_SNAPSHOT_READY@@'' @ [10]) booted_vm"

lemma started_parts: "vm_reachable started_vm" "StartWrote (49 * MIB) [1] \<in> set (vm_out started_vm)" "vm_mailbox started_vm = 48 * MIB"
proof -
  have b: "vm_message booted_vm = Some plain_message" "vm_line booted_vm = []" "vm_mailbox booted_vm = 48 * MIB" by (simp_all add: booted_vm_eq new_vm_def)
  have "vm_reachable booted_vm" unfolding booted_vm_def by (rule vm_reachable.stepped [OF vm_reachable.created boots])
  then show "vm_reachable started_vm" unfolding started_vm_def by (rule fold_reachable)
  have ns: "list_all (\<lambda>c. c \<noteq> 10 \<and> c \<noteq> 13) (js ''@@NUPP_SNAPSHOT_READY@@'')" by (simp add: js_def)
  obtain lg where f: "fold (serial_byte plain_env) (js ''@@NUPP_SNAPSHOT_READY@@'') booted_vm =
      booted_vm\<lparr>vm_log := lg, vm_line := js ''@@NUPP_SNAPSHOT_READY@@''\<rparr>"
    using line_collected [OF b(1) ns, of plain_env] b(2) by (auto simp: js_def)
  have l: "guest_line plain_env plain_message (js ''@@NUPP_SNAPSHOT_READY@@'') v = (start plain_env plain_message v, Inr ())" for v :: "nat vm"
    by (simp add: guest_line_def begins_with_def js_def plain_message_def)
  show "StartWrote (49 * MIB) [1] \<in> set (vm_out started_vm)" "vm_mailbox started_vm = 48 * MIB"
    using b by (simp_all add: started_vm_def f serial_byte_def Let_def l start_def emit_def MIB_def) (simp add: plain_message_def)
qed

theorem writes_stay_in_mailbox_witness:
  "{49 * MIB..<49 * MIB + 1} \<subseteq> {48 * MIB..<56 * MIB} \<and> startup_area (48 * MIB) (49 * MIB) 1 \<and>
   (\<exists>msg. vm_message asked_vm = Some msg \<and> vm_mailbox asked_vm + 16 * MIB = memory_of msg * MIB)"
proof -
  have "{49 * MIB..<49 * MIB + 1} \<subseteq> {48 * MIB..<56 * MIB} \<and> startup_area (48 * MIB) (49 * MIB) 1"
    using writes_stay_in_mailbox [OF started_parts(1,2), of "49 * MIB" "[1]"] by (simp add: started_parts(3) MIB_def)
  moreover have "\<exists>msg. vm_message asked_vm = Some msg \<and> vm_mailbox asked_vm + 16 * MIB = memory_of msg * MIB"
    using writes_stay_in_mailbox [OF asked_reachable asked_parts(4), of "52 * MIB" "[]"] by simp
  ultimately show ?thesis by blast
qed

end
