(* ===== verification/Calls.thy ===== *)
theory Calls
  imports Prelude
begin

text \<open>
  Calls that cross a worker's boundary: a request goes out under a fresh number, its promise waits in a \<^verbatim>\<open>Map\<close>, and the
  answer that names it settles it and removes it. The lane, the application's worker and the page keep such tables for
  persistent storage, host calls and runs.
\<close>

record 'v calls =
  ca_next :: nat
  ca_pending :: "nat list"
  ca_settled :: "(nat \<times> 'v) list"

definition no_calls :: "'v calls" where
  "no_calls = \<lparr>ca_next = 1, ca_pending = [], ca_settled = []\<rparr>"

definition issue_call :: "'v calls \<Rightarrow> nat \<times> 'v calls" where
  "issue_call c = (ca_next c, c\<lparr>ca_next := ca_next c + 1, ca_pending := ca_pending c @ [ca_next c]\<rparr>)"

fun call_named :: "jnum \<Rightarrow> 'v calls \<Rightarrow> nat option" where
  "call_named (IntV i) c = (if 0 \<le> i \<and> nat i \<in> set (ca_pending c) then Some (nat i) else None)"
| "call_named _ c = None"

definition settle_call :: "jnum \<Rightarrow> 'v \<Rightarrow> 'v calls \<Rightarrow> 'v calls" where
  "settle_call n v c =
    (case call_named n c of None \<Rightarrow> c
     | Some i \<Rightarrow> c\<lparr>ca_pending := remove1 i (ca_pending c), ca_settled := ca_settled c @ [(i, v)]\<rparr>)"

definition settle_all :: "'v \<Rightarrow> 'v calls \<Rightarrow> 'v calls" where
  "settle_all v c = c\<lparr>ca_settled := ca_settled c @ map (\<lambda>i. (i, v)) (ca_pending c), ca_pending := []\<rparr>"

section \<open>The contract of such a table\<close>

text \<open>\<open>given s\<close> lists the calls that wait and those that settled, each with its number.\<close>

locale call_table =
  fixes issue :: "'s \<Rightarrow> nat \<times> 's"
    and settle :: "jnum \<Rightarrow> 'v \<Rightarrow> 's \<Rightarrow> 's"
    and pending :: "'s \<Rightarrow> nat list"
    and settled :: "'s \<Rightarrow> (nat \<times> 'v) list"
    and inv :: "'s \<Rightarrow> bool"
  assumes inv_distinct: "inv s \<Longrightarrow> distinct (pending s @ map fst (settled s))"
    and issue_law: "inv s \<Longrightarrow> issue s = (i, s') \<Longrightarrow> inv s' \<and> pending s' = pending s @ [i] \<and> settled s' = settled s"
    and settle_law: "inv s \<Longrightarrow> inv (settle n v s) \<and>
      (settle n v s = s \<or> (\<exists>i. n = IntV (int i) \<and> i \<in> set (pending s) \<and> pending (settle n v s) = remove1 i (pending s) \<and>
         settled (settle n v s) = settled s @ [(i, v)]))"
begin

lemma issue_fresh: "inv s \<Longrightarrow> issue s = (i, s') \<Longrightarrow> i \<notin> set (pending s) \<and> i \<notin> fst ` set (settled s)"
  using issue_law [of s i s'] inv_distinct [of s'] by auto

lemma settled_once:
  assumes "inv s"
  shows "distinct (map fst (settled (settle n v s))) \<and> set (settled s) \<subseteq> set (settled (settle n v s))"
  using settle_law [OF assms, of n v] inv_distinct [of "settle n v s"] by auto

lemma settle_again: "inv s \<Longrightarrow> i \<in> fst ` set (settled s) \<Longrightarrow> settle (IntV (int i)) v s = s"
  using settle_law [of s "IntV (int i)" v] inv_distinct [of s] by auto

end

definition calls_ok :: "'v calls \<Rightarrow> bool" where
  "calls_ok c \<longleftrightarrow> distinct (ca_pending c @ map fst (ca_settled c)) \<and> (\<forall>i\<in>set (ca_pending c @ map fst (ca_settled c)). i < ca_next c)"

lemma call_named_Some: "call_named n c = Some i \<longleftrightarrow> n = IntV (int i) \<and> i \<in> set (ca_pending c)"
  by (cases n) auto

interpretation ca: call_table issue_call settle_call ca_pending ca_settled calls_ok
proof
  fix s :: "'v calls" and n v
  assume ok: "calls_ok s"
  show "calls_ok (settle_call n v s) \<and> (settle_call n v s = s \<or> (\<exists>i. n = IntV (int i) \<and> i \<in> set (ca_pending s) \<and>
      ca_pending (settle_call n v s) = remove1 i (ca_pending s) \<and> ca_settled (settle_call n v s) = ca_settled s @ [(i, v)]))"
  proof (cases "call_named n s")
    case (Some i)
    then have i: "n = IntV (int i)" "i \<in> set (ca_pending s)" by (simp_all add: call_named_Some)
    have "settle_call n v s = s\<lparr>ca_pending := remove1 i (ca_pending s), ca_settled := ca_settled s @ [(i, v)]\<rparr>"
      using Some by (simp add: settle_call_def)
    then show ?thesis using ok i by (auto simp: calls_ok_def dest: notin_set_remove1)
  qed (use ok in \<open>simp add: settle_call_def\<close>)
qed (auto simp: calls_ok_def issue_call_def less_SucI)

lemma settle_all_ok: "calls_ok c \<Longrightarrow> calls_ok (settle_all v c)"
  by (auto simp: calls_ok_def settle_all_def comp_def)

lemma no_calls_ok: "calls_ok no_calls"
  by (simp add: calls_ok_def no_calls_def)

end
