(* ===== verification/WorkerLane.thy ===== *)
theory WorkerLane
  imports Calls ChannelHost
begin

text \<open>
  A lane of \<^verbatim>\<open>nupp.workers\<close>, \<^verbatim>\<open>src/runtime/luajit/worker-lane.mjs\<close>: tasks arrive from the pool, wait in the inbox until
  the guest asks for one, run one at a time, may be cancelled before or while they run, and are replied to; their channel
  endpoints move through the lane's own channel table.
\<close>

section \<open>State\<close>

record lane_task =
  lt_id :: int
  lt_module :: jstr
  lt_member :: jstr
  lt_payload :: jstr
  lt_arguments :: "jnum list"
  lt_endpoints :: "moved_endpoint list"

record current_task =
  cu_id :: int
  cu_cancelled :: bool
  cu_deadline :: bool

record lane_reply =
  lr_status :: string
  lr_payload :: "jstr option"
  lr_error :: "jstr option"
  lr_deadline :: bool

text \<open>
  What leaves the lane. \<open>Begun\<close> marks the moment a task becomes the current one; an answer to the guest carries the task it was
  given and, for each endpoint, its description and the argument it is bound to.
\<close>

datatype lane_event =
    LaneReady
  | Begun int
  | LaneStarted int
  | LaneReplied int lane_reply
  | LaneCancelled int bool
  | LaneFailed jstr
  | PersistRequested nat
  | GuestTask lane_task "(description \<times> jnum) list"
  | GuestError jserror
  | LaneUncaught jserror

record worker_lane =
  wl_inbox :: "lane_task list"
  wl_deliver :: bool
  wl_current :: "current_task option"
  wl_booted :: bool
  wl_announcedReady :: bool
  wl_persist :: "bool result calls"
  wl_channels :: channel_host
  wl_log :: "lane_event list"

definition new_lane :: "identities \<Rightarrow> nat \<Rightarrow> worker_lane" where
  "new_lane ids port = \<lparr>wl_inbox = [], wl_deliver = False, wl_current = None, wl_booted = False, wl_announcedReady = False,
     wl_persist = no_calls, wl_channels = createChannelHost ids port, wl_log = []\<rparr>"

definition say :: "lane_event list \<Rightarrow> worker_lane \<Rightarrow> worker_lane" where
  "say evs w = w\<lparr>wl_log := wl_log w @ evs\<rparr>"

section \<open>Operations\<close>

text \<open>A failure; closing the channel table may itself throw, and then nothing is posted.\<close>

definition lane_failed :: "jstr \<Rightarrow> worker_lane \<Rightarrow> worker_lane" where
  "lane_failed e w =
    (let w1 = w\<lparr>wl_channels := discard (wl_channels w) (concat (map lt_endpoints (wl_inbox w))), wl_inbox := []\<rparr> in
     case close_table (wl_channels w1) of
       (h, Inl x) \<Rightarrow> say [LaneUncaught x] (w1\<lparr>wl_channels := h\<rparr>)
     | (h, Inr _) \<Rightarrow> say [LaneFailed e] (w1\<lparr>wl_channels := h\<rparr>))"

definition requestPersistentStorage :: "worker_lane \<Rightarrow> worker_lane" where
  "requestPersistentStorage w = (case issue_call (wl_persist w) of (i, c) \<Rightarrow> say [PersistRequested i] (w\<lparr>wl_persist := c\<rparr>))"

definition argument_at :: "lane_task \<Rightarrow> nat \<Rightarrow> jnum" where
  "argument_at t i = (if i < length (lt_arguments t) then lt_arguments t ! i else Undef)"

text \<open>The guest gets the task it waited for.\<close>

definition start_task :: "lane_task \<Rightarrow> worker_lane \<Rightarrow> worker_lane" where
  "start_task t w =
    (let w1 = say [Begun (lt_id t)] (w\<lparr>wl_current := Some \<lparr>cu_id = lt_id t, cu_cancelled = False, cu_deadline = False\<rparr>\<rparr>) in
     case adopt (reset (wl_channels w1)) (lt_endpoints t) of
       (h, Inl e) \<Rightarrow> say [GuestError e] (w1\<lparr>wl_channels := h\<rparr>)
     | (h, Inr ds) \<Rightarrow> say [LaneStarted (lt_id t), GuestTask t (zip ds (map (argument_at t) [0..<length ds]))] (w1\<lparr>wl_channels := h\<rparr>))"

definition nextTask :: "worker_lane \<Rightarrow> worker_lane" where
  "nextTask w =
    (case wl_inbox w of
       t # ts \<Rightarrow> start_task t (w\<lparr>wl_inbox := ts\<rparr>)
     | [] \<Rightarrow> w\<lparr>wl_deliver := True\<rparr>)"

definition assign :: "lane_task \<Rightarrow> worker_lane \<Rightarrow> worker_lane" where
  "assign t w = (if wl_deliver w then start_task t (w\<lparr>wl_deliver := False\<rparr>) else w\<lparr>wl_inbox := wl_inbox w @ [t]\<rparr>)"

datatype lane_message =
    PersistResponse jnum "jstr option" bool  \<comment> \<open>request, error, granted\<close>
  | BootLane "jstr option"  \<comment> \<open>the manifest's digest, if it is a string\<close>
  | TaskMessage lane_task
  | CancelMessage int bool

definition boot_lane :: "jstr option \<Rightarrow> worker_lane \<Rightarrow> worker_lane" where
  "boot_lane digest w =
    (if wl_booted w then w
     else let w1 = w\<lparr>wl_booted := True\<rparr> in
       case digest of None \<Rightarrow> lane_failed (js ''a worker lane was booted without its manifest digest'') w1 | Some _ \<Rightarrow> w1)"

text \<open>A cancellation: of the running task, of one still queued, or of neither.\<close>

definition cancel_task :: "int \<Rightarrow> bool \<Rightarrow> worker_lane \<Rightarrow> worker_lane" where
  "cancel_task i deadline w =
    (case wl_current w of
       Some c \<Rightarrow>
         if cu_id c = i then w\<lparr>wl_current := Some (c\<lparr>cu_cancelled := True, cu_deadline := deadline\<rparr>), wl_channels := interrupt (wl_channels w) deadline\<rparr>
         else (case filter (\<lambda>t. lt_id t = i) (wl_inbox w) of [] \<Rightarrow> w
               | t # _ \<Rightarrow> say [LaneCancelled i deadline] (w\<lparr>wl_inbox := remove1 t (wl_inbox w), wl_channels := discard (wl_channels w) (lt_endpoints t)\<rparr>))
     | None \<Rightarrow>
         (case filter (\<lambda>t. lt_id t = i) (wl_inbox w) of [] \<Rightarrow> w
          | t # _ \<Rightarrow> say [LaneCancelled i deadline] (w\<lparr>wl_inbox := remove1 t (wl_inbox w), wl_channels := discard (wl_channels w) (lt_endpoints t)\<rparr>)))"

fun lane_receives :: "lane_message \<Rightarrow> worker_lane \<Rightarrow> worker_lane" where
  "lane_receives (PersistResponse n err granted) w =
    w\<lparr>wl_persist := settle_call n (case err of Some e \<Rightarrow> Inl (Error e) | None \<Rightarrow> Inr granted) (wl_persist w)\<rparr>"
| "lane_receives (BootLane digest) w = boot_lane digest w"
| "lane_receives (TaskMessage t) w = assign t w"
| "lane_receives (CancelMessage i deadline) w = cancel_task i deadline w"

section \<open>Effects of the guest\<close>

text \<open>A checkpoint answers, after a turn of the event loop, whether the current task is cancelled.\<close>

definition checkpoint :: "worker_lane \<Rightarrow> bool \<times> bool" where
  "checkpoint w = (case wl_current w of Some c \<Rightarrow> (cu_cancelled c, cu_deadline c) | None \<Rightarrow> (False, False))"

definition announce :: "worker_lane \<Rightarrow> worker_lane" where
  "announce w = (if wl_announcedReady w then w else say [LaneReady] (w\<lparr>wl_announcedReady := True\<rparr>))"

definition lane_next :: "worker_lane \<Rightarrow> worker_lane" where
  "lane_next w = nextTask (announce w)"

definition reply_task :: "int \<Rightarrow> lane_reply \<Rightarrow> worker_lane \<Rightarrow> worker_lane" where
  "reply_task i r w =
    (case wl_current w of
       Some c \<Rightarrow>
         if cu_id c = i then
           (case settle (wl_channels w) of
              (h, Inl e) \<Rightarrow> say [GuestError e] (w\<lparr>wl_channels := h\<rparr>)
            | (h, Inr _) \<Rightarrow> lane_next (say [LaneReplied i r] (w\<lparr>wl_channels := h, wl_current := None\<rparr>)))
         else lane_next w
     | None \<Rightarrow> lane_next w)"

definition lane_unsupported :: "jstr \<Rightarrow> worker_lane \<Rightarrow> worker_lane" where
  "lane_unsupported operation w = say [GuestError (Error (js ''unsupported browser worker lane operation '' @ operation))] w"

text \<open>Which frames begin a turn: those with a lane effect other than a checkpoint.\<close>

definition beginsTask :: "string \<Rightarrow> (string \<times> string) list option \<Rightarrow> bool" where
  "beginsTask kind requests \<longleftrightarrow> kind = ''effects'' \<and>
    list_ex (\<lambda>(k, operation). k = ''lane'' \<and> operation \<noteq> ''checkpoint'') (case requests of None \<Rightarrow> [] | Some rs \<Rightarrow> rs)"

section \<open>What may happen to a lane\<close>

definition begun :: "worker_lane \<Rightarrow> int list" where
  "begun w = concat (map (\<lambda>e. case e of Begun i \<Rightarrow> [i] | _ \<Rightarrow> []) (wl_log w))"

definition replied :: "worker_lane \<Rightarrow> int list" where
  "replied w = concat (map (\<lambda>e. case e of LaneReplied i _ \<Rightarrow> [i] | _ \<Rightarrow> []) (wl_log w))"

definition dropped :: "worker_lane \<Rightarrow> int list" where
  "dropped w = concat (map (\<lambda>e. case e of LaneCancelled i _ \<Rightarrow> [i] | _ \<Rightarrow> []) (wl_log w))"

definition known_tasks :: "worker_lane \<Rightarrow> int list" where
  "known_tasks w = map lt_id (wl_inbox w) @ begun w @ dropped w"

text \<open>The pool numbers its tasks, so that a task that arrives is new.\<close>

inductive lane_step :: "worker_lane \<Rightarrow> worker_lane \<Rightarrow> bool" where
  task_arrives: "lt_id t \<notin> set (known_tasks w) \<Longrightarrow> lane_step w (lane_receives (TaskMessage t) w)"
| cancel_arrives: "lane_step w (lane_receives (CancelMessage i d) w)"
| boot_arrives: "lane_step w (lane_receives (BootLane digest) w)"
| storage_answers: "lane_step w (lane_receives (PersistResponse n err granted) w)"
| storage_asked: "lane_step w (requestPersistentStorage w)"
| asks_next: "lane_step w (lane_next w)"
| replies: "lane_step w (reply_task i r w)"
| asks_other: "lane_step w (lane_unsupported name w)"
| breaks: "lane_step w (lane_failed e w)"

inductive lane_reachable :: "worker_lane \<Rightarrow> bool" where
  opened: "lane_reachable (new_lane ids port)"
| stepped: "lane_reachable w \<Longrightarrow> lane_step w w' \<Longrightarrow> lane_reachable w'"

section \<open>The invariant\<close>

definition lane_ok :: "worker_lane \<Rightarrow> bool" where
  "lane_ok w \<longleftrightarrow> distinct (known_tasks w) \<and> distinct (replied w) \<and> set (replied w) \<subseteq> set (begun w) \<and>
     (\<forall>c. wl_current w = Some c \<longrightarrow> cu_id c \<in> set (begun w) \<and> cu_id c \<notin> set (replied w)) \<and>
     (wl_deliver w \<longrightarrow> wl_inbox w = []) \<and> calls_ok (wl_persist w)"

lemma log_says [simp]:
  "begun (say evs w) = begun w @ concat (map (\<lambda>e. case e of Begun i \<Rightarrow> [i] | _ \<Rightarrow> []) evs)"
  "replied (say evs w) = replied w @ concat (map (\<lambda>e. case e of LaneReplied i _ \<Rightarrow> [i] | _ \<Rightarrow> []) evs)"
  "dropped (say evs w) = dropped w @ concat (map (\<lambda>e. case e of LaneCancelled i _ \<Rightarrow> [i] | _ \<Rightarrow> []) evs)"
  by (simp_all add: begun_def replied_def dropped_def say_def)

lemma say_fields [simp]:
  "wl_inbox (say evs w) = wl_inbox w" "wl_deliver (say evs w) = wl_deliver w" "wl_current (say evs w) = wl_current w"
  "wl_persist (say evs w) = wl_persist w" "wl_channels (say evs w) = wl_channels w"
  by (simp_all add: say_def)

text \<open>The logs depend on nothing but the log.\<close>

lemma log_updates [simp]:
  "begun (w\<lparr>wl_inbox := x\<rparr>) = begun w" "replied (w\<lparr>wl_inbox := x\<rparr>) = replied w" "dropped (w\<lparr>wl_inbox := x\<rparr>) = dropped w"
  "begun (w\<lparr>wl_deliver := b\<rparr>) = begun w" "replied (w\<lparr>wl_deliver := b\<rparr>) = replied w" "dropped (w\<lparr>wl_deliver := b\<rparr>) = dropped w"
  "begun (w\<lparr>wl_current := c\<rparr>) = begun w" "replied (w\<lparr>wl_current := c\<rparr>) = replied w" "dropped (w\<lparr>wl_current := c\<rparr>) = dropped w"
  "begun (w\<lparr>wl_channels := h\<rparr>) = begun w" "replied (w\<lparr>wl_channels := h\<rparr>) = replied w" "dropped (w\<lparr>wl_channels := h\<rparr>) = dropped w"
  "begun (w\<lparr>wl_persist := p\<rparr>) = begun w" "replied (w\<lparr>wl_persist := p\<rparr>) = replied w" "dropped (w\<lparr>wl_persist := p\<rparr>) = dropped w"
  "begun (w\<lparr>wl_booted := b\<rparr>) = begun w" "replied (w\<lparr>wl_booted := b\<rparr>) = replied w" "dropped (w\<lparr>wl_booted := b\<rparr>) = dropped w"
  "begun (w\<lparr>wl_announcedReady := b\<rparr>) = begun w" "replied (w\<lparr>wl_announcedReady := b\<rparr>) = replied w"
  "dropped (w\<lparr>wl_announcedReady := b\<rparr>) = dropped w"
  by (simp_all add: begun_def replied_def dropped_def)

lemma start_task_parts:
  "begun (start_task t w) = begun w @ [lt_id t]" "replied (start_task t w) = replied w" "dropped (start_task t w) = dropped w"
  "wl_inbox (start_task t w) = wl_inbox w" "wl_deliver (start_task t w) = wl_deliver w" "wl_persist (start_task t w) = wl_persist w"
  "wl_current (start_task t w) = Some \<lparr>cu_id = lt_id t, cu_cancelled = False, cu_deadline = False\<rparr>"
  by (auto simp: start_task_def Let_def split: prod.splits sum.splits)

lemma start_task_ok:
  assumes "lane_ok w" "lt_id t \<notin> set (known_tasks w)"
  shows "lane_ok (start_task t w)"
  using assms unfolding lane_ok_def known_tasks_def start_task_parts by auto

lemma assign_ok:
  assumes "lane_ok w" "lt_id t \<notin> set (known_tasks w)"
  shows "lane_ok (assign t w)"
proof (cases "wl_deliver w")
  case True
  have "lane_ok (w\<lparr>wl_deliver := False\<rparr>)" "lt_id t \<notin> set (known_tasks (w\<lparr>wl_deliver := False\<rparr>))"
    using assms by (simp_all add: lane_ok_def known_tasks_def)
  then show ?thesis using True start_task_ok by (simp add: assign_def)
next
  case False
  then show ?thesis using assms by (auto simp: assign_def lane_ok_def known_tasks_def)
qed

lemma nextTask_ok:
  assumes "lane_ok w"
  shows "lane_ok (nextTask w)"
proof (cases "wl_inbox w")
  case Nil
  then show ?thesis using assms by (simp add: nextTask_def lane_ok_def known_tasks_def)
next
  case (Cons t ts)
  have "lane_ok (w\<lparr>wl_inbox := ts\<rparr>)" "lt_id t \<notin> set (known_tasks (w\<lparr>wl_inbox := ts\<rparr>))"
    using assms Cons by (auto simp: lane_ok_def known_tasks_def)
  then show ?thesis using Cons start_task_ok by (simp add: nextTask_def)
qed

lemma lane_next_ok: "lane_ok w \<Longrightarrow> lane_ok (lane_next w)"
proof -
  assume "lane_ok w"
  then have "lane_ok (announce w)" by (simp add: announce_def lane_ok_def known_tasks_def)
  then show ?thesis by (simp add: lane_next_def nextTask_ok)
qed

text \<open>Events that concern no task.\<close>

fun quiet :: "lane_event \<Rightarrow> bool" where
  "quiet (Begun _) \<longleftrightarrow> False"
| "quiet (LaneReplied _ _) \<longleftrightarrow> False"
| "quiet (LaneCancelled _ _) \<longleftrightarrow> False"
| "quiet _ \<longleftrightarrow> True"

lemma quiet_parts:
  assumes "list_all quiet evs"
  shows "begun (say evs w) = begun w" "replied (say evs w) = replied w" "dropped (say evs w) = dropped w"
proof -
  have "concat (map (\<lambda>e. case e of Begun i \<Rightarrow> [i] | _ \<Rightarrow> []) evs) = [] \<and> concat (map (\<lambda>e. case e of LaneReplied i _ \<Rightarrow> [i] | _ \<Rightarrow> []) evs) = [] \<and>
      concat (map (\<lambda>e. case e of LaneCancelled i _ \<Rightarrow> [i] | _ \<Rightarrow> []) evs) = []"
    using assms by (induction evs) (auto split: lane_event.splits)
  then show "begun (say evs w) = begun w" "replied (say evs w) = replied w" "dropped (say evs w) = dropped w"
    unfolding log_says by (simp_all only: append_Nil2)
qed

lemma quiet_ok:
  assumes "lane_ok w" "list_all quiet evs"
  shows "lane_ok (say evs w)"
  using assms(1) by (simp add: lane_ok_def known_tasks_def quiet_parts [OF assms(2)] del: log_says)

lemma channels_ok [simp]: "lane_ok (w\<lparr>wl_channels := h\<rparr>) = lane_ok w"
  by (simp add: lane_ok_def known_tasks_def)

lemma reply_task_ok:
  assumes ok: "lane_ok w"
  shows "lane_ok (reply_task i r w)"
proof (cases "\<exists>c. wl_current w = Some c \<and> cu_id c = i")
  case True
  then obtain c where c: "wl_current w = Some c" "cu_id c = i" by blast
  obtain h q where q: "settle (wl_channels w) = (h, q)" by fastforce
  show ?thesis
  proof (cases q)
    case (Inl e)
    then show ?thesis using c q ok quiet_ok [of "w\<lparr>wl_channels := h\<rparr>" "[GuestError e]"] by (simp add: reply_task_def)
  next
    case (Inr u)
    have "lane_ok (say [LaneReplied i r] (w\<lparr>wl_channels := h, wl_current := None\<rparr>))"
      using ok c by (auto simp: lane_ok_def known_tasks_def)
    then show ?thesis using c q Inr lane_next_ok by (simp add: reply_task_def)
  qed
qed (use ok lane_next_ok in \<open>auto simp: reply_task_def split: option.splits\<close>)

lemma inbox_drop:
  assumes ok: "lane_ok w" and t: "filter (\<lambda>t. lt_id t = i) (wl_inbox w) = t # ts"
  shows "lane_ok (say [LaneCancelled i d] (w\<lparr>wl_inbox := remove1 t (wl_inbox w), wl_channels := h\<rparr>))"
proof -
  have tin: "t \<in> set (wl_inbox w)" "lt_id t = i" using t by (auto simp: filter_eq_Cons_iff)
  obtain as bs where ab: "wl_inbox w = as @ t # bs" "t \<notin> set as" using split_list_first [OF tin(1)] by blast
  then have "remove1 t (wl_inbox w) = as @ bs" by (simp add: remove1_append)
  then show ?thesis using ok tin(2) ab by (auto simp: lane_ok_def known_tasks_def)
qed

lemma cancel_ok: "lane_ok w \<Longrightarrow> lane_ok (cancel_task i d w)"
  using inbox_drop [of w i] by (auto simp: cancel_task_def lane_ok_def known_tasks_def split: option.splits list.splits)

lemma lane_failed_ok: "lane_ok w \<Longrightarrow> lane_ok (lane_failed e w)"
proof -
  assume "lane_ok w"
  then have "lane_ok (w\<lparr>wl_inbox := []\<rparr>)" by (auto simp: lane_ok_def known_tasks_def)
  then have "lane_ok (say [LaneFailed e] (w\<lparr>wl_inbox := [], wl_channels := h\<rparr>))"
    "lane_ok (say [LaneUncaught x] (w\<lparr>wl_inbox := [], wl_channels := h\<rparr>))" for h x
    using quiet_ok [of "w\<lparr>wl_inbox := [], wl_channels := h\<rparr>"] by simp_all
  then show ?thesis by (auto simp: lane_failed_def Let_def split: prod.splits sum.splits)
qed

lemma persist_ok: "lane_ok w \<Longrightarrow> calls_ok p \<Longrightarrow> lane_ok (w\<lparr>wl_persist := p\<rparr>)"
  by (simp add: lane_ok_def known_tasks_def)

lemma lane_step_ok: "lane_step w w' \<Longrightarrow> lane_ok w \<Longrightarrow> lane_ok w'"
proof (induction rule: lane_step.induct)
  case (task_arrives t w)
  then show ?case by (simp add: assign_ok)
next
  case (boot_arrives w digest)
  then have "lane_ok (w\<lparr>wl_booted := True\<rparr>)" by (simp add: lane_ok_def known_tasks_def)
  then show ?case using boot_arrives by (simp add: boot_lane_def Let_def lane_failed_ok split: option.splits)
next
  case (storage_answers w n err granted)
  then have "calls_ok (wl_persist w)" by (simp add: lane_ok_def)
  from ca.settle_law [OF this] show ?case using storage_answers by (simp add: persist_ok)
next
  case (storage_asked w)
  obtain i c where c: "issue_call (wl_persist w) = (i, c)" by fastforce
  have "calls_ok c" using ca.issue_law [OF _ c] storage_asked by (simp add: lane_ok_def)
  then have "lane_ok (say [PersistRequested i] (w\<lparr>wl_persist := c\<rparr>))" using storage_asked by (intro quiet_ok persist_ok) simp_all
  then show ?case by (simp add: requestPersistentStorage_def c)
next
  case (asks_other w name)
  then show ?case unfolding lane_unsupported_def by (intro quiet_ok) simp_all
qed (simp_all add: cancel_ok lane_next_ok reply_task_ok lane_failed_ok)

lemma lane_reachable_ok: "lane_reachable w \<Longrightarrow> lane_ok w"
proof (induction rule: lane_reachable.induct)
  case (opened ids port)
  show ?case by (simp add: lane_ok_def new_lane_def known_tasks_def begun_def replied_def dropped_def no_calls_ok)
qed (rule lane_step_ok)

section \<open>Properties\<close>

text \<open>C32. A lane answers for each task at most once: with the guest's reply, and then the task had become the current one, or with a
  cancellation, and then nothing of it had run; whatever order tasks, cancellations, replies and failures come in. And no
  answer about persistent storage settles a request twice.
\<close>

theorem lane_answers_once:
  assumes "lane_reachable w"
  shows "distinct (replied w @ dropped w) \<and> set (replied w) \<subseteq> set (begun w) \<and> distinct (begun w) \<and> set (begun w) \<inter> set (dropped w) = {} \<and>
    distinct (map fst (ca_settled (wl_persist w)))"
  using lane_reachable_ok [OF assms] ca.inv_distinct [of "wl_persist w"] by (auto simp: lane_ok_def known_tasks_def)

definition small_task :: "int \<Rightarrow> lane_task" where
  "small_task i = \<lparr>lt_id = i, lt_module = [], lt_member = [], lt_payload = [], lt_arguments = [], lt_endpoints = []\<rparr>"

text \<open>Two tasks arrive, the second is cancelled while it waits, the first runs and is replied to.\<close>

definition small_reply :: lane_reply where
  "small_reply = \<lparr>lr_status = ''done'', lr_payload = None, lr_error = None, lr_deadline = False\<rparr>"

definition busy_lane :: worker_lane where
  "busy_lane = reply_task 1 small_reply (lane_next (lane_receives (CancelMessage 2 False)
     (lane_receives (TaskMessage (small_task 2)) (lane_receives (TaskMessage (small_task 1)) (new_lane [] 1)))))"

lemma busy_lane_reachable: "lane_reachable busy_lane"
proof -
  have "lane_reachable (lane_receives (TaskMessage (small_task 1)) (new_lane [] 1))"
    by (rule lane_reachable.stepped [OF lane_reachable.opened task_arrives])
      (simp add: known_tasks_def new_lane_def begun_def dropped_def)
  moreover have "lt_id (small_task 2) \<notin> set (known_tasks (lane_receives (TaskMessage (small_task 1)) (new_lane [] 1)))"
    by (simp add: known_tasks_def new_lane_def begun_def dropped_def small_task_def assign_def)
  ultimately show ?thesis unfolding busy_lane_def
    by (rule lane_reachable.stepped [OF lane_reachable.stepped [OF lane_reachable.stepped [OF lane_reachable.stepped
          [OF _ task_arrives] cancel_arrives] asks_next] replies])
qed

theorem lane_answers_once_witness:
  "replied busy_lane = [1] \<and> dropped busy_lane = [2] \<and> distinct (replied busy_lane @ dropped busy_lane)"
proof -
  have "replied busy_lane = [1]" "dropped busy_lane = [2]"
    by (simp_all add: busy_lane_def new_lane_def createChannelHost_def assign_def cancel_task_def small_task_def lane_next_def announce_def
        nextTask_def start_task_def reset_def adopt_def reply_task_def settle_def mkeys_def say_def replied_def dropped_def)
  then show ?thesis using lane_answers_once [OF busy_lane_reachable] by simp
qed

end
