(* ===== verification/BrowserApp.thy ===== *)
theory BrowserApp
  imports Calls HostChannel
begin

text \<open>
  The two ends of a packaged application in the browser: its worker, \<^verbatim>\<open>src/runtime/luajit/browser-worker.mjs\<close>, which runs it and
  forwards host calls to the page, and the page's entry, \<^verbatim>\<open>src/runtime/wasm/browser-entry.mjs\<close>, which starts it once, answers
  the calls and pushes messages. What the application and the page's handlers do is an outcome given to a step.
\<close>

section \<open>The application's worker\<close>

datatype worker_post =
    WPersistRequest nat
  | WHostCall nat jstr "jval list"
  | WHostCancel nat
  | WHostRelease jstr "jval list"
  | WHostEnd
  | WRunOk int "jval option"
  | WRunFailed int jstr

record browser_worker =
  bw_active :: bool
  bw_abortReason :: "jstr option"
  bw_persist :: "bool result calls"
  bw_hostCalls :: "jval list result calls"
  bw_hostPush :: bool
  bw_earlyPushes :: "(jstr \<times> jval list) list"
  bw_posts :: "worker_post list"

definition new_worker :: browser_worker where
  "new_worker = \<lparr>bw_active = False, bw_abortReason = None, bw_persist = no_calls, bw_hostCalls = no_calls, bw_hostPush = False,
     bw_earlyPushes = [], bw_posts = []\<rparr>"

definition worker_posts :: "worker_post list \<Rightarrow> browser_worker \<Rightarrow> browser_worker" where
  "worker_posts ps w = w\<lparr>bw_posts := bw_posts w @ ps\<rparr>"

text \<open>The handler of a kind the page answers.\<close>

definition page_call :: "jstr \<Rightarrow> jval list \<Rightarrow> browser_worker \<Rightarrow> nat \<times> browser_worker" where
  "page_call kind args w = (case issue_call (bw_hostCalls w) of (i, c) \<Rightarrow> (i, worker_posts [WHostCall i kind args] (w\<lparr>bw_hostCalls := c\<rparr>)))"

definition page_call_aborts :: "nat \<Rightarrow> browser_worker \<Rightarrow> browser_worker" where
  "page_call_aborts i w = worker_posts [WHostCancel i] w"

definition page_release :: "jstr \<Rightarrow> jval list \<Rightarrow> browser_worker \<Rightarrow> browser_worker" where
  "page_release kind results w = worker_posts [WHostRelease kind results] w"

text \<open>The host option of a run: the handlers of its module, then those the page answers; \<open>hd_module\<close> is what loading the module gave.\<close>

record host_description =
  hd_module :: "jstr list result option"
  hd_kinds :: "jstr list"
  hd_end :: bool

fun page_kinds :: "jstr list \<Rightarrow> jstr list \<Rightarrow> jstr list result" where
  "page_kinds own [] = Inr own"
| "page_kinds own (kind # kinds) =
    (if kind \<in> set own then Inl (Error (js ''host kind '' @ kind @ js '' is answered by both the page and its module''))
     else page_kinds (own @ [kind]) kinds)"

definition hostOption :: "host_description option \<Rightarrow> jstr list option result" where
  "hostOption d =
    (case d of None \<Rightarrow> Inr None
     | Some h \<Rightarrow> bind (case hd_module h of None \<Rightarrow> Inr [] | Some m \<Rightarrow> m) (\<lambda>own. bind (page_kinds own (hd_kinds h)) (\<lambda>kinds. Inr (Some kinds))))"

text \<open>The channel has opened: pushes go straight to it from now on, those that waited first; one that throws ends the loop.\<close>

fun flush_pushes :: "(jstr \<times> jval list) list \<Rightarrow> host_channel \<Rightarrow> host_channel \<times> unit result" where
  "flush_pushes [] ch = (ch, Inr ())"
| "flush_pushes ((kind, values) # rest) ch =
    (case pushMessage ch kind values of (ch1, Inl e) \<Rightarrow> (ch1, Inl e) | (ch1, Inr _) \<Rightarrow> flush_pushes rest ch1)"

definition host_start :: "host_channel \<Rightarrow> browser_worker \<Rightarrow> browser_worker \<times> host_channel \<times> unit result" where
  "host_start ch w =
    (case flush_pushes (bw_earlyPushes w) ch of (ch1, r) \<Rightarrow> (w\<lparr>bw_hostPush := True, bw_earlyPushes := []\<rparr>, ch1, r))"

definition host_end :: "bool \<Rightarrow> browser_worker \<Rightarrow> browser_worker" where
  "host_end described w = (let w1 = w\<lparr>bw_hostPush := False\<rparr> in if described then worker_posts [WHostEnd] w1 else w1)"

definition request_storage :: "browser_worker \<Rightarrow> browser_worker" where
  "request_storage w = (case issue_call (bw_persist w) of (i, c) \<Rightarrow> worker_posts [WPersistRequest i] (w\<lparr>bw_persist := c\<rparr>))"

datatype to_worker =
    TPersistResponse jnum "jstr option" bool
  | THostPush jstr "jval list"
  | THostAnswer jnum "jval list result"
  | TCancel "jstr option"
  | TRun jnum

text \<open>A message of the page. \<open>ch\<close> is the channel of the running application; a push that throws is only reported.\<close>

fun worker_receives :: "to_worker \<Rightarrow> browser_worker \<times> host_channel \<Rightarrow> browser_worker \<times> host_channel" where
  "worker_receives (TPersistResponse n err granted) (w, ch) =
    (w\<lparr>bw_persist := settle_call n (case err of Some e \<Rightarrow> Inl (Error e) | None \<Rightarrow> Inr granted) (bw_persist w)\<rparr>, ch)"
| "worker_receives (THostPush kind values) (w, ch) =
    (if bw_hostPush w then (w, fst (pushMessage ch kind values))
     else if length (bw_earlyPushes w) < 4096 then (w\<lparr>bw_earlyPushes := bw_earlyPushes w @ [(kind, values)]\<rparr>, ch)
     else (w, ch))"
| "worker_receives (THostAnswer n r) (w, ch) = (w\<lparr>bw_hostCalls := settle_call n r (bw_hostCalls w)\<rparr>, ch)"
| "worker_receives (TCancel reason) (w, ch) =
    (if bw_active w then (w\<lparr>bw_abortReason := Some (case reason of Some r \<Rightarrow> r | None \<Rightarrow> js ''the browser application was cancelled'')\<rparr>, ch)
     else (w, ch))"
| "worker_receives (TRun n) (w, ch) =
    (if \<not> isInteger n then (w, ch)
     else if bw_active w then (worker_posts [WRunFailed (the_int n) (js ''a Nupp browser application is already running'')] w, ch)
     else (w\<lparr>bw_active := True, bw_abortReason := None\<rparr>, ch))"

definition run_settles :: "int \<Rightarrow> jval option result \<Rightarrow> browser_worker \<Rightarrow> browser_worker" where
  "run_settles i r w = (worker_posts [case r of Inr v \<Rightarrow> WRunOk i v | Inl e \<Rightarrow> WRunFailed i (message e)] w)\<lparr>bw_active := False\<rparr>"

section \<open>The page\<close>

datatype page_post =
    PRun nat "host_description option"
  | PPush jstr "jval list"
  | PCancel jstr
  | PAnswer jnum "jval list result"
  | PPersist jnum "bool result"

record page_option =
  po_handlers :: "(jstr \<times> page_handler) list"
  po_end :: bool
  po_module :: "jstr list result option"

text \<open>\<open>pg_calls\<close>: the host calls in flight, with whether their controller was aborted.\<close>

record page =
  pg_pending :: "jval option result calls"
  pg_worker :: bool
  pg_launched :: bool
  pg_host :: "page_option option"
  pg_calls :: "(jnum, bool) jmap"
  pg_terminated :: bool
  pg_released :: "(jstr \<times> jval list) list"
  pg_ended :: bool
  pg_posts :: "page_post list"

definition new_page :: page where
  "new_page = \<lparr>pg_pending = no_calls, pg_worker = False, pg_launched = False, pg_host = None, pg_calls = [], pg_terminated = False,
     pg_released = [], pg_ended = False, pg_posts = []\<rparr>"

text \<open>Posting to the worker, if there is one.\<close>

definition page_posts :: "page_post \<Rightarrow> page \<Rightarrow> page" where
  "page_posts m p = (if pg_worker p then p\<lparr>pg_posts := pg_posts p @ [m]\<rparr> else p)"

fun callable :: "page_handler \<Rightarrow> bool" where
  "callable HandlerFunction = True"
| "callable (HandlerObject _) = True"
| "callable HandlerInvalid = False"

text \<open>\<open>None\<close>: no host option; \<open>Some None\<close>: one that is no object.\<close>

definition hostDescription :: "page_option option option \<Rightarrow> page \<Rightarrow> (page \<times> host_description option) result" where
  "hostDescription host p =
    (case host of
       None \<Rightarrow> Inr (p, None)
     | Some None \<Rightarrow> throw ''the host option must be an object''
     | Some (Some h) \<Rightarrow>
        (case filter (\<lambda>(kind, handler). \<not> callable handler) (po_handlers h) of
           (kind, _) # _ \<Rightarrow> Inl (Error (js ''host handler '' @ kind @ js '' must be a function or an object with call''))
         | [] \<Rightarrow> Inr (p\<lparr>pg_host := Some h\<rparr>,
             Some \<lparr>hd_module = po_module h, hd_kinds = map fst (po_handlers h), hd_end = po_end h\<rparr>)))"

text \<open>\<open>run\<close>: an error, which rejects at once, or the number of the run that is waited for.\<close>

definition run_page :: "page_option option option \<Rightarrow> page \<Rightarrow> page \<times> nat result" where
  "run_page host p =
    (if pg_launched p then (p, throw ''this browser application already started'')
     else case hostDescription host p of
       Inl e \<Rightarrow> (p, Inl e)
     | Inr (p1, d) \<Rightarrow>
        (case issue_call (pg_pending p1) of (i, c) \<Rightarrow>
          (page_posts (PRun i d) (p1\<lparr>pg_worker := True, pg_pending := c, pg_launched := True\<rparr>), Inr i)))"

definition push_page :: "jstr \<Rightarrow> jval list \<Rightarrow> page \<Rightarrow> page" where
  "push_page kind values p = page_posts (PPush kind values) p"

definition cancel_page :: "jstr option \<Rightarrow> page \<Rightarrow> page" where
  "cancel_page reason p = page_posts (PCancel (case reason of Some r \<Rightarrow> r | None \<Rightarrow> js ''the browser application was cancelled'')) p"

definition close_page :: "page \<Rightarrow> page" where
  "close_page p = p\<lparr>pg_pending := settle_all (throw ''the Nupp browser Worker was closed'') (pg_pending p),
     pg_terminated := pg_terminated p \<or> pg_worker p\<rparr>"

definition hostHandler :: "jstr \<Rightarrow> page \<Rightarrow> page_handler option" where
  "hostHandler kind p = (case pg_host p of None \<Rightarrow> None | Some h \<Rightarrow> mget (po_handlers h) kind)"

definition hostResults :: "answered \<Rightarrow> jval list" where
  "hostResults a = (case a of AnsweredNothing \<Rightarrow> [] | AnsweredArray vs \<Rightarrow> vs | AnsweredOne v \<Rightarrow> [v])"

datatype to_page =
    FPersistRequest jnum
  | FHostCall jnum jstr "jval list"
  | FHostCancel jnum
  | FHostRelease jstr "jval list"
  | FHostEnd
  | FRunAnswer jnum "jval option result"

fun page_receives :: "to_page \<Rightarrow> page \<Rightarrow> page" where
  "page_receives (FPersistRequest n) p = p"
| "page_receives (FHostCall n kind args) p = p\<lparr>pg_calls := mset (pg_calls p) n False\<rparr>"
| "page_receives (FHostCancel n) p = (if mhas (pg_calls p) n then p\<lparr>pg_calls := mset (pg_calls p) n True\<rparr> else p)"
| "page_receives (FHostRelease kind results) p =
    (case hostHandler kind p of Some (HandlerObject True) \<Rightarrow> p\<lparr>pg_released := pg_released p @ [(kind, results)]\<rparr> | _ \<Rightarrow> p)"
| "page_receives FHostEnd p = (case pg_host p of Some h \<Rightarrow> if po_end h then p\<lparr>pg_ended := True\<rparr> else p | None \<Rightarrow> p)"
| "page_receives (FRunAnswer n r) p = p\<lparr>pg_pending := settle_call n r (pg_pending p)\<rparr>"

text \<open>The page's own storage answers a request; a handler answers a call, whose controller is then forgotten.\<close>

definition storage_settles :: "jnum \<Rightarrow> bool result \<Rightarrow> page \<Rightarrow> page" where
  "storage_settles n r p = page_posts (PPersist n r) p"

definition handler_settles :: "jnum \<Rightarrow> answered result \<Rightarrow> page \<Rightarrow> page" where
  "handler_settles n r p =
    (page_posts (PAnswer n (case r of Inl e \<Rightarrow> Inl e | Inr a \<Rightarrow> Inr (hostResults a))) p)\<lparr>pg_calls := mdelete (pg_calls p) n\<rparr>"

definition worker_errors :: "jserror \<Rightarrow> page \<Rightarrow> page" where
  "worker_errors e p = p\<lparr>pg_pending := settle_all (Inl e) (pg_pending p)\<rparr>"

section \<open>Pushes that come early\<close>

definition checked_push :: "jstr \<Rightarrow> jval list \<Rightarrow> tagged list result" where
  "checked_push kind values = bind (checkedKind kind) (\<lambda>_.
     if length values > MAX_VALUES then Inl (Error (js ''host push '' @ kind @ js '' carries more than 255 values''))
     else map_results (\<lambda>i v. inboundValue kind v (i + 1)) 0 values)"

lemma pushMessage_checked:
  "pushMessage ch kind values =
    (case checked_push kind values of
       Inl e \<Rightarrow> (ch, Inl e)
     | Inr checked \<Rightarrow>
        if hc_closed ch then (ch, Inr ()) else
        let (inbound, dropped) =
              drop_oldest (hc_inbound ch @ [\<lparr>ms_kind = kind, ms_values = checked, ms_encoded = None\<rparr>]) (hc_dropped ch);
            ch1 = ch\<lparr>hc_inbound := inbound, hc_dropped := dropped\<rparr>
        in (if hc_notify ch1 \<and> \<not> hc_wakeScheduled ch1 then ch1\<lparr>hc_wakeScheduled := True\<rparr> else ch1, Inr ()))"
  unfolding pushMessage_def checked_push_def by (rule refl)

lemma push_refused: "checked_push kind values = Inl e \<Longrightarrow> pushMessage ch kind values = (ch, Inl e)"
  by (simp add: pushMessage_checked)

lemma push_accepted:
  assumes "checked_push kind values = Inr checked" "\<not> hc_closed ch" "length (hc_inbound ch) < MAX_INBOUND_MESSAGES"
  shows "\<exists>ch'. pushMessage ch kind values = (ch', Inr ()) \<and> \<not> hc_closed ch' \<and>
    hc_inbound ch' = hc_inbound ch @ [\<lparr>ms_kind = kind, ms_values = checked, ms_encoded = None\<rparr>]"
proof -
  have "drop_oldest (hc_inbound ch @ [m]) d = (hc_inbound ch @ [m], d)" for m d
    using assms(3) by (cases "hc_inbound ch") (simp_all add: MAX_INBOUND_MESSAGES_def)
  then show ?thesis using assms(2) unfolding pushMessage_checked assms(1) by (simp add: Let_def)
qed

definition early_messages :: "(jstr \<times> jval list) list \<Rightarrow> message_item list" where
  "early_messages early = map (\<lambda>(kind, values). \<lparr>ms_kind = kind, ms_values = (case checked_push kind values of Inr c \<Rightarrow> c | Inl _ \<Rightarrow> []),
     ms_encoded = None\<rparr>) early"

lemma flush_accepts:
  assumes "list_all (\<lambda>(kind, values). is_ok (checked_push kind values)) early" "\<not> hc_closed ch"
    "length (hc_inbound ch) + length early \<le> MAX_INBOUND_MESSAGES"
  shows "snd (flush_pushes early ch) = Inr () \<and> hc_inbound (fst (flush_pushes early ch)) = hc_inbound ch @ early_messages early"
  using assms
proof (induction early arbitrary: ch)
  case (Cons p early)
  obtain kind vs where p: "p = (kind, vs)" by (cases p)
  obtain checked where c: "checked_push kind vs = Inr checked" using Cons.prems(1) p by (auto simp: is_ok_iff)
  obtain ch' where ch': "pushMessage ch kind vs = (ch', Inr ())" "\<not> hc_closed ch'"
    "hc_inbound ch' = hc_inbound ch @ [\<lparr>ms_kind = kind, ms_values = checked, ms_encoded = None\<rparr>]"
    using push_accepted [OF c Cons.prems(2)] Cons.prems(3) by auto
  have "snd (flush_pushes early ch') = Inr () \<and> hc_inbound (fst (flush_pushes early ch')) = hc_inbound ch' @ early_messages early"
    by (rule Cons.IH) (use Cons.prems ch' in simp_all)
  then show ?case using p ch' c by (simp add: early_messages_def)
qed (simp add: early_messages_def)

text \<open>Messages that reach the worker before its channel has opened.\<close>

fun pushes_wait :: "(jstr \<times> jval list) list \<Rightarrow> browser_worker \<times> host_channel \<Rightarrow> browser_worker \<times> host_channel" where
  "pushes_wait [] s = s"
| "pushes_wait ((kind, values) # rest) s = pushes_wait rest (worker_receives (THostPush kind values) s)"

lemma pushes_wait_kept:
  "\<not> bw_hostPush w \<Longrightarrow> length (bw_earlyPushes w) \<le> 4096 \<Longrightarrow>
   pushes_wait early (w, ch) = (w\<lparr>bw_earlyPushes := take 4096 (bw_earlyPushes w @ early)\<rparr>, ch)"
proof (induction early arbitrary: w)
  case (Cons p early)
  obtain kind vs where p: "p = (kind, vs)" by (cases p)
  show ?case
  proof (cases "length (bw_earlyPushes w) < 4096")
    case True
    then show ?thesis using Cons p by (simp add: take_Cons')
  next
    case False
    then have "length (bw_earlyPushes w) = 4096" using Cons.prems by simp
    then show ?thesis using Cons p by simp
  qed
qed simp

lemma fresh_channel:
  assumes "createHostChannel option = Inr ch"
  shows "hc_inbound ch = []" "\<not> hc_closed ch"
  using assms by (auto simp: createHostChannel_def Let_def split: option.splits if_splits)

section \<open>A run\<close>

inductive page_step :: "page \<Rightarrow> page \<Rightarrow> bool" where
  runs: "run_page host p = (p', r) \<Longrightarrow> page_step p p'"
| pushes: "page_step p (push_page kind values p)"
| cancels: "page_step p (cancel_page reason p)"
| closes: "page_step p (close_page p)"
| hears: "page_step p (page_receives m p)"
| stores: "page_step p (storage_settles n b p)"
| handles: "page_step p (handler_settles n a p)"
| errs: "page_step p (worker_errors e p)"

inductive page_reachable :: "page \<Rightarrow> bool" where
  opened: "page_reachable new_page"
| stepped: "page_reachable p \<Longrightarrow> page_step p p' \<Longrightarrow> page_reachable p'"

definition runs_of :: "page \<Rightarrow> nat list" where
  "runs_of p = concat (map (\<lambda>m. case m of PRun i _ \<Rightarrow> [i] | _ \<Rightarrow> []) (pg_posts p))"

definition page_ok :: "page \<Rightarrow> bool" where
  "page_ok p \<longleftrightarrow> calls_ok (pg_pending p) \<and> runs_of p = (if pg_launched p then [1] else []) \<and>
     set (ca_pending (pg_pending p) @ map fst (ca_settled (pg_pending p))) \<subseteq> {1} \<and>
     (\<not> pg_launched p \<longrightarrow> pg_pending p = no_calls)"

lemma posts_runs: "runs_of (page_posts m p) = runs_of p @ (if pg_worker p then (case m of PRun i _ \<Rightarrow> [i] | _ \<Rightarrow> []) else [])"
  by (simp add: runs_of_def page_posts_def)

lemma posts_fields [simp]:
  "pg_pending (page_posts m p) = pg_pending p" "pg_launched (page_posts m p) = pg_launched p"
  by (simp_all add: page_posts_def)

lemma page_ok_posts: "page_ok p \<Longrightarrow> (case m of PRun _ _ \<Rightarrow> False | _ \<Rightarrow> True) \<Longrightarrow> page_ok (page_posts m p)"
  by (auto simp: page_ok_def posts_runs split: page_post.splits)

lemma page_ok_settle: "page_ok p \<Longrightarrow> page_ok (p\<lparr>pg_pending := settle_call n r (pg_pending p)\<rparr>)"
proof -
  assume ok: "page_ok p"
  have c: "calls_ok (pg_pending p)" using ok by (simp add: page_ok_def)
  consider "settle_call n r (pg_pending p) = pg_pending p"
    | i where "i \<in> set (ca_pending (pg_pending p))" "ca_pending (settle_call n r (pg_pending p)) = remove1 i (ca_pending (pg_pending p))"
      "ca_settled (settle_call n r (pg_pending p)) = ca_settled (pg_pending p) @ [(i, r)]"
    using ca.settle_law [OF c, of n r] by blast
  then show ?thesis
  proof cases
    case 1
    then show ?thesis using ok by simp
  next
    case (2 i)
    have "pg_launched p" using 2 ok by (auto simp: page_ok_def no_calls_def)
    then show ?thesis using ok 2 ca.settle_law [OF c, of n r] set_remove1_subset [of i "ca_pending (pg_pending p)"]
      unfolding page_ok_def by (auto simp: runs_of_def)
  qed
qed

lemma page_ok_settle_all:
  assumes ok: "page_ok p"
  shows "page_ok (p\<lparr>pg_pending := settle_all r (pg_pending p)\<rparr>)"
proof -
  have "calls_ok (settle_all r (pg_pending p))" using ok by (simp add: page_ok_def settle_all_ok)
  moreover have "set (ca_pending (settle_all r (pg_pending p)) @ map fst (ca_settled (settle_all r (pg_pending p)))) \<subseteq> {1}"
    using ok unfolding page_ok_def by (auto simp: settle_all_def)
  moreover have "settle_all r no_calls = no_calls" by (simp add: settle_all_def no_calls_def)
  ultimately show ?thesis using ok unfolding page_ok_def by (auto simp: runs_of_def)
qed

lemma page_ok_updates [simp]:
  "page_ok (p\<lparr>pg_calls := c\<rparr>) = page_ok p" "page_ok (p\<lparr>pg_released := l\<rparr>) = page_ok p" "page_ok (p\<lparr>pg_ended := b\<rparr>) = page_ok p"
  "page_ok (p\<lparr>pg_terminated := b\<rparr>) = page_ok p" "page_ok (p\<lparr>pg_host := h\<rparr>) = page_ok p"
  by (simp_all add: page_ok_def runs_of_def)

lemma page_ok_run:
  assumes ok: "page_ok p" and r: "run_page host p = (p', r)"
  shows "page_ok p'"
proof (cases "pg_launched p")
  case False
  then have n: "pg_pending p = no_calls" "runs_of p = []" using ok by (auto simp: page_ok_def)
  show ?thesis
  proof (cases "hostDescription host p")
    case (Inr pd)
    obtain p1 d where pd: "pd = (p1, d)" by (cases pd)
    have p1: "pg_pending p1 = no_calls" "runs_of p1 = []"
      using Inr pd n by (auto simp: hostDescription_def runs_of_def split: option.splits list.splits)
    have "runs_of (p1\<lparr>pg_worker := True, pg_pending := c, pg_launched := True\<rparr>) = []" for c using p1 by (simp add: runs_of_def)
    then have "page_ok (page_posts (PRun 1 d) (p1\<lparr>pg_worker := True, pg_pending := snd (issue_call no_calls), pg_launched := True\<rparr>))"
      using ca.issue_law [OF no_calls_ok, of 1 "snd (issue_call no_calls)"]
      by (simp add: page_ok_def posts_runs) (simp add: issue_call_def no_calls_def)
    then show ?thesis using r Inr pd p1 False by (auto simp: run_page_def issue_call_def no_calls_def)
  qed (use ok r False in \<open>simp add: run_page_def\<close>)
qed (use ok r in \<open>simp add: run_page_def\<close>)

lemma page_step_ok: "page_step p p' \<Longrightarrow> page_ok p \<Longrightarrow> page_ok p'"
proof (induction rule: page_step.induct)
  case (hears p m)
  then show ?case by (cases m) (auto simp: page_ok_settle split: option.splits page_handler.splits bool.splits)
next
  case (closes p)
  then show ?case using page_ok_settle_all [of p] by (simp add: close_page_def)
qed (auto simp: page_ok_run push_page_def cancel_page_def storage_settles_def handler_settles_def worker_errors_def page_ok_settle_all
    intro!: page_ok_posts)

lemma page_reachable_ok: "page_reachable p \<Longrightarrow> page_ok p"
proof (induction rule: page_reachable.induct)
  case opened
  show ?case by (simp add: page_ok_def new_page_def no_calls_ok runs_of_def) (simp add: no_calls_def)
qed (rule page_step_ok)

section \<open>Properties\<close>

text \<open>
  Messages the page pushes before the application's channel has opened wait for it, the first 4096 of them, and if each is valid
  they are the first messages of the channel, in the order they were pushed, none lost.
\<close>

theorem early_pushes_in_order:
  assumes "createHostChannel option = Inr ch" "list_all (\<lambda>(kind, values). is_ok (checked_push kind values)) (take 4096 early)"
  shows "case host_start ch (fst (pushes_wait early (new_worker, ch))) of (w, ch', r) \<Rightarrow>
    r = Inr () \<and> bw_earlyPushes w = [] \<and> hc_inbound ch' = early_messages (take 4096 early)"
proof -
  have w: "fst (pushes_wait early (new_worker, ch)) = new_worker\<lparr>bw_earlyPushes := take 4096 early\<rparr>"
    by (simp add: pushes_wait_kept new_worker_def)
  show ?thesis unfolding w using flush_accepts [OF assms(2), of ch] fresh_channel [OF assms(1)]
    by (simp add: host_start_def split_beta MAX_INBOUND_MESSAGES_def)
qed

definition plain_option :: host_option where
  "plain_option = \<lparr>ho_handlers = Some [], ho_max = Undef, ho_end = NoCallback, ho_start = Callback\<rparr>"

theorem early_pushes_in_order_witness:
  "\<exists>ch. createHostChannel (Some plain_option) = Inr ch \<and>
     map ms_kind (hc_inbound (fst (snd (host_start ch (fst (pushes_wait [(js ''a.b'', []), (js ''a.c'', [])] (new_worker, ch))))))) = [js ''a.b'', js ''a.c'']"
proof -
  obtain ch where ch: "createHostChannel (Some plain_option) = Inr ch"
    by (simp add: createHostChannel_def plain_option_def normalizedHandlers_def DEFAULT_REASSEMBLY_BYTES_def max_safe_def)
  have k: "is_ok (checked_push (js ''a.b'') [])" "is_ok (checked_push (js ''a.c'') [])"
    by (simp_all add: checked_push_def checkedKind_def KIND_def kind_char_def word_char_def starts_with_def js_def MAX_VALUES_def)
  then have "list_all (\<lambda>(kind, values). is_ok (checked_push kind values)) (take 4096 [(js ''a.b'', []), (js ''a.c'', [])])" by simp
  from early_pushes_in_order [OF ch this] show ?thesis using ch by (auto simp: early_messages_def split: prod.splits simp del: pushes_wait.simps)
qed

text \<open>An early push that is not valid, which would only be reported had it come later, fails the opening of the channel instead, and the
  valid pushes behind it are gone.
\<close>

theorem invalid_early_push_loses_the_rest:
  assumes "checked_push kind values = Inl e" "bw_earlyPushes w = (kind, values) # rest"
  shows "host_start ch w = (w\<lparr>bw_hostPush := True, bw_earlyPushes := []\<rparr>, ch, Inl e) \<and>
    worker_receives (THostPush kind values) (w\<lparr>bw_hostPush := True\<rparr>, ch) = (w\<lparr>bw_hostPush := True\<rparr>, ch)"
  using assms push_refused [OF assms(1), of ch] by (simp add: host_start_def)

theorem invalid_early_push_loses_the_rest_witness:
  "\<forall>ch. bw_earlyPushes (fst (host_start ch (new_worker\<lparr>bw_earlyPushes := [(js ''nupp.x'', []), (js ''a.b'', [])]\<rparr>))) = []"
proof -
  obtain e where "checked_push (js ''nupp.x'') [] = Inl e"
    by (simp add: checked_push_def checkedKind_def KIND_def kind_char_def word_char_def starts_with_def js_def)
  from invalid_early_push_loses_the_rest [OF this, of "new_worker\<lparr>bw_earlyPushes := [(js ''nupp.x'', []), (js ''a.b'', [])]\<rparr>" "[(js ''a.b'', [])]"]
  show ?thesis by simp
qed

text \<open>
  A page starts its application at most once, and the one run it starts settles at most once, whatever the worker answers and
  whether or not it is closed; a second call of \<^verbatim>\<open>run\<close> is refused and changes nothing.
\<close>

theorem page_runs_once:
  assumes "page_reachable p"
  shows "length (runs_of p) \<le> 1 \<and> length (ca_settled (pg_pending p)) + length (ca_pending (pg_pending p)) \<le> 1 \<and>
    (pg_launched p \<longrightarrow> run_page host p = (p, throw ''this browser application already started''))"
proof -
  have ok: "page_ok p" by (rule page_reachable_ok [OF assms])
  then have d: "distinct (ca_pending (pg_pending p) @ map fst (ca_settled (pg_pending p)))" by (simp add: page_ok_def calls_ok_def)
  have "length (ca_pending (pg_pending p) @ map fst (ca_settled (pg_pending p))) =
      card (set (ca_pending (pg_pending p) @ map fst (ca_settled (pg_pending p))))"
    using distinct_card [OF d] by simp
  also have "\<dots> \<le> card {1 :: nat}" using ok unfolding page_ok_def by (intro card_mono) auto
  finally show ?thesis using ok by (auto simp: page_ok_def run_page_def split: if_splits)
qed

definition started_page :: page where
  "started_page = fst (run_page None new_page)"

theorem page_runs_once_witness:
  "run_page None started_page = (started_page, throw ''this browser application already started'')"
proof -
  have "page_reachable started_page"
    unfolding started_page_def using page_reachable.stepped [OF page_reachable.opened runs] by (metis prod.collapse)
  moreover have "pg_launched started_page" by code_simp
  ultimately show ?thesis using page_runs_once [of started_page None] by blast
qed

end
