(* ===== verification/GuestHost.thy ===== *)
theory GuestHost
  imports Codec
begin

text \<open>
  The owner of one guest worker, \<^verbatim>\<open>src/runtime/luajit/host.mjs\<close>: it launches the worker, from a snapshot
  when it may, falls back to a cold boot once if a restored guest fails before it is ready,
  delivers the guest's frames one at a time, answers them, and ends the worker on a
  timeout, a failure or a cancellation. Promises are the tickets of their receivers. The
  compiler client of the same file sends one request at a time over such a guest.
\<close>

section \<open>State\<close>

text \<open>
  A frame is its type, its sequence number and its parsed \<^verbatim>\<open>result\<close>, of which the compiler
  client reads the fields below (an absent or empty error is \<open>None\<close>).
\<close>

record compiler_result =
  cr_ready :: bool
  cr_ok :: bool
  cr_error :: "jstr option"
  cr_response :: jstr

datatype guest_frame = GuestFrame string jnum "compiler_result option"

type_synonym response_header = "(string \<times> jstr) list"

datatype guest_event =
    Launched nat bool  \<comment> \<open>instance, with the snapshot\<close>
  | TerminatedWorker nat
  | Delivered nat guest_frame
  | Rejected nat jserror
  | Progress string
  | ResponsePosted nat int response_header "byte list"

record guest =
  gu_worker :: "nat option"
  gu_nextWorker :: nat
  gu_restored :: bool
  gu_retried :: bool
  gu_ready :: bool
  gu_closed :: bool
  gu_waiting :: "nat option"
  gu_resultSequence :: jnum
  gu_timer :: "(nat \<times> bool) option"  \<comment> \<open>who it fails: the instance, and whether through its own \<^verbatim>\<open>failed\<close>\<close>
  gu_closedReason :: "jserror option"
  gu_messages :: "guest_frame list"
  gu_captureSnapshot :: bool
  gu_log :: "guest_event list"

definition note_event :: "guest_event list \<Rightarrow> guest \<Rightarrow> guest" where
  "note_event evs g = g\<lparr>gu_log := gu_log g @ evs\<rparr>"

definition close_guest :: "jserror \<Rightarrow> guest \<Rightarrow> guest" where
  "close_guest reason g =
    (if gu_closed g then g else
     note_event ((case gu_worker g of None \<Rightarrow> [] | Some w \<Rightarrow> [TerminatedWorker w]) @
                 (case gu_waiting g of None \<Rightarrow> [] | Some k \<Rightarrow> [Rejected k reason]))
       (g\<lparr>gu_closed := True, gu_closedReason := Some reason, gu_timer := None, gu_waiting := None\<rparr>))"

text \<open>What \<^verbatim>\<open>receive\<close> gives the receiver \<open>k\<close>: an error or a frame at once, or nothing yet.\<close>

definition receive :: "nat \<Rightarrow> guest \<Rightarrow> guest \<times> (jserror + guest_frame) option" where
  "receive k g =
    (if gu_closed g then (g, Some (Inl (the (gu_closedReason g))))
     else if gu_waiting g \<noteq> None then (g, Some (throw ''A guest receive is already pending''))
     else case gu_messages g of
       m # ms \<Rightarrow> (g\<lparr>gu_messages := ms\<rparr>, Some (Inr m))
     | [] \<Rightarrow> (g\<lparr>gu_waiting := Some k\<rparr>, None))"

definition deliver :: "guest_frame \<Rightarrow> guest \<Rightarrow> guest" where
  "deliver value g =
    (case gu_waiting g of
       Some k \<Rightarrow> note_event [Delivered k value] (g\<lparr>gu_waiting := None\<rparr>)
     | None \<Rightarrow> if length (gu_messages g) < 2 then g\<lparr>gu_messages := gu_messages g @ [value]\<rparr>
         else close_guest (Error (js ''Guest produced unsolicited frames'')) g)"

definition arm :: "bool \<Rightarrow> guest \<Rightarrow> guest" where
  "arm through_failed g = g\<lparr>gu_timer := Some (the (gu_worker g), through_failed)\<rparr>"

definition launch :: "bool \<Rightarrow> guest \<Rightarrow> guest" where
  "launch useSnapshot g =
    arm True (note_event [Launched (gu_nextWorker g) useSnapshot]
      (g\<lparr>gu_worker := Some (gu_nextWorker g), gu_nextWorker := gu_nextWorker g + 1, gu_restored := False\<rparr>))"

text \<open>\<open>failed\<close> of the instance \<open>w\<close>.\<close>

definition failed :: "nat \<Rightarrow> jserror \<Rightarrow> guest \<Rightarrow> guest" where
  "failed w e g =
    (if gu_worker g \<noteq> Some w \<or> gu_closed g then g
     else if gu_restored g \<and> \<not> gu_ready g \<and> \<not> gu_retried g \<and> \<not> gu_captureSnapshot g
     then launch False (note_event [TerminatedWorker w, Progress ''snapshot-fallback''] (g\<lparr>gu_retried := True\<rparr>))
     else close_guest e g)"

datatype vm_message =
    SnapshotSelected
  | VmFailed jstr jstr  \<comment> \<open>error and log\<close>
  | VmReady
  | VmProgress string  \<comment> \<open>\<^verbatim>\<open>log\<close> or \<^verbatim>\<open>snapshot-fallback\<close>\<close>
  | VmFrame guest_frame

fun sequence_of :: "guest_frame \<Rightarrow> jnum" where
  "sequence_of (GuestFrame _ n _) = n"

text \<open>A message of the instance \<open>w\<close>.\<close>

definition vm_message :: "nat \<Rightarrow> vm_message \<Rightarrow> guest \<Rightarrow> guest" where
  "vm_message w msg g =
    (if gu_closed g \<or> gu_worker g \<noteq> Some w then g
     else case msg of
       SnapshotSelected \<Rightarrow> g\<lparr>gu_restored := True\<rparr>
     | VmFailed e lg \<Rightarrow> failed w (Error (e @ [10] @ lg)) g
     | VmReady \<Rightarrow> note_event [Progress ''ready''] (g\<lparr>gu_ready := True\<rparr>)
     | VmProgress kind \<Rightarrow> note_event [Progress kind] g
     | VmFrame fr \<Rightarrow> deliver fr (g\<lparr>gu_timer := None, gu_resultSequence := sequence_of fr\<rparr>))"

definition vm_error :: "nat \<Rightarrow> jstr \<Rightarrow> guest \<Rightarrow> guest" where
  "vm_error w m g = failed w (Error m) g"

definition timer_fires :: "jstr \<Rightarrow> guest \<Rightarrow> guest" where
  "timer_fires timeoutMessage g =
    (case gu_timer g of None \<Rightarrow> g
     | Some (w, through_failed) \<Rightarrow>
        let g1 = g\<lparr>gu_timer := None\<rparr> in
        if through_failed then failed w (Error timeoutMessage) g1 else close_guest (Error timeoutMessage) g1)"

text \<open>The response and a copy of its payload go to the worker.\<close>

definition respond :: "response_header \<Rightarrow> byte list \<Rightarrow> guest \<Rightarrow> guest \<times> unit result" where
  "respond response payload g =
    (if gu_closed g \<or> \<not> isSafeInteger (gu_resultSequence g) then (g, throw ''Guest is not waiting for input'')
     else (note_event [ResponsePosted (the (gu_worker g)) (the_int (gu_resultSequence g)) response payload]
             (arm False (g\<lparr>gu_resultSequence := Undef\<rparr>)), Inr ()))"

definition abort_guest :: "jserror option \<Rightarrow> guest \<Rightarrow> guest" where
  "abort_guest reason g = close_guest (case reason of Some e \<Rightarrow> e | None \<Rightarrow> Error (js ''Guest cancelled'')) g"

text \<open>\<open>sig\<close>: a signal that is already aborted, with its reason.\<close>

definition createGuest :: "bool \<Rightarrow> jserror option option \<Rightarrow> bool \<Rightarrow> bool \<Rightarrow> guest result" where
  "createGuest appIsBytes sig snapshot captureSnapshot =
    (if \<not> appIsBytes then throw ''Guest code must be bytes''
     else let g = \<lparr>gu_worker = None, gu_nextWorker = 0, gu_restored = False, gu_retried = False, gu_ready = False, gu_closed = False,
        gu_waiting = None, gu_resultSequence = Undef, gu_timer = None, gu_closedReason = None, gu_messages = [],
        gu_captureSnapshot = captureSnapshot, gu_log = []\<rparr> in
      Inr (case sig of Some reason \<Rightarrow> abort_guest reason g | None \<Rightarrow> launch snapshot g))"

section \<open>The compiler client\<close>

text \<open>
  \<^verbatim>\<open>createCompiler\<close> waits for the first frame and refuses the guest unless it announces a
  ready compiler; \<open>compiler_answer\<close> is the check of the answer to a request.
\<close>

definition undefined_property :: jserror where
  "undefined_property = TypeError (js ''Cannot read properties of undefined'')"

fun compiler_ready :: "guest_frame \<Rightarrow> unit result" where
  "compiler_ready (GuestFrame kind _ r) =
    (let refused = (case r of Some c \<Rightarrow> (case cr_error c of Some e \<Rightarrow> Inl (Error e)
                                     | None \<Rightarrow> throw ''Compiler failed to initialize'')
                    | None \<Rightarrow> throw ''Compiler failed to initialize'') in
     if kind \<noteq> ''compiler'' then refused
     else case r of None \<Rightarrow> Inl undefined_property | Some c \<Rightarrow> if cr_ready c then Inr () else refused)"

fun compiler_answer :: "guest_frame \<Rightarrow> jstr result" where
  "compiler_answer (GuestFrame kind _ r) =
    (case r of None \<Rightarrow> Inl undefined_property
     | Some c \<Rightarrow> if kind \<noteq> ''compiler'' \<or> \<not> cr_ok c
         then (case cr_error c of Some e \<Rightarrow> Inl (Error e) | None \<Rightarrow> throw ''Invalid compiler result'')
         else Inr (cr_response c))"

record compiler =
  co_guest :: guest
  co_busy :: bool

text \<open>What \<^verbatim>\<open>createCompiler\<close> does with the first thing \<^verbatim>\<open>receive\<close> settles with.\<close>

definition compiler_started :: "guest \<Rightarrow> guest_frame result \<Rightarrow> guest \<times> compiler result" where
  "compiler_started g r =
    (case bind r compiler_ready of
       Inl e \<Rightarrow> (close_guest e g, Inl e)
     | Inr _ \<Rightarrow> (g, Inr \<lparr>co_guest = g, co_busy = False\<rparr>))"

record compiler_request =
  rq_source :: "jstr option"
  rq_header :: response_header

text \<open>
  A request up to its \<^verbatim>\<open>await\<close>: an error at once (which also frees the client), or the
  receive it waits on, that of the ticket \<open>k\<close>.
\<close>

definition request_compiler :: "nat \<Rightarrow> compiler_request \<Rightarrow> compiler \<Rightarrow> compiler \<times> jstr result option" where
  "request_compiler k rq c =
    (if co_busy c then (c, Some (throw ''A compiler request is already running''))
     else let header = rq_header rq @ (case rq_source rq of None \<Rightarrow> [] | Some _ \<Rightarrow> [(''payloadField'', js ''source'')]);
              (g1, sent) = respond header (encode_text (case rq_source rq of None \<Rightarrow> [] | Some s \<Rightarrow> s)) (co_guest c) in
       case sent of
         Inl e \<Rightarrow> (c\<lparr>co_guest := g1\<rparr>, Some (Inl e))
       | Inr _ \<Rightarrow> (case receive k g1 of
           (g2, Some r) \<Rightarrow> (c\<lparr>co_guest := g2\<rparr>, Some (bind r compiler_answer))
         | (g2, None) \<Rightarrow> (c\<lparr>co_guest := g2, co_busy := True\<rparr>, None)))"

text \<open>The receive of the running request settles; \<^verbatim>\<open>finally\<close> frees the client either way.\<close>

definition compiler_settles :: "guest_frame result \<Rightarrow> compiler \<Rightarrow> compiler \<times> jstr result" where
  "compiler_settles r c = (c\<lparr>co_busy := False\<rparr>, bind r compiler_answer)"

section \<open>What may happen to a guest\<close>

inductive guest_step :: "guest \<Rightarrow> guest \<Rightarrow> bool" where
  receives: "receive k g = (g', r) \<Longrightarrow> guest_step g g'"
| responds: "respond response payload g = (g', r) \<Longrightarrow> guest_step g g'"
| hears: "guest_step g (vm_message w msg g)"
| errs: "guest_step g (vm_error w m g)"
| times_out: "guest_step g (timer_fires m g)"
| aborts: "guest_step g (abort_guest reason g)"
| closes: "guest_step g (close_guest reason g)"

inductive guest_reachable :: "guest \<Rightarrow> bool" where
  created: "createGuest app sig snapshot capture = Inr g \<Longrightarrow> guest_reachable g"
| stepped: "guest_reachable g \<Longrightarrow> guest_step g g' \<Longrightarrow> guest_reachable g'"

section \<open>The invariant\<close>

text \<open>The instances launched, and those ended.\<close>

definition launches :: "guest_event list \<Rightarrow> nat list" where
  "launches evs = concat (map (\<lambda>e. case e of Launched w _ \<Rightarrow> [w] | _ \<Rightarrow> []) evs)"

definition ends :: "guest_event list \<Rightarrow> nat list" where
  "ends evs = concat (map (\<lambda>e. case e of TerminatedWorker w \<Rightarrow> [w] | _ \<Rightarrow> []) evs)"

definition guest_ok :: "guest \<Rightarrow> bool" where
  "guest_ok g \<longleftrightarrow> length (gu_messages g) \<le> 2 \<and> (gu_waiting g \<noteq> None \<longrightarrow> gu_messages g = [] \<and> \<not> gu_closed g) \<and>
     launches (gu_log g) = [0..<gu_nextWorker g] \<and>
     gu_worker g = (if gu_nextWorker g = 0 then None else Some (gu_nextWorker g - 1)) \<and>
     gu_nextWorker g \<le> (if gu_retried g then 2 else 1) \<and> (\<not> gu_closed g \<longrightarrow> 0 < gu_nextWorker g) \<and>
     ends (gu_log g) = (if gu_closed g then [0..<gu_nextWorker g] else [0..<gu_nextWorker g - 1]) \<and>
     (gu_closed g \<longrightarrow> gu_closedReason g \<noteq> None \<and> gu_timer g = None) \<and>
     (gu_retried g \<longrightarrow> gu_nextWorker g = 2)"

lemma log_parts [simp]:
  "launches [] = []" "ends [] = []" "launches (xs @ ys) = launches xs @ launches ys" "ends (xs @ ys) = ends xs @ ends ys"
  "launches (Launched w s # ys) = w # launches ys" "ends (Launched w s # ys) = ends ys"
  "launches (TerminatedWorker w # ys) = launches ys" "ends (TerminatedWorker w # ys) = w # ends ys"
  "launches (Rejected k e # ys) = launches ys" "ends (Rejected k e # ys) = ends ys"
  "launches (Delivered k f # ys) = launches ys" "ends (Delivered k f # ys) = ends ys"
  "launches (Progress p # ys) = launches ys" "ends (Progress p # ys) = ends ys"
  "launches (ResponsePosted w n h b # ys) = launches ys" "ends (ResponsePosted w n h b # ys) = ends ys"
  by (simp_all add: launches_def ends_def)

lemma guest_ok_close:
  assumes "guest_ok g"
  shows "guest_ok (close_guest reason g)"
proof (cases "gu_closed g")
  case False
  then have n: "0 < gu_nextWorker g" "gu_worker g = Some (gu_nextWorker g - 1)" using assms by (auto simp: guest_ok_def)
  then have "[0..<gu_nextWorker g] = [0..<gu_nextWorker g - 1] @ [gu_nextWorker g - 1]"
    by (metis Suc_pred' le0 upt_Suc_append)
  with assms False n show ?thesis
    by (auto simp: guest_ok_def close_guest_def note_event_def split: option.splits)
qed (use assms in \<open>simp add: close_guest_def\<close>)

lemma guest_ok_failed:
  assumes "guest_ok g"
  shows "guest_ok (failed w e g)"
proof (cases "gu_worker g = Some w \<and> \<not> gu_closed g \<and> gu_restored g \<and> \<not> gu_ready g \<and> \<not> gu_retried g \<and> \<not> gu_captureSnapshot g")
  case True
  then have n: "gu_nextWorker g = 1" "w = 0" using assms by (auto simp: guest_ok_def split: if_splits)
  have "[0..<2] = [0, 1 :: nat]" by (simp add: upt_rec)
  with True assms n show ?thesis
    by (auto simp: guest_ok_def failed_def launch_def arm_def note_event_def)
qed (use assms guest_ok_close [of g] in \<open>auto simp: failed_def\<close>)

text \<open>The invariant does not depend on the fields a message or a response sets.\<close>

lemma guest_ok_updates [simp]:
  "guest_ok (g\<lparr>gu_restored := b\<rparr>) = guest_ok g" "guest_ok (g\<lparr>gu_ready := b\<rparr>) = guest_ok g"
  "guest_ok (g\<lparr>gu_resultSequence := n\<rparr>) = guest_ok g"
  by (simp_all add: guest_ok_def)

lemma guest_ok_timer: "guest_ok g \<Longrightarrow> guest_ok (g\<lparr>gu_timer := None\<rparr>)"
  by (simp add: guest_ok_def)

lemma guest_ok_arm: "guest_ok g \<Longrightarrow> \<not> gu_closed g \<Longrightarrow> guest_ok (arm b g)"
  by (simp add: guest_ok_def arm_def)

lemma guest_ok_note: "guest_ok g \<Longrightarrow> launches evs = [] \<Longrightarrow> ends evs = [] \<Longrightarrow> guest_ok (note_event evs g)"
  by (simp add: guest_ok_def note_event_def)

lemma guest_ok_deliver:
  assumes "guest_ok g" "\<not> gu_closed g"
  shows "guest_ok (deliver fr g)"
proof (cases "gu_waiting g")
  case None
  then show ?thesis using assms guest_ok_close [OF assms(1)]
    by (cases "length (gu_messages g) < 2") (simp_all add: deliver_def guest_ok_def)
next
  case (Some k)
  have "guest_ok (g\<lparr>gu_waiting := None\<rparr>)" using assms(1) by (simp add: guest_ok_def)
  then show ?thesis using Some by (simp add: deliver_def guest_ok_note)
qed

lemma guest_ok_receive:
  assumes "guest_ok g" "receive k g = (g', r)"
  shows "guest_ok g'"
  using assms by (auto simp: receive_def guest_ok_def split: if_splits list.splits)

lemma guest_ok_respond:
  assumes "guest_ok g" "respond h p g = (g', r)"
  shows "guest_ok g'"
  using assms by (auto simp: respond_def split: if_splits intro!: guest_ok_note guest_ok_arm)

lemma guest_ok_message: "guest_ok g \<Longrightarrow> guest_ok (vm_message w msg g)"
  by (cases msg) (auto simp: vm_message_def guest_ok_failed guest_ok_timer intro!: guest_ok_note guest_ok_deliver)

lemma guest_ok_timeout: "guest_ok g \<Longrightarrow> guest_ok (timer_fires m g)"
  using guest_ok_timer [of g] by (auto simp: timer_fires_def Let_def guest_ok_failed guest_ok_close split: option.splits)

lemma guest_ok_created:
  assumes "createGuest app sig snapshot capture = Inr g"
  shows "guest_ok g"
  using assms by (auto simp: createGuest_def Let_def guest_ok_def launch_def arm_def note_event_def abort_guest_def close_guest_def
      split: if_splits option.splits)

lemma guest_ok_step: "guest_step g g' \<Longrightarrow> guest_ok g \<Longrightarrow> guest_ok g'"
  by (induction rule: guest_step.induct)
    (auto simp: vm_error_def abort_guest_def intro: guest_ok_receive guest_ok_respond guest_ok_message guest_ok_failed
      guest_ok_timeout guest_ok_close)

lemma guest_reachable_ok: "guest_reachable g \<Longrightarrow> guest_ok g"
  by (induction rule: guest_reachable.induct) (auto intro: guest_ok_created guest_ok_step)

section \<open>Properties\<close>

text \<open>C27. A guest owns at most one running worker: whatever happens to it, it launches at most two (the
  restored one and its cold replacement), each in turn and the first ended before the
  second starts; once closed every worker it launched has been ended, exactly once, no
  timer is left and no receiver is left waiting; and at most two frames are ever queued.
\<close>

theorem guest_workers_ended_once:
  assumes "guest_reachable g"
  shows "launches (gu_log g) = [0..<gu_nextWorker g] \<and> gu_nextWorker g \<le> 2 \<and>
    ends (gu_log g) = (if gu_closed g then launches (gu_log g) else butlast (launches (gu_log g))) \<and>
    \<not> (gu_closed g \<and> (gu_timer g \<noteq> None \<or> gu_waiting g \<noteq> None)) \<and> length (gu_messages g) \<le> 2"
  using guest_reachable_ok [OF assms] by (auto simp: guest_ok_def butlast_conv_take take_upt split: if_splits)

definition restored_guest :: guest where
  "restored_guest = (case createGuest True None True False of Inr g \<Rightarrow> vm_message 0 SnapshotSelected g)"

theorem guest_workers_ended_once_witness:
  "ends (gu_log (close_guest (Error []) (vm_error 0 [] restored_guest))) = [0, 1]"
proof -
  have "guest_reachable restored_guest"
    using guest_reachable.stepped [OF guest_reachable.created hears, of True None True False _ 0 SnapshotSelected]
    by (simp add: restored_guest_def createGuest_def)
  then have r: "guest_reachable (close_guest (Error []) (vm_error 0 [] restored_guest))"
    by (blast intro: guest_reachable.stepped errs closes)
  show ?thesis using guest_workers_ended_once [OF r] by code_simp
qed

end
