(* ===== verification/AppLimits.thy ===== *)
theory AppLimits
  imports Codec
begin

text \<open>
  The limits of an application and the payload it boots from, \<^verbatim>\<open>src/runtime/luajit/app-runtime.mjs\<close>: limit
  tables are layered over the defaults, key by key, and the guest's input is a header, the
  initialization and the application.
\<close>

section \<open>Limits\<close>

type_synonym limit_table = "(string, int) jmap"

record app_limits =
  al_perTurn :: limit_table
  al_perRun :: limit_table

text \<open>A layer and its scopes, as far as the code tells them apart; entries are in key order.\<close>

datatype scope_value = ScopeUndefined | ScopeNotObject | ScopeObject "(string \<times> jnum) list"

datatype limit_layer = LayerAbsent | LayerNotObject | LayerObject "(string \<times> scope_value) list"

definition turn_keys :: "string list" where
  "turn_keys = [''maxEffects'', ''maxEffectBytes'', ''maxResponseBytes'', ''computeMs'']"

definition run_keys :: "string list" where
  "run_keys = [''maxEffects'', ''maxEffectBytes'', ''maxResponseBytes'', ''deadlineMs'']"

definition LIMIT_KEYS :: "string \<Rightarrow> string list option" where
  "LIMIT_KEYS scope =
    (if scope = ''perTurn'' then Some turn_keys else if scope = ''perRun'' then Some run_keys else None)"

text \<open>
  The names every object inherits: looked up in the table of keys, they give a value that is
  no list of keys.
\<close>

definition inherited_member :: "string \<Rightarrow> bool" where
  "inherited_member s \<longleftrightarrow> s \<in> set [''constructor'', ''hasOwnProperty'', ''isPrototypeOf'', ''propertyIsEnumerable'',
     ''toLocaleString'', ''toString'', ''valueOf'', ''__proto__'', ''__defineGetter__'', ''__defineSetter__'',
     ''__lookupGetter__'', ''__lookupSetter__'']"

definition default_limits :: app_limits where
  "default_limits = \<lparr>al_perTurn = [(''maxEffects'', 256), (''maxEffectBytes'', 4 * 1024 * 1024),
     (''maxResponseBytes'', 8 * 1024 * 1024), (''computeMs'', 30000)], al_perRun = []\<rparr>"

definition scope_table :: "string \<Rightarrow> app_limits \<Rightarrow> limit_table" where
  "scope_table scope l = (if scope = ''perTurn'' then al_perTurn l else al_perRun l)"

definition set_limit :: "string \<Rightarrow> string \<Rightarrow> int \<Rightarrow> app_limits \<Rightarrow> app_limits" where
  "set_limit scope key v l =
    (if scope = ''perTurn'' then l\<lparr>al_perTurn := mset (al_perTurn l) key v\<rparr> else l\<lparr>al_perRun := mset (al_perRun l) key v\<rparr>)"

fun layer_keys :: "string \<Rightarrow> string list \<Rightarrow> (string \<times> jnum) list \<Rightarrow> app_limits \<Rightarrow> app_limits result" where
  "layer_keys scope known [] l = Inr l"
| "layer_keys scope known ((key, v) # rest) l =
    (if key \<notin> set known then Inl (Error (js ''Unknown application limit '' @ js scope @ js ''.'' @ js key))
     else if \<not> isSafeInteger v \<or> the_int v < 1 then Inl (Error (js ''Invalid application limit '' @ js scope @ js ''.'' @ js key))
     else layer_keys scope known rest (set_limit scope key (the_int v) l))"

fun layer_scope :: "string \<times> scope_value \<Rightarrow> app_limits \<Rightarrow> app_limits result" where
  "layer_scope (scope, values) l =
    (if LIMIT_KEYS scope = None \<and> \<not> inherited_member scope
     then Inl (Error (js ''Unknown application limit '' @ js scope @ js ''; limits take perTurn and perRun''))
     else case values of
       ScopeUndefined \<Rightarrow> Inr l
     | ScopeNotObject \<Rightarrow> Inl (Error (js ''Application limits.'' @ js scope @ js '' must be an object''))
     | ScopeObject entries \<Rightarrow>
        (case LIMIT_KEYS scope of
           Some known \<Rightarrow> layer_keys scope known entries l
         | None \<Rightarrow> if entries = [] then Inr l else Inl (TypeError (js ''known.includes is not a function''))))"

fun layer_scopes :: "(string \<times> scope_value) list \<Rightarrow> app_limits \<Rightarrow> app_limits result" where
  "layer_scopes [] l = Inr l"
| "layer_scopes (s # rest) l = bind (layer_scope s l) (layer_scopes rest)"

fun apply_layers :: "limit_layer list \<Rightarrow> app_limits \<Rightarrow> app_limits result" where
  "apply_layers [] l = Inr l"
| "apply_layers (LayerAbsent # rest) l = apply_layers rest l"
| "apply_layers (LayerNotObject # rest) l = throw ''Application limits must be an object''"
| "apply_layers (LayerObject scopes # rest) l = bind (layer_scopes scopes l) (apply_layers rest)"

definition resolveLimits :: "limit_layer list \<Rightarrow> app_limits result" where
  "resolveLimits layers = apply_layers layers default_limits"

section \<open>The application's payload\<close>

definition payload_magic :: "byte list" where
  "payload_magic = encode_text (js ''NUAPP001'')"

definition MAX_PAYLOAD :: nat where
  "MAX_PAYLOAD = 7 * 1024 * 1024"

text \<open>\<open>None\<close>: not a byte array; an initialization that is not given is empty.\<close>

definition applicationPayload :: "byte list option \<Rightarrow> byte list option \<Rightarrow> byte list result" where
  "applicationPayload app initialize =
    (case (app, initialize) of
       (Some a, Some i) \<Rightarrow>
         if 12 + length a + length i > MAX_PAYLOAD then throw ''Application input exceeds seven MiB''
         else let bytes = replicate (12 + length a + length i) 0;
                  b1 = blit bytes 0 payload_magic;
                  b2 = blit b1 8 (le_bytes 4 (length i));
                  b3 = blit b2 12 i
              in Inr (blit b3 (12 + length i) a)
     | _ \<Rightarrow> throw ''Application input must be bytes'')"

section \<open>The shape of resolved limits\<close>

definition limit_ok :: "int \<Rightarrow> bool" where
  "limit_ok v \<longleftrightarrow> 1 \<le> v \<and> v \<le> max_safe"

definition limits_ok :: "app_limits \<Rightarrow> bool" where
  "limits_ok l \<longleftrightarrow> mkeys (al_perTurn l) = turn_keys \<and>
     distinct (mkeys (al_perRun l)) \<and>
     set (mkeys (al_perRun l)) \<subseteq> set run_keys \<and>
     (\<forall>v\<in>set (mvalues (al_perTurn l) @ mvalues (al_perRun l)). limit_ok v)"

lemma known_scope: "LIMIT_KEYS scope = Some known \<Longrightarrow> scope = ''perTurn'' \<or> scope = ''perRun''"
  by (auto simp: LIMIT_KEYS_def split: if_splits)

lemma set_limit_ok:
  assumes "limits_ok l" "LIMIT_KEYS scope = Some known" "key \<in> set known" "limit_ok v"
  shows "limits_ok (set_limit scope key v l)"
proof (cases "scope = ''perTurn''")
  case True
  then have "key \<in> set turn_keys" using assms(2,3) by (simp add: LIMIT_KEYS_def)
  then have "mget (al_perTurn l) key \<noteq> None" using assms(1) set_mkeys [of key "al_perTurn l"] by (simp add: limits_ok_def)
  then have "mkeys (mset (al_perTurn l) key v) = turn_keys" using assms(1) by (simp add: mkeys_mset_present limits_ok_def)
  moreover have "\<forall>x\<in>set (mvalues (mset (al_perTurn l) key v)). limit_ok x"
    using assms(1,4) mvalues_mset_subset [of "al_perTurn l" key v] unfolding limits_ok_def by auto
  ultimately show ?thesis using True assms(1) by (auto simp: limits_ok_def set_limit_def)
next
  case False
  then have k: "key \<in> set run_keys" using assms(2,3) by (simp add: LIMIT_KEYS_def split: if_splits)
  have "distinct (mkeys (mset (al_perRun l) key v))" "set (mkeys (mset (al_perRun l) key v)) \<subseteq> insert key (set (mkeys (al_perRun l)))"
    using assms(1) set_mkeys [of key "al_perRun l"]
    by (cases "mget (al_perRun l) key = None"; force simp: mkeys_mset_fresh mkeys_mset_present limits_ok_def)+
  moreover have "\<forall>x\<in>set (mvalues (mset (al_perRun l) key v)). limit_ok x"
    using assms(1,4) mvalues_mset_subset [of "al_perRun l" key v] unfolding limits_ok_def by auto
  ultimately show ?thesis using False k assms(1) unfolding limits_ok_def set_limit_def by auto
qed

lemma layer_keys_ok:
  "layer_keys scope known entries l = Inr l' \<Longrightarrow> limits_ok l \<Longrightarrow> LIMIT_KEYS scope = Some known \<Longrightarrow> limits_ok l'"
  by (induction scope known entries l rule: layer_keys.induct)
    (auto simp: js_simps limit_ok_def not_less set_limit_ok split: if_splits)

lemma layer_scope_ok: "layer_scope s l = Inr l' \<Longrightarrow> limits_ok l \<Longrightarrow> limits_ok l'"
  by (cases s) (auto split: if_splits scope_value.splits option.splits intro: layer_keys_ok)

lemma layer_scopes_ok: "layer_scopes ss l = Inr l' \<Longrightarrow> limits_ok l \<Longrightarrow> limits_ok l'"
  by (induction ss arbitrary: l) (auto intro: layer_scope_ok)

lemma apply_layers_ok: "apply_layers layers l = Inr l' \<Longrightarrow> limits_ok l \<Longrightarrow> limits_ok l'"
  by (induction layers l rule: apply_layers.induct) (auto intro: layer_scopes_ok)

lemma default_limits_ok: "limits_ok default_limits"
  by (simp add: limits_ok_def default_limits_def turn_keys_def mkeys_def mvalues_def limit_ok_def max_safe_def)

section \<open>What the layers give\<close>

text \<open>The value a layer gives a limit, if it names it.\<close>

fun last_of :: "string \<Rightarrow> (string \<times> jnum) list \<Rightarrow> int option \<Rightarrow> int option" where
  "last_of key [] acc = acc"
| "last_of key ((k, v) # rest) acc = last_of key rest (if k = key then Some (the_int v) else acc)"

fun scope_gives :: "string \<Rightarrow> string \<Rightarrow> (string \<times> scope_value) list \<Rightarrow> int option \<Rightarrow> int option" where
  "scope_gives scope key [] acc = acc"
| "scope_gives scope key ((s, ScopeObject entries) # rest) acc =
    scope_gives scope key rest (if s = scope then last_of key entries acc else acc)"
| "scope_gives scope key (_ # rest) acc = scope_gives scope key rest acc"

fun layers_give :: "string \<Rightarrow> string \<Rightarrow> limit_layer list \<Rightarrow> int option \<Rightarrow> int option" where
  "layers_give scope key [] acc = acc"
| "layers_give scope key (LayerObject scopes # rest) acc = layers_give scope key rest (scope_gives scope key scopes acc)"
| "layers_give scope key (_ # rest) acc = layers_give scope key rest acc"

lemma scope_table_set:
  assumes "s \<in> {''perTurn'', ''perRun''}" "scope \<in> {''perTurn'', ''perRun''}"
  shows "mget (scope_table scope (set_limit s k v l)) key = (if s = scope \<and> k = key then Some v else mget (scope_table scope l) key)"
  using assms by (auto simp: scope_table_def set_limit_def)

lemma layer_keys_give:
  assumes "layer_keys s known entries l = Inr l'" "s \<in> {''perTurn'', ''perRun''}" "scope \<in> {''perTurn'', ''perRun''}"
  shows "mget (scope_table scope l') key =
    (if s = scope then last_of key entries (mget (scope_table scope l) key) else mget (scope_table scope l) key)"
  using assms
proof (induction s known entries l rule: layer_keys.induct)
  case (2 s known k v rest l)
  then have "layer_keys s known rest (set_limit s k (the_int v) l) = Inr l'" by (auto split: if_splits)
  with 2 show ?case using scope_table_set [OF "2.prems"(2,3), of k "the_int v" l key] by (auto split: if_splits)
qed simp

lemma layer_scopes_give:
  assumes "layer_scopes ss l = Inr l'" "scope \<in> {''perTurn'', ''perRun''}"
  shows "mget (scope_table scope l') key = scope_gives scope key ss (mget (scope_table scope l) key)"
  using assms
proof (induction ss arbitrary: l)
  case (Cons s ss)
  obtain sc vs where s: "s = (sc, vs)" by (cases s)
  obtain l1 where l1: "layer_scope (sc, vs) l = Inr l1" and rest: "layer_scopes ss l1 = Inr l'"
    using Cons.prems(1) s by auto
  note ih = Cons.IH [OF rest Cons.prems(2)]
  show ?case
  proof (cases vs)
    case (ScopeObject entries)
    have "mget (scope_table scope l1) key =
        (if sc = scope then last_of key entries (mget (scope_table scope l) key) else mget (scope_table scope l) key)"
    proof (cases "LIMIT_KEYS sc")
      case None
      then have "l1 = l" "sc \<noteq> scope" using l1 ScopeObject Cons.prems(2) by (auto simp: LIMIT_KEYS_def split: if_splits)
      then show ?thesis by simp
    next
      case (Some known)
      have sc: "sc \<in> {''perTurn'', ''perRun''}" using known_scope [OF Some] by blast
      have "layer_keys sc known entries l = Inr l1" using l1 ScopeObject Some by simp
      then show ?thesis using layer_keys_give [OF _ sc Cons.prems(2)] by blast
    qed
    then show ?thesis using ih s ScopeObject by simp
  qed (use l1 ih s in \<open>auto split: if_splits\<close>)
qed simp

lemma apply_layers_give:
  assumes "apply_layers layers l = Inr l'" "scope \<in> {''perTurn'', ''perRun''}"
  shows "mget (scope_table scope l') key = layers_give scope key layers (mget (scope_table scope l) key)"
  using assms
proof (induction layers l rule: apply_layers.induct)
  case (4 scopes rest l)
  then obtain l1 where l1: "layer_scopes scopes l = Inr l1" and rest: "apply_layers rest l1 = Inr l'" by auto
  have "mget (scope_table scope l1) key = scope_gives scope key scopes (mget (scope_table scope l) key)"
    by (rule layer_scopes_give [OF l1 "4.prems"(2)])
  moreover have "mget (scope_table scope l') key = layers_give scope key rest (mget (scope_table scope l1) key)"
    by (rule "4.IH" [OF rest "4.prems"(2)])
  ultimately show ?case by simp
qed auto

section \<open>Properties\<close>

text \<open>C26. Whatever layers a manifest and a page give, limits that resolve are well formed: the four limits of a
  turn are all there, those of a run are among the known ones, each at most once, and every one
  is a positive safe integer.
\<close>

theorem resolved_limits_typed:
  assumes "resolveLimits layers = Inr l"
  shows "limits_ok l"
  using apply_layers_ok [of layers default_limits l] assms default_limits_ok by (simp add: resolveLimits_def)

definition page_layer :: limit_layer where
  "page_layer = LayerObject [(''perRun'', ScopeObject [(''deadlineMs'', IntV 5000)]), (''perTurn'', ScopeObject [(''maxEffects'', IntV 8)])]"

theorem resolved_limits_typed_witness:
  "\<exists>l. resolveLimits [page_layer, LayerAbsent] = Inr l \<and> limits_ok l \<and> al_perRun l = [(''deadlineMs'', 5000)]"
proof -
  let ?l = "set_limit ''perTurn'' ''maxEffects'' 8 (set_limit ''perRun'' ''deadlineMs'' 5000 default_limits)"
  have r: "resolveLimits [page_layer, LayerAbsent] = Inr ?l"
    by (simp add: resolveLimits_def page_layer_def LIMIT_KEYS_def turn_keys_def run_keys_def max_safe_def)
  have "al_perRun ?l = [(''deadlineMs'', 5000)]" by (simp add: set_limit_def default_limits_def mset_def)
  then show ?thesis using r resolved_limits_typed [OF r] by blast
qed

text \<open>
  Later layers win key by key: a resolved limit is the value the last layer that names it gives it, and the
  default, if there is one, when none does.
\<close>

theorem last_layer_wins:
  assumes "resolveLimits layers = Inr l" "scope = ''perTurn'' \<or> scope = ''perRun''"
  shows "mget (scope_table scope l) key = layers_give scope key layers (mget (scope_table scope default_limits) key)"
  using apply_layers_give [of layers default_limits l scope key] assms by (simp add: resolveLimits_def)

theorem last_layer_wins_witness:
  "\<exists>l. resolveLimits [page_layer, LayerAbsent] = Inr l \<and> mget (scope_table ''perTurn'' l) ''maxEffects'' = Some 8"
proof -
  let ?l = "set_limit ''perTurn'' ''maxEffects'' 8 (set_limit ''perRun'' ''deadlineMs'' 5000 default_limits)"
  have r: "resolveLimits [page_layer, LayerAbsent] = Inr ?l"
    by (simp add: resolveLimits_def page_layer_def LIMIT_KEYS_def turn_keys_def run_keys_def max_safe_def)
  show ?thesis using r last_layer_wins [OF r, of "''perTurn''" "''maxEffects''"] by (simp add: page_layer_def)
qed

lemma magic_length: "length payload_magic = 8"
  by (simp add: payload_magic_def encode_text_def js_def high_surrogate_def low_surrogate_def replaced_def scalar_value_def utf8_cp_def)

lemma blit_four:
  assumes "length m = 8" "length k = 4"
  shows "blit (blit (blit (blit (replicate (12 + length a + length i) z) 0 m) 8 k) 12 i) (12 + length i) a = m @ k @ i @ a"
  using assms by (simp add: blit_def)

lemma parts_of_four:
  assumes "length m = 8" "length k = 4" "bytes = m @ k @ i @ a"
  shows "take 8 bytes = m \<and> take 4 (drop 8 bytes) = k \<and> take (length i) (drop 12 bytes) = i \<and> drop (12 + length i) bytes = a \<and>
    length bytes = 12 + length i + length a"
  using assms by simp

text \<open>
  The guest can take the payload apart again: after the magic, four bytes give the length of the initialization,
  which follows, and the rest is the application; a payload is at most seven MiB.
\<close>

theorem payload_recovers_parts:
  assumes "applicationPayload (Some app) (Some initialize) = Inr bytes"
  shows "take 8 bytes = payload_magic \<and> le_nat (take 4 (drop 8 bytes)) = length initialize \<and>
    take (length initialize) (drop 12 bytes) = initialize \<and> drop (12 + length initialize) bytes = app \<and> length bytes \<le> MAX_PAYLOAD"
proof -
  have len: "\<not> 12 + length app + length initialize > MAX_PAYLOAD"
    using assms by (auto simp: applicationPayload_def split: if_splits)
  have b: "bytes = payload_magic @ le_bytes 4 (length initialize) @ initialize @ app"
    using assms len unfolding applicationPayload_def Let_def
    by (simp only: blit_four [OF magic_length length_le_bytes] option.case prod.case if_False sum.inject)
  have "length initialize < 256 ^ 4" using len by (simp add: MAX_PAYLOAD_def)
  then have "le_nat (le_bytes 4 (length initialize)) = length initialize" by (simp only: le_nat_le_bytes mod_less)
  then show ?thesis using parts_of_four [OF magic_length length_le_bytes b] len by auto
qed

theorem payload_recovers_parts_witness:
  "\<exists>bytes. applicationPayload (Some [7, 8]) (Some [9]) = Inr bytes \<and> drop 13 bytes = [7, 8]"
proof -
  obtain bytes where b: "applicationPayload (Some [7, 8]) (Some [9]) = Inr bytes"
    by (simp add: applicationPayload_def MAX_PAYLOAD_def Let_def)
  show ?thesis using b payload_recovers_parts [OF b] by simp
qed

end
