(* ===== verification/Application.thy ===== *)
theory Application
  imports GuestHost AppLimits AppRuntime Files Http Gpu
begin

text \<open>
  The run of an application, \<^verbatim>\<open>src/runtime/luajit/app-runtime.mjs\<close>: frames are received one at a time,
  each counted against the budgets of its turn and of the run, its effects performed over its
  transfer leases and the response counted and posted; whatever ends the run, its resources are
  released. What \<^verbatim>\<open>JSON\<close> and the effect handlers give is a parameter of each step.
\<close>

section \<open>Budgets\<close>

type_synonym counters = "(string, int) jmap"

definition no_counts :: counters where
  "no_counts = [(''maxEffects'', 0), (''maxEffectBytes'', 0), (''maxResponseBytes'', 0)]"

definition exceededMessage :: "string \<Rightarrow> jstr \<Rightarrow> jstr" where
  "exceededMessage path v = js ''browser application exceeded limits.'' @ js path @ js '' ('' @ v @ js '')''"

definition exceeded :: "string \<Rightarrow> jstr \<Rightarrow> 'a result" where
  "exceeded path v = Inl (Error (exceededMessage path v))"

definition counted :: "counters \<Rightarrow> string \<Rightarrow> int" where
  "counted c limit = (case mget c limit of Some n \<Rightarrow> n | None \<Rightarrow> 0)"

definition add_count :: "string \<Rightarrow> int \<Rightarrow> counters \<Rightarrow> counters" where
  "add_count limit amount c = mset c limit (counted c limit + amount)"

record budgets =
  bu_limits :: app_limits
  bu_turn :: counters
  bu_run :: counters

definition over_turn :: "budgets \<Rightarrow> string \<Rightarrow> bool" where
  "over_turn b limit \<longleftrightarrow> (case mget (al_perTurn (bu_limits b)) limit of Some m \<Rightarrow> counted (bu_turn b) limit > m | None \<Rightarrow> False)"

definition over_run :: "budgets \<Rightarrow> string \<Rightarrow> bool" where
  "over_run b limit \<longleftrightarrow> (case mget (al_perRun (bu_limits b)) limit of Some m \<Rightarrow> counted (bu_run b) limit > m | None \<Rightarrow> False)"

definition limit_text :: "limit_table \<Rightarrow> string \<Rightarrow> jstr" where
  "limit_text t limit = (case mget t limit of Some m \<Rightarrow> decimal (nat m) | None \<Rightarrow> js ''undefined'')"

definition count :: "string \<Rightarrow> int \<Rightarrow> budgets \<Rightarrow> budgets \<times> unit result" where
  "count limit amount b =
    (let b1 = b\<lparr>bu_turn := add_count limit amount (bu_turn b), bu_run := add_count limit amount (bu_run b)\<rparr> in
     (b1, if over_turn b1 limit then exceeded (''perTurn.'' @ limit) (limit_text (al_perTurn (bu_limits b)) limit)
          else if over_run b1 limit then exceeded (''perRun.'' @ limit) (limit_text (al_perRun (bu_limits b)) limit)
          else Inr ()))"

section \<open>The session\<close>

text \<open>What the effects of a run leave in its options, and the guest and budgets it runs with.\<close>

record 'd session =
  se_host :: "host_channel option"
  se_http :: "http_state option"
  se_files :: "'d files_state option"
  se_gpu :: "gpu_state option"
  se_device :: bool  \<comment> \<open>a device was requested\<close>
  se_deviceDestroyed :: bool

datatype 'v run_phase = Receiving | Performing transfers | Ended "'v option result"

record ('d, 'v) app_run =
  rn_phase :: "'v run_phase"
  rn_budgets :: budgets
  rn_guest :: guest
  rn_timer :: bool
  rn_session :: "'d session"
  rn_sent :: "nat list"  \<comment> \<open>bytes of each response posted\<close>
  rn_late :: bool  \<comment> \<open>effects were in flight when the run ended\<close>

text \<open>
  The clean-up of \<^verbatim>\<open>finally\<close>: aborting the controller closes the guest with that reason unless it is
  closed already.
\<close>

definition close_files :: "'d file_system \<Rightarrow> 'd files_state \<Rightarrow> 'd files_state" where
  "close_files fs st = st\<lparr>fl_disk := fold (\<lambda>file d. fs_close fs d (fh_access file)) (mvalues (fl_handles st)) (fl_disk st), fl_handles := []\<rparr>"

definition destroy_buffers :: "gpu_state \<Rightarrow> gpu_state" where
  "destroy_buffers g = issue (map (\<lambda>b. Destroyed (gb_buffer b)) (mvalues (gr_buffers g))) g"

definition finish_session :: "'d file_system \<Rightarrow> 'd session \<Rightarrow> 'd session" where
  "finish_session fs s = s\<lparr>se_host := map_option closeHostChannel (se_host s),
     se_http := map_option (\<lambda>h. h\<lparr>ht_bodies := []\<rparr>) (se_http s), se_files := map_option (close_files fs) (se_files s),
     se_gpu := map_option destroy_buffers (se_gpu s), se_deviceDestroyed := se_device s\<rparr>"

definition end_run :: "'d file_system \<Rightarrow> 'v option result \<Rightarrow> ('d, 'v) app_run \<Rightarrow> ('d, 'v) app_run" where
  "end_run fs outcome r = r\<lparr>rn_phase := Ended outcome, rn_timer := False,
     rn_guest := close_guest (Error (js ''Application closed'')) (rn_guest r), rn_session := finish_session fs (rn_session r)\<rparr>"

section \<open>Frames\<close>

text \<open>
  A frame of the guest as the loop reads it. The value of a finished application is a string, JSON in turn,
  or a value (\<open>None\<close> for none).
\<close>

datatype 'v done_value = DoneText jstr | DoneValue "'v option"

record 'v done_result =
  dn_ok :: bool
  dn_error :: jstr
  dn_value :: "'v done_value"

record effect_frame =
  ef_text :: jstr  \<comment> \<open>\<^verbatim>\<open>JSON.stringify(request)\<close>\<close>
  ef_requests :: "nat option"  \<comment> \<open>how many, \<open>None\<close> when it is no array\<close>
  ef_leases :: "descriptor list option"
  ef_payload :: "byte list"

datatype 'v app_frame = DoneFrame "'v done_result" | EffectFrame effect_frame | OtherFrame

definition done_result :: "(jstr \<Rightarrow> 'v result) \<Rightarrow> app_limits \<Rightarrow> 'v done_result \<Rightarrow> 'v option result" where
  "done_result parse l d =
    (if \<not> dn_ok d then Inl (Error (dn_error d))
     else case dn_value d of
       DoneText t \<Rightarrow>
         (if (case mget (al_perTurn l) ''maxResponseBytes'' of Some m \<Rightarrow> int (length (encode_text t)) > m | None \<Rightarrow> False)
          then exceeded ''perTurn.maxResponseBytes'' (limit_text (al_perTurn l) ''maxResponseBytes'')
          else if t = [] then Inr None else bind (parse t) (\<lambda>v. Inr (Some v)))
     | DoneValue v \<Rightarrow> Inr v)"

definition begin_turn :: "bool \<Rightarrow> budgets \<Rightarrow> budgets" where
  "begin_turn begins b = (if begins then b\<lparr>bu_turn := no_counts\<rparr> else b)"

definition count_frame :: "bool \<Rightarrow> effect_frame \<Rightarrow> budgets \<Rightarrow> budgets \<times> unit result" where
  "count_frame begins f b =
    (let (b1, r1) = count ''maxEffects'' (case ef_requests f of Some n \<Rightarrow> int n | None \<Rightarrow> 0) (begin_turn begins b) in
     case r1 of Inl e \<Rightarrow> (b1, Inl e)
     | Inr _ \<Rightarrow> count ''maxEffectBytes'' (int (length (encode_text (ef_text f)) + length (ef_payload f))) b1)"

text \<open>A frame arrives while the run receives.\<close>

definition frame_arrives ::
  "'d file_system \<Rightarrow> (jstr \<Rightarrow> 'v result) \<Rightarrow> bool \<Rightarrow> 'v app_frame \<Rightarrow> ('d, 'v) app_run \<Rightarrow> ('d, 'v) app_run" where
  "frame_arrives fs parse begins frame r =
    (case frame of
       DoneFrame d \<Rightarrow> end_run fs (done_result parse (bu_limits (rn_budgets r)) d) r
     | OtherFrame \<Rightarrow> end_run fs (throw ''Unexpected application frame'') r
     | EffectFrame f \<Rightarrow>
        (let (b, counted) = count_frame begins f (rn_budgets r); r1 = r\<lparr>rn_budgets := b\<rparr> in
         case bind counted (\<lambda>_. createTransfers (ef_leases f) (ef_payload f)) of
           Inl e \<Rightarrow> end_run fs (Inl e) r1
         | Inr t \<Rightarrow> r1\<lparr>rn_phase := Performing t\<rparr>))"

text \<open>
  The effects of the frame are performed: they leave the session \<open>s\<close>, the transfer table \<open>t\<close> and a response.
  \<open>filled\<close> is that response with the returned leases in it, \<open>stringify\<close> its JSON text.
\<close>

definition effects_performed ::
  "'d file_system \<Rightarrow> (response_header \<Rightarrow> jstr) \<Rightarrow> (returned_lease list \<Rightarrow> response_header) \<Rightarrow>
    transfers \<Rightarrow> 'd session \<Rightarrow> ('d, 'v) app_run \<Rightarrow> ('d, 'v) app_run" where
  "effects_performed fs stringify filled t s r =
    (let r1 = r\<lparr>rn_session := s\<rparr> in
     case Transfers.response t of
       Inl e \<Rightarrow> end_run fs (Inl e) r1
     | Inr (leases, payload) \<Rightarrow>
        (let n = length (encode_text (stringify (filled leases))) + length payload;
             (b, counted) = count ''maxResponseBytes'' (int n) (rn_budgets r1);
             r2 = r1\<lparr>rn_budgets := b\<rparr> in
         case counted of Inl e \<Rightarrow> end_run fs (Inl e) r2
         | Inr _ \<Rightarrow>
            (case respond (filled leases) payload (rn_guest r2) of
               (g, Inl e) \<Rightarrow> end_run fs (Inl e) (r2\<lparr>rn_guest := g\<rparr>)
             | (g, Inr _) \<Rightarrow> r2\<lparr>rn_guest := g, rn_phase := Receiving, rn_sent := rn_sent r2 @ [n]\<rparr>)))"

text \<open>
  The receive rejects (the guest closed), the effects reject, or the run is aborted: by its signal, or by the deadline
  of the run, armed when the guest is ready. The effects of a frame that are still in flight then are not stopped: they lost the race, and go on after the clean-up.
\<close>

definition run_fails :: "'d file_system \<Rightarrow> jserror \<Rightarrow> ('d, 'v) app_run \<Rightarrow> ('d, 'v) app_run" where
  "run_fails fs e r = (end_run fs (Inl e) r)\<lparr>rn_late := (case rn_phase r of Performing _ \<Rightarrow> True | _ \<Rightarrow> False)\<rparr>"

definition armRun :: "('d, 'v) app_run \<Rightarrow> ('d, 'v) app_run" where
  "armRun r = (if mget (al_perRun (bu_limits (rn_budgets r))) ''deadlineMs'' = None then r else r\<lparr>rn_timer := True\<rparr>)"

definition deadline_error :: "app_limits \<Rightarrow> jserror" where
  "deadline_error l = Error (exceededMessage ''perRun.deadlineMs'' (limit_text (al_perRun l) ''deadlineMs'' @ js '' ms''))"

definition runNuppLuaJITApp ::
  "limit_layer \<Rightarrow> byte list option \<Rightarrow> byte list option \<Rightarrow> jserror option option \<Rightarrow> bool \<Rightarrow> 'd session \<Rightarrow> ('d, 'v) app_run result" where
  "runNuppLuaJITApp overrides app initialize sig snapshot session =
    bind (resolveLimits [overrides]) (\<lambda>l.
    bind (applicationPayload app initialize) (\<lambda>payload.
    bind (createGuest True sig snapshot False) (\<lambda>g.
      Inr \<lparr>rn_phase = Receiving, rn_budgets = \<lparr>bu_limits = l, bu_turn = no_counts, bu_run = no_counts\<rparr>,
           rn_guest = g, rn_timer = False, rn_session = session, rn_sent = [], rn_late = False\<rparr>)))"

section \<open>What may happen to a run\<close>

inductive run_step :: "'d file_system \<Rightarrow> ('d, 'v) app_run \<Rightarrow> ('d, 'v) app_run \<Rightarrow> bool" for fs where
  arrives: "rn_phase r = Receiving \<Longrightarrow> run_step fs r (frame_arrives fs parse begins frame r)"
| performed: "rn_phase r = Performing t0 \<Longrightarrow> run_step fs r (effects_performed fs stringify filled t s r)"
| proceeds: "rn_phase r = Performing t0 \<Longrightarrow> run_step fs r (r\<lparr>rn_session := s\<rparr>)"
| late: "rn_late r \<Longrightarrow> run_step fs r (r\<lparr>rn_session := s\<rparr>)"
| fails: "\<not> (\<exists>v. rn_phase r = Ended v) \<Longrightarrow> run_step fs r (run_fails fs e r)"
| deadline: "\<not> (\<exists>v. rn_phase r = Ended v) \<Longrightarrow> rn_timer r \<Longrightarrow> run_step fs r (run_fails fs (deadline_error (bu_limits (rn_budgets r))) r)"
| ready: "\<not> (\<exists>v. rn_phase r = Ended v) \<Longrightarrow> run_step fs r (armRun r)"
| guest_moves: "guest_step (rn_guest r) g \<Longrightarrow> run_step fs r (r\<lparr>rn_guest := g\<rparr>)"

inductive run_reachable :: "'d file_system \<Rightarrow> ('d, 'v) app_run \<Rightarrow> bool" for fs where
  started: "runNuppLuaJITApp overrides app initialize sig snapshot session = Inr r \<Longrightarrow> run_reachable fs r"
| moved: "run_reachable fs r \<Longrightarrow> run_step fs r r' \<Longrightarrow> run_reachable fs r'"

section \<open>Budgets hold\<close>

text \<open>The run is inside its budgets on one limit.\<close>

definition within_limit :: "budgets \<Rightarrow> string \<Rightarrow> bool" where
  "within_limit b limit \<longleftrightarrow> \<not> over_turn b limit \<and> \<not> over_run b limit"

definition budgets_ok :: "budgets \<Rightarrow> bool" where
  "budgets_ok b \<longleftrightarrow> limits_ok (bu_limits b) \<and>
     (\<forall>limit\<in>set [''maxEffects'', ''maxEffectBytes'', ''maxResponseBytes'']. within_limit b limit \<and> 0 \<le> counted (bu_turn b) limit)"

lemma counted_add: "counted (add_count limit amount c) k = (if k = limit then counted c limit + amount else counted c k)"
  by (simp add: counted_def add_count_def)

lemma count_fields [simp]:
  "bu_limits (fst (count limit amount b)) = bu_limits b"
  "counted (bu_turn (fst (count limit amount b))) k = (if k = limit then counted (bu_turn b) limit + amount else counted (bu_turn b) k)"
  "counted (bu_run (fst (count limit amount b))) k = (if k = limit then counted (bu_run b) limit + amount else counted (bu_run b) k)"
  by (simp_all add: count_def Let_def counted_add)

lemma over_cong:
  "bu_limits b' = bu_limits b \<Longrightarrow> counted (bu_turn b') k = counted (bu_turn b) k \<Longrightarrow> over_turn b' k = over_turn b k"
  "bu_limits b' = bu_limits b \<Longrightarrow> counted (bu_run b') k = counted (bu_run b) k \<Longrightarrow> over_run b' k = over_run b k"
  by (simp_all add: over_turn_def over_run_def split: option.splits)

lemma count_within:
  assumes "snd (count limit amount b) = Inr ()"
  shows "within_limit (fst (count limit amount b)) limit"
  using assms by (auto simp: count_def Let_def within_limit_def exceeded_def split: if_splits)

lemma count_other:
  assumes "k \<noteq> limit"
  shows "within_limit (fst (count limit amount b)) k = within_limit b k"
  using over_cong [of "fst (count limit amount b)" b k] assms by (simp add: within_limit_def)

lemma count_ok:
  assumes "budgets_ok b" "snd (count limit amount b) = Inr ()" "0 \<le> amount"
  shows "budgets_ok (fst (count limit amount b))"
  unfolding budgets_ok_def
proof (intro conjI ballI)
  show "limits_ok (bu_limits (fst (count limit amount b)))" using assms(1) by (simp add: budgets_ok_def)
next
  fix k assume k: "k \<in> set [''maxEffects'', ''maxEffectBytes'', ''maxResponseBytes'']"
  then have old: "within_limit b k" "0 \<le> counted (bu_turn b) k" using assms(1) unfolding budgets_ok_def by blast+
  show "within_limit (fst (count limit amount b)) k"
    using count_within [OF assms(2)] count_other [of k limit amount b] old(1) by (cases "k = limit") simp_all
  show "0 \<le> counted (bu_turn (fst (count limit amount b))) k" using old(2) assms(3) by auto
qed

lemma counted_none: "counted no_counts k = 0"
  by (simp add: counted_def no_counts_def mget_Cons)

lemma limit_nonneg:
  assumes "limits_ok l"
  shows "mget (al_perTurn l) k = Some m \<Longrightarrow> 1 \<le> m" "mget (al_perRun l) k = Some m \<Longrightarrow> 1 \<le> m"
proof -
  have v: "\<forall>v\<in>set (mvalues (al_perTurn l) @ mvalues (al_perRun l)). limit_ok v" using assms by (simp add: limits_ok_def)
  have mem: "mget t k = Some m \<Longrightarrow> m \<in> set (mvalues t)" for t :: limit_table
    using mget_Some_set [of t k m] by (force simp: mvalues_def)
  show "mget (al_perTurn l) k = Some m \<Longrightarrow> 1 \<le> m" "mget (al_perRun l) k = Some m \<Longrightarrow> 1 \<le> m"
    using v mem by (auto simp: limit_ok_def)
qed

lemma fresh_turn_within:
  assumes "limits_ok (bu_limits b)" "bu_turn b = no_counts"
  shows "\<not> over_turn b k"
  using limit_nonneg(1) [OF assms(1), of k] assms(2) by (auto simp: over_turn_def counted_none split: option.splits dest: leD)

lemma begin_turn_ok:
  assumes "budgets_ok b"
  shows "budgets_ok (begin_turn begins b)"
proof (cases begins)
  case True
  have l: "limits_ok (bu_limits b)" using assms by (simp add: budgets_ok_def)
  have "\<not> over_turn (b\<lparr>bu_turn := no_counts\<rparr>) k" for k using fresh_turn_within [of "b\<lparr>bu_turn := no_counts\<rparr>" k] l by simp
  moreover have "over_run (b\<lparr>bu_turn := no_counts\<rparr>) k = over_run b k" for k by (simp add: over_run_def split: option.splits)
  ultimately show ?thesis using True assms by (auto simp: begin_turn_def budgets_ok_def within_limit_def counted_none)
qed (use assms in \<open>simp add: begin_turn_def\<close>)

lemma count_frame_ok:
  assumes "budgets_ok b" "snd (count_frame begins f b) = Inr ()"
  shows "budgets_ok (fst (count_frame begins f b))"
proof -
  let ?n = "case ef_requests f of Some n \<Rightarrow> int n | None \<Rightarrow> 0"
  let ?c = "count ''maxEffects'' ?n (begin_turn begins b)"
  have one: "snd ?c = Inr ()" using assms(2) by (auto simp: count_frame_def split_beta split: sum.splits)
  then have eq: "count_frame begins f b =
      count ''maxEffectBytes'' (int (length (encode_text (ef_text f)) + length (ef_payload f))) (fst ?c)"
    by (simp add: count_frame_def split_beta)
  have "budgets_ok (fst ?c)" by (rule count_ok [OF begin_turn_ok [OF assms(1)] one]) (simp split: option.splits)
  then show ?thesis using count_ok [of "fst ?c"] assms(2) unfolding eq by simp
qed

lemma count_frame_fields:
  "bu_limits (fst (count_frame begins f b)) = bu_limits b"
  "counted (bu_run (fst (count_frame begins f b))) ''maxResponseBytes'' = counted (bu_run b) ''maxResponseBytes''"
  by (auto simp: count_frame_def begin_turn_def split_beta split: sum.splits)

text \<open>
  Every response posted fits its turn, together they fit the run, and until the run ends
  the counters are inside the budgets and add up to what was posted.
\<close>

definition sent_ok :: "('d, 'v) app_run \<Rightarrow> bool" where
  "sent_ok r \<longleftrightarrow>
     (\<forall>m. mget (al_perTurn (bu_limits (rn_budgets r))) ''maxResponseBytes'' = Some m \<longrightarrow> (\<forall>n\<in>set (rn_sent r). int n \<le> m)) \<and>
     (\<forall>m. mget (al_perRun (bu_limits (rn_budgets r))) ''maxResponseBytes'' = Some m \<longrightarrow> int (sum_list (rn_sent r)) \<le> m)"

definition run_over :: "('d, 'v) app_run \<Rightarrow> bool" where
  "run_over r \<longleftrightarrow> (case rn_phase r of Ended _ \<Rightarrow> True | _ \<Rightarrow> False)"

definition released :: "'d session \<Rightarrow> bool" where
  "released s \<longleftrightarrow> (\<forall>ch. se_host s = Some ch \<longrightarrow> hc_closed ch) \<and> (\<forall>h. se_http s = Some h \<longrightarrow> ht_bodies h = []) \<and>
     (\<forall>f. se_files s = Some f \<longrightarrow> fl_handles f = []) \<and>
     (\<forall>g. se_gpu s = Some g \<longrightarrow> (\<forall>b\<in>set (mvalues (gr_buffers g)). Destroyed (gb_buffer b) \<in> set (gr_calls g))) \<and>
     se_deviceDestroyed s = se_device s"

definition run_ok :: "('d, 'v) app_run \<Rightarrow> bool" where
  "run_ok r \<longleftrightarrow> guest_reachable (rn_guest r) \<and> sent_ok r \<and>
     (\<not> run_over r \<longrightarrow> budgets_ok (rn_budgets r) \<and> int (sum_list (rn_sent r)) = counted (bu_run (rn_budgets r)) ''maxResponseBytes'') \<and>
     (if run_over r then gu_closed (rn_guest r) \<and> \<not> rn_timer r \<and> (\<not> rn_late r \<longrightarrow> released (rn_session r)) else \<not> rn_late r)"

lemma closed_stays: "guest_step g g' \<Longrightarrow> gu_closed g \<Longrightarrow> gu_closed g'"
  by (induction rule: guest_step.induct)
    (auto simp: receive_def respond_def vm_message_def vm_error_def failed_def GuestHost.timer_fires_def abort_guest_def close_guest_def Let_def
      split: if_splits option.splits list.splits)

lemma close_closes: "gu_closed (close_guest e g)"
  by (simp add: close_guest_def note_event_def)

lemma closeHostChannel_closed: "hc_closed (closeHostChannel ch)"
proof -
  have w: "hc_closed (HostChannel.wake c) = hc_closed c" for c by (simp add: HostChannel.wake_def log_def)
  have l: "hc_closed (log c evs) = hc_closed c" for c evs by (simp add: log_def)
  have ra: "hc_closed (release_answers xs c) = hc_closed c" for xs c
    by (induction xs c rule: release_answers.induct) (auto simp: releaseResult_def l split: answer_body.splits)
  have rk: "hc_closed (release_kept xs c) = hc_closed c" for xs c
    by (induction xs c rule: release_kept.induct) (auto simp: releaseResult_def l)
  show ?thesis by (simp add: closeHostChannel_def Let_def w l ra rk)
qed

lemma finish_released: "released (finish_session fs s)"
  by (auto simp: released_def finish_session_def closeHostChannel_closed close_files_def destroy_buffers_def issue_def)

lemma end_run_ok:
  assumes "guest_reachable (rn_guest r)" "sent_ok r"
  shows "run_ok (end_run fs outcome r)" "run_ok (run_fails fs e r)"
proof -
  have "guest_reachable (close_guest (Error (js ''Application closed'')) (rn_guest r))"
    using assms(1) by (blast intro: guest_reachable.stepped closes)
  then show "run_ok (end_run fs outcome r)" "run_ok (run_fails fs e r)" using assms(2)
    by (simp_all add: run_ok_def end_run_def run_fails_def run_over_def sent_ok_def close_closes finish_released)
qed

lemma frame_arrives_ok:
  assumes ok: "run_ok r" and ph: "rn_phase r = Receiving"
  shows "run_ok (frame_arrives fs parse begins frame r)"
proof (cases frame)
  case (EffectFrame f)
  let ?c = "count_frame begins f (rn_budgets r)"
  let ?r = "r\<lparr>rn_budgets := fst ?c\<rparr>"
  have no: "\<not> run_over r" using ph by (simp add: run_over_def)
  have base: "guest_reachable (rn_guest ?r)" "sent_ok ?r" using ok by (simp_all add: run_ok_def sent_ok_def count_frame_fields)
  show ?thesis
  proof (cases "bind (snd ?c) (\<lambda>_. createTransfers (ef_leases f) (ef_payload f))")
    case (Inl e)
    then show ?thesis using EffectFrame end_run_ok [OF base] by (simp add: frame_arrives_def split_beta Let_def)
  next
    case (Inr t)
    then have b: "budgets_ok (fst ?c)" using count_frame_ok [of "rn_budgets r" begins f] ok no by (auto simp: run_ok_def)
    have "run_ok (?r\<lparr>rn_phase := Performing t\<rparr>)"
      using ok no b base by (simp add: run_ok_def sent_ok_def run_over_def count_frame_fields)
    then show ?thesis using EffectFrame Inr by (simp add: frame_arrives_def split_beta Let_def)
  qed
qed (use ok end_run_ok in \<open>auto simp: frame_arrives_def run_ok_def\<close>)

text \<open>A response that passed its count fits the turn, and with the earlier ones the run.\<close>

lemma sent_more:
  assumes b: "budgets_ok b" and b': "budgets_ok b'" and eq: "b' = fst (count ''maxResponseBytes'' (int n) b)"
    and lim: "bu_limits (rn_budgets r) = bu_limits b" and s: "sent_ok r"
    and sum: "int (sum_list (rn_sent r)) = counted (bu_run b) ''maxResponseBytes''"
  shows "sent_ok (r\<lparr>rn_budgets := b', rn_sent := rn_sent r @ [n]\<rparr>)"
proof -
  have w: "\<not> over_turn b' ''maxResponseBytes''" "\<not> over_run b' ''maxResponseBytes''" "0 \<le> counted (bu_turn b) ''maxResponseBytes''"
    using b b' by (simp_all add: budgets_ok_def within_limit_def)
  have turn: "int n \<le> m" if "mget (al_perTurn (bu_limits b)) ''maxResponseBytes'' = Some m" for m
    using w(1,3) that by (simp add: eq over_turn_def)
  have run: "int (sum_list (rn_sent r)) + int n \<le> m" if "mget (al_perRun (bu_limits b)) ''maxResponseBytes'' = Some m" for m
    using w(2) that by (simp add: eq over_run_def sum)
  show ?thesis using s turn run lim by (auto simp: sent_ok_def eq)
qed

lemma effects_performed_ok:
  assumes ok: "run_ok r" and ph: "rn_phase r = Performing t0"
  shows "run_ok (effects_performed fs stringify filled t s r)"
proof (cases "Transfers.response t")
  case (Inl e)
  have "run_ok (end_run fs (Inl e) (r\<lparr>rn_session := s\<rparr>))" by (rule end_run_ok) (use ok in \<open>simp_all add: run_ok_def sent_ok_def\<close>)
  then show ?thesis using Inl by (simp add: effects_performed_def)
next
  case (Inr p)
  obtain leases payload where p: "p = (leases, payload)" by (cases p)
  let ?n = "length (encode_text (stringify (filled leases))) + length payload"
  let ?c = "count ''maxResponseBytes'' (int ?n) (rn_budgets r)"
  let ?r = "r\<lparr>rn_session := s, rn_budgets := fst ?c\<rparr>"
  have live: "budgets_ok (rn_budgets r)" "int (sum_list (rn_sent r)) = counted (bu_run (rn_budgets r)) ''maxResponseBytes''"
    using ok ph by (simp_all add: run_ok_def run_over_def)
  have s0: "sent_ok r" and g0: "guest_reachable (rn_guest r)" and late0: "\<not> rn_late r"
    using ok ph by (simp_all add: run_ok_def run_over_def)
  obtain g q where q: "respond (filled leases) payload (rn_guest r) = (g, q)" by fastforce
  have g: "guest_reachable g" using g0 q by (blast intro: guest_reachable.stepped responds)
  show ?thesis
  proof (cases "snd ?c")
    case (Inl e)
    have "run_ok (end_run fs (Inl e) ?r)" by (rule end_run_ok) (use s0 g0 in \<open>simp_all add: sent_ok_def\<close>)
    then show ?thesis using Inr p Inl by (simp add: effects_performed_def split_beta Let_def)
  next
    case (Inr u)
    note counted_ok = count_ok [OF live(1), of "''maxResponseBytes''" "int ?n"]
    have b: "budgets_ok (fst ?c)" using counted_ok Inr by simp
    show ?thesis
    proof (cases q)
      case (Inl e)
      have "run_ok (end_run fs (Inl e) (?r\<lparr>rn_guest := g\<rparr>))" by (rule end_run_ok) (use s0 g in \<open>simp_all add: sent_ok_def\<close>)
      then show ?thesis using \<open>Transfers.response t = Inr p\<close> p \<open>snd ?c = Inr u\<close> q Inl
        by (simp add: effects_performed_def split_beta Let_def)
    next
      case (Inr u')
      have "sent_ok (r\<lparr>rn_budgets := fst ?c, rn_sent := rn_sent r @ [?n]\<rparr>)"
        by (rule sent_more [OF live(1) b refl refl s0 live(2)])
      then have "run_ok (?r\<lparr>rn_guest := g, rn_phase := Receiving, rn_sent := rn_sent r @ [?n]\<rparr>)"
        using g b live(2) late0 by (simp add: run_ok_def sent_ok_def run_over_def)
      then show ?thesis using \<open>Transfers.response t = Inr p\<close> p \<open>snd ?c = Inr u\<close> q Inr
        by (simp add: effects_performed_def split_beta Let_def)
    qed
  qed
qed

lemma run_step_ok: "run_step fs r r' \<Longrightarrow> run_ok r \<Longrightarrow> run_ok r'"
proof (induction rule: run_step.induct)
  case (arrives r parse begins frame)
  then show ?case by (simp add: frame_arrives_ok)
next
  case (performed r t0 stringify filled t s)
  then show ?case by (simp add: effects_performed_ok)
next
  case (fails r e)
  then show ?case using end_run_ok(2) [of r] by (simp add: run_ok_def)
next
  case (deadline r)
  then show ?case using end_run_ok(2) [of r] by (simp add: run_ok_def)
next
  case (ready r)
  then show ?case by (auto simp: armRun_def run_ok_def run_over_def sent_ok_def split: run_phase.splits)
next
  case (guest_moves r g)
  then have "guest_reachable g" "gu_closed (rn_guest r) \<Longrightarrow> gu_closed g"
    by (auto simp: run_ok_def intro: guest_reachable.stepped closed_stays)
  then show ?case using guest_moves by (simp add: run_ok_def run_over_def sent_ok_def split: run_phase.splits)
next
  case (proceeds r t0 s)
  then show ?case by (auto simp: run_ok_def run_over_def sent_ok_def)
next
  case (late r s)
  then show ?case by (auto simp: run_ok_def run_over_def sent_ok_def split: run_phase.splits if_splits)
qed

lemma fresh_budgets_ok:
  assumes "limits_ok l"
  shows "budgets_ok \<lparr>bu_limits = l, bu_turn = no_counts, bu_run = no_counts\<rparr>"
proof -
  have "\<not> over_run \<lparr>bu_limits = l, bu_turn = no_counts, bu_run = no_counts\<rparr> k" for k
    using limit_nonneg(2) [OF assms, of k] by (auto simp: over_run_def counted_none split: option.splits dest: leD)
  then show ?thesis using assms fresh_turn_within [of "\<lparr>bu_limits = l, bu_turn = no_counts, bu_run = no_counts\<rparr>"]
    by (simp add: budgets_ok_def within_limit_def counted_none)
qed

lemma run_started_ok:
  assumes "runNuppLuaJITApp overrides app initialize sig snapshot session = Inr r"
  shows "run_ok r"
proof -
  obtain l g where l: "resolveLimits [overrides] = Inr l" and g: "createGuest True sig snapshot False = Inr g"
    and r: "r = \<lparr>rn_phase = Receiving, rn_budgets = \<lparr>bu_limits = l, bu_turn = no_counts, bu_run = no_counts\<rparr>,
           rn_guest = g, rn_timer = False, rn_session = session, rn_sent = [], rn_late = False\<rparr>"
    using assms by (auto simp: runNuppLuaJITApp_def)
  have lok: "limits_ok l" using apply_layers_ok [of "[overrides]" default_limits l] l default_limits_ok by (simp add: resolveLimits_def)
  have "\<And>m. mget (al_perRun l) ''maxResponseBytes'' = Some m \<Longrightarrow> 0 \<le> m" using limit_nonneg(2) [OF lok] by force
  then show ?thesis using fresh_budgets_ok [OF lok] guest_reachable.created [OF g]
    by (auto simp: r run_ok_def run_over_def sent_ok_def counted_none)
qed

lemma run_reachable_ok: "run_reachable fs r \<Longrightarrow> run_ok r"
  by (induction rule: run_reachable.induct) (auto intro: run_started_ok run_step_ok)

section \<open>Properties\<close>

text \<open>C18. A run stays inside its budgets: no response it posts is larger than its turn's limit, all of them together never exceed
  the limit of the run, and as long as it goes on the effects, request bytes and response bytes it counted are
  within the limits of the turn and, where one is set, of the run.
\<close>

theorem run_within_budgets:
  assumes "run_reachable fs r" "limit \<in> {''maxEffects'', ''maxEffectBytes'', ''maxResponseBytes''}"
  shows "sent_ok r \<and> (run_over r \<or> within_limit (rn_budgets r) limit)"
  using run_reachable_ok [OF assms(1)] assms(2) by (auto simp: run_ok_def budgets_ok_def)

definition empty_session :: "byte list session" where
  "empty_session = \<lparr>se_host = None, se_http = Some no_bodies, se_files = Some sample_file, se_gpu = Some gpuRuntime, se_device = True,
     se_deviceDestroyed = False\<rparr>"

definition started_run :: "(byte list, nat) app_run" where
  "started_run = (case runNuppLuaJITApp LayerAbsent (Some [1]) (Some []) None True empty_session of Inr r \<Rightarrow> r)"

lemma started_run_reachable: "run_reachable fs started_run"
proof -
  have "\<exists>r. runNuppLuaJITApp LayerAbsent (Some [1]) (Some []) None True empty_session = (Inr r :: (byte list, nat) app_run result)"
    by (simp add: runNuppLuaJITApp_def resolveLimits_def applicationPayload_def MAX_PAYLOAD_def createGuest_def Let_def)
  then obtain r where r: "runNuppLuaJITApp LayerAbsent (Some [1]) (Some []) None True empty_session = (Inr r :: (byte list, nat) app_run result)"
    by blast
  then have "started_run = r" by (simp add: started_run_def)
  then show ?thesis using run_reachable.started [OF r] by simp
qed

theorem run_within_budgets_witness:
  "sent_ok (armRun started_run) \<and> within_limit (rn_budgets (armRun started_run)) ''maxEffects''"
proof -
  have ph: "rn_phase started_run = Receiving"
    by (simp add: started_run_def runNuppLuaJITApp_def resolveLimits_def applicationPayload_def MAX_PAYLOAD_def createGuest_def Let_def)
  then have "run_reachable memory_fs (armRun started_run)"
    by (intro run_reachable.moved [OF started_run_reachable] run_step.ready) simp
  moreover have "\<not> run_over (armRun started_run)" using ph by (simp add: run_over_def armRun_def)
  ultimately show ?thesis using run_within_budgets [of memory_fs "armRun started_run" "''maxEffects''"] by simp
qed



text \<open>An open that was in flight when the run was aborted registers its handle after the clean-up: nothing closes it.\<close>

lemma open_file_registers:
  "open_file fs eff parts st = (st', Inr (FileOpened h)) \<Longrightarrow> mget (fl_handles st') h \<noteq> None"
  by (auto simp: open_file_def Let_def split: option.splits prod.splits sum.splits if_splits)

lemma late_open_stays:
  assumes "run_reachable fs r" "rn_late r" "se_files (rn_session r) = Some st"
    and "open_file fs eff parts st = (st', Inr (FileOpened h))"
  defines "r' \<equiv> r\<lparr>rn_session := (rn_session r)\<lparr>se_files := Some st'\<rparr>\<rparr>"
  shows "run_reachable fs r' \<and> run_over r' \<and> mget (fl_handles st') h \<noteq> None \<and> \<not> released (rn_session r')"
proof -
  have "run_over r" using run_reachable_ok [OF assms(1)] assms(2) by (simp add: run_ok_def split: if_splits)
  moreover have "mget (fl_handles st') h \<noteq> None" using open_file_registers [OF assms(4)] .
  moreover from this have "fl_handles st' \<noteq> []" by auto
  ultimately show ?thesis
    using run_reachable.moved [OF assms(1) run_step.late [OF assms(2)]] by (auto simp: r'_def run_over_def released_def)
qed

end
