(* ===== verification/Native.thy ===== *)
theory Native
  imports Assets Codec
begin

text \<open>
  Native libraries of an application, \<^verbatim>\<open>src/runtime/luajit/native.mjs\<close>: each is checked to be a 32-bit x86 shared
  object and turned into Lua statements that write it inside the guest, its bytes as decimal
  escapes in chunks.
\<close>

section \<open>Checks\<close>

definition native_limit :: nat where
  "native_limit = 1024 * 1024"

definition name_char :: "nat \<Rightarrow> bool" where
  "name_char c \<longleftrightarrow> 65 \<le> c \<and> c \<le> 90 \<or> 97 \<le> c \<and> c \<le> 122 \<or> 48 \<le> c \<and> c \<le> 57 \<or> c = 95 \<or> c = 46 \<or> c = 45"

definition library_name :: "jstr \<Rightarrow> bool" where
  "library_name name \<longleftrightarrow> 3 < length name \<and> drop (length name - 3) name = js ''.so'' \<and> list_all name_char name"

definition u16_at :: "byte list \<Rightarrow> nat \<Rightarrow> nat" where
  "u16_at bs i = unat (bs ! i) + 256 * unat (bs ! (i + 1))"

definition i386_shared :: "byte list \<Rightarrow> bool" where
  "i386_shared bs \<longleftrightarrow> take 4 bs = [0x7f, 0x45, 0x4c, 0x46] \<and> bs ! 4 = 1 \<and> bs ! 5 = 1 \<and> u16_at bs 16 = 3 \<and> u16_at bs 18 = 3"

definition validateNativeLibrary :: "jstr \<Rightarrow> byte list \<Rightarrow> unit result" where
  "validateNativeLibrary name bytes =
    (if \<not> library_name name then throw ''Invalid guest library name''
     else if length bytes < 52 \<or> length bytes > native_limit then throw ''Guest library must contain at most one MiB''
     else if \<not> i386_shared bytes
     then throw ''Browser native AOT requires an i386 Linux shared library built against musl; select aotTarget = \"i686-unknown-linux-gnu\"''
     else Inr ())"

section \<open>Initialization\<close>

definition escape_byte :: "byte \<Rightarrow> jstr" where
  "escape_byte b = [92, 48 + unat b div 100, 48 + unat b div 10 mod 10, 48 + unat b mod 10]"

definition lua_literal :: "byte list \<Rightarrow> jstr" where
  "lua_literal bs = concat (map escape_byte bs)"

text \<open>The slices of at most \<open>n\<close> bytes the loop takes.\<close>

function slices_of :: "nat \<Rightarrow> byte list \<Rightarrow> byte list list" where
  "slices_of n bs = (if bs = [] \<or> n = 0 then [] else take n bs # slices_of n (drop n bs))"
  by auto
termination by (relation "measure (length \<circ> snd)") auto

declare slices_of.simps [simp del]

definition write_statement :: "byte list \<Rightarrow> jstr" where
  "write_statement bs = js ''assert(f:write('' @ [34] @ lua_literal bs @ [34] @ js ''))'' @ [10]"

definition library_statements :: "jstr \<Rightarrow> byte list \<Rightarrow> jstr" where
  "library_statements name bytes =
    js ''do local f=assert(io.open('' @ [34] @ js ''/lib/'' @ name @ [34, 44, 34] @ js ''wb'' @ [34] @ js ''))'' @ [10] @
    concat (map write_statement (slices_of 16384 bytes)) @ js ''assert(f:close()) end'' @ [10]"

text \<open>\<open>fetch\<close> gives the verified bytes of a file; the names seen and the total so far are threaded.\<close>

fun native_chunks ::
  "(jstr \<Rightarrow> byte list result) \<Rightarrow> (jstr \<times> jstr) list \<Rightarrow> jstr list \<Rightarrow> nat \<Rightarrow> jstr result" where
  "native_chunks fetch [] names used = Inr []"
| "native_chunks fetch ((file, name) # rest) names used =
    (if name \<in> set names then throw ''Duplicate guest library name''
     else bind (fetch file) (\<lambda>bytes. bind (validateNativeLibrary name bytes) (\<lambda>_.
       if used + length bytes > native_limit then throw ''Guest native libraries exceed one MiB in total''
       else bind (native_chunks fetch rest (name # names) (used + length bytes)) (\<lambda>text.
         Inr (library_statements name bytes @ text)))))"

definition nativeInitialization :: "(jstr \<Rightarrow> byte list result) \<Rightarrow> (jstr \<times> jstr) list \<Rightarrow> byte list result" where
  "nativeInitialization fetch records = bind (native_chunks fetch records [] 0) (\<lambda>text. Inr (encode_text text))"

section \<open>What Lua reads back\<close>

text \<open>The decimal escapes of a Lua string: a backslash and up to three digits; here always three.\<close>

fun lua_unescape :: "jstr \<Rightarrow> byte list option" where
  "lua_unescape [] = Some []"
| "lua_unescape (c # x # y # z # rest) =
    (if c = 92 \<and> 48 \<le> x \<and> x \<le> 57 \<and> 48 \<le> y \<and> y \<le> 57 \<and> 48 \<le> z \<and> z \<le> 57 \<and> (x - 48) * 100 + (y - 48) * 10 + (z - 48) < 256
     then map_option ((#) (of_nat ((x - 48) * 100 + (y - 48) * 10 + (z - 48)))) (lua_unescape rest)
     else None)"
| "lua_unescape _ = None"

lemma three_digits: "(n :: nat) < 256 \<Longrightarrow> n div 100 * 100 + n div 10 mod 10 * 10 + n mod 10 = n \<and> n div 100 \<le> 9"
proof -
  assume "n < 256"
  moreover have "n div 100 = n div 10 div 10" by (simp flip: div_mult2_eq)
  moreover have "n div 10 = n div 10 div 10 * 10 + n div 10 mod 10" by (rule div_mult_mod_eq [symmetric])
  moreover have "n = n div 10 * 10 + n mod 10" by simp
  ultimately show ?thesis by arith
qed

lemma unescape_escape: "lua_unescape (escape_byte b @ rest) = map_option ((#) b) (lua_unescape rest)"
proof -
  have v: "unat b div 100 * 100 + unat b div 10 mod 10 * 10 + unat b mod 10 = unat b" "unat b div 100 \<le> 9"
    using three_digits [OF unat_byte [of b]] by auto
  have "unat b div 10 mod 10 \<le> 9" "unat b mod 10 \<le> 9" by auto
  then show ?thesis using v unat_byte [of b] by (simp add: escape_byte_def)
qed

lemma lua_literal_roundtrip: "lua_unescape (lua_literal bs) = Some bs"
  by (induction bs) (simp_all add: lua_literal_def unescape_escape)

lemma concat_slices: "0 < n \<Longrightarrow> concat (slices_of n bs) = bs \<and> (\<forall>s\<in>set (slices_of n bs). s \<noteq> [] \<and> length s \<le> n)"
proof (induction n bs rule: slices_of.induct)
  case (1 n bs)
  show ?case
  proof (cases "bs = []")
    case True
    then show ?thesis by (simp add: slices_of.simps)
  next
    case False
    then have "slices_of n bs = take n bs # slices_of n (drop n bs)" using "1.prems" by (subst slices_of.simps) simp
    then show ?thesis using 1 False by auto
  qed
qed

section \<open>Properties\<close>

text \<open>
  The guest writes the library it was given: the literals of the write statements, read back as Lua reads decimal
  escapes, are the library's bytes in order, NUL and non-ASCII bytes included, and none is longer than 16384 bytes.
\<close>

theorem native_library_roundtrip:
  "concat (map (\<lambda>s. case lua_unescape (lua_literal s) of Some bs \<Rightarrow> bs | None \<Rightarrow> []) (slices_of 16384 bytes)) = bytes \<and>
   list_all (\<lambda>s. length (lua_literal s) \<le> 4 * 16384) (slices_of 16384 bytes)"
proof -
  have "length (lua_literal s) = 4 * length s" for s by (induction s) (simp_all add: lua_literal_def escape_byte_def)
  then show ?thesis using concat_slices [of 16384 bytes] by (auto simp: lua_literal_roundtrip list_all_iff)
qed

end
