(* ===== verification/Aot.thy ===== *)
theory Aot
  imports Transfers Codec
begin

text \<open>
  Independent WebAssembly kernels, \<^verbatim>\<open>src/runtime/luajit/aot.mjs\<close>: the units of a manifest are compiled and their layouts read once;
  a call copies its arguments and spans into the kernel's own memory, runs it and copies the results and the writable
  spans back. The engine and the kernel's code are parameters.
\<close>

section \<open>Units\<close>

definition LIMIT :: nat where
  "LIMIT = 2 * 1024 * 1024"

definition scalarBytes :: "string \<Rightarrow> nat option" where
  "scalarBytes t = map_of [(''bool'', 1), (''f32'', 4), (''f64'', 8), (''i32'', 4), (''u32'', 4), (''i64'', 8), (''u64'', 8)] t"

definition narrowBytes :: "string \<Rightarrow> nat option" where
  "narrowBytes t = map_of [(''uint8'', 1), (''int8'', 1), (''uint16'', 2), (''int16'', 2)] t"

definition integer :: "jnum \<Rightarrow> string \<Rightarrow> nat result" where
  "integer n label =
    (if \<not> isSafeInteger n \<or> the_int n < 0 \<or> the_int n > int LIMIT then Inl (Error (js ''Invalid Wasm '' @ js label)) else Inr (nat (the_int n)))"

record kernel_param =
  kp_kind :: string
  kp_type :: string
  kp_sourceType :: string

record layout_field =
  lf_name :: string
  lf_offset :: nat
  lf_bytes :: nat

record kernel_layout =
  kl_size :: nat
  kl_fields :: "layout_field list"

record layout_declaration =
  ld_name :: string
  ld_prefix :: string
  ld_fields :: "string list"

record entry_declaration =
  ed_symbol :: jstr
  ed_call :: string
  ed_params :: "kernel_param list"
  ed_results :: nat
  ed_independentCounts :: bool
  ed_layouts :: "layout_declaration list"

record kernel_entry =
  ke_call :: string
  ke_params :: "kernel_param list"
  ke_results :: nat
  ke_independentCounts :: bool
  ke_layouts :: "(string, kernel_layout) jmap"

record kernel_record =
  kr_abi :: jnum
  kr_unit :: jstr
  kr_file :: jstr
  kr_scalar :: bool  \<comment> \<open>no tier, or the scalar one\<close>
  kr_entries :: "entry_declaration list"

text \<open>
  The engine: whether it validates a module, compiling one, whether its imports are among the two allowed, instantiating it, whether the
  exports have a memory and an allocator, which exports are functions, and what one of no arguments returns.
\<close>

record engine =
  eg_validate :: "byte list \<Rightarrow> bool"
  eg_compile :: "byte list \<Rightarrow> unit result"
  eg_imports_ok :: "byte list \<Rightarrow> bool"
  eg_instantiate :: "byte list \<Rightarrow> unit result"
  eg_exports_ok :: "byte list \<Rightarrow> bool"
  eg_function :: "byte list \<Rightarrow> string \<Rightarrow> bool"
  eg_number :: "byte list \<Rightarrow> string \<Rightarrow> jnum result"

fun read_fields :: "engine \<Rightarrow> byte list \<Rightarrow> string \<Rightarrow> string list \<Rightarrow> layout_field list result" where
  "read_fields eg unit prefix [] = Inr []"
| "read_fields eg unit prefix (name # names) =
    bind (bind (eg_number eg unit (prefix @ ''_offset_'' @ name)) (\<lambda>n. integer n ''field offset'')) (\<lambda>offset.
    bind (bind (eg_number eg unit (prefix @ ''_size_'' @ name)) (\<lambda>n. integer n ''field size'')) (\<lambda>bytes.
    bind (read_fields eg unit prefix names) (\<lambda>rest. Inr (\<lparr>lf_name = name, lf_offset = offset, lf_bytes = bytes\<rparr> # rest))))"

definition read_layout :: "engine \<Rightarrow> byte list \<Rightarrow> layout_declaration \<Rightarrow> kernel_layout result" where
  "read_layout eg unit d =
    bind (bind (eg_number eg unit (ld_prefix d @ ''_size'')) (\<lambda>n. integer n ''layout size'')) (\<lambda>sz.
    bind (read_fields eg unit (ld_prefix d) (ld_fields d)) (\<lambda>fields.
      if list_ex (\<lambda>f. lf_offset f + lf_bytes f > sz) fields then throw ''Wasm field exceeds its layout''
      else Inr \<lparr>kl_size = sz, kl_fields = fields\<rparr>))"

fun read_layouts :: "engine \<Rightarrow> byte list \<Rightarrow> layout_declaration list \<Rightarrow> (string, kernel_layout) jmap \<Rightarrow> (string, kernel_layout) jmap result" where
  "read_layouts eg unit [] acc = Inr acc"
| "read_layouts eg unit (d # ds) acc = bind (read_layout eg unit d) (\<lambda>l. read_layouts eg unit ds (mset acc (ld_name d) l))"

fun read_entries :: "engine \<Rightarrow> byte list \<Rightarrow> entry_declaration list \<Rightarrow> (jstr, kernel_entry) jmap \<Rightarrow> (jstr, kernel_entry) jmap result" where
  "read_entries eg unit [] acc = Inr acc"
| "read_entries eg unit (e # es) acc =
    (if mhas acc (ed_symbol e) \<or> \<not> eg_function eg unit (ed_call e) then throw ''Invalid Wasm kernel entry''
     else bind (read_layouts eg unit (ed_layouts e) []) (\<lambda>layouts.
       read_entries eg unit es (mset acc (ed_symbol e) \<lparr>ke_call = ed_call e, ke_params = ed_params e, ke_results = ed_results e,
         ke_independentCounts = ed_independentCounts e, ke_layouts = layouts\<rparr>)))"

fun create_units ::
  "engine \<Rightarrow> (jstr \<Rightarrow> byte list result) \<Rightarrow> kernel_record list \<Rightarrow> (jstr, (jstr, kernel_entry) jmap) jmap \<Rightarrow> (jstr, (jstr, kernel_entry) jmap) jmap result" where
  "create_units eg fetch [] us = Inr us"
| "create_units eg fetch (r # rs) us =
    (if kr_abi r \<noteq> IntV 1 \<or> mhas us (kr_unit r) then throw ''Invalid independent Wasm unit''
     else bind (fetch (kr_file r)) (\<lambda>bytes.
       if \<not> kr_scalar r \<and> \<not> eg_validate eg bytes then create_units eg fetch rs us
       else bind (eg_compile eg bytes) (\<lambda>_.
         if \<not> eg_imports_ok eg bytes then throw ''Unexpected independent Wasm import''
         else bind (eg_instantiate eg bytes) (\<lambda>_.
           if \<not> eg_exports_ok eg bytes then throw ''Invalid independent Wasm exports''
           else bind (read_entries eg bytes (kr_entries r) []) (\<lambda>entries. create_units eg fetch rs (mset us (kr_unit r) entries))))))"

definition createKernels ::
  "engine \<Rightarrow> (jstr \<Rightarrow> byte list result) \<Rightarrow> kernel_record list \<Rightarrow> (jstr, (jstr, kernel_entry) jmap) jmap result" where
  "createKernels eg fetch records = create_units eg fetch records []"

section \<open>Calls\<close>

record span_field =
  sf_name :: string
  sf_offset :: jnum
  sf_bytes :: jnum

record supplied_span =
  ss_stride :: jnum
  ss_lease :: jnum
  ss_fields :: "span_field list"

record kernel_effect =
  kx_units :: "jstr list"
  kx_symbol :: jstr
  kx_lease :: jnum
  kx_resultLease :: jnum
  kx_spans :: "supplied_span list option"

text \<open>A kernel's memory and allocator while it is called: pointers given and taken back are recorded.\<close>

record 'k machine =
  mc_kernel :: 'k
  mc_allocated :: "nat list"
  mc_freed :: "nat list"

text \<open>The instance: its allocator (a pointer of 0 is none), the extent of its memory, reading, writing and calling.\<close>

record 'k instance_env =
  ie_malloc :: "'k \<Rightarrow> nat \<Rightarrow> 'k \<times> nat"
  ie_free :: "'k \<Rightarrow> nat \<Rightarrow> 'k"
  ie_extent :: "'k \<Rightarrow> nat"
  ie_read :: "'k \<Rightarrow> nat \<Rightarrow> nat \<Rightarrow> byte list"
  ie_write :: "'k \<Rightarrow> nat \<Rightarrow> byte list \<Rightarrow> 'k"
  ie_call :: "'k \<Rightarrow> string \<Rightarrow> nat \<Rightarrow> nat \<Rightarrow> 'k \<times> unit result"

text \<open>A call in progress: the machine, the leases taken so far and the spans copied in.\<close>

record copied_field =
  cf_source :: nat
  cf_target :: nat
  cf_bytes :: nat

record copied_span =
  cs_pointer :: nat
  cs_lease :: int
  cs_count :: nat
  cs_stride :: nat
  cs_sourceStride :: nat
  cs_fields :: "copied_field list"
  cs_writable :: bool

record 'k calling =
  cg_machine :: "'k machine"
  cg_transfers :: transfers
  cg_leases :: "jnum list"
  cg_spans :: "copied_span list"

definition allocate :: "'k instance_env \<Rightarrow> nat \<Rightarrow> 'k machine \<Rightarrow> 'k machine \<times> nat result" where
  "allocate ie sz mc =
    (if sz > LIMIT then (mc, throw ''Invalid Wasm allocation'')
     else case ie_malloc ie (mc_kernel mc) (max 1 sz) of (k, p) \<Rightarrow>
       let mc1 = mc\<lparr>mc_kernel := k\<rparr> in
       if p = 0 \<or> p + sz > ie_extent ie k then (mc1, throw ''Wasm kernel memory exhausted'')
       else (mc1\<lparr>mc_allocated := mc_allocated mc1 @ [p]\<rparr>, Inr p))"

definition on_machine :: "('k machine \<Rightarrow> 'k machine \<times> 'a result) \<Rightarrow> 'k calling \<Rightarrow> 'k calling \<times> 'a result" where
  "on_machine f c = (case f (cg_machine c) of (mc, r) \<Rightarrow> (c\<lparr>cg_machine := mc\<rparr>, r))"

definition take_lease :: "jnum \<Rightarrow> nat \<Rightarrow> bool \<Rightarrow> 'k calling \<Rightarrow> 'k calling \<times> lease_entry result" where
  "take_lease i bytes writable c =
    (case lease (cg_transfers c) i (IntV (int bytes)) writable of
       Inl e \<Rightarrow> (c, Inl e)
     | Inr e \<Rightarrow> (c\<lparr>cg_leases := cg_leases c @ [i]\<rparr>, Inr e))"

definition is_span :: "kernel_param \<Rightarrow> bool" where
  "is_span p \<longleftrightarrow> length (kp_kind p) \<ge> 5 \<and> drop (length (kp_kind p) - 5) (kp_kind p) = ''_span''"

definition layout_of :: "kernel_entry \<Rightarrow> kernel_param \<Rightarrow> kernel_layout option" where
  "layout_of e p = (if take 7 (kp_type p) = ''struct:'' then mget (ke_layouts e) (drop 7 (kp_type p)) else None)"

definition stride_of :: "kernel_entry \<Rightarrow> kernel_param \<Rightarrow> nat option" where
  "stride_of e p =
    (case (case layout_of e p of Some l \<Rightarrow> Some (kl_size l)
           | None \<Rightarrow> (case narrowBytes (kp_sourceType p) of Some n \<Rightarrow> Some n | None \<Rightarrow> scalarBytes (kp_type p))) of
       Some 0 \<Rightarrow> None | x \<Rightarrow> x)"

fun match_fields :: "supplied_span \<Rightarrow> nat \<Rightarrow> layout_field list \<Rightarrow> copied_field list result" where
  "match_fields s sourceStride [] = Inr []"
| "match_fields s sourceStride (f # fs) =
    (case filter (\<lambda>x. sf_name x = lf_name f) (ss_fields s) of
       [] \<Rightarrow> throw ''Wasm span field layout mismatch''
     | from # _ \<Rightarrow>
        bind (integer (sf_offset from) ''guest offset'') (\<lambda>offset.
          if offset + lf_bytes f > sourceStride \<or> sf_bytes from \<noteq> IntV (int (lf_bytes f)) then throw ''Wasm span field layout mismatch''
          else bind (match_fields s sourceStride fs) (\<lambda>rest. Inr (\<lparr>cf_source = offset, cf_target = lf_offset f, cf_bytes = lf_bytes f\<rparr> # rest))))"

definition span_fields :: "kernel_entry \<Rightarrow> kernel_param \<Rightarrow> nat \<Rightarrow> nat \<Rightarrow> supplied_span \<Rightarrow> copied_field list result" where
  "span_fields e p stride sourceStride s =
    (case layout_of e p of
       Some l \<Rightarrow> match_fields s sourceStride (kl_fields l)
     | None \<Rightarrow> if sourceStride \<noteq> stride then throw ''Wasm scalar span layout mismatch''
         else Inr [\<lparr>cf_source = 0, cf_target = 0, cf_bytes = stride\<rparr>])"

text \<open>Rows are copied field by field, from the guest's layout to the kernel's and back.\<close>

definition copy_in :: "'k instance_env \<Rightarrow> nat \<Rightarrow> nat \<Rightarrow> nat \<Rightarrow> nat \<Rightarrow> copied_field list \<Rightarrow> byte list \<Rightarrow> 'k \<Rightarrow> 'k" where
  "copy_in ie pointer count stride sourceStride cfs view k =
    fold (\<lambda>row k. fold (\<lambda>f k. ie_write ie k (pointer + row * stride + cf_target f) (take (cf_bytes f) (drop (row * sourceStride + cf_source f) view))) cfs k)
      [0..<count] k"

definition copy_out :: "'k instance_env \<Rightarrow> 'k \<Rightarrow> copied_span \<Rightarrow> transfers \<Rightarrow> transfers" where
  "copy_out ie k s t =
    fold (\<lambda>row t. fold (\<lambda>f t. write_view t (cs_lease s) (row * cs_sourceStride s + cf_source f)
        (ie_read ie k (cs_pointer s + row * cs_stride s + cf_target f) (cf_bytes f))) (cs_fields s) t) [0..<cs_count s] t"

text \<open>One span: its count is the number in slot \<open>countIndex\<close> of the arguments.\<close>

definition copy_span ::
  "'k instance_env \<Rightarrow> kernel_entry \<Rightarrow> byte list \<Rightarrow> nat \<Rightarrow> nat \<Rightarrow> nat \<Rightarrow> kernel_param \<Rightarrow> supplied_span option \<Rightarrow> 'k calling \<Rightarrow> 'k calling \<times> unit result" where
  "copy_span ie e args argsPointer index countIndex p supplied c =
    (let n = le_nat (take 4 (drop (countIndex * 8) args)); writable = (kp_kind p = ''write_span'') in
     case stride_of e p of
       None \<Rightarrow> (c, throw ''Unknown Wasm span layout'')
     | Some stride \<Rightarrow>
       (case supplied of
          None \<Rightarrow> (c, throw ''Invalid Wasm guest stride'')
        | Some s \<Rightarrow>
          (case integer (ss_stride s) ''guest stride'' of
             Inl x \<Rightarrow> (c, Inl x)
           | Inr sourceStride \<Rightarrow>
             if sourceStride = 0 \<or> n * max stride sourceStride > LIMIT then (c, throw ''Wasm span exceeds transfer budget'')
             else (case take_lease (ss_lease s) (n * sourceStride) writable c of
               (c1, Inl x) \<Rightarrow> (c1, Inl x)
             | (c1, Inr l) \<Rightarrow>
               (case span_fields e p stride sourceStride s of
                  Inl x \<Rightarrow> (c1, Inl x)
                | Inr cfs \<Rightarrow>
                  (case on_machine (allocate ie (n * stride)) c1 of
                     (c2, Inl x) \<Rightarrow> (c2, Inl x)
                   | (c2, Inr pointer) \<Rightarrow>
                     (let k1 = copy_in ie pointer n stride sourceStride cfs (le_view l) (mc_kernel (cg_machine c2));
                          k2 = ie_write ie k1 (argsPointer + index * 8) (Codec.le_bytes 4 pointer) in
                      (c2\<lparr>cg_machine := (cg_machine c2)\<lparr>mc_kernel := k2\<rparr>,
                          cg_spans := cg_spans c2 @ [\<lparr>cs_pointer = pointer, cs_lease = le_id l, cs_count = n, cs_stride = stride,
                            cs_sourceStride = sourceStride, cs_fields = cfs, cs_writable = writable\<rparr>]\<rparr>, Inr ()))))))))"

definition supplied_at :: "supplied_span list \<Rightarrow> nat \<Rightarrow> supplied_span option" where
  "supplied_at spans i = (if i < length spans then Some (spans ! i) else None)"

fun copy_spans ::
  "'k instance_env \<Rightarrow> kernel_entry \<Rightarrow> byte list \<Rightarrow> nat \<Rightarrow> supplied_span list \<Rightarrow> (nat \<times> kernel_param) list \<Rightarrow> nat \<Rightarrow> nat \<Rightarrow> 'k calling \<Rightarrow>
    'k calling \<times> nat result" where
  "copy_spans ie e args argsPointer spans [] nextCount nextSpan c = (c, Inr nextSpan)"
| "copy_spans ie e args argsPointer spans ((index, p) # ps) nextCount nextSpan c =
    (if \<not> is_span p then copy_spans ie e args argsPointer spans ps nextCount nextSpan c
     else let countIndex = (if ke_independentCounts e then nextCount else length (ke_params e));
              nextCount' = (if ke_independentCounts e then nextCount + 1 else nextCount) in
       (case copy_span ie e args argsPointer index countIndex p (supplied_at spans nextSpan) c of
          (c1, Inl x) \<Rightarrow> (c1, Inl x)
        | (c1, Inr _) \<Rightarrow> copy_spans ie e args argsPointer spans ps nextCount' (nextSpan + 1) c1))"

definition args_length :: "kernel_entry \<Rightarrow> nat" where
  "args_length e = (length (ke_params e) + (if ke_independentCounts e then length (filter is_span (ke_params e)) else 1)) * 8"

text \<open>The body of the \<^verbatim>\<open>try\<close>, up to its end or its exception.\<close>

definition call_kernel :: "'k instance_env \<Rightarrow> kernel_entry \<Rightarrow> kernel_effect \<Rightarrow> 'k calling \<Rightarrow> 'k calling \<times> unit result" where
  "call_kernel ie e x c =
    (case take_lease (kx_lease x) (args_length e) False c of
       (c1, Inl err) \<Rightarrow> (c1, Inl err)
     | (c1, Inr args) \<Rightarrow>
     (case take_lease (kx_resultLease x) (ke_results e * 8) True c1 of
       (c2, Inl err) \<Rightarrow> (c2, Inl err)
     | (c2, Inr results) \<Rightarrow>
     (case on_machine (allocate ie (args_length e)) c2 of
       (c3, Inl err) \<Rightarrow> (c3, Inl err)
     | (c3, Inr argsPointer) \<Rightarrow>
     (case on_machine (allocate ie (Transfers.le_bytes results)) c3 of
       (c4, Inl err) \<Rightarrow> (c4, Inl err)
     | (c4, Inr resultPointer) \<Rightarrow>
     (let c5 = c4\<lparr>cg_machine := (cg_machine c4)\<lparr>mc_kernel := ie_write ie (mc_kernel (cg_machine c4)) argsPointer (le_view args)\<rparr>\<rparr> in
      case kx_spans x of
        None \<Rightarrow> (c5, throw ''Invalid Wasm spans'')
      | Some spans \<Rightarrow>
      (case copy_spans ie e (le_view args) argsPointer spans (zip [0..<length (ke_params e)] (ke_params e)) (length (ke_params e)) 0 c5 of
        (c6, Inl err) \<Rightarrow> (c6, Inl err)
      | (c6, Inr used) \<Rightarrow>
        if used \<noteq> length spans then (c6, throw ''Unexpected Wasm span'')
        else (case ie_call ie (mc_kernel (cg_machine c6)) (ke_call e) argsPointer resultPointer of
          (k, Inl err) \<Rightarrow> (c6\<lparr>cg_machine := (cg_machine c6)\<lparr>mc_kernel := k\<rparr>\<rparr>, Inl err)
        | (k, Inr _) \<Rightarrow>
          (let t1 = write_view (cg_transfers c6) (le_id results) 0 (ie_read ie k resultPointer (Transfers.le_bytes results));
               t2 = fold (copy_out ie k) (filter cs_writable (cg_spans c6)) t1 in
           (c6\<lparr>cg_machine := (cg_machine c6)\<lparr>mc_kernel := k\<rparr>, cg_transfers := t2\<rparr>, Inr ())))))))))"

text \<open>The \<^verbatim>\<open>finally\<close>: every pointer allocated is freed, every lease taken is released.\<close>

definition finish_call :: "'k instance_env \<Rightarrow> 'k calling \<Rightarrow> 'k machine \<times> transfers" where
  "finish_call ie c =
    (let mc = cg_machine c in
     (mc\<lparr>mc_kernel := fold (\<lambda>p k. ie_free ie k p) (mc_allocated mc) (mc_kernel mc), mc_freed := mc_freed mc @ mc_allocated mc\<rparr>,
      foldl release (cg_transfers c) (cg_leases c)))"

definition find_kernel :: "(jstr, (jstr, kernel_entry) jmap) jmap \<Rightarrow> kernel_effect \<Rightarrow> kernel_entry option" where
  "find_kernel us x =
    (case filter (mhas us) (kx_units x) of
       [] \<Rightarrow> None
     | u # _ \<Rightarrow> (case mget us u of None \<Rightarrow> None | Some entries \<Rightarrow> mget entries (kx_symbol x)))"

definition perform_kernel ::
  "(jstr, (jstr, kernel_entry) jmap) jmap \<Rightarrow> 'k instance_env \<Rightarrow> kernel_effect \<Rightarrow> 'k \<Rightarrow> transfers \<Rightarrow> ('k machine \<times> transfers) \<times> unit result" where
  "perform_kernel us ie x k t =
    (let mc = \<lparr>mc_kernel = k, mc_allocated = [], mc_freed = []\<rparr> in
     case find_kernel us x of
       None \<Rightarrow> ((mc, t), throw ''Wasm kernel is not in the verified application'')
     | Some e \<Rightarrow>
        (case call_kernel ie e x \<lparr>cg_machine = mc, cg_transfers = t, cg_leases = [], cg_spans = []\<rparr> of
           (c, r) \<Rightarrow> (finish_call ie c, r)))"

section \<open>What a call takes and gives back\<close>

text \<open>The part of a call in progress the clean-up depends on: nothing is freed or released before it.\<close>

definition steady :: "'k calling \<Rightarrow> 'k calling \<Rightarrow> bool" where
  "steady c c' \<longleftrightarrow> mc_freed (cg_machine c') = mc_freed (cg_machine c) \<and> outstanding (cg_transfers c') = outstanding (cg_transfers c)"

lemma steady_refl [simp]: "steady c c"
  by (simp add: steady_def)

lemma steady_trans: "steady a b \<Longrightarrow> steady b c \<Longrightarrow> steady a c"
  by (simp add: steady_def)

lemma allocate_freed: "mc_freed (fst (allocate ie n mc)) = mc_freed mc"
  by (auto simp: allocate_def Let_def split: prod.splits)

lemma on_machine_steady:
  assumes "on_machine (allocate ie n) c = (c', r)"
  shows "steady c c' \<and> cg_leases c' = cg_leases c \<and> cg_spans c' = cg_spans c"
  using assms allocate_freed [of ie n "cg_machine c"] by (auto simp: on_machine_def steady_def split: prod.splits)

lemma take_lease_cases:
  assumes "take_lease i n w c = (c', r)"
  shows "steady c c' \<and> (case r of Inl e \<Rightarrow> c' = c | Inr l \<Rightarrow> cg_leases c' = cg_leases c @ [i])"
  using assms by (auto simp: take_lease_def steady_def split: sum.splits)

lemma outstanding_write_view [simp]: "outstanding (write_view t i n bs) = outstanding t"
  by (auto simp: write_view_def outstanding_def split: option.splits if_splits)

lemma copy_span_leases:
  assumes "copy_span ie e args argsPointer index countIndex p supplied c = (c', r)"
  shows "steady c c' \<and> (\<forall>u. r = Inr u \<longrightarrow> (\<exists>s. supplied = Some s \<and> cg_leases c' = cg_leases c @ [ss_lease s]))"
proof (cases supplied)
  case None
  then show ?thesis using assms by (auto simp: copy_span_def Let_def split: option.splits)
next
  case (Some s)
  show ?thesis using assms Some
    by (auto simp: copy_span_def Let_def split: option.splits sum.splits if_splits prod.splits
        dest!: take_lease_cases on_machine_steady)
      (auto simp: steady_def)
qed

lemma copy_spans_leases:
  assumes "copy_spans ie e args argsPointer spans ps nextCount nextSpan c = (c', r)"
  shows "steady c c' \<and> (\<forall>m. r = Inr m \<longrightarrow> nextSpan \<le> m \<and> (nextSpan < m \<longrightarrow> m \<le> length spans) \<and>
    cg_leases c' = cg_leases c @ map ss_lease (take (m - nextSpan) (drop nextSpan spans)))"
  using assms
proof (induction ie e args argsPointer spans ps nextCount nextSpan c rule: copy_spans.induct)
  case (2 ie e args argsPointer spans index p ps nextCount nextSpan c)
  show ?case
  proof (cases "is_span p")
    case True
    let ?ci = "if ke_independentCounts e then nextCount else length (ke_params e)"
    let ?nc = "if ke_independentCounts e then nextCount + 1 else nextCount"
    obtain c1 q where q: "copy_span ie e args argsPointer index ?ci p (supplied_at spans nextSpan) c = (c1, q)" by fastforce
    note one = copy_span_leases [OF q]
    show ?thesis
    proof (cases q)
      case (Inl x)
      then show ?thesis using "2.prems" True q one by (auto simp: Let_def)
    next
      case (Inr u)
      then obtain s where s: "supplied_at spans nextSpan = Some s" "cg_leases c1 = cg_leases c @ [ss_lease s]" using one by blast
      then have sp: "nextSpan < length spans" "s = spans ! nextSpan" by (auto simp: supplied_at_def split: if_splits)
      have rest: "copy_spans ie e args argsPointer spans ps ?nc (nextSpan + 1) c1 = (c', r)"
        using "2.prems" True q Inr by (simp add: Let_def)
      have ih: "steady c1 c' \<and> (\<forall>m. r = Inr m \<longrightarrow> nextSpan + 1 \<le> m \<and> (nextSpan + 1 < m \<longrightarrow> m \<le> length spans) \<and>
          cg_leases c' = cg_leases c1 @ map ss_lease (take (m - (nextSpan + 1)) (drop (nextSpan + 1) spans)))"
        using "2.IH"(2) [OF _ refl refl q [symmetric] Inr rest] True by blast
      have "drop nextSpan spans = s # drop (nextSpan + 1) spans" using sp by (simp add: Cons_nth_drop_Suc)
      then have "take (m - nextSpan) (drop nextSpan spans) = s # take (m - (nextSpan + 1)) (drop (nextSpan + 1) spans)"
        if "nextSpan + 1 \<le> m" for m using that by (simp add: take_Cons')
      then show ?thesis using ih one s sp steady_trans by (fastforce simp: less_eq_Suc_le)
    qed
  next
    case False
    then show ?thesis using 2 by simp
  qed
qed auto

lemma outstanding_releases: "outstanding (foldl release t ls) = outstanding t - {k. IntV k \<in> set ls}"
  by (induction ls arbitrary: t) (auto simp: outstanding_release)

lemma outstanding_copy_out [simp]: "outstanding (copy_out ie k s t) = outstanding t"
proof -
  have inner: "outstanding (fold (\<lambda>f t. write_view t i (g f) (h f)) fs t) = outstanding t" for fs t and g :: "copied_field \<Rightarrow> nat" and i h
    by (induction fs arbitrary: t) simp_all
  have "outstanding (fold (\<lambda>row t. fold (\<lambda>f t. write_view t i (g row f) (h row f)) fs t) rows t) = outstanding t"
    for rows :: "nat list" and fs t i and g :: "nat \<Rightarrow> copied_field \<Rightarrow> nat" and h
    by (induction rows arbitrary: t) (simp_all add: inner)
  then show ?thesis by (simp add: copy_out_def)
qed

lemma outstanding_copy_outs: "outstanding (fold (copy_out ie k) ss t) = outstanding t"
  by (induction ss arbitrary: t) simp_all

text \<open>The steps of the body, each given what the one before left.\<close>

lemma call_tail_leases:
  assumes tail: "(case copy_spans ie e args argsPointer spans ps n 0 c5 of
        (c6, Inl err) \<Rightarrow> (c6, Inl err)
      | (c6, Inr used) \<Rightarrow>
        if used \<noteq> length spans then (c6, throw ''Unexpected Wasm span'')
        else (case ie_call ie (mc_kernel (cg_machine c6)) (ke_call e) argsPointer resultPointer of
          (k, Inl err) \<Rightarrow> (c6\<lparr>cg_machine := (cg_machine c6)\<lparr>mc_kernel := k\<rparr>\<rparr>, Inl err)
        | (k, Inr _) \<Rightarrow>
          (let t1 = write_view (cg_transfers c6) (le_id results) 0 (ie_read ie k resultPointer (Transfers.le_bytes results));
               t2 = fold (copy_out ie k) (filter cs_writable (cg_spans c6)) t1 in
           (c6\<lparr>cg_machine := (cg_machine c6)\<lparr>mc_kernel := k\<rparr>, cg_transfers := t2\<rparr>, Inr ())))) = (c', r)"
  shows "steady c5 c' \<and> (r = Inr () \<longrightarrow> cg_leases c' = cg_leases c5 @ map ss_lease spans)"
proof -
  obtain c6 q where q: "copy_spans ie e args argsPointer spans ps n 0 c5 = (c6, q)" by fastforce
  note sp = copy_spans_leases [OF q]
  obtain k w where w: "ie_call ie (mc_kernel (cg_machine c6)) (ke_call e) argsPointer resultPointer = (k, w)" by fastforce
  show ?thesis
  proof (cases q)
    case (Inl x)
    then have "c' = c6" "r = Inl x" using tail q by simp_all
    then show ?thesis using sp by simp
  next
    case (Inr used)
    note u = this
    have l: "cg_leases c6 = cg_leases c5 @ map ss_lease (take used spans)" using sp u by simp
    have s6: "steady c5 c6" using sp by simp
    show ?thesis
    proof (cases "used = length spans")
      case True
      show ?thesis
      proof (cases w)
        case (Inl err)
        then have "c' = c6\<lparr>cg_machine := (cg_machine c6)\<lparr>mc_kernel := k\<rparr>\<rparr>" "r = Inl err" using tail q u w True by simp_all
        then show ?thesis using s6 by (simp add: steady_def)
      next
        case (Inr v)
        then have c': "c' = c6\<lparr>cg_machine := (cg_machine c6)\<lparr>mc_kernel := k\<rparr>, cg_transfers := fold (copy_out ie k) (filter cs_writable (cg_spans c6))
            (write_view (cg_transfers c6) (le_id results) 0 (ie_read ie k resultPointer (Transfers.le_bytes results)))\<rparr>"
          using tail q u w True by (simp add: Let_def)
        show ?thesis using s6 l True by (simp add: c' steady_def outstanding_copy_outs)
      qed
    next
      case False
      then have "c' = c6" "r = throw ''Unexpected Wasm span''" using tail q u by simp_all
      then show ?thesis using s6 by simp
    qed
  qed
qed

lemma call_kernel_leases:
  assumes call: "call_kernel ie e x c = (c', r)"
  shows "steady c c' \<and> (r = Inr () \<longrightarrow> (\<exists>spans. kx_spans x = Some spans \<and>
    cg_leases c' = cg_leases c @ [kx_lease x, kx_resultLease x] @ map ss_lease spans))"
proof -
  obtain c1 r1 where 1: "take_lease (kx_lease x) (args_length e) False c = (c1, r1)" by fastforce
  note l1 = take_lease_cases [OF 1]
  show ?thesis
  proof (cases r1)
    case (Inl err)
    then show ?thesis using call 1 l1 by (auto simp: call_kernel_def)
  next
    case (Inr args)
    note a = this
    obtain c2 r2 where 2: "take_lease (kx_resultLease x) (ke_results e * 8) True c1 = (c2, r2)" by fastforce
    note l2 = take_lease_cases [OF 2]
    show ?thesis
    proof (cases r2)
      case (Inl err)
      then show ?thesis using call 1 a 2 l1 l2 by (auto simp: call_kernel_def)
    next
      case (Inr results)
      note b = this
      obtain c3 r3 where 3: "on_machine (allocate ie (args_length e)) c2 = (c3, r3)" by fastforce
      note l3 = on_machine_steady [OF 3]
      obtain c4 r4 where 4: "on_machine (allocate ie (Transfers.le_bytes results)) c3 = (c4, r4)" by fastforce
      note l4 = on_machine_steady [OF 4]
      have st: "steady c c4" "steady c c3" "cg_leases c4 = cg_leases c @ [kx_lease x, kx_resultLease x]"
        using l1 l2 l3 l4 a b steady_trans by (auto simp: steady_def)
      show ?thesis
      proof (cases "\<exists>p. r3 = Inr p \<and> (\<exists>p'. r4 = Inr p' \<and> (\<exists>spans. kx_spans x = Some spans))")
        case True
        then obtain p p' spans where pp: "r3 = Inr p" "r4 = Inr p'" "kx_spans x = Some spans" by blast
        let ?c5 = "c4\<lparr>cg_machine := (cg_machine c4)\<lparr>mc_kernel := ie_write ie (mc_kernel (cg_machine c4)) p (le_view args)\<rparr>\<rparr>"
        have "steady c4 ?c5" "cg_leases ?c5 = cg_leases c4" by (simp_all add: steady_def)
        moreover have "steady ?c5 c' \<and> (r = Inr () \<longrightarrow> cg_leases c' = cg_leases ?c5 @ map ss_lease spans)"
          by (rule call_tail_leases) (use call 1 a 2 b 3 4 pp in \<open>simp add: call_kernel_def Let_def\<close>)
        ultimately show ?thesis using st pp by (simp add: steady_def)
      next
        case False
        then show ?thesis using call 1 a 2 b 3 4 st
          by (cases r3; cases r4; cases "kx_spans x") (auto simp: call_kernel_def Let_def steady_def)
      qed
    qed
  qed
qed

text \<open>
  A call of a kernel the application does not have is refused before anything is taken, so that its leases stay outstanding, and
  unless another request names them the frame that carried the call cannot be answered.
\<close>

lemma unknown_kernel_keeps_leases:
  assumes "find_kernel us x = None" "wf_transfers t" "kx_lease x = IntV i" "i \<in> outstanding t" "IntV i \<notin> set others"
  shows "snd (fst (perform_kernel us ie x k t)) = t \<and> \<not> is_ok (response (foldl release t others))"
  using assms(1) tt.answer_needs_every_lease [OF assms(2,4,5)] by (simp add: perform_kernel_def)

section \<open>Properties\<close>

text \<open>A kernel call gives back what it took, however it ends: every pointer it allocated in the kernel's memory is freed, once, and no
  lease it did not take is touched; and a call that succeeds has released every lease its effect names.
\<close>

theorem kernel_call_gives_back:
  assumes "perform_kernel us ie x k t = ((mc, t'), r)"
  shows "mc_freed mc = mc_allocated mc \<and> outstanding t' \<subseteq> outstanding t \<and>
    (r = Inr () \<longrightarrow> (\<forall>s\<in>set (the (kx_spans x)). \<forall>i. IntV i \<in> {kx_lease x, kx_resultLease x, ss_lease s} \<longrightarrow> i \<notin> outstanding t'))"
proof (cases "find_kernel us x")
  case None
  then show ?thesis using assms by (auto simp: perform_kernel_def)
next
  case (Some e)
  let ?c = "\<lparr>cg_machine = \<lparr>mc_kernel = k, mc_allocated = [], mc_freed = []\<rparr>, cg_transfers = t, cg_leases = [], cg_spans = []\<rparr>"
  obtain c' q where q: "call_kernel ie e x ?c = (c', q)" by fastforce
  note l = call_kernel_leases [OF q]
  have f: "(mc, t') = finish_call ie c'" "r = q" using assms Some q by (simp_all add: perform_kernel_def)
  then have m: "mc_freed mc = mc_freed (cg_machine c') @ mc_allocated (cg_machine c')" "mc_allocated mc = mc_allocated (cg_machine c')"
    "outstanding t' = outstanding (cg_transfers c') - {i. IntV i \<in> set (cg_leases c')}"
    by (simp_all add: finish_call_def Let_def outstanding_releases)
  have "mc_freed (cg_machine c') = []" "outstanding (cg_transfers c') = outstanding t" using l by (simp_all add: steady_def)
  then show ?thesis using m f l by auto
qed

definition empty_entry :: kernel_entry where
  "empty_entry = \<lparr>ke_call = ''run'', ke_params = [], ke_results = 0, ke_independentCounts = False, ke_layouts = []\<rparr>"

definition idle_instance :: "unit instance_env" where
  "idle_instance = \<lparr>ie_malloc = \<lambda>k n. (k, 8), ie_free = \<lambda>k p. k, ie_extent = \<lambda>k. 64, ie_read = \<lambda>k p n. replicate n 0, ie_write = \<lambda>k p bs. k,
     ie_call = \<lambda>k f a b. (k, Inr ())\<rparr>"

definition empty_call :: kernel_effect where
  "empty_call = \<lparr>kx_units = [[5], [1]], kx_symbol = [2], kx_lease = IntV 1, kx_resultLease = IntV 2, kx_spans = Some []\<rparr>"

definition call_leases :: transfers where
  "call_leases = [(1, \<lparr>le_id = 1, le_bytes = 8, le_writable = False, le_view = replicate 8 0, le_released = False\<rparr>),
     (2, \<lparr>le_id = 2, le_bytes = 0, le_writable = True, le_view = [], le_released = False\<rparr>)]"

theorem kernel_call_gives_back_witness:
  "\<exists>mc t'. perform_kernel [([1], [([2], empty_entry)])] idle_instance empty_call () call_leases = ((mc, t'), Inr ()) \<and>
     mc_allocated mc = [8, 8] \<and> mc_freed mc = [8, 8]"
proof -
  obtain mc t' where p: "perform_kernel [([1], [([2], empty_entry)])] idle_instance empty_call () call_leases = ((mc, t'), Inr ())"
    and a: "mc_allocated mc = [8, 8]"
    by (simp add: perform_kernel_def find_kernel_def empty_call_def mhas_def mget_Cons call_kernel_def take_lease_def lease_def call_leases_def
        args_length_def empty_entry_def on_machine_def allocate_def idle_instance_def LIMIT_def finish_call_def write_view_def Let_def)
  show ?thesis using p a kernel_call_gives_back [OF p] by auto
qed

end
