(* ===== verification/Packaged.thy ===== *)
theory Packaged
  imports Application Assets Native Aot WorkerPool
begin

text \<open>
  A packaged application, \<^verbatim>\<open>runPackagedNuppLuaJITApp\<close> of \<^verbatim>\<open>src/runtime/luajit/app-runtime.mjs\<close>: its manifest is fetched and, for a lane, held to the one
  its page verified; the application, its guest, kernels and libraries are loaded through the verified assets; limits are layered;
  and the run is started with the handlers of the package.
\<close>

section \<open>Handlers\<close>

text \<open>Who answers a kind of effect.\<close>

datatype effect_handler = CallerHandler | PoolParallelism nat | KernelHandler | PoolHandler | ChannelHandler

definition add_handlers :: "(string, effect_handler) jmap \<Rightarrow> (string, effect_handler) jmap \<Rightarrow> (string, effect_handler) jmap" where
  "add_handlers given hs = fold (\<lambda>(k, h) m. mset m k h) given hs"

text \<open>\<open>pool\<close>: the number of its lanes, if there is a pool.\<close>

definition packagedEffectHandlers :: "(string, effect_handler) jmap \<Rightarrow> nat option \<Rightarrow> (string, effect_handler) jmap" where
  "packagedEffectHandlers supplied pool =
    (case pool of
       None \<Rightarrow> mset (add_handlers supplied []) ''aot'' KernelHandler
     | Some lanes \<Rightarrow> mset (mset (add_handlers supplied [(''system'', PoolParallelism lanes)]) ''aot'' KernelHandler) ''workers'' PoolHandler)"

section \<open>The package\<close>

record app_manifest =
  mn_schema :: jnum
  mn_runtime :: jstr
  mn_limits :: limit_layer
  mn_app :: jstr
  mn_guest :: jstr
  mn_guestBuildKey :: jstr
  mn_kernels :: "kernel_record list"
  mn_nativeLibraries :: "(jstr \<times> jstr) list"
  mn_workers :: "(jstr \<times> jnum) option"  \<comment> \<open>the lane's file and the most lanes\<close>
  mn_assets :: "(jstr, asset_record) jmap option"
  mn_delivery :: "(jstr, jstr) jmap"

definition asset_table :: "app_manifest \<Rightarrow> guest_manifest" where
  "asset_table m = \<lparr>gm_schema = mn_schema m, gm_guestAbi = Undef, gm_architecture = [], gm_buildKey = [], gm_assets = mn_assets m,
     gm_delivery = mn_delivery m, gm_profiles = [], gm_snapshots = []\<rparr>"

record package_options =
  pk_manifestDigest :: "jstr option"
  pk_limits :: limit_layer
  pk_initialize :: "byte list option option"  \<comment> \<open>\<open>None\<close>: none given; \<open>Some None\<close>: not bytes\<close>
  pk_workers :: bool
  pk_handlers :: "string list"
  pk_storageName :: "jstr option"

text \<open>What the run is started with.\<close>

record package =
  pc_app :: "byte list"
  pc_initialize :: "byte list"
  pc_limits :: app_limits
  pc_pool :: "worker_pool option"
  pc_kernels :: "(jstr, (jstr, kernel_entry) jmap) jmap"
  pc_storageName :: jstr
  pc_handlers :: "(string, effect_handler) jmap"
  pc_digest :: jstr

text \<open>
  The manifest: fetched, its digest compared, parsed (\<open>parse\<close>) and checked.
\<close>

definition load_package_manifest ::
  "(byte list \<Rightarrow> byte list) \<Rightarrow> (byte list \<Rightarrow> app_manifest result) \<Rightarrow> package_options \<Rightarrow> byte list result fetched result \<Rightarrow> (app_manifest \<times> jstr) result" where
  "load_package_manifest digest parse opts resp =
    bind resp (\<lambda>r.
      if \<not> ft_ok r then Inl (Error (js ''Cannot fetch application manifest: '' @ decimal (ft_status r)))
      else bind (ft_body r) (\<lambda>bytes.
        let d = sha256 digest bytes in
        if pk_manifestDigest opts \<noteq> None \<and> pk_manifestDigest opts \<noteq> Some d
        then throw ''the application manifest changed after the page loaded it; reload the page''
        else bind (parse bytes) (\<lambda>m.
          if mn_schema m \<noteq> IntV 1 \<or> mn_runtime m \<noteq> js ''luajit-v86'' then throw ''Unsupported LuaJIT application manifest''
          else Inr (m, d))))"

definition most_lanes :: "jnum \<Rightarrow> jnum" where
  "most_lanes n = (if n = Undef \<or> n = IntV 0 then IntV 2 else n)"

text \<open>
  Everything up to the start of the run. The assets are asked for one after the other, so that each is looked up in what the earlier ones left; \<open>env\<close>
  fetches below the package, \<open>guest_key\<close> parses the guest's manifest, \<open>worker_class\<close> and \<open>concurrency\<close> are the browser's.
\<close>

definition asset_result :: "asset_env \<Rightarrow> guest_manifest \<Rightarrow> jstr list \<Rightarrow> jstr \<Rightarrow> byte list result" where
  "asset_result env g earlier name = snd (verified env g name (fst (verified_all env g earlier no_assets)))"

definition prepare_package ::
  "asset_env \<Rightarrow> engine \<Rightarrow> (byte list \<Rightarrow> jstr result) \<Rightarrow> bool \<Rightarrow> jnum \<Rightarrow> channel_host \<Rightarrow> package_options \<Rightarrow> app_manifest \<times> jstr \<Rightarrow> package result" where
  "prepare_package env eg guest_key worker_class concurrency channels opts md =
    (case md of (m, d) \<Rightarrow>
     let g = asset_table m; get = asset_result env g in
     bind (resolveLimits [mn_limits m, pk_limits opts]) (\<lambda>limits.
     bind (get [] (mn_app m)) (\<lambda>app.
     bind (get [mn_app m] (mn_guest m)) (\<lambda>guestBytes.
     bind (guest_key guestBytes) (\<lambda>key.
       if key \<noteq> mn_guestBuildKey m then throw ''Application guest identity mismatch''
       else bind (createKernels eg (get [mn_app m, mn_guest m]) (mn_kernels m)) (\<lambda>kernels.
       bind (nativeInitialization (get [mn_app m, mn_guest m]) (mn_nativeLibraries m)) (\<lambda>native.
       bind (case pk_initialize opts of None \<Rightarrow> Inr [] | Some None \<Rightarrow> throw ''Application initialization must be bytes'' | Some (Some b) \<Rightarrow> Inr b) (\<lambda>supplied.
       bind (case mn_workers m of
               Some (lane, most) \<Rightarrow> if pk_workers opts then bind (get [mn_app m, mn_guest m] lane) (\<lambda>_.
                   bind (createWorkerPool (Some d) worker_class (most_lanes most) concurrency Undef (Some channels)) (\<lambda>p. Inr (Some p))) else Inr None
             | None \<Rightarrow> Inr None) (\<lambda>pool.
         Inr \<lparr>pc_app = app, pc_initialize = native @ supplied, pc_limits = limits, pc_pool = pool, pc_kernels = kernels,
              pc_storageName = (case pk_storageName opts of Some s \<Rightarrow> s
                | None \<Rightarrow> js ''nupp-'' @ take 24 (case asset_of g (mn_app m) of Some r \<Rightarrow> ar_sha256 r | None \<Rightarrow> [])),
              pc_handlers = packagedEffectHandlers (add_handlers [(''channel'', ChannelHandler)] (map (\<lambda>k. (k, CallerHandler)) (pk_handlers opts)))
                (map_option po_capacity pool),
              pc_digest = d\<rparr>)))))))))"

text \<open>The limits of a run are passed on as a table, which the run resolves once more.\<close>

definition as_layer :: "app_limits \<Rightarrow> limit_layer" where
  "as_layer l = LayerObject [(''perTurn'', ScopeObject (map (\<lambda>(k, v). (k, IntV v)) (al_perTurn l))),
     (''perRun'', ScopeObject (map (\<lambda>(k, v). (k, IntV v)) (al_perRun l)))]"

definition start_package :: "package \<Rightarrow> jserror option option \<Rightarrow> 'd session \<Rightarrow> ('d, 'v) app_run result" where
  "start_package p sig s = runNuppLuaJITApp (as_layer (pc_limits p)) (Some (pc_app p)) (Some (pc_initialize p)) sig True s"

text \<open>Whatever ends the run, the pool and the channels of the package are closed.\<close>

definition finish_package :: "package \<Rightarrow> channel_host \<Rightarrow> worker_pool option \<times> channel_host \<times> unit result" where
  "finish_package p channels = (map_option close_pool (pc_pool p), close_table channels)"

section \<open>Resolving twice\<close>

lemma layer_keys_again:
  assumes "LIMIT_KEYS scope = Some known" "set (map fst t) \<subseteq> set known" "\<forall>v\<in>set (map snd t). limit_ok v"
  shows "layer_keys scope known (map (\<lambda>(k, v). (k, IntV v)) t) l = Inr (fold (\<lambda>(k, v). set_limit scope k v) t l)"
  using assms(2,3)
proof (induction t arbitrary: l)
  case (Cons p t)
  obtain k v where p: "p = (k, v)" by (cases p)
  have "isSafeInteger (IntV v)" "\<not> v < 1" using Cons.prems(2) p by (auto simp: limit_ok_def max_safe_def)
  then show ?case using Cons p by simp
qed simp

lemma fold_set_turn: "fold (\<lambda>(k, v). set_limit ''perTurn'' k v) t l = l\<lparr>al_perTurn := fold (\<lambda>(k, v) m. mset m k v) t (al_perTurn l)\<rparr>"
  by (induction t arbitrary: l) (auto simp: set_limit_def)

lemma fold_set_run: "fold (\<lambda>(k, v). set_limit ''perRun'' k v) t l = l\<lparr>al_perRun := fold (\<lambda>(k, v) m. mset m k v) t (al_perRun l)\<rparr>"
  by (induction t arbitrary: l) (auto simp: set_limit_def)

text \<open>Writing a table over one with the same keys, or over none, gives the table.\<close>

lemma fold_mset_fresh:
  "distinct (map fst t) \<Longrightarrow> set (map fst t) \<inter> set (map fst m) = {} \<Longrightarrow> fold (\<lambda>(k, v) m. mset m k v) t m = m @ t"
proof (induction t arbitrary: m)
  case (Cons p t)
  obtain k v where p: "p = (k, v)" by (cases p)
  have "mget m k = None" using Cons.prems p set_mkeys [of k m] by (auto simp: mkeys_def)
  then have "mset m k v = m @ [(k, v)]" by (rule mset_fresh)
  moreover have "fold (\<lambda>(k, v) m. mset m k v) t (m @ [(k, v)]) = (m @ [(k, v)]) @ t"
    by (rule Cons.IH) (use Cons.prems p in auto)
  ultimately show ?case using p by simp
qed simp

lemma mset_middle: "k \<notin> set (map fst d) \<Longrightarrow> mset (d @ (k, w) # r) k v = d @ (k, v) # r"
  by (induction d) (auto simp: mset_def)

lemma fold_mset_over:
  "map fst r = map fst t \<Longrightarrow> distinct (map fst (d @ t)) \<Longrightarrow> fold (\<lambda>(k, v) m. mset m k v) t (d @ r) = d @ t"
proof (induction t arbitrary: d r)
  case (Cons p t)
  obtain k v where p: "p = (k, v)" by (cases p)
  obtain w r' where r: "r = (k, w) # r'" "map fst r' = map fst t" using Cons.prems(1) p by (cases r) auto
  have "mset (d @ r) k v = (d @ [(k, v)]) @ r'" using Cons.prems(2) p r by (simp add: mset_middle)
  moreover have "fold (\<lambda>(k, v) m. mset m k v) t ((d @ [(k, v)]) @ r') = (d @ [(k, v)]) @ t"
    by (rule Cons.IH [OF r(2)]) (use Cons.prems(2) p in simp)
  ultimately show ?case using p by simp
qed simp

lemma resolve_again:
  assumes ok: "limits_ok l"
  shows "resolveLimits [as_layer l] = Inr l"
proof -
  have keys: "map fst (al_perTurn l) = turn_keys" "distinct (map fst (al_perRun l))" "set (map fst (al_perRun l)) \<subseteq> set run_keys"
    "\<forall>v\<in>set (map snd (al_perTurn l)). limit_ok v" "\<forall>v\<in>set (map snd (al_perRun l)). limit_ok v"
    using ok by (auto simp: limits_ok_def mkeys_def mvalues_def)
  have known: "LIMIT_KEYS ''perTurn'' = Some turn_keys" "LIMIT_KEYS ''perRun'' = Some run_keys" by (simp_all add: LIMIT_KEYS_def)
  have dist: "distinct turn_keys" by (simp add: turn_keys_def)
  have t0: "map fst (al_perTurn default_limits) = turn_keys" "al_perRun default_limits = []" by (simp_all add: default_limits_def turn_keys_def)
  have a: "layer_keys ''perTurn'' turn_keys (map (\<lambda>(k, v). (k, IntV v)) (al_perTurn l)) default_limits = Inr (default_limits\<lparr>al_perTurn := al_perTurn l\<rparr>)"
    using layer_keys_again [OF known(1), of "al_perTurn l" default_limits] keys t0(1) dist
      fold_mset_over [of "al_perTurn default_limits" "al_perTurn l" "[]"] by (simp add: fold_set_turn)
  have b: "layer_keys ''perRun'' run_keys (map (\<lambda>(k, v). (k, IntV v)) (al_perRun l)) (default_limits\<lparr>al_perTurn := al_perTurn l\<rparr>) =
      Inr (default_limits\<lparr>al_perTurn := al_perTurn l, al_perRun := al_perRun l\<rparr>)"
    using layer_keys_again [OF known(2) keys(3,5), of "default_limits\<lparr>al_perTurn := al_perTurn l\<rparr>"] keys(2) t0(2)
      fold_mset_fresh [of "al_perRun l" "[]"] by (simp add: fold_set_run)
  show ?thesis using a b by (simp add: resolveLimits_def as_layer_def known)
qed

section \<open>A small package\<close>

definition small_record :: asset_record where
  "small_record = \<lparr>ar_sha256 = replicate 64 48, ar_bytes = IntV 1\<rparr>"

definition small_env :: asset_env where
  "small_env = \<lparr>ae_fetch = \<lambda>_. Inr \<lparr>ft_ok = True, ft_status = 200, ft_body = Piece [7] StreamEnds\<rparr>, ae_gunzip = \<lambda>_. StreamEnds,
     ae_digest = \<lambda>_. replicate 32 0, ae_same_origin = \<lambda>_. True\<rparr>"

definition small_manifest :: app_manifest where
  "small_manifest = \<lparr>mn_schema = IntV 1, mn_runtime = js ''luajit-v86'', mn_limits = LayerAbsent, mn_app = [97], mn_guest = [98], mn_guestBuildKey = [],
     mn_kernels = [], mn_nativeLibraries = [], mn_workers = None, mn_assets = Some [([97], small_record), ([98], small_record)], mn_delivery = []\<rparr>"

definition small_options :: package_options where
  "small_options = \<lparr>pk_manifestDigest = Some (replicate 64 48), pk_limits = LayerAbsent, pk_initialize = None, pk_workers = True, pk_handlers = [],
     pk_storageName = None\<rparr>"

definition no_engine :: engine where
  "no_engine = \<lparr>eg_validate = \<lambda>_. True, eg_compile = \<lambda>_. Inr (), eg_imports_ok = \<lambda>_. True, eg_instantiate = \<lambda>_. Inr (), eg_exports_ok = \<lambda>_. True,
     eg_function = \<lambda>_ _. True, eg_number = \<lambda>_ _. Inr (IntV 0)\<rparr>"

lemma small_fetch: "fetch_asset small_env name small_record = Inr [7]"
proof -
  have "sha256 (ae_digest small_env) [7] = ar_sha256 small_record" by code_simp
  then show ?thesis by (simp add: fetch_asset_def check_digest_def small_env_def small_record_def del: bind_eq_Inr)
qed

lemma small_record_ok: "record_ok small_record"
  by (simp add: record_ok_def small_record_def hex64_def Assets.hex_char_def list_all_iff max_safe_def MAX_ASSET_BYTES_def)

lemma small_verified:
  assumes "name = [97] \<or> name = [98]" "mget (at_pending s) name = None"
  shows "verified small_env (asset_table small_manifest) name s = Assets.settle name (Inr [7]) (s\<lparr>at_fetches := at_fetches s @ [name]\<rparr>)"
proof -
  have a: "asset_of (asset_table small_manifest) name = Some small_record"
    using assms(1) by (auto simp: asset_of_def asset_table_def small_manifest_def mget_Cons)
  have b: "safe_path name" using assms(1) by (auto simp: safe_path_def)
  have "delivery_of (asset_table small_manifest) name = None" "ae_same_origin small_env name"
    by (simp_all add: delivery_of_def asset_table_def small_manifest_def small_env_def)
  then show ?thesis using assms(2) a b small_record_ok small_fetch [of name] by (simp add: verified.simps [of small_env])
qed

lemma small_assets:
  "asset_result small_env (asset_table small_manifest) [] [97] = Inr [7]"
  "asset_result small_env (asset_table small_manifest) [[97]] [98] = Inr [7]"
  by (simp_all add: asset_result_def small_verified no_assets_def Assets.settle_def split_beta Let_def)

lemma small_package:
  "\<exists>p. prepare_package small_env no_engine (\<lambda>_. Inr []) True Undef (createChannelHost [] 1) small_options (small_manifest, replicate 64 48) = Inr p \<and>
     pc_app p = [7] \<and> pc_initialize p = [] \<and> pc_limits p = default_limits"
proof -
  have e: "encode_text [] = []" by (simp add: encode_text_def)
  show ?thesis using small_assets
    by (simp add: prepare_package_def Let_def resolveLimits_def createKernels_def nativeInitialization_def e)
      (simp add: small_manifest_def small_options_def e)
qed

section \<open>Properties\<close>

text \<open>
  The run of a package has exactly the limits its manifest and its page resolved to: passing them on and resolving them again changes nothing.
\<close>

theorem package_limits_kept:
  assumes "prepare_package env eg guest_key worker_class concurrency channels opts md = Inr p" "start_package p sig s = Inr r"
  shows "bu_limits (rn_budgets r) = pc_limits p \<and> resolveLimits [mn_limits (fst md), pk_limits opts] = Inr (pc_limits p)"
proof -
  have lim: "resolveLimits [mn_limits (fst md), pk_limits opts] = Inr (pc_limits p)"
    using assms(1) by (cases md) (auto simp: prepare_package_def Let_def split: if_splits)
  then have "limits_ok (pc_limits p)" using apply_layers_ok [of "[mn_limits (fst md), pk_limits opts]" default_limits] default_limits_ok
    by (simp add: resolveLimits_def)
  then have "resolveLimits [as_layer (pc_limits p)] = Inr (pc_limits p)" by (rule resolve_again)
  then have "bu_limits (rn_budgets r) = pc_limits p" using assms(2) by (auto simp: start_package_def runNuppLuaJITApp_def)
  then show ?thesis using lim by simp
qed

theorem package_limits_kept_witness:
  "\<exists>p r. prepare_package small_env no_engine (\<lambda>_. Inr []) True Undef (createChannelHost [] 1) small_options (small_manifest, replicate 64 48) = Inr p \<and>
     start_package p None empty_session = (Inr r :: (byte list, nat) app_run result) \<and> bu_limits (rn_budgets r) = default_limits"
proof -
  obtain p where p: "prepare_package small_env no_engine (\<lambda>_. Inr []) True Undef (createChannelHost [] 1) small_options
      (small_manifest, replicate 64 48) = Inr p" "pc_app p = [7]" "pc_initialize p = []" "pc_limits p = default_limits"
    using small_package by blast
  have "resolveLimits [as_layer default_limits] = Inr default_limits" by (rule resolve_again [OF default_limits_ok])
  then obtain r where r: "start_package p None empty_session = (Inr r :: (byte list, nat) app_run result)"
    using p by (auto simp: start_package_def runNuppLuaJITApp_def applicationPayload_def MAX_PAYLOAD_def createGuest_def Let_def)
  show ?thesis using p r package_limits_kept [OF p(1) r] by auto
qed

text \<open>A lane runs the build its page verified: with the digest of the page's manifest given, a manifest is accepted only if its own digest is that one, and
  the application and guest that are run then have the sizes and digests this very manifest says.
\<close>

theorem package_pinned_to_digest:
  assumes "pk_manifestDigest opts = Some d"
    and "load_package_manifest digest parse opts (Inr \<lparr>ft_ok = True, ft_status = status, ft_body = Inr bytes\<rparr>) = Inr (m, d')"
    and "prepare_package env eg guest_key worker_class concurrency channels opts (m, d') = Inr p"
  shows "sha256 digest bytes = d \<and> pc_digest p = d \<and> parse bytes = Inr m \<and> matches env (asset_table m) (mn_app m) (pc_app p)"
proof -
  have l: "sha256 digest bytes = d" "parse bytes = Inr m" "d' = d"
    using assms(1,2) by (auto simp: load_package_manifest_def Let_def split: if_splits)
  have "asset_result env (asset_table m) [] (mn_app m) = Inr (pc_app p)" "pc_digest p = d'"
    using assms(3) by (auto simp: prepare_package_def Let_def split: if_splits)
  then show ?thesis using l verified_ok [OF no_assets_ok, of env "asset_table m" "mn_app m"] by (simp add: asset_result_def)
qed

theorem package_pinned_to_digest_witness:
  "\<exists>p. prepare_package small_env no_engine (\<lambda>_. Inr []) True Undef (createChannelHost [] 1) small_options (small_manifest, replicate 64 48) = Inr p \<and>
     matches small_env (asset_table small_manifest) [97] (pc_app p)"
proof -
  obtain p where p: "prepare_package small_env no_engine (\<lambda>_. Inr []) True Undef (createChannelHost [] 1) small_options
      (small_manifest, replicate 64 48) = Inr p" using small_package by blast
  have o: "pk_manifestDigest small_options = Some (replicate 64 48)" by (simp add: small_options_def)
  have d: "sha256 (\<lambda>_. replicate 32 0) [1] = replicate 64 48" by code_simp
  have "load_package_manifest (\<lambda>_. replicate 32 0) (\<lambda>_. Inr small_manifest) small_options (Inr \<lparr>ft_ok = True, ft_status = 200, ft_body = Inr [1]\<rparr>) =
      Inr (small_manifest, replicate 64 48)"
    using d o by (simp add: load_package_manifest_def Let_def) (simp add: small_manifest_def)
  from package_pinned_to_digest [OF o this p] show ?thesis using p by (simp add: small_manifest_def)
qed

end
