(* ===== verification/Machine.thy ===== *)
theory Machine
  imports Prelude
begin

text \<open>
  Event machines. A component that reacts to messages, timers and clicks is a function from an
  event and a state to a state; what cannot happen in a state leaves it alone. A run is a list of
  events, and what holds after every event of a component holds after every run.
\<close>

definition run_events :: "('e \<Rightarrow> 's \<Rightarrow> 's) \<Rightarrow> 'e list \<Rightarrow> 's \<Rightarrow> 's" where
  "run_events step es s = fold step es s"

lemma run_events_simps [simp]:
  "run_events step [] s = s"
  "run_events step (e # es) s = run_events step es (step e s)"
  "run_events step (es @ fs) s = run_events step fs (run_events step es s)"
  by (simp_all add: run_events_def)

locale machine =
  fixes step :: "'e \<Rightarrow> 's \<Rightarrow> 's"
    and inv :: "'s \<Rightarrow> bool"
  assumes inv_step: "inv s \<Longrightarrow> inv (step e s)"
begin

lemma inv_run: "inv s \<Longrightarrow> inv (run_events step es s)"
  by (induction es arbitrary: s) (auto intro: inv_step)

lemma run_related:
  assumes one: "\<And>e s. inv s \<Longrightarrow> R s (step e s)"
    and refl: "\<And>s. R s s"
    and trans: "\<And>s t u. R s t \<Longrightarrow> R t u \<Longrightarrow> R s u"
  shows "inv s \<Longrightarrow> R s (run_events step es s)"
proof (induction es arbitrary: s)
  case (Cons e es)
  from one [OF Cons.prems] Cons.IH [OF inv_step [OF Cons.prems]] show ?case by (auto intro: trans)
qed (simp add: refl)

end

end
