(* ===== verification/CompilerQueue.thy ===== *)
theory CompilerQueue
  imports Machine Text Codec
begin

text \<open>
  The playground's compiler worker, \<^verbatim>\<open>src/editors/playground/src/luajit-worker.js\<close>: a queue of
  requests in front of one compiler, in which a newer check supersedes the checks that still wait
  behind the last other request. The compiler's client is the one of \<^verbatim>\<open>host.mjs\<close>; what it settles
  with is an event.
\<close>

section \<open>Data\<close>

text \<open>A request: what the worker reads of it, and \<open>rq_rest\<close> for the fields it only passes on.\<close>

record 'q request =
  rq_id :: nat
  rq_kind :: string
  rq_source :: "jstr option"
  rq_rest :: 'q

datatype 'a reply =
    Status jstr
  | Ready
  | BootError jstr
  | Answered nat 'a
  | Refused nat jstr
  | Superseded nat jstr

datatype boot_phase = Booting | Booted | BootFailed

text \<open>
  \<open>qw_current\<close> is the message whose \<^verbatim>\<open>await compiler.request\<close> is pending, \<open>qw_received\<close> and \<open>qw_taken\<close> the messages
  received and taken from the queue so far.
\<close>

record ('q, 'a) queue_worker =
  qw_boot :: boot_phase
  qw_queue :: "'q request list"
  qw_running :: bool
  qw_current :: "'q request option"
  qw_posted :: "'a reply list"
  qw_received :: "'q request list"
  qw_taken :: "'q request list"

definition new_worker :: "('q, 'a) queue_worker" where
  "new_worker = \<lparr>qw_boot = Booting, qw_queue = [], qw_running = False, qw_current = None,
     qw_posted = [Status (js ''starting LuaJIT'' @ [0x2026])], qw_received = [], qw_taken = []\<rparr>"

definition post :: "'a reply list \<Rightarrow> ('q, 'a) queue_worker \<Rightarrow> ('q, 'a) queue_worker" where
  "post ms w = w\<lparr>qw_posted := qw_posted w @ ms\<rparr>"

definition MAX_QUEUE :: nat where "MAX_QUEUE = 32"
definition MAX_SOURCE :: nat where "MAX_SOURCE = 1024 * 1024"

section \<open>Booting\<close>

text \<open>The end of \<^verbatim>\<open>boot()\<close>: the compiler, or the text \<^verbatim>\<open>describeError\<close> gives the failure.\<close>

definition boot_ends :: "jstr + unit \<Rightarrow> ('q, 'a) queue_worker \<Rightarrow> ('q, 'a) queue_worker" where
  "boot_ends outcome w =
    (if qw_boot w \<noteq> Booting then w else
     case outcome of
       Inr _ \<Rightarrow> post [Ready] (w\<lparr>qw_boot := Booted\<rparr>)
     | Inl described \<Rightarrow> post [BootError described] (w\<lparr>qw_boot := BootFailed\<rparr>))"

text \<open>
  \<^verbatim>\<open>describeError\<close> of an error with a message and, where the engine gives one, a stack; a thrown value that is no error
  is its text.
\<close>

datatype thrown = ThrownText jstr | ThrownError jstr "jstr option"

fun describeError :: "thrown \<Rightarrow> jstr" where
  "describeError (ThrownText t) = t"
| "describeError (ThrownError m None) = m"
| "describeError (ThrownError m (Some stack)) =
    (if stack = [] then m else if sublist m stack then stack else m @ [10] @ stack)"

section \<open>The queue\<close>

text \<open>\<^verbatim>\<open>String(error.message || error)\<close>: an error without a message is its name.\<close>

fun error_text :: "jserror \<Rightarrow> jstr" where
  "error_text e = (if message e \<noteq> [] then message e
     else case e of Error _ \<Rightarrow> js ''Error'' | TypeError _ \<Rightarrow> js ''TypeError'' | RangeError _ \<Rightarrow> js ''RangeError'')"

definition refusal :: "('q, 'a) queue_worker \<Rightarrow> 'q request \<Rightarrow> jstr option" where
  "refusal w m =
    (if qw_boot w \<noteq> Booted then Some (js ''The compiler is still loading'')
     else if rq_kind m \<notin> {''check'', ''compile'', ''hover''} then Some (js ''Unknown compiler request'')
     else case rq_source m of
       Some s \<Rightarrow> if length (encode_text s) > MAX_SOURCE then Some (js ''Playground source exceeds 1048576 UTF-8 bytes'') else None
     | None \<Rightarrow> None)"

text \<open>The loop of \<^verbatim>\<open>drain\<close> up to its next await or its end.\<close>

function drain_loop :: "('q, 'a) queue_worker \<Rightarrow> ('q, 'a) queue_worker" where
  "drain_loop w =
    (case qw_queue w of
       [] \<Rightarrow> w\<lparr>qw_running := False\<rparr>
     | m # rest \<Rightarrow>
        let w1 = w\<lparr>qw_queue := rest, qw_taken := qw_taken w @ [m]\<rparr> in
        case refusal w m of
          Some e \<Rightarrow> drain_loop (post [Refused (rq_id m) e] w1)
        | None \<Rightarrow> w1\<lparr>qw_current := Some m\<rparr>)"
  by pat_completeness auto

termination
  by (relation "measure (length \<circ> qw_queue)") (auto simp: post_def)

declare drain_loop.simps [simp del]

definition drain :: "('q, 'a) queue_worker \<Rightarrow> ('q, 'a) queue_worker" where
  "drain w = (if qw_running w then w else drain_loop (w\<lparr>qw_running := True\<rparr>))"

abbreviation is_check :: "'q request \<Rightarrow> bool" where
  "is_check m \<equiv> rq_kind m = ''check''"

text \<open>The loop of \<^verbatim>\<open>onmessage\<close> from the end of the queue while it finds checks.\<close>

definition supersede :: "('q, 'a) queue_worker \<Rightarrow> ('q, 'a) queue_worker" where
  "supersede w =
    post (map (\<lambda>m. Superseded (rq_id m) (js ''Superseded by a newer edit'')) (takeWhile is_check (rev (qw_queue w))))
      (w\<lparr>qw_queue := rev (dropWhile is_check (rev (qw_queue w)))\<rparr>)"

definition onmessage :: "'q request \<Rightarrow> ('q, 'a) queue_worker \<Rightarrow> ('q, 'a) queue_worker" where
  "onmessage m w0 =
    (let w = w0\<lparr>qw_received := qw_received w0 @ [m]\<rparr>;
         w1 = (if is_check m then supersede w else w) in
     if length (qw_queue w1) \<ge> MAX_QUEUE then post [Refused (rq_id m) (js ''Compiler request queue is full'')] w1
     else drain (w1\<lparr>qw_queue := qw_queue w1 @ [m]\<rparr>))"

text \<open>The awaited \<^verbatim>\<open>compiler.request\<close> settles.\<close>

definition compiler_settled :: "jserror + 'a \<Rightarrow> ('q, 'a) queue_worker \<Rightarrow> ('q, 'a) queue_worker" where
  "compiler_settled outcome w =
    (case qw_current w of None \<Rightarrow> w
     | Some m \<Rightarrow>
        drain_loop (post [case outcome of Inr a \<Rightarrow> Answered (rq_id m) a | Inl e \<Rightarrow> Refused (rq_id m) (error_text e)]
          (w\<lparr>qw_current := None\<rparr>)))"

datatype ('q, 'a) queue_event = Message "'q request" | Settles "jserror + 'a" | BootEnds "jstr + unit"

fun queue_step :: "('q, 'a) queue_event \<Rightarrow> ('q, 'a) queue_worker \<Rightarrow> ('q, 'a) queue_worker" where
  "queue_step (Message m) w = onmessage m w"
| "queue_step (Settles outcome) w = compiler_settled outcome w"
| "queue_step (BootEnds outcome) w = boot_ends outcome w"

section \<open>What the worker owes\<close>

text \<open>The requests a reply answers, and the requests that still wait.\<close>

fun reply_ids :: "'a reply \<Rightarrow> nat list" where
  "reply_ids (Answered i a) = [i]"
| "reply_ids (Refused i e) = [i]"
| "reply_ids (Superseded i e) = [i]"
| "reply_ids _ = []"

definition replied :: "('q, 'a) queue_worker \<Rightarrow> nat list" where
  "replied w = concat (map reply_ids (qw_posted w))"

definition waiting :: "('q, 'a) queue_worker \<Rightarrow> 'q request list" where
  "waiting w = (case qw_current w of None \<Rightarrow> [] | Some m \<Rightarrow> [m]) @ qw_queue w"

fun checks_apart :: "'q request list \<Rightarrow> bool" where
  "checks_apart (m # n # ms) \<longleftrightarrow> \<not> (is_check m \<and> is_check n) \<and> checks_apart (n # ms)"
| "checks_apart _ \<longleftrightarrow> True"

lemma checks_apart_tail: "checks_apart (m # ms) \<Longrightarrow> checks_apart ms"
  by (cases ms) auto

lemma checks_apart_snoc:
  "checks_apart (ms @ [m]) \<longleftrightarrow> checks_apart ms \<and> \<not> (ms \<noteq> [] \<and> is_check (last ms) \<and> is_check m)"
  by (induction ms rule: checks_apart.induct) auto

lemma checks_apart_prefix: "prefix ms ns \<Longrightarrow> checks_apart ns \<Longrightarrow> checks_apart ms"
proof (induction ns rule: rev_induct)
  case (snoc n ns)
  then show ?case by (auto simp: checks_apart_snoc)
qed simp

text \<open>
  What holds wherever the queue is looked at: it is bounded, no two checks are adjacent, every request received is replied to or waits, the
  requests are taken in the order they came.
\<close>

definition accounts :: "('q, 'a) queue_worker \<Rightarrow> bool" where
  "accounts w \<longleftrightarrow>
    (\<forall>i. count_list (map rq_id (qw_received w)) i = count_list (replied w) i + count_list (map rq_id (waiting w)) i)"

definition queue_core :: "('q, 'a) queue_worker \<Rightarrow> bool" where
  "queue_core w \<longleftrightarrow> length (qw_queue w) \<le> MAX_QUEUE \<and> checks_apart (qw_queue w) \<and> accounts w \<and>
     subseq (qw_taken w @ qw_queue w) (qw_received w)"

definition queue_ok :: "('q, 'a) queue_worker \<Rightarrow> bool" where
  "queue_ok w \<longleftrightarrow> queue_core w \<and> (qw_running w \<longleftrightarrow> qw_current w \<noteq> None) \<and> (qw_queue w \<noteq> [] \<longrightarrow> qw_current w \<noteq> None)"

lemma replied_post [simp]: "replied (post ms w) = replied w @ concat (map reply_ids ms)"
  by (simp add: replied_def post_def)

lemma post_fields [simp]:
  "qw_queue (post ms w) = qw_queue w" "qw_current (post ms w) = qw_current w" "qw_running (post ms w) = qw_running w"
  "qw_received (post ms w) = qw_received w" "qw_taken (post ms w) = qw_taken w" "qw_boot (post ms w) = qw_boot w"
  "waiting (post ms w) = waiting w"
  by (simp_all add: post_def waiting_def)

lemma drain_loop_ok:
  "queue_core w \<Longrightarrow> qw_current w = None \<Longrightarrow> qw_running w \<Longrightarrow> queue_ok (drain_loop w)"
proof (induction w rule: drain_loop.induct)
  case (1 w)
  show ?case
  proof (cases "qw_queue w")
    case Nil
    with 1(2,3) show ?thesis
      by (simp add: drain_loop.simps [of w] queue_ok_def queue_core_def accounts_def replied_def waiting_def)
  next
    case (Cons m rest)
    let ?w1 = "w\<lparr>qw_queue := rest, qw_taken := qw_taken w @ [m]\<rparr>"
    from 1(2) Cons have core: "length rest \<le> MAX_QUEUE" "checks_apart rest" "subseq (qw_taken w @ m # rest) (qw_received w)"
      "\<forall>i. count_list (map rq_id (qw_received w)) i = count_list (replied w) i + count_list (map rq_id (m # rest)) i"
      using 1(3) by (auto simp: queue_core_def accounts_def waiting_def checks_apart_tail)
    show ?thesis
    proof (cases "refusal w m")
      case None
      with Cons core 1(3,4) show ?thesis
        by (simp add: drain_loop.simps [of w] queue_ok_def queue_core_def accounts_def replied_def waiting_def)
    next
      case (Some e)
      have "queue_core (post [Refused (rq_id m) e] ?w1)"
        using core 1(3) by (simp add: queue_core_def accounts_def) (simp add: replied_def waiting_def)
      with 1(1) [OF Cons refl Some] 1(3,4) have "queue_ok (drain_loop (post [Refused (rq_id m) e] ?w1))" by simp
      then show ?thesis using Some Cons by (simp add: drain_loop.simps [of w])
    qed
  qed
qed

lemma drain_ok:
  assumes "queue_core w" and "qw_running w \<longleftrightarrow> qw_current w \<noteq> None"
  shows "queue_ok (drain w)"
proof (cases "qw_running w")
  case True
  with assms show ?thesis by (simp add: drain_def queue_ok_def)
next
  case False
  with assms have "queue_core (w\<lparr>qw_running := True\<rparr>)" "qw_current w = None"
    by (simp_all add: queue_core_def accounts_def replied_def waiting_def)
  with False show ?thesis by (simp add: drain_def drain_loop_ok)
qed

lemma count_rev_split: "count_list (map f (takeWhile P (rev xs))) i + count_list (map f (rev (dropWhile P (rev xs)))) i = count_list (map f xs) i"
proof -
  have "count_list (map f xs) i = count_list (map f (rev (takeWhile P (rev xs) @ dropWhile P (rev xs)))) i" by simp
  also have "\<dots> = count_list (map f (rev (dropWhile P (rev xs)))) i + count_list (map f (rev (takeWhile P (rev xs)))) i"
    by (simp only: rev_append map_append count_list_append)
  finally show ?thesis by (simp add: rev_map [symmetric])
qed

lemma supersede_prefix: "prefix (qw_queue (supersede w)) (qw_queue w)"
  unfolding supersede_def using suffix_dropWhile [of is_check "rev (qw_queue w)"] by (simp add: suffix_to_prefix)

lemma concat_superseded: "concat (map reply_ids (map (\<lambda>m. Superseded (rq_id m) e) ms)) = map rq_id ms"
  by (induction ms) auto

lemma supersede_fields [simp]:
  "qw_current (supersede w) = qw_current w" "qw_running (supersede w) = qw_running w" "qw_received (supersede w) = qw_received w"
  "qw_taken (supersede w) = qw_taken w"
  by (simp_all add: supersede_def)

lemma supersede_accounts:
  "count_list (replied (supersede w)) i + count_list (map rq_id (waiting (supersede w))) i =
   count_list (replied w) i + count_list (map rq_id (waiting w)) i"
proof -
  note split = count_rev_split [of rq_id is_check "qw_queue w" i]
  have "replied (supersede w) = replied w @ map rq_id (takeWhile is_check (rev (qw_queue w)))"
    by (simp add: supersede_def concat_superseded del: map_map) (simp add: replied_def)
  with split show ?thesis by (simp add: waiting_def) (simp add: supersede_def)
qed

lemma supersede_last: "qw_queue (supersede w) \<noteq> [] \<Longrightarrow> \<not> is_check (last (qw_queue (supersede w)))"
  using hd_dropWhile [of is_check "rev (qw_queue w)"] by (simp add: supersede_def last_rev)

lemma onmessage_ok:
  assumes "queue_ok w"
  shows "queue_ok (onmessage m w)"
proof -
  define w0 where "w0 = w\<lparr>qw_received := qw_received w @ [m]\<rparr>"
  define w1 where "w1 = (if is_check m then supersede w0 else w0)"
  have fields: "qw_current w1 = qw_current w" "qw_running w1 = qw_running w" "qw_received w1 = qw_received w @ [m]" "qw_taken w1 = qw_taken w"
    by (simp_all add: w1_def w0_def)
  have pre: "prefix (qw_queue w1) (qw_queue w)"
    using supersede_prefix [of w0] by (simp add: w1_def w0_def)
  have acc: "count_list (replied w1) i + count_list (map rq_id (waiting w1)) i = count_list (map rq_id (qw_received w)) i" for i
    using assms supersede_accounts [of w0 i]
    by (simp add: w1_def w0_def queue_ok_def queue_core_def accounts_def) (simp add: replied_def waiting_def)
  have apart: "checks_apart (qw_queue w1)" "checks_apart (qw_queue w1 @ [m])"
    using assms checks_apart_prefix [OF pre] supersede_last [of w0]
    by (auto simp: queue_ok_def queue_core_def checks_apart_snoc w1_def)
  have sub: "subseq (qw_taken w @ qw_queue w1) (qw_received w)"
  proof -
    from pre have "subseq (qw_taken w @ qw_queue w1) (qw_taken w @ qw_queue w)" by (auto simp: prefix_def)
    with assms show ?thesis by (auto simp: queue_ok_def queue_core_def intro: subseq_order.trans)
  qed
  have sub2: "subseq (qw_taken w @ qw_queue w1 @ [m]) (qw_received w @ [m])"
    using list_emb_append_mono [OF sub, of "[m]" "[m]"] by simp
  have run: "qw_running w1 \<longleftrightarrow> qw_current w1 \<noteq> None" using assms fields by (simp add: queue_ok_def)
  have len: "length (qw_queue w1) \<le> MAX_QUEUE"
    using assms prefix_length_le [OF pre] by (simp add: queue_ok_def queue_core_def)
  show ?thesis
  proof (cases "length (qw_queue w1) \<ge> MAX_QUEUE")
    case True
    have "qw_queue w1 \<noteq> [] \<longrightarrow> qw_current w1 \<noteq> None"
      using assms fields pre by (auto simp: queue_ok_def)
    moreover have "queue_core (post [Refused (rq_id m) (js ''Compiler request queue is full'')] w1)"
      using acc apart len sub fields by (auto simp: queue_core_def accounts_def subseq_append_iff intro: list_emb_append2)
    ultimately show ?thesis using True run by (simp add: onmessage_def w0_def [symmetric] w1_def [symmetric] queue_ok_def)
  next
    case False
    have "queue_core (w1\<lparr>qw_queue := qw_queue w1 @ [m]\<rparr>)"
      using acc apart sub2 False fields
      by (simp add: queue_core_def accounts_def) (simp add: replied_def waiting_def)
    then have "queue_ok (drain (w1\<lparr>qw_queue := qw_queue w1 @ [m]\<rparr>))" using run by (intro drain_ok) simp_all
    then show ?thesis using False by (simp add: onmessage_def w0_def [symmetric] w1_def [symmetric] Let_def)
  qed
qed

lemma compiler_settled_ok:
  assumes "queue_ok w"
  shows "queue_ok (compiler_settled outcome w)"
proof (cases "qw_current w")
  case None
  then show ?thesis using assms by (simp add: compiler_settled_def)
next
  case (Some m)
  let ?r = "case outcome of Inr a \<Rightarrow> Answered (rq_id m) a | Inl e \<Rightarrow> Refused (rq_id m) (error_text e)"
  have "queue_core (post [?r] (w\<lparr>qw_current := None\<rparr>))"
    using assms Some by (simp add: queue_ok_def queue_core_def accounts_def split: sum.split)
      (simp add: replied_def waiting_def)
  moreover have "qw_running w" using assms Some by (simp add: queue_ok_def)
  ultimately show ?thesis using Some by (simp add: compiler_settled_def drain_loop_ok)
qed

lemma boot_ends_ok: "queue_ok w \<Longrightarrow> queue_ok (boot_ends outcome w)"
  by (cases outcome) (simp_all add: boot_ends_def queue_ok_def queue_core_def accounts_def replied_def post_def waiting_def)

lemma queue_step_ok: "queue_ok w \<Longrightarrow> queue_ok (queue_step e w)"
  by (cases e) (auto intro: onmessage_ok compiler_settled_ok boot_ends_ok)

interpretation qw: machine queue_step queue_ok
  by unfold_locales (rule queue_step_ok)

lemma new_worker_ok: "queue_ok new_worker"
  by (simp add: queue_ok_def queue_core_def accounts_def new_worker_def replied_def waiting_def)

section \<open>Properties\<close>

abbreviation worker_after :: "('q, 'a) queue_event list \<Rightarrow> ('q, 'a) queue_worker" where
  "worker_after es \<equiv> run_events queue_step es new_worker"

lemma worker_after_ok: "queue_ok (worker_after es)"
  by (rule qw.inv_run, rule new_worker_ok)

text \<open>C14. Every request the compiler worker receives is replied to exactly once or still waits, whatever arrives in whatever order:
  no request is lost, none is answered twice, the queue holds at most 32 requests with no two checks next to each other,
  and as long as a request waits in the queue the compiler is busy with another. Requests are taken in the order they came.
\<close>

theorem compiler_requests_replied:
  "count_list (map rq_id (qw_received (worker_after es))) i =
     count_list (replied (worker_after es)) i + count_list (map rq_id (waiting (worker_after es))) i
   \<and> length (qw_queue (worker_after es)) \<le> 32 \<and> checks_apart (qw_queue (worker_after es))
   \<and> (case qw_current (worker_after es) of None \<Rightarrow> qw_queue (worker_after es) = [] | Some m \<Rightarrow> qw_running (worker_after es))
   \<and> subseq (qw_taken (worker_after es) @ qw_queue (worker_after es)) (qw_received (worker_after es))"
  using worker_after_ok [of es] by (auto simp: queue_ok_def queue_core_def accounts_def MAX_QUEUE_def split: option.split)

text \<open>A newer check takes the place of the checks that waited behind the last other request: they are told so, and only they.\<close>

lemma newer_check_supersedes:
  assumes w: "qw_current w \<noteq> None" "qw_running w" and q: "qw_queue w = ms @ cs" "\<forall>c \<in> set cs. is_check c"
    "ms = [] \<or> \<not> is_check (last ms)" and m: "is_check m" and room: "length ms < 32"
  shows "qw_queue (onmessage m w) = ms @ [m] \<and>
    qw_posted (onmessage m w) = qw_posted w @ map (\<lambda>c. Superseded (rq_id c) (js ''Superseded by a newer edit'')) (rev cs)"
proof -
  have "takeWhile is_check (rev cs @ rev ms) = rev cs" "dropWhile is_check (rev cs @ rev ms) = rev ms"
    using q(2,3) by (cases ms rule: rev_cases; auto simp: takeWhile_append dropWhile_append)+
  then show ?thesis using assms by (simp add: onmessage_def supersede_def drain_def MAX_QUEUE_def Let_def post_def)
qed

end
