(* ===== verification/CompilerClient.thy ===== *)
theory CompilerClient
  imports CompilerQueue
begin

text \<open>
  The compiler client of a documentation page, \<^verbatim>\<open>CompilerClient\<close> in \<^verbatim>\<open>src/editors/playground/src/doc-app.js\<close>: one compiler worker serves every editor
  of the page, and its operations are served one after the other. The client is joined with the worker of \<^verbatim>\<open>luajit-worker.js\<close>. An event is what one turn of
  the page's event loop does, together with the continuations that run before the next turn.
\<close>

section \<open>Data\<close>

text \<open>An operation of an editor; the operation in the order \<^verbatim>\<open>run\<close> was called, with the generation it was called in.\<close>

datatype operation = CheckOf jstr | CompileOf jstr | HoverAt jstr nat

record ticket =
  tk_number :: nat
  tk_operation :: operation
  tk_generation :: nat

text \<open>A call of \<^verbatim>\<open>raw\<close>. What is posted for a hover is the offset; the source says for which program it is asked.\<close>

datatype raw_call = RawCheck jstr | RawCompile jstr | RawHover jstr nat

text \<open>What a call gives: a reply with \<^verbatim>\<open>ok\<close>, or one without it and its error.\<close>

datatype 'a response = Ok 'a | NotOk jstr

datatype 'a settlement = Resolved "'a response" | Rejected jstr

datatype ready_promise = NotStarted | ReadyPending | ReadyDone

text \<open>The calls made of the workers and their replies, newest first; it has no part in what the client does.\<close>

datatype log_entry = Posted nat nat raw_call | Replied nat nat raw_call bool

text \<open>
  \<open>dc_worker\<close> is the worker that lives, by its number; \<open>dc_pending\<close> maps a message to the ticket whose continuation waits for it. \<open>dc_running\<close> is the operation the
  queue of promises has reached, with the call it makes and the message it waits for, none while it waits for the worker to be ready. \<open>dc_outbox\<close> are the messages
  on the way to the worker.
\<close>

record 'a compiler_client =
  dc_worker :: "nat option"
  dc_workers :: nat
  dc_ready :: ready_promise
  dc_nextId :: nat
  dc_pending :: "(nat, nat) jmap"
  dc_queue :: "ticket list"
  dc_running :: "(ticket \<times> raw_call \<times> nat option) option"
  dc_lastSource :: "jstr option"
  dc_generation :: nat
  dc_tickets :: nat
  dc_settled :: "(nat \<times> 'a settlement) list"
  dc_outbox :: "(nat \<times> raw_call) list"
  dc_log :: "log_entry list"

definition new_client :: "'a compiler_client" where
  "new_client = \<lparr>dc_worker = None, dc_workers = 0, dc_ready = NotStarted, dc_nextId = 1, dc_pending = [], dc_queue = [], dc_running = None,
     dc_lastSource = None, dc_generation = 0, dc_tickets = 0, dc_settled = [], dc_outbox = [], dc_log = []\<rparr>"

section \<open>Operations\<close>

definition start_compiler :: "'a compiler_client \<Rightarrow> 'a compiler_client" where
  "start_compiler c =
    (if dc_ready c \<noteq> NotStarted then c
     else c\<lparr>dc_ready := ReadyPending, dc_worker := Some (dc_workers c), dc_workers := dc_workers c + 1\<rparr>)"

text \<open>The second half of \<^verbatim>\<open>raw\<close>: the message and its resolver.\<close>

definition send_call :: "ticket \<Rightarrow> raw_call \<Rightarrow> 'a compiler_client \<Rightarrow> 'a compiler_client" where
  "send_call q k c =
    (let n = dc_nextId c in
     c\<lparr>dc_nextId := n + 1, dc_pending := mset (dc_pending c) n (tk_number q), dc_outbox := dc_outbox c @ [(n, k)],
       dc_running := Some (q, k, Some n), dc_log := Posted (the (dc_worker c)) n k # dc_log c\<rparr>)"

definition raw :: "ticket \<Rightarrow> raw_call \<Rightarrow> 'a compiler_client \<Rightarrow> 'a compiler_client" where
  "raw q k c =
    (let c1 = start_compiler c in
     if dc_ready c1 = ReadyDone then send_call q k c1 else c1\<lparr>dc_running := Some (q, k, None)\<rparr>)"

text \<open>What an operation calls first: a hover over the program that was checked last needs no check.\<close>

fun first_call :: "jstr option \<Rightarrow> operation \<Rightarrow> raw_call" where
  "first_call lastSource (CheckOf s) = RawCheck s"
| "first_call lastSource (CompileOf s) = RawCompile s"
| "first_call lastSource (HoverAt s n) = (if lastSource = Some s then RawHover s n else RawCheck s)"

definition settle :: "ticket \<Rightarrow> 'a settlement \<Rightarrow> 'a compiler_client \<Rightarrow> 'a compiler_client" where
  "settle q r c = c\<lparr>dc_running := None, dc_settled := dc_settled c @ [(tk_number q, r)]\<rparr>"

text \<open>\<^verbatim>\<open>next\<close> of \<^verbatim>\<open>run\<close>, when the promise before it has settled.\<close>

definition begin_operation :: "ticket \<Rightarrow> 'a compiler_client \<Rightarrow> 'a compiler_client" where
  "begin_operation q c =
    (if tk_generation q \<noteq> dc_generation c then settle q (Rejected (js ''Compiler request cancelled'')) c
     else raw q (first_call (dc_lastSource c) (tk_operation q)) c)"

text \<open>The chain of promises \<^verbatim>\<open>queue\<close>: the next operation begins when none runs.\<close>

fun advance_queue :: "ticket list \<Rightarrow> 'a compiler_client \<Rightarrow> 'a compiler_client" where
  "advance_queue [] c = c\<lparr>dc_queue := []\<rparr>"
| "advance_queue (q # qs) c =
    (if dc_running c \<noteq> None then c\<lparr>dc_queue := q # qs\<rparr> else advance_queue qs (begin_operation q c))"

abbreviation proceed :: "'a compiler_client \<Rightarrow> 'a compiler_client" where
  "proceed c \<equiv> advance_queue (dc_queue c) c"

definition run_operation :: "operation \<Rightarrow> 'a compiler_client \<Rightarrow> 'a compiler_client" where
  "run_operation op c =
    (let q = \<lparr>tk_number = dc_tickets c, tk_operation = op, tk_generation = dc_generation c\<rparr> in
     proceed (c\<lparr>dc_tickets := dc_tickets c + 1, dc_queue := dc_queue c @ [q]\<rparr>))"

text \<open>The continuations of \<^verbatim>\<open>check\<close>, \<^verbatim>\<open>compile\<close> and \<^verbatim>\<open>hover\<close> after a call of \<^verbatim>\<open>raw\<close> gave its response.\<close>

definition continue_operation :: "ticket \<Rightarrow> raw_call \<Rightarrow> 'a response \<Rightarrow> 'a compiler_client \<Rightarrow> 'a compiler_client" where
  "continue_operation q k r c =
    (case (tk_operation q, k, r) of
       (CheckOf s, _, Ok a) \<Rightarrow> settle q (Resolved r) (c\<lparr>dc_lastSource := Some s\<rparr>)
     | (HoverAt s n, RawCheck _, Ok a) \<Rightarrow> raw q (RawHover s n) (c\<lparr>dc_lastSource := Some s\<rparr>)
     | _ \<Rightarrow> settle q (Resolved r) c)"

section \<open>The worker's messages\<close>

text \<open>Messages of a worker that was replaced are ignored.\<close>

definition worker_ready :: "nat \<Rightarrow> 'a compiler_client \<Rightarrow> 'a compiler_client" where
  "worker_ready i c =
    (if dc_worker c \<noteq> Some i \<or> dc_ready c \<noteq> ReadyPending then c else
     case dc_running c of
       Some (q, k, None) \<Rightarrow> send_call q k (c\<lparr>dc_ready := ReadyDone\<rparr>)
     | _ \<Rightarrow> c\<lparr>dc_ready := ReadyDone\<rparr>)"

definition worker_reply :: "nat \<Rightarrow> nat \<Rightarrow> 'a response \<Rightarrow> 'a compiler_client \<Rightarrow> 'a compiler_client" where
  "worker_reply i n r c =
    (if dc_worker c \<noteq> Some i then c else
     case (mget (dc_pending c) n, dc_running c) of
       (Some t, Some (q, k, Some m)) \<Rightarrow>
         if t \<noteq> tk_number q \<or> m \<noteq> n then c else
         proceed (continue_operation q k r (c\<lparr>dc_pending := mdelete (dc_pending c) n, dc_running := None,
           dc_log := Replied i n k (case r of Ok _ \<Rightarrow> True | NotOk _ \<Rightarrow> False) # dc_log c\<rparr>))
     | _ \<Rightarrow> c)"

text \<open>
  \<^verbatim>\<open>close\<close>: the operation that waits for the worker is rejected, one that waits for a reply is given one without \<^verbatim>\<open>ok\<close>; the operations behind it find
  that the generation changed.
\<close>

definition close_client :: "jstr \<Rightarrow> 'a compiler_client \<Rightarrow> 'a compiler_client" where
  "close_client reason c =
    (let c1 = c\<lparr>dc_generation := dc_generation c + 1, dc_pending := [], dc_worker := None, dc_ready := NotStarted, dc_lastSource := None,
                dc_outbox := [], dc_running := None\<rparr> in
     case dc_running c of
       None \<Rightarrow> proceed c1
     | Some (q, k, None) \<Rightarrow> proceed (settle q (Rejected reason) c1)
     | Some (q, k, Some n) \<Rightarrow> proceed (continue_operation q k (NotOk reason) c1))"

definition worker_boot_error :: "nat \<Rightarrow> jstr \<Rightarrow> 'a compiler_client \<Rightarrow> 'a compiler_client" where
  "worker_boot_error i said c = (if dc_worker c \<noteq> Some i then c else close_client said c)"

definition worker_error :: "nat \<Rightarrow> jstr \<Rightarrow> 'a compiler_client \<Rightarrow> 'a compiler_client" where
  "worker_error i said c =
    (if dc_worker c \<noteq> Some i then c else close_client (if said = [] then js ''the compiler worker failed to start'' else said) c)"

datatype 'a doc_event =
    RunOperation operation
  | WorkerReady nat
  | WorkerReply nat nat "'a response"
  | WorkerBootError nat jstr
  | WorkerError nat jstr
  | CloseClient jstr

fun doc_step :: "'a doc_event \<Rightarrow> 'a compiler_client \<Rightarrow> 'a compiler_client" where
  "doc_step (RunOperation op) c = run_operation op c"
| "doc_step (WorkerReady i) c = worker_ready i c"
| "doc_step (WorkerReply i n r) c = worker_reply i n r c"
| "doc_step (WorkerBootError i said) c = worker_boot_error i said c"
| "doc_step (WorkerError i said) c = worker_error i said c"
| "doc_step (CloseClient reason) c = close_client reason c"

section \<open>The invariant of the client\<close>

text \<open>The program of the last check that a worker answered with \<^verbatim>\<open>ok\<close>.\<close>

fun checked_by :: "nat \<Rightarrow> log_entry list \<Rightarrow> jstr option" where
  "checked_by i [] = None"
| "checked_by i (Replied j n (RawCheck s) True # es) = (if j = i then Some s else checked_by i es)"
| "checked_by i (e # es) = checked_by i es"

text \<open>Every hover was posted to a worker whose last such check was of the program it is asked for.\<close>

fun hovers_checked :: "log_entry list \<Rightarrow> bool" where
  "hovers_checked [] = True"
| "hovers_checked (Posted i n (RawHover s k) # es) \<longleftrightarrow> checked_by i es = Some s \<and> hovers_checked es"
| "hovers_checked (e # es) \<longleftrightarrow> hovers_checked es"

text \<open>The messages posted to a worker that it has not answered, by the log alone.\<close>

fun unanswered :: "nat \<Rightarrow> log_entry list \<Rightarrow> (nat \<times> raw_call) list" where
  "unanswered i [] = []"
| "unanswered i (Posted j n k # es) = (if j = i then (n, k) # unanswered i es else unanswered i es)"
| "unanswered i (Replied j n k ok # es) = (if j = i then filter (\<lambda>m. fst m \<noteq> n) (unanswered i es) else unanswered i es)"

definition running_tickets :: "'a compiler_client \<Rightarrow> nat list" where
  "running_tickets c = (case dc_running c of None \<Rightarrow> [] | Some (q, _) \<Rightarrow> [tk_number q])"

definition in_order_of_call :: "'a compiler_client \<Rightarrow> ticket list \<Rightarrow> bool" where
  "in_order_of_call c qs \<longleftrightarrow> map fst (dc_settled c) @ running_tickets c @ map tk_number qs = [0..<dc_tickets c]"

text \<open>The call an operation may be waiting for.\<close>

fun fits_operation :: "operation \<Rightarrow> raw_call \<Rightarrow> bool" where
  "fits_operation (CheckOf s) k \<longleftrightarrow> k = RawCheck s"
| "fits_operation (CompileOf s) k \<longleftrightarrow> k = RawCompile s"
| "fits_operation (HoverAt s n) k \<longleftrightarrow> k = RawCheck s \<or> k = RawHover s n"

fun hover_of :: "raw_call \<Rightarrow> jstr option" where
  "hover_of (RawHover s n) = Some s"
| "hover_of _ = None"

definition waits_ok :: "'a compiler_client \<Rightarrow> bool" where
  "waits_ok c \<longleftrightarrow>
    (case dc_running c of
       None \<Rightarrow> dc_pending c = []
     | Some (q, k, None) \<Rightarrow> dc_pending c = [] \<and> dc_ready c = ReadyPending \<and> hover_of k = None \<and> fits_operation (tk_operation q) k
     | Some (q, k, Some n) \<Rightarrow> dc_pending c = [(n, tk_number q)] \<and>  dc_ready c = ReadyDone \<and> n < dc_nextId c \<and> fits_operation (tk_operation q) k)"

text \<open>The message of the running operation.\<close>

definition running_message :: "'a compiler_client \<Rightarrow> (nat \<times> raw_call) list" where
  "running_message c = (case dc_running c of Some (q, k, Some n) \<Rightarrow> [(n, k)] | _ \<Rightarrow> [])"

definition posts_ok :: "'a compiler_client \<Rightarrow> bool" where
  "posts_ok c \<longleftrightarrow> (\<forall>i \<ge> dc_workers c. unanswered i (dc_log c) = []) \<and>
    (\<forall>i. dc_worker c = Some i \<longrightarrow> unanswered i (dc_log c) = running_message c)"

definition client_core :: "'a compiler_client \<Rightarrow> bool" where
  "client_core c \<longleftrightarrow> waits_ok c \<and> posts_ok c \<and> (dc_worker c = None \<longleftrightarrow> dc_ready c = NotStarted) \<and> hovers_checked (dc_log c) \<and>
    (\<forall>i. dc_worker c = Some i \<longrightarrow> i < dc_workers c) \<and>
    (\<forall>s. dc_lastSource c = Some s \<longrightarrow> dc_ready c = ReadyDone \<and> checked_by (the (dc_worker c)) (dc_log c) = Some s)"

definition client_ok :: "'a compiler_client \<Rightarrow> bool" where
  "client_ok c \<longleftrightarrow> client_core c \<and> in_order_of_call c (dc_queue c) \<and> (dc_queue c \<noteq> [] \<longrightarrow> dc_running c \<noteq> None)"

lemma start_compiler_core:
  assumes "client_core c" and "dc_running c = None"
  shows "client_core (start_compiler c)" "dc_running (start_compiler c) = None" "dc_ready (start_compiler c) \<noteq> NotStarted"
  using assms by (auto simp: start_compiler_def client_core_def waits_ok_def posts_ok_def running_message_def)

lemma send_call_core:
  assumes "client_core c" "dc_ready c = ReadyDone" "dc_pending c = []" "fits_operation (tk_operation q) k"
    and "case hover_of k of None \<Rightarrow> True | Some s \<Rightarrow> dc_lastSource c = Some s"
  shows "client_core (send_call q k c)"
proof -
  have "running_message c = []"
    using assms(1,3) by (auto simp: client_core_def waits_ok_def running_message_def split: option.splits)
  then have "posts_ok (send_call q k c)"
    using assms(1,2) by (auto simp: client_core_def posts_ok_def send_call_def running_message_def Let_def)
  then show ?thesis using assms by (cases k) (auto simp: send_call_def client_core_def waits_ok_def Let_def mset_fresh)
qed

definition same_books :: "'a compiler_client \<Rightarrow> 'a compiler_client \<Rightarrow> bool" where
  "same_books c d \<longleftrightarrow> dc_settled d = dc_settled c \<and> dc_tickets d = dc_tickets c \<and> dc_queue d = dc_queue c"

lemma start_compiler_fields [simp]:
  "dc_settled (start_compiler c) = dc_settled c" "dc_tickets (start_compiler c) = dc_tickets c" "dc_queue (start_compiler c) = dc_queue c"
  "dc_running (start_compiler c) = dc_running c" "dc_lastSource (start_compiler c) = dc_lastSource c" "dc_pending (start_compiler c) = dc_pending c"
  "dc_log (start_compiler c) = dc_log c"
  by (simp_all add: start_compiler_def)

lemma raw_core:
  assumes core: "client_core c" and idle: "dc_running c = None" and fits: "fits_operation (tk_operation q) k"
    and hover: "case hover_of k of None \<Rightarrow> True | Some s \<Rightarrow> dc_lastSource c = Some s"
  shows "client_core (raw q k c)" "same_books c (raw q k c)" "\<exists>w. dc_running (raw q k c) = Some (q, k, w)"
proof -
  let ?c = "start_compiler c"
  note start = start_compiler_core [OF core idle]
  have pending: "dc_pending ?c = []" using core idle by (simp add: client_core_def waits_ok_def posts_ok_def running_message_def)
  show "client_core (raw q k c)"
  proof (cases "dc_ready ?c = ReadyDone")
    case True
    then show ?thesis using send_call_core [OF start(1) True pending fits] hover by (simp add: raw_def Let_def split: option.splits)
  next
    case False
    then have ready: "dc_ready ?c = ReadyPending" using start(3) by (cases "dc_ready ?c") auto
    then have "dc_lastSource c = None" using start(1) by (cases "dc_lastSource c") (auto simp: client_core_def)
    then have "hover_of k = None" using hover by (cases "hover_of k") auto
    then show ?thesis using start(1) False ready pending fits idle by (simp add: raw_def Let_def client_core_def waits_ok_def posts_ok_def running_message_def)
  qed
  show "same_books c (raw q k c)" "\<exists>w. dc_running (raw q k c) = Some (q, k, w)"
    by (auto simp: raw_def Let_def same_books_def send_call_def)
qed

lemma settle_core:
  assumes "client_core c" and "dc_pending c = []"
  shows "client_core (settle q r c)"
  using assms by (cases "dc_running c")
    (auto simp: settle_def client_core_def waits_ok_def posts_ok_def running_message_def split: option.splits)

lemma begin_operation_ok:
  assumes core: "client_core c" and idle: "dc_running c = None" and order: "in_order_of_call c (q # qs)"
  shows "client_core (begin_operation q c)" "in_order_of_call (begin_operation q c) qs"
proof -
  let ?k = "first_call (dc_lastSource c) (tk_operation q)"
  have k: "fits_operation (tk_operation q) ?k" "case hover_of ?k of None \<Rightarrow> True | Some s \<Rightarrow> dc_lastSource c = Some s"
    by (cases "tk_operation q"; auto)+
  note called = raw_core [OF core idle k]
  have pending: "dc_pending c = []" using core idle by (simp add: client_core_def waits_ok_def posts_ok_def running_message_def)
  show "client_core (begin_operation q c)"
    using called(1) settle_core [OF core pending] by (simp add: begin_operation_def)
  show "in_order_of_call (begin_operation q c) qs"
    using called(2,3) order idle
    by (auto simp: begin_operation_def in_order_of_call_def running_tickets_def settle_def same_books_def)
qed

lemma core_queue [simp]: "client_core (c\<lparr>dc_queue := qs\<rparr>) = client_core c"
  by (cases "dc_running c") (simp_all add: client_core_def waits_ok_def posts_ok_def running_message_def split: prod.split option.split)

lemma order_queue [simp]: "in_order_of_call (c\<lparr>dc_queue := qs\<rparr>) rs = in_order_of_call c rs"
  by (simp add: in_order_of_call_def running_tickets_def)

lemma advance_queue_ok:
  "client_core c \<Longrightarrow> in_order_of_call c qs \<Longrightarrow> client_ok (advance_queue qs c)"
proof (induction qs arbitrary: c)
  case Nil
  then show ?case by (simp add: client_ok_def)
next
  case (Cons q qs)
  show ?case
  proof (cases "dc_running c")
    case None
    with Cons begin_operation_ok [OF Cons.prems(1) None Cons.prems(2)] show ?thesis by simp
  qed (use Cons.prems in \<open>simp add: client_ok_def\<close>)
qed

lemma run_operation_ok:
  assumes "client_ok c"
  shows "client_ok (run_operation op c)"
proof -
  let ?q = "\<lparr>tk_number = dc_tickets c, tk_operation = op, tk_generation = dc_generation c\<rparr>"
  let ?c = "c\<lparr>dc_tickets := dc_tickets c + 1, dc_queue := dc_queue c @ [?q]\<rparr>"
  have "client_core ?c"
    using assms by (cases "dc_running c") (auto simp: client_ok_def client_core_def waits_ok_def posts_ok_def running_message_def split: prod.splits option.splits)
  moreover have "in_order_of_call ?c (dc_queue c @ [?q])"
    using assms by (simp add: client_ok_def in_order_of_call_def running_tickets_def)
  ultimately show ?thesis using advance_queue_ok [of ?c "dc_queue c @ [?q]"] by (simp add: run_operation_def Let_def)
qed

lemma hovers_post: "hover_of k = None \<Longrightarrow> hovers_checked (Posted i n k # es) = hovers_checked es"
  by (cases k) auto

lemma worker_ready_ok: "client_ok c \<Longrightarrow> client_ok (worker_ready i c)"
  by (auto simp: worker_ready_def client_ok_def client_core_def waits_ok_def posts_ok_def running_message_def in_order_of_call_def running_tickets_def send_call_def Let_def mset_fresh
      hovers_post split: option.split)

lemma hovers_reply [simp]: "hovers_checked (Replied i n k ok # es) = hovers_checked es"
  by simp

lemma replied_core:
  fixes r :: "'a response"
  assumes core: "client_core c" and run: "dc_running c = Some (q, k, Some n)" and i: "dc_worker c = Some i"
    and order: "in_order_of_call c qs"
  defines "c1 \<equiv> c\<lparr>dc_pending := mdelete (dc_pending c) n, dc_running := None,
    dc_log := Replied i n k (case r of Ok a \<Rightarrow> True | NotOk e \<Rightarrow> False) # dc_log c\<rparr>"
  shows "client_core (continue_operation q k r c1)" "in_order_of_call (continue_operation q k r c1) qs"
proof -
  have fields: "dc_running c1 = None" "dc_pending c1 = []" "dc_worker c1 = Some i" "dc_settled c1 = dc_settled c" "dc_tickets c1 = dc_tickets c"
    and fits: "fits_operation (tk_operation q) k"
    using core run i by (auto simp: c1_def client_core_def waits_ok_def posts_ok_def running_message_def mdelete_def)
  have settled: "in_order_of_call (settle q res d) qs" if "dc_settled d = dc_settled c" "dc_tickets d = dc_tickets c" for res d
    using order run that by (simp add: in_order_of_call_def running_tickets_def settle_def)
  have plain: "client_core c1" if "checked_by i (dc_log c1) = checked_by i (dc_log c)"
    using core run i fields that by (auto simp: client_core_def waits_ok_def posts_ok_def running_message_def c1_def)
  have checked: "client_core (c1\<lparr>dc_lastSource := Some s\<rparr>)" if "k = RawCheck s" "r = Ok a" for s a
    using core run i fields that by (auto simp: client_core_def waits_ok_def posts_ok_def running_message_def c1_def)
  have "client_core (continue_operation q k r c1) \<and> in_order_of_call (continue_operation q k r c1) qs"
  proof (cases "\<exists>s a. k = RawCheck s \<and> r = Ok a")
    case True
    then obtain s a where ka: "k = RawCheck s" "r = Ok a" by blast
    note core2 = checked [OF ka]
    from fits ka consider "tk_operation q = CheckOf s" | m where "tk_operation q = HoverAt s m" by (cases "tk_operation q") auto
    then show ?thesis
    proof cases
      case 1
      then show ?thesis using settle_core [OF core2] settled [of "c1\<lparr>dc_lastSource := Some s\<rparr>"] ka fields
        by (simp add: continue_operation_def)
    next
      case (2 m)
      let ?d = "c1\<lparr>dc_lastSource := Some s\<rparr>"
      have "client_core (raw q (RawHover s m) ?d)" "same_books ?d (raw q (RawHover s m) ?d)" "\<exists>w. dc_running (raw q (RawHover s m) ?d) = Some (q, RawHover s m, w)"
        using raw_core [of ?d q "RawHover s m"] core2 fields 2 by simp_all
      then show ?thesis using order run ka 2 fields
        by (auto simp: continue_operation_def in_order_of_call_def running_tickets_def same_books_def)
    qed
  next
    case False
    then have "checked_by i (dc_log c1) = checked_by i (dc_log c)" by (cases k; cases r) (auto simp: c1_def)
    note core1 = plain [OF this]
    have "continue_operation q k r c1 = settle q (Resolved r) c1"
      using False fits by (cases "tk_operation q"; cases r; cases k) (auto simp: continue_operation_def)
    then show ?thesis using settle_core [OF core1] settled [of c1] fields by simp
  qed
  then show "client_core (continue_operation q k r c1)" "in_order_of_call (continue_operation q k r c1) qs" by simp_all
qed

lemma continue_queue [simp]: "dc_queue (continue_operation q k r c) = dc_queue c"
  by (auto simp: continue_operation_def settle_def raw_def Let_def send_call_def split: operation.split raw_call.split response.split)

lemma worker_reply_ok:
  assumes ok: "client_ok c"
  shows "client_ok (worker_reply i n r c)"
proof (cases "dc_worker c = Some i \<and> (\<exists>q k. dc_running c = Some (q, k, Some n) \<and> mget (dc_pending c) n = Some (tk_number q))")
  case True
  then obtain q k where run: "dc_running c = Some (q, k, Some n)" and got: "mget (dc_pending c) n = Some (tk_number q)" and i: "dc_worker c = Some i" by blast
  from ok have "client_core c" "in_order_of_call c (dc_queue c)" by (simp_all add: client_ok_def)
  note replied = replied_core [OF this(1) run i this(2), of r]
  show ?thesis using advance_queue_ok [OF replied] run got i by (simp add: worker_reply_def)
next
  case False
  then have "worker_reply i n r c = c" by (auto simp: worker_reply_def split: option.split)
  with ok show ?thesis by simp
qed

lemma close_client_ok:
  assumes ok: "client_ok c"
  shows "client_ok (close_client reason c)"
proof -
  let ?c = "c\<lparr>dc_generation := dc_generation c + 1, dc_pending := [], dc_worker := None, dc_ready := NotStarted, dc_lastSource := None,
      dc_outbox := [], dc_running := None\<rparr>"
  have core: "client_core ?c" using ok by (auto simp: client_ok_def client_core_def waits_ok_def posts_ok_def running_message_def)
  have order: "in_order_of_call (settle q res ?c) (dc_queue c)" if "dc_running c = Some (q, k, w)" for q k w res
    using ok that by (simp add: client_ok_def in_order_of_call_def running_tickets_def settle_def)
  have settled: "client_core (settle q res ?c)" for q res using settle_core [OF core] by simp
  have not_ok: "continue_operation q k (NotOk e) d = settle q (Resolved (NotOk e)) d" for q k e and d :: "'a compiler_client"
    by (simp add: continue_operation_def split: operation.split raw_call.split)
  have queue: "dc_queue (settle q res d) = dc_queue d" for q res and d :: "'a compiler_client" by (simp add: settle_def)
  show ?thesis
  proof (cases "dc_running c")
    case None
    then have "in_order_of_call ?c (dc_queue c)" using ok by (auto simp: client_ok_def in_order_of_call_def running_tickets_def)
    with None core show ?thesis using advance_queue_ok [of ?c "dc_queue c"] by (simp add: close_client_def)
  next
    case (Some t)
    obtain q k w where t: "t = (q, k, w)" by (cases t) auto
    have "client_ok (advance_queue (dc_queue c) (settle q res ?c))" for res
      using Some t order settled by (auto intro!: advance_queue_ok)
    then show ?thesis using Some t by (cases w) (simp_all add: close_client_def Let_def not_ok queue)
  qed
qed

lemma doc_step_ok: "client_ok c \<Longrightarrow> client_ok (doc_step e c)"
  by (cases e) (auto simp: worker_boot_error_def worker_error_def intro: run_operation_ok worker_ready_ok worker_reply_ok close_client_ok)

interpretation dc: machine doc_step client_ok
  by unfold_locales (rule doc_step_ok)

lemma new_client_ok: "client_ok new_client"
  by (simp add: client_ok_def client_core_def waits_ok_def posts_ok_def running_message_def in_order_of_call_def running_tickets_def new_client_def)

abbreviation client_after :: "'a doc_event list \<Rightarrow> 'a compiler_client" where
  "client_after es \<equiv> run_events doc_step es new_client"

lemma client_after_ok: "client_ok (client_after es)"
  by (rule dc.inv_run, rule new_client_ok)

text \<open>C16. The editors of a page share one compiler: their operations settle in the order they were called, each exactly once, whatever the workers do and however often the
  client is closed. What the worker that lives was posted and has not answered is the message of the running operation and nothing else: a call that fits that operation, whose
  number is the one entry of the table of pending replies. The chain never stalls, since without a running operation none waits. And a
  hover is only ever asked of a worker whose last successful check was of the program the hover is for.
\<close>

theorem doc_operations_in_order:
  "map fst (dc_settled (client_after es)) @ running_tickets (client_after es) @ map tk_number (dc_queue (client_after es)) = [0..<dc_tickets (client_after es)]
   \<and> (case dc_worker (client_after es) of None \<Rightarrow> dc_running (client_after es) = None
      | Some i \<Rightarrow> unanswered i (dc_log (client_after es)) = running_message (client_after es))
   \<and> (case dc_running (client_after es) of
        None \<Rightarrow> dc_queue (client_after es) = [] \<and> dc_pending (client_after es) = []
      | Some (q, k, n) \<Rightarrow> dc_ready (client_after es) \<noteq> NotStarted \<and> fits_operation (tk_operation q) k
          \<and> dc_pending (client_after es) = (case n of None \<Rightarrow> [] | Some m \<Rightarrow> [(m, tk_number q)]))
   \<and> hovers_checked (dc_log (client_after es))"
  using client_after_ok [of es]
  by (cases "dc_running (client_after es)")
    (auto simp: client_ok_def client_core_def waits_ok_def posts_ok_def in_order_of_call_def split: option.splits)

lemma advance_cancelled:
  "dc_running c = None \<Longrightarrow> \<forall>q \<in> set qs. tk_generation q \<noteq> dc_generation c \<Longrightarrow>
   advance_queue qs c = c\<lparr>dc_queue := [], dc_settled := dc_settled c @ map (\<lambda>q. (tk_number q, Rejected (js ''Compiler request cancelled''))) qs\<rparr>"
  by (induction qs arbitrary: c) (auto simp: begin_operation_def settle_def)

definition same_generation :: "'a compiler_client \<Rightarrow> bool" where
  "same_generation c \<longleftrightarrow> (\<forall>q \<in> set (dc_queue c). tk_generation q = dc_generation c)"

lemma generation_fields [simp]:
  "dc_generation (raw q k c) = dc_generation c" "dc_generation (settle q s c) = dc_generation c"
  "dc_generation (begin_operation q c) = dc_generation c" "dc_generation (continue_operation q k r c) = dc_generation c"
  by (auto simp: raw_def Let_def send_call_def start_compiler_def settle_def begin_operation_def continue_operation_def
      split: operation.split raw_call.split response.split)

lemma advance_suffix:
  "suffix (dc_queue (advance_queue qs c)) qs \<and> dc_generation (advance_queue qs c) = dc_generation c"
  by (induction qs arbitrary: c) (auto intro: suffix_ConsI)

lemma same_generation_advance: "\<forall>q \<in> set qs. tk_generation q = dc_generation c \<Longrightarrow> same_generation (advance_queue qs c)"
  using advance_suffix [of qs c] set_mono_suffix by (fastforce simp: same_generation_def)

lemma close_cancels:
  assumes ok: "client_ok c" and gen: "same_generation c"
  shows "dc_running (close_client reason c) = None" "dc_queue (close_client reason c) = []"
proof -
  let ?c = "c\<lparr>dc_generation := dc_generation c + 1, dc_pending := [], dc_worker := None, dc_ready := NotStarted, dc_lastSource := None,
      dc_outbox := [], dc_running := None\<rparr>"
  have stale: "\<forall>q \<in> set (dc_queue c). tk_generation q \<noteq> dc_generation (settle p res ?c)" "\<forall>q \<in> set (dc_queue c). tk_generation q \<noteq> dc_generation ?c" for p res
    using gen by (auto simp: same_generation_def)
  have not_ok: "continue_operation q k (NotOk e) d = settle q (Resolved (NotOk e)) d" for q k e and d :: "'a compiler_client"
    by (simp add: continue_operation_def split: operation.split raw_call.split)
  have idle: "dc_running (settle p res d) = None" "dc_queue (settle p res d) = dc_queue d" for p res and d :: "'a compiler_client" by (simp_all add: settle_def)
  show "dc_running (close_client reason c) = None" "dc_queue (close_client reason c) = []"
    using stale by (auto simp: close_client_def Let_def not_ok idle advance_cancelled split: option.split)
qed

lemma doc_step_generation:
  assumes ok: "client_ok c" and gen: "same_generation c"
  shows "same_generation (doc_step e c)"
proof -
  have closed: "same_generation (close_client reason c)" for reason
    using close_cancels [OF ok gen, of reason] by (simp add: same_generation_def)
  show ?thesis
  proof (cases e)
    case (RunOperation op)
    then show ?thesis using gen [unfolded same_generation_def] by (auto simp: run_operation_def Let_def intro!: same_generation_advance)
  next
    case (WorkerReady i)
    then show ?thesis using gen by (auto simp: worker_ready_def send_call_def Let_def same_generation_def split: option.split)
  next
    case (WorkerReply i n r)
    then show ?thesis using gen gen [unfolded same_generation_def]
      by (auto simp: worker_reply_def split: option.split intro!: same_generation_advance)
  qed (use gen closed in \<open>auto simp: worker_boot_error_def worker_error_def\<close>)
qed

interpretation dg: machine doc_step "\<lambda>c. client_ok c \<and> same_generation c"
  by unfold_locales (simp add: doc_step_ok doc_step_generation)

text \<open>Closing the client settles every operation that was called: the ones that wait are cancelled and none of them reaches the next worker.\<close>

lemma close_settles_every_operation:
  "map fst (dc_settled (close_client reason (client_after es))) = [0..<dc_tickets (close_client reason (client_after es))]"
proof -
  have "client_ok (client_after es) \<and> same_generation (client_after es)"
    by (rule dg.inv_run) (simp add: new_client_ok same_generation_def, simp add: new_client_def)
  then have ok: "client_ok (client_after es)" and gen: "same_generation (client_after es)" by simp_all
  show ?thesis using close_cancels [OF ok gen] close_client_ok [OF ok, of reason]
    by (simp add: client_ok_def in_order_of_call_def running_tickets_def)
qed

end
