(* ===== verification/DocPage.thy ===== *)
theory DocPage
  imports CompilerClient
begin

text \<open>
  A documentation page: the client of \<^verbatim>\<open>doc-app.js\<close> joined with the compiler workers of \<^verbatim>\<open>luajit-worker.js\<close> it starts. Messages and replies travel in order, and each takes
  its time.
\<close>

section \<open>The page\<close>

text \<open>\<open>pg_worker\<close> holds the workers by their number, \<open>pg_seen\<close> how many messages of each arrived at the page.\<close>

record 'a doc_page =
  pg_client :: "'a compiler_client"
  pg_worker :: "nat \<Rightarrow> (raw_call, 'a) queue_worker"
  pg_seen :: "nat \<Rightarrow> nat"

definition new_page :: "'a doc_page" where
  "new_page = \<lparr>pg_client = new_client, pg_worker = (\<lambda>i. new_worker), pg_seen = (\<lambda>i. 0)\<rparr>"

text \<open>The message of a call: its kind, and the source where it has one.\<close>

fun request_of :: "nat \<times> raw_call \<Rightarrow> raw_call request" where
  "request_of (n, RawCheck s) = \<lparr>rq_id = n, rq_kind = ''check'', rq_source = Some s, rq_rest = RawCheck s\<rparr>"
| "request_of (n, RawCompile s) = \<lparr>rq_id = n, rq_kind = ''compile'', rq_source = Some s, rq_rest = RawCompile s\<rparr>"
| "request_of (n, RawHover s k) = \<lparr>rq_id = n, rq_kind = ''hover'', rq_source = None, rq_rest = RawHover s k\<rparr>"

text \<open>The page's listener for the messages of worker \<open>i\<close>.\<close>

fun worker_says :: "nat \<Rightarrow> 'a reply \<Rightarrow> 'a compiler_client \<Rightarrow> 'a compiler_client" where
  "worker_says i Ready c = worker_ready i c"
| "worker_says i (BootError said) c = worker_boot_error i said c"
| "worker_says i (Status said) c = c"
| "worker_says i (Answered n a) c = worker_reply i n (Ok a) c"
| "worker_says i (Refused n e) c = worker_reply i n (NotOk e) c"
| "worker_says i (Superseded n e) c = worker_reply i n (NotOk e) c"

datatype 'a page_event =
    Called operation
  | Closed jstr
  | Receives
  | Works nat "jserror + 'a"
  | Boots nat "jstr + unit"
  | Delivers
  | Fails jstr

fun page_step :: "'a page_event \<Rightarrow> 'a doc_page \<Rightarrow> 'a doc_page" where
  "page_step (Called op) p = p\<lparr>pg_client := run_operation op (pg_client p)\<rparr>"
| "page_step (Closed reason) p = p\<lparr>pg_client := close_client reason (pg_client p)\<rparr>"
| "page_step Receives p =
    (case (dc_worker (pg_client p), dc_outbox (pg_client p)) of
       (Some i, m # ms) \<Rightarrow>
         p\<lparr>pg_client := (pg_client p)\<lparr>dc_outbox := ms\<rparr>, pg_worker := (pg_worker p)(i := onmessage (request_of m) (pg_worker p i))\<rparr>
     | _ \<Rightarrow> p)"
| "page_step (Works i result) p = p\<lparr>pg_worker := (pg_worker p)(i := compiler_settled result (pg_worker p i))\<rparr>"
| "page_step (Boots i result) p =
    (if i < dc_workers (pg_client p) then p\<lparr>pg_worker := (pg_worker p)(i := boot_ends result (pg_worker p i))\<rparr> else p)"
| "page_step Delivers p =
    (case dc_worker (pg_client p) of None \<Rightarrow> p
     | Some i \<Rightarrow>
        if pg_seen p i < length (qw_posted (pg_worker p i)) then
          p\<lparr>pg_seen := (pg_seen p)(i := pg_seen p i + 1), pg_client := worker_says i (qw_posted (pg_worker p i) ! pg_seen p i) (pg_client p)\<rparr>
        else p)"
| "page_step (Fails said) p =
    (case dc_worker (pg_client p) of None \<Rightarrow> p | Some i \<Rightarrow> p\<lparr>pg_client := worker_error i said (pg_client p)\<rparr>)"

section \<open>One request at a time\<close>

text \<open>What the client posted and whose reply it has not got: on the way, at the worker, or on the way back.\<close>

definition backlog :: "'a doc_page \<Rightarrow> nat \<Rightarrow> nat list" where
  "backlog p i = map rq_id (waiting (pg_worker p i)) @ concat (map reply_ids (drop (pg_seen p i) (qw_posted (pg_worker p i))))"

fun superseded_reply :: "'a reply \<Rightarrow> bool" where
  "superseded_reply (Superseded n e) = True"
| "superseded_reply _ = False"

definition worker_ok :: "(raw_call, 'a) queue_worker \<Rightarrow> bool" where
  "worker_ok w \<longleftrightarrow> queue_ok w \<and> (Ready \<in> set (qw_posted w) \<longrightarrow> qw_boot w = Booted) \<and> list_all (Not \<circ> superseded_reply) (qw_posted w) \<and> length (waiting w) \<le> 1"

definition boxes :: "'a compiler_client \<Rightarrow> bool" where
  "boxes c \<longleftrightarrow> map fst (dc_outbox c) = map fst (dc_pending c)"

definition line_ok :: "'a doc_page \<Rightarrow> bool" where
  "line_ok p \<longleftrightarrow>
    (case dc_worker (pg_client p) of
       None \<Rightarrow> boxes (pg_client p)
     | Some i \<Rightarrow> map fst (dc_outbox (pg_client p)) @ backlog p i = map fst (dc_pending (pg_client p)) \<and>
         (dc_ready (pg_client p) = ReadyDone \<longrightarrow> qw_boot (pg_worker p i) = Booted))"

definition page_ok :: "'a doc_page \<Rightarrow> bool" where
  "page_ok p \<longleftrightarrow> client_ok (pg_client p) \<and> line_ok p \<and> (\<forall>i. worker_ok (pg_worker p i) \<and> pg_seen p i \<le> length (qw_posted (pg_worker p i))) \<and>
    (\<forall>i \<ge> dc_workers (pg_client p). pg_worker p i = new_worker \<and> pg_seen p i = 0)"

text \<open>How an operation of the client may move to a new worker.\<close>

definition moved :: "'a compiler_client \<Rightarrow> 'a compiler_client \<Rightarrow> bool" where
  "moved c d \<longleftrightarrow>
    dc_worker d = dc_worker c \<and> dc_workers d = dc_workers c \<and> dc_ready d = dc_ready c \<or>
    dc_worker d = Some (dc_workers c) \<and> dc_workers d = dc_workers c + 1 \<and> dc_ready d = ReadyPending"

lemma raw_boxes:
  assumes "client_core c" "dc_running c = None" "boxes c"
  shows "boxes (raw q k c) \<and> moved c (raw q k c)"
  using assms by (auto simp: raw_def Let_def send_call_def start_compiler_def boxes_def moved_def client_core_def waits_ok_def mset_fresh)

lemma advance_running: "dc_running c \<noteq> None \<Longrightarrow> advance_queue qs c = c\<lparr>dc_queue := qs\<rparr>"
  by (cases qs) auto

lemma moved_refl [simp]: "moved c c" by (simp add: moved_def)

lemma begin_boxes:
  assumes "client_core c" "dc_running c = None" "boxes c"
  shows "boxes (begin_operation q c) \<and> moved c (begin_operation q c) \<and>
    (dc_running (begin_operation q c) = None \<longrightarrow> dc_worker (begin_operation q c) = dc_worker c \<and> dc_workers (begin_operation q c) = dc_workers c \<and> dc_ready (begin_operation q c) = dc_ready c)"
  using raw_boxes [OF assms] assms
  by (auto simp: begin_operation_def settle_def boxes_def moved_def raw_def Let_def send_call_def)

lemma advance_boxes:
  "client_core c \<Longrightarrow> in_order_of_call c qs \<Longrightarrow> boxes c \<Longrightarrow> boxes (advance_queue qs c) \<and> moved c (advance_queue qs c)"
proof (induction qs arbitrary: c)
  case Nil
  then show ?case by (simp add: boxes_def moved_def)
next
  case (Cons q qs)
  show ?case
  proof (cases "dc_running c")
    case None
    note begun = begin_boxes [OF Cons.prems(1) None Cons.prems(3), of q]
    note core = begin_operation_ok [OF Cons.prems(1) None Cons.prems(2)]
    from Cons.IH [OF core] begun None show ?thesis
      by (cases "dc_running (begin_operation q c)") (auto simp: advance_running boxes_def moved_def)
  qed (use Cons.prems in \<open>simp add: boxes_def moved_def\<close>)
qed

lemma new_worker_fields [simp]:
  "waiting new_worker = []" "concat (map reply_ids (qw_posted new_worker)) = []" "worker_ok new_worker"
  using new_worker_ok by (simp_all add: worker_ok_def) (simp_all add: new_worker_def waiting_def)

definition workers_ok :: "'a doc_page \<Rightarrow> bool" where
  "workers_ok p \<longleftrightarrow> (\<forall>i. worker_ok (pg_worker p i) \<and> pg_seen p i \<le> length (qw_posted (pg_worker p i))) \<and> (\<forall>i \<ge> dc_workers (pg_client p). pg_worker p i = new_worker \<and> pg_seen p i = 0)"

definition at_rest :: "'a doc_page \<Rightarrow> bool" where
  "at_rest p \<longleftrightarrow>
    (\<forall>i. dc_worker (pg_client p) = Some i \<longrightarrow> backlog p i = [] \<and> (dc_ready (pg_client p) = ReadyDone \<longrightarrow> qw_boot (pg_worker p i) = Booted))"

lemma page_ok_parts: "page_ok p \<longleftrightarrow> client_ok (pg_client p) \<and> line_ok p \<and> workers_ok p"
  by (auto simp: page_ok_def workers_ok_def)

lemma page_moved:
  assumes workers: "workers_ok p" and rest: "at_rest p" and c: "client_ok c" "boxes c" "moved (pg_client p) c"
  shows "page_ok (p\<lparr>pg_client := c\<rparr>)"
proof -
  have fresh: "backlog p (dc_workers (pg_client p)) = []" using workers by (simp add: workers_ok_def backlog_def)
  have "line_ok (p\<lparr>pg_client := c\<rparr>)"
  proof (cases "dc_worker c")
    case None
    with c show ?thesis by (simp add: line_ok_def)
  next
    case (Some i)
    then have "backlog p i = [] \<and> (dc_ready c = ReadyDone \<longrightarrow> qw_boot (pg_worker p i) = Booted)"
      using c(3) rest fresh by (auto simp: moved_def at_rest_def)
    with Some c(2) show ?thesis by (simp add: line_ok_def boxes_def backlog_def)
  qed
  moreover have "workers_ok (p\<lparr>pg_client := c\<rparr>)" using workers c(3) by (auto simp: workers_ok_def moved_def)
  ultimately show ?thesis using c by (simp add: page_ok_parts)
qed

lemma resting:
  assumes "page_ok p" and "dc_pending (pg_client p) = []"
  shows "at_rest p" "boxes (pg_client p)" "workers_ok p" "client_ok (pg_client p)"
  using assms by (auto simp: page_ok_parts line_ok_def at_rest_def boxes_def split: option.splits)

lemma pending_of:
  assumes "client_ok c"
  shows "dc_pending c = (case dc_running c of Some (q, k, Some n) \<Rightarrow> [(n, tk_number q)] | _ \<Rightarrow> [])"
  using assms by (auto simp: client_ok_def client_core_def waits_ok_def split: option.splits)

lemma called_ok:
  assumes ok: "page_ok p"
  shows "page_ok (page_step (Called op) p)"
proof (cases "dc_running (pg_client p)")
  case None
  let ?c = "pg_client p"
  have client: "client_ok ?c" using ok by (simp add: page_ok_parts)
  note rest = resting [OF ok]
  have pending: "dc_pending ?c = []" using pending_of [OF client] None by simp
  let ?d = "?c\<lparr>dc_tickets := dc_tickets ?c + 1, dc_queue := dc_queue ?c @ [\<lparr>tk_number = dc_tickets ?c, tk_operation = op, tk_generation = dc_generation ?c\<rparr>]\<rparr>"
  have core: "client_core ?d" "in_order_of_call ?d (dc_queue ?d)" "boxes ?d"
    using client None rest(2) [OF pending] by (auto simp: client_ok_def client_core_def waits_ok_def posts_ok_def running_message_def in_order_of_call_def running_tickets_def boxes_def)
  have "boxes (run_operation op ?c)" "moved ?c (run_operation op ?c)"
    using advance_boxes [OF core] by (simp_all add: run_operation_def Let_def moved_def)
  then show ?thesis using page_moved [OF rest(3,1) [OF pending] run_operation_ok [OF client, of op]] by simp
next
  case (Some t)
  then have "page_step (Called op) p = p\<lparr>pg_client := (pg_client p)\<lparr>dc_tickets := dc_tickets (pg_client p) + 1,
      dc_queue := dc_queue (pg_client p) @ [\<lparr>tk_number = dc_tickets (pg_client p), tk_operation = op, tk_generation = dc_generation (pg_client p)\<rparr>]\<rparr>\<rparr>"
    by (simp add: run_operation_def Let_def advance_running)
  moreover have "client_ok (run_operation op (pg_client p))" using ok by (simp add: page_ok_parts run_operation_ok)
  ultimately show ?thesis using ok Some
    by (auto simp: page_ok_parts line_ok_def workers_ok_def backlog_def boxes_def run_operation_def Let_def advance_running split: option.splits)
qed

lemma closed_moves:
  assumes ok: "page_ok p"
  shows "page_ok (p\<lparr>pg_client := close_client reason (pg_client p)\<rparr>)"
proof -
  let ?c = "pg_client p"
  let ?d = "?c\<lparr>dc_generation := dc_generation ?c + 1, dc_pending := [], dc_worker := None, dc_ready := NotStarted, dc_lastSource := None,
      dc_outbox := [], dc_running := None\<rparr>"
  have client: "client_ok ?c" using ok by (simp add: page_ok_parts)
  have not_ok: "continue_operation q k (NotOk e) d = settle q (Resolved (NotOk e)) d" for q k e and d :: "'a compiler_client"
    by (simp add: continue_operation_def split: operation.split raw_call.split)
  have fields: "client_core (settle q res ?d)" "client_core ?d" "boxes (settle q res ?d)" "boxes ?d" "moved ?d (settle q res ?d)" for q res
    using client by (auto simp: client_ok_def client_core_def waits_ok_def posts_ok_def running_message_def settle_def boxes_def moved_def)
  have trans: "moved ?d e" if "moved (settle q res ?d) e" for q res e using that by (simp add: settle_def moved_def)
  have queue: "dc_queue (settle q res d) = dc_queue d" for q res and d :: "'a compiler_client" by (simp add: settle_def)
  have "boxes (close_client reason ?c) \<and> moved ?d (close_client reason ?c)"
  proof (cases "dc_running ?c")
    case None
    then have "in_order_of_call ?d (dc_queue ?c)" using client by (auto simp: client_ok_def in_order_of_call_def running_tickets_def)
    with None show ?thesis using advance_boxes [OF fields(2) _ fields(4)] by (simp add: close_client_def)
  next
    case (Some t)
    obtain q k w where t: "t = (q, k, w)" by (cases t) auto
    have "in_order_of_call (settle q res ?d) (dc_queue ?c)" for res
      using client Some t by (simp add: client_ok_def in_order_of_call_def running_tickets_def settle_def)
    then have "boxes (advance_queue (dc_queue ?c) (settle q res ?d)) \<and> moved ?d (advance_queue (dc_queue ?c) (settle q res ?d))" for res
      using advance_boxes [OF fields(1) _ fields(3)] trans by blast
    then show ?thesis using Some t by (cases w) (simp_all add: close_client_def Let_def not_ok queue)
  qed
  moreover have "workers_ok (p\<lparr>pg_client := ?d\<rparr>)" "at_rest (p\<lparr>pg_client := ?d\<rparr>)"
    using ok by (simp_all add: page_ok_parts workers_ok_def at_rest_def)
  ultimately show ?thesis
    using page_moved [of "p\<lparr>pg_client := ?d\<rparr>" "close_client reason ?c"] close_client_ok [OF client, of reason] by simp
qed

text \<open>A worker that has nothing to do takes a message at once, or refuses it.\<close>

lemma idle_onmessage:
  assumes w: "worker_ok w" and idle: "waiting w = []"
  shows "worker_ok (onmessage m w)" "qw_boot (onmessage m w) = qw_boot w"
    "\<exists>rs. qw_posted (onmessage m w) = qw_posted w @ rs \<and> map rq_id (waiting (onmessage m w)) @ concat (map reply_ids rs) = [rq_id m]"
proof -
  have q: "qw_queue w = []" "qw_current w = None" "\<not> qw_running w"
    using w idle by (auto simp: waiting_def worker_ok_def queue_ok_def split: option.splits)
  let ?v = "w\<lparr>qw_received := qw_received w @ [m], qw_queue := [m], qw_running := True\<rparr>"
  have eq: "onmessage m w = drain_loop ?v"
    using q by (simp add: onmessage_def Let_def drain_def MAX_QUEUE_def supersede_def post_def)
  have ok: "queue_ok (onmessage m w)" using w by (simp add: worker_ok_def onmessage_ok)
  have "qw_boot (onmessage m w) = qw_boot w \<and> (\<exists>rs. qw_posted (onmessage m w) = qw_posted w @ rs \<and> list_all (Not \<circ> superseded_reply) rs \<and> Ready \<notin> set rs \<and>
      map rq_id (waiting (onmessage m w)) @ concat (map reply_ids rs) = [rq_id m])"
  proof (cases "refusal ?v m")
    case None
    then show ?thesis using q by (simp add: eq drain_loop.simps [of ?v] waiting_def)
  next
    case (Some e)
    let ?u = "post [Refused (rq_id m) e] (w\<lparr>qw_received := qw_received w @ [m], qw_running := True, qw_queue := [], qw_taken := qw_taken w @ [m]\<rparr>)"
    have "drain_loop ?v = ?u\<lparr>qw_running := False\<rparr>" using Some by (simp add: drain_loop.simps [of ?v] drain_loop.simps [of ?u])
    then show ?thesis using q by (simp add: eq waiting_def) (simp add: post_def)
  qed
  then obtain rs where rs: "qw_boot (onmessage m w) = qw_boot w" "qw_posted (onmessage m w) = qw_posted w @ rs" "list_all (Not \<circ> superseded_reply) rs" "Ready \<notin> set rs"
    "map rq_id (waiting (onmessage m w)) @ concat (map reply_ids rs) = [rq_id m]" by blast
  have "length (waiting (onmessage m w)) \<le> 1"
    using arg_cong [OF rs(5), of length] by simp
  then show "worker_ok (onmessage m w)" using w rs ok by (auto simp: worker_ok_def)
  show "qw_boot (onmessage m w) = qw_boot w" using rs by simp
  show "\<exists>rs. qw_posted (onmessage m w) = qw_posted w @ rs \<and> map rq_id (waiting (onmessage m w)) @ concat (map reply_ids rs) = [rq_id m]" using rs by blast
qed

lemma settled_worker:
  assumes w: "worker_ok w"
  shows "worker_ok (compiler_settled r w)" "qw_boot (compiler_settled r w) = qw_boot w"
    "\<exists>rs. qw_posted (compiler_settled r w) = qw_posted w @ rs \<and>
       map rq_id (waiting (compiler_settled r w)) @ concat (map reply_ids rs) = map rq_id (waiting w)"
proof -
  have ok: "queue_ok (compiler_settled r w)" using w by (simp add: worker_ok_def compiler_settled_ok)
  have "qw_boot (compiler_settled r w) = qw_boot w \<and> (\<exists>rs. qw_posted (compiler_settled r w) = qw_posted w @ rs \<and> list_all (Not \<circ> superseded_reply) rs \<and> Ready \<notin> set rs \<and>
      map rq_id (waiting (compiler_settled r w)) @ concat (map reply_ids rs) = map rq_id (waiting w))"
  proof (cases "qw_current w")
    case None
    then show ?thesis by (auto simp: compiler_settled_def)
  next
    case (Some m)
    then have q: "qw_queue w = []" using w by (simp add: worker_ok_def waiting_def)
    let ?r = "case r of Inr a \<Rightarrow> Answered (rq_id m) a | Inl e \<Rightarrow> Refused (rq_id m) (error_text e)"
    let ?u = "post [?r] (w\<lparr>qw_current := None\<rparr>)"
    have "compiler_settled r w = ?u\<lparr>qw_running := False\<rparr>" using Some q by (simp add: compiler_settled_def drain_loop.simps [of ?u])
    then show ?thesis using Some q by (cases r) (simp_all add: waiting_def post_def)
  qed
  then obtain rs where rs: "qw_boot (compiler_settled r w) = qw_boot w" "qw_posted (compiler_settled r w) = qw_posted w @ rs" "list_all (Not \<circ> superseded_reply) rs" "Ready \<notin> set rs"
    "map rq_id (waiting (compiler_settled r w)) @ concat (map reply_ids rs) = map rq_id (waiting w)" by blast
  have "length (waiting (compiler_settled r w)) \<le> 1"
    using arg_cong [OF rs(5), of length] w by (simp add: worker_ok_def)
  then show "worker_ok (compiler_settled r w)" using w rs ok by (auto simp: worker_ok_def)
  show "qw_boot (compiler_settled r w) = qw_boot w" using rs by simp
  show "\<exists>rs. qw_posted (compiler_settled r w) = qw_posted w @ rs \<and>
      map rq_id (waiting (compiler_settled r w)) @ concat (map reply_ids rs) = map rq_id (waiting w)" using rs by blast
qed

lemma backlog_at:
  "qw_posted w = qw_posted (pg_worker p i) @ rs \<Longrightarrow> pg_seen p i \<le> length (qw_posted (pg_worker p i)) \<Longrightarrow>
   backlog (p\<lparr>pg_client := c, pg_worker := (pg_worker p)(i := w)\<rparr>) i =
   map rq_id (waiting w) @ concat (map reply_ids (drop (pg_seen p i) (qw_posted (pg_worker p i)))) @ concat (map reply_ids rs)"
  by (simp add: backlog_def)

lemma backlog_other: "j \<noteq> i \<Longrightarrow> backlog (p\<lparr>pg_client := c, pg_worker := (pg_worker p)(i := w)\<rparr>) j = backlog p j"
  by (simp add: backlog_def)

lemma short_line:
  assumes "page_ok p" and "dc_worker (pg_client p) = Some i"
  shows "length (dc_outbox (pg_client p)) + length (backlog p i) \<le> 1"
proof -
  have "map fst (dc_outbox (pg_client p)) @ backlog p i = map fst (dc_pending (pg_client p))" "client_ok (pg_client p)"
    using assms by (simp_all add: page_ok_parts line_ok_def)
  then have "length (dc_outbox (pg_client p)) + length (backlog p i) = length (dc_pending (pg_client p))"
    by (metis length_append length_map)
  also have "\<dots> \<le> 1" using pending_of [OF \<open>client_ok (pg_client p)\<close>] by (auto split: option.splits)
  finally show ?thesis .
qed

lemma request_of_id [simp]: "rq_id (request_of m) = fst m"
  by (cases m rule: request_of.cases) simp_all

lemma receives_ok:
  assumes ok: "page_ok p"
  shows "page_ok (page_step Receives p)"
proof (cases "\<exists>i m ms. dc_worker (pg_client p) = Some i \<and> dc_outbox (pg_client p) = m # ms")
  case True
  then obtain i m ms where i: "dc_worker (pg_client p) = Some i" and m: "dc_outbox (pg_client p) = m # ms" by blast
  let ?w = "pg_worker p i" let ?c = "(pg_client p)\<lparr>dc_outbox := ms\<rparr>"
  have none: "ms = []" "backlog p i = []" using short_line [OF ok i] m by simp_all
  have w: "worker_ok ?w" "pg_seen p i \<le> length (qw_posted ?w)" and client: "client_ok (pg_client p)" and line: "line_ok p" and workers: "workers_ok p"
    using ok by (simp_all add: page_ok_parts workers_ok_def)
  have idle: "waiting ?w = []" and seen: "concat (map reply_ids (drop (pg_seen p i) (qw_posted ?w))) = []"
    using none(2) by (simp_all add: backlog_def)
  note taken = idle_onmessage [OF w(1) idle, of "request_of m"]
  obtain rs where rs: "qw_posted (onmessage (request_of m) ?w) = qw_posted ?w @ rs"
    "map rq_id (waiting (onmessage (request_of m) ?w)) @ concat (map reply_ids rs) = [fst m]" using taken(3) by auto
  let ?p = "p\<lparr>pg_client := ?c, pg_worker := (pg_worker p)(i := onmessage (request_of m) ?w)\<rparr>"
  have step: "page_step Receives p = ?p" using i m by simp
  have "backlog ?p i = [fst m]" using backlog_at [OF rs(1) w(2)] rs(2) seen by simp
  then have "line_ok ?p" using i m none line taken(2) by (simp add: line_ok_def)
  moreover have "i < dc_workers (pg_client p)" using client i by (simp add: client_ok_def client_core_def)
  then have "workers_ok ?p" using workers taken(1) rs(1) w(2) by (auto simp: workers_ok_def intro: trans_le_add1)
  moreover have "client_ok ?c" using client
    by (cases "dc_running (pg_client p)") (auto simp: client_ok_def client_core_def waits_ok_def posts_ok_def running_message_def in_order_of_call_def running_tickets_def split: option.splits)
  ultimately show ?thesis unfolding step by (simp add: page_ok_parts)
next
  case False
  then have "page_step Receives p = p" by (auto split: option.split list.split)
  with ok show ?thesis by simp
qed

lemma worker_changes:
  assumes ok: "page_ok p" and w: "worker_ok w" "qw_boot (pg_worker p i) = Booted \<longrightarrow> qw_boot w = Booted"
    and rs: "qw_posted w = qw_posted (pg_worker p i) @ rs" "map rq_id (waiting w) @ concat (map reply_ids rs) = map rq_id (waiting (pg_worker p i))"
    and fresh: "i \<ge> dc_workers (pg_client p) \<Longrightarrow> w = new_worker"
  shows "page_ok (p\<lparr>pg_worker := (pg_worker p)(i := w)\<rparr>)"
proof -
  let ?p = "p\<lparr>pg_worker := (pg_worker p)(i := w)\<rparr>"
  have parts: "client_ok (pg_client p)" "line_ok p" "workers_ok p" using ok by (simp_all add: page_ok_parts)
  have seen: "pg_seen p i \<le> length (qw_posted (pg_worker p i))" using parts by (simp add: workers_ok_def)
  have same: "backlog ?p i = backlog p i" if "dc_worker (pg_client p) = Some i"
  proof -
    have "length (backlog p i) \<le> 1" using short_line [OF ok that] by simp
    then have "waiting (pg_worker p i) = [] \<or> concat (map reply_ids (drop (pg_seen p i) (qw_posted (pg_worker p i)))) = []"
      by (cases "waiting (pg_worker p i)") (auto simp: backlog_def)
    then show ?thesis
    proof
      assume none: "waiting (pg_worker p i) = []"
      with rs(2) have "waiting w = []" "concat (map reply_ids rs) = []" by simp_all
      with none show ?thesis using backlog_at [OF rs(1) seen, of "pg_client p"] by (simp add: backlog_def)
    next
      assume none: "concat (map reply_ids (drop (pg_seen p i) (qw_posted (pg_worker p i)))) = []"
      then have "backlog ?p i = map rq_id (waiting w) @ concat (map reply_ids rs)" using rs(1) seen by (simp add: backlog_def)
      with rs(2) none show ?thesis by (simp add: backlog_def)
    qed
  qed
  have "line_ok ?p"
  proof (cases "dc_worker (pg_client p)")
    case None
    with parts(2) show ?thesis by (simp add: line_ok_def)
  next
    case (Some j)
    have "backlog ?p j = backlog p j" using same Some by (cases "j = i") (simp_all add: backlog_def)
    moreover have "qw_boot (pg_worker p j) = Booted \<longrightarrow> qw_boot (pg_worker ?p j) = Booted" using w(2) by simp
    ultimately show ?thesis using parts(2) Some unfolding line_ok_def by (simp del: fun_upd_apply)
  qed
  moreover have "workers_ok ?p" using parts(3) w(1) fresh rs(1) by (auto simp: workers_ok_def intro: trans_le_add1)
  ultimately show ?thesis using parts(1) by (simp add: page_ok_parts)
qed

lemma works_ok:
  assumes ok: "page_ok p"
  shows "page_ok (page_step (Works i r) p)"
proof -
  have w: "worker_ok (pg_worker p i)" and new: "i \<ge> dc_workers (pg_client p) \<Longrightarrow> pg_worker p i = new_worker"
    using ok by (simp_all add: page_ok_parts workers_ok_def)
  note settled = settled_worker [OF w, of r]
  obtain rs where "qw_posted (compiler_settled r (pg_worker p i)) = qw_posted (pg_worker p i) @ rs"
    "map rq_id (waiting (compiler_settled r (pg_worker p i))) @ concat (map reply_ids rs) = map rq_id (waiting (pg_worker p i))" using settled(3) by blast
  moreover have "compiler_settled r new_worker = new_worker" by (simp add: compiler_settled_def new_worker_def)
  ultimately show ?thesis using worker_changes [OF ok settled(1), of i rs] settled(2) new by auto
qed

lemma boots_ok:
  assumes ok: "page_ok p"
  shows "page_ok (page_step (Boots i r) p)"
proof (cases "i < dc_workers (pg_client p) \<and> qw_boot (pg_worker p i) = Booting")
  case True
  let ?w = "pg_worker p i" let ?r = "case r of Inr u \<Rightarrow> Ready | Inl t \<Rightarrow> BootError t"
  have w: "worker_ok ?w" using ok by (simp add: page_ok_parts workers_ok_def)
  then have "Ready \<notin> set (qw_posted ?w)" using True by (auto simp: worker_ok_def)
  then have "worker_ok (boot_ends r ?w)"
    using w True boot_ends_ok [of ?w r] by (cases r) (auto simp: worker_ok_def boot_ends_def post_def waiting_def)
  moreover have "qw_posted (boot_ends r ?w) = qw_posted ?w @ [?r]" "waiting (boot_ends r ?w) = waiting ?w"
    using True by (cases r; simp add: boot_ends_def post_def waiting_def)+
  ultimately show ?thesis using worker_changes [OF ok, of "boot_ends r ?w" i "[?r]"] True by (cases r) simp_all
next
  case False
  then have "boot_ends r (pg_worker p i) = pg_worker p i \<or> \<not> i < dc_workers (pg_client p)" by (auto simp: boot_ends_def)
  with ok show ?thesis by auto
qed

text \<open>A reply that arrives is the one the client waits for; then nothing else is on its way.\<close>

lemma reply_arrives:
  assumes ok: "page_ok p" and i: "dc_worker (pg_client p) = Some i" and left: "pg_seen p i < length (qw_posted (pg_worker p i))"
    and r: "reply_ids (qw_posted (pg_worker p i) ! pg_seen p i) = [n]"
  shows "page_ok (p\<lparr>pg_seen := (pg_seen p)(i := pg_seen p i + 1), pg_client := worker_reply i n a (pg_client p)\<rparr>)"
proof -
  let ?c = "pg_client p" let ?p = "p\<lparr>pg_seen := (pg_seen p)(i := pg_seen p i + 1)\<rparr>"
  have parts: "client_ok ?c" "line_ok p" "workers_ok p" using ok by (simp_all add: page_ok_parts)
  have drop: "drop (pg_seen p i) (qw_posted (pg_worker p i)) = qw_posted (pg_worker p i) ! pg_seen p i # drop (pg_seen p i + 1) (qw_posted (pg_worker p i))"
    using left by (simp add: Cons_nth_drop_Suc)
  then have b: "backlog p i = map rq_id (waiting (pg_worker p i)) @ n # concat (map reply_ids (drop (pg_seen p i + 1) (qw_posted (pg_worker p i))))"
    using r by (simp add: backlog_def)
  with short_line [OF ok i] have none: "dc_outbox ?c = []" "backlog p i = [n]" "backlog ?p i = []" by (auto simp: backlog_def)
  then have "map fst (dc_pending ?c) = [n]" using parts(2) i by (simp add: line_ok_def)
  then obtain q k where run: "dc_running ?c = Some (q, k, Some n)" and pending: "dc_pending ?c = [(n, tk_number q)]"
    using pending_of [OF parts(1)] by (auto split: option.splits)
  let ?d = "?c\<lparr>dc_pending := mdelete (dc_pending ?c) n, dc_running := None, dc_log := Replied i n k (case a of Ok b \<Rightarrow> True | NotOk e \<Rightarrow> False) # dc_log ?c\<rparr>"
  have eq: "worker_reply i n a ?c = proceed (continue_operation q k a ?d)" using i run pending by (simp add: worker_reply_def mget_Cons)
  note core = replied_core [OF _ run i, of "dc_queue ?c" a]
  have d: "client_core (continue_operation q k a ?d)" "in_order_of_call (continue_operation q k a ?d) (dc_queue ?c)"
    using core parts(1) by (simp_all add: client_ok_def)
  have live: "dc_ready ?c = ReadyDone" using parts(1) run by (simp add: client_ok_def client_core_def waits_ok_def)
  have "boxes (continue_operation q k a ?d)" "dc_worker (continue_operation q k a ?d) = dc_worker ?c"
    "dc_workers (continue_operation q k a ?d) = dc_workers ?c" "dc_ready (continue_operation q k a ?d) = dc_ready ?c"
    using none(1) pending live
    by (auto simp: continue_operation_def settle_def raw_def Let_def start_compiler_def send_call_def boxes_def moved_def mdelete_def mset_fresh
        split: operation.split raw_call.split response.split)
  then have "boxes (worker_reply i n a ?c)" "moved ?c (worker_reply i n a ?c)"
    using advance_boxes [OF d] by (auto simp: eq moved_def)
  moreover have "workers_ok ?p" using parts(3) left parts(1) i by (auto simp: workers_ok_def client_ok_def client_core_def)
  moreover have "at_rest ?p" using none(3) parts(2) i by (simp add: at_rest_def line_ok_def)
  ultimately have "page_ok (?p\<lparr>pg_client := worker_reply i n a ?c\<rparr>)"
    using page_moved [of ?p "worker_reply i n a ?c"] worker_reply_ok [OF parts(1)] by simp
  then show ?thesis by simp
qed

lemma says_nothing:
  assumes ok: "page_ok p" and i: "dc_worker (pg_client p) = Some i" and left: "pg_seen p i < length (qw_posted (pg_worker p i))"
    and r: "reply_ids (qw_posted (pg_worker p i) ! pg_seen p i) = []"
  shows "page_ok (p\<lparr>pg_seen := (pg_seen p)(i := pg_seen p i + 1)\<rparr>)"
proof -
  let ?p = "p\<lparr>pg_seen := (pg_seen p)(i := pg_seen p i + 1)\<rparr>"
  have parts: "client_ok (pg_client p)" "line_ok p" "workers_ok p" using ok by (simp_all add: page_ok_parts)
  have "drop (pg_seen p i) (qw_posted (pg_worker p i)) = qw_posted (pg_worker p i) ! pg_seen p i # drop (pg_seen p i + 1) (qw_posted (pg_worker p i))"
    using left by (simp add: Cons_nth_drop_Suc)
  then have "backlog ?p i = backlog p i" using r by (simp add: backlog_def)
  then have "line_ok ?p" using parts(2) i by (simp add: line_ok_def)
  moreover have "workers_ok ?p" using parts(3) left parts(1) i by (auto simp: workers_ok_def client_ok_def client_core_def)
  ultimately show ?thesis using parts(1) by (simp add: page_ok_parts)
qed

lemma ready_arrives:
  assumes ok: "page_ok p" and i: "dc_worker (pg_client p) = Some i" and boot: "qw_boot (pg_worker p i) = Booted"
  shows "page_ok (p\<lparr>pg_client := worker_ready i (pg_client p)\<rparr>)"
proof (cases "dc_ready (pg_client p) = ReadyPending")
  case True
  let ?c = "pg_client p"
  have client: "client_ok ?c" using ok by (simp add: page_ok_parts)
  then have none: "dc_pending ?c = []" "\<forall>q k n. dc_running ?c \<noteq> Some (q, k, Some n)"
    using True by (auto simp: client_ok_def client_core_def waits_ok_def posts_ok_def running_message_def split: option.splits)
  note rest = resting [OF ok none(1)]
  have out: "dc_outbox ?c = []" using rest(2) none by (simp add: boxes_def)
  have rest2: "at_rest (p\<lparr>pg_client := ?c\<lparr>dc_ready := ReadyDone\<rparr>\<rparr>)" "workers_ok (p\<lparr>pg_client := ?c\<lparr>dc_ready := ReadyDone\<rparr>\<rparr>)"
    using rest(1,3) boot i by (auto simp: at_rest_def workers_ok_def backlog_def)
  have "boxes (worker_ready i ?c)" "moved (?c\<lparr>dc_ready := ReadyDone\<rparr>) (worker_ready i ?c)"
    using True i none out by (auto simp: worker_ready_def send_call_def Let_def boxes_def moved_def mset_fresh split: option.split)
  then show ?thesis using page_moved [OF rest2(2,1) worker_ready_ok [OF client, of i]] by simp
next
  case False
  then have "worker_ready i (pg_client p) = pg_client p" by (simp add: worker_ready_def)
  with ok show ?thesis by simp
qed

lemma delivers_ok:
  assumes ok: "page_ok p"
  shows "page_ok (page_step Delivers p)"
proof (cases "\<exists>i. dc_worker (pg_client p) = Some i \<and> pg_seen p i < length (qw_posted (pg_worker p i))")
  case True
  then obtain i where i: "dc_worker (pg_client p) = Some i" and left: "pg_seen p i < length (qw_posted (pg_worker p i))" by blast
  let ?r = "qw_posted (pg_worker p i) ! pg_seen p i" let ?p = "p\<lparr>pg_seen := (pg_seen p)(i := pg_seen p i + 1)\<rparr>"
  have step: "page_step Delivers p = ?p\<lparr>pg_client := worker_says i ?r (pg_client p)\<rparr>"
    using i left by simp
  note reply = reply_arrives [OF ok i left]
  have quiet: "page_ok ?p" if "reply_ids ?r = []" by (rule says_nothing [OF ok i left that])
  have "page_ok (?p\<lparr>pg_client := worker_says i ?r (pg_client p)\<rparr>)"
  proof (cases ?r)
    case (Status t)
    then have "reply_ids ?r = []" by simp
    then have "page_ok ?p" by (rule quiet)
    with Status show ?thesis by simp
  next
    case Ready
    then have "Ready \<in> set (qw_posted (pg_worker p i))" using left nth_mem by metis
    then have "qw_boot (pg_worker p i) = Booted" using ok by (auto simp: page_ok_parts workers_ok_def worker_ok_def)
    moreover have "reply_ids ?r = []" using Ready by simp
    then have "page_ok ?p" by (rule quiet)
    ultimately show ?thesis using ready_arrives [of ?p i] Ready i by simp
  next
    case (BootError t)
    then have "reply_ids ?r = []" by simp
    then have "page_ok ?p" by (rule quiet)
    with BootError show ?thesis using closed_moves [of ?p t] i by (simp add: worker_boot_error_def)
  qed (use reply in simp_all)
  then show ?thesis by (simp only: step)
next
  case False
  then have "page_step Delivers p = p" by (auto split: option.split)
  with ok show ?thesis by simp
qed

lemma doc_page_step_ok: "page_ok p \<Longrightarrow> page_ok (page_step e p)"
proof (cases e)
  case (Fails said)
  assume ok: "page_ok p"
  show ?thesis
  proof (cases "dc_worker (pg_client p)")
    case (Some i)
    then have "page_step e p = p\<lparr>pg_client := close_client (if said = [] then js ''the compiler worker failed to start'' else said) (pg_client p)\<rparr>"
      using Fails by (simp add: worker_error_def)
    then show ?thesis using closed_moves [OF ok] by simp
  qed (use ok Fails in simp)
next
  case (Closed reason)
  assume "page_ok p"
  then show ?thesis using closed_moves Closed by simp
qed (simp_all only: called_ok receives_ok works_ok boots_ok delivers_ok)

interpretation dp: machine page_step page_ok
  by unfold_locales (rule doc_page_step_ok)

abbreviation page_after :: "'a page_event list \<Rightarrow> 'a doc_page" where
  "page_after es \<equiv> run_events page_step es new_page"

lemma page_after_ok: "page_ok (page_after es)"
proof (rule dp.inv_run)
  have "worker_ok new_worker" by simp
  then show "page_ok (new_page :: 'a doc_page)" using new_client_ok
    by (simp add: page_ok_parts new_page_def line_ok_def workers_ok_def) (simp add: new_client_def boxes_def)
qed

text \<open>C13. On a documentation page every request reaches the compiler: at most one request is on its way, at the worker or on its way back; a message that is on its way finds
  the compiler loaded and the worker without other requests, so that none is refused because the compiler still loads or the queue is full and none is superseded; and
  a reply on its way back is one the client still waits for.
\<close>

theorem page_requests_reach_compiler:
  "case dc_worker (pg_client (page_after es)) of
     None \<Rightarrow> dc_outbox (pg_client (page_after es)) = [] \<and> dc_pending (pg_client (page_after es)) = []
   | Some i \<Rightarrow>
      length (dc_outbox (pg_client (page_after es))) + length (backlog (page_after es) i) \<le> 1
      \<and> map fst (dc_outbox (pg_client (page_after es))) @ backlog (page_after es) i = map fst (dc_pending (pg_client (page_after es)))
      \<and> (case dc_outbox (pg_client (page_after es)) of [] \<Rightarrow> True
         | m # ms \<Rightarrow> qw_boot (pg_worker (page_after es) i) = Booted \<and> waiting (pg_worker (page_after es) i) = [])
      \<and> list_all (Not \<circ> superseded_reply) (qw_posted (pg_worker (page_after es) i))"
proof -
  let ?p = "page_after es" let ?c = "pg_client ?p"
  note ok = page_after_ok [of es]
  then have parts: "client_ok ?c" "line_ok ?p" "workers_ok ?p" by (simp_all add: page_ok_parts)
  show ?thesis
  proof (cases "dc_worker ?c")
    case None
    then have "dc_ready ?c = NotStarted" using parts(1) by (simp add: client_ok_def client_core_def)
    then have "dc_pending ?c = []" using parts(1) by (auto simp: client_ok_def client_core_def waits_ok_def split: option.splits)
    with None parts(2) show ?thesis by (simp add: line_ok_def boxes_def)
  next
    case (Some i)
    have short: "length (dc_outbox ?c) + length (backlog ?p i) \<le> 1" by (rule short_line [OF ok Some])
    have line: "map fst (dc_outbox ?c) @ backlog ?p i = map fst (dc_pending ?c)" using parts(2) Some by (simp add: line_ok_def)
    have calm: "qw_boot (pg_worker ?p i) = Booted \<and> waiting (pg_worker ?p i) = []" if "dc_outbox ?c \<noteq> []"
    proof -
      from that line have "dc_pending ?c \<noteq> []" by auto
      then have "dc_ready ?c = ReadyDone" using parts(1) by (auto simp: client_ok_def client_core_def waits_ok_def split: option.splits)
      moreover have "backlog ?p i = []" using that short by (cases "dc_outbox ?c") auto
      ultimately show ?thesis using parts(2) Some by (simp add: line_ok_def backlog_def)
    qed
    have "list_all (Not \<circ> superseded_reply) (qw_posted (pg_worker ?p i))" using parts(3) by (simp add: workers_ok_def worker_ok_def)
    with Some short line calm show ?thesis by (simp split: list.split)
  qed
qed

end
