(* ===== verification/Diagnostics.thy ===== *)
theory Diagnostics
  imports Text
begin

text \<open>
  Diagnostics on the pages, \<^verbatim>\<open>src/editors/playground/src/app.js\<close> and \<^verbatim>\<open>doc-app.js\<close>: their texts, the summary, the ranges they mark in the editor, and the
  separators that size the panes they are shown in.
\<close>

section \<open>Diagnostics\<close>

text \<open>A diagnostic of the compiler; a text that is missing or empty, and a length of zero, count as missing.\<close>

record diagnosis =
  dg_line :: int
  dg_col :: int
  dg_severity :: string  \<comment> \<open>empty where the field is missing\<close>
  dg_code :: jstr
  dg_msg :: jstr
  dg_help :: jstr
  dg_offset :: "int option"
  dg_length :: int

definition toCmPos :: "int \<Rightarrow> int" where
  "toCmPos nuppOffset = nuppOffset - 1"

definition toNuppOffset :: "int \<Rightarrow> int" where
  "toNuppOffset cmPos = cmPos + 1"

text \<open>\<^verbatim>\<open>Math.max(0, Math.min(docLength, from))\<close>, and the end of a range that starts there.\<close>

definition range_from :: "int \<Rightarrow> int \<Rightarrow> int" where
  "range_from docLength offset = max 0 (min docLength (toCmPos offset))"

definition range_to :: "int \<Rightarrow> int \<Rightarrow> int \<Rightarrow> int" where
  "range_to docLength from len = max from (min docLength (from + len))"

record marker =
  mk_from :: int
  mk_to :: int
  mk_severity :: string
  mk_message :: jstr
  mk_source :: jstr

text \<open>The severity of a mark: the playground takes what it does not know as information, the documentation page as an error.\<close>

definition severityToLint :: "string \<Rightarrow> string" where
  "severityToLint severity = (if severity = ''error'' then ''error'' else if severity = ''warning'' then ''warning'' else ''info'')"

definition doc_severityToLint :: "string \<Rightarrow> string" where
  "doc_severityToLint severity = (if severity = ''warning'' then ''warning'' else if severity = ''info'' then ''info'' else ''error'')"

definition marker_of :: "(string \<Rightarrow> string) \<Rightarrow> int \<Rightarrow> int \<Rightarrow> diagnosis \<Rightarrow> marker" where
  "marker_of toLint docLength offset d =
    (let from = range_from docLength offset in
     \<lparr>mk_from = from, mk_to = range_to docLength from (max 1 (if dg_length d = 0 then 1 else dg_length d)), mk_severity = toLint (dg_severity d),
      mk_message = (if dg_help d = [] then dg_msg d else dg_msg d @ [10] @ dg_help d), mk_source = dg_code d\<rparr>)"

definition markers_of :: "(string \<Rightarrow> string) \<Rightarrow> int \<Rightarrow> diagnosis list \<Rightarrow> marker list" where
  "markers_of toLint docLength ds =
    concat (map (\<lambda>d. case dg_offset d of None \<Rightarrow> [] | Some offset \<Rightarrow> [marker_of toLint docLength offset d]) ds)"

definition IGNORED_DOC_DIAGNOSTICS :: "jstr list" where
  "IGNORED_DOC_DIAGNOSTICS = [js ''NUPP2507'']"

definition visibleDiagnostics :: "diagnosis list \<Rightarrow> diagnosis list" where
  "visibleDiagnostics ds = filter (\<lambda>d. dg_code d \<notin> set IGNORED_DOC_DIAGNOSTICS) ds"

text \<open>The marks of the playground and of a documentation snippet.\<close>

definition play_markers :: "int \<Rightarrow> diagnosis list \<Rightarrow> marker list" where
  "play_markers docLength ds = markers_of severityToLint docLength ds"

definition doc_markers :: "int \<Rightarrow> diagnosis list \<Rightarrow> marker list" where
  "doc_markers docLength ds = markers_of doc_severityToLint docLength (visibleDiagnostics ds)"

text \<open>The selection \<^verbatim>\<open>jumpTo\<close> makes, and the range a hover answers for.\<close>

definition jumpTo :: "int \<Rightarrow> diagnosis \<Rightarrow> (int \<times> int) option" where
  "jumpTo docLength d =
    (case dg_offset d of None \<Rightarrow> None
     | Some offset \<Rightarrow> let from = range_from docLength offset in Some (from, range_to docLength from (dg_length d)))"

definition hover_range :: "int \<Rightarrow> int \<Rightarrow> int \<Rightarrow> int \<times> int" where
  "hover_range docLength offset len = (let from = range_from docLength offset in (from, range_to docLength from len))"

section \<open>Texts\<close>

definition decimal_int :: "int \<Rightarrow> jstr" where
  "decimal_int n = (if n < 0 then 45 # decimal (nat (- n)) else decimal (nat n))"

definition severity_text :: "diagnosis \<Rightarrow> jstr" where
  "severity_text d = (if dg_severity d = [] then js ''error'' else js (dg_severity d))"

definition diagnosticText :: "diagnosis \<Rightarrow> jstr" where
  "diagnosticText d =
    js ''-- '' @ decimal_int (dg_line d) @ js '':'' @ decimal_int (dg_col d) @ js '': '' @ severity_text d @ js '': '' @
    (if dg_code d = [] then [] else dg_code d @ js '': '') @ dg_msg d @
    (if dg_help d = [] then [] else [10] @ js ''--   help: '' @ dg_help d)"

definition doc_diagnosticText :: "diagnosis \<Rightarrow> jstr" where
  "doc_diagnosticText d =
    decimal_int (dg_line d) @ js '':'' @ decimal_int (dg_col d) @ js '': '' @ severity_text d @ js '': '' @
    (if dg_code d = [] then [] else dg_code d @ js '': '') @ dg_msg d @
    (if dg_help d = [] then [] else [10] @ js ''  help: '' @ dg_help d)"

definition plural :: "nat \<Rightarrow> string \<Rightarrow> jstr" where
  "plural n what = decimal n @ js '' '' @ js what @ (if n = 1 then [] else js ''s'')"

definition severity_count :: "string \<Rightarrow> diagnosis list \<Rightarrow> nat" where
  "severity_count severity ds = length (filter (\<lambda>d. dg_severity d = severity) ds)"

definition summarize :: "diagnosis list \<Rightarrow> nat \<times> nat \<times> jstr" where
  "summarize ds =
    (let errors = severity_count ''error'' ds; warnings = severity_count ''warning'' ds in
     (errors, warnings, join (js '', '') ((if errors = 0 then [] else [plural errors ''error'']) @ (if warnings = 0 then [] else [plural warnings ''warning'']))))"

text \<open>What \<^verbatim>\<open>setOutputSummary\<close> shows, and whether as an error.\<close>

definition output_summary :: "diagnosis list \<Rightarrow> jstr \<Rightarrow> jstr \<times> bool" where
  "output_summary ds extra =
    (case summarize ds of (errors, warnings, t) \<Rightarrow> (if t \<noteq> [] then t else if extra \<noteq> [] then extra else js ''clean'', errors > 0))"

section \<open>Separators\<close>

datatype axis = XAxis | YAxis

text \<open>\<^verbatim>\<open>PANE_MIN\<close>: the least size of the pane a separator sizes and of what is left of its neighbour.\<close>

fun pane_min :: "axis \<Rightarrow> 'n :: linordered_idom" where
  "pane_min XAxis = 200"
| "pane_min YAxis = 88"

fun rest_min :: "axis \<Rightarrow> 'n :: linordered_idom" where
  "rest_min XAxis = 280"
| "rest_min YAxis = 120"

definition clamp :: "'n :: linordered_idom \<Rightarrow> axis \<Rightarrow> 'n \<Rightarrow> 'n" where
  "clamp box ax px = (let available = box - rest_min ax in max (pane_min ax) (min px (max (pane_min ax) available)))"

text \<open>The state of one separator: the size it keeps, and the size its pane has in its style. \<open>sizable\<close> says that the pane shows something.\<close>

record 'n resizer =
  rz_size :: "'n option"
  rz_flex :: "'n option"

definition apply_size :: "'n :: linordered_idom \<Rightarrow> axis \<Rightarrow> bool \<Rightarrow> 'n resizer \<Rightarrow> 'n resizer" where
  "apply_size box ax sizable r =
    (case rz_size r of
       None \<Rightarrow> r\<lparr>rz_flex := None\<rparr>
     | Some px \<Rightarrow> if \<not> sizable then r\<lparr>rz_flex := None\<rparr> else r\<lparr>rz_size := Some (clamp box ax px), rz_flex := Some (clamp box ax px)\<rparr>)"

definition setSize :: "'n :: linordered_idom \<Rightarrow> axis \<Rightarrow> bool \<Rightarrow> 'n \<Rightarrow> 'n resizer \<Rightarrow> 'n resizer" where
  "setSize box ax sizable px r = apply_size box ax sizable (r\<lparr>rz_size := Some (clamp box ax px)\<rparr>)"

datatype key = ArrowUp | ArrowDown | ArrowLeft | ArrowRight

fun KEY_AXIS :: "key \<Rightarrow> axis" where
  "KEY_AXIS ArrowUp = YAxis" | "KEY_AXIS ArrowDown = YAxis" | "KEY_AXIS ArrowLeft = XAxis" | "KEY_AXIS ArrowRight = XAxis"

fun KEY_SIGN :: "key \<Rightarrow> 'n :: linordered_idom" where
  "KEY_SIGN ArrowUp = 1" | "KEY_SIGN ArrowLeft = 1" | "KEY_SIGN ArrowDown = - 1" | "KEY_SIGN ArrowRight = - 1"

text \<open>
  What happens to a separator, in a box of a given size and direction: a drag from a start to a position with the size the pane had, a key with the size the pane has,
  a double click, and a change of the window or of the panel.
\<close>

datatype 'n resize_event = Drag 'n 'n 'n | Key key bool 'n | DoubleClick | Reapply

fun resize :: "'n :: linordered_idom \<Rightarrow> axis \<Rightarrow> bool \<Rightarrow> 'n resize_event \<Rightarrow> 'n resizer \<Rightarrow> 'n resizer" where
  "resize box ax sizable (Drag startSize start position) r = setSize box ax sizable (startSize - (position - start)) r"
| "resize box ax sizable (Key k shift px) r =
    (if KEY_AXIS k \<noteq> ax then r else setSize box ax sizable (px + (if shift then 48 else 16) * KEY_SIGN k) r)"
| "resize box ax sizable DoubleClick r = apply_size box ax sizable (r\<lparr>rz_size := None\<rparr>)"
| "resize box ax sizable Reapply r = apply_size box ax sizable r"

section \<open>Properties\<close>

lemma range_inside: "0 \<le> docLength \<Longrightarrow> 0 \<le> range_from docLength offset \<and> range_from docLength offset \<le> range_to docLength (range_from docLength offset) len \<and>
    range_to docLength (range_from docLength offset) len \<le> docLength"
  by (auto simp: range_from_def range_to_def)

text \<open>Whatever offsets and lengths the compiler gives, even for a text that has changed since, every mark lies in the editor's text with its start not behind its end, and a mark that
  starts before the end of the text covers at least one character.
\<close>

theorem marks_inside_text:
  assumes "0 \<le> docLength" and "mk \<in> set (play_markers docLength ds) \<union> set (doc_markers docLength ds)"
  shows "0 \<le> mk_from mk \<and> mk_from mk \<le> mk_to mk \<and> mk_to mk \<le> docLength \<and> (mk_from mk = docLength \<or> mk_from mk < mk_to mk)"
proof -
  from assms(2) obtain toLint offset d where mk: "mk = marker_of toLint docLength offset d"
    by (auto simp: play_markers_def doc_markers_def markers_of_def split: option.splits)
  then show ?thesis using assms(1) by (auto simp: marker_of_def Let_def range_from_def range_to_def)
qed

definition far_diagnosis :: diagnosis where
  "far_diagnosis = \<lparr>dg_line = 1, dg_col = 9, dg_severity = ''error'', dg_code = [], dg_msg = [], dg_help = [], dg_offset = Some 9, dg_length = 4\<rparr>"

theorem marks_inside_text_witness:
  "marker_of severityToLint 5 9 far_diagnosis \<in> set (play_markers 5 [far_diagnosis]) \<and> mk_to (marker_of severityToLint 5 9 far_diagnosis) \<le> 5"
proof -
  have mem: "marker_of severityToLint 5 9 far_diagnosis \<in> set (play_markers 5 [far_diagnosis])"
    by (simp add: play_markers_def markers_of_def far_diagnosis_def)
  then show ?thesis using marks_inside_text [of 5 "marker_of severityToLint 5 9 far_diagnosis" "[far_diagnosis]"] by simp
qed

lemma clamp_again: "clamp box ax (clamp box ax px) = clamp box ax px"
  by (simp add: clamp_def Let_def)

text \<open>A separator never drags a pane out of existence: after every drag and key, and after a change of the window is applied, a pane with a size of its own has at least its
  least size, and wherever the box has room for both, its neighbour keeps its least size too. A double click gives the size back to the style sheet.
\<close>

theorem panes_keep_their_least_size:
  fixes r :: "'n :: linordered_idom resizer"
  shows "case rz_flex (apply_size box ax sizable r) of
      None \<Rightarrow> True
    | Some px \<Rightarrow> pane_min ax \<le> px \<and> (if pane_min ax + rest_min ax \<le> box then rest_min ax \<le> box - px else px = pane_min ax)"
  by (cases ax) (auto simp: apply_size_def clamp_def Let_def split: option.split)

lemma resized: "resize box ax sizable e r = r \<or> (\<exists>q. resize box ax sizable e r = apply_size box ax sizable q)"
  by (cases e) (auto simp: setSize_def)

lemma clean_summary: "summarize ds = (0, 0, []) \<longleftrightarrow> (\<forall>d \<in> set ds. dg_severity d \<noteq> ''error'' \<and> dg_severity d \<noteq> ''warning'')"
  by (auto simp: summarize_def severity_count_def Let_def filter_empty_conv)

end
