(* ===== verification/Percent.thy ===== *)
theory Percent
  imports Text Codec
begin

text \<open>
  Percent encoding, the language's \<^verbatim>\<open>encodeURIComponent\<close> and \<^verbatim>\<open>decodeURIComponent\<close>, which the links of the playground and
  the development servers use.
\<close>

section \<open>Percent encoding\<close>

definition unreserved :: "nat \<Rightarrow> bool" where
  "unreserved u \<longleftrightarrow> 65 \<le> u \<and> u \<le> 90 \<or> 97 \<le> u \<and> u \<le> 122 \<or> 48 \<le> u \<and> u \<le> 57 \<or> u \<in> set (js ''-_.!~*'' @ [39, 40, 41])"

definition hex_upper :: "nat \<Rightarrow> nat" where
  "hex_upper n = (if n < 10 then 48 + n else 55 + n)"

definition percent :: "nat \<Rightarrow> jstr" where
  "percent b = [37, hex_upper (b div 16), hex_upper (b mod 16)]"

definition encode_point :: "nat \<Rightarrow> jstr" where
  "encode_point c = (if unreserved c then [c] else concat (map percent (utf8_cp c)))"

definition encodeURIComponent :: "jstr \<Rightarrow> jstr result" where
  "encodeURIComponent s =
    (if isWellFormed s then Inr (concat (map encode_point (code_points s))) else throw ''URI malformed'')"

fun hex_value :: "nat \<Rightarrow> nat option" where
  "hex_value u = (if 48 \<le> u \<and> u \<le> 57 then Some (u - 48) else if 65 \<le> u \<and> u \<le> 70 then Some (u - 55)
     else if 97 \<le> u \<and> u \<le> 102 then Some (u - 87) else None)"

text \<open>An escape \<^verbatim>\<open>%XX\<close> at the front, and \<open>n\<close> of them in a row.\<close>

fun octet :: "jstr \<Rightarrow> (nat \<times> jstr) option" where
  "octet (p # h # l # r) =
    (case (hex_value h, hex_value l) of (Some a, Some b) \<Rightarrow> if p = 37 then Some (16 * a + b, r) else None | _ \<Rightarrow> None)"
| "octet _ = None"

fun octets :: "nat \<Rightarrow> jstr \<Rightarrow> (nat list \<times> jstr) option" where
  "octets 0 s = Some ([], s)"
| "octets (Suc n) s =
    (case octet s of None \<Rightarrow> None | Some (b, r) \<Rightarrow> map_option (\<lambda>(bs, r'). (b # bs, r')) (octets n r))"

text \<open>How many octets follow a first one, by its leading ones; a first octet that cannot be one is refused with the rest.\<close>

definition following :: "nat \<Rightarrow> nat" where
  "following b = (if within 0xC0 0xDF b then 1 else if within 0xE0 0xEF b then 2 else if within 0xF0 0xF7 b then 3 else 0)"

lemma octet_length: "octet s = Some (b, r) \<Longrightarrow> length r < length s"
  by (cases s rule: octet.cases) (auto split: option.splits if_splits)

lemma octets_length: "octets n s = Some (bs, r) \<Longrightarrow> length r \<le> length s"
proof (induction n arbitrary: s bs r)
  case (Suc n)
  then obtain b r1 bs1 where one: "octet s = Some (b, r1)" "octets n r1 = Some (bs1, r)"
    by (auto split: option.splits)
  from octet_length [OF one(1)] Suc.IH [OF one(2)] show ?case by linarith
qed simp

function decode_uri :: "jstr \<Rightarrow> jstr option" where
  "decode_uri [] = Some []"
| "decode_uri (u # us) =
    (if u \<noteq> 37 then map_option ((#) u) (decode_uri us)
     else case octet (u # us) of None \<Rightarrow> None
     | Some (b, r) \<Rightarrow>
        (case octets (following b) r of None \<Rightarrow> None
         | Some (bs, r') \<Rightarrow>
            (case utf8_decode (b # bs) of
               Some [c] \<Rightarrow> map_option ((@) (units c)) (decode_uri r')
             | _ \<Rightarrow> None)))"
  by pat_completeness auto

termination
  by (relation "measure length")
    (use octet_length octets_length in \<open>auto simp del: octet.simps, fastforce\<close>)

declare decode_uri.simps(2) [simp del]

definition decodeURIComponent :: "jstr \<Rightarrow> jstr result" where
  "decodeURIComponent s = (case decode_uri s of None \<Rightarrow> throw ''URI malformed'' | Some t \<Rightarrow> Inr t)"

section \<open>Decoding what was encoded\<close>

lemma hex_value_upper: "n < 16 \<Longrightarrow> hex_value (hex_upper n) = Some n"
  by (auto simp: hex_upper_def)

lemma octet_percent: "b < 256 \<Longrightarrow> octet (percent b @ r) = Some (b, r)"
  by (simp add: percent_def hex_value_upper div_less_dividend less_mult_imp_div_less del: hex_value.simps)

lemma octets_percent:
  "\<forall>b \<in> set bs. b < 256 \<Longrightarrow> octets (length bs) (concat (map percent bs) @ r) = Some (bs, r)"
  by (induction bs) (auto simp: octet_percent)

lemma utf8_cp_first:
  assumes "c < 0x110000"
  shows "utf8_cp c \<noteq> [] \<and> following (hd (utf8_cp c)) = length (tl (utf8_cp c))"
proof -
  have "c div 64 < 32" if "c < 0x800" using that by auto
  moreover have "c div 4096 < 16" if "c < 0x10000" using that by auto
  moreover have "c div 262144 < 5" using assms by auto
  ultimately show ?thesis by (auto simp: utf8_cp_def following_def within_def)
qed

lemma decode_encode_point:
  assumes c: "scalar_value c"
  shows "decode_uri (encode_point c @ s) = map_option ((@) (units c)) (decode_uri s)"
proof (cases "unreserved c")
  case True
  then have "c < 128" "c \<noteq> 37" by (auto simp: unreserved_def js_def)
  moreover have "(@) [c] = (#) c" by (simp add: fun_eq_iff)
  ultimately show ?thesis using True by (simp add: encode_point_def units_def decode_uri.simps(2) del: octet.simps)
next
  case False
  from c have bound: "c < 0x110000" by (simp add: scalar_value_def)
  obtain b bs where cp: "utf8_cp c = b # bs" "following b = length bs"
    using utf8_cp_first [OF bound] by (cases "utf8_cp c") auto
  have small: "\<forall>x \<in> set (b # bs). x < 256" using utf8_cp_bytes [OF bound] cp by simp
  have whole: "utf8_decode (b # bs) = Some [c]"
    using utf8_decode_cp [OF c, of "[]"] by (simp add: cp(1) del: utf8_decode.simps(2))
  obtain h l where p: "percent b = 37 # [h, l]" by (simp add: percent_def)
  have o: "octet (37 # h # l # concat (map percent bs) @ s) = Some (b, concat (map percent bs) @ s)"
    using octet_percent [of b "concat (map percent bs) @ s"] small by (simp add: p del: octet.simps)
  have os: "octets (following b) (concat (map percent bs) @ s) = Some (bs, s)"
    using octets_percent [of bs s] small cp by simp
  have "encode_point c @ s = 37 # h # l # concat (map percent bs) @ s"
    using False by (simp add: encode_point_def cp p)
  then show ?thesis by (simp add: decode_uri.simps(2) o os whole del: octet.simps utf8_decode.simps)
qed

lemma decode_encode_points:
  "\<forall>c \<in> set cs. scalar_value c \<Longrightarrow> decode_uri (concat (map encode_point cs)) = Some (concat (map units cs))"
  by (induction cs) (auto simp: decode_encode_point)

lemma decode_encode_uri:
  assumes "encodeURIComponent s = Inr e" and "\<forall>u \<in> set s. u < 65536"
  shows "decodeURIComponent e = Inr s"
proof -
  from assms have "isWellFormed s" "e = concat (map encode_point (code_points s))"
    by (auto simp: encodeURIComponent_def split: if_splits)
  with decode_encode_points [OF code_points_scalar [OF assms(2)]] units_code_points [of s] assms(2) show ?thesis
    by (simp add: decodeURIComponent_def)
qed

text \<open>An encoded text has no separator of the fragment.\<close>

lemma percent_chars: "b < 256 \<Longrightarrow> u \<in> set (percent b) \<Longrightarrow> u \<noteq> 38 \<and> u \<noteq> 61 \<and> u \<noteq> 35"
  by (auto simp: percent_def hex_upper_def split: if_splits)

lemma encode_point_chars: "scalar_value c \<Longrightarrow> u \<in> set (encode_point c) \<Longrightarrow> u \<noteq> 38 \<and> u \<noteq> 61 \<and> u \<noteq> 35"
  using utf8_cp_bytes [of c] percent_chars by (auto simp: encode_point_def scalar_value_def unreserved_def js_def split: if_splits)

lemma encoded_chars:
  assumes "encodeURIComponent s = Inr e" and "\<forall>u \<in> set s. u < 65536"
  shows "38 \<notin> set e \<and> 61 \<notin> set e \<and> 35 \<notin> set e"
  using assms code_points_scalar [OF assms(2)] encode_point_chars
  by (fastforce simp: encodeURIComponent_def split: if_splits)

lemma plain_decodes: "37 \<notin> set s \<Longrightarrow> decodeURIComponent s = Inr s"
proof -
  assume "37 \<notin> set s"
  then have "decode_uri s = Some s" by (induction s) (auto simp: decode_uri.simps(2))
  then show ?thesis by (simp add: decodeURIComponent_def)
qed

end
