(* ===== verification/PlaygroundLink.thy ===== *)
theory PlaygroundLink
  imports Percent
begin

text \<open>
  Links to the playground, \<^verbatim>\<open>src/editors/playground/src/options.js\<close> and the fragment of
  \<^verbatim>\<open>app.js\<close>: the program and the compiler options travel in the fragment of the address.
\<close>

section \<open>Options\<close>

text \<open>A value of a saved or shared table, as far as the code tells values apart; a field that is missing is no entry.\<close>

datatype option_value = BoolValue bool | TextValue jstr | OtherValue

type_synonym option_table = "(string, option_value) jmap"

text \<open>An argument of \<^verbatim>\<open>record\<close>: an object that is no array, or anything else.\<close>

datatype table_argument = ObjectTable option_table | NoTable

fun record_of :: "table_argument \<Rightarrow> option_table" where
  "record_of (ObjectTable t) = t"
| "record_of NoTable = []"

record play_options =
  po_optimize :: bool
  po_compat :: "jstr option"

definition DEFAULT_OPTIONS :: play_options where
  "DEFAULT_OPTIONS = \<lparr>po_optimize = True, po_compat = None\<rparr>"

definition restoreOptions :: "table_argument \<Rightarrow> table_argument \<Rightarrow> play_options" where
  "restoreOptions params0 saved0 =
    (let params = record_of params0; saved = record_of saved0;
         o1 = (case mget saved ''optimize'' of Some (BoolValue b) \<Rightarrow> b | _ \<Rightarrow> po_optimize DEFAULT_OPTIONS);
         o2 = (case mget params ''optimize'' of None \<Rightarrow> o1 | Some v \<Rightarrow> v = TextValue (js ''1''));
         compat = (case mget params ''compat'' of None \<Rightarrow> mget saved ''compat'' | Some v \<Rightarrow> Some v)
     in \<lparr>po_optimize = o2, po_compat = (if compat = Some (TextValue (js ''lua51'')) then Some (js ''lua51'') else None)\<rparr>)"

text \<open>An options object as a table, which is how \<^verbatim>\<open>sourceFragment\<close> reads it and \<^verbatim>\<open>saveOptions\<close> writes it.\<close>

definition options_table :: "play_options \<Rightarrow> option_table" where
  "options_table opts = (''optimize'', BoolValue (po_optimize opts)) #
     (case po_compat opts of None \<Rightarrow> [] | Some c \<Rightarrow> [(''compat'', TextValue c)])"

definition sourceFragment :: "jstr \<Rightarrow> play_options \<Rightarrow> jstr result" where
  "sourceFragment source opts =
    (let restored = restoreOptions (ObjectTable []) (ObjectTable (options_table opts)) in
     bind (encodeURIComponent source) (\<lambda>e.
       Inr (js ''#source='' @ e @ js ''&optimize='' @ (if po_optimize restored then js ''1'' else js ''0'') @
            js ''&compat='' @ (case po_compat restored of None \<Rightarrow> [] | Some c \<Rightarrow> c))))"

text \<open>
  The saved options: what the storage holds or that it cannot be read, and \<^verbatim>\<open>JSON.parse\<close> as a parameter. A text that does not parse
  and a value that is no object give no options.
\<close>

definition storedOptions :: "(jstr \<Rightarrow> table_argument result) \<Rightarrow> jstr option result \<Rightarrow> option_table" where
  "storedOptions parse item =
    (case item of Inl e \<Rightarrow> []
     | Inr s \<Rightarrow> (case parse (case s of Some t \<Rightarrow> (if t = [] then js ''{}'' else t) | None \<Rightarrow> js ''{}'') of
         Inl e \<Rightarrow> [] | Inr v \<Rightarrow> record_of v))"

definition saveOptions :: "(option_table \<Rightarrow> jstr) \<Rightarrow> bool \<Rightarrow> play_options \<Rightarrow> jstr option \<Rightarrow> jstr option" where
  "saveOptions stringify refused opts item = (if refused then item else Some (stringify (options_table opts)))"

section \<open>The fragment\<close>

text \<open>
  One pair of \<^verbatim>\<open>fragmentParams\<close>. The table is an object literal, so assigning its member \<^verbatim>\<open>__proto__\<close> a text changes nothing.
\<close>

definition add_pair :: "jstr \<Rightarrow> (jstr, jstr) jmap \<Rightarrow> (jstr, jstr) jmap" where
  "add_pair pair out =
    (if pair = [] then out else
     let at = index_of 61 pair;
         key = (case at of None \<Rightarrow> pair | Some n \<Rightarrow> take n pair);
         val = (case at of None \<Rightarrow> [] | Some n \<Rightarrow> drop (n + 1) pair) in
     case decodeURIComponent val of
       Inl e \<Rightarrow> out
     | Inr v \<Rightarrow> if key = js ''__proto__'' then out else mset out key v)"

definition fragmentParams :: "jstr \<Rightarrow> (jstr, jstr) jmap" where
  "fragmentParams hash = fold add_pair (split_on 38 (if take 1 hash = [35] then drop 1 hash else hash)) []"

text \<open>The parameters as \<^verbatim>\<open>restoreOptions\<close> reads them, and the program they carry.\<close>

definition params_table :: "(jstr, jstr) jmap \<Rightarrow> table_argument" where
  "params_table params = ObjectTable (concat (map (\<lambda>k. case mget params (js k) of None \<Rightarrow> [] | Some v \<Rightarrow> [(k, TextValue v)])
     [''optimize'', ''compat'']))"

definition start_source :: "jstr \<Rightarrow> (jstr, jstr) jmap \<Rightarrow> jstr" where
  "start_source example params = (case mget params (js ''source'') of None \<Rightarrow> example | Some s \<Rightarrow> s)"

text \<open>The program of a documentation snippet, which its page percent-encodes into an attribute.\<close>

definition snippet_source :: "jstr \<Rightarrow> jstr option \<Rightarrow> jstr" where
  "snippet_source example encoded =
    (case encoded of None \<Rightarrow> example
     | Some e \<Rightarrow> (case decodeURIComponent e of Inr s \<Rightarrow> s | Inl _ \<Rightarrow> e))"

section \<open>Reading a fragment back\<close>

lemma add_pair_key:
  assumes "61 \<notin> set k" and "k \<noteq> js ''__proto__''" and "decodeURIComponent v = Inr d"
  shows "add_pair (k @ 61 # v) out = mset out k d"
  using assms by (simp add: add_pair_def index_of_append)

text \<open>The options a page holds: those \<^verbatim>\<open>restoreOptions\<close> and the options menu make.\<close>

definition settable :: "play_options \<Rightarrow> bool" where
  "settable opts \<longleftrightarrow> po_compat opts \<in> {None, Some (js ''lua51'')}"

lemma restore_settable: "settable (restoreOptions params saved)"
  by (auto simp: settable_def restoreOptions_def Let_def)

lemma restore_own: "settable opts \<Longrightarrow> restoreOptions (ObjectTable []) (ObjectTable (options_table opts)) = opts"
  by (cases opts) (auto simp: settable_def restoreOptions_def options_table_def mget_Cons Let_def)

section \<open>Properties\<close>

lemma fragment_pairs:
  assumes "sourceFragment source opts = Inr hash" and "settable opts" and "\<forall>u \<in> set source. u < 65536"
  obtains e where "decodeURIComponent e = Inr source" and
    "fragmentParams hash = fold add_pair [js ''source'' @ 61 # e, js ''optimize'' @ 61 # (if po_optimize opts then js ''1'' else js ''0''),
       js ''compat'' @ 61 # (case po_compat opts of None \<Rightarrow> [] | Some c \<Rightarrow> c)] []"
proof -
  from assms(1,2) obtain e where e: "encodeURIComponent source = Inr e"
    and hash: "hash = 35 # join [38] [js ''source'' @ 61 # e, js ''optimize'' @ 61 # (if po_optimize opts then js ''1'' else js ''0''),
       js ''compat'' @ 61 # (case po_compat opts of None \<Rightarrow> [] | Some c \<Rightarrow> c)]"
    by (auto simp: sourceFragment_def restore_own Let_def js_def)
  have free: "38 \<notin> set e" using encoded_chars [OF e assms(3)] by simp
  let ?ps = "[js ''source'' @ 61 # e, js ''optimize'' @ 61 # (if po_optimize opts then js ''1'' else js ''0''),
       js ''compat'' @ 61 # (case po_compat opts of None \<Rightarrow> [] | Some c \<Rightarrow> c)]"
  have "split_on 38 (join [38] ?ps) = ?ps"
    by (rule split_on_join) (use free assms(2) in \<open>auto simp: settable_def js_def\<close>)
  with hash have "fragmentParams hash = fold add_pair ?ps []" by (simp only: fragmentParams_def) simp
  with decode_encode_uri [OF e assms(3)] that show thesis by blast
qed

lemma link_opens:
  assumes "sourceFragment source opts = Inr hash" and "settable opts" and "\<forall>u \<in> set source. u < 65536"
  shows "start_source example (fragmentParams hash) = source \<and> restoreOptions (params_table (fragmentParams hash)) saved = opts"
proof -
  from fragment_pairs [OF assms] obtain e where e: "decodeURIComponent e = Inr source" and
    p: "fragmentParams hash = fold add_pair [js ''source'' @ 61 # e, js ''optimize'' @ 61 # (if po_optimize opts then js ''1'' else js ''0''),
       js ''compat'' @ 61 # (case po_compat opts of None \<Rightarrow> [] | Some c \<Rightarrow> c)] []" .
  have keys: "61 \<notin> set (js ''source'')" "js ''source'' \<noteq> js ''__proto__''" "61 \<notin> set (js ''optimize'')" "js ''optimize'' \<noteq> js ''__proto__''"
    "61 \<notin> set (js ''compat'')" "js ''compat'' \<noteq> js ''__proto__''"
    by (simp_all add: js_def)
  have d: "decodeURIComponent (if po_optimize opts then js ''1'' else js ''0'') = Inr (if po_optimize opts then js ''1'' else js ''0'')"
    "decodeURIComponent (case po_compat opts of None \<Rightarrow> [] | Some c \<Rightarrow> c) = Inr (case po_compat opts of None \<Rightarrow> [] | Some c \<Rightarrow> c)"
    by (rule plain_decodes; use assms(2) in \<open>auto simp: settable_def js_def\<close>)+
  define params where "params = fragmentParams hash"
  have "params = mset (mset (mset [] (js ''source'') source) (js ''optimize'') (if po_optimize opts then js ''1'' else js ''0''))
      (js ''compat'') (case po_compat opts of None \<Rightarrow> [] | Some c \<Rightarrow> c)"
    unfolding params_def p fold_simps add_pair_key [OF keys(1,2) e] add_pair_key [OF keys(3,4) d(1)] add_pair_key [OF keys(5,6) d(2)] ..
  moreover have "js ''source'' \<noteq> js ''optimize''" "js ''source'' \<noteq> js ''compat''" "js ''optimize'' \<noteq> js ''compat''" by (simp_all add: js_def)
  ultimately have "mget params (js ''source'') = Some source"
    "mget params (js ''optimize'') = Some (if po_optimize opts then js ''1'' else js ''0'')"
    "mget params (js ''compat'') = Some (case po_compat opts of None \<Rightarrow> [] | Some c \<Rightarrow> c)"
    by simp_all
  then show ?thesis using assms(2) unfolding params_def [symmetric]
    by (cases opts) (auto simp: start_source_def restoreOptions_def params_table_def settable_def mget_Cons Let_def js_def)
qed

text \<open>A shared link reopens the same program with the same options whatever the recipient has saved: every option is explicit in
  the fragment, the empty compatibility included.
\<close>

theorem shared_link_roundtrip:
  assumes "sourceFragment source opts = Inr hash" and "settable opts" and "\<forall>u \<in> set source. u < 65536"
  shows "start_source example (fragmentParams hash) = source \<and> restoreOptions (params_table (fragmentParams hash)) saved = opts"
  by (rule link_opens [OF assms])

theorem shared_link_roundtrip_witness:
  "\<exists>hash. sourceFragment (js ''return \"a&b\"'') \<lparr>po_optimize = False, po_compat = None\<rparr> = Inr hash \<and>
     start_source [] (fragmentParams hash) = js ''return \"a&b\"'' \<and>
     restoreOptions (params_table (fragmentParams hash)) (ObjectTable [(''optimize'', BoolValue True), (''compat'', TextValue (js ''lua51''))])
       = \<lparr>po_optimize = False, po_compat = None\<rparr>"
proof -
  let ?o = "\<lparr>po_optimize = False, po_compat = None\<rparr>"
  have w: "isWellFormed (js ''return \"a&b\"'')" by (simp add: js_def high_surrogate_def low_surrogate_def)
  then obtain hash where h: "sourceFragment (js ''return \"a&b\"'') ?o = Inr hash"
    by (auto simp: sourceFragment_def encodeURIComponent_def Let_def)
  have "settable ?o" "\<forall>u \<in> set (js ''return \"a&b\"''). u < 65536" by (simp_all add: settable_def js_def)
  from shared_link_roundtrip [OF h this] h show ?thesis by blast
qed

text \<open>The attribute of a documentation snippet is read back as the program it was made from.\<close>

lemma snippet_roundtrip:
  "encodeURIComponent s = Inr e \<Longrightarrow> \<forall>u \<in> set s. u < 65536 \<Longrightarrow> snippet_source example (Some e) = s"
  by (simp add: snippet_source_def decode_encode_uri)

end
