(* ===== verification/Snippet.thy ===== *)
theory Snippet
  imports CompilerClient Diagnostics PlaygroundLink
begin

text \<open>
  An editor of a documentation page, \<^verbatim>\<open>NuppDocPlayground\<close> in \<^verbatim>\<open>src/editors/playground/src/doc-app.js\<close>, with \<^verbatim>\<open>runGenerated\<close>: checks after an edit, the tab that shows the
  generated Lua, and runs of the program in a worker of their own. What the shared compiler and a program's worker settle with are events.
\<close>

section \<open>State\<close>

text \<open>What a compilation answers; the code is empty where there is none.\<close>

record compiled =
  cp_code :: jstr
  cp_reason :: jstr
  cp_diagnostics :: "diagnosis list"

datatype tab = NuppTab | LuaTab

text \<open>The Lua panel: a text, or code with its highlighting.\<close>

datatype lua_panel = PanelText jstr | PanelLua jstr

text \<open>What an editor waits for: a check, a compilation for the Lua tab, one for a run, and the program of a run; a run is named by its controller.\<close>

datatype snippet_task = CheckWait nat | LuaWait nat jstr | CompileWait nat jstr | ProgramWait nat

text \<open>
  \<open>sn_live\<close> is whether the element is connected and has its editor. \<open>sn_clicks\<close>, \<open>sn_given\<close> and \<open>sn_started\<close> only record: the text at each click of Run, the code
  in each answer of the compiler with the text it was asked for, and the programs started.
\<close>

record snippet =
  sn_doc :: jstr
  sn_live :: bool
  sn_checkGeneration :: nat
  sn_luaGeneration :: nat
  sn_timer :: bool
  sn_tab :: tab
  sn_compiledSource :: "jstr option"
  sn_compiledCode :: jstr
  sn_panel :: lua_panel
  sn_markers :: "marker list"
  sn_controller :: "nat option"
  sn_controllers :: nat
  sn_aborted :: "nat list"
  sn_tasks :: "snippet_task list"
  sn_outputHidden :: bool
  sn_summary :: jstr
  sn_main :: jstr
  sn_button :: jstr
  sn_clicks :: "(nat \<times> jstr) list"
  sn_given :: "(jstr \<times> jstr) list"
  sn_started :: "(nat \<times> jstr) list"

definition new_snippet :: snippet where
  "new_snippet = \<lparr>sn_doc = [], sn_live = False, sn_checkGeneration = 0, sn_luaGeneration = 0, sn_timer = False, sn_tab = NuppTab, sn_compiledSource = None,
     sn_compiledCode = [], sn_panel = PanelText [], sn_markers = [], sn_controller = None, sn_controllers = 0, sn_aborted = [], sn_tasks = [],
     sn_outputHidden = True, sn_summary = [], sn_main = [], sn_button = js ''Run'', sn_clicks = [], sn_given = [], sn_started = []\<rparr>"

definition ellipsis :: jstr where "ellipsis = [0x2026]"

section \<open>The editor\<close>

definition connectedCallback :: "jstr \<Rightarrow> snippet \<Rightarrow> snippet" where
  "connectedCallback source s =
    (if sn_live s then s else
     s\<lparr>sn_doc := source, sn_live := True, sn_tab := NuppTab, sn_compiledSource := None, sn_compiledCode := [], sn_panel := PanelText [], sn_markers := [],
       sn_outputHidden := True, sn_summary := [], sn_main := [], sn_button := js ''Run''\<rparr>)"

definition activateTab :: "tab \<Rightarrow> snippet \<Rightarrow> snippet" where
  "activateTab name s = s\<lparr>sn_tab := name\<rparr>"

definition invalidateCompiled :: "snippet \<Rightarrow> snippet" where
  "invalidateCompiled s = activateTab NuppTab (s\<lparr>sn_compiledSource := None, sn_compiledCode := [], sn_panel := PanelText []\<rparr>)"

definition scheduleCheck :: "snippet \<Rightarrow> snippet" where
  "scheduleCheck s = s\<lparr>sn_timer := True\<rparr>"

definition edit_snippet :: "jstr \<Rightarrow> snippet \<Rightarrow> snippet" where
  "edit_snippet new s = (if \<not> sn_live s then s else invalidateCompiled (scheduleCheck (s\<lparr>sn_doc := new\<rparr>)))"

definition drop_wait :: "snippet_task \<Rightarrow> snippet \<Rightarrow> snippet" where
  "drop_wait t s = s\<lparr>sn_tasks := remove1 t (sn_tasks s)\<rparr>"

definition snippet_marks :: "diagnosis list \<Rightarrow> snippet \<Rightarrow> snippet" where
  "snippet_marks ds s = s\<lparr>sn_markers := doc_markers (int (length (sn_doc s))) ds\<rparr>"

section \<open>Checks\<close>

definition snippet_check :: "snippet \<Rightarrow> snippet" where
  "snippet_check s =
    (if \<not> sn_timer s then s else
     let generation = sn_checkGeneration s + 1 in
     s\<lparr>sn_timer := False, sn_checkGeneration := generation, sn_tasks := sn_tasks s @ [CheckWait generation]\<rparr>)"

definition check_settles :: "nat \<Rightarrow> compiled settlement \<Rightarrow> snippet \<Rightarrow> snippet" where
  "check_settles generation r s =
    (if CheckWait generation \<notin> set (sn_tasks s) then s else
     let s1 = drop_wait (CheckWait generation) s in
     case r of
       Resolved (Ok a) \<Rightarrow> if generation \<noteq> sn_checkGeneration s1 \<or> \<not> sn_live s1 then s1 else snippet_marks (cp_diagnostics a) s1
     | _ \<Rightarrow> s1)"

section \<open>The Lua tab\<close>

definition showLua :: "snippet \<Rightarrow> snippet" where
  "showLua s =
    (if \<not> sn_live s then s else
     let s1 = activateTab LuaTab s in
     if sn_compiledSource s1 = Some (sn_doc s1) then s1 else
     let generation = sn_luaGeneration s1 + 1 in
     s1\<lparr>sn_luaGeneration := generation, sn_panel := PanelText (js ''compiling'' @ ellipsis), sn_tasks := sn_tasks s1 @ [LuaWait generation (sn_doc s1)]\<rparr>)"

definition error_line :: "jstr \<Rightarrow> jstr" where
  "error_line e = js ''-- '' @ e"

definition diagnostics_text :: "diagnosis list \<Rightarrow> jstr" where
  "diagnostics_text ds = join [10, 10] (map doc_diagnosticText (visibleDiagnostics ds))"

text \<open>The cache of the last compilation.\<close>

definition keep_compiled :: "jstr \<Rightarrow> jstr \<Rightarrow> snippet \<Rightarrow> snippet" where
  "keep_compiled source code s = s\<lparr>sn_compiledSource := Some source, sn_compiledCode := code\<rparr>"

definition lua_settles :: "nat \<Rightarrow> jstr \<Rightarrow> compiled settlement \<Rightarrow> snippet \<Rightarrow> snippet" where
  "lua_settles generation source r s =
    (if LuaWait generation source \<notin> set (sn_tasks s) then s else
     let s1 = drop_wait (LuaWait generation source) s in
     if generation \<noteq> sn_luaGeneration s1 then s1 else
     case r of
       Rejected e \<Rightarrow> s1\<lparr>sn_panel := PanelText (error_line e)\<rparr>
     | Resolved (NotOk e) \<Rightarrow> if \<not> sn_live s1 then s1 else s1\<lparr>sn_panel := PanelText (error_line e)\<rparr>
     | Resolved (Ok a) \<Rightarrow>
        if \<not> sn_live s1 then s1 else
        let s2 = snippet_marks (cp_diagnostics a) s1 in
        if cp_code a \<noteq> [] then (keep_compiled source (cp_code a) s2)\<lparr>sn_panel := PanelLua (cp_code a)\<rparr>
        else s2\<lparr>sn_panel := PanelText (if visibleDiagnostics (cp_diagnostics a) \<noteq> [] then diagnostics_text (cp_diagnostics a)
               else if cp_reason a \<noteq> [] then cp_reason a else js ''no output'')\<rparr>)"

section \<open>Runs\<close>

text \<open>The \<^verbatim>\<open>finally\<close> and the \<^verbatim>\<open>catch\<close> of \<^verbatim>\<open>run\<close>.\<close>

definition finish_snippet_run :: "nat \<Rightarrow> snippet \<Rightarrow> snippet" where
  "finish_snippet_run c s = (if sn_controller s = Some c then s\<lparr>sn_controller := None, sn_button := js ''Run''\<rparr> else s)"

definition fail_snippet_run :: "nat \<Rightarrow> jstr \<Rightarrow> snippet \<Rightarrow> snippet" where
  "fail_snippet_run c e s =
    finish_snippet_run c (if sn_controller s \<noteq> Some c then s else s\<lparr>sn_summary := js ''failed'', sn_main := error_line e\<rparr>)"

text \<open>\<^verbatim>\<open>runGenerated\<close>: a worker of its own for the program, unless the run was aborted.\<close>

definition start_program :: "nat \<Rightarrow> jstr \<Rightarrow> snippet \<Rightarrow> snippet" where
  "start_program c code s0 =
    (let s = s0\<lparr>sn_summary := js ''running'' @ ellipsis\<rparr> in
     if c \<in> set (sn_aborted s) then fail_snippet_run c (js ''Program stopped'') s
     else s\<lparr>sn_tasks := sn_tasks s @ [ProgramWait c], sn_started := sn_started s @ [(c, code)]\<rparr>)"

text \<open>\<^verbatim>\<open>controller.abort()\<close>: the worker of the program ends, and its promise is rejected.\<close>

definition abort_run :: "nat \<Rightarrow> snippet \<Rightarrow> snippet" where
  "abort_run c s = s\<lparr>sn_aborted := c # sn_aborted s, sn_tasks := removeAll (ProgramWait c) (sn_tasks s)\<rparr>"

definition run_snippet :: "snippet \<Rightarrow> snippet" where
  "run_snippet s =
    (if \<not> sn_live s then s else
     case sn_controller s of
       Some c \<Rightarrow> if ProgramWait c \<in> set (sn_tasks s) then fail_snippet_run c (js ''Program stopped'') (abort_run c s) else abort_run c s
     | None \<Rightarrow>
        let c = sn_controllers s;
            s1 = s\<lparr>sn_controller := Some c, sn_controllers := c + 1, sn_button := js ''Stop'', sn_outputHidden := False,
                   sn_summary := js ''compiling'' @ ellipsis, sn_main := [], sn_clicks := sn_clicks s @ [(c, sn_doc s)]\<rparr> in
        if sn_compiledSource s1 = Some (sn_doc s1) then start_program c (sn_compiledCode s1) s1
        else s1\<lparr>sn_tasks := sn_tasks s1 @ [CompileWait c (sn_doc s1)]\<rparr>)"

definition compile_settles :: "nat \<Rightarrow> jstr \<Rightarrow> compiled settlement \<Rightarrow> snippet \<Rightarrow> snippet" where
  "compile_settles c source r s =
    (if CompileWait c source \<notin> set (sn_tasks s) then s else
     let s1 = drop_wait (CompileWait c source) s in
     case r of
       Rejected e \<Rightarrow> fail_snippet_run c e s1
     | Resolved ans \<Rightarrow>
        if c \<in> set (sn_aborted s1) \<or> \<not> sn_live s1 then finish_snippet_run c s1 else
        (case ans of
           NotOk e \<Rightarrow> fail_snippet_run c e s1
         | Ok a \<Rightarrow>
            let s2 = snippet_marks (cp_diagnostics a) s1 in
            if cp_code a = [] then
              finish_snippet_run c (s2\<lparr>sn_summary := (if cp_reason a \<noteq> [] then cp_reason a else js ''failed''), sn_main := diagnostics_text (cp_diagnostics a)\<rparr>)
            else start_program c (cp_code a) (keep_compiled source (cp_code a) s2)))"

text \<open>The program's worker replies, fails, or its ten seconds are over; the result is what it printed.\<close>

definition program_ends :: "nat \<Rightarrow> jstr + jstr \<Rightarrow> snippet \<Rightarrow> snippet" where
  "program_ends c r s =
    (if ProgramWait c \<notin> set (sn_tasks s) then s else
     let s1 = drop_wait (ProgramWait c) s in
     case r of
       Inl e \<Rightarrow> fail_snippet_run c e s1
     | Inr stdout \<Rightarrow> finish_snippet_run c (if c \<in> set (sn_aborted s1) \<or> \<not> sn_live s1 then s1 else s1\<lparr>sn_summary := js ''ran'', sn_main := stdout\<rparr>))"

definition disconnectedCallback :: "snippet \<Rightarrow> snippet" where
  "disconnectedCallback s =
    (let s1 = (case sn_controller s of Some c \<Rightarrow> abort_run c s | None \<Rightarrow> s) in
     s1\<lparr>sn_controller := None, sn_checkGeneration := sn_checkGeneration s1 + 1, sn_luaGeneration := sn_luaGeneration s1 + 1, sn_timer := False, sn_live := False\<rparr>)"

datatype snippet_event =
    Connect jstr
  | Disconnect
  | Edit jstr
  | TimerFires
  | ClickNupp
  | ClickLua
  | ClickRun
  | CloseOutput
  | CheckSettles nat "compiled settlement"
  | LuaSettles nat jstr "compiled settlement"
  | CompileSettles nat jstr "compiled settlement"
  | ProgramEnds nat "jstr + jstr"

text \<open>The record of the compiler's answers, made when an answer arrives and before the editor sees it.\<close>

definition log_answer :: "snippet_task \<Rightarrow> jstr \<Rightarrow> compiled settlement \<Rightarrow> snippet \<Rightarrow> snippet" where
  "log_answer w source r s =
    (case r of Resolved (Ok a) \<Rightarrow> if w \<in> set (sn_tasks s) then s\<lparr>sn_given := sn_given s @ [(source, cp_code a)]\<rparr> else s | _ \<Rightarrow> s)"

fun snippet_step :: "snippet_event \<Rightarrow> snippet \<Rightarrow> snippet" where
  "snippet_step (Connect source) s = connectedCallback source s"
| "snippet_step Disconnect s = disconnectedCallback s"
| "snippet_step (Edit new) s = edit_snippet new s"
| "snippet_step TimerFires s = snippet_check s"
| "snippet_step ClickNupp s = (if sn_live s then activateTab NuppTab s else s)"
| "snippet_step ClickLua s = showLua s"
| "snippet_step ClickRun s = run_snippet s"
| "snippet_step CloseOutput s = s\<lparr>sn_outputHidden := True\<rparr>"
| "snippet_step (CheckSettles g r) s = check_settles g r s"
| "snippet_step (LuaSettles g source r) s = lua_settles g source r (log_answer (LuaWait g source) source r s)"
| "snippet_step (CompileSettles c source r) s = compile_settles c source r (log_answer (CompileWait c source) source r s)"
| "snippet_step (ProgramEnds c r) s = program_ends c r s"

section \<open>The invariant\<close>

fun is_program :: "snippet_task \<Rightarrow> bool" where
  "is_program (ProgramWait c) = True"
| "is_program _ = False"

fun waits_compile :: "snippet_task \<Rightarrow> nat list" where
  "waits_compile (CompileWait c source) = [c]"
| "waits_compile _ = []"

definition compiling :: "snippet \<Rightarrow> nat list" where
  "compiling s = concat (map waits_compile (sn_tasks s))"

text \<open>The cache and the records: what is cached was given, what was started was given for the text of its click, and a click starts at most one program.\<close>

definition records_ok :: "snippet \<Rightarrow> bool" where
  "records_ok s \<longleftrightarrow>
    (\<forall>source. sn_compiledSource s = Some source \<longrightarrow> (source, sn_compiledCode s) \<in> set (sn_given s)) \<and>
    (\<forall>(c, code) \<in> set (sn_started s). \<exists>source. (c, source) \<in> set (sn_clicks s) \<and> (source, code) \<in> set (sn_given s)) \<and>
    (\<forall>c source. CompileWait c source \<in> set (sn_tasks s) \<longrightarrow> (c, source) \<in> set (sn_clicks s)) \<and>
    map fst (sn_clicks s) = [0..<sn_controllers s] \<and> distinct (map fst (sn_started s) @ compiling s)"

text \<open>A run that compiles is the one at hand or was aborted; the program that runs is the one of the run at hand.\<close>

definition run_ok :: "snippet \<Rightarrow> bool" where
  "run_ok s \<longleftrightarrow>
    (\<forall>c \<in> set (compiling s). sn_controller s = Some c \<or> c \<in> set (sn_aborted s)) \<and>
    (\<forall>c. ProgramWait c \<in> set (sn_tasks s) \<longrightarrow> sn_controller s = Some c \<and> c \<notin> set (sn_aborted s) \<and> c \<in> fst ` set (sn_started s)) \<and>
    length (filter is_program (sn_tasks s)) \<le> 1 \<and>
    (\<forall>c \<in> set (sn_aborted s). c < sn_controllers s) \<and> (\<forall>c. sn_controller s = Some c \<longrightarrow> c < sn_controllers s)"

definition snippet_ok :: "snippet \<Rightarrow> bool" where
  "snippet_ok s \<longleftrightarrow> records_ok s \<and> run_ok s"

lemma compiling_clicked: "records_ok s \<Longrightarrow> c \<in> set (compiling s) \<Longrightarrow> c < sn_controllers s"
proof -
  assume ok: "records_ok s" and "c \<in> set (compiling s)"
  then obtain t where "t \<in> set (sn_tasks s)" "c \<in> set (waits_compile t)" by (auto simp: compiling_def)
  then obtain source where "CompileWait c source \<in> set (sn_tasks s)" by (cases t rule: snippet_task.exhaust) auto
  with ok have "(c, source) \<in> set (sn_clicks s)" by (simp add: records_ok_def)
  then have "c \<in> set (map fst (sn_clicks s))" by force
  with ok show ?thesis by (simp add: records_ok_def)
qed

lemma started_clicked: "records_ok s \<Longrightarrow> c \<in> fst ` set (sn_started s) \<Longrightarrow> c < sn_controllers s"
proof -
  assume ok: "records_ok s" and "c \<in> fst ` set (sn_started s)"
  then obtain source where "(c, source) \<in> set (sn_clicks s)" by (auto simp: records_ok_def)
  then have "c \<in> set (map fst (sn_clicks s))" by force
  with ok show ?thesis by (simp add: records_ok_def)
qed

lemma no_program: "run_ok s \<Longrightarrow> sn_controller s = None \<Longrightarrow> filter is_program (sn_tasks s) = []"
proof -
  assume ok: "run_ok s" and none: "sn_controller s = None"
  { fix t assume t: "t \<in> set (sn_tasks s)"
    then have "\<not> is_program t" using ok none by (cases t rule: snippet_task.exhaust) (auto simp: run_ok_def) }
  then show ?thesis by (simp add: filter_empty_conv)
qed

lemma concat_remove1: "t \<in> set ts \<Longrightarrow> distinct (concat (map f ts)) \<Longrightarrow> set (concat (map f (remove1 t ts))) = set (concat (map f ts)) - set (f t)"
  by (induction ts) auto

lemma distinct_concat_remove1: "distinct (concat (map f ts)) \<Longrightarrow> distinct (concat (map f (remove1 t ts)))"
  by (induction ts) (auto dest: subsetD [OF set_remove1_subset])

text \<open>Dropping a task keeps the invariant.\<close>

lemma drop_wait_ok:
  assumes ok: "snippet_ok s" and t: "t \<in> set (sn_tasks s)"
  shows "snippet_ok (drop_wait t s)" "set (compiling (drop_wait t s)) = set (compiling s) - set (waits_compile t)"
proof -
  from ok have dist: "distinct (map fst (sn_started s) @ concat (map waits_compile (sn_tasks s)))"
    by (simp add: snippet_ok_def records_ok_def compiling_def)
  then have eq: "set (concat (map waits_compile (remove1 t (sn_tasks s)))) = set (compiling s) - set (waits_compile t)"
    using concat_remove1 [OF t, of waits_compile] by (simp add: compiling_def del: set_concat)
  then show set_eq: "set (compiling (drop_wait t s)) = set (compiling s) - set (waits_compile t)" by (simp add: compiling_def drop_wait_def)
  have "distinct (map fst (sn_started s) @ compiling (drop_wait t s))"
    using dist eq distinct_concat_remove1 [of waits_compile "sn_tasks s" t] by (auto simp: compiling_def drop_wait_def)
  moreover have "length (filter is_program (remove1 t (sn_tasks s))) \<le> length (filter is_program (sn_tasks s))"
    by (simp add: filter_remove1 length_remove1)
  moreover have "set (remove1 t (sn_tasks s)) \<subseteq> set (sn_tasks s)" by (rule set_remove1_subset)
  ultimately show "snippet_ok (drop_wait t s)"
    using ok set_eq unfolding snippet_ok_def records_ok_def run_ok_def by (auto simp: drop_wait_def)
qed

lemma snippet_ok_cong:
  assumes "sn_compiledSource t = sn_compiledSource s" "sn_compiledCode t = sn_compiledCode s" "sn_given t = sn_given s" "sn_started t = sn_started s"
    "sn_clicks t = sn_clicks s" "sn_tasks t = sn_tasks s" "sn_controllers t = sn_controllers s" "sn_controller t = sn_controller s" "sn_aborted t = sn_aborted s"
  shows "snippet_ok t = snippet_ok s"
  using assms by (simp add: snippet_ok_def records_ok_def run_ok_def compiling_def)

lemma forget_compiled_ok:
  assumes "snippet_ok s" "sn_given t = sn_given s" "sn_started t = sn_started s" "sn_clicks t = sn_clicks s" "sn_tasks t = sn_tasks s"
    "sn_controllers t = sn_controllers s" "sn_controller t = sn_controller s" "sn_aborted t = sn_aborted s" "sn_compiledSource t = None"
  shows "snippet_ok t"
  using assms by (simp add: snippet_ok_def records_ok_def run_ok_def compiling_def)

text \<open>A task that is neither a compilation of a run nor a program may be added.\<close>

lemma add_wait_ok:
  assumes "snippet_ok s" "sn_given t = sn_given s" "sn_started t = sn_started s" "sn_clicks t = sn_clicks s" "sn_tasks t = sn_tasks s @ [w]"
    "sn_controllers t = sn_controllers s" "sn_controller t = sn_controller s" "sn_aborted t = sn_aborted s" "sn_compiledSource t = sn_compiledSource s"
    "sn_compiledCode t = sn_compiledCode s" "waits_compile w = []" "\<not> is_program w"
  shows "snippet_ok t"
  using assms by (cases w) (auto simp: snippet_ok_def records_ok_def run_ok_def compiling_def)

lemma finish_ok:
  assumes ok: "snippet_ok s" and idle: "c \<notin> set (compiling s)" "ProgramWait c \<notin> set (sn_tasks s)"
  shows "snippet_ok (finish_snippet_run c s)"
proof -
  have "compiling (s\<lparr>sn_controller := None, sn_button := b\<rparr>) = compiling s" for b by (simp add: compiling_def)
  with assms show ?thesis by (auto simp: finish_snippet_run_def snippet_ok_def records_ok_def run_ok_def)
qed

lemma fail_ok:
  assumes ok: "snippet_ok s" and idle: "c \<notin> set (compiling s)" "ProgramWait c \<notin> set (sn_tasks s)"
  shows "snippet_ok (fail_snippet_run c e s)"
proof -
  let ?s = "if sn_controller s \<noteq> Some c then s else s\<lparr>sn_summary := js ''failed'', sn_main := error_line e\<rparr>"
  have "snippet_ok ?s" using ok by (auto simp: snippet_ok_cong [of "s\<lparr>sn_summary := js ''failed'', sn_main := error_line e\<rparr>" s])
  then show ?thesis unfolding fail_snippet_run_def using idle by (intro finish_ok) (auto simp: compiling_def)
qed

lemma start_program_ok:
  assumes ok: "snippet_ok s" and c: "sn_controller s = Some c" "c \<notin> set (compiling s)" "c \<notin> fst ` set (sn_started s)"
    and given: "(c, source) \<in> set (sn_clicks s)" "(source, code) \<in> set (sn_given s)"
  shows "snippet_ok (start_program c code s)"
proof -
  let ?s = "s\<lparr>sn_summary := js ''running'' @ ellipsis\<rparr>"
  have ok2: "snippet_ok ?s" using ok by (subst snippet_ok_cong [of _ s]) simp_all
  have alone: "filter is_program (sn_tasks s) = []"
  proof -
    { fix t assume t: "t \<in> set (sn_tasks s)"
      have "\<not> is_program t" using ok c t by (cases t rule: snippet_task.exhaust) (auto simp: snippet_ok_def run_ok_def) }
    then show ?thesis by (simp add: filter_empty_conv)
  qed
  show ?thesis
  proof (cases "c \<in> set (sn_aborted s)")
    case True
    have "ProgramWait c \<notin> set (sn_tasks s)" using ok True by (auto simp: snippet_ok_def run_ok_def)
    then show ?thesis using fail_ok [OF ok2, of c] c True by (simp add: start_program_def compiling_def)
  next
    case False
    have "distinct (map fst (sn_started s @ [(c, code)]) @ compiling s)" using ok c by (auto simp: snippet_ok_def records_ok_def)
    then show ?thesis using False ok c given alone
      by (auto simp: start_program_def snippet_ok_def records_ok_def run_ok_def compiling_def)
  qed
qed

lemma abort_ok:
  assumes ok: "snippet_ok s" and c: "sn_controller s = Some c"
  shows "snippet_ok (abort_run c s)"
proof -
  have eq: "concat (map waits_compile (removeAll (ProgramWait c) ts)) = concat (map waits_compile ts)" for ts by (induction ts) auto
  have le: "length (filter is_program (removeAll (ProgramWait c) ts)) \<le> length (filter is_program ts)" for ts by (induction ts) auto
  show ?thesis using ok c le [of "sn_tasks s"] by (auto simp: abort_run_def snippet_ok_def records_ok_def run_ok_def compiling_def eq)
qed

lemma marks_ok [simp]: "snippet_ok (snippet_marks ds s) = snippet_ok s"
  by (rule snippet_ok_cong) (simp_all add: snippet_marks_def)

lemma panel_ok [simp]: "snippet_ok (s\<lparr>sn_panel := x\<rparr>) = snippet_ok s"
  by (rule snippet_ok_cong) simp_all

lemma given_fields [simp]: "sn_given (snippet_marks ds s) = sn_given s" "sn_given (drop_wait t s) = sn_given s"
  by (simp_all add: snippet_marks_def drop_wait_def)

lemma keep_compiled_ok: "snippet_ok s \<Longrightarrow> (source, code) \<in> set (sn_given s) \<Longrightarrow> snippet_ok (keep_compiled source code s)"
  by (auto simp: keep_compiled_def snippet_ok_def records_ok_def run_ok_def compiling_def)

text \<open>The answer at hand is recorded.\<close>

definition answer_logged :: "snippet_task \<Rightarrow> jstr \<Rightarrow> compiled settlement \<Rightarrow> snippet \<Rightarrow> bool" where
  "answer_logged w source r s \<longleftrightarrow> (\<forall>a. r = Resolved (Ok a) \<and> w \<in> set (sn_tasks s) \<longrightarrow> (source, cp_code a) \<in> set (sn_given s))"

lemma log_answer_ok:
  assumes "snippet_ok s"
  shows "snippet_ok (log_answer w source r s)" "answer_logged w source r (log_answer w source r s)"
  using assms by (auto simp: log_answer_def answer_logged_def snippet_ok_def records_ok_def run_ok_def compiling_def
      split: settlement.split response.split)

lemma check_settles_ok: "snippet_ok s \<Longrightarrow> snippet_ok (check_settles g r s)"
  using drop_wait_ok(1) [of s "CheckWait g"]
  by (auto simp: check_settles_def Let_def split: settlement.split response.split)

lemma lua_settles_ok:
  assumes "snippet_ok s" "answer_logged (LuaWait g source) source r s"
  shows "snippet_ok (lua_settles g source r s)"
proof (cases "LuaWait g source \<in> set (sn_tasks s)")
  case True
  note dropped = drop_wait_ok(1) [OF assms(1) True]
  have "snippet_ok (keep_compiled source (cp_code a) (snippet_marks ds (drop_wait (LuaWait g source) s)))" if "r = Resolved (Ok a)" for a ds
    using dropped assms(2) True that by (intro keep_compiled_ok) (simp_all add: answer_logged_def)
  with dropped True show ?thesis by (auto simp: lua_settles_def Let_def split: settlement.split response.split)
qed (use assms in \<open>simp add: lua_settles_def\<close>)

lemma showLua_ok:
  assumes "snippet_ok s"
  shows "snippet_ok (showLua s)"
proof -
  let ?s = "activateTab LuaTab s"
  have ok: "snippet_ok ?s" using assms by (subst snippet_ok_cong [of _ s]) (simp_all add: activateTab_def)
  then have "snippet_ok (?s\<lparr>sn_luaGeneration := g, sn_panel := p, sn_tasks := sn_tasks ?s @ [LuaWait g d]\<rparr>)" for g p d
    by (rule add_wait_ok [where w = "LuaWait g d"]) simp_all
  with ok assms show ?thesis by (simp add: showLua_def Let_def)
qed

lemma run_snippet_ok:
  assumes ok: "snippet_ok s"
  shows "snippet_ok (run_snippet s)"
proof (cases "sn_live s")
  case live: True
  show ?thesis
  proof (cases "sn_controller s")
    case (Some c)
    note aborted = abort_ok [OF ok Some]
    have "ProgramWait c \<notin> set (sn_tasks (abort_run c s))" by (simp add: abort_run_def)
    moreover have "c \<notin> set (compiling (abort_run c s))" if "ProgramWait c \<in> set (sn_tasks s)"
    proof -
      have "c \<in> fst ` set (sn_started s)" using ok that by (simp add: snippet_ok_def run_ok_def)
      moreover have "sn_started (abort_run c s) = sn_started s" by (simp add: abort_run_def)
      ultimately show ?thesis using aborted by (auto simp: snippet_ok_def records_ok_def)
    qed
    ultimately show ?thesis using live Some aborted by (simp add: run_snippet_def fail_ok)
  next
    case None
    let ?c = "sn_controllers s"
    let ?s = "s\<lparr>sn_controller := Some ?c, sn_controllers := ?c + 1, sn_button := js ''Stop'', sn_outputHidden := False,
       sn_summary := js ''compiling'' @ ellipsis, sn_main := [], sn_clicks := sn_clicks s @ [(?c, sn_doc s)]\<rparr>"
    have same: "compiling ?s = compiling s" by (simp add: compiling_def)
    have fresh: "?c \<notin> set (compiling s)" "?c \<notin> fst ` set (sn_started s)"
      using ok compiling_clicked [of s ?c] started_clicked [of s ?c] by (auto simp: snippet_ok_def)
    have none: "filter is_program (sn_tasks s) = []" using no_program ok None by (simp add: snippet_ok_def)
    then have no_wait: "ProgramWait d \<notin> set (sn_tasks s)" for d by (auto simp: filter_empty_conv)
    have ok2: "snippet_ok ?s"
      using ok None no_wait none unfolding snippet_ok_def records_ok_def run_ok_def same by (auto simp: less_Suc_eq)
    have "snippet_ok (start_program ?c (sn_compiledCode s) ?s)" if "sn_compiledSource s = Some (sn_doc s)"
      using ok that fresh same by (intro start_program_ok [OF ok2, of _ "sn_doc s"]) (auto simp: snippet_ok_def records_ok_def)
    moreover have "snippet_ok (?s\<lparr>sn_tasks := sn_tasks s @ [CompileWait ?c (sn_doc s)]\<rparr>)"
      using ok2 fresh same by (auto simp: snippet_ok_def records_ok_def run_ok_def compiling_def)
    ultimately show ?thesis using live None by (simp add: run_snippet_def Let_def)
  qed
qed (use ok in \<open>simp add: run_snippet_def\<close>)

lemma compile_settles_ok:
  assumes ok: "snippet_ok s" and logged: "answer_logged (CompileWait c source) source r s"
  shows "snippet_ok (compile_settles c source r s)"
proof (cases "CompileWait c source \<in> set (sn_tasks s)")
  case True
  let ?s = "drop_wait (CompileWait c source) s"
  note dropped = drop_wait_ok [OF ok True]
  have idle: "c \<notin> set (compiling ?s)" using dropped(2) by simp
  have member: "c \<in> set (compiling s)" using True by (force simp: compiling_def)
  then have unstarted: "c \<notin> fst ` set (sn_started s)" using ok by (auto simp: snippet_ok_def records_ok_def)
  then have no_program: "ProgramWait c \<notin> set (sn_tasks ?s)" using dropped(1) by (auto simp: snippet_ok_def run_ok_def drop_wait_def)
  have clicked: "(c, source) \<in> set (sn_clicks s)" using ok True by (simp add: snippet_ok_def records_ok_def)
  have ends: "snippet_ok (fail_snippet_run c e ?s)" "snippet_ok (finish_snippet_run c ?s)" for e
    using fail_ok [OF dropped(1) idle no_program] finish_ok [OF dropped(1) idle no_program] by simp_all
  have shown: "snippet_ok (finish_snippet_run c ((snippet_marks ds ?s)\<lparr>sn_summary := x, sn_main := y\<rparr>))" for ds x y
  proof (rule finish_ok)
    show "snippet_ok ((snippet_marks ds ?s)\<lparr>sn_summary := x, sn_main := y\<rparr>)"
      using dropped(1) by (subst snippet_ok_cong [of _ ?s]) (simp_all add: snippet_marks_def)
  qed (use idle no_program in \<open>simp_all add: snippet_marks_def compiling_def\<close>)
  have started: "snippet_ok (start_program c code (keep_compiled source code (snippet_marks ds ?s)))"
    if "c \<notin> set (sn_aborted ?s)" "(source, code) \<in> set (sn_given s)" for code ds
  proof (rule start_program_ok [where source = source])
    show "snippet_ok (keep_compiled source code (snippet_marks ds ?s))"
      using dropped(1) that(2) by (intro keep_compiled_ok) simp_all
    show "sn_controller (keep_compiled source code (snippet_marks ds ?s)) = Some c"
      using ok member that by (auto simp: snippet_ok_def run_ok_def keep_compiled_def snippet_marks_def drop_wait_def)
    show "c \<notin> set (compiling (keep_compiled source code (snippet_marks ds ?s)))" using idle by (simp add: compiling_def keep_compiled_def snippet_marks_def)
  qed (use unstarted clicked that(2) in \<open>simp_all add: keep_compiled_def snippet_marks_def drop_wait_def\<close>)
  show ?thesis using True ends shown started logged by (simp add: compile_settles_def answer_logged_def Let_def split: settlement.split response.split)
qed (use ok in \<open>simp add: compile_settles_def\<close>)

lemma single_program: "length (filter is_program ts) \<le> 1 \<Longrightarrow> ProgramWait c \<in> set ts \<Longrightarrow> ProgramWait c \<notin> set (remove1 (ProgramWait c) ts)"
  by (induction ts) (auto simp: filter_empty_conv split: if_splits)

lemma program_ends_ok:
  assumes ok: "snippet_ok s"
  shows "snippet_ok (program_ends c r s)"
proof (cases "ProgramWait c \<in> set (sn_tasks s)")
  case True
  let ?s = "drop_wait (ProgramWait c) s"
  note dropped = drop_wait_ok [OF ok True]
  have "c \<in> fst ` set (sn_started s)" using ok True by (simp add: snippet_ok_def run_ok_def)
  then have "c \<notin> set (compiling s)" using ok by (auto simp: snippet_ok_def records_ok_def)
  with dropped(2) have idle: "c \<notin> set (compiling ?s)" by simp
  have "length (filter is_program (sn_tasks s)) \<le> 1" using ok by (simp add: snippet_ok_def run_ok_def)
  with True have "ProgramWait c \<notin> set (remove1 (ProgramWait c) (sn_tasks s))"
    using single_program by blast
  then have no_program: "ProgramWait c \<notin> set (sn_tasks ?s)" by (simp add: drop_wait_def)
  have "snippet_ok (finish_snippet_run c (?s\<lparr>sn_summary := x, sn_main := y\<rparr>))" for x y
  proof (rule finish_ok)
    show "snippet_ok (?s\<lparr>sn_summary := x, sn_main := y\<rparr>)" using dropped(1) by (subst snippet_ok_cong [of _ ?s]) simp_all
  qed (use idle no_program in \<open>simp_all add: compiling_def\<close>)
  then show ?thesis using True fail_ok [OF dropped(1) idle no_program] finish_ok [OF dropped(1) idle no_program]
    by (simp add: program_ends_def Let_def split: sum.split)
qed (use ok in \<open>simp add: program_ends_def\<close>)

lemma disconnected_ok:
  assumes ok: "snippet_ok s"
  shows "snippet_ok (disconnectedCallback s)"
proof -
  let ?s = "case sn_controller s of Some c \<Rightarrow> abort_run c s | None \<Rightarrow> s"
  have ok2: "snippet_ok ?s" using ok abort_ok by (auto split: option.split)
  have "\<forall>c \<in> set (compiling ?s). c \<in> set (sn_aborted ?s)" "\<forall>c. ProgramWait c \<notin> set (sn_tasks ?s)"
    using ok2 ok by (cases "sn_controller s"; auto simp: snippet_ok_def run_ok_def abort_run_def)+
  with ok2 show ?thesis by (auto simp: disconnectedCallback_def Let_def snippet_ok_def records_ok_def run_ok_def compiling_def)
qed

lemma snippet_step_ok: "snippet_ok s \<Longrightarrow> snippet_ok (snippet_step e s)"
proof (cases e)
  case (Connect source)
  assume ok: "snippet_ok s"
  then show ?thesis using Connect by (simp add: connectedCallback_def) (auto intro: forget_compiled_ok [OF ok])
next
  case (Edit new)
  assume ok: "snippet_ok s"
  then show ?thesis using Edit
    by (simp add: edit_snippet_def invalidateCompiled_def scheduleCheck_def activateTab_def) (auto intro: forget_compiled_ok [OF ok])
next
  case TimerFires
  assume ok: "snippet_ok s"
  then show ?thesis using TimerFires
    by (simp add: snippet_check_def Let_def) (auto intro: add_wait_ok [OF ok, where w = "CheckWait (Suc (sn_checkGeneration s))"])
next
  case ClickNupp
  assume ok: "snippet_ok s"
  then show ?thesis using ClickNupp by (simp add: activateTab_def snippet_ok_cong [of "s\<lparr>sn_tab := NuppTab\<rparr>" s])
next
  case CloseOutput
  assume ok: "snippet_ok s"
  then show ?thesis using CloseOutput by (simp add: snippet_ok_cong [of "s\<lparr>sn_outputHidden := True\<rparr>" s])
qed (simp_all add: disconnected_ok showLua_ok run_snippet_ok check_settles_ok lua_settles_ok compile_settles_ok program_ends_ok log_answer_ok)

interpretation sn: machine snippet_step snippet_ok
  by unfold_locales (rule snippet_step_ok)

abbreviation snippet_after :: "snippet_event list \<Rightarrow> snippet" where
  "snippet_after es \<equiv> run_events snippet_step es new_snippet"

lemma snippet_after_ok: "snippet_ok (snippet_after es)"
  by (rule sn.inv_run) (simp add: snippet_ok_def records_ok_def run_ok_def compiling_def new_snippet_def)

section \<open>Properties\<close>

text \<open>C17. Run runs what the reader sees: every program an editor starts is code the compiler answered when it was asked to compile the text that stood in the editor when Run was clicked, however the text is edited,
  tabs are switched and runs are stopped while the compiler works. A click starts at most one program, and at most one program of an editor runs at any time.
\<close>

theorem run_starts_shown_program:
  "list_all (\<lambda>(c, code). list_ex (\<lambda>(d, source). d = c \<and> (source, code) \<in> set (sn_given (snippet_after es))) (sn_clicks (snippet_after es)))
     (sn_started (snippet_after es))
   \<and> map fst (sn_clicks (snippet_after es)) = [0..<sn_controllers (snippet_after es)]
   \<and> distinct (map fst (sn_started (snippet_after es)))
   \<and> length (filter is_program (sn_tasks (snippet_after es))) \<le> 1"
  using snippet_after_ok [of es]
  by (fastforce simp: snippet_ok_def records_ok_def run_ok_def list_all_iff list_ex_iff)

text \<open>After a run the Lua tab shows nothing: \<^verbatim>\<open>run\<close> keeps the compiled program without rendering it, and \<^verbatim>\<open>showLua\<close> takes a kept program as one that is already shown.
\<close>

theorem lua_tab_after_run_is_empty:
  assumes "cp_code a \<noteq> []"
  shows "sn_tab (snippet_after [Connect source, ClickRun, CompileSettles 0 source (Resolved (Ok a)), ClickLua]) = LuaTab \<and>
    sn_panel (snippet_after [Connect source, ClickRun, CompileSettles 0 source (Resolved (Ok a)), ClickLua]) = PanelText []"
  using assms by (simp add: new_snippet_def connectedCallback_def run_snippet_def compile_settles_def drop_wait_def keep_compiled_def snippet_marks_def
      start_program_def log_answer_def showLua_def activateTab_def Let_def)

definition sample_compiled :: compiled where
  "sample_compiled = \<lparr>cp_code = js ''return 1'', cp_reason = [], cp_diagnostics = []\<rparr>"

theorem lua_tab_after_run_is_empty_witness:
  "cp_code sample_compiled \<noteq> [] \<and>
   sn_panel (snippet_after [Connect (js ''return 1''), ClickRun, CompileSettles 0 (js ''return 1'') (Resolved (Ok sample_compiled)), ClickLua]) = PanelText []"
  using lua_tab_after_run_is_empty [of sample_compiled "js ''return 1''"] by (simp add: sample_compiled_def js_def)

text \<open>With an edit in between, the tab shows the Lua of the text before the edit as that of the present one.\<close>

lemma lua_tab_after_run_is_stale:
  assumes "old \<noteq> new" "cp_code a \<noteq> []" "cp_code b \<noteq> []"
  shows "let s = snippet_after [Connect old, ClickLua, Edit new, LuaSettles 1 old (Resolved (Ok a)), ClickRun, CompileSettles 0 new (Resolved (Ok b)), ClickLua]
    in sn_tab s = LuaTab \<and> sn_doc s = new \<and> sn_panel s = PanelLua (cp_code a)"
  using assms by (simp add: new_snippet_def connectedCallback_def run_snippet_def compile_settles_def drop_wait_def keep_compiled_def snippet_marks_def
      start_program_def log_answer_def showLua_def activateTab_def edit_snippet_def invalidateCompiled_def scheduleCheck_def lua_settles_def Let_def)

end
