(* ===== verification/Playground.thy ===== *)
theory Playground
  imports CompilerClient Diagnostics PlaygroundLink Snippet
begin

text \<open>
  The full playground, \<^verbatim>\<open>src/editors/playground/src/app.js\<close>: the requests to its compiler worker, checks after an edit, compiling and running, and stopping either.
  As on the documentation pages an event is one turn of the event loop with the continuations that run before the next.
\<close>

section \<open>State\<close>

text \<open>What a request is for: a check of a text in a generation, a compilation of a text, a hover.\<close>

datatype play_wait = CheckRequest nat jstr | CompileRequest jstr | HoverRequest nat

text \<open>The promise \<^verbatim>\<open>workerReady\<close>; a worker that could not boot leaves it rejected.\<close>

datatype play_ready = NoWorker | WorkerStarts | WorkerRuns | WorkerFailed jstr

text \<open>
  A request is numbered in the order of the calls. \<open>pl_waiting\<close> are the requests that wait for the worker to be ready, \<open>pl_pending\<close> those whose message was
  posted, \<open>pl_answered\<close> the numbers of those that got their result. \<open>pl_program\<close> says that a program runs, so that \<^verbatim>\<open>cancelRun\<close> is set, with the diagnostics its
  compilation gave. \<open>pl_shown\<close> and \<open>pl_posted\<close> only record the checks that were shown and the messages posted.
\<close>

record play =
  pl_worker :: "nat option"
  pl_workers :: nat
  pl_ready :: play_ready
  pl_nextId :: nat
  pl_waiting :: "(nat \<times> play_wait) list"
  pl_pending :: "(nat, nat \<times> play_wait) jmap"
  pl_requests :: nat
  pl_answered :: "nat list"
  pl_doc :: jstr
  pl_timer :: bool
  pl_checkGeneration :: nat
  pl_compilePending :: bool
  pl_program :: "diagnosis list option"
  pl_status :: "jstr \<times> bool"
  pl_busy :: bool
  pl_expanded :: bool
  pl_output :: jstr
  pl_summary :: "jstr \<times> bool"
  pl_markers :: "marker list"
  pl_list :: "diagnosis list"
  pl_activated :: bool
  pl_firstCheck :: bool
  pl_shown :: "(nat \<times> jstr) list"
  pl_posted :: "(nat \<times> nat \<times> play_wait) list"

definition new_play :: "jstr \<Rightarrow> play" where
  "new_play source = \<lparr>pl_worker = None, pl_workers = 0, pl_ready = NoWorker, pl_nextId = 1, pl_waiting = [], pl_pending = [], pl_requests = 0, pl_answered = [],
     pl_doc = source, pl_timer = False, pl_checkGeneration = 0, pl_compilePending = False, pl_program = None, pl_status = ([], False), pl_busy = False,
     pl_expanded = False, pl_output = [], pl_summary = ([], False), pl_markers = [], pl_list = [], pl_activated = False, pl_firstCheck = False, pl_shown = [], pl_posted = []\<rparr>"

definition setStatus :: "jstr \<Rightarrow> bool \<Rightarrow> play \<Rightarrow> play" where
  "setStatus t isError p = p\<lparr>pl_status := (t, isError)\<rparr>"

definition setBusy :: "bool \<Rightarrow> play \<Rightarrow> play" where
  "setBusy b p = p\<lparr>pl_busy := b\<rparr>"

definition setOutput :: "jstr \<Rightarrow> play \<Rightarrow> play" where
  "setOutput t p = p\<lparr>pl_output := t\<rparr>"

definition setOutputSummary :: "diagnosis list \<Rightarrow> jstr \<Rightarrow> play \<Rightarrow> play" where
  "setOutputSummary ds extra p = p\<lparr>pl_summary := output_summary ds extra\<rparr>"

definition applyDiagnostics :: "diagnosis list \<Rightarrow> play \<Rightarrow> play" where
  "applyDiagnostics ds p = p\<lparr>pl_list := ds, pl_markers := play_markers (int (length (pl_doc p))) ds\<rparr>"

section \<open>The worker\<close>

definition startWorker :: "play \<Rightarrow> play" where
  "startWorker p =
    (if pl_ready p \<noteq> NoWorker then p
     else (setStatus (js ''starting'' @ ellipsis) False (setBusy True p))\<lparr>pl_ready := WorkerStarts, pl_worker := Some (pl_workers p), pl_workers := pl_workers p + 1\<rparr>)"

definition post_request :: "nat \<times> play_wait \<Rightarrow> play \<Rightarrow> play" where
  "post_request t p =
    (let n = pl_nextId p in
     p\<lparr>pl_nextId := n + 1, pl_pending := mset (pl_pending p) n t, pl_posted := pl_posted p @ [(the (pl_worker p), n, snd t)]\<rparr>)"

section \<open>What follows a result\<close>

text \<open>\<^verbatim>\<open>checkNow\<close> after its await.\<close>

definition show_check :: "nat \<Rightarrow> jstr \<Rightarrow> compiled response \<Rightarrow> play \<Rightarrow> play" where
  "show_check generation source r p =
    (if generation \<noteq> pl_checkGeneration p then p else
     case r of
       NotOk e \<Rightarrow> setStatus (js ''error: '' @ e) True p
     | Ok a \<Rightarrow>
        let ds = cp_diagnostics a; (errors, warnings, t) = summarize ds;
            p1 = setOutputSummary ds [] (setStatus (if t \<noteq> [] then t else js ''checked, clean'') (errors > 0) (applyDiagnostics ds p)) in
        (setOutput (join [10] (map diagnosticText ds)) p1)\<lparr>pl_shown := pl_shown p @ [(generation, source)]\<rparr>)"

text \<open>The \<^verbatim>\<open>finally\<close> of \<^verbatim>\<open>compileNow\<close>.\<close>

definition end_compile :: "play \<Rightarrow> play" where
  "end_compile p = (setBusy False p)\<lparr>pl_compilePending := False\<rparr>"

text \<open>\<^verbatim>\<open>compileNow\<close> after its request: the program starts, or there is none.\<close>

definition show_compile :: "compiled response \<Rightarrow> play \<Rightarrow> play" where
  "show_compile r p =
    (case r of
       NotOk e \<Rightarrow> end_compile ((setOutput (js ''-- '' @ e) p)\<lparr>pl_summary := (js ''failed'', True)\<rparr>)
     | Ok a \<Rightarrow>
        let ds = cp_diagnostics a; (errors, warnings, t) = summarize ds;
            p1 = setStatus (if t \<noteq> [] then t else js ''checked, clean'') (errors > 0) (applyDiagnostics ds p) in
        if cp_code a \<noteq> [] then (setOutputSummary ds (js ''running'' @ ellipsis) p1)\<lparr>pl_program := Some ds\<rparr>
        else end_compile (setOutputSummary ds (cp_reason a)
               (setOutput (join [10] ([js ''-- '' @ cp_reason a, []] @ map diagnosticText ds)) p1)))"

definition answer_request :: "compiled response \<Rightarrow> nat \<times> play_wait \<Rightarrow> play \<Rightarrow> play" where
  "answer_request r t p0 =
    (let p = p0\<lparr>pl_answered := pl_answered p0 @ [fst t]\<rparr> in
     case snd t of
       CheckRequest generation source \<Rightarrow> show_check generation source r p
     | CompileRequest source \<Rightarrow> show_compile r p
     | HoverRequest offset \<Rightarrow> p)"

definition request_worker :: "play_wait \<Rightarrow> play \<Rightarrow> play" where
  "request_worker w p0 =
    (let t = (pl_requests p0, w); p = startWorker (p0\<lparr>pl_requests := pl_requests p0 + 1\<rparr>) in
     case pl_ready p of
       WorkerRuns \<Rightarrow> post_request t p
     | WorkerFailed e \<Rightarrow> answer_request (NotOk e) t p
     | _ \<Rightarrow> p\<lparr>pl_waiting := pl_waiting p @ [t]\<rparr>)"

definition checkNow :: "play \<Rightarrow> play" where
  "checkNow p0 =
    (let generation = pl_checkGeneration p0 + 1;
         p = setStatus (js ''checking'' @ ellipsis) False (p0\<lparr>pl_checkGeneration := generation\<rparr>) in
     request_worker (CheckRequest generation (pl_doc p)) p)"

section \<open>Messages of the worker\<close>

text \<open>The first check, which \<^verbatim>\<open>activateCompiler\<close> asks for, is posted behind the requests that wait already.\<close>

definition worker_runs :: "nat \<Rightarrow> play \<Rightarrow> play" where
  "worker_runs i p =
    (if pl_worker p \<noteq> Some i \<or> pl_ready p \<noteq> WorkerStarts then p else
     let p1 = fold post_request (pl_waiting p) ((setBusy False (setStatus (js ''ready'') False p))\<lparr>pl_ready := WorkerRuns, pl_waiting := []\<rparr>) in
     if pl_firstCheck p1 then checkNow (p1\<lparr>pl_firstCheck := False\<rparr>) else p1)"

definition worker_cannot_boot :: "nat \<Rightarrow> jstr \<Rightarrow> play \<Rightarrow> play" where
  "worker_cannot_boot i said p =
    (if pl_worker p \<noteq> Some i \<or> pl_ready p \<noteq> WorkerStarts then p else
     let p1 = setOutput (js ''-- the compiler failed to start'' @ [10, 10] @ said) (setBusy False (setStatus (js ''failed to start: '' @ said) True p)) in
     fold (answer_request (NotOk said)) (pl_waiting p)
       (p1\<lparr>pl_summary := (js ''failed to start'', True), pl_expanded := True, pl_ready := WorkerFailed said, pl_waiting := [], pl_firstCheck := False\<rparr>))"

definition worker_answers :: "nat \<Rightarrow> nat \<Rightarrow> compiled response \<Rightarrow> play \<Rightarrow> play" where
  "worker_answers i n r p =
    (if pl_worker p \<noteq> Some i then p else
     case mget (pl_pending p) n of None \<Rightarrow> p
     | Some t \<Rightarrow> answer_request r t (p\<lparr>pl_pending := mdelete (pl_pending p) n\<rparr>))"

definition closeCompiler :: "jstr \<Rightarrow> play \<Rightarrow> play" where
  "closeCompiler reason p =
    fold (answer_request (NotOk reason)) (pl_waiting p @ mvalues (pl_pending p))
      (p\<lparr>pl_waiting := [], pl_pending := [], pl_worker := None, pl_ready := NoWorker, pl_firstCheck := False\<rparr>)"

definition worker_breaks :: "nat \<Rightarrow> jstr \<Rightarrow> play \<Rightarrow> play" where
  "worker_breaks i said p =
    (if pl_worker p \<noteq> Some i then p else
     let reason = (if said \<noteq> [] then said else js ''the compiler worker failed to start'') in
     closeCompiler reason (setStatus (js ''failed to start: '' @ reason) True (setBusy False p)))"

section \<open>What the reader does\<close>

definition edit_play :: "jstr \<Rightarrow> play \<Rightarrow> play" where
  "edit_play new p = p\<lparr>pl_doc := new, pl_timer := True\<rparr>"

definition check_timer :: "play \<Rightarrow> play" where
  "check_timer p = (if pl_timer p then checkNow (p\<lparr>pl_timer := False\<rparr>) else p)"

text \<open>The program's worker replies, fails, takes more than ten seconds, or is stopped: the rest of \<^verbatim>\<open>compileNow\<close>.\<close>

definition runtime_error :: diagnosis where
  "runtime_error = \<lparr>dg_line = 0, dg_col = 0, dg_severity = ''error'', dg_code = [], dg_msg = [], dg_help = [], dg_offset = None, dg_length = 0\<rparr>"

definition program_settles :: "jstr + jstr \<Rightarrow> play \<Rightarrow> play" where
  "program_settles r p0 =
    (case pl_program p0 of None \<Rightarrow> p0
     | Some ds \<Rightarrow>
        let p = p0\<lparr>pl_program := None\<rparr> in
        end_compile (case r of
          Inr stdout \<Rightarrow> setOutputSummary ds (js ''ran'') (setOutput stdout p)
        | Inl e \<Rightarrow> setOutputSummary [runtime_error] (js ''runtime error'') (setOutput (js ''-- '' @ e) p)))"

definition compileNow :: "play \<Rightarrow> play" where
  "compileNow p0 =
    (if pl_compilePending p0 then
       (if pl_program p0 \<noteq> None then program_settles (Inl (js ''Program stopped'')) p0 else closeCompiler (js ''Compiler stopped'') p0)
     else
       let p = (setBusy True (setOutputSummary [] (js ''compiling'' @ ellipsis) (setOutput [] (setStatus (js ''compiling'' @ ellipsis) False p0))))
             \<lparr>pl_compilePending := True, pl_timer := False, pl_checkGeneration := pl_checkGeneration p0 + 1, pl_expanded := True\<rparr> in
       request_worker (CompileRequest (pl_doc p)) p)"

definition loadExample :: "jstr \<Rightarrow> play \<Rightarrow> play" where
  "loadExample source p = setOutput [] (edit_play source p)"

definition hover_play :: "nat \<Rightarrow> play \<Rightarrow> play" where
  "hover_play offset p = request_worker (HoverRequest offset) p"

text \<open>\<^verbatim>\<open>activateCompiler\<close>: the worker starts, and the first check waits for it.\<close>

definition activateCompiler :: "play \<Rightarrow> play" where
  "activateCompiler p =
    (if pl_activated p then p else
     let p1 = startWorker (p\<lparr>pl_activated := True\<rparr>) in
     case pl_ready p1 of WorkerRuns \<Rightarrow> checkNow p1 | WorkerStarts \<Rightarrow> p1\<lparr>pl_firstCheck := True\<rparr> | _ \<Rightarrow> p1)"

definition page_hides :: "play \<Rightarrow> play" where
  "page_hides p = closeCompiler (js ''Page closed'') (program_settles (Inl (js ''Program stopped'')) p)"

datatype play_event =
    Activates
  | Edits jstr
  | LoadsExample jstr
  | TimerEnds
  | ChangesOption
  | Hovers nat
  | ClicksRun
  | PageHides
  | WorkerRunning nat
  | WorkerNoBoot nat jstr
  | WorkerAnswers nat nat "compiled response"
  | WorkerBreaks nat jstr
  | ProgramSettles "jstr + jstr"

fun play_step :: "play_event \<Rightarrow> play \<Rightarrow> play" where
  "play_step Activates p = activateCompiler p"
| "play_step (Edits new) p = edit_play new p"
| "play_step (LoadsExample source) p = loadExample source p"
| "play_step TimerEnds p = check_timer p"
| "play_step ChangesOption p = checkNow p"
| "play_step (Hovers offset) p = hover_play offset p"
| "play_step ClicksRun p = compileNow p"
| "play_step PageHides p = page_hides p"
| "play_step (WorkerRunning i) p = worker_runs i p"
| "play_step (WorkerNoBoot i said) p = worker_cannot_boot i said p"
| "play_step (WorkerAnswers i n r) p = worker_answers i n r p"
| "play_step (WorkerBreaks i said) p = worker_breaks i said p"
| "play_step (ProgramSettles r) p = program_settles r p"

section \<open>The invariant\<close>

text \<open>The requests that have no result yet.\<close>

definition outstanding :: "play \<Rightarrow> (nat \<times> play_wait) list" where
  "outstanding p = pl_waiting p @ mvalues (pl_pending p)"

fun compiles :: "nat \<times> play_wait \<Rightarrow> bool" where
  "compiles (n, CompileRequest source) = True"
| "compiles t = False"

fun generation_of :: "nat \<times> play_wait \<Rightarrow> nat list" where
  "generation_of (n, CheckRequest g s) = [g]"
| "generation_of t = []"

abbreviation generations :: "(nat \<times> play_wait) list \<Rightarrow> nat list" where
  "generations out \<equiv> concat (map generation_of out)"

text \<open>
  With \<open>out\<close> as the requests without a result: every request is answered once or among them; a compilation is pending exactly while one of them is a
  compilation or a program runs; the checks shown are of ever newer generations.
\<close>

definition play_core :: "(nat \<times> play_wait) list \<Rightarrow> play \<Rightarrow> bool" where
  "play_core out p \<longleftrightarrow>
    distinct (pl_answered p @ map fst out) \<and> set (pl_answered p @ map fst out) = {0..<pl_requests p} \<and>
    length (filter compiles out) + (if pl_program p = None then 0 else 1) = (if pl_compilePending p then 1 else 0) \<and>
    sorted_wrt (<) (map fst (pl_shown p)) \<and> distinct (map fst (pl_shown p) @ generations out) \<and>
    (\<forall>g \<in> set (map fst (pl_shown p) @ generations out). g \<le> pl_checkGeneration p)"

definition play_frame :: "play \<Rightarrow> bool" where
  "play_frame p \<longleftrightarrow>
    (\<forall>n t. mget (pl_pending p) n = Some t \<longrightarrow> n < pl_nextId p) \<and> wf_map (pl_pending p) \<and>
    (pl_worker p = None \<longleftrightarrow> pl_ready p = NoWorker) \<and>
    (pl_waiting p \<noteq> [] \<longrightarrow> pl_ready p = WorkerStarts) \<and> (pl_pending p \<noteq> [] \<longrightarrow> pl_ready p = WorkerRuns)"

definition play_ok :: "play \<Rightarrow> bool" where
  "play_ok p \<longleftrightarrow> play_core (outstanding p) p \<and> play_frame p"

text \<open>What stays when a result is handed over.\<close>

definition same_requests :: "play \<Rightarrow> play \<Rightarrow> bool" where
  "same_requests p q \<longleftrightarrow> pl_waiting q = pl_waiting p \<and> pl_pending q = pl_pending p \<and> pl_nextId q = pl_nextId p \<and> pl_worker q = pl_worker p \<and>
     pl_workers q = pl_workers p \<and> pl_ready q = pl_ready p \<and> pl_firstCheck q = pl_firstCheck p \<and> pl_posted q = pl_posted p \<and> pl_doc q = pl_doc p \<and>
     pl_requests q = pl_requests p \<and> pl_checkGeneration q = pl_checkGeneration p"

lemmas screen_defs = setStatus_def setBusy_def setOutput_def setOutputSummary_def applyDiagnostics_def end_compile_def

lemma answer_same: "same_requests p (answer_request r t p)"
  by (auto simp: same_requests_def answer_request_def show_check_def show_compile_def screen_defs Let_def split: play_wait.split response.split prod.split)

lemma same_play_frame: "same_requests p q \<Longrightarrow> play_frame q = play_frame p"
  by (simp add: same_requests_def play_frame_def)

lemma answer_core:
  assumes core: "play_core (xs @ t # ys) p"
  shows "play_core (xs @ ys) (answer_request r t p)"
proof -
  obtain n w where t: "t = (n, w)" by (cases t)
  have same: "set ((pl_answered p @ [n]) @ map fst (xs @ ys)) = set (pl_answered p @ map fst (xs @ t # ys))" by (auto simp: t)
  have books: "distinct ((pl_answered p @ [n]) @ map fst (xs @ ys))" "set ((pl_answered p @ [n]) @ map fst (xs @ ys)) = {0..<pl_requests p}"
    using core unfolding same by (auto simp: play_core_def t)
  show ?thesis
  proof (cases w)
    case (CheckRequest g s)
    have shown: "map fst (pl_shown (show_check g s r q)) = map fst (pl_shown q) @ (if g = pl_checkGeneration q \<and> (\<exists>a. r = Ok a) then [g] else [])" for q
      by (auto simp: show_check_def screen_defs Let_def split: response.split prod.split)
    have kept: "pl_answered (show_check g s r q) = pl_answered q" "pl_requests (show_check g s r q) = pl_requests q" "pl_program (show_check g s r q) = pl_program q"
      "pl_compilePending (show_check g s r q) = pl_compilePending q" "pl_checkGeneration (show_check g s r q) = pl_checkGeneration q" for q
      by (auto simp: show_check_def screen_defs Let_def split: response.split prod.split)
    let ?S = "map fst (pl_shown p)"
    have gens: "sorted_wrt (<) ?S" "distinct (?S @ generations xs @ [g] @ generations ys)" "\<forall>h \<in> set (?S @ generations xs @ [g] @ generations ys). h \<le> pl_checkGeneration p"
      and count: "length (filter compiles (xs @ ys)) + (if pl_program p = None then 0 else 1) = (if pl_compilePending p then 1 else 0)"
      using core t CheckRequest by (simp_all add: play_core_def)
    have less: "\<forall>h \<in> set ?S. h < g" if "g = pl_checkGeneration p"
    proof
      fix h assume h: "h \<in> set ?S"
      with gens(2) have "h \<noteq> g" by auto
      moreover from gens(3) h that have "h \<le> g" by (metis Un_iff set_append)
      ultimately show "h < g" by simp
    qed
    have "sorted_wrt (<) (?S @ new)" "distinct ((?S @ new) @ generations (xs @ ys))" "\<forall>h \<in> set ((?S @ new) @ generations (xs @ ys)). h \<le> pl_checkGeneration p"
      if "new = (if g = pl_checkGeneration p \<and> (\<exists>a. r = Ok a) then [g] else [])" for new
      using gens less that by (auto simp: sorted_wrt_append)
    then show ?thesis using books count t CheckRequest unfolding play_core_def by (simp add: answer_request_def shown kept)
  next
    case (CompileRequest s)
    have kept: "pl_answered (show_compile r q) = pl_answered q" "pl_requests (show_compile r q) = pl_requests q" "pl_shown (show_compile r q) = pl_shown q"
      "pl_checkGeneration (show_compile r q) = pl_checkGeneration q" for q
      by (auto simp: show_compile_def screen_defs Let_def split: response.split prod.split)
    have ends: "pl_compilePending (show_compile r q) = (pl_program (show_compile r q) \<noteq> None)" if "pl_program q = None" "pl_compilePending q" for q
      using that by (auto simp: show_compile_def screen_defs Let_def split: response.split prod.split)
    from core t CompileRequest have "pl_program p = None" "pl_compilePending p" "filter compiles (xs @ ys) = []"
      by (auto simp: play_core_def split: if_splits)
    with core t CompileRequest ends [of "p\<lparr>pl_answered := pl_answered p @ [n]\<rparr>"] show ?thesis
      by (auto simp: play_core_def answer_request_def kept)
  next
    case (HoverRequest n)
    with core t show ?thesis by (auto simp: play_core_def answer_request_def)
  qed
qed

lemma fold_answers:
  "play_core (ts @ out) p \<Longrightarrow> play_core out (fold (answer_request r) ts p) \<and> same_requests p (fold (answer_request r) ts p)"
proof (induction ts arbitrary: p)
  case (Cons t ts)
  from answer_core [of "[]" t "ts @ out" p r] Cons.prems have "play_core (ts @ out) (answer_request r t p)" by simp
  from Cons.IH [OF this] answer_same [of p r t] show ?case by (auto simp: same_requests_def)
qed (simp add: same_requests_def)

lemma play_core_cong:
  assumes "pl_answered q = pl_answered p" "pl_requests q = pl_requests p" "pl_program q = pl_program p" "pl_compilePending q = pl_compilePending p"
    "pl_shown q = pl_shown p" "pl_checkGeneration q = pl_checkGeneration p"
  shows "play_core out q = play_core out p"
  using assms by (simp add: play_core_def)

lemma startWorker_core [simp]: "play_core out (startWorker p) = play_core out p"
  by (rule play_core_cong) (simp_all add: startWorker_def screen_defs)

lemma startWorker_frame:
  "play_frame p \<Longrightarrow> play_frame (startWorker p)" "outstanding (startWorker p) = outstanding p" "pl_ready (startWorker p) \<noteq> NoWorker"
  "pl_waiting (startWorker p) = pl_waiting p" "pl_pending (startWorker p) = pl_pending p" "pl_requests (startWorker p) = pl_requests p"
  by (auto simp: startWorker_def screen_defs play_frame_def outstanding_def)

lemma post_request_frame:
  assumes "play_frame p" "pl_ready p = WorkerRuns"
  shows "play_frame (post_request t p)" "pl_ready (post_request t p) = WorkerRuns" "mvalues (pl_pending (post_request t p)) = mvalues (pl_pending p) @ [t]"
    "pl_waiting (post_request t p) = pl_waiting p" "play_core out (post_request t p) = play_core out p" "pl_firstCheck (post_request t p) = pl_firstCheck p"
proof -
  have fresh: "mget (pl_pending p) (pl_nextId p) = None" using assms(1) by (cases "mget (pl_pending p) (pl_nextId p)") (auto simp: play_frame_def)
  then have pending: "pl_pending (post_request t p) = pl_pending p @ [(pl_nextId p, t)]" by (simp add: post_request_def Let_def mset_fresh)
  show "mvalues (pl_pending (post_request t p)) = mvalues (pl_pending p) @ [t]" by (simp add: pending mvalues_def)
  have "n < pl_nextId p + 1" if "mget (mset (pl_pending p) (pl_nextId p) t) n = Some u" for n u
  proof (cases "n = pl_nextId p")
    case False
    with that have "mget (pl_pending p) n = Some u" by (simp add: jm.get_put)
    with assms(1) have "n < pl_nextId p" unfolding play_frame_def by blast
    then show ?thesis by simp
  qed simp
  then show "play_frame (post_request t p)" using assms by (auto simp: play_frame_def post_request_def Let_def jm.wf_put)
  show "play_core out (post_request t p) = play_core out p" by (rule play_core_cong) (simp_all add: post_request_def Let_def)
qed (use assms in \<open>simp_all add: post_request_def Let_def\<close>)

lemma fold_posts:
  "play_frame p \<Longrightarrow> pl_ready p = WorkerRuns \<Longrightarrow>
   play_frame (fold post_request ts p) \<and> pl_ready (fold post_request ts p) = WorkerRuns \<and>
   mvalues (pl_pending (fold post_request ts p)) = mvalues (pl_pending p) @ ts \<and> pl_waiting (fold post_request ts p) = pl_waiting p \<and>
   play_core out (fold post_request ts p) = play_core out p"
proof (induction ts arbitrary: p)
  case (Cons t ts)
  note posted = post_request_frame [OF Cons.prems, where t = t]
  from Cons.IH [OF posted(1,2)] posted(3,4,5) show ?case by simp
qed simp

text \<open>A request joins the outstanding ones, or has its result at once.\<close>

lemma request_worker_ok:
  assumes core: "play_core (outstanding p @ [(pl_requests p, w)]) (p\<lparr>pl_requests := pl_requests p + 1\<rparr>)" and frame: "play_frame p"
  shows "play_ok (request_worker w p)"
proof -
  let ?t = "(pl_requests p, w)" let ?p = "startWorker (p\<lparr>pl_requests := pl_requests p + 1\<rparr>)"
  have "play_frame (p\<lparr>pl_requests := pl_requests p + 1\<rparr>)" using frame by (simp add: play_frame_def)
  note start = startWorker_frame [of "p\<lparr>pl_requests := pl_requests p + 1\<rparr>"]
  from start(1) \<open>play_frame (p\<lparr>pl_requests := pl_requests p + 1\<rparr>)\<close> have frame2: "play_frame ?p" .
  have out: "outstanding ?p = outstanding p" using start(2) by (simp add: outstanding_def)
  have core2: "play_core (outstanding ?p @ [?t]) ?p" using core by (simp only: out startWorker_core)
  show ?thesis
  proof (cases "pl_ready ?p")
    case NoWorker
    with start(3) show ?thesis by simp
  next
    case WorkerStarts
    then have "pl_pending ?p = []" using frame2 by (auto simp: play_frame_def)
    then have "outstanding (?p\<lparr>pl_waiting := pl_waiting ?p @ [?t]\<rparr>) = outstanding ?p @ [?t]" by (simp add: outstanding_def mvalues_def)
    moreover have "play_frame (?p\<lparr>pl_waiting := pl_waiting ?p @ [?t]\<rparr>)" using frame2 WorkerStarts by (auto simp: play_frame_def)
    ultimately show ?thesis using core2 WorkerStarts play_core_cong [of "?p\<lparr>pl_waiting := pl_waiting ?p @ [?t]\<rparr>" ?p]
      by (simp add: request_worker_def Let_def play_ok_def)
  next
    case WorkerRuns
    note posted = post_request_frame [OF frame2 WorkerRuns, where t = ?t]
    have "outstanding (post_request ?t ?p) = outstanding ?p @ [?t]" using posted(3,4) by (simp add: outstanding_def)
    then show ?thesis using core2 posted(1,5) WorkerRuns by (simp add: request_worker_def Let_def play_ok_def)
  next
    case (WorkerFailed e)
    have "play_core (outstanding ?p) (answer_request (NotOk e) ?t ?p)" using answer_core [of "outstanding ?p" ?t "[]"] core2 by simp
    moreover have "outstanding (answer_request (NotOk e) ?t ?p) = outstanding ?p" using answer_same [of ?p "NotOk e" ?t] by (simp add: same_requests_def outstanding_def)
    ultimately show ?thesis using WorkerFailed frame2 same_play_frame [OF answer_same]
      by (simp add: request_worker_def Let_def play_ok_def)
  qed
qed

lemma fresh_generation:
  fixes n :: nat
  assumes "distinct xs" and "\<forall>h \<in> set xs. h \<le> n"
  shows "distinct (xs @ [n + 1])" "\<forall>h \<in> set (xs @ [n + 1]). h \<le> n + 1"
  using assms by (auto simp: le_SucI)

lemma core_generations:
  assumes "play_core out p"
  shows "distinct (map fst (pl_shown p) @ generations out)" "\<forall>g \<in> set (map fst (pl_shown p) @ generations out). g \<le> pl_checkGeneration p"
  using assms unfolding play_core_def by blast+

lemma checkNow_ok:
  assumes "play_ok p"
  shows "play_ok (checkNow p)"
proof -
  let ?g = "pl_checkGeneration p + 1" let ?p = "setStatus (js ''checking'' @ ellipsis) False (p\<lparr>pl_checkGeneration := ?g\<rparr>)"
  have core: "play_core (outstanding p) p" and frame: "play_frame p" using assms by (simp_all add: play_ok_def)
  have out: "outstanding ?p = outstanding p" "play_frame ?p = play_frame p" by (simp_all add: outstanding_def screen_defs play_frame_def)
  have books: "distinct (pl_answered p @ map fst (outstanding p @ [(pl_requests p, w)]))" "set (pl_answered p @ map fst (outstanding p @ [(pl_requests p, w)])) = {0..<pl_requests p + 1}" for w
    using core by (auto simp: play_core_def)
  have gens: "distinct ((map fst (pl_shown p) @ generations (outstanding p)) @ [?g])" "\<forall>h \<in> set ((map fst (pl_shown p) @ generations (outstanding p)) @ [?g]). h \<le> ?g"
    by (rule fresh_generation [OF core_generations [OF core]])+
  have "play_core (outstanding ?p @ [(pl_requests ?p, CheckRequest ?g (pl_doc ?p))]) (?p\<lparr>pl_requests := pl_requests ?p + 1\<rparr>)"
    unfolding out using books [of "CheckRequest ?g (pl_doc ?p)"] gens core by (simp add: play_core_def screen_defs)
  then show ?thesis using request_worker_ok [of ?p "CheckRequest ?g (pl_doc ?p)"] frame out by (simp add: checkNow_def Let_def)
qed

lemma hover_ok:
  assumes "play_ok p"
  shows "play_ok (hover_play offset p)"
proof -
  have core: "play_core (outstanding p) p" and frame: "play_frame p" using assms by (simp_all add: play_ok_def)
  have "play_core (outstanding p @ [(pl_requests p, HoverRequest offset)]) (p\<lparr>pl_requests := pl_requests p + 1\<rparr>)"
    using core by (auto simp: play_core_def)
  from request_worker_ok [OF this frame] show ?thesis by (simp add: hover_play_def)
qed

lemma close_play_ok:
  assumes "play_ok p"
  shows "play_ok (closeCompiler reason p)" "outstanding (closeCompiler reason p) = []"
proof -
  let ?p = "p\<lparr>pl_waiting := [], pl_pending := [], pl_worker := None, pl_ready := NoWorker, pl_firstCheck := False\<rparr>"
  have "play_core (outstanding p @ []) ?p" using assms by (simp add: play_ok_def play_core_def)
  from fold_answers [OF this, of "NotOk reason"]
  have core: "play_core [] (closeCompiler reason p)" and same: "same_requests ?p (closeCompiler reason p)"
    by (simp_all add: closeCompiler_def outstanding_def)
  then show out: "outstanding (closeCompiler reason p) = []" by (simp add: same_requests_def outstanding_def mvalues_def)
  have "play_frame ?p" by (simp add: play_frame_def)
  then show "play_ok (closeCompiler reason p)" using core out same_play_frame [OF same] by (simp add: play_ok_def)
qed

lemma screen_ok:
  assumes "play_ok p" "same_requests p q" "pl_answered q = pl_answered p" "pl_program q = pl_program p" "pl_compilePending q = pl_compilePending p" "pl_shown q = pl_shown p"
  shows "play_ok q"
  using assms same_play_frame [OF assms(2)] by (simp add: play_ok_def play_core_def same_requests_def outstanding_def)

lemma program_settles_ok:
  assumes "play_ok p"
  shows "play_ok (program_settles r p)" "pl_program (program_settles r p) = None"
proof -
  show "pl_program (program_settles r p) = None"
    by (auto simp: program_settles_def screen_defs Let_def split: option.split sum.split)
  have same: "same_requests p (program_settles r p)" "pl_answered (program_settles r p) = pl_answered p" "pl_shown (program_settles r p) = pl_shown p"
    by (auto simp: program_settles_def screen_defs Let_def same_requests_def split: option.split sum.split)
  show "play_ok (program_settles r p)"
  proof (cases "pl_program p")
    case None
    then show ?thesis using assms by (simp add: program_settles_def)
  next
    case (Some ds)
    have "pl_program (program_settles r p) = None" "\<not> pl_compilePending (program_settles r p)"
      using Some by (auto simp: program_settles_def screen_defs Let_def split: sum.split)
    moreover have "filter compiles (outstanding p) = []" using assms Some by (auto simp: play_ok_def play_core_def split: if_splits)
    ultimately show ?thesis using assms same same_play_frame [OF same(1)]
      by (simp add: play_ok_def play_core_def same_requests_def outstanding_def)
  qed
qed

lemma compileNow_ok:
  assumes ok: "play_ok p"
  shows "play_ok (compileNow p)"
proof (cases "pl_compilePending p")
  case True
  then show ?thesis using program_settles_ok [OF ok] close_play_ok [OF ok] by (simp add: compileNow_def)
next
  case False
  let ?g = "pl_checkGeneration p + 1"
  let ?p = "(setBusy True (setOutputSummary [] (js ''compiling'' @ ellipsis) (setOutput [] (setStatus (js ''compiling'' @ ellipsis) False p))))
      \<lparr>pl_compilePending := True, pl_timer := False, pl_checkGeneration := ?g, pl_expanded := True\<rparr>"
  have core: "play_core (outstanding p) p" and frame: "play_frame p" using ok by (simp_all add: play_ok_def)
  have out: "outstanding ?p = outstanding p" "play_frame ?p = play_frame p" by (simp_all add: outstanding_def screen_defs play_frame_def)
  have books: "distinct (pl_answered p @ map fst (outstanding p @ [(pl_requests p, w)]))" "set (pl_answered p @ map fst (outstanding p @ [(pl_requests p, w)])) = {0..<pl_requests p + 1}" for w
    using core by (auto simp: play_core_def)
  have gens: "distinct (map fst (pl_shown p) @ generations (outstanding p))" "\<forall>h \<in> set (map fst (pl_shown p) @ generations (outstanding p)). h \<le> ?g"
    using core_generations [OF core] by (simp_all add: le_SucI)
  have none: "filter compiles (outstanding p) = []" "pl_program p = None" using core False by (auto simp: play_core_def split: if_splits)
  have "play_core (outstanding ?p @ [(pl_requests ?p, CompileRequest (pl_doc ?p))]) (?p\<lparr>pl_requests := pl_requests ?p + 1\<rparr>)"
    unfolding out using books [of "CompileRequest (pl_doc ?p)"] gens core none by (simp add: play_core_def screen_defs)
  then show ?thesis using request_worker_ok [of ?p "CompileRequest (pl_doc ?p)"] frame out False by (simp add: compileNow_def Let_def)
qed

lemma mdelete_split:
  "wf_map m \<Longrightarrow> mget m n = Some t \<Longrightarrow> \<exists>xs ys. mvalues m = xs @ t # ys \<and> mvalues (mdelete m n) = xs @ ys"
proof (induction m)
  case (Cons e m)
  obtain k v where e: "e = (k, v)" by (cases e)
  show ?case
  proof (cases "k = n")
    case True
    then have "mget m n = None" "v = t" using Cons.prems e by (auto simp: wf_map_Cons mget_Cons)
    then have "mvalues (e # m) = [] @ t # mvalues m" "mvalues (mdelete (e # m) n) = [] @ mvalues m"
      using e True mdelete_fresh [of m n] by (simp_all add: mvalues_def mdelete_def)
    then show ?thesis by blast
  next
    case False
    then obtain xs ys where "mvalues m = xs @ t # ys" "mvalues (mdelete m n) = xs @ ys"
      using Cons e by (auto simp: wf_map_Cons mget_Cons)
    then have "mvalues (e # m) = (v # xs) @ t # ys" "mvalues (mdelete (e # m) n) = (v # xs) @ ys"
      using e False by (simp_all add: mvalues_def mdelete_def)
    then show ?thesis by blast
  qed
qed simp

lemma worker_answers_ok:
  assumes ok: "play_ok p"
  shows "play_ok (worker_answers i n r p)"
proof (cases "pl_worker p = Some i \<and> (\<exists>t. mget (pl_pending p) n = Some t)")
  case True
  then obtain t where t: "mget (pl_pending p) n = Some t" and i: "pl_worker p = Some i" by blast
  let ?p = "p\<lparr>pl_pending := mdelete (pl_pending p) n\<rparr>"
  have core: "play_core (outstanding p) p" and frame: "play_frame p" using ok by (simp_all add: play_ok_def)
  then obtain xs ys where split: "mvalues (pl_pending p) = xs @ t # ys" "mvalues (mdelete (pl_pending p) n) = xs @ ys"
    using mdelete_split [OF _ t] by (auto simp: play_frame_def)
  have "play_core ((pl_waiting p @ xs) @ t # ys) ?p" using core split by (simp add: outstanding_def play_core_def)
  from answer_core [OF this, of r] have core2: "play_core (outstanding ?p) (answer_request r t ?p)" using split by (simp add: outstanding_def)
  have "n' < pl_nextId p" if "mget (mdelete (pl_pending p) n) n' = Some u" for n' u
  proof -
    from that have "mget (pl_pending p) n' = Some u" by (simp add: jm.get_del split: if_splits)
    with frame show ?thesis unfolding play_frame_def by blast
  qed
  moreover have "pl_pending p \<noteq> []" using t by auto
  ultimately have "play_frame ?p" using frame by (auto simp: play_frame_def jm.wf_del)
  then show ?thesis using core2 same_play_frame [OF answer_same] answer_same [of ?p r t] t i
    by (simp add: worker_answers_def play_ok_def same_requests_def outstanding_def)
next
  case False
  then have "worker_answers i n r p = p" by (auto simp: worker_answers_def split: option.split)
  with ok show ?thesis by simp
qed

lemma worker_runs_ok:
  assumes ok: "play_ok p"
  shows "play_ok (worker_runs i p)"
proof (cases "pl_worker p = Some i \<and> pl_ready p = WorkerStarts")
  case True
  let ?p = "(setBusy False (setStatus (js ''ready'') False p))\<lparr>pl_ready := WorkerRuns, pl_waiting := []\<rparr>"
  have core: "play_core (outstanding p) p" and frame: "play_frame p" using ok by (simp_all add: play_ok_def)
  then have none: "pl_pending p = []" using True by (auto simp: play_frame_def)
  have frame2: "play_frame ?p" using frame True none by (auto simp: play_frame_def screen_defs)
  have ready: "pl_ready ?p = WorkerRuns" by simp
  have core2: "play_core out ?p = play_core out p" for out by (rule play_core_cong) (simp_all add: screen_defs)
  let ?q = "fold post_request (pl_waiting p) ?p"
  note posted = fold_posts [OF frame2 ready, of "pl_waiting p" "outstanding p"]
  have "outstanding ?q = outstanding p" using posted none by (simp add: outstanding_def mvalues_def screen_defs)
  then have okq: "play_ok ?q" using posted core core2 by (simp add: play_ok_def)
  then have "play_ok (?q\<lparr>pl_firstCheck := False\<rparr>)"
    by (simp add: play_ok_def play_core_def play_frame_def outstanding_def)
  then show ?thesis using okq checkNow_ok True by (simp add: worker_runs_def Let_def)
qed (use ok in \<open>auto simp: worker_runs_def\<close>)

lemma worker_cannot_boot_ok:
  assumes ok: "play_ok p"
  shows "play_ok (worker_cannot_boot i said p)"
proof (cases "pl_worker p = Some i \<and> pl_ready p = WorkerStarts")
  case True
  let ?p = "(setOutput (js ''-- the compiler failed to start'' @ [10, 10] @ said) (setBusy False (setStatus (js ''failed to start: '' @ said) True p)))
      \<lparr>pl_summary := (js ''failed to start'', True), pl_expanded := True, pl_ready := WorkerFailed said, pl_waiting := [], pl_firstCheck := False\<rparr>"
  have core: "play_core (outstanding p) p" and frame: "play_frame p" using ok by (simp_all add: play_ok_def)
  then have none: "pl_pending p = []" using True by (auto simp: play_frame_def)
  have frame2: "play_frame ?p" using frame True none by (auto simp: play_frame_def screen_defs)
  have "play_core (pl_waiting p @ []) ?p" using core none by (simp add: outstanding_def mvalues_def screen_defs play_core_def)
  from fold_answers [OF this, of "NotOk said"]
  have core3: "play_core [] (fold (answer_request (NotOk said)) (pl_waiting p) ?p)" and same: "same_requests ?p (fold (answer_request (NotOk said)) (pl_waiting p) ?p)"
    by simp_all
  have "outstanding (fold (answer_request (NotOk said)) (pl_waiting p) ?p) = []" using same none by (simp add: same_requests_def outstanding_def mvalues_def screen_defs)
  with core3 frame2 same_play_frame [OF same] True show ?thesis by (simp add: worker_cannot_boot_def Let_def play_ok_def)
qed (use ok in \<open>auto simp: worker_cannot_boot_def\<close>)

lemma started_ok:
  assumes ok: "play_ok p"
  shows "play_ok (startWorker (p\<lparr>pl_activated := True\<rparr>))"
proof -
  have frame: "play_frame (p\<lparr>pl_activated := True\<rparr>)" "play_core (outstanding p) (p\<lparr>pl_activated := True\<rparr>)"
    using ok by (simp_all add: play_ok_def play_frame_def play_core_def)
  note start = startWorker_frame [of "p\<lparr>pl_activated := True\<rparr>"]
  show ?thesis using start(1) [OF frame(1)] start(2) frame(2) by (simp add: play_ok_def outstanding_def)
qed

lemma play_step_ok: "play_ok p \<Longrightarrow> play_ok (play_step e p)"
proof -
  assume ok: "play_ok p"
  have broken: "play_ok (worker_breaks i said p)" for i said
    using close_play_ok(1) [OF screen_ok [OF ok]] ok by (auto simp: worker_breaks_def Let_def same_requests_def screen_defs)
  have edited: "play_ok (p\<lparr>pl_doc := new, pl_timer := b\<rparr>)" "play_ok (p\<lparr>pl_timer := b\<rparr>)" for new b
    using ok by (simp_all add: play_ok_def play_core_def play_frame_def outstanding_def)
  have loaded: "play_ok (loadExample new p)" for new
    using edited(1) by (simp add: loadExample_def edit_play_def play_ok_def play_core_def play_frame_def outstanding_def screen_defs)
  have started: "play_ok (startWorker (p\<lparr>pl_activated := True\<rparr>))" by (rule started_ok [OF ok])
  then have "play_ok ((startWorker (p\<lparr>pl_activated := True\<rparr>))\<lparr>pl_firstCheck := True\<rparr>)"
    by (simp add: play_ok_def play_core_def play_frame_def outstanding_def)
  then have activated: "play_ok (activateCompiler p)" using started ok checkNow_ok
    by (simp add: activateCompiler_def Let_def split: play_ready.split)
  show ?thesis
    by (cases e) (simp_all add: ok activated edited loaded edit_play_def check_timer_def checkNow_ok hover_ok compileNow_ok page_hides_def close_play_ok
        program_settles_ok worker_runs_ok worker_cannot_boot_ok worker_answers_ok broken)
qed

interpretation pl: machine play_step play_ok
  by unfold_locales (rule play_step_ok)

abbreviation play_after :: "jstr \<Rightarrow> play_event list \<Rightarrow> play" where
  "play_after source es \<equiv> run_events play_step es (new_play source)"

lemma play_after_ok: "play_ok (play_after source es)"
  by (rule pl.inv_run) (simp add: play_ok_def play_core_def play_frame_def outstanding_def mvalues_def new_play_def)

section \<open>Properties\<close>

text \<open>C12. Every request of the playground gets one result: it has it already or waits, for the worker to be ready or for its message to be answered, and no request is answered
  twice, whatever the worker and the reader do. The results of checks that are shown are of ever newer edits, so that a late result never replaces a newer one. And
  the button says Stop exactly as long as one compilation waits or one program runs.
\<close>

theorem playground_answers_every_request:
  "distinct (pl_answered (play_after source es) @ map fst (outstanding (play_after source es)))
   \<and> set (pl_answered (play_after source es) @ map fst (outstanding (play_after source es))) = {0..<pl_requests (play_after source es)}
   \<and> sorted_wrt (<) (map fst (pl_shown (play_after source es)))
   \<and> length (filter compiles (outstanding (play_after source es))) + (if pl_program (play_after source es) = None then 0 else 1)
      = (if pl_compilePending (play_after source es) then 1 else 0)"
  using play_after_ok [of es source] unfolding play_ok_def play_core_def by blast

lemma answers_start_nothing: "pl_program p = None \<Longrightarrow> pl_program (fold (answer_request (NotOk e)) ts p) = None"
proof (induction ts arbitrary: p)
  case (Cons t ts)
  have "pl_program (answer_request (NotOk e) t p) = None" using Cons.prems
    by (auto simp: answer_request_def show_check_def show_compile_def screen_defs Let_def split: play_wait.split)
  with Cons.IH show ?case by simp
qed simp

text \<open>C38. Stop always stops: a click while a compilation or its program is under way ends it, wherever it has got to.\<close>

theorem stop_ends_the_run:
  assumes "pl_compilePending (play_after source es)"
  shows "\<not> pl_compilePending (play_after source (es @ [ClicksRun])) \<and> pl_program (play_after source (es @ [ClicksRun])) = None"
proof -
  let ?p = "play_after source es"
  have ok: "play_ok ?p" by (rule play_after_ok)
  show ?thesis
  proof (cases "pl_program ?p")
    case None
    have "play_ok (closeCompiler (js ''Compiler stopped'') ?p)" "outstanding (closeCompiler (js ''Compiler stopped'') ?p) = []" using close_play_ok [OF ok] by simp_all
    moreover have "pl_program (closeCompiler (js ''Compiler stopped'') ?p) = None" using None by (simp add: closeCompiler_def answers_start_nothing)
    ultimately show ?thesis using assms None by (simp add: compileNow_def play_ok_def play_core_def split: if_splits)
  next
    case (Some ds)
    then show ?thesis using assms program_settles_ok(2) [OF ok] by (simp add: compileNow_def) (simp add: program_settles_def screen_defs Let_def)
  qed
qed

theorem stop_ends_the_run_witness:
  "pl_compilePending (play_after [] [Activates, WorkerRunning 0, ClicksRun]) \<and>
   \<not> pl_compilePending (play_after [] ([Activates, WorkerRunning 0, ClicksRun] @ [ClicksRun]))"
proof -
  have "pl_compilePending (play_after [] [Activates, WorkerRunning 0, ClicksRun])"
    by (simp add: new_play_def activateCompiler_def startWorker_def worker_runs_def checkNow_def compileNow_def request_worker_def post_request_def screen_defs Let_def)
  then show ?thesis using stop_ends_the_run by blast
qed

text \<open>A compilation that is stopped leaves the status line as it was: it goes on saying that the compiler works.\<close>

lemma stopped_compile_keeps_status:
  "pl_status (play_after source [Activates, WorkerRunning 0, ClicksRun, ClicksRun]) = (js ''compiling'' @ ellipsis, False)"
  by (simp add: new_play_def activateCompiler_def startWorker_def worker_runs_def checkNow_def compileNow_def request_worker_def post_request_def closeCompiler_def
      answer_request_def show_check_def show_compile_def screen_defs mset_def mvalues_def Let_def)

text \<open>A program that fails is summed up as one error, never as the runtime error the code names.\<close>

lemma runtime_error_summary: "pl_summary (setOutputSummary [runtime_error] (js ''runtime error'') p) = (js ''1 error'', True)"
proof -
  have "decimal 1 = js ''1''" by (simp add: decimal.simps js_def)
  then show ?thesis
    by (simp add: setOutputSummary_def output_summary_def summarize_def severity_count_def runtime_error_def plural_def Let_def js_def)
qed

end
