(* ===== verification/PlayPage.thy ===== *)
theory PlayPage
  imports Playground
begin

text \<open>
  The playground of \<^verbatim>\<open>app.js\<close> joined with the compiler workers of \<^verbatim>\<open>luajit-worker.js\<close> it starts. Unlike a documentation page it does not wait for an answer before it posts
  the next message: a newer check may find older ones in the worker's queue, which the worker then answers as superseded.
\<close>

section \<open>The order of checks\<close>

abbreviation posted_generations :: "(nat \<times> nat \<times> play_wait) list \<Rightarrow> nat list" where
  "posted_generations ps \<equiv> concat (map (\<lambda>(i, n, w). generation_of (n, w)) ps)"

text \<open>
  Messages have rising numbers, and checks are posted in the order of their generations; \<open>ws\<close> are the requests that are posted next.
\<close>

definition order_with :: "(nat \<times> play_wait) list \<Rightarrow> play \<Rightarrow> bool" where
  "order_with ws p \<longleftrightarrow>
    sorted_wrt (<) (map (fst \<circ> snd) (pl_posted p)) \<and> (\<forall>m \<in> set (pl_posted p). fst (snd m) < pl_nextId p) \<and>
    sorted_wrt (<) (posted_generations (pl_posted p) @ generations ws) \<and>
    (\<forall>g \<in> set (posted_generations (pl_posted p) @ generations ws). g \<le> pl_checkGeneration p) \<and>
    (\<forall>n t. mget (pl_pending p) n = Some t \<longrightarrow> (\<exists>i. (i, n, snd t) \<in> set (pl_posted p)))"

abbreviation order_ok :: "play \<Rightarrow> bool" where
  "order_ok p \<equiv> order_with (pl_waiting p) p"

lemma generation_of_any: "generation_of (n, w) = generation_of (m, w)"
  by (cases w) simp_all

lemma ball_append: "(\<forall>x \<in> set (xs @ ys). Q x) \<longleftrightarrow> (\<forall>x \<in> set xs. Q x) \<and> (\<forall>x \<in> set ys. Q x)"
  by auto

lemma order_cong:
  assumes "pl_posted q = pl_posted p" "pl_nextId q = pl_nextId p" "pl_checkGeneration q = pl_checkGeneration p" "pl_pending q = pl_pending p"
  shows "order_with ws q = order_with ws p"
  using assms by (simp add: order_with_def)

lemma order_same:
  assumes "same_requests p q"
  shows "order_with ws q = order_with ws p"
  using assms by (intro order_cong) (simp_all add: same_requests_def)

lemma order_fewer:
  assumes "order_with (ws @ vs) p" "pl_posted q = pl_posted p" "pl_nextId q = pl_nextId p" "pl_checkGeneration q \<ge> pl_checkGeneration p"
    and "\<And>n t. mget (pl_pending q) n = Some t \<Longrightarrow> mget (pl_pending p) n = Some t"
  shows "order_with ws q"
proof -
  let ?P = "posted_generations (pl_posted p)"
  have split: "?P @ generations (ws @ vs) = (?P @ generations ws) @ generations vs" by simp
  have parts: "sorted_wrt (<) (map (fst \<circ> snd) (pl_posted p))" "\<forall>m \<in> set (pl_posted p). fst (snd m) < pl_nextId p"
    "sorted_wrt (<) ((?P @ generations ws) @ generations vs)" "\<forall>g \<in> set ((?P @ generations ws) @ generations vs). g \<le> pl_checkGeneration p"
    "\<forall>n t. mget (pl_pending p) n = Some t \<longrightarrow> (\<exists>i. (i, n, snd t) \<in> set (pl_posted p))"
    using assms(1) unfolding order_with_def split by blast+
  have "sorted_wrt (<) (?P @ generations ws)" using parts(3) unfolding sorted_wrt_append by blast
  moreover have "\<forall>g \<in> set (?P @ generations ws). g \<le> pl_checkGeneration q"
  proof -
    from parts(4) have "\<forall>g \<in> set (?P @ generations ws). g \<le> pl_checkGeneration p" unfolding ball_append [of "?P @ generations ws"] by blast
    with assms(4) show ?thesis using order_trans by blast
  qed
  moreover have "\<forall>n t. mget (pl_pending q) n = Some t \<longrightarrow> (\<exists>i. (i, n, snd t) \<in> set (pl_posted p))" using parts(5) assms(5) by blast
  ultimately show ?thesis using parts(1,2) unfolding order_with_def assms(2,3) by blast
qed

lemma post_order:
  assumes order: "order_with (t # ts) p" and frame: "play_frame p"
  shows "order_with ts (post_request t p)"
proof -
  have posted: "pl_posted (post_request t p) = pl_posted p @ [(the (pl_worker p), pl_nextId p, snd t)]" "pl_nextId (post_request t p) = pl_nextId p + 1"
    "pl_checkGeneration (post_request t p) = pl_checkGeneration p" "pl_pending (post_request t p) = mset (pl_pending p) (pl_nextId p) t"
    by (simp_all add: post_request_def Let_def)
  have gen: "generation_of (pl_nextId p, snd t) = generation_of t" using generation_of_any [of _ "snd t" "fst t"] by simp
  have less: "\<forall>m \<in> set (pl_posted p). fst (snd m) < pl_nextId p" using order by (simp add: order_with_def)
  have "\<exists>i. (i, n, snd u) \<in> set (pl_posted (post_request t p))" if "mget (mset (pl_pending p) (pl_nextId p) t) n = Some u" for n u
  proof (cases "n = pl_nextId p")
    case True
    with that have "u = t" by (simp add: jm.get_put)
    with True have "(the (pl_worker p), n, snd u) \<in> set (pl_posted (post_request t p))" by (simp add: posted(1))
    then show ?thesis by blast
  next
    case False
    with that have "mget (pl_pending p) n = Some u" by (simp add: jm.get_put)
    with order have "\<exists>i. (i, n, snd u) \<in> set (pl_posted p)" unfolding order_with_def by blast
    then show ?thesis by (auto simp: posted(1))
  qed
  then have pend: "\<forall>n u. mget (pl_pending (post_request t p)) n = Some u \<longrightarrow> (\<exists>i. (i, n, snd u) \<in> set (pl_posted (post_request t p)))"
    by (simp only: posted(4)) blast
  have gens: "posted_generations (pl_posted (post_request t p)) @ generations ts = posted_generations (pl_posted p) @ generations (t # ts)"
    by (simp add: posted(1) gen)
  have ids: "sorted_wrt (<) (map (fst \<circ> snd) (pl_posted (post_request t p)))" "\<forall>m \<in> set (pl_posted (post_request t p)). fst (snd m) < pl_nextId p + 1"
    using order less by (auto simp: order_with_def posted(1) sorted_wrt_append)
  show ?thesis using order ids pend unfolding order_with_def gens posted(2,3) by blast
qed

lemma fold_post_order:
  "order_with (ts @ us) p \<Longrightarrow> play_frame p \<Longrightarrow> pl_ready p = WorkerRuns \<Longrightarrow> order_with us (fold post_request ts p)"
proof (induction ts arbitrary: p)
  case (Cons t ts)
  note posted = post_request_frame [OF Cons.prems(2,3), where t = t]
  from post_order [of t "ts @ us" p] Cons.prems have "order_with (ts @ us) (post_request t p)" by simp
  from Cons.IH [OF this posted(1,2)] show ?case by simp
qed simp

lemma startWorker_order [simp]: "order_with ws (startWorker p) = order_with ws p"
  by (rule order_cong) (simp_all add: startWorker_def screen_defs)

lemma request_order:
  assumes order: "order_with (pl_waiting p @ [(pl_requests p, w)]) p" and frame: "play_frame p"
  shows "order_ok (request_worker w p)"
proof -
  let ?t = "(pl_requests p, w)" let ?q = "p\<lparr>pl_requests := pl_requests p + 1\<rparr>" let ?p = "startWorker ?q"
  have "play_frame ?q" using frame by (simp add: play_frame_def)
  note start = startWorker_frame [of ?q]
  from start(1) [OF \<open>play_frame ?q\<close>] have frame2: "play_frame ?p" .
  have "order_with (pl_waiting p @ [?t]) ?q = order_with (pl_waiting p @ [?t]) p" by (rule order_cong) simp_all
  then have order2: "order_with (pl_waiting ?p @ [?t]) ?p" using order start(4) by simp
  show ?thesis
  proof (cases "pl_ready ?p")
    case NoWorker
    with start(3) show ?thesis by simp
  next
    case WorkerStarts
    have "order_with ws (?p\<lparr>pl_waiting := vs\<rparr>) = order_with ws ?p" for ws vs by (rule order_cong) simp_all
    with WorkerStarts order2 show ?thesis by (simp add: request_worker_def Let_def)
  next
    case WorkerRuns
    then have none: "pl_waiting ?p = []" using frame2 by (auto simp: play_frame_def)
    have "order_with [] (post_request ?t ?p)" using order2 none frame2 by (intro post_order) simp_all
    then show ?thesis using WorkerRuns none post_request_frame(4) [OF frame2 WorkerRuns] by (simp add: request_worker_def Let_def)
  next
    case (WorkerFailed e)
    then have "pl_waiting ?p = []" using frame2 by (auto simp: play_frame_def)
    moreover have "order_with [] ?p" using order2 calculation by (intro order_fewer [of "[]" "[?t]" ?p]) simp_all
    moreover have "pl_waiting (answer_request (NotOk e) ?t ?p) = pl_waiting ?p" using answer_same by (simp add: same_requests_def)
    ultimately show ?thesis using WorkerFailed order_same [OF answer_same] by (simp add: request_worker_def Let_def)
  qed
qed

lemma newest_check_order:
  assumes order: "order_ok p"
  shows "order_with (pl_waiting p @ [(n, CheckRequest (pl_checkGeneration p + 1) s)]) (p\<lparr>pl_checkGeneration := pl_checkGeneration p + 1\<rparr>)"
proof -
  let ?L = "posted_generations (pl_posted p) @ generations (pl_waiting p)"
  have parts: "sorted_wrt (<) ?L" "\<forall>g \<in> set ?L. g \<le> pl_checkGeneration p" using order unfolding order_with_def by blast+
  have eq: "posted_generations (pl_posted p) @ generations (pl_waiting p @ [(n, CheckRequest (pl_checkGeneration p + 1) s)]) = ?L @ [pl_checkGeneration p + 1]" by simp
  have "sorted_wrt (<) (?L @ [pl_checkGeneration p + 1])"
    unfolding sorted_wrt_append [of _ ?L] using parts by (simp add: le_imp_less_Suc)
  moreover have "\<forall>g \<in> set (?L @ [pl_checkGeneration p + 1]). g \<le> pl_checkGeneration p + 1" 
    unfolding ball_append [of ?L] using parts(2) by (simp add: le_SucI)
  ultimately show ?thesis using order unfolding order_with_def eq by simp
qed

lemma checkNow_order:
  assumes "play_ok p" "order_ok p"
  shows "order_ok (checkNow p)"
proof -
  let ?p = "setStatus (js ''checking'' @ ellipsis) False (p\<lparr>pl_checkGeneration := pl_checkGeneration p + 1\<rparr>)"
  have "order_with ws ?p = order_with ws (p\<lparr>pl_checkGeneration := pl_checkGeneration p + 1\<rparr>)" for ws by (rule order_cong) (simp_all add: screen_defs)
  with newest_check_order [OF assms(2), of "pl_requests p" "pl_doc p"]
  have "order_with (pl_waiting ?p @ [(pl_requests ?p, CheckRequest (pl_checkGeneration p + 1) (pl_doc ?p))]) ?p" by (simp add: screen_defs)
  moreover have "play_frame ?p" using assms(1) by (simp add: play_ok_def play_frame_def screen_defs)
  ultimately have "order_ok (request_worker (CheckRequest (pl_checkGeneration p + 1) (pl_doc ?p)) ?p)" by (rule request_order)
  then show ?thesis by (simp add: checkNow_def Let_def)
qed

lemma plain_order:
  assumes "order_ok p" "generation_of (n, w) = []" "pl_posted q = pl_posted p" "pl_nextId q = pl_nextId p" "pl_checkGeneration q \<ge> pl_checkGeneration p" "pl_pending q = pl_pending p"
  shows "order_with (pl_waiting p @ [(n, w)]) q"
proof -
  have "order_with (pl_waiting p) q" using assms by (intro order_fewer [of "pl_waiting p" "[]" p]) simp_all
  with assms(2) show ?thesis by (simp add: order_with_def)
qed

lemma close_order:
  assumes "play_ok p" "order_ok p"
  shows "order_ok (closeCompiler reason p)"
proof -
  let ?p = "p\<lparr>pl_waiting := [], pl_pending := [], pl_worker := None, pl_ready := NoWorker, pl_firstCheck := False\<rparr>"
  have "play_core (outstanding p @ []) ?p" using assms by (simp add: play_ok_def play_core_def)
  from fold_answers [OF this, of "NotOk reason"] have same: "same_requests ?p (closeCompiler reason p)" by (simp add: closeCompiler_def outstanding_def)
  have "order_with [] ?p" using assms(2) by (intro order_fewer [of "[]" "pl_waiting p" p]) simp_all
  with order_same [OF same] same show ?thesis by (simp add: same_requests_def)
qed

lemma cannot_boot_order:
  assumes "play_ok p" "order_ok p"
  shows "order_ok (worker_cannot_boot i said p)"
proof (cases "pl_worker p = Some i \<and> pl_ready p = WorkerStarts")
  case True
  let ?p = "(setOutput (js ''-- the compiler failed to start'' @ [10, 10] @ said) (setBusy False (setStatus (js ''failed to start: '' @ said) True p)))
      \<lparr>pl_summary := (js ''failed to start'', True), pl_expanded := True, pl_ready := WorkerFailed said, pl_waiting := [], pl_firstCheck := False\<rparr>"
  have "pl_pending p = []" using assms(1) True by (auto simp: play_ok_def play_frame_def)
  then have "play_core (pl_waiting p @ []) ?p" using assms(1) by (simp add: play_ok_def outstanding_def mvalues_def screen_defs play_core_def)
  from fold_answers [OF this, of "NotOk said"] have same: "same_requests ?p (worker_cannot_boot i said p)" using True by (simp add: worker_cannot_boot_def Let_def)
  have "order_with [] ?p" using assms(2) by (intro order_fewer [of "[]" "pl_waiting p" p]) (simp_all add: screen_defs)
  with order_same [OF same] same show ?thesis by (simp add: same_requests_def)
qed (use assms in \<open>auto simp: worker_cannot_boot_def\<close>)

lemma answers_order:
  assumes "play_ok p" "order_ok p"
  shows "order_ok (worker_answers i n r p)"
proof (cases "pl_worker p = Some i \<and> (\<exists>t. mget (pl_pending p) n = Some t)")
  case True
  then obtain t where t: "mget (pl_pending p) n = Some t" "pl_worker p = Some i" by blast
  let ?p = "p\<lparr>pl_pending := mdelete (pl_pending p) n\<rparr>"
  have "order_with (pl_waiting p) ?p" using assms(2) by (intro order_fewer [of "pl_waiting p" "[]" p]) (simp_all add: jm.get_del split: if_splits)
  with order_same [OF answer_same [of ?p r t]] answer_same [of ?p r t] t show ?thesis by (simp add: worker_answers_def same_requests_def)
next
  case False
  then have "worker_answers i n r p = p" by (auto simp: worker_answers_def split: option.split)
  with assms show ?thesis by simp
qed

lemma runs_order:
  assumes ok: "play_ok p" and order: "order_ok p"
  shows "order_ok (worker_runs i p)"
proof (cases "pl_worker p = Some i \<and> pl_ready p = WorkerStarts")
  case True
  let ?p = "(setBusy False (setStatus (js ''ready'') False p))\<lparr>pl_ready := WorkerRuns, pl_waiting := []\<rparr>" let ?q = "fold post_request (pl_waiting p) ?p"
  have core: "play_core (outstanding p) p" and frame: "play_frame p" using ok by (simp_all add: play_ok_def)
  then have none: "pl_pending p = []" using True by (auto simp: play_frame_def)
  have frame2: "play_frame ?p" using frame True none by (auto simp: play_frame_def screen_defs)
  have ready: "pl_ready ?p = WorkerRuns" by simp
  have core2: "play_core out ?p = play_core out p" for out by (rule play_core_cong) (simp_all add: screen_defs)
  note posted = fold_posts [OF frame2 ready, of "pl_waiting p" "outstanding p"]
  have "outstanding ?q = outstanding p" using posted none by (simp add: outstanding_def mvalues_def screen_defs)
  then have okq: "play_ok ?q" using posted core core2 by (simp add: play_ok_def)
  have "order_with (pl_waiting p @ []) ?p" using order by (intro order_fewer [of "pl_waiting p @ []" "[]" p]) (simp_all add: screen_defs)
  from fold_post_order [OF this frame2 ready] have "order_with [] ?q" .
  then have orderq: "order_ok ?q" using posted by simp
  have "order_ok (?q\<lparr>pl_firstCheck := False\<rparr>)" "play_ok (?q\<lparr>pl_firstCheck := False\<rparr>)"
    using orderq okq order_cong [of "?q\<lparr>pl_firstCheck := False\<rparr>" ?q] by (simp_all add: play_ok_def play_core_def play_frame_def outstanding_def)
  then show ?thesis using orderq checkNow_order True by (simp add: worker_runs_def Let_def)
qed (use order in \<open>auto simp: worker_runs_def\<close>)

lemma program_same: "same_requests p (program_settles r p)"
  by (auto simp: program_settles_def screen_defs Let_def same_requests_def split: option.split sum.split)

lemma compileNow_order:
  assumes ok: "play_ok p" and order: "order_ok p"
  shows "order_ok (compileNow p)"
proof (cases "pl_compilePending p")
  case True
  then show ?thesis using order_same [OF program_same] program_same [of p] close_order [OF ok order] order
    by (simp add: compileNow_def same_requests_def)
next
  case False
  let ?p = "(setBusy True (setOutputSummary [] (js ''compiling'' @ ellipsis) (setOutput [] (setStatus (js ''compiling'' @ ellipsis) False p))))
      \<lparr>pl_compilePending := True, pl_timer := False, pl_checkGeneration := pl_checkGeneration p + 1, pl_expanded := True\<rparr>"
  have "order_with (pl_waiting p @ [(pl_requests p, CompileRequest (pl_doc p))]) ?p" using order by (rule plain_order) (simp_all add: screen_defs)
  then have "order_with (pl_waiting ?p @ [(pl_requests ?p, CompileRequest (pl_doc ?p))]) ?p" by (simp add: screen_defs)
  moreover have "play_frame ?p" using ok by (simp add: play_ok_def play_frame_def screen_defs)
  ultimately have "order_ok (request_worker (CompileRequest (pl_doc ?p)) ?p)" by (rule request_order)
  then show ?thesis using False by (simp add: compileNow_def Let_def)
qed

lemma play_step_order:
  assumes ok: "play_ok p" and order: "order_ok p"
  shows "order_ok (play_step e p)"
proof -
  have keep: "order_ok q" if "same_requests p q" for q using order_same [OF that] that order by (simp add: same_requests_def)
  have moved: "order_ok q" if "pl_posted q = pl_posted p" "pl_nextId q = pl_nextId p" "pl_checkGeneration q = pl_checkGeneration p" "pl_pending q = pl_pending p" "pl_waiting q = pl_waiting p" for q
    using order order_cong [of q p] that by simp
  have closed: "order_ok (worker_breaks i said p)" for i said
  proof (cases "pl_worker p = Some i")
    case True
    let ?r = "if said \<noteq> [] then said else js ''the compiler worker failed to start''"
    let ?p = "setStatus (js ''failed to start: '' @ ?r) True (setBusy False p)"
    have same: "same_requests p ?p" by (simp add: same_requests_def screen_defs)
    have "play_ok ?p" by (rule screen_ok [OF ok same]) (simp_all add: screen_defs)
    from close_order [OF this keep [OF same]] show ?thesis using True by (simp add: worker_breaks_def Let_def)
  qed (use order in \<open>simp add: worker_breaks_def\<close>)
  have timer: "order_ok (check_timer p)"
  proof -
    have "play_ok (p\<lparr>pl_timer := False\<rparr>)" "order_ok (p\<lparr>pl_timer := False\<rparr>)"
      using ok moved by (simp_all add: play_ok_def play_core_def play_frame_def outstanding_def)
    from checkNow_order [OF this] show ?thesis using order by (simp add: check_timer_def)
  qed
  have hover: "order_ok (hover_play n p)" for n
    unfolding hover_play_def using ok order by (intro request_order plain_order) (simp_all add: play_ok_def)
  have active: "order_ok (activateCompiler p)"
  proof -
    let ?p = "startWorker (p\<lparr>pl_activated := True\<rparr>)"
    have "play_ok ?p" by (rule started_ok [OF ok])
    moreover have "order_ok ?p" by (rule moved) (simp_all add: startWorker_def screen_defs)
    moreover have "order_ok (?p\<lparr>pl_firstCheck := True\<rparr>)" by (rule moved) (simp_all add: startWorker_def screen_defs)
    ultimately show ?thesis using order checkNow_order by (simp add: activateCompiler_def Let_def split: play_ready.split)
  qed
  have hides: "order_ok (page_hides p)"
    unfolding page_hides_def using program_settles_ok [OF ok] keep [OF program_same] by (intro close_order)
  have edits: "order_ok (edit_play new p)" "order_ok (loadExample new p)" for new
    by (rule moved; simp add: edit_play_def loadExample_def screen_defs)+
  show ?thesis
    by (cases e) (simp_all add: active edits timer checkNow_order compileNow_order ok order hover hides runs_order cannot_boot_order answers_order closed keep [OF program_same])
qed

section \<open>What was posted stays posted\<close>

lemma prefix_posted [simp]:
  "pl_posted (startWorker p) = pl_posted p" "pl_posted (answer_request r t p) = pl_posted p"
  using answer_same [of p r t] by (simp_all add: startWorker_def screen_defs same_requests_def)

lemma post_prefix: "prefix (pl_posted p) (pl_posted (fold post_request ts p))"
proof (induction ts arbitrary: p)
  case (Cons t ts)
  have "prefix (pl_posted p) (pl_posted (post_request t p))" by (simp add: post_request_def Let_def)
  with Cons.IH [of "post_request t p"] show ?case by (auto intro: prefix_order.trans)
qed simp

lemma answers_posted [simp]: "pl_posted (fold (answer_request r) ts p) = pl_posted p"
  by (induction ts arbitrary: p) simp_all

lemma request_prefix: "prefix (pl_posted p) (pl_posted (request_worker w p))"
  by (simp add: request_worker_def Let_def post_request_def split: play_ready.split)

lemma check_prefix: "prefix (pl_posted p) (pl_posted (checkNow p))"
proof -
  have "pl_posted p = pl_posted (setStatus (js ''checking'' @ ellipsis) False (p\<lparr>pl_checkGeneration := pl_checkGeneration p + 1\<rparr>))" by (simp add: screen_defs)
  then show ?thesis unfolding checkNow_def Let_def using request_prefix by metis
qed

lemma program_posted [simp]: "pl_posted (program_settles r p) = pl_posted p"
  using program_same [of p r] by (simp add: same_requests_def)

lemma step_prefix: "prefix (pl_posted p) (pl_posted (play_step e p))"
proof -
  have runs: "prefix (pl_posted p) (pl_posted (worker_runs i p))" for i
  proof -
    let ?p = "(setBusy False (setStatus (js ''ready'') False p))\<lparr>pl_ready := WorkerRuns, pl_waiting := []\<rparr>" let ?q = "fold post_request (pl_waiting p) ?p"
    have "prefix (pl_posted p) (pl_posted ?q)" using post_prefix [of ?p "pl_waiting p"] by (simp add: screen_defs)
    moreover have "prefix (pl_posted ?q) (pl_posted (checkNow (?q\<lparr>pl_firstCheck := False\<rparr>)))" using check_prefix [of "?q\<lparr>pl_firstCheck := False\<rparr>"] by simp
    ultimately show ?thesis by (auto simp: worker_runs_def Let_def intro: prefix_order.trans)
  qed
  have click: "prefix (pl_posted p) (pl_posted (compileNow p))"
  proof (cases "pl_compilePending p")
    case False
    let ?p = "(setBusy True (setOutputSummary [] (js ''compiling'' @ ellipsis) (setOutput [] (setStatus (js ''compiling'' @ ellipsis) False p))))
      \<lparr>pl_compilePending := True, pl_timer := False, pl_checkGeneration := pl_checkGeneration p + 1, pl_expanded := True\<rparr>"
    show ?thesis using request_prefix [of ?p "CompileRequest (pl_doc ?p)"] False by (simp add: compileNow_def Let_def screen_defs)
  qed (simp add: compileNow_def closeCompiler_def)
  have timer: "prefix (pl_posted p) (pl_posted (check_timer p))" using check_prefix [of "p\<lparr>pl_timer := False\<rparr>"] by (simp add: check_timer_def)
  have active: "prefix (pl_posted p) (pl_posted (activateCompiler p))"
    using check_prefix [of "startWorker (p\<lparr>pl_activated := True\<rparr>)"] by (simp add: activateCompiler_def Let_def split: play_ready.split)
  show ?thesis
    by (cases e) (auto simp: runs click timer active check_prefix edit_play_def loadExample_def hover_play_def request_prefix page_hides_def closeCompiler_def
        worker_cannot_boot_def worker_answers_def worker_breaks_def screen_defs Let_def split: option.split)
qed

section \<open>The page and its workers\<close>

text \<open>\<open>pp_got\<close> counts the messages that arrived at a worker, \<open>pp_seen\<close> those of a worker that arrived at the page.\<close>

record play_page =
  pp_play :: play
  pp_worker :: "nat \<Rightarrow> (play_wait, compiled) queue_worker"
  pp_got :: "nat \<Rightarrow> nat"
  pp_seen :: "nat \<Rightarrow> nat"

definition new_play_page :: "jstr \<Rightarrow> play_page" where
  "new_play_page source = \<lparr>pp_play = new_play source, pp_worker = (\<lambda>i. new_worker), pp_got = (\<lambda>i. 0), pp_seen = (\<lambda>i. 0)\<rparr>"

fun play_request :: "nat \<times> play_wait \<Rightarrow> play_wait request" where
  "play_request (n, CheckRequest g s) = \<lparr>rq_id = n, rq_kind = ''check'', rq_source = Some s, rq_rest = CheckRequest g s\<rparr>"
| "play_request (n, CompileRequest s) = \<lparr>rq_id = n, rq_kind = ''compile'', rq_source = Some s, rq_rest = CompileRequest s\<rparr>"
| "play_request (n, HoverRequest k) = \<lparr>rq_id = n, rq_kind = ''hover'', rq_source = None, rq_rest = HoverRequest k\<rparr>"

definition sent_to :: "nat \<Rightarrow> play \<Rightarrow> (nat \<times> play_wait) list" where
  "sent_to i p = map snd (filter (\<lambda>m. fst m = i) (pl_posted p))"

fun reader_event :: "play_event \<Rightarrow> bool" where
  "reader_event (WorkerRunning i) = False"
| "reader_event (WorkerNoBoot i said) = False"
| "reader_event (WorkerAnswers i n r) = False"
| "reader_event (WorkerBreaks i said) = False"
| "reader_event _ = True"

text \<open>The listener of the page for the messages of worker \<open>i\<close>.\<close>

fun hear :: "nat \<Rightarrow> compiled reply \<Rightarrow> play \<Rightarrow> play" where
  "hear i Ready p = worker_runs i p"
| "hear i (BootError said) p = worker_cannot_boot i said p"
| "hear i (Status said) p = (if pl_worker p = Some i then setStatus said False p else p)"
| "hear i (Answered n a) p = worker_answers i n (Ok a) p"
| "hear i (Refused n e) p = worker_answers i n (NotOk e) p"
| "hear i (Superseded n e) p = worker_answers i n (NotOk e) p"

datatype play_page_event =
    Reader play_event
  | Arrives
  | CompilerSettles nat "jserror + compiled"
  | CompilerBoots nat "jstr + unit"
  | Hears
  | Breaks jstr

definition next_reply :: "play_page \<Rightarrow> compiled reply option" where
  "next_reply pg =
    (case pl_worker (pp_play pg) of None \<Rightarrow> None
     | Some i \<Rightarrow> if pp_seen pg i < length (qw_posted (pp_worker pg i)) then Some (qw_posted (pp_worker pg i) ! pp_seen pg i) else None)"

fun play_page_step :: "play_page_event \<Rightarrow> play_page \<Rightarrow> play_page" where
  "play_page_step (Reader e) pg = (if reader_event e then pg\<lparr>pp_play := play_step e (pp_play pg)\<rparr> else pg)"
| "play_page_step Arrives pg =
    (case pl_worker (pp_play pg) of None \<Rightarrow> pg
     | Some i \<Rightarrow>
        if pp_got pg i < length (sent_to i (pp_play pg)) then
          pg\<lparr>pp_worker := (pp_worker pg)(i := onmessage (play_request (sent_to i (pp_play pg) ! pp_got pg i)) (pp_worker pg i)), pp_got := (pp_got pg)(i := pp_got pg i + 1)\<rparr>
        else pg)"
| "play_page_step (CompilerSettles i r) pg = pg\<lparr>pp_worker := (pp_worker pg)(i := compiler_settled r (pp_worker pg i))\<rparr>"
| "play_page_step (CompilerBoots i r) pg = pg\<lparr>pp_worker := (pp_worker pg)(i := boot_ends r (pp_worker pg i))\<rparr>"
| "play_page_step Hears pg =
    (case (pl_worker (pp_play pg), next_reply pg) of
       (Some i, Some r) \<Rightarrow> pg\<lparr>pp_play := hear i r (pp_play pg), pp_seen := (pp_seen pg)(i := pp_seen pg i + 1)\<rparr>
     | _ \<Rightarrow> pg)"
| "play_page_step (Breaks said) pg =
    (case pl_worker (pp_play pg) of None \<Rightarrow> pg | Some i \<Rightarrow> pg\<lparr>pp_play := worker_breaks i said (pp_play pg)\<rparr>)"

section \<open>Superseded checks\<close>

text \<open>A worker supersedes only checks, each for a check that came later.\<close>

definition superseded_by_newer :: "(play_wait, compiled) queue_worker \<Rightarrow> bool" where
  "superseded_by_newer w \<longleftrightarrow>
    (\<forall>n e. Superseded n e \<in> set (qw_posted w) \<longrightarrow>
       (\<exists>k \<in> set (qw_received w). is_check k \<and> rq_id k = n) \<and> (\<exists>m \<in> set (qw_received w). is_check m \<and> n < rq_id m))"

definition line_worker :: "(play_wait, compiled) queue_worker \<Rightarrow> bool" where
  "line_worker w \<longleftrightarrow> queue_ok w \<and> superseded_by_newer w"

lemma drain_loop_posted:
  "qw_received (drain_loop w) = qw_received w \<and> (\<forall>n e. Superseded n e \<in> set (qw_posted (drain_loop w)) \<longrightarrow> Superseded n e \<in> set (qw_posted w))"
proof (induction w rule: drain_loop.induct)
  case (1 w)
  show ?case
  proof (cases "qw_queue w")
    case Nil
    then show ?thesis by (simp add: drain_loop.simps [of w])
  next
    case (Cons m ms)
    show ?thesis
    proof (cases "refusal w m")
      case None
      then show ?thesis using Cons by (simp add: drain_loop.simps [of w])
    next
      case (Some e)
      from 1 [OF Cons refl Some] show ?thesis using Cons Some by (simp add: drain_loop.simps [of w]) (simp add: post_def)
    qed
  qed
qed

lemma settled_line:
  assumes "line_worker w"
  shows "line_worker (compiler_settled r w)" "qw_received (compiler_settled r w) = qw_received w"
proof -
  have "qw_received (compiler_settled r w) = qw_received w \<and> (\<forall>n e. Superseded n e \<in> set (qw_posted (compiler_settled r w)) \<longrightarrow> Superseded n e \<in> set (qw_posted w))"
  proof (cases "qw_current w")
    case (Some m)
    let ?u = "post [case r of Inr a \<Rightarrow> Answered (rq_id m) a | Inl e \<Rightarrow> Refused (rq_id m) (error_text e)] (w\<lparr>qw_current := None\<rparr>)"
    have "Superseded n e \<in> set (qw_posted ?u) \<longrightarrow> Superseded n e \<in> set (qw_posted w)" for n e by (cases r) (auto simp: post_def)
    with drain_loop_posted [of ?u] Some show ?thesis by (simp add: compiler_settled_def)
  qed (simp add: compiler_settled_def)
  moreover have "queue_ok (compiler_settled r w)" using assms by (simp add: line_worker_def compiler_settled_ok)
  ultimately show "line_worker (compiler_settled r w)" "qw_received (compiler_settled r w) = qw_received w"
    using assms unfolding line_worker_def superseded_by_newer_def by metis+
qed

lemma booted_line:
  assumes "line_worker w"
  shows "line_worker (boot_ends r w)" "qw_received (boot_ends r w) = qw_received w"
  using assms boot_ends_ok [of w r] by (auto simp: line_worker_def superseded_by_newer_def boot_ends_def post_def split: sum.split if_splits)

lemma message_line:
  assumes w: "line_worker w" and new: "\<forall>k \<in> set (qw_received w). rq_id k < rq_id m"
  shows "line_worker (onmessage m w)" "qw_received (onmessage m w) = qw_received w @ [m]"
proof -
  let ?w = "w\<lparr>qw_received := qw_received w @ [m]\<rparr>" let ?v = "if is_check m then supersede ?w else ?w"
  have sub: "set (qw_queue w) \<subseteq> set (qw_received w)"
    using w by (auto simp: line_worker_def queue_ok_def queue_core_def dest: list_emb_set)
  have v: "Superseded n e \<in> set (qw_posted ?v) \<longrightarrow> Superseded n e \<in> set (qw_posted w) \<or> (is_check m \<and> n < rq_id m \<and> (\<exists>k \<in> set (qw_received w). is_check k \<and> rq_id k = n))" for n e
    using sub new by (auto simp: supersede_def post_def dest!: set_takeWhileD)
  have rec: "qw_received ?v = qw_received w @ [m]" by simp
  let ?full = "post [Refused (rq_id m) (js ''Compiler request queue is full'')] ?v" let ?next = "drain (?v\<lparr>qw_queue := qw_queue ?v @ [m]\<rparr>)"
  have "qw_received ?next = qw_received w @ [m] \<and> (\<forall>n e. Superseded n e \<in> set (qw_posted ?next) \<longrightarrow> Superseded n e \<in> set (qw_posted ?v))"
    using drain_loop_posted [of "?v\<lparr>qw_queue := qw_queue ?v @ [m], qw_running := True\<rparr>"] rec by (simp add: drain_def)
  moreover have "qw_received ?full = qw_received w @ [m] \<and> (\<forall>n e. Superseded n e \<in> set (qw_posted ?full) \<longrightarrow> Superseded n e \<in> set (qw_posted ?v))"
    using rec by (simp add: post_def)
  moreover have "onmessage m w = ?full \<or> onmessage m w = ?next" by (simp add: onmessage_def Let_def)
  ultimately have step: "qw_received (onmessage m w) = qw_received w @ [m] \<and> (\<forall>n e. Superseded n e \<in> set (qw_posted (onmessage m w)) \<longrightarrow> Superseded n e \<in> set (qw_posted ?v))"
    by metis
  then show "qw_received (onmessage m w) = qw_received w @ [m]" by simp
  have "superseded_by_newer (onmessage m w)"
    unfolding superseded_by_newer_def using step v w by (fastforce simp: line_worker_def superseded_by_newer_def)
  moreover have "queue_ok (onmessage m w)" using w by (simp add: line_worker_def onmessage_ok)
  ultimately show "line_worker (onmessage m w)" by (simp add: line_worker_def)
qed

lemma play_request_id [simp]: "rq_id (play_request m) = fst m"
  by (cases m rule: play_request.cases) simp_all

lemma play_request_check: "is_check (play_request (n, w)) \<longleftrightarrow> (\<exists>g s. w = CheckRequest g s)"
  by (cases w) simp_all

lemma sent_sorted: "order_with ws p \<Longrightarrow> sorted_wrt (<) (map fst (sent_to i p))"
proof -
  assume "order_with ws p"
  then have "sorted_wrt (<) (map (fst \<circ> snd) (pl_posted p))" by (simp add: order_with_def)
  then show ?thesis unfolding sent_to_def by (induction "pl_posted p" arbitrary: p) (auto simp: sorted_wrt_map sorted_wrt_filter)
qed

lemma later_check_newer:
  assumes "order_with ws p" and m: "(i, n, CheckRequest g s) \<in> set (pl_posted p)" and m': "(i', n', CheckRequest g' s') \<in> set (pl_posted p)" and less: "n < n'"
  shows "g < g' \<and> g' \<le> pl_checkGeneration p"
proof -
  obtain xs ys where split: "pl_posted p = xs @ (i, n, CheckRequest g s) # ys" using m by (auto dest: split_list)
  have ids: "sorted_wrt (<) (map (fst \<circ> snd) (pl_posted p))" and gens: "sorted_wrt (<) (posted_generations (pl_posted p) @ generations ws)"
    "\<forall>h \<in> set (posted_generations (pl_posted p) @ generations ws). h \<le> pl_checkGeneration p"
    using assms(1) unfolding order_with_def by blast+
  have "(i', n', CheckRequest g' s') \<notin> set xs" using ids less by (force simp: split sorted_wrt_append)
  then have later: "(i', n', CheckRequest g' s') \<in> set ys" using m' less by (auto simp: split)
  then have member: "g' \<in> set (posted_generations ys)" by force
  have "sorted_wrt (<) (posted_generations xs @ g # posted_generations ys)" using gens(1) unfolding sorted_wrt_append [of _ "posted_generations (pl_posted p)"] by (simp add: split)
  then have "g < g'" using member unfolding sorted_wrt_append sorted_wrt.simps(2) by blast
  moreover have "posted_generations (pl_posted p) = posted_generations xs @ g # posted_generations ys" by (simp add: split)
  then have "g' \<in> set (posted_generations (pl_posted p) @ generations ws)" using member by (simp del: set_concat)
  then have "g' \<le> pl_checkGeneration p" using gens(2) by blast
  ultimately show ?thesis by simp
qed

lemma same_message:
  assumes "order_with ws p" and "(i, n, w) \<in> set (pl_posted p)" and "(j, n, v) \<in> set (pl_posted p)"
  shows "w = v"
proof -
  have "distinct (map (fst \<circ> snd) (pl_posted p))" using assms(1) by (simp add: order_with_def strict_sorted_iff)
  then have "inj_on (fst \<circ> snd) (set (pl_posted p))" by (simp add: distinct_map)
  from inj_onD [OF this _ assms(2,3)] show ?thesis by simp
qed

definition play_page_ok :: "play_page \<Rightarrow> bool" where
  "play_page_ok pg \<longleftrightarrow> play_ok (pp_play pg) \<and> order_ok (pp_play pg) \<and>
    (\<forall>i. line_worker (pp_worker pg i) \<and> pp_got pg i \<le> length (sent_to i (pp_play pg)) \<and>
      qw_received (pp_worker pg i) = map play_request (take (pp_got pg i) (sent_to i (pp_play pg))))"

lemma play_changes:
  assumes ok: "play_page_ok pg" and q: "play_ok q" "order_ok q" "prefix (pl_posted (pp_play pg)) (pl_posted q)"
  shows "play_page_ok (pg\<lparr>pp_play := q\<rparr>)"
proof -
  from q(3) obtain new where "pl_posted q = pl_posted (pp_play pg) @ new" by (auto simp: prefix_def)
  then have "sent_to i q = sent_to i (pp_play pg) @ map snd (filter (\<lambda>m. fst m = i) new)" for i by (simp add: sent_to_def)
  with ok q(1,2) show ?thesis by (auto simp: play_page_ok_def intro: trans_le_add1)
qed

lemma step_changes: "play_page_ok pg \<Longrightarrow> play_page_ok (pg\<lparr>pp_play := play_step e (pp_play pg)\<rparr>)"
  by (rule play_changes) (auto simp: play_page_ok_def play_step_ok play_step_order step_prefix)

lemma hear_changes: "play_page_ok pg \<Longrightarrow> play_page_ok (pg\<lparr>pp_play := hear i r (pp_play pg)\<rparr>)"
proof (cases r)
  case (Status said)
  assume ok: "play_page_ok pg"
  let ?p = "pp_play pg"
  have same: "same_requests ?p (setStatus said False ?p)" by (simp add: same_requests_def screen_defs)
  have "play_ok (setStatus said False ?p)" using ok by (intro screen_ok [OF _ same]) (simp_all add: play_page_ok_def screen_defs)
  moreover have "order_ok (setStatus said False ?p)" using ok order_same [OF same] by (simp add: play_page_ok_def screen_defs)
  ultimately have "play_page_ok (pg\<lparr>pp_play := setStatus said False ?p\<rparr>)" using play_changes [OF ok] by (simp add: screen_defs)
  then show ?thesis using ok Status by simp
next
  case Ready
  assume "play_page_ok pg"
  from step_changes [OF this, of "WorkerRunning i"] Ready show ?thesis by simp
next
  case (BootError said)
  assume "play_page_ok pg"
  from step_changes [OF this, of "WorkerNoBoot i said"] BootError show ?thesis by simp
next
  case (Answered n a)
  assume "play_page_ok pg"
  from step_changes [OF this, of "WorkerAnswers i n (Ok a)"] Answered show ?thesis by simp
next
  case (Refused n e)
  assume "play_page_ok pg"
  from step_changes [OF this, of "WorkerAnswers i n (NotOk e)"] Refused show ?thesis by simp
next
  case (Superseded n e)
  assume "play_page_ok pg"
  from step_changes [OF this, of "WorkerAnswers i n (NotOk e)"] Superseded show ?thesis by simp
qed

lemma worker_updates:
  assumes "play_page_ok pg" "line_worker w" "qw_received w = qw_received (pp_worker pg i)"
  shows "play_page_ok (pg\<lparr>pp_worker := (pp_worker pg)(i := w)\<rparr>)"
  using assms by (auto simp: play_page_ok_def)

lemma arrives_ok:
  assumes ok: "play_page_ok pg"
  shows "play_page_ok (play_page_step Arrives pg)"
proof (cases "\<exists>i. pl_worker (pp_play pg) = Some i \<and> pp_got pg i < length (sent_to i (pp_play pg))")
  case True
  then obtain i where i: "pl_worker (pp_play pg) = Some i" and left: "pp_got pg i < length (sent_to i (pp_play pg))" by blast
  let ?S = "sent_to i (pp_play pg)" let ?m = "?S ! pp_got pg i"
  have w: "line_worker (pp_worker pg i)" and rec: "qw_received (pp_worker pg i) = map play_request (take (pp_got pg i) ?S)"
    and order: "order_ok (pp_play pg)" using ok by (simp_all add: play_page_ok_def)
  have sorted: "sorted_wrt (<) (map fst ?S)" by (rule sent_sorted [OF order])
  have new: "\<forall>k \<in> set (qw_received (pp_worker pg i)). rq_id k < rq_id (play_request ?m)"
  proof
    fix k assume "k \<in> set (qw_received (pp_worker pg i))"
    then obtain a where a: "a \<in> set (take (pp_got pg i) ?S)" "k = play_request a" using rec by auto
    then obtain j where "j < pp_got pg i" "a = ?S ! j" using left by (auto simp: in_set_conv_nth)
    with sorted left show "rq_id k < rq_id (play_request ?m)" by (simp add: a(2) sorted_wrt_iff_nth_less)
  qed
  note arrived = message_line [OF w new]
  have "take (pp_got pg i + 1) ?S = take (pp_got pg i) ?S @ [?m]" using left by (simp add: take_Suc_conv_app_nth)
  with ok i left arrived rec show ?thesis by (auto simp: play_page_ok_def)
next
  case False
  then have "play_page_step Arrives pg = pg" by (auto split: option.split)
  with ok show ?thesis by simp
qed

lemma play_page_step_ok: "play_page_ok pg \<Longrightarrow> play_page_ok (play_page_step e pg)"
proof (cases e)
  case (Reader ev)
  assume "play_page_ok pg"
  then show ?thesis using Reader step_changes by simp
next
  case Arrives
  assume "play_page_ok pg"
  then show ?thesis using Arrives arrives_ok by (simp only:)
next
  case (CompilerSettles i r)
  assume ok: "play_page_ok pg"
  then have "line_worker (pp_worker pg i)" by (simp add: play_page_ok_def)
  from worker_updates [OF ok settled_line [OF this]] CompilerSettles show ?thesis by simp
next
  case (CompilerBoots i r)
  assume ok: "play_page_ok pg"
  then have "line_worker (pp_worker pg i)" by (simp add: play_page_ok_def)
  from worker_updates [OF ok booted_line [OF this]] CompilerBoots show ?thesis by simp
next
  case Hears
  assume ok: "play_page_ok pg"
  have "play_page_ok (pg\<lparr>pp_play := hear i r (pp_play pg), pp_seen := (pp_seen pg)(i := pp_seen pg i + 1)\<rparr>)" for i r
    using hear_changes [OF ok, of i r] by (simp add: play_page_ok_def)
  with ok Hears show ?thesis by (auto split: option.split)
next
  case (Breaks said)
  assume ok: "play_page_ok pg"
  have "play_page_ok (pg\<lparr>pp_play := worker_breaks i said (pp_play pg)\<rparr>)" for i using step_changes [OF ok, of "WorkerBreaks i said"] by simp
  with ok Breaks show ?thesis by (simp split: option.split)
qed

interpretation pp: machine play_page_step play_page_ok
  by unfold_locales (rule play_page_step_ok)

abbreviation play_page_after :: "jstr \<Rightarrow> play_page_event list \<Rightarrow> play_page" where
  "play_page_after source es \<equiv> run_events play_page_step es (new_play_page source)"

lemma play_page_after_ok: "play_page_ok (play_page_after source es)"
proof (rule pp.inv_run)
  have play: "play_ok (new_play source)" using play_after_ok [of "[]" source] by simp
  have line: "line_worker new_worker" using new_worker_ok by (simp add: line_worker_def superseded_by_newer_def) (simp add: new_worker_def)
  have order: "order_ok (new_play source)" by (simp add: order_with_def new_play_def)
  have "qw_received new_worker = []" by (simp add: new_worker_def)
  with play line order show "play_page_ok (new_play_page source)" by (simp add: play_page_ok_def new_play_page_def)
qed

text \<open>What the reader sees of the playground.\<close>

definition screen :: "play \<Rightarrow> (jstr \<times> bool) \<times> bool \<times> jstr \<times> (jstr \<times> bool) \<times> marker list \<times> diagnosis list" where
  "screen p = (pl_status p, pl_busy p, pl_output p, pl_summary p, pl_markers p, pl_list p)"

lemma superseded_hidden:
  assumes ok: "play_page_ok pg" and i: "pl_worker (pp_play pg) = Some i" and mem: "Superseded n e \<in> set (qw_posted (pp_worker pg i))"
  shows "screen (worker_answers i n r (pp_play pg)) = screen (pp_play pg)"
proof (cases "mget (pl_pending (pp_play pg)) n")
  case None
  then show ?thesis by (simp add: worker_answers_def)
next
  case (Some t)
  let ?p = "pp_play pg"
  have order: "order_ok ?p" and line: "line_worker (pp_worker pg i)" and rec: "qw_received (pp_worker pg i) = map play_request (take (pp_got pg i) (sent_to i ?p))"
    using ok by (simp_all add: play_page_ok_def)
  have posted: "(i, fst a, snd a) \<in> set (pl_posted ?p)" if "a \<in> set (take (pp_got pg i) (sent_to i ?p))" for a
    using that by (auto simp: sent_to_def dest!: in_set_takeD)
  from line mem obtain k m where "k \<in> set (qw_received (pp_worker pg i))" and k: "is_check k" "rq_id k = n" and "m \<in> set (qw_received (pp_worker pg i))" and m: "is_check m" "n < rq_id m"
    unfolding line_worker_def superseded_by_newer_def by blast
  then obtain a b where a: "a \<in> set (take (pp_got pg i) (sent_to i ?p))" "k = play_request a" and b: "b \<in> set (take (pp_got pg i) (sent_to i ?p))" "m = play_request b"
    by (auto simp: rec)
  from k m a(2) b(2) posted [OF a(1)] posted [OF b(1)] have "(i, n, snd a) \<in> set (pl_posted ?p)" "is_check (play_request (n, snd a))" "(i, fst b, snd b) \<in> set (pl_posted ?p)"
    "is_check (play_request (fst b, snd b))" "n < fst b" by auto
  then obtain g s g' s' where own: "(i, n, CheckRequest g s) \<in> set (pl_posted ?p)" and newer: "(i, fst b, CheckRequest g' s') \<in> set (pl_posted ?p)" "n < fst b"
    by (metis play_request_check)
  obtain j where "(j, n, snd t) \<in> set (pl_posted ?p)" using order Some unfolding order_with_def by blast
  with same_message [OF order own] have "snd t = CheckRequest g s" by auto
  moreover have "g \<noteq> pl_checkGeneration ?p" using later_check_newer [OF order own newer] by simp
  ultimately show ?thesis using Some by (simp add: worker_answers_def answer_request_def show_check_def screen_def)
qed

text \<open>C10. The worker's queue and the page's generations agree: a check is superseded only by a check of a newer edit, so that when the reply to a superseded check arrives, the page
  is already past it, and nothing the reader sees changes. In particular the reader is never told that a check failed because a newer one took its place.
\<close>

theorem superseded_checks_stay_hidden:
  "case next_reply (play_page_after source es) of
     Some (Superseded n e) \<Rightarrow> screen (pp_play (play_page_after source (es @ [Hears]))) = screen (pp_play (play_page_after source es))
   | _ \<Rightarrow> True"
proof (cases "\<exists>n e. next_reply (play_page_after source es) = Some (Superseded n e)")
  case True
  let ?pg = "play_page_after source es"
  obtain n e where reply: "next_reply ?pg = Some (Superseded n e)" using True by blast
  then obtain i where i: "pl_worker (pp_play ?pg) = Some i" and left: "pp_seen ?pg i < length (qw_posted (pp_worker ?pg i))"
    and nth: "qw_posted (pp_worker ?pg i) ! pp_seen ?pg i = Superseded n e"
    by (auto simp: next_reply_def split: option.splits if_splits)
  have "Superseded n e \<in> set (qw_posted (pp_worker ?pg i))" using left nth nth_mem by metis
  from superseded_hidden [OF play_page_after_ok i this] reply i show ?thesis by simp
next
  case False
  then show ?thesis by (auto split: option.split reply.split)
qed

end
