(* ===== verification/Highlight.thy ===== *)
theory Highlight
  imports Text
begin

text \<open>
  Highlighting of programs and generated code, \<^verbatim>\<open>src/editors/playground/src/nupp-lang.js\<close> and \<^verbatim>\<open>lua-output.js\<close>. A token is read from the front of what is left of a line; the
  tokenizer for Lua, which comes from a package, is the parameter \<open>base\<close>, and the highlighter of the package, which calls back for each text and each line break, is the parameter \<open>highlightCode\<close>.
\<close>

section \<open>Words and operators\<close>

definition NUPP_KEYWORDS :: "string list" where
  "NUPP_KEYWORDS = [''as'', ''associated'', ''borrows'', ''cdef'', ''const'', ''constructor'', ''continue'', ''each'', ''exclusive'', ''from'', ''global'', ''infer'', ''interface'', ''is'',
     ''keyof'', ''match'', ''matches'', ''metamethod'', ''new'', ''out'', ''preserves'', ''record'', ''releases'', ''resumes'', ''retains'', ''scoped'', ''struct'',
     ''takes'', ''type'', ''typeerror'', ''unpackof'', ''when'', ''where'', ''writekeyof'', ''writeof'', ''yields'']"

definition LUA_KEYWORDS :: "string list" where
  "LUA_KEYWORDS = [''and'', ''break'', ''do'', ''else'', ''elseif'', ''end'', ''for'', ''function'', ''goto'', ''if'', ''in'', ''local'', ''not'', ''or'', ''repeat'', ''return'', ''then'', ''until'', ''while'']"

definition LITERAL_KEYWORDS :: "string list" where "LITERAL_KEYWORDS = [''false'', ''nil'', ''true'']"
definition DIRECTIVE_KEYWORDS :: "string list" where "DIRECTIVE_KEYWORDS = [''comptime'']"
definition TYPE_DECLARATIONS :: "string list" where "TYPE_DECLARATIONS = [''interface'', ''record'', ''struct'', ''type'']"

definition BUILTIN_FUNCTIONS :: "string list" where
  "BUILTIN_FUNCTIONS = [''assert'', ''collectgarbage'', ''dofile'', ''error'', ''getfenv'', ''getmetatable'', ''ipairs'', ''load'', ''loadfile'', ''loadstring'', ''next'', ''pairs'', ''pcall'', ''print'', ''rawequal'',
     ''rawget'', ''rawset'', ''require'', ''select'', ''setfenv'', ''setmetatable'', ''tonumber'', ''tostring'', ''type'', ''unpack'', ''xpcall'']"

definition NUPP_TYPES :: "string list" where
  "NUPP_TYPES = [''any'', ''boolean'', ''borrowed'', ''cdata'', ''cstring'', ''ctype'', ''float'', ''int8'', ''int16'', ''int32'', ''int64'', ''integer'', ''metatable'', ''never'',
     ''number'', ''owned'', ''pinned'', ''string'', ''table'', ''thread'', ''uint8'', ''uint16'', ''uint32'', ''uint64'', ''unknown'', ''userdata'', ''voidptr'']"

text \<open>The alternatives of \<^verbatim>\<open>NUPP_OPERATOR\<close> in their order; the class of single characters at its end as one alternative for each.\<close>

definition OPERATORS :: "string list" where
  "OPERATORS = [''~>>='', ''...'', ''<<='', ''>>='', ''//='', ''..='', ''??='', ''~>>'', ''<<'', ''>>'', ''=='', ''~='', ''<='', ''>='', ''!='', ''&&'', ''||'', ''??'', ''?.'', ''::'', ''//'', ''..'', ''->'',
     ''+='', ''-='', ''*='', ''/='', ''%='', ''&='', ''|='',
     ''+'', ''-'', ''*'', ''/'', ''%'', ''^'', ''#'', ''&'', ''~'', ''|'', ''<'', ''>'', ''='', ''?'', '':'', ''!'', ''@'']"

definition PUNCTUATION :: jstr where
  "PUNCTUATION = js ''()[]{},;.:''"

definition among :: "jstr \<Rightarrow> string list \<Rightarrow> bool" where
  "among w ws \<longleftrightarrow> w \<in> set (map js ws)"

text \<open>A regular expression of alternatives takes the first that matches.\<close>

definition match_operator :: "jstr \<Rightarrow> jstr option" where
  "match_operator s = find (\<lambda>op. prefix op s) (map js OPERATORS)"

definition word_start :: "nat \<Rightarrow> bool" where
  "word_start u \<longleftrightarrow> 65 \<le> u \<and> u \<le> 90 \<or> 97 \<le> u \<and> u \<le> 122 \<or> u = 95"

definition word_part :: "nat \<Rightarrow> bool" where
  "word_part u \<longleftrightarrow> word_start u \<or> 48 \<le> u \<and> u \<le> 57"

definition match_identifier :: "jstr \<Rightarrow> jstr option" where
  "match_identifier s = (case s of u # us \<Rightarrow> if word_start u then Some (u # takeWhile word_part us) else None | [] \<Rightarrow> None)"

text \<open>\<^verbatim>\<open>/^@!?[A-Za-z_][A-Za-z0-9_]*/\<close>\<close>

definition match_annotation :: "jstr \<Rightarrow> jstr option" where
  "match_annotation s =
    (if take 2 s = [64, 33] then map_option (\<lambda>w. 64 # 33 # w) (match_identifier (drop 2 s))
     else if take 1 s = [64] then map_option (\<lambda>w. 64 # w) (match_identifier (drop 1 s))
     else None)"

section \<open>Tokens\<close>

text \<open>The tokenizer in charge: the normal one of Lua, that of a string in back quotes, or one of Lua's for something that spans lines.\<close>

datatype 'c cur = NormalTokenizer | BacktickString | LuaTokenizer 'c

record 'c token_state =
  ts_cur :: "'c cur"
  ts_previous :: "jstr option"
  ts_indentDepth :: int

definition updateIndent :: "jstr \<Rightarrow> 'c token_state \<Rightarrow> 'c token_state" where
  "updateIndent token st =
    (if among token [''function'', ''if'', ''repeat'', ''do'', ''('', ''{''] then st\<lparr>ts_indentDepth := ts_indentDepth st + 1\<rparr>
     else if among token [''end'', ''until'', '')'', ''}''] then st\<lparr>ts_indentDepth := ts_indentDepth st - 1\<rparr> else st)"

text \<open>The loop of \<^verbatim>\<open>backtickString\<close>: what it passes, and whether it found the end.\<close>

fun backtick_loop :: "bool \<Rightarrow> jstr \<Rightarrow> jstr \<times> bool" where
  "backtick_loop escaped [] = ([], False)"
| "backtick_loop escaped (u # us) =
    (if u = 96 \<and> \<not> escaped then ([u], True)
     else let (t, closed) = backtick_loop (\<not> escaped \<and> u = 92) us in (u # t, closed))"

definition word_style :: "jstr option \<Rightarrow> jstr \<Rightarrow> jstr \<Rightarrow> string" where
  "word_style previous word rest =
    (if among word LITERAL_KEYWORDS then ''bool''
     else if previous = Some (js ''@unsafe'') \<and> among word [''adopt'', ''release''] then ''keyword''
     else if among word DIRECTIVE_KEYWORDS then ''meta''
     else if among word LUA_KEYWORDS \<or> among word NUPP_KEYWORDS then ''keyword''
     else if among word NUPP_TYPES \<or> (case word of u # us \<Rightarrow> 65 \<le> u \<and> u \<le> 90 | [] \<Rightarrow> False) \<or>
             (case previous of Some p \<Rightarrow> among p TYPE_DECLARATIONS | None \<Rightarrow> False) then ''type''
     else if previous = Some (js ''function'') \<or> previous = Some (js ''metamethod'') \<or> among word BUILTIN_FUNCTIONS \<or>
             take 1 (dropWhile white rest) = js ''('' then ''builtin''
     else if previous = Some (js ''.'') \<or> previous = Some (js '':'') then ''property''
     else ''variable'')"

text \<open>A token: its style, its text, and the state after it.\<close>

type_synonym 'c tokenizer = "'c token_state \<Rightarrow> jstr \<Rightarrow> string option \<times> jstr \<times> 'c token_state"

definition backtickString :: "'c tokenizer" where
  "backtickString st s =
    (case backtick_loop False s of (t, closed) \<Rightarrow> (Some ''string'', t, if closed then st\<lparr>ts_cur := NormalTokenizer\<rparr> else st))"

text \<open>Lua's tokenizer calls the tokenizer that the state holds in \<^verbatim>\<open>cur\<close>. It knows its own; the one of the repository is handed to it.\<close>

type_synonym 'c base_tokenizer = "'c tokenizer \<Rightarrow> 'c tokenizer"

definition baseToken :: "'c base_tokenizer \<Rightarrow> 'c tokenizer" where
  "baseToken base = base backtickString"

definition token :: "'c base_tokenizer \<Rightarrow> 'c tokenizer" where
  "token base st s =
    (if ts_cur st \<noteq> NormalTokenizer \<or> prefix (js ''--'') s \<or> prefix (js ''[['') s \<or> prefix (js ''[='') s then baseToken base st s
     else if take 1 s = [96] then
       (case backtickString (st\<lparr>ts_cur := BacktickString\<rparr>) (drop 1 s) of (style, t, st1) \<Rightarrow> (style, 96 # t, st1))
     else case match_annotation s of
       Some a \<Rightarrow> (Some ''meta'', a, st\<lparr>ts_previous := Some a\<rparr>)
     | None \<Rightarrow>
        let operator = match_operator s in
        if (case operator of Some op \<Rightarrow> length op > 1 | None \<Rightarrow> False) then (Some ''operator'', the operator, st\<lparr>ts_previous := operator\<rparr>)
        else if (case s of u # us \<Rightarrow> u \<in> set PUNCTUATION | [] \<Rightarrow> False) then
          (Some ''punctuation'', take 1 s, (updateIndent (take 1 s) st)\<lparr>ts_previous := Some (take 1 s)\<rparr>)
        else if operator \<noteq> None then (Some ''operator'', the operator, st\<lparr>ts_previous := operator\<rparr>)
        else case match_identifier s of
          Some w \<Rightarrow> (Some (word_style (ts_previous st) w (drop (length w) s)), w, (updateIndent w st)\<lparr>ts_previous := Some w\<rparr>)
        | None \<Rightarrow>
           (case baseToken base st s of (style, t, st1) \<Rightarrow> (style, t, if style = None then st1 else st1\<lparr>ts_previous := Some t\<rparr>)))"

section \<open>Lines of generated code\<close>

text \<open>A segment is a text with its classes.\<close>

type_synonym segment = "jstr \<times> jstr"

text \<open>One part of a segment's text, then the parts that start new lines.\<close>

definition add_part :: "jstr \<Rightarrow> jstr \<Rightarrow> segment list list \<Rightarrow> segment list list" where
  "add_part classes part lines = (if part = [] then lines else butlast lines @ [last lines @ [(part, classes)]])"

definition add_segment :: "segment \<Rightarrow> segment list list \<Rightarrow> segment list list" where
  "add_segment seg lines =
    (case seg of (t, classes) \<Rightarrow>
      case split_on 10 t of [] \<Rightarrow> lines
      | part # parts \<Rightarrow> fold (\<lambda>p ls. add_part classes p (ls @ [[]])) parts (add_part classes part lines))"

text \<open>The highlighter of the package parses the source and calls back, in order, with a text and its classes or for a line break.\<close>

datatype highlight_call = PutText jstr jstr | PutBreak

definition luaHighlightSegments :: "(jstr \<Rightarrow> highlight_call list) \<Rightarrow> jstr \<Rightarrow> segment list" where
  "luaHighlightSegments highlightCode source =
    fold (\<lambda>c segments. case c of PutText t classes \<Rightarrow> segments @ [(t, classes)] | PutBreak \<Rightarrow> segments @ [([10], [])]) (highlightCode source) []"

definition luaHighlightLines :: "(jstr \<Rightarrow> highlight_call list) \<Rightarrow> jstr \<Rightarrow> segment list list" where
  "luaHighlightLines highlightCode source = fold add_segment (luaHighlightSegments highlightCode source) [[]]"

text \<open>What \<^verbatim>\<open>renderLuaOutput\<close> puts into the panel: each line with its number.\<close>

definition renderLuaOutput :: "(jstr \<Rightarrow> highlight_call list) \<Rightarrow> jstr \<Rightarrow> (jstr \<times> segment list) list" where
  "renderLuaOutput highlightCode source =
    (let lines = luaHighlightLines highlightCode source in map (\<lambda>(index, line). (decimal (index + 1), line)) (zip [0..<length lines] lines))"

section \<open>Properties\<close>

text \<open>In a list where no entry starts an entry behind it, the first match is the longest.\<close>

lemma first_is_longest:
  assumes "sorted_wrt (\<lambda>a b. \<not> prefix a b) ops"
    and "find (\<lambda>op. prefix op s) ops = Some op" and "op' \<in> set ops" and "prefix op' s"
  shows "length op' \<le> length op"
proof (rule ccontr)
  assume longer: "\<not> length op' \<le> length op"
  then have pre: "prefix op op'" using assms(2,4) prefix_length_prefix [of op s op'] by (auto simp: find_Some_iff)
  from assms(2) obtain i where i: "i < length ops" "op = ops ! i" "\<forall>j < i. \<not> prefix (ops ! j) s" by (auto simp: find_Some_iff)
  from assms(3) obtain j where j: "j < length ops" "op' = ops ! j" by (auto simp: in_set_conv_nth)
  have "i < j" using i j assms(4) longer by (metis linorder_neqE_nat order_refl)
  with assms(1) i j pre show False by (auto simp: sorted_wrt_iff_nth_less)
qed

lemma prefix_js: "prefix (js a) (js b) \<longleftrightarrow> prefix a b"
  by (induction a b rule: list_induct2') (auto simp: js_def)

lemma operators_in_order: "sorted_wrt (\<lambda>a b. \<not> prefix a b) OPERATORS"
  by (simp add: OPERATORS_def)

text \<open>The operator pattern is maximal munch: although a regular expression takes the first alternative that matches, the alternative it takes is the longest operator the text
  starts with, and there is one whenever the text starts with an operator.
\<close>

theorem operator_is_longest:
  "case match_operator s of
     Some op \<Rightarrow> prefix op s \<and> among op OPERATORS \<and> list_all (\<lambda>o'. length (js o') \<le> length op) (filter (\<lambda>o'. prefix (js o') s) OPERATORS)
   | None \<Rightarrow> filter (\<lambda>o'. prefix (js o') s) OPERATORS = []"
proof (cases "match_operator s")
  case None
  then have "\<forall>o' \<in> set OPERATORS. \<not> prefix (js o') s" by (auto simp: match_operator_def find_None_iff)
  then show ?thesis using None by (simp add: filter_empty_conv)
next
  case (Some op)
  then have "prefix op s" "op \<in> set (map js OPERATORS)" by (auto simp: match_operator_def find_Some_iff)
  moreover have "length (js o') \<le> length op" if "o' \<in> set OPERATORS" "prefix (js o') s" for o'
    using first_is_longest [OF _ Some [unfolded match_operator_def], of "js o'"] that operators_in_order by (auto simp: sorted_wrt_map prefix_js)
  ultimately show ?thesis using Some by (auto simp: among_def list_all_iff)
qed

definition line_texts :: "segment list list \<Rightarrow> jstr list" where
  "line_texts lines = map (\<lambda>line. concat (map fst line)) lines"

lemma line_texts_simps [simp]: "line_texts [] = []" "line_texts (ls @ ms) = line_texts ls @ line_texts ms" "line_texts ls = [] \<longleftrightarrow> ls = []"
  by (simp_all add: line_texts_def)

lemma join_as_concat: "join [c] (p # ps) = p @ concat (map (\<lambda>q. c # q) ps)"
  by (induction ps arbitrary: p) simp_all

lemma add_part_text:
  assumes "lines \<noteq> []"
  shows "join [10] (line_texts (add_part classes part lines)) = join [10] (line_texts lines) @ part" "add_part classes part lines \<noteq> []"
proof -
  obtain ls l where lines: "lines = ls @ [l]" using assms by (cases lines rule: rev_cases) auto
  show "join [10] (line_texts (add_part classes part lines)) = join [10] (line_texts lines) @ part"
    by (cases "ls = []") (simp_all add: lines add_part_def line_texts_def join_append)
qed (use assms in \<open>simp add: add_part_def\<close>)

lemma new_line_text: "ls \<noteq> [] \<Longrightarrow> join [10] (line_texts (ls @ [[]])) = join [10] (line_texts ls) @ [10]"
  by (simp add: join_append) (simp add: line_texts_def)

lemma add_segment_text:
  assumes "lines \<noteq> []"
  shows "join [10] (line_texts (add_segment seg lines)) = join [10] (line_texts lines) @ fst seg \<and> add_segment seg lines \<noteq> []"
proof -
  obtain t classes where seg: "seg = (t, classes)" by (cases seg)
  obtain part parts where split: "split_on 10 t = part # parts" by (cases "split_on 10 t") auto
  have rest: "join [10] (line_texts (fold (\<lambda>p ls. add_part classes p (ls @ [[]])) ps ls)) = join [10] (line_texts ls) @ concat (map (\<lambda>q. 10 # q) ps) \<and>
      fold (\<lambda>p ls. add_part classes p (ls @ [[]])) ps ls \<noteq> []" if "ls \<noteq> []" for ps ls
    using that
  proof (induction ps arbitrary: ls)
    case (Cons p ps)
    have "add_part classes p (ls @ [[]]) \<noteq> []" "join [10] (line_texts (add_part classes p (ls @ [[]]))) = join [10] (line_texts ls) @ 10 # p"
      using add_part_text [of "ls @ [[]]" classes p] new_line_text [OF Cons.prems] by simp_all
    with Cons.IH [of "add_part classes p (ls @ [[]])"] show ?case by simp
  qed simp
  have t: "part @ concat (map (\<lambda>q. 10 # q) parts) = t" using join_split_on [of 10 t] by (simp add: split join_as_concat)
  have "add_segment seg lines = fold (\<lambda>p ls. add_part classes p (ls @ [[]])) parts (add_part classes part lines)"
    by (simp add: add_segment_def seg split)
  then show ?thesis using rest [OF add_part_text(2) [OF assms, of classes part], of parts] add_part_text(1) [OF assms] by (simp add: seg t)
qed

lemma lines_text:
  "lines \<noteq> [] \<Longrightarrow> join [10] (line_texts (fold add_segment segs lines)) = join [10] (line_texts lines) @ concat (map fst segs) \<and> fold add_segment segs lines \<noteq> []"
  by (induction segs arbitrary: lines) (simp_all add: add_segment_text)

definition no_newline :: "segment list list \<Rightarrow> bool" where
  "no_newline lines \<longleftrightarrow> (\<forall>l \<in> set (line_texts lines). 10 \<notin> set l)"

lemma add_part_no_newline: "lines \<noteq> [] \<Longrightarrow> no_newline lines \<Longrightarrow> 10 \<notin> set part \<Longrightarrow> no_newline (add_part classes part lines)"
  by (cases lines rule: rev_cases) (auto simp: no_newline_def add_part_def line_texts_def)

lemma add_segment_no_newline:
  assumes "lines \<noteq> []" "no_newline lines"
  shows "no_newline (add_segment seg lines)"
proof -
  obtain t classes where seg: "seg = (t, classes)" by (cases seg)
  obtain part parts where split: "split_on 10 t = part # parts" by (cases "split_on 10 t") auto
  have free: "10 \<notin> set p" if "p \<in> set (part # parts)" for p using split_on_parts [of p 10 t] that by (simp add: split)
  have "no_newline (fold (\<lambda>p ls. add_part classes p (ls @ [[]])) ps ls)" if "ls \<noteq> []" "no_newline ls" "\<forall>p \<in> set ps. 10 \<notin> set p" for ps ls
    using that
  proof (induction ps arbitrary: ls)
    case (Cons p ps)
    have "no_newline (ls @ [[]])" using Cons.prems by (simp add: no_newline_def) (simp add: line_texts_def)
    then show ?case using Cons add_part_text(2) [of "ls @ [[]]"] by (simp add: add_part_no_newline)
  qed simp
  then show ?thesis using assms free add_part_text(2) [OF assms(1)] add_part_no_newline [OF assms] by (simp add: add_segment_def seg split)
qed

lemma lines_no_newline: "lines \<noteq> [] \<Longrightarrow> no_newline lines \<Longrightarrow> no_newline (fold add_segment segs lines)"
  by (induction segs arbitrary: lines) (simp_all add: add_segment_no_newline add_segment_text)

definition called_text :: "highlight_call list \<Rightarrow> jstr" where
  "called_text cs = concat (map (\<lambda>c. case c of PutText t classes \<Rightarrow> t | PutBreak \<Rightarrow> [10]) cs)"

lemma segments_text: "concat (map fst (luaHighlightSegments highlightCode source)) = called_text (highlightCode source)"
proof -
  have "concat (map fst (fold (\<lambda>c segments. case c of PutText t classes \<Rightarrow> segments @ [(t, classes)] | PutBreak \<Rightarrow> segments @ [([10], [])]) cs acc)) =
      concat (map fst acc) @ called_text cs" for cs and acc :: "segment list"
    by (induction cs arbitrary: acc) (simp_all add: called_text_def split: highlight_call.split)
  then show ?thesis by (simp add: luaHighlightSegments_def)
qed

text \<open>C35. The panel shows the generated code as it is: whatever the highlighter calls back with and wherever its texts break, the texts of the numbered lines are the lines of the text it called
  back with, its line breaks included, in order, with nothing lost, added or moved to another line, and the numbers count from one.
\<close>

theorem rendering_keeps_text:
  "map (\<lambda>(n, line). concat (map fst line)) (renderLuaOutput highlightCode source) = split_on 10 (called_text (highlightCode source))
   \<and> map fst (renderLuaOutput highlightCode source) = map (\<lambda>i. decimal (i + 1)) [0..<length (split_on 10 (called_text (highlightCode source)))]"
proof -
  let ?lines = "luaHighlightLines highlightCode source"
  have shown: "join [10] (line_texts ?lines) = called_text (highlightCode source)" "?lines \<noteq> []"
    using lines_text [of "[[]]" "luaHighlightSegments highlightCode source"] by (simp_all add: luaHighlightLines_def line_texts_def segments_text)
  have "no_newline ?lines"
    using lines_no_newline [of "[[]]" "luaHighlightSegments highlightCode source"] by (simp add: luaHighlightLines_def no_newline_def line_texts_def)
  then have "split_on 10 (join [10] (line_texts ?lines)) = line_texts ?lines"
    using shown(2) by (intro split_on_join) (simp_all add: no_newline_def)
  then have eq: "line_texts ?lines = split_on 10 (called_text (highlightCode source))" by (simp add: shown(1))
  then have len: "length ?lines = length (split_on 10 (called_text (highlightCode source)))" by (metis length_map line_texts_def)
  have "map (\<lambda>(n, line). concat (map fst line)) (renderLuaOutput highlightCode source) = line_texts (map snd (zip [0..<length ?lines] ?lines))"
    unfolding line_texts_def renderLuaOutput_def Let_def map_map comp_def case_prod_unfold by simp
  also have "\<dots> = line_texts ?lines" by (simp only: map_snd_zip length_upt minus_nat.diff_0)
  finally have lines: "map (\<lambda>(n, line). concat (map fst line)) (renderLuaOutput highlightCode source) = split_on 10 (called_text (highlightCode source))" using eq by simp
  have "map fst (renderLuaOutput highlightCode source) = map (\<lambda>i. decimal (i + 1)) (map fst (zip [0..<length ?lines] ?lines))"
    unfolding renderLuaOutput_def Let_def map_map comp_def case_prod_unfold by simp
  also have "\<dots> = map (\<lambda>i. decimal (i + 1)) [0..<length ?lines]" by (simp only: map_fst_zip length_upt minus_nat.diff_0)
  finally show ?thesis using lines len by simp
qed

lemma identifier_prefix: "match_identifier s = Some w \<Longrightarrow> w \<noteq> [] \<and> prefix w s"
  by (auto simp: match_identifier_def takeWhile_is_prefix split: list.splits if_splits)

lemma annotation_prefix: "match_annotation s = Some a \<Longrightarrow> a \<noteq> [] \<and> prefix a s"
  by (cases s; cases "tl s") (auto simp: match_annotation_def split: if_splits dest: identifier_prefix)

lemma backtick_prefix: "prefix (fst (backtick_loop escaped s)) s"
  by (induction escaped s rule: backtick_loop.induct) (auto simp: Let_def split: prod.splits)

lemma operator_prefix: "match_operator s = Some op \<Longrightarrow> op \<noteq> [] \<and> prefix op s"
proof -
  assume "match_operator s = Some op"
  then have "op \<in> set (map js OPERATORS)" "prefix op s" by (auto simp: match_operator_def find_Some_iff)
  moreover have "[] \<notin> set (map js OPERATORS)" by (simp add: OPERATORS_def js_def)
  ultimately show ?thesis by metis
qed

text \<open>Where a string in back quotes ends, told of the text alone: at a back quote with an even number of backslashes right before it. The part of a line that is such a string is the
  shortest beginning with such an end, or the whole line, and then the string goes on in the next one.
\<close>

definition string_ends :: "jstr \<Rightarrow> bool" where
  "string_ends t \<longleftrightarrow> t \<noteq> [] \<and> last t = 96 \<and> even (length (takeWhile (\<lambda>c. c = 92) (rev (butlast t))))"

definition string_part :: "jstr \<Rightarrow> jstr \<times> bool" where
  "string_part s = (case find string_ends (prefixes s) of Some t \<Rightarrow> (t, True) | None \<Rightarrow> (s, False))"

text \<open>The loop, entered behind a text that it has passed.\<close>

lemma find_first: "P x \<Longrightarrow> \<not> list_ex P xs \<Longrightarrow> find P (xs @ x # ys) = Some x"
  by (induction xs) simp_all

lemma backtick_loop_part:
  assumes "escaped \<longleftrightarrow> odd (length (takeWhile (\<lambda>c. c = 92) (rev w)))" and "\<not> list_ex string_ends (prefixes w)"
  shows "string_part (w @ s) = (w @ fst (backtick_loop escaped s), snd (backtick_loop escaped s))"
  using assms
proof (induction escaped s arbitrary: w rule: backtick_loop.induct)
  case (1 escaped)
  then show ?case by (auto simp: string_part_def list_ex_iff find_None_iff split: option.split)
next
  case (2 escaped u us)
  have here: "string_ends (w @ [u]) \<longleftrightarrow> u = 96 \<and> \<not> escaped" using "2.prems"(1) by (auto simp: string_ends_def)
  show ?case
  proof (cases "u = 96 \<and> \<not> escaped")
    case True
    obtain ys where "prefixes (w @ u # us) = prefixes w @ (w @ [u]) # ys"
      using prefixes_append [of w "u # us"] by (cases us) auto
    then have "find string_ends (prefixes (w @ u # us)) = Some (w @ [u])" using find_first here True "2.prems"(2) by metis
    with True show ?thesis by (simp add: string_part_def)
  next
    case False
    let ?e = "\<not> escaped \<and> u = 92"
    have e: "?e \<longleftrightarrow> odd (length (takeWhile (\<lambda>c. c = 92) (rev (w @ [u]))))" using "2.prems"(1) by auto
    have "\<not> list_ex string_ends (prefixes (w @ [u]))" using "2.prems"(2) here False by (simp add: prefixes_append)
    from "2.IH" [OF False e this] False show ?thesis by (auto simp: case_prod_unfold Let_def)
  qed
qed

lemma backtick_loop_is_part: "backtick_loop False s = string_part s"
  using backtick_loop_part [of False "[]" s] by (simp add: string_ends_def)

lemma string_part_prefix: "prefix (fst (string_part s)) s"
  using backtick_prefix [of False s] by (simp add: backtick_loop_is_part)

lemma string_part_not_empty: "s \<noteq> [] \<Longrightarrow> fst (string_part s) \<noteq> []"
  unfolding backtick_loop_is_part [symmetric] by (cases s) (simp_all add: case_prod_unfold Let_def)

text \<open>What the mode for Lua is relied on for. With a tokenizer of its own in charge it takes at least one character of a line that is not used up, and no more than there is. With one that
  it was handed in charge it skips white space or else calls that one and keeps its style, its text and the tokenizer it leaves in charge.
\<close>

definition advances :: "string option \<times> jstr \<times> 'c token_state \<Rightarrow> jstr \<Rightarrow> bool" where
  "advances r s \<longleftrightarrow> fst (snd r) \<noteq> [] \<and> prefix (fst (snd r)) s"

definition own_tokens_advance :: "'c base_tokenizer \<Rightarrow> bool" where
  "own_tokens_advance base \<longleftrightarrow> (\<forall>f st s. ts_cur st \<noteq> BacktickString \<longrightarrow> s \<noteq> [] \<longrightarrow> advances (base f st s) s)"

definition calls_cur :: "'c base_tokenizer \<Rightarrow> bool" where
  "calls_cur base \<longleftrightarrow> (\<forall>f st s. ts_cur st = BacktickString \<longrightarrow> s \<noteq> [] \<longrightarrow>
    (case (base f st s, f st s) of ((style, t, st1), (style', t', st1')) \<Rightarrow>
      if white (hd s) then style = None \<and> t = takeWhile white s \<and> ts_cur st1 = BacktickString
      else style = style' \<and> t = t' \<and> ts_cur st1 = ts_cur st1'))"

lemma token_in_string:
  assumes "calls_cur base" "ts_cur st = BacktickString" "s \<noteq> []" "token base st s = (style, t, st1)"
  shows "(style, t, ts_cur st1) =
    (if white (hd s) then (None, takeWhile white s, BacktickString)
     else (Some ''string'', fst (string_part s), if snd (string_part s) then NormalTokenizer else BacktickString))"
proof -
  have "base backtickString st s = (style, t, st1)" using assms(2,4) by (simp add: token_def baseToken_def)
  with assms(1) [unfolded calls_cur_def, rule_format, of st s backtickString, OF assms(2,3)] show ?thesis
    using assms(2) by (simp add: backtickString_def backtick_loop_is_part case_prod_unfold split: if_splits)
qed

lemma token_opens_string:
  assumes "ts_cur st = NormalTokenizer"
  shows "token base st (96 # s) =
    (Some ''string'', 96 # fst (string_part s), st\<lparr>ts_cur := (if snd (string_part s) then NormalTokenizer else BacktickString)\<rparr>)"
  using assms by (simp add: token_def js_def backtickString_def backtick_loop_is_part case_prod_unfold)

lemma token_advances:
  assumes own: "own_tokens_advance base" and "calls_cur base" and s: "s \<noteq> []"
  shows "advances (token base st s) s"
proof (cases "ts_cur st = BacktickString")
  case True
  obtain style t st1 where tok: "token base st s = (style, t, st1)" by (cases "token base st s")
  from token_in_string [OF assms(2) True s tok] show ?thesis
    using s string_part_not_empty [OF s] string_part_prefix [of s]
    unfolding advances_def tok by (cases s) (auto simp: takeWhile_is_prefix split: if_splits)
next
  case False
  then have taken: "advances (baseToken base st s) s" using own s by (simp add: own_tokens_advance_def baseToken_def)
  show ?thesis
  proof (cases "ts_cur st = NormalTokenizer \<and> take 1 s = [96]")
    case True
    then obtain u where "s = 96 # u" by (cases s) auto
    then show ?thesis using token_opens_string [of st base u] True string_part_prefix [of u] by (simp add: advances_def)
  next
    case other: False
    then show ?thesis using taken s annotation_prefix [of s] identifier_prefix [of s] operator_prefix [of s]
      by (auto simp: token_def advances_def Let_def take_is_prefix split: prod.splits option.splits)
  qed
qed

text \<open>A line read token by token until it is used up, with the state at its end; None where a token takes nothing.\<close>

fun line_tokens :: "'c base_tokenizer \<Rightarrow> 'c token_state \<Rightarrow> jstr \<Rightarrow> ((string option \<times> jstr) list \<times> 'c token_state) option" where
  "line_tokens base st s =
    (if s = [] then Some ([], st)
     else case token base st s of (style, t, st1) \<Rightarrow>
       if t = [] then None
       else map_option (\<lambda>(ts, st2). ((style, t) # ts, st2)) (line_tokens base st1 (drop (length t) s)))"

declare line_tokens.simps [simp del]

lemma line_tokens_make_up_line:
  assumes "own_tokens_advance base" "calls_cur base"
  shows "\<exists>ts st1. line_tokens base st s = Some (ts, st1) \<and> concat (map snd ts) = s"
proof (induction "length s" arbitrary: st s rule: less_induct)
  case less
  show ?case
  proof (cases "s = []")
    case True
    then show ?thesis by (simp add: line_tokens.simps)
  next
    case False
    obtain style t st1 where tok: "token base st s = (style, t, st1)" by (cases "token base st s")
    then have t: "t \<noteq> []" "prefix t s" using token_advances [OF assms False, of st] by (simp_all add: advances_def)
    then obtain r where r: "s = t @ r" by (auto simp: prefix_def)
    from less [of r st1] t r obtain ts st2 where "line_tokens base st1 r = Some (ts, st2)" "concat (map snd ts) = r" by auto
    then show ?thesis using t tok False by (subst line_tokens.simps) (simp add: r)
  qed
qed

text \<open>C36. The tokenizer always gets on and never loses its place in a string. Whatever tokenizer is in charge, a line falls into finitely many tokens whose texts make up the line. A back quote
  opens a string, which ends at the first back quote with an even number of backslashes right before it and is one token up to there; where the line has none, the token is the rest of the line and
  the string stays in charge. In charge at a later line it takes the same part of that line, one token again, after a token of white space where the line starts with it. It relies on the mode for Lua
  to take at least one character of what is left, and no more, where its own tokenizers are in charge, and to skip white space or call the tokenizer it was handed where that one is.
\<close>

theorem tokens_advance:
  assumes "own_tokens_advance base" "calls_cur base"
  shows "(\<exists>ts st1. line_tokens base st s = Some (ts, st1) \<and> concat (map snd ts) = s)
   \<and> (ts_cur st = BacktickString \<and> s \<noteq> [] \<longrightarrow>
       (\<exists>st1. token base st s = (if white (hd s) then (None, takeWhile white s, st1) else (Some ''string'', fst (string_part s), st1)) \<and>
         ts_cur st1 = (if \<not> white (hd s) \<and> snd (string_part s) then NormalTokenizer else BacktickString)))
   \<and> (ts_cur st = NormalTokenizer \<longrightarrow>
       token base st (96 # s) =
         (Some ''string'', 96 # fst (string_part s), st\<lparr>ts_cur := (if snd (string_part s) then NormalTokenizer else BacktickString)\<rparr>))"
proof (intro conjI impI)
  show "\<exists>ts st1. line_tokens base st s = Some (ts, st1) \<and> concat (map snd ts) = s" by (rule line_tokens_make_up_line [OF assms])
next
  assume now: "ts_cur st = BacktickString \<and> s \<noteq> []"
  obtain style t st1 where tok: "token base st s = (style, t, st1)" by (cases "token base st s")
  from token_in_string [OF assms(2) _ _ tok] now show
    "\<exists>st1. token base st s = (if white (hd s) then (None, takeWhile white s, st1) else (Some ''string'', fst (string_part s), st1)) \<and>
       ts_cur st1 = (if \<not> white (hd s) \<and> snd (string_part s) then NormalTokenizer else BacktickString)"
    by (intro exI [of _ st1]) (simp add: tok split: if_splits)
qed (rule token_opens_string)

text \<open>A mode that takes one character at a time where it is in charge.\<close>

definition one_by_one :: "unit base_tokenizer" where
  "one_by_one f st s =
    (if ts_cur st \<noteq> BacktickString then (None, take 1 s, st)
     else if s \<noteq> [] \<and> white (hd s) then (None, takeWhile white s, st)
     else f st s)"

definition inside_string :: "unit token_state" where
  "inside_string = \<lparr>ts_cur = BacktickString, ts_previous = None, ts_indentDepth = 0\<rparr>"

text \<open>The second line of a string, with an escaped back quote before the one that ends it.\<close>

theorem tokens_advance_witness:
  "\<exists>ts st1 st2. line_tokens one_by_one inside_string [120, 92, 96, 96, 32] = Some (ts, st1) \<and> concat (map snd ts) = [120, 92, 96, 96, 32] \<and>
     token one_by_one inside_string [120, 92, 96, 96, 32] = (Some ''string'', [120, 92, 96, 96], st2) \<and> ts_cur st2 = NormalTokenizer"
proof -
  have own: "own_tokens_advance one_by_one" by (auto simp: own_tokens_advance_def one_by_one_def advances_def take_is_prefix)
  have calls: "calls_cur one_by_one" by (auto simp: calls_cur_def one_by_one_def case_prod_unfold)
  have part: "string_part [120, 92, 96, 96, 32] = ([120, 92, 96, 96], True)" by (simp add: string_part_def string_ends_def)
  have cur: "ts_cur inside_string = BacktickString" by (simp add: inside_string_def)
  from tokens_advance [OF own calls, of inside_string "[120, 92, 96, 96, 32]"] show ?thesis by (auto simp: part cur white_def)
qed

end
