(* ===== verification/Artifacts.thy ===== *)
theory Artifacts
  imports Machine Text "HOL-Library.Product_Lexorder"
begin

text \<open>
  Generated views of the editor extension, \<^verbatim>\<open>src/editors/vscode/extension.js\<close>: the line mapping between a
  source file and what it compiles to, the cache of artifacts, and the two panes that follow each other's selection
  and scrolling. The editor's addresses are opaque: an address has a scheme and a text, and what
  the query of a generated document names is a parameter.
\<close>

section \<open>Line mappings\<close>

record map_entry =
  en_sourceLine :: int
  en_generatedLine :: int
  en_role :: string

record line_mapping =
  lm_kind :: string
  lm_entries :: "map_entry list"

record artifact =
  af_available :: bool
  af_text :: jstr
  af_uri :: jstr
  af_languageId :: "jstr option"
  af_unavailable :: "jstr option"
  af_mapping :: "line_mapping option"
  af_stale :: bool

definition mapping_of :: "artifact option \<Rightarrow> line_mapping option" where
  "mapping_of a = (case a of None \<Rightarrow> None | Some af \<Rightarrow> af_mapping af)"

definition written :: "map_entry \<Rightarrow> bool" where
  "written en \<longleftrightarrow> en_role en \<noteq> ''synthetic''"

definition generatedLineFor :: "artifact option \<Rightarrow> int \<Rightarrow> int option" where
  "generatedLineFor a sourceLine =
    (case mapping_of a of None \<Rightarrow> None
     | Some lm \<Rightarrow>
        if lm_kind lm = ''line-identity'' then Some sourceLine
        else fold (\<lambda>en best. if en_sourceLine en = sourceLine \<and> written en
            then Some (case best of None \<Rightarrow> en_generatedLine en | Some b \<Rightarrow> min b (en_generatedLine en)) else best)
          (lm_entries lm) None)"

definition sourceLineFor :: "artifact option \<Rightarrow> int \<Rightarrow> int option" where
  "sourceLineFor a generatedLine =
    (case mapping_of a of None \<Rightarrow> None
     | Some lm \<Rightarrow>
        if lm_kind lm = ''line-identity'' then Some generatedLine
        else map_option en_sourceLine (find (\<lambda>en. en_generatedLine en = generatedLine \<and> written en) (lm_entries lm)))"

definition nearestGeneratedLine :: "artifact option \<Rightarrow> int \<Rightarrow> int option" where
  "nearestGeneratedLine a sourceLine =
    (case generatedLineFor a sourceLine of Some n \<Rightarrow> Some n
     | None \<Rightarrow>
       (case mapping_of a of None \<Rightarrow> None
        | Some lm \<Rightarrow>
           map_option en_generatedLine (fold (\<lambda>en best.
             if written en \<and> en_sourceLine en \<le> sourceLine then
               (case best of None \<Rightarrow> Some en
                | Some b \<Rightarrow> if en_sourceLine en > en_sourceLine b \<or>
                    en_sourceLine en = en_sourceLine b \<and> en_generatedLine en < en_generatedLine b then Some en else best)
             else best) (lm_entries lm) None)))"

definition nearestSourceLine :: "artifact option \<Rightarrow> int \<Rightarrow> int option" where
  "nearestSourceLine a generatedLine =
    (case sourceLineFor a generatedLine of Some n \<Rightarrow> Some n
     | None \<Rightarrow>
       (case mapping_of a of None \<Rightarrow> None
        | Some lm \<Rightarrow>
           map_option en_sourceLine (fold (\<lambda>en best.
             if written en \<and> en_generatedLine en \<le> generatedLine then
               (case best of None \<Rightarrow> Some en
                | Some b \<Rightarrow> if en_generatedLine en > en_generatedLine b then Some en else best)
             else best) (lm_entries lm) None)))"

section \<open>The panes\<close>

text \<open>An address: its scheme, its text (\<^verbatim>\<open>toString()\<close>) and its path in the file system.\<close>

record uri =
  ur_scheme :: string
  ur_text :: jstr
  ur_fsPath :: jstr

definition GENERATED_SCHEME :: string where
  "GENERATED_SCHEME = ''nupp-generated''"

text \<open>
  \<open>source_of\<close> reads the query of an address: the address its member \<^verbatim>\<open>source\<close> names, if it has one.
\<close>

definition originOf :: "(uri \<Rightarrow> uri option) \<Rightarrow> uri \<Rightarrow> uri" where
  "originOf source_of u =
    (if ur_scheme u \<noteq> GENERATED_SCHEME then u else case source_of u of None \<Rightarrow> u | Some s \<Rightarrow> s)"

text \<open>
  \<open>sy_visible\<close> are the documents of the visible editors, \<open>sy_reveals\<close> the lines revealed so far, each with its document and
  whether it was put at the top.
\<close>

record panes =
  sy_generated :: "(jstr, artifact) jmap"
  sy_drivenUntil :: "(jstr, int) jmap"
  sy_visible :: "uri list"
  sy_reveals :: "(jstr \<times> int \<times> bool) list"

definition drivingPane :: "int \<Rightarrow> uri \<Rightarrow> panes \<Rightarrow> panes" where
  "drivingPane now ed s = s\<lparr>sy_drivenUntil := mset (sy_drivenUntil s) (ur_text ed) (now + 250)\<rparr>"

definition echoOfOurOwnScroll :: "int \<Rightarrow> uri \<Rightarrow> panes \<Rightarrow> panes \<times> bool" where
  "echoOfOurOwnScroll now ed s =
    (case mget (sy_drivenUntil s) (ur_text ed) of
       None \<Rightarrow> (s, False)
     | Some until \<Rightarrow>
        if now \<ge> until then (s\<lparr>sy_drivenUntil := mdelete (sy_drivenUntil s) (ur_text ed)\<rparr>, False) else (s, True))"

definition revealLine :: "uri \<Rightarrow> int \<Rightarrow> bool \<Rightarrow> panes \<Rightarrow> panes" where
  "revealLine ed line atTop s = s\<lparr>sy_reveals := sy_reveals s @ [(ur_text ed, max 0 (line - 1), atTop)]\<rparr>"

definition generatedViewsOf :: "(uri \<Rightarrow> uri option) \<Rightarrow> uri \<Rightarrow> panes \<Rightarrow> (uri \<times> artifact option) list" where
  "generatedViewsOf source_of doc s =
    map (\<lambda>ed. (ed, mget (sy_generated s) (ur_text ed)))
      (filter (\<lambda>ed. ur_text (originOf source_of ed) = ur_text doc)
        (filter (\<lambda>ed. ur_scheme ed = GENERATED_SCHEME) (sy_visible s)))"

definition sourceViewOf :: "(uri \<Rightarrow> uri option) \<Rightarrow> uri \<Rightarrow> panes \<Rightarrow> uri option" where
  "sourceViewOf source_of doc s = find (\<lambda>c. ur_text c = ur_text (originOf source_of doc)) (sy_visible s)"

text \<open>Drive one pane: remember that its next report is an echo, and reveal the line in it.\<close>

definition drive :: "int \<Rightarrow> uri \<Rightarrow> int \<Rightarrow> bool \<Rightarrow> panes \<Rightarrow> panes" where
  "drive now ed line atTop s = revealLine ed line atTop (drivingPane now ed s)"

definition drive_views :: "int \<Rightarrow> bool \<Rightarrow> (artifact option \<Rightarrow> int option) \<Rightarrow> (uri \<times> artifact option) list \<Rightarrow> panes \<Rightarrow> panes" where
  "drive_views now atTop line_of views s =
    fold (\<lambda>(ed, a) s. case line_of a of None \<Rightarrow> s | Some line \<Rightarrow> drive now ed line atTop s) views s"

definition synchronizeSelection :: "(uri \<Rightarrow> uri option) \<Rightarrow> int \<Rightarrow> uri \<Rightarrow> int \<Rightarrow> panes \<Rightarrow> panes" where
  "synchronizeSelection source_of now doc active s =
    (case echoOfOurOwnScroll now doc s of (s1, echo) \<Rightarrow>
     if echo then s1 else
     let line = active + 1 in
     if ur_scheme doc = GENERATED_SCHEME then
       (case (sourceViewOf source_of doc s1, sourceLineFor (mget (sy_generated s1) (ur_text doc)) line) of
          (Some ed, Some sourceLine) \<Rightarrow> drive now ed sourceLine False s1
        | _ \<Rightarrow> s1)
     else drive_views now False (\<lambda>a. generatedLineFor a line) (generatedViewsOf source_of doc s1) s1)"

text \<open>\<open>enabled\<close> is the setting \<^verbatim>\<open>syncArtifactScrolling\<close> of the origin, \<open>tops\<close> the first lines of the visible ranges.\<close>

definition synchronizeScroll :: "(uri \<Rightarrow> uri option) \<Rightarrow> (uri \<Rightarrow> bool) \<Rightarrow> int \<Rightarrow> uri \<Rightarrow> int list \<Rightarrow> panes \<Rightarrow> panes" where
  "synchronizeScroll source_of enabled now doc tops s =
    (case echoOfOurOwnScroll now doc s of (s1, echo) \<Rightarrow>
     if echo \<or> \<not> enabled (originOf source_of doc) then s1 else
     case tops of [] \<Rightarrow> s1
     | start # _ \<Rightarrow>
       (let top = start + 1 in
        if ur_scheme doc = GENERATED_SCHEME then
          (case (sourceViewOf source_of doc s1, nearestSourceLine (mget (sy_generated s1) (ur_text doc)) top) of
             (Some ed, Some sourceLine) \<Rightarrow> drive now ed sourceLine True s1
           | _ \<Rightarrow> s1)
        else drive_views now True (\<lambda>a. nearestGeneratedLine a top) (generatedViewsOf source_of doc s1) s1))"

section \<open>The cache of artifacts\<close>

definition store_artifact :: "uri \<Rightarrow> artifact \<Rightarrow> panes \<Rightarrow> panes" where
  "store_artifact u a s = s\<lparr>sy_generated := mset (sy_generated s) (ur_text u) a\<rparr>"

text \<open>What the content provider shows for an address.\<close>

definition provideTextDocumentContent :: "panes \<Rightarrow> uri \<Rightarrow> jstr" where
  "provideTextDocumentContent s u =
    (case mget (sy_generated s) (ur_text u) of None \<Rightarrow> [] | Some a \<Rightarrow> if af_available a then af_text a else [])"

text \<open>An edit of a document marks the artifacts made from it.\<close>

definition document_changed :: "uri \<Rightarrow> panes \<Rightarrow> panes" where
  "document_changed doc s =
    s\<lparr>sy_generated := map (\<lambda>(key, a). (key, if af_uri a = ur_text doc then a\<lparr>af_stale := True\<rparr> else a)) (sy_generated s)\<rparr>"

text \<open>
  The folding ranges of a generated document, from those of its source: \<open>ranges\<close> is what the server answers, \<open>None\<close> where none runs or it fails.
\<close>

definition provideFoldingRanges :: "nat \<Rightarrow> artifact option \<Rightarrow> (int \<times> int) list option \<Rightarrow> (int \<times> int) list" where
  "provideFoldingRanges lineCount a ranges =
    (case mapping_of a of None \<Rightarrow> []
     | Some lm \<Rightarrow>
        if lm_kind lm \<noteq> ''line-identity'' then [] else
        (case ranges of None \<Rightarrow> []
         | Some rs \<Rightarrow> let last = max 0 (int lineCount - 1) in
             map (\<lambda>(start, end). (min start last, min end last)) (filter (\<lambda>(start, end). start < last) rs)))"

section \<open>The nearest line\<close>

text \<open>A loop that keeps the candidate with the least key it meets finds the first of those with the least key of all.\<close>

definition keep_min :: "('a \<Rightarrow> bool) \<Rightarrow> ('a \<Rightarrow> 'k :: linorder) \<Rightarrow> 'a \<Rightarrow> 'a option \<Rightarrow> 'a option" where
  "keep_min cand key x best =
    (if cand x then (case best of None \<Rightarrow> Some x | Some b \<Rightarrow> if key x < key b then Some x else best) else best)"

lemma keep_min_cases:
  "cand x \<Longrightarrow> keep_min cand key x None = Some x" "\<not> cand x \<Longrightarrow> keep_min cand key x best = best"
  "cand x \<Longrightarrow> keep_min cand key x (Some b) = (if key x < key b then Some x else Some b)"
  by (simp_all add: keep_min_def)

lemma keep_min_found:
  "case fold (keep_min cand key) xs best of
      None \<Rightarrow> best = None \<and> (\<forall>x \<in> set xs. \<not> cand x)
    | Some b \<Rightarrow> (best = Some b \<or> b \<in> set xs \<and> cand b) \<and> (\<forall>x \<in> set xs. cand x \<longrightarrow> key b \<le> key x) \<and> (\<forall>y. best = Some y \<longrightarrow> key b \<le> key y)"
proof (induction xs arbitrary: best)
  case Nil
  then show ?case by (cases best) auto
next
  case (Cons x xs)
  from Cons [of "keep_min cand key x best"] show ?case
    by (cases "cand x"; cases best) (auto simp: keep_min_cases split: option.splits if_splits)
qed

abbreviation real_entries :: "line_mapping \<Rightarrow> map_entry set" where
  "real_entries lm \<equiv> {en \<in> set (lm_entries lm). written en}"

lemma exact_found:
  "case fold (\<lambda>en best. if en_sourceLine en = L \<and> written en
      then Some (case best of None \<Rightarrow> en_generatedLine en | Some b \<Rightarrow> min b (en_generatedLine en)) else best) es best of
     None \<Rightarrow> best = None \<and> (\<forall>en \<in> set es. en_sourceLine en = L \<longrightarrow> \<not> written en)
   | Some g \<Rightarrow> (best = Some g \<or> (\<exists>en \<in> set es. written en \<and> en_sourceLine en = L \<and> en_generatedLine en = g)) \<and>
       (\<forall>en \<in> set es. written en \<longrightarrow> en_sourceLine en = L \<longrightarrow> g \<le> en_generatedLine en) \<and> (\<forall>y. best = Some y \<longrightarrow> g \<le> y)"
proof (induction es arbitrary: best)
  case Nil
  then show ?case by (cases best) auto
next
  case (Cons en es)
  from Cons [of "if en_sourceLine en = L \<and> written en
      then Some (case best of None \<Rightarrow> en_generatedLine en | Some b \<Rightarrow> min b (en_generatedLine en)) else best"] show ?case
    by (cases best) (auto split: option.splits if_splits simp: min_def)
qed

text \<open>
  Both ways to a generated line end at the same place: the entry on the last mapped source line at or above, and the first generated line of
  those.
\<close>

definition at_or_above :: "line_mapping \<Rightarrow> int \<Rightarrow> int \<Rightarrow> bool" where
  "at_or_above lm L g \<longleftrightarrow> (\<exists>en \<in> real_entries lm. en_generatedLine en = g \<and> en_sourceLine en \<le> L \<and>
     (\<forall>en' \<in> real_entries lm. en_sourceLine en' \<le> L \<longrightarrow>
        en_sourceLine en' < en_sourceLine en \<or> en_sourceLine en' = en_sourceLine en \<and> g \<le> en_generatedLine en'))"

lemma nearest_generated:
  assumes a: "mapping_of a = Some lm" and kind: "lm_kind lm \<noteq> ''line-identity''"
  shows "case nearestGeneratedLine a L of None \<Rightarrow> \<forall>en \<in> real_entries lm. L < en_sourceLine en | Some g \<Rightarrow> at_or_above lm L g"
proof (cases "generatedLineFor a L")
  case (Some g)
  then have "at_or_above lm L g"
    using exact_found [where L = L and es = "lm_entries lm" and best = None] a kind by (auto simp: generatedLineFor_def at_or_above_def)
  with Some show ?thesis by (simp add: nearestGeneratedLine_def)
next
  case None
  let ?cand = "\<lambda>en. written en \<and> en_sourceLine en \<le> L" and ?key = "\<lambda>en. (- en_sourceLine en, en_generatedLine en)"
  have loop: "nearestGeneratedLine a L = map_option en_generatedLine (fold (keep_min ?cand ?key) (lm_entries lm) None)"
    unfolding nearestGeneratedLine_def None a option.simps(4,5)
    by (intro arg_cong [where f = "map_option en_generatedLine"] fold_cong) (auto simp: keep_min_def fun_eq_iff split: option.split)
  show ?thesis
    using keep_min_found [where cand = ?cand and key = ?key and xs = "lm_entries lm" and best = None]
    unfolding loop by (cases "fold (keep_min ?cand ?key) (lm_entries lm) None") (force simp: at_or_above_def not_le)+
qed

definition in_order :: "line_mapping \<Rightarrow> bool" where
  "in_order lm \<longleftrightarrow> (\<forall>en \<in> real_entries lm. \<forall>en' \<in> real_entries lm.
     en_sourceLine en < en_sourceLine en' \<longrightarrow> en_generatedLine en \<le> en_generatedLine en')"

lemma at_or_above_mono:
  assumes "in_order lm" "at_or_above lm L g" "at_or_above lm L' g'" "L \<le> L'"
  shows "g \<le> g'"
proof -
  from assms(2) obtain en where en: "en \<in> real_entries lm" "en_generatedLine en = g" "en_sourceLine en \<le> L"
    unfolding at_or_above_def by blast
  from assms(3) obtain en' where en': "en' \<in> real_entries lm" "en_generatedLine en' = g'" "en_sourceLine en' \<le> L'"
    and best': "\<forall>x \<in> real_entries lm. en_sourceLine x \<le> L' \<longrightarrow>
        en_sourceLine x < en_sourceLine en' \<or> en_sourceLine x = en_sourceLine en' \<and> g' \<le> en_generatedLine x"
    unfolding at_or_above_def by blast
  from best' en assms(4) have "en_sourceLine en < en_sourceLine en' \<or> en_sourceLine en = en_sourceLine en'" by fastforce
  then show ?thesis
  proof
    assume "en_sourceLine en < en_sourceLine en'"
    then show ?thesis using assms(1) en en' by (auto simp: in_order_def)
  next
    assume eq: "en_sourceLine en = en_sourceLine en'"
    from assms(2) obtain x where x: "x \<in> real_entries lm" "en_generatedLine x = g" "en_sourceLine x \<le> L"
      and best: "\<forall>y \<in> real_entries lm. en_sourceLine y \<le> L \<longrightarrow>
        en_sourceLine y < en_sourceLine x \<or> en_sourceLine y = en_sourceLine x \<and> g \<le> en_generatedLine y"
      unfolding at_or_above_def by blast
    have "en_sourceLine x \<le> en_sourceLine en'" using best' x assms(4) by fastforce
    moreover have "en_sourceLine en \<le> en_sourceLine x" using best en by fastforce
    ultimately have "en_sourceLine x = en_sourceLine en'" "en_sourceLine en' \<le> L" using eq x by linarith+
    then show ?thesis using best en' by fastforce
  qed
qed

text \<open>Scrolling down the source never scrolls a generated view up. Where the mapping runs in order, a line further down the source
  follows to the same generated line or one further down, gaps included, and once a line has a place every later line has one.
\<close>

theorem scrolling_is_monotone:
  assumes "mapping_of a = Some lm" and "in_order lm" and "L \<le> L'" and "nearestGeneratedLine a L = Some g"
  shows "\<exists>g'. nearestGeneratedLine a L' = Some g' \<and> g \<le> g'"
proof (cases "lm_kind lm = ''line-identity''")
  case True
  with assms show ?thesis by (simp add: nearestGeneratedLine_def generatedLineFor_def)
next
  case False
  note near = nearest_generated [OF assms(1) False]
  have g: "at_or_above lm L g" using near [of L] assms(4) by simp
  then obtain en where "en \<in> real_entries lm" "en_sourceLine en \<le> L" unfolding at_or_above_def by blast
  with near [of L'] assms(3) obtain g' where "nearestGeneratedLine a L' = Some g'" "at_or_above lm L' g'"
    by (cases "nearestGeneratedLine a L'") (force split: option.splits)+
  with at_or_above_mono [OF assms(2) g _ assms(3)] show ?thesis by blast
qed

definition two_rows :: line_mapping where
  "two_rows = \<lparr>lm_kind = ''lines'', lm_entries = [\<lparr>en_sourceLine = 1, en_generatedLine = 1, en_role = ''code''\<rparr>,
     \<lparr>en_sourceLine = 4, en_generatedLine = 9, en_role = ''code''\<rparr>]\<rparr>"

definition two_row_artifact :: artifact where
  "two_row_artifact = \<lparr>af_available = True, af_text = [], af_uri = [], af_languageId = None, af_unavailable = None,
     af_mapping = Some two_rows, af_stale = False\<rparr>"

theorem scrolling_is_monotone_witness:
  "\<exists>g'. nearestGeneratedLine (Some two_row_artifact) 7 = Some g' \<and> 1 \<le> g'"
  by (rule scrolling_is_monotone [where lm = two_rows and L = 3])
    (auto simp: mapping_of_def two_row_artifact_def two_rows_def in_order_def nearestGeneratedLine_def generatedLineFor_def written_def)

section \<open>Panes do not push each other\<close>

text \<open>
  What the editor's addresses are relied on for: a document's text determines its scheme, and a generated document names a source
  that is not generated.
\<close>

definition addresses_ok :: "(uri \<Rightarrow> uri option) \<Rightarrow> uri list \<Rightarrow> bool" where
  "addresses_ok source_of us \<longleftrightarrow> (\<forall>u \<in> set us. \<forall>v \<in> set us. ur_text u = ur_text v \<longrightarrow> ur_scheme u = ur_scheme v) \<and>
     (\<forall>u \<in> set us. ur_scheme u = GENERATED_SCHEME \<longrightarrow> (\<exists>v. source_of u = Some v \<and> ur_text v \<noteq> ur_text u))"

lemma drive_fields [simp]:
  "sy_drivenUntil (drive now ed line up s) = mset (sy_drivenUntil s) (ur_text ed) (now + 250)"
  "sy_reveals (drive now ed line up s) = sy_reveals s @ [(ur_text ed, max 0 (line - 1), up)]"
  "sy_visible (drive now ed line up s) = sy_visible s"
  by (simp_all add: drive_def revealLine_def drivingPane_def)

text \<open>Exactly the driven panes are remembered, each until a quarter of a second later.\<close>

lemma drive_views_reveals:
  "sy_reveals (drive_views now up f views s) = sy_reveals s @
     concat (map (\<lambda>(ed, a). case f a of None \<Rightarrow> [] | Some line \<Rightarrow> [(ur_text ed, max 0 (line - 1), up)]) views)"
proof (induction views arbitrary: s)
  case (Cons v views)
  obtain ed a where v: "v = (ed, a)" by fastforce
  from Cons show ?case by (cases "f a") (simp_all add: v drive_views_def)
qed (simp add: drive_views_def)

lemma drive_views_hit:
  "r \<in> set (concat (map (\<lambda>(ed, a). case f a of None \<Rightarrow> [] | Some line \<Rightarrow> [(ur_text ed, max 0 (line - 1), up)]) views)) \<Longrightarrow>
   \<exists>ed a. (ed, a) \<in> set views \<and> f a \<noteq> None \<and> fst r = ur_text ed"
proof (induction views)
  case (Cons v views)
  obtain ed a where v: "v = (ed, a)" by fastforce
  show ?case
  proof (cases "f a")
    case None
    with Cons show ?thesis by (auto simp: v)
  next
    case (Some l)
    with Cons.prems have "fst r = ur_text ed \<or> r \<in> set (concat (map (\<lambda>(ed, a). case f a of None \<Rightarrow> []
        | Some line \<Rightarrow> [(ur_text ed, max 0 (line - 1), up)]) views))" by (auto simp: v)
    with Cons.IH Some v show ?thesis by force
  qed
qed simp

lemma drive_views_driven:
  "mget (sy_drivenUntil (drive_views now up f views s)) k =
    (if \<exists>(ed, a) \<in> set views. f a \<noteq> None \<and> ur_text ed = k then Some (now + 250) else mget (sy_drivenUntil s) k)"
proof (induction views arbitrary: s)
  case (Cons v views)
  obtain ed a where v: "v = (ed, a)" by fastforce
  from Cons show ?case by (cases "f a") (auto simp add: v drive_views_def)
qed (simp add: drive_views_def)

datatype pane_report = SelectionReport int | ScrollReport "int list"

fun pane_reports :: "(uri \<Rightarrow> uri option) \<Rightarrow> (uri \<Rightarrow> bool) \<Rightarrow> int \<Rightarrow> uri \<Rightarrow> pane_report \<Rightarrow> panes \<Rightarrow> panes" where
  "pane_reports source_of enabled now doc (SelectionReport active) s = synchronizeSelection source_of now doc active s"
| "pane_reports source_of enabled now doc (ScrollReport tops) s = synchronizeScroll source_of enabled now doc tops s"

text \<open>What a report that is no echo does: follow a source line in the source's pane, or a generated line in every generated view.\<close>

definition follow :: "(uri \<Rightarrow> uri option) \<Rightarrow> int \<Rightarrow> uri \<Rightarrow> bool \<Rightarrow> int option \<Rightarrow> (artifact option \<Rightarrow> int option) \<Rightarrow> panes \<Rightarrow> panes" where
  "follow source_of now doc up line f s =
    (if ur_scheme doc = GENERATED_SCHEME
     then (case (sourceViewOf source_of doc s, line) of (Some ed, Some l) \<Rightarrow> drive now ed l up s | _ \<Rightarrow> s)
     else drive_views now up f (generatedViewsOf source_of doc s) s)"

lemma echo_reveals [simp]: "sy_reveals (fst (echoOfOurOwnScroll now doc s)) = sy_reveals s"
  by (simp add: echoOfOurOwnScroll_def split: option.split)

lemma echo_not_driven: "echoOfOurOwnScroll now doc s = (s1, False) \<Longrightarrow> mget (sy_drivenUntil s1) (ur_text doc) = None \<and> sy_visible s1 = sy_visible s \<and> sy_reveals s1 = sy_reveals s"
  by (auto simp: echoOfOurOwnScroll_def split: option.splits if_splits)

text \<open>A pane that was driven less than a quarter of a second ago reports only echoes.\<close>

lemma driven_report_ignored:
  "mget (sy_drivenUntil s) (ur_text ed) = Some until \<Longrightarrow> t < until \<Longrightarrow> pane_reports source_of enabled t ed rep s = s"
  by (cases rep) (simp_all add: synchronizeSelection_def synchronizeScroll_def echoOfOurOwnScroll_def)

lemma pane_reports_follow:
  "pane_reports source_of enabled now doc rep s = fst (echoOfOurOwnScroll now doc s) \<or>
   (\<exists>s1 up line f. echoOfOurOwnScroll now doc s = (s1, False) \<and> pane_reports source_of enabled now doc rep s = follow source_of now doc up line f s1)"
proof (cases "echoOfOurOwnScroll now doc s")
  case (Pair s1 echo)
  show ?thesis
  proof (cases rep)
    case (SelectionReport active)
    have "synchronizeSelection source_of now doc active s = (if echo then s1 else
        follow source_of now doc False (sourceLineFor (mget (sy_generated s1) (ur_text doc)) (active + 1)) (\<lambda>a. generatedLineFor a (active + 1)) s1)"
      by (simp add: synchronizeSelection_def Pair follow_def)
    then show ?thesis using SelectionReport Pair by (cases echo) auto
  next
    case (ScrollReport tops)
    have "synchronizeScroll source_of enabled now doc tops s = (if echo \<or> \<not> enabled (originOf source_of doc) \<or> tops = [] then s1 else
        follow source_of now doc True (nearestSourceLine (mget (sy_generated s1) (ur_text doc)) (hd tops + 1)) (\<lambda>a. nearestGeneratedLine a (hd tops + 1)) s1)"
      by (cases tops) (simp_all add: synchronizeScroll_def Pair follow_def Let_def)
    then show ?thesis using ScrollReport Pair by (cases "echo \<or> \<not> enabled (originOf source_of doc) \<or> tops = []") auto
  qed
qed

lemma follow_driven:
  assumes "r \<in> set (drop (length (sy_reveals s)) (sy_reveals (follow source_of now doc up line f s)))"
  shows "mget (sy_drivenUntil (follow source_of now doc up line f s)) (fst r) = Some (now + 250)"
proof (cases "ur_scheme doc = GENERATED_SCHEME")
  case True
  with assms show ?thesis by (auto simp: follow_def split: option.splits)
next
  case False
  then have eq: "follow source_of now doc up line f s = drive_views now up f (generatedViewsOf source_of doc s) s" by (simp add: follow_def)
  from assms obtain ed a where "(ed, a) \<in> set (generatedViewsOf source_of doc s)" "f a \<noteq> None" "fst r = ur_text ed"
    using drive_views_hit [where r = r and f = f and up = up and views = "generatedViewsOf source_of doc s"] unfolding eq by (auto simp: drive_views_reveals)
  then show ?thesis unfolding eq drive_views_driven by auto
qed

lemma follow_not_reporter:
  assumes "addresses_ok source_of (doc # sy_visible s)"
  shows "mget (sy_drivenUntil (follow source_of now doc up line f s)) (ur_text doc) = mget (sy_drivenUntil s) (ur_text doc)"
proof (cases "ur_scheme doc = GENERATED_SCHEME")
  case True
  then obtain v where v: "source_of doc = Some v" "ur_text v \<noteq> ur_text doc" using assms by (auto simp: addresses_ok_def)
  have "ur_text ed \<noteq> ur_text doc" if "sourceViewOf source_of doc s = Some ed" for ed
    using that True v by (auto simp: sourceViewOf_def find_Some_iff originOf_def)
  with True show ?thesis by (auto simp: follow_def split: option.splits)
next
  case False
  have "ur_text ed \<noteq> ur_text doc" if "(ed, a) \<in> set (generatedViewsOf source_of doc s)" for ed a
  proof -
    from that have "ed \<in> set (sy_visible s)" "ur_scheme ed = GENERATED_SCHEME" by (auto simp: generatedViewsOf_def)
    moreover have "ur_text ed = ur_text doc \<Longrightarrow> ur_scheme ed = ur_scheme doc" if "ed \<in> set (sy_visible s)"
      using assms that unfolding addresses_ok_def by (meson list.set_intros)
    ultimately show ?thesis using False by auto
  qed
  with False show ?thesis by (auto simp: follow_def drive_views_driven)
qed

lemma revealed_driven:
  assumes "r \<in> set (drop (length (sy_reveals s)) (sy_reveals (pane_reports source_of enabled now doc rep s)))"
  shows "mget (sy_drivenUntil (pane_reports source_of enabled now doc rep s)) (fst r) = Some (now + 250)"
  using pane_reports_follow [of source_of enabled now doc rep s] assms
proof (elim disjE exE conjE)
  fix s1 up line f
  assume e: "echoOfOurOwnScroll now doc s = (s1, False)" and eq: "pane_reports source_of enabled now doc rep s = follow source_of now doc up line f s1"
  from follow_driven [of r s1 source_of now doc up line f] assms echo_not_driven [OF e] show ?thesis unfolding eq by simp
qed simp

lemma reporter_not_driven:
  assumes "addresses_ok source_of (doc # sy_visible s)" and "mget (sy_drivenUntil s) (ur_text doc) = None"
  shows "mget (sy_drivenUntil (pane_reports source_of enabled now doc rep s)) (ur_text doc) = None"
  using pane_reports_follow [of source_of enabled now doc rep s]
proof (elim disjE exE conjE)
  fix s1 up line f
  assume e: "echoOfOurOwnScroll now doc s = (s1, False)" and eq: "pane_reports source_of enabled now doc rep s = follow source_of now doc up line f s1"
  from follow_not_reporter [of source_of doc s1 now up line f] assms echo_not_driven [OF e] show ?thesis unfolding eq by simp
next
  assume eq: "pane_reports source_of enabled now doc rep s = fst (echoOfOurOwnScroll now doc s)"
  then show ?thesis using assms(2) unfolding eq by (simp add: echoOfOurOwnScroll_def)
qed

text \<open>The panes do not push each other: a pane that a report just moved stays silent for a quarter of a second, whatever it reports, so no
  reveal answers a reveal; and the pane the reader moved is not muted, so the reader's next movement is followed again.
\<close>

theorem panes_do_not_push_back:
  assumes "addresses_ok source_of (doc # sy_visible s)" and "mget (sy_drivenUntil s) (ur_text doc) = None"
    and "pane_reports source_of enabled now doc rep s = s'"
    and "(ur_text ed, line, up) \<in> set (drop (length (sy_reveals s)) (sy_reveals s'))"
  shows "(now \<le> t \<and> t < now + 250 \<longrightarrow> pane_reports source_of enabled t ed rep' s' = s') \<and> mget (sy_drivenUntil s') (ur_text doc) = None"
  using driven_report_ignored [of s' ed "now + 250"] revealed_driven [of "(ur_text ed, line, up)" s source_of enabled now doc rep]
    reporter_not_driven [OF assms(1,2)] assms(3,4) by auto

definition left_doc :: uri where "left_doc = \<lparr>ur_scheme = ''file'', ur_text = js ''file:a'', ur_fsPath = js ''a''\<rparr>"
definition right_doc :: uri where "right_doc = \<lparr>ur_scheme = ''nupp-generated'', ur_text = js ''gen:a'', ur_fsPath = js ''a''\<rparr>"

definition two_panes :: panes where
  "two_panes = \<lparr>sy_generated = [(js ''gen:a'', two_row_artifact)], sy_drivenUntil = [], sy_visible = [left_doc, right_doc], sy_reveals = []\<rparr>"

theorem panes_do_not_push_back_witness:
  "\<exists>s'. pane_reports (\<lambda>_. Some left_doc) (\<lambda>_. True) 1000 left_doc (ScrollReport [4]) two_panes = s' \<and>
     sy_reveals s' = [(js ''gen:a'', 8, True)] \<and> pane_reports (\<lambda>_. Some left_doc) (\<lambda>_. True) 1100 right_doc (ScrollReport [8]) s' = s' \<and>
     mget (sy_drivenUntil s') (ur_text left_doc) = None"
proof -
  define s' where s': "s' = pane_reports (\<lambda>_. Some left_doc) (\<lambda>_. True) 1000 left_doc (ScrollReport [4]) two_panes"
  have r: "sy_reveals s' = [(js ''gen:a'', 8, True)]" unfolding s' by code_simp
  have a: "addresses_ok (\<lambda>_. Some left_doc) (left_doc # sy_visible two_panes)"
    by (simp add: addresses_ok_def two_panes_def left_doc_def right_doc_def GENERATED_SCHEME_def js_def)
  have n: "mget (sy_drivenUntil two_panes) (ur_text left_doc) = None" by (simp add: two_panes_def)
  have m: "(ur_text right_doc, 8, True) \<in> set (drop (length (sy_reveals two_panes)) (sy_reveals s'))"
    by (simp add: r) (simp add: two_panes_def right_doc_def)
  from panes_do_not_push_back [OF a n s' [symmetric] m, where t = 1100 and rep' = "ScrollReport [8]"] r s' show ?thesis by simp
qed

section \<open>Edits\<close>

lemma changed_artifact:
  "mget (sy_generated (document_changed doc s)) k =
     map_option (\<lambda>a. if af_uri a = ur_text doc then a\<lparr>af_stale := True\<rparr> else a) (mget (sy_generated s) k)"
  unfolding document_changed_def by (simp add: mget_map_snd)

text \<open>An edit marks the artifacts made from the document, and that is all it does: no code reads the mark, so the open view keeps the text
  and the line mapping of the program before the edit until something resolves it again.
\<close>

theorem edit_leaves_old_artifact:
  "provideTextDocumentContent (document_changed doc s) u = provideTextDocumentContent s u \<and>
   generatedLineFor (mget (sy_generated (document_changed doc s)) k) l = generatedLineFor (mget (sy_generated s) k) l \<and>
   nearestSourceLine (mget (sy_generated (document_changed doc s)) k) l = nearestSourceLine (mget (sy_generated s) k) l"
proof -
  have same: "mapping_of (mget (sy_generated (document_changed doc s)) k) = mapping_of (mget (sy_generated s) k)"
    by (cases "mget (sy_generated s) k") (simp_all add: changed_artifact mapping_of_def)
  then show ?thesis
    by (simp add: provideTextDocumentContent_def changed_artifact generatedLineFor_def nearestSourceLine_def sourceLineFor_def split: option.split)
qed

lemma folding_inside: "(x, y) \<in> set (provideFoldingRanges n a rs) \<Longrightarrow> x < max 0 (int n - 1) \<and> y \<le> max 0 (int n - 1)"
  by (auto simp: provideFoldingRanges_def Let_def split: option.splits if_splits)

end
