(* ===== verification/EditorClients.thy ===== *)
theory EditorClients
  imports Machine
begin

text \<open>
  The language clients of the editor extension, \<^verbatim>\<open>src/editors/vscode/extension.js\<close>: one per workspace folder, in a table keyed by the
  folder's address. Starting, stopping and restarting are cut at their awaits, so that they interleave; when a client starts,
  stops or is disposed of, and whether that succeeds, are events.
\<close>

section \<open>State\<close>

record folder =
  fo_key :: jstr
  fo_name :: jstr
  fo_file :: bool  \<comment> \<open>its scheme is \<^verbatim>\<open>file\<close>\<close>

text \<open>
  What still waits: a client that starts (with the key and the command its function holds), one that is disposed of after it could not start (with the
  message that follows), one that
  \<^verbatim>\<open>stopClient\<close> stops, one that a restart or the end of the extension stops, and what follows a set of those.
\<close>

datatype follow_up = ThenRestart | ThenEnd | ThenStart "folder list"

datatype client_task =
    Starting jstr nat jstr
  | Disposing nat jstr
  | Stopping nat
  | Ending nat
  | AfterStops "nat list" follow_up

text \<open>
  \<open>ex_stopped\<close> are the clients whose \<^verbatim>\<open>stop\<close> or \<^verbatim>\<open>dispose\<close> was called, \<open>ex_watching\<close> those whose file watchers live, \<open>ex_folders\<close> the workspace's folders.
\<close>

record extension =
  ex_clients :: "(jstr, nat) jmap"
  ex_nextClientId :: nat
  ex_folders :: "folder list"
  ex_tasks :: "client_task list"
  ex_stopped :: "nat list"
  ex_watching :: "nat list"
  ex_errors :: "jstr list"

definition new_extension :: "folder list \<Rightarrow> extension" where
  "new_extension folders = \<lparr>ex_clients = [], ex_nextClientId = 1, ex_folders = folders, ex_tasks = [], ex_stopped = [], ex_watching = [], ex_errors = []\<rparr>"

section \<open>Starting\<close>

text \<open>\<open>launch\<close> is the command of \<^verbatim>\<open>serverLaunch\<close> for a folder, which may throw.\<close>

definition startClient :: "(folder \<Rightarrow> jstr result) \<Rightarrow> folder \<Rightarrow> extension \<Rightarrow> extension" where
  "startClient launch f s =
    (if mhas (ex_clients s) (fo_key f) \<or> \<not> fo_file f then s else
     case launch f of Inl e \<Rightarrow> s
     | Inr command \<Rightarrow>
        let c = ex_nextClientId s in
        s\<lparr>ex_nextClientId := c + 1, ex_watching := ex_watching s @ [c], ex_clients := mset (ex_clients s) (fo_key f) c,
          ex_tasks := ex_tasks s @ [Starting (fo_key f) c command]\<rparr>)"

definition start_all :: "(folder \<Rightarrow> jstr result) \<Rightarrow> folder list \<Rightarrow> extension \<Rightarrow> extension" where
  "start_all launch fs s = fold (startClient launch) fs s"

definition drop_task :: "client_task \<Rightarrow> extension \<Rightarrow> extension" where
  "drop_task t s = s\<lparr>ex_tasks := remove1 t (ex_tasks s)\<rparr>"

text \<open>\<^verbatim>\<open>await client.start()\<close> ends: the failure deletes whatever the table holds under the key.\<close>

definition start_ends :: "jstr \<Rightarrow> nat \<Rightarrow> jstr \<Rightarrow> jstr option \<Rightarrow> extension \<Rightarrow> extension" where
  "start_ends key c command failure s =
    (if Starting key c command \<notin> set (ex_tasks s) then s else
     let s1 = drop_task (Starting key c command) s in
     case failure of None \<Rightarrow> s1
     | Some detail \<Rightarrow>
        s1\<lparr>ex_clients := mdelete (ex_clients s1) key, ex_stopped := ex_stopped s1 @ [c],
           ex_tasks := ex_tasks s1 @ [Disposing c (js ''Could not start the Nupp language server ('' @ command @ js ''): '' @ detail)]\<rparr>)"

text \<open>\<^verbatim>\<open>await client.dispose()\<close> ends.\<close>

definition dispose_ends :: "nat \<Rightarrow> jstr \<Rightarrow> bool \<Rightarrow> extension \<Rightarrow> extension" where
  "dispose_ends c said ok s =
    (if Disposing c said \<notin> set (ex_tasks s) then s else
     let s1 = drop_task (Disposing c said) s in
     if ok then s1\<lparr>ex_watching := removeAll c (ex_watching s1), ex_errors := ex_errors s1 @ [said]\<rparr> else s1)"

section \<open>Stopping\<close>

definition stopClient :: "jstr \<Rightarrow> extension \<Rightarrow> extension \<times> nat list" where
  "stopClient key s =
    (case mget (ex_clients s) key of None \<Rightarrow> (s, [])
     | Some c \<Rightarrow>
        (s\<lparr>ex_clients := mdelete (ex_clients s) key, ex_stopped := ex_stopped s @ [c], ex_tasks := ex_tasks s @ [Stopping c]\<rparr>, [c]))"

text \<open>An awaited \<^verbatim>\<open>client.stop()\<close> ends. Only \<^verbatim>\<open>stopClient\<close> disposes of the watchers itself, and only if the client stopped.\<close>

definition stop_ends :: "nat \<Rightarrow> bool \<Rightarrow> extension \<Rightarrow> extension" where
  "stop_ends c ok s =
    (if Stopping c \<in> set (ex_tasks s) then
       let s1 = drop_task (Stopping c) s in if ok then s1\<lparr>ex_watching := removeAll c (ex_watching s1)\<rparr> else s1
     else drop_task (Ending c) s)"

text \<open>The first half of \<^verbatim>\<open>restartClients\<close> and of \<^verbatim>\<open>deactivate\<close>.\<close>

definition stop_all :: "follow_up \<Rightarrow> extension \<Rightarrow> extension" where
  "stop_all next s =
    (let running = mvalues (ex_clients s) in
     s\<lparr>ex_clients := [], ex_stopped := ex_stopped s @ running, ex_tasks := ex_tasks s @ map Ending running @ [AfterStops running next]\<rparr>)"

fun stop_each :: "folder list \<Rightarrow> extension \<Rightarrow> extension \<times> nat list" where
  "stop_each [] s = (s, [])"
| "stop_each (f # fs) s = (let (s1, cs) = stopClient (fo_key f) s; (s2, ds) = stop_each fs s1 in (s2, cs @ ds))"

text \<open>
  \<^verbatim>\<open>Promise.allSettled\<close> over the stops \<open>cs\<close> settles when none of them is pending. A restart or the end then disposes of the watchers; a restart
  starts the workspace's folders again, a change of folders starts the added ones.
\<close>

definition stops_pending :: "nat list \<Rightarrow> extension \<Rightarrow> bool" where
  "stops_pending cs s \<longleftrightarrow> (\<exists>c \<in> set cs. Stopping c \<in> set (ex_tasks s) \<or> Ending c \<in> set (ex_tasks s))"

definition after_stops :: "(folder \<Rightarrow> jstr result) \<Rightarrow> nat list \<Rightarrow> follow_up \<Rightarrow> extension \<Rightarrow> extension" where
  "after_stops launch cs next s =
    (if AfterStops cs next \<notin> set (ex_tasks s) \<or> stops_pending cs s then s else
     let s1 = drop_task (AfterStops cs next) s;
         unwatched = s1\<lparr>ex_watching := filter (\<lambda>c. c \<notin> set cs) (ex_watching s1)\<rparr> in
     case next of
       ThenRestart \<Rightarrow> start_all launch (ex_folders s1) unwatched
     | ThenEnd \<Rightarrow> unwatched
     | ThenStart added \<Rightarrow> start_all launch added s1)"

definition folders_changed :: "folder list \<Rightarrow> folder list \<Rightarrow> extension \<Rightarrow> extension" where
  "folders_changed removed added s =
    (let s0 = s\<lparr>ex_folders := filter (\<lambda>f. f \<notin> set removed) (ex_folders s) @ added\<rparr>;
         (s1, cs) = stop_each removed s0
     in s1\<lparr>ex_tasks := ex_tasks s1 @ [AfterStops cs (ThenStart added)]\<rparr>)"

section \<open>Events\<close>

datatype client_event =
    Activate
  | Restart
  | Deactivate
  | FoldersChanged "folder list" "folder list"
  | StartEnds jstr nat jstr "jstr option"
  | DisposeEnds nat jstr bool
  | StopEnds nat bool
  | Continue "nat list" follow_up

fun client_step :: "(folder \<Rightarrow> jstr result) \<Rightarrow> client_event \<Rightarrow> extension \<Rightarrow> extension" where
  "client_step launch Activate s = start_all launch (ex_folders s) s"
| "client_step launch Restart s = stop_all ThenRestart s"
| "client_step launch Deactivate s = stop_all ThenEnd s"
| "client_step launch (FoldersChanged removed added) s = folders_changed removed added s"
| "client_step launch (StartEnds key c command failure) s = start_ends key c command failure s"
| "client_step launch (DisposeEnds c said ok) s = dispose_ends c said ok s"
| "client_step launch (StopEnds c ok) s = stop_ends c ok s"
| "client_step launch (Continue cs next) s = after_stops launch cs next s"

section \<open>Registering commands\<close>

text \<open>
  \<open>taken\<close> are the commands the editor already knows; registering one of them throws. The result is what was registered and what clashed.
\<close>

fun registerCommands :: "string list \<Rightarrow> string list \<Rightarrow> string list \<times> string list" where
  "registerCommands taken [] = ([], [])"
| "registerCommands taken (cmd # ids) =
    (if cmd \<in> set taken then (let (r, c) = registerCommands taken ids in (r, cmd # c))
     else (let (r, c) = registerCommands (cmd # taken) ids in (cmd # r, c)))"

definition nupp_commands :: "string list" where
  "nupp_commands = [''nupp.checkFunctionForJitTraceBlockers'', ''nupp.migrateAnnotatedLua'', ''nupp.inspectCompiledFunction'',
     ''nupp.openGeneratedLua'', ''nupp.openBytecode'', ''nupp.compareGeneratedArtifacts'', ''nupp.restartLanguageServer'']"

lemma register_distinct:
  "distinct ids \<Longrightarrow> registerCommands taken ids = (filter (\<lambda>i. i \<notin> set taken) ids, filter (\<lambda>i. i \<in> set taken) ids)"
proof (induction ids arbitrary: taken)
  case (Cons i ids)
  have "filter (\<lambda>j. j \<notin> insert i (set taken)) ids = filter (\<lambda>j. j \<notin> set taken) ids"
    "filter (\<lambda>j. j \<in> insert i (set taken)) ids = filter (\<lambda>j. j \<in> set taken) ids"
    using Cons.prems by (auto intro: filter_cong)
  with Cons show ?case by auto
qed simp

text \<open>A command another extension provides costs that command only: all the others are registered, and exactly the clashing ones are reported.\<close>

lemma clash_costs_one_command:
  "registerCommands taken nupp_commands = (filter (\<lambda>i. i \<notin> set taken) nupp_commands, filter (\<lambda>i. i \<in> set taken) nupp_commands)"
  by (rule register_distinct) (simp add: nupp_commands_def)

section \<open>No server without an owner\<close>

text \<open>
  A client number is owned while the table holds it and settled once its \<^verbatim>\<open>stop\<close> or \<^verbatim>\<open>dispose\<close> was called. \<open>clients_ok\<close>: the table has one client per key and
  no client twice, and every client ever made is owned or settled.
\<close>

definition owned :: "extension \<Rightarrow> nat \<Rightarrow> bool" where
  "owned s c \<longleftrightarrow> (\<exists>k. mget (ex_clients s) k = Some c)"

definition clients_ok :: "extension \<Rightarrow> bool" where
  "clients_ok s \<longleftrightarrow> wf_map (ex_clients s) \<and> (\<forall>k c. mget (ex_clients s) k = Some c \<longrightarrow> c < ex_nextClientId s) \<and>
     (\<forall>k k' c. mget (ex_clients s) k = Some c \<longrightarrow> mget (ex_clients s) k' = Some c \<longrightarrow> k = k') \<and> 1 \<le> ex_nextClientId s \<and>
     (\<forall>c. 1 \<le> c \<longrightarrow> c < ex_nextClientId s \<longrightarrow> owned s c \<or> c \<in> set (ex_stopped s))"

text \<open>A start fails cleanly when the table holds nothing else under its key; every other event is clean.\<close>

fun clean :: "client_event \<Rightarrow> extension \<Rightarrow> bool" where
  "clean (StartEnds key c command (Some detail)) s \<longleftrightarrow>
     Starting key c command \<in> set (ex_tasks s) \<longrightarrow> mget (ex_clients s) key \<in> {None, Some c}"
| "clean _ s \<longleftrightarrow> True"

lemma mvalues_iff: "wf_map m \<Longrightarrow> c \<in> set (mvalues m) \<longleftrightarrow> (\<exists>k. mget m k = Some c)"
proof -
  assume "wf_map m"
  then have "(k, c) \<in> set m \<longleftrightarrow> mget m k = Some c" for k by (rule jm.entries_get)
  then show ?thesis by (force simp: mvalues_def)
qed

lemma drop_task_fields [simp]:
  "ex_clients (drop_task t s) = ex_clients s" "ex_nextClientId (drop_task t s) = ex_nextClientId s" "ex_stopped (drop_task t s) = ex_stopped s"
  "ex_folders (drop_task t s) = ex_folders s" "ex_watching (drop_task t s) = ex_watching s" "ex_tasks (drop_task t s) = remove1 t (ex_tasks s)"
  by (simp_all add: drop_task_def)

lemma clients_ok_cong:
  "ex_clients s' = ex_clients s \<Longrightarrow> ex_nextClientId s' = ex_nextClientId s \<Longrightarrow> set (ex_stopped s) \<subseteq> set (ex_stopped s') \<Longrightarrow>
   clients_ok s \<Longrightarrow> clients_ok s'"
  by (auto simp: clients_ok_def owned_def)

text \<open>Entering a new client under a free key keeps the accounts.\<close>

lemma enrol_ok:
  assumes ok: "clients_ok s" and new: "mget (ex_clients s) key = None" and s': "ex_clients s' = mset (ex_clients s) key (ex_nextClientId s)"
    "ex_nextClientId s' = Suc (ex_nextClientId s)" "ex_stopped s' = ex_stopped s"
  shows "clients_ok s'"
proof -
  have get: "mget (ex_clients s') k = (if k = key then Some (ex_nextClientId s) else mget (ex_clients s) k)" for k by (simp add: s')
  have lt: "mget (ex_clients s) k = Some c \<Longrightarrow> c < ex_nextClientId s" for k c using ok by (simp add: clients_ok_def)
  have keep: "owned s c \<Longrightarrow> owned s' c" for c
    unfolding owned_def get using new by (metis option.distinct(1))
  have fresh: "owned s' (ex_nextClientId s)" unfolding owned_def get by auto
  have one: "k = k'" if "mget (ex_clients s') k = Some c" "mget (ex_clients s') k' = Some c" for k k' c
    using that ok lt [of k c] lt [of k' c] unfolding get clients_ok_def by (auto split: if_splits)
  have acc: "owned s' c \<or> c \<in> set (ex_stopped s')" if "1 \<le> c" "c < ex_nextClientId s'" for c
  proof (cases "c = ex_nextClientId s")
    case False
    with that ok have "owned s c \<or> c \<in> set (ex_stopped s)" by (simp add: clients_ok_def s' less_Suc_eq)
    with keep s' show ?thesis by auto
  qed (simp add: fresh)
  have bound: "c < ex_nextClientId s'" if "mget (ex_clients s') k = Some c" for k c
    using that lt [of k c] s'(2) unfolding get by (auto split: if_splits)
  have "wf_map (ex_clients s')" "1 \<le> ex_nextClientId s'" using ok by (simp_all add: clients_ok_def s')
  with one acc bound show ?thesis unfolding clients_ok_def by blast
qed

lemma startClient_ok: "clients_ok s \<Longrightarrow> clients_ok (startClient launch f s)"
proof (cases "mhas (ex_clients s) (fo_key f) \<or> \<not> fo_file f")
  case False
  assume ok: "clients_ok s"
  show ?thesis
  proof (cases "launch f")
    case (Inr command)
    then show ?thesis using False by (intro enrol_ok [OF ok, of "fo_key f"]) (simp_all add: startClient_def mhas_def Let_def)
  qed (use ok in \<open>simp add: startClient_def\<close>)
qed (simp add: startClient_def)

lemma start_all_ok: "clients_ok s \<Longrightarrow> clients_ok (start_all launch fs s)"
  unfolding start_all_def by (induction fs arbitrary: s) (auto simp: startClient_ok)

text \<open>Taking a client out of the table while settling it keeps the accounts.\<close>

lemma forget_ok:
  assumes "clients_ok s" and "mget (ex_clients s) key \<in> {None, Some c}" and "ex_clients s' = mdelete (ex_clients s) key"
    "ex_nextClientId s' = ex_nextClientId s" "set (ex_stopped s) \<subseteq> set (ex_stopped s')" "c \<in> set (ex_stopped s')"
  shows "clients_ok s'"
proof -
  have get: "mget (ex_clients s') k = (if k = key then None else mget (ex_clients s) k)" for k by (simp add: assms)
  have "owned s' d \<or> d \<in> set (ex_stopped s')" if d: "1 \<le> d" "d < ex_nextClientId s'" for d
  proof (cases "owned s d \<and> d \<noteq> c")
    case True
    then obtain k where k: "mget (ex_clients s) k = Some d" "d \<noteq> c" by (auto simp: owned_def)
    with assms(2) have "k \<noteq> key" by auto
    with k show ?thesis unfolding owned_def get by auto
  next
    case False
    then show ?thesis using assms d by (auto simp: clients_ok_def)
  qed
  moreover have "wf_map (ex_clients s')" "1 \<le> ex_nextClientId s'" using assms by (simp_all add: clients_ok_def)
  ultimately show ?thesis using assms(1) unfolding clients_ok_def get assms(4) by (metis option.distinct(1))
qed

lemma stopClient_ok: "clients_ok s \<Longrightarrow> clients_ok (fst (stopClient key s))"
proof (cases "mget (ex_clients s) key")
  case (Some c)
  assume ok: "clients_ok s"
  show ?thesis by (rule forget_ok [OF ok, of key c]) (auto simp: stopClient_def Some)
qed (simp add: stopClient_def)

lemma stop_each_ok: "clients_ok s \<Longrightarrow> clients_ok (fst (stop_each fs s))"
proof (induction fs arbitrary: s)
  case (Cons f fs)
  from stopClient_ok [OF Cons.prems, of "fo_key f"] Cons.IH [of "fst (stopClient (fo_key f) s)"] show ?case
    by (cases "stopClient (fo_key f) s"; cases "stop_each fs (fst (stopClient (fo_key f) s))") simp
qed simp

lemma stop_all_ok: "clients_ok s \<Longrightarrow> clients_ok (stop_all next s)"
  unfolding stop_all_def Let_def clients_ok_def owned_def by (auto simp: mvalues_iff)

lemma folders_changed_ok: "clients_ok s \<Longrightarrow> clients_ok (folders_changed removed added s)"
proof -
  assume "clients_ok s"
  then have "clients_ok (s\<lparr>ex_folders := filter (\<lambda>f. f \<notin> set removed) (ex_folders s) @ added\<rparr>)" by (rule clients_ok_cong [rotated 3]) simp_all
  from stop_each_ok [OF this, of removed] show ?thesis
    by (auto simp: folders_changed_def Let_def split: prod.splits elim!: clients_ok_cong [rotated 3])
qed

lemma after_stops_ok: "clients_ok s \<Longrightarrow> clients_ok (after_stops launch cs next s)"
  by (auto simp: after_stops_def Let_def intro!: start_all_ok elim!: clients_ok_cong [rotated 3] split: follow_up.split)

lemma start_ends_ok: "clients_ok s \<Longrightarrow> clean (StartEnds key c command failure) s \<Longrightarrow> clients_ok (start_ends key c command failure s)"
proof (cases "Starting key c command \<in> set (ex_tasks s)")
  case True
  assume ok: "clients_ok s" and clean: "clean (StartEnds key c command failure) s"
  show ?thesis
  proof (cases failure)
    case None
    then show ?thesis using ok by (auto simp: start_ends_def Let_def elim!: clients_ok_cong [rotated 3])
  next
    case (Some detail)
    with clean True have "mget (ex_clients s) key \<in> {None, Some c}" by simp
    from forget_ok [OF ok this, of "start_ends key c command failure s"] show ?thesis using True Some
      by (simp add: start_ends_def Let_def subset_insertI)
  qed
qed (simp add: start_ends_def)

lemma client_step_ok: "clients_ok s \<Longrightarrow> clean e s \<Longrightarrow> clients_ok (client_step launch e s)"
proof (cases e)
  case (StartEnds key c command failure)
  assume "clients_ok s" "clean e s"
  with StartEnds show ?thesis by (simp add: start_ends_ok del: clean.simps)
next
  case (DisposeEnds c said ok)
  assume "clients_ok s"
  with DisposeEnds show ?thesis by (auto simp: dispose_ends_def Let_def elim!: clients_ok_cong [rotated 3])
next
  case (StopEnds c ok)
  assume "clients_ok s"
  with StopEnds show ?thesis by (auto simp: stop_ends_def Let_def elim!: clients_ok_cong [rotated 3])
qed (auto simp: start_all_ok stop_all_ok folders_changed_ok after_stops_ok)

interpretation cl: machine "\<lambda>e s. if clean e s then client_step launch e s else s" clients_ok for launch
  by unfold_locales (simp add: client_step_ok)

fun clean_run :: "(folder \<Rightarrow> jstr result) \<Rightarrow> client_event list \<Rightarrow> extension \<Rightarrow> bool" where
  "clean_run launch [] s \<longleftrightarrow> True"
| "clean_run launch (e # es) s \<longleftrightarrow> clean e s \<and> clean_run launch es (client_step launch e s)"

lemma clean_run_eq:
  "clean_run launch es s \<Longrightarrow> run_events (client_step launch) es s = run_events (\<lambda>e s. if clean e s then client_step launch e s else s) es s"
  by (induction es arbitrary: s) auto

lemma new_extension_ok: "clients_ok (new_extension folders)"
  by (simp add: clients_ok_def new_extension_def)

abbreviation extension_after :: "(folder \<Rightarrow> jstr result) \<Rightarrow> folder list \<Rightarrow> client_event list \<Rightarrow> extension" where
  "extension_after launch folders es \<equiv> run_events (client_step launch) es (new_extension folders)"

text \<open>C15. However starts, stops, restarts and changes of folders interleave, as long as no start fails after another client took its place in the
  table, every language server ever started is in the table under one folder or was told to stop: ending the extension leaves none running.
\<close>

theorem no_orphan_server:
  assumes "clean_run launch es (new_extension folders)" and "1 \<le> c" and "c < ex_nextClientId (extension_after launch folders es)"
  shows "(owned (extension_after launch folders es) c \<or> c \<in> set (ex_stopped (extension_after launch folders es))) \<and>
    c \<in> set (ex_stopped (extension_after launch folders (es @ [Deactivate])))"
proof -
  have ok: "clients_ok (extension_after launch folders es)"
    unfolding clean_run_eq [OF assms(1)] by (rule cl.inv_run, rule new_extension_ok)
  with assms have acc: "owned (extension_after launch folders es) c \<or> c \<in> set (ex_stopped (extension_after launch folders es))"
    by (simp add: clients_ok_def)
  moreover have "c \<in> set (ex_stopped (stop_all ThenEnd (extension_after launch folders es)))"
    using acc ok by (auto simp: stop_all_def Let_def owned_def clients_ok_def mvalues_iff)
  ultimately show ?thesis by simp
qed

definition home :: folder where "home = \<lparr>fo_key = js ''file:w'', fo_name = js ''w'', fo_file = True\<rparr>"
definition nupp_launch :: "folder \<Rightarrow> jstr result" where "nupp_launch f = Inr (js ''nupp'')"

definition restart_run :: "client_event list" where
  "restart_run = [Activate, StartEnds (js ''file:w'') 1 (js ''nupp'') None, Restart, StopEnds 1 True, Continue [1] ThenRestart]"

theorem no_orphan_server_witness:
  "2 \<in> set (ex_stopped (extension_after nupp_launch [home] (restart_run @ [Deactivate])))"
proof -
  have c: "clean_run nupp_launch restart_run (new_extension [home])" by code_simp
  have n: "2 < ex_nextClientId (extension_after nupp_launch [home] restart_run)" by code_simp
  from no_orphan_server [OF c _ n] show ?thesis by simp
qed

text \<open>C40. A start that fails after a restart replaced its client takes the replacement out of the table: the function deletes whatever its key
  holds. The new server then runs with nobody to stop it, and its folder counts as having none.
\<close>

theorem late_failure_orphans_successor:
  assumes "clients_ok s" and "Starting key c command \<in> set (ex_tasks s)" and "mget (ex_clients s) key = Some d" and "d \<noteq> c" and "d \<notin> set (ex_stopped s)"
  shows "\<not> owned (start_ends key c command (Some detail) s) d \<and> d \<notin> set (ex_stopped (start_ends key c command (Some detail) s)) \<and>
    d \<notin> set (ex_stopped (stop_all ThenEnd (start_ends key c command (Some detail) s)))"
proof -
  let ?s = "start_ends key c command (Some detail) s"
  have fields: "ex_clients ?s = mdelete (ex_clients s) key" "ex_stopped ?s = ex_stopped s @ [c]" using assms(2) by (simp_all add: start_ends_def Let_def)
  have not_owned: "\<not> owned ?s d" using assms(1,3) by (auto simp: owned_def fields clients_ok_def)
  moreover have "wf_map (ex_clients ?s)" using assms(1) by (simp add: fields clients_ok_def)
  ultimately show ?thesis using assms(4,5) by (simp add: fields stop_all_def Let_def mvalues_iff owned_def)
qed

definition hasty_restart :: "client_event list" where
  "hasty_restart = [Activate, Restart, StopEnds 1 False, Continue [1] ThenRestart]"

theorem late_failure_orphans_successor_witness:
  "2 \<notin> set (ex_stopped (stop_all ThenEnd (start_ends (js ''file:w'') 1 (js ''nupp'') (Some []) (extension_after nupp_launch [home] hasty_restart))))"
proof -
  let ?s = "extension_after nupp_launch [home] hasty_restart"
  have c: "clean_run nupp_launch hasty_restart (new_extension [home])" by code_simp
  have ok: "clients_ok ?s" unfolding clean_run_eq [OF c] by (rule cl.inv_run, rule new_extension_ok)
  have t: "Starting (js ''file:w'') 1 (js ''nupp'') \<in> set (ex_tasks ?s)" by code_simp
  have g: "mget (ex_clients ?s) (js ''file:w'') = Some 2" by code_simp
  have n: "2 \<notin> set (ex_stopped ?s)" by code_simp
  from late_failure_orphans_successor [OF ok t g _ n, of "[]"] show ?thesis by simp
qed

text \<open>A client that cannot be stopped when its folder is removed keeps its file watchers: only a restart or the end disposes of watchers regardless.\<close>

lemma failed_stop_keeps_watchers:
  "Stopping c \<in> set (ex_tasks s) \<Longrightarrow> c \<in> set (ex_watching s) \<Longrightarrow> \<not> owned s c \<Longrightarrow>
   c \<in> set (ex_watching (stop_ends c False s)) \<and> \<not> owned (stop_ends c False s) c"
  by (simp add: stop_ends_def Let_def owned_def)

end
