(* ===== verification/EditorCommands.thy ===== *)
theory EditorCommands
  imports Artifacts
begin

text \<open>
  The commands of the editor extension, \<^verbatim>\<open>src/editors/vscode/extension.js\<close>: the check for trace blockers, the migration of annotated Lua, and opening, inspecting and
  comparing what a file compiles to. A command is a function of what the editor, the language server and the reader answer at its awaits, in that
  order, and gives what it did.
\<close>

section \<open>Actions\<close>

type_synonym range = "(int \<times> int) \<times> (int \<times> int)"

datatype severity = SevError | SevWarning | SevInformation

record diagnostic =
  di_range :: range
  di_message :: jstr
  di_severity :: severity
  di_code :: jstr

datatype edit =
    CreateFile jstr  \<comment> \<open>not over an existing file\<close>
  | InsertText jstr "int \<times> int" jstr
  | DeleteFile jstr

datatype action =
    Information jstr
  | ErrorMessage jstr
  | WarningMessage jstr
  | ClearDiagnostics jstr
  | SetDiagnostics jstr "diagnostic list"
  | ApplyEdit "edit list"
  | ShowDocument jstr
  | FoldAll
  | Diff jstr jstr jstr
  | Threw jserror

section \<open>Trace blockers\<close>

record finding =
  fi_class :: string
  fi_callPath :: "jstr list"
  fi_range :: "range option"
  fi_reason :: jstr
  fi_message :: "jstr option"

record trace_result =
  tr_name :: jstr
  tr_range :: range
  tr_findings :: "finding list"
  tr_addContract :: "(range \<times> jstr) option"

definition arrow :: jstr where "arrow = [32, 0x2192, 32]"

definition finding_diagnostic :: "range \<Rightarrow> finding \<Rightarrow> diagnostic" where
  "finding_diagnostic whole f =
    \<lparr>di_range = (case fi_range f of Some r \<Rightarrow> r | None \<Rightarrow> whole),
     di_message = fi_reason f @ (if length (fi_callPath f) > 1 then js '' via '' @ join arrow (fi_callPath f) else []) @ js '': '' @
       (case fi_message f of Some m \<Rightarrow> if m = [] then js (fi_class f) else m | None \<Rightarrow> js (fi_class f)),
     di_severity = (if fi_class f = ''blocker'' then SevError else if fi_class f = ''risk'' then SevWarning else SevInformation),
     di_code = fi_reason f\<rparr>"

definition ADD_CONTRACT :: jstr where "ADD_CONTRACT = js ''Add @jit contract''"

text \<open>
  \<open>doc\<close> is the document at hand with its language, \<open>running\<close> whether a server runs for it, \<open>response\<close> what the server answers, \<open>picked\<close> whether
  the reader picks the item of the last message. A message without items resolves to \<^verbatim>\<open>undefined\<close>, which is also what \<open>add\<close> is then.
\<close>

definition trace_summary :: "jstr \<Rightarrow> nat \<Rightarrow> jstr" where
  "trace_summary name n =
    (if n = 0 then name @ js '': no catalogued unconditional trace blockers or conditional risks.''
     else name @ js '': '' @ decimal n @ js '' JIT trace finding'' @ (if n = 1 then [] else js ''s'') @ js ''.'')"

definition checkFunctionForTraceBlockers ::
  "(jstr \<times> jstr) option \<Rightarrow> (int \<times> int) option \<Rightarrow> bool \<Rightarrow> (jstr + trace_result option) \<Rightarrow> bool \<Rightarrow> action list" where
  "checkFunctionForTraceBlockers doc position running response picked =
    (case doc of
       Some (uri, languageId) \<Rightarrow>
        if languageId \<noteq> js ''nupp'' \<or> position = None
        then [Information (js ''Open a Nupp function to check it for JIT trace blockers.'')]
        else if \<not> running then [ErrorMessage (js ''No Nupp language server is running for this file.'')]
        else ClearDiagnostics uri #
          (case response of
             Inl detail \<Rightarrow> [ErrorMessage (js ''JIT trace check failed: '' @ detail)]
           | Inr None \<Rightarrow> [Information (js ''No checked Nupp function contains the cursor.'')]
           | Inr (Some r) \<Rightarrow>
              let diagnostics = map (finding_diagnostic (tr_range r)) (tr_findings r);
                  add = (if tr_addContract r = None then None else Some ADD_CONTRACT);
                  choice = (if add \<noteq> None \<and> picked then add else None) in
              [SetDiagnostics uri diagnostics, Information (trace_summary (tr_name r) (length diagnostics))] @
              (if choice \<noteq> add then [] else
               case tr_addContract r of
                 None \<Rightarrow> [Threw (TypeError (js ''Cannot read properties of undefined (reading 'range')''))]
               | Some ((start, _), newText) \<Rightarrow> [ApplyEdit [InsertText uri start newText]]))
     | None \<Rightarrow> [Information (js ''Open a Nupp function to check it for JIT trace blockers.'')])"

section \<open>Migrating annotated Lua\<close>

record plan =
  pl_ok :: bool
  pl_error :: "jstr option"
  pl_destination :: uri
  pl_text :: jstr
  pl_warnings :: nat

definition plan_failure :: "plan option \<Rightarrow> jstr" where
  "plan_failure p = js ''Annotated Lua migration failed: '' @
    (case p of Some q \<Rightarrow> (case pl_error q of Some e \<Rightarrow> if e = [] then js ''no migration plan was returned'' else e | None \<Rightarrow> js ''no migration plan was returned'')
     | None \<Rightarrow> js ''no migration plan was returned'')"

definition confirm_text :: "(jstr \<Rightarrow> jstr) \<Rightarrow> plan \<Rightarrow> uri \<Rightarrow> jstr" where
  "confirm_text basename p u =
    js ''Create '' @ basename (ur_fsPath (pl_destination p)) @ js '' and remove '' @ basename (ur_fsPath u) @
    (if pl_warnings p \<noteq> 0 then js '' ('' @ decimal (pl_warnings p) @ js '' recoverable warning'' @ (if pl_warnings p = 1 then [] else js ''s'') @ js '')?'' else js ''?'')"

text \<open>
  \<open>exists\<close> is whether the destination can be found, \<open>confirmed\<close> whether the reader picked \<^verbatim>\<open>Migrate\<close>, \<open>applied\<close> whether the editor applied the edit.
\<close>

definition migrateAnnotatedLua ::
  "(jstr \<Rightarrow> jstr) \<Rightarrow> uri option \<Rightarrow> bool \<Rightarrow> (jstr + plan option) \<Rightarrow> bool \<Rightarrow> bool \<Rightarrow> bool \<Rightarrow> action list" where
  "migrateAnnotatedLua basename doc running response exists confirmed applied =
    (case doc of
       Some u \<Rightarrow>
        if ur_scheme u \<noteq> ''file'' \<or> \<not> suffix (js ''.lua'') (ur_fsPath u)
        then [Information (js ''Open an annotated .lua file to migrate it to Nupp.'')]
        else if \<not> running then [ErrorMessage (js ''No Nupp migration service is running for this file.'')]
        else (case response of
           Inl detail \<Rightarrow> [ErrorMessage (js ''Annotated Lua migration failed: '' @ detail)]
         | Inr p \<Rightarrow>
            (case p of
               Some q \<Rightarrow>
                if \<not> pl_ok q then [ErrorMessage (plan_failure p)]
                else if exists then [ErrorMessage (js ''Migration destination already exists: '' @ ur_fsPath (pl_destination q))]
                else WarningMessage (confirm_text basename q u) #
                  (if \<not> confirmed then [] else
                   let dest = ur_text (pl_destination q) in
                   ApplyEdit [CreateFile dest, InsertText dest (0, 0) (pl_text q), DeleteFile (ur_text u)] #
                   (if \<not> applied then [ErrorMessage (js ''VS Code could not apply the annotated Lua migration.'')] else [ShowDocument dest]))
             | None \<Rightarrow> [ErrorMessage (plan_failure None)]))
     | None \<Rightarrow> [Information (js ''Open an annotated .lua file to migrate it to Nupp.'')])"

section \<open>Opening artifacts\<close>

definition artifact_label :: "string \<Rightarrow> jstr" where
  "artifact_label kind = (if kind = ''lua'' then js ''Generated Lua'' else if kind = ''bytecode'' then js ''Bytecode'' else js kind)"

text \<open>The name of a generated document; \<open>address\<close> makes the address from the name, the source, the kind and the level.\<close>

definition generated_name :: "(jstr \<Rightarrow> jstr) \<Rightarrow> uri \<Rightarrow> string \<Rightarrow> nat \<Rightarrow> jstr" where
  "generated_name basename source kind optLevel =
    basename (ur_fsPath source) @ js ''.O'' @ decimal optLevel @ (if kind = ''lua'' then js ''.lua'' else js ''.bc'')"

definition generatedUri :: "(jstr \<Rightarrow> uri \<Rightarrow> string \<Rightarrow> nat \<Rightarrow> uri) \<Rightarrow> (jstr \<Rightarrow> jstr) \<Rightarrow> uri \<Rightarrow> string \<Rightarrow> nat \<Rightarrow> uri" where
  "generatedUri address basename source kind optLevel = address (generated_name basename source kind optLevel) source kind optLevel"

text \<open>\<^verbatim>\<open>refreshArtifact\<close>, with \<open>response\<close> what \<^verbatim>\<open>resolveArtifact\<close> gives: the cache takes the artifact.\<close>

definition refreshArtifact :: "uri \<Rightarrow> (jstr + artifact) \<Rightarrow> panes \<Rightarrow> panes \<times> (jstr + artifact)" where
  "refreshArtifact u response s = (case response of Inl e \<Rightarrow> (s, Inl e) | Inr a \<Rightarrow> (store_artifact u a s, Inr a))"

definition collapsible :: "artifact \<Rightarrow> bool" where
  "collapsible a \<longleftrightarrow> (case af_mapping a of Some lm \<Rightarrow> lm_kind lm = ''lines-collapsible'' | None \<Rightarrow> False)"

definition openArtifact :: "uri \<Rightarrow> string \<Rightarrow> uri \<Rightarrow> (jstr + artifact) \<Rightarrow> panes \<Rightarrow> panes \<times> action list \<times> uri option" where
  "openArtifact u kind source response s =
    (case refreshArtifact u response s of
       (s1, Inl detail) \<Rightarrow> (s1, [ErrorMessage (js ''Could not resolve the artifact: '' @ detail)], None)
     | (s1, Inr a) \<Rightarrow>
        if \<not> af_available a then
          (s1, [WarningMessage (artifact_label kind @ js '' is not available: '' @ (case af_unavailable a of Some t \<Rightarrow> t | None \<Rightarrow> js ''undefined''))], None)
        else
          let shown = s1\<lparr>sy_visible := sy_visible s1 @ [u]\<rparr> in
          (shown, [ShowDocument (ur_text u)] @
             (if collapsible a then FoldAll #
                (case find (\<lambda>c. ur_text c = ur_text source) (sy_visible shown) of Some c \<Rightarrow> [ShowDocument (ur_text c)] | None \<Rightarrow> []) else []),
           Some u))"

text \<open>The address a command works on: the one it was given, or that of the program behind the active editor.\<close>

definition activeNuppUri :: "(uri \<Rightarrow> uri option) \<Rightarrow> uri option \<Rightarrow> uri option \<Rightarrow> uri option" where
  "activeNuppUri source_of target active =
    (case target of Some u \<Rightarrow> Some u
     | None \<Rightarrow> (case active of None \<Rightarrow> None
        | Some u \<Rightarrow> let origin = originOf source_of u in if suffix (js ''.nupp'') (ur_fsPath origin) then Some origin else None))"

definition openGeneratedArtifact ::
  "(jstr \<Rightarrow> uri \<Rightarrow> string \<Rightarrow> nat \<Rightarrow> uri) \<Rightarrow> (jstr \<Rightarrow> jstr) \<Rightarrow> uri option \<Rightarrow> string \<Rightarrow> (uri \<Rightarrow> nat) \<Rightarrow> (jstr + artifact) \<Rightarrow> panes \<Rightarrow> panes \<times> action list" where
  "openGeneratedArtifact address basename u kind optLevel response s =
    (case u of None \<Rightarrow> (s, [Information (js ''Open a Nupp file to inspect what it compiles to.'')])
     | Some source \<Rightarrow>
        (case openArtifact (generatedUri address basename source kind (optLevel source)) kind source response s of (s1, acts, _) \<Rightarrow> (s1, acts)))"

record offered =
  of_label :: jstr
  of_kind :: string

text \<open>
  \<open>available\<close> are the artifacts the server offers, \<open>pick\<close> the one the reader picks, \<open>line\<close> the line of the function the command was given, if any.
\<close>

definition inspectCompiledFunction ::
  "(jstr \<Rightarrow> uri \<Rightarrow> string \<Rightarrow> nat \<Rightarrow> uri) \<Rightarrow> (jstr \<Rightarrow> jstr) \<Rightarrow> uri option \<Rightarrow> bool \<Rightarrow> (jstr + offered list) \<Rightarrow> (offered list \<Rightarrow> offered option) \<Rightarrow>
   (uri \<Rightarrow> nat) \<Rightarrow> (string \<Rightarrow> jstr + artifact) \<Rightarrow> int option \<Rightarrow> panes \<Rightarrow> panes \<times> action list" where
  "inspectCompiledFunction address basename u running available pick optLevel response line s =
    (case u of None \<Rightarrow> (s, [Information (js ''Open a Nupp file to inspect what it compiles to.'')])
     | Some source \<Rightarrow>
        if \<not> running then (s, [ErrorMessage (js ''No Nupp language server is running for this file.'')]) else
        (case available of
           Inl detail \<Rightarrow> (s, [ErrorMessage (js ''Could not list compiled artifacts: '' @ detail)])
         | Inr items \<Rightarrow>
            if items = [] then (s, [Information (js ''This server produces no artifacts for this file.'')]) else
            (case pick items of None \<Rightarrow> (s, [])
             | Some item \<Rightarrow>
                (case openArtifact (generatedUri address basename source (of_kind item) (optLevel source)) (of_kind item) source (response (of_kind item)) s of
                   (s1, acts, Some opened) \<Rightarrow>
                     (case line of None \<Rightarrow> (s1, acts)
                      | Some l \<Rightarrow>
                         (case (find (\<lambda>c. ur_text c = ur_text opened) (sy_visible s1), generatedLineFor (mget (sy_generated s1) (ur_text opened)) (l + 1)) of
                            (Some ed, Some g) \<Rightarrow> (revealLine ed g False s1, acts)
                          | _ \<Rightarrow> (s1, acts)))
                 | (s1, acts, None) \<Rightarrow> (s1, acts)))))"

definition levels_but :: "nat \<Rightarrow> nat list" where
  "levels_but left = filter (\<lambda>n. n \<noteq> left) [0, 1, 2]"

text \<open>\<open>kind\<close>, \<open>left\<close> and \<open>right\<close> are what the reader picks; \<open>right\<close> is asked for among the other levels.\<close>

definition compareGeneratedArtifacts ::
  "(jstr \<Rightarrow> uri \<Rightarrow> string \<Rightarrow> nat \<Rightarrow> uri) \<Rightarrow> (jstr \<Rightarrow> jstr) \<Rightarrow> uri option \<Rightarrow> string option \<Rightarrow> nat option \<Rightarrow> (nat list \<Rightarrow> nat option) \<Rightarrow>
   (nat \<Rightarrow> jstr + artifact) \<Rightarrow> panes \<Rightarrow> panes \<times> action list" where
  "compareGeneratedArtifacts address basename u kind left pick_right response s =
    (case u of None \<Rightarrow> (s, [Information (js ''Open a Nupp file to compare what it compiles to.'')])
     | Some source \<Rightarrow>
       (case (kind, left) of
          (Some k, Some l) \<Rightarrow>
            (case pick_right (levels_but l) of None \<Rightarrow> (s, [])
             | Some r \<Rightarrow>
                let leftUri = generatedUri address basename source k l; rightUri = generatedUri address basename source k r in
                (case refreshArtifact leftUri (response l) s of
                   (s1, Inl detail) \<Rightarrow> (s1, [ErrorMessage (js ''Could not resolve the artifacts: '' @ detail)])
                 | (s1, Inr _) \<Rightarrow>
                    (case refreshArtifact rightUri (response r) s1 of
                       (s2, Inl detail) \<Rightarrow> (s2, [ErrorMessage (js ''Could not resolve the artifacts: '' @ detail)])
                     | (s2, Inr _) \<Rightarrow>
                        (s2, [Diff (ur_text leftUri) (ur_text rightUri)
                           (artifact_label k @ js '': -O'' @ decimal l @ [32, 0x2194, 32] @ js ''-O'' @ decimal r)]))))
        | _ \<Rightarrow> (s, [])))"

section \<open>Properties\<close>

text \<open>A migration touches files only when it may: the document is a Lua file, a server answered with a plan, nothing is at the destination and the reader
  confirmed. Then it is one edit that creates the destination without replacing anything, writes the plan's text and removes the source.
\<close>

theorem migration_is_guarded:
  assumes "ApplyEdit edits \<in> set (migrateAnnotatedLua basename doc running response exists confirmed applied)"
  shows "\<exists>u q. doc = Some u \<and> ur_scheme u = ''file'' \<and> suffix (js ''.lua'') (ur_fsPath u) \<and> running \<and> response = Inr (Some q) \<and> pl_ok q \<and>
    \<not> exists \<and> confirmed \<and>
    edits = [CreateFile (ur_text (pl_destination q)), InsertText (ur_text (pl_destination q)) (0, 0) (pl_text q), DeleteFile (ur_text u)]"
  using assms by (auto simp: migrateAnnotatedLua_def Let_def split: option.splits if_splits sum.splits)

definition lua_doc :: uri where "lua_doc = \<lparr>ur_scheme = ''file'', ur_text = js ''file:a.lua'', ur_fsPath = js ''a.lua''\<rparr>"

definition lua_plan :: plan where
  "lua_plan = \<lparr>pl_ok = True, pl_error = None, pl_destination = \<lparr>ur_scheme = ''file'', ur_text = js ''file:a.nupp'', ur_fsPath = js ''a.nupp''\<rparr>,
     pl_text = js ''return 1'', pl_warnings = 0\<rparr>"

theorem migration_is_guarded_witness:
  "\<exists>edits. ApplyEdit edits \<in> set (migrateAnnotatedLua (\<lambda>p. p) (Some lua_doc) True (Inr (Some lua_plan)) False True True) \<and> length edits = 3"
proof -
  have "suffix (js ''.lua'') (js ''a.lua'')" by (simp add: suffix_def js_def)
  then have "ApplyEdit [CreateFile (js ''file:a.nupp''), InsertText (js ''file:a.nupp'') (0, 0) (js ''return 1''), DeleteFile (js ''file:a.lua'')]
      \<in> set (migrateAnnotatedLua (\<lambda>p. p) (Some lua_doc) True (Inr (Some lua_plan)) False True True)"
    by (simp add: migrateAnnotatedLua_def lua_doc_def lua_plan_def Let_def)
  from this migration_is_guarded [OF this] show ?thesis by auto
qed

text \<open>The trace check of a function for which the server offers no contract ends in an exception: the dismissed message and the missing item are both
  \<^verbatim>\<open>undefined\<close>, so the code takes the branch that inserts the contract.
\<close>

theorem trace_check_without_contract_throws:
  assumes "tr_addContract r = None"
  shows "\<exists>acts e. checkFunctionForTraceBlockers (Some (u, js ''nupp'')) (Some position) True (Inr (Some r)) picked = acts @ [Threw e]"
  using assms by (simp add: checkFunctionForTraceBlockers_def Let_def)

theorem trace_check_without_contract_throws_witness:
  "\<exists>acts e. checkFunctionForTraceBlockers (Some (js ''file:a'', js ''nupp'')) (Some (0, 0)) True
     (Inr (Some \<lparr>tr_name = js ''f'', tr_range = ((0, 0), (1, 0)), tr_findings = [], tr_addContract = None\<rparr>)) False = acts @ [Threw e]"
  by (rule trace_check_without_contract_throws) simp

text \<open>Comparing shows two different levels of one kind, both in the cache as the server just gave them.\<close>

lemma comparison_of_two_levels:
  assumes "compareGeneratedArtifacts address basename u kind left pick_right response s = (s', acts)" and "Diff a b title \<in> set acts"
    and "\<And>ls n. pick_right ls = Some n \<Longrightarrow> n \<in> set ls"
  shows "\<exists>source k l r. u = Some source \<and> kind = Some k \<and> left = Some l \<and> r \<noteq> l \<and> a = ur_text (generatedUri address basename source k l) \<and>
    b = ur_text (generatedUri address basename source k r) \<and> mget (sy_generated s') b = (case response r of Inr art \<Rightarrow> Some art | Inl _ \<Rightarrow> None)"
proof -
  from assms(1,2) obtain source k l r where "u = Some source" "kind = Some k" "left = Some l" "pick_right (levels_but l) = Some r"
    and e: "a = ur_text (generatedUri address basename source k l)" "b = ur_text (generatedUri address basename source k r)"
      "mget (sy_generated s') b = (case response r of Inr art \<Rightarrow> Some art | Inl _ \<Rightarrow> None)"
    by (auto simp: compareGeneratedArtifacts_def refreshArtifact_def store_artifact_def Let_def split: option.splits sum.splits)
  moreover have "r \<noteq> l" using assms(3) [OF \<open>pick_right (levels_but l) = Some r\<close>] unfolding levels_but_def set_filter by blast
  ultimately show ?thesis by blast
qed

end
