(* ===== verification/TestReports.thy ===== *)
theory TestReports
  imports Text
begin

text \<open>
  Tests and coverage of the editor extension, \<^verbatim>\<open>src/editors/vscode/extension.js\<close>: the suites it finds and selects, the verdicts it
  reads from the runner's output, and the coverage it publishes. Running the compiler is a parameter (what the process printed), and so is
  \<^verbatim>\<open>JSON.parse\<close>.
\<close>

section \<open>Items\<close>

record test_item =
  ti_id :: jstr
  ti_label :: jstr

datatype test_tree = Tree (tree_item: test_item) (children: "test_tree list")

text \<open>\<^verbatim>\<open>consider\<close>: an item without children is a suite.\<close>

fun suites_of :: "test_tree \<Rightarrow> test_item list" where
  "suites_of (Tree item cs) = (if cs = [] then [item] else concat (map suites_of cs))"

definition selectedSuites :: "test_tree list \<Rightarrow> test_tree list option \<Rightarrow> test_item list \<Rightarrow> test_item list" where
  "selectedSuites items included excluded =
    filter (\<lambda>item. ti_id item \<notin> set (map ti_id excluded))
      (concat (map suites_of (case included of None \<Rightarrow> items | Some ts \<Rightarrow> ts)))"

text \<open>What \<^verbatim>\<open>discoverSuites\<close> reads from the list the runner prints: the suites under the folder's item.\<close>

definition discovered :: "jstr \<Rightarrow> jstr \<Rightarrow> test_tree list" where
  "discovered folder stdout =
    map (\<lambda>suite. Tree \<lparr>ti_id = folder @ js ''/'' @ suite, ti_label = suite\<rparr> [])
      (filter (\<lambda>line. line \<noteq> [] \<and> 32 \<notin> set line) (map trim (split_on 10 stdout)))"

definition discoverSuites :: "jstr \<Rightarrow> jstr \<Rightarrow> bool \<Rightarrow> jstr \<Rightarrow> (jstr, test_tree) jmap \<Rightarrow> (jstr, test_tree) jmap" where
  "discoverSuites folder name error stdout items =
    (if error then items else
     let item = (case mget items folder of Some t \<Rightarrow> tree_item t | None \<Rightarrow> \<lparr>ti_id = folder, ti_label = name\<rparr>)
     in mset items folder (Tree item (discovered folder stdout)))"

section \<open>The record of a run\<close>

record failure =
  fa_message :: "jstr option"
  fa_file :: "jstr option"
  fa_line :: "int option"

record test_case =
  tc_suite :: jstr
  tc_name :: jstr
  tc_status :: string
  tc_duration :: nat
  tc_file :: "jstr option"
  tc_line :: "int option"
  tc_failure :: "failure option"

text \<open>The field \<^verbatim>\<open>tests\<close> of a record, if it has one.\<close>

type_synonym test_record = "test_case list option"

fun last_record :: "(jstr \<Rightarrow> test_record result) \<Rightarrow> jstr list \<Rightarrow> test_record option" where
  "last_record parse [] = None"
| "last_record parse (line # lines) =
    (let trimmed = trim line in
     if take 1 trimmed \<noteq> js ''{'' then last_record parse lines
     else case parse trimmed of Inr r \<Rightarrow> Some r | Inl e \<Rightarrow> last_record parse lines)"

definition lastJsonRecord :: "(jstr \<Rightarrow> test_record result) \<Rightarrow> jstr \<Rightarrow> test_record option" where
  "lastJsonRecord parse stdout = last_record parse (rev (split_on 10 stdout))"

text \<open>\<^verbatim>\<open>/\r?\n/g\<close> replaced by a carriage return and a line feed.\<close>

fun asTerminal :: "jstr \<Rightarrow> jstr" where
  "asTerminal [] = []"
| "asTerminal (u # us) =
    (if u = 10 then 13 # 10 # asTerminal us
     else if u = 13 \<and> take 1 us = [10] then 13 # 10 # asTerminal (drop 1 us)
     else u # asTerminal us)"

section \<open>Verdicts\<close>

datatype location = AbsoluteFile jstr nat | FolderFile jstr nat

record test_message =
  me_text :: jstr
  me_location :: "location option"

datatype verdict = Passed "nat option" | Failed "test_message list" "nat option" | Skipped

datatype run_event =
    Enqueued test_item
  | Started test_item
  | Verdict test_item verdict
  | Output jstr
  | Covered jstr "nat \<times> nat" "nat \<times> nat" "nat \<times> nat"
  | Ended

record outcome =
  oc_duration :: nat
  oc_failures :: "test_message list"
  oc_ran :: nat
  oc_skipped :: nat

text \<open>\<^verbatim>\<open>a || b\<close> for texts and lines that may be missing: the empty text and zero count as missing.\<close>

definition or_text :: "jstr option \<Rightarrow> jstr option \<Rightarrow> jstr option" where
  "or_text a b = (case a of None \<Rightarrow> b | Some t \<Rightarrow> if t = [] then b else a)"

definition or_line :: "int option \<Rightarrow> int \<Rightarrow> int" where
  "or_line a b = (case a of None \<Rightarrow> b | Some n \<Rightarrow> if n = 0 then b else n)"

definition given :: "jstr option \<Rightarrow> bool" where
  "given t \<longleftrightarrow> or_text t None \<noteq> None"

definition no_failure :: failure where
  "no_failure = \<lparr>fa_message = None, fa_file = None, fa_line = None\<rparr>"

definition failure_message :: "test_case \<Rightarrow> test_message" where
  "failure_message t =
    (let f = (case tc_failure t of None \<Rightarrow> no_failure | Some f \<Rightarrow> f);
         path = or_text (fa_file f) (tc_file t);
         at = (if given (fa_file f) then fa_line f else tc_line t);
         line = nat (max 0 (or_line at 1 - 1)) in
     \<lparr>me_text = tc_name t @ js '': '' @ the (or_text (fa_message f) (Some (js ''failed''))),
      me_location = (case path of None \<Rightarrow> None
        | Some p \<Rightarrow> if p = [] then None else if take 1 p = js ''/'' then Some (AbsoluteFile p line) else Some (FolderFile p line))\<rparr>)"

definition add_case :: "(jstr, test_item) jmap \<Rightarrow> test_case \<Rightarrow> (test_item, outcome) jmap \<Rightarrow> (test_item, outcome) jmap" where
  "add_case bySuite t outcomes =
    (case mget bySuite (tc_suite t) of None \<Rightarrow> outcomes
     | Some item \<Rightarrow>
        let oc = (case mget outcomes item of Some oc \<Rightarrow> oc | None \<Rightarrow> \<lparr>oc_duration = 0, oc_failures = [], oc_ran = 0, oc_skipped = 0\<rparr>);
            oc1 = oc\<lparr>oc_duration := oc_duration oc + tc_duration t, oc_ran := oc_ran oc + 1\<rparr>;
            oc2 = (if tc_status t = ''failed'' then oc1\<lparr>oc_failures := oc_failures oc1 @ [failure_message t]\<rparr>
                   else if tc_status t = ''skipped'' then oc1\<lparr>oc_skipped := oc_skipped oc1 + 1\<rparr> else oc1)
        in mset outcomes item oc2)"

definition by_suite :: "test_item list \<Rightarrow> (jstr, test_item) jmap" where
  "by_suite suites = fold (\<lambda>item m. mset m (ti_label item) item) suites []"

definition verdict_of :: "(test_item, outcome) jmap \<Rightarrow> test_item \<Rightarrow> verdict" where
  "verdict_of outcomes item =
    (case mget outcomes item of None \<Rightarrow> Skipped
     | Some oc \<Rightarrow> if oc_failures oc \<noteq> [] then Failed (oc_failures oc) (Some (oc_duration oc))
         else if oc_skipped oc = oc_ran oc then Skipped else Passed (Some (oc_duration oc)))"

definition reportTestResults ::
  "(jstr \<Rightarrow> test_record result) \<Rightarrow> test_item list \<Rightarrow> jstr \<Rightarrow> jstr \<Rightarrow> bool \<Rightarrow> run_event list" where
  "reportTestResults parse suites stdout stderr error =
    (let tests = (case lastJsonRecord parse stdout of Some (Some ts) \<Rightarrow> ts | _ \<Rightarrow> []);
         outcomes = fold (add_case (by_suite suites)) tests [] in
     if outcomes = [] then
       Output (asTerminal (if stderr = [] then stdout else stderr)) #
       map (\<lambda>item. Verdict item (Failed [\<lparr>me_text = (if error then js ''the test run failed'' else js ''the run reported no tests''), me_location = None\<rparr>] None)) suites
     else map (\<lambda>item. Verdict item (verdict_of outcomes item)) suites)"

section \<open>Coverage\<close>

record site =
  si_kind :: string
  si_line :: "int option"
  si_endLine :: "int option"
  si_count :: nat
  si_trueCount :: "nat option"
  si_falseCount :: "nat option"
  si_name :: "jstr option"

record covered_file =
  cf_path :: jstr
  cf_status :: string
  cf_lines :: "nat \<times> nat"  \<comment> \<open>covered and total\<close>
  cf_branches :: "nat \<times> nat"
  cf_functions :: "nat \<times> nat"
  cf_sites :: "site list"

datatype coverage_detail =
    StatementCoverage nat int
  | BranchedStatement nat int nat nat
  | DeclarationCoverage jstr nat int int

definition site_detail :: "site \<Rightarrow> coverage_detail list" where
  "site_detail si =
    (let line = max 0 (or_line (si_line si) 1 - 1) in
     if si_kind si = ''statement'' then [StatementCoverage (si_count si) line]
     else if si_kind si = ''branch'' then
       [BranchedStatement (si_count si) line (case si_trueCount si of None \<Rightarrow> 0 | Some n \<Rightarrow> n) (case si_falseCount si of None \<Rightarrow> 0 | Some n \<Rightarrow> n)]
     else if si_kind si = ''function'' then
       [DeclarationCoverage (the (or_text (si_name si) (Some (js ''<anonymous>'')))) (si_count si) line
          (max line (or_line (si_endLine si) (or_line (si_line si) 1) - 1))]
     else [])"

definition detailedCoverageFor :: "covered_file \<Rightarrow> coverage_detail list" where
  "detailedCoverageFor file = concat (map site_detail (cf_sites file))"

text \<open>
  \<open>joined\<close> is \<^verbatim>\<open>Uri.joinPath\<close> on the folder. The state is the detail kept for the editor and whether inline coverage was offered.
\<close>

record coverage_state =
  co_detail :: "(jstr, covered_file) jmap"
  co_offered :: bool
  co_offers :: nat  \<comment> \<open>how often the message that offers inline coverage was shown\<close>

definition offerInlineCoverage :: "coverage_state \<Rightarrow> coverage_state" where
  "offerInlineCoverage st = (if co_offered st then st else st\<lparr>co_offered := True, co_offers := co_offers st + 1\<rparr>)"

definition fileCoverageFor :: "(jstr \<Rightarrow> jstr) \<Rightarrow> covered_file \<Rightarrow> run_event" where
  "fileCoverageFor joined f = Covered (joined (cf_path f)) (cf_lines f) (cf_branches f) (cf_functions f)"

definition publishCoverage ::
  "(jstr \<Rightarrow> jstr) \<Rightarrow> (jstr \<Rightarrow> covered_file list result) \<Rightarrow> bool \<Rightarrow> jstr \<Rightarrow> coverage_state \<Rightarrow> coverage_state \<times> run_event list" where
  "publishCoverage joined parse error stdout st =
    (if error then (st, [Output (js ''Nupp: the coverage report could not be read'' @ [13, 10])])
     else case parse stdout of
       Inl e \<Rightarrow> (st, [Output (js ''Nupp: the coverage report was not valid JSON'' @ [13, 10])])
     | Inr files \<Rightarrow>
        let shown = filter (\<lambda>f. cf_status f \<noteq> ''non-executable'') files in
        ((offerInlineCoverage st)\<lparr>co_detail := fold (\<lambda>f m. mset m (joined (cf_path f)) f) shown []\<rparr>,
         map (fileCoverageFor joined) shown))"

definition loadDetailedCoverage :: "coverage_state \<Rightarrow> jstr \<Rightarrow> coverage_detail list" where
  "loadDetailedCoverage st u = (case mget (co_detail st) u of None \<Rightarrow> [] | Some f \<Rightarrow> detailedCoverageFor f)"

section \<open>A run\<close>

text \<open>What the compiler's process gave: whether it failed, and what it printed.\<close>

record process_result =
  pr_error :: bool
  pr_stdout :: jstr
  pr_stderr :: jstr

definition test_arguments :: "jstr \<Rightarrow> bool \<Rightarrow> test_item list \<Rightarrow> jstr list" where
  "test_arguments reportDir withCoverage suites =
    (if withCoverage then [js ''test'', js ''--coverage'', js ''--coverage-out'', reportDir] else [js ''test'', js ''--json'']) @ map ti_label suites"

text \<open>\<open>run_nupp\<close> is \<^verbatim>\<open>runNupp\<close> on a list of arguments, \<open>cancelled\<close> whether the token was cancelled when the run ended.\<close>

definition runTests ::
  "(jstr \<Rightarrow> test_record result) \<Rightarrow> (jstr \<Rightarrow> jstr) \<Rightarrow> (jstr \<Rightarrow> covered_file list result) \<Rightarrow> (jstr list \<Rightarrow> process_result) \<Rightarrow> jstr \<Rightarrow>
   test_item list \<Rightarrow> bool \<Rightarrow> bool \<Rightarrow> coverage_state \<Rightarrow> coverage_state \<times> run_event list" where
  "runTests parse joined parse_coverage run_nupp reportDir suites cancelled withCoverage st =
    (let begun = map Enqueued suites @ map Started suites;
         r = run_nupp (test_arguments reportDir withCoverage suites) in
     if cancelled then (st, begun @ [Ended]) else
     let verdicts =
       (if \<not> withCoverage then reportTestResults parse suites (pr_stdout r) (pr_stderr r) (pr_error r)
        else if pr_error r then
          Output (asTerminal (if pr_stderr r = [] then pr_stdout r else pr_stderr r)) #
          map (\<lambda>item. Verdict item (Failed [\<lparr>me_text = js ''the coverage run failed'', me_location = None\<rparr>] None)) suites
        else map (\<lambda>item. Verdict item (Passed None)) suites);
       report = run_nupp [js ''test'', js ''--coverage'', js ''--report-json'', js ''--coverage-out'', reportDir];
       (st1, published) = (if withCoverage then publishCoverage joined parse_coverage (pr_error report) (pr_stdout report) st else (st, []))
     in (st1, begun @ verdicts @ published @ [Ended]))"

section \<open>The last record\<close>

definition record_line :: "(jstr \<Rightarrow> test_record result) \<Rightarrow> jstr \<Rightarrow> test_record option" where
  "record_line parse line = (if take 1 (trim line) = js ''{'' then (case parse (trim line) of Inr r \<Rightarrow> Some r | Inl e \<Rightarrow> None) else None)"

lemma first_split:
  "(\<exists>before y after. x # xs = before @ y # after \<and> P y \<and> (\<forall>z \<in> set before. Q z)) \<longleftrightarrow>
   P x \<or> Q x \<and> (\<exists>before y after. xs = before @ y # after \<and> P y \<and> (\<forall>z \<in> set before. Q z))"
proof
  assume "\<exists>before y after. x # xs = before @ y # after \<and> P y \<and> (\<forall>z \<in> set before. Q z)"
  then obtain before y after where "x # xs = before @ y # after" "P y" "\<forall>z \<in> set before. Q z" by blast
  then show "P x \<or> Q x \<and> (\<exists>before y after. xs = before @ y # after \<and> P y \<and> (\<forall>z \<in> set before. Q z))"
    by (cases before) auto
next
  assume "P x \<or> Q x \<and> (\<exists>before y after. xs = before @ y # after \<and> P y \<and> (\<forall>z \<in> set before. Q z))"
  then show "\<exists>before y after. x # xs = before @ y # after \<and> P y \<and> (\<forall>z \<in> set before. Q z)"
  proof (elim disjE conjE exE)
    assume "P x"
    then show ?thesis by (intro exI [of _ "[]"]) auto
  next
    fix before y after
    assume "Q x" "xs = before @ y # after" "P y" "\<forall>z \<in> set before. Q z"
    then show ?thesis by (intro exI [of _ "x # before"]) auto
  qed
qed

lemma last_record_iff:
  "last_record parse lines = Some r \<longleftrightarrow>
     (\<exists>before line after. lines = before @ line # after \<and> record_line parse line = Some r \<and> (\<forall>l \<in> set before. record_line parse l = None))"
proof (induction lines)
  case (Cons line lines)
  have "last_record parse (line # lines) = (case record_line parse line of None \<Rightarrow> last_record parse lines | Some q \<Rightarrow> Some q)"
    by (auto simp: record_line_def Let_def split: sum.splits)
  with Cons show ?case unfolding first_split by (cases "record_line parse line") simp_all
qed simp

text \<open>The record of a run is the last printed line that is one: no later line parses.\<close>

lemma last_json_record:
  "lastJsonRecord parse stdout = Some r \<longleftrightarrow>
     (\<exists>before line after. split_on 10 stdout = before @ line # after \<and> record_line parse line = Some r \<and> (\<forall>l \<in> set after. record_line parse l = None))"
proof -
  have "lastJsonRecord parse stdout = Some r \<longleftrightarrow>
     (\<exists>before line after. rev (split_on 10 stdout) = before @ line # after \<and> record_line parse line = Some r \<and> (\<forall>l \<in> set before. record_line parse l = None))"
    by (simp add: lastJsonRecord_def last_record_iff)
  also have "\<dots> \<longleftrightarrow> (\<exists>before line after. split_on 10 stdout = before @ line # after \<and> record_line parse line = Some r \<and>
      (\<forall>l \<in> set after. record_line parse l = None))"
    (is "?l \<longleftrightarrow> ?r")
  proof
    assume ?l
    then obtain b l a where "split_on 10 stdout = rev a @ l # rev b" "record_line parse l = Some r" "\<forall>l \<in> set (rev b). record_line parse l = None"
      by (auto simp: rev_swap)
    then show ?r by blast
  next
    assume ?r
    then obtain b l a where "rev (split_on 10 stdout) = rev a @ l # rev b" "record_line parse l = Some r" "\<forall>l \<in> set (rev a). record_line parse l = None"
      by auto
    then show ?l by blast
  qed
  finally show ?thesis .
qed

section \<open>Verdicts follow from the cases\<close>

text \<open>What a suite's verdict should be, from the cases reported for it.\<close>

definition cases_of :: "test_case list \<Rightarrow> test_item \<Rightarrow> test_case list" where
  "cases_of tests item = filter (\<lambda>t. tc_suite t = ti_label item) tests"

definition outcome_of :: "test_case list \<Rightarrow> outcome" where
  "outcome_of cs = \<lparr>oc_duration = sum_list (map tc_duration cs),
     oc_failures = map failure_message (filter (\<lambda>t. tc_status t = ''failed'') cs),
     oc_ran = length cs, oc_skipped = length (filter (\<lambda>t. tc_status t = ''skipped'') cs)\<rparr>"

definition suite_verdict :: "test_case list \<Rightarrow> test_item \<Rightarrow> verdict" where
  "suite_verdict tests item =
    (let cs = cases_of tests item; failed = filter (\<lambda>t. tc_status t = ''failed'') cs in
     if failed \<noteq> [] then Failed (map failure_message failed) (Some (sum_list (map tc_duration cs)))
     else if \<forall>t \<in> set cs. tc_status t = ''skipped'' then Skipped
     else Passed (Some (sum_list (map tc_duration cs))))"

lemma by_suite_get:
  "distinct (map ti_label suites) \<Longrightarrow> mget (by_suite suites) l = find (\<lambda>i. ti_label i = l) suites"
proof -
  have "distinct (map ti_label suites) \<Longrightarrow> mget (fold (\<lambda>item m. mset m (ti_label item) item) suites m) l =
      (case find (\<lambda>i. ti_label i = l) suites of None \<Rightarrow> mget m l | Some i \<Rightarrow> Some i)" for m
  proof (induction suites arbitrary: m)
    case (Cons s suites)
    have "find (\<lambda>i. ti_label i = l) suites = None" if "ti_label s = l"
      using Cons.prems that by (auto simp: find_None_iff image_iff)
    with Cons show ?case by (auto split: option.split)
  qed simp
  then show "distinct (map ti_label suites) \<Longrightarrow> ?thesis" by (simp add: by_suite_def split: option.split)
qed

lemma by_suite_item:
  assumes "distinct (map ti_label suites)" and "item \<in> set suites"
  shows "mget (by_suite suites) l = Some item \<longleftrightarrow> l = ti_label item"
proof
  assume "mget (by_suite suites) l = Some item"
  with assms(1) show "l = ti_label item" by (auto simp: by_suite_get find_Some_iff)
next
  assume l: "l = ti_label item"
  then obtain i where i: "find (\<lambda>i. ti_label i = l) suites = Some i"
    using assms(2) by (cases "find (\<lambda>i. ti_label i = l) suites") (auto simp: find_None_iff)
  then have "i \<in> set suites" "ti_label i = l" by (auto simp: find_Some_iff)
  with assms l have "i = item" by (metis distinct_map inj_onD)
  with i assms(1) show "mget (by_suite suites) l = Some item" by (simp add: by_suite_get)
qed

lemma add_case_same:
  assumes "mget bs (tc_suite t) = Some item" and "mget m item = (if cs = [] then None else Some (outcome_of cs))"
  shows "mget (add_case bs t m) item = Some (outcome_of (cs @ [t]))"
  using assms by (auto simp: add_case_def outcome_of_def Let_def)

lemma outcomes_get:
  assumes "distinct (map ti_label suites)" and "item \<in> set suites"
  shows "mget (fold (add_case (by_suite suites)) tests []) item =
    (if cases_of tests item = [] then None else Some (outcome_of (cases_of tests item)))"
proof (induction tests rule: rev_induct)
  case (snoc t tests)
  let ?m = "fold (add_case (by_suite suites)) tests []"
  note get = by_suite_item [OF assms, of "tc_suite t"]
  show ?case
  proof (cases "tc_suite t = ti_label item")
    case True
    with get have "mget (by_suite suites) (tc_suite t) = Some item" by simp
    from add_case_same [OF this snoc] True show ?thesis by (simp add: cases_of_def)
  next
    case False
    then have "mget (add_case (by_suite suites) t ?m) item = mget ?m item"
      using get by (auto simp: add_case_def Let_def split: option.split)
    with snoc False show ?thesis by (simp add: cases_of_def)
  qed
qed (simp add: cases_of_def)

lemma verdict_matches:
  assumes "distinct (map ti_label suites)" and "item \<in> set suites"
  shows "verdict_of (fold (add_case (by_suite suites)) tests []) item = suite_verdict tests item"
proof -
  have "length (filter P xs) = length xs \<longleftrightarrow> (\<forall>x \<in> set xs. P x)" for P and xs :: "test_case list"
    by (metis filter_True length_filter_less nat_neq_iff)
  then show ?thesis by (auto simp: verdict_of_def outcomes_get [OF assms] suite_verdict_def outcome_of_def Let_def filter_empty_conv)
qed

section \<open>Properties\<close>

text \<open>The cases a run reported: those of the last JSON record it printed, none without one.\<close>

definition reported :: "(jstr \<Rightarrow> test_record result) \<Rightarrow> jstr \<Rightarrow> test_case list" where
  "reported parse stdout = (case lastJsonRecord parse stdout of Some (Some tests) \<Rightarrow> tests | _ \<Rightarrow> [])"

lemma add_case_other: "mget bs (tc_suite t) = None \<Longrightarrow> add_case bs t m = m"
  by (simp add: add_case_def)

lemma no_outcomes:
  assumes "\<forall>t \<in> set tests. mget bs (tc_suite t) = None"
  shows "fold (add_case bs) tests m = m"
  using assms by (induction tests arbitrary: m) (simp_all add: add_case_other)

text \<open>C31. The verdicts a reader sees are those of the reported cases. When some reported case belongs to a selected suite, each selected suite gets its verdict once, in order: it failed exactly if
  one of its cases did, with every failing case's message in order, is skipped if all its cases were skipped or it has none, and passed otherwise, with the time of all its cases. When no reported case belongs
  to one, because none was reported or all are of other suites, the output of the run is shown and every selected suite failed, with a message that tells a failed run from one without tests. It
  relies on selected suites with different labels.
\<close>

theorem verdicts_match_cases:
  assumes "distinct (map ti_label suites)"
  shows "reportTestResults parse suites stdout stderr error =
    (if list_ex (\<lambda>t. tc_suite t \<in> set (map ti_label suites)) (reported parse stdout)
     then map (\<lambda>item. Verdict item (suite_verdict (reported parse stdout) item)) suites
     else Output (asTerminal (if stderr = [] then stdout else stderr)) #
       map (\<lambda>item. Verdict item (Failed [\<lparr>me_text = (if error then js ''the test run failed'' else js ''the run reported no tests''), me_location = None\<rparr>] None)) suites)"
proof -
  let ?tests = "reported parse stdout"
  let ?outcomes = "fold (add_case (by_suite suites)) ?tests []"
  have report: "reportTestResults parse suites stdout stderr error =
    (if ?outcomes = [] then
       Output (asTerminal (if stderr = [] then stdout else stderr)) #
       map (\<lambda>item. Verdict item (Failed [\<lparr>me_text = (if error then js ''the test run failed'' else js ''the run reported no tests''), me_location = None\<rparr>] None)) suites
     else map (\<lambda>item. Verdict item (verdict_of ?outcomes item)) suites)"
    by (simp add: reportTestResults_def reported_def Let_def)
  show ?thesis
  proof (cases "list_ex (\<lambda>t. tc_suite t \<in> set (map ti_label suites)) ?tests")
    case True
    then obtain t item where item: "item \<in> set suites" "tc_suite t = ti_label item" "t \<in> set ?tests" by (auto simp: list_ex_iff)
    then have "cases_of ?tests item \<noteq> []" by (auto simp: cases_of_def filter_empty_conv)
    with outcomes_get [OF assms item(1), of ?tests] have "?outcomes \<noteq> []" by force
    then show ?thesis using verdict_matches [OF assms] True by (simp add: report)
  next
    case False
    have "mget (by_suite suites) (tc_suite t) = None" if "t \<in> set ?tests" for t
    proof (rule ccontr)
      assume "mget (by_suite suites) (tc_suite t) \<noteq> None"
      then obtain item where "item \<in> set suites" "ti_label item = tc_suite t"
        using assms by (auto simp: by_suite_get find_Some_iff dest: nth_mem)
      then have "tc_suite t \<in> set (map ti_label suites)" by (metis image_eqI set_map)
      with False that show False by (auto simp: list_ex_iff)
    qed
    then have "?outcomes = []" by (simp add: no_outcomes)
    then show ?thesis using False by (simp add: report)
  qed
qed

definition two_suites :: "test_item list" where
  "two_suites = [\<lparr>ti_id = js ''w/a'', ti_label = js ''a''\<rparr>, \<lparr>ti_id = js ''w/b'', ti_label = js ''b''\<rparr>]"

definition sample_case :: "string \<Rightarrow> jstr \<Rightarrow> test_case" where
  "sample_case status suite = \<lparr>tc_suite = suite, tc_name = js ''t'', tc_status = status, tc_duration = 3, tc_file = Some (js ''a.nupp''),
     tc_line = Some 7, tc_failure = None\<rparr>"

theorem verdicts_match_cases_witness:
  "\<exists>parse stdout. reportTestResults parse two_suites stdout [] True =
     [Verdict (two_suites ! 0) (Failed [\<lparr>me_text = js ''t: failed'', me_location = Some (FolderFile (js ''a.nupp'') 6)\<rparr>] (Some 6)), Verdict (two_suites ! 1) Skipped]"
proof -
  let ?tests = "[sample_case ''passed'' (js ''a''), sample_case ''failed'' (js ''a'')]"
  let ?parse = "\<lambda>_. Inr (Some ?tests) :: test_record result"
  have d: "distinct (map ti_label two_suites)" by (simp add: two_suites_def js_def)
  have l: "reported ?parse (js ''{}'') = ?tests" by (simp add: reported_def lastJsonRecord_def trim_def white_def js_def)
  have m: "list_ex (\<lambda>t. tc_suite t \<in> set (map ti_label two_suites)) ?tests" by (simp add: sample_case_def two_suites_def)
  have "map (\<lambda>item. Verdict item (suite_verdict ?tests item)) two_suites =
    [Verdict (two_suites ! 0) (Failed [\<lparr>me_text = js ''t: failed'', me_location = Some (FolderFile (js ''a.nupp'') 6)\<rparr>] (Some 6)), Verdict (two_suites ! 1) Skipped]"
    by (simp add: two_suites_def suite_verdict_def cases_of_def sample_case_def failure_message_def or_text_def or_line_def given_def no_failure_def js_def)
  with verdicts_match_cases [OF d, of ?parse "js ''{}''" "[]" True] m have "reportTestResults ?parse two_suites (js ''{}'') [] True =
    [Verdict (two_suites ! 0) (Failed [\<lparr>me_text = js ''t: failed'', me_location = Some (FolderFile (js ''a.nupp'') 6)\<rparr>] (Some 6)), Verdict (two_suites ! 1) Skipped]"
    unfolding l by presburger
  then show ?thesis by (intro exI)
qed

definition judged :: "run_event list \<Rightarrow> test_item list" where
  "judged evs = concat (map (\<lambda>e. case e of Verdict item v \<Rightarrow> [item] | _ \<Rightarrow> []) evs)"

lemma judged_simps [simp]: "judged [] = []" "judged (e # evs) = (case e of Verdict item v \<Rightarrow> [item] | _ \<Rightarrow> []) @ judged evs"
  "judged (evs @ fs) = judged evs @ judged fs"
  by (simp_all add: judged_def)

lemma judged_verdicts: "judged (map (\<lambda>item. Verdict item (f item)) suites) = suites"
  "judged (map Enqueued suites) = []" "judged (map Started suites) = []" "judged (map (fileCoverageFor joined) fs) = []"
  by (induction suites; simp)+ (induction fs; simp add: fileCoverageFor_def)

lemma judged_report: "judged (reportTestResults parse suites stdout stderr error) = suites"
  by (simp add: reportTestResults_def Let_def judged_verdicts)

lemma judged_published: "judged (snd (publishCoverage joined parse error stdout st)) = []"
  by (simp add: publishCoverage_def Let_def judged_verdicts split: sum.split)

text \<open>A run that is not cancelled judges every selected suite exactly once, with or without coverage, whatever the compiler printed; a cancelled one judges none.\<close>

lemma suites_judged_once:
  "judged (snd (runTests parse joined parse_coverage run_nupp dir suites cancelled withCoverage st)) = (if cancelled then [] else suites)"
  by (simp add: runTests_def Let_def case_prod_beta judged_verdicts judged_report judged_published)

text \<open>Excluding every suite that was to run leaves a command without suite names, which is the command that runs them all.\<close>

lemma nothing_selected_runs_everything:
  "\<forall>t \<in> set items. \<forall>i \<in> set (suites_of t). i \<in> set excluded \<Longrightarrow>
   test_arguments dir False (selectedSuites items None excluded) = [js ''test'', js ''--json'']"
  by (auto simp: selectedSuites_def test_arguments_def filter_empty_conv)

lemma terminal_twice: "asTerminal (asTerminal s) = asTerminal s"
proof (induction s rule: asTerminal.induct)
  case (2 u us)
  have "take 1 (asTerminal us) = [10] \<Longrightarrow> take 1 us = [10]" by (cases us) (auto split: if_splits)
  with 2 show ?case by auto
qed simp

lemma declaration_range: "DeclarationCoverage nm n l e \<in> set (detailedCoverageFor f) \<Longrightarrow> 0 \<le> l \<and> l \<le> e"
  by (auto simp: detailedCoverageFor_def site_detail_def Let_def split: if_splits)

end
