(* ===== verification/Paths.thy ===== *)
theory Paths
  imports Text
begin

text \<open>
  The functions of \<^verbatim>\<open>node:path\<close> that the tools and the extension use, as they are on POSIX systems: a path is a text with segments
  between slashes (47); empty segments and \<^verbatim>\<open>.\<close> vanish and \<^verbatim>\<open>..\<close> removes the segment before it.
\<close>

abbreviation dot :: jstr where "dot \<equiv> [46]"
abbreviation dotdot :: jstr where "dotdot \<equiv> [46, 46]"

text \<open>\<^verbatim>\<open>normalizeString\<close>: \<open>climb\<close> keeps a \<^verbatim>\<open>..\<close> that has nothing to remove; the segments so far are in reverse.\<close>

fun norm_segs :: "bool \<Rightarrow> jstr list \<Rightarrow> jstr list \<Rightarrow> jstr list" where
  "norm_segs climb st [] = rev st"
| "norm_segs climb st (s # ss) =
    (if s = [] \<or> s = dot then norm_segs climb st ss
     else if s = dotdot then
       (case st of
          t # ts \<Rightarrow> if t = dotdot then norm_segs climb (s # st) ss else norm_segs climb ts ss
        | [] \<Rightarrow> if climb then norm_segs climb [s] ss else norm_segs climb [] ss)
     else norm_segs climb (s # st) ss)"

definition isAbsolute :: "jstr \<Rightarrow> bool" where
  "isAbsolute p \<longleftrightarrow> take 1 p = [47]"

definition normalize :: "jstr \<Rightarrow> jstr" where
  "normalize p =
    (if p = [] then dot else
     let absolute = isAbsolute p; trailing = suffix [47] p; q = join [47] (norm_segs (\<not> absolute) [] (split_on 47 p)) in
     if q = [] then (if absolute then [47] else if trailing then [46, 47] else dot)
     else (if absolute then [47] else []) @ q @ (if trailing then [47] else []))"

text \<open>\<^verbatim>\<open>path.join(a, b)\<close>.\<close>

definition path_join :: "jstr \<Rightarrow> jstr \<Rightarrow> jstr" where
  "path_join a b = (let parts = filter (\<lambda>p. p \<noteq> []) [a, b] in if parts = [] then dot else normalize (join [47] parts))"

text \<open>\<^verbatim>\<open>path.resolve(root, p)\<close> for an absolute \<open>root\<close>.\<close>

definition path_resolve :: "jstr \<Rightarrow> jstr \<Rightarrow> jstr" where
  "path_resolve root p = [47] @ join [47] (norm_segs False [] (split_on 47 (if isAbsolute p then p else root @ [47] @ p)))"

text \<open>The last segment, and its extension from the last dot unless the name starts with it.\<close>

definition basename :: "jstr \<Rightarrow> jstr" where
  "basename p = last ([] # filter (\<lambda>s. s \<noteq> []) (split_on 47 p))"

definition extname :: "jstr \<Rightarrow> jstr" where
  "extname p =
    (let b = basename p; ext = rev (takeWhile (\<lambda>u. u \<noteq> 46) (rev b)) in
     if 46 \<notin> set b \<or> length ext + 1 = length b \<or> b = dotdot then [] else 46 # ext)"

section \<open>Segments\<close>

text \<open>A proper segment names an entry of a directory: it is not empty, no dots and has no slash.\<close>

definition proper :: "jstr \<Rightarrow> bool" where
  "proper s \<longleftrightarrow> s \<noteq> [] \<and> s \<noteq> dot \<and> s \<noteq> dotdot \<and> 47 \<notin> set s"

lemma norm_segs_proper:
  "\<forall>s \<in> set st. proper s \<Longrightarrow> \<forall>s \<in> set ss. 47 \<notin> set s \<Longrightarrow> \<forall>s \<in> set (norm_segs False st ss). proper s"
proof (induction ss arbitrary: st)
  case (Cons s ss)
  have top: "\<forall>x \<in> set (tl st). proper x" "st \<noteq> [] \<Longrightarrow> hd st \<noteq> dotdot" using Cons.prems(1) by (cases st; auto simp: proper_def)+
  consider "s = [] \<or> s = dot" | "s = dotdot" | "proper s" using Cons.prems(2) by (auto simp: proper_def)
  then show ?case
  proof cases
    case 2
    with Cons.IH [of "tl st"] Cons.prems top show ?thesis by (cases st) auto
  next
    case 3
    then have "norm_segs False st (s # ss) = norm_segs False (s # st) ss" by (simp add: proper_def)
    moreover have "\<forall>x \<in> set (norm_segs False (s # st) ss). proper x"
      by (rule Cons.IH) (use 3 Cons.prems in simp_all)
    ultimately show ?thesis by simp
  qed (use Cons.IH [of st] Cons.prems in auto)
qed simp

lemma norm_segs_id: "\<forall>s \<in> set ss. proper s \<Longrightarrow> norm_segs climb st ss = rev st @ ss"
  by (induction ss arbitrary: st) (auto simp: proper_def)

lemma norm_segs_append: "norm_segs climb st (ss @ ss') = norm_segs climb (rev (norm_segs climb st ss)) ss'"
proof (induction climb st ss rule: norm_segs.induct)
  case (2 climb st s ss)
  then show ?case by (cases st) auto
qed simp

lemma split_on_two: "split_on c (a @ c # b) = split_on c a @ split_on c b"
proof (induction a)
  case (Cons u a)
  obtain p ps where "split_on c a = p # ps" by (cases "split_on c a") auto
  with Cons show ?case by auto
qed simp

lemma segs_no_slash: "s \<in> set (split_on 47 p) \<Longrightarrow> 47 \<notin> set s"
  by (rule split_on_parts)

text \<open>An absolute path made of proper segments.\<close>

definition path_of :: "jstr list \<Rightarrow> jstr" where
  "path_of ss = 47 # join [47] ss"

lemma split_path_of: "ss \<noteq> [] \<Longrightarrow> \<forall>s \<in> set ss. proper s \<Longrightarrow> split_on 47 (path_of ss) = [] # ss"
  by (simp add: path_of_def split_on_join proper_def)

lemma join_Nil_iff: "join sep ss = [] \<and> sep \<noteq> [] \<longleftrightarrow> sep \<noteq> [] \<and> (ss = [] \<or> ss = [[]])"
  by (induction sep ss rule: join.induct) auto

text \<open>
  A path of proper segments that textually starts with a directory and a slash lies below that directory.
\<close>

lemma below_directory:
  assumes "base \<noteq> []" "\<forall>s \<in> set base. proper s" "ss \<noteq> []" "\<forall>s \<in> set ss. proper s" and "prefix (path_of base @ [47]) (path_of ss)"
  shows "\<exists>more. more \<noteq> [] \<and> ss = base @ more"
proof -
  from assms(5) obtain r where r: "path_of ss = path_of base @ 47 # r" by (auto simp: prefix_def)
  have "[] # ss = split_on 47 (path_of ss)" using assms by (simp add: split_path_of)
  also have "\<dots> = ([] # base) @ split_on 47 r" unfolding r split_on_two using assms by (simp add: split_path_of)
  finally show ?thesis by auto
qed

lemma path_resolve_below:
  assumes "base \<noteq> []" "\<forall>s \<in> set base. proper s" and "\<not> isAbsolute p"
  shows "path_resolve (path_of base) p = path_of (norm_segs False (rev base) (split_on 47 p))"
  using assms split_path_of [OF assms(1,2)] norm_segs_id [OF assms(2), of False "[]"]
  by (simp add: path_resolve_def path_of_def [symmetric] split_on_two norm_segs_append [of _ _ base] del: split_on.simps(2))

lemma normalize_absolute:
  "isAbsolute p \<Longrightarrow> \<not> suffix [47] p \<Longrightarrow> norm_segs False [] (split_on 47 p) = ss \<Longrightarrow> join [47] ss \<noteq> [] \<Longrightarrow> normalize p = path_of ss"
  by (auto simp: normalize_def path_of_def isAbsolute_def Let_def)

lemma path_resolve_absolute: "isAbsolute (path_resolve root p)"
  by (simp add: path_resolve_def isAbsolute_def)

end
