(* ===== verification/Launch.thy ===== *)
theory Launch
  imports Paths
begin

text \<open>
  How the editor extension finds the compiler, \<^verbatim>\<open>expandSetting\<close> and \<^verbatim>\<open>serverLaunch\<close> of \<^verbatim>\<open>src/editors/vscode/extension.js\<close>: settings with placeholders, the
  command, its arguments, its directory and its environment. \<^verbatim>\<open>String.prototype.replaceAll\<close> is modelled with the patterns it expands in a replacement text.
\<close>

section \<open>Replacing\<close>

text \<open>\<^verbatim>\<open>GetSubstitution\<close> for a pattern that is a text: the matched text, what is before and after it, and the replacement.\<close>

fun substitution :: "jstr \<Rightarrow> jstr \<Rightarrow> jstr \<Rightarrow> jstr \<Rightarrow> jstr" where
  "substitution matched before after [] = []"
| "substitution matched before after [u] = [u]"
| "substitution matched before after (u # v # us) =
    (if u \<noteq> 36 then u # substitution matched before after (v # us)
     else if v = 36 then 36 # substitution matched before after us
     else if v = 38 then matched @ substitution matched before after us
     else if v = 96 then before @ substitution matched before after us
     else if v = 39 then after @ substitution matched before after us
     else u # substitution matched before after (v # us))"

text \<open>\<^verbatim>\<open>replaceAll\<close> of a non-empty pattern; \<open>seen\<close> is the text already passed.\<close>

function replace_from :: "jstr \<Rightarrow> jstr \<Rightarrow> jstr \<Rightarrow> jstr \<Rightarrow> jstr" where
  "replace_from pat repl seen s =
    (if pat = [] then s else
     case find_text pat s of None \<Rightarrow> s
     | Some (b, a) \<Rightarrow> b @ substitution pat (seen @ b) a repl @ replace_from pat repl (seen @ b @ pat) a)"
  by pat_completeness auto

termination
  by (relation "measure (\<lambda>(pat, repl, seen, s). length s)") (auto dest: find_text_less)

declare replace_from.simps [simp del]

definition replaceAll :: "jstr \<Rightarrow> jstr \<Rightarrow> jstr \<Rightarrow> jstr" where
  "replaceAll s pat repl = replace_from pat repl [] s"

definition WORKSPACE :: jstr where
  "WORKSPACE = js ''${workspaceFolder}''"

text \<open>\<^verbatim>\<open>/\$\{env:([^}]+)\}/g\<close> at the front of a text: the name and what follows.\<close>

definition env_reference :: "jstr \<Rightarrow> (jstr \<times> jstr) option" where
  "env_reference s =
    (if \<not> prefix (js ''${env:'') s then None else
     let r = drop 6 s; name = takeWhile (\<lambda>u. u \<noteq> 125) r; rest = drop (length name) r in
     if name = [] \<or> rest = [] then None else Some (name, drop 1 rest))"

lemma env_reference_less: "env_reference s = Some (name, r) \<Longrightarrow> length r < length s"
  by (auto simp: env_reference_def Let_def js_def prefix_def split: if_splits)

function expand_env :: "(jstr \<Rightarrow> jstr option) \<Rightarrow> jstr \<Rightarrow> jstr" where
  "expand_env env [] = []"
| "expand_env env (u # us) =
    (case env_reference (u # us) of
       Some (name, r) \<Rightarrow> (case env name of Some v \<Rightarrow> v | None \<Rightarrow> []) @ expand_env env r
     | None \<Rightarrow> u # expand_env env us)"
  by pat_completeness auto

termination
  by (relation "measure (\<lambda>(env, s). length s)") (auto dest: env_reference_less)

definition expandSetting :: "(jstr \<Rightarrow> jstr option) \<Rightarrow> jstr \<Rightarrow> jstr \<Rightarrow> jstr" where
  "expandSetting env setting root = expand_env env (replaceAll setting WORKSPACE root)"

section \<open>The launch\<close>

text \<open>A setting that should be a text, or is something else; the arguments and the environment, or none where the setting has another type.\<close>

datatype setting = TextSetting jstr | OtherSetting

record settings =
  st_serverPath :: setting
  st_serverArgs :: "jstr list option"
  st_serverCwd :: setting
  st_serverEnvironment :: "(jstr \<times> jstr) list option"

record launch =
  la_command :: jstr
  la_args :: "jstr list"
  la_cwd :: jstr
  la_env :: "(jstr, jstr) jmap"

definition located :: "jstr \<Rightarrow> jstr \<Rightarrow> jstr" where
  "located root command =
    (if \<not> isAbsolute command \<and> (47 \<in> set command \<or> 92 \<in> set command) then path_resolve root command else command)"

text \<open>
  \<open>process_env\<close> is the environment of the editor, \<open>exists_file\<close> the test for a file, \<open>extension_path\<close> where the extension is installed.
\<close>

definition serverLaunch :: "(jstr, jstr) jmap \<Rightarrow> (jstr \<Rightarrow> bool) \<Rightarrow> jstr \<Rightarrow> jstr \<Rightarrow> settings \<Rightarrow> launch result" where
  "serverLaunch process_env exists_file extension_path root cfg =
    (let env = mget process_env in
     case (st_serverPath cfg, st_serverCwd cfg) of
       (OtherSetting, _) \<Rightarrow> Inl (TypeError (js ''config.get(...).trim is not a function''))
     | (_, OtherSetting) \<Rightarrow> Inl (TypeError (js ''value.replaceAll is not a function''))
     | (TextSetting path, TextSetting cwd) \<Rightarrow>
        let configuredPath = trim path;
            checkout = path_resolve extension_path (js ''../../bin/nupp'');
            configuredCwd = expandSetting env cwd root
        in Inr \<lparr>la_command = (if configuredPath \<noteq> [] then located root (expandSetting env configuredPath root)
                              else if exists_file checkout then checkout else js ''nupp''),
                la_args = map (\<lambda>arg. expandSetting env arg root) (case st_serverArgs cfg of Some args \<Rightarrow> args | None \<Rightarrow> []),
                la_cwd = (if isAbsolute configuredCwd then configuredCwd else path_resolve root configuredCwd),
                la_env = fold (\<lambda>(name, v) e. mset e name (expandSetting env v root))
                   (case st_serverEnvironment cfg of Some kvs \<Rightarrow> kvs | None \<Rightarrow> []) process_env\<rparr>)"

section \<open>Properties\<close>

lemma located_ok: "isAbsolute (located root command) \<or> 47 \<notin> set (located root command) \<and> 92 \<notin> set (located root command)"
  by (simp add: located_def path_resolve_absolute)

lemma located_parts: "u \<in> set (located root command) \<Longrightarrow> u = 47 \<or> u = 92 \<Longrightarrow> isAbsolute (located root command)"
  using located_ok by blast

text \<open>
  A launch never depends on the directory the editor happens to run in: its working directory is absolute, and its command is
  absolute or a bare name that the search path resolves.
\<close>

lemma launch_paths:
  assumes "serverLaunch process_env exists_file extension_path root cfg = Inr l"
  shows "isAbsolute (la_cwd l) \<and> (isAbsolute (la_command l) \<or> 47 \<notin> set (la_command l) \<and> 92 \<notin> set (la_command l))"
proof -
  have bare: "47 \<notin> set (js ''nupp'') \<and> 92 \<notin> set (js ''nupp'')" by (simp add: js_def)
  from assms show ?thesis
    by (auto simp: serverLaunch_def Let_def path_resolve_absolute bare dest: located_parts split: setting.splits if_splits)
qed

lemma substitution_plain: "36 \<notin> set repl \<Longrightarrow> substitution matched before after repl = repl"
  by (induction matched before after repl rule: substitution.induct) auto

lemma expand_env_plain: "36 \<notin> set s \<Longrightarrow> expand_env env s = s"
proof (induction s)
  case (Cons u us)
  then have "env_reference (u # us) = None" by (auto simp: env_reference_def js_def prefix_def)
  with Cons show ?case by simp
qed simp

lemma replace_once:
  assumes "\<not> sublist WORKSPACE b" "\<not> sublist WORKSPACE a" "36 \<notin> set b" "36 \<notin> set a"
  shows "replaceAll (b @ WORKSPACE @ a) WORKSPACE root = b @ substitution WORKSPACE b a root @ a"
proof -
  have f: "find_text WORKSPACE (b @ WORKSPACE @ a) = Some (b, a)" using assms(3)
  proof (induction b)
    case Nil
    then show ?case by (simp add: WORKSPACE_def js_def)
  next
    case (Cons u b)
    then have "\<not> prefix WORKSPACE ((u # b) @ WORKSPACE @ a)" by (auto simp: WORKSPACE_def js_def prefix_def)
    with Cons show ?case by (simp del: append_assoc)
  qed
  have "find_text WORKSPACE a = None" using assms(2) by (simp add: find_text_None)
  with f show ?thesis by (simp add: replaceAll_def replace_from.simps [of _ _ "[]"] replace_from.simps [of _ _ _ a] WORKSPACE_def js_def)
qed

text \<open>For a folder whose path has no dollar sign the placeholder stands for the path.\<close>

lemma workspace_expands:
  assumes "36 \<notin> set root" and "36 \<notin> set a"
  shows "expandSetting env (WORKSPACE @ a) root = root @ a"
proof -
  have "\<not> sublist WORKSPACE a" using assms(2) by (auto simp: sublist_def WORKSPACE_def js_def)
  with replace_once [of "[]" a root] assms show ?thesis
    by (simp add: expandSetting_def substitution_plain expand_env_plain WORKSPACE_def js_def)
qed

text \<open>A folder whose path has two dollar signs in a row is not found: the replacement text is expanded like a pattern, so the server is started with another
  directory than the one that is open.
\<close>

theorem workspace_path_is_expanded:
  assumes "36 \<notin> set a" "36 \<notin> set b" and "root = a @ [36, 36] @ b" and "\<not> sublist (js ''${env:'') (a @ [36] @ b)"
  shows "expandSetting env WORKSPACE root = a @ [36] @ b \<and> expandSetting env WORKSPACE root \<noteq> root"
proof -
  have sub: "substitution WORKSPACE [] [] (a @ [36, 36] @ b) = a @ [36] @ b"
    using assms(1,2)
  proof (induction a)
    case Nil
    then show ?case by (cases b) (simp_all add: substitution_plain)
  next
    case (Cons u a)
    then show ?case by (cases a) auto
  qed
  have "replaceAll WORKSPACE WORKSPACE root = a @ [36] @ b"
    using replace_once [of "[]" "[]" root] sub assms(3) by (simp add: WORKSPACE_def js_def)
  moreover have "expand_env env s = s" if "\<not> sublist (js ''${env:'') s" for s
    using that
  proof (induction s)
    case (Cons u us)
    then have "env_reference (u # us) = None" by (auto simp: env_reference_def dest: prefix_imp_sublist)
    moreover have "\<not> sublist (js ''${env:'') us" using Cons.prems by (auto simp: sublist_Cons_right)
    ultimately show ?case using Cons by simp
  qed simp
  ultimately show ?thesis using assms(3,4) by (simp add: expandSetting_def)
qed

theorem workspace_path_is_expanded_witness:
  "expandSetting (\<lambda>_. None) WORKSPACE (js ''/w/a$$b'') = js ''/w/a$b''"
proof -
  have r: "js ''/w/a$$b'' = js ''/w/a'' @ [36, 36] @ js ''b''" by (simp add: js_def)
  have f: "36 \<notin> set (js ''/w/a'')" "36 \<notin> set (js ''b'')" by (simp_all add: js_def)
  have n: "\<not> sublist (js ''${env:'') (js ''/w/a'' @ [36] @ js ''b'')" by (simp add: js_def sublist_Cons_right)
  from workspace_path_is_expanded [OF f r n, of "\<lambda>_. None"] show ?thesis by (simp add: js_def)
qed

end
