(* ===== verification/Servers.thy ===== *)
theory Servers
  imports Percent Paths
begin

text \<open>
  The static file servers of the repository: \<^verbatim>\<open>src/scripts/docs-serve.mjs\<close>, \<^verbatim>\<open>src/editors/playground/serve.mjs\<close>, and the loopback servers
  that benchmarks and the packager start for a browser (\<^verbatim>\<open>bench/luajit-browser/serve.mjs\<close>, \<^verbatim>\<open>bench/luajit-browser/compiler-pair.mjs\<close>,
  \<^verbatim>\<open>bench/host-channel/run.mjs\<close>, \<^verbatim>\<open>runtime/luajit/prepare-guest.mjs\<close>). A request is the path of its URL, which starts with a slash; the file system
  is a parameter.
\<close>

datatype entry = FileEntry nat | Directory

type_synonym file_system = "jstr \<Rightarrow> entry option"

text \<open>A status with a text, a file with its content type, or an exception that leaves the request handler, which ends the process.\<close>

datatype answer = Answer nat jstr | Served jstr jstr | Crashed

definition is_file :: "file_system \<Rightarrow> jstr \<Rightarrow> bool" where
  "is_file fs p = (case fs p of Some (FileEntry n) \<Rightarrow> True | _ \<Rightarrow> False)"

definition type_of :: "(string \<times> string) list \<Rightarrow> jstr \<Rightarrow> jstr" where
  "type_of types file =
    (case map_of (map (\<lambda>(e, t). (js e, js t)) types) (extname file) of Some t \<Rightarrow> t | None \<Rightarrow> js ''application/octet-stream'')"

section \<open>The documentation and playground servers\<close>

definition DOCS_TYPES :: "(string \<times> string) list" where
  "DOCS_TYPES = [(''.html'', ''text/html; charset=utf-8''), (''.js'', ''text/javascript; charset=utf-8''), (''.css'', ''text/css; charset=utf-8''),
     (''.lua'', ''text/plain; charset=utf-8''), (''.svg'', ''image/svg+xml''), (''.png'', ''image/png''), (''.ico'', ''image/x-icon''),
     (''.json'', ''application/json''), (''.map'', ''application/json''), (''.md'', ''text/markdown; charset=utf-8''), (''.txt'', ''text/plain; charset=utf-8'')]"

definition serveFrom :: "file_system \<Rightarrow> jstr \<Rightarrow> jstr \<Rightarrow> answer" where
  "serveFrom fs base urlPath =
    (case decodeURIComponent urlPath of Inl e \<Rightarrow> Crashed
     | Inr decoded \<Rightarrow>
        let joined = path_join base decoded;
            file = (if urlPath = [] \<or> suffix [47] urlPath then path_join joined (js ''index.html'') else joined) in
        if \<not> prefix base file then Answer 403 (js ''forbidden'')
        else if \<not> is_file fs file then Answer 404 (js ''not found'')
        else Served file (type_of DOCS_TYPES file))"

definition PLAYGROUND_PREFIX :: jstr where
  "PLAYGROUND_PREFIX = js ''/playground''"

definition docs_server :: "file_system \<Rightarrow> jstr \<Rightarrow> jstr \<Rightarrow> bool \<Rightarrow> jstr \<Rightarrow> answer" where
  "docs_server fs docsDir playgroundDist playgroundAvailable pathname =
    (if pathname = PLAYGROUND_PREFIX \<or> prefix (PLAYGROUND_PREFIX @ [47]) pathname then
       (if \<not> playgroundAvailable then Answer 503 (js ''the playground is not built on this machine; see editors/playground/README.md'')
        else serveFrom fs playgroundDist (drop (length PLAYGROUND_PREFIX) pathname))
     else serveFrom fs docsDir (drop 1 pathname))"

definition PLAY_TYPES :: "(string \<times> string) list" where
  "PLAY_TYPES = [(''.html'', ''text/html; charset=utf-8''), (''.js'', ''text/javascript; charset=utf-8''), (''.mjs'', ''text/javascript; charset=utf-8''),
     (''.css'', ''text/css; charset=utf-8''), (''.lua'', ''text/plain; charset=utf-8''), (''.svg'', ''image/svg+xml''), (''.map'', ''application/json''),
     (''.wasm'', ''application/wasm''), (''.md'', ''text/markdown; charset=utf-8'')]"

definition playground_server :: "file_system \<Rightarrow> jstr \<Rightarrow> jstr \<Rightarrow> answer" where
  "playground_server fs root pathname =
    (case decodeURIComponent pathname of Inl e \<Rightarrow> Crashed
     | Inr decoded \<Rightarrow>
        let joined = path_join root decoded;
            file = (if suffix [47] pathname then path_join joined (js ''index.html'') else joined) in
        if \<not> prefix root file then Answer 403 (js ''forbidden'')
        else if \<not> is_file fs file then Answer 404 (js ''not found'')
        else Served file (type_of PLAY_TYPES file))"

section \<open>The loopback servers\<close>

text \<open>The file a loopback server opens: below its root and a slash, or none.\<close>

definition inside :: "file_system \<Rightarrow> jstr \<Rightarrow> jstr \<Rightarrow> jstr option" where
  "inside fs root name =
    (let file = path_resolve root (46 # name) in if prefix (root @ [47]) file \<and> is_file fs file then Some file else None)"

definition BENCH_TYPES :: "(string \<times> string) list" where
  "BENCH_TYPES = [(''.html'', ''text/html''), (''.js'', ''text/javascript''), (''.mjs'', ''text/javascript''), (''.css'', ''text/css''),
     (''.svg'', ''image/svg+xml''), (''.json'', ''application/json''), (''.wasm'', ''application/wasm'')]"

definition bench_server :: "file_system \<Rightarrow> jstr \<Rightarrow> jstr \<Rightarrow> answer" where
  "bench_server fs root pathname =
    (case decodeURIComponent (if pathname = [47] then js ''/index.html'' else pathname) of
       Inl e \<Rightarrow> Answer 404 (js ''Not found'')
     | Inr name \<Rightarrow> (case inside fs root name of None \<Rightarrow> Answer 404 (js ''Not found'') | Some file \<Rightarrow> Served file (type_of BENCH_TYPES file)))"

definition ended_type :: "(string \<times> string) list \<Rightarrow> jstr \<Rightarrow> jstr" where
  "ended_type types file =
    (case find (\<lambda>(e, t). suffix (js e) file) types of Some (e, t) \<Rightarrow> js t | None \<Rightarrow> js ''application/octet-stream'')"

definition guest_server :: "file_system \<Rightarrow> jstr \<Rightarrow> jstr \<Rightarrow> answer" where
  "guest_server fs destination pathname =
    (case decodeURIComponent pathname of Inl e \<Rightarrow> Answer 404 (js ''Not found'')
     | Inr name \<Rightarrow> (case inside fs destination name of None \<Rightarrow> Answer 404 (js ''Not found'')
         | Some file \<Rightarrow> Served file (ended_type [(''.mjs'', ''text/javascript''), (''.html'', ''text/html'')] file)))"

definition site_server :: "file_system \<Rightarrow> jstr \<Rightarrow> jstr \<Rightarrow> answer" where
  "site_server fs site pathname =
    (case decodeURIComponent pathname of Inl e \<Rightarrow> Answer 404 (js ''not found'')
     | Inr name \<Rightarrow> (case inside fs site name of None \<Rightarrow> Answer 404 (js ''not found'')
         | Some file \<Rightarrow> Served file (ended_type [(''.mjs'', ''text/javascript''), (''.html'', ''text/html''), (''.json'', ''application/json'')] file)))"

definition pair_server :: "file_system \<Rightarrow> jstr \<Rightarrow> jstr \<Rightarrow> answer" where
  "pair_server fs root pathname =
    (if pathname = [47] then Answer 200 (js ''<!doctype html><title>Compiler bytecode comparison</title>'')
     else case decodeURIComponent pathname of Inl e \<Rightarrow> Answer 404 (js ''Not found'')
     | Inr name \<Rightarrow> (case inside fs root name of None \<Rightarrow> Answer 404 (js ''Not found'')
         | Some file \<Rightarrow> Served file (type_of [(''.mjs'', ''text/javascript''), (''.js'', ''text/javascript''), (''.json'', ''application/json''),
             (''.wasm'', ''application/wasm'')] file)))"

section \<open>Containment\<close>

lemma inside_below:
  assumes base: "base \<noteq> []" "\<forall>s \<in> set base. proper s" and got: "inside fs (path_of base) name = Some file"
  shows "\<exists>more. more \<noteq> [] \<and> (\<forall>s \<in> set more. proper s) \<and> file = path_of (base @ more)"
proof -
  define ss where "ss = norm_segs False (rev base) (split_on 47 (46 # name))"
  have f: "file = path_of ss"
    using got path_resolve_below [OF base, of "46 # name"] by (auto simp: inside_def isAbsolute_def ss_def Let_def split: if_splits)
  have pre: "prefix (path_of base @ [47]) (path_of ss)"
    using got f by (auto simp: inside_def Let_def split: if_splits)
  have ok: "\<forall>s \<in> set ss. proper s"
    unfolding ss_def by (rule norm_segs_proper) (use base segs_no_slash [of _ "46 # name"] in \<open>auto simp del: split_on.simps\<close>)
  have "ss \<noteq> []"
  proof
    assume "ss = []"
    with pre have "prefix (path_of base @ [47]) [47]" by (simp add: path_of_def)
    then show False by (auto simp: path_of_def dest: prefix_length_le)
  qed
  with below_directory [OF base _ ok pre] obtain more where "more \<noteq> []" "ss = base @ more" by blast
  with f ok show ?thesis by auto
qed

lemma inside_file: "inside fs root name = Some file \<Longrightarrow> is_file fs file"
  by (auto simp: inside_def Let_def split: if_splits)

text \<open>C37. The loopback servers serve only regular files below their directory: whatever the request's path is, encoded dots and slashes included, what is opened is a file that exists and not a
  directory, and its path has the directory's segments first and then only proper names.
\<close>

theorem loopback_servers_contained:
  assumes "base \<noteq> []" "\<forall>s \<in> set base. proper s"
    and "Served file kind \<in> {bench_server fs (path_of base) pathname, guest_server fs (path_of base) pathname,
           site_server fs (path_of base) pathname, pair_server fs (path_of base) pathname}"
  shows "(\<exists>more. more \<noteq> [] \<and> (\<forall>s \<in> set more. proper s) \<and> file = path_of (base @ more)) \<and> (\<exists>n. fs file = Some (FileEntry n))"
proof -
  from assms(3) obtain name where got: "inside fs (path_of base) name = Some file"
    by (auto simp: bench_server_def guest_server_def site_server_def pair_server_def split: sum.splits option.splits if_splits)
  have "\<exists>n. fs file = Some (FileEntry n)" using inside_file [OF got] by (auto simp: is_file_def split: option.splits entry.splits)
  with inside_below [OF assms(1,2) got] show ?thesis by blast
qed

definition one_file :: file_system where
  "one_file p = (if p = js ''/g/x.mjs'' then Some (FileEntry 3) else Some Directory)"

theorem loopback_servers_contained_witness:
  "\<exists>file kind more n. guest_server one_file (path_of [js ''g'']) (js ''/a%2F..%2Fx.mjs'') = Served file kind \<and>
     more \<noteq> [] \<and> file = path_of ([js ''g''] @ more) \<and> one_file file = Some (FileEntry n)"
proof -
  have s: "guest_server one_file (path_of [js ''g'']) (js ''/a%2F..%2Fx.mjs'') = Served (js ''/g/x.mjs'') (js ''text/javascript'')"
  proof -
    have d: "decodeURIComponent (js ''/a%2F..%2Fx.mjs'') = Inr (js ''/a/../x.mjs'')"
      by (simp add: decodeURIComponent_def decode_uri.simps js_def following_def units_def within_def)
    have f: "inside one_file (path_of [js ''g'']) (js ''/a/../x.mjs'') = Some (js ''/g/x.mjs'')"
      by (simp add: inside_def path_resolve_def path_of_def is_file_def isAbsolute_def js_def one_file_def)
    have "suffix (js ''.mjs'') (js ''/g/x.mjs'')" by (simp add: suffix_def js_def)
    with d f show ?thesis by (simp add: guest_server_def ended_type_def)
  qed
  have p: "\<forall>s \<in> set [js ''g'']. proper s" by (simp add: proper_def js_def)
  from loopback_servers_contained [OF _ p, of "js ''/g/x.mjs''" "js ''text/javascript''" one_file "js ''/a%2F..%2Fx.mjs''"] s
  show ?thesis by (metis insertCI list.distinct(1))
qed

section \<open>Where the documentation servers do not contain\<close>

text \<open>The documentation and playground servers compare the file with their directory as texts, without a slash: a request whose decoded path
  climbs out of the directory and into a sibling whose name begins with the directory's name is served.
\<close>

theorem sibling_directory_served:
  assumes "\<forall>s \<in> set dir. proper s" "proper d" "proper (d @ extra)" "proper name"
    and "decodeURIComponent url = Inr (join [47] [dotdot, d @ extra, name])" "url \<noteq> []" "\<not> suffix [47] url"
    and "is_file fs (path_of (dir @ [d @ extra, name]))"
  shows "serveFrom fs (path_of (dir @ [d])) url = Served (path_of (dir @ [d @ extra, name])) (type_of DOCS_TYPES (path_of (dir @ [d @ extra, name])))"
proof -
  have segs: "split_on 47 (path_of (dir @ [d]) @ 47 # join [47] [dotdot, d @ extra, name]) = [] # dir @ [d, dotdot, d @ extra, name]"
  proof -
    have "split_on 47 (path_of (dir @ [d])) = [] # dir @ [d]" by (rule split_path_of) (use assms in auto)
    moreover have "split_on 47 (join [47] [dotdot, d @ extra, name]) = [dotdot, d @ extra, name]"
      by (rule split_on_join) (use assms in \<open>auto simp: proper_def\<close>)
    ultimately show ?thesis unfolding split_on_two by simp
  qed
  have norm: "norm_segs False [] ([] # dir @ [d, dotdot, d @ extra, name]) = dir @ [d @ extra, name]"
    using assms norm_segs_id [of dir False "[]"] norm_segs_append [of False "[]" dir]
    by (simp add: proper_def)
  have last: "\<not> suffix [47] (path_of (dir @ [d]) @ 47 # join [47] [dotdot, d @ extra, name])"
  proof
    assume "suffix [47] (path_of (dir @ [d]) @ 47 # join [47] [dotdot, d @ extra, name])"
    then have "last (path_of (dir @ [d]) @ 47 # join [47] [dotdot, d @ extra, name]) = 47"
      unfolding suffix_def by (elim exE) (simp only: last_snoc)
    moreover have "name \<noteq> []" "47 \<notin> set name" using assms(4) by (auto simp: proper_def)
    ultimately show False using last_in_set [of name] by simp
  qed
  have joined: "path_join (path_of (dir @ [d])) (join [47] [dotdot, d @ extra, name]) = path_of (dir @ [d @ extra, name])"
  proof -
    let ?p = "path_of (dir @ [d]) @ 47 # join [47] [dotdot, d @ extra, name]"
    have "path_join (path_of (dir @ [d])) (join [47] [dotdot, d @ extra, name]) = normalize ?p"
      by (simp add: path_join_def path_of_def)
    also have "\<dots> = path_of (dir @ [d @ extra, name])"
    proof (rule normalize_absolute [OF _ last])
      show "isAbsolute ?p" by (simp add: isAbsolute_def path_of_def)
      show "norm_segs False [] (split_on 47 ?p) = dir @ [d @ extra, name]" unfolding segs by (rule norm)
      show "join [47] (dir @ [d @ extra, name]) \<noteq> []" using join_Nil_iff [of "[47]" "dir @ [d @ extra, name]"] by auto
    qed
    finally show ?thesis .
  qed
  have "prefix (path_of (dir @ [d])) (path_of (dir @ [d @ extra, name]))"
    by (cases "dir = []") (simp_all add: path_of_def join_append)
  with joined assms show ?thesis by (simp add: serveFrom_def Let_def)
qed

theorem sibling_directory_served_witness:
  "\<exists>kind. serveFrom (\<lambda>_. Some (FileEntry 1)) (path_of [js ''b'', js ''docs'']) (js ''..%2Fdocs-old%2Fx.md'') = Served (path_of [js ''b'', js ''docs-old'', js ''x.md'']) kind"
proof -
  have d: "decodeURIComponent (js ''..%2Fdocs-old%2Fx.md'') = Inr (join [47] [dotdot, js ''docs'' @ js ''-old'', js ''x.md''])"
    by (simp add: decodeURIComponent_def decode_uri.simps js_def following_def units_def within_def)
  have p: "\<forall>s \<in> set [js ''b'']. proper s" "proper (js ''docs'')" "proper (js ''docs'' @ js ''-old'')" "proper (js ''x.md'')" by (simp_all add: proper_def js_def)
  have u: "js ''..%2Fdocs-old%2Fx.md'' \<noteq> []" "\<not> suffix [47] (js ''..%2Fdocs-old%2Fx.md'')" by (simp_all add: js_def suffix_def)
  have f: "is_file (\<lambda>_. Some (FileEntry 1)) (path_of ([js ''b''] @ [js ''docs'' @ js ''-old'', js ''x.md'']))" by (simp add: is_file_def)
  have e: "js ''docs'' @ js ''-old'' = js ''docs-old''" by (simp add: js_def)
  from sibling_directory_served [OF p d u f] show ?thesis unfolding e by simp
qed

text \<open>A path that does not decode leaves the handler of these two servers as an exception; the loopback servers answer 404.\<close>

lemma malformed_path:
  assumes "decodeURIComponent pathname = Inl e" and "pathname \<noteq> [47]"
  shows "playground_server fs root pathname = Crashed \<and> bench_server fs root pathname = Answer 404 (js ''Not found'')"
  using assms by (simp add: playground_server_def bench_server_def)

end
