(* ===== verification/Disk.thy ===== *)
theory Disk
  imports Paths
begin

text \<open>
  Build scripts that run to their end: a script reads and writes files, may throw, and keeps what it wrote when it does. A disk gives the bytes of the
  file at a path; directories exist as soon as they are needed, as after \<^verbatim>\<open>mkdirSync\<close> with \<^verbatim>\<open>recursive\<close>. Programs a script starts are parameters that may
  change the whole disk.
\<close>

section \<open>Scripts\<close>

type_synonym disk = "jstr \<Rightarrow> byte list option"
type_synonym ('s, 'a) script = "'s \<Rightarrow> 's \<times> 'a result"

definition give :: "'a \<Rightarrow> ('s, 'a) script" where
  "give a s = (s, Inr a)"

definition of_result :: "'a result \<Rightarrow> ('s, 'a) script" where
  "of_result r s = (s, r)"

definition andThen :: "('s, 'a) script \<Rightarrow> ('a \<Rightarrow> ('s, 'b) script) \<Rightarrow> ('s, 'b) script" where
  "andThen f g s = (case f s of (s1, Inl e) \<Rightarrow> (s1, Inl e) | (s1, Inr a) \<Rightarrow> g a s1)"

text \<open>\<^verbatim>\<open>try\<close> with \<^verbatim>\<open>finally\<close>: the clean-up cannot throw.\<close>

definition cleaning :: "('s, 'a) script \<Rightarrow> ('s \<Rightarrow> 's) \<Rightarrow> ('s, 'a) script" where
  "cleaning f clean s = (case f s of (s1, r) \<Rightarrow> (clean s1, r))"

text \<open>A loop over a list that carries a value along.\<close>

fun for_each :: "('x \<Rightarrow> 'c \<Rightarrow> ('s, 'c) script) \<Rightarrow> 'x list \<Rightarrow> 'c \<Rightarrow> ('s, 'c) script" where
  "for_each f [] c = give c"
| "for_each f (x # xs) c = andThen (f x c) (for_each f xs)"

section \<open>Files\<close>

text \<open>A script's state: the disk and the number of servers that listen.\<close>

record work =
  wk_disk :: disk
  wk_servers :: nat

definition readFile :: "jstr \<Rightarrow> ('m work_scheme, byte list) script" where
  "readFile p s = (s, case wk_disk s p of Some bytes \<Rightarrow> Inr bytes | None \<Rightarrow> Inl (Error (js ''ENOENT: no such file or directory, open '' @ p)))"

definition writeFile :: "jstr \<Rightarrow> byte list \<Rightarrow> ('m work_scheme, unit) script" where
  "writeFile p bytes s = (s\<lparr>wk_disk := (wk_disk s)(p := Some bytes)\<rparr>, Inr ())"

definition copyFile :: "jstr \<Rightarrow> jstr \<Rightarrow> ('m work_scheme, unit) script" where
  "copyFile from dest = andThen (readFile from) (writeFile dest)"

text \<open>\<^verbatim>\<open>cpSync\<close> with \<^verbatim>\<open>recursive\<close>: every file below one directory is written below another.\<close>

definition copyTree :: "jstr \<Rightarrow> jstr \<Rightarrow> ('m work_scheme, unit) script" where
  "copyTree from dest s =
    (let d = wk_disk s in
     (s\<lparr>wk_disk := (\<lambda>p. if prefix (dest @ [47]) p \<and> d (from @ drop (length dest) p) \<noteq> None then d (from @ drop (length dest) p) else d p)\<rparr>, Inr ()))"

text \<open>A program: it leaves a disk and what it printed, or fails.\<close>

definition runProgram :: "(disk \<Rightarrow> disk \<times> 'a result) \<Rightarrow> ('m work_scheme, 'a) script" where
  "runProgram program s = (case program (wk_disk s) of (d, r) \<Rightarrow> (s\<lparr>wk_disk := d\<rparr>, r))"

text \<open>\<^verbatim>\<open>path.dirname\<close> of an absolute path without a slash at its end, and \<^verbatim>\<open>a || b\<close> for texts.\<close>

definition path_dirname :: "jstr \<Rightarrow> jstr" where
  "path_dirname p = (let d = rev (drop 1 (dropWhile (\<lambda>u. u \<noteq> 47) (rev p))) in if d = [] then [47] else d)"

definition or_else :: "jstr option \<Rightarrow> jstr \<Rightarrow> jstr" where
  "or_else t d = (case t of Some u \<Rightarrow> if u = [] then d else u | None \<Rightarrow> d)"

section \<open>Reasoning about scripts\<close>

text \<open>What it means that a script did not throw, step by step.\<close>

named_theorems script_simps

lemma give_done [script_simps]: "give a s = (s', Inr b) \<longleftrightarrow> s' = s \<and> b = a"
  by (auto simp: give_def)

lemma of_result_done [script_simps]: "of_result r s = (s', Inr b) \<longleftrightarrow> s' = s \<and> r = Inr b"
  by (auto simp: of_result_def)

lemma andThen_done [script_simps]: "andThen f g s = (s', Inr b) \<longleftrightarrow> (\<exists>s1 a. f s = (s1, Inr a) \<and> g a s1 = (s', Inr b))"
  by (auto simp: andThen_def split: prod.splits sum.splits)

lemma cleaning_done [script_simps]: "cleaning f clean s = (s', Inr b) \<longleftrightarrow> (\<exists>s1. f s = (s1, Inr b) \<and> s' = clean s1)"
  by (auto simp: cleaning_def split: prod.splits)

lemma readFile_done [script_simps]: "readFile p s = (s', Inr bytes) \<longleftrightarrow> s' = s \<and> wk_disk s p = Some bytes"
  by (auto simp: readFile_def split: option.splits)

lemma writeFile_done [script_simps]: "writeFile p bytes s = (s', Inr u) \<longleftrightarrow> s' = s\<lparr>wk_disk := (wk_disk s)(p := Some bytes)\<rparr>"
  by (auto simp: writeFile_def)

lemma copyFile_done [script_simps]:
  "copyFile from dest s = (s', Inr u) \<longleftrightarrow> (\<exists>bytes. wk_disk s from = Some bytes \<and> s' = s\<lparr>wk_disk := (wk_disk s)(dest := Some bytes)\<rparr>)"
  by (auto simp: copyFile_def script_simps)

lemma runProgram_done [script_simps]:
  "runProgram program s = (s', Inr r) \<longleftrightarrow> (\<exists>d. program (wk_disk s) = (d, Inr r) \<and> s' = s\<lparr>wk_disk := d\<rparr>)"
  by (auto simp: runProgram_def split: prod.splits)

text \<open>An invariant of the body is one of the loop.\<close>

lemma for_each_done:
  assumes "for_each f xs c s = (s', Inr c')" "kept c s"
    and "\<And>x d t t' d'. x \<in> set xs \<Longrightarrow> kept d t \<Longrightarrow> f x d t = (t', Inr d') \<Longrightarrow> kept d' t'"
  shows "kept c' s'"
  using assms
proof (induction xs arbitrary: c s)
  case (Cons x xs)
  from Cons.prems(1) obtain t d where step: "f x c s = (t, Inr d)" "for_each f xs d t = (s', Inr c')" by (auto simp: script_simps)
  have "kept d t" using Cons.prems(3) [of x c s t d] Cons.prems(2) step(1) by simp
  then show ?case
  proof (rule Cons.IH [OF step(2)])
    show "\<And>y d t t' d'. y \<in> set xs \<Longrightarrow> kept d t \<Longrightarrow> f y d t = (t', Inr d') \<Longrightarrow> kept d' t'"
      using Cons.prems(3) by (meson list.set_intros(2))
  qed
qed (simp add: script_simps)

text \<open>Whatever way a script ends, the servers it counts are left alone by what only touches the disk.\<close>

lemma servers_andThen:
  assumes "\<And>t. wk_servers (fst (f t)) = wk_servers t" "\<And>a t. wk_servers (fst (g a t)) = wk_servers t"
  shows "wk_servers (fst (andThen f g t)) = wk_servers t"
  using assms(1) [of t] assms(2) by (auto simp: andThen_def split: prod.splits sum.splits)

lemma servers_for_each:
  assumes "\<And>x c t. wk_servers (fst (f x c t)) = wk_servers t"
  shows "wk_servers (fst (for_each f xs c t)) = wk_servers t"
proof (induction xs arbitrary: c t)
  case Nil
  show ?case by (simp add: give_def)
next
  case (Cons x xs)
  show ?case by (simp only: for_each.simps) (rule servers_andThen, rule assms, rule Cons.IH)
qed

lemma servers_files [simp]:
  "wk_servers (fst (give a t)) = wk_servers t" "wk_servers (fst (of_result r t)) = wk_servers t" "wk_servers (fst (readFile p t)) = wk_servers t"
  "wk_servers (fst (writeFile p bytes t)) = wk_servers t" "wk_servers (fst (copyTree from dest t)) = wk_servers t"
  "wk_servers (fst (runProgram program t)) = wk_servers t"
  by (simp_all add: give_def of_result_def readFile_def writeFile_def copyTree_def runProgram_def Let_def split: prod.splits)

lemma servers_copyFile [simp]: "wk_servers (fst (copyFile from dest t)) = wk_servers t"
  unfolding copyFile_def by (rule servers_andThen) simp_all

section \<open>Paths below a directory\<close>

text \<open>A relative name of proper segments, as a package uses them.\<close>

definition plain_name :: "jstr \<Rightarrow> bool" where
  "plain_name n \<longleftrightarrow> list_all proper (split_on 47 n)"

lemma plain_name_nonempty: "plain_name n \<Longrightarrow> n \<noteq> []"
  by (auto simp: plain_name_def proper_def)

lemma plain_join: "plain_name a \<Longrightarrow> plain_name b \<Longrightarrow> plain_name (a @ 47 # b)"
  by (simp add: plain_name_def split_on_two)

lemma plain_segment: "proper s \<Longrightarrow> plain_name s"
  by (simp add: plain_name_def split_on_free proper_def)

lemma path_join_plain:
  assumes base: "\<forall>s \<in> set base. proper s" and n: "plain_name n"
  shows "path_join (path_of base) n = path_of (base @ split_on 47 n)"
proof -
  let ?ns = "split_on 47 n"
  have ns: "\<forall>s \<in> set ?ns. proper s" using n by (simp add: plain_name_def list_all_iff)
  have ne: "n \<noteq> []" using plain_name_nonempty [OF n] .
  have split: "split_on 47 (path_of base @ 47 # n) = [] # (if base = [] then [[]] else base) @ ?ns"
    using base by (cases "base = []") (simp_all add: split_on_two split_path_of, simp add: path_of_def split_on_append)
  have norm: "norm_segs False [] (split_on 47 (path_of base @ 47 # n)) = base @ ?ns"
  proof -
    have "norm_segs False [] (base @ ?ns) = rev [] @ base @ ?ns" by (rule norm_segs_id) (use base ns in auto)
    then show ?thesis unfolding split by (cases "base = []") simp_all
  qed
  have q: "join [47] (base @ ?ns) \<noteq> []"
  proof
    assume "join [47] (base @ ?ns) = []"
    then have "base @ ?ns = [] \<or> base @ ?ns = [[]]" using join_Nil_iff [of "[47]" "base @ ?ns"] by blast
    moreover have "base @ ?ns \<noteq> []" by simp
    ultimately have "[] \<in> set (base @ ?ns)" by (metis list.set_intros(1))
    with base ns show False by (auto simp: proper_def)
  qed
  have "\<not> suffix [47] (path_of base @ 47 # n)"
  proof
    assume "suffix [47] (path_of base @ 47 # n)"
    then obtain zs where "path_of base @ 47 # n = zs @ [47]" by (auto simp: suffix_def)
    then have "last (path_of base @ 47 # n) = last (zs @ [47])" by (simp only:)
    then have "last n = 47" using ne by simp
    then obtain m where m: "n = m @ 47 # []" using ne by (metis append_butlast_last_id)
    have "[] \<in> set ?ns" unfolding m split_on_two by simp
    with ns show False by (auto simp: proper_def)
  qed
  moreover have "isAbsolute (path_of base @ 47 # n)" by (simp add: isAbsolute_def path_of_def)
  moreover have "path_join (path_of base) n = normalize (path_of base @ 47 # n)" using ne by (simp add: path_join_def path_of_def)
  ultimately show ?thesis using norm q by (simp add: normalize_def Let_def path_of_def)
qed

lemma path_of_inject:
  assumes "ss \<noteq> []" "ts \<noteq> []" "\<forall>s \<in> set ss. proper s" "\<forall>s \<in> set ts. proper s" "path_of ss = path_of ts"
  shows "ss = ts"
proof -
  have "[] # ss = split_on 47 (path_of ss)" by (rule split_path_of [OF assms(1,3), symmetric])
  also have "\<dots> = [] # ts" unfolding assms(5) by (rule split_path_of [OF assms(2,4)])
  finally show ?thesis by simp
qed

text \<open>Different plain names are different files of a directory.\<close>

lemma path_join_inject:
  assumes base: "\<forall>s \<in> set base. proper s" and "plain_name m" "plain_name n" "path_join (path_of base) m = path_join (path_of base) n"
  shows "m = n"
proof -
  have "base @ split_on 47 m = base @ split_on 47 n"
  proof (rule path_of_inject)
    show "\<forall>s \<in> set (base @ split_on 47 m). proper s" "\<forall>s \<in> set (base @ split_on 47 n). proper s"
      using assms by (auto simp: plain_name_def list_all_iff)
    show "path_of (base @ split_on 47 m) = path_of (base @ split_on 47 n)"
      using assms(4) unfolding path_join_plain [OF base assms(2)] path_join_plain [OF base assms(3)] .
  qed simp_all
  then show ?thesis by (metis same_append_eq join_split_on)
qed

text \<open>What \<^verbatim>\<open>path.resolve\<close> gives is such a directory.\<close>

lemma path_resolve_base: "\<exists>base. (\<forall>s \<in> set base. proper s) \<and> path_resolve root p = path_of base"
proof (intro exI conjI)
  let ?ss = "norm_segs False [] (split_on 47 (if isAbsolute p then p else root @ [47] @ p))"
  show "\<forall>s \<in> set ?ss. proper s" by (rule norm_segs_proper) (auto dest: segs_no_slash)
  show "path_resolve root p = path_of ?ss" by (simp add: path_resolve_def path_of_def)
qed

text \<open>A script that works on files and servers only leaves what a caller keeps beside them.\<close>

definition keeps_rest :: "('m work_scheme, 'a) script \<Rightarrow> bool" where
  "keeps_rest f \<longleftrightarrow> (\<forall>s. work.more (fst (f s)) = work.more s)"

named_theorems keeps_rest

lemma keeps_rest_andThen [keeps_rest]: "keeps_rest f \<Longrightarrow> (\<And>a. keeps_rest (g a)) \<Longrightarrow> keeps_rest (andThen f g)"
  by (auto simp: keeps_rest_def andThen_def split: prod.splits sum.splits) (metis fst_conv)+

lemma keeps_rest_for_each [keeps_rest]: "(\<And>x c. keeps_rest (f x c)) \<Longrightarrow> keeps_rest (for_each f xs c)"
proof (induction xs arbitrary: c)
  case Nil
  show ?case by (simp add: keeps_rest_def give_def)
next
  case (Cons x xs)
  then show ?case by (simp add: keeps_rest_andThen)
qed

lemma keeps_rest_basic [keeps_rest]:
  "keeps_rest (give a)" "keeps_rest (of_result r)" "keeps_rest (readFile p)" "keeps_rest (writeFile p bytes)" "keeps_rest (copyTree q dest)" "keeps_rest (runProgram program)"
  by (simp_all add: keeps_rest_def give_def of_result_def readFile_def writeFile_def copyTree_def runProgram_def Let_def split: prod.splits)

lemma keeps_rest_copyFile [keeps_rest]: "keeps_rest (copyFile q dest)"
  unfolding copyFile_def by (intro keeps_rest)

lemma keeps_rest_if [keeps_rest]: "keeps_rest f \<Longrightarrow> keeps_rest g \<Longrightarrow> keeps_rest (if b then f else g)"
  by simp

end
