(* ===== verification/GuestSnapshot.thy ===== *)
theory GuestSnapshot
  imports Disk Assets
begin

text \<open>
  Preparing a guest, \<^verbatim>\<open>src/runtime/luajit/prepare-guest.mjs\<close>, and taking its snapshots, \<^verbatim>\<open>src/scripts/browser-snapshot.mjs\<close>: a guest without snapshots is copied
  to the delivery directory of its build, each profile is captured in a browser, and the manifest is extended by the snapshots and their assets, as
  \<^verbatim>\<open>verifyGuest\<close> of \<^verbatim>\<open>package-assets.mjs\<close> asks for. The toolchain and the browser are programs, JSON texts are parsed and printed by parameters.
\<close>

section \<open>Environment\<close>

text \<open>What a capture reports: \<open>cap_snapshot\<close> are the bytes in its resources, if it still has them.\<close>

record capture =
  cap_buildKey :: jstr
  cap_profile :: string
  cap_memoryMiB :: jnum
  cap_uncompressedBytes :: jnum
  cap_snapshot :: "byte list option"

text \<open>
  \<open>ge_dir\<close> is \<^verbatim>\<open>NUPP_BROWSER_GUEST_DIR\<close>, \<open>ge_toolchain\<close> prints where the toolchain keeps the guest, \<open>ge_capture\<close> runs the browser for a profile and
  says whether it ended well, \<open>ge_listen\<close> is whether a server can listen. The script that takes the snapshots is a process of its own: that it throws is
  what its exit code tells, so the error that \<^verbatim>\<open>execFile\<close> reports stands for the one it threw.
\<close>

record guest_env =
  ge_repo :: jstr
  ge_dir :: "jstr option"
  ge_toolchain :: "disk \<Rightarrow> disk \<times> jstr result"
  ge_capture :: "string \<Rightarrow> jstr \<Rightarrow> disk \<Rightarrow> disk \<times> bool result"
  ge_listen :: "unit result"
  ge_parse :: "byte list \<Rightarrow> package_manifest result"
  ge_print :: "package_manifest \<Rightarrow> byte list"
  ge_parse_capture :: "byte list \<Rightarrow> capture result"
  ge_print_capture :: "capture \<Rightarrow> byte list"
  ge_digest :: "byte list \<Rightarrow> byte list"

section \<open>Snapshots\<close>

definition manifest_file :: "jstr \<Rightarrow> jstr" where
  "manifest_file root = path_join root (js ''guest-manifest.json'')"

definition snapshot_name :: "string \<Rightarrow> jstr" where
  "snapshot_name profile = js ''assets/snapshot-'' @ js profile @ js ''.bin.gz''"

definition capture_name :: "string \<Rightarrow> jstr" where
  "capture_name profile = js ''snapshot-'' @ js profile @ js ''-capture.json''"

definition add_snapshot :: "guest_env \<Rightarrow> string \<Rightarrow> byte list \<Rightarrow> capture \<Rightarrow> package_manifest \<Rightarrow> package_manifest result" where
  "add_snapshot env profile bytes c pm =
    (let m = pm_guest pm; name = snapshot_name profile in
     case gm_assets m of
       None \<Rightarrow> Inl (TypeError (js ''Cannot set properties of undefined''))
     | Some assets \<Rightarrow>
        Inr (pm\<lparr>pm_guest := m\<lparr>gm_assets := Some (mset assets name \<lparr>ar_sha256 = sha256 (ge_digest env) bytes, ar_bytes = IntV (int (length bytes))\<rparr>),
          gm_snapshots := mset (gm_snapshots m) profile
            \<lparr>sn_buildKey = gm_buildKey m, sn_guestAbi = gm_guestAbi m, sn_memoryMiB = cap_memoryMiB c, sn_asset = name,
             sn_uncompressedBytes = cap_uncompressedBytes c\<rparr>\<rparr>\<rparr>))"

definition take_snapshot :: "guest_env \<Rightarrow> jstr \<Rightarrow> string \<Rightarrow> package_manifest \<Rightarrow> ('m work_scheme, package_manifest) script" where
  "take_snapshot env root profile pm =
    (let resultFile = path_join root (capture_name profile) in
     andThen (runProgram (ge_capture env profile resultFile)) (\<lambda>ok.
     if \<not> ok then of_result (throw ''Snapshot capture failed'')
     else andThen (readFile resultFile) (\<lambda>text.
     andThen (of_result (ge_parse_capture env text)) (\<lambda>c.
     if cap_buildKey c \<noteq> gm_buildKey (pm_guest pm) \<or> cap_profile c \<noteq> profile
     then of_result (throw ''Snapshot capture belongs to a different guest'')
     else andThen (of_result (case cap_snapshot c of Some bytes \<Rightarrow> Inr bytes | None \<Rightarrow> Inl (TypeError (js ''Cannot read properties of undefined'')))) (\<lambda>bytes.
     andThen (writeFile (path_join root (snapshot_name profile)) bytes) (\<lambda>_.
     andThen (of_result (add_snapshot env profile bytes c pm)) (\<lambda>pm1.
     andThen (writeFile resultFile (ge_print_capture env (c\<lparr>cap_snapshot := None\<rparr>))) (\<lambda>_. give pm1))))))))"

definition browser_snapshot :: "guest_env \<Rightarrow> jstr \<Rightarrow> ('m work_scheme, unit) script" where
  "browser_snapshot env root =
    andThen (readFile (manifest_file root)) (\<lambda>text.
    andThen (of_result (ge_parse env text)) (\<lambda>pm.
    andThen (for_each (take_snapshot env root) [''runner'', ''compiler''] pm) (\<lambda>pm1.
    writeFile (manifest_file root) (ge_print env pm1))))"

section \<open>Preparing\<close>

definition has_snapshots :: "package_manifest \<Rightarrow> bool" where
  "has_snapshots pm \<longleftrightarrow> mget (gm_snapshots (pm_guest pm)) ''runner'' \<noteq> None \<and> mget (gm_snapshots (pm_guest pm)) ''compiler'' \<noteq> None"

definition read_manifest :: "guest_env \<Rightarrow> jstr \<Rightarrow> ('m work_scheme, package_manifest) script" where
  "read_manifest env root = andThen (readFile (manifest_file root)) (\<lambda>text. of_result (ge_parse env text))"

definition guest_source :: "guest_env \<Rightarrow> jstr option \<Rightarrow> ('m work_scheme, jstr) script" where
  "guest_source env supplied =
    (if or_else supplied [] \<noteq> [] then give (or_else supplied [])
     else if or_else (ge_dir env) [] \<noteq> [] then give (or_else (ge_dir env) [])
     else andThen (runProgram (ge_toolchain env)) (\<lambda>out. give (trim out)))"

text \<open>The cache of the delivery directory: filled from the source unless it has a manifest.\<close>

definition fill_cache :: "jstr \<Rightarrow> jstr \<Rightarrow> ('m work_scheme, unit) script" where
  "fill_cache source destination s =
    (if wk_disk s (manifest_file destination) \<noteq> None then give () s else copyTree source destination s)"

definition snapshot_pages :: "guest_env \<Rightarrow> jstr \<Rightarrow> jstr \<Rightarrow> unit \<Rightarrow> ('m work_scheme, unit) script" where
  "snapshot_pages env destination name _ =
    copyFile (path_join (path_join (ge_repo env) (js ''tests/integration/browser/luajit'')) name) (path_join destination name)"

definition listen :: "guest_env \<Rightarrow> ('m work_scheme, unit) script" where
  "listen env s = (case ge_listen env of Inl e \<Rightarrow> (s, Inl e) | Inr _ \<Rightarrow> (s\<lparr>wk_servers := wk_servers s + 1\<rparr>, Inr ()))"

definition close_server :: "'m work_scheme \<Rightarrow> 'm work_scheme" where
  "close_server s = s\<lparr>wk_servers := wk_servers s - 1\<rparr>"

definition prepareGuest :: "guest_env \<Rightarrow> jstr option \<Rightarrow> ('m work_scheme, jstr) script" where
  "prepareGuest env supplied =
    andThen (guest_source env supplied) (\<lambda>source.
    andThen (read_manifest env source) (\<lambda>input.
    if has_snapshots input then give source
    else let destination = path_join (path_join (ge_repo env) (js ''build/browser-delivery'')) (gm_buildKey (pm_guest input)) in
      andThen (fill_cache source destination) (\<lambda>_.
      andThen (read_manifest env destination) (\<lambda>manifest.
      if gm_buildKey (pm_guest manifest) \<noteq> gm_buildKey (pm_guest input) then of_result (throw ''Snapshot cache belongs to another guest'')
      else if has_snapshots manifest then give destination
      else andThen (for_each (snapshot_pages env destination) [js ''snapshot.html'', js ''snapshot.mjs''] ()) (\<lambda>_.
        andThen (listen env) (\<lambda>_.
        andThen (cleaning (browser_snapshot env destination) close_server) (\<lambda>_. give destination)))))))"

section \<open>Snapshots that verify\<close>

text \<open>What the capture of a profile, started on the disk \<open>d\<close>, leaves in its result file.\<close>

definition reports :: "guest_env \<Rightarrow> jstr \<Rightarrow> string \<Rightarrow> disk \<Rightarrow> capture \<Rightarrow> bool" where
  "reports env root profile d c \<longleftrightarrow>
    (case fst (ge_capture env profile (path_join root (capture_name profile)) d) (path_join root (capture_name profile)) of
       Some told \<Rightarrow> ge_parse_capture env told = Inr c | None \<Rightarrow> False)"

text \<open>The snapshot of a profile is in the manifest as it was captured, and its asset is the file on the disk.\<close>

definition shipped :: "guest_env \<Rightarrow> jstr \<Rightarrow> package_manifest \<Rightarrow> disk \<Rightarrow> string \<Rightarrow> capture \<Rightarrow> bool" where
  "shipped env root pm d profile c \<longleftrightarrow>
    mget (gm_snapshots (pm_guest pm)) profile = Some \<lparr>sn_buildKey = gm_buildKey (pm_guest pm), sn_guestAbi = gm_guestAbi (pm_guest pm),
      sn_memoryMiB = cap_memoryMiB c, sn_asset = snapshot_name profile, sn_uncompressedBytes = cap_uncompressedBytes c\<rparr> \<and>
    cap_snapshot c \<noteq> None \<and> d (path_join root (snapshot_name profile)) = cap_snapshot c \<and>
    asset_of (pm_guest pm) (snapshot_name profile) =
      map_option (\<lambda>bytes. \<lparr>ar_sha256 = sha256 (ge_digest env) bytes, ar_bytes = IntV (int (length bytes))\<rparr>) (cap_snapshot c)"

text \<open>The manifest \<open>pm\<close> is \<open>pm0\<close> with snapshots and their assets.\<close>

definition snapshots_added :: "package_manifest \<Rightarrow> package_manifest \<Rightarrow> bool" where
  "snapshots_added pm0 pm \<longleftrightarrow>
    pm = pm0\<lparr>pm_guest := (pm_guest pm0)\<lparr>gm_assets := gm_assets (pm_guest pm), gm_snapshots := gm_snapshots (pm_guest pm)\<rparr>\<rparr> \<and>
    (\<forall>name. name \<noteq> snapshot_name ''runner'' \<and> name \<noteq> snapshot_name ''compiler'' \<longrightarrow> asset_of (pm_guest pm) name = asset_of (pm_guest pm0) name)"

abbreviation is_profile :: "string \<Rightarrow> bool" where
  "is_profile profile \<equiv> profile = ''runner'' \<or> profile = ''compiler''"

lemma snapshot_files:
  assumes "is_profile profile"
  shows "plain_name (snapshot_name profile)" "plain_name (capture_name profile)" "plain_name (js ''guest-manifest.json'')"
  using assms by (auto simp: plain_name_def snapshot_name_def capture_name_def proper_def js_def)

lemma snapshot_files_differ:
  assumes "is_profile profile" "is_profile other"
  shows "snapshot_name profile \<noteq> capture_name other" "snapshot_name profile \<noteq> js ''guest-manifest.json''"
    "profile \<noteq> other \<Longrightarrow> snapshot_name profile \<noteq> snapshot_name other"
  using assms by (auto simp: snapshot_name_def capture_name_def js_def)

text \<open>What taking a snapshot does to the disk and the manifest; \<open>d1\<close> is the disk after the browser.\<close>

lemma take_snapshot_done:
  assumes "take_snapshot env root profile pm s = (s', Inr pm')"
  obtains d1 c bytes shown where "ge_capture env profile (path_join root (capture_name profile)) (wk_disk s) = (d1, Inr True)"
    "reports env root profile (wk_disk s) c" "cap_buildKey c = gm_buildKey (pm_guest pm)" "cap_profile c = profile" "cap_snapshot c = Some bytes"
    "add_snapshot env profile bytes c pm = Inr pm'"
    "wk_disk s' = d1(path_join root (snapshot_name profile) := Some bytes, path_join root (capture_name profile) := Some shown)"
proof -
  from assms obtain d1 told c bytes where
    "ge_capture env profile (path_join root (capture_name profile)) (wk_disk s) = (d1, Inr True)" "d1 (path_join root (capture_name profile)) = Some told"
    "ge_parse_capture env told = Inr c" "cap_buildKey c = gm_buildKey (pm_guest pm)" "cap_profile c = profile" "cap_snapshot c = Some bytes"
    "add_snapshot env profile bytes c pm = Inr pm'"
    "wk_disk s' = d1(path_join root (snapshot_name profile) := Some bytes,
       path_join root (capture_name profile) := Some (ge_print_capture env (c\<lparr>cap_snapshot := None\<rparr>)))"
    by (auto simp: take_snapshot_def Let_def script_simps split: if_splits option.splits)
  moreover from this(1-3) have "reports env root profile (wk_disk s) c" by (simp add: reports_def)
  ultimately show ?thesis using that by blast
qed

lemma add_snapshot_manifest:
  assumes "add_snapshot env profile bytes c pm = Inr pm'"
  shows "gm_buildKey (pm_guest pm') = gm_buildKey (pm_guest pm)" "gm_guestAbi (pm_guest pm') = gm_guestAbi (pm_guest pm)"
    "gm_profiles (pm_guest pm') = gm_profiles (pm_guest pm)"
    "mget (gm_snapshots (pm_guest pm')) other =
      (if other = profile then Some \<lparr>sn_buildKey = gm_buildKey (pm_guest pm), sn_guestAbi = gm_guestAbi (pm_guest pm), sn_memoryMiB = cap_memoryMiB c,
         sn_asset = snapshot_name profile, sn_uncompressedBytes = cap_uncompressedBytes c\<rparr> else mget (gm_snapshots (pm_guest pm)) other)"
    "asset_of (pm_guest pm') name =
      (if name = snapshot_name profile then Some \<lparr>ar_sha256 = sha256 (ge_digest env) bytes, ar_bytes = IntV (int (length bytes))\<rparr> else asset_of (pm_guest pm) name)"
  using assms by (auto simp: add_snapshot_def asset_of_def Let_def split: option.splits)

lemma snapshots_added_refl: "snapshots_added pm pm"
  by (simp add: snapshots_added_def)

lemma snapshots_added_fields:
  assumes "snapshots_added pm0 pm"
  shows "gm_profiles (pm_guest pm) = gm_profiles (pm_guest pm0)" "gm_buildKey (pm_guest pm) = gm_buildKey (pm_guest pm0)"
proof -
  obtain a sn where "pm = pm0\<lparr>pm_guest := (pm_guest pm0)\<lparr>gm_assets := a, gm_snapshots := sn\<rparr>\<rparr>" using assms unfolding snapshots_added_def by blast
  then show "gm_profiles (pm_guest pm) = gm_profiles (pm_guest pm0)" "gm_buildKey (pm_guest pm) = gm_buildKey (pm_guest pm0)" by simp_all
qed

lemma add_snapshot_added:
  assumes "add_snapshot env profile bytes c pm = Inr pm'" "is_profile profile" "snapshots_added pm0 pm"
  shows "snapshots_added pm0 pm'"
proof -
  from assms(1) obtain a sn where pm': "pm' = pm\<lparr>pm_guest := (pm_guest pm)\<lparr>gm_assets := a, gm_snapshots := sn\<rparr>\<rparr>"
    by (auto simp: add_snapshot_def Let_def split: option.splits)
  obtain a0 sn0 where pm: "pm = pm0\<lparr>pm_guest := (pm_guest pm0)\<lparr>gm_assets := a0, gm_snapshots := sn0\<rparr>\<rparr>"
    using assms(3) unfolding snapshots_added_def by blast
  have "pm' = pm0\<lparr>pm_guest := (pm_guest pm0)\<lparr>gm_assets := a, gm_snapshots := sn\<rparr>\<rparr>" by (simp add: pm' pm)
  moreover from assms have "asset_of (pm_guest pm') name = asset_of (pm_guest pm0) name"
    if "name \<noteq> snapshot_name ''runner''" "name \<noteq> snapshot_name ''compiler''" for name
    using that add_snapshot_manifest(5) [OF assms(1), of name] by (auto simp: snapshots_added_def)
  ultimately show ?thesis by (simp add: snapshots_added_def)
qed

text \<open>The browser that captures a profile only writes its result.\<close>

definition tidy_capture :: "guest_env \<Rightarrow> bool" where
  "tidy_capture env \<longleftrightarrow> (\<forall>profile file d p. p \<noteq> file \<longrightarrow> fst (ge_capture env profile file d) p = d p)"

definition own_capture :: "package_manifest \<Rightarrow> string \<Rightarrow> capture \<Rightarrow> bool" where
  "own_capture pm profile c \<longleftrightarrow> cap_buildKey c = gm_buildKey (pm_guest pm) \<and> cap_profile c = profile"

lemma take_snapshot_ships:
  assumes run: "take_snapshot env (path_of base) profile pm s = (s', Inr pm')" and base: "\<forall>x \<in> set base. proper x"
    and p: "is_profile profile" and tidy: "tidy_capture env"
  obtains c where "reports env (path_of base) profile (wk_disk s) c" "own_capture pm profile c" "shipped env (path_of base) pm' (wk_disk s') profile c"
    "\<And>pm0. snapshots_added pm0 pm \<Longrightarrow> snapshots_added pm0 pm'"
    "\<And>other c'. is_profile other \<Longrightarrow> other \<noteq> profile \<Longrightarrow> shipped env (path_of base) pm (wk_disk s) other c' \<Longrightarrow> shipped env (path_of base) pm' (wk_disk s') other c'"
proof -
  let ?at = "path_join (path_of base)"
  from run obtain d1 c bytes shown where cap: "ge_capture env profile (?at (capture_name profile)) (wk_disk s) = (d1, Inr True)"
    and c: "reports env (path_of base) profile (wk_disk s) c" "cap_buildKey c = gm_buildKey (pm_guest pm)" "cap_profile c = profile" "cap_snapshot c = Some bytes"
      "add_snapshot env profile bytes c pm = Inr pm'"
    and d: "wk_disk s' = d1(?at (snapshot_name profile) := Some bytes, ?at (capture_name profile) := Some shown)"
    by (rule take_snapshot_done)
  note man = add_snapshot_manifest [OF c(5)]
  have "?at (snapshot_name profile) \<noteq> ?at (capture_name profile)"
    using path_join_inject [OF base snapshot_files(1,2) [OF p]] snapshot_files_differ(1) [OF p p] by blast
  then have ships: "shipped env (path_of base) pm' (wk_disk s') profile c" using c(4) man by (simp add: shipped_def d)
  have kept: "shipped env (path_of base) pm' (wk_disk s') other c'"
    if o: "is_profile other" "other \<noteq> profile" and before: "shipped env (path_of base) pm (wk_disk s) other c'" for other c'
  proof -
    have away: "?at (snapshot_name other) \<noteq> ?at (capture_name profile)" "?at (snapshot_name other) \<noteq> ?at (snapshot_name profile)"
      using path_join_inject [OF base snapshot_files(1) [OF o(1)] snapshot_files(2) [OF p]] path_join_inject [OF base snapshot_files(1) [OF o(1)] snapshot_files(1) [OF p]]
        snapshot_files_differ(1) [OF o(1) p] snapshot_files_differ(3) [OF o(1) p o(2)] by blast+
    have "d1 (?at (snapshot_name other)) = wk_disk s (?at (snapshot_name other))"
      using tidy away(1) unfolding tidy_capture_def by (metis cap fst_conv)
    then have same: "wk_disk s' (?at (snapshot_name other)) = wk_disk s (?at (snapshot_name other))" using away by (simp add: d)
    show ?thesis using before o(2) snapshot_files_differ(3) [OF o(1) p o(2)] unfolding shipped_def same man(1,2,4,5) by simp
  qed
  show ?thesis by (rule that [OF c(1) _ ships _ kept]) (use c add_snapshot_added [OF c(5) p] in \<open>simp_all add: own_capture_def\<close>)
qed

section \<open>Properties\<close>

text \<open>What \<^verbatim>\<open>verifyGuest\<close> asks of a capture: the memory the manifest declares for the profile, and an extent within the bound.\<close>

definition declared_capture :: "package_manifest \<Rightarrow> string \<Rightarrow> capture \<Rightarrow> bool" where
  "declared_capture pm profile c \<longleftrightarrow>
    cap_memoryMiB c = IntV (if profile = ''compiler'' then 128 else 64) \<and> mget (gm_profiles (pm_guest pm)) profile = Some (cap_memoryMiB c) \<and>
    isSafeInteger (cap_uncompressedBytes c) \<and> 0 < the_int (cap_uncompressedBytes c) \<and> the_int (cap_uncompressedBytes c) \<le> 256 * 1024 * 1024"

lemma shipped_verifies:
  assumes "shipped env root pm d profile c" "snapshots_added pm0 pm"
  shows "check_snapshot (pm_guest pm) profile = Inr () \<longleftrightarrow> declared_capture pm0 profile c"
  using assms(1) snapshots_added_fields(1) [OF assms(2)] by (auto simp: shipped_def check_snapshot_def snapshot_ok_def declared_capture_def)

text \<open>C24. Taking the snapshots makes a guest the packager can check: when \<^verbatim>\<open>browser-snapshot.mjs\<close> ends without an error, the manifest it wrote is the one it read with the two snapshots and
  their assets added. Each snapshot is the one its own capture reported, for this guest and this profile: its bytes are the file on the disk, and the asset record has their length and digest. And
  \<^verbatim>\<open>verifyGuest\<close> accepts a snapshot exactly if its capture reported the memory the manifest declares for the profile and an extent within the bound. It relies on a
  browser that only writes its result.
\<close>

theorem captured_snapshots_verify:
  assumes run: "browser_snapshot env (path_of base) s = (s', Inr ())" and base: "list_all proper base" and tidy: "tidy_capture env"
  shows "\<exists>pm0 pm. map_option (ge_parse env) (wk_disk s (manifest_file (path_of base))) = Some (Inr pm0) \<and>
    wk_disk s' (manifest_file (path_of base)) = Some (ge_print env pm) \<and> snapshots_added pm0 pm \<and>
    list_all (\<lambda>(profile, d). \<exists>c. reports env (path_of base) profile d c \<and> own_capture pm0 profile c \<and> shipped env (path_of base) pm (wk_disk s') profile c \<and>
        (check_snapshot (pm_guest pm) profile = Inr () \<longleftrightarrow> declared_capture pm0 profile c))
      [(''runner'', wk_disk s), (''compiler'', wk_disk (fst (take_snapshot env (path_of base) ''runner'' pm0 s)))]"
proof -
  have base': "\<forall>x \<in> set base. proper x" using base by (simp add: list_all_iff)
  from run obtain told pm0 s1 pm where told: "wk_disk s (manifest_file (path_of base)) = Some told" "ge_parse env told = Inr pm0"
    and both: "for_each (take_snapshot env (path_of base)) [''runner'', ''compiler''] pm0 s = (s1, Inr pm)"
    and eq: "s' = s1\<lparr>wk_disk := (wk_disk s1)(manifest_file (path_of base) := Some (ge_print env pm))\<rparr>"
    unfolding browser_snapshot_def by (auto simp only: script_simps)
  from both obtain t pm1 where one: "take_snapshot env (path_of base) ''runner'' pm0 s = (t, Inr pm1)" and two: "take_snapshot env (path_of base) ''compiler'' pm1 t = (s1, Inr pm)"
    by (auto simp: script_simps)
  obtain c1 where c1: "reports env (path_of base) ''runner'' (wk_disk s) c1" "own_capture pm0 ''runner'' c1" "shipped env (path_of base) pm1 (wk_disk t) ''runner'' c1"
    "snapshots_added pm0 pm1" by (rule take_snapshot_ships [OF one base' _ tidy]) (auto intro: snapshots_added_refl)
  obtain c2 where c2: "reports env (path_of base) ''compiler'' (wk_disk t) c2" "own_capture pm1 ''compiler'' c2" "shipped env (path_of base) pm (wk_disk s1) ''compiler'' c2"
    "snapshots_added pm0 pm" "shipped env (path_of base) pm (wk_disk s1) ''runner'' c1"
    by (rule take_snapshot_ships [OF two base' _ tidy]) (use c1(3,4) in auto)
  have away: "path_join (path_of base) (snapshot_name profile) \<noteq> manifest_file (path_of base)" if "is_profile profile" for profile
    unfolding manifest_file_def
    using path_join_inject [OF base' snapshot_files(1) [OF that] snapshot_files(3) [OF that]] snapshot_files_differ(2) [OF that that] by blast
  have ships: "shipped env (path_of base) pm (wk_disk s') ''runner'' c1" "shipped env (path_of base) pm (wk_disk s') ''compiler'' c2"
    using c2(3,5) away by (simp_all add: shipped_def eq)
  have own: "own_capture pm0 ''compiler'' c2"
    using c2(2) snapshots_added_fields(2) [OF c1(4)] by (simp add: own_capture_def)
  show ?thesis
    using told c1(1,2) c2(1,4) own ships shipped_verifies [OF ships(1) c2(4)] shipped_verifies [OF ships(2) c2(4)] one
    by (intro exI [of _ pm0] exI [of _ pm]) (auto simp: eq)
qed

text \<open>A guest without snapshots and a browser that captures them.\<close>

definition plain_guest :: package_manifest where
  "plain_guest = \<lparr>pm_guest = \<lparr>gm_schema = IntV 1, gm_guestAbi = IntV 1, gm_architecture = js ''i386-linux-musl'', gm_buildKey = js ''k'', gm_assets = Some [],
     gm_delivery = [], gm_profiles = [(''runner'', IntV 64), (''compiler'', IntV 128)], gm_snapshots = []\<rparr>, pm_overlay = False, pm_inputs = []\<rparr>"

definition sample_capture :: "string \<Rightarrow> capture" where
  "sample_capture profile = \<lparr>cap_buildKey = js ''k'', cap_profile = profile, cap_memoryMiB = IntV (if profile = ''compiler'' then 128 else 64),
     cap_uncompressedBytes = IntV 7, cap_snapshot = Some [5, 6]\<rparr>"

text \<open>Manifests are printed as their key with the names of their assets, captures as the letters of their profile.\<close>

definition sample_guest_env :: guest_env where
  "sample_guest_env = \<lparr>ge_repo = js ''/r'', ge_dir = None, ge_toolchain = (\<lambda>d. (d, Inr (js ''/g''))),
     ge_capture = (\<lambda>profile f d. (d(f := Some (map of_nat (js profile))), Inr True)), ge_listen = Inr (),
     ge_parse = (\<lambda>told. if told = map of_nat (js ''k'') then Inr plain_guest else throw ''unknown manifest''),
     ge_print = (\<lambda>pm. map of_nat (gm_buildKey (pm_guest pm) @ concat (mkeys (the (gm_assets (pm_guest pm)))))),
     ge_parse_capture = (\<lambda>told. if told = map of_nat (js ''runner'') then Inr (sample_capture ''runner'')
       else if told = map of_nat (js ''compiler'') then Inr (sample_capture ''compiler'') else throw ''unknown capture''),
     ge_print_capture = (\<lambda>c. map of_nat (js (cap_profile c))), ge_digest = (\<lambda>_. [])\<rparr>"

definition guest_disk :: work where
  "guest_disk = \<lparr>wk_disk = (\<lambda>p. if p = manifest_file (path_of [js ''g'']) then Some (ge_print sample_guest_env plain_guest) else None), wk_servers = 0\<rparr>"

lemma sample_profiles: "(map of_nat (js ''compiler'') :: byte list) \<noteq> map of_nat (js ''runner'')" "(map of_nat (js ''runner'') :: byte list) \<noteq> map of_nat (js ''compiler'')"
  by (simp_all add: js_def)

lemma sample_snapshot_runs: "snd (browser_snapshot sample_guest_env (path_of [js ''g'']) guest_disk) = Inr ()"
  by (simp add: browser_snapshot_def take_snapshot_def Let_def andThen_def readFile_def writeFile_def of_result_def give_def runProgram_def guest_disk_def sample_guest_env_def
      sample_capture_def plain_guest_def add_snapshot_def sample_profiles mkeys_def)

lemma sample_reports: "reports sample_guest_env root profile d c \<Longrightarrow> profile = ''runner'' \<or> profile = ''compiler'' \<Longrightarrow> c = sample_capture profile"
  by (auto simp: reports_def sample_guest_env_def sample_profiles split: if_splits)

theorem captured_snapshots_verify_witness:
  "\<exists>pm. wk_disk (fst (browser_snapshot sample_guest_env (path_of [js ''g'']) guest_disk)) (manifest_file (path_of [js ''g''])) = Some (ge_print sample_guest_env pm) \<and>
     snapshots_added plain_guest pm \<and> check_snapshot (pm_guest pm) ''runner'' = Inr () \<and> check_snapshot (pm_guest pm) ''compiler'' = Inr ()"
proof -
  let ?s = "fst (browser_snapshot sample_guest_env (path_of [js ''g'']) guest_disk)"
  have run: "browser_snapshot sample_guest_env (path_of [js ''g'']) guest_disk = (?s, Inr ())"
    using sample_snapshot_runs by (metis prod.collapse)
  have base: "list_all proper [js ''g'']" and tidy: "tidy_capture sample_guest_env" by (simp_all add: proper_def js_def tidy_capture_def sample_guest_env_def)
  have "ge_parse sample_guest_env (ge_print sample_guest_env plain_guest) = Inr plain_guest"
    by (simp add: sample_guest_env_def plain_guest_def mkeys_def)
  then have read: "map_option (ge_parse sample_guest_env) (wk_disk guest_disk (manifest_file (path_of [js ''g'']))) = Some (Inr plain_guest)"
    by (simp add: guest_disk_def)
  from captured_snapshots_verify [OF run base tidy] obtain pm c1 c2 d where
    pm: "wk_disk ?s (manifest_file (path_of [js ''g''])) = Some (ge_print sample_guest_env pm)" "snapshots_added plain_guest pm"
    and c: "reports sample_guest_env (path_of [js ''g'']) ''runner'' (wk_disk guest_disk) c1" "reports sample_guest_env (path_of [js ''g'']) ''compiler'' d c2"
      "check_snapshot (pm_guest pm) ''runner'' = Inr () \<longleftrightarrow> declared_capture plain_guest ''runner'' c1"
      "check_snapshot (pm_guest pm) ''compiler'' = Inr () \<longleftrightarrow> declared_capture plain_guest ''compiler'' c2"
    unfolding read by auto
  have "declared_capture plain_guest ''runner'' c1" "declared_capture plain_guest ''compiler'' c2"
    using sample_reports [OF c(1)] sample_reports [OF c(2)] by (simp_all add: declared_capture_def sample_capture_def plain_guest_def mget_Cons max_safe_def)
  then show ?thesis using pm c(3,4) by blast
qed

lemma take_snapshot_servers [simp]: "wk_servers (fst (take_snapshot env root profile pm t)) = wk_servers t"
  unfolding take_snapshot_def Let_def by (intro servers_andThen) (auto intro!: servers_andThen)

lemma browser_snapshot_servers: "wk_servers (fst (browser_snapshot env root t)) = wk_servers t"
  unfolding browser_snapshot_def by (intro servers_andThen servers_for_each) simp_all

text \<open>However preparing a guest ends, with an error or not, the server for its snapshots no longer listens.\<close>

theorem prepareGuest_closes_server:
  "wk_servers (fst (prepareGuest env supplied s)) = wk_servers s"
proof -
  have cap: "wk_servers (fst (andThen (listen env) (\<lambda>_. andThen (cleaning (browser_snapshot env d) close_server) (\<lambda>_. give d)) t)) = wk_servers t" for d t
    using browser_snapshot_servers [of env d "t\<lparr>wk_servers := wk_servers t + 1\<rparr>"]
    by (auto simp: andThen_def listen_def cleaning_def close_server_def give_def split: prod.splits sum.splits)
  have pages: "wk_servers (fst (snapshot_pages env d name u t)) = wk_servers t" for d name u t by (simp add: snapshot_pages_def)
  have "wk_servers (fst (read_manifest env root t)) = wk_servers t" for root t unfolding read_manifest_def by (rule servers_andThen) simp_all
  moreover have "wk_servers (fst (guest_source env supplied t)) = wk_servers t" for t unfolding guest_source_def by (auto intro!: servers_andThen)
  moreover have "wk_servers (fst (fill_cache source d t)) = wk_servers t" for source d t by (simp add: fill_cache_def)
  ultimately show ?thesis unfolding prepareGuest_def Let_def by (auto intro!: servers_andThen servers_for_each cap pages)
qed

lemma take_snapshot_rest: "keeps_rest (take_snapshot env root profile pm)"
  unfolding take_snapshot_def Let_def by (intro keeps_rest)

lemma browser_snapshot_rest: "keeps_rest (browser_snapshot env root)"
  unfolding browser_snapshot_def by (intro keeps_rest take_snapshot_rest)

lemma read_manifest_rest [keeps_rest]: "keeps_rest (read_manifest env root)"
  unfolding read_manifest_def by (intro keeps_rest)

lemma prepareGuest_rest [keeps_rest]: "keeps_rest (prepareGuest env supplied)"
proof -
  have "keeps_rest (cleaning (browser_snapshot env d) close_server)" for d
    using browser_snapshot_rest [of env d] by (simp add: keeps_rest_def cleaning_def close_server_def split_beta)
  moreover have "keeps_rest (listen env)" "keeps_rest (fill_cache source d)" for d source
    by (simp_all add: keeps_rest_def listen_def fill_cache_def give_def copyTree_def Let_def split: sum.splits)
  ultimately show ?thesis unfolding prepareGuest_def guest_source_def snapshot_pages_def Let_def by (intro keeps_rest)
qed

end
