(* ===== verification/Packager.thy ===== *)
theory Packager
  imports GuestSnapshot Packaged
begin

text \<open>
  The packager of browser applications, \<^verbatim>\<open>src/runtime/luajit/package-browser-app.mjs\<close>, with the files \<^verbatim>\<open>copyGuest\<close> of \<^verbatim>\<open>package-assets.mjs\<close> writes and the release step
  \<^verbatim>\<open>build-runtime-package.mjs\<close>: a project is built, its guest, application, native libraries, Wasm units and the bundled runtime are written below the output, and the manifest
  records each with its size and digest. \<open>Packaged\<close> is the other end: the page that loads such a package.
\<close>

section \<open>Data\<close>

text \<open>What \<^verbatim>\<open>nupp build --json\<close> reports on its last line.\<close>

record build_result =
  br_ok :: bool
  br_artifact :: "jstr option"
  br_written :: "jstr list"
  br_aotManifest :: "jstr option"

text \<open>A Wasm unit of the compiler: \<open>wu_wasm\<close> is empty if there is none, the bridge has its ABI and its entries.\<close>

record wasm_unit =
  wu_wasm :: jstr
  wu_unit :: jstr
  wu_scalar :: bool
  wu_bridge :: "(jnum \<times> entry_declaration list) option"

record unit_manifest =
  um_schemaVersion :: jnum
  um_versionText :: jstr  \<comment> \<open>as a message shows it\<close>
  um_target :: jstr
  um_units :: "wasm_unit list"

text \<open>
  What the packager relies on: the directory it runs in, the overlay switch, the notices of the host, the compiler (its arguments and directory), the bundler (a service
  that answers with the bundle of a file), gzip, and JSON texts. \<open>pe_text\<close> prints the manifest with the target it was built for.
\<close>

record pack_env =
  pe_guest :: guest_env
  pe_cwd :: jstr
  pe_dev :: bool
  pe_notices :: "jstr list"
  pe_nupp :: "jstr list \<Rightarrow> jstr \<Rightarrow> disk \<Rightarrow> disk \<times> jstr result"
  pe_result :: "jstr \<Rightarrow> build_result result"
  pe_units :: "byte list \<Rightarrow> unit_manifest result"
  pe_bundle :: "jstr \<Rightarrow> disk \<Rightarrow> byte list result"
  pe_gzip :: "byte list \<Rightarrow> byte list"
  pe_text :: "jstr option \<Rightarrow> app_manifest \<Rightarrow> byte list"

abbreviation pe_repo :: "pack_env \<Rightarrow> jstr" where
  "pe_repo env \<equiv> ge_repo (pe_guest env)"

text \<open>The module's own state: \<^verbatim>\<open>compilerPrepared\<close>, and whether the bundler's service runs.\<close>

record pack_state = work +
  pt_prepared :: bool
  pt_service :: bool

record pack_request =
  pr_project :: "jstr option"
  pr_target :: "jstr option"
  pr_output :: "jstr option"
  pr_guest :: "jstr option"
  pr_prebuilt :: bool

definition digest :: "pack_env \<Rightarrow> byte list \<Rightarrow> jstr" where
  "digest env bytes = sha256 (ge_digest (pe_guest env)) bytes"

section \<open>The guest's files\<close>

definition copy_asset :: "jstr \<Rightarrow> jstr \<Rightarrow> jstr \<Rightarrow> unit \<Rightarrow> ('m work_scheme, unit) script" where
  "copy_asset source destination name _ = copyFile (path_join source name) (path_join destination name)"

definition compress_asset :: "pack_env \<Rightarrow> jstr \<Rightarrow> jstr \<Rightarrow> guest_manifest \<Rightarrow> ('m work_scheme, guest_manifest) script" where
  "compress_asset env destination name m =
    andThen (readFile (path_join destination name)) (\<lambda>bytes.
    andThen (writeFile (path_join destination (name @ js ''.gz'')) (pe_gzip env bytes)) (\<lambda>_.
    give (add_delivery (digest env) (pe_gzip env) (\<lambda>_. bytes) name m)))"

definition check_guest :: "pack_env \<Rightarrow> jstr \<Rightarrow> package_manifest \<Rightarrow> ('m work_scheme, package_manifest) script" where
  "check_guest env source pm s =
    (s, verifyGuest (digest env) (\<lambda>f. snd (readFile (path_join (pe_repo env) f) s)) (\<lambda>n. snd (readFile (path_join source n) s)) (pe_dev env) (pe_notices env) pm)"

definition copy_guest :: "pack_env \<Rightarrow> jstr \<Rightarrow> jstr \<Rightarrow> ('m work_scheme, package_manifest) script" where
  "copy_guest env source destination =
    andThen (read_manifest (pe_guest env) source) (\<lambda>pm0.
    andThen (check_guest env source pm0) (\<lambda>pm.
    andThen (for_each (copy_asset source destination) (mkeys (the (gm_assets (pm_guest pm)))) ()) (\<lambda>_.
    andThen (for_each (compress_asset env destination) [js ''assets/v86.wasm'', js ''assets/v86-fallback.wasm''] (pm_guest pm)) (\<lambda>m.
    andThen (writeFile (manifest_file destination) (ge_print (pe_guest env) (pm\<lparr>pm_guest := m\<rparr>))) (\<lambda>_. give (pm\<lparr>pm_guest := m\<rparr>))))))"

text \<open>\<^verbatim>\<open>build-runtime-package.mjs\<close>: the guest alone, for a release.\<close>

definition build_runtime_package :: "pack_env \<Rightarrow> jstr option \<Rightarrow> jstr option \<Rightarrow> ('m work_scheme, jstr \<times> jstr) script" where
  "build_runtime_package env out supplied =
    (if or_else out [] = [] then of_result (throw ''usage: build-runtime-package.mjs OUTPUT [GUEST]'')
     else if pe_dev env then of_result (throw ''Release runtime packaging cannot use development overlays'')
     else andThen (prepareGuest (pe_guest env) supplied) (\<lambda>guest.
       let output = path_resolve (pe_cwd env) (or_else out []) in
       andThen (copy_guest env guest output) (\<lambda>pm. give (gm_buildKey (pm_guest pm), output))))"

section \<open>The parts of a package\<close>

type_synonym asset_records = "(jstr, asset_record) jmap"

definition record_of_bytes :: "pack_env \<Rightarrow> byte list \<Rightarrow> asset_record" where
  "record_of_bytes env bytes = \<lparr>ar_sha256 = digest env bytes, ar_bytes = IntV (int (length bytes))\<rparr>"

definition record_asset :: "pack_env \<Rightarrow> jstr \<Rightarrow> jstr \<Rightarrow> asset_records \<Rightarrow> ('m work_scheme, asset_records) script" where
  "record_asset env output name assets =
    andThen (readFile (path_join output name)) (\<lambda>bytes. give (mset assets name (record_of_bytes env bytes)))"

definition library_file :: "jstr \<Rightarrow> bool" where
  "library_file p \<longleftrightarrow> suffix (js ''.so'') p \<or> suffix (js ''.dylib'') p \<or> suffix (js ''.dll'') p"

text \<open>A written file that is a library of the application; others are passed over.\<close>

definition add_library ::
  "pack_env \<Rightarrow> jstr \<Rightarrow> jstr \<Rightarrow> jstr \<Rightarrow> jstr \<Rightarrow> asset_records \<times> (jstr \<times> jstr) list \<times> nat \<Rightarrow> ('m work_scheme, asset_records \<times> (jstr \<times> jstr) list \<times> nat) script" where
  "add_library env project output libraryDirectory artifact acc =
    (case acc of (assets, libraries, nativeBytes) \<Rightarrow>
     let source = path_resolve project artifact; name = basename source in
     if path_dirname source \<noteq> libraryDirectory \<or> \<not> library_file source then give acc
     else andThen (readFile source) (\<lambda>bytes.
       andThen (of_result (validateNativeLibrary name bytes)) (\<lambda>_.
       if nativeBytes + length bytes > 1024 * 1024 then of_result (throw ''Guest native libraries exceed one MiB in total'')
       else let named = js ''native/'' @ take 16 (digest env bytes) @ js ''/'' @ name in
         andThen (copyFile source (path_join output named)) (\<lambda>_.
         andThen (record_asset env output named assets) (\<lambda>assets1.
         give (assets1, libraries @ [(named, name)], nativeBytes + length bytes))))))"

definition unit_ok :: "wasm_unit \<Rightarrow> bool" where
  "unit_ok u \<longleftrightarrow> wu_wasm u \<noteq> [] \<and> (case wu_bridge u of Some (abi, entries) \<Rightarrow> abi = IntV 1 | None \<Rightarrow> False) \<and>
     [46, 46] \<notin> set (split_path (wu_wasm u)) \<and> \<not> isAbsolute (wu_wasm u)"

definition kernel_of :: "wasm_unit \<Rightarrow> kernel_record" where
  "kernel_of u = \<lparr>kr_abi = (case wu_bridge u of Some (abi, entries) \<Rightarrow> abi | None \<Rightarrow> Undef), kr_unit = wu_unit u, kr_file = js ''aot/'' @ wu_wasm u, kr_scalar = wu_scalar u,
     kr_entries = (case wu_bridge u of Some (abi, entries) \<Rightarrow> entries | None \<Rightarrow> [])\<rparr>"

definition add_unit ::
  "pack_env \<Rightarrow> jstr \<Rightarrow> jstr \<Rightarrow> wasm_unit \<Rightarrow> asset_records \<times> kernel_record list \<Rightarrow> ('m work_scheme, asset_records \<times> kernel_record list) script" where
  "add_unit env output manifestPath u acc =
    (case acc of (assets, kernels) \<Rightarrow>
     if \<not> unit_ok u then of_result (throw ''Invalid independent Wasm unit'')
     else let name = js ''aot/'' @ wu_wasm u in
       andThen (copyFile (path_join (path_dirname manifestPath) (wu_wasm u)) (path_join output name)) (\<lambda>_.
       andThen (record_asset env output name assets) (\<lambda>assets1. give (assets1, kernels @ [kernel_of u]))))"

definition add_units ::
  "pack_env \<Rightarrow> jstr \<Rightarrow> jstr \<Rightarrow> jstr option \<Rightarrow> asset_records \<Rightarrow> ('m work_scheme, asset_records \<times> kernel_record list) script" where
  "add_units env project output aotManifest assets =
    (if or_else aotManifest [] = [] then give (assets, [])
     else let manifestPath = path_resolve project (or_else aotManifest []) in
       andThen (readFile manifestPath) (\<lambda>told.
       andThen (of_result (pe_units env told)) (\<lambda>built.
       if um_schemaVersion built \<noteq> IntV 3 then of_result (Inl (Error (manifestPath @ js '' has schemaVersion '' @ um_versionText built @ js '', and this packager reads 3; rebuild it with the matching compiler'')))
       else if um_target built \<noteq> js ''wasm32-unknown-emscripten'' then of_result (throw ''Unsupported Wasm build manifest'')
       else for_each (add_unit env output manifestPath) (um_units built) (assets, []))))"

text \<open>Asking for a bundle starts the service if it does not run.\<close>

definition bundle_file :: "pack_env \<Rightarrow> jstr \<Rightarrow> (pack_state, byte list) script" where
  "bundle_file env p s = (s\<lparr>pt_service := True\<rparr>, pe_bundle env p (wk_disk s))"

definition add_runtime :: "pack_env \<Rightarrow> jstr \<Rightarrow> jstr \<Rightarrow> asset_records \<Rightarrow> (pack_state, asset_records) script" where
  "add_runtime env output name assets =
    andThen (bundle_file env (path_join (pe_repo env) (js ''runtime/luajit/'' @ name @ js ''.mjs''))) (\<lambda>bytes.
    andThen (writeFile (path_join output (name @ js ''.mjs'')) bytes) (\<lambda>_. record_asset env output (name @ js ''.mjs'') assets))"

definition page_files :: "(jstr \<times> jstr) list" where
  "page_files = [(js ''runtime/wasm/browser-entry.mjs'', js ''nupp-browser-app.mjs''), (js ''runtime/wasm/audio.mjs'', js ''nupp-audio.mjs''),
     (js ''runtime/wasm/audio-worklet.mjs'', js ''nupp-audio-worklet.mjs'')]"

definition copy_page_file :: "pack_env \<Rightarrow> jstr \<Rightarrow> jstr \<times> jstr \<Rightarrow> unit \<Rightarrow> ('m work_scheme, unit) script" where
  "copy_page_file env output f _ = copyFile (path_join (pe_repo env) (fst f)) (path_join output (snd f))"

text \<open>The emitted worker facade tells whether the application needs a pool.\<close>

definition needs_workers :: "jstr list \<Rightarrow> bool" where
  "needs_workers written \<longleftrightarrow> list_ex (\<lambda>f. suffix [js ''nupp'', js ''workers.lua''] (split_path f)) written"

definition package_limits :: "bool \<Rightarrow> limit_layer" where
  "package_limits workers = LayerObject [(''perTurn'', ScopeObject
     [(''maxEffects'', IntV (if workers then 262144 else 256)), (''maxEffectBytes'', IntV (if workers then 268435456 else 4194304)),
      (''maxResponseBytes'', IntV (if workers then 268435456 else 8388608)), (''computeMs'', IntV 30000)])]"

section \<open>Packaging\<close>

definition prebuilt_result :: build_result where
  "prebuilt_result = \<lparr>br_ok = True, br_artifact = Some (js ''dist/app.lua''), br_written = [], br_aotManifest = Some (js ''dist/aot/units.json'')\<rparr>"

definition prepare_compiler :: "pack_env \<Rightarrow> pack_request \<Rightarrow> (pack_state, unit) script" where
  "prepare_compiler env rq s =
    (if pr_prebuilt rq \<or> pt_prepared s then give () s
     else andThen (runProgram (pe_nupp env [js ''build''] (pe_repo env))) (\<lambda>_ t. (t\<lparr>pt_prepared := True\<rparr>, Inr ())) s)"

definition build_project :: "pack_env \<Rightarrow> pack_request \<Rightarrow> jstr \<Rightarrow> ('m work_scheme, build_result) script" where
  "build_project env rq project =
    (if pr_prebuilt rq then give prebuilt_result
     else andThen (runProgram (pe_nupp env (map js [''build'', ''--target''] @ [or_else (pr_target rq) (js ''browser'')] @ map js [''--host'', ''browser'', ''--json'']) project)) (\<lambda>out.
       of_result (pe_result env (last (split_on 10 (trim out))))))"

definition write_app :: "pack_env \<Rightarrow> jstr \<Rightarrow> jstr \<Rightarrow> asset_records \<Rightarrow> ('m work_scheme, jstr \<times> asset_records) script" where
  "write_app env output artifact assets =
    andThen (readFile artifact) (\<lambda>bytes.
    let app = js ''app-'' @ take 16 (digest env bytes) @ js ''.lua'' in
    andThen (writeFile (path_join output app) bytes) (\<lambda>_.
    andThen (record_asset env output app assets) (\<lambda>assets1. give (app, assets1))))"

text \<open>From the guest that is prepared to the manifest that is written.\<close>

definition write_package :: "pack_env \<Rightarrow> pack_request \<Rightarrow> jstr \<Rightarrow> jstr \<Rightarrow> build_result \<Rightarrow> jstr \<Rightarrow> jstr \<Rightarrow> (pack_state, app_manifest) script" where
  "write_package env rq project output res artifact guest =
    andThen (read_manifest (pe_guest env) guest) (\<lambda>gpm.
    let key = gm_buildKey (pm_guest gpm); guestName = js ''guest/'' @ key @ js ''/guest-manifest.json'' in
    andThen (copy_guest env guest (path_dirname (path_join output guestName))) (\<lambda>_.
    andThen (record_asset env output guestName []) (\<lambda>assets0.
    andThen (write_app env output (path_resolve project artifact) assets0) (\<lambda>(app, assets1).
    andThen (for_each (add_library env project output (path_join (path_dirname (path_resolve project artifact)) (js ''lib''))) (br_written res) (assets1, [], 0)) (\<lambda>(assets2, libraries, used).
    andThen (add_units env project output (br_aotManifest res) assets2) (\<lambda>(assets3, kernels).
    andThen (for_each (add_runtime env output) [js ''app-runtime'', js ''worker-lane'', js ''browser-worker''] assets3) (\<lambda>assets.
    andThen (for_each (copy_page_file env output) page_files ()) (\<lambda>_.
    let workers = needs_workers (br_written res);
        manifest = \<lparr>mn_schema = IntV 1, mn_runtime = js ''luajit-v86'', mn_limits = package_limits workers, mn_app = app, mn_guest = guestName, mn_guestBuildKey = key,
          mn_kernels = kernels, mn_nativeLibraries = libraries, mn_workers = (if workers then Some (js ''worker-lane.mjs'', IntV 2) else None),
          mn_assets = Some assets, mn_delivery = []\<rparr> in
    andThen (writeFile (path_join output (js ''nupp-browser-app.json'')) (pe_text env (pr_target rq) manifest)) (\<lambda>_. give manifest)))))))))"

definition packageWithService :: "pack_env \<Rightarrow> pack_request \<Rightarrow> (pack_state, app_manifest) script" where
  "packageWithService env rq =
    andThen (prepare_compiler env rq) (\<lambda>_.
    let project = path_resolve (pe_cwd env) (or_else (pr_project rq) dot);
        output = path_resolve (pe_cwd env) (or_else (pr_output rq) (path_join project (js ''build/browser''))) in
    andThen (build_project env rq project) (\<lambda>res.
    case br_artifact res of
      Some artifact \<Rightarrow>
        if \<not> br_ok res \<or> \<not> suffix (js ''.lua'') artifact then of_result (throw ''A browser application must be a LuaJIT bundle target'')
        else andThen (prepareGuest (pe_guest env) (pr_guest rq)) (write_package env rq project output res artifact)
    | None \<Rightarrow> of_result (throw ''A browser application must be a LuaJIT bundle target'')))"

definition packageBrowserApp :: "pack_env \<Rightarrow> pack_request \<Rightarrow> (pack_state, app_manifest) script" where
  "packageBrowserApp env rq = cleaning (packageWithService env rq) (\<lambda>s. s\<lparr>pt_service := False\<rparr>)"

section \<open>The command line\<close>

fun camel_case :: "jstr \<Rightarrow> jstr" where
  "camel_case [] = []"
| "camel_case [u] = [u]"
| "camel_case (u # v # us) = (if u = 45 \<and> 97 \<le> v \<and> v \<le> 122 then (v - 32) # camel_case us else u # camel_case (v # us))"

fun command_options :: "jstr list \<Rightarrow> (jstr, jstr) jmap \<Rightarrow> (jstr, jstr) jmap result" where
  "command_options [] opts = Inr opts"
| "command_options [a] opts = throw ''Expected --name VALUE''"
| "command_options (a # v # rest) opts =
    (if \<not> prefix (js ''--'') a then throw ''Expected --name VALUE'' else command_options rest (mset opts (camel_case (drop 2 a)) v))"

section \<open>Records match files\<close>

text \<open>The names a package may record: plain, and none of the files of the page.\<close>

definition asset_name :: "jstr \<Rightarrow> bool" where
  "asset_name n \<longleftrightarrow> plain_name n \<and> \<not> prefix (js ''nupp-'') n"

text \<open>Every record is the one of the file as it is on the disk; \<open>base\<close> are the segments of the output.\<close>

definition recorded :: "pack_env \<Rightarrow> jstr list \<Rightarrow> asset_records \<Rightarrow> disk \<Rightarrow> bool" where
  "recorded env base assets d \<longleftrightarrow>
    (\<forall>n r. mget assets n = Some r \<longrightarrow> asset_name n \<and> (\<exists>bytes. d (path_join (path_of base) n) = Some bytes \<and> r = record_of_bytes env bytes))"

lemma recorded_Nil [simp]: "recorded env base [] d"
  by (simp add: recorded_def)

lemma record_asset_done [script_simps]:
  "record_asset env out n assets s = (s', Inr assets') \<longleftrightarrow>
    s' = s \<and> (\<exists>bytes. wk_disk s (path_join out n) = Some bytes \<and> assets' = mset assets n (record_of_bytes env bytes))"
  by (auto simp: record_asset_def script_simps)

text \<open>A file that is written and then recorded keeps this, and so does one that is no asset.\<close>

lemma recorded_write:
  assumes "recorded env base assets d" "asset_name n" "\<forall>x \<in> set base. proper x"
  shows "recorded env base (mset assets n (record_of_bytes env bytes)) (d(path_join (path_of base) n := Some bytes))"
  unfolding recorded_def
proof (intro allI impI)
  fix m r
  assume m: "mget (mset assets n (record_of_bytes env bytes)) m = Some r"
  show "asset_name m \<and> (\<exists>b. (d(path_join (path_of base) n := Some bytes)) (path_join (path_of base) m) = Some b \<and> r = record_of_bytes env b)"
  proof (cases "m = n")
    case False
    with m assms(1) have *: "asset_name m" "\<exists>b. d (path_join (path_of base) m) = Some b \<and> r = record_of_bytes env b" by (auto simp: recorded_def)
    moreover have "path_join (path_of base) m \<noteq> path_join (path_of base) n"
      using path_join_inject [OF assms(3)] * assms(2) False by (auto simp: asset_name_def)
    ultimately show ?thesis by simp
  qed (use m assms(2) in simp)
qed

lemma recorded_away:
  assumes "recorded env base assets d" "plain_name n" "prefix (js ''nupp-'') n" "\<forall>x \<in> set base. proper x"
  shows "recorded env base assets (d(path_join (path_of base) n := Some bytes))"
  unfolding recorded_def
proof (intro allI impI)
  fix m r
  assume "mget assets m = Some r"
  with assms(1) have *: "asset_name m" "\<exists>b. d (path_join (path_of base) m) = Some b \<and> r = record_of_bytes env b" by (auto simp: recorded_def)
  moreover have "path_join (path_of base) m \<noteq> path_join (path_of base) n"
    using path_join_inject [OF assms(4), of m n] * assms(2,3) by (auto simp: asset_name_def)
  ultimately show "asset_name m \<and> (\<exists>b. (d(path_join (path_of base) n := Some bytes)) (path_join (path_of base) m) = Some b \<and> r = record_of_bytes env b)" by simp
qed

section \<open>Names\<close>

lemma hex_text_chars: "list_all Assets.hex_char (hex_text bs)"
proof -
  have "Assets.hex_char (hex_digit d)" if "d < 16" for d using that by (auto simp: Assets.hex_char_def hex_digit_def)
  moreover have "unat b div 16 < 16" "unat b mod 16 < 16" for b :: byte using unat_byte [of b] by auto
  ultimately show ?thesis by (induction bs) (simp_all add: hex_text_def)
qed

lemma hex_text_length: "length (hex_text bs) = 2 * length bs"
  by (induction bs) (simp_all add: hex_text_def)

lemma hex_text_hex64: "length bs = 32 \<Longrightarrow> hex64 (hex_text bs)"
  by (simp add: hex64_def hex_text_length hex_text_chars)

lemma hex_char_no_slash: "list_all Assets.hex_char s \<Longrightarrow> 47 \<notin> set s"
  by (auto simp: list_all_iff Assets.hex_char_def)

lemma proper_long: "47 \<notin> set s \<Longrightarrow> 2 < length s \<Longrightarrow> proper s"
  by (auto simp: proper_def)

lemma digest_head_chars: "47 \<notin> set (take 16 (digest env bytes))"
  using hex_char_no_slash [OF hex_text_chars] by (auto simp: digest_def sha256_def dest: in_set_takeD)

lemma app_name_ok: "asset_name (js ''app-'' @ take 16 (digest env bytes) @ js ''.lua'')"
proof -
  have "proper (js ''app-'' @ take 16 (digest env bytes) @ js ''.lua'')"
    by (rule proper_long) (use digest_head_chars [of env bytes] in \<open>simp_all add: js_def\<close>)
  then show ?thesis by (auto simp: asset_name_def plain_segment js_def)
qed

lemma guest_name_ok: "hex64 key \<Longrightarrow> asset_name (js ''guest/'' @ key @ js ''/guest-manifest.json'')"
proof -
  assume key: "hex64 key"
  then have "proper key" using hex_char_no_slash by (intro proper_long) (auto simp: hex64_def)
  then have "plain_name (js ''guest'' @ 47 # key @ 47 # js ''guest-manifest.json'')"
    by (intro plain_join plain_segment) (simp_all add: proper_def js_def)
  then show ?thesis by (simp add: asset_name_def js_def)
qed

lemma library_name_proper: "library_name name \<Longrightarrow> proper name"
  by (intro proper_long) (auto simp: library_name_def list_all_iff name_char_def)

lemma native_name_ok:
  assumes "library_name name" "length (ge_digest (pe_guest env) bytes) = 32"
  shows "asset_name (js ''native/'' @ take 16 (digest env bytes) @ js ''/'' @ name)"
proof -
  have "proper (take 16 (digest env bytes))"
    using digest_head_chars hex_text_length [of "ge_digest (pe_guest env) bytes"] assms(2) by (intro proper_long) (simp_all add: digest_def sha256_def)
  then have "plain_name (js ''native'' @ 47 # take 16 (digest env bytes) @ 47 # name)"
    using library_name_proper [OF assms(1)] by (intro plain_join plain_segment) (simp_all add: proper_def js_def)
  then show ?thesis by (simp add: asset_name_def js_def)
qed

section \<open>The loops of the packager\<close>

text \<open>Files outside a class of names are left alone, and what was recorded stays recorded.\<close>

definition leaves :: "jstr list \<Rightarrow> (jstr \<Rightarrow> bool) \<Rightarrow> disk \<Rightarrow> disk \<Rightarrow> bool" where
  "leaves base touched d d' \<longleftrightarrow> (\<forall>m. plain_name m \<longrightarrow> \<not> touched m \<longrightarrow> d' (path_join (path_of base) m) = d (path_join (path_of base) m))"

definition grows :: "asset_records \<Rightarrow> asset_records \<Rightarrow> bool" where
  "grows a a' \<longleftrightarrow> (\<forall>m. mget a m \<noteq> None \<longrightarrow> mget a' m \<noteq> None)"

lemma leaves_refl [simp]: "leaves base touched d d"
  by (simp add: leaves_def)

lemma grows_refl [simp]: "grows a a"
  by (simp add: grows_def)

lemma leaves_write:
  assumes "leaves base touched d d'" "touched n" "plain_name n" "\<forall>x \<in> set base. proper x"
  shows "leaves base touched d (d'(path_join (path_of base) n := Some bytes))"
proof -
  have "path_join (path_of base) m \<noteq> path_join (path_of base) n" if "plain_name m" "\<not> touched m" for m
    using path_join_inject [OF assms(4) that(1) assms(3)] that(2) assms(2) by blast
  then show ?thesis using assms(1) by (simp add: leaves_def)
qed

lemma grows_mset: "grows a a' \<Longrightarrow> grows a (mset a' n r)"
  by (simp add: grows_def)

lemma grows_trans: "grows a b \<Longrightarrow> grows b c \<Longrightarrow> grows a c"
  by (simp add: grows_def)

abbreviation is_native :: "jstr \<Rightarrow> bool" where
  "is_native \<equiv> prefix (js ''native/'')"

abbreviation is_kernel :: "jstr \<Rightarrow> bool" where
  "is_kernel \<equiv> prefix (js ''aot/'')"

text \<open>The libraries so far: each file is the one its name says and valid, and together they are as long as was counted.\<close>

definition libraries_ok :: "jstr list \<Rightarrow> (jstr \<times> jstr) list \<Rightarrow> nat \<Rightarrow> disk \<Rightarrow> bool" where
  "libraries_ok base libraries used d \<longleftrightarrow>
    (\<forall>(f, n) \<in> set libraries. last (split_on 47 f) = n \<and> is_native f \<and> plain_name f \<and>
       (\<exists>bytes. d (path_join (path_of base) f) = Some bytes \<and> validateNativeLibrary n bytes = Inr ())) \<and>
    (distinct (map snd libraries) \<longrightarrow> used = sum_list (map (\<lambda>(f, n). length (the (d (path_join (path_of base) f)))) libraries)) \<and> used \<le> native_limit"

lemma libraries_ok_leaves:
  assumes "libraries_ok base libraries used d" "leaves base touched d d'" "\<And>m. is_native m \<Longrightarrow> \<not> touched m"
  shows "libraries_ok base libraries used d'"
proof -
  have same: "d' (path_join (path_of base) f) = d (path_join (path_of base) f)" if "(f, n) \<in> set libraries" for f n
    using assms that by (auto simp: libraries_ok_def leaves_def)
  have sums: "map (\<lambda>(f, n). length (the (d' (path_join (path_of base) f)))) libraries = map (\<lambda>(f, n). length (the (d (path_join (path_of base) f)))) libraries"
    using same by (intro map_cong) auto
  have "last (split_on 47 f) = n \<and> is_native f \<and> plain_name f \<and> (\<exists>bytes. d' (path_join (path_of base) f) = Some bytes \<and> validateNativeLibrary n bytes = Inr ())"
    if "(f, n) \<in> set libraries" for f n
    unfolding same [OF that] using assms(1) that by (auto simp: libraries_ok_def)
  then show ?thesis using assms(1) unfolding libraries_ok_def sums by blast
qed

lemma libraries_ok_snoc:
  assumes ok: "libraries_ok base libraries used d" and base: "\<forall>x \<in> set base. proper x" and f: "is_native f" "plain_name f" "last (split_on 47 f) = n"
    and valid: "validateNativeLibrary n bytes = Inr ()" and fits: "used + length bytes \<le> native_limit"
  shows "libraries_ok base (libraries @ [(f, n)]) (used + length bytes) (d(path_join (path_of base) f := Some bytes))"
proof -
  let ?d = "d(path_join (path_of base) f := Some bytes)"
  have entry: "last (split_on 47 g) = m \<and> is_native g \<and> plain_name g \<and> (\<exists>b. ?d (path_join (path_of base) g) = Some b \<and> validateNativeLibrary m b = Inr ())"
    if "(g, m) \<in> set (libraries @ [(f, n)])" for g m
  proof (cases "g = f")
    case True
    have "m = n" using that f(3) ok True by (auto simp: libraries_ok_def)
    then show ?thesis using True f valid by simp
  next
    case False
    with that ok have *: "last (split_on 47 g) = m" "is_native g" "plain_name g" "\<exists>b. d (path_join (path_of base) g) = Some b \<and> validateNativeLibrary m b = Inr ()"
      by (auto simp: libraries_ok_def)
    moreover have "path_join (path_of base) g \<noteq> path_join (path_of base) f" using path_join_inject [OF base *(3) f(2)] False by blast
    ultimately show ?thesis by simp
  qed
  have "used = sum_list (map (\<lambda>(f, n). length (the (?d (path_join (path_of base) f)))) libraries)" if dist: "distinct (map snd (libraries @ [(f, n)]))"
  proof -
    have "path_join (path_of base) g \<noteq> path_join (path_of base) f" if "(g, m) \<in> set libraries" for g m
    proof
      assume eq: "path_join (path_of base) g = path_join (path_of base) f"
      from that ok have "plain_name g" "last (split_on 47 g) = m" by (auto simp: libraries_ok_def)
      with path_join_inject [OF base _ f(2) eq] f(3) have "m = n" by simp
      with that dist show False by force
    qed
    then have sums: "map (\<lambda>(f, n). length (the (?d (path_join (path_of base) f)))) libraries = map (\<lambda>(f, n). length (the (d (path_join (path_of base) f)))) libraries"
      by (intro map_cong) auto
    show ?thesis unfolding sums using ok dist by (simp add: libraries_ok_def)
  qed
  then show ?thesis using entry fits valid unfolding libraries_ok_def by (auto simp del: fun_upd_apply simp: fun_upd_same)
qed

text \<open>What the loop over the written files keeps, from the disk and the records it starts with.\<close>

definition library_inv :: "pack_env \<Rightarrow> jstr list \<Rightarrow> asset_records \<Rightarrow> disk \<Rightarrow> asset_records \<times> (jstr \<times> jstr) list \<times> nat \<Rightarrow> 'm work_scheme \<Rightarrow> bool" where
  "library_inv env base a0 d0 acc s \<longleftrightarrow>
    (case acc of (assets, libraries, used) \<Rightarrow>
      recorded env base assets (wk_disk s) \<and> libraries_ok base libraries used (wk_disk s) \<and> (\<forall>(f, n) \<in> set libraries. mget assets f \<noteq> None) \<and>
      leaves base is_native d0 (wk_disk s) \<and> grows a0 assets)"

lemma add_library_done:
  assumes "add_library env project out dir artifact (assets, libraries, used) s = (s', Inr acc')"
  obtains (passed) "acc' = (assets, libraries, used)" "s' = s"
  | (added) bytes name where "validateNativeLibrary name bytes = Inr ()" "used + length bytes \<le> native_limit"
      "wk_disk s' = (wk_disk s)(path_join out (js ''native/'' @ take 16 (digest env bytes) @ js ''/'' @ name) := Some bytes)"
      "acc' = (mset assets (js ''native/'' @ take 16 (digest env bytes) @ js ''/'' @ name) (record_of_bytes env bytes),
        libraries @ [(js ''native/'' @ take 16 (digest env bytes) @ js ''/'' @ name, name)], used + length bytes)"
proof (cases "path_dirname (path_resolve project artifact) \<noteq> dir \<or> \<not> library_file (path_resolve project artifact)")
  case True
  with assms passed show ?thesis by (simp add: add_library_def Let_def script_simps)
next
  case False
  with assms show ?thesis
    by (intro added [of "basename (path_resolve project artifact)" "the (wk_disk s (path_resolve project artifact))"])
      (auto simp: add_library_def Let_def script_simps native_limit_def split: if_splits)
qed

lemma add_library_step:
  assumes run: "add_library env project (path_of base) dir artifact acc s = (s', Inr acc')" and inv: "library_inv env base a0 d0 acc s"
    and base: "\<forall>x \<in> set base. proper x" and dig: "\<And>b. length (ge_digest (pe_guest env) b) = 32"
  shows "library_inv env base a0 d0 acc' s'"
proof -
  obtain assets libraries used where acc: "acc = (assets, libraries, used)" by (cases acc)
  from run [unfolded acc] show ?thesis
  proof (cases rule: add_library_done)
    case passed
    then show ?thesis using inv by (simp add: acc)
  next
    case (added bytes name)
    note valid = added(1) and fits = added(2) and s' = added(3) and acc' = added(4)
  let ?f = "js ''native/'' @ take 16 (digest env bytes) @ js ''/'' @ name"
  have lib: "library_name name" using valid by (auto simp: validateNativeLibrary_def split: if_splits)
  have f: "asset_name ?f" by (rule native_name_ok [OF lib dig])
  have native: "is_native ?f" by (simp add: js_def)
  have "47 \<notin> set name" using library_name_proper [OF lib] by (simp add: proper_def)
  then have last: "last (split_on 47 ?f) = name"
    using split_on_two [of 47 "js ''native/'' @ take 16 (digest env bytes)" name] by (simp add: js_def split_on_free)
  have plain: "plain_name ?f" using f by (simp add: asset_name_def)
  from inv have old: "recorded env base assets (wk_disk s)" "libraries_ok base libraries used (wk_disk s)" "\<forall>(f, n) \<in> set libraries. mget assets f \<noteq> None"
    "leaves base is_native d0 (wk_disk s)" "grows a0 assets" by (simp_all add: library_inv_def acc)
  have "leaves base is_native d0 (wk_disk s')" unfolding s' by (rule leaves_write) (use old native plain base in simp_all)
  then show ?thesis
    using recorded_write [OF old(1) f base, of bytes] libraries_ok_snoc [OF old(2) base native plain last valid fits] old(3) grows_mset [OF old(5)]
    by (auto simp: library_inv_def acc' s')
  qed
qed

lemma add_libraries_done:
  assumes "for_each (add_library env project (path_of base) dir) written (a0, [], 0) s = (s', Inr (assets, libraries, used))"
    and "recorded env base a0 (wk_disk s)" "\<forall>x \<in> set base. proper x" "\<And>b. length (ge_digest (pe_guest env) b) = 32"
  shows "library_inv env base a0 (wk_disk s) (assets, libraries, used) s'"
proof (rule for_each_done [where kept = "library_inv env base a0 (wk_disk s)", OF assms(1)])
  show "library_inv env base a0 (wk_disk s) (a0, [], 0) s" using assms(2) by (simp add: library_inv_def libraries_ok_def)
qed (use add_library_step assms(3,4) in blast)

text \<open>The Wasm units; what the loop keeps is known if their names are plain.\<close>

definition unit_inv :: "pack_env \<Rightarrow> jstr list \<Rightarrow> asset_records \<Rightarrow> disk \<Rightarrow> asset_records \<times> kernel_record list \<Rightarrow> 'm work_scheme \<Rightarrow> bool" where
  "unit_inv env base a0 d0 acc s \<longleftrightarrow>
    (case acc of (assets, kernels) \<Rightarrow> (\<forall>k \<in> set kernels. plain_name (kr_file k)) \<longrightarrow>
      recorded env base assets (wk_disk s) \<and> (\<forall>k \<in> set kernels. mget assets (kr_file k) \<noteq> None) \<and> leaves base is_kernel d0 (wk_disk s) \<and> grows a0 assets)"

lemma add_unit_step:
  assumes run: "add_unit env (path_of base) path u acc s = (s', Inr acc')" and inv: "unit_inv env base a0 d0 acc s" and base: "\<forall>x \<in> set base. proper x"
  shows "unit_inv env base a0 d0 acc' s'"
proof -
  obtain assets kernels where acc: "acc = (assets, kernels)" by (cases acc)
  let ?n = "js ''aot/'' @ wu_wasm u"
  from run obtain bytes where s': "wk_disk s' = (wk_disk s)(path_join (path_of base) ?n := Some bytes)"
    and acc': "acc' = (mset assets ?n (record_of_bytes env bytes), kernels @ [kernel_of u])"
    by (auto simp: add_unit_def acc Let_def script_simps split: if_splits)
  have kernel: "is_kernel ?n" "kr_file (kernel_of u) = ?n" by (simp_all add: js_def kernel_of_def)
  show ?thesis unfolding unit_inv_def acc' prod.case
  proof (intro impI)
    assume plain: "\<forall>k \<in> set (kernels @ [kernel_of u]). plain_name (kr_file k)"
    then have n: "plain_name ?n" by (simp add: kernel(2))
    then have a: "asset_name ?n" by (simp add: asset_name_def js_def)
    from inv plain have old: "recorded env base assets (wk_disk s)" "\<forall>k \<in> set kernels. mget assets (kr_file k) \<noteq> None"
      "leaves base is_kernel d0 (wk_disk s)" "grows a0 assets" by (auto simp: unit_inv_def acc)
    have "leaves base is_kernel d0 (wk_disk s')" unfolding s' by (rule leaves_write) (use old kernel n base in simp_all)
    then show "recorded env base (mset assets ?n (record_of_bytes env bytes)) (wk_disk s') \<and>
        (\<forall>k \<in> set (kernels @ [kernel_of u]). mget (mset assets ?n (record_of_bytes env bytes)) (kr_file k) \<noteq> None) \<and>
        leaves base is_kernel d0 (wk_disk s') \<and> grows a0 (mset assets ?n (record_of_bytes env bytes))"
      using recorded_write [OF old(1) a base, of bytes] old(2) grows_mset [OF old(4)] by (auto simp: s' kernel(2))
  qed
qed

lemma add_units_done:
  assumes "add_units env project (path_of base) aot a0 s = (s', Inr (assets, kernels))" "recorded env base a0 (wk_disk s)" "\<forall>x \<in> set base. proper x"
  shows "unit_inv env base a0 (wk_disk s) (assets, kernels) s'"
proof (cases "or_else aot [] = []")
  case True
  with assms show ?thesis by (simp add: add_units_def script_simps unit_inv_def)
next
  case False
  with assms(1) obtain path units where run: "for_each (add_unit env (path_of base) path) units (a0, []) s = (s', Inr (assets, kernels))"
    by (auto simp: add_units_def Let_def script_simps split: if_splits)
  show ?thesis
  proof (rule for_each_done [where kept = "unit_inv env base a0 (wk_disk s)", OF run])
    show "unit_inv env base a0 (wk_disk s) (a0, []) s" using assms(2) by (simp add: unit_inv_def)
  qed (use add_unit_step assms(3) in blast)
qed

lemma add_runtime_done [script_simps]:
  "add_runtime env out name assets s = (s', Inr assets') \<longleftrightarrow>
    (\<exists>bytes. pe_bundle env (path_join (pe_repo env) (js ''runtime/luajit/'' @ name @ js ''.mjs'')) (wk_disk s) = Inr bytes \<and>
      s' = s\<lparr>wk_disk := (wk_disk s)(path_join out (name @ js ''.mjs'') := Some bytes), pt_service := True\<rparr> \<and>
      assets' = mset assets (name @ js ''.mjs'') (record_of_bytes env bytes))"
  by (auto simp: add_runtime_def bundle_file_def script_simps)

abbreviation is_runtime :: "jstr \<Rightarrow> bool" where
  "is_runtime m \<equiv> m \<in> set [js ''app-runtime.mjs'', js ''worker-lane.mjs'', js ''browser-worker.mjs'']"

lemma add_runtimes_done:
  assumes run: "for_each (add_runtime env (path_of base)) [js ''app-runtime'', js ''worker-lane'', js ''browser-worker''] a0 s = (s', Inr assets)"
    and rec: "recorded env base a0 (wk_disk s)" and base: "\<forall>x \<in> set base. proper x"
  shows "recorded env base assets (wk_disk s')" "leaves base is_runtime (wk_disk s) (wk_disk s')" "grows a0 assets" "mget assets (js ''worker-lane.mjs'') \<noteq> None"
proof -
  let ?one = "js ''app-runtime.mjs''" and ?two = "js ''worker-lane.mjs''" and ?three = "js ''browser-worker.mjs''"
  have names: "js ''app-runtime'' @ js ''.mjs'' = ?one" "js ''worker-lane'' @ js ''.mjs'' = ?two" "js ''browser-worker'' @ js ''.mjs'' = ?three" by (simp_all add: js_def)
  from run obtain x y z where s': "wk_disk s' = (wk_disk s)(path_join (path_of base) ?one := Some x, path_join (path_of base) ?two := Some y, path_join (path_of base) ?three := Some z)"
    and a: "assets = mset (mset (mset a0 ?one (record_of_bytes env x)) ?two (record_of_bytes env y)) ?three (record_of_bytes env z)"
    by (auto simp: script_simps names)
  have ok: "asset_name ?one" "asset_name ?two" "asset_name ?three" by (simp_all add: asset_name_def plain_name_def proper_def js_def)
  show "recorded env base assets (wk_disk s')" unfolding s' a by (intro recorded_write ok rec base)
  have "plain_name ?one" "plain_name ?two" "plain_name ?three" using ok by (simp_all add: asset_name_def)
  then show "leaves base is_runtime (wk_disk s) (wk_disk s')" unfolding s' by (intro leaves_write base leaves_refl) simp_all
  show "grows a0 assets" unfolding a by (intro grows_mset grows_refl)
  show "mget assets ?two \<noteq> None" unfolding a by simp
qed

abbreviation is_page :: "jstr \<Rightarrow> bool" where
  "is_page \<equiv> prefix (js ''nupp-'')"

lemma copy_pages_done:
  assumes run: "for_each (copy_page_file env (path_of base)) page_files () s = (s', Inr ())"
    and rec: "recorded env base assets (wk_disk s)" and base: "\<forall>x \<in> set base. proper x"
  shows "recorded env base assets (wk_disk s') \<and> leaves base is_page (wk_disk s) (wk_disk s')"
proof (rule for_each_done [where kept = "\<lambda>_ t. recorded env base assets (wk_disk t) \<and> leaves base is_page (wk_disk s) (wk_disk t)", OF run])
  fix f d t t' d'
  assume f: "f \<in> set page_files" and kept: "recorded env base assets (wk_disk t) \<and> leaves base is_page (wk_disk s) (wk_disk t)"
    and "copy_page_file env (path_of base) f d t = (t', Inr d')"
  then obtain bytes where t': "wk_disk t' = (wk_disk t)(path_join (path_of base) (snd f) := Some bytes)" by (auto simp: copy_page_file_def script_simps)
  have name: "plain_name (snd f)" "is_page (snd f)" using f by (auto simp: page_files_def plain_name_def proper_def js_def)
  show "recorded env base assets (wk_disk t') \<and> leaves base is_page (wk_disk s) (wk_disk t')"
    unfolding t' using kept name base by (auto intro: recorded_away leaves_write)
qed (use rec in simp)

section \<open>The whole package\<close>

lemma path_of_snoc: "ss \<noteq> [] \<Longrightarrow> path_of (ss @ [x]) = path_of ss @ 47 # x"
  by (simp add: path_of_def join_append)

lemma path_dirname_of:
  assumes "ss \<noteq> []" "proper x"
  shows "path_dirname (path_of (ss @ [x])) = path_of ss"
proof -
  have "47 \<notin> set (rev x)" using assms(2) by (simp add: proper_def)
  then have "dropWhile (\<lambda>u. u \<noteq> 47) (rev x @ 47 # rev (path_of ss)) = 47 # rev (path_of ss)" by (induction "rev x") (auto simp: dropWhile_append)
  then show ?thesis using assms(1) by (simp add: path_dirname_def path_of_snoc) (simp add: path_of_def)
qed

text \<open>The manifest of the guest is written where the package expects it.\<close>

lemma guest_manifest_path:
  assumes base: "\<forall>x \<in> set base. proper x" and key: "hex64 key"
  shows "manifest_file (path_dirname (path_join (path_of base) (js ''guest/'' @ key @ js ''/guest-manifest.json''))) =
    path_join (path_of base) (js ''guest/'' @ key @ js ''/guest-manifest.json'')"
proof -
  have k: "proper key" using key hex_char_no_slash by (intro proper_long) (auto simp: hex64_def)
  have parts: "proper (js ''guest'')" "proper (js ''guest-manifest.json'')" by (simp_all add: proper_def js_def)
  have "split_on 47 (js ''guest'' @ 47 # key @ 47 # js ''guest-manifest.json'') = [js ''guest'', key, js ''guest-manifest.json'']"
    using k parts by (simp add: split_on_append split_on_free proper_def)
  then have split: "split_on 47 (js ''guest/'' @ key @ js ''/guest-manifest.json'') = [js ''guest'', key, js ''guest-manifest.json'']" by (simp add: js_def)
  have plain: "plain_name (js ''guest/'' @ key @ js ''/guest-manifest.json'')" using guest_name_ok [OF key] by (simp add: asset_name_def)
  have at: "path_join (path_of base) (js ''guest/'' @ key @ js ''/guest-manifest.json'') = path_of ((base @ [js ''guest'', key]) @ [js ''guest-manifest.json''])"
    using path_join_plain [OF base plain] by (simp add: split)
  have "path_join (path_of (base @ [js ''guest'', key])) (js ''guest-manifest.json'') = path_of ((base @ [js ''guest'', key]) @ split_on 47 (js ''guest-manifest.json''))"
    by (rule path_join_plain) (use base k parts in \<open>auto intro: plain_segment\<close>)
  moreover have "split_on 47 (js ''guest-manifest.json'') = [js ''guest-manifest.json'']" using parts by (simp add: split_on_free proper_def)
  moreover have "path_dirname (path_of ((base @ [js ''guest'', key]) @ [js ''guest-manifest.json''])) = path_of (base @ [js ''guest'', key])"
    by (rule path_dirname_of) (use parts in simp_all)
  ultimately show ?thesis unfolding at manifest_file_def by simp
qed

lemma verifyGuest_same: "verifyGuest dig repo dsk dev notices pm = Inr pm' \<Longrightarrow> pm' = pm \<and> supported_manifest (pm_guest pm)"
  by (auto simp: verifyGuest_def Let_def split: if_splits)

lemma compress_keeps_key:
  assumes "for_each (compress_asset env destination) names m s = (s', Inr m')"
  shows "gm_buildKey m' = gm_buildKey m"
  by (rule for_each_done [where kept = "\<lambda>m' _. gm_buildKey m' = gm_buildKey m", OF assms])
    (auto simp: compress_asset_def script_simps add_delivery_def Let_def)

lemma copy_guest_done:
  assumes "copy_guest env source destination s = (s', Inr pm)" "read_manifest (pe_guest env) source s = (s, Inr pm0)"
  shows "wk_disk s' (manifest_file destination) = Some (ge_print (pe_guest env) pm)" "gm_buildKey (pm_guest pm) = gm_buildKey (pm_guest pm0)" "hex64 (gm_buildKey (pm_guest pm0))"
proof -
  from assms obtain s1 s2 s3 pm1 m where steps: "check_guest env source pm0 s = (s1, Inr pm1)"
    "for_each (compress_asset env destination) [js ''assets/v86.wasm'', js ''assets/v86-fallback.wasm''] (pm_guest pm1) s2 = (s3, Inr m)"
    "pm = pm1\<lparr>pm_guest := m\<rparr>" "s' = s3\<lparr>wk_disk := (wk_disk s3)(manifest_file destination := Some (ge_print (pe_guest env) pm))\<rparr>"
    unfolding copy_guest_def by (auto simp only: script_simps prod.inject sum.inject)
  have "pm1 = pm0 \<and> supported_manifest (pm_guest pm0)" using steps(1) verifyGuest_same by (auto simp: check_guest_def)
  then show "hex64 (gm_buildKey (pm_guest pm0))" "gm_buildKey (pm_guest pm) = gm_buildKey (pm_guest pm0)"
    using compress_keeps_key [OF steps(2)] steps(3) by (auto simp: supported_manifest_def)
  show "wk_disk s' (manifest_file destination) = Some (ge_print (pe_guest env) pm)" by (simp add: steps(4))
qed

lemma read_manifest_state: "read_manifest env root s = (s', Inr pm) \<Longrightarrow> s' = s"
  by (auto simp: read_manifest_def script_simps)

text \<open>What holds of a package when it is written.\<close>

definition package_ok :: "pack_env \<Rightarrow> jstr list \<Rightarrow> app_manifest \<Rightarrow> disk \<Rightarrow> bool" where
  "package_ok env base m d \<longleftrightarrow>
    (\<exists>assets used workers pm. mn_assets m = Some assets \<and> recorded env base assets d \<and>
       mget assets (mn_app m) \<noteq> None \<and> mget assets (mn_guest m) \<noteq> None \<and> mget assets (js ''worker-lane.mjs'') \<noteq> None \<and>
       (\<forall>k \<in> set (mn_kernels m). mget assets (kr_file k) \<noteq> None) \<and>
       (\<forall>(f, n) \<in> set (mn_nativeLibraries m). mget assets f \<noteq> None) \<and> libraries_ok base (mn_nativeLibraries m) used d \<and>
       d (path_join (path_of base) (mn_guest m)) = Some (ge_print (pe_guest env) pm) \<and> gm_buildKey (pm_guest pm) = mn_guestBuildKey m \<and> hex64 (mn_guestBuildKey m) \<and>
       mn_limits m = package_limits workers \<and> mn_workers m = (if workers then Some (js ''worker-lane.mjs'', IntV 2) else None) \<and> mn_schema m = IntV 1 \<and> mn_runtime m = js ''luajit-v86'' \<and> mn_delivery m = [])"

lemma write_package_ok:
  assumes run: "write_package env rq project (path_of base) res artifact guest s = (s', Inr m)" and base: "\<forall>x \<in> set base. proper x"
    and dig: "\<And>b. length (ge_digest (pe_guest env) b) = 32" and plain: "\<forall>k \<in> set (mn_kernels m). plain_name (kr_file k)"
  shows "package_ok env base m (wk_disk s')"
proof -
  let ?at = "path_join (path_of base)"
  from run obtain gpm where read: "read_manifest (pe_guest env) guest s = (s, Inr gpm)"
    unfolding write_package_def by (auto simp: andThen_done dest: read_manifest_state)
  define key where "key = gm_buildKey (pm_guest gpm)"
  define gname where "gname = js ''guest/'' @ key @ js ''/guest-manifest.json''"
  from run read obtain s1 s2 s3 s4 s5 s6 pm a0 app a1 a2 libraries used a3 kernels assets where
    steps: "copy_guest env guest (path_dirname (?at gname)) s = (s1, Inr pm)" "record_asset env (path_of base) gname [] s1 = (s1, Inr a0)"
      "write_app env (path_of base) (path_resolve project artifact) a0 s1 = (s2, Inr (app, a1))"
      "for_each (add_library env project (path_of base) (path_join (path_dirname (path_resolve project artifact)) (js ''lib''))) (br_written res) (a1, [], 0) s2 = (s3, Inr (a2, libraries, used))"
      "add_units env project (path_of base) (br_aotManifest res) a2 s3 = (s4, Inr (a3, kernels))"
      "for_each (add_runtime env (path_of base)) [js ''app-runtime'', js ''worker-lane'', js ''browser-worker''] a3 s4 = (s5, Inr assets)"
      "for_each (copy_page_file env (path_of base)) page_files () s5 = (s6, Inr ())"
    and s': "wk_disk s' = (wk_disk s6)(?at (js ''nupp-browser-app.json'') := Some (pe_text env (pr_target rq) m))"
    and m: "mn_app m = app" "mn_guest m = gname" "mn_guestBuildKey m = key" "mn_kernels m = kernels" "mn_nativeLibraries m = libraries" "mn_assets m = Some assets" "mn_delivery m = []"
      "mn_schema m = IntV 1" "mn_runtime m = js ''luajit-v86''" "mn_limits m = package_limits (needs_workers (br_written res))"
      "mn_workers m = (if needs_workers (br_written res) then Some (js ''worker-lane.mjs'', IntV 2) else None)"
    unfolding write_package_def key_def gname_def Let_def
    by (auto simp: script_simps split: prod.splits)
  note guest = copy_guest_done [OF steps(1) read]
  have hex: "hex64 key" using guest(3) by (simp add: key_def)
  have gname: "asset_name gname" "plain_name gname" using guest_name_ok [OF hex] by (simp_all add: gname_def asset_name_def)
  have apart: "\<not> is_native gname" "\<not> is_kernel gname" "\<not> is_runtime gname" "\<not> is_page gname" by (auto simp: gname_def js_def)
  have g1: "wk_disk s1 (?at gname) = Some (ge_print (pe_guest env) pm)" using guest(1) guest_manifest_path [OF base hex] by (simp add: gname_def)
  from steps(2) g1 have a0: "a0 = mset [] gname (record_of_bytes env (ge_print (pe_guest env) pm))" by (auto simp: script_simps)
  have r0: "recorded env base a0 (wk_disk s1)" unfolding recorded_def a0 using g1 gname(1) by (auto split: if_splits)
  from steps(3) obtain code where app: "app = js ''app-'' @ take 16 (digest env code) @ js ''.lua''" and s2: "wk_disk s2 = (wk_disk s1)(?at app := Some code)"
    and a1: "a1 = mset a0 app (record_of_bytes env code)" by (auto simp: write_app_def Let_def script_simps)
  have "asset_name app" unfolding app by (rule app_name_ok)
  then have r1: "recorded env base a1 (wk_disk s2)" unfolding a1 s2 by (rule recorded_write [OF r0 _ base])
  have "app \<noteq> gname" by (simp add: app gname_def js_def)
  then have g2: "wk_disk s2 (?at gname) = wk_disk s1 (?at gname)" using path_join_inject [OF base gname(2), of app] \<open>asset_name app\<close> by (auto simp: s2 asset_name_def)
  from add_libraries_done [OF steps(4) r1 base dig] have l: "recorded env base a2 (wk_disk s3)" "libraries_ok base libraries used (wk_disk s3)"
    "\<forall>(f, n) \<in> set libraries. mget a2 f \<noteq> None" "leaves base is_native (wk_disk s2) (wk_disk s3)" "grows a1 a2" by (simp_all add: library_inv_def)
  from add_units_done [OF steps(5) l(1) base] plain m(4) have u: "recorded env base a3 (wk_disk s4)" "\<forall>k \<in> set kernels. mget a3 (kr_file k) \<noteq> None"
    "leaves base is_kernel (wk_disk s3) (wk_disk s4)" "grows a2 a3" by (simp_all add: unit_inv_def)
  note r = add_runtimes_done [OF steps(6) u(1) base]
  note c = copy_pages_done [OF steps(7) r(1) base]
  have json: "plain_name (js ''nupp-browser-app.json'')" "is_page (js ''nupp-browser-app.json'')" by (simp_all add: plain_name_def proper_def js_def)
  have r': "recorded env base assets (wk_disk s')" unfolding s' using c json base by (intro recorded_away) simp_all
  have page: "leaves base is_page (wk_disk s5) (wk_disk s')" unfolding s' using c json base by (intro leaves_write) simp_all
  have grow: "grows a1 assets" "grows a2 assets" "grows a3 assets" using grows_trans l(5) u(4) r(3) by blast+
  have "libraries_ok base libraries used (wk_disk s')"
    by (rule libraries_ok_leaves [OF libraries_ok_leaves [OF libraries_ok_leaves [OF l(2) u(3)] r(2)] page]) (auto simp: js_def prefix_def)
  moreover have "wk_disk s' (?at gname) = Some (ge_print (pe_guest env) pm)"
    using g1 g2 l(4) u(3) r(2) page apart gname(2) by (auto simp: leaves_def)
  moreover have "mget assets app \<noteq> None" "mget assets gname \<noteq> None" using grow(1) by (auto simp: grows_def a1 a0)
  moreover have "\<forall>k \<in> set kernels. mget assets (kr_file k) \<noteq> None" "\<forall>(f, n) \<in> set libraries. mget assets f \<noteq> None"
    using grow(2,3) u(2) l(3) by (auto simp: grows_def)
  ultimately show ?thesis unfolding package_ok_def m using r' r(4) guest(2) hex by (auto simp: key_def)
qed

section \<open>Properties\<close>

text \<open>Where a request writes its package, and the segments of that path.\<close>

definition package_output :: "pack_env \<Rightarrow> pack_request \<Rightarrow> jstr" where
  "package_output env rq =
    path_resolve (pe_cwd env) (or_else (pr_output rq) (path_join (path_resolve (pe_cwd env) (or_else (pr_project rq) dot)) (js ''build/browser'')))"

definition package_segments :: "pack_env \<Rightarrow> pack_request \<Rightarrow> jstr list" where
  "package_segments env rq = filter (\<lambda>x. x \<noteq> []) (split_on 47 (package_output env rq))"

lemma package_segments: "path_of (package_segments env rq) = package_output env rq" "\<forall>x \<in> set (package_segments env rq). proper x"
proof -
  obtain base where base: "\<forall>x \<in> set base. proper x" "package_output env rq = path_of base" using path_resolve_base unfolding package_output_def by blast
  have "filter (\<lambda>x. x \<noteq> []) base = base" using base(1) by (intro filter_True) (auto simp: proper_def)
  then have "package_segments env rq = base"
    using base by (cases "base = []") (simp_all add: package_segments_def split_path_of, simp add: path_of_def)
  then show "path_of (package_segments env rq) = package_output env rq" "\<forall>x \<in> set (package_segments env rq). proper x" using base by simp_all
qed

lemma packageBrowserApp_ok:
  assumes run: "packageBrowserApp env rq s = (s', Inr m)" and dig: "\<And>b. length (ge_digest (pe_guest env) b) = 32" and plain: "\<forall>k \<in> set (mn_kernels m). plain_name (kr_file k)"
  shows "package_ok env (package_segments env rq) m (wk_disk s')"
proof -
  from run obtain s1 s2 project res artifact guest where "write_package env rq project (package_output env rq) res artifact guest s1 = (s2, Inr m)" and s': "wk_disk s' = wk_disk s2"
    by (auto simp: packageBrowserApp_def packageWithService_def package_output_def Let_def script_simps split: option.splits if_splits)
  then have "write_package env rq project (path_of (package_segments env rq)) res artifact guest s1 = (s2, Inr m)" by (simp add: package_segments)
  from write_package_ok [OF this package_segments(2) dig plain] show ?thesis by (simp add: s')
qed

lemma written_manifest:
  assumes run: "packageBrowserApp env rq s = (s', Inr m)"
  shows "wk_disk s' (path_join (package_output env rq) (js ''nupp-browser-app.json'')) = Some (pe_text env (pr_target rq) m)"
proof -
  from run obtain s1 s2 project res artifact guest where w: "write_package env rq project (package_output env rq) res artifact guest s1 = (s2, Inr m)" and s': "wk_disk s' = wk_disk s2"
    by (auto simp: packageBrowserApp_def packageWithService_def package_output_def Let_def script_simps split: option.splits if_splits)
  from w have "wk_disk s2 (path_join (package_output env rq) (js ''nupp-browser-app.json'')) = Some (pe_text env (pr_target rq) m)"
    unfolding write_package_def Let_def by (auto simp: script_simps split: prod.splits)
  then show ?thesis by (simp add: s')
qed

lemma copy_guest_rest [keeps_rest]: "keeps_rest (copy_guest env source destination)"
proof -
  have "keeps_rest (check_guest env source pm)" for pm by (simp add: keeps_rest_def check_guest_def)
  then show ?thesis unfolding copy_guest_def copy_asset_def compress_asset_def by (intro keeps_rest)
qed

text \<open>However packaging ends, the bundler's service is stopped.\<close>

theorem service_stopped: "\<not> pt_service (fst (packageBrowserApp env rq s))"
  by (simp add: packageBrowserApp_def cleaning_def split: prod.splits)

end
