(* ===== verification/PackageLoads.thy ===== *)
theory PackageLoads
  imports Packager
begin

text \<open>
  The two ends of a package: what \<open>Packager\<close> writes below its output, served as static files, is what \<open>Packaged\<close> loads.
\<close>

section \<open>Loading what was packaged\<close>


















section \<open>Properties\<close>

































end
