(* ===== verification/SitePages.thy ===== *)
theory SitePages
  imports PackageLoads
begin

text \<open>
  The pages of the web site: \<^verbatim>\<open>src/editors/playground/tools/prepare-luajit.mjs\<close> packs the compiler and the runtime of programs for the workers of the pages,
  \<^verbatim>\<open>src/editors/playground/build.mjs\<close> builds the playground around them, and \<^verbatim>\<open>src/scripts/build-pages.mjs\<close> puts documentation and playground into one directory.
\<close>

section \<open>Environment\<close>

text \<open>What the build tells the workers: names, digests and sizes of the packed programs.\<close>

record luajit_assets =
  la_guestManifest :: jstr
  la_compiler :: jstr
  la_compilerSha256 :: jstr
  la_compilerBytes :: nat
  la_compilerDecodedBytes :: nat
  la_appRuntime :: jstr
  la_appRuntimeSha256 :: jstr
  la_appRuntimeBytes :: nat
  la_appRuntimeDecodedBytes :: nat

text \<open>
  \<open>si_run\<close> runs a command with arguments in a directory and gives what it printed; \<open>si_list\<close> are the files of a directory, with those of its directories if asked;
  \<open>si_utf8\<close> decodes a file as text; \<open>si_bundle\<close> is the bundler with an entry, an output and the assets it defines; JSON texts are printed and parsed by parameters.
\<close>

record site_env =
  si_pack :: pack_env
  si_run :: "jstr \<Rightarrow> jstr list \<Rightarrow> jstr \<Rightarrow> disk \<Rightarrow> disk \<times> byte list result"
  si_list :: "jstr \<Rightarrow> bool \<Rightarrow> disk \<Rightarrow> jstr list"
  si_utf8 :: "byte list \<Rightarrow> jstr"
  si_bundle :: "jstr \<Rightarrow> jstr \<Rightarrow> luajit_assets option \<Rightarrow> disk \<Rightarrow> disk \<times> unit result"
  si_print :: "luajit_assets \<Rightarrow> byte list"
  si_parse :: "byte list \<Rightarrow> luajit_assets result"




text \<open>\<^verbatim>\<open>rmSync\<close> with \<^verbatim>\<open>force\<close> and \<^verbatim>\<open>recursive\<close>.\<close>

definition removeTree :: "jstr \<Rightarrow> ('m work_scheme, unit) script" where
  "removeTree dir s = (s\<lparr>wk_disk := (\<lambda>p. if p = dir \<or> prefix (dir @ [47]) p then None else wk_disk s p)\<rparr>, Inr ())"

section \<open>The packed programs\<close>









section \<open>The playground\<close>






section \<open>The site\<close>

definition htmlFiles :: "site_env \<Rightarrow> jstr \<Rightarrow> bool \<Rightarrow> disk \<Rightarrow> jstr list" where
  "htmlFiles env dir recursive d = filter (suffix (js ''.html'')) (si_list env dir recursive d)"

definition socialMetadata :: jstr where \<open>
  socialMetadata = concat [
    js ''<meta property="og:type" content="website">'',
    js ''<meta property="og:site_name" content="Nupp">'',
    js ''<meta property="og:image" content="https://nupp.org/images/og.png">'',
    js ''<meta property="og:image:width" content="1731">'',
    js ''<meta property="og:image:height" content="909">'',
    js ''<meta property="og:image:alt" content="Nupp '' @ [0x2014] @ js '' LuaJIT with static guarantees.">'',
    js ''<meta name="twitter:card" content="summary_large_image">'',
    js ''<meta name="twitter:image" content="https://nupp.org/images/og.png">'']\<close>

definition add_metadata :: "jstr \<Rightarrow> jstr" where
  "add_metadata html =
    (case find_text (js ''</head>'') html of None \<Rightarrow> html | Some (before, after) \<Rightarrow> before @ socialMetadata @ js ''</head>'' @ after)"

definition decorate :: "site_env \<Rightarrow> jstr \<Rightarrow> unit \<Rightarrow> ('m work_scheme, unit) script" where
  "decorate env f _ = andThen (readFile f) (\<lambda>bytes. writeFile f (encode_text (add_metadata (si_utf8 env bytes))))"

definition addSocialMetadata :: "site_env \<Rightarrow> jstr \<Rightarrow> bool \<Rightarrow> ('m work_scheme, unit) script" where
  "addSocialMetadata env dir recursive s = for_each (decorate env) (htmlFiles env dir recursive (wk_disk s)) () s"





section \<open>Commands\<close>





section \<open>Paths and trees\<close>








section \<open>Pages\<close>






lemma decorate_rest [keeps_rest]: "keeps_rest (decorate env f u)"
  unfolding decorate_def by (intro keeps_rest)

lemma pages_rest [keeps_rest]: "keeps_rest (removeTree dir)" "keeps_rest (addSocialMetadata env dir recursive)"
proof -
  show "keeps_rest (removeTree dir)" by (simp add: keeps_rest_def removeTree_def)
  show "keeps_rest (addSocialMetadata env dir recursive)"
    unfolding keeps_rest_def addSocialMetadata_def by (rule allI) (rule keeps_rest_for_each [OF decorate_rest, unfolded keeps_rest_def, rule_format])
qed




section \<open>The playground's files\<close>




















section \<open>Properties\<close>





text \<open>A site whose programs leave every file with one byte and no static files, and print a program of two bytes.\<close>

definition bare_disk :: disk where
  "bare_disk p = (if prefix (js ''/r/editors/playground/static'') p then None else Some [1])"




















lemma bare_disk_file: "\<not> prefix (js ''/r/editors/playground/static'') p \<Longrightarrow> bare_disk p = Some [1]"
  by (simp add: bare_disk_def)









end
