(* ===== verification/AppWorker.thy ===== *)
theory AppWorker
  imports Application Assets CompilerQueue
begin

text \<open>
  The worker that runs a program of the playground and of the documentation, \<^verbatim>\<open>src/editors/playground/src/luajit-app-worker.js\<close>: it takes one program, loads the runtime that
  is packed beside it, and hands both to \<^verbatim>\<open>runNuppLuaJITApp\<close> with limits for the turn and for the whole run. The run itself is the one of \<open>Application\<close>.
\<close>

section \<open>The worker\<close>











section \<open>What may happen\<close>



section \<open>The invariant\<close>

text \<open>The limits of a run never change.\<close>

lemma end_run_limits [simp]: "rn_budgets (end_run fs res r) = rn_budgets r"
  by (simp add: end_run_def)













section \<open>Properties\<close>




end
