(* ===== verification/PlayMenu.thy ===== *)
theory PlayMenu
  imports Playground
begin

text \<open>
  What surrounds the editor of the playground, \<^verbatim>\<open>src/editors/playground/src/app.js\<close>: the options and their menu, the links to share and to open, the output panel's toggle and the
  rows of the diagnostics list, around the requests of \<open>Playground\<close>.
\<close>

section \<open>Rows of diagnostics\<close>

text \<open>A row: its class, its place, its code, its message and the help below it, if any; without diagnostics there is one row that says so.\<close>

datatype diagnostic_row = EmptyRow | Row string jstr jstr jstr "jstr option"

definition row_of :: "diagnosis \<Rightarrow> diagnostic_row" where
  "row_of d = Row (''diagnostic diagnostic-'' @ (if dg_severity d \<noteq> '''' then dg_severity d else ''error'')) (decimal_int (dg_line d) @ js '':'' @ decimal_int (dg_col d))
     (dg_code d) (dg_msg d) (if dg_help d = [] then None else Some (dg_help d))"

definition renderDiagnostics :: "diagnosis list \<Rightarrow> diagnostic_row list" where
  "renderDiagnostics ds = (if ds = [] then [EmptyRow] else map row_of ds)"

section \<open>The page\<close>

text \<open>
  What the page relies on: where it is, how JSON prints the options, and whether the browser refuses storage. \<open>mu_stored\<close> is the item of the local storage,
  \<open>mu_touched\<close> only records that the reader changed an option here.
\<close>

record page_place =
  pp_origin :: jstr
  pp_path :: jstr
  pp_stringify :: "option_table \<Rightarrow> jstr"
  pp_refused :: bool

record play_menu =
  mu_play :: play
  mu_options :: play_options
  mu_stored :: "jstr option"
  mu_touched :: bool
  mu_panel :: bool
  mu_href :: jstr
  mu_clipboard :: "jstr option"
  mu_hash :: jstr

text \<open>Opening the page: the program and the options come from the fragment and from the storage.\<close>

definition open_page :: "(jstr \<Rightarrow> table_argument result) \<Rightarrow> bool \<Rightarrow> jstr \<Rightarrow> jstr \<Rightarrow> jstr option \<Rightarrow> play_menu" where
  "open_page parse refused example hash stored =
    (let params = fragmentParams hash in
     \<lparr>mu_play = new_play (start_source example params),
      mu_options = restoreOptions (params_table params) (ObjectTable (storedOptions parse (if refused then throw ''SecurityError'' else Inr stored))),
      mu_stored = stored, mu_touched = False, mu_panel = False, mu_href = js ''/playground/'', mu_clipboard = None, mu_hash = hash\<rparr>)"

definition save_options :: "page_place \<Rightarrow> play_menu \<Rightarrow> play_menu" where
  "save_options env m = m\<lparr>mu_stored := saveOptions (pp_stringify env) (pp_refused env) (mu_options m) (mu_stored m), mu_touched := True\<rparr>"

text \<open>The two boxes of the menu. Compatibility is checked again at once, optimization shows in the next compilation.\<close>

definition set_compat :: "page_place \<Rightarrow> bool \<Rightarrow> play_menu \<Rightarrow> play_menu" where
  "set_compat env checked m =
    (let m1 = save_options env (m\<lparr>mu_options := (mu_options m)\<lparr>po_compat := (if checked then Some (js ''lua51'') else None)\<rparr>\<rparr>) in
     m1\<lparr>mu_play := checkNow (mu_play m1)\<rparr>)"

definition set_optimize :: "page_place \<Rightarrow> bool \<Rightarrow> play_menu \<Rightarrow> play_menu" where
  "set_optimize env checked m = save_options env (m\<lparr>mu_options := (mu_options m)\<lparr>po_optimize := checked\<rparr>\<rparr>)"

text \<open>A click elsewhere closes the menu unless it is inside it or on its button.\<close>

definition click_document :: "bool \<Rightarrow> play_menu \<Rightarrow> play_menu" where
  "click_document inside m = (if \<not> mu_panel m \<or> inside then m else m\<lparr>mu_panel := False\<rparr>)"

definition fragmentFor :: "play_menu \<Rightarrow> jstr result" where
  "fragmentFor m = sourceFragment (pl_doc (mu_play m)) (mu_options m)"

definition click_open :: "play_menu \<Rightarrow> play_menu" where
  "click_open m = (case fragmentFor m of Inl e \<Rightarrow> m | Inr fragment \<Rightarrow> m\<lparr>mu_href := js ''/playground/'' @ fragment\<rparr>)"

text \<open>
  Sharing is a click and the answer of the clipboard: the link that is copied is the one of the click, the link put into the address is made again when the clipboard refuses,
  so the event stands for the click in one case and for the refusal in the other.
\<close>

definition click_share :: "page_place \<Rightarrow> bool \<Rightarrow> play_menu \<Rightarrow> play_menu" where
  "click_share env copied m =
    (case fragmentFor m of
       Inl e \<Rightarrow> m
     | Inr fragment \<Rightarrow>
        if copied then m\<lparr>mu_clipboard := Some (pp_origin env @ pp_path env @ fragment), mu_play := setStatus (js ''link copied'') False (mu_play m)\<rparr>
        else m\<lparr>mu_hash := fragment, mu_play := setStatus (js ''link is in the address bar'') False (mu_play m)\<rparr>)"

definition toggle_output :: "play_menu \<Rightarrow> play_menu" where
  "toggle_output m = m\<lparr>mu_play := (mu_play m)\<lparr>pl_expanded := \<not> pl_expanded (mu_play m)\<rparr>\<rparr>"

datatype menu_event =
    Plays play_event
  | ChecksCompat bool
  | ChecksOptimize bool
  | ClicksOptions
  | ClicksDocument bool
  | PressesKey bool  \<comment> \<open>whether it is Escape\<close>
  | ClicksOpen
  | ClicksShare bool
  | TogglesOutput

fun menu_step :: "page_place \<Rightarrow> menu_event \<Rightarrow> play_menu \<Rightarrow> play_menu" where
  "menu_step env (Plays e) m = m\<lparr>mu_play := play_step e (mu_play m)\<rparr>"
| "menu_step env (ChecksCompat checked) m = set_compat env checked m"
| "menu_step env (ChecksOptimize checked) m = set_optimize env checked m"
| "menu_step env ClicksOptions m = m\<lparr>mu_panel := \<not> mu_panel m\<rparr>"
| "menu_step env (ClicksDocument inside) m = click_document inside m"
| "menu_step env (PressesKey escape) m = (if escape then m\<lparr>mu_panel := False\<rparr> else m)"
| "menu_step env ClicksOpen m = click_open m"
| "menu_step env (ClicksShare copied) m = click_share env copied m"
| "menu_step env TogglesOutput m = toggle_output m"

section \<open>The invariant\<close>

text \<open>The options are ones a link can carry, what the reader chose is stored unless storage is refused, and the page's requests stay in order.\<close>

definition menu_ok :: "page_place \<Rightarrow> play_menu \<Rightarrow> bool" where
  "menu_ok env m \<longleftrightarrow> settable (mu_options m) \<and> play_ok (mu_play m) \<and>
     (mu_touched m \<and> \<not> pp_refused env \<longrightarrow> mu_stored m = Some (pp_stringify env (options_table (mu_options m))))"

lemma play_ok_screen: "play_ok (setStatus t b p) = play_ok p" "play_ok (p\<lparr>pl_expanded := x\<rparr>) = play_ok p"
  by (simp_all add: play_ok_def play_core_def play_frame_def outstanding_def setStatus_def)

lemma checkNow_play_ok: "play_ok p \<Longrightarrow> play_ok (checkNow p)"
  using pl.inv_step [of p ChangesOption] by simp

lemma menu_step_ok: "menu_ok env m \<Longrightarrow> menu_ok env (menu_step env e m)"
  by (cases e)
    (auto simp: menu_ok_def set_compat_def set_optimize_def save_options_def saveOptions_def settable_def click_document_def click_open_def click_share_def toggle_output_def Let_def
      play_ok_screen checkNow_play_ok pl.inv_step split: sum.splits)

interpretation mu: machine "menu_step env" "menu_ok env" for env
  by unfold_locales (rule menu_step_ok)

lemma open_page_ok: "menu_ok env (open_page parse refused example hash stored)"
proof -
  have "play_ok (new_play (start_source example (fragmentParams hash)))" using play_after_ok [of "[]"] by simp
  then show ?thesis by (simp add: menu_ok_def open_page_def restore_settable Let_def)
qed

abbreviation menu_after :: "page_place \<Rightarrow> menu_event list \<Rightarrow> play_menu \<Rightarrow> play_menu" where
  "menu_after env es m \<equiv> run_events (menu_step env) es m"

section \<open>Properties\<close>

lemma restore_named:
  assumes "settable opts"
  shows "restoreOptions (params_table named) (ObjectTable (options_table opts)) =
    \<lparr>po_optimize = (case mget named (js ''optimize'') of Some v \<Rightarrow> v = js ''1'' | None \<Rightarrow> po_optimize opts),
     po_compat = (case mget named (js ''compat'') of Some v \<Rightarrow> if v = js ''lua51'' then Some v else None | None \<Rightarrow> po_compat opts)\<rparr>"
proof -
  let ?o = "mget named (js ''optimize'')" and ?c = "mget named (js ''compat'')"
  let ?p = "concat (map (\<lambda>k. case mget named (js k) of None \<Rightarrow> [] | Some v \<Rightarrow> [(k, TextValue v)]) [''optimize'', ''compat''])"
  have params: "mget ?p ''optimize'' = map_option TextValue ?o" "mget ?p ''compat'' = map_option TextValue ?c"
    by (cases ?o; cases ?c; simp add: mget_Cons)+
  have saved: "mget (options_table opts) ''optimize'' = Some (BoolValue (po_optimize opts))" "mget (options_table opts) ''compat'' = map_option TextValue (po_compat opts)"
    by (simp_all add: options_table_def mget_Cons split: option.splits)
  show ?thesis
    unfolding restoreOptions_def params_table_def record_of.simps Let_def params saved
    using assms by (cases ?o; cases ?c; cases "po_compat opts") (auto simp: settable_def)
qed

text \<open>C25. The options a reader chose are there the next time, unless the address says otherwise: after any use of the page in which an option was changed, opening the page again, with any fragment, its own or
  another one, gives each option the value the fragment names for it, and where the fragment names none the value the page had. It relies on a storage that takes the options and on JSON that reads back what
  it printed for them.
\<close>

theorem options_survive_reload:
  assumes "mu_touched (menu_after env es (open_page parse (pp_refused env) example hash stored))" and "\<not> pp_refused env"
    and json: "\<And>opts. settable opts \<Longrightarrow> pp_stringify env (options_table opts) \<noteq> [] \<and> parse (pp_stringify env (options_table opts)) = Inr (ObjectTable (options_table opts))"
  shows "let m = menu_after env es (open_page parse (pp_refused env) example hash stored); named = fragmentParams fragment in
    mu_options (open_page parse (pp_refused env) example fragment (mu_stored m)) =
      \<lparr>po_optimize = (case mget named (js ''optimize'') of Some v \<Rightarrow> v = js ''1'' | None \<Rightarrow> po_optimize (mu_options m)),
       po_compat = (case mget named (js ''compat'') of Some v \<Rightarrow> if v = js ''lua51'' then Some v else None | None \<Rightarrow> po_compat (mu_options m))\<rparr>"
proof -
  let ?m = "menu_after env es (open_page parse (pp_refused env) example hash stored)"
  have "menu_ok env ?m" by (rule mu.inv_run [OF open_page_ok])
  then have ok: "settable (mu_options ?m)" "mu_stored ?m = Some (pp_stringify env (options_table (mu_options ?m)))" using assms(1,2) by (auto simp: menu_ok_def)
  have stored: "storedOptions parse (Inr (mu_stored ?m)) = options_table (mu_options ?m)" using json [OF ok(1)] by (simp add: storedOptions_def ok(2))
  have opened: "mu_options (open_page parse (pp_refused env) example fragment item) =
      restoreOptions (params_table (fragmentParams fragment)) (ObjectTable (storedOptions parse (Inr item)))" for item
    using assms(2) by (simp add: open_page_def Let_def)
  have "mu_options (open_page parse (pp_refused env) example fragment (mu_stored ?m)) =
      restoreOptions (params_table (fragmentParams fragment)) (ObjectTable (options_table (mu_options ?m)))"
    unfolding opened stored ..
  then show ?thesis unfolding Let_def by (simp only: restore_named [OF ok(1)])
qed

text \<open>A browser with a storage whose JSON knows the four tables a page can hold.\<close>

definition sample_stringify :: "option_table \<Rightarrow> jstr" where
  "sample_stringify t = (if mget t ''optimize'' = Some (BoolValue True) then 1 else 2) # (if mget t ''compat'' = None then [] else [3])"

definition sample_parse :: "jstr \<Rightarrow> table_argument result" where
  "sample_parse t = Inr (if t = js ''{}'' then ObjectTable []
     else ObjectTable (options_table \<lparr>po_optimize = (take 1 t = [1]), po_compat = (if length t = 2 then Some (js ''lua51'') else None)\<rparr>))"

definition sample_place :: page_place where
  "sample_place = \<lparr>pp_origin = js ''https://nupp.dev'', pp_path = js ''/playground/'', pp_stringify = sample_stringify, pp_refused = False\<rparr>"

theorem options_survive_reload_witness:
  "mu_options (open_page sample_parse False [] [] (mu_stored (menu_after sample_place [ChecksOptimize False] (open_page sample_parse False [] [] None)))) =
     \<lparr>po_optimize = False, po_compat = None\<rparr> \<and>
   mu_options (open_page sample_parse False [] (js ''#optimize=1'') (mu_stored (menu_after sample_place [ChecksOptimize False] (open_page sample_parse False [] [] None)))) =
     \<lparr>po_optimize = True, po_compat = None\<rparr>"
proof -
  let ?m = "menu_after sample_place [ChecksOptimize False] (open_page sample_parse (pp_refused sample_place) [] [] None)"
  have json: "pp_stringify sample_place (options_table opts) \<noteq> [] \<and> sample_parse (pp_stringify sample_place (options_table opts)) = Inr (ObjectTable (options_table opts))"
    if "settable opts" for opts
    using that by (cases opts) (auto simp: settable_def sample_place_def sample_stringify_def sample_parse_def options_table_def mget_Cons js_def)
  have touched: "mu_touched ?m" and kept: "\<not> pp_refused sample_place"
    by (simp_all add: set_optimize_def save_options_def sample_place_def)
  have chosen: "mu_options ?m = \<lparr>po_optimize = False, po_compat = None\<rparr>"
    by (simp add: set_optimize_def save_options_def sample_place_def open_page_def Let_def restoreOptions_def params_table_def fragmentParams_def add_pair_def storedOptions_def sample_parse_def
        DEFAULT_OPTIONS_def)
  have "fragmentParams [] = []" by (simp add: fragmentParams_def add_pair_def)
  moreover have "fragmentParams (js ''#optimize=1'') = [(js ''optimize'', js ''1'')]" by code_simp
  ultimately show ?thesis
    using options_survive_reload [OF touched kept json, of "[]"] options_survive_reload [OF touched kept json, of "js ''#optimize=1''"] chosen kept
    by (simp add: mget_Cons js_def)
qed

text \<open>C22. A link that is shared opens what the reader sees: after any use of the page a click on Share puts a link into the clipboard whose fragment opens the page with the text in the editor
  and the options of the menu, whatever the recipient has saved.
\<close>

theorem shared_link_opens_what_is_shown:
  assumes "menu_after env es (open_page parse refused example hash stored) = m" and "fragmentFor m = Inr fragment" and "\<forall>u \<in> set (pl_doc (mu_play m)). u < 65536"
  shows "mu_clipboard (menu_step env (ClicksShare True) m) = Some (pp_origin env @ pp_path env @ fragment) \<and>
    pl_doc (mu_play (open_page parse' refused' example' fragment stored')) = pl_doc (mu_play m) \<and>
    mu_options (open_page parse' refused' example' fragment stored') = mu_options m"
proof -
  have "menu_ok env m" unfolding assms(1) [symmetric] by (rule mu.inv_run [OF open_page_ok])
  then have "settable (mu_options m)" by (simp add: menu_ok_def)
  from link_opens [OF assms(2) [unfolded fragmentFor_def] this assms(3)] show ?thesis
    by (simp add: click_share_def assms(2) open_page_def new_play_def Let_def)
qed

theorem shared_link_opens_what_is_shown_witness:
  "\<exists>fragment. mu_clipboard (menu_step sample_place (ClicksShare True) (open_page sample_parse False (js ''x'') [] None)) = Some (js ''https://nupp.dev'' @ js ''/playground/'' @ fragment) \<and>
     pl_doc (mu_play (open_page sample_parse True [] fragment None)) = js ''x''"
proof -
  let ?m = "open_page sample_parse False (js ''x'') [] None"
  have doc: "pl_doc (mu_play ?m) = js ''x''" by (simp add: open_page_def Let_def new_play_def start_source_def fragmentParams_def add_pair_def)
  have "isWellFormed (js ''x'')" by (simp add: js_def high_surrogate_def low_surrogate_def)
  with doc obtain fragment where f: "fragmentFor ?m = Inr fragment" by (auto simp: fragmentFor_def sourceFragment_def Let_def encodeURIComponent_def)
  have here: "menu_after sample_place [] ?m = ?m" by simp
  have place: "pp_origin sample_place = js ''https://nupp.dev''" "pp_path sample_place = js ''/playground/''" by (simp_all add: sample_place_def)
  have small: "\<forall>u \<in> set (pl_doc (mu_play ?m)). u < 65536" unfolding doc by (simp add: js_def)
  from shared_link_opens_what_is_shown [OF here f small, of sample_parse True "[]" None]
  show ?thesis unfolding place doc by blast
qed

end
