(* ===== verification/Spec2Isabelle.thy ===== *)
theory Spec2Isabelle
  imports Transfers Channel_Protocol Codec Base64 Host_Requests Channel_Table Pool_Protocol Files Http Gpu AppRuntime
    Audio VmWorker WorkerLane BrowserApp Packaged DocPage PlayPage Highlight Artifacts EditorClients EditorCommands TestReports Launch Servers
    PackageLoads SitePages AppWorker PlayMenu
begin

text \<open>
  A verification of the JavaScript parts of Nupp: the browser runtime under \<^verbatim>\<open>src/runtime/wasm\<close> and \<^verbatim>\<open>src/runtime/luajit\<close>, the playground and the
  documentation pages under \<^verbatim>\<open>src/editors/playground\<close>, the editor extension \<^verbatim>\<open>src/editors/vscode/extension.js\<close>, the packager of applications, and
  the small file servers of the scripts.

  \<^bold>\<open>The program.\<close> A Nupp application runs as LuaJIT inside an emulated guest, in a worker of the page. The guest asks for effects
  (files, HTTP, time, GPU, messages to the page, worker tasks, Wasm kernels) in frames; the runtime performs them and answers each frame. Bytes cross in
  transfer leases. The page and its workers talk over numbered calls and over bounded channels, and a pool of lanes runs worker tasks.
  An application reaches the page as a package: the packager writes its files with a manifest of sizes and digests, and the runtime loads only what matches it.
  The playground and every snippet of the documentation edit a program and send checks, compilations and hovers to a compiler in a worker, which is itself such an application;
  a program that compiled runs in a worker of its own. The editor extension starts one language server per folder and adds views of the generated code, test runs and commands.

  \<^bold>\<open>Theories and sources.\<close> Each theory holds the data, the operations in the order of the code, their invariant and their
  properties.

  \<^item> \<open>Prelude\<close>: JavaScript numbers, strings, errors and insertion-ordered maps; shared lemmas; the locale \<open>ordered_map\<close>.
  \<^item> \<open>Transfers\<close> (\<^verbatim>\<open>transfers.mjs\<close>): the lease table of a frame, behind the locale \<open>lease_table\<close>.
  \<^item> \<open>Channel\<close>, \<open>Channel_Protocol\<close> (\<^verbatim>\<open>channel.mjs\<close>): a channel endpoint, and the pair of endpoints with the packets in flight as a step relation.
    An endpoint that was moved is off its port, which goes on dispatching, until it is transferred and adopted: a packet dispatched in between is lost.
  \<^item> \<open>Codec\<close>, \<open>Base64\<close>: byte readers and writers, UTF-8, base64, hexadecimal text.
  \<^item> \<open>HostChannel\<close>, \<open>Host_Protocol\<close>, \<open>Host_Requests\<close> (\<^verbatim>\<open>host-channel.mjs\<close>): requests, answers, uploads and messages between the
    application and the page's handlers.
  \<^item> \<open>ChannelHost\<close>, \<open>Channel_Table\<close> (\<^verbatim>\<open>channel-host.mjs\<close>): the table of endpoints a realm holds, with supervisors that revoke them.
  \<^item> \<open>WorkerPool\<close>, \<open>Pool_Protocol\<close> (\<^verbatim>\<open>worker-pool.mjs\<close>) and \<open>WorkerLane\<close> (\<^verbatim>\<open>worker-lane.mjs\<close>): the two ends of worker tasks.
  \<^item> \<open>Effect_Base\<close>, \<open>Files\<close>, \<open>Http\<close>, \<open>Gpu\<close>, \<open>AppRuntime\<close> (\<^verbatim>\<open>wasm/app-runtime.mjs\<close>): the effects and the loop that answers frames.
  \<^item> \<open>GuestHost\<close> (\<^verbatim>\<open>host.mjs\<close>) and \<open>VmWorker\<close> (\<^verbatim>\<open>vm-worker.mjs\<close>): the owner of the emulated guest and the worker it runs in.
  \<^item> \<open>Assets\<close> (\<^verbatim>\<open>assets.mjs\<close>, \<^verbatim>\<open>package-assets.mjs\<close>), \<open>Native\<close> (\<^verbatim>\<open>native.mjs\<close>), \<open>Aot\<close> (\<^verbatim>\<open>aot.mjs\<close>): what a guest and an application are loaded from.
  \<^item> \<open>AppLimits\<close>, \<open>Application\<close>, \<open>Packaged\<close> (\<^verbatim>\<open>luajit/app-runtime.mjs\<close>): limits, one run and its clean-up, and a packaged application over all of the above.
    Effects in flight when a run is aborted go on after its clean-up (\<open>rn_late\<close>).
  \<^item> \<open>Disk\<close>: scripts on a disk, with errors and clean-up. \<open>GuestSnapshot\<close> (\<^verbatim>\<open>prepare-guest.mjs\<close>, \<^verbatim>\<open>browser-snapshot.mjs\<close>): a guest and its snapshots.
    \<open>Packager\<close> (\<^verbatim>\<open>package-browser-app.mjs\<close>, \<^verbatim>\<open>build-runtime-package.mjs\<close>): writing a package; \<open>PackageLoads\<close> joins it with \<open>Packaged\<close>, which loads one.
  \<^item> \<open>SitePages\<close> (\<^verbatim>\<open>prepare-luajit.mjs\<close>, \<^verbatim>\<open>build.mjs\<close>, \<^verbatim>\<open>build-pages.mjs\<close>): the build of the playground and the pages of the site.
  \<^item> \<open>Calls\<close>, \<open>BrowserApp\<close> (\<^verbatim>\<open>browser-worker.mjs\<close>, \<^verbatim>\<open>browser-entry.mjs\<close>): the application's worker and the page.
  \<^item> \<open>Audio\<close> (\<^verbatim>\<open>audio.mjs\<close>, \<^verbatim>\<open>audio-worklet.mjs\<close>): the audio stream.
  \<^item> \<open>Text\<close>, \<open>Percent\<close>, \<open>Paths\<close>: splitting, joining and trimming of texts, percent escapes, paths of the standard library.
  \<^item> \<open>Machine\<close>: the locale of a machine driven by events that keeps an invariant; the pages, the queue and the extension's clients are its interpretations.
  \<^item> \<open>CompilerQueue\<close> (\<^verbatim>\<open>luajit-worker.js\<close>): the compiler worker of the pages, its queue and its replies.
  \<^item> \<open>CompilerClient\<close>, \<open>Snippet\<close> (\<^verbatim>\<open>doc-app.js\<close>): the client that all editors of a page share, and one editor; \<open>DocPage\<close> joins the client with the workers it starts.
  \<^item> \<open>Playground\<close> (\<^verbatim>\<open>app.js\<close>): requests, checks, compilations and runs; \<open>PlayPage\<close> joins it with its workers. \<open>PlaygroundLink\<close> (\<^verbatim>\<open>options.js\<close>): options and links;
    \<open>PlayMenu\<close> (\<^verbatim>\<open>app.js\<close>): the page around them, with its menu, its links and the rows of diagnostics.
  \<^item> \<open>AppWorker\<close> (\<^verbatim>\<open>luajit-app-worker.js\<close>): the worker that runs one program of a page.
  \<^item> \<open>Diagnostics\<close> (\<^verbatim>\<open>app.js\<close>, \<^verbatim>\<open>doc-app.js\<close>): marks, texts and panes. \<open>Highlight\<close> (\<^verbatim>\<open>nupp-lang.js\<close>, \<^verbatim>\<open>lua-output.js\<close>): tokens and the lines of generated code.
  \<^item> \<open>Launch\<close>, \<open>EditorClients\<close>, \<open>Artifacts\<close>, \<open>EditorCommands\<close>, \<open>TestReports\<close> (\<^verbatim>\<open>extension.js\<close>): how a server is launched, the table of language clients, the generated views that scroll with their
    source, the commands, and test runs with coverage.
  \<^item> \<open>Servers\<close> (\<^verbatim>\<open>docs-serve.mjs\<close> and five more scripts): which files they serve.

  \<^bold>\<open>How code becomes definitions.\<close> A closure's variables are a \<^theory_text>\<open>record\<close>, an operation takes and returns it, an exception is \<open>Inl\<close>. Asynchronous code is cut
  at its awaits: each part is a definition, and an \<^theory_text>\<open>inductive\<close> step relation lets the parts interleave with whatever else may happen; what was posted, called or
  ended is a log in the state. The browser (fetch, digests, clocks, timers, the file system, WebGPU, WebAssembly, the
  emulator) is a parameter, a record of functions or an outcome handed to the step that waits for it.

  \<^bold>\<open>What is shown.\<close>

  \<^item> Channels: credits balance and the receiver stays within its limits, values arrive in order and are lost only in the window of a move, moving an endpoint keeps it.
  \<^item> Host channel: memory for uploads stays bounded, frames are filled in order, uploads and results arrive whole, arguments survive encoding.
  \<^item> Tables, pool and lane: supervisors stay paired, no task is lost or answered twice, waiting tasks keep lanes busy, results are final.
  \<^item> Frames and effects: every request is answered once, no wake-up is lost, retained bodies stay bounded, writes store everything, dispatch grids cover their range.
  \<^item> Runs: limits are well typed, budgets hold for every response, the clean-up at the end of a run releases everything and only effects still in flight can change that, a lane runs the build its page verified.
  \<^item> Guest: workers are ended once, frames and answers are numbered in step by the numbers of the guest and of the host, what the worker writes stays in the mailbox, assets match their manifest, kernel calls give back what they take.
  \<^item> Packages: what the packager writes the runtime loads, from the manifest on the disk to the lane, with every asset matching its record; the workers of the assembled site load the compiler that
    the last command of the build dumped and the runtime it compiled; the manifest gets the two snapshots of their own captures, which pass the checks of a guest exactly if they report what it declares; the server and the bundler's
    service are stopped however the scripts end.
  \<^item> Audio: the worklet refines a queue of frames.
  \<^item> Pages: every request to a compiler worker is answered once, operations of a documentation page settle in the order of the calls, with the message of the running one alone unanswered, and are never superseded, a superseded check of
    the playground is never shown, Stop ends what runs, a snippet runs what the compiler answered for the text it shows, a program of a page runs once within the limits of a
    snippet, the link that is copied opens what the page shows, the options chosen are there after a reload unless its address names others, marks stay in the text, the panel
    of generated code shows exactly its lines, every token makes progress, and strings in back quotes end where they should over any number of lines.
  \<^item> Extension: no language server is lost while no start fails late, panes that follow each other do not push back, lines map in order, suites get the verdict of their cases or, when no case is of theirs, the failure of the run, a migration
    never edits without a plan and a confirmation.
  \<^item> Servers: the loopback servers serve only regular files below their root.

  Some theorems show where the code does not do what it means to: a value lost in the window of a move, a file handle opened after the clean-up of its run, an answer released twice, a watched receiver that cannot be dropped, leases stranded by
  refused operations, a text budget that is not applied, an empty audio message, an invalid early push, a late failure that orphans a language server, a Lua tab that stays empty after a
  run, artifacts that stay after an edit, a served sibling directory, a workspace path read as a replacement pattern, a trace check that throws.

  \<^bold>\<open>Bounds.\<close> No fuel is used: every loop of the code is a terminating function, by the length of what it reads or by the depth of one for
  delivered assets. Integers are unbounded where the code checks them to be safe integers, and words where it wraps (\<open>Gpu\<close>) or stores bytes.

  \<^bold>\<open>Not modelled.\<close> The compiler and libraries in Nupp, Rust, Lua and C. The bundle of the extension, which is generated. Of the pages: their elements and styles, and
  the examples. Of the extension: options of the editor API such as the column of a view. Benchmarks, smoke tests, templates, the check of
  the extension's files and the watching build, which only drive the runtime or the tools. JSON texts enter as parameters: their parsing is the language's.
\<close>

end
